(* ===== verification/Nos3_Prelude.thy ===== *)
theory Nos3_Prelude
  imports Main "HOL-Library.Word" "HOL-Library.Monad_Syntax"
begin

text \<open>
  Shared vocabulary of the development: the machine integers of the flight software, byte-level
  access to message and table memory in both host byte orders, the record of an event sent to
  the event services, in-place update of an array element, and the interface that every message
  handler of an application satisfies (\<open>app_handler\<close>).

  A value of type \<open>'a option\<close> is the result of a C expression that may access memory outside an
  object: \<open>None\<close> is that access, \<open>Some\<close> an ordinary result.
\<close>

unbundle bit_operations_syntax

section \<open>Machine integers and events\<close>

type_synonym u8 = "8 word"
type_synonym u16 = "16 word"
type_synonym u32 = "32 word"
type_synonym bytes = "u8 list"

text \<open>
  \<open>CFE_EVS_SendEvent\<close> formats a text and files it; what the code decides is the event number,
  its type and the numbers it prints.
\<close>

record event =
  ev_id :: nat
  ev_type :: nat
  ev_args :: "int list"

abbreviation (input) CFE_EVS_EventType_DEBUG :: nat where "CFE_EVS_EventType_DEBUG \<equiv> 1"
abbreviation (input) CFE_EVS_EventType_INFORMATION :: nat where "CFE_EVS_EventType_INFORMATION \<equiv> 2"
abbreviation (input) CFE_EVS_EventType_ERROR :: nat where "CFE_EVS_EventType_ERROR \<equiv> 3"
abbreviation (input) CFE_EVS_EventType_CRITICAL :: nat where "CFE_EVS_EventType_CRITICAL \<equiv> 4"

section \<open>Bytes and words\<close>

text \<open>The byte order of the processor: struct fields of messages and tables are native.\<close>

datatype endian = LittleEndian | BigEndian

definition hi8 :: "u16 \<Rightarrow> u8" where
  "hi8 w = ucast (drop_bit 8 w)"

definition lo8 :: "u16 \<Rightarrow> u8" where
  "lo8 w = ucast w"

definition join8 :: "u8 \<Rightarrow> u8 \<Rightarrow> u16" where
  "join8 h l = push_bit 8 (ucast h) OR ucast l"

definition join16 :: "u16 \<Rightarrow> u16 \<Rightarrow> u32" where
  "join16 h l = push_bit 16 (ucast h) OR ucast l"

definition hi16 :: "u32 \<Rightarrow> u16" where
  "hi16 w = ucast (drop_bit 16 w)"

definition lo16 :: "u32 \<Rightarrow> u16" where
  "lo16 w = ucast w"

lemma join8_hi_lo [simp]: "join8 (hi8 w) (lo8 w) = w"
  by (rule bit_word_eqI) (auto simp: join8_def hi8_def lo8_def bit_simps)

lemma hi8_join8 [simp]: "hi8 (join8 h l) = h"
  by (rule bit_word_eqI) (auto simp: join8_def hi8_def bit_simps dest: bit_imp_le_length)

lemma lo8_join8 [simp]: "lo8 (join8 h l) = l"
  by (rule bit_word_eqI) (auto simp: join8_def lo8_def bit_simps)

lemma join16_hi_lo [simp]: "join16 (hi16 w) (lo16 w) = w"
  by (rule bit_word_eqI) (auto simp: join16_def hi16_def lo16_def bit_simps)

lemma hi16_join16 [simp]: "hi16 (join16 h l) = h"
  by (rule bit_word_eqI) (auto simp: join16_def hi16_def bit_simps dest: bit_imp_le_length)

lemma lo16_join16 [simp]: "lo16 (join16 h l) = l"
  by (rule bit_word_eqI) (auto simp: join16_def lo16_def bit_simps)

text \<open>The sum the C code writes for a big-endian pair carries nothing: it is the join.\<close>

lemma join8_add: "push_bit 8 (ucast h) + ucast l = join8 h l"
proof -
  have "push_bit 8 (ucast h :: u16) AND (ucast l :: u16) = 0"
    by (rule bit_word_eqI) (auto simp: bit_simps dest: bit_imp_le_length)
  then show ?thesis
    by (simp add: join8_def disjunctive_add_eq_or)
qed

lemma join16_add: "push_bit 16 (ucast h) + ucast l = join16 h l"
proof -
  have "push_bit 16 (ucast h :: u32) AND (ucast l :: u32) = 0"
    by (rule bit_word_eqI) (auto simp: bit_simps dest: bit_imp_le_length)
  then show ?thesis
    by (simp add: join16_def disjunctive_add_eq_or)
qed

lemma unat_join8: "unat (join8 h l) = 256 * unat h + unat l"
proof -
  have h: "unat h < 256" and l: "unat l < 256"
    using unsigned_less [of h] unsigned_less [of l] by simp_all
  show ?thesis
    using h l
    by (simp add: join8_add [symmetric] push_bit_eq_mult unat_word_ariths unsigned_ucast_eq
        take_bit_nat_eq_self)
qed

lemma unat_join16: "unat (join16 h l) = 65536 * unat h + unat l"
proof -
  have h: "unat h < 65536" and l: "unat l < 65536"
    using unsigned_less [of h] unsigned_less [of l] by simp_all
  show ?thesis
    using h l
    by (simp add: join16_add [symmetric] push_bit_eq_mult unat_word_ariths unsigned_ucast_eq
        take_bit_nat_eq_self)
qed

text \<open>A value within a bit width is its own truncation.\<close>

lemma word_unat_eqI: "unat x = unat y \<Longrightarrow> x = y"
  by (rule unsigned_word_eqI)

lemma take_bit_small: "unat x < 2 ^ n \<Longrightarrow> take_bit n x = (x::'a::len word)"
  by (rule word_unat_eqI) (simp only: unsigned_take_bit_eq take_bit_nat_eq_self)

lemma unat_take_bit_less: "unat (take_bit n (x::'a::len word)) < 2 ^ n"
  by (simp only: unsigned_take_bit_eq take_bit_nat_less_exp)

lemma ucast_ucast_small:
  "unat x < 2 ^ LENGTH('b) \<Longrightarrow> ucast (ucast (x::'a::len word) :: 'b::len word) = x"
  by (rule word_unat_eqI) (simp add: unsigned_ucast_eq take_bit_nat_eq_self unsigned_take_bit_eq)

lemma unat_ucast_up [simp]:
  "unat (ucast (x :: u8) :: u16) = unat x" "unat (ucast (x :: u8) :: u32) = unat x"
  "unat (ucast (y :: u16) :: u32) = unat y"
proof -
  have "unat x < 2 ^ 8" and "unat y < 2 ^ 16"
    using unsigned_less [of x] unsigned_less [of y] by simp_all
  then show "unat (ucast x :: u16) = unat x" "unat (ucast x :: u32) = unat x"
    "unat (ucast y :: u32) = unat y"
    by (simp_all add: unsigned_ucast_eq take_bit_nat_eq_self)
qed

text \<open>Carry and borrow of modular arithmetic, and the uniqueness of quotient and remainder.\<close>

lemma mod_add_carry: "\<lbrakk> x < M; y < M \<rbrakk> \<Longrightarrow> ((x + y) mod M < x) = (M \<le> x + (y::nat))"
  by (cases "x + y < M") (auto simp: mod_if)

lemma quot_rem_unique:
  fixes k :: nat
  assumes "a * k + b = c * k + d" and "b < k" and "d < k"
  shows "a = c \<and> b = d"
proof -
  have "(a * k + b) div k = a" and "(c * k + d) div k = c"
    using assms(2,3) by simp_all
  with assms(1) have "a = c" by simp
  with assms(1) show ?thesis by simp
qed

section \<open>Byte-level memory\<close>

text \<open>
  A software-bus buffer is the list of its bytes. Struct members are read at their byte offset,
  in the host's byte order. Handlers read a member only after checking the message length.
\<close>

definition byte_at :: "bytes \<Rightarrow> nat \<Rightarrow> u8" where
  "byte_at m i = (if i < length m then m ! i else 0)"

definition rd16 :: "endian \<Rightarrow> bytes \<Rightarrow> nat \<Rightarrow> u16" where
  "rd16 en m i = (case en of
      LittleEndian \<Rightarrow> join8 (byte_at m (i + 1)) (byte_at m i)
    | BigEndian \<Rightarrow> join8 (byte_at m i) (byte_at m (i + 1)))"

definition rd32 :: "endian \<Rightarrow> bytes \<Rightarrow> nat \<Rightarrow> u32" where
  "rd32 en m i = (case en of
      LittleEndian \<Rightarrow> join16 (rd16 en m (i + 2)) (rd16 en m i)
    | BigEndian \<Rightarrow> join16 (rd16 en m i) (rd16 en m (i + 2)))"

definition wr16 :: "endian \<Rightarrow> bytes \<Rightarrow> nat \<Rightarrow> u16 \<Rightarrow> bytes" where
  "wr16 en m i v = (case en of
      LittleEndian \<Rightarrow> m[i := lo8 v, i + 1 := hi8 v]
    | BigEndian \<Rightarrow> m[i := hi8 v, i + 1 := lo8 v])"

definition wr32 :: "endian \<Rightarrow> bytes \<Rightarrow> nat \<Rightarrow> u32 \<Rightarrow> bytes" where
  "wr32 en m i v = (case en of
      LittleEndian \<Rightarrow> wr16 en (wr16 en m i (lo16 v)) (i + 2) (hi16 v)
    | BigEndian \<Rightarrow> wr16 en (wr16 en m i (hi16 v)) (i + 2) (lo16 v))"

lemma length_wr16 [simp]: "length (wr16 en m i v) = length m"
  by (cases en) (simp_all add: wr16_def)

lemma byte_at_update [simp]:
  "i < length m \<Longrightarrow> byte_at (m[i := v]) j = (if j = i then v else byte_at m j)"
  by (simp add: byte_at_def)

lemma byte_at_update_other [simp]: "j \<noteq> i \<Longrightarrow> byte_at (m[i := v]) j = byte_at m j"
  by (simp add: byte_at_def)

lemma rd16_wr16 [simp]: "i + 1 < length m \<Longrightarrow> rd16 en (wr16 en m i v) i = v"
  by (cases en) (simp_all add: rd16_def wr16_def)

lemma byte_at_wr16 [simp]: "j < i \<Longrightarrow> byte_at (wr16 en m i v) j = byte_at m j"
  by (cases en) (simp_all add: byte_at_def wr16_def)

text \<open>Reading a run of bytes through a pointer: \<open>None\<close> when the run leaves the object.\<close>

definition read_bytes :: "bytes \<Rightarrow> nat \<Rightarrow> nat \<Rightarrow> bytes option" where
  "read_bytes m i n = (if i + n \<le> length m then Some (take n (drop i m)) else None)"

lemma read_bytes_Some [simp]: "i + n \<le> length m \<Longrightarrow> read_bytes m i n = Some (take n (drop i m))"
  by (simp add: read_bytes_def)

lemma read_bytes_None: "read_bytes m i n = None \<longleftrightarrow> length m < i + n"
  by (auto simp: read_bytes_def)

section \<open>Arrays\<close>

definition upd_at :: "nat \<Rightarrow> ('a \<Rightarrow> 'a) \<Rightarrow> 'a list \<Rightarrow> 'a list" where
  "upd_at i f xs = xs[i := f (xs ! i)]"

lemma length_upd_at [simp]: "length (upd_at i f xs) = length xs"
  by (simp add: upd_at_def)

lemma nth_upd_at [simp]: "i < length xs \<Longrightarrow> upd_at i f xs ! j = (if j = i then f (xs ! i) else xs ! j)"
  by (auto simp: upd_at_def nth_list_update)

lemma nth_upd_at_other: "j \<noteq> i \<Longrightarrow> upd_at i f xs ! j = xs ! j"
  by (simp add: upd_at_def)

lemma length_filter_upd_at:
  "i < length xs \<Longrightarrow> length (filter P (upd_at i f xs)) + (if P (xs ! i) then 1 else 0) =
     length (filter P xs) + (if P (f (xs ! i)) then 1 else 0)"
proof (induction xs arbitrary: i)
  case (Cons x xs)
  then show ?case by (cases i) (auto simp: upd_at_def)
qed simp

text \<open>A checked array access: \<open>None\<close> when the index is out of range.\<close>

definition nth_opt :: "'a list \<Rightarrow> nat \<Rightarrow> 'a option" where
  "nth_opt xs i = (if i < length xs then Some (xs ! i) else None)"

definition upd_opt :: "nat \<Rightarrow> ('a \<Rightarrow> 'a) \<Rightarrow> 'a list \<Rightarrow> 'a list option" where
  "upd_opt i f xs = (if i < length xs then Some (upd_at i f xs) else None)"

lemma nth_opt_Some [simp]: "i < length xs \<Longrightarrow> nth_opt xs i = Some (xs ! i)"
  by (simp add: nth_opt_def)

lemma upd_opt_Some [simp]: "i < length xs \<Longrightarrow> upd_opt i f xs = Some (upd_at i f xs)"
  by (simp add: upd_opt_def)

section \<open>Counted loops\<close>

text \<open>\<open>for (i = lo; i < lo + n; i++) f(i)\<close>, where a round may leave its memory.\<close>

fun for_loop :: "nat \<Rightarrow> nat \<Rightarrow> (nat \<Rightarrow> 's \<Rightarrow> 's option) \<Rightarrow> 's \<Rightarrow> 's option" where
  "for_loop lo 0 f s = Some s"
| "for_loop lo (Suc n) f s = Option.bind (f lo s) (for_loop (Suc lo) n f)"

lemma for_loop_inv:
  assumes "P lo s"
    and "\<And>i s. \<lbrakk> lo \<le> i; i < lo + n; P i s \<rbrakk> \<Longrightarrow> \<exists>s'. f i s = Some s' \<and> P (Suc i) s'"
  shows "\<exists>s'. for_loop lo n f s = Some s' \<and> P (lo + n) s'"
  using assms
proof (induction n arbitrary: lo s)
  case 0
  then show ?case by simp
next
  case (Suc n)
  obtain s1 where "f lo s = Some s1" "P (Suc lo) s1" using Suc.prems by fastforce
  moreover have "\<exists>s'. for_loop (Suc lo) n f s1 = Some s' \<and> P (Suc lo + n) s'"
    using Suc.prems(2) by (intro Suc.IH \<open>P (Suc lo) s1\<close>) simp
  ultimately show ?case by simp
qed

text \<open>The loop that rewrites one array entry after the other.\<close>

definition rewritten :: "nat \<Rightarrow> nat \<Rightarrow> (nat \<Rightarrow> 'a \<Rightarrow> 'a) \<Rightarrow> 'a list \<Rightarrow> 'a list \<Rightarrow> bool" where
  "rewritten lo hi f xs ys \<longleftrightarrow> length ys = length xs \<and>
     (\<forall>j<length xs. ys ! j = (if lo \<le> j \<and> j < hi then f j (xs ! j) else xs ! j))"

lemma rewritten_refl [simp]: "rewritten lo lo f xs xs"
  by (auto simp: rewritten_def)

lemma rewritten_step:
  "\<lbrakk> rewritten lo i f xs ys; lo \<le> i; i < length xs \<rbrakk> \<Longrightarrow> rewritten lo (Suc i) f xs (upd_at i (f i) ys)"
  by (auto simp: rewritten_def less_Suc_eq)

section \<open>The interface of a message handler\<close>

text \<open>
  Every cFS application is a loop that receives a message and hands it to one handler. The
  handler's contract is an invariant of the application's state that it keeps on every
  acceptable input, without leaving its memory; then so does every run of the loop.
\<close>

primrec run_handler :: "('s \<Rightarrow> 'i \<Rightarrow> 's option) \<Rightarrow> 's \<Rightarrow> 'i list \<Rightarrow> 's option" where
  "run_handler h s [] = Some s"
| "run_handler h s (i # is) = Option.bind (h s i) (\<lambda>s'. run_handler h s' is)"

lemma run_handler_append:
  "run_handler h s (xs @ ys) = Option.bind (run_handler h s xs) (\<lambda>s'. run_handler h s' ys)"
  by (induction xs arbitrary: s) (auto split: Option.bind_splits)

locale app_handler =
  fixes handle :: "'s \<Rightarrow> 'i \<Rightarrow> 's option"
    and inv :: "'s \<Rightarrow> bool"
    and acceptable :: "'i \<Rightarrow> bool"
  assumes handle_ok: "\<lbrakk> inv s; acceptable i \<rbrakk> \<Longrightarrow> \<exists>s'. handle s i = Some s' \<and> inv s'"
begin

lemma run_ok: "\<lbrakk> inv s; list_all acceptable is \<rbrakk> \<Longrightarrow> \<exists>s'. run_handler handle s is = Some s' \<and> inv s'"
proof (induction "is" arbitrary: s)
  case Nil
  then show ?case by simp
next
  case (Cons i "is")
  then obtain s1 where "handle s i = Some s1" "inv s1"
    using handle_ok by fastforce
  with Cons show ?case by simp
qed

lemma run_inv: "\<lbrakk> inv s; list_all acceptable is; run_handler handle s is = Some s' \<rbrakk> \<Longrightarrow> inv s'"
  using run_ok by fastforce

end

end
