(* ===== verification/Cfe_Time.thy ===== *)
theory Cfe_Time
  imports Nos3_Prelude
begin

text \<open>
  Time arithmetic of the cFE time services (\<open>cfe_time_api.c\<close>): 32.32 fixed-point times, their
  sum and difference with the carry between the two halves, and the comparison that treats a
  distance of more than \<open>CFE_TIME_NEGATIVE\<close> seconds as a roll-over of the clock.
\<close>

record CFE_TIME_SysTime =
  Seconds :: u32
  Subseconds :: u32

datatype CFE_TIME_Compare_t = CFE_TIME_A_LT_B | CFE_TIME_EQUAL | CFE_TIME_A_GT_B

abbreviation (input) CFE_TIME_NEGATIVE :: u32 where
  "CFE_TIME_NEGATIVE \<equiv> 0x80000000"

definition CFE_TIME_Add :: "CFE_TIME_SysTime \<Rightarrow> CFE_TIME_SysTime \<Rightarrow> CFE_TIME_SysTime" where
  "CFE_TIME_Add Time1 Time2 =
     (let sub = Subseconds Time1 + Subseconds Time2 in
      if sub < Subseconds Time1
      then \<lparr>Seconds = (Seconds Time1 + Seconds Time2) + 1, Subseconds = sub\<rparr>
      else \<lparr>Seconds = Seconds Time1 + Seconds Time2, Subseconds = sub\<rparr>)"

definition CFE_TIME_Subtract :: "CFE_TIME_SysTime \<Rightarrow> CFE_TIME_SysTime \<Rightarrow> CFE_TIME_SysTime" where
  "CFE_TIME_Subtract Time1 Time2 =
     (let sub = Subseconds Time1 - Subseconds Time2 in
      if sub > Subseconds Time1
      then \<lparr>Seconds = (Seconds Time1 - Seconds Time2) - 1, Subseconds = sub\<rparr>
      else \<lparr>Seconds = Seconds Time1 - Seconds Time2, Subseconds = sub\<rparr>)"

definition CFE_TIME_Compare :: "CFE_TIME_SysTime \<Rightarrow> CFE_TIME_SysTime \<Rightarrow> CFE_TIME_Compare_t" where
  "CFE_TIME_Compare TimeA TimeB =
     (if Seconds TimeA > Seconds TimeB
      then (if Seconds TimeA - Seconds TimeB > CFE_TIME_NEGATIVE
            then CFE_TIME_A_LT_B else CFE_TIME_A_GT_B)
      else if Seconds TimeA < Seconds TimeB
      then (if Seconds TimeB - Seconds TimeA > CFE_TIME_NEGATIVE
            then CFE_TIME_A_GT_B else CFE_TIME_A_LT_B)
      else if Subseconds TimeA > Subseconds TimeB then CFE_TIME_A_GT_B
      else if Subseconds TimeA < Subseconds TimeB then CFE_TIME_A_LT_B
      else CFE_TIME_EQUAL)"

text \<open>The instant a time stands for, in units of 2 to the minus 32 seconds.\<close>

definition systime_val :: "CFE_TIME_SysTime \<Rightarrow> nat" where
  "systime_val t = unat (Seconds t) * 2 ^ 32 + unat (Subseconds t)"

lemma unat_u32_bound: "unat (x::u32) < 2 ^ 32"
  using unsigned_less [of x] by simp

lemma systime_val_bound: "systime_val t < 2 ^ 64"
  using unat_u32_bound [of "Seconds t"] unat_u32_bound [of "Subseconds t"]
  by (simp add: systime_val_def)

lemma systime_val_inj: "systime_val a = systime_val b \<longleftrightarrow> a = b"
proof
  assume "systime_val a = systime_val b"
  then have "unat (Seconds a) = unat (Seconds b) \<and> unat (Subseconds a) = unat (Subseconds b)"
    unfolding systime_val_def by (rule quot_rem_unique) (rule unat_u32_bound)+
  then show "a = b" by (cases a; cases b) (auto dest: unsigned_word_eqI)
qed simp

text \<open>The two halves of a 64-bit sum, and the carry from the low half.\<close>

lemma two_halves_add:
  fixes a b c d M :: nat
  assumes "a < M" "b < M" "c < M" "d < M"
  shows "(a * M + b + (c * M + d)) mod (M * M) =
         ((a + c + (if M \<le> b + d then 1 else 0)) mod M) * M + (b + d) mod M"
proof -
  let ?k = "if M \<le> b + d then 1 else 0 :: nat"
  have low: "(b + d) mod M = b + d - ?k * M" and le: "?k * M \<le> b + d"
    using assms by (simp_all add: mod_if)
  have "a * M + b + (c * M + d) = (a + c + ?k) * M + (b + d) mod M"
    using low le by (simp add: algebra_simps)
  also have "\<dots> mod (M * M) = ((a + c + ?k) mod M) * M + (b + d) mod M"
    using assms by (simp add: mod_mult2_eq)
  finally show ?thesis .
qed

text \<open>
  The sum of two times is the 64-bit sum of the instants, in units of a 32-bit fraction of a
  second, modulo 2 to the 64: the carry of the fractions is never lost.
\<close>

theorem CFE_TIME_Add_val:
  "systime_val (CFE_TIME_Add a b) = (systime_val a + systime_val b) mod 2 ^ 64"
proof -
  have carry: "Subseconds a + Subseconds b < Subseconds a \<longleftrightarrow>
      2 ^ 32 \<le> unat (Subseconds a) + unat (Subseconds b)"
    using mod_add_carry [OF unat_u32_bound [of "Subseconds a"] unat_u32_bound [of "Subseconds b"]]
    by (simp add: word_less_nat_alt unat_word_ariths)
  show ?thesis
    using two_halves_add [OF unat_u32_bound [of "Seconds a"] unat_u32_bound [of "Subseconds a"]
        unat_u32_bound [of "Seconds b"] unat_u32_bound [of "Subseconds b"]]
    by (simp add: systime_val_def CFE_TIME_Add_def Let_def carry unat_word_ariths mod_Suc_eq)
qed

text \<open>
  Subtraction undoes addition and addition undoes subtraction, for all times, carries and
  borrows included.
\<close>

theorem CFE_TIME_Subtract_inverse:
  "CFE_TIME_Subtract (CFE_TIME_Add a b) b = a \<and> CFE_TIME_Add (CFE_TIME_Subtract a b) b = a"
  by (simp add: CFE_TIME_Add_def CFE_TIME_Subtract_def Let_def)

section \<open>Comparison\<close>

fun flip_compare :: "CFE_TIME_Compare_t \<Rightarrow> CFE_TIME_Compare_t" where
  "flip_compare CFE_TIME_A_LT_B = CFE_TIME_A_GT_B"
| "flip_compare CFE_TIME_A_GT_B = CFE_TIME_A_LT_B"
| "flip_compare CFE_TIME_EQUAL = CFE_TIME_EQUAL"

lemma CFE_TIME_Compare_flip: "CFE_TIME_Compare b a = flip_compare (CFE_TIME_Compare a b)"
  by (auto simp: CFE_TIME_Compare_def)

lemma CFE_TIME_Compare_refl [simp]: "CFE_TIME_Compare a a = CFE_TIME_EQUAL"
  by (simp add: CFE_TIME_Compare_def)

lemma small_neg_word:
  assumes "(0::u32) < k" and "k < 0x80000000"
  shows "0x80000000 < - k"
proof -
  have "0 < uint k" and "uint k < 0x80000000"
    using assms by (simp_all add: word_less_def)
  then have "uint (- k) = 2 ^ 32 - uint k"
    by (simp add: uint_word_ariths zmod_zminus1_eq_if mod_pos_pos_trivial)
  then show ?thesis
    using \<open>uint k < 0x80000000\<close> by (simp add: word_less_def)
qed

lemma later_seconds:
  assumes "(0::u32) < k" and "k < 0x80000000"
  shows "CFE_TIME_Compare \<lparr>Seconds = s + k, Subseconds = u\<rparr> \<lparr>Seconds = s, Subseconds = v\<rparr> = CFE_TIME_A_GT_B"
proof -
  have "s + k \<noteq> s" using assms by auto
  moreover have "s - (s + k) = - k" by simp
  ultimately show ?thesis
    using assms small_neg_word [OF assms] by (auto simp: CFE_TIME_Compare_def)
qed

text \<open>
  The seconds by which a time \<open>d\<close> moves the seconds counter on from \<open>a\<close>, the carry of the fractions included.
\<close>

definition seconds_on :: "CFE_TIME_SysTime \<Rightarrow> CFE_TIME_SysTime \<Rightarrow> nat" where
  "seconds_on a d = unat (Seconds d) + (if 2 ^ 32 \<le> unat (Subseconds a) + unat (Subseconds d) then 1 else 0)"

lemma Add_seconds_on:
  "CFE_TIME_Add a d = \<lparr>Seconds = Seconds a + of_nat (seconds_on a d), Subseconds = Subseconds a + Subseconds d\<rparr>"
proof -
  have "Subseconds a + Subseconds d < Subseconds a \<longleftrightarrow> 2 ^ 32 \<le> unat (Subseconds a) + unat (Subseconds d)"
    using mod_add_carry [OF unat_u32_bound [of "Subseconds a"] unat_u32_bound [of "Subseconds d"]]
    by (simp add: word_less_nat_alt unat_word_ariths)
  then show ?thesis by (simp add: CFE_TIME_Add_def seconds_on_def Let_def add.assoc)
qed

lemma same_second: "v < u \<Longrightarrow> CFE_TIME_Compare \<lparr>Seconds = s, Subseconds = u\<rparr> \<lparr>Seconds = s, Subseconds = v\<rparr> = CFE_TIME_A_GT_B"
  by (simp add: CFE_TIME_Compare_def)

lemma half_way:
  "CFE_TIME_Compare \<lparr>Seconds = s + 0x80000000, Subseconds = u\<rparr> \<lparr>Seconds = s, Subseconds = v\<rparr> =
     (if s < 0x80000000 then CFE_TIME_A_GT_B else CFE_TIME_A_LT_B)"
proof -
  have "s < s + 0x80000000 \<longleftrightarrow> s < 0x80000000" "s + 0x80000000 \<noteq> s" "s - (s + 0x80000000) = 0x80000000"
    using unat_u32_bound [of s] by (auto simp: word_less_nat_alt unat_word_ariths mod_if)
  then show ?thesis by (auto simp: CFE_TIME_Compare_def)
qed

text \<open>
  C36. The comparison orders times across a roll-over of the clock: a time that is later than \<open>a\<close> compares
  greater while the seconds counter, carry included, moves on by less than \<open>2 ^ 31\<close>, even when it wraps in
  between, and less when it moves on by more; at exactly \<open>2 ^ 31\<close> the greater number counts as later.
\<close>

theorem CFE_TIME_Compare_window:
  assumes "0 < systime_val d" and "seconds_on a d < 2 ^ 32"
  shows "CFE_TIME_Compare (CFE_TIME_Add a d) a =
    (if seconds_on a d < 2 ^ 31 \<or> seconds_on a d = 2 ^ 31 \<and> Seconds a < 0x80000000 then CFE_TIME_A_GT_B else CFE_TIME_A_LT_B) \<and>
    CFE_TIME_Compare a (CFE_TIME_Add a d) = flip_compare (CFE_TIME_Compare (CFE_TIME_Add a d) a)"
proof -
  define n and k :: u32 where "n = seconds_on a d" and "k = of_nat n"
  obtain s u where a: "a = \<lparr>Seconds = s, Subseconds = u\<rparr>" by (cases a)
  have k: "unat k = n" using assms(2) by (simp add: k_def n_def unsigned_of_nat take_bit_nat_eq_self)
  have eq: "CFE_TIME_Add a d = \<lparr>Seconds = s + k, Subseconds = u + Subseconds d\<rparr>"
    using Add_seconds_on [of a d] by (simp add: a k_def n_def)
  consider "n = 0" | "0 < n" "n < 2 ^ 31" | "n = 2 ^ 31" | "2 ^ 31 < n" by linarith
  then have "CFE_TIME_Compare (CFE_TIME_Add a d) a =
      (if n < 2 ^ 31 \<or> n = 2 ^ 31 \<and> s < 0x80000000 then CFE_TIME_A_GT_B else CFE_TIME_A_LT_B)"
  proof cases
    case 1
    then have "unat (Seconds d) = 0" and c: "unat u + unat (Subseconds d) < 2 ^ 32"
      by (simp_all add: n_def seconds_on_def a split: if_splits)
    then have "0 < unat (Subseconds d)" using assms(1) by (simp add: systime_val_def)
    then have "u < u + Subseconds d" using c by (simp add: word_less_nat_alt unat_word_ariths)
    then show ?thesis using same_second 1 unfolding eq by (simp add: a k_def)
  next
    case 2
    then have "0 < k" "k < 0x80000000" using k by (simp_all add: word_less_nat_alt)
    from later_seconds [OF this] show ?thesis using 2 unfolding eq by (simp add: a)
  next
    case 3
    then show ?thesis using half_way unfolding eq by (simp add: a k_def)
  next
    case 4
    have pos: "0x80000000 < uint k" using 4 k by (simp add: uint_nat)
    have "uint k < 2 ^ 32" using uint_bounded [of k] by simp
    with pos have "uint (- k) = 2 ^ 32 - uint k"
      by (simp add: uint_word_ariths zmod_zminus1_eq_if mod_pos_pos_trivial)
    then have "0 < - k" "- k < 0x80000000" using pos \<open>uint k < 2 ^ 32\<close> by (simp_all add: word_less_def)
    from later_seconds [OF this, of "s + k" u "u + Subseconds d"]
    have "CFE_TIME_Compare a (CFE_TIME_Add a d) = CFE_TIME_A_GT_B" unfolding eq by (simp add: a)
    then show ?thesis using 4 by (simp add: CFE_TIME_Compare_flip [of "CFE_TIME_Add a d" a])
  qed
  moreover have "Seconds a = s" by (simp add: a)
  ultimately show ?thesis using CFE_TIME_Compare_flip [of a "CFE_TIME_Add a d"] unfolding n_def by blast
qed

theorem CFE_TIME_Compare_window_witness:
  "CFE_TIME_Compare
     (CFE_TIME_Add \<lparr>Seconds = 0xFFFFFFFF, Subseconds = 0x80000000\<rparr> \<lparr>Seconds = 5, Subseconds = 0xC0000000\<rparr>)
     \<lparr>Seconds = 0xFFFFFFFF, Subseconds = 0x80000000\<rparr> = CFE_TIME_A_GT_B"
  using CFE_TIME_Compare_window [of "\<lparr>Seconds = 5, Subseconds = 0xC0000000\<rparr>"
      "\<lparr>Seconds = 0xFFFFFFFF, Subseconds = 0x80000000\<rparr>"]
  by (simp add: systime_val_def seconds_on_def)

end
