(* ===== verification/Cfe_Msg.thy ===== *)
theory Cfe_Msg
  imports Cfe_Time
begin

text \<open>
  The CCSDS message headers of cFE (\<open>modules/msg\<close>): the primary-header fields, the message id, the
  command function code and checksum and the telemetry time, as operations on the bytes of a
  message. Header fields are big-endian by construction, whatever the host. Setters return the
  status and the message; a rejected value leaves the message as it was.
  The \<open>msg_field\<close> contract (what a getter returns after its setter) is interpreted for each field.
  Branches on null pointers have no counterpart: a message is always given.
\<close>

datatype msg_status = CFE_SUCCESS | CFE_MSG_BAD_ARGUMENT | CFE_MSG_WRONG_MSG_TYPE

datatype CFE_MSG_Type_t = CFE_MSG_Type_Invalid | CFE_MSG_Type_Cmd | CFE_MSG_Type_Tlm

datatype CFE_MSG_SegmentationFlag_t =
  CFE_MSG_SegFlag_Invalid | CFE_MSG_SegFlag_Continue | CFE_MSG_SegFlag_First |
  CFE_MSG_SegFlag_Last | CFE_MSG_SegFlag_Unsegmented

section \<open>Masked fields of a two-byte word\<close>

definition CFE_MSG_GetHeaderField :: "bytes \<Rightarrow> nat \<Rightarrow> u16 \<Rightarrow> u16" where
  "CFE_MSG_GetHeaderField m w Mask = join8 (byte_at m w) (byte_at m (w + 1)) AND Mask"

definition CFE_MSG_SetHeaderField :: "bytes \<Rightarrow> nat \<Rightarrow> u16 \<Rightarrow> u16 \<Rightarrow> bytes" where
  "CFE_MSG_SetHeaderField m w Val Mask =
     m[w := (byte_at m w AND NOT (hi8 Mask)) OR hi8 (Val AND Mask),
       w + 1 := (byte_at m (w + 1) AND NOT (lo8 Mask)) OR lo8 (Val AND Mask)]"

lemma length_SetHeaderField [simp]: "length (CFE_MSG_SetHeaderField m w v k) = length m"
  by (simp add: CFE_MSG_SetHeaderField_def)

lemma byte_at_SetHeaderField_other:
  "\<lbrakk> i \<noteq> w; i \<noteq> w + 1 \<rbrakk> \<Longrightarrow> byte_at (CFE_MSG_SetHeaderField m w v k) i = byte_at m i"
  by (simp add: CFE_MSG_SetHeaderField_def byte_at_def)

lemma join8_masked:
  "join8 ((a AND NOT (hi8 k)) OR hi8 (v AND k)) ((b AND NOT (lo8 k)) OR lo8 (v AND k)) =
   (join8 a b AND NOT k) OR (v AND k)"
  by (rule bit_word_eqI)
    (auto simp: join8_def hi8_def lo8_def bit_simps dest: bit_imp_le_length)

lemma word_SetHeaderField:
  "w + 1 < length m \<Longrightarrow>
   join8 (byte_at (CFE_MSG_SetHeaderField m w v k) w) (byte_at (CFE_MSG_SetHeaderField m w v k) (w + 1)) =
   (join8 (byte_at m w) (byte_at m (w + 1)) AND NOT k) OR (v AND k)"
  by (simp add: CFE_MSG_SetHeaderField_def join8_masked)

lemma Get_SetHeaderField:
  assumes "w + 1 < length m"
  shows "CFE_MSG_GetHeaderField (CFE_MSG_SetHeaderField m w v k) w k = v AND k"
  unfolding CFE_MSG_GetHeaderField_def word_SetHeaderField [OF assms]
  by (rule bit_word_eqI) (auto simp: bit_simps)

lemma Get_SetHeaderField_disjoint:
  assumes "w + 1 < length m" and "k AND k' = 0"
  shows "CFE_MSG_GetHeaderField (CFE_MSG_SetHeaderField m w v k) w k' = CFE_MSG_GetHeaderField m w k'"
proof -
  have "\<not> (bit k n \<and> bit k' n)" for n
    using assms(2) by (metis bit_0_eq bit_and_iff bot_apply bot_bool_def)
  then show ?thesis
    unfolding CFE_MSG_GetHeaderField_def word_SetHeaderField [OF assms(1)]
    by (intro bit_word_eqI) (auto simp: bit_simps)
qed

lemma Get_SetHeaderField_other:
  "\<lbrakk> w' \<noteq> w; w' + 1 \<noteq> w; w' \<noteq> w + 1 \<rbrakk> \<Longrightarrow>
   CFE_MSG_GetHeaderField (CFE_MSG_SetHeaderField m w v k) w' k' = CFE_MSG_GetHeaderField m w' k'"
  by (simp add: CFE_MSG_GetHeaderField_def byte_at_SetHeaderField_other)

lemma masked_hi_twice:
  "((((a AND NOT (hi8 k)) OR hi8 (v AND k)) AND NOT (hi8 k)) OR hi8 (v' AND k)) =
   (a AND NOT (hi8 k)) OR hi8 (v' AND k)"
  by (rule bit_word_eqI) (auto simp: hi8_def bit_simps)

lemma masked_lo_twice:
  "((((a AND NOT (lo8 k)) OR lo8 (v AND k)) AND NOT (lo8 k)) OR lo8 (v' AND k)) =
   (a AND NOT (lo8 k)) OR lo8 (v' AND k)"
  by (rule bit_word_eqI) (auto simp: lo8_def bit_simps)

lemma SetHeaderField_twice:
  "w + 1 < length m \<Longrightarrow>
   CFE_MSG_SetHeaderField (CFE_MSG_SetHeaderField m w v k) w v' k = CFE_MSG_SetHeaderField m w v' k"
  by (simp add: CFE_MSG_SetHeaderField_def list_update_swap [of w "Suc w"] masked_hi_twice masked_lo_twice)

lemma SetHeaderField_same:
  assumes "w + 1 < length m"
  shows "CFE_MSG_SetHeaderField m w (CFE_MSG_GetHeaderField m w k) k = m"
proof -
  have "(m ! w AND NOT (hi8 k)) OR hi8 (join8 (m ! w) (m ! Suc w) AND k AND k) = m ! w"
    by (rule bit_word_eqI) (auto simp: join8_def hi8_def bit_simps dest: bit_imp_le_length)
  moreover have "(m ! Suc w AND NOT (lo8 k)) OR lo8 (join8 (m ! w) (m ! Suc w) AND k AND k) = m ! Suc w"
    by (rule bit_word_eqI) (auto simp: join8_def lo8_def bit_simps)
  ultimately show ?thesis
    using assms by (simp add: CFE_MSG_SetHeaderField_def CFE_MSG_GetHeaderField_def byte_at_def and.assoc)
qed

section \<open>The primary header\<close>

text \<open>Offsets of \<open>StreamId\<close>, \<open>Sequence\<close> and \<open>Length\<close> in a message.\<close>

abbreviation (input) StreamId :: nat where "StreamId \<equiv> 0"
abbreviation (input) Sequence :: nat where "Sequence \<equiv> 2"
abbreviation (input) Length :: nat where "Length \<equiv> 4"

definition CFE_MSG_GetHeaderVersion :: "bytes \<Rightarrow> u16" where
  "CFE_MSG_GetHeaderVersion m = drop_bit 13 (CFE_MSG_GetHeaderField m StreamId 0xE000)"

definition CFE_MSG_SetHeaderVersion :: "bytes \<Rightarrow> u16 \<Rightarrow> msg_status \<times> bytes" where
  "CFE_MSG_SetHeaderVersion m Version =
     (if Version > drop_bit 13 0xE000 then (CFE_MSG_BAD_ARGUMENT, m)
      else (CFE_SUCCESS, CFE_MSG_SetHeaderField m StreamId (push_bit 13 Version) 0xE000))"

definition CFE_MSG_GetType :: "bytes \<Rightarrow> CFE_MSG_Type_t" where
  "CFE_MSG_GetType m = (if byte_at m StreamId AND 0x10 \<noteq> 0 then CFE_MSG_Type_Cmd else CFE_MSG_Type_Tlm)"

definition CFE_MSG_SetType :: "bytes \<Rightarrow> CFE_MSG_Type_t \<Rightarrow> msg_status \<times> bytes" where
  "CFE_MSG_SetType m Type = (case Type of
      CFE_MSG_Type_Cmd \<Rightarrow> (CFE_SUCCESS, m[StreamId := byte_at m StreamId OR 0x10])
    | CFE_MSG_Type_Tlm \<Rightarrow> (CFE_SUCCESS, m[StreamId := byte_at m StreamId AND NOT 0x10])
    | CFE_MSG_Type_Invalid \<Rightarrow> (CFE_MSG_BAD_ARGUMENT, m))"

definition CFE_MSG_GetHasSecondaryHeader :: "bytes \<Rightarrow> bool" where
  "CFE_MSG_GetHasSecondaryHeader m \<longleftrightarrow> byte_at m StreamId AND 0x08 \<noteq> 0"

definition CFE_MSG_SetHasSecondaryHeader :: "bytes \<Rightarrow> bool \<Rightarrow> bytes" where
  "CFE_MSG_SetHasSecondaryHeader m HasSecondary =
     (if HasSecondary then m[StreamId := byte_at m StreamId OR 0x08]
      else m[StreamId := byte_at m StreamId AND NOT 0x08])"

definition CFE_MSG_GetApId :: "bytes \<Rightarrow> u16" where
  "CFE_MSG_GetApId m = CFE_MSG_GetHeaderField m StreamId 0x07FF"

definition CFE_MSG_SetApId :: "bytes \<Rightarrow> u16 \<Rightarrow> msg_status \<times> bytes" where
  "CFE_MSG_SetApId m ApId =
     (if ApId AND NOT 0x07FF \<noteq> 0 then (CFE_MSG_BAD_ARGUMENT, m)
      else (CFE_SUCCESS, CFE_MSG_SetHeaderField m StreamId ApId 0x07FF))"

definition CFE_MSG_GetSegmentationFlag :: "bytes \<Rightarrow> CFE_MSG_SegmentationFlag_t" where
  "CFE_MSG_GetSegmentationFlag m =
     (let rawval = CFE_MSG_GetHeaderField m Sequence 0xC000 in
      if rawval = 0 then CFE_MSG_SegFlag_Continue
      else if rawval = 0x4000 then CFE_MSG_SegFlag_First
      else if rawval = 0x8000 then CFE_MSG_SegFlag_Last
      else CFE_MSG_SegFlag_Unsegmented)"

definition CFE_MSG_SetSegmentationFlag :: "bytes \<Rightarrow> CFE_MSG_SegmentationFlag_t \<Rightarrow> msg_status \<times> bytes" where
  "CFE_MSG_SetSegmentationFlag m SegFlag = (case SegFlag of
      CFE_MSG_SegFlag_Continue \<Rightarrow> (CFE_SUCCESS, CFE_MSG_SetHeaderField m Sequence 0 0xC000)
    | CFE_MSG_SegFlag_First \<Rightarrow> (CFE_SUCCESS, CFE_MSG_SetHeaderField m Sequence 0x4000 0xC000)
    | CFE_MSG_SegFlag_Last \<Rightarrow> (CFE_SUCCESS, CFE_MSG_SetHeaderField m Sequence 0x8000 0xC000)
    | CFE_MSG_SegFlag_Unsegmented \<Rightarrow> (CFE_SUCCESS, CFE_MSG_SetHeaderField m Sequence 0xC000 0xC000)
    | CFE_MSG_SegFlag_Invalid \<Rightarrow> (CFE_MSG_BAD_ARGUMENT, m))"

definition CFE_MSG_GetSequenceCount :: "bytes \<Rightarrow> u16" where
  "CFE_MSG_GetSequenceCount m = CFE_MSG_GetHeaderField m Sequence 0x3FFF"

definition CFE_MSG_SetSequenceCount :: "bytes \<Rightarrow> u16 \<Rightarrow> msg_status \<times> bytes" where
  "CFE_MSG_SetSequenceCount m SeqCnt =
     (if SeqCnt AND NOT 0x3FFF \<noteq> 0 then (CFE_MSG_BAD_ARGUMENT, m)
      else (CFE_SUCCESS, CFE_MSG_SetHeaderField m Sequence SeqCnt 0x3FFF))"

definition CFE_MSG_GetNextSequenceCount :: "u16 \<Rightarrow> u16" where
  "CFE_MSG_GetNextSequenceCount SeqCnt = (if SeqCnt + 1 > 0x3FFF then 0 else SeqCnt + 1)"

definition CFE_MSG_GetSize :: "bytes \<Rightarrow> nat" where
  "CFE_MSG_GetSize m = unat (byte_at m Length) * 2 ^ 8 + unat (byte_at m (Length + 1)) + 7"

definition CFE_MSG_SetSize :: "bytes \<Rightarrow> nat \<Rightarrow> msg_status \<times> bytes" where
  "CFE_MSG_SetSize m Size =
     (if Size < 7 \<or> Size > 0xFFFF + 7 then (CFE_MSG_BAD_ARGUMENT, m)
      else (CFE_SUCCESS, m[Length := of_nat ((Size - 7) div 2 ^ 8), Length + 1 := of_nat (Size - 7)]))"

section \<open>The message id\<close>

definition CFE_MSG_GetMsgId :: "bytes \<Rightarrow> u32" where
  "CFE_MSG_GetMsgId m = push_bit 8 (ucast (byte_at m StreamId)) + ucast (byte_at m (StreamId + 1))"

definition CFE_MSG_SetMsgId :: "bytes \<Rightarrow> u32 \<Rightarrow> msg_status \<times> bytes" where
  "CFE_MSG_SetMsgId m MsgId =
     (if MsgId > 0x1FFF then (CFE_MSG_BAD_ARGUMENT, m)
      else (CFE_SUCCESS, m[StreamId := ucast (drop_bit 8 MsgId), StreamId + 1 := ucast MsgId]))"

definition CFE_MSG_GetTypeFromMsgId :: "u32 \<Rightarrow> msg_status \<times> CFE_MSG_Type_t option" where
  "CFE_MSG_GetTypeFromMsgId MsgId =
     (let (status, msg) = CFE_MSG_SetMsgId (replicate 8 0) MsgId in
      if status = CFE_SUCCESS then (CFE_SUCCESS, Some (CFE_MSG_GetType msg)) else (status, None))"

definition CFE_SB_IsValidMsgId :: "u32 \<Rightarrow> bool" where
  "CFE_SB_IsValidMsgId MsgId \<longleftrightarrow> MsgId \<noteq> 0 \<and> MsgId \<le> 0x1FFF"


section \<open>Secondary headers\<close>

definition is_cmd_with_sechdr :: "bytes \<Rightarrow> bool" where
  "is_cmd_with_sechdr m \<longleftrightarrow> \<not> (CFE_MSG_GetType m \<noteq> CFE_MSG_Type_Cmd \<or> \<not> CFE_MSG_GetHasSecondaryHeader m)"

definition is_tlm_with_sechdr :: "bytes \<Rightarrow> bool" where
  "is_tlm_with_sechdr m \<longleftrightarrow> \<not> (CFE_MSG_GetType m \<noteq> CFE_MSG_Type_Tlm \<or> \<not> CFE_MSG_GetHasSecondaryHeader m)"

definition CFE_MSG_GetFcnCode :: "bytes \<Rightarrow> msg_status \<times> u16" where
  "CFE_MSG_GetFcnCode m =
     (if \<not> is_cmd_with_sechdr m then (CFE_MSG_WRONG_MSG_TYPE, 0)
      else (CFE_SUCCESS, ucast (byte_at m 6) AND 0x7F))"

definition CFE_MSG_SetFcnCode :: "bytes \<Rightarrow> u16 \<Rightarrow> msg_status \<times> bytes" where
  "CFE_MSG_SetFcnCode m FcnCode =
     (if FcnCode > 0x7F then (CFE_MSG_BAD_ARGUMENT, m)
      else if \<not> is_cmd_with_sechdr m then (CFE_MSG_WRONG_MSG_TYPE, m)
      else (CFE_SUCCESS, m[6 := ucast FcnCode]))"

text \<open>The loop of \<open>CFE_MSG_ComputeCheckSum\<close>: \<open>n\<close> bytes remain from position \<open>i\<close>.\<close>

fun checksum_loop :: "bytes \<Rightarrow> nat \<Rightarrow> nat \<Rightarrow> u8 \<Rightarrow> u8 option" where
  "checksum_loop m i 0 chk = Some chk"
| "checksum_loop m i (Suc n) chk =
     (case nth_opt m i of None \<Rightarrow> None | Some b \<Rightarrow> checksum_loop m (i + 1) n (chk XOR b))"

definition CFE_MSG_ComputeCheckSum :: "bytes \<Rightarrow> u8 option" where
  "CFE_MSG_ComputeCheckSum m = checksum_loop m 0 (CFE_MSG_GetSize m) 0xFF"

definition CFE_MSG_GenerateChecksum :: "bytes \<Rightarrow> (msg_status \<times> bytes) option" where
  "CFE_MSG_GenerateChecksum m =
     (if \<not> is_cmd_with_sechdr m then Some (CFE_MSG_WRONG_MSG_TYPE, m)
      else do {
        let m = m[7 := 0];
        chk \<leftarrow> CFE_MSG_ComputeCheckSum m;
        Some (CFE_SUCCESS, m[7 := chk])
      })"

definition CFE_MSG_ValidateChecksum :: "bytes \<Rightarrow> (msg_status \<times> bool) option" where
  "CFE_MSG_ValidateChecksum m =
     (if \<not> is_cmd_with_sechdr m then Some (CFE_MSG_WRONG_MSG_TYPE, False)
      else do {
        chk \<leftarrow> CFE_MSG_ComputeCheckSum m;
        Some (CFE_SUCCESS, chk = 0)
      })"

definition CFE_MSG_SetMsgTime :: "bytes \<Rightarrow> CFE_TIME_SysTime \<Rightarrow> msg_status \<times> bytes" where
  "CFE_MSG_SetMsgTime m NewTime =
     (if \<not> is_tlm_with_sechdr m then (CFE_MSG_WRONG_MSG_TYPE, m)
      else (CFE_SUCCESS,
        m[6 := ucast (drop_bit 24 (Seconds NewTime)), 7 := ucast (drop_bit 16 (Seconds NewTime)),
          8 := ucast (drop_bit 8 (Seconds NewTime)), 9 := ucast (Seconds NewTime),
          10 := ucast (drop_bit 24 (Subseconds NewTime)), 11 := ucast (drop_bit 16 (Subseconds NewTime))]))"

definition CFE_MSG_GetMsgTime :: "bytes \<Rightarrow> msg_status \<times> CFE_TIME_SysTime" where
  "CFE_MSG_GetMsgTime m =
     (if \<not> is_tlm_with_sechdr m then (CFE_MSG_WRONG_MSG_TYPE, \<lparr>Seconds = 0, Subseconds = 0\<rparr>)
      else (CFE_SUCCESS,
        \<lparr>Seconds = push_bit 24 (ucast (byte_at m 6)) + push_bit 16 (ucast (byte_at m 7)) +
            push_bit 8 (ucast (byte_at m 8)) + ucast (byte_at m 9),
         Subseconds = push_bit 24 (ucast (byte_at m 10)) + push_bit 16 (ucast (byte_at m 11))\<rparr>))"

section \<open>Initialisation and update on transmission\<close>

definition CFE_MSG_SetDefaultCCSDSPri :: "bytes \<Rightarrow> bytes" where
  "CFE_MSG_SetDefaultCCSDSPri m =
     (let m = CFE_MSG_SetHasSecondaryHeader m True;
          m = snd (CFE_MSG_SetHeaderVersion m 0);
          m = snd (CFE_MSG_SetApId m 0)
      in snd (CFE_MSG_SetSegmentationFlag m CFE_MSG_SegFlag_Unsegmented))"

definition CFE_MSG_InitDefaultHdr :: "bytes \<Rightarrow> bytes" where
  "CFE_MSG_InitDefaultHdr m = CFE_MSG_SetDefaultCCSDSPri m"

text \<open>
  The caller's object is exactly the \<open>Size\<close> bytes that \<open>CFE_MSG_Init\<close> clears, as at every call of
  the flight software.
\<close>

definition CFE_MSG_Init :: "u32 \<Rightarrow> nat \<Rightarrow> msg_status \<times> bytes" where
  "CFE_MSG_Init MsgId Size =
     (let m = CFE_MSG_InitDefaultHdr (replicate Size 0);
          (status, m) = CFE_MSG_SetMsgId m MsgId
      in if status = CFE_SUCCESS then CFE_MSG_SetSize m Size else (status, m))"

definition CFE_MSG_UpdateHeader :: "CFE_TIME_SysTime \<Rightarrow> bytes \<Rightarrow> u16 \<Rightarrow> (msg_status \<times> bytes) option" where
  "CFE_MSG_UpdateHeader now m SeqCnt =
     (let m = snd (CFE_MSG_SetSequenceCount m SeqCnt);
          m = snd (CFE_MSG_SetMsgTime m now)
      in do {
        (_, m) \<leftarrow> CFE_MSG_GenerateChecksum m;
        Some (CFE_SUCCESS, m)
      })"

section \<open>Every field is a mask of a big-endian word\<close>

lemma join8_and: "join8 a b AND join8 c d = join8 (a AND c) (b AND d)"
  by (rule bit_word_eqI) (auto simp: join8_def bit_simps dest: bit_imp_le_length)

lemma join8_eq_iff [simp]: "join8 a b = join8 c d \<longleftrightarrow> a = c \<and> b = d"
  by (metis hi8_join8 lo8_join8)

lemma high_byte_mask:
  assumes "k = join8 c 0"
  shows "CFE_MSG_GetHeaderField m w k = join8 (byte_at m w AND c) 0"
  by (simp add: assms CFE_MSG_GetHeaderField_def join8_and)

lemma join8_zero: "join8 a 0 = 0 \<longleftrightarrow> a = 0"
  using join8_eq_iff [of a 0 0 0] by (simp add: join8_def)

lemma GetType_field:
  "CFE_MSG_GetType m =
   (if CFE_MSG_GetHeaderField m 0 0x1000 \<noteq> 0 then CFE_MSG_Type_Cmd else CFE_MSG_Type_Tlm)"
  by (simp add: CFE_MSG_GetType_def high_byte_mask [of _ "0x10"] join8_def)
    (simp add: join8_zero [unfolded join8_def, simplified])

lemma GetHasSecondaryHeader_field:
  "CFE_MSG_GetHasSecondaryHeader m \<longleftrightarrow> CFE_MSG_GetHeaderField m 0 0x800 \<noteq> 0"
  by (simp add: CFE_MSG_GetHasSecondaryHeader_def high_byte_mask [of _ "8"] join8_def)
    (simp add: join8_zero [unfolded join8_def, simplified])

lemma update_same_byte: "i \<noteq> w \<Longrightarrow> m[w := x, i := byte_at m i] = m[w := x]"
  by (rule nth_equalityI) (auto simp: nth_list_update byte_at_def)

lemma high_byte_set:
  assumes "hi8 k = c" and "lo8 k = 0"
  shows "CFE_MSG_SetHeaderField m w k k = m[w := byte_at m w OR c]"
proof -
  have "(byte_at m w AND NOT c) OR c = byte_at m w OR c"
    by (rule bit_word_eqI) (auto simp: bit_simps)
  with assms show ?thesis
    by (simp add: CFE_MSG_SetHeaderField_def update_same_byte)
qed

lemma high_byte_clear:
  assumes "hi8 k = c" and "lo8 k = 0"
  shows "CFE_MSG_SetHeaderField m w 0 k = m[w := byte_at m w AND NOT c]"
  using assms by (simp add: CFE_MSG_SetHeaderField_def update_same_byte hi8_def [of 0] lo8_def [of 0])

lemma SetType_field:
  "CFE_MSG_SetType m t = (case t of
     CFE_MSG_Type_Cmd \<Rightarrow> (CFE_SUCCESS, CFE_MSG_SetHeaderField m 0 0x1000 0x1000)
   | CFE_MSG_Type_Tlm \<Rightarrow> (CFE_SUCCESS, CFE_MSG_SetHeaderField m 0 0 0x1000)
   | CFE_MSG_Type_Invalid \<Rightarrow> (CFE_MSG_BAD_ARGUMENT, m))"
  by (simp add: CFE_MSG_SetType_def high_byte_set high_byte_clear hi8_def lo8_def
      split: CFE_MSG_Type_t.splits)

lemma SetHasSecondaryHeader_field:
  "CFE_MSG_SetHasSecondaryHeader m b = CFE_MSG_SetHeaderField m 0 (if b then 0x800 else 0) 0x800"
  by (simp add: CFE_MSG_SetHasSecondaryHeader_def high_byte_set high_byte_clear hi8_def lo8_def)

lemma ucast8_ucast16: "(ucast (ucast (x::u8) :: u16) :: u8) = x"
  by (rule bit_word_eqI) (auto simp: bit_simps)

lemma GetMsgId_field: "CFE_MSG_GetMsgId m = ucast (join8 (byte_at m 0) (byte_at m 1))"
proof -
  have "push_bit 8 (ucast h) + ucast l = (ucast (join8 h l) :: u32)" for h l :: u8
  proof -
    have "push_bit 8 (ucast h :: u32) AND (ucast l :: u32) = 0"
      by (rule bit_word_eqI) (auto simp: bit_simps dest: bit_imp_le_length)
    then have "push_bit 8 (ucast h :: u32) + ucast l = push_bit 8 (ucast h) OR ucast l"
      by (rule disjunctive_add_eq_or)
    also have "\<dots> = ucast (join8 h l)"
      by (rule bit_word_eqI) (auto simp: join8_def bit_simps dest: bit_imp_le_length)
    finally show ?thesis .
  qed
  then show ?thesis by (simp add: CFE_MSG_GetMsgId_def)
qed

text \<open>The masks of the primary header are disjoint, so one field's setter spares the others.\<close>

named_theorems msg_fields

lemmas msg_field_eqs [msg_fields] =
  CFE_MSG_GetHeaderVersion_def CFE_MSG_SetHeaderVersion_def CFE_MSG_GetApId_def CFE_MSG_SetApId_def
  CFE_MSG_GetSegmentationFlag_def CFE_MSG_SetSegmentationFlag_def CFE_MSG_GetSequenceCount_def
  CFE_MSG_SetSequenceCount_def GetType_field SetType_field GetHasSecondaryHeader_field
  SetHasSecondaryHeader_field Get_SetHeaderField Get_SetHeaderField_disjoint Get_SetHeaderField_other

section \<open>The contract of a header field\<close>

text \<open>
  \<open>wf\<close> says the message is long enough (and of the right kind), \<open>valid\<close> which values the setter
  accepts. A \<open>msg_lens\<close> is a field whose own value is always accepted back.
\<close>

locale msg_field =
  fixes get :: "bytes \<Rightarrow> 'v"
    and set :: "bytes \<Rightarrow> 'v \<Rightarrow> msg_status \<times> bytes"
    and wf :: "bytes \<Rightarrow> bool"
    and valid :: "'v \<Rightarrow> bool"
  assumes set_rejects: "\<not> valid v \<Longrightarrow> set m v = (CFE_MSG_BAD_ARGUMENT, m)"
    and set_accepts: "\<lbrakk> wf m; valid v \<rbrakk> \<Longrightarrow> fst (set m v) = CFE_SUCCESS"
    and get_set: "\<lbrakk> wf m; valid v \<rbrakk> \<Longrightarrow> get (snd (set m v)) = v"
    and set_wf: "wf m \<Longrightarrow> wf (snd (set m v))"
    and set_length: "length (snd (set m v)) = length m"
    and set_set: "\<lbrakk> wf m; valid v; valid v' \<rbrakk> \<Longrightarrow> set (snd (set m v)) v' = set m v'"
begin

lemma status_iff: "wf m \<Longrightarrow> fst (set m v) = CFE_SUCCESS \<longleftrightarrow> valid v"
  using set_accepts set_rejects by fastforce

lemma get_after: "wf m \<Longrightarrow> get (snd (set m v)) = (if valid v then v else get m)"
  using get_set set_rejects by simp

end

locale msg_lens = msg_field +
  assumes get_valid: "wf m \<Longrightarrow> valid (get m)"
    and set_get: "wf m \<Longrightarrow> snd (set m (get m)) = m"
begin

lemma set_same_iff: "\<lbrakk> wf m; valid v \<rbrakk> \<Longrightarrow> snd (set m v) = m \<longleftrightarrow> get m = v"
  using get_set set_get by metis

lemma undo: "\<lbrakk> wf m; valid v \<rbrakk> \<Longrightarrow> snd (set (snd (set m v)) (get m)) = m"
  using set_set set_get get_valid by simp

end

lemma in_mask:
  assumes "v AND NOT k = 0"
  shows "v AND k = (v::'a::len word)"
proof (rule bit_word_eqI)
  fix n
  assume "n < LENGTH('a)"
  have "\<not> bit (v AND NOT k) n" using assms by simp
  then show "bit (v AND k) n = bit v n"
    using \<open>n < LENGTH('a)\<close> by (auto simp: bit_simps)
qed

lemma mask_out: "(v AND k) AND NOT k = (0::'a::len word)"
  by (simp add: and.assoc)

lemma version_mask: "(0xE000::u16) = push_bit 13 (mask 3)"
  by (simp add: mask_eq_exp_minus_1)

lemma version_field:
  assumes "v \<le> 7"
  shows "drop_bit 13 (push_bit 13 v AND 0xE000) = (v::u16)"
proof -
  have v: "take_bit 3 v = v"
    using assms by (intro take_bit_small) (simp add: word_le_nat_alt)
  have "drop_bit 13 (push_bit 13 v AND 0xE000) = take_bit 3 v"
    unfolding version_mask by (rule bit_word_eqI) (auto simp: bit_simps)
  with v show ?thesis by simp
qed

lemma version_refield: "push_bit 13 (drop_bit 13 (x AND 0xE000)) AND 0xE000 = x AND (0xE000::u16)"
  unfolding version_mask by (rule bit_word_eqI) (auto simp: bit_simps)

lemma version_bound: "drop_bit 13 (x AND 0xE000) \<le> (7::u16)"
proof -
  have "drop_bit 13 (x AND 0xE000) = take_bit 3 (drop_bit 13 x)"
    unfolding version_mask by (rule bit_word_eqI) (auto simp: bit_simps)
  moreover have "unat (take_bit 3 (drop_bit 13 x)) \<le> 7"
    using unat_take_bit_less [of 3 "drop_bit 13 x"] by simp
  ultimately show ?thesis by (simp only: word_le_nat_alt) simp
qed

lemma SetHeaderField_masked:
  "CFE_MSG_SetHeaderField m w (v AND k) k = CFE_MSG_SetHeaderField m w v k"
  by (simp add: CFE_MSG_SetHeaderField_def and.assoc)

interpretation version: msg_lens CFE_MSG_GetHeaderVersion CFE_MSG_SetHeaderVersion
  "\<lambda>m. 2 \<le> length m" "\<lambda>v. v \<le> 7"
proof
  fix m :: bytes
  assume m: "2 \<le> length m"
  show "CFE_MSG_GetHeaderVersion m \<le> 7"
    by (simp only: CFE_MSG_GetHeaderVersion_def CFE_MSG_GetHeaderField_def version_bound)
  have "CFE_MSG_SetHeaderField m 0 (push_bit 13 (drop_bit 13 (CFE_MSG_GetHeaderField m 0 0xE000))) 0xE000 = m"
    using m version_refield [of "join8 (byte_at m 0) (byte_at m (0 + 1))"]
      SetHeaderField_same [of 0 m "0xE000"]
    by (metis CFE_MSG_GetHeaderField_def SetHeaderField_masked One_nat_def Suc_1 Suc_le_lessD add_0)
  then show "snd (CFE_MSG_SetHeaderVersion m (CFE_MSG_GetHeaderVersion m)) = m"
    by (simp add: CFE_MSG_SetHeaderVersion_def CFE_MSG_GetHeaderVersion_def)
next
  fix m :: bytes and v :: u16
  assume "2 \<le> length m" and v: "v \<le> 7"
  then have "CFE_MSG_GetHeaderField (CFE_MSG_SetHeaderField m 0 (push_bit 13 v) 0xE000) 0 0xE000 =
      push_bit 13 v AND 0xE000"
    by (intro Get_SetHeaderField) simp
  with version_field [OF v] show "CFE_MSG_GetHeaderVersion (snd (CFE_MSG_SetHeaderVersion m v)) = v"
    using v leD [OF v] by (simp only: CFE_MSG_GetHeaderVersion_def CFE_MSG_SetHeaderVersion_def) simp
qed (auto simp: CFE_MSG_SetHeaderVersion_def SetHeaderField_twice)

lemma GetHeaderField_in: "CFE_MSG_GetHeaderField m w k AND NOT k = 0"
  by (simp add: CFE_MSG_GetHeaderField_def mask_out)

interpretation apid: msg_lens CFE_MSG_GetApId CFE_MSG_SetApId "\<lambda>m. 2 \<le> length m" "\<lambda>v. v AND NOT 0x07FF = 0"
  by unfold_locales
    (auto simp: msg_fields SetHeaderField_twice SetHeaderField_same in_mask [of _ "0x7FF", simplified]
       GetHeaderField_in [of _ _ "0x7FF", simplified])

interpretation seqcnt: msg_lens CFE_MSG_GetSequenceCount CFE_MSG_SetSequenceCount
  "\<lambda>m. 4 \<le> length m" "\<lambda>v. v AND NOT 0x3FFF = 0"
  by unfold_locales
    (auto simp: msg_fields SetHeaderField_twice SetHeaderField_same in_mask [of _ "0x3FFF", simplified]
       GetHeaderField_in [of _ _ "0x3FFF", simplified])

lemma single_bit: "x AND push_bit n 1 = (if bit x n then push_bit n 1 else (0::'a::len word))"
  by (rule bit_word_eqI) (auto simp: bit_simps)

lemma type_bit: "CFE_MSG_GetHeaderField m 0 0x1000 \<noteq> 0 \<Longrightarrow> CFE_MSG_GetHeaderField m 0 0x1000 = 0x1000"
  using single_bit [of "join8 (byte_at m 0) (byte_at m 1)" 12]
  by (simp add: CFE_MSG_GetHeaderField_def split: if_splits)

interpretation msgtype: msg_lens CFE_MSG_GetType CFE_MSG_SetType
  "\<lambda>m. 2 \<le> length m" "\<lambda>t. t \<noteq> CFE_MSG_Type_Invalid"
proof
  fix m :: bytes
  assume "2 \<le> length m"
  then show "snd (CFE_MSG_SetType m (CFE_MSG_GetType m)) = m"
    using SetHeaderField_same [of 0 m "0x1000"] type_bit [of m]
    by (cases "CFE_MSG_GetHeaderField m 0 0x1000 = 0") (auto simp: msg_fields)
qed (auto simp: msg_fields SetHeaderField_twice split: CFE_MSG_Type_t.splits)

lemma segflag_cases: "CFE_MSG_GetHeaderField m w 0xC000 \<in> {0, 0x4000, 0x8000, 0xC000}"
proof -
  let ?x = "join8 (byte_at m w) (byte_at m (w + 1))"
  have "?x AND 0xC000 = (?x AND push_bit 14 1) OR (?x AND push_bit 15 1)"
    by (simp flip: bit.conj_disj_distrib)
  then show ?thesis
    unfolding CFE_MSG_GetHeaderField_def single_bit by simp
qed

interpretation segflag: msg_lens CFE_MSG_GetSegmentationFlag CFE_MSG_SetSegmentationFlag
  "\<lambda>m. 4 \<le> length m" "\<lambda>f. f \<noteq> CFE_MSG_SegFlag_Invalid"
proof
  fix m :: bytes
  assume "4 \<le> length m"
  then show "snd (CFE_MSG_SetSegmentationFlag m (CFE_MSG_GetSegmentationFlag m)) = m"
    using SetHeaderField_same [of 2 m "0xC000"] segflag_cases [of m 2]
    by (auto simp: msg_fields)
qed (auto simp: msg_fields SetHeaderField_twice Let_def split: CFE_MSG_SegmentationFlag_t.splits)

lemma unat_of_nat_u8: "unat (of_nat n :: u8) = n mod 256"
  by (simp add: unsigned_of_nat take_bit_eq_mod)

interpretation size: msg_lens CFE_MSG_GetSize CFE_MSG_SetSize
  "\<lambda>m. 6 \<le> length m" "\<lambda>n. 7 \<le> n \<and> n \<le> 0xFFFF + 7"
proof
  fix m :: bytes
  assume m: "6 \<le> length m"
  have b: "unat (m ! 4) < 256" "unat (m ! 5) < 256"
    using unsigned_less [of "m ! 4"] unsigned_less [of "m ! 5"] by simp_all
  then show "7 \<le> CFE_MSG_GetSize m \<and> CFE_MSG_GetSize m \<le> 0xFFFF + 7"
    using m by (simp add: CFE_MSG_GetSize_def byte_at_def)
  have "unat (of_nat (unat (m ! 4) * 256 + unat (m ! 5)) :: u8) = unat (m ! 5)"
    unfolding unat_of_nat_u8 using b by simp
  then have "(of_nat (unat (m ! 4) * 256 + unat (m ! 5)) :: u8) = m ! 5"
    by (rule word_unat_eqI)
  moreover have "unat (of_nat ((unat (m ! 4) * 256 + unat (m ! 5)) div 256) :: u8) = unat (m ! 4)"
    unfolding unat_of_nat_u8 using b by simp
  then have "(of_nat ((unat (m ! 4) * 256 + unat (m ! 5)) div 256) :: u8) = m ! 4"
    by (rule word_unat_eqI)
  ultimately show "snd (CFE_MSG_SetSize m (CFE_MSG_GetSize m)) = m"
    using m b by (simp add: CFE_MSG_SetSize_def CFE_MSG_GetSize_def byte_at_def)
next
  fix m :: bytes and n :: nat
  assume "6 \<le> length m" and "7 \<le> n \<and> n \<le> 0xFFFF + 7"
  moreover from this have "(n - 7) div 256 mod 256 = (n - 7) div 256"
    by (intro mod_less less_mult_imp_div_less) auto
  ultimately show "CFE_MSG_GetSize (snd (CFE_MSG_SetSize m n)) = n"
    using div_mult_mod_eq [of "n - 7" 256]
    by (simp add: CFE_MSG_SetSize_def CFE_MSG_GetSize_def unat_of_nat_u8 del: of_nat_diff)
next
  fix m :: bytes and v v' :: nat
  assume "6 \<le> length m" "7 \<le> v \<and> v \<le> 0xFFFF + 7" "7 \<le> v' \<and> v' \<le> 0xFFFF + 7"
  then show "CFE_MSG_SetSize (snd (CFE_MSG_SetSize m v)) v' = CFE_MSG_SetSize m v'"
    by (simp add: CFE_MSG_SetSize_def list_update_swap [of 4 5])
qed (auto simp: CFE_MSG_SetSize_def)

lemma msgid_bytes: "join8 (ucast (drop_bit 8 (i::u32))) (ucast i) = ucast i"
  by (rule bit_word_eqI) (auto simp: join8_def bit_simps)

lemma ucast_u16_small: "i \<le> 0x1FFF \<Longrightarrow> ucast (ucast i :: u16) = (i :: u32)"
  by (rule ucast_ucast_small) (simp add: word_le_nat_alt)

interpretation msgid: msg_field CFE_MSG_GetMsgId CFE_MSG_SetMsgId "\<lambda>m. 2 \<le> length m" "\<lambda>i. i \<le> 0x1FFF"
  by unfold_locales
    (auto simp: GetMsgId_field CFE_MSG_SetMsgId_def byte_at_def msgid_bytes ucast_u16_small
      list_update_swap [of 0 "Suc 0"])

lemma is_cmd_upd [simp]: "i \<noteq> 0 \<Longrightarrow> is_cmd_with_sechdr (m[i := v]) = is_cmd_with_sechdr m"
  by (simp add: is_cmd_with_sechdr_def CFE_MSG_GetType_def CFE_MSG_GetHasSecondaryHeader_def byte_at_def)

lemma fcncode_mask: "(c::u16) \<le> 0x7F \<Longrightarrow> ucast (ucast c :: u8) AND 0x7F = c"
proof -
  assume "c \<le> 0x7F"
  then have "take_bit 7 c = c"
    by (intro take_bit_small) (simp add: word_le_nat_alt)
  moreover have fm: "(0x7F::u16) = mask 7"
    by (simp add: mask_eq_exp_minus_1)
  have "ucast (ucast c :: u8) AND (0x7F::u16) = take_bit 7 c"
    unfolding fm by (rule bit_word_eqI) (auto simp: bit_simps)
  ultimately show ?thesis by simp
qed

interpretation fcncode: msg_field "\<lambda>m. snd (CFE_MSG_GetFcnCode m)" CFE_MSG_SetFcnCode
  "\<lambda>m. 8 \<le> length m \<and> is_cmd_with_sechdr m" "\<lambda>c. c \<le> 0x7F"
  by unfold_locales (auto simp: CFE_MSG_GetFcnCode_def CFE_MSG_SetFcnCode_def fcncode_mask)

section \<open>The whole primary header\<close>

text \<open>The seven fields of the primary header, and the calls that write one of them.\<close>

record primary_fields =
  pf_Version :: u16
  pf_Type :: CFE_MSG_Type_t
  pf_HasSecondary :: bool
  pf_ApId :: u16
  pf_SegFlag :: CFE_MSG_SegmentationFlag_t
  pf_SeqCnt :: u16
  pf_Size :: nat

definition primary_of :: "bytes \<Rightarrow> primary_fields" where
  "primary_of m = \<lparr>pf_Version = CFE_MSG_GetHeaderVersion m, pf_Type = CFE_MSG_GetType m,
     pf_HasSecondary = CFE_MSG_GetHasSecondaryHeader m, pf_ApId = CFE_MSG_GetApId m,
     pf_SegFlag = CFE_MSG_GetSegmentationFlag m, pf_SeqCnt = CFE_MSG_GetSequenceCount m, pf_Size = CFE_MSG_GetSize m\<rparr>"

datatype primary_write =
    WriteVersion u16 | WriteType CFE_MSG_Type_t | WriteHasSecondary bool | WriteApId u16
  | WriteSegFlag CFE_MSG_SegmentationFlag_t | WriteSeqCnt u16 | WriteSize nat

fun write_primary :: "primary_write \<Rightarrow> bytes \<Rightarrow> bytes" where
  "write_primary (WriteVersion v) m = snd (CFE_MSG_SetHeaderVersion m v)"
| "write_primary (WriteType v) m = snd (CFE_MSG_SetType m v)"
| "write_primary (WriteHasSecondary v) m = CFE_MSG_SetHasSecondaryHeader m v"
| "write_primary (WriteApId v) m = snd (CFE_MSG_SetApId m v)"
| "write_primary (WriteSegFlag v) m = snd (CFE_MSG_SetSegmentationFlag m v)"
| "write_primary (WriteSeqCnt v) m = snd (CFE_MSG_SetSequenceCount m v)"
| "write_primary (WriteSize v) m = snd (CFE_MSG_SetSize m v)"

text \<open>What a call means: one field changes if the value is legal, otherwise nothing.\<close>

fun write_field :: "primary_write \<Rightarrow> primary_fields \<Rightarrow> primary_fields" where
  "write_field (WriteVersion v) h = (if v \<le> 7 then h\<lparr>pf_Version := v\<rparr> else h)"
| "write_field (WriteType v) h = (if v \<noteq> CFE_MSG_Type_Invalid then h\<lparr>pf_Type := v\<rparr> else h)"
| "write_field (WriteHasSecondary v) h = h\<lparr>pf_HasSecondary := v\<rparr>"
| "write_field (WriteApId v) h = (if v \<le> 0x7FF then h\<lparr>pf_ApId := v\<rparr> else h)"
| "write_field (WriteSegFlag v) h = (if v \<noteq> CFE_MSG_SegFlag_Invalid then h\<lparr>pf_SegFlag := v\<rparr> else h)"
| "write_field (WriteSeqCnt v) h = (if v \<le> 0x3FFF then h\<lparr>pf_SeqCnt := v\<rparr> else h)"
| "write_field (WriteSize v) h = (if 7 \<le> v \<and> v \<le> 0xFFFF + 7 then h\<lparr>pf_Size := v\<rparr> else h)"

lemma length_setters [simp]:
  "length (snd (CFE_MSG_SetHeaderVersion m ver)) = length m"
  "length (snd (CFE_MSG_SetType m type)) = length m"
  "length (CFE_MSG_SetHasSecondaryHeader m sec) = length m"
  "length (snd (CFE_MSG_SetApId m apid)) = length m"
  "length (snd (CFE_MSG_SetSegmentationFlag m seg)) = length m"
  "length (snd (CFE_MSG_SetSequenceCount m seq)) = length m"
  "length (snd (CFE_MSG_SetSize m len)) = length m"
  "length (snd (CFE_MSG_SetMsgId m i)) = length m"
  "length (snd (CFE_MSG_SetFcnCode m c)) = length m"
  "length (snd (CFE_MSG_SetMsgTime m t)) = length m"
  by (auto simp: version.set_length msgtype.set_length apid.set_length segflag.set_length
      seqcnt.set_length size.set_length msgid.set_length fcncode.set_length
      SetHasSecondaryHeader_field CFE_MSG_SetMsgTime_def)

text \<open>How each setter acts on the fields it does not own.\<close>

lemma field_SetHeaderVersion:
  "2 \<le> length m \<Longrightarrow> 0xE000 AND k = 0 \<Longrightarrow>
   CFE_MSG_GetHeaderField (snd (CFE_MSG_SetHeaderVersion m v)) 0 k = CFE_MSG_GetHeaderField m 0 k"
  by (simp add: CFE_MSG_SetHeaderVersion_def Get_SetHeaderField_disjoint)

lemma field_SetType:
  "2 \<le> length m \<Longrightarrow> 0x1000 AND k = 0 \<Longrightarrow>
   CFE_MSG_GetHeaderField (snd (CFE_MSG_SetType m v)) 0 k = CFE_MSG_GetHeaderField m 0 k"
  by (simp add: SetType_field Get_SetHeaderField_disjoint split: CFE_MSG_Type_t.split)

lemma field_SetHasSecondaryHeader:
  "2 \<le> length m \<Longrightarrow> 0x800 AND k = 0 \<Longrightarrow>
   CFE_MSG_GetHeaderField (CFE_MSG_SetHasSecondaryHeader m v) 0 k = CFE_MSG_GetHeaderField m 0 k"
  by (simp add: SetHasSecondaryHeader_field Get_SetHeaderField_disjoint)

lemma field_SetApId:
  "2 \<le> length m \<Longrightarrow> 0x7FF AND k = 0 \<Longrightarrow>
   CFE_MSG_GetHeaderField (snd (CFE_MSG_SetApId m v)) 0 k = CFE_MSG_GetHeaderField m 0 k"
  by (simp add: CFE_MSG_SetApId_def Get_SetHeaderField_disjoint)

lemma field_SetSequence:
  "CFE_MSG_GetHeaderField (snd (CFE_MSG_SetSegmentationFlag m f)) 0 k = CFE_MSG_GetHeaderField m 0 k"
  "CFE_MSG_GetHeaderField (snd (CFE_MSG_SetSequenceCount m c)) 0 k = CFE_MSG_GetHeaderField m 0 k"
  by (simp_all add: CFE_MSG_SetSegmentationFlag_def CFE_MSG_SetSequenceCount_def Get_SetHeaderField_other
      split: CFE_MSG_SegmentationFlag_t.split)

lemma field_SetSize:
  "w < 3 \<Longrightarrow> CFE_MSG_GetHeaderField (snd (CFE_MSG_SetSize m n)) w k = CFE_MSG_GetHeaderField m w k"
  by (simp add: CFE_MSG_SetSize_def CFE_MSG_GetHeaderField_def byte_at_def)

lemma field_SetSequenceCount:
  "4 \<le> length m \<Longrightarrow>
   CFE_MSG_GetHeaderField (snd (CFE_MSG_SetSequenceCount m c)) 2 0xC000 = CFE_MSG_GetHeaderField m 2 0xC000"
  by (simp add: CFE_MSG_SetSequenceCount_def Get_SetHeaderField_disjoint)

lemmas field_frames = field_SetHeaderVersion field_SetType field_SetHasSecondaryHeader field_SetApId
  field_SetSequence field_SetSize field_SetSequenceCount

lemma size_frames:
  "CFE_MSG_GetSize (snd (CFE_MSG_SetHeaderVersion m v)) = CFE_MSG_GetSize m"
  "CFE_MSG_GetSize (snd (CFE_MSG_SetType m ty)) = CFE_MSG_GetSize m"
  "CFE_MSG_GetSize (CFE_MSG_SetHasSecondaryHeader m sec) = CFE_MSG_GetSize m"
  "CFE_MSG_GetSize (snd (CFE_MSG_SetApId m v)) = CFE_MSG_GetSize m"
  "CFE_MSG_GetSize (snd (CFE_MSG_SetSegmentationFlag m f)) = CFE_MSG_GetSize m"
  "CFE_MSG_GetSize (snd (CFE_MSG_SetSequenceCount m v)) = CFE_MSG_GetSize m"
  by (simp_all add: msg_field_eqs CFE_MSG_GetSize_def byte_at_SetHeaderField_other
      split: CFE_MSG_Type_t.split CFE_MSG_SegmentationFlag_t.split)

lemma drop_SetHeaderField [simp]: "w < 5 \<Longrightarrow> drop 6 (CFE_MSG_SetHeaderField m w v k) = drop 6 m"
  by (simp add: CFE_MSG_SetHeaderField_def)

lemma write_primary_keeps: "length (write_primary w m) = length m" "drop 6 (write_primary w m) = drop 6 m"
  by (cases w; simp)
    (cases w; simp add: msg_field_eqs CFE_MSG_SetSize_def split: CFE_MSG_Type_t.split CFE_MSG_SegmentationFlag_t.split)

lemma stream_frames:
  "CFE_MSG_GetHeaderField (snd (CFE_MSG_SetHeaderVersion m v)) 2 k = CFE_MSG_GetHeaderField m 2 k"
  "CFE_MSG_GetHeaderField (snd (CFE_MSG_SetType m ty)) 2 k = CFE_MSG_GetHeaderField m 2 k"
  "CFE_MSG_GetHeaderField (CFE_MSG_SetHasSecondaryHeader m sec) 2 k = CFE_MSG_GetHeaderField m 2 k"
  "CFE_MSG_GetHeaderField (snd (CFE_MSG_SetApId m v)) 2 k = CFE_MSG_GetHeaderField m 2 k"
  by (simp_all add: CFE_MSG_SetHeaderVersion_def SetType_field SetHasSecondaryHeader_field CFE_MSG_SetApId_def
      Get_SetHeaderField_other split: CFE_MSG_Type_t.split)

lemma segflag_frame: "4 \<le> length m \<Longrightarrow> CFE_MSG_GetHeaderField (snd (CFE_MSG_SetSegmentationFlag m f)) 2 0x3FFF = CFE_MSG_GetHeaderField m 2 0x3FFF"
  by (simp add: CFE_MSG_SetSegmentationFlag_def Get_SetHeaderField_disjoint split: CFE_MSG_SegmentationFlag_t.split)

lemma small_mask:
  assumes "k = mask n" and "v \<le> k \<Longrightarrow> v < 2 ^ n"
  shows "v AND NOT k = 0 \<longleftrightarrow> v \<le> (k :: u16)"
proof
  assume "v AND NOT k = 0"
  then have "v AND k = v" by (rule in_mask)
  then show "v \<le> k" by (metis word_and_le1)
next
  assume "v \<le> k"
  then have "v < 2 ^ n" by (rule assms(2))
  then have "v AND k = v" unfolding assms(1) by (rule less_mask_eq)
  then show "v AND NOT k = 0" by (metis and.assoc bit.conj_cancel_right bit.conj_zero_right)
qed

lemma small_masks: "v AND NOT 0x7FF = 0 \<longleftrightarrow> v \<le> 0x7FF" "v AND NOT 0x3FFF = 0 \<longleftrightarrow> v \<le> (0x3FFF :: u16)"
proof -
  show "v AND NOT 0x7FF = 0 \<longleftrightarrow> v \<le> 0x7FF"
    by (rule small_mask [where n = 11]) (simp_all add: mask_eq_exp_minus_1 word_le_nat_alt word_less_nat_alt)
  show "v AND NOT 0x3FFF = 0 \<longleftrightarrow> v \<le> (0x3FFF :: u16)"
    by (rule small_mask [where n = 14]) (simp_all add: mask_eq_exp_minus_1 word_le_nat_alt word_less_nat_alt)
qed

lemma write_primary_fields: "6 \<le> length m \<Longrightarrow> primary_of (write_primary w m) = write_field w (primary_of m)"
proof -
  assume m: "6 \<le> length m"
  show ?thesis
  proof (cases w)
    case (WriteVersion v)
    then show ?thesis using m version.get_after [of m v]
      by (simp add: primary_of_def GetType_field GetHasSecondaryHeader_field CFE_MSG_GetApId_def CFE_MSG_GetSegmentationFlag_def
          CFE_MSG_GetSequenceCount_def size_frames stream_frames segflag_frame field_frames)
  next
    case (WriteType v)
    then show ?thesis using m msgtype.get_after [of m v]
      by (simp add: primary_of_def CFE_MSG_GetHeaderVersion_def GetHasSecondaryHeader_field CFE_MSG_GetApId_def CFE_MSG_GetSegmentationFlag_def
          CFE_MSG_GetSequenceCount_def size_frames stream_frames segflag_frame field_frames)
  next
    case (WriteHasSecondary v)
    then show ?thesis using m
      by (simp add: primary_of_def CFE_MSG_GetHeaderVersion_def GetType_field CFE_MSG_GetApId_def CFE_MSG_GetSegmentationFlag_def
          CFE_MSG_GetSequenceCount_def size_frames stream_frames segflag_frame field_frames)
        (simp add: GetHasSecondaryHeader_field SetHasSecondaryHeader_field Get_SetHeaderField)
  next
    case (WriteApId v)
    then show ?thesis using m apid.get_after [of m v, unfolded small_masks]
      by (simp add: primary_of_def CFE_MSG_GetHeaderVersion_def GetType_field GetHasSecondaryHeader_field CFE_MSG_GetSegmentationFlag_def
          CFE_MSG_GetSequenceCount_def size_frames stream_frames segflag_frame field_frames)
  next
    case (WriteSegFlag v)
    then show ?thesis using m segflag.get_after [of m v]
      by (simp add: primary_of_def CFE_MSG_GetHeaderVersion_def GetType_field GetHasSecondaryHeader_field CFE_MSG_GetApId_def
          CFE_MSG_GetSequenceCount_def size_frames stream_frames segflag_frame field_frames)
  next
    case (WriteSeqCnt v)
    then show ?thesis using m seqcnt.get_after [of m v, unfolded small_masks]
      by (simp add: primary_of_def CFE_MSG_GetHeaderVersion_def GetType_field GetHasSecondaryHeader_field CFE_MSG_GetApId_def
          CFE_MSG_GetSegmentationFlag_def size_frames stream_frames segflag_frame field_frames)
  next
    case (WriteSize v)
    then show ?thesis using m size.get_after [of m v]
      by (simp add: primary_of_def CFE_MSG_GetHeaderVersion_def GetType_field GetHasSecondaryHeader_field CFE_MSG_GetApId_def
          CFE_MSG_GetSegmentationFlag_def CFE_MSG_GetSequenceCount_def field_frames)
  qed
qed

text \<open>
  C34. The seven fields of the primary header do not interfere: after any calls of the setters, in any order and
  number, with legal or illegal values, every getter returns the last legal value that was written to its
  field, or what the field held before if there was none; the rest of the message is as it was.
\<close>

theorem CFE_MSG_primary_roundtrip:
  assumes "6 \<le> length m"
  shows "primary_of (fold write_primary ws m) = fold write_field ws (primary_of m) \<and>
     length (fold write_primary ws m) = length m \<and> drop 6 (fold write_primary ws m) = drop 6 m"
  using assms by (induction ws arbitrary: m) (simp_all add: write_primary_fields write_primary_keeps)

theorem CFE_MSG_primary_roundtrip_witness:
  "CFE_MSG_GetApId (fold write_primary [WriteApId 0xA9, WriteVersion 0, WriteApId 0xFFFF, WriteType CFE_MSG_Type_Cmd, WriteSize 12]
     (replicate 8 0xFF)) = 0xA9"
  using CFE_MSG_primary_roundtrip [of "replicate 8 0xFF" "[WriteApId 0xA9, WriteVersion 0, WriteApId 0xFFFF, WriteType CFE_MSG_Type_Cmd, WriteSize 12]"]
  by (auto simp: primary_of_def dest: arg_cong [of _ _ pf_ApId])

section \<open>Checksum\<close>

text \<open>The exclusive-or of a run of bytes.\<close>

definition xor_sum :: "bytes \<Rightarrow> u8" where
  "xor_sum bs = foldr (XOR) bs 0"

lemma xor_sum_simps [simp]: "xor_sum [] = 0" "xor_sum (b # bs) = b XOR xor_sum bs"
  by (simp_all add: xor_sum_def)

lemma xor_sum_update: "i < length bs \<Longrightarrow> xor_sum (bs[i := v]) = xor_sum bs XOR (bs ! i) XOR v"
  by (induction bs arbitrary: i) (auto split: nat.split simp: xor.assoc xor.left_commute xor.commute)

lemma checksum_loop_sum:
  "i + n \<le> length m \<Longrightarrow> checksum_loop m i n chk = Some (chk XOR xor_sum (take n (drop i m)))"
proof (induction m i n chk rule: checksum_loop.induct)
  case (2 m i n chk)
  then have "take (Suc n) (drop i m) = (m ! i) # take n (drop (i + 1) m)"
    by (simp add: Cons_nth_drop_Suc [symmetric])
  with 2 show ?case by (simp add: xor.assoc)
qed simp

lemma ComputeCheckSum_sum:
  "CFE_MSG_GetSize m \<le> length m \<Longrightarrow>
   CFE_MSG_ComputeCheckSum m = Some (0xFF XOR xor_sum (take (CFE_MSG_GetSize m) m))"
  by (simp add: CFE_MSG_ComputeCheckSum_def checksum_loop_sum)

lemma GetSize_upd [simp]: "6 \<le> i \<Longrightarrow> CFE_MSG_GetSize (m[i := v]) = CFE_MSG_GetSize m"
  by (simp add: CFE_MSG_GetSize_def byte_at_def)

lemma CFE_MSG_checksum_ok:
  assumes "is_cmd_with_sechdr m" and "8 \<le> CFE_MSG_GetSize m" and "CFE_MSG_GetSize m \<le> length m"
  shows "\<exists>c. CFE_MSG_GenerateChecksum m = Some (CFE_SUCCESS, m[7 := c]) \<and>
         CFE_MSG_ValidateChecksum (m[7 := c]) = Some (CFE_SUCCESS, True)"
proof -
  let ?n = "CFE_MSG_GetSize m"
  let ?c = "0xFF XOR xor_sum ((take ?n m)[7 := 0])"
  have gen: "CFE_MSG_GenerateChecksum m = Some (CFE_SUCCESS, m[7 := ?c])"
    using assms by (simp add: CFE_MSG_GenerateChecksum_def ComputeCheckSum_sum take_update_swap)
  have "xor_sum ((take ?n m)[7 := ?c]) = xor_sum ((take ?n m)[7 := 0]) XOR ?c"
    using assms by (simp add: xor_sum_update xor.assoc)
  then have "CFE_MSG_ValidateChecksum (m[7 := ?c]) = Some (CFE_SUCCESS, True)"
    using assms by (simp add: CFE_MSG_ValidateChecksum_def ComputeCheckSum_sum take_update_swap)
      (simp add: xor.left_commute)
  with gen show ?thesis by blast
qed

text \<open>
  A generated checksum validates: for a command that lies within its buffer,
  \<open>CFE_MSG_GenerateChecksum\<close> succeeds without leaving the buffer, changes the checksum byte only,
  and \<open>CFE_MSG_ValidateChecksum\<close> then reports a valid message.
\<close>

theorem CFE_MSG_checksum_roundtrip:
  assumes "is_cmd_with_sechdr m" and "8 \<le> CFE_MSG_GetSize m" and "CFE_MSG_GetSize m \<le> length m"
  shows "\<exists>c. CFE_MSG_GenerateChecksum m = Some (CFE_SUCCESS, m[7 := c]) \<and>
         CFE_MSG_ValidateChecksum (m[7 := c]) = Some (CFE_SUCCESS, True)"
  using assms by (rule CFE_MSG_checksum_ok)

theorem CFE_MSG_checksum_roundtrip_witness:
  "\<exists>c. CFE_MSG_GenerateChecksum [0x18, 0xA9, 0xC0, 0, 0, 1, 4, 0x55] =
         Some (CFE_SUCCESS, [0x18, 0xA9, 0xC0, 0, 0, 1, 4, c])"
  using CFE_MSG_checksum_roundtrip [of "[0x18, 0xA9, 0xC0, 0, 0, 1, 4, 0x55]"]
  by (auto simp: is_cmd_with_sechdr_def CFE_MSG_GetType_def CFE_MSG_GetHasSecondaryHeader_def
      CFE_MSG_GetSize_def byte_at_def)

lemma xor_zero_iff: "a XOR b = (0::'a::len word) \<longleftrightarrow> a = b"
  by (metis xor.assoc xor.comm_neutral xor_self_eq xor.left_neutral)

text \<open>
  C35. The checksum detects every corruption of one byte other than the two of the length field: if a command
  validates and one byte of it, header or data, is changed, it no longer validates. When the change leaves it a
  command with a secondary header, which is the case of every byte after the primary header, validation
  answers that the checksum is wrong; otherwise that the type of the message is wrong.
\<close>

theorem CFE_MSG_checksum_detects:
  assumes "CFE_MSG_ValidateChecksum m = Some (CFE_SUCCESS, True)" and "CFE_MSG_GetSize m \<le> length m"
    and "i \<noteq> 4" and "i \<noteq> 5" and "i < CFE_MSG_GetSize m" and "b \<noteq> m ! i"
  shows "CFE_MSG_ValidateChecksum (m[i := b]) =
      Some (if is_cmd_with_sechdr (m[i := b]) then CFE_SUCCESS else CFE_MSG_WRONG_MSG_TYPE, False) \<and>
    (0 < i \<longrightarrow> is_cmd_with_sechdr (m[i := b]))"
proof -
  let ?n = "CFE_MSG_GetSize m"
  have cmd: "is_cmd_with_sechdr m"
    using assms(1) by (auto simp: CFE_MSG_ValidateChecksum_def split: if_splits)
  have sum: "xor_sum (take ?n m) = 0xFF"
    using assms(1,2) cmd by (simp add: CFE_MSG_ValidateChecksum_def ComputeCheckSum_sum xor_zero_iff)
  have "xor_sum ((take ?n m)[i := b]) = 0xFF XOR (m ! i XOR b)"
    using assms sum by (simp add: xor_sum_update xor.assoc)
  moreover have "m ! i XOR b \<noteq> 0"
    using assms(6) by (simp add: xor_zero_iff)
  moreover have "CFE_MSG_GetSize (m[i := b]) = ?n" using assms(3,4) by (simp add: CFE_MSG_GetSize_def byte_at_def)
  moreover have "0 < i \<longrightarrow> byte_at (m[i := b]) 0 = byte_at m 0" by (simp add: byte_at_def)
  then have "0 < i \<longrightarrow> is_cmd_with_sechdr (m[i := b])"
    using cmd by (simp add: is_cmd_with_sechdr_def CFE_MSG_GetType_def CFE_MSG_GetHasSecondaryHeader_def)
  ultimately show ?thesis
    using assms(2,5) by (simp add: CFE_MSG_ValidateChecksum_def ComputeCheckSum_sum take_update_swap)
qed

theorem CFE_MSG_checksum_detects_witness:
  "CFE_MSG_ValidateChecksum [0x18, 0xA9, 0xC0, 0, 0, 1, 5, 0x8B] = Some (CFE_SUCCESS, False)"
  using CFE_MSG_checksum_detects [of "[0x18, 0xA9, 0xC0, 0, 0, 1, 4, 0x8B]" 6 5]
  by (simp add: CFE_MSG_ValidateChecksum_def is_cmd_with_sechdr_def CFE_MSG_GetType_def
      CFE_MSG_GetHasSecondaryHeader_def ComputeCheckSum_sum CFE_MSG_GetSize_def byte_at_def)

section \<open>Update on transmission\<close>

lemma SetSequenceCount_byte [simp]:
  "i < 2 \<or> 4 \<le> i \<Longrightarrow> byte_at (snd (CFE_MSG_SetSequenceCount m c)) i = byte_at m i"
  by (auto simp: CFE_MSG_SetSequenceCount_def byte_at_SetHeaderField_other)

text \<open>
  What the software bus does to a command it sends (\<open>CFE_MSG_UpdateHeader\<close>): the command comes
  out with the given sequence count and a valid checksum, and its message id, function code, size
  and payload are those it went in with.
\<close>

theorem CFE_MSG_UpdateHeader_command:
  assumes "is_cmd_with_sechdr m" and "8 \<le> CFE_MSG_GetSize m" and "CFE_MSG_GetSize m \<le> length m"
    and "SeqCnt AND NOT 0x3FFF = 0"
  shows "\<exists>m'. CFE_MSG_UpdateHeader now m SeqCnt = Some (CFE_SUCCESS, m') \<and>
         CFE_MSG_GetSequenceCount m' = SeqCnt \<and>
         CFE_MSG_ValidateChecksum m' = Some (CFE_SUCCESS, True) \<and>
         CFE_MSG_GetMsgId m' = CFE_MSG_GetMsgId m \<and> CFE_MSG_GetFcnCode m' = CFE_MSG_GetFcnCode m \<and>
         CFE_MSG_GetSize m' = CFE_MSG_GetSize m \<and> length m' = length m \<and> drop 8 m' = drop 8 m"
proof -
  define m1 where "m1 = snd (CFE_MSG_SetSequenceCount m SeqCnt)"
  have len: "length m1 = length m" by (simp add: m1_def)
  have bytes: "byte_at m1 i = byte_at m i" if "i < 2 \<or> 4 \<le> i" for i
    using that by (simp add: m1_def)
  have cmd: "is_cmd_with_sechdr m1" and "\<not> is_tlm_with_sechdr m1"
    using assms(1) bytes [of 0]
    by (simp_all add: is_cmd_with_sechdr_def is_tlm_with_sechdr_def CFE_MSG_GetType_def
        CFE_MSG_GetHasSecondaryHeader_def split: if_splits)
  then have time: "snd (CFE_MSG_SetMsgTime m1 now) = m1"
    by (simp add: CFE_MSG_SetMsgTime_def)
  have size: "CFE_MSG_GetSize m1 = CFE_MSG_GetSize m"
    using bytes [of 4] bytes [of 5] by (simp add: CFE_MSG_GetSize_def)
  obtain c where gen: "CFE_MSG_GenerateChecksum m1 = Some (CFE_SUCCESS, m1[7 := c])"
      and val: "CFE_MSG_ValidateChecksum (m1[7 := c]) = Some (CFE_SUCCESS, True)"
    using CFE_MSG_checksum_ok [OF cmd] assms size len by auto
  have seq: "CFE_MSG_GetSequenceCount (m1[7 := c]) = SeqCnt"
    using seqcnt.get_set [of m SeqCnt] assms
    by (simp add: m1_def CFE_MSG_GetSequenceCount_def CFE_MSG_GetHeaderField_def byte_at_def)
  have "drop 8 m1 = drop 8 m"
  proof (rule nth_equalityI)
    fix i
    assume "i < length (drop 8 m1)"
    then have "8 + i < length m" using len by simp
    then show "drop 8 m1 ! i = drop 8 m ! i"
      using bytes [of "8 + i"] len by (simp add: byte_at_def)
  qed (simp add: len)
  moreover have "CFE_MSG_GetMsgId (m1[7 := c]) = CFE_MSG_GetMsgId m"
    using bytes [of 0] bytes [of 1] by (simp add: CFE_MSG_GetMsgId_def)
  moreover have "CFE_MSG_GetFcnCode (m1[7 := c]) = CFE_MSG_GetFcnCode m"
    using assms(1) cmd bytes [of 6] by (simp add: CFE_MSG_GetFcnCode_def)
  ultimately show ?thesis
    using gen val seq size len time
    by (intro exI [of _ "m1[7 := c]"]) (simp add: CFE_MSG_UpdateHeader_def m1_def [symmetric])
qed

theorem CFE_MSG_UpdateHeader_command_witness:
  "\<exists>m'. CFE_MSG_UpdateHeader \<lparr>Seconds = 9, Subseconds = 0\<rparr> [0x18, 0xA9, 0xC0, 0, 0, 1, 4, 0x55] 77 =
          Some (CFE_SUCCESS, m') \<and> CFE_MSG_GetSequenceCount m' = 77"
  using CFE_MSG_UpdateHeader_command [of "[0x18, 0xA9, 0xC0, 0, 0, 1, 4, 0x55]" 77 "\<lparr>Seconds = 9, Subseconds = 0\<rparr>"]
  by (auto simp: is_cmd_with_sechdr_def CFE_MSG_GetType_def CFE_MSG_GetHasSecondaryHeader_def
      CFE_MSG_GetSize_def byte_at_def)

end
