(* ===== verification/Cfe_Tbl.thy ===== *)
theory Cfe_Tbl
  imports Nos3_Prelude
begin

text \<open>
  What table services tell an application that asks for the address of one of its tables:
  \<open>CFE_SUCCESS\<close> for the table of the last call and \<open>CFE_TBL_INFO_UPDATED\<close> for a new one; on an error
  the pointer is null, here a table without entries.
\<close>

datatype 'a tbl_get = TblSame | TblUpdated (tbl_new: "'a list") | TblFailed int

abbreviation (input) CFE_TBL_INFO_UPDATED :: int where "CFE_TBL_INFO_UPDATED \<equiv> 0x4c00000E"
abbreviation (input) CFE_TBL_ERR_NEVER_LOADED :: int where "CFE_TBL_ERR_NEVER_LOADED \<equiv> 0xcc000005 - 0x100000000"

definition CFE_TBL_GetAddress :: "'a tbl_get \<Rightarrow> 'a list \<Rightarrow> int \<times> 'a list" where
  "CFE_TBL_GetAddress r t = (case r of TblSame \<Rightarrow> (0, t) | TblUpdated t' \<Rightarrow> (CFE_TBL_INFO_UPDATED, t')
     | TblFailed e \<Rightarrow> (e, []))"

end
