(* ===== verification/Lc_Defs.thy ===== *)
theory Lc_Defs
  imports Cfe_Msg Cfe_Tbl
begin

text \<open>
  Data of the limit checker (LC): its four tables, the hash table of watchpoints by message id, the
  application data and the housekeeping packet (\<open>lc_tbl.h\<close>, \<open>lc_extern_typedefs.h\<close>, \<open>lc_app.h\<close>,
  \<open>lc_msg.h\<close>). The two C globals \<open>LC_OperData\<close> and \<open>LC_AppData\<close> are one record here; beside them
  it logs what LC sends: events, commands to other applications, housekeeping packets, and calls
  of subscribe and unsubscribe. Pointers between list links are indices into the link arrays.
\<close>

section \<open>Constants\<close>

abbreviation (input) LC_MAX_WATCHPOINTS :: nat where "LC_MAX_WATCHPOINTS \<equiv> 176"
abbreviation (input) LC_MAX_ACTIONPOINTS :: nat where "LC_MAX_ACTIONPOINTS \<equiv> 176"
abbreviation (input) LC_MAX_RPN_EQU_SIZE :: nat where "LC_MAX_RPN_EQU_SIZE \<equiv> 20"
abbreviation (input) LC_HASH_TABLE_ENTRIES :: nat where "LC_HASH_TABLE_ENTRIES \<equiv> 256"
abbreviation (input) LC_ALL_ACTIONPOINTS :: u16 where "LC_ALL_ACTIONPOINTS \<equiv> 0xFFFF"
abbreviation (input) LC_ALL_WATCHPOINTS :: u16 where "LC_ALL_WATCHPOINTS \<equiv> 0xFFFF"

abbreviation (input) LC_WATCH_FALSE :: "'a::len word" where "LC_WATCH_FALSE \<equiv> 0"
abbreviation (input) LC_WATCH_TRUE :: "'a::len word" where "LC_WATCH_TRUE \<equiv> 1"
abbreviation (input) LC_WATCH_ERROR :: "'a::len word" where "LC_WATCH_ERROR \<equiv> 2"
abbreviation (input) LC_WATCH_STALE :: "'a::len word" where "LC_WATCH_STALE \<equiv> 0xFF"
abbreviation (input) LC_WATCH_NOT_USED :: u8 where "LC_WATCH_NOT_USED \<equiv> 0xFF"

abbreviation (input) LC_ACTION_PASS :: u8 where "LC_ACTION_PASS \<equiv> 0"
abbreviation (input) LC_ACTION_FAIL :: u8 where "LC_ACTION_FAIL \<equiv> 1"
abbreviation (input) LC_ACTION_ERROR :: u8 where "LC_ACTION_ERROR \<equiv> 2"
abbreviation (input) LC_ACTION_STALE :: u8 where "LC_ACTION_STALE \<equiv> 0xFF"
abbreviation (input) LC_ACTION_NOT_USED :: u8 where "LC_ACTION_NOT_USED \<equiv> 0xFF"

abbreviation (input) LC_APSTATE_ACTIVE :: "'a::len word" where "LC_APSTATE_ACTIVE \<equiv> 1"
abbreviation (input) LC_APSTATE_PASSIVE :: "'a::len word" where "LC_APSTATE_PASSIVE \<equiv> 2"
abbreviation (input) LC_APSTATE_DISABLED :: "'a::len word" where "LC_APSTATE_DISABLED \<equiv> 3"
abbreviation (input) LC_APSTATE_PERMOFF :: "'a::len word" where "LC_APSTATE_PERMOFF \<equiv> 4"

abbreviation (input) LC_STATE_ACTIVE :: "'a::len word" where "LC_STATE_ACTIVE \<equiv> 1"
abbreviation (input) LC_STATE_PASSIVE :: "'a::len word" where "LC_STATE_PASSIVE \<equiv> 2"
abbreviation (input) LC_STATE_DISABLED :: "'a::len word" where "LC_STATE_DISABLED \<equiv> 3"

abbreviation (input) LC_RPN_AND :: u16 where "LC_RPN_AND \<equiv> 0xFFF1"
abbreviation (input) LC_RPN_OR :: u16 where "LC_RPN_OR \<equiv> 0xFFF2"
abbreviation (input) LC_RPN_XOR :: u16 where "LC_RPN_XOR \<equiv> 0xFFF3"
abbreviation (input) LC_RPN_NOT :: u16 where "LC_RPN_NOT \<equiv> 0xFFF4"
abbreviation (input) LC_RPN_EQUAL :: u16 where "LC_RPN_EQUAL \<equiv> 0xFFF5"

abbreviation (input) LC_DATA_BYTE :: u8 where "LC_DATA_BYTE \<equiv> 1"
abbreviation (input) LC_DATA_UBYTE :: u8 where "LC_DATA_UBYTE \<equiv> 2"
abbreviation (input) LC_DATA_WORD_BE :: u8 where "LC_DATA_WORD_BE \<equiv> 3"
abbreviation (input) LC_DATA_WORD_LE :: u8 where "LC_DATA_WORD_LE \<equiv> 4"
abbreviation (input) LC_DATA_UWORD_BE :: u8 where "LC_DATA_UWORD_BE \<equiv> 5"
abbreviation (input) LC_DATA_UWORD_LE :: u8 where "LC_DATA_UWORD_LE \<equiv> 6"
abbreviation (input) LC_DATA_DWORD_BE :: u8 where "LC_DATA_DWORD_BE \<equiv> 7"
abbreviation (input) LC_DATA_DWORD_LE :: u8 where "LC_DATA_DWORD_LE \<equiv> 8"
abbreviation (input) LC_DATA_UDWORD_BE :: u8 where "LC_DATA_UDWORD_BE \<equiv> 9"
abbreviation (input) LC_DATA_UDWORD_LE :: u8 where "LC_DATA_UDWORD_LE \<equiv> 10"
abbreviation (input) LC_DATA_FLOAT_BE :: u8 where "LC_DATA_FLOAT_BE \<equiv> 11"
abbreviation (input) LC_DATA_FLOAT_LE :: u8 where "LC_DATA_FLOAT_LE \<equiv> 12"

abbreviation (input) LC_OPER_LT :: u8 where "LC_OPER_LT \<equiv> 1"
abbreviation (input) LC_OPER_LE :: u8 where "LC_OPER_LE \<equiv> 2"
abbreviation (input) LC_OPER_NE :: u8 where "LC_OPER_NE \<equiv> 3"
abbreviation (input) LC_OPER_EQ :: u8 where "LC_OPER_EQ \<equiv> 4"
abbreviation (input) LC_OPER_GE :: u8 where "LC_OPER_GE \<equiv> 5"
abbreviation (input) LC_OPER_GT :: u8 where "LC_OPER_GT \<equiv> 6"
abbreviation (input) LC_OPER_CUSTOM :: u8 where "LC_OPER_CUSTOM \<equiv> 7"

section \<open>Event numbers (\<open>lc_events.h\<close>)\<close>

abbreviation (input) LC_WDT_GETADDR_ERR_EID :: nat where "LC_WDT_GETADDR_ERR_EID \<equiv> 19"
abbreviation (input) LC_ADT_GETADDR_ERR_EID :: nat where "LC_ADT_GETADDR_ERR_EID \<equiv> 20"
abbreviation (input) LC_CC_ERR_EID :: nat where "LC_CC_ERR_EID \<equiv> 24"
abbreviation (input) LC_APSAMPLE_APNUM_ERR_EID :: nat where "LC_APSAMPLE_APNUM_ERR_EID \<equiv> 25"
abbreviation (input) LC_NOOP_INF_EID :: nat where "LC_NOOP_INF_EID \<equiv> 26"
abbreviation (input) LC_RESET_DBG_EID :: nat where "LC_RESET_DBG_EID \<equiv> 27"
abbreviation (input) LC_LCSTATE_INF_EID :: nat where "LC_LCSTATE_INF_EID \<equiv> 28"
abbreviation (input) LC_LCSTATE_ERR_EID :: nat where "LC_LCSTATE_ERR_EID \<equiv> 29"
abbreviation (input) LC_APSTATE_NEW_ERR_EID :: nat where "LC_APSTATE_NEW_ERR_EID \<equiv> 30"
abbreviation (input) LC_APSTATE_CURR_ERR_EID :: nat where "LC_APSTATE_CURR_ERR_EID \<equiv> 31"
abbreviation (input) LC_APSTATE_APNUM_ERR_EID :: nat where "LC_APSTATE_APNUM_ERR_EID \<equiv> 32"
abbreviation (input) LC_APSTATE_INF_EID :: nat where "LC_APSTATE_INF_EID \<equiv> 33"
abbreviation (input) LC_APOFF_APNUM_ERR_EID :: nat where "LC_APOFF_APNUM_ERR_EID \<equiv> 34"
abbreviation (input) LC_APOFF_CURR_ERR_EID :: nat where "LC_APOFF_CURR_ERR_EID \<equiv> 35"
abbreviation (input) LC_APOFF_INF_EID :: nat where "LC_APOFF_INF_EID \<equiv> 36"
abbreviation (input) LC_APSTATS_APNUM_ERR_EID :: nat where "LC_APSTATS_APNUM_ERR_EID \<equiv> 37"
abbreviation (input) LC_APSTATS_INF_EID :: nat where "LC_APSTATS_INF_EID \<equiv> 38"
abbreviation (input) LC_WPSTATS_WPNUM_ERR_EID :: nat where "LC_WPSTATS_WPNUM_ERR_EID \<equiv> 39"
abbreviation (input) LC_WPSTATS_INF_EID :: nat where "LC_WPSTATS_INF_EID \<equiv> 40"
abbreviation (input) LC_HKREQ_LEN_ERR_EID :: nat where "LC_HKREQ_LEN_ERR_EID \<equiv> 41"
abbreviation (input) LC_APSAMPLE_LEN_ERR_EID :: nat where "LC_APSAMPLE_LEN_ERR_EID \<equiv> 42"
abbreviation (input) LC_LEN_ERR_EID :: nat where "LC_LEN_ERR_EID \<equiv> 43"
abbreviation (input) LC_UNSUB_WP_ERR_EID :: nat where "LC_UNSUB_WP_ERR_EID \<equiv> 44"
abbreviation (input) LC_SUB_WP_ERR_EID :: nat where "LC_SUB_WP_ERR_EID \<equiv> 45"
abbreviation (input) LC_WRT_NO_SAVE_ERR_EID :: nat where "LC_WRT_NO_SAVE_ERR_EID \<equiv> 46"
abbreviation (input) LC_ART_NO_SAVE_ERR_EID :: nat where "LC_ART_NO_SAVE_ERR_EID \<equiv> 47"
abbreviation (input) LC_APP_NO_SAVE_START_ERR_EID :: nat where "LC_APP_NO_SAVE_START_ERR_EID \<equiv> 48"
abbreviation (input) LC_MID_INF_EID :: nat where "LC_MID_INF_EID \<equiv> 49"
abbreviation (input) LC_WP_DATATYPE_ERR_EID :: nat where "LC_WP_DATATYPE_ERR_EID \<equiv> 50"
abbreviation (input) LC_WP_OPERID_ERR_EID :: nat where "LC_WP_OPERID_ERR_EID \<equiv> 51"
abbreviation (input) LC_WP_NAN_ERR_EID :: nat where "LC_WP_NAN_ERR_EID \<equiv> 52"
abbreviation (input) LC_WP_OFFSET_ERR_EID :: nat where "LC_WP_OFFSET_ERR_EID \<equiv> 53"
abbreviation (input) LC_WDTVAL_FPERR_EID :: nat where "LC_WDTVAL_FPERR_EID \<equiv> 54"
abbreviation (input) LC_WDTVAL_ERR_EID :: nat where "LC_WDTVAL_ERR_EID \<equiv> 55"
abbreviation (input) LC_WDTVAL_INF_EID :: nat where "LC_WDTVAL_INF_EID \<equiv> 56"
abbreviation (input) LC_APSAMPLE_CURR_ERR_EID :: nat where "LC_APSAMPLE_CURR_ERR_EID \<equiv> 57"
abbreviation (input) LC_AP_PASSTOFAIL_INF_EID :: nat where "LC_AP_PASSTOFAIL_INF_EID \<equiv> 58"
abbreviation (input) LC_PASSIVE_FAIL_DBG_EID :: nat where "LC_PASSIVE_FAIL_DBG_EID \<equiv> 59"
abbreviation (input) LC_AP_PASSIVE_FAIL_INF_EID :: nat where "LC_AP_PASSIVE_FAIL_INF_EID \<equiv> 60"
abbreviation (input) LC_AP_FAILTOPASS_INF_EID :: nat where "LC_AP_FAILTOPASS_INF_EID \<equiv> 61"
abbreviation (input) LC_ACTION_ERROR_ERR_EID :: nat where "LC_ACTION_ERROR_ERR_EID \<equiv> 62"
abbreviation (input) LC_INVALID_RPN_ERR_EID :: nat where "LC_INVALID_RPN_ERR_EID \<equiv> 63"
abbreviation (input) LC_ADTVAL_RPNERR_EID :: nat where "LC_ADTVAL_RPNERR_EID \<equiv> 64"
abbreviation (input) LC_ADTVAL_ERR_EID :: nat where "LC_ADTVAL_ERR_EID \<equiv> 65"
abbreviation (input) LC_ADTVAL_INF_EID :: nat where "LC_ADTVAL_INF_EID \<equiv> 66"
abbreviation (input) LC_CFCALL_ERR_EID :: nat where "LC_CFCALL_ERR_EID \<equiv> 67"

section \<open>Tables\<close>

text \<open>The union \<open>LC_MultiType_t\<close> is its four raw bytes; its members are reads in host order.\<close>

type_synonym LC_MultiType = bytes

record LC_WDTEntry =
  DataType :: u8
  OperatorID :: u8
  MessageID :: u32
  WatchpointOffset :: u32
  BitMask :: u32
  ComparisonValue :: LC_MultiType
  ResultAgeWhenStale :: u32
  CustomFuncArgument :: u32

record LC_ADTEntry =
  DefaultState :: u8
  MaxPassiveEvents :: u8
  MaxPassFailEvents :: u8
  MaxFailPassEvents :: u8
  ADT_RTSId :: u16
  MaxFailsBeforeRTS :: u16
  RPNEquation :: "u16 list"
  ADT_EventType :: u16
  ADT_EventID :: u16
  EventText :: bytes

record LC_WRTTransition =
  Value :: u32
  TransDataType :: u8
  Timestamp :: CFE_TIME_SysTime

record LC_WRTEntry =
  WatchResult :: u8
  CountdownToStale :: u32
  EvaluationCount :: u32
  FalseToTrueCount :: u32
  ConsecutiveTrueCount :: u32
  CumulativeTrueCount :: u32
  LastFalseToTrue :: LC_WRTTransition
  LastTrueToFalse :: LC_WRTTransition

record LC_ARTEntry =
  ActionResult :: u8
  CurrentState :: u8
  PassiveAPCount :: u32
  FailToPassCount :: u32
  PassToFailCount :: u32
  ConsecutiveFailCount :: u32
  CumulativeFailCount :: u32
  CumulativeRTSExecCount :: u32
  CumulativeEventMsgsSent :: u32

section \<open>Hash table links\<close>

record LC_WatchPtList =
  wl_Next :: "nat option"
  wl_WatchIndex :: nat

record LC_MessageList =
  ml_Next :: "nat option"
  ml_MessageID :: u32
  ml_WatchPtList :: "nat option"

section \<open>Housekeeping packet\<close>

record LC_HkPacket =
  hk_CmdCount :: u8
  hk_CmdErrCount :: u8
  hk_CurrentLCState :: u8
  hk_WPResults :: bytes
  hk_APResults :: bytes
  hk_PassiveRTSExecCount :: u16
  hk_WPsInUse :: u16
  hk_ActiveAPs :: u16
  hk_APSampleCount :: u32
  hk_MonitoredMsgCount :: u32
  hk_RTSExecCount :: u32

section \<open>State and environment\<close>

datatype sb_call = Subscribed u32 | Unsubscribed u32

record lc_state =
  WDT :: "LC_WDTEntry list"
  ADT :: "LC_ADTEntry list"
  WRT :: "LC_WRTEntry list"
  ART :: "LC_ARTEntry list"
  WatchpointCount :: nat
  MessageIDsCount :: nat
  HkPacket :: LC_HkPacket
  HashTable :: "nat option list"
  MessageLinks :: "LC_MessageList list"
  WatchPtLinks :: "LC_WatchPtList list"
  HaveActiveCDS :: bool
  CmdCount :: u16
  CmdErrCount :: u16
  APSampleCount :: u32
  MonitoredMsgCount :: u32
  RTSExecCount :: u32
  PassiveRTSExecCount :: u16
  CDSSavedOnExit :: u16
  CurrentLCState :: u8
  events :: "event list"
  tx :: "bytes list"
  hk_tx :: "LC_HkPacket list"
  sb_calls :: "sb_call list"

text \<open>
  What LC gets from the system while it handles one message: the byte order of the processor, the
  time, the status of software-bus subscriptions, the outcome of \<open>CFE_TBL_GetAddress\<close> for the two
  definition tables, and the status of each copy to the critical data store.
\<close>

record lc_env =
  lc_host :: endian
  lc_now :: CFE_TIME_SysTime
  SubscribeStatus :: "u32 \<Rightarrow> int"
  UnsubscribeStatus :: "u32 \<Rightarrow> int"
  WDT_GetAddress :: "LC_WDTEntry tbl_get"
  ADT_GetAddress :: "LC_ADTEntry tbl_get"
  CopyToCDS_WRT :: int
  CopyToCDS_ART :: int
  CopyToCDS_App :: int

definition evs :: "nat \<Rightarrow> nat \<Rightarrow> int list \<Rightarrow> lc_state \<Rightarrow> lc_state" where
  "evs eid ty args s = s\<lparr>events := events s @ [\<lparr>ev_id = eid, ev_type = ty, ev_args = args\<rparr>]\<rparr>"

definition upd_WRT :: "nat \<Rightarrow> (LC_WRTEntry \<Rightarrow> LC_WRTEntry) \<Rightarrow> lc_state \<Rightarrow> lc_state" where
  "upd_WRT i f s = s\<lparr>WRT := upd_at i f (WRT s)\<rparr>"

definition upd_ART :: "nat \<Rightarrow> (LC_ARTEntry \<Rightarrow> LC_ARTEntry) \<Rightarrow> lc_state \<Rightarrow> lc_state" where
  "upd_ART i f s = s\<lparr>ART := upd_at i f (ART s)\<rparr>"

section \<open>Well-formed states\<close>

definition wdt_wf :: "LC_WDTEntry list \<Rightarrow> bool" where
  "wdt_wf t \<longleftrightarrow> length t = LC_MAX_WATCHPOINTS \<and> list_all (\<lambda>w. length (ComparisonValue w) = 4) t"

definition adt_wf :: "LC_ADTEntry list \<Rightarrow> bool" where
  "adt_wf t \<longleftrightarrow> length t = LC_MAX_ACTIONPOINTS \<and> list_all (\<lambda>a. length (RPNEquation a) = LC_MAX_RPN_EQU_SIZE) t"

definition watch_values :: "u8 set" where
  "watch_values = {LC_WATCH_FALSE, LC_WATCH_TRUE, LC_WATCH_ERROR, LC_WATCH_STALE}"

definition lc_tables_wf :: "lc_state \<Rightarrow> bool" where
  "lc_tables_wf s \<longleftrightarrow> wdt_wf (WDT s) \<and> adt_wf (ADT s) \<and>
     length (WRT s) = LC_MAX_WATCHPOINTS \<and> length (ART s) = LC_MAX_ACTIONPOINTS \<and>
     list_all (\<lambda>w. WatchResult w \<in> watch_values) (WRT s)"

lemma evs_simps [simp]:
  "WDT (evs e t a s) = WDT s" "ADT (evs e t a s) = ADT s" "WRT (evs e t a s) = WRT s"
  "ART (evs e t a s) = ART s" "tx (evs e t a s) = tx s" "hk_tx (evs e t a s) = hk_tx s"
  "CurrentLCState (evs e t a s) = CurrentLCState s" "CmdCount (evs e t a s) = CmdCount s"
  "CmdErrCount (evs e t a s) = CmdErrCount s" "APSampleCount (evs e t a s) = APSampleCount s"
  "RTSExecCount (evs e t a s) = RTSExecCount s" "PassiveRTSExecCount (evs e t a s) = PassiveRTSExecCount s"
  "MonitoredMsgCount (evs e t a s) = MonitoredMsgCount s" "HashTable (evs e t a s) = HashTable s"
  "MessageLinks (evs e t a s) = MessageLinks s" "WatchPtLinks (evs e t a s) = WatchPtLinks s"
  "MessageIDsCount (evs e t a s) = MessageIDsCount s" "WatchpointCount (evs e t a s) = WatchpointCount s"
  "HaveActiveCDS (evs e t a s) = HaveActiveCDS s" "HkPacket (evs e t a s) = HkPacket s"
  "sb_calls (evs e t a s) = sb_calls s" "CDSSavedOnExit (evs e t a s) = CDSSavedOnExit s"
  "events (evs e t a s) = events s @ [\<lparr>ev_id = e, ev_type = t, ev_args = a\<rparr>]"
  by (simp_all add: evs_def)

lemma upd_WRT_simps [simp]:
  "WDT (upd_WRT i f s) = WDT s" "ADT (upd_WRT i f s) = ADT s" "ART (upd_WRT i f s) = ART s"
  "tx (upd_WRT i f s) = tx s" "hk_tx (upd_WRT i f s) = hk_tx s"
  "CurrentLCState (upd_WRT i f s) = CurrentLCState s" "events (upd_WRT i f s) = events s"
  "HashTable (upd_WRT i f s) = HashTable s" "MessageLinks (upd_WRT i f s) = MessageLinks s"
  "WatchPtLinks (upd_WRT i f s) = WatchPtLinks s" "MessageIDsCount (upd_WRT i f s) = MessageIDsCount s"
  "WatchpointCount (upd_WRT i f s) = WatchpointCount s" "CmdCount (upd_WRT i f s) = CmdCount s"
  "CmdErrCount (upd_WRT i f s) = CmdErrCount s" "MonitoredMsgCount (upd_WRT i f s) = MonitoredMsgCount s"
  "RTSExecCount (upd_WRT i f s) = RTSExecCount s" "sb_calls (upd_WRT i f s) = sb_calls s"
  "APSampleCount (upd_WRT i f s) = APSampleCount s"
  "PassiveRTSExecCount (upd_WRT i f s) = PassiveRTSExecCount s"
  "WRT (upd_WRT i f s) = upd_at i f (WRT s)"
  by (simp_all add: upd_WRT_def)

lemma upd_ART_simps [simp]:
  "WDT (upd_ART i f s) = WDT s" "ADT (upd_ART i f s) = ADT s" "WRT (upd_ART i f s) = WRT s"
  "tx (upd_ART i f s) = tx s" "hk_tx (upd_ART i f s) = hk_tx s"
  "CurrentLCState (upd_ART i f s) = CurrentLCState s" "events (upd_ART i f s) = events s"
  "HashTable (upd_ART i f s) = HashTable s" "MessageLinks (upd_ART i f s) = MessageLinks s"
  "WatchPtLinks (upd_ART i f s) = WatchPtLinks s" "MessageIDsCount (upd_ART i f s) = MessageIDsCount s"
  "WatchpointCount (upd_ART i f s) = WatchpointCount s" "CmdCount (upd_ART i f s) = CmdCount s"
  "CmdErrCount (upd_ART i f s) = CmdErrCount s" "MonitoredMsgCount (upd_ART i f s) = MonitoredMsgCount s"
  "RTSExecCount (upd_ART i f s) = RTSExecCount s" "sb_calls (upd_ART i f s) = sb_calls s"
  "APSampleCount (upd_ART i f s) = APSampleCount s"
  "PassiveRTSExecCount (upd_ART i f s) = PassiveRTSExecCount s"
  "ART (upd_ART i f s) = upd_at i f (ART s)"
  by (simp_all add: upd_ART_def)

section \<open>A small configuration\<close>

text \<open>
  One watchpoint on telemetry message \<open>0x0801\<close> (unsigned byte at offset 12, greater than 100) and one
  actionpoint on it that requests sequence 5 after two failures in a row. Used in the examples that
  accompany the theorems.
\<close>

definition wp_unused :: LC_WDTEntry where
  "wp_unused = \<lparr>DataType = LC_WATCH_NOT_USED, OperatorID = 0, MessageID = 0, WatchpointOffset = 0,
     BitMask = 0, ComparisonValue = [0, 0, 0, 0], ResultAgeWhenStale = 0, CustomFuncArgument = 0\<rparr>"

definition wp_demo :: LC_WDTEntry where
  "wp_demo = \<lparr>DataType = LC_DATA_UBYTE, OperatorID = LC_OPER_GT, MessageID = 0x0801, WatchpointOffset = 12,
     BitMask = 0xFF, ComparisonValue = [100, 0, 0, 0], ResultAgeWhenStale = 3, CustomFuncArgument = 0\<rparr>"

definition ap_unused :: LC_ADTEntry where
  "ap_unused = \<lparr>DefaultState = LC_ACTION_NOT_USED, MaxPassiveEvents = 0, MaxPassFailEvents = 0,
     MaxFailPassEvents = 0, ADT_RTSId = 0, MaxFailsBeforeRTS = 0, RPNEquation = replicate 20 0,
     ADT_EventType = 0, ADT_EventID = 0, EventText = []\<rparr>"

definition ap_demo :: LC_ADTEntry where
  "ap_demo = \<lparr>DefaultState = LC_APSTATE_ACTIVE, MaxPassiveEvents = 2, MaxPassFailEvents = 2,
     MaxFailPassEvents = 2, ADT_RTSId = 5, MaxFailsBeforeRTS = 2,
     RPNEquation = [0, LC_RPN_EQUAL] @ replicate 18 0, ADT_EventType = 2, ADT_EventID = 1000,
     EventText = []\<rparr>"

definition no_transition :: LC_WRTTransition where
  "no_transition = \<lparr>Value = 0, TransDataType = 0, Timestamp = \<lparr>Seconds = 0, Subseconds = 0\<rparr>\<rparr>"

definition wr_clear :: "u8 \<Rightarrow> LC_WRTEntry" where
  "wr_clear r = \<lparr>WatchResult = r, CountdownToStale = 0, EvaluationCount = 0, FalseToTrueCount = 0,
     ConsecutiveTrueCount = 0, CumulativeTrueCount = 0, LastFalseToTrue = no_transition,
     LastTrueToFalse = no_transition\<rparr>"

definition ar_clear :: "u8 \<Rightarrow> LC_ARTEntry" where
  "ar_clear c = \<lparr>ActionResult = LC_ACTION_STALE, CurrentState = c, PassiveAPCount = 0,
     FailToPassCount = 0, PassToFailCount = 0, ConsecutiveFailCount = 0, CumulativeFailCount = 0,
     CumulativeRTSExecCount = 0, CumulativeEventMsgsSent = 0\<rparr>"

definition lc_demo :: lc_state where
  "lc_demo = \<lparr>WDT = wp_demo # replicate 175 wp_unused, ADT = ap_demo # replicate 175 ap_unused,
     WRT = wr_clear LC_WATCH_TRUE # replicate 175 (wr_clear LC_WATCH_STALE),
     ART = ar_clear LC_APSTATE_ACTIVE # replicate 175 (ar_clear LC_ACTION_NOT_USED),
     WatchpointCount = 1, MessageIDsCount = 1,
     HkPacket = \<lparr>hk_CmdCount = 0, hk_CmdErrCount = 0, hk_CurrentLCState = 0, hk_WPResults = replicate 44 0,
       hk_APResults = replicate 88 0, hk_PassiveRTSExecCount = 0, hk_WPsInUse = 0, hk_ActiveAPs = 0,
       hk_APSampleCount = 0, hk_MonitoredMsgCount = 0, hk_RTSExecCount = 0\<rparr>,
     HashTable = (replicate 256 None)[1 := Some 0],
     MessageLinks = \<lparr>ml_Next = None, ml_MessageID = 0x0801, ml_WatchPtList = Some 0\<rparr>
       # replicate 175 \<lparr>ml_Next = None, ml_MessageID = 0, ml_WatchPtList = None\<rparr>,
     WatchPtLinks = replicate 176 \<lparr>wl_Next = None, wl_WatchIndex = 0\<rparr>,
     HaveActiveCDS = False, CmdCount = 0, CmdErrCount = 0, APSampleCount = 0, MonitoredMsgCount = 0,
     RTSExecCount = 0, PassiveRTSExecCount = 0, CDSSavedOnExit = 0, CurrentLCState = LC_STATE_ACTIVE,
     events = [], tx = [], hk_tx = [], sb_calls = []\<rparr>"

definition lc_env_demo :: lc_env where
  "lc_env_demo = \<lparr>lc_host = LittleEndian, lc_now = \<lparr>Seconds = 1000, Subseconds = 0\<rparr>,
     SubscribeStatus = (\<lambda>_. 0), UnsubscribeStatus = (\<lambda>_. 0),
     WDT_GetAddress = TblSame, ADT_GetAddress = TblSame,
     CopyToCDS_WRT = 0, CopyToCDS_ART = 0, CopyToCDS_App = 0\<rparr>"

lemmas demo_defs = wp_unused_def wp_demo_def ap_unused_def ap_demo_def no_transition_def wr_clear_def
  ar_clear_def

lemma lc_demo_wf: "lc_tables_wf lc_demo"
  by (simp add: lc_tables_wf_def lc_demo_def wdt_wf_def adt_wf_def watch_values_def list_all_iff
      demo_defs)

lemma lc_demo_simps:
  "ADT lc_demo ! 0 = ap_demo" "WRT lc_demo ! 0 = wr_clear LC_WATCH_TRUE"
  "ART lc_demo ! 0 = ar_clear LC_APSTATE_ACTIVE" "WDT lc_demo ! 0 = wp_demo"
  "CurrentLCState lc_demo = LC_STATE_ACTIVE" "tx lc_demo = []" "APSampleCount lc_demo = 0"
  "lc_host lc_env_demo = LittleEndian"
  by (simp_all add: lc_demo_def lc_env_demo_def)

end
