(* ===== verification/Lc_Action.thy ===== *)
theory Lc_Action
  imports Lc_Defs
begin

text \<open>
  The action side of LC (\<open>lc_action.c\<close>, \<open>lc_custom.c\<close>): evaluation of an actionpoint's equation in
  reverse Polish notation over the watchpoint results, its validation on a table load, the sampling
  of one or several actionpoints and the request for a stored command sequence. The lemmas give the
  equation's meaning by a compiler from expressions: what validation accepts is exactly what the
  compiler produces, and its evaluation is the expression's value.
\<close>

section \<open>Evaluating an equation\<close>

record rpn_state =
  RPNStack :: "u16 list"
  RPNEquationPtr :: nat
  IllegalRPN :: bool
  IllegalOperand :: bool
  RPNDone :: bool
  EvalResult :: u8

text \<open>The head of the stack list is the top; \<open>StackPtr\<close> is its length.\<close>

definition POP_RPN_DATA :: "rpn_state \<Rightarrow> u16 \<times> rpn_state" where
  "POP_RPN_DATA st = (case RPNStack st of
      [] \<Rightarrow> (1, st\<lparr>IllegalRPN := True\<rparr>)
    | x # xs \<Rightarrow> (x, st\<lparr>RPNStack := xs\<rparr>))"

definition rpn_push :: "u16 \<Rightarrow> rpn_state \<Rightarrow> rpn_state" where
  "rpn_push v st = st\<lparr>RPNStack := v # RPNStack st\<rparr>"

definition rpn_and :: "u16 \<Rightarrow> u16 \<Rightarrow> u16" where
  "rpn_and Operand1 Operand2 =
     (if Operand1 = LC_WATCH_FALSE \<or> Operand2 = LC_WATCH_FALSE then LC_WATCH_FALSE
      else if Operand1 = LC_WATCH_ERROR \<or> Operand2 = LC_WATCH_ERROR then LC_WATCH_ERROR
      else if Operand1 = LC_WATCH_STALE \<or> Operand2 = LC_WATCH_STALE then LC_WATCH_STALE
      else LC_WATCH_TRUE)"

definition rpn_or :: "u16 \<Rightarrow> u16 \<Rightarrow> u16" where
  "rpn_or Operand1 Operand2 =
     (if Operand1 = LC_WATCH_TRUE \<or> Operand2 = LC_WATCH_TRUE then LC_WATCH_TRUE
      else if Operand1 = LC_WATCH_ERROR \<or> Operand2 = LC_WATCH_ERROR then LC_WATCH_ERROR
      else if Operand1 = LC_WATCH_STALE \<or> Operand2 = LC_WATCH_STALE then LC_WATCH_STALE
      else LC_WATCH_FALSE)"

definition rpn_xor :: "u16 \<Rightarrow> u16 \<Rightarrow> u16" where
  "rpn_xor Operand1 Operand2 =
     (if Operand1 = LC_WATCH_ERROR \<or> Operand2 = LC_WATCH_ERROR then LC_WATCH_ERROR
      else if Operand1 = LC_WATCH_STALE \<or> Operand2 = LC_WATCH_STALE then LC_WATCH_STALE
      else if Operand1 \<noteq> Operand2 then 1 else 0)"

definition rpn_not :: "u16 \<Rightarrow> u16" where
  "rpn_not Operand1 =
     (if Operand1 = LC_WATCH_ERROR then LC_WATCH_ERROR
      else if Operand1 = LC_WATCH_STALE then LC_WATCH_STALE
      else if Operand1 = LC_WATCH_FALSE then 1 else 0)"

definition rpn_binary :: "(u16 \<Rightarrow> u16 \<Rightarrow> u16) \<Rightarrow> rpn_state \<Rightarrow> rpn_state" where
  "rpn_binary f st =
     (let (Operand2, st) = POP_RPN_DATA st;
          (Operand1, st) = POP_RPN_DATA st
      in rpn_push (f Operand1 Operand2) st)"

definition rpn_equal :: "rpn_state \<Rightarrow> rpn_state" where
  "rpn_equal st =
     (let (Operand, st) = POP_RPN_DATA st;
          st = st\<lparr>EvalResult := ucast Operand\<rparr>
      in if EvalResult st = LC_WATCH_ERROR \<or> EvalResult st = LC_WATCH_STALE
         then st\<lparr>IllegalOperand := True\<rparr>
         else if length (RPNStack st) = 0 then st\<lparr>RPNDone := True\<rparr>
         else st\<lparr>IllegalRPN := True\<rparr>)"

definition rpn_item :: "LC_WRTEntry list \<Rightarrow> u16 \<Rightarrow> rpn_state \<Rightarrow> rpn_state" where
  "rpn_item wrt RPNData st =
     (if RPNData = LC_RPN_AND then rpn_binary rpn_and st
      else if RPNData = LC_RPN_OR then rpn_binary rpn_or st
      else if RPNData = LC_RPN_XOR then rpn_binary rpn_xor st
      else if RPNData = LC_RPN_NOT then (let (Operand1, st) = POP_RPN_DATA st in rpn_push (rpn_not Operand1) st)
      else if RPNData = LC_RPN_EQUAL then rpn_equal st
      else if RPNData < of_nat LC_MAX_WATCHPOINTS
      then rpn_push (ucast (WatchResult (wrt ! unat RPNData))) st
      else st\<lparr>IllegalRPN := True\<rparr>)"

abbreviation rpn_running :: "rpn_state \<Rightarrow> bool" where
  "rpn_running st \<equiv> \<not> RPNDone st \<and> \<not> IllegalRPN st \<and> \<not> IllegalOperand st"

text \<open>One round of the \<open>while\<close> loop: fetch, interpret, then the test for the end of the buffer.\<close>

definition rpn_round :: "LC_WRTEntry list \<Rightarrow> u16 \<Rightarrow> rpn_state \<Rightarrow> rpn_state" where
  "rpn_round wrt RPNData st =
     (let st = rpn_item wrt RPNData (st\<lparr>RPNEquationPtr := RPNEquationPtr st + 1\<rparr>)
      in if rpn_running st \<and> RPNEquationPtr st \<ge> LC_MAX_RPN_EQU_SIZE then st\<lparr>IllegalRPN := True\<rparr> else st)"

lemma POP_ptr [simp]: "RPNEquationPtr (snd (POP_RPN_DATA st)) = RPNEquationPtr st"
  by (simp add: POP_RPN_DATA_def split: list.split)

lemma rpn_item_ptr [simp]: "RPNEquationPtr (rpn_item wrt d st) = RPNEquationPtr st"
  by (simp add: rpn_item_def rpn_binary_def rpn_equal_def rpn_push_def POP_RPN_DATA_def Let_def
      split: list.split)

lemma rpn_round_ptr [simp]: "RPNEquationPtr (rpn_round wrt d st) = Suc (RPNEquationPtr st)"
  by (simp add: rpn_round_def Let_def)

text \<open>\<open>None\<close> would be a read beyond the end of the equation.\<close>

function rpn_loop :: "LC_WRTEntry list \<Rightarrow> u16 list \<Rightarrow> rpn_state \<Rightarrow> rpn_state option" where
  "rpn_loop wrt eq st =
     (if rpn_running st
      then (case nth_opt eq (RPNEquationPtr st) of
              None \<Rightarrow> None
            | Some RPNData \<Rightarrow> rpn_loop wrt eq (rpn_round wrt RPNData st))
      else Some st)"
  by auto
termination
  by (relation "measure (\<lambda>(wrt, eq, st). length eq - RPNEquationPtr st)")
    (auto simp: nth_opt_def split: if_splits)

declare rpn_loop.simps [simp del]

definition rpn_start :: rpn_state where
  "rpn_start = \<lparr>RPNStack = [], RPNEquationPtr = 0, IllegalRPN = False, IllegalOperand = False,
     RPNDone = False, EvalResult = LC_ACTION_ERROR\<rparr>"

definition LC_EvaluateRPN :: "nat \<Rightarrow> lc_state \<Rightarrow> (u8 \<times> lc_state) option" where
  "LC_EvaluateRPN APNumber s = do {
     adt \<leftarrow> nth_opt (ADT s) APNumber;
     st \<leftarrow> rpn_loop (WRT s) (RPNEquation adt) rpn_start;
     Some (if IllegalRPN st
           then (LC_ACTION_ERROR,
                 evs LC_INVALID_RPN_ERR_EID CFE_EVS_EventType_ERROR
                   [int APNumber, int (RPNEquationPtr st) - 1, int (length (RPNStack st))] s)
           else if EvalResult st = LC_WATCH_ERROR then (LC_ACTION_ERROR, s)
           else if EvalResult st = LC_WATCH_STALE then (LC_ACTION_STALE, s)
           else if EvalResult st = LC_WATCH_FALSE then (LC_ACTION_PASS, s)
           else if EvalResult st = LC_WATCH_TRUE then (LC_ACTION_FAIL, s)
           else (EvalResult st, s))
   }"

section \<open>Validating an equation and the actionpoint table\<close>

fun validate_loop :: "u16 list \<Rightarrow> int \<Rightarrow> int \<Rightarrow> u16 \<Rightarrow> int \<times> int \<times> u16" where
  "validate_loop [] BufferIndex StackDepth BufferItem = (BufferIndex, StackDepth, BufferItem)"
| "validate_loop (x # xs) BufferIndex StackDepth _ =
     (if x = LC_RPN_EQUAL then (BufferIndex, StackDepth, x)
      else if \<not> (x = LC_RPN_AND \<or> x = LC_RPN_OR \<or> x = LC_RPN_XOR \<or> x = LC_RPN_NOT \<or>
                 x < of_nat LC_MAX_WATCHPOINTS)
      then (BufferIndex, StackDepth, x)
      else let StackDepth =
             (if x = LC_RPN_AND \<or> x = LC_RPN_OR \<or> x = LC_RPN_XOR then StackDepth - 1
              else if x = LC_RPN_NOT then StackDepth
              else StackDepth + 1)
           in if StackDepth \<le> 0 then (BufferIndex, StackDepth, x)
              else validate_loop xs (BufferIndex + 1) StackDepth x)"

abbreviation (input) LC_ADTVAL_NO_ERR :: int where "LC_ADTVAL_NO_ERR \<equiv> 0"
abbreviation (input) LC_ADTVAL_ERR_DEFSTATE :: int where "LC_ADTVAL_ERR_DEFSTATE \<equiv> 1"
abbreviation (input) LC_ADTVAL_ERR_RTSID :: int where "LC_ADTVAL_ERR_RTSID \<equiv> 2"
abbreviation (input) LC_ADTVAL_ERR_FAILCNT :: int where "LC_ADTVAL_ERR_FAILCNT \<equiv> 3"
abbreviation (input) LC_ADTVAL_ERR_EVTTYPE :: int where "LC_ADTVAL_ERR_EVTTYPE \<equiv> 4"
abbreviation (input) LC_ADTVAL_ERR_RPN :: int where "LC_ADTVAL_ERR_RPN \<equiv> 5"

text \<open>Result, and the two out-parameters, which keep their value when the equation is valid.\<close>

definition LC_ValidateRPN :: "u16 list \<Rightarrow> int \<Rightarrow> int \<Rightarrow> int \<times> int \<times> int" where
  "LC_ValidateRPN RPNPtr IndexValue StackDepthValue =
     (let (BufferIndex, StackDepth, BufferItem) = validate_loop RPNPtr 0 0 0
      in if BufferItem = LC_RPN_EQUAL \<and> StackDepth = 1
         then (LC_ADTVAL_NO_ERR, IndexValue, StackDepthValue)
         else (LC_ADTVAL_ERR_RPN, BufferIndex, StackDepth))"

text \<open>The locals of \<open>LC_ValidateADT\<close> that live across table entries.\<close>

record adt_val =
  EntryResult :: int
  TableResult :: int
  RPNIndex :: int
  RPNStackDepth :: int
  GoodCount :: int
  BadCount :: int
  UnusedCount :: int

definition adt_entry_check :: "LC_ADTEntry \<Rightarrow> adt_val \<Rightarrow> adt_val" where
  "adt_entry_check e v =
     (if DefaultState e = LC_ACTION_NOT_USED then v\<lparr>UnusedCount := UnusedCount v + 1\<rparr>
      else if DefaultState e \<noteq> LC_APSTATE_ACTIVE \<and> DefaultState e \<noteq> LC_APSTATE_PASSIVE \<and>
              DefaultState e \<noteq> LC_APSTATE_DISABLED \<and> DefaultState e \<noteq> LC_APSTATE_PERMOFF
      then v\<lparr>BadCount := BadCount v + 1, EntryResult := LC_ADTVAL_ERR_DEFSTATE\<rparr>
      else if ADT_RTSId e > 0xFFF0 then v\<lparr>BadCount := BadCount v + 1, EntryResult := LC_ADTVAL_ERR_RTSID\<rparr>
      else if MaxFailsBeforeRTS e = 0
      then v\<lparr>BadCount := BadCount v + 1, EntryResult := LC_ADTVAL_ERR_FAILCNT\<rparr>
      else if ADT_EventType e \<noteq> 1 \<and> ADT_EventType e \<noteq> 2 \<and> ADT_EventType e \<noteq> 3 \<and> ADT_EventType e \<noteq> 4
      then v\<lparr>BadCount := BadCount v + 1, EntryResult := LC_ADTVAL_ERR_EVTTYPE\<rparr>
      else (let (res, idx, depth) = LC_ValidateRPN (RPNEquation e) (RPNIndex v) (RPNStackDepth v);
                v = v\<lparr>EntryResult := res, RPNIndex := idx, RPNStackDepth := depth\<rparr>
            in if res \<noteq> LC_ADTVAL_NO_ERR then v\<lparr>BadCount := BadCount v + 1\<rparr>
               else v\<lparr>GoodCount := GoodCount v + 1\<rparr>))"

definition adt_first_error :: "nat \<Rightarrow> LC_ADTEntry \<Rightarrow> adt_val \<times> lc_state \<Rightarrow> adt_val \<times> lc_state" where
  "adt_first_error TableIndex e = (\<lambda>(v, s).
     if EntryResult v \<noteq> LC_ADTVAL_NO_ERR \<and> TableResult v = 0
     then (v\<lparr>TableResult := EntryResult v\<rparr>,
           if EntryResult v = LC_ADTVAL_ERR_RPN
           then evs LC_ADTVAL_RPNERR_EID CFE_EVS_EventType_ERROR
                  [int TableIndex, RPNIndex v, RPNStackDepth v] s
           else evs LC_ADTVAL_ERR_EID CFE_EVS_EventType_ERROR
                  [int TableIndex, EntryResult v, uint (DefaultState e), uint (ADT_RTSId e),
                   uint (MaxFailsBeforeRTS e), uint (ADT_EventType e)] s)
     else (v, s))"

fun adt_val_loop :: "LC_ADTEntry list \<Rightarrow> nat \<Rightarrow> adt_val \<times> lc_state \<Rightarrow> adt_val \<times> lc_state" where
  "adt_val_loop [] TableIndex vs = vs"
| "adt_val_loop (e # es) TableIndex (v, s) =
     adt_val_loop es (TableIndex + 1) (adt_first_error TableIndex e (adt_entry_check e v, s))"

definition LC_ValidateADT :: "LC_ADTEntry list \<Rightarrow> lc_state \<Rightarrow> int \<times> lc_state" where
  "LC_ValidateADT TableArray s =
     (let (v, s) = adt_val_loop TableArray 0
            (\<lparr>EntryResult = LC_ADTVAL_NO_ERR, TableResult = 0, RPNIndex = 0, RPNStackDepth = 0,
              GoodCount = 0, BadCount = 0, UnusedCount = 0\<rparr>, s)
      in (TableResult v,
          evs LC_ADTVAL_INF_EID CFE_EVS_EventType_INFORMATION [GoodCount v, BadCount v, UnusedCount v] s))"

section \<open>Requesting a command sequence\<close>

abbreviation (input) LC_RTS_REQ_MID :: u32 where "LC_RTS_REQ_MID \<equiv> 0x18A9"
abbreviation (input) LC_RTS_REQ_CC :: u16 where "LC_RTS_REQ_CC \<equiv> 4"

text \<open>The request as \<open>LC_ExecuteRTS\<close> hands it to the software bus: a header and the id in host order.\<close>

definition LC_RTSRequest :: "endian \<Rightarrow> u16 \<Rightarrow> bytes" where
  "LC_RTSRequest en RTSId =
     (let RTSRequest = snd (CFE_MSG_Init LC_RTS_REQ_MID 12);
          RTSRequest = snd (CFE_MSG_SetFcnCode RTSRequest LC_RTS_REQ_CC)
      in wr16 en RTSRequest 8 RTSId)"

definition LC_ExecuteRTS :: "lc_env \<Rightarrow> u16 \<Rightarrow> lc_state \<Rightarrow> lc_state" where
  "LC_ExecuteRTS env RTSId s = s\<lparr>tx := tx s @ [LC_RTSRequest (lc_host env) RTSId]\<rparr>"

section \<open>Sampling an actionpoint\<close>

definition msg_sent :: "LC_ARTEntry \<Rightarrow> LC_ARTEntry" where
  "msg_sent a = a\<lparr>CumulativeEventMsgsSent := CumulativeEventMsgsSent a + 1\<rparr>"

text \<open>The branch "we failed this time, but we passed last time".\<close>

definition ap_pass_to_fail :: "nat \<Rightarrow> LC_ADTEntry \<Rightarrow> lc_state \<Rightarrow> lc_state" where
  "ap_pass_to_fail APNumber adt s =
     (let s = upd_ART APNumber (\<lambda>a. a\<lparr>PassToFailCount := PassToFailCount a + 1\<rparr>) s
      in if PassToFailCount (ART s ! APNumber) \<le> ucast (MaxPassFailEvents adt)
         then upd_ART APNumber msg_sent
                (evs LC_AP_PASSTOFAIL_INF_EID CFE_EVS_EventType_INFORMATION [int APNumber] s)
         else s)"

text \<open>The branch of an actionpoint that has failed often enough, by its state when sampled.\<close>

definition ap_request_rts :: "lc_env \<Rightarrow> nat \<Rightarrow> LC_ADTEntry \<Rightarrow> u8 \<Rightarrow> lc_state \<Rightarrow> lc_state" where
  "ap_request_rts env APNumber adt CurrentAPState s =
     (if CurrentAPState = LC_APSTATE_ACTIVE
      then (let s = upd_ART APNumber (\<lambda>a. a\<lparr>CurrentState := LC_APSTATE_PASSIVE\<rparr>) s
            in if CurrentLCState s = LC_STATE_ACTIVE
               then (let s = LC_ExecuteRTS env (ADT_RTSId adt) s;
                         s = upd_ART APNumber (\<lambda>a. a\<lparr>CumulativeRTSExecCount := CumulativeRTSExecCount a + 1\<rparr>) s;
                         s = s\<lparr>RTSExecCount := RTSExecCount s + 1\<rparr>;
                         s = evs (unat (ADT_EventID adt)) (unat (ADT_EventType adt))
                               [int APNumber, uint (ConsecutiveFailCount (ART s ! APNumber)), uint (ADT_RTSId adt)] s
                     in upd_ART APNumber msg_sent s)
               else (let s = s\<lparr>PassiveRTSExecCount := PassiveRTSExecCount s + 1\<rparr>
                     in evs LC_PASSIVE_FAIL_DBG_EID CFE_EVS_EventType_DEBUG
                          [int APNumber, sint (ConsecutiveFailCount (ART s ! APNumber)), uint (ADT_RTSId adt)] s))
      else (let s = upd_ART APNumber (\<lambda>a. a\<lparr>PassiveAPCount := PassiveAPCount a + 1\<rparr>) s;
                s = s\<lparr>PassiveRTSExecCount := PassiveRTSExecCount s + 1\<rparr>
            in if PassiveAPCount (ART s ! APNumber) \<le> ucast (MaxPassiveEvents adt)
               then upd_ART APNumber msg_sent
                      (evs LC_AP_PASSIVE_FAIL_INF_EID CFE_EVS_EventType_INFORMATION
                         [int APNumber, sint (ConsecutiveFailCount (ART s ! APNumber)), uint (ADT_RTSId adt)] s)
               else s))"

definition ap_failed :: "lc_env \<Rightarrow> nat \<Rightarrow> LC_ADTEntry \<Rightarrow> u8 \<Rightarrow> u8 \<Rightarrow> lc_state \<Rightarrow> lc_state" where
  "ap_failed env APNumber adt CurrentAPState PreviousResult s =
     (let s = upd_ART APNumber (\<lambda>a. a\<lparr>ConsecutiveFailCount := ConsecutiveFailCount a + 1,
                                      CumulativeFailCount := CumulativeFailCount a + 1\<rparr>) s;
          s = (if PreviousResult = LC_ACTION_PASS then ap_pass_to_fail APNumber adt s else s)
      in if ConsecutiveFailCount (ART s ! APNumber) \<ge> ucast (MaxFailsBeforeRTS adt)
         then ap_request_rts env APNumber adt CurrentAPState s
         else s)"

definition ap_passed :: "nat \<Rightarrow> LC_ADTEntry \<Rightarrow> u8 \<Rightarrow> lc_state \<Rightarrow> lc_state" where
  "ap_passed APNumber adt PreviousResult s =
     (let s = (if PreviousResult = LC_ACTION_FAIL
               then (let s = upd_ART APNumber (\<lambda>a. a\<lparr>FailToPassCount := FailToPassCount a + 1\<rparr>) s
                     in if FailToPassCount (ART s ! APNumber) \<le> ucast (MaxFailPassEvents adt)
                        then upd_ART APNumber msg_sent
                               (evs LC_AP_FAILTOPASS_INF_EID CFE_EVS_EventType_INFORMATION [int APNumber] s)
                        else s)
               else s)
      in upd_ART APNumber (\<lambda>a. a\<lparr>ConsecutiveFailCount := 0\<rparr>) s)"

text \<open>\<open>None\<close> would be an index outside the actionpoint tables.\<close>

definition LC_SampleSingleAP :: "lc_env \<Rightarrow> nat \<Rightarrow> lc_state \<Rightarrow> lc_state option" where
  "LC_SampleSingleAP env APNumber s = do {
     art \<leftarrow> nth_opt (ART s) APNumber;
     if CurrentState art = LC_APSTATE_ACTIVE \<or> CurrentState art = LC_APSTATE_PASSIVE
     then do {
       let s = s\<lparr>APSampleCount := APSampleCount s + 1\<rparr>;
       (CurrentResult, s) \<leftarrow> LC_EvaluateRPN APNumber s;
       adt \<leftarrow> nth_opt (ADT s) APNumber;
       let s = upd_ART APNumber (\<lambda>a. a\<lparr>ActionResult := CurrentResult\<rparr>) s;
       Some (if CurrentResult = LC_ACTION_FAIL
             then ap_failed env APNumber adt (CurrentState art) (ActionResult art) s
             else if CurrentResult = LC_ACTION_PASS
             then ap_passed APNumber adt (ActionResult art) s
             else if CurrentResult = LC_ACTION_STALE
             then upd_ART APNumber (\<lambda>a. a\<lparr>ConsecutiveFailCount := 0\<rparr>) s
             else evs LC_ACTION_ERROR_ERR_EID CFE_EVS_EventType_ERROR
                    [int APNumber, uint CurrentResult] s)
     }
     else Some s
   }"

text \<open>The loop of \<open>LC_SampleAPs\<close>: \<open>n\<close> actionpoints from \<open>TableIndex\<close> on.\<close>

fun sample_loop :: "lc_env \<Rightarrow> nat \<Rightarrow> nat \<Rightarrow> lc_state \<Rightarrow> lc_state option" where
  "sample_loop env TableIndex 0 s = Some s"
| "sample_loop env TableIndex (Suc n) s =
     Option.bind (LC_SampleSingleAP env TableIndex s) (sample_loop env (TableIndex + 1) n)"

definition LC_SampleAPs :: "lc_env \<Rightarrow> nat \<Rightarrow> nat \<Rightarrow> lc_state \<Rightarrow> lc_state option" where
  "LC_SampleAPs env StartIndex EndIndex s =
     (if StartIndex = EndIndex
      then do {
        art \<leftarrow> nth_opt (ART s) StartIndex;
        if CurrentState art \<noteq> LC_ACTION_NOT_USED \<and> CurrentState art \<noteq> LC_APSTATE_PERMOFF
        then LC_SampleSingleAP env StartIndex s
        else Some (evs LC_APSAMPLE_CURR_ERR_EID CFE_EVS_EventType_ERROR
                     [int StartIndex, uint (CurrentState art)] s)
      }
      else sample_loop env StartIndex (EndIndex + 1 - StartIndex) s)"

section \<open>What an equation means\<close>

text \<open>
  Four truth values: an erroneous or stale watchpoint is neither true nor false. The conjunction is
  the least in the order false, error, stale, true; the other connectives derive from it and from
  the negation as in two-valued logic.
\<close>

datatype verdict = VFalse | VError | VStale | VTrue

fun rank :: "verdict \<Rightarrow> nat" where
  "rank VFalse = 0" | "rank VError = 1" | "rank VStale = 2" | "rank VTrue = 3"

definition v_and :: "verdict \<Rightarrow> verdict \<Rightarrow> verdict" where
  "v_and a b = (if rank a \<le> rank b then a else b)"

fun v_not :: "verdict \<Rightarrow> verdict" where
  "v_not VFalse = VTrue" | "v_not VTrue = VFalse" | "v_not v = v"

definition v_or :: "verdict \<Rightarrow> verdict \<Rightarrow> verdict" where
  "v_or a b = v_not (v_and (v_not a) (v_not b))"

definition v_xor :: "verdict \<Rightarrow> verdict \<Rightarrow> verdict" where
  "v_xor a b = v_or (v_and a (v_not b)) (v_and (v_not a) b)"

fun v_word :: "verdict \<Rightarrow> 'a::len word" where
  "v_word VFalse = LC_WATCH_FALSE" | "v_word VTrue = LC_WATCH_TRUE"
| "v_word VError = LC_WATCH_ERROR" | "v_word VStale = LC_WATCH_STALE"

definition v_of :: "u8 \<Rightarrow> verdict" where
  "v_of w = (if w = LC_WATCH_FALSE then VFalse else if w = LC_WATCH_TRUE then VTrue
             else if w = LC_WATCH_ERROR then VError else VStale)"

datatype wp_expr = WP nat | And wp_expr wp_expr | Or wp_expr wp_expr | Xor wp_expr wp_expr | Not wp_expr

primrec wps :: "wp_expr \<Rightarrow> nat set" where
  "wps (WP i) = {i}"
| "wps (And a b) = wps a \<union> wps b"
| "wps (Or a b) = wps a \<union> wps b"
| "wps (Xor a b) = wps a \<union> wps b"
| "wps (Not a) = wps a"

primrec v_eval :: "LC_WRTEntry list \<Rightarrow> wp_expr \<Rightarrow> verdict" where
  "v_eval wrt (WP i) = v_of (WatchResult (wrt ! i))"
| "v_eval wrt (And a b) = v_and (v_eval wrt a) (v_eval wrt b)"
| "v_eval wrt (Or a b) = v_or (v_eval wrt a) (v_eval wrt b)"
| "v_eval wrt (Xor a b) = v_xor (v_eval wrt a) (v_eval wrt b)"
| "v_eval wrt (Not a) = v_not (v_eval wrt a)"

primrec rpn_compile :: "wp_expr \<Rightarrow> u16 list" where
  "rpn_compile (WP i) = [of_nat i]"
| "rpn_compile (And a b) = rpn_compile a @ rpn_compile b @ [LC_RPN_AND]"
| "rpn_compile (Or a b) = rpn_compile a @ rpn_compile b @ [LC_RPN_OR]"
| "rpn_compile (Xor a b) = rpn_compile a @ rpn_compile b @ [LC_RPN_XOR]"
| "rpn_compile (Not a) = rpn_compile a @ [LC_RPN_NOT]"

fun v_action :: "verdict \<Rightarrow> u8" where
  "v_action VFalse = LC_ACTION_PASS" | "v_action VTrue = LC_ACTION_FAIL"
| "v_action VError = LC_ACTION_ERROR" | "v_action VStale = LC_ACTION_STALE"

lemma rpn_connectives:
  "rpn_and (v_word a) (v_word b) = v_word (v_and a b)"
  "rpn_or (v_word a) (v_word b) = v_word (v_or a b)"
  "rpn_xor (v_word a) (v_word b) = v_word (v_xor a b)"
  "rpn_not (v_word a) = v_word (v_not a)"
  by (cases a; cases b; simp add: rpn_and_def rpn_or_def rpn_xor_def rpn_not_def v_and_def v_or_def v_xor_def)+

lemma ucast_watch: "w \<in> watch_values \<Longrightarrow> ucast w = (v_word (v_of w) :: u16)"
  by (auto simp: watch_values_def v_of_def)

lemma ucast_v_word: "(ucast (v_word v :: u16) :: u8) = v_word v"
  by (cases v) simp_all

section \<open>Evaluation of a compiled expression\<close>

lemma of_nat_wp:
  assumes "i < 176"
  shows "(of_nat i :: u16) < 176" and "unat (of_nat i :: u16) = i"
    and "of_nat i \<notin> {LC_RPN_AND, LC_RPN_OR, LC_RPN_XOR, LC_RPN_NOT, LC_RPN_EQUAL}"
proof -
  show u: "unat (of_nat i :: u16) = i"
    using assms by (simp add: unsigned_of_nat take_bit_nat_eq_self)
  then show lt: "(of_nat i :: u16) < 176"
    using assms by (simp add: word_less_nat_alt)
  then show "of_nat i \<notin> {LC_RPN_AND, LC_RPN_OR, LC_RPN_XOR, LC_RPN_NOT, LC_RPN_EQUAL}"
    by auto
qed

lemma rpn_loop_step:
  "\<lbrakk> rpn_running st; RPNEquationPtr st < length eq \<rbrakk> \<Longrightarrow>
   rpn_loop wrt eq st = rpn_loop wrt eq (rpn_round wrt (eq ! RPNEquationPtr st) st)"
  by (simp add: rpn_loop.simps [of wrt eq st])

lemma rpn_loop_stop: "\<not> rpn_running st \<Longrightarrow> rpn_loop wrt eq st = Some st"
  by (subst rpn_loop.simps) (rule if_not_P)

text \<open>The state after \<open>n\<close> more items that leave the stack \<open>stk\<close>.\<close>

definition rpn_at :: "nat \<Rightarrow> u16 list \<Rightarrow> rpn_state" where
  "rpn_at n stk = rpn_start\<lparr>RPNStack := stk, RPNEquationPtr := n\<rparr>"

lemma rpn_at_simps [simp]:
  "RPNEquationPtr (rpn_at n stk) = n" "RPNStack (rpn_at n stk) = stk" "rpn_running (rpn_at n stk)"
  by (simp_all add: rpn_at_def rpn_start_def)

lemma round_wp:
  "\<lbrakk> i < 176; n + 1 < 20; WatchResult (wrt ! i) \<in> watch_values \<rbrakk> \<Longrightarrow>
   rpn_round wrt (of_nat i) (rpn_at n stk) = rpn_at (n + 1) (v_word (v_of (WatchResult (wrt ! i))) # stk)"
  using of_nat_wp [of i]
  by (simp add: rpn_round_def rpn_item_def rpn_push_def rpn_at_def rpn_start_def ucast_watch)

lemma round_op:
  assumes "n + 1 < 20"
  shows "rpn_round wrt LC_RPN_AND (rpn_at n (b # a # stk)) = rpn_at (n + 1) (rpn_and a b # stk)"
    and "rpn_round wrt LC_RPN_OR (rpn_at n (b # a # stk)) = rpn_at (n + 1) (rpn_or a b # stk)"
    and "rpn_round wrt LC_RPN_XOR (rpn_at n (b # a # stk)) = rpn_at (n + 1) (rpn_xor a b # stk)"
    and "rpn_round wrt LC_RPN_NOT (rpn_at n (a # stk)) = rpn_at (n + 1) (rpn_not a # stk)"
  using assms
  by (simp_all add: rpn_round_def rpn_item_def rpn_binary_def POP_RPN_DATA_def rpn_push_def rpn_at_def rpn_start_def)

lemma drop_nth:
  "drop n xs = y # ys \<Longrightarrow> n < length xs \<and> xs ! n = y \<and> drop (Suc n) xs = ys"
  by (metis Cons_nth_drop_Suc drop_eq_Nil list.distinct(1) list.inject not_le)

definition watch_wf :: "LC_WRTEntry list \<Rightarrow> bool" where
  "watch_wf wrt \<longleftrightarrow> (\<forall>i<176. WatchResult (wrt ! i) \<in> watch_values)"

lemma loop_item:
  assumes "drop n eq = d # rest" and "rpn_round wrt d (rpn_at n stk) = rpn_at (n + 1) stk'"
  shows "rpn_loop wrt eq (rpn_at n stk) = rpn_loop wrt eq (rpn_at (n + 1) stk')"
  using assms drop_nth [of n eq d rest] rpn_loop_step [of "rpn_at n stk" eq wrt] by simp

lemma drop_append: "drop n eq = xs @ ys \<Longrightarrow> drop (n + length xs) eq = ys"
  by (metis add.commute append_eq_conv_conj drop_drop)

text \<open>\<open>code\<close>, wherever it stands in the equation, pushes the value \<open>v\<close> and nothing else.\<close>

definition pushes :: "LC_WRTEntry list \<Rightarrow> u16 list \<Rightarrow> u16 list \<Rightarrow> u16 \<Rightarrow> bool" where
  "pushes wrt eq code v \<longleftrightarrow> (\<forall>n stk rest. drop n eq = code @ rest \<longrightarrow> rest \<noteq> [] \<longrightarrow>
     rpn_loop wrt eq (rpn_at n stk) = rpn_loop wrt eq (rpn_at (n + length code) (v # stk)))"

lemma pushesD:
  "\<lbrakk> pushes wrt eq code v; drop n eq = code @ rest; rest \<noteq> [] \<rbrakk> \<Longrightarrow>
   rpn_loop wrt eq (rpn_at n stk) = rpn_loop wrt eq (rpn_at (n + length code) (v # stk))"
  unfolding pushes_def by blast

lemma room_for_one:
  assumes "drop n eq = d # rest" and "rest \<noteq> []" and "length eq \<le> 20"
  shows "n + 1 < 20"
proof -
  have "drop (Suc n) eq \<noteq> []" using drop_nth [OF assms(1)] assms(2) by simp
  then show ?thesis using assms(3) by simp
qed

lemma pushes_binary:
  assumes a: "pushes wrt eq ca va" and b: "pushes wrt eq cb vb" and "length eq \<le> 20"
    and op: "\<And>n stk. n + 1 < 20 \<Longrightarrow> rpn_round wrt d (rpn_at n (vb # va # stk)) = rpn_at (n + 1) (v # stk)"
  shows "pushes wrt eq (ca @ cb @ [d]) v"
  unfolding pushes_def
proof (intro allI impI)
  fix n stk rest
  assume code: "drop n eq = (ca @ cb @ [d]) @ rest" and rest: "rest \<noteq> []"
  let ?n = "n + length ca + length cb"
  have d: "drop ?n eq = d # rest"
    using code drop_append [of n eq "ca @ cb" "d # rest"] by (simp add: add.assoc)
  have "rpn_loop wrt eq (rpn_at n stk) = rpn_loop wrt eq (rpn_at (n + length ca) (va # stk))"
    using pushesD [OF a, of n "cb @ d # rest"] code by simp
  also have "\<dots> = rpn_loop wrt eq (rpn_at ?n (vb # va # stk))"
    using pushesD [OF b, of "n + length ca" "d # rest"] drop_append [of n eq ca] code by simp
  also have "\<dots> = rpn_loop wrt eq (rpn_at (?n + 1) (v # stk))"
    using room_for_one [OF d rest assms(3)] by (intro loop_item [OF d] op)
  finally show "rpn_loop wrt eq (rpn_at n stk) = rpn_loop wrt eq (rpn_at (n + length (ca @ cb @ [d])) (v # stk))"
    by (simp add: algebra_simps)
qed

lemma pushes_unary:
  assumes a: "pushes wrt eq ca va" and "length eq \<le> 20"
    and op: "\<And>n stk. n + 1 < 20 \<Longrightarrow> rpn_round wrt d (rpn_at n (va # stk)) = rpn_at (n + 1) (v # stk)"
  shows "pushes wrt eq (ca @ [d]) v"
  unfolding pushes_def
proof (intro allI impI)
  fix n stk rest
  assume code: "drop n eq = (ca @ [d]) @ rest" and rest: "rest \<noteq> []"
  have d: "drop (n + length ca) eq = d # rest"
    using code drop_append [of n eq ca "d # rest"] by simp
  have "rpn_loop wrt eq (rpn_at n stk) = rpn_loop wrt eq (rpn_at (n + length ca) (va # stk))"
    using pushesD [OF a, of n "d # rest"] code by simp
  also have "\<dots> = rpn_loop wrt eq (rpn_at (n + length ca + 1) (v # stk))"
    using room_for_one [OF d rest assms(2)] by (intro loop_item [OF d] op)
  finally show "rpn_loop wrt eq (rpn_at n stk) = rpn_loop wrt eq (rpn_at (n + length (ca @ [d])) (v # stk))"
    by simp
qed

lemma compile_pushes:
  assumes "watch_wf wrt" and "length eq \<le> 20" and "wps e \<subseteq> {..<176}"
  shows "pushes wrt eq (rpn_compile e) (v_word (v_eval wrt e))"
  using assms(3)
proof (induction e)
  case (WP i)
  have "rpn_loop wrt eq (rpn_at n stk) =
        rpn_loop wrt eq (rpn_at (n + 1) (v_word (v_of (WatchResult (wrt ! i))) # stk))"
    if "drop n eq = of_nat i # rest" "rest \<noteq> []" for n stk rest
    using WP assms(1) room_for_one [OF that assms(2)]
    by (intro loop_item [OF that(1)] round_wp) (auto simp: watch_wf_def)
  then show ?case by (simp add: pushes_def)
next
  case (And a b)
  with assms(2) show ?case
    by (auto intro!: pushes_binary simp: round_op [simplified] rpn_connectives)
next
  case (Or a b)
  with assms(2) show ?case
    by (auto intro!: pushes_binary simp: round_op [simplified] rpn_connectives)
next
  case (Xor a b)
  with assms(2) show ?case
    by (auto intro!: pushes_binary simp: round_op [simplified] rpn_connectives)
next
  case (Not a)
  with assms(2) show ?case
    by (auto intro!: pushes_unary simp: round_op [simplified] rpn_connectives)
qed

lemma loop_equation:
  assumes "watch_wf wrt" and "length eq \<le> 20" and "wps e \<subseteq> {..<176}"
    and eq: "eq = rpn_compile e @ LC_RPN_EQUAL # rest"
  shows "\<exists>st. rpn_loop wrt eq rpn_start = Some st \<and> \<not> IllegalRPN st \<and> EvalResult st = v_word (v_eval wrt e)"
proof -
  let ?v = "v_word (v_eval wrt e) :: u16" and ?n = "length (rpn_compile e)"
  let ?st = "rpn_round wrt LC_RPN_EQUAL (rpn_at ?n [?v])"
  have start: "rpn_start = rpn_at 0 []"
    by (simp add: rpn_at_def rpn_start_def)
  have "rpn_loop wrt eq rpn_start = rpn_loop wrt eq (rpn_at ?n [?v])"
    unfolding start
    using pushesD [OF compile_pushes [OF assms(1-3)], of 0 "LC_RPN_EQUAL # rest" "[]"] eq by simp
  also have "\<dots> = rpn_loop wrt eq ?st"
    using rpn_loop_step [of "rpn_at ?n [?v]" eq wrt] eq by (simp add: nth_append)
  finally have run: "rpn_loop wrt eq rpn_start = rpn_loop wrt eq ?st" .
  have fin: "\<not> rpn_running ?st \<and> \<not> IllegalRPN ?st \<and> EvalResult ?st = v_word (v_eval wrt e)"
    by (cases "v_eval wrt e")
      (simp_all add: rpn_round_def rpn_item_def rpn_equal_def POP_RPN_DATA_def rpn_at_def rpn_start_def)
  then have "rpn_loop wrt eq ?st = Some ?st"
    by (intro rpn_loop_stop) blast
  with run fin show ?thesis by simp
qed

lemma LC_EvaluateRPN_compiled:
  assumes "watch_wf (WRT s)" and "ap < length (ADT s)" and "length (RPNEquation (ADT s ! ap)) \<le> 20"
    and "wps e \<subseteq> {..<176}" and "RPNEquation (ADT s ! ap) = rpn_compile e @ LC_RPN_EQUAL # rest"
  shows "LC_EvaluateRPN ap s = Some (v_action (v_eval (WRT s) e), s)"
  using loop_equation [OF assms(1,3-5)] assms(2)
  by (cases "v_eval (WRT s) e") (auto simp: LC_EvaluateRPN_def)

section \<open>What validation accepts\<close>

text \<open>\<open>code\<close> is accepted at any depth and leaves one more value.\<close>

definition deepens :: "u16 list \<Rightarrow> bool" where
  "deepens code \<longleftrightarrow> (\<forall>rest i d it. 0 \<le> d \<longrightarrow>
     (\<exists>k. validate_loop (code @ rest) i d it = validate_loop rest (i + int (length code)) (d + 1) k))"

lemma deepensD:
  assumes "deepens code" and "0 \<le> d"
  obtains k where "validate_loop (code @ rest) i d it = validate_loop rest (i + int (length code)) (d + 1) k"
  using assms unfolding deepens_def by blast

lemma deepens_binary:
  assumes a: "deepens ca" and b: "deepens cb" and x: "x \<in> {LC_RPN_AND, LC_RPN_OR, LC_RPN_XOR}"
  shows "deepens (ca @ cb @ [x])"
  unfolding deepens_def
proof (intro allI impI)
  fix rest :: "u16 list" and i d :: int and it :: u16
  assume d: "0 \<le> d"
  then obtain k where 1: "validate_loop (ca @ cb @ x # rest) i d it =
      validate_loop (cb @ x # rest) (i + int (length ca)) (d + 1) k"
    by (rule deepensD [OF a])
  have "0 \<le> d + 1" using d by simp
  then obtain l where 2: "validate_loop (cb @ x # rest) (i + int (length ca)) (d + 1) k =
      validate_loop (x # rest) (i + int (length ca) + int (length cb)) (d + 1 + 1) l"
    by (rule deepensD [OF b])
  have "validate_loop (x # rest) (i + int (length ca) + int (length cb)) (d + 1 + 1) l =
      validate_loop rest (i + int (length ca) + int (length cb) + 1) (d + 1) x"
    using d x by (auto simp: Let_def add.commute [of 1 d])
  moreover have "i + int (length (ca @ cb @ [x])) = i + int (length ca) + int (length cb) + 1"
    by simp
  ultimately have "validate_loop ((ca @ cb @ [x]) @ rest) i d it =
      validate_loop rest (i + int (length (ca @ cb @ [x]))) (d + 1) x"
    by (simp only: 1 2 append_assoc append_Cons append_Nil)
  then show "\<exists>k. validate_loop ((ca @ cb @ [x]) @ rest) i d it =
      validate_loop rest (i + int (length (ca @ cb @ [x]))) (d + 1) k" ..
qed

lemma deepens_not:
  assumes a: "deepens ca"
  shows "deepens (ca @ [LC_RPN_NOT])"
  unfolding deepens_def
proof (intro allI impI)
  fix rest :: "u16 list" and i d :: int and it :: u16
  assume d: "0 \<le> d"
  then obtain k where 1: "validate_loop (ca @ LC_RPN_NOT # rest) i d it =
      validate_loop (LC_RPN_NOT # rest) (i + int (length ca)) (d + 1) k"
    by (rule deepensD [OF a])
  have "validate_loop (LC_RPN_NOT # rest) (i + int (length ca)) (d + 1) k =
      validate_loop rest (i + int (length ca) + 1) (d + 1) LC_RPN_NOT"
    using d by (simp add: Let_def)
  then have "validate_loop ((ca @ [LC_RPN_NOT]) @ rest) i d it =
      validate_loop rest (i + int (length (ca @ [LC_RPN_NOT]))) (d + 1) LC_RPN_NOT"
    by (simp add: 1 add.assoc add.commute [of 1])
  then show "\<exists>k. validate_loop ((ca @ [LC_RPN_NOT]) @ rest) i d it =
      validate_loop rest (i + int (length (ca @ [LC_RPN_NOT]))) (d + 1) k" ..
qed

lemma compile_deepens: "wps e \<subseteq> {..<176} \<Longrightarrow> deepens (rpn_compile e)"
proof (induction e)
  case (WP w)
  then show ?case using of_nat_wp [of w] by (auto simp: deepens_def)
qed (simp_all add: deepens_binary deepens_not)

text \<open>The expressions whose code has been read so far, the latest first.\<close>

lemma validate_parses:
  assumes "validate_loop xs i (int (length es)) it = (j, 1, LC_RPN_EQUAL)" and "it \<noteq> LC_RPN_EQUAL"
    and "\<forall>e\<in>set es. wps e \<subseteq> {..<176}"
  shows "\<exists>e rest. concat (map rpn_compile (rev es)) @ xs = rpn_compile e @ LC_RPN_EQUAL # rest \<and>
           wps e \<subseteq> {..<176}"
  using assms
proof (induction xs arbitrary: es i it)
  case Nil
  then show ?case by simp
next
  case (Cons x xs)
  let ?bin = "x = LC_RPN_AND \<or> x = LC_RPN_OR \<or> x = LC_RPN_XOR"
  consider "x = LC_RPN_EQUAL" | "?bin" | "x = LC_RPN_NOT" | "x < 176"
    | "x \<noteq> LC_RPN_EQUAL" "\<not> ?bin" "x \<noteq> LC_RPN_NOT" "\<not> x < 176"
    by blast
  then show ?case
  proof cases
    case 1
    with Cons.prems(1) have "length es = 1" by simp
    then obtain e where "es = [e]" by (auto simp: length_Suc_conv)
    with Cons.prems(3) 1 show ?thesis by auto
  next
    case 2
    with Cons.prems(1) have "2 \<le> length es"
      by (auto simp: Let_def split: if_splits)
    then obtain b a es' where es: "es = b # a # es'"
      by (metis One_nat_def Suc_1 Suc_le_length_iff)
    define e where "e = (if x = LC_RPN_AND then And a b else if x = LC_RPN_OR then Or a b else Xor a b)"
    have code: "rpn_compile e = rpn_compile a @ rpn_compile b @ [x]"
      using 2 by (auto simp: e_def)
    have "validate_loop xs (i + 1) (int (length (e # es'))) x = (j, 1, LC_RPN_EQUAL)"
      using Cons.prems(1) 2 by (auto simp: es Let_def split: if_splits)
    moreover have "x \<noteq> LC_RPN_EQUAL" and "\<forall>e\<in>set (e # es'). wps e \<subseteq> {..<176}"
      using 2 Cons.prems(3) by (auto simp: es e_def)
    ultimately show ?thesis
      using Cons.IH [of "i + 1" "e # es'" x] code by (simp add: es)
  next
    case 3
    with Cons.prems(1) have "es \<noteq> []" by (auto simp: Let_def split: if_splits)
    then obtain a es' where es: "es = a # es'" by (cases es) auto
    have "validate_loop xs (i + 1) (int (length (Not a # es'))) x = (j, 1, LC_RPN_EQUAL)"
      using Cons.prems(1) 3 by (auto simp: es Let_def split: if_splits)
    then show ?thesis
      using Cons.IH [of "i + 1" "Not a # es'" x] 3 Cons.prems(3) by (simp add: es)
  next
    case 4
    then have ne: "x \<notin> {LC_RPN_AND, LC_RPN_OR, LC_RPN_XOR, LC_RPN_NOT, LC_RPN_EQUAL}" by auto
    then have "validate_loop xs (i + 1) (int (length (WP (unat x) # es))) x = (j, 1, LC_RPN_EQUAL)"
      using Cons.prems(1) 4 by (auto simp: Let_def add.commute)
    moreover have "unat x < 176" using 4 by (simp add: word_less_nat_alt)
    ultimately show ?thesis
      using Cons.IH [of "i + 1" "WP (unat x) # es" x] ne Cons.prems(3) by simp
  next
    case 5
    with Cons.prems(1) show ?thesis by simp
  qed
qed

lemma LC_ValidateRPN_iff:
  "fst (LC_ValidateRPN eq idx depth) = LC_ADTVAL_NO_ERR \<longleftrightarrow>
   (\<exists>e rest. eq = rpn_compile e @ LC_RPN_EQUAL # rest \<and> wps e \<subseteq> {..<176})"
proof
  assume "fst (LC_ValidateRPN eq idx depth) = LC_ADTVAL_NO_ERR"
  then obtain j where "validate_loop eq 0 (int (length ([] :: wp_expr list))) 0 = (j, 1, LC_RPN_EQUAL)"
    by (auto simp: LC_ValidateRPN_def split: prod.splits if_splits)
  from validate_parses [OF this] show "\<exists>e rest. eq = rpn_compile e @ LC_RPN_EQUAL # rest \<and> wps e \<subseteq> {..<176}"
    by simp
next
  assume "\<exists>e rest. eq = rpn_compile e @ LC_RPN_EQUAL # rest \<and> wps e \<subseteq> {..<176}"
  then obtain e rest where eq: "eq = rpn_compile e @ LC_RPN_EQUAL # rest" and "wps e \<subseteq> {..<176}"
    by blast
  then have "deepens (rpn_compile e)" by (simp add: compile_deepens)
  then obtain k where "validate_loop (rpn_compile e @ LC_RPN_EQUAL # rest) 0 0 0 =
      validate_loop (LC_RPN_EQUAL # rest) (0 + int (length (rpn_compile e))) (0 + 1) k"
    using deepensD [OF _ order_refl] by blast
  then have "validate_loop eq 0 0 0 = (int (length (rpn_compile e)), 1, LC_RPN_EQUAL)"
    by (simp add: eq)
  then show "fst (LC_ValidateRPN eq idx depth) = LC_ADTVAL_NO_ERR"
    by (simp add: LC_ValidateRPN_def)
qed

section \<open>Evaluation never leaves the equation or the stack\<close>

text \<open>
  The stack array has as many entries as the equation; an item pushes at most one value, so the
  number of values never exceeds the number of items read.
\<close>

definition rpn_stack_ok :: "rpn_state \<Rightarrow> bool" where
  "rpn_stack_ok st \<longleftrightarrow> length (RPNStack st) \<le> RPNEquationPtr st \<and> RPNEquationPtr st \<le> 20 \<and>
     (rpn_running st \<longrightarrow> RPNEquationPtr st < 20)"

lemma rpn_round_ok:
  assumes "rpn_stack_ok st" and "rpn_running st"
  shows "rpn_stack_ok (rpn_round wrt d st)"
proof -
  have len: "length (RPNStack (rpn_item wrt d st')) \<le> Suc (length (RPNStack st'))" for st'
    by (auto simp: rpn_item_def rpn_binary_def rpn_equal_def rpn_push_def POP_RPN_DATA_def Let_def
        split: list.splits)
  show ?thesis
    using assms len [of "st\<lparr>RPNEquationPtr := Suc (RPNEquationPtr st)\<rparr>"]
    by (auto simp: rpn_stack_ok_def rpn_round_def Let_def)
qed

lemma rpn_loop_total:
  assumes "length eq = 20" and "rpn_stack_ok st"
  shows "\<exists>st'. rpn_loop wrt eq st = Some st' \<and> rpn_stack_ok st' \<and> \<not> rpn_running st'"
  using assms
proof (induction wrt eq st rule: rpn_loop.induct)
  case (1 wrt eq st)
  show ?case
  proof (cases "rpn_running st")
    case True
    then have ptr: "RPNEquationPtr st < length eq"
      using "1.prems" by (simp add: rpn_stack_ok_def)
    then have "\<exists>st'. rpn_loop wrt eq (rpn_round wrt (eq ! RPNEquationPtr st) st) = Some st' \<and>
        rpn_stack_ok st' \<and> \<not> rpn_running st'"
      using "1.IH" [OF True, of "eq ! RPNEquationPtr st"] "1.prems" True
      by (simp add: rpn_round_ok)
    then show ?thesis using rpn_loop_step [OF True ptr] by simp
  next
    case False
    with "1.prems" show ?thesis by (auto simp: rpn_loop_stop)
  qed
qed

lemma LC_EvaluateRPN_total:
  assumes "ap < length (ADT s)" and "length (RPNEquation (ADT s ! ap)) = 20"
  shows "\<exists>r s'. LC_EvaluateRPN ap s = Some (r, s') \<and> (s' = s \<or> (\<exists>a. s' = evs LC_INVALID_RPN_ERR_EID 3 a s))"
proof -
  have "rpn_stack_ok rpn_start" by (simp add: rpn_stack_ok_def rpn_start_def)
  then obtain st where st: "rpn_loop (WRT s) (RPNEquation (ADT s ! ap)) rpn_start = Some st"
    using rpn_loop_total [OF assms(2)] by blast
  show ?thesis
  proof (cases "IllegalRPN st")
    case True
    with st assms(1) show ?thesis by (simp add: LC_EvaluateRPN_def) (intro disjI2 exI, rule refl)
  next
    case False
    let ?r = "if EvalResult st = LC_WATCH_ERROR then LC_ACTION_ERROR
      else if EvalResult st = LC_WATCH_STALE then LC_ACTION_STALE
      else if EvalResult st = LC_WATCH_FALSE then LC_ACTION_PASS
      else if EvalResult st = LC_WATCH_TRUE then LC_ACTION_FAIL else EvalResult st"
    have "LC_EvaluateRPN ap s = Some (?r, s)"
      using st assms(1) False by (simp add: LC_EvaluateRPN_def)
    then show ?thesis by blast
  qed
qed

section \<open>Sampling one actionpoint\<close>

text \<open>The part of the state that sampling an actionpoint does not touch.\<close>

definition ap_frame :: "nat \<Rightarrow> lc_state \<Rightarrow> lc_state \<Rightarrow> bool" where
  "ap_frame ap s s' \<longleftrightarrow> WDT s' = WDT s \<and> ADT s' = ADT s \<and> WRT s' = WRT s \<and>
     CurrentLCState s' = CurrentLCState s \<and> HashTable s' = HashTable s \<and>
     MessageLinks s' = MessageLinks s \<and> WatchPtLinks s' = WatchPtLinks s \<and>
     MessageIDsCount s' = MessageIDsCount s \<and> WatchpointCount s' = WatchpointCount s \<and>
     CmdCount s' = CmdCount s \<and> CmdErrCount s' = CmdErrCount s \<and> hk_tx s' = hk_tx s \<and>
     sb_calls s' = sb_calls s \<and> HkPacket s' = HkPacket s \<and>
     length (ART s') = length (ART s) \<and> (\<forall>i. i \<noteq> ap \<longrightarrow> ART s' ! i = ART s ! i)"

lemma ap_frame_refl [simp]: "ap_frame ap s s"
  by (simp add: ap_frame_def)

lemma ap_frame_trans: "\<lbrakk> ap_frame ap s s1; ap_frame ap s1 s2 \<rbrakk> \<Longrightarrow> ap_frame ap s s2"
  by (simp add: ap_frame_def)

lemma ap_frame_steps [simp]:
  "ap_frame ap s (evs e t a s') = ap_frame ap s s'"
  "ap_frame ap s (upd_ART ap f s') = ap_frame ap s s'"
  "ap_frame ap s (s'\<lparr>RTSExecCount := c\<rparr>) = ap_frame ap s s'"
  "ap_frame ap s (s'\<lparr>PassiveRTSExecCount := c2\<rparr>) = ap_frame ap s s'"
  "ap_frame ap s (s'\<lparr>APSampleCount := c3\<rparr>) = ap_frame ap s s'"
  "ap_frame ap s (s'\<lparr>tx := t2\<rparr>) = ap_frame ap s s'"
  by (simp_all add: ap_frame_def evs_def upd_ART_def nth_upd_at_other)

lemma ap_branches_frame [simp]:
  "ap_frame ap s (ap_pass_to_fail ap adt s') = ap_frame ap s s'"
  "ap_frame ap s (ap_request_rts env ap adt c s') = ap_frame ap s s'"
  "ap_frame ap s (ap_failed env ap adt c p s') = ap_frame ap s s'"
  "ap_frame ap s (ap_passed ap adt p s') = ap_frame ap s s'"
  by (simp_all add: ap_pass_to_fail_def ap_request_rts_def LC_ExecuteRTS_def ap_failed_def ap_passed_def Let_def)

text \<open>Fields of the sampled entry after each branch.\<close>

lemma ap_pass_to_fail_fields:
  assumes "ap < length (ART s)"
  shows "tx (ap_pass_to_fail ap adt s) = tx s"
    and "CurrentState (ART (ap_pass_to_fail ap adt s) ! ap) = CurrentState (ART s ! ap)"
    and "ConsecutiveFailCount (ART (ap_pass_to_fail ap adt s) ! ap) = ConsecutiveFailCount (ART s ! ap)"
    and "ActionResult (ART (ap_pass_to_fail ap adt s) ! ap) = ActionResult (ART s ! ap)"
    and "CurrentLCState (ap_pass_to_fail ap adt s) = CurrentLCState s"
    and "length (ART (ap_pass_to_fail ap adt s)) = length (ART s)"
  using assms by (simp_all add: ap_pass_to_fail_def msg_sent_def Let_def)

lemma ap_request_rts_fields:
  assumes "ap < length (ART s)" and "CurrentState (ART s ! ap) = c"
  shows "tx (ap_request_rts env ap adt c s) =
           tx s @ (if c = LC_APSTATE_ACTIVE \<and> CurrentLCState s = LC_STATE_ACTIVE
                   then [LC_RTSRequest (lc_host env) (ADT_RTSId adt)] else [])"
    and "CurrentState (ART (ap_request_rts env ap adt c s) ! ap) = (if c = LC_APSTATE_ACTIVE then LC_APSTATE_PASSIVE else c)"
    and "ConsecutiveFailCount (ART (ap_request_rts env ap adt c s) ! ap) = ConsecutiveFailCount (ART s ! ap)"
    and "ActionResult (ART (ap_request_rts env ap adt c s) ! ap) = ActionResult (ART s ! ap)"
  using assms by (simp_all add: ap_request_rts_def LC_ExecuteRTS_def msg_sent_def Let_def)

definition enough_fails :: "LC_ADTEntry \<Rightarrow> u32 \<Rightarrow> bool" where
  "enough_fails adt count \<longleftrightarrow> ucast (MaxFailsBeforeRTS adt) \<le> count"

lemma ap_failed_fields:
  assumes "ap < length (ART s)" and "CurrentState (ART s ! ap) = c"
  defines "n \<equiv> ConsecutiveFailCount (ART s ! ap) + 1"
  shows "tx (ap_failed env ap adt c p s) =
           tx s @ (if c = LC_APSTATE_ACTIVE \<and> CurrentLCState s = LC_STATE_ACTIVE \<and> enough_fails adt n
                   then [LC_RTSRequest (lc_host env) (ADT_RTSId adt)] else [])"
    and "CurrentState (ART (ap_failed env ap adt c p s) ! ap) =
           (if c = LC_APSTATE_ACTIVE \<and> enough_fails adt n then LC_APSTATE_PASSIVE else c)"
    and "ConsecutiveFailCount (ART (ap_failed env ap adt c p s) ! ap) = n"
    and "ActionResult (ART (ap_failed env ap adt c p s) ! ap) = ActionResult (ART s ! ap)"
  using assms
  by (simp_all add: ap_failed_def Let_def enough_fails_def ap_request_rts_fields ap_pass_to_fail_fields)

lemma ap_passed_fields:
  assumes "ap < length (ART s)"
  shows "tx (ap_passed ap adt p s) = tx s"
    and "CurrentState (ART (ap_passed ap adt p s) ! ap) = CurrentState (ART s ! ap)"
    and "ConsecutiveFailCount (ART (ap_passed ap adt p s) ! ap) = 0"
    and "ActionResult (ART (ap_passed ap adt p s) ! ap) = ActionResult (ART s ! ap)"
  using assms by (simp_all add: ap_passed_def msg_sent_def Let_def)

text \<open>Everything that matters of one sampling, given the value of the equation.\<close>

definition ap_live :: "LC_ARTEntry \<Rightarrow> bool" where
  "ap_live a \<longleftrightarrow> CurrentState a = LC_APSTATE_ACTIVE \<or> CurrentState a = LC_APSTATE_PASSIVE"

lemma LC_SampleSingleAP_result:
  assumes wf: "lc_tables_wf s" and ap: "ap < 176" and live: "ap_live (ART s ! ap)"
    and r: "LC_EvaluateRPN ap (s\<lparr>APSampleCount := APSampleCount s + 1\<rparr>) = Some (r, s1)"
  defines "a \<equiv> ART s ! ap" and "adt \<equiv> ADT s ! ap"
  defines "n \<equiv> ConsecutiveFailCount a + 1"
  shows "\<exists>s'. LC_SampleSingleAP env ap s = Some s' \<and> ap_frame ap s s' \<and>
     tx s' = tx s @ (if CurrentState a = LC_APSTATE_ACTIVE \<and> CurrentLCState s = LC_STATE_ACTIVE \<and>
                        r = LC_ACTION_FAIL \<and> enough_fails adt n
                     then [LC_RTSRequest (lc_host env) (ADT_RTSId adt)] else []) \<and>
     CurrentState (ART s' ! ap) =
       (if CurrentState a = LC_APSTATE_ACTIVE \<and> r = LC_ACTION_FAIL \<and> enough_fails adt n
        then LC_APSTATE_PASSIVE else CurrentState a) \<and>
     ConsecutiveFailCount (ART s' ! ap) =
       (if r = LC_ACTION_FAIL then n
        else if r = LC_ACTION_PASS \<or> r = LC_ACTION_STALE then 0 else ConsecutiveFailCount a) \<and>
     ActionResult (ART s' ! ap) = r"
proof -
  have len: "ap < length (ART s)" "ap < length (ADT s)" "length (RPNEquation (ADT s ! ap)) = 20"
    using wf ap by (simp_all add: lc_tables_wf_def adt_wf_def list_all_length)
  have s1: "ap_frame ap s s1" "tx s1 = tx s" "ART s1 = ART s" "ADT s1 = ADT s"
    using LC_EvaluateRPN_total [of ap "s\<lparr>APSampleCount := APSampleCount s + 1\<rparr>"] len r by auto
  define s2 where "s2 = upd_ART ap (\<lambda>a. a\<lparr>ActionResult := r\<rparr>) s1"
  have s2: "ap_frame ap s s2" "tx s2 = tx s" "ap < length (ART s2)" "CurrentState (ART s2 ! ap) = CurrentState a"
    "ConsecutiveFailCount (ART s2 ! ap) = ConsecutiveFailCount a" "ActionResult (ART s2 ! ap) = r"
    using s1 len by (simp_all add: s2_def a_def)
  then have lc: "CurrentLCState s2 = CurrentLCState s" by (simp add: ap_frame_def)
  show ?thesis
    using live len r s2 s1(4) lc
    by (simp add: LC_SampleSingleAP_def ap_live_def s2_def [symmetric] a_def [symmetric] adt_def [symmetric] n_def
        ap_failed_fields ap_passed_fields)
qed

lemma lc_tables_wf_cong:
  "\<lbrakk> WDT s' = WDT s; ADT s' = ADT s; WRT s' = WRT s; length (ART s') = length (ART s) \<rbrakk> \<Longrightarrow>
   lc_tables_wf s' = lc_tables_wf s"
  by (simp add: lc_tables_wf_def)

lemma ap_frame_wf: "ap_frame ap s s' \<Longrightarrow> lc_tables_wf s' = lc_tables_wf s"
  by (rule lc_tables_wf_cong) (simp_all add: ap_frame_def)

lemma LC_SampleSingleAP_frame:
  assumes "lc_tables_wf s" and "ap < 176"
  shows "\<exists>s'. LC_SampleSingleAP env ap s = Some s' \<and> ap_frame ap s s'"
proof (cases "ap_live (ART s ! ap)")
  case True
  let ?s = "s\<lparr>APSampleCount := APSampleCount s + 1\<rparr>"
  have "ap < length (ADT ?s)" "length (RPNEquation (ADT ?s ! ap)) = 20"
    using assms by (simp_all add: lc_tables_wf_def adt_wf_def list_all_length)
  then obtain r s1 where "LC_EvaluateRPN ap ?s = Some (r, s1)"
    using LC_EvaluateRPN_total by blast
  from LC_SampleSingleAP_result [OF assms True this] show ?thesis by blast
next
  case False
  then show ?thesis
    using assms by (auto simp: LC_SampleSingleAP_def ap_live_def lc_tables_wf_def)
qed

lemma watch_wfI: "lc_tables_wf s \<Longrightarrow> watch_wf (WRT s)"
  by (auto simp: lc_tables_wf_def watch_wf_def list_all_length)

section \<open>Correctness of the equations\<close>

text \<open>
  C19. Validation of an equation accepts exactly the compiled expressions over watchpoints 0 to 175,
  followed by the end symbol: nothing ill-formed gets into the table, and nothing well-formed is
  refused.
\<close>

theorem LC_ValidateRPN_exact:
  "fst (LC_ValidateRPN eq idx depth) = LC_ADTVAL_NO_ERR \<longleftrightarrow>
   (\<exists>e rest. eq = rpn_compile e @ LC_RPN_EQUAL # rest \<and> wps e \<subseteq> {..<176})"
  by (rule LC_ValidateRPN_iff)

text \<open>
  C11. An actionpoint whose equation was accepted evaluates to the four-valued meaning of the
  expression the equation stands for; no event is sent and no illegal equation is reported.
\<close>

theorem LC_EvaluateRPN_meaning:
  assumes "lc_tables_wf s" and "ap < 176"
    and "fst (LC_ValidateRPN (RPNEquation (ADT s ! ap)) idx depth) = LC_ADTVAL_NO_ERR"
  shows "\<exists>e rest. RPNEquation (ADT s ! ap) = rpn_compile e @ LC_RPN_EQUAL # rest \<and>
           LC_EvaluateRPN ap s = Some (v_action (v_eval (WRT s) e), s)"
proof -
  obtain e rest where e: "RPNEquation (ADT s ! ap) = rpn_compile e @ LC_RPN_EQUAL # rest" "wps e \<subseteq> {..<176}"
    using assms(3) LC_ValidateRPN_iff by blast
  have "ap < length (ADT s)" "length (RPNEquation (ADT s ! ap)) \<le> 20"
    using assms(1,2) by (simp_all add: lc_tables_wf_def adt_wf_def list_all_length)
  with LC_EvaluateRPN_compiled [OF watch_wfI [OF assms(1)] _ _ e(2,1)] e(1) show ?thesis
    by blast
qed

lemma demo_equation: "RPNEquation (ADT lc_demo ! 0) = rpn_compile (WP 0) @ LC_RPN_EQUAL # replicate 18 0"
  by (simp add: lc_demo_def ap_demo_def)

lemma demo_valid: "fst (LC_ValidateRPN (RPNEquation (ADT lc_demo ! 0)) 0 0) = LC_ADTVAL_NO_ERR"
  unfolding LC_ValidateRPN_iff demo_equation by (intro exI conjI) (rule refl, simp)

theorem LC_EvaluateRPN_meaning_witness:
  "\<exists>e. LC_EvaluateRPN 0 lc_demo = Some (v_action (v_eval (WRT lc_demo) e), lc_demo)"
  using LC_EvaluateRPN_meaning [OF lc_demo_wf _ demo_valid] by auto

text \<open>
  C26. Whatever the equation, valid or not, its evaluation returns, reads no item beyond the end of
  the equation and never holds more values than the stack has room for.
\<close>

theorem LC_EvaluateRPN_safe:
  assumes "length eq = 20"
  shows "\<exists>st. rpn_loop wrt eq rpn_start = Some st \<and> length (RPNStack st) \<le> 20 \<and> RPNEquationPtr st \<le> 20"
proof -
  have "rpn_stack_ok rpn_start" by (simp add: rpn_stack_ok_def rpn_start_def)
  then show ?thesis
    using rpn_loop_total [OF assms] by (fastforce simp: rpn_stack_ok_def)
qed

theorem LC_EvaluateRPN_safe_witness:
  "\<exists>st. rpn_loop [] (replicate 20 LC_RPN_AND) rpn_start = Some st \<and> length (RPNStack st) \<le> 20"
  using LC_EvaluateRPN_safe [of "replicate 20 LC_RPN_AND" "[]"] by auto

section \<open>When a sequence is requested\<close>

text \<open>
  C10. Sampling an actionpoint requests its sequence in exactly one case: the actionpoint and LC are
  active, the equation fails and the consecutive failures now reach the limit. The actionpoint is
  passive afterwards; in every other case nothing is transmitted and the state is kept.
\<close>

theorem LC_SampleSingleAP_request:
  assumes "lc_tables_wf s" and "ap < 176" and "ap_live (ART s ! ap)"
    and "LC_EvaluateRPN ap (s\<lparr>APSampleCount := APSampleCount s + 1\<rparr>) = Some (r, s1)"
  shows "\<exists>s'. LC_SampleSingleAP env ap s = Some s' \<and>
     (let due = r = LC_ACTION_FAIL \<and>
            ucast (MaxFailsBeforeRTS (ADT s ! ap)) \<le> ConsecutiveFailCount (ART s ! ap) + 1
      in tx s' = tx s @ (if CurrentState (ART s ! ap) = LC_APSTATE_ACTIVE \<and>
                            CurrentLCState s = LC_STATE_ACTIVE \<and> due
                         then [LC_RTSRequest (lc_host env) (ADT_RTSId (ADT s ! ap))] else []) \<and>
         CurrentState (ART s' ! ap) = (if due then LC_APSTATE_PASSIVE else CurrentState (ART s ! ap)))"
proof -
  have state: "CurrentState (ART s ! ap) \<noteq> LC_APSTATE_ACTIVE \<Longrightarrow> CurrentState (ART s ! ap) = LC_APSTATE_PASSIVE"
    using assms(3) by (simp add: ap_live_def)
  show ?thesis
    using LC_SampleSingleAP_result [OF assms, of env] state
    by (auto simp: enough_fails_def Let_def)
qed

lemma demo_eval: "LC_EvaluateRPN 0 (lc_demo\<lparr>APSampleCount := c\<rparr>) = Some (LC_ACTION_FAIL, lc_demo\<lparr>APSampleCount := c\<rparr>)"
  using LC_EvaluateRPN_compiled [of "lc_demo\<lparr>APSampleCount := c\<rparr>" 0 "WP 0" "replicate 18 0"]
    watch_wfI [OF lc_demo_wf] demo_equation
  by (simp add: lc_demo_simps ap_demo_def wr_clear_def v_of_def) (simp add: lc_demo_def)

theorem LC_SampleSingleAP_request_witness:
  "\<exists>s'. LC_SampleSingleAP lc_env_demo 0 lc_demo = Some s' \<and> tx s' = [] \<and>
        CurrentState (ART s' ! 0) = LC_APSTATE_ACTIVE"
  using LC_SampleSingleAP_request [OF lc_demo_wf, of 0, OF _ _ demo_eval [of "APSampleCount lc_demo + 1"], of lc_env_demo]
  by (auto simp: lc_demo_simps ap_live_def ar_clear_def ap_demo_def Let_def word_le_nat_alt)

text \<open>Sampling the same actionpoint \<open>n\<close> times; nothing else happens in between.\<close>

primrec sample_again :: "lc_env \<Rightarrow> nat \<Rightarrow> nat \<Rightarrow> lc_state \<Rightarrow> lc_state option" where
  "sample_again env ap 0 s = Some s"
| "sample_again env ap (Suc n) s = Option.bind (sample_again env ap n s) (LC_SampleSingleAP env ap)"

lemma sample_failing_again:
  assumes wf: "lc_tables_wf s" and ap: "ap < 176"
    and eq: "RPNEquation (ADT s ! ap) = rpn_compile e @ LC_RPN_EQUAL # rest" "wps e \<subseteq> {..<176}"
    and fails: "v_eval (WRT s) e = VTrue"
    and active: "CurrentState (ART s ! ap) = LC_APSTATE_ACTIVE" "CurrentLCState s = LC_STATE_ACTIVE"
    and fresh: "ConsecutiveFailCount (ART s ! ap) = 0" and limit: "MaxFailsBeforeRTS (ADT s ! ap) \<noteq> 0"
  defines "k \<equiv> unat (MaxFailsBeforeRTS (ADT s ! ap))"
  shows "\<exists>s'. sample_again env ap n s = Some s' \<and> ap_frame ap s s' \<and>
     tx s' = tx s @ (if k \<le> n then [LC_RTSRequest (lc_host env) (ADT_RTSId (ADT s ! ap))] else []) \<and>
     CurrentState (ART s' ! ap) = (if k \<le> n then LC_APSTATE_PASSIVE else LC_APSTATE_ACTIVE) \<and>
     (n < k \<longrightarrow> ConsecutiveFailCount (ART s' ! ap) = of_nat n)"
proof (induction n)
  case 0
  have "0 < k" using limit by (simp add: k_def unat_gt_0)
  then show ?case using active fresh by simp
next
  case (Suc n)
  have k16: "k < 2 ^ 16" using unsigned_less [of "MaxFailsBeforeRTS (ADT s ! ap)"] by (simp add: k_def)
  obtain s1 where s1: "sample_again env ap n s = Some s1" and fr: "ap_frame ap s s1"
    and tx1: "tx s1 = tx s @ (if k \<le> n then [LC_RTSRequest (lc_host env) (ADT_RTSId (ADT s ! ap))] else [])"
    and st1: "CurrentState (ART s1 ! ap) = (if k \<le> n then LC_APSTATE_PASSIVE else LC_APSTATE_ACTIVE)"
    and c1: "n < k \<longrightarrow> ConsecutiveFailCount (ART s1 ! ap) = of_nat n"
    using Suc.IH by blast
  let ?s1 = "s1\<lparr>APSampleCount := APSampleCount s1 + 1\<rparr>"
  have same: "ADT s1 = ADT s" "WRT s1 = WRT s" "CurrentLCState s1 = CurrentLCState s"
    using fr by (simp_all add: ap_frame_def)
  have wf1: "lc_tables_wf s1" using fr wf by (simp add: ap_frame_wf)
  have live: "ap_live (ART s1 ! ap)" using st1 by (simp add: ap_live_def)
  have pre: "watch_wf (WRT ?s1)" "ap < length (ADT ?s1)" "length (RPNEquation (ADT ?s1 ! ap)) \<le> 20"
    using watch_wfI [OF wf1] wf1 ap by (simp_all add: lc_tables_wf_def adt_wf_def list_all_length)
  have "RPNEquation (ADT ?s1 ! ap) = rpn_compile e @ LC_RPN_EQUAL # rest" using eq(1) same by simp
  from LC_EvaluateRPN_compiled [OF pre eq(2) this]
  have "LC_EvaluateRPN ap ?s1 = Some (LC_ACTION_FAIL, ?s1)" using fails same by simp
  note res = LC_SampleSingleAP_result [OF wf1 ap live this, of env]
  have reach: "enough_fails (ADT s ! ap) (of_nat n + 1) \<longleftrightarrow> k \<le> Suc n" if "n < k"
  proof -
    have "unat (of_nat n + 1 :: u32) = Suc n"
      using that k16 by (simp add: unat_word_ariths unsigned_of_nat take_bit_nat_eq_self)
    then show ?thesis
      by (simp add: enough_fails_def word_le_nat_alt k_def)
  qed
  show ?case
  proof (cases "k \<le> n")
    case True
    then show ?thesis
      using res s1 tx1 st1 same ap_frame_trans [OF fr] by (auto simp: active)
  next
    case False
    then show ?thesis
      using res s1 tx1 st1 c1 same reach ap_frame_trans [OF fr] by (auto simp: active)
  qed
qed

text \<open>
  C18. One failure, one request: an active actionpoint with a limit of \<open>k\<close> failures, sampled \<open>n\<close> times
  in a row while its equation fails, has requested its sequence once if \<open>n\<close> has reached \<open>k\<close> and not
  at all before, however often it is sampled.
\<close>

theorem LC_sample_failing_once:
  assumes "lc_tables_wf s" and "ap < 176"
    and "RPNEquation (ADT s ! ap) = rpn_compile e @ LC_RPN_EQUAL # rest" and "wps e \<subseteq> {..<176}"
    and "v_eval (WRT s) e = VTrue"
    and "CurrentState (ART s ! ap) = LC_APSTATE_ACTIVE" and "CurrentLCState s = LC_STATE_ACTIVE"
    and "ConsecutiveFailCount (ART s ! ap) = 0" and "MaxFailsBeforeRTS (ADT s ! ap) \<noteq> 0"
  shows "\<exists>s'. sample_again env ap n s = Some s' \<and>
     tx s' = tx s @ (if unat (MaxFailsBeforeRTS (ADT s ! ap)) \<le> n
                     then [LC_RTSRequest (lc_host env) (ADT_RTSId (ADT s ! ap))] else []) \<and>
     CurrentState (ART s' ! ap) =
       (if unat (MaxFailsBeforeRTS (ADT s ! ap)) \<le> n then LC_APSTATE_PASSIVE else LC_APSTATE_ACTIVE)"
  using sample_failing_again [OF assms, of env n] by blast

theorem LC_sample_failing_once_witness:
  "\<exists>s'. sample_again lc_env_demo 0 7 lc_demo = Some s' \<and> tx s' = [LC_RTSRequest LittleEndian 5]"
  using LC_sample_failing_once [OF lc_demo_wf _ demo_equation, of lc_env_demo 7]
  by (auto simp: lc_demo_simps ap_demo_def ar_clear_def wr_clear_def v_of_def)

section \<open>The request message\<close>

lemma LC_RTSRequest_bytes:
  "LC_RTSRequest en r = wr16 en [0x18, 0xA9, 0xC0, 0, 0, 5, 4, 0, 0, 0, 0, 0] 8 r"
proof -
  have "replicate 12 (0::u8) = [0, 0, 0, 0, 0, 0, 0, 0, 0, 0, 0, 0]"
    by (simp add: numeral_eq_Suc)
  then have "CFE_MSG_Init LC_RTS_REQ_MID 12 = (CFE_SUCCESS, [0x18, 0xA9, 0xC0, 0, 0, 5, 0, 0, 0, 0, 0, 0])"
    by (simp add: CFE_MSG_Init_def CFE_MSG_InitDefaultHdr_def CFE_MSG_SetDefaultCCSDSPri_def
        CFE_MSG_SetHasSecondaryHeader_def CFE_MSG_SetHeaderVersion_def CFE_MSG_SetApId_def
        CFE_MSG_SetSegmentationFlag_def CFE_MSG_SetHeaderField_def CFE_MSG_SetMsgId_def
        CFE_MSG_SetSize_def byte_at_def hi8_def lo8_def)
  then show ?thesis
    by (simp add: LC_RTSRequest_def CFE_MSG_SetFcnCode_def is_cmd_with_sechdr_def CFE_MSG_GetType_def
        CFE_MSG_GetHasSecondaryHeader_def byte_at_def)
qed

text \<open>
  The request LC transmits is a complete command to the stored-command application: its message
  id, function code and length are those the application expects, and it carries the sequence number
  in the processor's byte order.
\<close>

theorem LC_RTSRequest_command:
  "CFE_MSG_GetMsgId (LC_RTSRequest en r) = LC_RTS_REQ_MID \<and>
   CFE_MSG_GetFcnCode (LC_RTSRequest en r) = (CFE_SUCCESS, LC_RTS_REQ_CC) \<and>
   CFE_MSG_GetSize (LC_RTSRequest en r) = 12 \<and> length (LC_RTSRequest en r) = 12 \<and>
   rd16 en (LC_RTSRequest en r) 8 = r"
proof -
  let ?m = "[0x18, 0xA9, 0xC0, 0, 0, 5, 4, 0, 0, 0, 0, 0] :: bytes"
  have low: "byte_at (wr16 en ?m 8 r) i = byte_at ?m i" if "i < 8" for i
    using that by simp
  show ?thesis
    by (simp add: LC_RTSRequest_bytes CFE_MSG_GetMsgId_def CFE_MSG_GetFcnCode_def is_cmd_with_sechdr_def
        CFE_MSG_GetType_def CFE_MSG_GetHasSecondaryHeader_def CFE_MSG_GetSize_def low)
      (simp add: byte_at_def)
qed

section \<open>Validation of the actionpoint table\<close>

definition adt_entry_ok :: "LC_ADTEntry \<Rightarrow> bool" where
  "adt_entry_ok e \<longleftrightarrow> DefaultState e = LC_ACTION_NOT_USED \<or>
     DefaultState e \<in> {LC_APSTATE_ACTIVE, LC_APSTATE_PASSIVE, LC_APSTATE_DISABLED, LC_APSTATE_PERMOFF} \<and>
     ADT_RTSId e \<le> 0xFFF0 \<and> MaxFailsBeforeRTS e \<noteq> 0 \<and> ADT_EventType e \<in> {1, 2, 3, 4} \<and>
     (\<exists>ex rest. RPNEquation e = rpn_compile ex @ LC_RPN_EQUAL # rest \<and> wps ex \<subseteq> {..<176})"

lemma adt_entry_check_result:
  assumes "EntryResult v = 0"
  shows "EntryResult (adt_entry_check e v) = 0 \<longleftrightarrow> adt_entry_ok e"
proof -
  have rpn: "fst (LC_ValidateRPN (RPNEquation e) i d) = 0 \<longleftrightarrow>
      (\<exists>ex rest. RPNEquation e = rpn_compile ex @ LC_RPN_EQUAL # rest \<and> wps ex \<subseteq> {..<176})" for i d
    by (rule LC_ValidateRPN_iff)
  show ?thesis
    unfolding adt_entry_ok_def rpn [symmetric, of "RPNIndex v" "RPNStackDepth v"]
    using assms by (auto simp: adt_entry_check_def Let_def not_le split: prod.splits)
qed

lemma adt_entry_check_keeps [simp]: "TableResult (adt_entry_check e v) = TableResult v"
  by (simp add: adt_entry_check_def Let_def split: prod.split)

lemma adt_val_loop_failed:
  "TableResult v \<noteq> 0 \<Longrightarrow> TableResult (fst (adt_val_loop es i (v, s))) \<noteq> 0"
proof (induction es arbitrary: i v s)
  case (Cons e es)
  then show ?case by (simp add: adt_first_error_def)
qed simp

lemma adt_val_loop_result:
  "\<lbrakk> EntryResult v = 0; TableResult v = 0 \<rbrakk> \<Longrightarrow>
   TableResult (fst (adt_val_loop es i (v, s))) = 0 \<longleftrightarrow> list_all adt_entry_ok es"
proof (induction es arbitrary: i v s)
  case (Cons e es)
  then show ?case
    using adt_entry_check_result [OF Cons.prems(1), of e]
    by (cases "adt_entry_ok e") (simp_all add: adt_first_error_def adt_val_loop_failed)
qed simp

text \<open>
  Validation of the actionpoint table succeeds exactly when every entry is unused or has a legal
  state, sequence number, failure limit, event type and equation, and the table with an error in its
  last entry is refused just as one with an error in its first.
\<close>

theorem LC_ValidateADT_exact:
  "fst (LC_ValidateADT t s) = 0 \<longleftrightarrow> list_all adt_entry_ok t"
proof -
  let ?v = "\<lparr>EntryResult = 0, TableResult = 0, RPNIndex = 0, RPNStackDepth = 0, GoodCount = 0,
    BadCount = 0, UnusedCount = 0\<rparr>"
  have "fst (LC_ValidateADT t s) = TableResult (fst (adt_val_loop t 0 (?v, s)))"
    by (simp add: LC_ValidateADT_def split: prod.split)
  also have "\<dots> = 0 \<longleftrightarrow> list_all adt_entry_ok t"
    by (rule adt_val_loop_result) simp_all
  finally show ?thesis .
qed

end
