(* ===== verification/Lc_Watch.thy ===== *)
theory Lc_Watch
  imports Lc_Defs
begin

text \<open>
  The watchpoint side of LC (\<open>lc_watch.c\<close>): fetching a datum of any type and byte order from a
  message, comparing it with the table's value, updating the watchpoint's result and statistics,
  and validating the watchpoint table. \<open>None\<close> is a read outside the message.
\<close>

section \<open>Single-precision numbers\<close>

definition LC_Uint32IsNAN :: "u32 \<Rightarrow> bool" where
  "LC_Uint32IsNAN Data = (Data AND 0x7F800000 = 0x7F800000 \<and> Data AND 0x007FFFFF > 0)"

definition LC_Uint32IsInfinite :: "u32 \<Rightarrow> bool" where
  "LC_Uint32IsInfinite Data = (Data AND 0x7F800000 = 0x7F800000 \<and> Data AND 0x007FFFFF = 0)"

text \<open>
  The value of an IEEE-754 binary32 pattern in units of 2 to the minus 149, the least positive one;
  an infinity gets the value just beyond the largest finite number, which orders it correctly.
\<close>

definition f32_val :: "u32 \<Rightarrow> int" where
  "f32_val b =
     (let e = unat (take_bit 8 (drop_bit 23 b)); f = uint (take_bit 23 b);
          mag = (if e = 0 then f else (2 ^ 23 + f) * 2 ^ (e - 1))
      in if bit b 31 then - mag else mag)"

fun bit_count :: "nat \<Rightarrow> nat" where
  "bit_count n = (if n = 0 then 0 else Suc (bit_count (n div 2)))"

declare bit_count.simps [simp del]

text \<open>Rounding of a magnitude to 24 significant bits, to the nearest, ties to even.\<close>

definition f32_round :: "nat \<Rightarrow> nat" where
  "f32_round d =
     (if d < 2 ^ 24 then d
      else let s = bit_count d - 24; q = d div 2 ^ s; r = d mod 2 ^ s; h = 2 ^ (s - 1)
           in (if r > h \<or> (r = h \<and> odd q) then q + 1 else q) * 2 ^ s)"

definition f32_lt :: "u32 \<Rightarrow> u32 \<Rightarrow> bool" where
  "f32_lt a b \<longleftrightarrow> \<not> LC_Uint32IsNAN a \<and> \<not> LC_Uint32IsNAN b \<and> f32_val a < f32_val b"

definition f32_le :: "u32 \<Rightarrow> u32 \<Rightarrow> bool" where
  "f32_le a b \<longleftrightarrow> \<not> LC_Uint32IsNAN a \<and> \<not> LC_Uint32IsNAN b \<and> f32_val a \<le> f32_val b"

text \<open>\<open>(a > b) ? a - b : b - a\<close> in single precision; \<open>None\<close> is a NAN.\<close>

definition f32_diff :: "u32 \<Rightarrow> u32 \<Rightarrow> nat option" where
  "f32_diff a b =
     (if LC_Uint32IsNAN a \<or> LC_Uint32IsNAN b \<or> (LC_Uint32IsInfinite a \<and> a = b) then None
      else Some (f32_round (nat \<bar>f32_val a - f32_val b\<bar>)))"

text \<open>\<open>(float) LC_FLOAT_TOLERANCE\<close>, the binary32 number nearest to 1.0e-25 (pattern 0x15F79688).\<close>

definition float_tolerance :: nat where
  "float_tolerance = 71362386029824704512"

section \<open>Comparisons\<close>

definition wp_verdict :: "bool \<Rightarrow> u8" where
  "wp_verdict b = (if b then LC_WATCH_TRUE else LC_WATCH_FALSE)"

definition wp_bad_operator :: "nat \<Rightarrow> u8 \<Rightarrow> lc_state \<Rightarrow> u8 \<times> lc_state" where
  "wp_bad_operator WatchIndex OperID s =
     (LC_WATCH_ERROR, evs LC_WP_OPERID_ERR_EID CFE_EVS_EventType_ERROR [int WatchIndex, uint OperID] s)"

definition LC_SignedCompare :: "nat \<Rightarrow> u8 \<Rightarrow> int \<Rightarrow> int \<Rightarrow> lc_state \<Rightarrow> u8 \<times> lc_state" where
  "LC_SignedCompare WatchIndex OperID WPValue CompareValue s =
     (if OperID = LC_OPER_LE then (wp_verdict (WPValue \<le> CompareValue), s)
      else if OperID = LC_OPER_LT then (wp_verdict (WPValue < CompareValue), s)
      else if OperID = LC_OPER_EQ then (wp_verdict (WPValue = CompareValue), s)
      else if OperID = LC_OPER_NE then (wp_verdict (WPValue \<noteq> CompareValue), s)
      else if OperID = LC_OPER_GT then (wp_verdict (WPValue > CompareValue), s)
      else if OperID = LC_OPER_GE then (wp_verdict (WPValue \<ge> CompareValue), s)
      else wp_bad_operator WatchIndex OperID s)"

definition LC_UnsignedCompare :: "nat \<Rightarrow> u8 \<Rightarrow> u32 \<Rightarrow> u32 \<Rightarrow> lc_state \<Rightarrow> u8 \<times> lc_state" where
  "LC_UnsignedCompare WatchIndex OperID WPValue CompareValue s =
     (if OperID = LC_OPER_LE then (wp_verdict (WPValue \<le> CompareValue), s)
      else if OperID = LC_OPER_LT then (wp_verdict (WPValue < CompareValue), s)
      else if OperID = LC_OPER_EQ then (wp_verdict (WPValue = CompareValue), s)
      else if OperID = LC_OPER_NE then (wp_verdict (WPValue \<noteq> CompareValue), s)
      else if OperID = LC_OPER_GT then (wp_verdict (WPValue > CompareValue), s)
      else if OperID = LC_OPER_GE then (wp_verdict (WPValue \<ge> CompareValue), s)
      else wp_bad_operator WatchIndex OperID s)"

definition LC_FloatCompare :: "nat \<Rightarrow> u8 \<Rightarrow> u32 \<Rightarrow> u32 \<Rightarrow> lc_state \<Rightarrow> u8 \<times> lc_state" where
  "LC_FloatCompare WatchIndex OperID WP Compare s =
     (if \<not> LC_Uint32IsNAN WP
      then (if OperID = LC_OPER_LE then (wp_verdict (f32_le WP Compare), s)
            else if OperID = LC_OPER_LT then (wp_verdict (f32_lt WP Compare), s)
            else if OperID = LC_OPER_EQ
            then (wp_verdict (case f32_diff WP Compare of None \<Rightarrow> False | Some d \<Rightarrow> d \<le> float_tolerance), s)
            else if OperID = LC_OPER_NE
            then (wp_verdict (case f32_diff WP Compare of None \<Rightarrow> False | Some d \<Rightarrow> d > float_tolerance), s)
            else if OperID = LC_OPER_GT then (wp_verdict (f32_lt Compare WP), s)
            else if OperID = LC_OPER_GE then (wp_verdict (f32_le Compare WP), s)
            else wp_bad_operator WatchIndex OperID s)
      else (LC_WATCH_ERROR,
            evs LC_WP_NAN_ERR_EID CFE_EVS_EventType_ERROR [int WatchIndex, uint WP] s))"

text \<open>
  \<open>w\<close> is the entry \<open>WDTPtr[WatchIndex]\<close>. The members of the comparison value are read from its raw
  bytes in host order; the datum is truncated to the width of its type.
\<close>

definition LC_OperatorCompare :: "endian \<Rightarrow> nat \<Rightarrow> LC_WDTEntry \<Rightarrow> u32 \<Rightarrow> lc_state \<Rightarrow> u8 \<times> lc_state" where
  "LC_OperatorCompare en WatchIndex w ProcessedWPData s =
     (let t = DataType w; op = OperatorID w;
          c8 = byte_at (ComparisonValue w) 0;
          c16 = rd16 en (ComparisonValue w) 0;
          c32 = rd32 en (ComparisonValue w) 0;
          w8 = ucast (ProcessedWPData AND 0xFF) :: u8;
          w16 = ucast (ProcessedWPData AND 0xFFFF) :: u16
      in if t = LC_DATA_BYTE then LC_SignedCompare WatchIndex op (sint w8) (sint c8) s
         else if t = LC_DATA_WORD_BE \<or> t = LC_DATA_WORD_LE
         then LC_SignedCompare WatchIndex op (sint w16) (sint c16) s
         else if t = LC_DATA_DWORD_BE \<or> t = LC_DATA_DWORD_LE
         then LC_SignedCompare WatchIndex op (sint ProcessedWPData) (sint c32) s
         else if t = LC_DATA_UBYTE then LC_UnsignedCompare WatchIndex op (ucast w8) (ucast c8) s
         else if t = LC_DATA_UWORD_BE \<or> t = LC_DATA_UWORD_LE
         then LC_UnsignedCompare WatchIndex op (ucast w16) (ucast c16) s
         else if t = LC_DATA_UDWORD_BE \<or> t = LC_DATA_UDWORD_LE
         then LC_UnsignedCompare WatchIndex op ProcessedWPData c32 s
         else if t = LC_DATA_FLOAT_BE \<or> t = LC_DATA_FLOAT_LE
         then LC_FloatCompare WatchIndex op ProcessedWPData c32 s
         else (LC_WATCH_ERROR,
               evs LC_WP_DATATYPE_ERR_EID CFE_EVS_EventType_ERROR [int WatchIndex, uint t] s))"

section \<open>Offsets and data\<close>

definition wp_set_error :: "nat \<Rightarrow> lc_state \<Rightarrow> lc_state" where
  "wp_set_error WatchIndex s =
     upd_WRT WatchIndex (\<lambda>r. r\<lparr>WatchResult := LC_WATCH_ERROR, CountdownToStale := 0\<rparr>) s"

text \<open>Number of bytes of a data type; \<open>None\<close> for an undefined one.\<close>

definition NumOfDataBytes :: "u8 \<Rightarrow> u32 option" where
  "NumOfDataBytes t =
     (if t = LC_DATA_BYTE \<or> t = LC_DATA_UBYTE then Some 1
      else if t = LC_DATA_WORD_BE \<or> t = LC_DATA_WORD_LE \<or> t = LC_DATA_UWORD_BE \<or> t = LC_DATA_UWORD_LE
      then Some 2
      else if t = LC_DATA_DWORD_BE \<or> t = LC_DATA_DWORD_LE \<or> t = LC_DATA_UDWORD_BE \<or> t = LC_DATA_UDWORD_LE
      then Some 4
      else if t = LC_DATA_FLOAT_BE \<or> t = LC_DATA_FLOAT_LE then Some 4
      else None)"

text \<open>The sum of offset and size is a 32-bit sum; the message length is a \<open>size_t\<close>.\<close>

definition LC_WPOffsetValid :: "nat \<Rightarrow> LC_WDTEntry \<Rightarrow> bytes \<Rightarrow> lc_state \<Rightarrow> bool \<times> lc_state" where
  "LC_WPOffsetValid WatchIndex w Buf s =
     (case NumOfDataBytes (DataType w) of
        None \<Rightarrow> (False, wp_set_error WatchIndex
                   (evs LC_WP_DATATYPE_ERR_EID CFE_EVS_EventType_ERROR [int WatchIndex, uint (DataType w)] s))
      | Some n \<Rightarrow>
          (let MsgLength = CFE_MSG_GetSize Buf; Offset = WatchpointOffset w
           in if unat (Offset + n) > MsgLength
              then (False, wp_set_error WatchIndex
                     (evs LC_WP_OFFSET_ERR_EID CFE_EVS_EventType_ERROR
                        [uint (CFE_MSG_GetMsgId Buf), int WatchIndex, sint Offset, uint n, int MsgLength] s))
              else (True, s)))"

text \<open>The copy loop counts down; \<open>Src\<close> is the message from the datum's offset on.\<close>

fun LC_CopyBytesWithSwap :: "bytes \<Rightarrow> bytes \<Rightarrow> nat \<Rightarrow> bytes \<Rightarrow> nat \<Rightarrow> bytes option" where
  "LC_CopyBytesWithSwap Dest Buf Src SwapMap 0 = Some Dest"
| "LC_CopyBytesWithSwap Dest Buf Src SwapMap (Suc NumBytes) =
     (case nth_opt Buf (Src + unat (byte_at SwapMap NumBytes AND 3)) of
        None \<Rightarrow> None
      | Some b \<Rightarrow> LC_CopyBytesWithSwap (Dest[NumBytes := b]) Buf Src SwapMap NumBytes)"

definition copy16 :: "endian \<Rightarrow> u16 \<Rightarrow> bytes \<Rightarrow> nat \<Rightarrow> u16 option" where
  "copy16 en conv Buf Src =
     map_option (\<lambda>t. rd16 en t 0) (LC_CopyBytesWithSwap [0, 0, 0, 0] Buf Src (wr16 en [0, 0, 0, 0] 0 conv) 2)"

definition copy32 :: "endian \<Rightarrow> u32 \<Rightarrow> bytes \<Rightarrow> nat \<Rightarrow> u32 option" where
  "copy32 en conv Buf Src =
     map_option (\<lambda>t. rd32 en t 0) (LC_CopyBytesWithSwap [0, 0, 0, 0] Buf Src (wr32 en [0, 0, 0, 0] 0 conv) 4)"

text \<open>The inner option is the function's success flag with the sized datum.\<close>

definition LC_GetSizedWPData ::
  "endian \<Rightarrow> nat \<Rightarrow> LC_WDTEntry \<Rightarrow> bytes \<Rightarrow> nat \<Rightarrow> lc_state \<Rightarrow> (u32 option \<times> lc_state) option" where
  "LC_GetSizedWPData en WatchIndex w Buf Src s =
     (let t = DataType w; ok = map_option (\<lambda>d. (Some d, s))
      in if t = LC_DATA_BYTE then ok (map_option (\<lambda>b. scast b) (nth_opt Buf Src))
         else if t = LC_DATA_UBYTE then ok (map_option (\<lambda>b. ucast b) (nth_opt Buf Src))
         else if t = LC_DATA_WORD_BE then ok (map_option (\<lambda>v. scast v) (copy16 en 0x0001 Buf Src))
         else if t = LC_DATA_WORD_LE then ok (map_option (\<lambda>v. scast v) (copy16 en 0x0100 Buf Src))
         else if t = LC_DATA_UWORD_BE then ok (map_option (\<lambda>v. ucast v) (copy16 en 0x0001 Buf Src))
         else if t = LC_DATA_UWORD_LE then ok (map_option (\<lambda>v. ucast v) (copy16 en 0x0100 Buf Src))
         else if t = LC_DATA_DWORD_BE \<or> t = LC_DATA_UDWORD_BE \<or> t = LC_DATA_FLOAT_BE
         then ok (copy32 en 0x00010203 Buf Src)
         else if t = LC_DATA_DWORD_LE \<or> t = LC_DATA_UDWORD_LE \<or> t = LC_DATA_FLOAT_LE
         then ok (copy32 en 0x03020100 Buf Src)
         else Some (None, wp_set_error WatchIndex
                (evs LC_WP_DATATYPE_ERR_EID CFE_EVS_EventType_ERROR [int WatchIndex, uint t] s)))"

section \<open>Processing one watchpoint\<close>

definition LC_CustomFunction :: "nat \<Rightarrow> u32 \<Rightarrow> bytes \<Rightarrow> u32 \<Rightarrow> lc_state \<Rightarrow> u8 \<times> lc_state" where
  "LC_CustomFunction WatchIndex ProcessedWPData Buf WDTCustomFuncArg s =
     (LC_WATCH_FALSE, evs LC_CFCALL_ERR_EID CFE_EVS_EventType_ERROR [int WatchIndex] s)"

definition wp_transition :: "LC_WDTEntry \<Rightarrow> u32 \<Rightarrow> CFE_TIME_SysTime \<Rightarrow> LC_WRTTransition \<Rightarrow> LC_WRTTransition" where
  "wp_transition w MaskedWPData ts tr = tr\<lparr>TransDataType := DataType w, Value := MaskedWPData, Timestamp := ts\<rparr>"

definition wp_update :: "LC_WDTEntry \<Rightarrow> u32 \<Rightarrow> CFE_TIME_SysTime \<Rightarrow> u8 \<Rightarrow> u8 \<Rightarrow> LC_WRTEntry \<Rightarrow> LC_WRTEntry" where
  "wp_update w MaskedWPData ts PreviousResult WPEvalResult r =
     (let r = r\<lparr>WatchResult := WPEvalResult, EvaluationCount := EvaluationCount r + 1\<rparr>
      in if WPEvalResult = LC_WATCH_TRUE
         then (let r = r\<lparr>CumulativeTrueCount := CumulativeTrueCount r + 1,
                         ConsecutiveTrueCount := ConsecutiveTrueCount r + 1,
                         CountdownToStale := ResultAgeWhenStale w\<rparr>
               in if PreviousResult = LC_WATCH_FALSE \<or> PreviousResult = LC_WATCH_STALE
                  then r\<lparr>FalseToTrueCount := FalseToTrueCount r + 1,
                         LastFalseToTrue := wp_transition w MaskedWPData ts (LastFalseToTrue r)\<rparr>
                  else r)
         else if WPEvalResult = LC_WATCH_FALSE
         then (let r = r\<lparr>ConsecutiveTrueCount := 0, CountdownToStale := ResultAgeWhenStale w\<rparr>
               in if PreviousResult = LC_WATCH_TRUE \<or> PreviousResult = LC_WATCH_STALE
                  then r\<lparr>LastTrueToFalse := wp_transition w MaskedWPData ts (LastTrueToFalse r)\<rparr>
                  else r)
         else r\<lparr>CountdownToStale := 0\<rparr>)"

definition LC_ProcessWP :: "lc_env \<Rightarrow> nat \<Rightarrow> bytes \<Rightarrow> CFE_TIME_SysTime \<Rightarrow> lc_state \<Rightarrow> lc_state option" where
  "LC_ProcessWP env WatchIndex Buf ts s = do {
     w \<leftarrow> nth_opt (WDT s) WatchIndex;
     (sized, s) \<leftarrow> LC_GetSizedWPData (lc_host env) WatchIndex w Buf (unat (WatchpointOffset w)) s;
     r \<leftarrow> nth_opt (WRT s) WatchIndex;
     Some (case sized of
        None \<Rightarrow> s
      | Some SizedWPData \<Rightarrow>
          (let MaskedWPData = SizedWPData AND BitMask w;
               (WPEvalResult, s) =
                 (if OperatorID w = LC_OPER_CUSTOM
                  then LC_CustomFunction WatchIndex MaskedWPData Buf (CustomFuncArgument w) s
                  else LC_OperatorCompare (lc_host env) WatchIndex w MaskedWPData s)
           in upd_WRT WatchIndex (wp_update w MaskedWPData ts (WatchResult r) WPEvalResult) s))
   }"

section \<open>Validating the watchpoint table\<close>

record wdt_val =
  w_EntryResult :: int
  w_TableResult :: int
  w_GoodCount :: int
  w_BadCount :: int
  w_UnusedCount :: int

abbreviation (input) LC_WDTVAL_NO_ERR :: int where "LC_WDTVAL_NO_ERR \<equiv> 0"
abbreviation (input) LC_WDTVAL_ERR_DATATYPE :: int where "LC_WDTVAL_ERR_DATATYPE \<equiv> 1"
abbreviation (input) LC_WDTVAL_ERR_OPER :: int where "LC_WDTVAL_ERR_OPER \<equiv> 2"
abbreviation (input) LC_WDTVAL_ERR_MID :: int where "LC_WDTVAL_ERR_MID \<equiv> 3"
abbreviation (input) LC_WDTVAL_ERR_FPNAN :: int where "LC_WDTVAL_ERR_FPNAN \<equiv> 4"
abbreviation (input) LC_WDTVAL_ERR_FPINF :: int where "LC_WDTVAL_ERR_FPINF \<equiv> 5"

definition wdt_bad :: "int \<Rightarrow> wdt_val \<Rightarrow> wdt_val" where
  "wdt_bad err v = v\<lparr>w_BadCount := w_BadCount v + 1, w_EntryResult := err\<rparr>"

definition wdt_good :: "wdt_val \<Rightarrow> wdt_val" where
  "wdt_good v = v\<lparr>w_GoodCount := w_GoodCount v + 1\<rparr>"

definition wdt_entry_check :: "endian \<Rightarrow> LC_WDTEntry \<Rightarrow> wdt_val \<Rightarrow> wdt_val" where
  "wdt_entry_check en e v =
     (let t = DataType e; CompareValue = rd32 en (ComparisonValue e) 0
      in if t = LC_WATCH_NOT_USED then v\<lparr>w_UnusedCount := w_UnusedCount v + 1\<rparr>
         else if t \<noteq> LC_DATA_BYTE \<and> t \<noteq> LC_DATA_UBYTE \<and> t \<noteq> LC_DATA_WORD_BE \<and> t \<noteq> LC_DATA_WORD_LE \<and>
                 t \<noteq> LC_DATA_UWORD_BE \<and> t \<noteq> LC_DATA_UWORD_LE \<and> t \<noteq> LC_DATA_DWORD_BE \<and>
                 t \<noteq> LC_DATA_DWORD_LE \<and> t \<noteq> LC_DATA_UDWORD_BE \<and> t \<noteq> LC_DATA_UDWORD_LE \<and>
                 t \<noteq> LC_DATA_FLOAT_BE \<and> t \<noteq> LC_DATA_FLOAT_LE
         then wdt_bad LC_WDTVAL_ERR_DATATYPE v
         else if OperatorID e \<noteq> LC_OPER_LT \<and> OperatorID e \<noteq> LC_OPER_LE \<and> OperatorID e \<noteq> LC_OPER_NE \<and>
                 OperatorID e \<noteq> LC_OPER_EQ \<and> OperatorID e \<noteq> LC_OPER_GE \<and> OperatorID e \<noteq> LC_OPER_GT \<and>
                 OperatorID e \<noteq> LC_OPER_CUSTOM
         then wdt_bad LC_WDTVAL_ERR_OPER v
         else if \<not> CFE_SB_IsValidMsgId (MessageID e) then wdt_bad LC_WDTVAL_ERR_MID v
         else if t = LC_DATA_FLOAT_BE \<or> t = LC_DATA_FLOAT_LE
         then (if LC_Uint32IsNAN CompareValue then wdt_bad LC_WDTVAL_ERR_FPNAN v
               else if LC_Uint32IsInfinite CompareValue then wdt_bad LC_WDTVAL_ERR_FPINF v
               else wdt_good v)
         else wdt_good v)"

definition wdt_first_error :: "endian \<Rightarrow> nat \<Rightarrow> LC_WDTEntry \<Rightarrow> wdt_val \<times> lc_state \<Rightarrow> wdt_val \<times> lc_state" where
  "wdt_first_error en TableIndex e = (\<lambda>(v, s).
     if w_EntryResult v \<noteq> LC_WDTVAL_NO_ERR \<and> w_TableResult v = 0
     then (v\<lparr>w_TableResult := w_EntryResult v\<rparr>,
           if w_EntryResult v = LC_WDTVAL_ERR_FPNAN \<or> w_EntryResult v = LC_WDTVAL_ERR_FPINF
           then evs LC_WDTVAL_FPERR_EID CFE_EVS_EventType_ERROR
                  [int TableIndex, w_EntryResult v, uint (rd32 en (ComparisonValue e) 0)] s
           else evs LC_WDTVAL_ERR_EID CFE_EVS_EventType_ERROR
                  [int TableIndex, w_EntryResult v, uint (DataType e), uint (OperatorID e), uint (MessageID e)] s)
     else (v, s))"

fun wdt_val_loop :: "endian \<Rightarrow> LC_WDTEntry list \<Rightarrow> nat \<Rightarrow> wdt_val \<times> lc_state \<Rightarrow> wdt_val \<times> lc_state" where
  "wdt_val_loop en [] TableIndex vs = vs"
| "wdt_val_loop en (e # es) TableIndex (v, s) =
     wdt_val_loop en es (TableIndex + 1) (wdt_first_error en TableIndex e (wdt_entry_check en e v, s))"

definition LC_ValidateWDT :: "endian \<Rightarrow> LC_WDTEntry list \<Rightarrow> lc_state \<Rightarrow> int \<times> lc_state" where
  "LC_ValidateWDT en TableArray s =
     (let (v, s) = wdt_val_loop en TableArray 0
            (\<lparr>w_EntryResult = LC_WDTVAL_NO_ERR, w_TableResult = 0, w_GoodCount = 0, w_BadCount = 0,
              w_UnusedCount = 0\<rparr>, s)
      in (w_TableResult v,
          evs LC_WDTVAL_INF_EID CFE_EVS_EventType_INFORMATION
            [w_GoodCount v, w_BadCount v, w_UnusedCount v] s))"

section \<open>What a datum is\<close>

text \<open>The datum of a type at an offset of a message, extended to 32 bits; no host order involved.\<close>

definition wp_decode :: "u8 \<Rightarrow> bytes \<Rightarrow> nat \<Rightarrow> u32" where
  "wp_decode t m i =
     (let b = (\<lambda>k. m ! (i + k))
      in if t = LC_DATA_BYTE then scast (b 0)
         else if t = LC_DATA_UBYTE then ucast (b 0)
         else if t = LC_DATA_WORD_BE then scast (join8 (b 0) (b 1))
         else if t = LC_DATA_WORD_LE then scast (join8 (b 1) (b 0))
         else if t = LC_DATA_UWORD_BE then ucast (join8 (b 0) (b 1))
         else if t = LC_DATA_UWORD_LE then ucast (join8 (b 1) (b 0))
         else if t = LC_DATA_DWORD_BE \<or> t = LC_DATA_UDWORD_BE \<or> t = LC_DATA_FLOAT_BE
         then join16 (join8 (b 0) (b 1)) (join8 (b 2) (b 3))
         else join16 (join8 (b 3) (b 2)) (join8 (b 1) (b 0)))"

lemma copy_two:
  "LC_CopyBytesWithSwap [0, 0, 0, 0] m i [p, q, r, t] 2 =
     (case nth_opt m (i + unat (q AND 3)) of None \<Rightarrow> None
      | Some y \<Rightarrow> (case nth_opt m (i + unat (p AND 3)) of None \<Rightarrow> None
      | Some x \<Rightarrow> Some [x, y, 0, 0]))"
  by (simp add: numeral_2_eq_2 byte_at_def split: option.split)

lemma copy_four:
  "LC_CopyBytesWithSwap [0, 0, 0, 0] m i [p, q, r, t] 4 =
     (case nth_opt m (i + unat (t AND 3)) of None \<Rightarrow> None
      | Some z \<Rightarrow> (case nth_opt m (i + unat (r AND 3)) of None \<Rightarrow> None
      | Some u \<Rightarrow> (case nth_opt m (i + unat (q AND 3)) of None \<Rightarrow> None
      | Some y \<Rightarrow> (case nth_opt m (i + unat (p AND 3)) of None \<Rightarrow> None
      | Some x \<Rightarrow> Some [x, y, u, z]))))"
proof -
  have "(4::nat) = Suc (Suc (Suc (Suc 0)))" by simp
  then show ?thesis by (simp only:) (simp add: byte_at_def split: option.split)
qed

lemma swap_maps:
  "wr16 LittleEndian [0, 0, 0, 0] 0 0x0001 = [1, 0, 0, 0]" "wr16 BigEndian [0, 0, 0, 0] 0 0x0001 = [0, 1, 0, 0]"
  "wr16 LittleEndian [0, 0, 0, 0] 0 0x0100 = [0, 1, 0, 0]" "wr16 BigEndian [0, 0, 0, 0] 0 0x0100 = [1, 0, 0, 0]"
  "wr32 LittleEndian [0, 0, 0, 0] 0 0x00010203 = [3, 2, 1, 0]"
  "wr32 BigEndian [0, 0, 0, 0] 0 0x00010203 = [0, 1, 2, 3]"
  "wr32 LittleEndian [0, 0, 0, 0] 0 0x03020100 = [0, 1, 2, 3]"
  "wr32 BigEndian [0, 0, 0, 0] 0 0x03020100 = [3, 2, 1, 0]"
  by (simp_all add: wr32_def wr16_def hi8_def lo8_def hi16_def lo16_def)

lemma rd_four:
  "rd16 LittleEndian [x, y, u, z] 0 = join8 y x" "rd16 BigEndian [x, y, u, z] 0 = join8 x y"
  "rd32 LittleEndian [x, y, u, z] 0 = join16 (join8 z u) (join8 y x)"
  "rd32 BigEndian [x, y, u, z] 0 = join16 (join8 x y) (join8 u z)"
  by (simp_all add: rd32_def rd16_def byte_at_def)

lemma copy16_result:
  "copy16 en 0x0001 m i = (if i + 2 \<le> length m then Some (join8 (m ! i) (m ! (i + 1))) else None)"
  "copy16 en 0x0100 m i = (if i + 2 \<le> length m then Some (join8 (m ! (i + 1)) (m ! i)) else None)"
  by (cases en; simp add: copy16_def swap_maps copy_two nth_opt_def rd_four)+

lemma copy32_result:
  "copy32 en 0x00010203 m i =
     (if i + 4 \<le> length m
      then Some (join16 (join8 (m ! i) (m ! (i + 1))) (join8 (m ! (i + 2)) (m ! (i + 3)))) else None)"
  "copy32 en 0x03020100 m i =
     (if i + 4 \<le> length m
      then Some (join16 (join8 (m ! (i + 3)) (m ! (i + 2))) (join8 (m ! (i + 1)) (m ! i))) else None)"
  by (cases en; simp add: copy32_def swap_maps copy_four nth_opt_def rd_four)+

lemma known_type:
  "NumOfDataBytes t = Some n \<Longrightarrow>
   (n = 1 \<and> t \<in> {1, 2}) \<or> (n = 2 \<and> t \<in> {3, 4, 5, 6}) \<or> (n = 4 \<and> t \<in> {7, 8, 9, 10, 11, 12})"
  by (auto simp: NumOfDataBytes_def split: if_splits)

lemma LC_GetSizedWPData_result:
  assumes "NumOfDataBytes (DataType w) = Some n"
  shows "LC_GetSizedWPData en k w m i s =
           (if i + unat n \<le> length m then Some (Some (wp_decode (DataType w) m i), s) else None)"
  using known_type [OF assms]
  by (elim disjE conjE)
    (auto simp: LC_GetSizedWPData_def wp_decode_def Let_def copy16_result copy32_result nth_opt_def)

text \<open>
  C28. Fetching a datum is independent of the processor: for every data type the result is the
  big- or little-endian number the message holds at the offset, sign- or zero-extended as the type
  says, on hosts of either byte order; and the fetch leaves the message exactly when the datum does.
\<close>

theorem LC_GetSizedWPData_decodes:
  assumes "NumOfDataBytes (DataType w) = Some n"
  shows "LC_GetSizedWPData en k w m i s =
           (if i + unat n \<le> length m then Some (Some (wp_decode (DataType w) m i), s) else None)"
  using assms by (rule LC_GetSizedWPData_result)

theorem LC_GetSizedWPData_decodes_witness:
  "LC_GetSizedWPData BigEndian 0 (wp_demo\<lparr>DataType := LC_DATA_WORD_LE\<rparr>) [0, 0x34, 0xF2] 1 lc_demo =
   Some (Some 0xFFFFF234, lc_demo)"
  using LC_GetSizedWPData_decodes [of "wp_demo\<lparr>DataType := LC_DATA_WORD_LE\<rparr>" 2 BigEndian 0 "[0, 0x34, 0xF2]" 1 lc_demo]
  by (simp add: NumOfDataBytes_def wp_decode_def wp_demo_def join8_def)

section \<open>Comparisons of whole numbers\<close>

definition cmp_holds :: "u8 \<Rightarrow> int \<Rightarrow> int \<Rightarrow> bool" where
  "cmp_holds op a b =
     (if op = LC_OPER_LT then a < b else if op = LC_OPER_LE then a \<le> b
      else if op = LC_OPER_NE then a \<noteq> b else if op = LC_OPER_EQ then a = b
      else if op = LC_OPER_GE then a \<ge> b else a > b)"

text \<open>The number a 32-bit pattern holds in one of the ten integer types.\<close>

definition typed_value :: "u8 \<Rightarrow> u8 \<Rightarrow> u16 \<Rightarrow> u32 \<Rightarrow> int" where
  "typed_value t v8 v16 v32 =
     (if t = LC_DATA_BYTE then sint v8 else if t = LC_DATA_UBYTE then uint v8
      else if t = LC_DATA_WORD_BE \<or> t = LC_DATA_WORD_LE then sint v16
      else if t = LC_DATA_UWORD_BE \<or> t = LC_DATA_UWORD_LE then uint v16
      else if t = LC_DATA_DWORD_BE \<or> t = LC_DATA_DWORD_LE then sint v32
      else uint v32)"

lemma ucast_and_mask:
  "(ucast ((d::u32) AND 0xFF) :: u8) = ucast d" "(ucast (d AND 0xFFFF) :: u16) = ucast d"
proof -
  have m8: "(0xFF::u32) = mask 8" and m16: "(0xFFFF::u32) = mask 16"
    by (simp_all add: mask_eq_exp_minus_1)
  show "(ucast (d AND 0xFF) :: u8) = ucast d"
    unfolding m8 by (rule bit_word_eqI) (auto simp: bit_simps)
  show "(ucast (d AND 0xFFFF) :: u16) = ucast d"
    unfolding m16 by (rule bit_word_eqI) (auto simp: bit_simps)
qed

lemma LC_SignedCompare_holds:
  "op \<in> {1, 2, 3, 4, 5, 6} \<Longrightarrow> LC_SignedCompare k op a b s = (wp_verdict (cmp_holds op a b), s)"
  by (auto simp: LC_SignedCompare_def cmp_holds_def)

lemma LC_UnsignedCompare_holds:
  "op \<in> {1, 2, 3, 4, 5, 6} \<Longrightarrow> LC_UnsignedCompare k op a b s = (wp_verdict (cmp_holds op (uint a) (uint b)), s)"
  by (auto simp: LC_UnsignedCompare_def cmp_holds_def word_le_def word_less_def word_uint_eq_iff)

lemma LC_OperatorCompare_integer_holds:
  assumes "DataType w \<in> {1, 2, 3, 4, 5, 6, 7, 8, 9, 10}" and "OperatorID w \<in> {1, 2, 3, 4, 5, 6}"
  shows "LC_OperatorCompare en k w d s =
     (wp_verdict (cmp_holds (OperatorID w) (typed_value (DataType w) (ucast d) (ucast d) d)
        (typed_value (DataType w) (byte_at (ComparisonValue w) 0) (rd16 en (ComparisonValue w) 0)
           (rd32 en (ComparisonValue w) 0))), s)"
proof -
  have u8: "uint (ucast (x::u8) :: u32) = uint x" and u16: "uint (ucast (y::u16) :: u32) = uint y" for x y
    by (metis uint_nat unat_ucast_up(2), metis uint_nat unat_ucast_up(3))
  show ?thesis
    using assms(1)
    by (auto simp: LC_OperatorCompare_def typed_value_def ucast_and_mask u8 u16
        LC_SignedCompare_holds [OF assms(2)] LC_UnsignedCompare_holds [OF assms(2)])
qed

text \<open>
  A relational watchpoint on an integer type compares numbers: the result is TRUE exactly when
  the relation holds between the datum and the table's value, both read at the width and signedness
  of the type.
\<close>

theorem LC_OperatorCompare_integer:
  assumes "DataType w \<in> {1, 2, 3, 4, 5, 6, 7, 8, 9, 10}" and "OperatorID w \<in> {1, 2, 3, 4, 5, 6}"
  shows "LC_OperatorCompare en k w d s =
     (wp_verdict (cmp_holds (OperatorID w) (typed_value (DataType w) (ucast d) (ucast d) d)
        (typed_value (DataType w) (byte_at (ComparisonValue w) 0) (rd16 en (ComparisonValue w) 0)
           (rd32 en (ComparisonValue w) 0))), s)"
  using assms by (rule LC_OperatorCompare_integer_holds)

theorem LC_OperatorCompare_integer_witness:
  "LC_OperatorCompare LittleEndian 0 wp_demo 0x1FF lc_demo = (LC_WATCH_TRUE, lc_demo)"
  using LC_OperatorCompare_integer [of wp_demo LittleEndian 0 "0x1FF" lc_demo]
  by (simp add: wp_demo_def typed_value_def cmp_holds_def wp_verdict_def byte_at_def)
section \<open>Comparisons of single-precision numbers\<close>

lemma bit_count_bounds: "0 < d \<Longrightarrow> 2 ^ (bit_count d - 1) \<le> d \<and> d < 2 ^ bit_count d"
proof (induction d rule: bit_count.induct)
  case (1 n)
  show ?case
  proof (cases "n div 2 = 0")
    case True
    with "1.prems" have "n = 1" by arith
    then show ?thesis by (simp add: bit_count.simps)
  next
    case False
    with "1.prems" have IH: "2 ^ (bit_count (n div 2) - 1) \<le> n div 2" "n div 2 < 2 ^ bit_count (n div 2)"
      using "1.IH" by auto
    have "bit_count n = Suc (bit_count (n div 2))" "bit_count (n div 2) \<noteq> 0"
      using "1.prems" False by (simp_all add: bit_count.simps)
    then show ?thesis using IH
      by (cases "bit_count (n div 2)") auto
  qed
qed

lemma float_round_within:
  "f32_round d \<le> float_tolerance \<longleftrightarrow> d \<le> float_tolerance + 2 ^ 41"
proof (cases "d < 2 ^ 24")
  case True
  then show ?thesis by (simp add: f32_round_def float_tolerance_def)
next
  case big: False
  let ?n = "bit_count d"
  define s where "s = ?n - 24"
  define q where "q = d div 2 ^ s"
  define r where "r = d mod 2 ^ s"
  have lo: "2 ^ (?n - 1) \<le> d" and hi: "d < 2 ^ ?n"
    using bit_count_bounds [of d] big by auto
  have n: "24 < ?n"
  proof (rule ccontr)
    assume "\<not> 24 < ?n"
    then have "(2::nat) ^ ?n \<le> 2 ^ 24" by (intro power_increasing) auto
    with hi big show False by simp
  qed
  have d: "d = q * 2 ^ s + r" and r: "r < 2 ^ s"
    using div_mult_mod_eq [of d "2 ^ s"] by (simp_all add: q_def r_def)
  define q' where "q' = (if r > 2 ^ (s - 1) \<or> (r = 2 ^ (s - 1) \<and> odd q) then q + 1 else q)"
  have round: "f32_round d = q' * 2 ^ s"
    using big by (simp add: f32_round_def Let_def s_def q_def r_def q'_def)
  consider "?n < 66" | "?n = 66" | "66 < ?n" by linarith
  then show ?thesis
  proof cases
    case 1
    have "?n = 24 + s" using n by (simp add: s_def)
    then have pow: "(2::nat) ^ ?n = 2 ^ 24 * 2 ^ s" by (simp only: power_add)
    have "q < 2 ^ 24" using hi pow by (simp add: q_def less_mult_imp_div_less)
    then have "q' \<le> 2 ^ 24" by (simp add: q'_def)
    then have "f32_round d \<le> 2 ^ ?n" by (simp add: round pow)
    moreover have "(2::nat) ^ ?n \<le> 2 ^ 65" using 1 by (intro power_increasing) auto
    ultimately show ?thesis using hi by (simp add: float_tolerance_def)
  next
    case 2
    then have s: "s = 42" by (simp add: s_def)
    have T: "float_tolerance = 16225928 * 2 ^ 42" by (simp add: float_tolerance_def)
    have "f32_round d \<le> float_tolerance \<longleftrightarrow> q' \<le> 16225928"
      by (simp add: round s T)
    also have "\<dots> \<longleftrightarrow> d \<le> float_tolerance + 2 ^ 41"
    proof (cases q "16225928::nat" rule: linorder_cases)
      case less
      then show ?thesis using d r by (simp add: q'_def s T)
    next
      case equal
      then show ?thesis using d r by (auto simp: q'_def s T)
    next
      case greater
      then show ?thesis using d r by (simp add: q'_def s T)
    qed
    finally show ?thesis .
  next
    case 3
    have "(2::nat) ^ 66 \<le> 2 ^ (?n - 1)" using 3 by (intro power_increasing) auto
    then have d66: "2 ^ 66 \<le> d" using lo by simp
    have "?n - 1 = 23 + s" using n by (simp add: s_def)
    then have pow: "(2::nat) ^ (?n - 1) = 2 ^ 23 * 2 ^ s" by (simp only: power_add)
    have "2 ^ 23 \<le> q" using lo pow by (simp add: q_def less_eq_div_iff_mult_less_eq)
    then have "2 ^ 23 * 2 ^ s \<le> f32_round d" by (simp add: round q'_def)
    with pow have "2 ^ 66 \<le> f32_round d" using \<open>(2::nat) ^ 66 \<le> 2 ^ (?n - 1)\<close> by simp
    with d66 show ?thesis by (simp add: float_tolerance_def)
  qed
qed

definition f32_finite :: "u32 \<Rightarrow> bool" where
  "f32_finite b \<longleftrightarrow> \<not> LC_Uint32IsNAN b \<and> \<not> LC_Uint32IsInfinite b"

text \<open>
  The floating-point equality of a watchpoint, against a finite table value: for a datum that is
  a number, EQUAL holds exactly when the two values differ by no more than the tolerance, up to half
  a unit in the last place of the single-precision difference, and NOT EQUAL is its negation; a
  datum that is not a number gives an error result.
\<close>

theorem LC_FloatCompare_equality:
  assumes "f32_finite c"
  shows "LC_FloatCompare k LC_OPER_EQ d c s =
           (if LC_Uint32IsNAN d
            then (LC_WATCH_ERROR, evs LC_WP_NAN_ERR_EID CFE_EVS_EventType_ERROR [int k, uint d] s)
            else (wp_verdict (\<bar>f32_val d - f32_val c\<bar> \<le> int (float_tolerance + 2 ^ 41)), s)) \<and>
         LC_FloatCompare k LC_OPER_NE d c s =
           (if LC_Uint32IsNAN d
            then (LC_WATCH_ERROR, evs LC_WP_NAN_ERR_EID CFE_EVS_EventType_ERROR [int k, uint d] s)
            else (wp_verdict (\<not> \<bar>f32_val d - f32_val c\<bar> \<le> int (float_tolerance + 2 ^ 41)), s))"
proof -
  let ?a = "\<bar>f32_val d - f32_val c\<bar>"
  have diff: "f32_diff d c = Some (f32_round (nat ?a))" if "\<not> LC_Uint32IsNAN d"
    using assms that by (auto simp: f32_diff_def f32_finite_def)
  have "nat ?a \<le> float_tolerance + 2 ^ 41 \<longleftrightarrow> ?a \<le> int (float_tolerance + 2 ^ 41)"
    by linarith
  then have within: "f32_round (nat ?a) \<le> float_tolerance \<longleftrightarrow> ?a \<le> int (float_tolerance + 2 ^ 41)"
    by (simp only: float_round_within)
  show ?thesis
    using diff within by (simp add: LC_FloatCompare_def not_le [symmetric])
qed

theorem LC_FloatCompare_equality_witness:
  "LC_FloatCompare 0 LC_OPER_EQ 0x7F800000 0x3F800000 lc_demo = (LC_WATCH_FALSE, lc_demo)"
  using LC_FloatCompare_equality [of "0x3F800000" 0 "0x7F800000" lc_demo]
  by (simp add: f32_finite_def LC_Uint32IsNAN_def LC_Uint32IsInfinite_def f32_val_def float_tolerance_def
      wp_verdict_def)

section \<open>Reads stay inside the message\<close>

lemma LC_WPOffsetValid_iff:
  "fst (LC_WPOffsetValid k w m s) \<longleftrightarrow>
     (\<exists>n. NumOfDataBytes (DataType w) = Some n \<and> unat (WatchpointOffset w + n) \<le> CFE_MSG_GetSize m)"
  by (auto simp: LC_WPOffsetValid_def Let_def not_le split: option.split)

text \<open>The sum of offset and size does not wrap.\<close>

definition wp_offset_fits :: "LC_WDTEntry \<Rightarrow> bool" where
  "wp_offset_fits w \<longleftrightarrow> unat (WatchpointOffset w) + 4 < 2 ^ 32"

lemma wp_offset_sum:
  assumes "wp_offset_fits w" and "NumOfDataBytes t = Some n"
  shows "unat (WatchpointOffset w + n) = unat (WatchpointOffset w) + unat n"
proof -
  have "unat n \<le> 4" using known_type [OF assms(2)] by auto
  then show ?thesis
    using assms(1) by (simp add: unat_word_ariths wp_offset_fits_def)
qed

text \<open>
  The offset check protects every fetch whose offset and size do not overflow 32 bits: if it
  accepts a message that is as long as its header says, the datum lies inside the message.
\<close>

theorem LC_WPOffsetValid_protects:
  assumes "fst (LC_WPOffsetValid k w m s)" and "wp_offset_fits w" and "CFE_MSG_GetSize m \<le> length m"
  shows "LC_GetSizedWPData en k w m (unat (WatchpointOffset w)) s' =
         Some (Some (wp_decode (DataType w) m (unat (WatchpointOffset w))), s')"
proof -
  obtain n where "NumOfDataBytes (DataType w) = Some n" "unat (WatchpointOffset w + n) \<le> CFE_MSG_GetSize m"
    using assms(1) LC_WPOffsetValid_iff by blast
  then show ?thesis
    using assms(2,3) by (simp add: LC_GetSizedWPData_result wp_offset_sum)
qed

section \<open>Validation of the watchpoint table\<close>

definition wdt_entry_ok :: "endian \<Rightarrow> LC_WDTEntry \<Rightarrow> bool" where
  "wdt_entry_ok en e \<longleftrightarrow> DataType e = LC_WATCH_NOT_USED \<or>
     NumOfDataBytes (DataType e) \<noteq> None \<and> OperatorID e \<in> {1, 2, 3, 4, 5, 6, 7} \<and>
     MessageID e \<noteq> 0 \<and> MessageID e \<le> 0x1FFF \<and>
     (DataType e \<in> {LC_DATA_FLOAT_BE, LC_DATA_FLOAT_LE} \<longrightarrow> f32_finite (rd32 en (ComparisonValue e) 0))"

lemma wdt_entry_check_result:
  assumes "w_EntryResult v = 0"
  shows "w_EntryResult (wdt_entry_check en e v) = 0 \<longleftrightarrow> wdt_entry_ok en e"
  using assms
  by (auto simp: wdt_entry_check_def Let_def wdt_entry_ok_def wdt_bad_def wdt_good_def NumOfDataBytes_def
      CFE_SB_IsValidMsgId_def f32_finite_def)

lemma wdt_entry_check_keeps [simp]: "w_TableResult (wdt_entry_check en e v) = w_TableResult v"
  by (simp add: wdt_entry_check_def Let_def wdt_bad_def wdt_good_def)

lemma wdt_val_loop_failed:
  "w_TableResult v \<noteq> 0 \<Longrightarrow> w_TableResult (fst (wdt_val_loop en es i (v, s))) \<noteq> 0"
proof (induction es arbitrary: i v s)
  case (Cons e es)
  then show ?case by (simp add: wdt_first_error_def)
qed simp

lemma wdt_val_loop_result:
  "\<lbrakk> w_EntryResult v = 0; w_TableResult v = 0 \<rbrakk> \<Longrightarrow>
   w_TableResult (fst (wdt_val_loop en es i (v, s))) = 0 \<longleftrightarrow> list_all (wdt_entry_ok en) es"
proof (induction es arbitrary: i v s)
  case (Cons e es)
  then show ?case
    using wdt_entry_check_result [OF Cons.prems(1), of en e]
    by (cases "wdt_entry_ok en e") (simp_all add: wdt_first_error_def wdt_val_loop_failed)
qed simp

lemma LC_ValidateWDT_iff: "fst (LC_ValidateWDT en t s) = 0 \<longleftrightarrow> list_all (wdt_entry_ok en) t"
proof -
  let ?v = "\<lparr>w_EntryResult = 0, w_TableResult = 0, w_GoodCount = 0, w_BadCount = 0, w_UnusedCount = 0\<rparr>"
  have "fst (LC_ValidateWDT en t s) = w_TableResult (fst (wdt_val_loop en t 0 (?v, s)))"
    by (simp add: LC_ValidateWDT_def split: prod.split)
  also have "\<dots> = 0 \<longleftrightarrow> list_all (wdt_entry_ok en) t"
    by (rule wdt_val_loop_result) simp_all
  finally show ?thesis .
qed

definition wp_wrap :: LC_WDTEntry where
  "wp_wrap = wp_demo\<lparr>DataType := LC_DATA_UWORD_BE, WatchpointOffset := 0xFFFFFFFE\<rparr>"

text \<open>
  C29. Without that bound the check is unsound: an entry that table validation accepts, with a 16-bit
  datum at offset \<open>0xFFFFFFFE\<close>, passes the check on every message, since the 32-bit sum is zero,
  and the fetch that follows reads outside the message.
\<close>

theorem LC_WPOffsetValid_wraps:
  assumes "length m < 2 ^ 31"
  shows "fst (LC_ValidateWDT en (wp_wrap # replicate 175 wp_unused) s) = 0 \<and>
         fst (LC_WPOffsetValid k wp_wrap m s) \<and>
         LC_GetSizedWPData en k wp_wrap m (unat (WatchpointOffset wp_wrap)) s = None"
proof -
  have "list_all (wdt_entry_ok en) (wp_wrap # replicate 175 wp_unused)"
    by (auto simp: list_all_iff wdt_entry_ok_def wp_wrap_def demo_defs NumOfDataBytes_def)
  moreover have "fst (LC_WPOffsetValid k wp_wrap m s)"
    by (simp add: LC_WPOffsetValid_iff wp_wrap_def demo_defs NumOfDataBytes_def)
  moreover have "NumOfDataBytes (DataType wp_wrap) = Some 2" and "WatchpointOffset wp_wrap = 0xFFFFFFFE"
    by (simp_all add: wp_wrap_def demo_defs NumOfDataBytes_def)
  ultimately show ?thesis
    using assms by (simp add: LC_ValidateWDT_iff LC_GetSizedWPData_result)
qed

theorem LC_WPOffsetValid_wraps_witness:
  "LC_GetSizedWPData LittleEndian 0 wp_wrap (replicate 16 0) (unat (WatchpointOffset wp_wrap)) lc_demo = None"
  using LC_WPOffsetValid_wraps [of "replicate 16 0" LittleEndian lc_demo 0] by simp

text \<open>
  Validation of the watchpoint table succeeds exactly when every entry is unused or has a
  defined type and operator, a message id in range and, for a floating-point type, a finite value.
  It says nothing of the offset.
\<close>

theorem LC_ValidateWDT_exact:
  "fst (LC_ValidateWDT en t s) = 0 \<longleftrightarrow> list_all (wdt_entry_ok en) t"
  by (rule LC_ValidateWDT_iff)

theorem LC_WPOffsetValid_protects_witness:
  "LC_GetSizedWPData LittleEndian 0 wp_demo ([8, 1, 0xC0, 0, 0, 6] @ replicate 7 9) 12 lc_demo =
   Some (Some 9, lc_demo)"
  using LC_WPOffsetValid_protects [of 0 wp_demo "[8, 1, 0xC0, 0, 0, 6] @ replicate 7 9" lc_demo
      LittleEndian lc_demo]
  by (simp add: LC_WPOffsetValid_iff wp_demo_def NumOfDataBytes_def CFE_MSG_GetSize_def byte_at_def
      wp_offset_fits_def wp_decode_def)

section \<open>The result of a watchpoint\<close>

lemma wp_verdict_watch [simp]: "wp_verdict b \<in> watch_values"
  by (simp add: wp_verdict_def watch_values_def)

lemma wp_bad_operator_fst [simp]: "fst (wp_bad_operator k op s) = LC_WATCH_ERROR"
  by (simp add: wp_bad_operator_def)

lemma LC_OperatorCompare_watch: "fst (LC_OperatorCompare en k w d s) \<in> watch_values"
  by (simp add: LC_OperatorCompare_def Let_def LC_SignedCompare_def LC_UnsignedCompare_def LC_FloatCompare_def)
    (simp add: watch_values_def)

text \<open>What processing a watchpoint may touch: its result entry and the event log.\<close>

definition wp_frame :: "nat \<Rightarrow> lc_state \<Rightarrow> lc_state \<Rightarrow> bool" where
  "wp_frame i s s' \<longleftrightarrow> (\<exists>r es. WatchResult r \<in> watch_values \<and>
     s' = s\<lparr>WRT := (WRT s)[i := r], events := events s @ es\<rparr>)"

lemma wp_frameI: "WatchResult r \<in> watch_values \<Longrightarrow> wp_frame i s (s\<lparr>WRT := (WRT s)[i := r], events := events s @ es\<rparr>)"
  unfolding wp_frame_def by blast

lemma wp_frame_trans: "\<lbrakk> wp_frame i s s1; wp_frame i s1 s2 \<rbrakk> \<Longrightarrow> wp_frame i s s2"
  unfolding wp_frame_def by fastforce

lemma WatchResult_wf: "\<lbrakk> lc_tables_wf s; i < 176 \<rbrakk> \<Longrightarrow> WatchResult (WRT s ! i) \<in> watch_values"
  by (simp add: lc_tables_wf_def list_all_length)

lemma wp_frame_evs: "\<lbrakk> lc_tables_wf s; i < 176 \<rbrakk> \<Longrightarrow> wp_frame i s (evs e t a s)"
  using wp_frameI [OF WatchResult_wf, of s i i s "[\<lparr>ev_id = e, ev_type = t, ev_args = a\<rparr>]"]
  by (simp add: evs_def)

lemma wp_frame_refl: "\<lbrakk> lc_tables_wf s; i < 176 \<rbrakk> \<Longrightarrow> wp_frame i s s"
  using wp_frameI [OF WatchResult_wf, of s i i s "[]"] by simp

lemma wp_frame_upd: "WatchResult (f (WRT s ! i)) \<in> watch_values \<Longrightarrow> wp_frame i s (upd_WRT i f s)"
  using wp_frameI [of "f (WRT s ! i)" i s "[]"] by (simp add: upd_WRT_def upd_at_def)

lemma wp_frame_error:
  "\<lbrakk> lc_tables_wf s; i < 176 \<rbrakk> \<Longrightarrow> wp_frame i s (wp_set_error i (evs e t a s))"
  unfolding wp_set_error_def
  by (rule wp_frame_trans [OF wp_frame_evs wp_frame_upd]) (simp_all add: watch_values_def)

lemma wp_frame_wf:
  assumes "wp_frame i s s'" and "lc_tables_wf s"
  shows "lc_tables_wf s'"
proof -
  obtain r es where r: "WatchResult r \<in> watch_values"
      and s': "s' = s\<lparr>WRT := (WRT s)[i := r], events := events s @ es\<rparr>"
    using assms(1) unfolding wp_frame_def by blast
  have "list_all (\<lambda>w. WatchResult w \<in> watch_values) ((WRT s)[i := r])"
    using assms(2) r by (auto simp: lc_tables_wf_def list_all_iff dest!: set_update_subset_insert [THEN subsetD])
  then show ?thesis
    using assms(2) by (simp add: lc_tables_wf_def s')
qed

lemma LC_WPOffsetValid_frame:
  "\<lbrakk> lc_tables_wf s; i < 176 \<rbrakk> \<Longrightarrow> wp_frame i s (snd (LC_WPOffsetValid i w m s))"
  by (simp add: LC_WPOffsetValid_def Let_def wp_frame_error wp_frame_refl split: option.split)

lemma wp_update_result [simp]: "WatchResult (wp_update w d ts p r e) = r"
  by (simp add: wp_update_def Let_def)

lemma wp_frame_bad_operator:
  "\<lbrakk> lc_tables_wf s; i < 176 \<rbrakk> \<Longrightarrow> wp_frame i s (snd (wp_bad_operator k op s))"
  by (simp add: wp_bad_operator_def wp_frame_evs)

lemma LC_OperatorCompare_frame:
  "\<lbrakk> lc_tables_wf s; i < 176 \<rbrakk> \<Longrightarrow> wp_frame i s (snd (LC_OperatorCompare en k w d s))"
  by (simp add: LC_OperatorCompare_def Let_def LC_SignedCompare_def LC_UnsignedCompare_def LC_FloatCompare_def
      wp_frame_bad_operator wp_frame_refl wp_frame_evs)

lemma LC_ProcessWP_ok:
  assumes wf: "lc_tables_wf s" and i: "i < 176"
    and n: "NumOfDataBytes (DataType (WDT s ! i)) = Some n"
    and inside: "unat (WatchpointOffset (WDT s ! i)) + unat n \<le> length m"
  shows "\<exists>s'. LC_ProcessWP env i m ts s = Some s' \<and> wp_frame i s s'"
proof -
  let ?w = "WDT s ! i"
  let ?d = "wp_decode (DataType ?w) m (unat (WatchpointOffset ?w)) AND BitMask ?w"
  have len: "i < length (WDT s)" "i < length (WRT s)"
    using wf i by (simp_all add: lc_tables_wf_def wdt_wf_def)
  obtain r s1 where rs: "(if OperatorID ?w = LC_OPER_CUSTOM
        then LC_CustomFunction i ?d m (CustomFuncArgument ?w) s
        else LC_OperatorCompare (lc_host env) i ?w ?d s) = (r, s1)"
    by fastforce
  have r: "r \<in> watch_values" and s1: "wp_frame i s s1"
    using rs LC_OperatorCompare_watch [of "lc_host env" i ?w ?d s]
      LC_OperatorCompare_frame [OF wf i, of "lc_host env" i ?w ?d]
    by (auto simp: LC_CustomFunction_def wp_frame_evs [OF wf i] watch_values_def split: if_splits)
  have "LC_ProcessWP env i m ts s = Some (upd_WRT i (wp_update ?w ?d ts (WatchResult (WRT s ! i)) r) s1)"
    using len inside rs by (simp add: LC_ProcessWP_def LC_GetSizedWPData_result [OF n] Let_def split: prod.split)
  moreover have "wp_frame i s (upd_WRT i (wp_update ?w ?d ts (WatchResult (WRT s ! i)) r) s1)"
    using r by (intro wp_frame_trans [OF s1] wp_frame_upd) simp
  ultimately show ?thesis by blast
qed

text \<open>
  C27. Processing a relational watchpoint of integer type whose datum lies in the message sets its
  result to the comparison of the masked datum with the table's value, restarts its stale countdown and
  counts the evaluation. The two counts of TRUE results go up by one when it is TRUE; otherwise the
  consecutive one restarts from 0 and the cumulative one stays. A result that is TRUE after FALSE or
  STALE is counted and recorded with the type, the masked datum and the time, one that is FALSE after
  TRUE or STALE is recorded likewise, and both records stay otherwise. No other watchpoint's result changes.
\<close>

theorem LC_ProcessWP_result:
  assumes "lc_tables_wf s" and "i < 176"
    and "DataType (WDT s ! i) \<in> {1, 2, 3, 4, 5, 6, 7, 8, 9, 10}" and "OperatorID (WDT s ! i) \<in> {1, 2, 3, 4, 5, 6}"
    and "NumOfDataBytes (DataType (WDT s ! i)) = Some n"
    and "unat (WatchpointOffset (WDT s ! i)) + unat n \<le> length m"
  shows "\<exists>s'. LC_ProcessWP env i m ts s = Some s' \<and>
     (let w = WDT s ! i; old = WRT s ! i; new = WRT s' ! i; c = ComparisonValue w;
          d = wp_decode (DataType w) m (unat (WatchpointOffset w)) AND BitMask w;
          true = cmp_holds (OperatorID w) (typed_value (DataType w) (ucast d) (ucast d) d)
            (typed_value (DataType w) (byte_at c 0) (rd16 (lc_host env) c 0) (rd32 (lc_host env) c 0));
          rising = (true \<and> WatchResult old \<in> {LC_WATCH_FALSE, LC_WATCH_STALE});
          falling = (\<not> true \<and> WatchResult old \<in> {LC_WATCH_TRUE, LC_WATCH_STALE})
      in WatchResult new = (if true then LC_WATCH_TRUE else LC_WATCH_FALSE) \<and>
         CountdownToStale new = ResultAgeWhenStale w \<and>
         EvaluationCount new = EvaluationCount old + 1 \<and>
         CumulativeTrueCount new = CumulativeTrueCount old + (if true then 1 else 0) \<and>
         ConsecutiveTrueCount new = (if true then ConsecutiveTrueCount old + 1 else 0) \<and>
         FalseToTrueCount new = FalseToTrueCount old + (if rising then 1 else 0) \<and>
         LastFalseToTrue new = (if rising then \<lparr>Value = d, TransDataType = DataType w, Timestamp = ts\<rparr> else LastFalseToTrue old) \<and>
         LastTrueToFalse new = (if falling then \<lparr>Value = d, TransDataType = DataType w, Timestamp = ts\<rparr> else LastTrueToFalse old) \<and>
         WRT s' = (WRT s)[i := new])"
proof -
  have len: "i < length (WDT s)" "i < length (WRT s)"
    using assms(1,2) by (simp_all add: lc_tables_wf_def wdt_wf_def)
  have op: "OperatorID (WDT s ! i) \<noteq> LC_OPER_CUSTOM" using assms(4) by auto
  show ?thesis
    using len op assms(6)
    by (simp add: LC_ProcessWP_def LC_GetSizedWPData_result [OF assms(5)] Let_def
        LC_OperatorCompare_integer_holds [OF assms(3,4)] wp_update_def wp_verdict_def wp_transition_def upd_at_def)
qed

theorem LC_ProcessWP_result_witness:
  "\<exists>s'. LC_ProcessWP lc_env_demo 0 (replicate 12 0 @ [101]) \<lparr>Seconds = 5, Subseconds = 0\<rparr> lc_demo = Some s' \<and>
        WatchResult (WRT s' ! 0) = LC_WATCH_TRUE"
proof -
  let ?w = "WDT lc_demo ! 0" and ?m = "replicate 12 0 @ [101] :: bytes"
  let ?d = "wp_decode (DataType ?w) ?m (unat (WatchpointOffset ?w)) AND BitMask ?w" and ?c = "ComparisonValue ?w"
  have w: "0 < (176 :: nat)" "DataType ?w \<in> {1, 2, 3, 4, 5, 6, 7, 8, 9, 10}" "OperatorID ?w \<in> {1, 2, 3, 4, 5, 6}"
    "NumOfDataBytes (DataType ?w) = Some 1" "unat (WatchpointOffset ?w) + unat (1 :: u32) \<le> length ?m"
    by (simp_all add: lc_demo_simps wp_demo_def NumOfDataBytes_def)
  obtain s' where s': "LC_ProcessWP lc_env_demo 0 ?m \<lparr>Seconds = 5, Subseconds = 0\<rparr> lc_demo = Some s'"
    "WatchResult (WRT s' ! 0) = (if cmp_holds (OperatorID ?w) (typed_value (DataType ?w) (ucast ?d) (ucast ?d) ?d)
       (typed_value (DataType ?w) (byte_at ?c 0) (rd16 (lc_host lc_env_demo) ?c 0) (rd32 (lc_host lc_env_demo) ?c 0))
      then LC_WATCH_TRUE else LC_WATCH_FALSE)"
    using LC_ProcessWP_result [OF lc_demo_wf w, of lc_env_demo "\<lparr>Seconds = 5, Subseconds = 0\<rparr>"]
    unfolding Let_def by blast
  have "cmp_holds (OperatorID ?w) (typed_value (DataType ?w) (ucast ?d) (ucast ?d) ?d)
       (typed_value (DataType ?w) (byte_at ?c 0) (rd16 (lc_host lc_env_demo) ?c 0) (rd32 (lc_host lc_env_demo) ?c 0))"
    by (simp add: lc_demo_simps wp_demo_def wp_decode_def typed_value_def cmp_holds_def byte_at_def nth_append)
  with s' show ?thesis by auto
qed

end
