(* ===== verification/Lc_Hash.thy ===== *)
theory Lc_Hash
  imports Lc_Watch
begin

text \<open>
  The hash table LC searches for the watchpoints of a message (\<open>lc_watch.c\<close>): an array of lists of
  message links, each with a list of watchpoint links, all links taken in order from two arrays. The
  loops that follow the links are partial functions: \<open>None\<close> is a list without end, or a link
  outside its array. The \<open>watch_index\<close> contract says what a table of watchpoints by message owes
  its user; it is interpreted on the hash table, and the optimised path of the table's construction
  is shown equal to the general one.
\<close>

section \<open>Operations\<close>

definition LC_GetHashTableIndex :: "u32 \<Rightarrow> nat" where
  "LC_GetHashTableIndex mid = unat (mid AND 0x00FF)"

definition ml_zero :: LC_MessageList where
  "ml_zero = \<lparr>ml_Next = None, ml_MessageID = 0, ml_WatchPtList = None\<rparr>"

definition wl_zero :: LC_WatchPtList where
  "wl_zero = \<lparr>wl_Next = None, wl_WatchIndex = 0\<rparr>"

text \<open>Find the link of a message id, or the last link of the list.\<close>

partial_function (option) find_link :: "LC_MessageList list \<Rightarrow> u32 \<Rightarrow> nat \<Rightarrow> (nat \<times> bool) option" where
  "find_link links mid i =
     (case nth_opt links i of None \<Rightarrow> None
      | Some l \<Rightarrow>
          if ml_MessageID l = mid then Some (i, True)
          else (case ml_Next l of None \<Rightarrow> Some (i, False) | Some j \<Rightarrow> find_link links mid j))"

partial_function (option) last_link :: "LC_WatchPtList list \<Rightarrow> nat \<Rightarrow> nat option" where
  "last_link links i =
     (case nth_opt links i of None \<Rightarrow> None
      | Some l \<Rightarrow> (case wl_Next l of None \<Rightarrow> Some i | Some j \<Rightarrow> last_link links j))"

definition sb_subscribe :: "lc_env \<Rightarrow> u32 \<Rightarrow> lc_state \<Rightarrow> lc_state" where
  "sb_subscribe env mid s =
     (let s = s\<lparr>sb_calls := sb_calls s @ [Subscribed mid]\<rparr>; Result = SubscribeStatus env mid
      in if Result \<noteq> 0 then evs LC_SUB_WP_ERR_EID CFE_EVS_EventType_ERROR [uint mid, Result] s else s)"

text \<open>First half of \<open>LC_AddWatchpoint\<close>: the link for the message id, subscribing if it is new.\<close>

definition message_link :: "lc_env \<Rightarrow> u32 \<Rightarrow> lc_state \<Rightarrow> (nat \<times> lc_state) option" where
  "message_link env mid s = do {
     let h = LC_GetHashTableIndex mid;
     let n = MessageIDsCount s;
     start \<leftarrow> nth_opt (HashTable s) h;
     (link, NeedSubscription, s) \<leftarrow>
       (case start of
          None \<Rightarrow> do {
            links \<leftarrow> upd_opt n (\<lambda>l. l\<lparr>ml_MessageID := mid\<rparr>) (MessageLinks s);
            Some (n, True, s\<lparr>MessageIDsCount := n + 1, HashTable := (HashTable s)[h := Some n],
                             MessageLinks := links\<rparr>)
          }
        | Some i \<Rightarrow> do {
            (e, found) \<leftarrow> find_link (MessageLinks s) mid i;
            if found then Some (e, False, s)
            else do {
              links \<leftarrow> upd_opt e (\<lambda>l. l\<lparr>ml_Next := Some n\<rparr>) (MessageLinks s);
              links \<leftarrow> upd_opt n (\<lambda>l. l\<lparr>ml_MessageID := mid\<rparr>) links;
              Some (n, True, s\<lparr>MessageIDsCount := n + 1, MessageLinks := links\<rparr>)
            }
          });
     Some (link, if NeedSubscription then sb_subscribe env mid s else s)
   }"

text \<open>Second half: a new watchpoint link at the end of the message's list.\<close>

definition watch_link :: "nat \<Rightarrow> lc_state \<Rightarrow> (nat \<times> lc_state) option" where
  "watch_link link s = do {
     let k = WatchpointCount s;
     l \<leftarrow> nth_opt (MessageLinks s) link;
     case ml_WatchPtList l of
       None \<Rightarrow> Some (k, s\<lparr>WatchpointCount := k + 1,
                        MessageLinks := upd_at link (\<lambda>l. l\<lparr>ml_WatchPtList := Some k\<rparr>) (MessageLinks s)\<rparr>)
     | Some i \<Rightarrow> do {
         e \<leftarrow> last_link (WatchPtLinks s) i;
         Some (k, s\<lparr>WatchpointCount := k + 1,
                    WatchPtLinks := upd_at e (\<lambda>l. l\<lparr>wl_Next := Some k\<rparr>) (WatchPtLinks s)\<rparr>)
       }
   }"

definition LC_AddWatchpoint :: "lc_env \<Rightarrow> u32 \<Rightarrow> lc_state \<Rightarrow> (nat \<times> lc_state) option" where
  "LC_AddWatchpoint env mid s = do {
     (link, s) \<leftarrow> message_link env mid s;
     watch_link link s
   }"

definition set_watch_index :: "nat \<Rightarrow> nat \<Rightarrow> lc_state \<Rightarrow> lc_state option" where
  "set_watch_index k i s = do {
     links \<leftarrow> upd_opt k (\<lambda>l. l\<lparr>wl_WatchIndex := i\<rparr>) (WatchPtLinks s);
     Some (s\<lparr>WatchPtLinks := links\<rparr>)
   }"

definition sb_unsubscribe :: "lc_env \<Rightarrow> lc_state \<Rightarrow> u32 \<Rightarrow> lc_state" where
  "sb_unsubscribe env s mid =
     (let s = s\<lparr>sb_calls := sb_calls s @ [Unsubscribed mid]\<rparr>; Result = UnsubscribeStatus env mid
      in if Result \<noteq> 0 then evs LC_UNSUB_WP_ERR_EID CFE_EVS_EventType_ERROR [uint mid, Result] s else s)"

text \<open>
  One round of the loop over the definition table; \<open>last\<close> holds \<open>LastMessageID\<close> and \<open>WatchPtLink\<close>.
  The first branch is the optimised path for a message id that repeats.
\<close>

definition hash_round ::
  "lc_env \<Rightarrow> nat \<Rightarrow> LC_WDTEntry \<Rightarrow> (u32 \<times> nat option) \<times> lc_state \<Rightarrow> ((u32 \<times> nat option) \<times> lc_state) option" where
  "hash_round env i w = (\<lambda>((LastMessageID, WatchPtLink), s).
     if DataType w \<noteq> LC_WATCH_NOT_USED
     then do {
       let mid = MessageID w;
       (k, s) \<leftarrow>
         (case WatchPtLink of
            Some e \<Rightarrow>
              (if LastMessageID = mid
               then do {
                 let k = WatchpointCount s;
                 links \<leftarrow> upd_opt e (\<lambda>l. l\<lparr>wl_Next := Some k\<rparr>) (WatchPtLinks s);
                 Some (k, s\<lparr>WatchpointCount := k + 1, WatchPtLinks := links\<rparr>)
               }
               else LC_AddWatchpoint env mid s)
          | None \<Rightarrow> LC_AddWatchpoint env mid s);
       s \<leftarrow> set_watch_index k i s;
       Some ((mid, Some k), s)
     }
     else Some ((LastMessageID, WatchPtLink), s))"

fun hash_loop ::
  "lc_env \<Rightarrow> nat \<Rightarrow> LC_WDTEntry list \<Rightarrow> (u32 \<times> nat option) \<times> lc_state \<Rightarrow> ((u32 \<times> nat option) \<times> lc_state) option" where
  "hash_loop env i [] st = Some st"
| "hash_loop env i (w # ws) st = Option.bind (hash_round env i w st) (hash_loop env (i + 1) ws)"

definition LC_CreateHashTable :: "lc_env \<Rightarrow> lc_state \<Rightarrow> lc_state option" where
  "LC_CreateHashTable env s = do {
     let s = foldl (sb_unsubscribe env) s (map ml_MessageID (take (MessageIDsCount s) (MessageLinks s)));
     let s = s\<lparr>HashTable := replicate 256 None, MessageLinks := replicate 176 ml_zero,
               WatchPtLinks := replicate 176 wl_zero, MessageIDsCount := 0, WatchpointCount := 0\<rparr>;
     (_, s) \<leftarrow> hash_loop env 0 (WDT s) ((0, None), s);
     Some s
   }"

section \<open>A message with watchpoints\<close>

partial_function (option) find_message :: "LC_MessageList list \<Rightarrow> u32 \<Rightarrow> nat option \<Rightarrow> nat option option" where
  "find_message links mid p =
     (case p of None \<Rightarrow> Some None
      | Some i \<Rightarrow> (case nth_opt links i of None \<Rightarrow> None
                   | Some l \<Rightarrow> if ml_MessageID l = mid then Some (Some i)
                              else find_message links mid (ml_Next l)))"

definition check_wp :: "lc_env \<Rightarrow> bytes \<Rightarrow> CFE_TIME_SysTime \<Rightarrow> nat \<Rightarrow> lc_state \<Rightarrow> lc_state option" where
  "check_wp env Buf ts i s = do {
     w \<leftarrow> nth_opt (WDT s) i;
     let (valid, s) = LC_WPOffsetValid i w Buf s;
     if valid then LC_ProcessWP env i Buf ts s else Some s
   }"

text \<open>The flag is \<open>WatchPtFound\<close>.\<close>

partial_function (option) check_list ::
  "lc_env \<Rightarrow> bytes \<Rightarrow> CFE_TIME_SysTime \<Rightarrow> nat option \<Rightarrow> bool \<Rightarrow> lc_state \<Rightarrow> (bool \<times> lc_state) option" where
  "check_list env Buf ts p found s =
     (case p of None \<Rightarrow> Some (found, s)
      | Some k \<Rightarrow> (case nth_opt (WatchPtLinks s) k of None \<Rightarrow> None
          | Some l \<Rightarrow> (case check_wp env Buf ts (wl_WatchIndex l) s of None \<Rightarrow> None
              | Some s' \<Rightarrow> check_list env Buf ts (wl_Next l) True s')))"

definition LC_CheckMsgForWPs :: "lc_env \<Rightarrow> u32 \<Rightarrow> bytes \<Rightarrow> lc_state \<Rightarrow> lc_state option" where
  "LC_CheckMsgForWPs env mid Buf s =
     (if CurrentLCState s \<noteq> LC_STATE_DISABLED
      then do {
        let ts = snd (CFE_MSG_GetMsgTime Buf);
        let ts = (if Seconds ts = 0 \<and> Subseconds ts = 0 then lc_now env else ts);
        start \<leftarrow> nth_opt (HashTable s) (LC_GetHashTableIndex mid);
        m \<leftarrow> find_message (MessageLinks s) mid start;
        (found, s) \<leftarrow>
          (case m of
             None \<Rightarrow> Some (False, s)
           | Some n \<Rightarrow> do {
               l \<leftarrow> nth_opt (MessageLinks s) n;
               check_list env Buf ts (ml_WatchPtList l) False s
             });
        Some (if found then s\<lparr>MonitoredMsgCount := MonitoredMsgCount s + 1\<rparr>
              else evs LC_MID_INF_EID CFE_EVS_EventType_INFORMATION [uint mid] s)
      }
      else Some s)"

section \<open>Lists held by links\<close>

fun chain :: "(nat \<Rightarrow> nat option) \<Rightarrow> nat option \<Rightarrow> nat list \<Rightarrow> bool" where
  "chain nxt p [] \<longleftrightarrow> p = None"
| "chain nxt p (x # xs) \<longleftrightarrow> p = Some x \<and> chain nxt (nxt x) xs"

lemma chain_cong: "\<forall>x\<in>set xs. nxt x = nxt' x \<Longrightarrow> chain nxt p xs = chain nxt' p xs"
  by (induction xs arbitrary: p) auto

lemma chain_extend:
  assumes "chain nxt p (xs @ [e])" and "nxt' e = Some j" and "nxt' j = None"
    and "\<forall>x\<in>set xs. nxt' x = nxt x"
  shows "chain nxt' p (xs @ [e, j])"
  using assms by (induction xs arbitrary: p) auto

lemma chain_start: "chain nxt p xs \<Longrightarrow> p = (case xs of [] \<Rightarrow> None | x # _ \<Rightarrow> Some x)"
  by (cases xs) auto

abbreviation ml_nxt :: "LC_MessageList list \<Rightarrow> nat \<Rightarrow> nat option" where
  "ml_nxt links i \<equiv> ml_Next (links ! i)"

abbreviation wl_nxt :: "LC_WatchPtList list \<Rightarrow> nat \<Rightarrow> nat option" where
  "wl_nxt links i \<equiv> wl_Next (links ! i)"

lemma last_link_chain:
  "\<lbrakk> chain (wl_nxt links) (Some i) (xs @ [e]); \<forall>x\<in>set (xs @ [e]). x < length links \<rbrakk> \<Longrightarrow>
   last_link links i = Some e"
proof (induction xs arbitrary: i)
  case Nil
  then show ?case by (subst last_link.simps) auto
next
  case (Cons x xs)
  then obtain j where "wl_nxt links x = Some j" by (cases xs) auto
  with Cons show ?case by (subst last_link.simps) auto
qed

lemma find_link_chain:
  "\<lbrakk> chain (ml_nxt links) (Some i) xs; \<forall>x\<in>set xs. x < length links \<rbrakk> \<Longrightarrow>
   find_link links mid i =
     (case find (\<lambda>k. ml_MessageID (links ! k) = mid) xs of
        Some k \<Rightarrow> Some (k, True) | None \<Rightarrow> Some (last xs, False))"
proof (induction xs arbitrary: i)
  case Nil
  then show ?case by simp
next
  case (Cons x xs)
  show ?case
  proof (cases xs)
    case Nil
    with Cons.prems show ?thesis by (subst find_link.simps) auto
  next
    case (Cons j ys)
    then have nx: "ml_nxt links x = Some j" using Cons.prems(1) by simp
    show ?thesis
      using Cons.prems Cons.IH [of j] nx Cons
      by (subst find_link.simps) (auto split: option.splits)
  qed
qed

lemma find_message_chain:
  "\<lbrakk> chain (ml_nxt links) p xs; \<forall>x\<in>set xs. x < length links \<rbrakk> \<Longrightarrow>
   find_message links mid p = Some (find (\<lambda>k. ml_MessageID (links ! k) = mid) xs)"
proof (induction xs arbitrary: p)
  case Nil
  then show ?case by (subst find_message.simps) simp
next
  case (Cons x xs)
  then show ?case by (subst find_message.simps) auto
qed

section \<open>Positions\<close>

text \<open>Where a value stands in a list, in increasing order.\<close>

definition posn :: "'a list \<Rightarrow> 'a \<Rightarrow> nat list" where
  "posn xs x = filter (\<lambda>i. xs ! i = x) [0..<length xs]"

lemma posn_Nil [simp]: "posn [] x = []"
  by (simp add: posn_def)

lemma posn_snoc: "posn (xs @ [y]) x = posn xs x @ (if y = x then [length xs] else [])"
proof -
  have "filter (\<lambda>i. (xs @ [y]) ! i = x) [0..<length xs] = filter (\<lambda>i. xs ! i = x) [0..<length xs]"
    by (rule filter_cong) (auto simp: nth_append)
  then show ?thesis by (simp add: posn_def)
qed

lemma posn_bound: "i \<in> set (posn xs x) \<longleftrightarrow> i < length xs \<and> xs ! i = x"
  by (auto simp: posn_def)

lemma posn_distinct [simp]: "distinct (posn xs x)"
  by (simp add: posn_def)

lemma posn_empty: "posn xs x = [] \<longleftrightarrow> x \<notin> set xs"
  by (auto simp: posn_def filter_empty_conv in_set_conv_nth)

text \<open>The distinct values of a list in the order of their first occurrence.\<close>

definition firsts :: "'a list \<Rightarrow> 'a list" where
  "firsts xs = rev (remdups (rev xs))"

lemma firsts_snoc: "firsts (xs @ [x]) = (if x \<in> set xs then firsts xs else firsts xs @ [x])"
  by (simp add: firsts_def)

lemma firsts_simps [simp]: "firsts [] = []" "set (firsts xs) = set xs" "distinct (firsts xs)"
  by (simp_all add: firsts_def)

lemma length_firsts: "length (firsts xs) \<le> length xs"
  using length_remdups_leq [of "rev xs"] by (simp add: firsts_def)

section \<open>The representation invariant\<close>

text \<open>
  \<open>M\<close> lists the message ids in the order of their links and \<open>A\<close> the watchpoints entered so far (id
  and table index) in the order of theirs. Every bucket holds the links of the ids that hash to it,
  every message link the watchpoint links of its id; the rest of the arrays is clear.
\<close>

definition hash_inv :: "u32 list \<Rightarrow> (u32 \<times> nat) list \<Rightarrow> lc_state \<Rightarrow> bool" where
  "hash_inv M A s \<longleftrightarrow>
     length (HashTable s) = 256 \<and> length (MessageLinks s) = 176 \<and> length (WatchPtLinks s) = 176 \<and>
     length M \<le> 176 \<and> length A \<le> 176 \<and> distinct M \<and> set (map fst A) \<subseteq> set M \<and>
     MessageIDsCount s = length M \<and> WatchpointCount s = length A \<and>
     (\<forall>h<256. chain (ml_nxt (MessageLinks s)) (HashTable s ! h) (posn (map LC_GetHashTableIndex M) h)) \<and>
     (\<forall>n<length M. ml_MessageID (MessageLinks s ! n) = M ! n \<and>
        chain (wl_nxt (WatchPtLinks s)) (ml_WatchPtList (MessageLinks s ! n)) (posn (map fst A) (M ! n))) \<and>
     (\<forall>n. length M \<le> n \<longrightarrow> n < 176 \<longrightarrow> MessageLinks s ! n = ml_zero) \<and>
     (\<forall>k<length A. wl_WatchIndex (WatchPtLinks s ! k) = snd (A ! k)) \<and>
     (\<forall>k. length A \<le> k \<longrightarrow> k < 176 \<longrightarrow> WatchPtLinks s ! k = wl_zero)"

lemma hash_index_bound: "LC_GetHashTableIndex mid < 256"
proof -
  have m: "(0xFF::u32) = mask 8" by (simp add: mask_eq_exp_minus_1)
  have "mid AND 0xFF = take_bit 8 mid" unfolding m by (simp add: take_bit_eq_mask)
  then show ?thesis
    using unat_take_bit_less [of 8 mid] by (simp add: LC_GetHashTableIndex_def)
qed

lemma hash_inv_ids:
  "hash_inv M A s \<Longrightarrow> k \<in> set (posn (map LC_GetHashTableIndex M) h) \<Longrightarrow>
   k < length M \<and> ml_MessageID (MessageLinks s ! k) = M ! k"
  by (simp add: posn_bound hash_inv_def)

lemma find_bucket_None:
  assumes "hash_inv M A s" and "mid \<notin> set M"
  shows "find (\<lambda>k. ml_MessageID (MessageLinks s ! k) = mid) (posn (map LC_GetHashTableIndex M) h) = None"
  using assms(2) hash_inv_ids [OF assms(1)] by (force simp: find_None_iff)

lemma find_bucket_Some:
  assumes inv: "hash_inv M A s" and n: "n < length M"
  shows "find (\<lambda>k. ml_MessageID (MessageLinks s ! k) = M ! n)
           (posn (map LC_GetHashTableIndex M) (LC_GetHashTableIndex (M ! n))) = Some n"
    (is "find ?P ?b = _")
proof -
  have "distinct M" using inv by (simp add: hash_inv_def)
  then have uniq: "k = n" if "k < length M" "M ! k = M ! n" for k
    using that n nth_eq_iff_index_eq by blast
  have "n \<in> set ?b" using n by (simp add: posn_bound)
  moreover have "?P n" using inv n by (simp add: hash_inv_def)
  ultimately have "find ?P ?b \<noteq> None"
    unfolding find_None_iff by blast
  then obtain k where k: "find ?P ?b = Some k" by blast
  then have kb: "k \<in> set ?b" and "?P k"
    unfolding find_Some_iff by auto
  then have "k < length M" and "M ! k = M ! n"
    using hash_inv_ids [OF inv kb] by auto
  with uniq have "k = n" by blast
  with k show ?thesis by simp
qed

text \<open>Looking a message id up: its link, if it has one.\<close>

lemma lookup_link:
  assumes "hash_inv M A s"
  shows "find_message (MessageLinks s) mid (HashTable s ! LC_GetHashTableIndex mid) =
    Some (find (\<lambda>k. ml_MessageID (MessageLinks s ! k) = mid)
      (posn (map LC_GetHashTableIndex M) (LC_GetHashTableIndex mid)))"
  using assms hash_inv_ids [OF assms] hash_index_bound [of mid]
  by (intro find_message_chain) (fastforce simp: hash_inv_def)+

section \<open>Adding a watchpoint\<close>

text \<open>What the construction may touch besides the links.\<close>

definition hash_frame :: "lc_state \<Rightarrow> lc_state \<Rightarrow> bool" where
  "hash_frame s s' \<longleftrightarrow> WDT s' = WDT s \<and> ADT s' = ADT s \<and> WRT s' = WRT s \<and> ART s' = ART s \<and>
     CurrentLCState s' = CurrentLCState s \<and> tx s' = tx s \<and> hk_tx s' = hk_tx s \<and>
     CmdCount s' = CmdCount s \<and> CmdErrCount s' = CmdErrCount s \<and> HkPacket s' = HkPacket s"

lemma hash_frame_refl [simp]: "hash_frame s s"
  by (simp add: hash_frame_def)

lemma hash_frame_trans: "\<lbrakk> hash_frame s s1; hash_frame s1 s2 \<rbrakk> \<Longrightarrow> hash_frame s s2"
  by (simp add: hash_frame_def)

lemma sb_subscribe_simps [simp]:
  "hash_inv M A (sb_subscribe env mid s) = hash_inv M A s"
  "hash_frame s0 (sb_subscribe env mid s) = hash_frame s0 s"
  "sb_calls (sb_subscribe env mid s) = sb_calls s @ [Subscribed mid]"
  by (simp_all add: sb_subscribe_def Let_def hash_inv_def hash_frame_def)

lemma hash_inv_new_message:
  assumes inv: "hash_inv M A s" and new: "mid \<notin> set M" and room: "length M < 176"
    and table: "length tbl = 256" and links: "length links = 176"
    and same: "\<forall>n<176. n \<noteq> length M \<longrightarrow>
        ml_MessageID (links ! n) = ml_MessageID (MessageLinks s ! n) \<and>
        ml_WatchPtList (links ! n) = ml_WatchPtList (MessageLinks s ! n)"
    and clear: "\<forall>n. length M < n \<longrightarrow> n < 176 \<longrightarrow> links ! n = ml_zero"
    and link: "links ! length M = ml_zero\<lparr>ml_MessageID := mid\<rparr>"
    and buckets: "\<forall>h<256. chain (ml_nxt links) (tbl ! h) (posn (map LC_GetHashTableIndex (M @ [mid])) h)"
  shows "hash_inv (M @ [mid]) A (s\<lparr>MessageIDsCount := length M + 1, HashTable := tbl, MessageLinks := links\<rparr>)"
proof -
  have "posn (map fst A) mid = []"
    using inv new by (auto simp: posn_empty hash_inv_def)
  then show ?thesis
    using inv new room table links same clear link buckets
    by (auto simp: hash_inv_def nth_append ml_zero_def less_Suc_eq)
qed

lemma message_link_known:
  assumes inv: "hash_inv M A s" and n: "n < length M" "M ! n = mid"
  shows "message_link env mid s = Some (n, s)"
proof -
  let ?h = "LC_GetHashTableIndex mid"
  let ?b = "posn (map LC_GetHashTableIndex M) ?h"
  have ch: "chain (ml_nxt (MessageLinks s)) (HashTable s ! ?h) ?b"
    and len: "?h < length (HashTable s)" "length (MessageLinks s) = 176" "length M \<le> 176"
    using inv hash_index_bound by (simp_all add: hash_inv_def)
  have found: "find (\<lambda>k. ml_MessageID (MessageLinks s ! k) = mid) ?b = Some n"
    using find_bucket_Some [OF inv n(1)] n(2) by simp
  then obtain x xs where b: "?b = x # xs" by (cases ?b) auto
  then have start: "HashTable s ! ?h = Some x" using ch by simp
  have "\<forall>k\<in>set ?b. k < length (MessageLinks s)"
    using hash_inv_ids [OF inv] len by fastforce
  with ch start have "find_link (MessageLinks s) mid x = Some (n, True)"
    using find_link_chain [of "MessageLinks s" x ?b mid] found by simp
  with len start show ?thesis by (simp add: message_link_def)
qed

lemma message_link_new:
  assumes inv: "hash_inv M A s" and new: "mid \<notin> set M" and room: "length M < 176"
  shows "\<exists>s'. message_link env mid s = Some (length M, s') \<and> hash_inv (M @ [mid]) A s' \<and>
              hash_frame s s' \<and> sb_calls s' = sb_calls s @ [Subscribed mid]"
proof -
  let ?h = "LC_GetHashTableIndex mid" and ?n = "length M"
  let ?b = "posn (map LC_GetHashTableIndex M) ?h" and ?L = "MessageLinks s"
  have ch: "\<forall>h<256. chain (ml_nxt ?L) (HashTable s ! h) (posn (map LC_GetHashTableIndex M) h)"
    and len: "length (HashTable s) = 256" "length ?L = 176" "MessageIDsCount s = ?n"
    and zero: "\<forall>n. ?n \<le> n \<longrightarrow> n < 176 \<longrightarrow> ?L ! n = ml_zero"
    using inv by (auto simp: hash_inv_def)
  have h: "?h < 256" by (rule hash_index_bound)
  have members: "k < ?n" if "k \<in> set (posn (map LC_GetHashTableIndex M) g)" for k g
    using hash_inv_ids [OF inv that] by simp
  show ?thesis
  proof (cases ?b rule: rev_cases)
    case Nil
    let ?links = "upd_at ?n (\<lambda>l. l\<lparr>ml_MessageID := mid\<rparr>) ?L"
    let ?tbl = "(HashTable s)[?h := Some ?n]"
    have start: "HashTable s ! ?h = None" using ch h Nil by auto
    have "\<forall>g<256. chain (ml_nxt ?links) (?tbl ! g) (posn (map LC_GetHashTableIndex (M @ [mid])) g)"
    proof (intro allI impI)
      fix g :: nat
      assume g: "g < 256"
      have "chain (ml_nxt ?links) (HashTable s ! g) (posn (map LC_GetHashTableIndex M) g)"
        using ch g members room len
        by (subst chain_cong [of _ _ "ml_nxt ?L"]) (auto simp: nth_upd_at_other)
      then show "chain (ml_nxt ?links) (?tbl ! g) (posn (map LC_GetHashTableIndex (M @ [mid])) g)"
        using Nil zero room len h by (auto simp: posn_snoc ml_zero_def)
    qed
    then have "hash_inv (M @ [mid]) A (s\<lparr>MessageIDsCount := ?n + 1, HashTable := ?tbl, MessageLinks := ?links\<rparr>)"
      using inv new room len zero by (intro hash_inv_new_message) auto
    moreover have "hash_frame s (s\<lparr>MessageIDsCount := ?n + 1, HashTable := ?tbl, MessageLinks := ?links\<rparr>)"
      by (simp add: hash_frame_def)
    ultimately show ?thesis
      using start len h room by (simp add: message_link_def Let_def)
  next
    case (snoc xs e)
    let ?links = "upd_at ?n (\<lambda>l. l\<lparr>ml_MessageID := mid\<rparr>) (upd_at e (\<lambda>l. l\<lparr>ml_Next := Some ?n\<rparr>) ?L)"
    have e: "e < ?n" using members [of e ?h] snoc by simp
    obtain x ys where "xs @ [e] = x # ys" by (cases xs) auto
    then have b: "?b = x # ys" using snoc by simp
    then have start: "HashTable s ! ?h = Some x" using ch h by auto
    have chb: "chain (ml_nxt ?L) (Some x) ?b" using ch h start by metis
    have "\<forall>k\<in>set ?b. k < length ?L" using members room len by fastforce
    then have walk: "find_link ?L mid x = Some (e, False)"
      using find_link_chain [OF chb, of mid] find_bucket_None [OF inv new, of ?h] snoc by simp
    have "\<forall>g<256. chain (ml_nxt ?links) (HashTable s ! g) (posn (map LC_GetHashTableIndex (M @ [mid])) g)"
    proof (intro allI impI)
      fix g :: nat
      assume g: "g < 256"
      show "chain (ml_nxt ?links) (HashTable s ! g) (posn (map LC_GetHashTableIndex (M @ [mid])) g)"
      proof (cases "g = ?h")
        case True
        have "x \<noteq> e \<and> x \<noteq> ?n" if "x \<in> set xs" for x
          using that members [of x ?h] snoc posn_distinct [of "map LC_GetHashTableIndex M" ?h] by auto
        then have "\<forall>x\<in>set xs. ml_nxt ?links x = ml_nxt ?L x"
          by (simp add: nth_upd_at_other)
        moreover have "ml_nxt ?links e = Some ?n" and "ml_nxt ?links ?n = None"
          using e room len zero by (simp_all add: ml_zero_def)
        moreover have "chain (ml_nxt ?L) (HashTable s ! ?h) (xs @ [e])"
          using chb start snoc by simp
        ultimately have "chain (ml_nxt ?links) (HashTable s ! ?h) (xs @ [e, ?n])"
          by (intro chain_extend [of "ml_nxt ?L"])
        then show ?thesis using True snoc by (simp add: posn_snoc)
      next
        case False
        have "e \<notin> set (posn (map LC_GetHashTableIndex M) g)"
          using snoc False by (metis in_set_conv_decomp posn_bound)
        then have "chain (ml_nxt ?links) (HashTable s ! g) (posn (map LC_GetHashTableIndex M) g)"
          using ch g members room len e
          by (subst chain_cong [of _ _ "ml_nxt ?L"]) (auto simp: nth_upd_at_other)
        then show ?thesis using False by (simp add: posn_snoc)
      qed
    qed
    then have "hash_inv (M @ [mid]) A (s\<lparr>MessageIDsCount := ?n + 1, HashTable := HashTable s, MessageLinks := ?links\<rparr>)"
      using inv new room len zero e by (intro hash_inv_new_message) (auto simp: nth_upd_at_other)
    moreover have "hash_frame s (s\<lparr>MessageIDsCount := ?n + 1, HashTable := HashTable s, MessageLinks := ?links\<rparr>)"
      by (simp add: hash_frame_def)
    ultimately show ?thesis
      using start len h room walk e by (simp add: message_link_def Let_def)
  qed
qed

lemma watch_link_inv:
  assumes inv: "hash_inv M A s" and n: "n < length M" "M ! n = mid" and room: "length A < 176"
  shows "\<exists>s'. watch_link n s = Some (length A, s') \<and> hash_inv M (A @ [(mid, 0)]) s' \<and>
              hash_frame s s' \<and> sb_calls s' = sb_calls s"
proof -
  let ?k = "length A" and ?p = "posn (map fst A) mid"
  let ?L = "MessageLinks s" and ?W = "WatchPtLinks s"
  have len: "length ?L = 176" "length ?W = 176" "length M \<le> 176" "WatchpointCount s = ?k" "distinct M"
    and sub: "set (map fst A) \<subseteq> set M"
    and zero: "\<forall>k. ?k \<le> k \<longrightarrow> k < 176 \<longrightarrow> ?W ! k = wl_zero"
    and chains: "\<forall>n<length M. ml_MessageID (?L ! n) = M ! n \<and>
      chain (wl_nxt ?W) (ml_WatchPtList (?L ! n)) (posn (map fst A) (M ! n))"
    using inv by (simp_all add: hash_inv_def)
  have other: "M ! m \<noteq> mid" if "m < length M" "m \<noteq> n" for m
    using that n len(5) nth_eq_iff_index_eq by metis
  have members: "k < ?k" if "k \<in> set (posn (map fst A) m)" for k m
    using that by (simp add: posn_bound)
  have nx: "wl_Next (?W ! ?k) = None" using zero room by (simp add: wl_zero_def)
  show ?thesis
  proof (cases ?p rule: rev_cases)
    case Nil
    let ?links = "upd_at n (\<lambda>l. l\<lparr>ml_WatchPtList := Some ?k\<rparr>) ?L"
    let ?s = "s\<lparr>WatchpointCount := ?k + 1, MessageLinks := ?links\<rparr>"
    have none: "ml_WatchPtList (?L ! n) = None" using chains n Nil by auto
    have "chain (wl_nxt ?W) (ml_WatchPtList (?links ! m)) (posn (map fst (A @ [(mid, 0)])) (M ! m)) \<and>
        ml_MessageID (?links ! m) = M ! m" if "m < length M" for m
      using chains that n len Nil nx other [OF that] by (cases "m = n") (auto simp: posn_snoc)
    moreover have "chain (ml_nxt ?links) p xs = chain (ml_nxt ?L) p xs" for p xs
      using n len by (intro chain_cong) auto
    ultimately have "hash_inv M (A @ [(mid, 0)]) ?s"
      using inv n len room zero by (auto simp: hash_inv_def nth_append less_Suc_eq wl_zero_def)
    then show ?thesis
      using none n len by (simp add: watch_link_def Let_def hash_frame_def)
  next
    case (snoc xs e)
    let ?links = "upd_at e (\<lambda>l. l\<lparr>wl_Next := Some ?k\<rparr>) ?W"
    let ?s = "s\<lparr>WatchpointCount := ?k + 1, WatchPtLinks := ?links\<rparr>"
    have e: "e < ?k" using members [of e mid] snoc by simp
    obtain x ys where b: "xs @ [e] = x # ys" by (cases xs) auto
    have apart: "\<forall>x\<in>set xs. x \<noteq> e"
      using snoc posn_distinct [of "map fst A" mid] by auto
    have ch: "chain (wl_nxt ?W) (ml_WatchPtList (?L ! n)) (xs @ [e])" using chains n snoc by auto
    then have start: "ml_WatchPtList (?L ! n) = Some x" using b by simp
    have walk: "last_link ?W x = Some e"
      using ch start members [of _ mid] room len snoc by (intro last_link_chain [of _ _ xs]) fastforce+
    have "chain (wl_nxt ?links) (ml_WatchPtList (?L ! m)) (posn (map fst (A @ [(mid, 0)])) (M ! m))"
      if m: "m < length M" for m
    proof (cases "m = n")
      case True
      have "\<forall>x\<in>set xs. wl_nxt ?links x = wl_nxt ?W x"
        using apart by (simp add: nth_upd_at_other)
      moreover have "wl_nxt ?links e = Some ?k" and "wl_nxt ?links ?k = None"
        using e room len(2) nx by simp_all
      ultimately have "chain (wl_nxt ?links) (ml_WatchPtList (?L ! n)) (xs @ [e, ?k])"
        using ch by (intro chain_extend [of "wl_nxt ?W"])
      then show ?thesis using True n snoc by (simp add: posn_snoc)
    next
      case False
      have "e \<notin> set (posn (map fst A) (M ! m))"
        using snoc other [OF m False] by (metis in_set_conv_decomp posn_bound)
      then have "\<forall>x\<in>set (posn (map fst A) (M ! m)). x \<noteq> e" by auto
      then have "chain (wl_nxt ?links) (ml_WatchPtList (?L ! m)) (posn (map fst A) (M ! m))"
        using chains m by (subst chain_cong [of _ _ "wl_nxt ?W"]) (auto simp: nth_upd_at_other)
      then show ?thesis using other [OF m False] by (simp add: posn_snoc)
    qed
    then have "hash_inv M (A @ [(mid, 0)]) ?s"
      using inv n len room zero e
      by (auto simp: hash_inv_def nth_append less_Suc_eq wl_zero_def nth_upd_at_other in_set_conv_nth)
    then show ?thesis
      using start n len walk by (simp add: watch_link_def Let_def hash_frame_def)
  qed
qed

lemma LC_AddWatchpoint_inv:
  assumes inv: "hash_inv (firsts (map fst A)) A s" and room: "length A < 176"
  shows "\<exists>s'. LC_AddWatchpoint env mid s = Some (length A, s') \<and>
     hash_inv (firsts (map fst A @ [mid])) (A @ [(mid, 0)]) s' \<and> hash_frame s s' \<and>
     sb_calls s' = sb_calls s @ (if mid \<in> set (map fst A) then [] else [Subscribed mid])"
proof (cases "mid \<in> set (map fst A)")
  case True
  then obtain n where n: "n < length (firsts (map fst A))" "firsts (map fst A) ! n = mid"
    by (metis firsts_simps(2) in_set_conv_nth)
  with watch_link_inv [OF inv n room] message_link_known [OF inv n, of env] True show ?thesis
    by (auto simp: LC_AddWatchpoint_def firsts_snoc)
next
  case False
  let ?M = "firsts (map fst A)"
  have "length ?M < 176" using length_firsts [of "map fst A"] room by simp
  then obtain s1 where s1: "message_link env mid s = Some (length ?M, s1)" "hash_inv (?M @ [mid]) A s1"
      "hash_frame s s1" "sb_calls s1 = sb_calls s @ [Subscribed mid]"
    using message_link_new [OF inv, of mid env] False by auto
  from watch_link_inv [OF s1(2) _ _ room, of "length ?M" mid]
  obtain s2 where "watch_link (length ?M) s1 = Some (length A, s2)"
      "hash_inv (?M @ [mid]) (A @ [(mid, 0)]) s2" "hash_frame s1 s2" "sb_calls s2 = sb_calls s1"
    by auto
  with s1 False show ?thesis
    by (auto simp: LC_AddWatchpoint_def firsts_snoc intro: hash_frame_trans)
qed

lemma set_watch_index_inv:
  assumes "hash_inv M (A @ [(mid, j)]) s"
  shows "\<exists>s'. set_watch_index (length A) i s = Some s' \<and> hash_inv M (A @ [(mid, i)]) s' \<and>
     hash_frame s s' \<and> sb_calls s' = sb_calls s"
proof -
  let ?k = "length A" and ?W = "WatchPtLinks s"
  let ?links = "upd_at ?k (\<lambda>l. l\<lparr>wl_WatchIndex := i\<rparr>) ?W"
  have k: "?k < length ?W" using assms by (simp add: hash_inv_def)
  have "wl_nxt ?links = wl_nxt ?W" using k by auto
  then have "hash_inv M (A @ [(mid, i)]) (s\<lparr>WatchPtLinks := ?links\<rparr>)"
    using assms k by (auto simp: hash_inv_def nth_append less_Suc_eq nth_upd_at_other)
  with k show ?thesis by (simp add: set_watch_index_def hash_frame_def)
qed

section \<open>A table of watchpoints by message\<close>

text \<open>
  \<open>holds A s\<close>: the table in \<open>s\<close> represents the watchpoints \<open>A\<close>, entered in that order. The laws say
  that a watchpoint can be added as long as there is room, and that looking a message up yields the
  watchpoints entered for it, in the order they were entered.
\<close>

locale watch_index =
  fixes add :: "u32 \<Rightarrow> nat \<Rightarrow> 's \<Rightarrow> 's option"
    and lookup :: "'s \<Rightarrow> u32 \<Rightarrow> nat list option"
    and holds :: "(u32 \<times> nat) list \<Rightarrow> 's \<Rightarrow> bool"
    and room :: nat
  assumes add_holds: "\<lbrakk> holds A s; length A < room \<rbrakk> \<Longrightarrow> \<exists>s'. add mid i s = Some s' \<and> holds (A @ [(mid, i)]) s'"
    and lookup_holds: "holds A s \<Longrightarrow> lookup s mid = Some (map snd (filter (\<lambda>p. fst p = mid) A))"
begin

primrec add_all :: "(u32 \<times> nat) list \<Rightarrow> 's \<Rightarrow> 's option" where
  "add_all [] s = Some s"
| "add_all (p # ps) s = Option.bind (add (fst p) (snd p) s) (add_all ps)"

lemma add_all_holds:
  "\<lbrakk> holds A s; length A + length ps \<le> room \<rbrakk> \<Longrightarrow> \<exists>s'. add_all ps s = Some s' \<and> holds (A @ ps) s'"
proof (induction ps arbitrary: A s)
  case (Cons p ps)
  then obtain s1 where "add (fst p) (snd p) s = Some s1" "holds (A @ [p]) s1"
    using add_holds [of A s "fst p" "snd p"] by auto
  with Cons.IH [of "A @ [p]" s1] Cons.prems show ?case by simp
qed simp

lemma lookup_after_add:
  "\<lbrakk> holds A s; length A < room; add mid i s = Some s'; lookup s mid' = Some is \<rbrakk> \<Longrightarrow>
   lookup s' mid' = Some (if mid' = mid then is @ [i] else is)"
  using add_holds [of A s mid i] lookup_holds [of A s mid'] lookup_holds [of "A @ [(mid, i)]" s' mid'] by auto

end

partial_function (option) collect :: "LC_WatchPtList list \<Rightarrow> nat option \<Rightarrow> nat list option" where
  "collect links p =
     (case p of None \<Rightarrow> Some []
      | Some k \<Rightarrow> (case nth_opt links k of None \<Rightarrow> None
          | Some l \<Rightarrow> Option.bind (collect links (wl_Next l)) (\<lambda>is. Some (wl_WatchIndex l # is))))"

text \<open>The watchpoints the links hold for a message id.\<close>

definition hash_lookup :: "lc_state \<Rightarrow> u32 \<Rightarrow> nat list option" where
  "hash_lookup s mid = do {
     start \<leftarrow> nth_opt (HashTable s) (LC_GetHashTableIndex mid);
     m \<leftarrow> find_message (MessageLinks s) mid start;
     case m of None \<Rightarrow> Some []
     | Some n \<Rightarrow> do {
         l \<leftarrow> nth_opt (MessageLinks s) n;
         collect (WatchPtLinks s) (ml_WatchPtList l)
       }
   }"

lemma collect_chain:
  "\<lbrakk> chain (wl_nxt links) p xs; \<forall>x\<in>set xs. x < length links \<rbrakk> \<Longrightarrow>
   collect links p = Some (map (\<lambda>k. wl_WatchIndex (links ! k)) xs)"
proof (induction xs arbitrary: p)
  case Nil
  then show ?case by (subst collect.simps) simp
next
  case (Cons x xs)
  then show ?case by (subst collect.simps) auto
qed

lemma posn_entries: "map (\<lambda>k. snd (A ! k)) (posn (map fst A) mid) = map snd (filter (\<lambda>p. fst p = mid) A)"
proof (induction A rule: rev_induct)
  case (snoc p A)
  have "map (\<lambda>k. snd ((A @ [p]) ! k)) (posn (map fst A) mid) = map (\<lambda>k. snd (A ! k)) (posn (map fst A) mid)"
    by (rule map_cong) (auto simp: posn_bound nth_append)
  with snoc show ?case by (simp add: posn_snoc)
qed simp

text \<open>Where a message's watchpoint links are, and what they hold.\<close>

lemma hash_inv_message:
  assumes inv: "hash_inv M A s"
  shows "find_message (MessageLinks s) mid (HashTable s ! LC_GetHashTableIndex mid) = Some None \<and>
           filter (\<lambda>p. fst p = mid) A = [] \<or>
         (\<exists>n xs. find_message (MessageLinks s) mid (HashTable s ! LC_GetHashTableIndex mid) = Some (Some n) \<and>
           n < length (MessageLinks s) \<and>
           chain (wl_nxt (WatchPtLinks s)) (ml_WatchPtList (MessageLinks s ! n)) xs \<and>
           (\<forall>x\<in>set xs. x < length (WatchPtLinks s)) \<and>
           map (\<lambda>k. wl_WatchIndex (WatchPtLinks s ! k)) xs = map snd (filter (\<lambda>p. fst p = mid) A))"
proof (cases "mid \<in> set M")
  case True
  then obtain n where n: "n < length M" "M ! n = mid" by (auto simp: in_set_conv_nth)
  let ?xs = "posn (map fst A) mid"
  have "map (\<lambda>k. wl_WatchIndex (WatchPtLinks s ! k)) ?xs = map (\<lambda>k. snd (A ! k)) ?xs"
    using inv by (intro map_cong) (auto simp: posn_bound hash_inv_def)
  then have "map (\<lambda>k. wl_WatchIndex (WatchPtLinks s ! k)) ?xs = map snd (filter (\<lambda>p. fst p = mid) A)"
    by (simp add: posn_entries)
  moreover have "find_message (MessageLinks s) mid (HashTable s ! LC_GetHashTableIndex mid) = Some (Some n)"
    using lookup_link [OF inv, of mid] find_bucket_Some [OF inv n(1)] n(2) by simp
  moreover have "n < length (MessageLinks s)"
      "chain (wl_nxt (WatchPtLinks s)) (ml_WatchPtList (MessageLinks s ! n)) ?xs"
      "\<forall>x\<in>set ?xs. x < length (WatchPtLinks s)"
    using inv n by (auto simp: hash_inv_def posn_bound)
  ultimately show ?thesis by blast
next
  case False
  then have "find_message (MessageLinks s) mid (HashTable s ! LC_GetHashTableIndex mid) = Some None"
    using lookup_link [OF inv, of mid] find_bucket_None [OF inv False] by simp
  moreover have "set (map fst A) \<subseteq> set M" using inv by (simp add: hash_inv_def)
  then have "filter (\<lambda>p. fst p = mid) A = []" using False by (auto simp: filter_empty_conv)
  ultimately show ?thesis by blast
qed

lemma hash_lookup_inv:
  assumes inv: "hash_inv M A s"
  shows "hash_lookup s mid = Some (map snd (filter (\<lambda>p. fst p = mid) A))"
proof -
  have h: "LC_GetHashTableIndex mid < length (HashTable s)"
    using inv hash_index_bound by (simp add: hash_inv_def)
  show ?thesis
    using hash_inv_message [OF inv, of mid] h
    by (elim disjE exE conjE) (simp_all add: hash_lookup_def collect_chain)
qed

definition hash_add :: "lc_env \<Rightarrow> u32 \<Rightarrow> nat \<Rightarrow> lc_state \<Rightarrow> lc_state option" where
  "hash_add env mid i s = do {
     (k, s) \<leftarrow> LC_AddWatchpoint env mid s;
     set_watch_index k i s
   }"

definition hash_holds :: "(u32 \<times> nat) list \<Rightarrow> lc_state \<Rightarrow> bool" where
  "hash_holds A s \<longleftrightarrow> hash_inv (firsts (map fst A)) A s"

lemma hash_add_inv:
  assumes "hash_holds A s" and "length A < 176"
  shows "\<exists>s'. hash_add env mid i s = Some s' \<and> hash_holds (A @ [(mid, i)]) s' \<and> hash_frame s s' \<and>
     sb_calls s' = sb_calls s @ (if mid \<in> set (map fst A) then [] else [Subscribed mid])"
proof -
  obtain s1 where s1: "LC_AddWatchpoint env mid s = Some (length A, s1)"
      "hash_inv (firsts (map fst A @ [mid])) (A @ [(mid, 0)]) s1" "hash_frame s s1"
      "sb_calls s1 = sb_calls s @ (if mid \<in> set (map fst A) then [] else [Subscribed mid])"
    using LC_AddWatchpoint_inv [of A s env mid] assms unfolding hash_holds_def by blast
  obtain s2 where s2: "set_watch_index (length A) i s1 = Some s2"
      "hash_inv (firsts (map fst A @ [mid])) (A @ [(mid, i)]) s2" "hash_frame s1 s2" "sb_calls s2 = sb_calls s1"
    using set_watch_index_inv [OF s1(2), of i] by blast
  have "hash_add env mid i s = Some s2" using s1(1) s2(1) by (simp add: hash_add_def)
  moreover have "hash_holds (A @ [(mid, i)]) s2" using s2(2) by (simp add: hash_holds_def)
  ultimately show ?thesis
    using s1(4) s2(4) hash_frame_trans [OF s1(3) s2(3)] by metis
qed

interpretation hash: watch_index "hash_add env" hash_lookup hash_holds 176 for env
  by unfold_locales (use hash_add_inv hash_lookup_inv in \<open>auto simp: hash_holds_def\<close>, blast)

section \<open>Construction of the table\<close>

text \<open>The optimised path of the construction does what the general path would do.\<close>

lemma LC_AddWatchpoint_repeat:
  assumes holds: "hash_holds (A @ [(mid, i)]) s"
  defines "k \<equiv> length A"
  shows "LC_AddWatchpoint env mid s =
     Some (Suc k, s\<lparr>WatchpointCount := Suc k + 1,
                    WatchPtLinks := upd_at k (\<lambda>l. l\<lparr>wl_Next := Some (Suc k)\<rparr>) (WatchPtLinks s)\<rparr>)"
proof -
  let ?A = "A @ [(mid, i)]" and ?M = "firsts (map fst (A @ [(mid, i)]))"
  have inv: "hash_inv ?M ?A s" using holds by (simp add: hash_holds_def)
  have "mid \<in> set ?M" by simp
  then obtain n where n: "n < length ?M" "?M ! n = mid" by (metis in_set_conv_nth)
  have posn: "posn (map fst ?A) mid = posn (map fst A) mid @ [k]"
    by (simp add: posn_snoc k_def)
  have ch: "chain (wl_nxt (WatchPtLinks s)) (ml_WatchPtList (MessageLinks s ! n)) (posn (map fst A) mid @ [k])"
    and len: "n < length (MessageLinks s)" "k < length (WatchPtLinks s)" "WatchpointCount s = Suc k"
    using inv n posn unfolding hash_inv_def by (auto simp: k_def)
  obtain x where x: "ml_WatchPtList (MessageLinks s ! n) = Some x"
    using ch by (cases "posn (map fst A) mid") auto
  have "\<forall>y\<in>set (posn (map fst A) mid @ [k]). y < length (WatchPtLinks s)"
    using len by (auto simp: posn_bound k_def)
  then have "last_link (WatchPtLinks s) x = Some k"
    using ch x by (intro last_link_chain) auto
  then show ?thesis
    using message_link_known [OF inv n, of env] len x
    by (simp add: LC_AddWatchpoint_def watch_link_def Let_def)
qed

text \<open>The loop's two locals after the watchpoints \<open>A\<close>.\<close>

definition hash_locals :: "(u32 \<times> nat) list \<Rightarrow> u32 \<times> nat option \<Rightarrow> bool" where
  "hash_locals A ml \<longleftrightarrow> (case snd ml of None \<Rightarrow> A = []
     | Some k \<Rightarrow> A \<noteq> [] \<and> k = length A - 1 \<and> fst ml = fst (last A))"

lemma hash_round_add:
  assumes "hash_holds A s" and "length A < 176" and "hash_locals A ml" and "DataType w \<noteq> LC_WATCH_NOT_USED"
  shows "hash_round env i w (ml, s) =
     Option.bind (hash_add env (MessageID w) i s) (\<lambda>s'. Some ((MessageID w, Some (length A)), s'))"
proof -
  obtain lastid link where ml: "ml = (lastid, link)" by fastforce
  obtain s1 where add: "LC_AddWatchpoint env (MessageID w) s = Some (length A, s1)"
    using LC_AddWatchpoint_inv [of A s env "MessageID w"] assms(1,2) by (auto simp: hash_holds_def)
  show ?thesis
  proof (cases "\<exists>e. link = Some e \<and> lastid = MessageID w")
    case True
    then obtain e A0 j where e: "link = Some e" "A = A0 @ [(MessageID w, j)]" "e = length A0"
      using assms(3) ml by (cases A rule: rev_cases) (auto simp: hash_locals_def)
    have "e < length (WatchPtLinks s)" "WatchpointCount s = length A"
      using assms(1) e unfolding hash_holds_def hash_inv_def by auto
    then show ?thesis
      using assms(4) e True ml LC_AddWatchpoint_repeat [of A0 "MessageID w" j s env] assms(1)
      by (simp add: hash_round_def hash_add_def)
  next
    case False
    then show ?thesis
      using assms(4) ml add by (auto simp: hash_round_def hash_add_def Let_def split: option.split)
  qed
qed

text \<open>
  A round of the construction adds the watchpoint exactly as the general routine does: the
  shortcut for a repeated message id gives the same links, counts and state as a search would.
\<close>

theorem LC_CreateHashTable_shortcut:
  assumes "hash_holds A s" and "length A < 176" and "hash_locals A ml" and "DataType w \<noteq> LC_WATCH_NOT_USED"
  shows "hash_round env i w (ml, s) =
     Option.bind (hash_add env (MessageID w) i s) (\<lambda>s'. Some ((MessageID w, Some (length A)), s'))"
  using assms by (rule hash_round_add)

text \<open>The watchpoints of a table, from index \<open>i\<close> on.\<close>

fun used_watchpoints :: "nat \<Rightarrow> LC_WDTEntry list \<Rightarrow> (u32 \<times> nat) list" where
  "used_watchpoints i [] = []"
| "used_watchpoints i (w # ws) =
     (if DataType w \<noteq> LC_WATCH_NOT_USED then [(MessageID w, i)] else []) @ used_watchpoints (i + 1) ws"

lemma length_used: "length (used_watchpoints i ws) \<le> length ws"
  by (induction ws arbitrary: i) (auto simp: le_SucI)

lemma hash_loop_inv:
  assumes "hash_holds A s" and "length A + length ws \<le> 176" and "hash_locals A ml"
    and "sb_calls s = calls @ map Subscribed (firsts (map fst A))"
  shows "\<exists>ml' s'. hash_loop env i ws (ml, s) = Some (ml', s') \<and> hash_holds (A @ used_watchpoints i ws) s' \<and>
     hash_frame s s' \<and> sb_calls s' = calls @ map Subscribed (firsts (map fst (A @ used_watchpoints i ws)))"
  using assms
proof (induction ws arbitrary: A s ml i)
  case Nil
  then show ?case by auto
next
  case (Cons w ws)
  show ?case
  proof (cases "DataType w = LC_WATCH_NOT_USED")
    case True
    then have "hash_round env i w (ml, s) = Some (ml, s)"
      by (cases ml) (simp add: hash_round_def)
    with True Cons.IH [of A s ml "i + 1"] Cons.prems show ?thesis by simp
  next
    case False
    let ?mid = "MessageID w"
    have room: "length A < 176" using Cons.prems(2) by simp
    obtain s1 where s1: "hash_add env ?mid i s = Some s1" "hash_holds (A @ [(?mid, i)]) s1" "hash_frame s s1"
        "sb_calls s1 = sb_calls s @ (if ?mid \<in> set (map fst A) then [] else [Subscribed ?mid])"
      using hash_add_inv [OF Cons.prems(1) room] by blast
    have round: "hash_round env i w (ml, s) = Some ((?mid, Some (length A)), s1)"
      using hash_round_add [OF Cons.prems(1) room Cons.prems(3) False, of env i] s1(1) by simp
    have locals: "hash_locals (A @ [(?mid, i)]) (?mid, Some (length A))"
      by (simp add: hash_locals_def)
    have "sb_calls s1 = calls @ map Subscribed (firsts (map fst (A @ [(?mid, i)])))"
      using s1(4) Cons.prems(4) by (simp add: firsts_snoc)
    from Cons.IH [OF s1(2) _ locals this, of "i + 1"] Cons.prems(2)
    obtain ml' s' where s': "hash_loop env (i + 1) ws ((?mid, Some (length A)), s1) = Some (ml', s')"
        "hash_holds ((A @ [(?mid, i)]) @ used_watchpoints (i + 1) ws) s'" "hash_frame s1 s'"
        "sb_calls s' = calls @ map Subscribed (firsts (map fst ((A @ [(?mid, i)]) @ used_watchpoints (i + 1) ws)))"
      by auto
    show ?thesis
      using round s' False hash_frame_trans [OF s1(3) s'(3)] by simp
  qed
qed

lemma sb_unsubscribe_simps [simp]:
  "hash_frame s0 (sb_unsubscribe env s mid) = hash_frame s0 s"
  "sb_calls (sb_unsubscribe env s mid) = sb_calls s @ [Unsubscribed mid]"
  by (simp_all add: sb_unsubscribe_def Let_def hash_frame_def)

lemma unsubscribe_all:
  "hash_frame s (foldl (sb_unsubscribe env) s mids)"
  "sb_calls (foldl (sb_unsubscribe env) s mids) = sb_calls s @ map Unsubscribed mids"
proof (induction mids rule: rev_induct)
  case (snoc m mids)
  { case 1 with snoc show ?case by simp }
  { case 2 with snoc show ?case by simp }
qed simp_all

lemma LC_CreateHashTable_ok:
  assumes "length (WDT s) = 176"
  defines "A \<equiv> used_watchpoints 0 (WDT s)"
  shows "\<exists>s'. LC_CreateHashTable env s = Some s' \<and> hash_holds A s' \<and> hash_frame s s' \<and>
     sb_calls s' = sb_calls s @ map Unsubscribed (map ml_MessageID (take (MessageIDsCount s) (MessageLinks s))) @
       map Subscribed (firsts (map fst A))"
proof -
  let ?old = "map ml_MessageID (take (MessageIDsCount s) (MessageLinks s))"
  define s1 where "s1 = foldl (sb_unsubscribe env) s ?old"
  define s2 where "s2 = s1\<lparr>HashTable := replicate 256 None, MessageLinks := replicate 176 ml_zero,
     WatchPtLinks := replicate 176 wl_zero, MessageIDsCount := 0, WatchpointCount := 0\<rparr>"
  have fr: "hash_frame s s2" and calls: "sb_calls s2 = sb_calls s @ map Unsubscribed ?old"
    using unsubscribe_all [where s = s and env = env and mids = ?old] by (simp_all add: s1_def s2_def hash_frame_def)
  have "hash_holds [] s2" by (simp add: hash_holds_def hash_inv_def s2_def)
  moreover have "hash_locals [] (0, None)" by (simp add: hash_locals_def)
  moreover have wdt: "WDT s2 = WDT s" using fr by (simp add: hash_frame_def)
  ultimately obtain ml' s' where "hash_loop env 0 (WDT s2) ((0, None), s2) = Some (ml', s')" "hash_holds A s'"
      "hash_frame s2 s'" "sb_calls s' = sb_calls s2 @ map Subscribed (firsts (map fst A))"
    using hash_loop_inv [of "[]" s2 "WDT s2" "(0, None)" "sb_calls s2" env 0] assms(1) by (auto simp: A_def)
  moreover have "LC_CreateHashTable env s =
      Option.bind (hash_loop env 0 (WDT s2) ((0, None), s2)) (\<lambda>(_, s). Some s)"
    by (simp add: LC_CreateHashTable_def s1_def s2_def Let_def)
  ultimately show ?thesis
    using hash_frame_trans [OF fr] calls by auto
qed

text \<open>The watchpoints of a message in table order, read off the definition table.\<close>

definition watchpoints_of :: "LC_WDTEntry list \<Rightarrow> u32 \<Rightarrow> nat list" where
  "watchpoints_of wdt mid =
     filter (\<lambda>i. DataType (wdt ! i) \<noteq> LC_WATCH_NOT_USED \<and> MessageID (wdt ! i) = mid) [0..<length wdt]"

lemma used_watchpoints_snoc:
  "used_watchpoints i (ws @ [w]) = used_watchpoints i ws @
     (if DataType w \<noteq> LC_WATCH_NOT_USED then [(MessageID w, i + length ws)] else [])"
  by (induction ws arbitrary: i) simp_all

lemma watchpoints_of_used:
  "map snd (filter (\<lambda>p. fst p = mid) (used_watchpoints 0 wdt)) = watchpoints_of wdt mid"
proof (induction wdt rule: rev_induct)
  case (snoc w ws)
  have "watchpoints_of (ws @ [w]) mid = watchpoints_of ws mid @
      (if DataType w \<noteq> LC_WATCH_NOT_USED \<and> MessageID w = mid then [length ws] else [])"
  proof -
    have "filter (\<lambda>i. DataType ((ws @ [w]) ! i) \<noteq> 255 \<and> MessageID ((ws @ [w]) ! i) = mid) [0..<length ws] =
        filter (\<lambda>i. DataType (ws ! i) \<noteq> 255 \<and> MessageID (ws ! i) = mid) [0..<length ws]"
      by (rule filter_cong) (auto simp: nth_append)
    then show ?thesis by (simp add: watchpoints_of_def)
  qed
  with snoc show ?case by (simp add: used_watchpoints_snoc)
qed (simp add: watchpoints_of_def)

text \<open>
  C20. The construction of the table ends, stays inside the link arrays, unsubscribes every message
  of the old table and subscribes each message of the new one once, and afterwards looking a message
  id up gives the used watchpoints on that message in table order.
\<close>

theorem LC_CreateHashTable_correct:
  assumes "length (WDT s) = 176"
  shows "\<exists>s'. LC_CreateHashTable env s = Some s' \<and>
     hash_lookup s' mid = Some (watchpoints_of (WDT s) mid) \<and> WDT s' = WDT s \<and>
     sb_calls s' = sb_calls s @ map Unsubscribed (map ml_MessageID (take (MessageIDsCount s) (MessageLinks s))) @
       map Subscribed (firsts (map fst (used_watchpoints 0 (WDT s))))"
  using LC_CreateHashTable_ok [OF assms, of env] hash.lookup_holds
  by (auto simp: watchpoints_of_used hash_frame_def)

theorem LC_CreateHashTable_correct_witness:
  "\<exists>s'. LC_CreateHashTable lc_env_demo lc_demo = Some s' \<and>
        hash_lookup s' 0x0801 = Some (watchpoints_of (WDT lc_demo) 0x0801)"
  using LC_CreateHashTable_correct [of lc_demo lc_env_demo "0x0801"] by (auto simp: lc_demo_def)

section \<open>Checking a message\<close>

fun check_each ::
  "lc_env \<Rightarrow> bytes \<Rightarrow> CFE_TIME_SysTime \<Rightarrow> nat list \<Rightarrow> lc_state \<Rightarrow> lc_state option" where
  "check_each env Buf ts [] s = Some s"
| "check_each env Buf ts (i # ks) s = Option.bind (check_wp env Buf ts i s) (check_each env Buf ts ks)"

text \<open>What checking a message may touch: watch results and the event log.\<close>

definition check_frame :: "lc_state \<Rightarrow> lc_state \<Rightarrow> bool" where
  "check_frame s s' \<longleftrightarrow> lc_tables_wf s' \<and> (\<exists>ws es. s' = s\<lparr>WRT := ws, events := events s @ es\<rparr>)"

lemma check_frame_refl: "lc_tables_wf s \<Longrightarrow> check_frame s s"
  unfolding check_frame_def by (intro conjI exI [of _ "WRT s"] exI [of _ "[]"]) simp_all

lemma check_frame_trans: "\<lbrakk> check_frame s s1; check_frame s1 s2 \<rbrakk> \<Longrightarrow> check_frame s s2"
  unfolding check_frame_def by fastforce

lemma wp_frame_check: "\<lbrakk> wp_frame i s s'; lc_tables_wf s \<rbrakk> \<Longrightarrow> check_frame s s'"
  using wp_frame_wf [of i s s'] by (auto simp: check_frame_def wp_frame_def)

lemma wdt_fits: "\<lbrakk> list_all wp_offset_fits (WDT s); lc_tables_wf s; i < 176 \<rbrakk> \<Longrightarrow> wp_offset_fits (WDT s ! i)"
  by (simp add: list_all_length lc_tables_wf_def wdt_wf_def)

lemma check_wp_ok:
  assumes wf: "lc_tables_wf s" and i: "i < 176" and fits: "wp_offset_fits (WDT s ! i)"
    and len: "CFE_MSG_GetSize m \<le> length m"
  shows "\<exists>s'. check_wp env m ts i s = Some s' \<and> check_frame s s'"
proof -
  obtain v s1 where v: "LC_WPOffsetValid i (WDT s ! i) m s = (v, s1)" by fastforce
  have f1: "wp_frame i s s1"
    using LC_WPOffsetValid_frame [OF wf i, of "WDT s ! i" m] v by simp
  have wf1: "lc_tables_wf s1" and wdt: "WDT s1 = WDT s"
    using wp_frame_wf [OF f1 wf] f1 by (auto simp: wp_frame_def)
  have nth: "nth_opt (WDT s) i = Some (WDT s ! i)"
    using wf i by (simp add: lc_tables_wf_def wdt_wf_def)
  show ?thesis
  proof (cases v)
    case False
    then show ?thesis
      using v nth wp_frame_check [OF f1 wf] by (simp add: check_wp_def)
  next
    case True
    then obtain n where n: "NumOfDataBytes (DataType (WDT s ! i)) = Some n"
        "unat (WatchpointOffset (WDT s ! i) + n) \<le> CFE_MSG_GetSize m"
      using LC_WPOffsetValid_iff [of i "WDT s ! i" m s] v by auto
    then have "unat (WatchpointOffset (WDT s1 ! i)) + unat n \<le> length m"
      using wp_offset_sum [OF fits n(1)] len wdt by simp
    then obtain s2 where "LC_ProcessWP env i m ts s1 = Some s2" "wp_frame i s1 s2"
      using LC_ProcessWP_ok [OF wf1 i, of n m env ts] n(1) wdt by auto
    then show ?thesis
      using v nth True wp_frame_check [OF wp_frame_trans [OF f1] wf] by (auto simp: check_wp_def)
  qed
qed

lemma check_each_ok:
  assumes "lc_tables_wf s" and "list_all (\<lambda>i. i < 176) ks" and "list_all wp_offset_fits (WDT s)"
    and len: "CFE_MSG_GetSize m \<le> length m"
  shows "\<exists>s'. check_each env m ts ks s = Some s' \<and> check_frame s s'"
  using assms(1-3)
proof (induction ks arbitrary: s)
  case Nil
  then show ?case by (simp add: check_frame_refl)
next
  case (Cons i ks)
  have "wp_offset_fits (WDT s ! i)"
    using Cons.prems by (simp add: wdt_fits)
  then obtain s1 where s1: "check_wp env m ts i s = Some s1" "check_frame s s1"
    using check_wp_ok [OF _ _ _ len, of s i env ts] Cons.prems by auto
  then have wdt: "WDT s1 = WDT s" and "lc_tables_wf s1"
    by (auto simp: check_frame_def)
  then obtain s2 where "check_each env m ts ks s1 = Some s2" "check_frame s1 s2"
    using Cons.IH [of s1] Cons.prems by auto
  with s1 check_frame_trans show ?case by auto
qed

lemma check_frame_links:
  assumes "check_frame s s'"
  shows "WatchPtLinks s' = WatchPtLinks s" "WDT s' = WDT s" "HashTable s' = HashTable s"
    "MessageLinks s' = MessageLinks s" "lc_tables_wf s'"
    "MonitoredMsgCount s' = MonitoredMsgCount s"
  using assms by (auto simp: check_frame_def)

lemma check_list_chain:
  assumes "chain (wl_nxt (WatchPtLinks s)) p xs" and "list_all (\<lambda>k. k < length (WatchPtLinks s)) xs"
    and "list_all (\<lambda>k. wl_WatchIndex (WatchPtLinks s ! k) < 176) xs"
    and "lc_tables_wf s" and "list_all wp_offset_fits (WDT s)" and len: "CFE_MSG_GetSize m \<le> length m"
  shows "check_list env m ts p found s =
     map_option (Pair (found \<or> xs \<noteq> [])) (check_each env m ts (map (\<lambda>k. wl_WatchIndex (WatchPtLinks s ! k)) xs) s)"
  using assms(1-5)
proof (induction xs arbitrary: p found s)
  case Nil
  then show ?case by (subst check_list.simps) simp
next
  case (Cons k xs)
  let ?l = "WatchPtLinks s ! k"
  have nth: "nth_opt (WatchPtLinks s) k = Some ?l" and p: "p = Some k"
    using Cons.prems by simp_all
  have "wp_offset_fits (WDT s ! wl_WatchIndex ?l)"
    using Cons.prems by (simp add: wdt_fits)
  then obtain s1 where s1: "check_wp env m ts (wl_WatchIndex ?l) s = Some s1" "check_frame s s1"
    using check_wp_ok [OF _ _ _ len, of s "wl_WatchIndex ?l" env ts] Cons.prems by auto
  note links = check_frame_links [OF s1(2)]
  have "check_list env m ts (wl_Next ?l) True s1 =
     map_option (Pair True) (check_each env m ts (map (\<lambda>k. wl_WatchIndex (WatchPtLinks s ! k)) xs) s1)"
    using Cons.IH [of s1 "wl_Next ?l" True] Cons.prems links by simp
  then show ?case
    using p nth s1(1) by (subst check_list.simps) simp
qed

definition message_time :: "lc_env \<Rightarrow> bytes \<Rightarrow> CFE_TIME_SysTime" where
  "message_time env Buf =
     (let ts = snd (CFE_MSG_GetMsgTime Buf)
      in if Seconds ts = 0 \<and> Subseconds ts = 0 then lc_now env else ts)"

definition hash_current :: "lc_state \<Rightarrow> bool" where
  "hash_current s \<longleftrightarrow> hash_holds (used_watchpoints 0 (WDT s)) s"

lemma watchpoints_of_bound: "length wdt = 176 \<Longrightarrow> list_all (\<lambda>i. i < 176) (watchpoints_of wdt mid)"
  by (simp add: watchpoints_of_def list_all_iff)

lemma CheckMsg_each:
  assumes cur: "hash_current s" and wf: "lc_tables_wf s" and fits: "list_all wp_offset_fits (WDT s)"
    and len: "CFE_MSG_GetSize m \<le> length m" and on: "CurrentLCState s \<noteq> LC_STATE_DISABLED"
  shows "LC_CheckMsgForWPs env mid m s =
     (case watchpoints_of (WDT s) mid of
        [] \<Rightarrow> Some (evs LC_MID_INF_EID CFE_EVS_EventType_INFORMATION [uint mid] s)
      | ks \<Rightarrow> map_option (\<lambda>s'. s'\<lparr>MonitoredMsgCount := MonitoredMsgCount s' + 1\<rparr>)
                (check_each env m (message_time env m) ks s))"
proof -
  let ?A = "used_watchpoints 0 (WDT s)"
  let ?ks = "watchpoints_of (WDT s) mid"
  let ?b = "HashTable s ! LC_GetHashTableIndex mid"
  have inv: "hash_inv (firsts (map fst ?A)) ?A s"
    using cur by (simp add: hash_current_def hash_holds_def)
  have b: "nth_opt (HashTable s) (LC_GetHashTableIndex mid) = Some ?b"
    using inv hash_index_bound by (simp add: hash_inv_def)
  have len176: "length (WDT s) = 176" using wf by (simp add: lc_tables_wf_def wdt_wf_def)
  have "find_message (MessageLinks s) mid ?b = Some None \<and> ?ks = [] \<or>
     (\<exists>n xs. find_message (MessageLinks s) mid ?b = Some (Some n) \<and> n < length (MessageLinks s) \<and>
        chain (wl_nxt (WatchPtLinks s)) (ml_WatchPtList (MessageLinks s ! n)) xs \<and>
        (\<forall>x\<in>set xs. x < length (WatchPtLinks s)) \<and>
        map (\<lambda>k. wl_WatchIndex (WatchPtLinks s ! k)) xs = ?ks)"
    using hash_inv_message [OF inv, of mid] unfolding watchpoints_of_used [symmetric] by auto
  then show ?thesis
  proof (elim disjE exE conjE)
    assume "find_message (MessageLinks s) mid ?b = Some None" "?ks = []"
    then show ?thesis using on b by (simp add: LC_CheckMsgForWPs_def Let_def)
  next
    fix n xs
    assume n: "find_message (MessageLinks s) mid ?b = Some (Some n)" "n < length (MessageLinks s)"
      and xs: "chain (wl_nxt (WatchPtLinks s)) (ml_WatchPtList (MessageLinks s ! n)) xs"
        "\<forall>x\<in>set xs. x < length (WatchPtLinks s)"
      and ks: "map (\<lambda>k. wl_WatchIndex (WatchPtLinks s ! k)) xs = ?ks"
    have "list_all (\<lambda>i. i < 176) (map (\<lambda>k. wl_WatchIndex (WatchPtLinks s ! k)) xs)"
      using watchpoints_of_bound [OF len176, of mid] ks by simp
    then have "list_all (\<lambda>k. wl_WatchIndex (WatchPtLinks s ! k) < 176) xs" by (simp add: list_all_iff)
    then have "check_list env m (message_time env m) (ml_WatchPtList (MessageLinks s ! n)) False s =
        map_option (Pair (xs \<noteq> [])) (check_each env m (message_time env m) ?ks s)"
      using check_list_chain [OF xs(1) _ _ wf fits len, of env "message_time env m" False] xs(2) ks
      by (simp add: list_all_iff)
    moreover have "LC_CheckMsgForWPs env mid m s =
        Option.bind (check_list env m (message_time env m) (ml_WatchPtList (MessageLinks s ! n)) False s)
          (\<lambda>(found, s). Some (if found then s\<lparr>MonitoredMsgCount := MonitoredMsgCount s + 1\<rparr>
             else evs LC_MID_INF_EID CFE_EVS_EventType_INFORMATION [uint mid] s))"
      using on b n by (simp add: LC_CheckMsgForWPs_def message_time_def Let_def)
    moreover have "xs = [] \<longleftrightarrow> ?ks = []" using ks by (metis map_is_Nil_conv)
    ultimately show ?thesis
      by (cases "check_each env m (message_time env m) ?ks s")
        (auto split: list.split)
  qed
qed

text \<open>What checking keeps besides: the links, so that the table stays current.\<close>

lemma hash_holds_cong:
  "\<lbrakk> HashTable s' = HashTable s; MessageLinks s' = MessageLinks s; WatchPtLinks s' = WatchPtLinks s;
     MessageIDsCount s' = MessageIDsCount s; WatchpointCount s' = WatchpointCount s \<rbrakk> \<Longrightarrow>
   hash_holds A s' = hash_holds A s"
  by (simp add: hash_holds_def hash_inv_def)

lemma hash_current_cong:
  "\<lbrakk> WDT s' = WDT s; HashTable s' = HashTable s; MessageLinks s' = MessageLinks s;
     WatchPtLinks s' = WatchPtLinks s; MessageIDsCount s' = MessageIDsCount s;
     WatchpointCount s' = WatchpointCount s \<rbrakk> \<Longrightarrow> hash_current s' = hash_current s"
  using hash_holds_cong [of s' s] by (simp add: hash_current_def)

text \<open>What checking a message may touch: the frame above and the count of monitored messages.\<close>

definition msg_frame :: "lc_state \<Rightarrow> lc_state \<Rightarrow> bool" where
  "msg_frame s s' \<longleftrightarrow> lc_tables_wf s' \<and>
     (\<exists>ws es n. s' = s\<lparr>WRT := ws, events := events s @ es, MonitoredMsgCount := n\<rparr>)"

lemma CheckMsg_ok:
  assumes cur: "hash_current s" and wf: "lc_tables_wf s" and fits: "list_all wp_offset_fits (WDT s)"
    and len: "CFE_MSG_GetSize m \<le> length m"
  shows "\<exists>s'. LC_CheckMsgForWPs env mid m s = Some s' \<and> msg_frame s s'"
proof (cases "CurrentLCState s = LC_STATE_DISABLED")
  case True
  then have "LC_CheckMsgForWPs env mid m s = Some s" by (simp add: LC_CheckMsgForWPs_def)
  moreover have "msg_frame s s"
    unfolding msg_frame_def using wf
    by (intro conjI exI [of _ "WRT s"] exI [of _ "[]"] exI [of _ "MonitoredMsgCount s"]) simp_all
  ultimately show ?thesis by blast
next
  case False
  let ?ks = "watchpoints_of (WDT s) mid"
  have "length (WDT s) = 176" using wf by (simp add: lc_tables_wf_def wdt_wf_def)
  then obtain s' where s': "check_each env m (message_time env m) ?ks s = Some s'" "check_frame s s'"
    using check_each_ok [OF wf watchpoints_of_bound fits len] by blast
  have "msg_frame s (evs LC_MID_INF_EID CFE_EVS_EventType_INFORMATION [uint mid] s)"
    unfolding msg_frame_def evs_def
    by (intro conjI exI [of _ "WRT s"] exI [of _ "[_]"] exI [of _ "MonitoredMsgCount s"])
      (use wf in \<open>simp_all add: lc_tables_wf_def\<close>)
  moreover have "msg_frame s (s'\<lparr>MonitoredMsgCount := MonitoredMsgCount s' + 1\<rparr>)"
  proof -
    obtain ws es where s'_eq: "s' = s\<lparr>WRT := ws, events := events s @ es\<rparr>" and wf': "lc_tables_wf s'"
      using s'(2) unfolding check_frame_def by blast
    show ?thesis
      unfolding msg_frame_def
      by (intro conjI exI [of _ ws] exI [of _ es] exI [of _ "MonitoredMsgCount s' + 1"])
        (use wf' in \<open>simp_all add: lc_tables_wf_def s'_eq\<close>)
  qed
  ultimately show ?thesis
    using CheckMsg_each [OF cur wf fits len False, of env mid] s'(1) by (cases ?ks) auto
qed

text \<open>
  C14. On a message the limit checker processes exactly the used watchpoints on its message id, each
  once and in table order, whatever the shape of the hash table's links; a message without
  watchpoints is only reported, and one with watchpoints is counted.
\<close>

theorem LC_CheckMsgForWPs_each:
  assumes "hash_current s" and "lc_tables_wf s" and "list_all wp_offset_fits (WDT s)"
    and "CFE_MSG_GetSize m \<le> length m" and "CurrentLCState s \<noteq> LC_STATE_DISABLED"
  shows "LC_CheckMsgForWPs env mid m s =
     (case watchpoints_of (WDT s) mid of
        [] \<Rightarrow> Some (evs LC_MID_INF_EID CFE_EVS_EventType_INFORMATION [uint mid] s)
      | ks \<Rightarrow> map_option (\<lambda>s'. s'\<lparr>MonitoredMsgCount := MonitoredMsgCount s' + 1\<rparr>)
                (check_each env m (message_time env m) ks s))"
  using assms by (rule CheckMsg_each)

text \<open>A table for the small configuration, with its current hash table.\<close>

definition lc_demo_hashed :: lc_state where
  "lc_demo_hashed = the (LC_CreateHashTable lc_env_demo lc_demo)"

lemma lc_demo_hashed: "LC_CreateHashTable lc_env_demo lc_demo = Some lc_demo_hashed"
  "hash_current lc_demo_hashed" "hash_frame lc_demo lc_demo_hashed"
proof -
  have "length (WDT lc_demo) = 176" by (simp add: lc_demo_def)
  from LC_CreateHashTable_ok [OF this, of lc_env_demo]
  obtain s' where s': "LC_CreateHashTable lc_env_demo lc_demo = Some s'"
      "hash_holds (used_watchpoints 0 (WDT lc_demo)) s'" "hash_frame lc_demo s'"
    by auto
  moreover have "s' = lc_demo_hashed" using s'(1) by (simp add: lc_demo_hashed_def)
  ultimately show "LC_CreateHashTable lc_env_demo lc_demo = Some lc_demo_hashed"
    "hash_current lc_demo_hashed" "hash_frame lc_demo lc_demo_hashed"
    by (auto simp: hash_current_def hash_frame_def)
qed

lemma hash_frame_wf: "hash_frame s s' \<Longrightarrow> lc_tables_wf s' = lc_tables_wf s"
  by (simp add: hash_frame_def lc_tables_wf_def)

lemma lc_demo_fits: "list_all wp_offset_fits (WDT lc_demo)"
  by (simp add: lc_demo_def list_all_iff wp_offset_fits_def demo_defs)

definition tlm_demo :: bytes where
  "tlm_demo = [0x08, 0x01, 0xC0, 0, 0, 9, 0, 0, 0, 0, 0, 0, 120, 0, 0, 0]"

theorem LC_CheckMsgForWPs_each_witness:
  "LC_CheckMsgForWPs lc_env_demo 0x0801 tlm_demo lc_demo_hashed =
     map_option (\<lambda>s'. s'\<lparr>MonitoredMsgCount := MonitoredMsgCount s' + 1\<rparr>)
       (check_each lc_env_demo tlm_demo (message_time lc_env_demo tlm_demo) [0]
         lc_demo_hashed)"
proof -
  have fr: "WDT lc_demo_hashed = WDT lc_demo" "CurrentLCState lc_demo_hashed = LC_STATE_ACTIVE"
    using lc_demo_hashed(3) by (simp_all add: hash_frame_def lc_demo_def)
  have "watchpoints_of (WDT lc_demo) 0x0801 = [0]"
  proof -
    have "[0..<176] = 0 # [1..<176::nat]" by (simp add: upt_conv_Cons)
    then show ?thesis
      by (auto simp: watchpoints_of_def lc_demo_def demo_defs nth_Cons' filter_empty_conv)
  qed
  moreover have "CFE_MSG_GetSize tlm_demo \<le> length tlm_demo"
    by code_simp
  ultimately show ?thesis
    using LC_CheckMsgForWPs_each [of lc_demo_hashed tlm_demo lc_env_demo "0x0801"]
      lc_demo_hashed hash_frame_wf [of lc_demo lc_demo_hashed] lc_demo_wf lc_demo_fits fr
    by simp
qed

theorem LC_CreateHashTable_shortcut_witness:
  "\<exists>s. LC_CreateHashTable lc_env_demo lc_demo = Some s \<and>
       hash_round lc_env_demo 1 wp_demo ((0x0801, Some 0), s) =
       Option.bind (hash_add lc_env_demo 0x0801 1 s) (\<lambda>s'. Some ((0x0801, Some 1), s'))"
proof -
  have "used_watchpoints 0 (WDT lc_demo) = [(0x0801, 0)]"
  proof -
    have "used_watchpoints i (replicate n wp_unused) = []" for i n
      by (induction n arbitrary: i) (simp_all add: wp_unused_def)
    then show ?thesis by (simp add: lc_demo_def wp_demo_def)
  qed
  then have "hash_holds [(0x0801, 0)] lc_demo_hashed"
    using lc_demo_hashed(2,3) by (simp add: hash_current_def hash_frame_def)
  then show ?thesis
    using LC_CreateHashTable_shortcut [of "[(0x0801, 0)]" lc_demo_hashed "(0x0801, Some 0)" wp_demo lc_env_demo 1]
      lc_demo_hashed(1)
    by (simp add: hash_locals_def wp_demo_def)
qed

end
