(* ===== verification/Lc_Cmds.thy ===== *)
theory Lc_Cmds
  imports Lc_Action Lc_Hash
begin

text \<open>
  The message handler of the limit checker: the dispatch on message id and command code, the ground
  commands, the sample request with the ageing of watch results, the housekeeping request with its
  bit-packed results, and the table and data-store maintenance that follows it (\<open>lc_cmds.c\<close>,
  \<open>lc_utils.c\<close>). The handler's contract \<open>app_handler\<close> is interpreted on \<open>LC_AppPipe\<close>.
\<close>

section \<open>Constants\<close>

abbreviation (input) LC_CMD_MID :: u32 where "LC_CMD_MID \<equiv> 0x18A4"
abbreviation (input) LC_SEND_HK_MID :: u32 where "LC_SEND_HK_MID \<equiv> 0x18A5"
abbreviation (input) LC_SAMPLE_AP_MID :: u32 where "LC_SAMPLE_AP_MID \<equiv> 0x18A6"

abbreviation (input) LC_NOOP_CC :: u16 where "LC_NOOP_CC \<equiv> 0"
abbreviation (input) LC_RESET_CC :: u16 where "LC_RESET_CC \<equiv> 1"
abbreviation (input) LC_SET_LC_STATE_CC :: u16 where "LC_SET_LC_STATE_CC \<equiv> 2"
abbreviation (input) LC_SET_AP_STATE_CC :: u16 where "LC_SET_AP_STATE_CC \<equiv> 3"
abbreviation (input) LC_SET_AP_PERMOFF_CC :: u16 where "LC_SET_AP_PERMOFF_CC \<equiv> 4"
abbreviation (input) LC_RESET_AP_STATS_CC :: u16 where "LC_RESET_AP_STATS_CC \<equiv> 5"
abbreviation (input) LC_RESET_WP_STATS_CC :: u16 where "LC_RESET_WP_STATS_CC \<equiv> 6"

abbreviation (input) LC_CDS_SAVED :: u16 where "LC_CDS_SAVED \<equiv> 0xF0F0"

section \<open>Message length\<close>

definition cmd_ok :: "lc_state \<Rightarrow> lc_state" where
  "cmd_ok s = s\<lparr>CmdCount := CmdCount s + 1\<rparr>"

definition cmd_err :: "lc_state \<Rightarrow> lc_state" where
  "cmd_err s = s\<lparr>CmdErrCount := CmdErrCount s + 1\<rparr>"

definition LC_VerifyMsgLength :: "bytes \<Rightarrow> nat \<Rightarrow> lc_state \<Rightarrow> bool \<times> lc_state" where
  "LC_VerifyMsgLength m ExpectedLength s =
     (let ActualLength = CFE_MSG_GetSize m
      in if ExpectedLength \<noteq> ActualLength
         then (let mid = CFE_MSG_GetMsgId m; CommandCode = snd (CFE_MSG_GetFcnCode m);
                   args = [uint mid, uint CommandCode, int ActualLength, int ExpectedLength]
               in (False,
                   if mid = LC_SEND_HK_MID then evs LC_HKREQ_LEN_ERR_EID CFE_EVS_EventType_ERROR args s
                   else if mid = LC_SAMPLE_AP_MID
                   then evs LC_APSAMPLE_LEN_ERR_EID CFE_EVS_EventType_ERROR args s
                   else cmd_err (evs LC_LEN_ERR_EID CFE_EVS_EventType_ERROR args s)))
         else (True, s))"

section \<open>Sample request\<close>

text \<open>One round of the ageing loop.\<close>

definition age_wp :: "LC_WRTEntry \<Rightarrow> LC_WRTEntry" where
  "age_wp w =
     (if CountdownToStale w \<noteq> 0
      then (let w = w\<lparr>CountdownToStale := CountdownToStale w - 1\<rparr>
            in if CountdownToStale w = 0 then w\<lparr>WatchResult := LC_WATCH_STALE\<rparr> else w)
      else w)"

definition age_round :: "nat \<Rightarrow> lc_state \<Rightarrow> lc_state option" where
  "age_round WatchIndex s = map_option (\<lambda>t. s\<lparr>WRT := t\<rparr>) (upd_opt WatchIndex age_wp (WRT s))"

definition LC_SampleAPReq :: "lc_env \<Rightarrow> bytes \<Rightarrow> lc_state \<Rightarrow> lc_state option" where
  "LC_SampleAPReq env m s =
     (let (ok, s) = LC_VerifyMsgLength m 16 s;
          StartIndex = rd16 (lc_host env) m 8;
          EndIndex = rd16 (lc_host env) m 10;
          UpdateAge = rd16 (lc_host env) m 12
      in if ok \<and> CurrentLCState s \<noteq> LC_STATE_DISABLED
         then do {
           (ValidSampleCmd, s) \<leftarrow>
             (if StartIndex = LC_ALL_ACTIONPOINTS \<and> EndIndex = LC_ALL_ACTIONPOINTS
              then map_option (Pair True) (LC_SampleAPs env 0 (LC_MAX_ACTIONPOINTS - 1) s)
              else if StartIndex \<le> EndIndex \<and> unat EndIndex < LC_MAX_ACTIONPOINTS
              then map_option (Pair True) (LC_SampleAPs env (unat StartIndex) (unat EndIndex) s)
              else Some (False, evs LC_APSAMPLE_APNUM_ERR_EID CFE_EVS_EventType_ERROR
                                  [uint StartIndex, uint EndIndex] s));
           if UpdateAge \<noteq> 0 \<and> ValidSampleCmd then for_loop 0 LC_MAX_WATCHPOINTS age_round s else Some s
         }
         else Some s)"

section \<open>Housekeeping\<close>

definition hkwr :: "u8 \<Rightarrow> u8" where
  "hkwr r = (if r = LC_WATCH_STALE then 3 else if r = LC_WATCH_FALSE then 0
             else if r = LC_WATCH_TRUE then 1 else 2)"

definition hkar_state :: "u8 \<Rightarrow> u8" where
  "hkar_state c = (if c = LC_ACTION_NOT_USED then 0 else if c = LC_APSTATE_ACTIVE then 1
                   else if c = LC_APSTATE_PASSIVE then 2 else if c = LC_APSTATE_DISABLED then 3 else 0)"

definition hkar :: "u8 \<Rightarrow> u8" where
  "hkar r = (if r = LC_ACTION_STALE then 3 else if r = LC_ACTION_PASS then 0
             else if r = LC_ACTION_FAIL then 1 else 2)"

definition upd_hk :: "(LC_HkPacket \<Rightarrow> LC_HkPacket) \<Rightarrow> lc_state \<Rightarrow> lc_state" where
  "upd_hk f s = s\<lparr>HkPacket := f (HkPacket s)\<rparr>"

text \<open>The two packing loops, by \<open>HKIndex\<close>.\<close>

definition hk_wp_round :: "nat \<Rightarrow> lc_state \<Rightarrow> lc_state option" where
  "hk_wp_round HKIndex s = do {
     let TableIndex = 4 * HKIndex;
     w3 \<leftarrow> nth_opt (WRT s) (TableIndex + 3);
     let ByteData = push_bit 6 (hkwr (WatchResult w3));
     w2 \<leftarrow> nth_opt (WRT s) (TableIndex + 2);
     let ByteData = ByteData OR push_bit 4 (hkwr (WatchResult w2));
     w1 \<leftarrow> nth_opt (WRT s) (TableIndex + 1);
     let ByteData = ByteData OR push_bit 2 (hkwr (WatchResult w1));
     w0 \<leftarrow> nth_opt (WRT s) TableIndex;
     let ByteData = ByteData OR hkwr (WatchResult w0);
     r \<leftarrow> upd_opt HKIndex (\<lambda>_. ByteData) (hk_WPResults (HkPacket s));
     Some (upd_hk (hk_WPResults_update (\<lambda>_. r)) s)
   }"

definition count_active :: "u8 \<Rightarrow> u16 \<Rightarrow> u16" where
  "count_active c n = (if c = LC_APSTATE_ACTIVE then n + 1 else n)"

definition hk_ap_round :: "nat \<Rightarrow> lc_state \<Rightarrow> lc_state option" where
  "hk_ap_round HKIndex s = do {
     let TableIndex = 2 * HKIndex;
     a1 \<leftarrow> nth_opt (ART s) (TableIndex + 1);
     let n = count_active (CurrentState a1) (hk_ActiveAPs (HkPacket s));
     let ByteData = push_bit 6 (hkar_state (CurrentState a1)) OR push_bit 4 (hkar (ActionResult a1));
     a0 \<leftarrow> nth_opt (ART s) TableIndex;
     let n = count_active (CurrentState a0) n;
     let ByteData = ByteData OR push_bit 2 (hkar_state (CurrentState a0)) OR hkar (ActionResult a0);
     r \<leftarrow> upd_opt HKIndex (\<lambda>_. ByteData) (hk_APResults (HkPacket s));
     Some (upd_hk (\<lambda>hk. hk\<lparr>hk_ActiveAPs := n, hk_APResults := r\<rparr>) s)
   }"

definition hk_counters :: "lc_state \<Rightarrow> lc_state" where
  "hk_counters s = upd_hk (\<lambda>hk. hk\<lparr>hk_CmdCount := ucast (CmdCount s), hk_CmdErrCount := ucast (CmdErrCount s),
      hk_APSampleCount := APSampleCount s, hk_MonitoredMsgCount := MonitoredMsgCount s,
      hk_RTSExecCount := RTSExecCount s, hk_PassiveRTSExecCount := PassiveRTSExecCount s,
      hk_CurrentLCState := CurrentLCState s, hk_WPsInUse := of_nat (WatchpointCount s),
      hk_ActiveAPs := 0\<rparr>) s"

section \<open>Resetting results\<close>

definition ap_reset :: "bool \<Rightarrow> u8 \<Rightarrow> LC_ARTEntry \<Rightarrow> LC_ARTEntry" where
  "ap_reset ResetStatsCmd d a =
     (let a = (if \<not> ResetStatsCmd then a\<lparr>ActionResult := LC_ACTION_STALE, CurrentState := d\<rparr> else a)
      in a\<lparr>PassiveAPCount := 0, FailToPassCount := 0, PassToFailCount := 0, ConsecutiveFailCount := 0,
           CumulativeFailCount := 0, CumulativeRTSExecCount := 0, CumulativeEventMsgsSent := 0\<rparr>)"

definition ap_reset_round :: "bool \<Rightarrow> nat \<Rightarrow> lc_state \<Rightarrow> lc_state option" where
  "ap_reset_round ResetStatsCmd i s = do {
     d \<leftarrow> (if \<not> ResetStatsCmd then map_option DefaultState (nth_opt (ADT s) i) else Some 0);
     t \<leftarrow> upd_opt i (ap_reset ResetStatsCmd d) (ART s);
     Some (s\<lparr>ART := t\<rparr>)
   }"

definition LC_ResetResultsAP :: "nat \<Rightarrow> nat \<Rightarrow> bool \<Rightarrow> lc_state \<Rightarrow> lc_state option" where
  "LC_ResetResultsAP StartIndex EndIndex ResetStatsCmd =
     for_loop StartIndex (EndIndex + 1 - StartIndex) (ap_reset_round ResetStatsCmd)"

definition clear_transition :: "LC_WRTTransition \<Rightarrow> LC_WRTTransition" where
  "clear_transition t = t\<lparr>Value := 0, Timestamp := \<lparr>Seconds = 0, Subseconds = 0\<rparr>\<rparr>"

definition wp_reset :: "bool \<Rightarrow> LC_WRTEntry \<Rightarrow> LC_WRTEntry" where
  "wp_reset ResetStatsCmd w =
     (let w = (if \<not> ResetStatsCmd then w\<lparr>WatchResult := LC_WATCH_STALE, CountdownToStale := 0\<rparr> else w)
      in w\<lparr>EvaluationCount := 0, FalseToTrueCount := 0, ConsecutiveTrueCount := 0, CumulativeTrueCount := 0,
           LastFalseToTrue := clear_transition (LastFalseToTrue w),
           LastTrueToFalse := clear_transition (LastTrueToFalse w)\<rparr>)"

definition wp_reset_round :: "bool \<Rightarrow> nat \<Rightarrow> lc_state \<Rightarrow> lc_state option" where
  "wp_reset_round ResetStatsCmd i s = map_option (\<lambda>t. s\<lparr>WRT := t\<rparr>) (upd_opt i (wp_reset ResetStatsCmd) (WRT s))"

definition LC_ResetResultsWP :: "nat \<Rightarrow> nat \<Rightarrow> bool \<Rightarrow> lc_state \<Rightarrow> lc_state option" where
  "LC_ResetResultsWP StartIndex EndIndex ResetStatsCmd =
     for_loop StartIndex (EndIndex + 1 - StartIndex) (wp_reset_round ResetStatsCmd)"

section \<open>Maintenance (\<open>lc_utils.c\<close>)\<close>

definition LC_ManageTables :: "lc_env \<Rightarrow> lc_state \<Rightarrow> (int \<times> lc_state) option" where
  "LC_ManageTables env s = do {
     let (Result, t) = CFE_TBL_GetAddress (WDT_GetAddress env) (WDT s);
     let s = s\<lparr>WDT := t\<rparr>;
     if Result \<noteq> CFE_TBL_INFO_UPDATED \<and> Result \<noteq> 0
     then Some (Result, evs LC_WDT_GETADDR_ERR_EID CFE_EVS_EventType_ERROR [Result] s)
     else do {
       s \<leftarrow> (if Result = CFE_TBL_INFO_UPDATED
            then Option.bind (LC_ResetResultsWP 0 (LC_MAX_WATCHPOINTS - 1) False s) (LC_CreateHashTable env)
            else Some s);
       let (Result, t) = CFE_TBL_GetAddress (ADT_GetAddress env) (ADT s);
       let s = s\<lparr>ADT := t\<rparr>;
       if Result = CFE_TBL_INFO_UPDATED
       then map_option (Pair 0) (LC_ResetResultsAP 0 (LC_MAX_ACTIONPOINTS - 1) False s)
       else if Result \<noteq> 0
       then Some (Result, evs LC_ADT_GETADDR_ERR_EID CFE_EVS_EventType_ERROR [Result] s)
       else Some (0, s)
     }
   }"

definition LC_UpdateTaskCDS :: "lc_env \<Rightarrow> lc_state \<Rightarrow> int \<times> lc_state" where
  "LC_UpdateTaskCDS env s =
     (if CopyToCDS_WRT env \<noteq> 0
      then (CopyToCDS_WRT env, evs LC_WRT_NO_SAVE_ERR_EID CFE_EVS_EventType_ERROR [CopyToCDS_WRT env] s)
      else if CopyToCDS_ART env \<noteq> 0
      then (CopyToCDS_ART env, evs LC_ART_NO_SAVE_ERR_EID CFE_EVS_EventType_ERROR [CopyToCDS_ART env] s)
      else (let s = s\<lparr>CDSSavedOnExit := LC_CDS_SAVED\<rparr>
            in if CopyToCDS_App env \<noteq> 0
               then (CopyToCDS_App env, evs LC_APP_NO_SAVE_START_ERR_EID CFE_EVS_EventType_ERROR [CopyToCDS_App env] s)
               else (0, s)))"

definition LC_PerformMaintenance :: "lc_env \<Rightarrow> lc_state \<Rightarrow> (int \<times> lc_state) option" where
  "LC_PerformMaintenance env s = do {
     (Result, s) \<leftarrow> LC_ManageTables env s;
     if Result = 0 \<and> HaveActiveCDS s
     then (let (status, s) = LC_UpdateTaskCDS env s
           in Some (Result, if status \<noteq> 0 then s\<lparr>HaveActiveCDS := False\<rparr> else s))
     else Some (Result, s)
   }"

definition LC_HousekeepingReq :: "lc_env \<Rightarrow> bytes \<Rightarrow> lc_state \<Rightarrow> (int \<times> lc_state) option" where
  "LC_HousekeepingReq env m s = do {
     let (ok, s) = LC_VerifyMsgLength m 8 s;
     s \<leftarrow> (if ok
          then do {
            s \<leftarrow> for_loop 0 (LC_MAX_WATCHPOINTS div 4) hk_wp_round (hk_counters s);
            s \<leftarrow> for_loop 0 (LC_MAX_ACTIONPOINTS div 2) hk_ap_round s;
            Some (s\<lparr>hk_tx := hk_tx s @ [HkPacket s]\<rparr>)
          }
          else Some s);
     LC_PerformMaintenance env s
   }"

section \<open>Ground commands\<close>

definition LC_NoopCmd :: "bytes \<Rightarrow> lc_state \<Rightarrow> lc_state" where
  "LC_NoopCmd m s =
     (let (ok, s) = LC_VerifyMsgLength m 8 s
      in if ok then evs LC_NOOP_INF_EID CFE_EVS_EventType_INFORMATION [] (cmd_ok s) else s)"

definition LC_ResetCounters :: "lc_state \<Rightarrow> lc_state" where
  "LC_ResetCounters s = s\<lparr>CmdCount := 0, CmdErrCount := 0, APSampleCount := 0, MonitoredMsgCount := 0,
     RTSExecCount := 0, PassiveRTSExecCount := 0\<rparr>"

definition LC_ResetCmd :: "bytes \<Rightarrow> lc_state \<Rightarrow> lc_state" where
  "LC_ResetCmd m s =
     (let (ok, s) = LC_VerifyMsgLength m 8 s
      in if ok then evs LC_RESET_DBG_EID CFE_EVS_EventType_DEBUG [] (LC_ResetCounters s) else s)"

definition LC_SetLCStateCmd :: "lc_env \<Rightarrow> bytes \<Rightarrow> lc_state \<Rightarrow> lc_state" where
  "LC_SetLCStateCmd env m s =
     (let (ok, s) = LC_VerifyMsgLength m 12 s; NewLCState = rd16 (lc_host env) m 8
      in if ok
         then (if NewLCState = LC_STATE_ACTIVE \<or> NewLCState = LC_STATE_PASSIVE \<or> NewLCState = LC_STATE_DISABLED
               then evs LC_LCSTATE_INF_EID CFE_EVS_EventType_INFORMATION [uint NewLCState]
                      (cmd_ok (s\<lparr>CurrentLCState := ucast NewLCState\<rparr>))
               else cmd_err (evs LC_LCSTATE_ERR_EID CFE_EVS_EventType_ERROR [uint NewLCState] s))
         else s)"

definition ap_settable :: "LC_ARTEntry \<Rightarrow> bool" where
  "ap_settable a \<longleftrightarrow> CurrentState a \<noteq> LC_ACTION_NOT_USED \<and> CurrentState a \<noteq> LC_APSTATE_PERMOFF"

definition ap_set_round :: "u16 \<Rightarrow> nat \<Rightarrow> lc_state \<Rightarrow> lc_state option" where
  "ap_set_round NewAPState i s =
     map_option (\<lambda>t. s\<lparr>ART := t\<rparr>)
       (upd_opt i (\<lambda>a. if ap_settable a then a\<lparr>CurrentState := ucast NewAPState\<rparr> else a) (ART s))"

definition LC_SetAPStateCmd :: "lc_env \<Rightarrow> bytes \<Rightarrow> lc_state \<Rightarrow> lc_state option" where
  "LC_SetAPStateCmd env m s = do {
     let (ok, s) = LC_VerifyMsgLength m 12 s;
     let APNumber = rd16 (lc_host env) m 8;
     let NewAPState = rd16 (lc_host env) m 10;
     if \<not> ok then Some s
     else if \<not> (NewAPState = LC_APSTATE_ACTIVE \<or> NewAPState = LC_APSTATE_PASSIVE \<or> NewAPState = LC_APSTATE_DISABLED)
     then Some (cmd_err (evs LC_APSTATE_NEW_ERR_EID CFE_EVS_EventType_ERROR [uint APNumber, uint NewAPState] s))
     else do {
       (CmdSuccess, s) \<leftarrow>
         (if APNumber = LC_ALL_ACTIONPOINTS
          then map_option (Pair True) (for_loop 0 LC_MAX_ACTIONPOINTS (ap_set_round NewAPState) s)
          else if unat APNumber < LC_MAX_ACTIONPOINTS
          then do {
            a \<leftarrow> nth_opt (ART s) (unat APNumber);
            if ap_settable a
            then Some (True, upd_ART (unat APNumber) (CurrentState_update (\<lambda>_. ucast NewAPState)) s)
            else Some (False, cmd_err (evs LC_APSTATE_CURR_ERR_EID CFE_EVS_EventType_ERROR
                                  [uint APNumber, uint (CurrentState a)] s))
          }
          else Some (False, cmd_err (evs LC_APSTATE_APNUM_ERR_EID CFE_EVS_EventType_ERROR [uint APNumber] s)));
       if CmdSuccess
       then Some (evs LC_APSTATE_INF_EID CFE_EVS_EventType_INFORMATION [uint APNumber, uint NewAPState] (cmd_ok s))
       else Some s
     }
   }"

definition LC_SetAPPermOffCmd :: "lc_env \<Rightarrow> bytes \<Rightarrow> lc_state \<Rightarrow> lc_state option" where
  "LC_SetAPPermOffCmd env m s = do {
     let (ok, s) = LC_VerifyMsgLength m 12 s;
     let APNumber = rd16 (lc_host env) m 8;
     if \<not> ok then Some s
     else if APNumber = LC_ALL_ACTIONPOINTS \<or> unat APNumber \<ge> LC_MAX_ACTIONPOINTS
     then Some (cmd_err (evs LC_APOFF_APNUM_ERR_EID CFE_EVS_EventType_ERROR [uint APNumber] s))
     else do {
       a \<leftarrow> nth_opt (ART s) (unat APNumber);
       if CurrentState a \<noteq> LC_APSTATE_DISABLED
       then Some (cmd_err (evs LC_APOFF_CURR_ERR_EID CFE_EVS_EventType_ERROR [uint APNumber, uint (CurrentState a)] s))
       else Some (evs LC_APOFF_INF_EID CFE_EVS_EventType_INFORMATION [uint APNumber]
                   (cmd_ok (upd_ART (unat APNumber) (CurrentState_update (\<lambda>_. LC_APSTATE_PERMOFF)) s)))
     }
   }"

definition LC_ResetAPStatsCmd :: "lc_env \<Rightarrow> bytes \<Rightarrow> lc_state \<Rightarrow> lc_state option" where
  "LC_ResetAPStatsCmd env m s = do {
     let (ok, s) = LC_VerifyMsgLength m 12 s;
     let APNumber = rd16 (lc_host env) m 8;
     if \<not> ok then Some s
     else do {
       (CmdSuccess, s) \<leftarrow>
         (if APNumber = LC_ALL_ACTIONPOINTS
          then map_option (Pair True) (LC_ResetResultsAP 0 (LC_MAX_ACTIONPOINTS - 1) True s)
          else if unat APNumber < LC_MAX_ACTIONPOINTS
          then map_option (Pair True) (LC_ResetResultsAP (unat APNumber) (unat APNumber) True s)
          else Some (False, evs LC_APSTATS_APNUM_ERR_EID CFE_EVS_EventType_ERROR [uint APNumber] (cmd_err s)));
       if CmdSuccess
       then Some (evs LC_APSTATS_INF_EID CFE_EVS_EventType_INFORMATION [uint APNumber] (cmd_ok s))
       else Some s
     }
   }"

definition LC_ResetWPStatsCmd :: "lc_env \<Rightarrow> bytes \<Rightarrow> lc_state \<Rightarrow> lc_state option" where
  "LC_ResetWPStatsCmd env m s = do {
     let (ok, s) = LC_VerifyMsgLength m 12 s;
     let WPNumber = rd16 (lc_host env) m 8;
     if \<not> ok then Some s
     else do {
       (CmdSuccess, s) \<leftarrow>
         (if WPNumber = LC_ALL_WATCHPOINTS
          then map_option (Pair True) (LC_ResetResultsWP 0 (LC_MAX_WATCHPOINTS - 1) True s)
          else if unat WPNumber < LC_MAX_WATCHPOINTS
          then map_option (Pair True) (LC_ResetResultsWP (unat WPNumber) (unat WPNumber) True s)
          else Some (False, evs LC_WPSTATS_WPNUM_ERR_EID CFE_EVS_EventType_ERROR [uint WPNumber] (cmd_err s)));
       if CmdSuccess
       then Some (evs LC_WPSTATS_INF_EID CFE_EVS_EventType_INFORMATION [uint WPNumber] (cmd_ok s))
       else Some s
     }
   }"

definition LC_command :: "lc_env \<Rightarrow> bytes \<Rightarrow> lc_state \<Rightarrow> lc_state option" where
  "LC_command env m s =
     (let CommandCode = snd (CFE_MSG_GetFcnCode m)
      in if CommandCode = LC_NOOP_CC then Some (LC_NoopCmd m s)
         else if CommandCode = LC_RESET_CC then Some (LC_ResetCmd m s)
         else if CommandCode = LC_SET_LC_STATE_CC then Some (LC_SetLCStateCmd env m s)
         else if CommandCode = LC_SET_AP_STATE_CC then LC_SetAPStateCmd env m s
         else if CommandCode = LC_SET_AP_PERMOFF_CC then LC_SetAPPermOffCmd env m s
         else if CommandCode = LC_RESET_AP_STATS_CC then LC_ResetAPStatsCmd env m s
         else if CommandCode = LC_RESET_WP_STATS_CC then LC_ResetWPStatsCmd env m s
         else Some (cmd_err (evs LC_CC_ERR_EID CFE_EVS_EventType_ERROR
                       [uint (CFE_MSG_GetMsgId m), uint CommandCode] s)))"

definition LC_AppPipe :: "lc_env \<Rightarrow> bytes \<Rightarrow> lc_state \<Rightarrow> (int \<times> lc_state) option" where
  "LC_AppPipe env m s =
     (let MessageID = CFE_MSG_GetMsgId m
      in if MessageID = LC_SAMPLE_AP_MID then map_option (Pair 0) (LC_SampleAPReq env m s)
         else if MessageID = LC_SEND_HK_MID then LC_HousekeepingReq env m s
         else if MessageID = LC_CMD_MID then map_option (Pair 0) (LC_command env m s)
         else map_option (Pair 0) (LC_CheckMsgForWPs env MessageID m s))"

section \<open>What the handlers keep\<close>

text \<open>
  Every handler except the state command and a table update keeps the definition tables and the hash
  table, the permanently disabled actionpoints, and sends no command unless the application is active.
\<close>

definition lc_keep :: "lc_state \<Rightarrow> lc_state \<Rightarrow> bool" where
  "lc_keep s s' \<longleftrightarrow> WDT s' = WDT s \<and> ADT s' = ADT s \<and> HashTable s' = HashTable s \<and>
     MessageLinks s' = MessageLinks s \<and> WatchPtLinks s' = WatchPtLinks s \<and>
     MessageIDsCount s' = MessageIDsCount s \<and> WatchpointCount s' = WatchpointCount s \<and>
     CurrentLCState s' = CurrentLCState s \<and>
     length (hk_WPResults (HkPacket s')) = length (hk_WPResults (HkPacket s)) \<and>
     length (hk_APResults (HkPacket s')) = length (hk_APResults (HkPacket s)) \<and>
     lc_tables_wf s' \<and>
     (CurrentLCState s \<noteq> LC_STATE_ACTIVE \<longrightarrow> tx s' = tx s) \<and>
     (\<forall>i<176. CurrentState (ART s ! i) = LC_APSTATE_PERMOFF \<longrightarrow> CurrentState (ART s' ! i) = LC_APSTATE_PERMOFF)"

lemma lc_keep_refl: "lc_tables_wf s \<Longrightarrow> lc_keep s s"
  by (simp add: lc_keep_def)

lemma lc_keep_wf: "lc_keep s s' \<Longrightarrow> lc_tables_wf s'"
  by (simp add: lc_keep_def)

lemma lc_keep_trans: "\<lbrakk> lc_keep s s1; lc_keep s1 s2 \<rbrakk> \<Longrightarrow> lc_keep s s2"
  by (simp add: lc_keep_def)

lemma lc_tables_wf_fields [simp]:
  "lc_tables_wf (evs e t a s) = lc_tables_wf s" "lc_tables_wf (cmd_ok s) = lc_tables_wf s"
  "lc_tables_wf (cmd_err s) = lc_tables_wf s" "lc_tables_wf (upd_hk g s) = lc_tables_wf s"
  "lc_tables_wf (upd_ART i f s) = lc_tables_wf s"
  by (simp_all add: lc_tables_wf_def cmd_ok_def cmd_err_def upd_hk_def)

lemma lc_keep_steps [simp]:
  "lc_keep s (evs e t a s') = lc_keep s s'"
  "lc_keep s (cmd_ok s') = lc_keep s s'"
  "lc_keep s (cmd_err s') = lc_keep s s'"
  "lc_keep s (s'\<lparr>hk_tx := x\<rparr>) = lc_keep s s'"
  "lc_keep s (s'\<lparr>CDSSavedOnExit := y\<rparr>) = lc_keep s s'"
  "lc_keep s (s'\<lparr>HaveActiveCDS := b\<rparr>) = lc_keep s s'"
  "lc_keep s (LC_ResetCounters s') = lc_keep s s'"
  by (simp_all add: lc_keep_def cmd_ok_def cmd_err_def LC_ResetCounters_def lc_tables_wf_def)

lemma lc_keep_evs_right: "lc_tables_wf s \<Longrightarrow> lc_keep s (evs e t a s)"
  by (simp add: lc_keep_refl)

lemma LC_VerifyMsgLength_keep: "lc_tables_wf s \<Longrightarrow> lc_keep s (snd (LC_VerifyMsgLength m n s))"
  by (simp add: LC_VerifyMsgLength_def Let_def lc_keep_refl)

lemma lc_keep_ART:
  assumes "lc_tables_wf s" and "length t = 176"
    and "\<And>i. \<lbrakk> i < 176; CurrentState (ART s ! i) = LC_APSTATE_PERMOFF \<rbrakk> \<Longrightarrow> CurrentState (t ! i) = LC_APSTATE_PERMOFF"
  shows "lc_keep s (s\<lparr>ART := t\<rparr>)"
  using assms by (simp add: lc_keep_def lc_tables_wf_def)

lemma lc_keep_upd_ART:
  assumes "lc_tables_wf s" and "i < 176"
    and "CurrentState (ART s ! i) = LC_APSTATE_PERMOFF \<Longrightarrow> CurrentState (f (ART s ! i)) = LC_APSTATE_PERMOFF"
  shows "lc_keep s (upd_ART i f s)"
  unfolding upd_ART_def
  by (rule lc_keep_ART) (use assms in \<open>auto simp: lc_tables_wf_def\<close>)

lemma lc_keep_upd_WRT:
  assumes "lc_tables_wf s" and "i < 176" and "WatchResult (f (WRT s ! i)) \<in> watch_values"
  shows "lc_keep s (s\<lparr>WRT := upd_at i f (WRT s)\<rparr>)"
proof -
  have "list_all (\<lambda>w. WatchResult w \<in> watch_values) (upd_at i f (WRT s))"
    using assms by (simp add: lc_tables_wf_def list_all_length)
  then show ?thesis using assms(1) by (simp add: lc_keep_def lc_tables_wf_def)
qed

text \<open>Loops whose rounds keep, keep.\<close>

lemma for_loop_keep:
  assumes "lc_tables_wf s"
    and "\<And>i s. \<lbrakk> lo \<le> i; i < lo + n; lc_tables_wf s \<rbrakk> \<Longrightarrow> \<exists>s'. f i s = Some s' \<and> lc_keep s s'"
  shows "\<exists>s'. for_loop lo n f s = Some s' \<and> lc_keep s s'"
proof (rule for_loop_inv [where P = "\<lambda>_. lc_keep s"])
  show "lc_keep s s" using assms(1) by (rule lc_keep_refl)
  fix i s1
  assume "lo \<le> i" "i < lo + n" "lc_keep s s1"
  then show "\<exists>s'. f i s1 = Some s' \<and> lc_keep s s'"
    using assms(2) [of i s1] lc_keep_wf lc_keep_trans by blast
qed

section \<open>Sampling\<close>

lemma LC_SampleSingleAP_keep:
  assumes wf: "lc_tables_wf s" and ap: "ap < 176"
  shows "\<exists>s'. LC_SampleSingleAP env ap s = Some s' \<and> lc_keep s s'"
proof (cases "ap_live (ART s ! ap)")
  case True
  let ?s = "s\<lparr>APSampleCount := APSampleCount s + 1\<rparr>"
  have "ap < length (ADT ?s)" "length (RPNEquation (ADT ?s ! ap)) = 20"
    using assms by (simp_all add: lc_tables_wf_def adt_wf_def list_all_length)
  then obtain r s1 where "LC_EvaluateRPN ap ?s = Some (r, s1)"
    using LC_EvaluateRPN_total by blast
  from LC_SampleSingleAP_result [OF wf ap True this, of env]
  obtain s' where s': "LC_SampleSingleAP env ap s = Some s'" "ap_frame ap s s'"
      "CurrentLCState s \<noteq> LC_STATE_ACTIVE \<longrightarrow> tx s' = tx s"
    by auto
  have "CurrentState (ART s ! ap) \<noteq> LC_APSTATE_PERMOFF" using True by (auto simp: ap_live_def)
  then have "lc_keep s s'"
    using s'(2,3) wf ap_frame_wf [OF s'(2)] unfolding lc_keep_def ap_frame_def by (metis (no_types))
  with s'(1) show ?thesis by blast
next
  case False
  then have "LC_SampleSingleAP env ap s = Some s"
    using assms by (simp add: LC_SampleSingleAP_def ap_live_def lc_tables_wf_def)
  with wf lc_keep_refl show ?thesis by blast
qed

lemma sample_loop_keep:
  "\<lbrakk> lc_tables_wf s; i + n \<le> 176 \<rbrakk> \<Longrightarrow> \<exists>s'. sample_loop env i n s = Some s' \<and> lc_keep s s'"
proof (induction n arbitrary: i s)
  case 0
  then show ?case by (simp add: lc_keep_refl)
next
  case (Suc n)
  obtain s1 where s1: "LC_SampleSingleAP env i s = Some s1" "lc_keep s s1"
    using LC_SampleSingleAP_keep [of s i env] Suc.prems by auto
  then obtain s2 where "sample_loop env (i + 1) n s1 = Some s2" "lc_keep s1 s2"
    using Suc.IH [of s1 "i + 1"] Suc.prems lc_keep_wf by auto
  with s1 lc_keep_trans show ?case by auto
qed

lemma LC_SampleAPs_keep:
  assumes "lc_tables_wf s" and "a \<le> b" and "b < 176"
  shows "\<exists>s'. LC_SampleAPs env a b s = Some s' \<and> lc_keep s s'"
proof (cases "a = b")
  case True
  have "b < length (ART s)" using assms by (simp add: lc_tables_wf_def)
  then show ?thesis
    using True assms LC_SampleSingleAP_keep [of s b env] lc_keep_evs_right [OF assms(1)]
    by (simp add: LC_SampleAPs_def)
next
  case False
  then show ?thesis
    using assms sample_loop_keep [of s a "b + 1 - a" env] by (simp add: LC_SampleAPs_def)
qed

lemma age_wp_watch: "WatchResult w \<in> watch_values \<Longrightarrow> WatchResult (age_wp w) \<in> watch_values"
  by (simp add: age_wp_def Let_def watch_values_def)

lemma age_round_keep:
  assumes "lc_tables_wf s" and "i < 176"
  shows "\<exists>s'. age_round i s = Some s' \<and> lc_keep s s'"
proof -
  have "i < length (WRT s)" using assms by (simp add: lc_tables_wf_def)
  then show ?thesis
    using lc_keep_upd_WRT [OF assms, of age_wp] age_wp_watch [OF WatchResult_wf [OF assms]]
    by (simp add: age_round_def)
qed

lemma LC_SampleAPReq_keep:
  assumes "lc_tables_wf s"
  shows "\<exists>s'. LC_SampleAPReq env m s = Some s' \<and> lc_keep s s'"
proof -
  obtain ok s1 where v: "LC_VerifyMsgLength m 16 s = (ok, s1)" by fastforce
  then have k1: "lc_keep s s1" using LC_VerifyMsgLength_keep [OF assms, of m 16] by simp
  let ?a = "rd16 (lc_host env) m 8" and ?b = "rd16 (lc_host env) m 10"
  let ?sample = "(if ?a = LC_ALL_ACTIONPOINTS \<and> ?b = LC_ALL_ACTIONPOINTS
      then map_option (Pair True) (LC_SampleAPs env 0 (LC_MAX_ACTIONPOINTS - 1) s1)
      else if ?a \<le> ?b \<and> unat ?b < LC_MAX_ACTIONPOINTS
      then map_option (Pair True) (LC_SampleAPs env (unat ?a) (unat ?b) s1)
      else Some (False, evs LC_APSAMPLE_APNUM_ERR_EID CFE_EVS_EventType_ERROR [uint ?a, uint ?b] s1))"
  have wf1: "lc_tables_wf s1" using k1 by (rule lc_keep_wf)
  have "\<exists>v s2. ?sample = Some (v, s2) \<and> lc_keep s1 s2"
    using LC_SampleAPs_keep [OF wf1, of 0 175 env] LC_SampleAPs_keep [OF wf1, of "unat ?a" "unat ?b" env]
      lc_keep_evs_right [OF wf1]
    by (auto simp: word_le_nat_alt)
  then obtain v s2 where s2: "?sample = Some (v, s2)" "lc_keep s1 s2" by blast
  then obtain s3 where "for_loop 0 LC_MAX_WATCHPOINTS age_round s2 = Some s3" "lc_keep s2 s3"
    using for_loop_keep [of s2 0 176 age_round] age_round_keep lc_keep_wf by auto
  then show ?thesis
    using v s2 k1 lc_keep_trans [OF k1] lc_keep_trans [OF s2(2)]
    by (cases "ok \<and> CurrentLCState s1 \<noteq> LC_STATE_DISABLED") (auto simp: LC_SampleAPReq_def Let_def)
qed

section \<open>Housekeeping and commands\<close>

lemma lc_keep_upd_hk:
  assumes "lc_tables_wf s" and "length (hk_WPResults (g (HkPacket s))) = length (hk_WPResults (HkPacket s))"
    and "length (hk_APResults (g (HkPacket s))) = length (hk_APResults (HkPacket s))"
  shows "lc_keep s (upd_hk g s)"
  using assms by (simp add: lc_keep_def upd_hk_def lc_tables_wf_def)

text \<open>The bit fields of a packed byte.\<close>

definition wp_byte :: "LC_WRTEntry list \<Rightarrow> nat \<Rightarrow> u8" where
  "wp_byte t h = push_bit 6 (hkwr (WatchResult (t ! (4 * h + 3)))) OR push_bit 4 (hkwr (WatchResult (t ! (4 * h + 2))))
     OR push_bit 2 (hkwr (WatchResult (t ! (4 * h + 1)))) OR hkwr (WatchResult (t ! (4 * h)))"

definition ap_byte :: "LC_ARTEntry list \<Rightarrow> nat \<Rightarrow> u8" where
  "ap_byte t h = push_bit 6 (hkar_state (CurrentState (t ! (2 * h + 1)))) OR push_bit 4 (hkar (ActionResult (t ! (2 * h + 1))))
     OR push_bit 2 (hkar_state (CurrentState (t ! (2 * h)))) OR hkar (ActionResult (t ! (2 * h)))"

definition hk_lengths :: "lc_state \<Rightarrow> bool" where
  "hk_lengths s \<longleftrightarrow> length (hk_WPResults (HkPacket s)) = 44 \<and> length (hk_APResults (HkPacket s)) = 88"

lemma hk_wp_loop:
  assumes "lc_tables_wf s" and "hk_lengths s"
  shows "\<exists>s'. for_loop 0 44 hk_wp_round s = Some s' \<and>
     s' = s\<lparr>HkPacket := (HkPacket s)\<lparr>hk_WPResults := map (wp_byte (WRT s)) [0..<44]\<rparr>\<rparr>"
proof -
  let ?P = "\<lambda>i s'. \<exists>r. s' = s\<lparr>HkPacket := (HkPacket s)\<lparr>hk_WPResults := r\<rparr>\<rparr> \<and> length r = 44 \<and>
      (\<forall>j<i. r ! j = wp_byte (WRT s) j)"
  have "\<exists>s'. for_loop 0 44 hk_wp_round s = Some s' \<and> ?P (0 + 44) s'"
  proof (rule for_loop_inv [where P = ?P])
    show "?P 0 s"
      using assms(2) by (intro exI [of _ "hk_WPResults (HkPacket s)"]) (simp add: hk_lengths_def)
  next
    fix i s1
    assume i: "i < 0 + (44::nat)" and "?P i s1"
    then obtain r where r: "s1 = s\<lparr>HkPacket := (HkPacket s)\<lparr>hk_WPResults := r\<rparr>\<rparr>" "length r = 44"
        "\<forall>j<i. r ! j = wp_byte (WRT s) j"
      by blast
    have "length (WRT s) = 176" using assms(1) by (simp add: lc_tables_wf_def)
    then have "hk_wp_round i s1 =
        Some (s\<lparr>HkPacket := (HkPacket s)\<lparr>hk_WPResults := upd_at i (\<lambda>_. wp_byte (WRT s) i) r\<rparr>\<rparr>)"
      using i r(1,2) by (simp add: hk_wp_round_def wp_byte_def upd_hk_def Let_def or.assoc)
    moreover have "\<forall>j<Suc i. upd_at i (\<lambda>_. wp_byte (WRT s) i) r ! j = wp_byte (WRT s) j"
      using i r(2,3) by (simp add: less_Suc_eq)
    ultimately show "\<exists>s'. hk_wp_round i s1 = Some s' \<and> ?P (Suc i) s'"
      using r(2) by (intro exI conjI) (assumption, rule refl, simp_all)
  qed
  then obtain r where "for_loop 0 44 hk_wp_round s = Some (s\<lparr>HkPacket := (HkPacket s)\<lparr>hk_WPResults := r\<rparr>\<rparr>)"
      "length r = 44" "\<forall>j<44. r ! j = wp_byte (WRT s) j"
    by auto
  moreover from this have "r = map (wp_byte (WRT s)) [0..<44]"
    by (intro nth_equalityI) simp_all
  ultimately show ?thesis by simp
qed

lemma hk_ap_loop:
  assumes "lc_tables_wf s" and "hk_lengths s"
  shows "\<exists>s' n. for_loop 0 88 hk_ap_round s = Some s' \<and>
     s' = s\<lparr>HkPacket := (HkPacket s)\<lparr>hk_ActiveAPs := n, hk_APResults := map (ap_byte (ART s)) [0..<88]\<rparr>\<rparr> \<and>
     n = hk_ActiveAPs (HkPacket s) + of_nat (length (filter (\<lambda>a. CurrentState a = LC_APSTATE_ACTIVE) (ART s)))"
proof -
  let ?act = "\<lambda>a. CurrentState a = LC_APSTATE_ACTIVE"
  let ?n = "\<lambda>i. hk_ActiveAPs (HkPacket s) + of_nat (length (filter ?act (take (2 * i) (ART s)))) :: u16"
  let ?P = "\<lambda>i s'. \<exists>r. s' = s\<lparr>HkPacket := (HkPacket s)\<lparr>hk_ActiveAPs := ?n i, hk_APResults := r\<rparr>\<rparr> \<and>
      length r = 88 \<and> (\<forall>j<i. r ! j = ap_byte (ART s) j)"
  have len: "length (ART s) = 176" using assms(1) by (simp add: lc_tables_wf_def)
  have "\<exists>s'. for_loop 0 88 hk_ap_round s = Some s' \<and> ?P (0 + 88) s'"
  proof (rule for_loop_inv [where P = ?P])
    show "?P 0 s"
      using assms(2) by (intro exI [of _ "hk_APResults (HkPacket s)"]) (simp add: hk_lengths_def)
  next
    fix i s1
    assume i: "i < 0 + (88::nat)" and "?P i s1"
    then obtain r where r: "s1 = s\<lparr>HkPacket := (HkPacket s)\<lparr>hk_ActiveAPs := ?n i, hk_APResults := r\<rparr>\<rparr>"
        "length r = 88" "\<forall>j<i. r ! j = ap_byte (ART s) j"
      by blast
    have "take (2 * Suc i) (ART s) = take (2 * i) (ART s) @ [ART s ! (2 * i), ART s ! (2 * i + 1)]"
      using len i by (simp add: take_Suc_conv_app_nth)
    then have n: "?n (Suc i) = count_active (CurrentState (ART s ! (2 * i))) (count_active (CurrentState (ART s ! (2 * i + 1))) (?n i))"
      by (simp add: count_active_def)
    have "hk_ap_round i s1 =
        Some (s\<lparr>HkPacket := (HkPacket s)\<lparr>hk_ActiveAPs := ?n (Suc i), hk_APResults := upd_at i (\<lambda>_. ap_byte (ART s) i) r\<rparr>\<rparr>)"
      unfolding n using len i r(1,2)
      by (simp add: hk_ap_round_def ap_byte_def upd_hk_def Let_def or.assoc)
    moreover have "\<forall>j<Suc i. upd_at i (\<lambda>_. ap_byte (ART s) i) r ! j = ap_byte (ART s) j"
      using i r(2,3) by (simp add: less_Suc_eq)
    ultimately show "\<exists>s'. hk_ap_round i s1 = Some s' \<and> ?P (Suc i) s'"
      using r(2) by (intro exI conjI) (assumption, rule refl, simp_all)
  qed
  then obtain r where "for_loop 0 88 hk_ap_round s =
        Some (s\<lparr>HkPacket := (HkPacket s)\<lparr>hk_ActiveAPs := ?n 88, hk_APResults := r\<rparr>\<rparr>)"
      "length r = 88" "\<forall>j<88. r ! j = ap_byte (ART s) j"
    by auto
  moreover from this have "r = map (ap_byte (ART s)) [0..<88]"
    by (intro nth_equalityI) simp_all
  ultimately show ?thesis using len by simp
qed

lemma lc_keep_hk:
  "\<lbrakk> lc_tables_wf s; length (hk_WPResults hk) = length (hk_WPResults (HkPacket s));
     length (hk_APResults hk) = length (hk_APResults (HkPacket s)) \<rbrakk> \<Longrightarrow> lc_keep s (s\<lparr>HkPacket := hk\<rparr>)"
  using lc_keep_upd_hk [of s "\<lambda>_. hk"] by (simp add: upd_hk_def)

text \<open>The packet a housekeeping request sends.\<close>

definition hk_packet_of :: "lc_state \<Rightarrow> LC_HkPacket" where
  "hk_packet_of s = (HkPacket s)\<lparr>hk_CmdCount := ucast (CmdCount s), hk_CmdErrCount := ucast (CmdErrCount s),
      hk_APSampleCount := APSampleCount s, hk_MonitoredMsgCount := MonitoredMsgCount s,
      hk_RTSExecCount := RTSExecCount s, hk_PassiveRTSExecCount := PassiveRTSExecCount s,
      hk_CurrentLCState := CurrentLCState s, hk_WPsInUse := of_nat (WatchpointCount s),
      hk_WPResults := map (wp_byte (WRT s)) [0..<44], hk_APResults := map (ap_byte (ART s)) [0..<88],
      hk_ActiveAPs := of_nat (length (filter (\<lambda>a. CurrentState a = LC_APSTATE_ACTIVE) (ART s)))\<rparr>"

lemma hk_loops:
  assumes wf: "lc_tables_wf s" and hk: "hk_lengths s"
  shows "Option.bind (for_loop 0 44 hk_wp_round (hk_counters s)) (for_loop 0 88 hk_ap_round) =
     Some (s\<lparr>HkPacket := hk_packet_of s\<rparr>)"
proof -
  let ?s0 = "hk_counters s"
  have "lc_tables_wf ?s0" "hk_lengths ?s0"
    using assms by (simp_all add: hk_counters_def) (simp add: hk_lengths_def upd_hk_def)
  from hk_wp_loop [OF this] obtain s1 where s1: "for_loop 0 44 hk_wp_round ?s0 = Some s1"
      "s1 = ?s0\<lparr>HkPacket := (HkPacket ?s0)\<lparr>hk_WPResults := map (wp_byte (WRT ?s0)) [0..<44]\<rparr>\<rparr>"
    by blast
  have "lc_tables_wf s1" "hk_lengths s1"
    using s1(2) \<open>lc_tables_wf ?s0\<close> \<open>hk_lengths ?s0\<close> by (simp_all add: lc_tables_wf_def hk_lengths_def)
  from hk_ap_loop [OF this] s1 show ?thesis
    by (auto simp: hk_counters_def upd_hk_def hk_packet_of_def)
qed

lemma LC_ResetResultsAP_keep:
  assumes "lc_tables_wf s" and "b < 176"
  shows "\<exists>s'. LC_ResetResultsAP a b True s = Some s' \<and> lc_keep s s'"
  unfolding LC_ResetResultsAP_def
proof (rule for_loop_keep [OF assms(1)])
  fix i s1
  assume "a \<le> i" "i < a + (b + 1 - a)" and wf: "lc_tables_wf s1"
  then have "i < 176" using assms(2) by simp
  then show "\<exists>s'. ap_reset_round True i s1 = Some s' \<and> lc_keep s1 s'"
    using lc_keep_upd_ART [OF wf, of i "ap_reset True 0"] wf
    by (simp add: ap_reset_round_def upd_ART_def ap_reset_def lc_tables_wf_def)
qed

lemma wp_reset_watch: "WatchResult w \<in> watch_values \<Longrightarrow> WatchResult (wp_reset b w) \<in> watch_values"
  by (simp add: wp_reset_def Let_def watch_values_def)

lemma LC_ResetResultsWP_keep:
  assumes "lc_tables_wf s" and "b < 176"
  shows "\<exists>s'. LC_ResetResultsWP a b r s = Some s' \<and> lc_keep s s'"
  unfolding LC_ResetResultsWP_def
proof (rule for_loop_keep [OF assms(1)])
  fix i s1
  assume "a \<le> i" "i < a + (b + 1 - a)" and wf: "lc_tables_wf s1"
  then have i: "i < 176" using assms(2) by simp
  then show "\<exists>s'. wp_reset_round r i s1 = Some s' \<and> lc_keep s1 s'"
    using lc_keep_upd_WRT [OF wf i, of "wp_reset r"] wp_reset_watch [OF WatchResult_wf [OF wf i]] wf
    by (simp add: wp_reset_round_def lc_tables_wf_def)
qed

lemma ap_set_keep:
  assumes "lc_tables_wf s"
  shows "\<exists>s'. for_loop 0 176 (ap_set_round n) s = Some s' \<and> lc_keep s s'"
proof (rule for_loop_keep [OF assms])
  fix i s1
  assume "i < 0 + (176::nat)" and wf: "lc_tables_wf s1"
  then show "\<exists>s'. ap_set_round n i s1 = Some s' \<and> lc_keep s1 s'"
    using lc_keep_upd_ART [OF wf, of i "\<lambda>a. if ap_settable a then a\<lparr>CurrentState := ucast n\<rparr> else a"] wf
    by (simp add: ap_set_round_def upd_ART_def ap_settable_def lc_tables_wf_def)
qed

lemma verified:
  "\<lbrakk> LC_VerifyMsgLength m n s = (ok, s1); ok \<rbrakk> \<Longrightarrow> s1 = s \<and> CFE_MSG_GetSize m = n"
  by (auto simp: LC_VerifyMsgLength_def Let_def split: if_splits)

lemma bind_keep:
  assumes "\<exists>v s2. x = Some (v, s2) \<and> lc_keep s s2"
    and "\<And>v s2. lc_keep s s2 \<Longrightarrow> \<exists>s'. f v s2 = Some s' \<and> lc_keep s s'"
  shows "\<exists>s'. Option.bind x (\<lambda>(v, s2). f v s2) = Some s' \<and> lc_keep s s'"
  using assms by fastforce

lemma LC_SetAPStateCmd_keep:
  assumes wf: "lc_tables_wf s"
  shows "\<exists>s'. LC_SetAPStateCmd env m s = Some s' \<and> lc_keep s s'"
proof -
  obtain ok s1 where v: "LC_VerifyMsgLength m 12 s = (ok, s1)" by fastforce
  have k: "lc_keep s s1" using LC_VerifyMsgLength_keep [OF wf, of m 12] v by simp
  let ?a = "rd16 (lc_host env) m 8" and ?n = "rd16 (lc_host env) m 10"
  show ?thesis
  proof (cases "ok \<and> (?n = LC_APSTATE_ACTIVE \<or> ?n = LC_APSTATE_PASSIVE \<or> ?n = LC_APSTATE_DISABLED)")
    case False
    then show ?thesis using v k by (auto simp: LC_SetAPStateCmd_def Let_def)
  next
    case True
    then have s1: "s1 = s" using verified [OF v] by simp
    have all: "\<exists>s'. for_loop 0 176 (ap_set_round ?n) s = Some s' \<and> lc_keep s s'"
      by (rule ap_set_keep [OF wf])
    have one: "lc_keep s (upd_ART (unat ?a) (CurrentState_update (\<lambda>_. ucast ?n)) s)"
      if "unat ?a < 176" "ap_settable (ART s ! unat ?a)"
      using that by (intro lc_keep_upd_ART [OF wf]) (simp_all add: ap_settable_def)
    have "length (ART s) = 176" using wf by (simp add: lc_tables_wf_def)
    then show ?thesis
      using True v s1 all one wf lc_keep_refl [OF wf]
      by (auto simp: LC_SetAPStateCmd_def Let_def)
  qed
qed

lemma LC_SetAPPermOffCmd_keep:
  assumes wf: "lc_tables_wf s"
  shows "\<exists>s'. LC_SetAPPermOffCmd env m s = Some s' \<and> lc_keep s s'"
proof -
  obtain ok s1 where v: "LC_VerifyMsgLength m 12 s = (ok, s1)" by fastforce
  have k: "lc_keep s s1" using LC_VerifyMsgLength_keep [OF wf, of m 12] v by simp
  then have wf1: "lc_tables_wf s1" by (rule lc_keep_wf)
  let ?a = "unat (rd16 (lc_host env) m 8)"
  have "length (ART s1) = 176" using wf1 by (simp add: lc_tables_wf_def)
  moreover have "lc_keep s1 (upd_ART ?a (CurrentState_update (\<lambda>_. LC_APSTATE_PERMOFF)) s1)" if "?a < 176"
    using that by (intro lc_keep_upd_ART [OF wf1]) simp_all
  ultimately show ?thesis
    using v k lc_keep_trans [OF k] by (auto simp: LC_SetAPPermOffCmd_def Let_def)
qed

lemma LC_ResetAPStatsCmd_keep:
  assumes wf: "lc_tables_wf s"
  shows "\<exists>s'. LC_ResetAPStatsCmd env m s = Some s' \<and> lc_keep s s'"
proof -
  obtain ok s1 where v: "LC_VerifyMsgLength m 12 s = (ok, s1)" by fastforce
  have k: "lc_keep s s1" using LC_VerifyMsgLength_keep [OF wf, of m 12] v by simp
  then have wf1: "lc_tables_wf s1" by (rule lc_keep_wf)
  let ?a = "unat (rd16 (lc_host env) m 8)"
  show ?thesis
    using v k lc_keep_trans [OF k] LC_ResetResultsAP_keep [OF wf1, of 175 0] LC_ResetResultsAP_keep [OF wf1, of ?a ?a]
    by (auto simp: LC_ResetAPStatsCmd_def Let_def)
qed

lemma LC_ResetWPStatsCmd_keep:
  assumes wf: "lc_tables_wf s"
  shows "\<exists>s'. LC_ResetWPStatsCmd env m s = Some s' \<and> lc_keep s s'"
proof -
  obtain ok s1 where v: "LC_VerifyMsgLength m 12 s = (ok, s1)" by fastforce
  have k: "lc_keep s s1" using LC_VerifyMsgLength_keep [OF wf, of m 12] v by simp
  then have wf1: "lc_tables_wf s1" by (rule lc_keep_wf)
  let ?a = "unat (rd16 (lc_host env) m 8)"
  show ?thesis
    using v k lc_keep_trans [OF k] LC_ResetResultsWP_keep [OF wf1, of 175 0 True] LC_ResetResultsWP_keep [OF wf1, of ?a ?a True]
    by (auto simp: LC_ResetWPStatsCmd_def Let_def)
qed

definition lc_states :: "u8 set" where
  "lc_states = {LC_STATE_ACTIVE, LC_STATE_PASSIVE, LC_STATE_DISABLED}"

lemma LC_SetLCStateCmd_step:
  assumes wf: "lc_tables_wf s"
  shows "lc_keep s (LC_SetLCStateCmd env m s) \<or>
     (\<exists>c\<in>lc_states. lc_keep (s\<lparr>CurrentLCState := c\<rparr>) (LC_SetLCStateCmd env m s))"
proof -
  obtain ok s1 where v: "LC_VerifyMsgLength m 12 s = (ok, s1)" by fastforce
  have k: "lc_keep s s1" using LC_VerifyMsgLength_keep [OF wf, of m 12] v by simp
  have "lc_tables_wf (s\<lparr>CurrentLCState := c\<rparr>)" for c using wf by (simp add: lc_tables_wf_def)
  then have "lc_keep (s\<lparr>CurrentLCState := c\<rparr>) (evs e t a (cmd_ok (s\<lparr>CurrentLCState := c\<rparr>)))" for c e t a
    by (simp add: lc_keep_refl)
  then show ?thesis
    using v k verified [OF v] by (auto simp: LC_SetLCStateCmd_def lc_states_def Let_def)
qed

lemma LC_command_step:
  assumes wf: "lc_tables_wf s"
  shows "\<exists>s'. LC_command env m s = Some s' \<and>
     (lc_keep s s' \<or> (\<exists>c\<in>lc_states. lc_keep (s\<lparr>CurrentLCState := c\<rparr>) s'))"
proof -
  have noop: "lc_keep s (LC_NoopCmd m s)" and reset: "lc_keep s (LC_ResetCmd m s)"
    using LC_VerifyMsgLength_keep [OF wf, of m 8]
    by (auto simp: LC_NoopCmd_def LC_ResetCmd_def split: prod.split)
  show ?thesis
    using noop reset LC_SetLCStateCmd_step [OF wf, of env m] LC_SetAPStateCmd_keep [OF wf, of env m]
      LC_SetAPPermOffCmd_keep [OF wf, of env m] LC_ResetAPStatsCmd_keep [OF wf, of env m]
      LC_ResetWPStatsCmd_keep [OF wf, of env m] lc_keep_refl [OF wf]
    by (auto simp: LC_command_def Let_def)
qed

section \<open>The invariant of the application\<close>

definition lc_inv :: "lc_state \<Rightarrow> bool" where
  "lc_inv s \<longleftrightarrow> lc_tables_wf s \<and> hash_current s \<and> list_all wp_offset_fits (WDT s) \<and> hk_lengths s \<and>
     CurrentLCState s \<in> lc_states"

text \<open>
  Acceptable inputs: a buffer as long as its header says, and table services that do not fail and
  hand over only well-formed tables whose watchpoint offsets leave room for the datum.
\<close>

definition tables_quiet :: "lc_env \<Rightarrow> bool" where
  "tables_quiet env \<longleftrightarrow> WDT_GetAddress env = TblSame \<and> ADT_GetAddress env = TblSame"

definition lc_acceptable :: "lc_env \<times> bytes \<Rightarrow> bool" where
  "lc_acceptable i \<longleftrightarrow> (case i of (env, m) \<Rightarrow> CFE_MSG_GetSize m \<le> length m \<and>
     (case WDT_GetAddress env of TblSame \<Rightarrow> True | TblUpdated t \<Rightarrow> wdt_wf t \<and> list_all wp_offset_fits t
        | TblFailed e \<Rightarrow> False) \<and>
     (case ADT_GetAddress env of TblSame \<Rightarrow> True | TblUpdated t \<Rightarrow> adt_wf t | TblFailed e \<Rightarrow> False))"

lemma lc_keep_inv:
  assumes "lc_inv s" and "lc_keep s s'"
  shows "lc_inv s'"
proof -
  have "hash_current s' = hash_current s"
    using assms(2) by (intro hash_current_cong) (simp_all add: lc_keep_def)
  then show ?thesis using assms by (simp add: lc_inv_def lc_keep_def hk_lengths_def)
qed

lemma lc_inv_state: "\<lbrakk> lc_inv s; c \<in> lc_states \<rbrakk> \<Longrightarrow> lc_inv (s\<lparr>CurrentLCState := c\<rparr>)"
proof -
  assume a: "lc_inv s" "c \<in> lc_states"
  have "hash_current (s\<lparr>CurrentLCState := c\<rparr>) = hash_current s" by (rule hash_current_cong) simp_all
  then show ?thesis using a by (simp add: lc_inv_def lc_tables_wf_def hk_lengths_def)
qed

lemma lc_inv_ART: "\<lbrakk> lc_inv s; length t = 176 \<rbrakk> \<Longrightarrow> lc_inv (s\<lparr>ART := t\<rparr>)"
proof -
  assume a: "lc_inv s" "length t = 176"
  have "hash_current (s\<lparr>ART := t\<rparr>) = hash_current s" by (rule hash_current_cong) simp_all
  then show ?thesis using a by (simp add: lc_inv_def lc_tables_wf_def hk_lengths_def)
qed

lemma lc_inv_ADT: "\<lbrakk> lc_inv s; adt_wf t \<rbrakk> \<Longrightarrow> lc_inv (s\<lparr>ADT := t\<rparr>)"
proof -
  assume a: "lc_inv s" "adt_wf t"
  have "hash_current (s\<lparr>ADT := t\<rparr>) = hash_current s" by (rule hash_current_cong) simp_all
  then show ?thesis using a by (simp add: lc_inv_def lc_tables_wf_def hk_lengths_def)
qed

lemma LC_ResetResultsAP_all:
  assumes "lc_tables_wf s"
  shows "\<exists>t. LC_ResetResultsAP 0 175 False s = Some (s\<lparr>ART := t\<rparr>) \<and> length t = 176 \<and>
     (\<forall>i<176. t ! i = ap_reset False (DefaultState (ADT s ! i)) (ART s ! i))"
proof -
  let ?f = "\<lambda>i. ap_reset False (DefaultState (ADT s ! i))"
  let ?P = "\<lambda>i s'. \<exists>t. s' = s\<lparr>ART := t\<rparr> \<and> rewritten 0 i ?f (ART s) t"
  have len: "length (ART s) = 176" "length (ADT s) = 176"
    using assms by (simp_all add: lc_tables_wf_def adt_wf_def)
  have "\<exists>s'. for_loop 0 176 (ap_reset_round False) s = Some s' \<and> ?P (0 + 176) s'"
  proof (rule for_loop_inv [where P = ?P])
    show "?P 0 s" by (intro exI [of _ "ART s"]) simp
    fix i s1
    assume i: "0 \<le> i" "i < 0 + (176::nat)" and "?P i s1"
    then obtain t where t: "s1 = s\<lparr>ART := t\<rparr>" "rewritten 0 i ?f (ART s) t" by blast
    then have "length t = 176" using len by (simp add: rewritten_def)
    then have "ap_reset_round False i s1 = Some (s\<lparr>ART := upd_at i (?f i) t\<rparr>)"
      using i t(1) len by (simp add: ap_reset_round_def)
    moreover have "rewritten 0 (Suc i) ?f (ART s) (upd_at i (?f i) t)"
      using rewritten_step [OF t(2)] i len by simp
    ultimately show "\<exists>s'. ap_reset_round False i s1 = Some s' \<and> ?P (Suc i) s'" by blast
  qed
  then show ?thesis using len by (auto simp: LC_ResetResultsAP_def rewritten_def)
qed

lemma LC_ManageTables_ok:
  assumes inv: "lc_inv s" and acc: "lc_acceptable (env, m)"
  shows "\<exists>s'. LC_ManageTables env s = Some (0, s') \<and> lc_inv s' \<and> tx s' = tx s \<and> (tables_quiet env \<longrightarrow> s' = s)"
proof -
  let ?t = "snd (CFE_TBL_GetAddress (WDT_GetAddress env) (WDT s))"
  let ?w = "WDT_GetAddress env" and ?a = "ADT_GetAddress env"
  have "\<exists>s1. lc_inv s1 \<and> tx s1 = tx s \<and> (?w = TblSame \<longrightarrow> s1 = s) \<and>
     LC_ManageTables env s = do {
       let (Result, t) = CFE_TBL_GetAddress ?a (ADT s1);
       let s = s1\<lparr>ADT := t\<rparr>;
       if Result = CFE_TBL_INFO_UPDATED
       then map_option (Pair 0) (LC_ResetResultsAP 0 (LC_MAX_ACTIONPOINTS - 1) False s)
       else if Result \<noteq> 0
       then Some (Result, evs LC_ADT_GETADDR_ERR_EID CFE_EVS_EventType_ERROR [Result] s)
       else Some (0, s)
     }"
  proof (cases ?w)
    case TblSame
    then show ?thesis using inv by (intro exI [of _ s]) (simp add: LC_ManageTables_def CFE_TBL_GetAddress_def)
  next
    case (TblUpdated t)
    then have t: "wdt_wf t" "list_all wp_offset_fits t"
      using acc by (simp_all add: lc_acceptable_def)
    let ?s = "s\<lparr>WDT := t\<rparr>"
    have "lc_tables_wf ?s" using inv t by (simp add: lc_inv_def lc_tables_wf_def)
    then obtain s1 where s1: "LC_ResetResultsWP 0 175 False ?s = Some s1" "lc_keep ?s s1"
      using LC_ResetResultsWP_keep [of ?s 175 0 False] by auto
    have tx1: "tx s1 = tx s"
    proof -
      have "\<exists>s'. for_loop 0 176 (wp_reset_round False) ?s = Some s' \<and> (tx s' = tx ?s \<and> length (WRT s') = 176)"
        by (rule for_loop_inv [where P = "\<lambda>_ s'. tx s' = tx ?s \<and> length (WRT s') = 176"])
          (use \<open>lc_tables_wf ?s\<close> in \<open>auto simp: wp_reset_round_def lc_tables_wf_def\<close>)
      then show ?thesis using s1(1) by (simp add: LC_ResetResultsWP_def)
    qed
    have wdt1: "WDT s1 = t" "ADT s1 = ADT s" "lc_tables_wf s1" "CurrentLCState s1 = CurrentLCState s" "hk_lengths s1"
      using s1(2) inv by (simp_all add: lc_keep_def lc_inv_def hk_lengths_def)
    then have "length (WDT s1) = 176" using t by (simp add: wdt_wf_def)
    from LC_CreateHashTable_ok [OF this, of env]
    obtain s2 where s2: "LC_CreateHashTable env s1 = Some s2" "hash_holds (used_watchpoints 0 (WDT s1)) s2"
        "hash_frame s1 s2" by blast
    have "hash_current s2" using s2(2,3) by (simp add: hash_current_def hash_frame_def)
    moreover have "lc_tables_wf s2" using wdt1 hash_frame_wf [OF s2(3)] by simp
    ultimately have "lc_inv s2"
      using s2(3) wdt1 t inv by (simp add: lc_inv_def hash_frame_def hk_lengths_def)
    moreover have "tx s2 = tx s" using s2(3) tx1 by (simp add: hash_frame_def)
    ultimately show ?thesis
      using TblUpdated s1(1) s2(1)
      by (intro exI [of _ s2]) (simp add: LC_ManageTables_def CFE_TBL_GetAddress_def)
  next
    case (TblFailed e)
    then show ?thesis using acc by (simp add: lc_acceptable_def)
  qed
  then obtain s1 where s1: "lc_inv s1" "tx s1 = tx s" "?w = TblSame \<longrightarrow> s1 = s"
    and manage: "LC_ManageTables env s = do {
       let (Result, t) = CFE_TBL_GetAddress ?a (ADT s1);
       let s = s1\<lparr>ADT := t\<rparr>;
       if Result = CFE_TBL_INFO_UPDATED
       then map_option (Pair 0) (LC_ResetResultsAP 0 (LC_MAX_ACTIONPOINTS - 1) False s)
       else if Result \<noteq> 0
       then Some (Result, evs LC_ADT_GETADDR_ERR_EID CFE_EVS_EventType_ERROR [Result] s)
       else Some (0, s)
     }" by blast
  show ?thesis
  proof (cases ?a)
    case TblSame
    then show ?thesis using s1 manage by (simp add: CFE_TBL_GetAddress_def tables_quiet_def)
  next
    case (TblUpdated t)
    then have "lc_inv (s1\<lparr>ADT := t\<rparr>)" using acc s1(1) lc_inv_ADT by (simp add: lc_acceptable_def)
    moreover from this obtain u where "LC_ResetResultsAP 0 175 False (s1\<lparr>ADT := t\<rparr>) = Some (s1\<lparr>ADT := t, ART := u\<rparr>)"
        "length u = 176"
      using LC_ResetResultsAP_all [of "s1\<lparr>ADT := t\<rparr>"] by (auto simp: lc_inv_def)
    ultimately show ?thesis
      using TblUpdated s1 manage lc_inv_ART [of "s1\<lparr>ADT := t\<rparr>" u]
      by (simp add: CFE_TBL_GetAddress_def tables_quiet_def)
  next
    case (TblFailed e)
    then show ?thesis using acc by (simp add: lc_acceptable_def)
  qed
qed

text \<open>No command sends anything to another application, and each counts once.\<close>

lemma for_loop_pres:
  assumes "\<And>i s s'. f i s = Some s' \<Longrightarrow> g s' = g s" and "for_loop lo n f s = Some s'"
  shows "g s' = g s"
  using assms(2)
proof (induction n arbitrary: lo s)
  case 0
  then show ?case by simp
next
  case (Suc n)
  then obtain s1 where s1: "f lo s = Some s1" "for_loop (Suc lo) n f s1 = Some s'"
    by (auto simp: bind_eq_Some_conv)
  then show ?case using Suc.IH [OF s1(2)] assms(1) [OF s1(1)] by simp
qed

definition counters :: "lc_state \<Rightarrow> u16 \<times> u16 \<times> bytes list \<times> LC_HkPacket list" where
  "counters s = (CmdCount s, CmdErrCount s, tx s, hk_tx s)"

lemma counters_loops [simp]:
  "LC_ResetResultsAP a b r s = Some s' \<Longrightarrow> counters s' = counters s"
  "LC_ResetResultsWP a b r s = Some s' \<Longrightarrow> counters s' = counters s"
  "for_loop lo n (ap_set_round st) s = Some s' \<Longrightarrow> counters s' = counters s"
  unfolding LC_ResetResultsAP_def LC_ResetResultsWP_def
  by (erule for_loop_pres [rotated], auto simp: ap_reset_round_def wp_reset_round_def ap_set_round_def counters_def
        bind_eq_Some_conv)+

lemma counters_steps [simp]:
  "counters (evs e t a s) = counters s" "counters (upd_ART i f s) = counters s"
  "counters (s\<lparr>CurrentLCState := c\<rparr>) = counters s"
  "counters (cmd_ok s) = (CmdCount s + 1, CmdErrCount s, tx s, hk_tx s)"
  "counters (cmd_err s) = (CmdCount s, CmdErrCount s + 1, tx s, hk_tx s)"
  by (simp_all add: counters_def cmd_ok_def cmd_err_def)

text \<open>Counted: exactly one of the two counters is incremented.\<close>

definition counted :: "lc_state \<Rightarrow> lc_state \<Rightarrow> bool" where
  "counted s s' \<longleftrightarrow> tx s' = tx s \<and> hk_tx s' = hk_tx s \<and>
     (CmdCount s' = CmdCount s + 1 \<and> CmdErrCount s' = CmdErrCount s \<or>
      CmdCount s' = CmdCount s \<and> CmdErrCount s' = CmdErrCount s + 1)"

lemma counted_alt: "counted s s' \<longleftrightarrow>
    counters s' = (CmdCount s + 1, CmdErrCount s, tx s, hk_tx s) \<or>
    counters s' = (CmdCount s, CmdErrCount s + 1, tx s, hk_tx s)"
  by (auto simp: counted_def counters_def)

lemma counted_evs [simp]: "counted s (evs e t a s') = counted s s'"
  by (simp add: counted_def)

lemma counted_ok: "counters s' = counters s \<Longrightarrow> counted s (cmd_ok s')"
  and counted_err: "counters s' = counters s \<Longrightarrow> counted s (cmd_err s')"
  by (simp_all add: counted_alt counters_def cmd_ok_def cmd_err_def)

lemma cmd_ok_changes [simp]: "evs e t a (cmd_ok s) \<noteq> s"
proof
  assume "evs e t a (cmd_ok s) = s"
  then have "CmdCount (evs e t a (cmd_ok s)) = CmdCount s" by simp
  then show False by (simp add: cmd_ok_def)
qed

lemma unverified:
  assumes "LC_VerifyMsgLength m n s = (ok, s1)" and "CFE_MSG_GetMsgId m = LC_CMD_MID" and "\<not> ok"
  shows "counted s s1 \<and> CFE_MSG_GetSize m \<noteq> n"
  using assms by (auto simp: LC_VerifyMsgLength_def Let_def counted_err split: if_splits)
lemma LC_command_counts:
  assumes "LC_command env m s = Some s'" and mid: "CFE_MSG_GetMsgId m = LC_CMD_MID"
  shows "(if snd (CFE_MSG_GetFcnCode m) = LC_RESET_CC \<and> CFE_MSG_GetSize m = 8
          then CmdCount s' = 0 \<and> CmdErrCount s' = 0 \<and> tx s' = tx s else counted s s')"
proof -
  let ?cc = "snd (CFE_MSG_GetFcnCode m)"
  obtain ok8 t8 where v8: "LC_VerifyMsgLength m 8 s = (ok8, t8)" by fastforce
  obtain ok12 t12 where v12: "LC_VerifyMsgLength m 12 s = (ok12, t12)" by fastforce
  have ok: "ok8 \<Longrightarrow> t8 = s \<and> CFE_MSG_GetSize m = 8" "ok12 \<Longrightarrow> t12 = s \<and> CFE_MSG_GetSize m = 12"
    using verified [OF v8] verified [OF v12] by simp_all
  have no: "\<not> ok8 \<Longrightarrow> counted s t8 \<and> CFE_MSG_GetSize m \<noteq> 8" "\<not> ok12 \<Longrightarrow> counted s t12"
    using unverified [OF v8 mid] unverified [OF v12 mid] by simp_all
  consider "?cc = 0" | "?cc = 1" | "?cc = 2" | "?cc = 3" | "?cc = 4" | "?cc = 5" | "?cc = 6"
    | "?cc \<notin> {0, 1, 2, 3, 4, 5, 6}" by blast
  then show ?thesis
  proof cases
    case 1
    then show ?thesis using assms(1) v8 ok(1) no(1)
      by (cases ok8) (auto simp: LC_command_def LC_NoopCmd_def counted_ok)
  next
    case 2
    then show ?thesis using assms(1) v8 ok(1) no(1)
      by (cases ok8) (auto simp: LC_command_def LC_ResetCmd_def LC_ResetCounters_def)
  next
    case 3
    then show ?thesis using assms(1) v12 ok(2) no(2)
      by (cases ok12) (auto simp: LC_command_def LC_SetLCStateCmd_def Let_def counted_ok counted_err split: if_splits)
  next
    case 4
    then show ?thesis using assms(1) v12 ok(2) no(2)
      by (cases ok12) (auto simp: LC_command_def LC_SetAPStateCmd_def Let_def counted_ok counted_err bind_eq_Some_conv
          split: if_splits)
  next
    case 5
    then show ?thesis using assms(1) v12 ok(2) no(2)
      by (cases ok12) (auto simp: LC_command_def LC_SetAPPermOffCmd_def Let_def counted_ok counted_err bind_eq_Some_conv
          split: if_splits)
  next
    case 6
    then show ?thesis using assms(1) v12 ok(2) no(2)
      by (cases ok12) (auto simp: LC_command_def LC_ResetAPStatsCmd_def Let_def counted_ok counted_err bind_eq_Some_conv
          split: if_splits)
  next
    case 7
    then show ?thesis using assms(1) v12 ok(2) no(2)
      by (cases ok12) (auto simp: LC_command_def LC_ResetWPStatsCmd_def Let_def counted_ok counted_err bind_eq_Some_conv
          split: if_splits)
  next
    case 8
    then show ?thesis using assms(1) by (auto simp: LC_command_def Let_def counted_err)
  qed
qed

lemma LC_command_tx:
  assumes "LC_command env m s = Some s'" and "CFE_MSG_GetMsgId m = LC_CMD_MID"
  shows "tx s' = tx s"
  using LC_command_counts [OF assms] by (simp add: counted_def split: if_splits)

lemma LC_UpdateTaskCDS_keep [simp]:
  "lc_keep s (snd (LC_UpdateTaskCDS env s')) = lc_keep s s'"
  "tx (snd (LC_UpdateTaskCDS env s')) = tx s'" "hk_tx (snd (LC_UpdateTaskCDS env s')) = hk_tx s'"
  by (simp_all add: LC_UpdateTaskCDS_def Let_def)

lemma LC_PerformMaintenance_ok:
  assumes inv: "lc_inv s" and acc: "lc_acceptable (env, m)"
  shows "\<exists>s'. LC_PerformMaintenance env s = Some (0, s') \<and> lc_inv s' \<and> tx s' = tx s \<and>
     (tables_quiet env \<longrightarrow> lc_keep s s' \<and> hk_tx s' = hk_tx s)"
proof -
  obtain s1 where s1: "LC_ManageTables env s = Some (0, s1)" "lc_inv s1" "tx s1 = tx s"
      "tables_quiet env \<longrightarrow> s1 = s"
    using LC_ManageTables_ok [OF assms] by blast
  obtain st s2 where u: "LC_UpdateTaskCDS env s1 = (st, s2)" by fastforce
  have wf1: "lc_tables_wf s1" using s1(2) by (simp add: lc_inv_def)
  have k: "lc_keep s1 s2" "tx s2 = tx s1" "hk_tx s2 = hk_tx s1"
    using LC_UpdateTaskCDS_keep(1) [of s1 env s1] LC_UpdateTaskCDS_keep(2,3) [of env s1] lc_keep_refl [OF wf1] by (simp_all add: u)
  let ?s = "if HaveActiveCDS s1 then (if st \<noteq> 0 then s2\<lparr>HaveActiveCDS := False\<rparr> else s2) else s1"
  have "LC_PerformMaintenance env s = Some (0, ?s)"
    using s1(1) u by (simp add: LC_PerformMaintenance_def)
  moreover have "lc_keep s1 ?s" using k(1) lc_keep_refl [OF wf1] by simp
  moreover have "tx ?s = tx s" "hk_tx ?s = hk_tx s1" using k s1(3) by simp_all
  ultimately show ?thesis
    using lc_keep_inv [OF s1(2)] s1(4) by metis
qed

lemma LC_HousekeepingReq_ok:
  assumes inv: "lc_inv s" and acc: "lc_acceptable (env, m)"
  shows "\<exists>s'. LC_HousekeepingReq env m s = Some (0, s') \<and> lc_inv s' \<and> tx s' = tx s \<and>
     (tables_quiet env \<longrightarrow> lc_keep s s' \<and>
        hk_tx s' = hk_tx s @ (if CFE_MSG_GetSize m = 8 then [hk_packet_of s] else []))"
proof -
  have wf: "lc_tables_wf s" and hk: "hk_lengths s" using inv by (simp_all add: lc_inv_def)
  obtain ok s1 where v: "LC_VerifyMsgLength m 8 s = (ok, s1)" by fastforce
  have k1: "lc_keep s s1" using LC_VerifyMsgLength_keep [OF wf, of m 8] v by simp
  have no: "ok = (CFE_MSG_GetSize m = 8)" "tx s1 = tx s" "hk_tx s1 = hk_tx s"
    using v by (auto simp: LC_VerifyMsgLength_def Let_def cmd_err_def split: if_splits)
  let ?s2 = "if ok then s\<lparr>HkPacket := hk_packet_of s, hk_tx := hk_tx s @ [hk_packet_of s]\<rparr> else s1"
  have loops: "\<exists>s0. for_loop 0 44 hk_wp_round (hk_counters s) = Some s0 \<and>
      for_loop 0 88 hk_ap_round s0 = Some (s\<lparr>HkPacket := hk_packet_of s\<rparr>)"
    using hk_loops [OF wf hk] by (auto simp: bind_eq_Some_conv)
  have "LC_HousekeepingReq env m s = LC_PerformMaintenance env ?s2"
  proof (cases ok)
    case True
    then have "s1 = s" using verified [OF v] by simp
    with loops v True show ?thesis by (auto simp: LC_HousekeepingReq_def)
  next
    case False
    then show ?thesis using v by (simp add: LC_HousekeepingReq_def)
  qed
  moreover have k: "lc_keep s ?s2"
  proof (cases ok)
    case True
    have "lc_keep s (s\<lparr>HkPacket := hk_packet_of s\<rparr>)"
      using hk by (intro lc_keep_hk [OF wf]) (simp_all add: hk_packet_of_def hk_lengths_def)
    then have "lc_keep s (s\<lparr>HkPacket := hk_packet_of s\<rparr>\<lparr>hk_tx := hk_tx s @ [hk_packet_of s]\<rparr>)"
      unfolding lc_keep_steps .
    then show ?thesis using True by simp
  next
    case False
    then show ?thesis using k1 by simp
  qed
  moreover have "tx ?s2 = tx s" "hk_tx ?s2 = hk_tx s @ (if CFE_MSG_GetSize m = 8 then [hk_packet_of s] else [])"
    using no by simp_all
  ultimately show ?thesis
    using LC_PerformMaintenance_ok [OF lc_keep_inv [OF inv k] acc] lc_keep_trans [OF k] by metis
qed

lemma msg_frame_keep:
  assumes "msg_frame s s'"
  shows "lc_keep s s'"
proof -
  obtain ws es n where "s' = s\<lparr>WRT := ws, events := events s @ es, MonitoredMsgCount := n\<rparr>" "lc_tables_wf s'"
    using assms unfolding msg_frame_def by blast
  then show ?thesis by (simp add: lc_keep_def)
qed

text \<open>Everything at once: the handler returns, keeps the invariant, and what it may change.\<close>

lemma LC_AppPipe_ok:
  assumes inv: "lc_inv s" and acc: "lc_acceptable (env, m)"
  shows "\<exists>s'. LC_AppPipe env m s = Some (0, s') \<and> lc_inv s' \<and>
     (CurrentLCState s \<noteq> LC_STATE_ACTIVE \<longrightarrow> tx s' = tx s) \<and>
     (tables_quiet env \<longrightarrow> (lc_keep s s' \<or> (\<exists>c\<in>lc_states. lc_keep (s\<lparr>CurrentLCState := c\<rparr>) s')))"
proof -
  let ?mid = "CFE_MSG_GetMsgId m"
  have wf: "lc_tables_wf s" and cur: "hash_current s" and fits: "list_all wp_offset_fits (WDT s)"
    using inv by (simp_all add: lc_inv_def)
  have len: "CFE_MSG_GetSize m \<le> length m" using acc by (simp add: lc_acceptable_def)
  consider "?mid = LC_SAMPLE_AP_MID" | "?mid = LC_SEND_HK_MID" | "?mid = LC_CMD_MID"
    | "?mid \<notin> {LC_SAMPLE_AP_MID, LC_SEND_HK_MID, LC_CMD_MID}" by blast
  then show ?thesis
  proof cases
    case 1
    obtain s' where s': "LC_SampleAPReq env m s = Some s'" "lc_keep s s'"
      using LC_SampleAPReq_keep [OF wf, of env m] by blast
    then have "LC_AppPipe env m s = Some (0, s')" using 1 by (simp add: LC_AppPipe_def)
    then show ?thesis using s'(2) lc_keep_inv [OF inv s'(2)] by (auto simp: lc_keep_def)
  next
    case 2
    then show ?thesis using LC_HousekeepingReq_ok [OF assms] by (auto simp: LC_AppPipe_def)
  next
    case 3
    obtain s' where s': "LC_command env m s = Some s'"
        "lc_keep s s' \<or> (\<exists>c\<in>lc_states. lc_keep (s\<lparr>CurrentLCState := c\<rparr>) s')"
      using LC_command_step [OF wf, of env m] by blast
    have tx: "CurrentLCState s \<noteq> LC_STATE_ACTIVE \<longrightarrow> tx s' = tx s"
      using LC_command_tx [OF s'(1) 3] by simp
    have "LC_AppPipe env m s = Some (0, s')" using 3 s'(1) by (simp add: LC_AppPipe_def)
    moreover have "lc_inv s'" using s'(2) lc_keep_inv [OF inv] lc_keep_inv lc_inv_state [OF inv] by blast
    ultimately show ?thesis using tx s'(2) by blast
  next
    case 4
    obtain s' where s': "LC_CheckMsgForWPs env ?mid m s = Some s'" "msg_frame s s'"
      using CheckMsg_ok [OF cur wf fits len] by blast
    note k = msg_frame_keep [OF s'(2)]
    have "LC_AppPipe env m s = Some (0, s')" using 4 s'(1) by (simp add: LC_AppPipe_def)
    then show ?thesis using k lc_keep_inv [OF inv k] by (auto simp: lc_keep_def)
  qed
qed

section \<open>The contract of the handler\<close>

definition lc_handle :: "lc_state \<Rightarrow> lc_env \<times> bytes \<Rightarrow> lc_state option" where
  "lc_handle s i = map_option snd (LC_AppPipe (fst i) (snd i) s)"


text \<open>Without table updates, a permanently disabled actionpoint stays so.\<close>

definition permoff_inv :: "nat \<Rightarrow> lc_state \<Rightarrow> bool" where
  "permoff_inv ap s \<longleftrightarrow> lc_inv s \<and> ap < 176 \<and> CurrentState (ART s ! ap) = LC_APSTATE_PERMOFF"

definition lc_quiet :: "lc_env \<times> bytes \<Rightarrow> bool" where
  "lc_quiet i \<longleftrightarrow> lc_acceptable i \<and> tables_quiet (fst i)"

interpretation permoff: app_handler lc_handle "permoff_inv ap" lc_quiet for ap
proof unfold_locales
  fix s :: lc_state and i :: "lc_env \<times> bytes"
  assume "permoff_inv ap s" "lc_quiet i"
  then show "\<exists>s'. lc_handle s i = Some s' \<and> permoff_inv ap s'"
    using LC_AppPipe_ok [of s "fst i" "snd i"]
    by (auto simp: lc_handle_def permoff_inv_def lc_quiet_def lc_keep_def)
qed


lemma lc_demo_inv: "lc_inv lc_demo_hashed"
proof -
  have "WDT lc_demo_hashed = WDT lc_demo" "CurrentLCState lc_demo_hashed = LC_STATE_ACTIVE"
    "HkPacket lc_demo_hashed = HkPacket lc_demo"
    using lc_demo_hashed(3) by (simp_all add: hash_frame_def lc_demo_def)
  then show ?thesis
    using lc_demo_hashed hash_frame_wf [OF lc_demo_hashed(3)] lc_demo_wf lc_demo_fits
    by (simp add: lc_inv_def hk_lengths_def lc_states_def) (simp add: lc_demo_def)
qed

definition cmd_permoff :: bytes where
  "cmd_permoff = [0x18, 0xA4, 0xC0, 0, 0, 5, 4, 0, 0, 0, 0, 0]"

definition cmd_sample :: bytes where
  "cmd_sample = [0x18, 0xA6, 0xC0, 0, 0, 9, 0, 0, 0, 0, 0, 0, 1, 0, 0, 0]"

definition cmd_hk :: bytes where
  "cmd_hk = [0x18, 0xA5, 0xC0, 0, 0, 1, 0, 0]"

lemma cmd_sizes: "CFE_MSG_GetSize cmd_permoff = 12" "CFE_MSG_GetSize cmd_sample = 16" "CFE_MSG_GetSize cmd_hk = 8"
  "CFE_MSG_GetSize tlm_demo = 16"
  by (code_simp)+

lemma cmd_acceptable: "lc_quiet (lc_env_demo, cmd_permoff)" "lc_quiet (lc_env_demo, cmd_sample)"
  "lc_quiet (lc_env_demo, cmd_hk)" "lc_quiet (lc_env_demo, tlm_demo)"
  by (simp_all add: lc_quiet_def lc_acceptable_def tables_quiet_def lc_env_demo_def cmd_sizes)
    (simp_all add: cmd_permoff_def cmd_sample_def cmd_hk_def tlm_demo_def)


text \<open>
  C16. Unless its state is ACTIVE, the limit checker sends no command to any application, whatever
  message it handles: a passive or disabled limit checker starts no command sequence.
\<close>

theorem LC_AppPipe_passive_silent:
  assumes "lc_inv s" and "lc_acceptable (env, m)" and "CurrentLCState s \<noteq> LC_STATE_ACTIVE"
  shows "\<exists>s'. LC_AppPipe env m s = Some (0, s') \<and> tx s' = tx s"
  using LC_AppPipe_ok [OF assms(1,2)] assms(3) by blast

theorem LC_AppPipe_passive_silent_witness:
  "\<exists>s'. LC_AppPipe lc_env_demo cmd_sample (lc_demo_hashed\<lparr>CurrentLCState := LC_STATE_PASSIVE\<rparr>) = Some (0, s') \<and>
        tx s' = tx lc_demo_hashed"
  using LC_AppPipe_passive_silent [of "lc_demo_hashed\<lparr>CurrentLCState := LC_STATE_PASSIVE\<rparr>" lc_env_demo cmd_sample]
    lc_inv_state [OF lc_demo_inv, of LC_STATE_PASSIVE] cmd_acceptable(2)
  by (simp add: lc_states_def lc_quiet_def)

text \<open>
  C30. A permanently disabled actionpoint stays permanently disabled over every sequence of messages,
  until the actionpoint table itself is replaced: no command and no sampling revives it.
\<close>

theorem LC_PermOff_absorbing:
  assumes "lc_inv s" and "ap < 176" and "CurrentState (ART s ! ap) = LC_APSTATE_PERMOFF"
    and "list_all lc_quiet is"
  shows "\<exists>s'. run_handler lc_handle s is = Some s' \<and> CurrentState (ART s' ! ap) = LC_APSTATE_PERMOFF"
proof -
  have "permoff_inv ap s" using assms(1-3) by (simp add: permoff_inv_def)
  from permoff.run_ok [OF this assms(4)] show ?thesis by (auto simp: permoff_inv_def)
qed

theorem LC_PermOff_absorbing_witness:
  "\<exists>s'. run_handler lc_handle (lc_demo_hashed\<lparr>ART := replicate 176 (ar_clear LC_APSTATE_PERMOFF)\<rparr>)
     [(lc_env_demo, cmd_permoff), (lc_env_demo, cmd_sample)] = Some s' \<and>
     CurrentState (ART s' ! 3) = LC_APSTATE_PERMOFF"
  by (rule LC_PermOff_absorbing [OF lc_inv_ART [OF lc_demo_inv]])
    (use cmd_acceptable in \<open>simp_all add: ar_clear_def\<close>)

text \<open>
  C31. Every ground command counts once: an accepted reset clears both command counters, and any
  other message on the command id, of right or wrong length, with a known or unknown code and with
  good or bad arguments, increments exactly one of the accept and reject counters by one.
\<close>

theorem LC_command_counted:
  assumes "CFE_MSG_GetMsgId m = LC_CMD_MID" and "LC_AppPipe env m s = Some (st, s')"
  shows "if snd (CFE_MSG_GetFcnCode m) = LC_RESET_CC \<and> CFE_MSG_GetSize m = 8
         then CmdCount s' = 0 \<and> CmdErrCount s' = 0 else counted s s'"
proof -
  have "LC_command env m s = Some s'" using assms by (auto simp: LC_AppPipe_def)
  from LC_command_counts [OF this assms(1)] show ?thesis by (auto split: if_splits)
qed

theorem LC_command_counted_witness:
  "counted lc_demo (snd (the (LC_AppPipe lc_env_demo cmd_permoff lc_demo)))"
proof -
  have "CFE_MSG_GetMsgId cmd_permoff = LC_CMD_MID" "snd (CFE_MSG_GetFcnCode cmd_permoff) = 4" by code_simp+
  moreover obtain s' where "LC_command lc_env_demo cmd_permoff lc_demo = Some s'"
    using LC_command_step [OF lc_demo_wf] by blast
  ultimately show ?thesis
    using LC_command_counted [of cmd_permoff lc_env_demo lc_demo 0 s'] by (simp add: LC_AppPipe_def)
qed

section \<open>The housekeeping packet\<close>

definition field2 :: "u8 \<Rightarrow> nat \<Rightarrow> u8" where
  "field2 b i = drop_bit (2 * i) b AND 3"

lemma field2_pack:
  fixes a b c d :: u8
  assumes "a AND 3 = a" "b AND 3 = b" "c AND 3 = c" "d AND 3 = d"
  defines "x \<equiv> push_bit 6 a OR push_bit 4 b OR push_bit 2 c OR d"
  shows "field2 x 3 = a" "field2 x 2 = b" "field2 x 1 = c" "field2 x 0 = d"
proof -
  have m: "(3::u8) = mask 2" by (simp add: mask_eq_exp_minus_1)
  have bits: "bit a n \<Longrightarrow> n < 2" "bit b n \<Longrightarrow> n < 2" "bit c n \<Longrightarrow> n < 2" "bit d n \<Longrightarrow> n < 2" for n
    using assms(1-4) unfolding m by (metis bit_and_iff bit_mask_iff)+
  show "field2 x 3 = a" "field2 x 2 = b" "field2 x 1 = c" "field2 x 0 = d"
    unfolding field2_def x_def m
    by (rule bit_word_eqI; auto simp: bit_simps dest: bits)+
qed

lemma hk_codes [simp]: "hkwr r AND 3 = hkwr r" "hkar r AND 3 = hkar r" "hkar_state r AND 3 = hkar_state r"
  by (simp_all add: hkwr_def hkar_def hkar_state_def)

lemma hk_code_values:
  "hkwr r = 0 \<longleftrightarrow> r = LC_WATCH_FALSE" "hkwr r = 1 \<longleftrightarrow> r = LC_WATCH_TRUE" "hkwr r = 3 \<longleftrightarrow> r = LC_WATCH_STALE"
  "hkar r = 0 \<longleftrightarrow> r = LC_ACTION_PASS" "hkar r = 1 \<longleftrightarrow> r = LC_ACTION_FAIL" "hkar r = 3 \<longleftrightarrow> r = LC_ACTION_STALE"
  "hkar_state c = 1 \<longleftrightarrow> c = LC_APSTATE_ACTIVE" "hkar_state c = 2 \<longleftrightarrow> c = LC_APSTATE_PASSIVE" "hkar_state c = 3 \<longleftrightarrow> c = LC_APSTATE_DISABLED"
  "hkwr r \<le> 3" "hkar r \<le> 3" "hkar_state c \<le> 3"
  by (simp_all add: hkwr_def hkar_def hkar_state_def)

lemma wp_byte_field: "field2 (wp_byte t (i div 4)) (i mod 4) = hkwr (WatchResult (t ! i))"
proof -
  have "i mod 4 = 0 \<or> i mod 4 = 1 \<or> i mod 4 = 2 \<or> i mod 4 = 3" by arith
  moreover have "4 * (i div 4) + i mod 4 = i" by simp
  ultimately show ?thesis
    using field2_pack [OF hk_codes(1) hk_codes(1) hk_codes(1) hk_codes(1)]
    by (elim disjE) (simp_all add: wp_byte_def)
qed

lemma ap_byte_field:
  "field2 (ap_byte t (i div 2)) (2 * (i mod 2)) = hkar (ActionResult (t ! i)) \<and>
   field2 (ap_byte t (i div 2)) (2 * (i mod 2) + 1) = hkar_state (CurrentState (t ! i))"
proof -
  have "i mod 2 = 0 \<or> i mod 2 = 1" by arith
  moreover have "2 * (i div 2) + i mod 2 = i" by simp
  ultimately show ?thesis
    using field2_pack [OF hk_codes(3) hk_codes(2) hk_codes(3) hk_codes(2)]
    by (elim disjE) (simp_all add: ap_byte_def)
qed

text \<open>
  C32. A housekeeping request sends one packet from which the ground reads the state of every one
  of the 176 watchpoints and 176 actionpoints. The two-bit field of a watchpoint is 0 for FALSE, 1 for TRUE,
  3 for STALE and 2 for any other result; the fields of an actionpoint are 0 for PASS, 1 for FAIL, 3 for
  STALE and 2 for any other result, and 1 for ACTIVE, 2 for PASSIVE, 3 for DISABLED and 0 for any other state:
  an actionpoint that is permanently off is not told from one that is not used. The packet's
  count of active actionpoints is their number.
\<close>

theorem LC_HousekeepingReq_roundtrip:
  assumes "lc_inv s" and "lc_quiet (env, m)" and "CFE_MSG_GetSize m = 8" and "i < 176"
  shows "\<exists>s' p. LC_HousekeepingReq env m s = Some (0, s') \<and> hk_tx s' = hk_tx s @ [p] \<and>
     (let wp = field2 (hk_WPResults p ! (i div 4)) (i mod 4);
          ap = field2 (hk_APResults p ! (i div 2)) (2 * (i mod 2));
          st = field2 (hk_APResults p ! (i div 2)) (2 * (i mod 2) + 1)
      in wp \<le> 3 \<and> ap \<le> 3 \<and> st \<le> 3 \<and>
         (wp = 0 \<longleftrightarrow> WatchResult (WRT s ! i) = LC_WATCH_FALSE) \<and>
         (wp = 1 \<longleftrightarrow> WatchResult (WRT s ! i) = LC_WATCH_TRUE) \<and>
         (wp = 3 \<longleftrightarrow> WatchResult (WRT s ! i) = LC_WATCH_STALE) \<and>
         (ap = 0 \<longleftrightarrow> ActionResult (ART s ! i) = LC_ACTION_PASS) \<and>
         (ap = 1 \<longleftrightarrow> ActionResult (ART s ! i) = LC_ACTION_FAIL) \<and>
         (ap = 3 \<longleftrightarrow> ActionResult (ART s ! i) = LC_ACTION_STALE) \<and>
         (st = 1 \<longleftrightarrow> CurrentState (ART s ! i) = LC_APSTATE_ACTIVE) \<and>
         (st = 2 \<longleftrightarrow> CurrentState (ART s ! i) = LC_APSTATE_PASSIVE) \<and>
         (st = 3 \<longleftrightarrow> CurrentState (ART s ! i) = LC_APSTATE_DISABLED)) \<and>
     hk_ActiveAPs p = of_nat (length (filter (\<lambda>a. CurrentState a = LC_APSTATE_ACTIVE) (ART s)))"
proof -
  have "i div 4 < 44" "i div 2 < 88" using assms(4) by simp_all
  then show ?thesis
    using LC_HousekeepingReq_ok [OF assms(1), of env m] assms(2,3) wp_byte_field [of "WRT s" i] ap_byte_field [of "ART s" i]
    by (auto simp: lc_quiet_def hk_packet_of_def hk_code_values)
qed

theorem LC_HousekeepingReq_roundtrip_witness:
  "\<exists>s' p. LC_HousekeepingReq lc_env_demo cmd_hk lc_demo_hashed = Some (0, s') \<and> hk_tx s' = hk_tx lc_demo_hashed @ [p] \<and>
     field2 (hk_WPResults p ! 0) 0 = 1"
  using LC_HousekeepingReq_roundtrip [OF lc_demo_inv cmd_acceptable(3) cmd_sizes(3), of 0] lc_demo_hashed(3) lc_demo_simps(2)
  by (auto simp: hash_frame_def wr_clear_def Let_def)

section \<open>Stale results\<close>

lemma sample_loop_WRT:
  "\<lbrakk> lc_tables_wf s; i + n \<le> 176; sample_loop env i n s = Some s' \<rbrakk> \<Longrightarrow> WRT s' = WRT s"
proof (induction n arbitrary: i s)
  case 0
  then show ?case by simp
next
  case (Suc n)
  obtain s1 where s1: "LC_SampleSingleAP env i s = Some s1" "ap_frame i s s1"
    using LC_SampleSingleAP_frame [of s i env] Suc.prems by auto
  then have "sample_loop env (i + 1) n s1 = Some s'" using Suc.prems by simp
  then show ?case
    using Suc.IH [of s1 "i + 1"] Suc.prems s1(2) ap_frame_wf [OF s1(2)] by (simp add: ap_frame_def)
qed

lemma LC_SampleAPs_WRT:
  assumes "lc_tables_wf s" and "a \<le> b" and "b < 176" and "LC_SampleAPs env a b s = Some s'"
  shows "WRT s' = WRT s"
proof (cases "a = b")
  case True
  have "b < length (ART s)" using assms by (simp add: lc_tables_wf_def)
  then show ?thesis
    using True assms LC_SampleSingleAP_frame [of s b env]
    by (auto simp: LC_SampleAPs_def ap_frame_def split: if_splits)
next
  case False
  then show ?thesis
    using assms sample_loop_WRT [of s a "b + 1 - a" env s'] by (simp add: LC_SampleAPs_def)
qed

text \<open>A sample request that is accepted and asks for ageing.\<close>

definition ages :: "lc_env \<times> bytes \<Rightarrow> bool" where
  "ages i \<longleftrightarrow> (case i of (env, m) \<Rightarrow>
     CFE_MSG_GetMsgId m = LC_SAMPLE_AP_MID \<and> CFE_MSG_GetSize m = 16 \<and> rd16 (lc_host env) m 12 \<noteq> 0 \<and>
     (rd16 (lc_host env) m 8 = LC_ALL_ACTIONPOINTS \<and> rd16 (lc_host env) m 10 = LC_ALL_ACTIONPOINTS \<or>
      rd16 (lc_host env) m 8 \<le> rd16 (lc_host env) m 10 \<and> unat (rd16 (lc_host env) m 10) < 176))"

lemma age_loop:
  assumes "length (WRT s) = 176"
  shows "\<exists>s'. for_loop 0 176 age_round s = Some s' \<and> (\<forall>i<176. WRT s' ! i = age_wp (WRT s ! i))"
proof -
  let ?P = "\<lambda>i s'. \<exists>t. s' = s\<lparr>WRT := t\<rparr> \<and> rewritten 0 i (\<lambda>_. age_wp) (WRT s) t"
  have "\<exists>s'. for_loop 0 176 age_round s = Some s' \<and> ?P (0 + 176) s'"
  proof (rule for_loop_inv [where P = ?P])
    show "?P 0 s" by (intro exI [of _ "WRT s"]) simp
    fix i s1
    assume i: "0 \<le> i" "i < 0 + (176::nat)" and "?P i s1"
    then obtain t where t: "s1 = s\<lparr>WRT := t\<rparr>" "rewritten 0 i (\<lambda>_. age_wp) (WRT s) t" by blast
    then have "age_round i s1 = Some (s\<lparr>WRT := upd_at i age_wp t\<rparr>)"
      using i assms by (simp add: age_round_def rewritten_def)
    then show "\<exists>s'. age_round i s1 = Some s' \<and> ?P (Suc i) s'"
      using rewritten_step [OF t(2)] i assms by auto
  qed
  then show ?thesis using assms by (auto simp: rewritten_def)
qed

lemma LC_SampleAPReq_ages:
  assumes wf: "lc_tables_wf s" and on: "CurrentLCState s \<noteq> LC_STATE_DISABLED" and "ages (env, m)"
  shows "\<exists>s'. lc_handle s (env, m) = Some s' \<and> lc_keep s s' \<and> (\<forall>i<176. WRT s' ! i = age_wp (WRT s ! i))"
proof -
  let ?a = "rd16 (lc_host env) m 8" and ?b = "rd16 (lc_host env) m 10"
  have m: "CFE_MSG_GetMsgId m = LC_SAMPLE_AP_MID" "CFE_MSG_GetSize m = 16" "rd16 (lc_host env) m 12 \<noteq> 0"
      "?a = 0xFFFF \<and> ?b = 0xFFFF \<or> ?a \<le> ?b \<and> unat ?b < 176"
    using assms(3) by (auto simp: ages_def)
  have v: "LC_VerifyMsgLength m 16 s = (True, s)" using m(2) by (simp add: LC_VerifyMsgLength_def)
  let ?lo = "if ?a = 0xFFFF \<and> ?b = 0xFFFF then 0 else unat ?a" and ?hi = "if ?a = 0xFFFF \<and> ?b = 0xFFFF then 175 else unat ?b"
  have range: "?lo \<le> ?hi" "?hi < 176" using m(4) by (auto simp: word_le_nat_alt)
  then obtain s1 where s1: "LC_SampleAPs env ?lo ?hi s = Some s1" "lc_keep s s1"
    using LC_SampleAPs_keep [OF wf] by blast
  have wrt: "WRT s1 = WRT s" using LC_SampleAPs_WRT [OF wf range s1(1)] .
  have wf1: "lc_tables_wf s1" using s1(2) by (rule lc_keep_wf)
  then obtain s2 where s2: "for_loop 0 176 age_round s1 = Some s2" "\<forall>i<176. WRT s2 ! i = age_wp (WRT s1 ! i)"
    using age_loop [of s1] by (auto simp: lc_tables_wf_def)
  have "LC_SampleAPReq env m s = Some s2"
    using v on m(3,4) s1(1) s2(1) by (cases "?a = 0xFFFF \<and> ?b = 0xFFFF") (auto simp: LC_SampleAPReq_def Let_def)
  moreover have "lc_keep s s2"
    using LC_SampleAPReq_keep [OF wf, of env m] calculation by auto
  ultimately show ?thesis using m(1) s2(2) wrt by (simp add: lc_handle_def LC_AppPipe_def)
qed

lemma age_twice: "CountdownToStale (age_wp w) = CountdownToStale w - (if CountdownToStale w = 0 then 0 else 1)"
  "CountdownToStale w = 0 \<Longrightarrow> age_wp w = w" "CountdownToStale w = 1 \<Longrightarrow> WatchResult (age_wp w) = LC_WATCH_STALE"
  by (simp_all add: age_wp_def Let_def)

lemma ages_run:
  assumes "lc_tables_wf s" and "CurrentLCState s \<noteq> LC_STATE_DISABLED" and "list_all ages is" and "i < 176"
  shows "\<exists>s'. run_handler lc_handle s is = Some s' \<and>
     ((CountdownToStale (WRT s ! i) = 0 \<and> WatchResult (WRT s ! i) = LC_WATCH_STALE) \<or>
      (0 < CountdownToStale (WRT s ! i) \<and> unat (CountdownToStale (WRT s ! i)) \<le> length is) \<longrightarrow>
      WatchResult (WRT s' ! i) = LC_WATCH_STALE)"
  using assms(1-3)
proof (induction "is" arbitrary: s)
  case Nil
  then show ?case by (auto simp: word_gt_0 unat_eq_0)
next
  case (Cons x xs)
  obtain env m where x: "x = (env, m)" by fastforce
  obtain s1 where s1: "lc_handle s x = Some s1" "lc_keep s s1" "WRT s1 ! i = age_wp (WRT s ! i)"
    using LC_SampleAPReq_ages [of s env m] Cons.prems x assms(4) by auto
  then have "lc_tables_wf s1" "CurrentLCState s1 \<noteq> LC_STATE_DISABLED"
    using Cons.prems by (simp_all add: lc_keep_def)
  from Cons.IH [OF this] Cons.prems obtain s' where s': "run_handler lc_handle s1 xs = Some s'"
    "(CountdownToStale (WRT s1 ! i) = 0 \<and> WatchResult (WRT s1 ! i) = LC_WATCH_STALE) \<or>
      (0 < CountdownToStale (WRT s1 ! i) \<and> unat (CountdownToStale (WRT s1 ! i)) \<le> length xs) \<longrightarrow>
      WatchResult (WRT s' ! i) = LC_WATCH_STALE" by auto
  let ?c = "CountdownToStale (WRT s ! i)"
  have "WatchResult (WRT s' ! i) = LC_WATCH_STALE"
    if "(?c = 0 \<and> WatchResult (WRT s ! i) = LC_WATCH_STALE) \<or> (0 < ?c \<and> unat ?c \<le> length (x # xs))"
  proof (cases "?c = 0")
    case True
    then show ?thesis using that s1(3) s'(2) age_twice(2) by (simp add: word_gt_0)
  next
    case False
    then have c: "CountdownToStale (WRT s1 ! i) = ?c - 1" "unat ?c \<le> Suc (length xs)"
      using s1(3) age_twice(1) that by (simp_all add: word_gt_0)
    show ?thesis
    proof (cases "?c = 1")
      case True
      then show ?thesis using s'(2) s1(3) c(1) age_twice(3) by simp
    next
      case False
      then have "?c - 1 \<noteq> 0" by (metis eq_iff_diff_eq_0)
      moreover have "unat (?c - 1) = unat ?c - 1" using \<open>?c \<noteq> 0\<close> by (simp add: unat_minus_one)
      ultimately show ?thesis using s'(2) c by (simp add: word_gt_0)
    qed
  qed
  with s1(1) s'(1) show ?case by auto
qed

text \<open>
  C33. A watch result does not outlive its age limit: once as many ageing sample requests as its
  countdown says have been handled without the watchpoint being evaluated, it reads STALE.
\<close>

theorem LC_stale_after_countdown:
  assumes "lc_tables_wf s" and "CurrentLCState s \<noteq> LC_STATE_DISABLED" and "list_all ages is" and "i < 176"
    and "0 < CountdownToStale (WRT s ! i)" and "unat (CountdownToStale (WRT s ! i)) \<le> length is"
  shows "\<exists>s'. run_handler lc_handle s is = Some s' \<and> WatchResult (WRT s' ! i) = LC_WATCH_STALE"
  using ages_run [OF assms(1-4)] assms(5,6) by blast

theorem LC_stale_after_countdown_witness:
  "\<exists>s'. run_handler lc_handle (lc_demo\<lparr>WRT := replicate 176 ((wr_clear LC_WATCH_TRUE)\<lparr>CountdownToStale := 2\<rparr>)\<rparr>)
     [(lc_env_demo, cmd_sample), (lc_env_demo, cmd_sample)] = Some s' \<and> WatchResult (WRT s' ! 7) = LC_WATCH_STALE"
proof (rule LC_stale_after_countdown)
  have "CFE_MSG_GetMsgId cmd_sample = LC_SAMPLE_AP_MID" "CFE_MSG_GetSize cmd_sample = 16"
      "rd16 LittleEndian cmd_sample 8 = 0" "rd16 LittleEndian cmd_sample 10 = 0" "rd16 LittleEndian cmd_sample 12 = 1"
    by code_simp+
  then have "ages (lc_env_demo, cmd_sample)" by (simp add: ages_def lc_env_demo_def)
  then show "list_all ages [(lc_env_demo, cmd_sample), (lc_env_demo, cmd_sample)]" by simp
qed (use lc_demo_wf in \<open>simp_all add: lc_tables_wf_def lc_demo_def wr_clear_def list_all_iff watch_values_def\<close>)

end
