(* ===== verification/Cfe_Sb.thy ===== *)
theory Cfe_Sb
  imports Cfe_Msg
begin

text \<open>
  What an application sees of \<open>CFE_SB_TransmitMsg\<close> (\<open>cfe_sb_api.c\<close>): the check of
  \<open>CFE_SB_TransmitMsgValidate\<close> and the copy of the message; what the bus does with the copy is an
  argument. The bus itself is the subject of the theories \<open>Sb_Defs\<close> and following.
\<close>

abbreviation (input) CFE_MISSION_SB_MAX_SB_MSG_SIZE :: nat where "CFE_MISSION_SB_MAX_SB_MSG_SIZE \<equiv> 32768"
abbreviation (input) CFE_SB_BAD_ARGUMENT :: int where "CFE_SB_BAD_ARGUMENT \<equiv> 0xca000003 - 0x100000000"
abbreviation (input) CFE_SB_MSG_TOO_BIG :: int where "CFE_SB_MSG_TOO_BIG \<equiv> 0xca000007 - 0x100000000"

definition sb_msg_check :: "bytes \<Rightarrow> int" where
  "sb_msg_check m =
     (if \<not> CFE_SB_IsValidMsgId (CFE_MSG_GetMsgId m) then CFE_SB_BAD_ARGUMENT
      else if CFE_MSG_GetSize m > CFE_MISSION_SB_MAX_SB_MSG_SIZE then CFE_SB_MSG_TOO_BIG
      else 0)"

text \<open>
  \<open>CFE_SB_TransmitMsg\<close> on a message that starts at the head of a memory area: the message is copied
  only when it is valid; \<open>route\<close> is the status of the rest. The result is the status and the copy.
\<close>

definition sb_send :: "(bytes \<Rightarrow> int) \<Rightarrow> bytes \<Rightarrow> (int \<times> bytes option) option" where
  "sb_send route m =
     (let Status = sb_msg_check m
      in if Status = 0
         then do {
           content \<leftarrow> read_bytes m 0 (CFE_MSG_GetSize m);
           Some (route content, Some content)
         }
         else Some (Status, None))"

lemma sb_send_ok:
  "\<lbrakk> sb_msg_check m = 0; CFE_MSG_GetSize m \<le> length m \<rbrakk> \<Longrightarrow>
   sb_send route m =
     Some (route (take (CFE_MSG_GetSize m) m), Some (take (CFE_MSG_GetSize m) m))"
  by (simp add: sb_send_def)

lemma sb_send_total:
  "CFE_MSG_GetSize m \<le> length m \<Longrightarrow> \<exists>st c. sb_send route m = Some (st, c)"
  by (simp add: sb_send_def Let_def)

end
