(* ===== verification/Sc_Defs.thy ===== *)
theory Sc_Defs
  imports Cfe_Sb Cfe_Tbl
begin

text \<open>
  Data and utilities of the stored command processor (SC): its tables, the control blocks, the
  housekeeping counters (\<open>sc_tbldefs.h\<close>, \<open>sc_app.h\<close>, \<open>sc_msg.h\<close>), and the time and length functions
  (\<open>sc_utils.c\<close>). The C globals \<open>SC_OperData\<close> and \<open>SC_AppData\<close> are one record, with the control
  blocks and the counters of the housekeeping packet as its fields; the rest of the packet is filled
  in when it is sent. A sequence table is the list of its bytes, indexed by 32-bit words as in the
  code. Events, messages and packets sent are logged.
\<close>

section \<open>Constants\<close>

abbreviation (input) SC_NUMBER_OF_RTS :: nat where "SC_NUMBER_OF_RTS \<equiv> 64"
abbreviation (input) SC_NUMBER_OF_ATS :: nat where "SC_NUMBER_OF_ATS \<equiv> 2"
abbreviation (input) SC_MAX_ATS_CMDS :: nat where "SC_MAX_ATS_CMDS \<equiv> 1000"
abbreviation (input) SC_ATS_BUFF_SIZE32 :: nat where "SC_ATS_BUFF_SIZE32 \<equiv> 4000"
abbreviation (input) SC_APPEND_BUFF_SIZE32 :: nat where "SC_APPEND_BUFF_SIZE32 \<equiv> 2000"
abbreviation (input) SC_RTS_BUFF_SIZE32 :: nat where "SC_RTS_BUFF_SIZE32 \<equiv> 75"
abbreviation (input) SC_BYTES_IN_WORD :: nat where "SC_BYTES_IN_WORD \<equiv> 4"
abbreviation (input) SC_ROUND_UP_BYTES :: nat where "SC_ROUND_UP_BYTES \<equiv> 3"
abbreviation (input) SC_ATS_HEADER_SIZE :: nat where "SC_ATS_HEADER_SIZE \<equiv> 8"
abbreviation (input) SC_RTS_HEADER_SIZE :: nat where "SC_RTS_HEADER_SIZE \<equiv> 4"
abbreviation (input) SC_ATS_HDR_WORDS :: nat where "SC_ATS_HDR_WORDS \<equiv> 4"
abbreviation (input) SC_ATS_HDR_NOPKT_WORDS :: nat where "SC_ATS_HDR_NOPKT_WORDS \<equiv> 2"
abbreviation (input) SC_RTS_HDR_WORDS :: nat where "SC_RTS_HDR_WORDS \<equiv> 3"
abbreviation (input) SC_PACKET_MIN_SIZE :: nat where "SC_PACKET_MIN_SIZE \<equiv> 8"
abbreviation (input) SC_PACKET_MAX_SIZE :: nat where "SC_PACKET_MAX_SIZE \<equiv> 256"
abbreviation (input) SC_MAX_CMDS_PER_SEC :: u16 where "SC_MAX_CMDS_PER_SEC \<equiv> 8"
abbreviation (input) SC_LAST_RTS_WITH_EVENTS :: u16 where "SC_LAST_RTS_WITH_EVENTS \<equiv> 20"

abbreviation (input) SC_ATP :: u8 where "SC_ATP \<equiv> 0"
abbreviation (input) SC_RTP :: u8 where "SC_RTP \<equiv> 1"
abbreviation (input) SC_NONE :: u8 where "SC_NONE \<equiv> 0xFF"
abbreviation (input) SC_MAX_TIME :: u32 where "SC_MAX_TIME \<equiv> 0xFFFFFFFF"

abbreviation (input) SC_EMPTY :: "'a::len word" where "SC_EMPTY \<equiv> 0"
abbreviation (input) SC_LOADED :: "'a::len word" where "SC_LOADED \<equiv> 1"
abbreviation (input) SC_IDLE :: "'a::len word" where "SC_IDLE \<equiv> 2"
abbreviation (input) SC_EXECUTED :: "'a::len word" where "SC_EXECUTED \<equiv> 3"
abbreviation (input) SC_SKIPPED :: "'a::len word" where "SC_SKIPPED \<equiv> 4"
abbreviation (input) SC_EXECUTING :: "'a::len word" where "SC_EXECUTING \<equiv> 5"
abbreviation (input) SC_FAILED_CHECKSUM :: "'a::len word" where "SC_FAILED_CHECKSUM \<equiv> 6"
abbreviation (input) SC_FAILED_DISTRIB :: "'a::len word" where "SC_FAILED_DISTRIB \<equiv> 7"
abbreviation (input) SC_STARTING :: "'a::len word" where "SC_STARTING \<equiv> 8"

abbreviation (input) SC_ERROR :: int where "SC_ERROR \<equiv> -1"
abbreviation (input) SC_DUP_TEST_UNUSED :: int where "SC_DUP_TEST_UNUSED \<equiv> -1"
abbreviation (input) SC_INVALID_CMD_NUMBER :: u16 where "SC_INVALID_CMD_NUMBER \<equiv> 0xFFFF"
abbreviation (input) SC_INVALID_RTS_NUMBER :: u16 where "SC_INVALID_RTS_NUMBER \<equiv> 0"

abbreviation (input) SC_CMD_MID :: u32 where "SC_CMD_MID \<equiv> 0x18A9"
abbreviation (input) SC_SEND_HK_MID :: u32 where "SC_SEND_HK_MID \<equiv> 0x18AA"
abbreviation (input) SC_1HZ_WAKEUP_MID :: u32 where "SC_1HZ_WAKEUP_MID \<equiv> 0x18AB"

section \<open>Records\<close>

record SC_AtsInfoTable =
  AtsUseCtr :: u16
  NumberOfCommands :: u16
  AtsSize :: u32

record SC_RtsInfoEntry =
  RtsStatus :: u8
  DisabledFlag :: bool
  ri_CmdCtr :: u8
  ri_CmdErrCtr :: u8
  NextCommandTime :: u32
  NextCommandPtr :: u16
  UseCtr :: u16

record SC_HkTlm =
  hk_AtsNumber :: u8
  hk_AtpState :: u8
  hk_ContinueFlag :: u8
  hk_Err :: u8
  hk_Cmd :: u8
  hk_SwitchPendFlag :: u16
  hk_NumRtsActive :: u16
  hk_RtsNumber :: u16
  hk_RtsActiveCtr :: u16
  hk_RtsActiveErrCtr :: u16
  hk_AtsCmdCtr :: u16
  hk_AtsCmdErrCtr :: u16
  hk_RtsCmdCtr :: u16
  hk_RtsCmdErrCtr :: u16
  hk_LastAtsErrSeq :: u16
  hk_LastAtsErrCmd :: u16
  hk_LastRtsErrSeq :: u16
  hk_LastRtsErrCmd :: u16
  hk_AppendCmdArg :: u16
  hk_AppendEntryCount :: u16
  hk_AppendByteCount :: u16
  hk_AppendLoadCount :: u16
  hk_AtpCmdNumber :: u32
  hk_AtpFreeBytes :: "u32 list"
  hk_NextRtsTime :: u32
  hk_NextAtsTime :: u32
  hk_RtsExecutingStatus :: "u16 list"
  hk_RtsDisabledStatus :: "u16 list"

record sc_state =
  RtsTblAddr :: "bytes list"
  AtsTblAddr :: "bytes list"
  AppendTblAddr :: bytes
  AtsInfoTblAddr :: "SC_AtsInfoTable list"
  RtsInfoTblAddr :: "SC_RtsInfoEntry list"
  NumRtsActive :: u16
  RtsNumber :: u16
  AtpState :: u8
  AtsNumber :: u8
  CmdNumber :: u32
  TimeIndexPtr :: u16
  SwitchPendFlag :: u16
  AtsCmdStatusTblAddr :: "u32 list list"
  AtsDupTestArray :: "int list"
  NumCmdsSec :: u16
  ContinueAtsOnFailureFlag :: u8
  CmdErrCtr :: u8
  CmdCtr :: u8
  RtsActiveCtr :: u16
  RtsActiveErrCtr :: u16
  AtsCmdCtr :: u16
  AtsCmdErrCtr :: u16
  RtsCmdCtr :: u16
  RtsCmdErrCtr :: u16
  LastAtsErrSeq :: u16
  LastAtsErrCmd :: u16
  LastRtsErrSeq :: u16
  LastRtsErrCmd :: u16
  AppendCmdArg :: u16
  AppendEntryCount :: u16
  AppendByteCount :: u16
  AppendLoadCount :: u16
  AtsTimeIndexBuffer :: "u16 list list"
  AtsCmdIndexBuffer :: "int list list"
  NextProcNumber :: u8
  NextAtpTime :: u32
  NextRtpTime :: u32
  CurrentTime :: u32
  AutoStartRTS :: u16
  AppendWordCount :: u16
  sc_events :: "event list"
  sc_tx :: "bytes list"
  sc_hk_tx :: "SC_HkTlm list"

text \<open>
  The environment of one message: the processor's byte order, the time, the status of a message the
  software bus accepted (by how many were sent before), and what \<open>CFE_TBL_GetAddress\<close> returns for the
  table being managed.
\<close>

record sc_env =
  sc_host :: endian
  sc_now :: u32
  Route :: "nat \<Rightarrow> bytes \<Rightarrow> int"
  TblGet :: "u8 tbl_get"

definition sc_evs :: "nat \<Rightarrow> nat \<Rightarrow> int list \<Rightarrow> sc_state \<Rightarrow> sc_state" where
  "sc_evs eid ty args s = s\<lparr>sc_events := sc_events s @ [\<lparr>ev_id = eid, ev_type = ty, ev_args = args\<rparr>]\<rparr>"

definition sc_ok :: "sc_state \<Rightarrow> sc_state" where
  "sc_ok s = s\<lparr>CmdCtr := CmdCtr s + 1\<rparr>"

definition sc_err :: "sc_state \<Rightarrow> sc_state" where
  "sc_err s = s\<lparr>CmdErrCtr := CmdErrCtr s + 1\<rparr>"

definition upd_rts :: "nat \<Rightarrow> (SC_RtsInfoEntry \<Rightarrow> SC_RtsInfoEntry) \<Rightarrow> sc_state \<Rightarrow> sc_state" where
  "upd_rts i f s = s\<lparr>RtsInfoTblAddr := upd_at i f (RtsInfoTblAddr s)\<rparr>"

text \<open>Events and command counters touch nothing else.\<close>

lemma sc_evs_fields [simp]:
  "RtsTblAddr (sc_evs e t as s) = RtsTblAddr s" "AtsTblAddr (sc_evs e t as s) = AtsTblAddr s"
  "AppendTblAddr (sc_evs e t as s) = AppendTblAddr s" "AtsInfoTblAddr (sc_evs e t as s) = AtsInfoTblAddr s"
  "RtsInfoTblAddr (sc_evs e t as s) = RtsInfoTblAddr s" "NumRtsActive (sc_evs e t as s) = NumRtsActive s"
  "RtsNumber (sc_evs e t as s) = RtsNumber s" "AtpState (sc_evs e t as s) = AtpState s"
  "AtsNumber (sc_evs e t as s) = AtsNumber s" "CmdNumber (sc_evs e t as s) = CmdNumber s"
  "TimeIndexPtr (sc_evs e t as s) = TimeIndexPtr s" "SwitchPendFlag (sc_evs e t as s) = SwitchPendFlag s"
  "AtsCmdStatusTblAddr (sc_evs e t as s) = AtsCmdStatusTblAddr s"
  "NumCmdsSec (sc_evs e t as s) = NumCmdsSec s" "AtsTimeIndexBuffer (sc_evs e t as s) = AtsTimeIndexBuffer s"
  "AtsCmdIndexBuffer (sc_evs e t as s) = AtsCmdIndexBuffer s"
  "NextProcNumber (sc_evs e t as s) = NextProcNumber s" "NextAtpTime (sc_evs e t as s) = NextAtpTime s"
  "NextRtpTime (sc_evs e t as s) = NextRtpTime s" "CurrentTime (sc_evs e t as s) = CurrentTime s"
  "AutoStartRTS (sc_evs e t as s) = AutoStartRTS s" "AppendEntryCount (sc_evs e t as s) = AppendEntryCount s"
  "AppendWordCount (sc_evs e t as s) = AppendWordCount s"
  by (simp_all add: sc_evs_def)

lemma sc_ok_fields [simp]:
  "RtsTblAddr (sc_ok s) = RtsTblAddr s" "AtsTblAddr (sc_ok s) = AtsTblAddr s"
  "AppendTblAddr (sc_ok s) = AppendTblAddr s" "AtsInfoTblAddr (sc_ok s) = AtsInfoTblAddr s"
  "RtsInfoTblAddr (sc_ok s) = RtsInfoTblAddr s" "NumRtsActive (sc_ok s) = NumRtsActive s"
  "RtsNumber (sc_ok s) = RtsNumber s" "AtpState (sc_ok s) = AtpState s" "AtsNumber (sc_ok s) = AtsNumber s"
  "CmdNumber (sc_ok s) = CmdNumber s" "TimeIndexPtr (sc_ok s) = TimeIndexPtr s"
  "SwitchPendFlag (sc_ok s) = SwitchPendFlag s" "AtsCmdStatusTblAddr (sc_ok s) = AtsCmdStatusTblAddr s"
  "NumCmdsSec (sc_ok s) = NumCmdsSec s" "AtsTimeIndexBuffer (sc_ok s) = AtsTimeIndexBuffer s"
  "AtsCmdIndexBuffer (sc_ok s) = AtsCmdIndexBuffer s" "NextProcNumber (sc_ok s) = NextProcNumber s"
  "NextAtpTime (sc_ok s) = NextAtpTime s" "NextRtpTime (sc_ok s) = NextRtpTime s"
  "CurrentTime (sc_ok s) = CurrentTime s" "AutoStartRTS (sc_ok s) = AutoStartRTS s"
  "AppendEntryCount (sc_ok s) = AppendEntryCount s" "AppendWordCount (sc_ok s) = AppendWordCount s"
  by (simp_all add: sc_ok_def)

lemma sc_err_fields [simp]:
  "RtsTblAddr (sc_err s) = RtsTblAddr s" "AtsTblAddr (sc_err s) = AtsTblAddr s"
  "AppendTblAddr (sc_err s) = AppendTblAddr s" "AtsInfoTblAddr (sc_err s) = AtsInfoTblAddr s"
  "RtsInfoTblAddr (sc_err s) = RtsInfoTblAddr s" "NumRtsActive (sc_err s) = NumRtsActive s"
  "RtsNumber (sc_err s) = RtsNumber s" "AtpState (sc_err s) = AtpState s"
  "AtsNumber (sc_err s) = AtsNumber s" "CmdNumber (sc_err s) = CmdNumber s"
  "TimeIndexPtr (sc_err s) = TimeIndexPtr s" "SwitchPendFlag (sc_err s) = SwitchPendFlag s"
  "AtsCmdStatusTblAddr (sc_err s) = AtsCmdStatusTblAddr s" "NumCmdsSec (sc_err s) = NumCmdsSec s"
  "AtsTimeIndexBuffer (sc_err s) = AtsTimeIndexBuffer s" "AtsCmdIndexBuffer (sc_err s) = AtsCmdIndexBuffer s"
  "NextProcNumber (sc_err s) = NextProcNumber s" "NextAtpTime (sc_err s) = NextAtpTime s"
  "NextRtpTime (sc_err s) = NextRtpTime s" "CurrentTime (sc_err s) = CurrentTime s"
  "AutoStartRTS (sc_err s) = AutoStartRTS s" "AppendEntryCount (sc_err s) = AppendEntryCount s"
  "AppendWordCount (sc_err s) = AppendWordCount s"
  by (simp_all add: sc_err_def)

text \<open>\<open>NextCmdTime[]\<close>, an array of two.\<close>

definition NextCmdTime :: "u8 \<Rightarrow> sc_state \<Rightarrow> u32 option" where
  "NextCmdTime p s = (if p = SC_ATP then Some (NextAtpTime s) else if p = SC_RTP then Some (NextRtpTime s) else None)"

text \<open>Two-dimensional arrays.\<close>

definition nth2 :: "'a list list \<Rightarrow> nat \<Rightarrow> nat \<Rightarrow> 'a option" where
  "nth2 xss a i = Option.bind (nth_opt xss a) (\<lambda>xs. nth_opt xs i)"

definition upd2 :: "nat \<Rightarrow> nat \<Rightarrow> ('a \<Rightarrow> 'a) \<Rightarrow> 'a list list \<Rightarrow> 'a list list option" where
  "upd2 a i f xss = Option.bind (nth_opt xss a) (\<lambda>xs. map_option (\<lambda>ys. xss[a := ys]) (upd_opt i f xs))"

section \<open>Entries of sequence tables\<close>

text \<open>
  Entry \<open>off\<close> of a relative sequence: the time tag and the message, whose header must lie in the table.
\<close>

definition rts_time :: "endian \<Rightarrow> bytes \<Rightarrow> nat \<Rightarrow> u32 option" where
  "rts_time en tbl off = (if 4 * off + 4 \<le> length tbl then Some (rd32 en tbl (4 * off)) else None)"

definition rts_msg :: "bytes \<Rightarrow> nat \<Rightarrow> bytes option" where
  "rts_msg tbl off = (if 4 * off + SC_RTS_HEADER_SIZE + 6 \<le> length tbl
     then Some (drop (4 * off + SC_RTS_HEADER_SIZE) tbl) else None)"

definition ats_cmd_number :: "endian \<Rightarrow> bytes \<Rightarrow> nat \<Rightarrow> u16 option" where
  "ats_cmd_number en tbl off = (if 4 * off + 4 \<le> length tbl then Some (rd16 en tbl (4 * off + 2)) else None)"

definition SC_GetAtsEntryTime :: "endian \<Rightarrow> bytes \<Rightarrow> int \<Rightarrow> u32 option" where
  "SC_GetAtsEntryTime en tbl e =
     (let p = 4 * nat e
      in if 0 \<le> e \<and> p + SC_ATS_HEADER_SIZE \<le> length tbl
         then Some (push_bit 16 (ucast (rd16 en tbl (p + 4))) + ucast (rd16 en tbl (p + 6)))
         else None)"

definition ats_msg :: "bytes \<Rightarrow> nat \<Rightarrow> bytes option" where
  "ats_msg tbl off = (if 4 * off + SC_ATS_HEADER_SIZE + 6 \<le> length tbl
     then Some (drop (4 * off + SC_ATS_HEADER_SIZE) tbl) else None)"

section \<open>Utilities (\<open>sc_utils.c\<close>)\<close>

definition SC_GetCurrentTime :: "sc_env \<Rightarrow> sc_state \<Rightarrow> sc_state" where
  "SC_GetCurrentTime env s = s\<lparr>CurrentTime := sc_now env\<rparr>"

definition SC_ComputeAbsTime :: "u32 \<Rightarrow> sc_state \<Rightarrow> u32" where
  "SC_ComputeAbsTime RelTime s =
     Seconds (CFE_TIME_Add \<lparr>Seconds = CurrentTime s, Subseconds = 0\<rparr> \<lparr>Seconds = RelTime, Subseconds = 0\<rparr>)"

definition SC_CompareAbsTime :: "u32 \<Rightarrow> u32 \<Rightarrow> bool" where
  "SC_CompareAbsTime AbsTime1 AbsTime2 \<longleftrightarrow>
     CFE_TIME_Compare \<lparr>Seconds = AbsTime1, Subseconds = 0\<rparr> \<lparr>Seconds = AbsTime2, Subseconds = 0\<rparr> = CFE_TIME_A_GT_B"

definition SC_VerifyCmdLength :: "bytes \<Rightarrow> nat \<Rightarrow> sc_state \<Rightarrow> bool \<times> sc_state" where
  "SC_VerifyCmdLength m ExpectedLength s =
     (let ActualLength = CFE_MSG_GetSize m
      in if ExpectedLength \<noteq> ActualLength
         then (let MessageID = CFE_MSG_GetMsgId m; CommandCode = snd (CFE_MSG_GetFcnCode m);
                   s = sc_evs 2 CFE_EVS_EventType_ERROR
                         [uint MessageID, uint CommandCode, int ActualLength, int ExpectedLength] s
               in (False, if MessageID = SC_CMD_MID then sc_err s else s))
         else (True, s))"

text \<open>Index of the sequence that runs, wrapping to an invalid index when there is none.\<close>

definition ats_index :: "sc_state \<Rightarrow> nat" where
  "ats_index s = unat ((ucast (AtsNumber s) :: u16) - 1)"

definition SC_ToggleAtsIndex :: "sc_state \<Rightarrow> nat" where
  "SC_ToggleAtsIndex s = unat (1 - ((ucast (AtsNumber s) :: u16) - 1))"

text \<open>Sending a message that starts at the head of a memory area.\<close>

definition sc_transmit :: "sc_env \<Rightarrow> bytes \<Rightarrow> sc_state \<Rightarrow> (int \<times> sc_state) option" where
  "sc_transmit env m s = do {
     (Result, content) \<leftarrow> sb_send (Route env (length (sc_tx s))) m;
     Some (Result, case content of None \<Rightarrow> s | Some c \<Rightarrow> s\<lparr>sc_tx := sc_tx s @ [c]\<rparr>)
   }"

section \<open>Parts of the state\<close>

text \<open>
  What the operations on absolute sequences, on relative sequences and the once-a-second loop
  change; \<open>row_part\<close> is what belongs to one absolute sequence.
\<close>

definition ats_part where
  "ats_part s = (AtsTblAddr s, AppendTblAddr s, AtsInfoTblAddr s, AtpState s, AtsNumber s, CmdNumber s,
     TimeIndexPtr s, AtsCmdStatusTblAddr s, AtsTimeIndexBuffer s, AtsCmdIndexBuffer s,
     AppendEntryCount s, AppendWordCount s, NextAtpTime s, SwitchPendFlag s)"

definition clock_part where
  "clock_part s = (NumCmdsSec s, CurrentTime s, NextProcNumber s, AutoStartRTS s, RtsNumber s, NextRtpTime s)"

definition rts_part where
  "rts_part s = (RtsTblAddr s, RtsInfoTblAddr s, NumRtsActive s)"

lemma parts_sc [simp]:
  "rts_part (sc_evs e t a s) = rts_part s" "rts_part (sc_ok s) = rts_part s" "rts_part (sc_err s) = rts_part s"
  "ats_part (sc_evs e t a s) = ats_part s" "ats_part (sc_ok s) = ats_part s" "ats_part (sc_err s) = ats_part s"
  "clock_part (sc_evs e t a s) = clock_part s" "clock_part (sc_ok s) = clock_part s"
  "clock_part (sc_err s) = clock_part s"
  by (simp_all add: rts_part_def ats_part_def clock_part_def sc_evs_def sc_ok_def sc_err_def)

lemma tx_sc [simp]: "sc_tx (sc_evs e t a s) = sc_tx s" "sc_tx (sc_ok s) = sc_tx s" "sc_tx (sc_err s) = sc_tx s"
  by (simp_all add: sc_evs_def sc_ok_def sc_err_def)

definition ctl_part where
  "ctl_part s = (AtpState s, AtsNumber s, CmdNumber s, TimeIndexPtr s, NextAtpTime s, SwitchPendFlag s)"

definition append_part where
  "append_part s = (AppendTblAddr s, AppendEntryCount s, AppendWordCount s)"

definition row_part where
  "row_part a s = (length (AtsTblAddr s), length (AtsInfoTblAddr s), length (AtsCmdStatusTblAddr s),
     length (AtsCmdIndexBuffer s), length (AtsTimeIndexBuffer s), AtsTblAddr s ! a, AtsInfoTblAddr s ! a,
     AtsCmdStatusTblAddr s ! a, AtsCmdIndexBuffer s ! a, AtsTimeIndexBuffer s ! a)"

lemma row_part_sc [simp]:
  "row_part a (sc_evs e t as s) = row_part a s" "row_part a (sc_ok s) = row_part a s"
  "row_part a (sc_err s) = row_part a s"
  "ctl_part (sc_evs e t as s) = ctl_part s" "ctl_part (sc_ok s) = ctl_part s" "ctl_part (sc_err s) = ctl_part s"
  "append_part (sc_evs e t as s) = append_part s" "append_part (sc_ok s) = append_part s"
  "append_part (sc_err s) = append_part s"
  by (simp_all add: row_part_def ctl_part_def append_part_def sc_evs_def sc_ok_def sc_err_def)

end
