(* ===== verification/Sc_Rts.thy ===== *)
theory Sc_Rts
  imports Sc_Defs
begin

text \<open>
  Relative time sequences of the stored command processor: the ground commands on them
  (\<open>sc_rtsrq.c\<close>), the choice of the next one and the walk through its table (\<open>sc_state.c\<close>).
\<close>

section \<open>Starting and stopping (\<open>sc_rtsrq.c\<close>)\<close>

text \<open>The initialisation of an info table entry that the start commands share.\<close>

definition rts_begin :: "sc_env \<Rightarrow> nat \<Rightarrow> sc_state \<Rightarrow> sc_state option" where
  "rts_begin env RtsIndex s = do {
     tbl \<leftarrow> nth_opt (RtsTblAddr s) RtsIndex;
     TimeTag \<leftarrow> rts_time (sc_host env) tbl 0;
     let s = upd_rts RtsIndex (\<lambda>r. r\<lparr>RtsStatus := SC_EXECUTING, ri_CmdCtr := 0, ri_CmdErrCtr := 0,
               NextCommandPtr := 0, UseCtr := UseCtr r + 1, NextCommandTime := SC_ComputeAbsTime TimeTag s\<rparr>) s;
     Some (s\<lparr>NumRtsActive := NumRtsActive s + 1, RtsActiveCtr := RtsActiveCtr s + 1\<rparr>)
   }"

definition rts_reject :: "nat \<Rightarrow> int list \<Rightarrow> sc_state \<Rightarrow> sc_state" where
  "rts_reject eid args s =
     (let s = sc_err (sc_evs eid CFE_EVS_EventType_ERROR args s)
      in s\<lparr>RtsActiveErrCtr := RtsActiveErrCtr s + 1\<rparr>)"

definition SC_StartRtsCmd :: "sc_env \<Rightarrow> bytes \<Rightarrow> sc_state \<Rightarrow> sc_state option" where
  "SC_StartRtsCmd env m s = do {
     let (ok, s) = SC_VerifyCmdLength m 12 s;
     let RtsId = rd16 (sc_host env) m 8;
     let RtsIndex = unat (RtsId - 1);
     if \<not> ok then Some (s\<lparr>RtsActiveErrCtr := RtsActiveErrCtr s + 1\<rparr>)
     else if \<not> (RtsId > 0 \<and> unat RtsId \<le> SC_NUMBER_OF_RTS) then Some (rts_reject 77 [uint RtsId] s)
     else do {
       r \<leftarrow> nth_opt (RtsInfoTblAddr s) RtsIndex;
       if DisabledFlag r then Some (rts_reject 76 [uint RtsId] s)
       else if RtsStatus r \<noteq> SC_LOADED then Some (rts_reject 75 [uint RtsId, uint (RtsStatus r)] s)
       else do {
         tbl \<leftarrow> nth_opt (RtsTblAddr s) RtsIndex;
         RtsEntryCmd \<leftarrow> rts_msg tbl 0;
         let CmdLength = CFE_MSG_GetSize RtsEntryCmd;
         if CmdLength \<ge> SC_PACKET_MIN_SIZE \<and> CmdLength \<le> SC_PACKET_MAX_SIZE
         then do {
           s \<leftarrow> rts_begin env RtsIndex s;
           let s = sc_ok s;
           Some (if RtsId \<le> SC_LAST_RTS_WITH_EVENTS
                 then sc_evs 73 CFE_EVS_EventType_INFORMATION [uint RtsId] s
                 else sc_evs 72 CFE_EVS_EventType_DEBUG [uint RtsId] s)
         }
         else Some (rts_reject 74 [uint RtsId, int CmdLength] s)
       }
     }
   }"

text \<open>A group command: range check, a loop over the indices with a count, and the report.\<close>

definition group_ok :: "u16 \<Rightarrow> u16 \<Rightarrow> bool" where
  "group_ok FirstId LastId \<longleftrightarrow> FirstId > 0 \<and> LastId > 0 \<and> unat FirstId \<le> SC_NUMBER_OF_RTS \<and>
     unat LastId \<le> SC_NUMBER_OF_RTS \<and> FirstId \<le> LastId"

definition rts_group ::
  "sc_env \<Rightarrow> bytes \<Rightarrow> nat \<Rightarrow> nat \<Rightarrow> (nat \<Rightarrow> int \<times> sc_state \<Rightarrow> (int \<times> sc_state) option) \<Rightarrow> sc_state \<Rightarrow> sc_state option" where
  "rts_group env m ok_eid err_eid round s = do {
     let (ok, s) = SC_VerifyCmdLength m 12 s;
     let FirstId = rd16 (sc_host env) m 8;
     let LastId = rd16 (sc_host env) m 10;
     if \<not> ok then Some s
     else if group_ok FirstId LastId
     then do {
       (Count, s) \<leftarrow> for_loop (unat (FirstId - 1)) (unat LastId - unat (FirstId - 1)) round (0, s);
       Some (sc_ok (sc_evs ok_eid CFE_EVS_EventType_INFORMATION [uint FirstId, uint LastId, Count] s))
     }
     else Some (sc_err (sc_evs err_eid CFE_EVS_EventType_ERROR [uint FirstId, uint LastId] s))
   }"

definition start_round :: "sc_env \<Rightarrow> nat \<Rightarrow> int \<times> sc_state \<Rightarrow> (int \<times> sc_state) option" where
  "start_round env RtsIndex = (\<lambda>(StartCount, s). do {
     r \<leftarrow> nth_opt (RtsInfoTblAddr s) RtsIndex;
     if DisabledFlag r
     then (let s = sc_evs 127 CFE_EVS_EventType_ERROR [int RtsIndex + 1] s
           in Some (StartCount, s\<lparr>RtsActiveErrCtr := RtsActiveErrCtr s + 1\<rparr>))
     else if RtsStatus r = SC_LOADED
     then map_option (Pair (StartCount + 1)) (rts_begin env RtsIndex s)
     else (let s = sc_evs 126 CFE_EVS_EventType_ERROR [int RtsIndex + 1, uint (RtsStatus r)] s
           in Some (StartCount, s\<lparr>RtsActiveErrCtr := RtsActiveErrCtr s + 1\<rparr>))
   })"

definition SC_StartRtsGrpCmd :: "sc_env \<Rightarrow> bytes \<Rightarrow> sc_state \<Rightarrow> sc_state option" where
  "SC_StartRtsGrpCmd env m = rts_group env m 115 116 (start_round env)"

definition SC_KillRts :: "nat \<Rightarrow> sc_state \<Rightarrow> sc_state" where
  "SC_KillRts RtsIndex s =
     (if RtsIndex \<ge> SC_NUMBER_OF_RTS
      then sc_evs 137 CFE_EVS_EventType_ERROR [int RtsIndex] s
      else if RtsStatus (RtsInfoTblAddr s ! RtsIndex) = SC_EXECUTING
      then (let s = upd_rts RtsIndex (\<lambda>r. r\<lparr>RtsStatus := SC_LOADED, NextCommandTime := SC_MAX_TIME\<rparr>) s
            in if NumRtsActive s > 0 then s\<lparr>NumRtsActive := NumRtsActive s - 1\<rparr> else s)
      else s)"

definition SC_StopRtsCmd :: "sc_env \<Rightarrow> bytes \<Rightarrow> sc_state \<Rightarrow> sc_state" where
  "SC_StopRtsCmd env m s =
     (let (ok, s) = SC_VerifyCmdLength m 12 s; RtsId = rd16 (sc_host env) m 8
      in if \<not> ok then s
         else if unat RtsId \<le> SC_NUMBER_OF_RTS
         then sc_evs 78 CFE_EVS_EventType_INFORMATION [uint RtsId] (sc_ok (SC_KillRts (unat (RtsId - 1)) s))
         else sc_err (sc_evs 79 CFE_EVS_EventType_ERROR [uint RtsId] s))"

definition stop_round :: "nat \<Rightarrow> int \<times> sc_state \<Rightarrow> (int \<times> sc_state) option" where
  "stop_round RtsIndex = (\<lambda>(StopCount, s). do {
     r \<leftarrow> nth_opt (RtsInfoTblAddr s) RtsIndex;
     Some (if RtsStatus r = SC_EXECUTING then (StopCount + 1, SC_KillRts RtsIndex s) else (StopCount, s))
   })"

definition SC_StopRtsGrpCmd :: "sc_env \<Rightarrow> bytes \<Rightarrow> sc_state \<Rightarrow> sc_state option" where
  "SC_StopRtsGrpCmd env m = rts_group env m 117 118 stop_round"

definition set_disabled :: "nat \<Rightarrow> bool \<Rightarrow> sc_state \<Rightarrow> sc_state option" where
  "set_disabled RtsIndex b s =
     map_option (\<lambda>t. s\<lparr>RtsInfoTblAddr := t\<rparr>) (upd_opt RtsIndex (\<lambda>r. r\<lparr>DisabledFlag := b\<rparr>) (RtsInfoTblAddr s))"

definition SC_DisableRtsCmd :: "sc_env \<Rightarrow> bytes \<Rightarrow> sc_state \<Rightarrow> sc_state option" where
  "SC_DisableRtsCmd env m s =
     (let (ok, s) = SC_VerifyCmdLength m 12 s; RtsId = rd16 (sc_host env) m 8
      in if \<not> ok then Some s
         else if unat RtsId \<le> SC_NUMBER_OF_RTS
         then map_option (\<lambda>s. sc_evs 80 CFE_EVS_EventType_DEBUG [uint RtsId] (sc_ok s))
                (set_disabled (unat (RtsId - 1)) True s)
         else Some (sc_err (sc_evs 81 CFE_EVS_EventType_ERROR [uint RtsId] s)))"

definition SC_EnableRtsCmd :: "sc_env \<Rightarrow> bytes \<Rightarrow> sc_state \<Rightarrow> sc_state option" where
  "SC_EnableRtsCmd env m s =
     (let (ok, s) = SC_VerifyCmdLength m 12 s; RtsId = rd16 (sc_host env) m 8
      in if \<not> ok then Some s
         else if RtsId > 0 \<and> unat RtsId \<le> SC_NUMBER_OF_RTS
         then map_option (\<lambda>s. sc_evs 82 CFE_EVS_EventType_DEBUG [uint RtsId] (sc_ok s))
                (set_disabled (unat (RtsId - 1)) False s)
         else Some (sc_err (sc_evs 83 CFE_EVS_EventType_ERROR [uint RtsId] s)))"

definition able_round :: "bool \<Rightarrow> nat \<Rightarrow> int \<times> sc_state \<Rightarrow> (int \<times> sc_state) option" where
  "able_round b RtsIndex = (\<lambda>(Count, s). do {
     r \<leftarrow> nth_opt (RtsInfoTblAddr s) RtsIndex;
     if DisabledFlag r \<noteq> b then map_option (Pair (Count + 1)) (set_disabled RtsIndex b s) else Some (Count, s)
   })"

definition SC_DisableRtsGrpCmd :: "sc_env \<Rightarrow> bytes \<Rightarrow> sc_state \<Rightarrow> sc_state option" where
  "SC_DisableRtsGrpCmd env m = rts_group env m 119 120 (able_round True)"

definition SC_EnableRtsGrpCmd :: "sc_env \<Rightarrow> bytes \<Rightarrow> sc_state \<Rightarrow> sc_state option" where
  "SC_EnableRtsGrpCmd env m = rts_group env m 121 122 (able_round False)"

definition SC_AutoStartRts :: "sc_env \<Rightarrow> u16 \<Rightarrow> sc_state \<Rightarrow> sc_state" where
  "SC_AutoStartRts env RtsNum s =
     (if RtsNum > 0 \<and> unat RtsNum \<le> SC_NUMBER_OF_RTS
      then (let CmdPkt = snd (CFE_MSG_Init SC_CMD_MID 12);
                CmdPkt = snd (CFE_MSG_SetFcnCode CmdPkt 4);
                CmdPkt = wr16 (sc_host env) CmdPkt 8 RtsNum
            in s\<lparr>sc_tx := sc_tx s @ [CmdPkt]\<rparr>)
      else sc_evs 138 CFE_EVS_EventType_ERROR [uint RtsNum] s)"

section \<open>The next command (\<open>sc_state.c\<close>)\<close>

text \<open>The loop of \<open>SC_GetNextRtsTime\<close> from the last index down; \<open>best\<close> is \<open>NextRts\<close> with \<open>NextTime\<close>.\<close>

fun next_rts_loop :: "SC_RtsInfoEntry list \<Rightarrow> nat \<Rightarrow> (nat option \<times> u32) \<Rightarrow> (nat option \<times> u32) option" where
  "next_rts_loop t 0 best = Some best"
| "next_rts_loop t (Suc i) best =
     (case nth_opt t i of None \<Rightarrow> None
      | Some r \<Rightarrow> next_rts_loop t i
          (if RtsStatus r = SC_EXECUTING \<and> NextCommandTime r \<le> snd best
           then (Some i, NextCommandTime r) else best))"

definition SC_GetNextRtsTime :: "sc_state \<Rightarrow> sc_state option" where
  "SC_GetNextRtsTime s = do {
     (NextRts, NextTime) \<leftarrow> next_rts_loop (RtsInfoTblAddr s) SC_NUMBER_OF_RTS (None, SC_MAX_TIME);
     Some (case NextRts of
             None \<Rightarrow> s\<lparr>RtsNumber := SC_INVALID_RTS_NUMBER, NextRtpTime := SC_MAX_TIME\<rparr>
           | Some i \<Rightarrow> s\<lparr>RtsNumber := of_nat (i + 1), NextRtpTime := NextTime\<rparr>)
   }"

definition SC_UpdateNextTime :: "sc_state \<Rightarrow> sc_state option" where
  "SC_UpdateNextTime s = do {
     s \<leftarrow> SC_GetNextRtsTime s;
     let s = s\<lparr>NextProcNumber := SC_NONE\<rparr>;
     let s = (if AtpState s = SC_EXECUTING then s\<lparr>NextProcNumber := SC_ATP\<rparr> else s);
     Some (if RtsNumber s > 0 \<and> NextRtpTime s < NextAtpTime s then s\<lparr>NextProcNumber := SC_RTP\<rparr> else s)
   }"

text \<open>The error report of a sequence whose next command is bad, and its end.\<close>

definition rts_cmd_error :: "nat \<Rightarrow> u16 \<Rightarrow> nat \<Rightarrow> int list \<Rightarrow> sc_state \<Rightarrow> sc_state" where
  "rts_cmd_error RtsIndex CmdOffset eid args s =
     (let s = s\<lparr>RtsCmdErrCtr := RtsCmdErrCtr s + 1\<rparr>;
          s = upd_rts RtsIndex (\<lambda>r. r\<lparr>ri_CmdErrCtr := ri_CmdErrCtr r + 1\<rparr>) s;
          s = s\<lparr>LastRtsErrSeq := RtsNumber s, LastRtsErrCmd := CmdOffset\<rparr>
      in sc_evs eid CFE_EVS_EventType_ERROR args (SC_KillRts RtsIndex s))"

definition rts_completed :: "nat \<Rightarrow> sc_state \<Rightarrow> sc_state" where
  "rts_completed RtsIndex s =
     (let s = SC_KillRts RtsIndex s
      in if RtsNumber s \<le> SC_LAST_RTS_WITH_EVENTS
         then sc_evs 86 CFE_EVS_EventType_INFORMATION [uint (RtsNumber s)] s else s)"

text \<open>Words taken by an entry with a message of \<open>n\<close> bytes.\<close>

definition rts_words :: "nat \<Rightarrow> nat" where
  "rts_words n = (n + SC_RTS_HEADER_SIZE + SC_ROUND_UP_BYTES) div SC_BYTES_IN_WORD"

definition SC_GetNextRtsCommand :: "sc_env \<Rightarrow> sc_state \<Rightarrow> sc_state option" where
  "SC_GetNextRtsCommand env s =
     (if RtsNumber s > 0 \<and> unat (RtsNumber s) \<le> SC_NUMBER_OF_RTS
      then do {
        let RtsIndex = unat (RtsNumber s - 1);
        r \<leftarrow> nth_opt (RtsInfoTblAddr s) RtsIndex;
        if RtsStatus r = SC_EXECUTING
        then do {
          tbl \<leftarrow> nth_opt (RtsTblAddr s) RtsIndex;
          msg \<leftarrow> rts_msg tbl (unat (NextCommandPtr r));
          let CmdOffset = NextCommandPtr r + of_nat (rts_words (CFE_MSG_GetSize msg));
          if unat CmdOffset \<le> SC_RTS_BUFF_SIZE32 - SC_RTS_HDR_WORDS
          then do {
            msg \<leftarrow> rts_msg tbl (unat CmdOffset);
            let n = CFE_MSG_GetSize msg;
            if n \<ge> SC_PACKET_MIN_SIZE
            then if n \<le> SC_PACKET_MAX_SIZE
                 then if unat CmdOffset + rts_words n \<le> SC_RTS_BUFF_SIZE32
                      then do {
                        TimeTag \<leftarrow> rts_time (sc_host env) tbl (unat CmdOffset);
                        Some (upd_rts RtsIndex (\<lambda>r. r\<lparr>NextCommandTime := SC_ComputeAbsTime TimeTag s,
                                                      NextCommandPtr := CmdOffset\<rparr>) s)
                      }
                      else Some (rts_cmd_error RtsIndex CmdOffset 84 [uint (RtsNumber s)] s)
                 else Some (rts_cmd_error RtsIndex CmdOffset 85
                              [uint (RtsNumber s), int n, int SC_PACKET_MAX_SIZE] s)
            else Some (rts_completed RtsIndex s)
          }
          else Some (rts_completed RtsIndex s)
        }
        else Some s
      }
      else Some s)"

section \<open>The relative time processor (\<open>sc_cmds.c\<close>)\<close>

text \<open>
  The checksum of the command is computed but not used: the code tests \<open>true\<close> instead.
\<close>

definition SC_ProcessRtpCommand :: "sc_env \<Rightarrow> sc_state \<Rightarrow> sc_state option" where
  "SC_ProcessRtpCommand env s = do {
     time \<leftarrow> NextCmdTime (NextProcNumber s) s;
     if time \<le> CurrentTime s \<and> NextProcNumber s = SC_RTP \<and> RtsNumber s > 0 \<and>
        unat (RtsNumber s) \<le> SC_NUMBER_OF_RTS
     then do {
       let RtsIndex = unat (RtsNumber s - 1);
       r \<leftarrow> nth_opt (RtsInfoTblAddr s) RtsIndex;
       if RtsStatus r = SC_EXECUTING
       then do {
         let s = s\<lparr>NumCmdsSec := NumCmdsSec s + 1\<rparr>;
         let CmdOffset = NextCommandPtr r;
         tbl \<leftarrow> nth_opt (RtsTblAddr s) RtsIndex;
         msg \<leftarrow> rts_msg tbl (unat CmdOffset);
         _ \<leftarrow> CFE_MSG_ValidateChecksum msg;
         (Result, s) \<leftarrow> sc_transmit env msg s;
         if Result = 0
         then SC_GetNextRtsCommand env
                (upd_rts RtsIndex (\<lambda>r. r\<lparr>ri_CmdCtr := ri_CmdCtr r + 1\<rparr>) (s\<lparr>RtsCmdCtr := RtsCmdCtr s + 1\<rparr>))
         else (let s = sc_evs 49 CFE_EVS_EventType_ERROR [uint (RtsNumber s), Result] s;
                   s = s\<lparr>RtsCmdErrCtr := RtsCmdErrCtr s + 1\<rparr>;
                   s = upd_rts RtsIndex (\<lambda>r. r\<lparr>ri_CmdErrCtr := ri_CmdErrCtr r + 1\<rparr>) s
               in Some (SC_KillRts RtsIndex (s\<lparr>LastRtsErrSeq := RtsNumber s, LastRtsErrCmd := CmdOffset\<rparr>)))
       }
       else Some s
     }
     else Some s
   }"

section \<open>The invariant of relative sequences\<close>

text \<open>
  An entry fits when its message lies in the table. A sequence that is loaded has a table of full
  size whose first entry fits, and a sequence that executes points to an entry that fits; the count
  of active sequences is the number of those that execute.
\<close>

definition rts_fits :: "bytes \<Rightarrow> nat \<Rightarrow> bool" where
  "rts_fits tbl off \<longleftrightarrow> 4 * off + 10 \<le> length tbl \<and>
     4 * off + 4 + CFE_MSG_GetSize (drop (4 * off + 4) tbl) \<le> length tbl"

definition rts_image_ok :: "bytes \<Rightarrow> bool" where
  "rts_image_ok tbl \<longleftrightarrow> length tbl = 4 * SC_RTS_BUFF_SIZE32 \<and> rts_fits tbl 0"

definition rts_entry_ok :: "bytes \<Rightarrow> SC_RtsInfoEntry \<Rightarrow> bool" where
  "rts_entry_ok tbl r \<longleftrightarrow> (RtsStatus r = SC_EMPTY \<or> RtsStatus r = SC_LOADED \<or> RtsStatus r = SC_EXECUTING) \<and>
     (RtsStatus r \<noteq> SC_EMPTY \<longrightarrow> rts_image_ok tbl) \<and>
     (RtsStatus r = SC_EXECUTING \<longrightarrow> rts_fits tbl (unat (NextCommandPtr r)))"

definition rts_inv :: "sc_state \<Rightarrow> bool" where
  "rts_inv s \<longleftrightarrow> length (RtsInfoTblAddr s) = SC_NUMBER_OF_RTS \<and> length (RtsTblAddr s) = SC_NUMBER_OF_RTS \<and>
     (\<forall>i<SC_NUMBER_OF_RTS. rts_entry_ok (RtsTblAddr s ! i) (RtsInfoTblAddr s ! i))"

definition rts_executing :: "sc_state \<Rightarrow> nat \<Rightarrow> bool" where
  "rts_executing s i \<longleftrightarrow> RtsStatus (RtsInfoTblAddr s ! i) = SC_EXECUTING"

definition rts_count :: "sc_state \<Rightarrow> bool" where
  "rts_count s \<longleftrightarrow>
     unat (NumRtsActive s) = length (filter (\<lambda>r. RtsStatus r = SC_EXECUTING) (RtsInfoTblAddr s))"

lemma rts_inv_part: "rts_part s' = rts_part s \<Longrightarrow> rts_inv s' = rts_inv s"
  by (simp add: rts_part_def rts_inv_def)

lemma rts_count_part: "rts_part s' = rts_part s \<Longrightarrow> rts_count s' = rts_count s"
  by (simp add: rts_part_def rts_count_def)

text \<open>An operation on relative sequences keeps both invariants and the rest of the state.\<close>

definition rts_keep :: "sc_state \<Rightarrow> sc_state \<Rightarrow> bool" where
  "rts_keep s s' \<longleftrightarrow> (rts_inv s \<longrightarrow> rts_inv s' \<and> (rts_count s \<longrightarrow> rts_count s')) \<and>
     ats_part s' = ats_part s \<and> clock_part s' = clock_part s \<and> sc_tx s' = sc_tx s"

lemma rts_keep_refl [simp]: "rts_keep s s"
  by (simp add: rts_keep_def)

lemma rts_keep_trans: "\<lbrakk> rts_keep s s1; rts_keep s1 s2 \<rbrakk> \<Longrightarrow> rts_keep s s2"
  by (simp add: rts_keep_def)

lemma rts_keepI:
  "\<lbrakk> rts_part s' = rts_part s; ats_part s' = ats_part s; clock_part s' = clock_part s; sc_tx s' = sc_tx s \<rbrakk>
   \<Longrightarrow> rts_keep s s'"
  by (auto simp: rts_keep_def dest: rts_inv_part rts_count_part)

lemma rts_inv_sc [simp]:
  "rts_inv (sc_evs e t a s) = rts_inv s" "rts_inv (sc_ok s) = rts_inv s" "rts_inv (sc_err s) = rts_inv s"
  by (rule rts_inv_part, simp)+

lemma rts_count_sc [simp]:
  "rts_count (sc_evs e t a s) = rts_count s" "rts_count (sc_ok s) = rts_count s" "rts_count (sc_err s) = rts_count s"
  by (rule rts_count_part, simp)+

lemma rts_keep_sc [simp]:
  "rts_keep s0 (sc_evs e t a s) = rts_keep s0 s" "rts_keep s0 (sc_ok s) = rts_keep s0 s"
  "rts_keep s0 (sc_err s) = rts_keep s0 s"
  by (simp_all add: rts_keep_def)

text \<open>One info table entry changes; the count changes with its status.\<close>

lemma upd_rts_keep:
  assumes "rts_entry_ok (RtsTblAddr s ! i) (RtsInfoTblAddr s ! i) \<Longrightarrow>
      rts_entry_ok (RtsTblAddr s ! i) (f (RtsInfoTblAddr s ! i))"
    and "i < SC_NUMBER_OF_RTS" and "rts_inv s"
  shows "rts_inv (upd_rts i f s)"
  using assms by (auto simp: rts_inv_def upd_rts_def)

lemma rts_count_upd:
  assumes "i < SC_NUMBER_OF_RTS" "rts_inv s" "rts_count s"
  shows "unat (NumRtsActive s) + (if RtsStatus (f (RtsInfoTblAddr s ! i)) = SC_EXECUTING then 1 else 0) =
    length (filter (\<lambda>r. RtsStatus r = SC_EXECUTING) (RtsInfoTblAddr (upd_rts i f s))) +
      (if rts_executing s i then 1 else 0)"
  using assms length_filter_upd_at [of i "RtsInfoTblAddr s" "\<lambda>r. RtsStatus r = SC_EXECUTING" f]
  by (simp add: rts_count_def upd_rts_def rts_inv_def rts_executing_def)

lemma rts_active_bound: "\<lbrakk> rts_inv s; rts_count s \<rbrakk> \<Longrightarrow> unat (NumRtsActive s) \<le> SC_NUMBER_OF_RTS"
  using length_filter_le [of "\<lambda>r. RtsStatus r = SC_EXECUTING" "RtsInfoTblAddr s"]
  by (simp add: rts_count_def rts_inv_def)

lemma rts_fits_msg:
  assumes "rts_fits tbl off"
  obtains msg where "rts_msg tbl off = Some msg" "msg = drop (4 * off + 4) tbl" "CFE_MSG_GetSize msg \<le> length msg"
    "6 \<le> length msg"
  using assms by (auto simp: rts_fits_def rts_msg_def)

lemma rts_begin_keep:
  assumes "rts_inv s" "i < SC_NUMBER_OF_RTS" "RtsStatus (RtsInfoTblAddr s ! i) = SC_LOADED"
  shows "\<exists>s'. rts_begin env i s = Some s' \<and> rts_keep s s'"
proof -
  let ?f = "\<lambda>r. r\<lparr>RtsStatus := SC_EXECUTING, ri_CmdCtr := 0, ri_CmdErrCtr := 0, NextCommandPtr := 0,
      UseCtr := UseCtr r + 1, NextCommandTime := SC_ComputeAbsTime (rd32 (sc_host env) (RtsTblAddr s ! i) 0) s\<rparr>"
  let ?s = "upd_rts i ?f s"
  let ?s' = "?s\<lparr>NumRtsActive := NumRtsActive s + 1, RtsActiveCtr := RtsActiveCtr s + 1\<rparr>"
  have len: "length (RtsTblAddr s) = SC_NUMBER_OF_RTS" and ok: "rts_image_ok (RtsTblAddr s ! i)"
    using assms by (auto simp: rts_inv_def rts_entry_ok_def)
  have eq: "rts_begin env i s = Some ?s'"
    using len ok assms(2) by (simp add: rts_begin_def rts_time_def rts_image_ok_def upd_rts_def)
  have inv: "rts_inv ?s'"
  proof -
    have "rts_inv ?s" using ok assms by (intro upd_rts_keep) (auto simp: rts_entry_ok_def rts_image_ok_def)
    then show ?thesis by (simp add: rts_inv_def)
  qed
  have "rts_count ?s'" if "rts_count s"
    using rts_count_upd [OF assms(2,1) that, of ?f] rts_active_bound [OF assms(1) that] assms(3)
    by (simp add: rts_count_def rts_executing_def unat_word_ariths)
  with eq inv show ?thesis
    by (auto simp: rts_keep_def ats_part_def clock_part_def upd_rts_def)
qed

lemma SC_KillRts_keep [simp]: "rts_keep s (SC_KillRts i s)"
proof -
  let ?f = "\<lambda>r. r\<lparr>RtsStatus := SC_LOADED, NextCommandTime := SC_MAX_TIME\<rparr>"
  let ?s = "upd_rts i ?f s"
  have main: "rts_keep s (if NumRtsActive s > 0 then ?s\<lparr>NumRtsActive := NumRtsActive s - 1\<rparr> else ?s)"
    if i: "i < SC_NUMBER_OF_RTS" and ex: "RtsStatus (RtsInfoTblAddr s ! i) = SC_EXECUTING"
  proof -
    have inv: "rts_inv ?s" if "rts_inv s"
      using i ex that by (intro upd_rts_keep) (auto simp: rts_entry_ok_def)
    have pos: "unat (NumRtsActive s) = Suc (length (filter (\<lambda>r. RtsStatus r = SC_EXECUTING) (RtsInfoTblAddr ?s)))"
      if "rts_inv s" "rts_count s"
      using rts_count_upd [OF i that, of ?f] ex by (simp add: rts_executing_def)
    have "rts_count (if NumRtsActive s > 0 then ?s\<lparr>NumRtsActive := NumRtsActive s - 1\<rparr> else ?s)"
      if "rts_inv s" "rts_count s"
      using pos [OF that]
      by (auto simp: rts_count_def word_less_nat_alt word_le_nat_alt unat_sub)
    with inv show ?thesis
      by (auto simp: rts_keep_def rts_inv_def ats_part_def clock_part_def upd_rts_def)
  qed
  show ?thesis
    using main by (auto simp: SC_KillRts_def Let_def upd_rts_def not_le)
qed

text \<open>The length check: a message of the right length leaves the state alone.\<close>

lemma SC_VerifyCmdLength_ok: "\<lbrakk> SC_VerifyCmdLength m n s = (ok, s1); ok \<rbrakk> \<Longrightarrow> s1 = s \<and> CFE_MSG_GetSize m = n"
  by (auto simp: SC_VerifyCmdLength_def Let_def split: if_splits)

lemma SC_VerifyCmdLength_keep: "SC_VerifyCmdLength m n s = (ok, s1) \<Longrightarrow> rts_keep s s1"
  by (auto simp: SC_VerifyCmdLength_def Let_def split: if_splits)

lemma rts_reject_keep [simp]: "rts_keep s (rts_reject eid args s)"
proof -
  have "rts_keep s0 (s\<lparr>RtsActiveErrCtr := x\<rparr>) = rts_keep s0 s" for s0 s x
    by (simp add: rts_keep_def rts_inv_def rts_count_def ats_part_def clock_part_def)
  then show ?thesis by (simp add: rts_reject_def Let_def)
qed

lemma RtsActiveErrCtr_keep [simp]: "rts_keep s0 (s\<lparr>RtsActiveErrCtr := x\<rparr>) = rts_keep s0 s"
  by (simp add: rts_keep_def rts_inv_def rts_count_def ats_part_def clock_part_def)

lemma SC_StartRtsCmd_keep:
  assumes "rts_inv s"
  shows "\<exists>s'. SC_StartRtsCmd env m s = Some s' \<and> rts_keep s s'"
proof -
  obtain ok s1 where v: "SC_VerifyCmdLength m 12 s = (ok, s1)" by fastforce
  let ?id = "rd16 (sc_host env) m 8"
  let ?i = "unat (?id - 1)"
  have keep: "rts_keep s s1" using SC_VerifyCmdLength_keep [OF v] .
  show ?thesis
  proof (cases "ok \<and> ?id > 0 \<and> unat ?id \<le> SC_NUMBER_OF_RTS")
    case False
    then show ?thesis using v keep SC_VerifyCmdLength_ok [OF v] by (auto simp: SC_StartRtsCmd_def Let_def)
  next
    case True
    then have s1: "s1 = s" and i: "?i < SC_NUMBER_OF_RTS"
      using SC_VerifyCmdLength_ok [OF v] by (auto simp: unat_sub word_le_nat_alt word_less_nat_alt)
    have len: "length (RtsInfoTblAddr s) = SC_NUMBER_OF_RTS" "length (RtsTblAddr s) = SC_NUMBER_OF_RTS"
      using assms by (auto simp: rts_inv_def)
    show ?thesis
    proof (cases "\<not> DisabledFlag (RtsInfoTblAddr s ! ?i) \<and> RtsStatus (RtsInfoTblAddr s ! ?i) = SC_LOADED")
      case False
      then show ?thesis using v True s1 i len by (auto simp: SC_StartRtsCmd_def Let_def)
    next
      case loaded: True
      then have "rts_fits (RtsTblAddr s ! ?i) 0"
        using assms i by (auto simp: rts_inv_def rts_entry_ok_def rts_image_ok_def)
      then obtain msg where "rts_msg (RtsTblAddr s ! ?i) 0 = Some msg" by (rule rts_fits_msg)
      moreover obtain s2 where "rts_begin env ?i s = Some s2" "rts_keep s s2"
        using rts_begin_keep [OF assms i] loaded by blast
      ultimately show ?thesis using v True s1 i len loaded by (auto simp: SC_StartRtsCmd_def Let_def)
    qed
  qed
qed

lemma SC_StopRtsCmd_keep: "rts_keep s (SC_StopRtsCmd env m s)"
proof -
  obtain ok s1 where v: "SC_VerifyCmdLength m 12 s = (ok, s1)" by fastforce
  show ?thesis
    using SC_VerifyCmdLength_keep [OF v] SC_VerifyCmdLength_ok [OF v] by (auto simp: SC_StopRtsCmd_def Let_def v)
qed

lemma set_disabled_keep:
  assumes "rts_inv s" "i < SC_NUMBER_OF_RTS"
  shows "\<exists>s'. set_disabled i b s = Some s' \<and> rts_keep s s'"
proof -
  let ?f = "\<lambda>r. r\<lparr>DisabledFlag := b\<rparr>"
  have "set_disabled i b s = Some (upd_rts i ?f s)"
    using assms by (simp add: set_disabled_def rts_inv_def upd_rts_def)
  moreover have "rts_inv (upd_rts i ?f s)"
    using assms by (intro upd_rts_keep) (auto simp: rts_entry_ok_def)
  moreover have "rts_count (upd_rts i ?f s)" if "rts_count s"
    using rts_count_upd [OF assms(2,1) that, of ?f]
    by (simp add: rts_count_def rts_executing_def upd_rts_def split: if_splits)
  ultimately show ?thesis by (auto simp: rts_keep_def ats_part_def clock_part_def upd_rts_def)
qed

lemma rts_index_lt: "\<lbrakk> 0 < x; unat x \<le> SC_NUMBER_OF_RTS \<rbrakk> \<Longrightarrow> unat (x - 1 :: u16) < SC_NUMBER_OF_RTS"
  by (auto simp: unat_sub word_le_nat_alt word_less_nat_alt)

lemma SC_EnableRtsCmd_keep:
  assumes "rts_inv s"
  shows "\<exists>s'. SC_EnableRtsCmd env m s = Some s' \<and> rts_keep s s'"
proof -
  obtain ok s1 where v: "SC_VerifyCmdLength m 12 s = (ok, s1)" by fastforce
  show ?thesis
    using SC_VerifyCmdLength_keep [OF v] SC_VerifyCmdLength_ok [OF v]
      set_disabled_keep [OF assms rts_index_lt [of "rd16 (sc_host env) m 8"], of False]
    by (auto simp: SC_EnableRtsCmd_def Let_def v)
qed

text \<open>A disable command for sequence 0 passes the check of the code and writes outside the table.\<close>

lemma SC_DisableRtsCmd_keep:
  assumes "rts_inv s" "CFE_MSG_GetSize m = 12 \<Longrightarrow> rd16 (sc_host env) m 8 \<noteq> 0"
  shows "\<exists>s'. SC_DisableRtsCmd env m s = Some s' \<and> rts_keep s s'"
proof -
  obtain ok s1 where v: "SC_VerifyCmdLength m 12 s = (ok, s1)" by fastforce
  show ?thesis
    using SC_VerifyCmdLength_keep [OF v] SC_VerifyCmdLength_ok [OF v] assms(2)
      set_disabled_keep [OF assms(1) rts_index_lt [of "rd16 (sc_host env) m 8"], of True]
    by (auto simp: SC_DisableRtsCmd_def Let_def v word_neq_0_conv)
qed

subsection \<open>Group commands\<close>

definition round_ok :: "(nat \<Rightarrow> int \<times> sc_state \<Rightarrow> (int \<times> sc_state) option) \<Rightarrow> bool" where
  "round_ok round \<longleftrightarrow> (\<forall>i c s. i < SC_NUMBER_OF_RTS \<longrightarrow> rts_inv s \<longrightarrow>
     (\<exists>c' s'. round i (c, s) = Some (c', s') \<and> rts_keep s s'))"

lemma rts_group_keep:
  assumes "round_ok round" "rts_inv s"
  shows "\<exists>s'. rts_group env m e1 e2 round s = Some s' \<and> rts_keep s s'"
proof -
  obtain ok s1 where v: "SC_VerifyCmdLength m 12 s = (ok, s1)" by fastforce
  let ?f = "rd16 (sc_host env) m 8" and ?l = "rd16 (sc_host env) m 10"
  show ?thesis
  proof (cases "ok \<and> group_ok ?f ?l")
    case False
    then show ?thesis
      using SC_VerifyCmdLength_keep [OF v] SC_VerifyCmdLength_ok [OF v] by (auto simp: rts_group_def Let_def v)
  next
    case True
    then have le: "unat (?f - 1) + (unat ?l - unat (?f - 1)) \<le> SC_NUMBER_OF_RTS"
      by (auto simp: group_ok_def unat_sub word_le_nat_alt word_less_nat_alt)
    have "\<exists>cs. for_loop (unat (?f - 1)) (unat ?l - unat (?f - 1)) round (0, s) = Some cs \<and>
        (rts_inv (snd cs) \<and> rts_keep s (snd cs))"
    proof (rule for_loop_inv [where P = "\<lambda>_ cs. rts_inv (snd cs) \<and> rts_keep s (snd cs)"])
      fix i and cs :: "int \<times> sc_state"
      assume i: "i < unat (?f - 1) + (unat ?l - unat (?f - 1))" and cs: "rts_inv (snd cs) \<and> rts_keep s (snd cs)"
      obtain c s0 where eq: "cs = (c, s0)" by (cases cs)
      have "i < SC_NUMBER_OF_RTS" using i le by simp
      then obtain c' s' where "round i (c, s0) = Some (c', s')" "rts_keep s0 s'"
        using assms(1) cs eq by (fastforce simp: round_ok_def)
      then show "\<exists>cs'. round i cs = Some cs' \<and> (rts_inv (snd cs') \<and> rts_keep s (snd cs'))"
        using cs eq rts_keep_trans [of s s0 s'] by (auto simp: rts_keep_def)
    qed (use assms in simp)
    then show ?thesis using True SC_VerifyCmdLength_ok [OF v] by (auto simp: rts_group_def Let_def v)
  qed
qed

lemma rts_keep_inv: "\<lbrakk> rts_keep s s'; rts_inv s \<rbrakk> \<Longrightarrow> rts_inv s'"
  by (simp add: rts_keep_def)

lemma start_round_ok: "round_ok (start_round env)"
proof -
  have "\<exists>c' s'. start_round env i (c, s) = Some (c', s') \<and> rts_keep s s'"
    if "i < SC_NUMBER_OF_RTS" "rts_inv s" for i c s
    using rts_begin_keep [OF that(2,1), of env] that by (auto simp: start_round_def rts_inv_def Let_def)
  then show ?thesis by (simp add: round_ok_def)
qed

lemma stop_round_ok: "round_ok stop_round"
  by (auto simp: round_ok_def stop_round_def rts_inv_def)

lemma able_round_ok: "round_ok (able_round b)"
proof -
  have "\<exists>c' s'. able_round b i (c, s) = Some (c', s') \<and> rts_keep s s'"
    if "i < SC_NUMBER_OF_RTS" "rts_inv s" for i c s
    using set_disabled_keep [OF that(2,1), of b] that by (auto simp: able_round_def rts_inv_def)
  then show ?thesis by (simp add: round_ok_def)
qed

lemmas rts_grp_keep =
  rts_group_keep [OF start_round_ok, folded SC_StartRtsGrpCmd_def]
  rts_group_keep [OF stop_round_ok, folded SC_StopRtsGrpCmd_def]
  rts_group_keep [OF able_round_ok, folded SC_DisableRtsGrpCmd_def]
  rts_group_keep [OF able_round_ok, folded SC_EnableRtsGrpCmd_def]

section \<open>The choice of the next sequence\<close>

text \<open>
  The sequence with the least next time is chosen, and of several the one with the lowest number.
\<close>

definition rts_time_of :: "SC_RtsInfoEntry list \<Rightarrow> nat \<Rightarrow> u32" where
  "rts_time_of t i = NextCommandTime (t ! i)"

definition rts_first :: "SC_RtsInfoEntry list \<Rightarrow> nat \<Rightarrow> nat \<Rightarrow> bool" where
  "rts_first t n i \<longleftrightarrow> i < n \<and> RtsStatus (t ! i) = SC_EXECUTING \<and>
     (\<forall>j<n. RtsStatus (t ! j) = SC_EXECUTING \<longrightarrow>
        rts_time_of t i < rts_time_of t j \<or> rts_time_of t i = rts_time_of t j \<and> i \<le> j)"

lemma next_rts_loop_spec:
  assumes "n \<le> length t"
  shows "\<exists>r. next_rts_loop t n best = Some r \<and>
    (r = best \<and> (\<forall>i<n. RtsStatus (t ! i) = SC_EXECUTING \<longrightarrow> snd best < rts_time_of t i) \<or>
     (\<exists>i. rts_first t n i \<and> rts_time_of t i \<le> snd best \<and> r = (Some i, rts_time_of t i)))"
  using assms
proof (induction n arbitrary: best)
  case 0
  then show ?case by simp
next
  case (Suc n)
  show ?case
  proof (cases "RtsStatus (t ! n) = SC_EXECUTING \<and> rts_time_of t n \<le> snd best")
    case True
    then have eq: "next_rts_loop t (Suc n) best = next_rts_loop t n (Some n, rts_time_of t n)"
      using Suc.prems by (simp add: rts_time_of_def)
    obtain r where r: "next_rts_loop t n (Some n, rts_time_of t n) = Some r"
      and c: "r = (Some n, rts_time_of t n) \<and> (\<forall>i<n. RtsStatus (t ! i) = SC_EXECUTING \<longrightarrow> rts_time_of t n < rts_time_of t i) \<or>
        (\<exists>i. rts_first t n i \<and> rts_time_of t i \<le> rts_time_of t n \<and> r = (Some i, rts_time_of t i))"
      using Suc.IH [of "(Some n, rts_time_of t n)"] Suc.prems by auto
    from c show ?thesis
    proof
      assume *: "r = (Some n, rts_time_of t n) \<and> (\<forall>i<n. RtsStatus (t ! i) = SC_EXECUTING \<longrightarrow> rts_time_of t n < rts_time_of t i)"
      then have "rts_first t (Suc n) n" using True by (auto simp: rts_first_def less_Suc_eq)
      then show ?thesis using * r True unfolding eq by auto
    next
      assume "\<exists>i. rts_first t n i \<and> rts_time_of t i \<le> rts_time_of t n \<and> r = (Some i, rts_time_of t i)"
      then obtain i where i: "rts_first t n i" "rts_time_of t i \<le> rts_time_of t n" "r = (Some i, rts_time_of t i)"
        by blast
      then have "rts_first t (Suc n) i" by (auto simp: rts_first_def less_Suc_eq)
      then show ?thesis using i r True unfolding eq by (auto intro: order_trans)
    qed
  next
    case False
    then have eq: "next_rts_loop t (Suc n) best = next_rts_loop t n best"
      using Suc.prems by (auto simp: rts_time_of_def)
    obtain r where r: "next_rts_loop t n best = Some r"
      and c: "r = best \<and> (\<forall>i<n. RtsStatus (t ! i) = SC_EXECUTING \<longrightarrow> snd best < rts_time_of t i) \<or>
        (\<exists>i. rts_first t n i \<and> rts_time_of t i \<le> snd best \<and> r = (Some i, rts_time_of t i))"
      using Suc.IH [of best] Suc.prems by auto
    from c show ?thesis
    proof
      assume "r = best \<and> (\<forall>i<n. RtsStatus (t ! i) = SC_EXECUTING \<longrightarrow> snd best < rts_time_of t i)"
      then show ?thesis using r False unfolding eq by (auto simp: less_Suc_eq not_le)
    next
      assume "\<exists>i. rts_first t n i \<and> rts_time_of t i \<le> snd best \<and> r = (Some i, rts_time_of t i)"
      then obtain i where i: "rts_first t n i" "rts_time_of t i \<le> snd best" "r = (Some i, rts_time_of t i)"
        by blast
      then have "rts_first t (Suc n) i"
        using False by (auto simp: rts_first_def less_Suc_eq not_le intro: order_le_less_trans)
      then show ?thesis using i r unfolding eq by auto
    qed
  qed
qed

lemma SC_GetNextRtsTime_spec:
  assumes "length (RtsInfoTblAddr s) = SC_NUMBER_OF_RTS"
  shows "\<exists>n t. SC_GetNextRtsTime s = Some (s\<lparr>RtsNumber := n, NextRtpTime := t\<rparr>) \<and>
    ((\<forall>i<SC_NUMBER_OF_RTS. \<not> rts_executing s i) \<and> n = 0 \<and> t = SC_MAX_TIME \<or>
     (\<exists>i. rts_first (RtsInfoTblAddr s) SC_NUMBER_OF_RTS i \<and> n = of_nat (i + 1) \<and>
        t = rts_time_of (RtsInfoTblAddr s) i))"
proof -
  let ?t = "RtsInfoTblAddr s"
  obtain r where r: "next_rts_loop ?t SC_NUMBER_OF_RTS (None, SC_MAX_TIME) = Some r"
    and cases: "r = (None, SC_MAX_TIME) \<and>
        (\<forall>i<SC_NUMBER_OF_RTS. RtsStatus (?t ! i) = SC_EXECUTING \<longrightarrow> SC_MAX_TIME < rts_time_of ?t i) \<or>
      (\<exists>i. rts_first ?t SC_NUMBER_OF_RTS i \<and> rts_time_of ?t i \<le> SC_MAX_TIME \<and> r = (Some i, rts_time_of ?t i))"
    using next_rts_loop_spec [of SC_NUMBER_OF_RTS ?t "(None, SC_MAX_TIME)"] assms by auto
  have max: "\<not> SC_MAX_TIME < x" for x :: u32
  proof -
    have "unat x < 2 ^ 32" using unsigned_less [of x] by simp
    then show ?thesis by (simp add: not_less word_le_nat_alt)
  qed
  from cases show ?thesis
  proof
    assume "r = (None, SC_MAX_TIME) \<and>
        (\<forall>i<SC_NUMBER_OF_RTS. RtsStatus (?t ! i) = SC_EXECUTING \<longrightarrow> SC_MAX_TIME < rts_time_of ?t i)"
    then show ?thesis using r max
      by (intro exI [of _ 0] exI [of _ SC_MAX_TIME]) (auto simp: SC_GetNextRtsTime_def rts_executing_def)
  next
    assume "\<exists>i. rts_first ?t SC_NUMBER_OF_RTS i \<and> rts_time_of ?t i \<le> SC_MAX_TIME \<and> r = (Some i, rts_time_of ?t i)"
    then obtain i where "rts_first ?t SC_NUMBER_OF_RTS i" "r = (Some i, rts_time_of ?t i)" by blast
    then show ?thesis using r
      by (intro exI [of _ "of_nat (i + 1)"] exI [of _ "rts_time_of ?t i"]) (auto simp: SC_GetNextRtsTime_def)
  qed
qed

text \<open>What the choice of the next processor leaves the once-a-second loop with.\<close>

definition next_ok :: "sc_state \<Rightarrow> bool" where
  "next_ok s \<longleftrightarrow> (NextProcNumber s = SC_NONE \<or> NextProcNumber s = SC_ATP \<or> NextProcNumber s = SC_RTP) \<and>
     (NextProcNumber s = SC_ATP \<longrightarrow> AtpState s = SC_EXECUTING) \<and>
     (NextProcNumber s = SC_RTP \<longrightarrow> NextRtpTime s < NextAtpTime s \<and>
        (\<exists>i. rts_first (RtsInfoTblAddr s) SC_NUMBER_OF_RTS i \<and> RtsNumber s = of_nat (i + 1) \<and>
           NextRtpTime s = rts_time_of (RtsInfoTblAddr s) i))"

lemma SC_UpdateNextTime_spec:
  assumes "length (RtsInfoTblAddr s) = SC_NUMBER_OF_RTS"
  shows "\<exists>n t p. SC_UpdateNextTime s = Some (s\<lparr>RtsNumber := n, NextRtpTime := t, NextProcNumber := p\<rparr>) \<and>
    next_ok (s\<lparr>RtsNumber := n, NextRtpTime := t, NextProcNumber := p\<rparr>)"
proof -
  obtain n t where eq: "SC_GetNextRtsTime s = Some (s\<lparr>RtsNumber := n, NextRtpTime := t\<rparr>)"
    and spec: "(\<forall>i<SC_NUMBER_OF_RTS. \<not> rts_executing s i) \<and> n = 0 \<and> t = SC_MAX_TIME \<or>
     (\<exists>i. rts_first (RtsInfoTblAddr s) SC_NUMBER_OF_RTS i \<and> n = of_nat (i + 1) \<and>
        t = rts_time_of (RtsInfoTblAddr s) i)"
    using SC_GetNextRtsTime_spec [OF assms] by blast
  define p where "p = (if n > 0 \<and> t < NextAtpTime s then SC_RTP
    else if AtpState s = SC_EXECUTING then SC_ATP else SC_NONE)"
  have "SC_UpdateNextTime s = Some (s\<lparr>RtsNumber := n, NextRtpTime := t, NextProcNumber := p\<rparr>)"
    by (simp add: SC_UpdateNextTime_def eq p_def Let_def)
  moreover have "next_ok (s\<lparr>RtsNumber := n, NextRtpTime := t, NextProcNumber := p\<rparr>)"
    using spec by (auto simp: next_ok_def p_def)
  ultimately show ?thesis by blast
qed

section \<open>The walk through a sequence\<close>

lemma rts_words_bound: "4 * rts_words n \<le> n + 7" "n + 4 \<le> 4 * rts_words n"
  unfolding rts_words_def by presburger+

lemma CmdErr_keep [simp]:
  "rts_keep s0 (s\<lparr>RtsCmdErrCtr := x\<rparr>) = rts_keep s0 s" "rts_keep s0 (s\<lparr>RtsCmdCtr := x\<rparr>) = rts_keep s0 s"
  "rts_keep s0 (s\<lparr>LastRtsErrSeq := y, LastRtsErrCmd := z\<rparr>) = rts_keep s0 s"
  by (simp_all add: rts_keep_def rts_inv_def rts_count_def ats_part_def clock_part_def)

lemma upd_rts_ctr_keep:
  assumes "\<And>r. RtsStatus (f r) = RtsStatus r \<and> NextCommandPtr (f r) = NextCommandPtr r"
    and "i < SC_NUMBER_OF_RTS" and "rts_inv s"
  shows "rts_keep s (upd_rts i f s)"
proof -
  have "rts_inv (upd_rts i f s)"
    using assms by (intro upd_rts_keep) (auto simp: rts_entry_ok_def)
  moreover have "rts_count (upd_rts i f s)" if "rts_count s"
    using rts_count_upd [OF assms(2,3) that, of f] assms(1)
    by (simp add: rts_count_def rts_executing_def upd_rts_def split: if_splits)
  ultimately show ?thesis by (auto simp: rts_keep_def ats_part_def clock_part_def upd_rts_def)
qed

lemma rts_cmd_error_keep:
  assumes "i < SC_NUMBER_OF_RTS" "rts_inv s"
  shows "rts_keep s (rts_cmd_error i off eid args s)"
proof -
  let ?s1 = "s\<lparr>RtsCmdErrCtr := RtsCmdErrCtr s + 1\<rparr>"
  have "rts_keep ?s1 (upd_rts i (\<lambda>r. r\<lparr>ri_CmdErrCtr := ri_CmdErrCtr r + 1\<rparr>) ?s1)"
    using assms by (intro upd_rts_ctr_keep) (simp_all add: rts_inv_def)
  then have "rts_keep s (upd_rts i (\<lambda>r. r\<lparr>ri_CmdErrCtr := ri_CmdErrCtr r + 1\<rparr>) ?s1)"
    by (rule rts_keep_trans [rotated]) simp
  then show ?thesis
    unfolding rts_cmd_error_def Let_def rts_keep_sc
    by (intro rts_keep_trans [OF _ SC_KillRts_keep]) simp
qed

lemma rts_completed_keep: "rts_keep s (rts_completed i s)"
  by (simp add: rts_completed_def Let_def)

lemma SC_GetNextRtsCommand_keep:
  assumes "rts_inv s"
  shows "\<exists>s'. SC_GetNextRtsCommand env s = Some s' \<and> rts_keep s s'"
proof (cases "RtsNumber s > 0 \<and> unat (RtsNumber s) \<le> SC_NUMBER_OF_RTS \<and>
    RtsStatus (RtsInfoTblAddr s ! unat (RtsNumber s - 1)) = SC_EXECUTING")
  case False
  then show ?thesis
    using assms rts_index_lt [of "RtsNumber s"] by (auto simp: SC_GetNextRtsCommand_def rts_inv_def Let_def)
next
  case True
  define i where "i = unat (RtsNumber s - 1)"
  define tbl where "tbl = RtsTblAddr s ! i"
  define r where "r = RtsInfoTblAddr s ! i"
  have i: "i < SC_NUMBER_OF_RTS" using True rts_index_lt by (simp add: i_def)
  have len: "length (RtsInfoTblAddr s) = SC_NUMBER_OF_RTS" "length (RtsTblAddr s) = SC_NUMBER_OF_RTS"
    and image: "rts_image_ok tbl" and fits: "rts_fits tbl (unat (NextCommandPtr r))"
    using assms i True by (auto simp: rts_inv_def rts_entry_ok_def tbl_def r_def i_def)
  obtain msg where msg: "rts_msg tbl (unat (NextCommandPtr r)) = Some msg"
    using fits by (rule rts_fits_msg)
  let ?off = "NextCommandPtr r + of_nat (rts_words (CFE_MSG_GetSize msg))"
  let ?msg = "drop (4 * unat ?off + 4) tbl" and ?time = "rd32 (sc_host env) tbl (4 * unat ?off)"
  let ?f = "\<lambda>r. r\<lparr>NextCommandTime := SC_ComputeAbsTime ?time s, NextCommandPtr := ?off\<rparr>"
  have read: "rts_msg tbl (unat ?off) = Some ?msg" "rts_time (sc_host env) tbl (unat ?off) = Some ?time"
    if "unat ?off \<le> 72"
    using that image by (auto simp: rts_msg_def rts_time_def rts_image_ok_def)
  have step: "rts_keep s (upd_rts i ?f s)"
    if "unat ?off \<le> 72" "unat ?off + rts_words (CFE_MSG_GetSize ?msg) \<le> 75"
  proof -
    have "rts_fits tbl (unat ?off)"
      using that image rts_words_bound [of "CFE_MSG_GetSize ?msg"]
      by (simp add: rts_fits_def rts_image_ok_def)
    then have "rts_inv (upd_rts i ?f s)"
      using i assms image True by (intro upd_rts_keep) (auto simp: rts_entry_ok_def tbl_def i_def)
    moreover have "rts_count (upd_rts i ?f s)" if "rts_count s"
      using rts_count_upd [OF i assms that, of ?f]
      by (simp add: rts_count_def rts_executing_def upd_rts_def split: if_splits)
    ultimately show ?thesis by (auto simp: rts_keep_def ats_part_def clock_part_def upd_rts_def)
  qed
  show ?thesis
    using True len i msg read step rts_cmd_error_keep [OF i assms] rts_completed_keep
    by (auto simp: SC_GetNextRtsCommand_def Let_def i_def [symmetric] tbl_def [symmetric] r_def [symmetric])
qed

section \<open>The step of the relative time processor\<close>

lemma sc_transmit_total:
  assumes "CFE_MSG_GetSize m \<le> length m"
  shows "\<exists>r c. sc_transmit env m s = Some (r, s\<lparr>sc_tx := sc_tx s @ c\<rparr>) \<and> length c \<le> 1"
proof (cases "sb_msg_check m = 0")
  case True
  then show ?thesis
    using assms by (auto simp: sc_transmit_def sb_send_ok intro!: exI [of _ "[take (CFE_MSG_GetSize m) m]"])
next
  case False
  then show ?thesis by (auto simp: sc_transmit_def sb_send_def Let_def intro!: exI [of _ "[]"])
qed

lemma ValidateChecksum_total:
  "CFE_MSG_GetSize m \<le> length m \<Longrightarrow> \<exists>r. CFE_MSG_ValidateChecksum m = Some r"
  by (cases "is_cmd_with_sechdr m") (auto simp: CFE_MSG_ValidateChecksum_def ComputeCheckSum_sum)

definition rtp_due :: "sc_state \<Rightarrow> bool" where
  "rtp_due s \<longleftrightarrow> NextRtpTime s \<le> CurrentTime s \<and> RtsNumber s > 0 \<and> unat (RtsNumber s) \<le> SC_NUMBER_OF_RTS \<and>
     rts_executing s (unat (RtsNumber s - 1))"

lemma SC_ProcessRtpCommand_step:
  assumes "rts_inv s" "NextProcNumber s = SC_RTP"
  shows "\<exists>s'. SC_ProcessRtpCommand env s = Some s' \<and>
    (if rtp_due s
     then \<exists>c. length c \<le> 1 \<and> rts_keep (s\<lparr>NumCmdsSec := NumCmdsSec s + 1, sc_tx := sc_tx s @ c\<rparr>) s'
     else s' = s)"
proof (cases "rtp_due s")
  case False
  then show ?thesis
    using assms rts_index_lt [of "RtsNumber s"]
    by (auto simp: SC_ProcessRtpCommand_def NextCmdTime_def rtp_due_def rts_executing_def rts_inv_def Let_def)
next
  case True
  define i where "i = unat (RtsNumber s - 1)"
  define tbl where "tbl = RtsTblAddr s ! i"
  define r where "r = RtsInfoTblAddr s ! i"
  have i: "i < SC_NUMBER_OF_RTS" and ex: "RtsStatus r = SC_EXECUTING"
    using True rts_index_lt by (simp_all add: i_def rtp_due_def r_def rts_executing_def)
  have len: "length (RtsInfoTblAddr s) = SC_NUMBER_OF_RTS" "length (RtsTblAddr s) = SC_NUMBER_OF_RTS"
    and fits: "rts_fits tbl (unat (NextCommandPtr r))"
    using assms i ex by (auto simp: rts_inv_def rts_entry_ok_def tbl_def r_def)
  obtain msg where msg: "rts_msg tbl (unat (NextCommandPtr r)) = Some msg" "CFE_MSG_GetSize msg \<le> length msg"
    using fits by (rule rts_fits_msg)
  obtain chk where chk: "CFE_MSG_ValidateChecksum msg = Some chk"
    using ValidateChecksum_total [OF msg(2)] by blast
  let ?s = "s\<lparr>NumCmdsSec := NumCmdsSec s + 1\<rparr>"
  obtain res c where tx: "sc_transmit env msg ?s = Some (res, ?s\<lparr>sc_tx := sc_tx s @ c\<rparr>)" and c: "length c \<le> 1"
    using sc_transmit_total [OF msg(2), of env ?s] by auto
  let ?s1 = "?s\<lparr>sc_tx := sc_tx s @ c\<rparr>"
  have inv1: "rts_inv ?s1" using assms by (simp add: rts_inv_def)
  show ?thesis
  proof (cases "res = 0")
    case True
    let ?s2 = "?s1\<lparr>RtsCmdCtr := RtsCmdCtr s + 1\<rparr>"
    let ?s3 = "upd_rts i (\<lambda>r. r\<lparr>ri_CmdCtr := ri_CmdCtr r + 1\<rparr>) ?s2"
    have "rts_keep ?s2 ?s3" using i inv1 by (intro upd_rts_ctr_keep) (auto simp: rts_inv_def)
    then have keep: "rts_keep ?s1 ?s3" by (rule rts_keep_trans [rotated]) simp
    obtain s' where "SC_GetNextRtsCommand env ?s3 = Some s'" "rts_keep ?s3 s'"
      using SC_GetNextRtsCommand_keep rts_keep_inv [OF keep inv1] by blast
    then show ?thesis
      using \<open>rtp_due s\<close> assms len i ex msg chk tx True c rts_keep_trans [OF keep]
      by (auto simp: SC_ProcessRtpCommand_def NextCmdTime_def rtp_due_def i_def [symmetric]
          tbl_def [symmetric] r_def [symmetric] Let_def intro!: exI [of _ c])
  next
    case False
    let ?s2 = "(sc_evs 49 CFE_EVS_EventType_ERROR [uint (RtsNumber s), res] ?s1)\<lparr>RtsCmdErrCtr := RtsCmdErrCtr s + 1\<rparr>"
    let ?s3 = "upd_rts i (\<lambda>r. r\<lparr>ri_CmdErrCtr := ri_CmdErrCtr r + 1\<rparr>) ?s2"
    let ?s4 = "?s3\<lparr>LastRtsErrSeq := RtsNumber s, LastRtsErrCmd := NextCommandPtr r\<rparr>"
    have "rts_keep ?s2 ?s3" using i inv1 by (intro upd_rts_ctr_keep) (auto simp: rts_inv_def sc_evs_def)
    then have "rts_keep ?s1 ?s3" by (rule rts_keep_trans [rotated]) simp
    then have "rts_keep ?s1 (SC_KillRts i ?s4)" by (intro rts_keep_trans [OF _ SC_KillRts_keep]) simp
    then show ?thesis
      using \<open>rtp_due s\<close> assms len i ex msg chk tx False c
      by (auto simp: SC_ProcessRtpCommand_def NextCmdTime_def rtp_due_def i_def [symmetric]
          tbl_def [symmetric] r_def [symmetric] Let_def sc_evs_def upd_rts_def intro!: exI [of _ c])
  qed
qed

end
