(* ===== verification/Sc_Loads.thy ===== *)
theory Sc_Loads
  imports Sc_Defs "HOL-Library.Multiset"
begin

text \<open>
  Tables of the stored command processor (\<open>sc_loads.c\<close>): validation of a table image, and the
  processing of an accepted one. Validation of an absolute sequence walks its entries and notes
  each command number; loading walks them again and fills the index by command number, from which the
  list of command numbers in order of time is built by insertion. Offsets in a table count 32-bit
  words; they stay below 2^16, so they are natural numbers here.
\<close>

section \<open>Validation of absolute sequences\<close>

text \<open>Words taken by the message of an entry.\<close>

definition msg_words :: "nat \<Rightarrow> nat" where
  "msg_words n = (n + SC_ROUND_UP_BYTES) div SC_BYTES_IN_WORD"

definition verify_error :: "nat \<Rightarrow> int list \<Rightarrow> sc_state \<Rightarrow> (int \<times> sc_state) option" where
  "verify_error eid args s = Some (SC_ERROR, sc_evs eid CFE_EVS_EventType_ERROR args s)"

definition SC_VerifyAtsEntry :: "endian \<Rightarrow> bytes \<Rightarrow> nat \<Rightarrow> nat \<Rightarrow> sc_state \<Rightarrow> (int \<times> sc_state) option" where
  "SC_VerifyAtsEntry en Buffer32 EntryIndex BufferWords s =
     (if EntryIndex \<ge> BufferWords then Some (0, s)
      else do {
        num \<leftarrow> ats_cmd_number en Buffer32 EntryIndex;
        if num = 0 then Some (0, s)
        else if unat num > SC_MAX_ATS_CMDS then verify_error 104 [int EntryIndex, uint num] s
        else if EntryIndex + SC_ATS_HDR_WORDS > BufferWords
        then verify_error 105 [int EntryIndex, uint num, int BufferWords] s
        else do {
          msg \<leftarrow> ats_msg Buffer32 EntryIndex;
          let CommandBytes = CFE_MSG_GetSize msg;
          let CommandWords = msg_words CommandBytes;
          let i = unat (num - 1);
          if CommandBytes < SC_PACKET_MIN_SIZE \<or> CommandBytes > SC_PACKET_MAX_SIZE
          then verify_error 106 [int EntryIndex, uint num, int CommandBytes] s
          else if EntryIndex + SC_ATS_HDR_NOPKT_WORDS + CommandWords > BufferWords
          then verify_error 107 [int EntryIndex, uint num, int CommandBytes] s
          else do {
            dup \<leftarrow> nth_opt (AtsDupTestArray s) i;
            if dup \<noteq> SC_DUP_TEST_UNUSED
            then verify_error 109 [int EntryIndex, uint num, dup] s
            else Some (int (SC_ATS_HDR_NOPKT_WORDS + CommandWords),
                       s\<lparr>AtsDupTestArray := (AtsDupTestArray s)[i := int EntryIndex]\<rparr>)
          }
        }
      })"

text \<open>A positive result means that the walk goes on inside the buffer.\<close>

lemma SC_VerifyAtsEntry_words:
  assumes "SC_VerifyAtsEntry en b i n s = Some (r, s')" and "0 < r"
  shows "i < n \<and> i + nat r \<le> n \<and> 4 \<le> r"
  using assms
  by (auto simp: SC_VerifyAtsEntry_def verify_error_def Let_def msg_words_def
      split: if_splits Option.bind_splits)

text \<open>The walk over the entries; the result has the buffer index and the number of entries.\<close>

function verify_ats_loop ::
  "endian \<Rightarrow> bytes \<Rightarrow> nat \<Rightarrow> nat \<Rightarrow> nat \<Rightarrow> sc_state \<Rightarrow> (int \<times> nat \<times> nat \<times> sc_state) option" where
  "verify_ats_loop en b i cnt n s =
     (case SC_VerifyAtsEntry en b i n s of None \<Rightarrow> None
      | Some (r, s') \<Rightarrow> if r \<le> 0 then Some (r, i, cnt, s')
                        else verify_ats_loop en b (i + nat r) (cnt + 1) n s')"
  by pat_completeness auto
termination
  by (relation "measure (\<lambda>(en, b, i, cnt, n, s). n - i)")
    (auto dest: SC_VerifyAtsEntry_words simp: not_le)

declare verify_ats_loop.simps [simp del]

definition SC_VerifyAtsTable :: "endian \<Rightarrow> bytes \<Rightarrow> nat \<Rightarrow> sc_state \<Rightarrow> (int \<times> sc_state) option" where
  "SC_VerifyAtsTable en Buffer32 BufferWords s = do {
     let s = s\<lparr>AtsDupTestArray := replicate SC_MAX_ATS_CMDS SC_DUP_TEST_UNUSED\<rparr>;
     (Result, BufferIndex, CommandCount, s) \<leftarrow> verify_ats_loop en Buffer32 0 0 BufferWords s;
     if Result \<noteq> 0 then Some (Result, s)
     else if CommandCount = 0 then Some (SC_ERROR, sc_evs 110 CFE_EVS_EventType_ERROR [] s)
     else Some (0, sc_evs 103 CFE_EVS_EventType_INFORMATION
                     [int CommandCount, int BufferIndex * int SC_BYTES_IN_WORD] s)
   }"

definition SC_ValidateAts :: "endian \<Rightarrow> bytes \<Rightarrow> sc_state \<Rightarrow> (int \<times> sc_state) option" where
  "SC_ValidateAts en TableData s = SC_VerifyAtsTable en TableData SC_ATS_BUFF_SIZE32 s"

definition SC_ValidateAppend :: "endian \<Rightarrow> bytes \<Rightarrow> sc_state \<Rightarrow> (int \<times> sc_state) option" where
  "SC_ValidateAppend en TableData s = SC_VerifyAtsTable en TableData SC_APPEND_BUFF_SIZE32 s"

section \<open>Validation of relative sequences\<close>

text \<open>
  One round of \<open>SC_ParseRts\<close> at word \<open>i\<close>: \<open>Inl ok\<close> ends the loop, \<open>Inr n\<close> steps over \<open>n\<close> words.
\<close>

definition parse_error :: "nat \<Rightarrow> int list \<Rightarrow> sc_state \<Rightarrow> ((bool + nat) \<times> sc_state) option" where
  "parse_error eid args s = Some (Inl False, sc_evs eid CFE_EVS_EventType_ERROR args s)"

definition parse_round :: "endian \<Rightarrow> bytes \<Rightarrow> nat \<Rightarrow> sc_state \<Rightarrow> ((bool + nat) \<times> sc_state) option" where
  "parse_round en Buffer32 i s =
     (if i \<le> SC_RTS_BUFF_SIZE32 - SC_RTS_HDR_WORDS
      then do {
        msg \<leftarrow> rts_msg Buffer32 i;
        TimeTag \<leftarrow> rts_time en Buffer32 i;
        let CmdSize = CFE_MSG_GetSize msg;
        let IndexDelta = unat (of_nat ((CmdSize + SC_RTS_HEADER_SIZE + SC_ROUND_UP_BYTES) div 4) :: u16);
        if \<not> CFE_SB_IsValidMsgId (CFE_MSG_GetMsgId msg)
        then if TimeTag = 0 then Some (Inl True, s) else parse_error 59 [int i] s
        else if CmdSize < SC_PACKET_MIN_SIZE \<or> CmdSize > SC_PACKET_MAX_SIZE
        then parse_error 60 [int i, int CmdSize] s
        else if i + IndexDelta > SC_RTS_BUFF_SIZE32 then parse_error 61 [int i] s
        else if i + IndexDelta = SC_RTS_BUFF_SIZE32 then Some (Inl True, s)
        else Some (Inr IndexDelta, s)
      }
      else do {
        w \<leftarrow> rts_time en Buffer32 i;
        if w = 0 then Some (Inl True, s) else parse_error 62 [int i] s
      })"

lemma parse_round_step:
  assumes "parse_round en b i s = Some (Inr n, s')"
  shows "0 < n \<and> i + n < SC_RTS_BUFF_SIZE32 \<and> s' = s"
  using assms
  by (auto simp: parse_round_def parse_error_def Let_def unat_of_nat take_bit_nat_eq_self
      split: if_splits Option.bind_splits)

function parse_rts_loop :: "endian \<Rightarrow> bytes \<Rightarrow> nat \<Rightarrow> sc_state \<Rightarrow> (bool \<times> sc_state) option" where
  "parse_rts_loop en b i s =
     (case parse_round en b i s of None \<Rightarrow> None
      | Some (Inl ok, s') \<Rightarrow> Some (ok, s')
      | Some (Inr n, s') \<Rightarrow> parse_rts_loop en b (i + n) s')"
  by pat_completeness auto
termination
  by (relation "measure (\<lambda>(en, b, i, s). SC_RTS_BUFF_SIZE32 - i)") (auto dest!: parse_round_step)

declare parse_rts_loop.simps [simp del]

definition SC_ParseRts :: "endian \<Rightarrow> bytes \<Rightarrow> sc_state \<Rightarrow> (bool \<times> sc_state) option" where
  "SC_ParseRts en Buffer32 s = parse_rts_loop en Buffer32 0 s"

definition SC_ValidateRts :: "endian \<Rightarrow> bytes \<Rightarrow> sc_state \<Rightarrow> (int \<times> sc_state) option" where
  "SC_ValidateRts en TableData s =
     map_option (\<lambda>(ok, s). (if ok then 0 else SC_ERROR, s)) (SC_ParseRts en TableData s)"

section \<open>Loading a relative sequence\<close>

definition SC_LoadRts :: "nat \<Rightarrow> sc_state \<Rightarrow> sc_state" where
  "SC_LoadRts RtsIndex s =
     (if RtsIndex < SC_NUMBER_OF_RTS
      then upd_rts RtsIndex (\<lambda>r. r\<lparr>RtsStatus := SC_LOADED, UseCtr := 0, ri_CmdCtr := 0, ri_CmdErrCtr := 0,
             NextCommandTime := 0, NextCommandPtr := 0, DisabledFlag := True\<rparr>) s
      else sc_evs 135 CFE_EVS_EventType_ERROR [int RtsIndex] s)"

section \<open>Loading an absolute sequence\<close>

text \<open>The arrays of a sequence have \<open>SC_MAX_ATS_CMDS\<close> elements, which are all overwritten.\<close>

definition SC_InitAtsTables :: "nat \<Rightarrow> sc_state \<Rightarrow> sc_state" where
  "SC_InitAtsTables AtsIndex s =
     (if AtsIndex \<ge> SC_NUMBER_OF_ATS then sc_evs 134 CFE_EVS_EventType_ERROR [int AtsIndex] s
      else s\<lparr>AtsCmdIndexBuffer := (AtsCmdIndexBuffer s)[AtsIndex := replicate SC_MAX_ATS_CMDS SC_ERROR],
             AtsCmdStatusTblAddr := (AtsCmdStatusTblAddr s)[AtsIndex := replicate SC_MAX_ATS_CMDS SC_EMPTY],
             AtsTimeIndexBuffer := (AtsTimeIndexBuffer s)[AtsIndex := replicate SC_MAX_ATS_CMDS SC_INVALID_CMD_NUMBER],
             AtsInfoTblAddr := upd_at AtsIndex (\<lambda>r. r\<lparr>AtsSize := 0, NumberOfCommands := 0\<rparr>) (AtsInfoTblAddr s)\<rparr>)"

text \<open>One round of the walk of \<open>SC_LoadAts\<close>: \<open>Inl r\<close> ends it with a result, \<open>Inr n\<close> steps over \<open>n\<close> words.\<close>

definition load_entry :: "endian \<Rightarrow> nat \<Rightarrow> nat \<Rightarrow> sc_state \<Rightarrow> ((int + nat) \<times> sc_state) option" where
  "load_entry en a i s =
     (if i < SC_ATS_BUFF_SIZE32
      then do {
        tbl \<leftarrow> nth_opt (AtsTblAddr s) a;
        num \<leftarrow> ats_cmd_number en tbl i;
        let c = unat (num - 1);
        if num = 0 then Some (Inl 0, s)
        else if i > SC_ATS_BUFF_SIZE32 - SC_ATS_HDR_WORDS then Some (Inl SC_ERROR, s)
        else if unat num > SC_MAX_ATS_CMDS then Some (Inl SC_ERROR, s)
        else do {
          status \<leftarrow> nth2 (AtsCmdStatusTblAddr s) a c;
          if status \<noteq> SC_EMPTY then Some (Inl SC_ERROR, s)
          else do {
            msg \<leftarrow> ats_msg tbl i;
            let MessageSize = CFE_MSG_GetSize msg;
            let AtsEntryWords = msg_words MessageSize + SC_ATS_HDR_NOPKT_WORDS;
            if MessageSize < SC_PACKET_MIN_SIZE \<or> MessageSize > SC_PACKET_MAX_SIZE then Some (Inl SC_ERROR, s)
            else if i + AtsEntryWords > SC_ATS_BUFF_SIZE32 then Some (Inl SC_ERROR, s)
            else do {
              ci \<leftarrow> upd2 a c (\<lambda>_. int i) (AtsCmdIndexBuffer s);
              st \<leftarrow> upd2 a c (\<lambda>_. SC_LOADED) (AtsCmdStatusTblAddr s);
              info \<leftarrow> upd_opt a (\<lambda>r. r\<lparr>NumberOfCommands := NumberOfCommands r + 1\<rparr>) (AtsInfoTblAddr s);
              Some (Inr AtsEntryWords,
                    s\<lparr>AtsCmdIndexBuffer := ci, AtsCmdStatusTblAddr := st, AtsInfoTblAddr := info\<rparr>)
            }
          }
        }
      }
      else Some (Inl 0, s))"

lemma load_entry_step: "load_entry en a i s = Some (Inr n, s') \<Longrightarrow> 4 \<le> n \<and> i + n \<le> SC_ATS_BUFF_SIZE32"
  by (auto simp: load_entry_def Let_def msg_words_def split: if_splits Option.bind_splits)

function load_ats_loop :: "endian \<Rightarrow> nat \<Rightarrow> nat \<Rightarrow> sc_state \<Rightarrow> (int \<times> nat \<times> sc_state) option" where
  "load_ats_loop en a i s =
     (case load_entry en a i s of None \<Rightarrow> None
      | Some (Inl r, s') \<Rightarrow> Some (r, i, s')
      | Some (Inr n, s') \<Rightarrow> load_ats_loop en a (i + n) s')"
  by pat_completeness auto
termination
  by (relation "measure (\<lambda>(en, a, i, s). SC_ATS_BUFF_SIZE32 - i)") (auto dest!: load_entry_step)

declare load_ats_loop.simps [simp del]

text \<open>
  \<open>SC_Insert\<close>: the loop counts \<open>TimeBufIndex\<close> down from the end of the list; here \<open>k\<close> is the slot after
  it. The entry index is read as the signed number it is in the array.
\<close>

fun insert_loop :: "endian \<Rightarrow> nat \<Rightarrow> u32 \<Rightarrow> nat \<Rightarrow> sc_state \<Rightarrow> (nat \<times> sc_state) option" where
  "insert_loop en a NewCmdTime 0 s = Some (0, s)"
| "insert_loop en a NewCmdTime (Suc k) s = do {
     num \<leftarrow> nth2 (AtsTimeIndexBuffer s) a k;
     EntryIndex \<leftarrow> nth2 (AtsCmdIndexBuffer s) a (unat ((ucast num :: u32) - 1));
     tbl \<leftarrow> nth_opt (AtsTblAddr s) a;
     ListCmdTime \<leftarrow> SC_GetAtsEntryTime en tbl EntryIndex;
     if SC_CompareAbsTime ListCmdTime NewCmdTime
     then do {
       ti \<leftarrow> upd2 a (Suc k) (\<lambda>_. num) (AtsTimeIndexBuffer s);
       insert_loop en a NewCmdTime k (s\<lparr>AtsTimeIndexBuffer := ti\<rparr>)
     }
     else Some (Suc k, s)
   }"

definition SC_Insert :: "endian \<Rightarrow> nat \<Rightarrow> nat \<Rightarrow> nat \<Rightarrow> sc_state \<Rightarrow> sc_state option" where
  "SC_Insert en AtsIndex NewCmdIndex ListLength s =
     (if AtsIndex \<ge> SC_NUMBER_OF_ATS then Some (sc_evs 133 CFE_EVS_EventType_ERROR [int AtsIndex] s)
      else do {
        NewCmdTime \<leftarrow>
          (if ListLength > 0 then do {
             EntryIndex \<leftarrow> nth2 (AtsCmdIndexBuffer s) AtsIndex NewCmdIndex;
             tbl \<leftarrow> nth_opt (AtsTblAddr s) AtsIndex;
             SC_GetAtsEntryTime en tbl EntryIndex
           }
           else Some 0);
        (slot, s) \<leftarrow> insert_loop en AtsIndex NewCmdTime ListLength s;
        ti \<leftarrow> upd2 AtsIndex slot (\<lambda>_. of_nat (NewCmdIndex + 1)) (AtsTimeIndexBuffer s);
        Some (s\<lparr>AtsTimeIndexBuffer := ti\<rparr>)
      })"

definition build_round :: "endian \<Rightarrow> nat \<Rightarrow> nat \<Rightarrow> nat \<times> sc_state \<Rightarrow> (nat \<times> sc_state) option" where
  "build_round en a i = (\<lambda>(ListLength, s). do {
     ti \<leftarrow> upd2 a i (\<lambda>_. SC_INVALID_CMD_NUMBER) (AtsTimeIndexBuffer s);
     let s = s\<lparr>AtsTimeIndexBuffer := ti\<rparr>;
     EntryIndex \<leftarrow> nth2 (AtsCmdIndexBuffer s) a i;
     if EntryIndex \<noteq> SC_ERROR
     then map_option (Pair (ListLength + 1)) (SC_Insert en a i ListLength s)
     else Some (ListLength, s)
   })"

definition SC_BuildTimeIndexTable :: "endian \<Rightarrow> nat \<Rightarrow> sc_state \<Rightarrow> sc_state option" where
  "SC_BuildTimeIndexTable en AtsIndex s =
     (if AtsIndex \<ge> SC_NUMBER_OF_ATS then Some (sc_evs 132 CFE_EVS_EventType_ERROR [int AtsIndex] s)
      else map_option snd (for_loop 0 SC_MAX_ATS_CMDS (build_round en AtsIndex) (0, s)))"

definition SC_LoadAts :: "endian \<Rightarrow> nat \<Rightarrow> sc_state \<Rightarrow> sc_state option" where
  "SC_LoadAts en AtsIndex s =
     (if AtsIndex \<ge> SC_NUMBER_OF_ATS then Some (sc_evs 131 CFE_EVS_EventType_ERROR [int AtsIndex] s)
      else do {
        (Result, AtsEntryIndex, s) \<leftarrow> load_ats_loop en AtsIndex 0 (SC_InitAtsTables AtsIndex s);
        info \<leftarrow> nth_opt (AtsInfoTblAddr s) AtsIndex;
        if Result = 0 \<and> NumberOfCommands info > 0
        then SC_BuildTimeIndexTable en AtsIndex
               (s\<lparr>AtsInfoTblAddr := upd_at AtsIndex (\<lambda>r. r\<lparr>AtsSize := of_nat AtsEntryIndex\<rparr>) (AtsInfoTblAddr s)\<rparr>)
        else Some (SC_InitAtsTables AtsIndex s)
      })"

section \<open>The append table\<close>

definition append_entry :: "endian \<Rightarrow> bytes \<Rightarrow> nat \<Rightarrow> nat option option" where
  "append_entry en tbl i =
     (if i \<ge> SC_APPEND_BUFF_SIZE32 then Some None
      else do {
        num \<leftarrow> ats_cmd_number en tbl i;
        if num = 0 \<or> unat num > SC_MAX_ATS_CMDS then Some None
        else do {
          msg \<leftarrow> ats_msg tbl i;
          let CommandBytes = CFE_MSG_GetSize msg;
          let CommandWords = msg_words CommandBytes;
          Some (if CommandBytes < SC_PACKET_MIN_SIZE \<or> CommandBytes > SC_PACKET_MAX_SIZE \<or>
                   i + SC_ATS_HDR_NOPKT_WORDS + CommandWords > SC_APPEND_BUFF_SIZE32
                then None else Some (SC_ATS_HDR_NOPKT_WORDS + CommandWords))
        }
      })"

lemma append_entry_step: "append_entry en tbl i = Some (Some n) \<Longrightarrow> 4 \<le> n \<and> i + n \<le> SC_APPEND_BUFF_SIZE32"
  by (auto simp: append_entry_def Let_def msg_words_def split: if_splits Option.bind_splits)

function append_loop :: "endian \<Rightarrow> bytes \<Rightarrow> nat \<Rightarrow> nat \<Rightarrow> (nat \<times> nat) option" where
  "append_loop en tbl i cnt =
     (case append_entry en tbl i of None \<Rightarrow> None
      | Some None \<Rightarrow> Some (i, cnt)
      | Some (Some n) \<Rightarrow> append_loop en tbl (i + n) (cnt + 1))"
  by pat_completeness auto
termination
  by (relation "measure (\<lambda>(en, tbl, i, cnt). SC_APPEND_BUFF_SIZE32 - i)") (auto dest!: append_entry_step)

declare append_loop.simps [simp del]

text \<open>The byte count of the packet uses two bytes for a word, the event four.\<close>

definition SC_UpdateAppend :: "endian \<Rightarrow> sc_state \<Rightarrow> sc_state option" where
  "SC_UpdateAppend en s = do {
     (EntryIndex, EntryCount) \<leftarrow> append_loop en (AppendTblAddr s) 0 0;
     let s = s\<lparr>AppendLoadCount := AppendLoadCount s + 1, AppendEntryCount := of_nat EntryCount,
               AppendByteCount := of_nat (EntryIndex * 2), AppendWordCount := of_nat EntryIndex\<rparr>;
     Some (sc_evs 97 CFE_EVS_EventType_INFORMATION
             [uint (AppendLoadCount s), int EntryCount, int EntryIndex * int SC_BYTES_IN_WORD] s)
   }"

section \<open>The list in order of time\<close>

text \<open>
  Among times within half the range after a base, comparison is the order of their distance from it.
\<close>

definition since :: "u32 \<Rightarrow> u32 \<Rightarrow> nat" where
  "since b t = unat (t - b)"

lemma compare_later:
  assumes "since b t1 < 2 ^ 31" "since b t2 < since b t1"
  shows "CFE_TIME_Compare \<lparr>Seconds = t1, Subseconds = 0\<rparr> \<lparr>Seconds = t2, Subseconds = 0\<rparr> = CFE_TIME_A_GT_B"
proof -
  let ?k = "(t1 - b) - (t2 - b)"
  have lt: "t2 - b < t1 - b" using assms(2) by (simp add: since_def word_less_nat_alt)
  have k: "unat ?k = since b t1 - since b t2"
    unfolding since_def by (rule unat_sub) (use lt in simp)
  then have "0 < ?k" "?k < 0x80000000" using assms by (simp_all add: word_less_nat_alt)
  moreover have "t1 = t2 + ?k" by simp
  ultimately show ?thesis using later_seconds [of ?k t2 0 0] by simp
qed

lemma SC_CompareAbsTime_window:
  assumes "since b t1 < 2 ^ 31" "since b t2 < 2 ^ 31"
  shows "SC_CompareAbsTime t1 t2 \<longleftrightarrow> since b t2 < since b t1"
proof (cases "since b t2 < since b t1")
  case True
  then show ?thesis using compare_later [OF assms(1) True] by (simp add: SC_CompareAbsTime_def)
next
  case False
  show ?thesis
  proof (cases "since b t1 < since b t2")
    case True
    then have "CFE_TIME_Compare \<lparr>Seconds = t1, Subseconds = 0\<rparr> \<lparr>Seconds = t2, Subseconds = 0\<rparr> = CFE_TIME_A_LT_B"
      using compare_later [OF assms(2) True]
        CFE_TIME_Compare_flip [of "\<lparr>Seconds = t1, Subseconds = 0\<rparr>" "\<lparr>Seconds = t2, Subseconds = 0\<rparr>"]
      by simp
    then show ?thesis using True by (simp add: SC_CompareAbsTime_def)
  next
    case eq: False
    then have "t1 - b = t2 - b" using False by (intro word_unat_eqI) (simp add: since_def)
    then have "t1 = t2" by simp
    then show ?thesis by (simp add: SC_CompareAbsTime_def)
  qed
qed

lemma SC_CompareAbsTime_past: "\<lbrakk> t1 \<le> t2; t2 < 0x80000000 \<rbrakk> \<Longrightarrow> \<not> SC_CompareAbsTime t1 t2"
  using SC_CompareAbsTime_window [of 0 t1 t2] by (auto simp: since_def word_less_nat_alt word_le_nat_alt)

text \<open>Two-dimensional arrays.\<close>

lemma nth2_Some [simp]: "\<lbrakk> a < length xss; i < length (xss ! a) \<rbrakk> \<Longrightarrow> nth2 xss a i = Some (xss ! a ! i)"
  by (simp add: nth2_def)

lemma upd2_Some [simp]:
  "\<lbrakk> a < length xss; i < length (xss ! a) \<rbrakk> \<Longrightarrow> upd2 a i f xss = Some (xss[a := (xss ! a)[i := f (xss ! a ! i)]])"
  by (simp add: upd2_def upd_at_def)

text \<open>
  The part of the state that belongs to one sequence: its arrays have a row for it, and the entries of
  its commands lie in its table.
\<close>

definition ats_shape :: "nat \<Rightarrow> sc_state \<Rightarrow> bool" where
  "ats_shape a s \<longleftrightarrow> a < SC_NUMBER_OF_ATS \<and> length (AtsTblAddr s) = SC_NUMBER_OF_ATS \<and>
     length (AtsInfoTblAddr s) = SC_NUMBER_OF_ATS \<and>
     length (AtsCmdStatusTblAddr s) = SC_NUMBER_OF_ATS \<and> length (AtsCmdStatusTblAddr s ! a) = SC_MAX_ATS_CMDS \<and>
     length (AtsCmdIndexBuffer s) = SC_NUMBER_OF_ATS \<and> length (AtsCmdIndexBuffer s ! a) = SC_MAX_ATS_CMDS \<and>
     length (AtsTimeIndexBuffer s) = SC_NUMBER_OF_ATS \<and> length (AtsTimeIndexBuffer s ! a) = SC_MAX_ATS_CMDS"

definition cmd_readable :: "nat \<Rightarrow> sc_state \<Rightarrow> nat \<Rightarrow> bool" where
  "cmd_readable a s c \<longleftrightarrow> c < SC_MAX_ATS_CMDS \<and> 0 \<le> AtsCmdIndexBuffer s ! a ! c \<and>
     4 * nat (AtsCmdIndexBuffer s ! a ! c) + SC_ATS_HEADER_SIZE \<le> length (AtsTblAddr s ! a)"

definition cmd_time :: "endian \<Rightarrow> nat \<Rightarrow> sc_state \<Rightarrow> nat \<Rightarrow> u32" where
  "cmd_time en a s c = the (SC_GetAtsEntryTime en (AtsTblAddr s ! a) (AtsCmdIndexBuffer s ! a ! c))"

lemma cmd_time_eq:
  "cmd_readable a s c \<Longrightarrow>
   SC_GetAtsEntryTime en (AtsTblAddr s ! a) (AtsCmdIndexBuffer s ! a ! c) = Some (cmd_time en a s c)"
  by (simp add: cmd_readable_def cmd_time_def SC_GetAtsEntryTime_def Let_def)

lemma cmd_readable_ti [simp]: "cmd_readable a (s\<lparr>AtsTimeIndexBuffer := t\<rparr>) c = cmd_readable a s c"
  by (simp add: cmd_readable_def)

lemma cmd_time_ti [simp]: "cmd_time en a (s\<lparr>AtsTimeIndexBuffer := t\<rparr>) c = cmd_time en a s c"
  by (simp add: cmd_time_def)

text \<open>The number of a command in the list and back.\<close>

definition cmd_num :: "nat \<Rightarrow> u16" where
  "cmd_num c = of_nat (c + 1)"

lemma unat_cmd_num: "c < SC_MAX_ATS_CMDS \<Longrightarrow> unat (cmd_num c) = c + 1"
  by (simp add: cmd_num_def unat_of_nat take_bit_nat_eq_self del: of_nat_Suc of_nat_add)

lemma cmd_num_index [simp]:
  assumes "c < SC_MAX_ATS_CMDS"
  shows "unat ((ucast (cmd_num c) :: u32) - 1) = c"
proof -
  have "unat (ucast (cmd_num c) :: u32) = c + 1" using assms by (simp add: unat_cmd_num)
  then show ?thesis by (subst unat_sub) (simp_all add: word_le_nat_alt)
qed

text \<open>
  The insertion loop: elements later than the new one move up, down to the slot it gets.
\<close>

definition shifted :: "nat \<Rightarrow> nat \<Rightarrow> 'a list \<Rightarrow> 'a list \<Rightarrow> bool" where
  "shifted p k xs ys \<longleftrightarrow> length ys = length xs \<and> (\<forall>j<p. ys ! j = xs ! j) \<and>
     (\<forall>j. p \<le> j \<and> j < k \<longrightarrow> ys ! Suc j = xs ! j) \<and> (\<forall>j. k < j \<and> j < length xs \<longrightarrow> ys ! j = xs ! j)"

lemma insert_loop_spec:
  assumes "ats_shape a s" "k < SC_MAX_ATS_CMDS"
    and "\<forall>j<k. \<exists>c. AtsTimeIndexBuffer s ! a ! j = cmd_num c \<and> cmd_readable a s c"
  shows "\<exists>p ti. insert_loop en a t k s = Some (p, s\<lparr>AtsTimeIndexBuffer := (AtsTimeIndexBuffer s)[a := ti]\<rparr>) \<and>
    p \<le> k \<and> shifted p k (AtsTimeIndexBuffer s ! a) ti \<and>
    (\<forall>j c. p \<le> j \<and> j < k \<and> AtsTimeIndexBuffer s ! a ! j = cmd_num c \<and> c < SC_MAX_ATS_CMDS \<longrightarrow>
       SC_CompareAbsTime (cmd_time en a s c) t) \<and>
    (\<forall>c. 0 < p \<and> AtsTimeIndexBuffer s ! a ! (p - 1) = cmd_num c \<and> c < SC_MAX_ATS_CMDS \<longrightarrow>
       \<not> SC_CompareAbsTime (cmd_time en a s c) t)"
  using assms
proof (induction k arbitrary: s)
  case 0
  have "s = s\<lparr>AtsTimeIndexBuffer := (AtsTimeIndexBuffer s)[a := AtsTimeIndexBuffer s ! a]\<rparr>" by simp
  then show ?case
    by (intro exI [of _ 0] exI [of _ "AtsTimeIndexBuffer s ! a"]) (auto simp: shifted_def)
next
  case (Suc k)
  let ?ti = "AtsTimeIndexBuffer s ! a"
  obtain c where c: "?ti ! k = cmd_num c" "cmd_readable a s c" using Suc.prems(3) by blast
  have num: "cmd_num c' = cmd_num c \<Longrightarrow> c' < SC_MAX_ATS_CMDS \<Longrightarrow> c' = c" for c'
    using c(2) unat_cmd_num [of c] unat_cmd_num [of c'] by (simp add: cmd_readable_def)
  have c1000: "c < SC_MAX_ATS_CMDS" using c(2) by (simp add: cmd_readable_def)
  let ?s1 = "s\<lparr>AtsTimeIndexBuffer := (AtsTimeIndexBuffer s)[a := ?ti[Suc k := cmd_num c]]\<rparr>"
  have step: "insert_loop en a t (Suc k) s =
    (if SC_CompareAbsTime (cmd_time en a s c) t then insert_loop en a t k ?s1 else Some (Suc k, s))"
    using Suc.prems c c1000 cmd_time_eq [OF c(2), of en]
    by (simp add: ats_shape_def)
  show ?case
  proof (cases "SC_CompareAbsTime (cmd_time en a s c) t")
    case False
    have "s = s\<lparr>AtsTimeIndexBuffer := (AtsTimeIndexBuffer s)[a := ?ti]\<rparr>" by simp
    with False show ?thesis using step c num
      by (intro exI [of _ "Suc k"] exI [of _ ?ti]) (auto simp: shifted_def)
  next
    case True
    have shape1: "ats_shape a ?s1" using Suc.prems(1) by (simp add: ats_shape_def)
    have len: "length ?ti = SC_MAX_ATS_CMDS" and a: "a < length (AtsTimeIndexBuffer s)"
      using Suc.prems(1) by (simp_all add: ats_shape_def)
    have ti1: "AtsTimeIndexBuffer ?s1 ! a = ?ti[Suc k := cmd_num c]" using a by simp
    have "\<forall>j<k. \<exists>c. AtsTimeIndexBuffer ?s1 ! a ! j = cmd_num c \<and> cmd_readable a ?s1 c"
      using Suc.prems(3) unfolding ti1 by simp
    from Suc.IH [OF shape1 _ this] Suc.prems(2)
    obtain p ti where p: "insert_loop en a t k ?s1 = Some (p, ?s1\<lparr>AtsTimeIndexBuffer := (AtsTimeIndexBuffer ?s1)[a := ti]\<rparr>)"
      "p \<le> k" "shifted p k (?ti[Suc k := cmd_num c]) ti"
      "\<forall>j c'. p \<le> j \<and> j < k \<and> ?ti[Suc k := cmd_num c] ! j = cmd_num c' \<and> c' < SC_MAX_ATS_CMDS \<longrightarrow>
         SC_CompareAbsTime (cmd_time en a ?s1 c') t"
      "\<forall>c'. 0 < p \<and> ?ti[Suc k := cmd_num c] ! (p - 1) = cmd_num c' \<and> c' < SC_MAX_ATS_CMDS \<longrightarrow>
         \<not> SC_CompareAbsTime (cmd_time en a ?s1 c') t"
      unfolding ti1 by fastforce
    have sh: "shifted p (Suc k) ?ti ti"
      using p(2,3) c(1) len Suc.prems(2) unfolding shifted_def
      by (auto simp: less_Suc_eq nth_list_update)
    have "\<forall>j c'. p \<le> j \<and> j < Suc k \<and> ?ti ! j = cmd_num c' \<and> c' < SC_MAX_ATS_CMDS \<longrightarrow>
         SC_CompareAbsTime (cmd_time en a s c') t"
    proof (intro allI impI, elim conjE)
      fix j c' assume j: "p \<le> j" "j < Suc k" "?ti ! j = cmd_num c'" "c' < SC_MAX_ATS_CMDS"
      show "SC_CompareAbsTime (cmd_time en a s c') t"
      proof (cases "j = k")
        case True
        then have "c' = c" using j c(1) num by simp
        then show ?thesis using \<open>SC_CompareAbsTime (cmd_time en a s c) t\<close> by simp
      next
        case False
        then have "j < k" "?ti[Suc k := cmd_num c] ! j = cmd_num c'" using j by simp_all
        with p(4) [rule_format, of j c'] j show ?thesis by simp
      qed
    qed
    moreover have "\<forall>c'. 0 < p \<and> ?ti ! (p - 1) = cmd_num c' \<and> c' < SC_MAX_ATS_CMDS \<longrightarrow>
         \<not> SC_CompareAbsTime (cmd_time en a s c') t"
      using p(2,5) by auto
    ultimately show ?thesis
      using True step p(1,2) sh a by (intro exI [of _ p] exI [of _ ti]) simp
  qed
qed

lemma shifted_insert:
  assumes "shifted p k xs ys" "p \<le> k" "k < length xs"
  shows "take (Suc k) (ys[p := v]) = take p xs @ v # drop p (take k xs)"
proof (rule nth_equalityI)
  show "length (take (Suc k) (ys[p := v])) = length (take p xs @ v # drop p (take k xs))"
    using assms by (simp add: shifted_def)
next
  fix j assume "j < length (take (Suc k) (ys[p := v]))"
  then have j: "j \<le> k" "j < length ys" using assms by (simp_all add: shifted_def)
  consider "j < p" | "j = p" | "p < j" by linarith
  then show "take (Suc k) (ys[p := v]) ! j = (take p xs @ v # drop p (take k xs)) ! j"
  proof cases
    case 3
    then obtain m where m: "j = Suc m" "p \<le> m" by (cases j) auto
    then have "ys ! j = xs ! m" using assms(1) j by (simp add: shifted_def)
    then show ?thesis using assms j m by (simp add: nth_append Suc_diff_le min_absorb2)
  qed (use assms j in \<open>simp_all add: shifted_def nth_append\<close>)
qed

lemma sort_key_snoc:
  fixes f :: "'a \<Rightarrow> 'b::linorder"
  assumes "\<forall>y\<in>set (drop p (sort_key f xs)). f x < f y"
    and "0 < p \<longrightarrow> f (sort_key f xs ! (p - 1)) \<le> f x" and "p \<le> length xs"
  shows "sort_key f (xs @ [x]) = take p (sort_key f xs) @ x # drop p (sort_key f xs)"
proof -
  let ?L = "sort_key f xs"
  have sorted: "sorted (map f ?L)" by simp
  have low: "f y \<le> f x" if y: "y \<in> set (take p ?L)" for y
  proof -
    obtain j where j: "j < p" "j < length ?L" "y = ?L ! j" using y by (auto simp: in_set_conv_nth)
    then have "f (?L ! j) \<le> f (?L ! (p - 1))"
      using sorted_nth_mono [OF sorted, of j "p - 1"] assms(3) by simp
    then show ?thesis using j assms(2) by auto
  qed
  have "sort_key f (xs @ [x]) = take p ?L @ x # drop p ?L"
  proof (rule properties_for_sort_key)
    have "mset (take p ?L) + mset (drop p ?L) = mset ?L"
      by (metis append_take_drop_id mset_append)
    then show "mset (take p ?L @ x # drop p ?L) = mset (xs @ [x])" by simp
  next
    fix k
    have split: "filter (\<lambda>y. f k = f y) (take p ?L) @ filter (\<lambda>y. f k = f y) (drop p ?L) = filter (\<lambda>y. f k = f y) ?L"
      by (metis append_take_drop_id filter_append)
    have stable: "filter (\<lambda>y. f k = f y) ?L = filter (\<lambda>y. f k = f y) xs"
      using sort_key_stable [of f "f k" xs] by (simp add: eq_commute)
    have "filter (\<lambda>y. f k = f y) (drop p ?L) = []" if "f k = f x"
      using that assms(1) by (auto simp: filter_empty_conv)
    then show "filter (\<lambda>y. f k = f y) (take p ?L @ x # drop p ?L) = filter (\<lambda>y. f k = f y) (xs @ [x])"
      using split stable by auto
  next
    have "sorted (map f (take p ?L))" "sorted (map f (drop p ?L))"
      using sorted by (simp_all add: take_map [symmetric] drop_map [symmetric] sorted_wrt_take sorted_wrt_drop
          del: sorted_sort_key)
    moreover have "f y \<le> f z" if "y \<in> set (take p ?L)" "z \<in> set (drop p ?L)" for y z
      using low [OF that(1)] assms(1) that(2) by fastforce
    ultimately show "sorted (map f (take p ?L @ x # drop p ?L))"
      using low assms(1) by (auto simp: sorted_append intro: less_imp_le)
  qed
  then show ?thesis .
qed

text \<open>The commands in use, in order of their numbers.\<close>

definition cmds_in_use :: "nat \<Rightarrow> sc_state \<Rightarrow> nat \<Rightarrow> nat list" where
  "cmds_in_use a s n = filter (\<lambda>c. AtsCmdIndexBuffer s ! a ! c \<noteq> SC_ERROR) [0..<n]"

text \<open>All commands in use have times within half the range after a base.\<close>

definition times_near :: "endian \<Rightarrow> nat \<Rightarrow> u32 \<Rightarrow> sc_state \<Rightarrow> bool" where
  "times_near en a b s \<longleftrightarrow> list_all (\<lambda>c. since b (cmd_time en a s c) < 2 ^ 31) (cmds_in_use a s SC_MAX_ATS_CMDS)"

lemma SC_Insert_spec:
  assumes shape: "ats_shape a s" and n: "n < SC_MAX_ATS_CMDS" and readable: "cmd_readable a s c"
    and L: "take n (AtsTimeIndexBuffer s ! a) = map cmd_num L" "\<forall>c\<in>set L. cmd_readable a s c"
  shows "\<exists>p ti. SC_Insert en a c n s = Some (s\<lparr>AtsTimeIndexBuffer := (AtsTimeIndexBuffer s)[a := ti]\<rparr>) \<and>
    length ti = SC_MAX_ATS_CMDS \<and> p \<le> n \<and> take (Suc n) ti = map cmd_num (take p L @ c # drop p L) \<and>
    (\<forall>j. n < j \<and> j < SC_MAX_ATS_CMDS \<longrightarrow> ti ! j = AtsTimeIndexBuffer s ! a ! j) \<and>
    (\<forall>y\<in>set (drop p L). SC_CompareAbsTime (cmd_time en a s y) (cmd_time en a s c)) \<and>
    (0 < p \<longrightarrow> \<not> SC_CompareAbsTime (cmd_time en a s (L ! (p - 1))) (cmd_time en a s c))"
proof -
  let ?ti = "AtsTimeIndexBuffer s ! a"
  have len: "length ?ti = SC_MAX_ATS_CMDS" and a: "a < SC_NUMBER_OF_ATS" "a < length (AtsTimeIndexBuffer s)"
    using shape by (simp_all add: ats_shape_def)
  have lenL: "length L = n" using arg_cong [OF L(1), of length] len n by simp
  have nth: "?ti ! j = cmd_num (L ! j)" if "j < n" for j
    using arg_cong [OF L(1), of "\<lambda>xs. xs ! j"] that lenL by simp
  have L1000: "L ! j < SC_MAX_ATS_CMDS" if "j < n" for j
    using L(2) that lenL by (auto simp: cmd_readable_def)
  define t where "t = (if n > 0 then cmd_time en a s c else 0)"
  have slots: "\<forall>j<n. \<exists>c. ?ti ! j = cmd_num c \<and> cmd_readable a s c"
    using nth L(2) lenL by auto
  from insert_loop_spec [OF shape n slots, of en t]
  obtain p ti where loop: "insert_loop en a t n s = Some (p, s\<lparr>AtsTimeIndexBuffer := (AtsTimeIndexBuffer s)[a := ti]\<rparr>)"
    and p: "p \<le> n" and sh: "shifted p n ?ti ti"
    and later: "\<forall>j c. p \<le> j \<and> j < n \<and> ?ti ! j = cmd_num c \<and> c < SC_MAX_ATS_CMDS \<longrightarrow>
       SC_CompareAbsTime (cmd_time en a s c) t"
    and before: "\<forall>c. 0 < p \<and> ?ti ! (p - 1) = cmd_num c \<and> c < SC_MAX_ATS_CMDS \<longrightarrow>
       \<not> SC_CompareAbsTime (cmd_time en a s c) t"
    by blast
  let ?ti' = "ti[p := cmd_num c]"
  have len': "length ti = SC_MAX_ATS_CMDS" using sh len by (simp add: shifted_def)
  have "SC_Insert en a c n s = Some (s\<lparr>AtsTimeIndexBuffer := (AtsTimeIndexBuffer s)[a := ?ti']\<rparr>)"
  proof -
    have "SC_Insert en a c n s = Option.bind (insert_loop en a t n s)
        (\<lambda>(slot, s). Option.bind (upd2 a slot (\<lambda>_. cmd_num c) (AtsTimeIndexBuffer s))
          (\<lambda>ti. Some (s\<lparr>AtsTimeIndexBuffer := ti\<rparr>)))"
      using a shape readable cmd_time_eq [OF readable, of en]
      by (simp add: SC_Insert_def ats_shape_def cmd_readable_def t_def cmd_num_def)
    then show ?thesis using loop a len' p n by simp
  qed
  moreover have "take (Suc n) ?ti' = map cmd_num (take p L @ c # drop p L)"
  proof -
    have "take (Suc n) ?ti' = take p ?ti @ cmd_num c # drop p (take n ?ti)"
      using shifted_insert [OF sh p] len n by simp
    also have "take p ?ti = map cmd_num (take p L)"
      using L(1) p by (metis min.absorb1 take_map take_take)
    also have "drop p (take n ?ti) = map cmd_num (drop p L)" using L(1) by (simp add: drop_map)
    finally show ?thesis by simp
  qed
  moreover have "\<forall>j. n < j \<and> j < SC_MAX_ATS_CMDS \<longrightarrow> ?ti' ! j = ?ti ! j"
    using sh len p by (auto simp: shifted_def)
  moreover have "\<forall>y\<in>set (drop p L). SC_CompareAbsTime (cmd_time en a s y) (cmd_time en a s c)"
  proof
    fix y assume "y \<in> set (drop p L)"
    then obtain j where "j < n - p" "y = L ! (p + j)" using lenL p by (auto simp: in_set_conv_nth)
    then have "p + j < n" "y = L ! (p + j)" by simp_all
    then show "SC_CompareAbsTime (cmd_time en a s y) (cmd_time en a s c)"
      using later [rule_format, of "p + j" y] nth L1000 by (auto simp: t_def)
  qed
  moreover have "0 < p \<longrightarrow> \<not> SC_CompareAbsTime (cmd_time en a s (L ! (p - 1))) (cmd_time en a s c)"
    using before nth [of "p - 1"] L1000 [of "p - 1"] p by (auto simp: t_def)
  ultimately show ?thesis using len' p by (intro exI [of _ p] exI [of _ ?ti']) simp
qed

definition time_list :: "endian \<Rightarrow> nat \<Rightarrow> sc_state \<Rightarrow> nat \<Rightarrow> nat list \<Rightarrow> bool" where
  "time_list en a s n L \<longleftrightarrow> mset L = mset (cmds_in_use a s n) \<and>
     (\<forall>b. times_near en a b s \<longrightarrow> L = sort_key (\<lambda>c. since b (cmd_time en a s c)) (cmds_in_use a s n))"

lemma cmds_in_use_Suc:
  "cmds_in_use a s (Suc n) = cmds_in_use a s n @ (if AtsCmdIndexBuffer s ! a ! n \<noteq> SC_ERROR then [n] else [])"
  by (simp add: cmds_in_use_def)

lemma times_near_in_use:
  "\<lbrakk> times_near en a b s; c < SC_MAX_ATS_CMDS; AtsCmdIndexBuffer s ! a ! c \<noteq> SC_ERROR \<rbrakk> \<Longrightarrow>
   since b (cmd_time en a s c) < 2 ^ 31"
  by (auto simp: times_near_def cmds_in_use_def list_all_iff)

lemma time_list_insert:
  assumes L: "time_list en a s n L" and n: "n < SC_MAX_ATS_CMDS" "AtsCmdIndexBuffer s ! a ! n \<noteq> SC_ERROR"
    and p: "p \<le> length L"
    and later: "\<forall>y\<in>set (drop p L). SC_CompareAbsTime (cmd_time en a s y) (cmd_time en a s n)"
    and before: "0 < p \<longrightarrow> \<not> SC_CompareAbsTime (cmd_time en a s (L ! (p - 1))) (cmd_time en a s n)"
  shows "time_list en a s (Suc n) (take p L @ n # drop p L)"
proof -
  have "mset (take p L) + mset (drop p L) = mset L" by (metis append_take_drop_id mset_append)
  then have perm: "mset (take p L @ n # drop p L) = mset (cmds_in_use a s (Suc n))"
    using L n(2) by (simp add: time_list_def cmds_in_use_Suc)
  have setL: "set L = set (cmds_in_use a s n)"
    using L mset_eq_setD by (auto simp: time_list_def)
  have len: "length L = length (cmds_in_use a s n)"
    using L mset_eq_length by (auto simp: time_list_def)
  have use: "y < SC_MAX_ATS_CMDS \<and> AtsCmdIndexBuffer s ! a ! y \<noteq> SC_ERROR" if "y \<in> set L" for y
    using that n(1) unfolding setL by (auto simp: cmds_in_use_def)
  have "take p L @ n # drop p L = sort_key (\<lambda>c. since b (cmd_time en a s c)) (cmds_in_use a s (Suc n))"
    if near: "times_near en a b s" for b
  proof -
    let ?f = "\<lambda>c. since b (cmd_time en a s c)"
    have Ls: "L = sort_key ?f (cmds_in_use a s n)" using L near by (simp add: time_list_def)
    have compare: "SC_CompareAbsTime (cmd_time en a s y) (cmd_time en a s n) \<longleftrightarrow> ?f n < ?f y" if "y \<in> set L" for y
      using SC_CompareAbsTime_window times_near_in_use [OF near] use [OF that] n by blast
    have "\<forall>y\<in>set (drop p (sort_key ?f (cmds_in_use a s n))). ?f n < ?f y"
      using later compare in_set_dropD [of _ p L] unfolding Ls [symmetric] by blast
    moreover have "0 < p \<longrightarrow> ?f (sort_key ?f (cmds_in_use a s n) ! (p - 1)) \<le> ?f n"
      using before compare [of "L ! (p - 1)"] p unfolding Ls [symmetric] by (auto simp: not_less)
    ultimately show ?thesis
      using sort_key_snoc [of p ?f "cmds_in_use a s n" n] p len n(2) Ls by (simp add: cmds_in_use_Suc)
  qed
  with perm show ?thesis by (simp add: time_list_def)
qed

definition built :: "endian \<Rightarrow> nat \<Rightarrow> sc_state \<Rightarrow> nat \<Rightarrow> nat \<times> sc_state \<Rightarrow> bool" where
  "built en a s i = (\<lambda>(n, s'). \<exists>ti L. s' = s\<lparr>AtsTimeIndexBuffer := (AtsTimeIndexBuffer s)[a := ti]\<rparr> \<and>
     length ti = SC_MAX_ATS_CMDS \<and> n = length L \<and> n \<le> i \<and> take n ti = map cmd_num L \<and>
     (\<forall>j. n \<le> j \<and> j < i \<longrightarrow> ti ! j = SC_INVALID_CMD_NUMBER) \<and> time_list en a s i L)"

lemma build_round_built:
  assumes shape: "ats_shape a s" and i: "i < SC_MAX_ATS_CMDS"
    and readable: "\<forall>c<SC_MAX_ATS_CMDS. AtsCmdIndexBuffer s ! a ! c \<noteq> SC_ERROR \<longrightarrow> cmd_readable a s c"
    and built: "built en a s i ns"
  shows "\<exists>ns'. build_round en a i ns = Some ns' \<and> built en a s (Suc i) ns'"
proof -
  obtain n s' where ns: "ns = (n, s')" by (cases ns)
  obtain ti L where s': "s' = s\<lparr>AtsTimeIndexBuffer := (AtsTimeIndexBuffer s)[a := ti]\<rparr>"
    and ti: "length ti = SC_MAX_ATS_CMDS" "n = length L" "n \<le> i" "take n ti = map cmd_num L"
      "\<forall>j. n \<le> j \<and> j < i \<longrightarrow> ti ! j = SC_INVALID_CMD_NUMBER"
    and L: "time_list en a s i L"
    using built unfolding ns built_def by auto
  let ?ti = "ti[i := SC_INVALID_CMD_NUMBER]"
  let ?s = "s\<lparr>AtsTimeIndexBuffer := (AtsTimeIndexBuffer s)[a := ?ti]\<rparr>"
  have a: "a < length (AtsTimeIndexBuffer s)" using shape by (simp add: ats_shape_def)
  have start: "build_round en a i ns =
    (if AtsCmdIndexBuffer s ! a ! i \<noteq> SC_ERROR then map_option (Pair (n + 1)) (SC_Insert en a i n ?s) else Some (n, ?s))"
    using shape i ti(1) by (simp add: ns s' build_round_def ats_shape_def)
  have tk: "take n ?ti = map cmd_num L" using ti(3,4) by simp
  have inv: "\<forall>j. n \<le> j \<and> j < Suc i \<longrightarrow> ?ti ! j = SC_INVALID_CMD_NUMBER"
    using ti(5) i ti(1) by (auto simp: less_Suc_eq nth_list_update)
  show ?thesis
  proof (cases "AtsCmdIndexBuffer s ! a ! i = SC_ERROR")
    case True
    then have "time_list en a s (Suc i) L" using L by (simp add: time_list_def cmds_in_use_Suc)
    then have "built en a s (Suc i) (n, ?s)"
      unfolding built_def split using ti tk inv by (intro exI [of _ ?ti] exI [of _ L]) simp
    then show ?thesis using start True by simp
  next
    case False
    have shape': "ats_shape a ?s" using shape ti(1) by (simp add: ats_shape_def)
    have setL: "set L = set (cmds_in_use a s i)" using L mset_eq_setD by (auto simp: time_list_def)
    then have readL: "\<forall>c\<in>set L. cmd_readable a ?s c" using readable i by (auto simp: cmds_in_use_def)
    have "take n (AtsTimeIndexBuffer ?s ! a) = map cmd_num L" using tk a by simp
    from SC_Insert_spec [OF shape' _ _ this readL, of i en] readable False i ti(3)
    obtain p t where ins: "SC_Insert en a i n ?s = Some (?s\<lparr>AtsTimeIndexBuffer := (AtsTimeIndexBuffer ?s)[a := t]\<rparr>)"
      and t: "length t = SC_MAX_ATS_CMDS" "p \<le> n" "take (Suc n) t = map cmd_num (take p L @ i # drop p L)"
        "\<forall>j. n < j \<and> j < SC_MAX_ATS_CMDS \<longrightarrow> t ! j = ?ti ! j"
        "\<forall>y\<in>set (drop p L). SC_CompareAbsTime (cmd_time en a s y) (cmd_time en a s i)"
        "0 < p \<longrightarrow> \<not> SC_CompareAbsTime (cmd_time en a s (L ! (p - 1))) (cmd_time en a s i)"
      using a by auto
    have "time_list en a s (Suc i) (take p L @ i # drop p L)"
      using time_list_insert [OF L i False _ t(5,6)] t(2) ti(2) by simp
    moreover have "\<forall>j. Suc n \<le> j \<and> j < Suc i \<longrightarrow> t ! j = SC_INVALID_CMD_NUMBER"
      using t(4) inv i by auto
    ultimately have "built en a s (Suc i) (n + 1, ?s\<lparr>AtsTimeIndexBuffer := (AtsTimeIndexBuffer ?s)[a := t]\<rparr>)"
      unfolding built_def split using t(1,2,3) ti(2,3)
      by (intro exI [of _ t] exI [of _ "take p L @ i # drop p L"]) simp
    then show ?thesis using start False ins by simp
  qed
qed

lemma SC_BuildTimeIndexTable_spec:
  assumes shape: "ats_shape a s"
    and readable: "\<forall>c<SC_MAX_ATS_CMDS. AtsCmdIndexBuffer s ! a ! c \<noteq> SC_ERROR \<longrightarrow> cmd_readable a s c"
  shows "\<exists>L. SC_BuildTimeIndexTable en a s = Some (s\<lparr>AtsTimeIndexBuffer := (AtsTimeIndexBuffer s)
      [a := map cmd_num L @ replicate (SC_MAX_ATS_CMDS - length L) SC_INVALID_CMD_NUMBER]\<rparr>) \<and>
    time_list en a s SC_MAX_ATS_CMDS L"
proof -
  have "\<exists>ns. for_loop 0 SC_MAX_ATS_CMDS (build_round en a) (0, s) = Some ns \<and>
      built en a s (0 + SC_MAX_ATS_CMDS) ns"
  proof (rule for_loop_inv)
    have "s = s\<lparr>AtsTimeIndexBuffer := (AtsTimeIndexBuffer s)[a := AtsTimeIndexBuffer s ! a]\<rparr>" by simp
    then show "built en a s 0 (0, s)"
      using shape unfolding built_def split
      by (intro exI [of _ "AtsTimeIndexBuffer s ! a"] exI [of _ "[]"])
        (simp add: time_list_def cmds_in_use_def ats_shape_def)
  qed (use build_round_built [OF shape _ readable] in simp)
  then obtain n s' where loop: "for_loop 0 SC_MAX_ATS_CMDS (build_round en a) (0, s) = Some (n, s')"
    and b: "built en a s SC_MAX_ATS_CMDS (n, s')" by auto
  obtain ti L where ti: "s' = s\<lparr>AtsTimeIndexBuffer := (AtsTimeIndexBuffer s)[a := ti]\<rparr>" "length ti = SC_MAX_ATS_CMDS"
     "n = length L" "n \<le> SC_MAX_ATS_CMDS" "take n ti = map cmd_num L"
     "\<forall>j. n \<le> j \<and> j < SC_MAX_ATS_CMDS \<longrightarrow> ti ! j = SC_INVALID_CMD_NUMBER" "time_list en a s SC_MAX_ATS_CMDS L"
    using b unfolding built_def by auto
  have "drop n ti = replicate (SC_MAX_ATS_CMDS - n) SC_INVALID_CMD_NUMBER"
    using ti(2,4,6) by (intro nth_equalityI) simp_all
  then have "ti = map cmd_num L @ replicate (SC_MAX_ATS_CMDS - length L) SC_INVALID_CMD_NUMBER"
    using ti(3,5) append_take_drop_id [of n ti] by simp
  then show ?thesis
    using loop ti(1,7) shape by (intro exI [of _ L]) (simp add: SC_BuildTimeIndexTable_def ats_shape_def)
qed

section \<open>The invariant of an absolute sequence\<close>

text \<open>
  An entry fits when its message lies in the first \<open>sz\<close> words of the table. Of a sequence with
  commands, the commands with a status are those with an offset, their entries fit, and the list in
  order of time holds their numbers.
\<close>

definition ats_fits :: "bytes \<Rightarrow> nat \<Rightarrow> int \<Rightarrow> bool" where
  "ats_fits tbl sz e \<longleftrightarrow> 0 \<le> e \<and>
     4 * nat e + SC_ATS_HEADER_SIZE + CFE_MSG_GetSize (drop (4 * nat e + SC_ATS_HEADER_SIZE) tbl) \<le> 4 * sz"

definition cmds_ok :: "nat \<Rightarrow> nat \<Rightarrow> sc_state \<Rightarrow> bool" where
  "cmds_ok a sz s \<longleftrightarrow> (\<forall>c<SC_MAX_ATS_CMDS.
     (AtsCmdIndexBuffer s ! a ! c \<noteq> SC_ERROR \<longleftrightarrow> AtsCmdStatusTblAddr s ! a ! c \<noteq> SC_EMPTY) \<and>
     (AtsCmdStatusTblAddr s ! a ! c \<noteq> SC_EMPTY \<longrightarrow> ats_fits (AtsTblAddr s ! a) sz (AtsCmdIndexBuffer s ! a ! c)))"

definition row_count :: "nat \<Rightarrow> sc_state \<Rightarrow> nat" where
  "row_count a s = unat (NumberOfCommands (AtsInfoTblAddr s ! a))"

definition row_size :: "nat \<Rightarrow> sc_state \<Rightarrow> nat" where
  "row_size a s = unat (AtsSize (AtsInfoTblAddr s ! a))"

definition in_time_list :: "nat \<Rightarrow> sc_state \<Rightarrow> nat list \<Rightarrow> bool" where
  "in_time_list a s L \<longleftrightarrow> mset L = mset (cmds_in_use a s SC_MAX_ATS_CMDS) \<and> AtsTimeIndexBuffer s ! a =
     map cmd_num L @ replicate (SC_MAX_ATS_CMDS - length L) SC_INVALID_CMD_NUMBER"

definition row_loaded :: "nat \<Rightarrow> sc_state \<Rightarrow> bool" where
  "row_loaded a s \<longleftrightarrow> length (AtsTblAddr s ! a) = 4 * SC_ATS_BUFF_SIZE32 \<and> row_size a s \<le> SC_ATS_BUFF_SIZE32 \<and>
     cmds_ok a (row_size a s) s \<and> (\<exists>L. in_time_list a s L \<and> length L = row_count a s)"

definition ats_ok :: "nat \<Rightarrow> sc_state \<Rightarrow> bool" where
  "ats_ok a s \<longleftrightarrow> ats_shape a s \<and>
     (if row_count a s = 0 then (\<forall>c<SC_MAX_ATS_CMDS. AtsCmdStatusTblAddr s ! a ! c = SC_EMPTY) else row_loaded a s)"

lemma row_part_cong:
  assumes "row_part a s' = row_part a s"
  shows "ats_shape a s' = ats_shape a s" "cmds_ok a n s' = cmds_ok a n s" "row_count a s' = row_count a s"
    "row_size a s' = row_size a s" "in_time_list a s' L = in_time_list a s L" "ats_ok a s' = ats_ok a s"
    "cmds_in_use a s' n = cmds_in_use a s n"
  using assms
  by (simp_all add: row_part_def ats_shape_def cmds_ok_def row_count_def row_size_def in_time_list_def
      row_loaded_def ats_ok_def cmds_in_use_def)

text \<open>What an operation on one row leaves alone.\<close>

definition row_frame :: "nat \<Rightarrow> sc_state \<Rightarrow> sc_state \<Rightarrow> bool" where
  "row_frame a s s' \<longleftrightarrow> (\<forall>b. b \<noteq> a \<longrightarrow> row_part b s' = row_part b s) \<and> ctl_part s' = ctl_part s \<and>
     append_part s' = append_part s \<and> rts_part s' = rts_part s \<and> clock_part s' = clock_part s \<and> sc_tx s' = sc_tx s"

lemma row_frame_refl [simp]: "row_frame a s s"
  by (simp add: row_frame_def)

lemma row_frame_trans: "\<lbrakk> row_frame a s s1; row_frame a s1 s2 \<rbrakk> \<Longrightarrow> row_frame a s s2"
  by (simp add: row_frame_def)

lemma row_frame_upd:
  "row_frame a s (s\<lparr>AtsTimeIndexBuffer := (AtsTimeIndexBuffer s)[a := ti]\<rparr>)"
  "row_frame a s (s\<lparr>AtsCmdStatusTblAddr := (AtsCmdStatusTblAddr s)[a := st]\<rparr>)"
  "row_frame a s (s\<lparr>AtsInfoTblAddr := upd_at a f (AtsInfoTblAddr s)\<rparr>)"
  "row_frame a s (s\<lparr>AtsCmdIndexBuffer := (AtsCmdIndexBuffer s)[a := ci], AtsCmdStatusTblAddr := (AtsCmdStatusTblAddr s)[a := st],
     AtsInfoTblAddr := upd_at a f (AtsInfoTblAddr s)\<rparr>)"
  by (simp_all add: row_frame_def row_part_def ctl_part_def append_part_def rts_part_def clock_part_def upd_at_def)

lemma cmds_in_use_length:
  assumes "length (AtsCmdIndexBuffer s ! a) = SC_MAX_ATS_CMDS"
  shows "length (cmds_in_use a s SC_MAX_ATS_CMDS) = length (filter (\<lambda>e. e \<noteq> SC_ERROR) (AtsCmdIndexBuffer s ! a))"
proof -
  have "filter (\<lambda>e. e \<noteq> SC_ERROR) (AtsCmdIndexBuffer s ! a) =
      map ((!) (AtsCmdIndexBuffer s ! a)) (cmds_in_use a s SC_MAX_ATS_CMDS)"
    using filter_map [of "\<lambda>e. e \<noteq> SC_ERROR" "(!) (AtsCmdIndexBuffer s ! a)" "[0..<SC_MAX_ATS_CMDS]"]
      map_nth [of "AtsCmdIndexBuffer s ! a"] assms
    by (simp add: cmds_in_use_def comp_def)
  then show ?thesis by simp
qed

lemma cmds_readable:
  assumes "cmds_ok a sz s" "4 * sz \<le> length (AtsTblAddr s ! a)"
  shows "\<forall>c<SC_MAX_ATS_CMDS. AtsCmdIndexBuffer s ! a ! c \<noteq> SC_ERROR \<longrightarrow> cmd_readable a s c"
  using assms by (fastforce simp: cmds_ok_def ats_fits_def cmd_readable_def)

text \<open>After the list is built the row is in order.\<close>

lemma SC_BuildTimeIndexTable_ok:
  assumes shape: "ats_shape a s" and sz: "length (AtsTblAddr s ! a) = 4 * SC_ATS_BUFF_SIZE32" "row_size a s \<le> SC_ATS_BUFF_SIZE32"
    and ok: "cmds_ok a (row_size a s) s" and n: "row_count a s = length (cmds_in_use a s SC_MAX_ATS_CMDS)" "0 < row_count a s"
  shows "\<exists>L s'. SC_BuildTimeIndexTable en a s = Some s' \<and> ats_ok a s' \<and> row_frame a s s' \<and>
    in_time_list a s' L \<and> time_list en a s SC_MAX_ATS_CMDS L \<and>
    s' = s\<lparr>AtsTimeIndexBuffer := (AtsTimeIndexBuffer s)[a := AtsTimeIndexBuffer s' ! a]\<rparr>"
proof -
  obtain L where eq: "SC_BuildTimeIndexTable en a s = Some (s\<lparr>AtsTimeIndexBuffer := (AtsTimeIndexBuffer s)
      [a := map cmd_num L @ replicate (SC_MAX_ATS_CMDS - length L) SC_INVALID_CMD_NUMBER]\<rparr>)"
    and L: "time_list en a s SC_MAX_ATS_CMDS L"
    using SC_BuildTimeIndexTable_spec [OF shape cmds_readable [OF ok]] sz by auto
  let ?ti = "map cmd_num L @ replicate (SC_MAX_ATS_CMDS - length L) SC_INVALID_CMD_NUMBER"
  let ?s = "s\<lparr>AtsTimeIndexBuffer := (AtsTimeIndexBuffer s)[a := ?ti]\<rparr>"
  have a: "a < length (AtsTimeIndexBuffer s)" using shape by (simp add: ats_shape_def)
  have len: "length L = length (cmds_in_use a s SC_MAX_ATS_CMDS)"
    using L mset_eq_length by (auto simp: time_list_def)
  moreover have "length (cmds_in_use a s SC_MAX_ATS_CMDS) \<le> SC_MAX_ATS_CMDS"
    using length_filter_le [of _ "[0..<SC_MAX_ATS_CMDS]"] by (simp add: cmds_in_use_def)
  ultimately have lt: "length ?ti = SC_MAX_ATS_CMDS" by simp
  have use: "cmds_in_use a ?s n = cmds_in_use a s n" for n by (simp add: cmds_in_use_def)
  have list: "in_time_list a ?s L"
    using L a by (simp add: in_time_list_def time_list_def use)
  have "row_loaded a ?s"
    using sz ok n(1) list len unfolding row_loaded_def
    by (auto simp: row_size_def row_count_def cmds_ok_def)
  then have "ats_ok a ?s"
    using shape lt n(2) a by (simp add: ats_ok_def row_count_def ats_shape_def)
  then show ?thesis using eq list L a row_frame_upd(1) by (intro exI [of _ L] exI [of _ ?s]) simp
qed

section \<open>Correctness of a load\<close>

lemma InitAtsTables_row:
  assumes "ats_shape a s"
  shows "ats_shape a (SC_InitAtsTables a s)" "row_frame a s (SC_InitAtsTables a s)"
    "AtsCmdIndexBuffer (SC_InitAtsTables a s) ! a = replicate SC_MAX_ATS_CMDS SC_ERROR"
    "AtsCmdStatusTblAddr (SC_InitAtsTables a s) ! a = replicate SC_MAX_ATS_CMDS SC_EMPTY"
    "AtsTblAddr (SC_InitAtsTables a s) = AtsTblAddr s"
    "row_count a (SC_InitAtsTables a s) = 0" "ats_ok a (SC_InitAtsTables a s)"
  using assms
  by (simp_all add: SC_InitAtsTables_def ats_shape_def row_count_def row_frame_def row_part_def
      ctl_part_def append_part_def rts_part_def clock_part_def ats_ok_def upd_at_def)

definition loading :: "nat \<Rightarrow> nat \<Rightarrow> sc_state \<Rightarrow> bool" where
  "loading a i s \<longleftrightarrow> ats_shape a s \<and> length (AtsTblAddr s ! a) = 4 * SC_ATS_BUFF_SIZE32 \<and> cmds_ok a i s \<and>
     row_count a s = length (cmds_in_use a s SC_MAX_ATS_CMDS)"

lemma row_count_bound: "length (cmds_in_use a s SC_MAX_ATS_CMDS) \<le> SC_MAX_ATS_CMDS"
  using length_filter_le [of _ "[0..<SC_MAX_ATS_CMDS]"] by (simp add: cmds_in_use_def)

lemma ats_fits_mono: "\<lbrakk> ats_fits tbl i e; i \<le> j \<rbrakk> \<Longrightarrow> ats_fits tbl j e"
  by (simp add: ats_fits_def)

text \<open>A command is entered in its row.\<close>

definition enter_cmd :: "nat \<Rightarrow> nat \<Rightarrow> nat \<Rightarrow> sc_state \<Rightarrow> sc_state" where
  "enter_cmd a c i s = s\<lparr>AtsCmdIndexBuffer := (AtsCmdIndexBuffer s)[a := (AtsCmdIndexBuffer s ! a)[c := int i]],
     AtsCmdStatusTblAddr := (AtsCmdStatusTblAddr s)[a := (AtsCmdStatusTblAddr s ! a)[c := SC_LOADED]],
     AtsInfoTblAddr := upd_at a (\<lambda>r. r\<lparr>NumberOfCommands := NumberOfCommands r + 1\<rparr>) (AtsInfoTblAddr s)\<rparr>"

lemma enter_cmd_row:
  assumes "ats_shape a s"
  shows "AtsCmdIndexBuffer (enter_cmd a c i s) ! a = (AtsCmdIndexBuffer s ! a)[c := int i]"
    "AtsCmdStatusTblAddr (enter_cmd a c i s) ! a = (AtsCmdStatusTblAddr s ! a)[c := SC_LOADED]"
    "AtsTblAddr (enter_cmd a c i s) = AtsTblAddr s" "ats_shape a (enter_cmd a c i s)"
    "row_frame a s (enter_cmd a c i s)" "row_size a (enter_cmd a c i s) = row_size a s"
    "NumberOfCommands (AtsInfoTblAddr (enter_cmd a c i s) ! a) = NumberOfCommands (AtsInfoTblAddr s ! a) + 1"
  using assms row_frame_upd(4) by (simp_all add: enter_cmd_def ats_shape_def row_size_def)

lemma enter_cmd_loading:
  assumes l: "loading a i s" and c: "c < SC_MAX_ATS_CMDS" "AtsCmdStatusTblAddr s ! a ! c = SC_EMPTY"
    and fits: "ats_fits (AtsTblAddr s ! a) (i + n) (int i)"
  shows "loading a (i + n) (enter_cmd a c i s)"
proof -
  let ?s = "enter_cmd a c i s" and ?ci = "AtsCmdIndexBuffer s ! a"
  have shape: "ats_shape a s" and ok: "cmds_ok a i s" using l by (simp_all add: loading_def)
  note row = enter_cmd_row [OF shape]
  have len: "length ?ci = SC_MAX_ATS_CMDS" "length (AtsCmdStatusTblAddr s ! a) = SC_MAX_ATS_CMDS"
    using shape by (simp_all add: ats_shape_def)
  have err: "?ci ! c = SC_ERROR" using ok c by (simp add: cmds_ok_def)
  have "length (filter (\<lambda>e. e \<noteq> SC_ERROR) (?ci[c := int i])) = Suc (length (filter (\<lambda>e. e \<noteq> SC_ERROR) ?ci))"
    using length_filter_upd_at [of c ?ci "\<lambda>e. e \<noteq> SC_ERROR" "\<lambda>_. int i"] c(1) len err by (simp add: upd_at_def)
  then have use: "length (cmds_in_use a ?s SC_MAX_ATS_CMDS) = Suc (length (cmds_in_use a s SC_MAX_ATS_CMDS))"
    using cmds_in_use_length [of ?s a] cmds_in_use_length [of s a] len row by simp
  moreover have "row_count a ?s = Suc (row_count a s)"
    using l row_count_bound [of a s] row(7) by (simp add: row_count_def loading_def unat_word_ariths)
  moreover have "cmds_ok a (i + n) ?s"
    using ok fits c len ats_fits_mono [of _ i _ "i + n"] unfolding cmds_ok_def row
    by (auto simp: nth_list_update)
  ultimately show ?thesis using l row by (simp add: loading_def)
qed

lemma msg_words_bound: "n \<le> 4 * msg_words n" "4 * msg_words n \<le> n + 3"
  unfolding msg_words_def by presburger+

lemma load_entry_loading:
  assumes "loading a i s"
  shows "\<exists>r s'. load_entry en a i s = Some (r, s') \<and> row_frame a s s' \<and> (case r of Inl _ \<Rightarrow> s' = s | Inr n \<Rightarrow> loading a (i + n) s')"
proof -
  have shape: "ats_shape a s" and tbl: "length (AtsTblAddr s ! a) = 4 * SC_ATS_BUFF_SIZE32"
    using assms by (simp_all add: loading_def)
  let ?tbl = "AtsTblAddr s ! a" and ?num = "rd16 en (AtsTblAddr s ! a) (4 * i + 2)"
  let ?c = "unat (?num - 1)"
  show ?thesis
  proof (cases "i \<le> SC_ATS_BUFF_SIZE32 - SC_ATS_HDR_WORDS \<and> ?num \<noteq> 0 \<and> unat ?num \<le> SC_MAX_ATS_CMDS")
    case False
    then show ?thesis
      using shape tbl by (auto simp: load_entry_def ats_shape_def ats_cmd_number_def Let_def)
  next
    case True
    then have "0 < ?num" by (simp add: word_neq_0_conv)
    then have c: "?c < SC_MAX_ATS_CMDS"
      using True by (auto simp: unat_sub word_le_nat_alt word_less_nat_alt)
    let ?msg = "drop (4 * i + 8) ?tbl" and ?n = "CFE_MSG_GetSize (drop (4 * i + 8) ?tbl)"
    let ?w = "msg_words ?n + SC_ATS_HDR_NOPKT_WORDS"
    have fits: "ats_fits ?tbl (i + ?w) (int i)"
      using msg_words_bound [of ?n] by (simp add: ats_fits_def)
    have eq: "load_entry en a i s =
      (if AtsCmdStatusTblAddr s ! a ! ?c \<noteq> SC_EMPTY \<or> ?n < SC_PACKET_MIN_SIZE \<or> SC_PACKET_MAX_SIZE < ?n \<or>
          i + ?w > SC_ATS_BUFF_SIZE32 then Some (Inl SC_ERROR, s)
       else Some (Inr ?w, enter_cmd a ?c i s))"
      using True c shape tbl
      by (simp add: load_entry_def ats_shape_def ats_cmd_number_def ats_msg_def Let_def enter_cmd_def)
    show ?thesis
      using enter_cmd_loading [OF assms c _ fits] enter_cmd_row(5) [OF shape, of ?c i] unfolding eq by auto
  qed
qed

lemma load_ats_loop_loading:
  assumes "loading a i s" "i \<le> SC_ATS_BUFF_SIZE32"
  shows "\<exists>r i' s'. load_ats_loop en a i s = Some (r, i', s') \<and> loading a i' s' \<and> i' \<le> SC_ATS_BUFF_SIZE32 \<and> row_frame a s s'"
  using assms
proof (induction en a i s rule: load_ats_loop.induct)
  case (1 en a i s)
  obtain r s' where e: "load_entry en a i s = Some (r, s')" and f: "row_frame a s s'"
    and next_: "case r of Inl _ \<Rightarrow> s' = s | Inr n \<Rightarrow> loading a (i + n) s'"
    using load_entry_loading [OF "1.prems"(1)] by blast
  show ?case
  proof (cases r)
    case (Inl x)
    then show ?thesis using e next_ "1.prems" by (simp add: load_ats_loop.simps [of en a i s])
  next
    case (Inr n)
    have "i + n \<le> SC_ATS_BUFF_SIZE32" using load_entry_step [of en a i s n s'] e Inr by simp
    then obtain r' i' s2 where "load_ats_loop en a (i + n) s' = Some (r', i', s2)" "loading a i' s2"
        "i' \<le> SC_ATS_BUFF_SIZE32" "row_frame a s' s2"
      using "1.IH" [OF e _ Inr] next_ Inr by auto
    then show ?thesis
      using e Inr row_frame_trans [OF f] by (auto simp: load_ats_loop.simps [of en a i s])
  qed
qed

lemma SC_LoadAts_ok:
  assumes shape: "ats_shape a s" and tbl: "length (AtsTblAddr s ! a) = 4 * SC_ATS_BUFF_SIZE32"
  shows "\<exists>s'. SC_LoadAts en a s = Some s' \<and> ats_ok a s' \<and> row_frame a s s'"
proof -
  let ?s0 = "SC_InitAtsTables a s"
  note init = InitAtsTables_row [OF shape]
  have "loading a 0 ?s0"
    using init tbl by (simp add: loading_def cmds_ok_def cmds_in_use_def)
  then obtain r i s1 where loop: "load_ats_loop en a 0 ?s0 = Some (r, i, s1)" and l: "loading a i s1"
      and i: "i \<le> SC_ATS_BUFF_SIZE32" and f1: "row_frame a ?s0 s1"
    using load_ats_loop_loading by blast
  have shape1: "ats_shape a s1" and a: "a < SC_NUMBER_OF_ATS" using l by (simp_all add: loading_def ats_shape_def)
  have f: "row_frame a s s1" using row_frame_trans [OF init(2) f1] .
  show ?thesis
  proof (cases "r = 0 \<and> 0 < row_count a s1")
    case False
    then have "SC_LoadAts en a s = Some (SC_InitAtsTables a s1)"
      using loop shape1 a by (auto simp: SC_LoadAts_def ats_shape_def row_count_def word_less_nat_alt)
    then show ?thesis using InitAtsTables_row [OF shape1] row_frame_trans [OF f] by blast
  next
    case True
    let ?s2 = "s1\<lparr>AtsInfoTblAddr := upd_at a (\<lambda>r. r\<lparr>AtsSize := of_nat i\<rparr>) (AtsInfoTblAddr s1)\<rparr>"
    have eq: "SC_LoadAts en a s = SC_BuildTimeIndexTable en a ?s2"
      using True loop shape1 a by (simp add: SC_LoadAts_def ats_shape_def row_count_def word_less_nat_alt)
    have shape2: "ats_shape a ?s2" using shape1 by (simp add: ats_shape_def)
    have sz: "row_size a ?s2 = i" and cnt: "row_count a ?s2 = row_count a s1"
      using shape1 i by (simp_all add: row_size_def row_count_def ats_shape_def unat_of_nat take_bit_nat_eq_self)
    have "cmds_ok a i ?s2" "cmds_in_use a ?s2 n = cmds_in_use a s1 n" for n
      using l by (simp_all add: loading_def cmds_ok_def cmds_in_use_def)
    then obtain s' where "SC_BuildTimeIndexTable en a ?s2 = Some s'" "ats_ok a s'" "row_frame a ?s2 s'"
      using SC_BuildTimeIndexTable_ok [OF shape2, of en] l sz cnt i True by (auto simp: loading_def)
    then show ?thesis using eq row_frame_trans [OF f row_frame_trans [OF row_frame_upd(3)]] by auto
  qed
qed

section \<open>Validation against loading\<close>

text \<open>
  One description of the entry at a word of a table of \<open>n\<close> words, for the three walks over tables:
  the end (\<open>Inl 0\<close>), an error, or the command index and the words of an entry.
\<close>

definition ats_entry :: "endian \<Rightarrow> bytes \<Rightarrow> nat \<Rightarrow> nat \<Rightarrow> int + nat \<times> nat" where
  "ats_entry en tbl n i =
     (let num = rd16 en tbl (4 * i + 2); len = CFE_MSG_GetSize (drop (4 * i + SC_ATS_HEADER_SIZE) tbl)
      in if i \<ge> n \<or> num = 0 then Inl 0
         else if unat num > SC_MAX_ATS_CMDS \<or> i + SC_ATS_HDR_WORDS > n \<or> len < SC_PACKET_MIN_SIZE \<or>
                 len > SC_PACKET_MAX_SIZE \<or> i + SC_ATS_HDR_NOPKT_WORDS + msg_words len > n
              then Inl SC_ERROR
         else Inr (unat (num - 1), SC_ATS_HDR_NOPKT_WORDS + msg_words len))"

lemma index_below: "\<lbrakk> num \<noteq> 0; unat num \<le> SC_MAX_ATS_CMDS \<rbrakk> \<Longrightarrow> unat (num - 1 :: u16) < SC_MAX_ATS_CMDS"
  using word_neq_0_conv [of num] by (auto simp: unat_sub word_le_nat_alt word_less_nat_alt)

lemma ats_entry_Inr:
  assumes "ats_entry en tbl n i = Inr (c, w)"
  shows "c < SC_MAX_ATS_CMDS" "i + w \<le> n" "4 \<le> w" "ats_fits tbl (i + w) (int i)"
proof -
  let ?len = "CFE_MSG_GetSize (drop (4 * i + SC_ATS_HEADER_SIZE) tbl)"
  show "c < SC_MAX_ATS_CMDS" using assms index_below by (auto simp: ats_entry_def Let_def split: if_splits)
  have w: "w = SC_ATS_HDR_NOPKT_WORDS + msg_words ?len" "SC_PACKET_MIN_SIZE \<le> ?len" "i + w \<le> n"
    using assms by (auto simp: ats_entry_def Let_def split: if_splits)
  then show "i + w \<le> n" "4 \<le> w" using msg_words_bound [of ?len] by simp_all
  show "ats_fits tbl (i + w) (int i)"
    using w msg_words_bound [of ?len] by (simp add: ats_fits_def)
qed

lemma AtsDupTestArray_sc [simp]: "AtsDupTestArray (sc_evs e t as s) = AtsDupTestArray s"
  by (simp add: sc_evs_def)

definition dup_step :: "int + nat \<times> nat \<Rightarrow> nat \<Rightarrow> int list \<Rightarrow> int \<times> int list" where
  "dup_step e i D = (case e of Inl r \<Rightarrow> (r, D)
     | Inr (c, w) \<Rightarrow> if D ! c \<noteq> SC_DUP_TEST_UNUSED then (SC_ERROR, D) else (int w, D[c := int i]))"

lemma SC_VerifyAtsEntry_eq:
  assumes "length tbl = 4 * n" "length (AtsDupTestArray s) = SC_MAX_ATS_CMDS"
  shows "\<exists>s'. SC_VerifyAtsEntry en tbl i n s = Some (fst (dup_step (ats_entry en tbl n i) i (AtsDupTestArray s)), s') \<and>
    AtsDupTestArray s' = snd (dup_step (ats_entry en tbl n i) i (AtsDupTestArray s))"
proof -
  let ?num = "rd16 en tbl (4 * i + 2)"
  show ?thesis
  proof (cases "i \<ge> n \<or> ?num = 0 \<or> unat ?num > SC_MAX_ATS_CMDS \<or> i + SC_ATS_HDR_WORDS > n")
    case True
    then show ?thesis
      using assms by (auto simp: SC_VerifyAtsEntry_def verify_error_def ats_cmd_number_def ats_entry_def dup_step_def Let_def)
  next
    case False
    then show ?thesis
      using assms index_below [of ?num]
      by (auto simp: SC_VerifyAtsEntry_def verify_error_def ats_cmd_number_def ats_msg_def ats_entry_def
          dup_step_def Let_def add.commute)
  qed
qed

lemma load_entry_eq:
  assumes "ats_shape a s" "length (AtsTblAddr s ! a) = 4 * SC_ATS_BUFF_SIZE32" "i \<le> SC_ATS_BUFF_SIZE32"
  shows "load_entry en a i s = Some (case ats_entry en (AtsTblAddr s ! a) SC_ATS_BUFF_SIZE32 i of
      Inl r \<Rightarrow> (Inl r, s)
    | Inr (c, w) \<Rightarrow> if AtsCmdStatusTblAddr s ! a ! c \<noteq> SC_EMPTY then (Inl SC_ERROR, s)
                   else (Inr w, enter_cmd a c i s))"
proof -
  let ?num = "rd16 en (AtsTblAddr s ! a) (4 * i + 2)"
  show ?thesis
  proof (cases "i \<ge> SC_ATS_BUFF_SIZE32 \<or> ?num = 0 \<or> unat ?num > SC_MAX_ATS_CMDS \<or> i + SC_ATS_HDR_WORDS > SC_ATS_BUFF_SIZE32")
    case True
    then show ?thesis
      using assms by (auto simp: load_entry_def ats_shape_def ats_cmd_number_def ats_entry_def Let_def)
  next
    case False
    then show ?thesis
      using assms index_below [of ?num]
      by (simp add: load_entry_def ats_shape_def ats_cmd_number_def ats_msg_def ats_entry_def Let_def enter_cmd_def
          add.commute)
  qed
qed

text \<open>
  The row after a walk holds what the duplicate test array of the validation holds: both walks take
  the same steps.
\<close>

definition same_cmds :: "nat \<Rightarrow> int list \<Rightarrow> sc_state \<Rightarrow> bool" where
  "same_cmds a D s \<longleftrightarrow> length D = SC_MAX_ATS_CMDS \<and> AtsCmdIndexBuffer s ! a = D \<and>
     AtsCmdStatusTblAddr s ! a = map (\<lambda>e. if e = SC_ERROR then SC_EMPTY else SC_LOADED) D"

lemma same_cmds_enter:
  assumes "same_cmds a D s" "ats_shape a s" "c < SC_MAX_ATS_CMDS"
  shows "same_cmds a (D[c := int i]) (enter_cmd a c i s)"
  using assms by (simp add: same_cmds_def enter_cmd_row map_update)

lemma verify_load_loop:
  assumes "ats_shape a s" "length (AtsTblAddr s ! a) = 4 * SC_ATS_BUFF_SIZE32" "i \<le> SC_ATS_BUFF_SIZE32"
    and "same_cmds a (AtsDupTestArray sv) s" and "loading a i s"
  shows "\<exists>r i' cnt' sv' s'. verify_ats_loop en (AtsTblAddr s ! a) i cnt SC_ATS_BUFF_SIZE32 sv = Some (r, i', cnt', sv') \<and>
    load_ats_loop en a i s = Some (r, i', s') \<and> same_cmds a (AtsDupTestArray sv') s' \<and>
    (r = 0 \<or> r = SC_ERROR) \<and> cnt \<le> cnt' \<and> row_count a s' + cnt = row_count a s + cnt'"
  using assms
proof (induction en a i s arbitrary: sv cnt rule: load_ats_loop.induct)
  case (1 en a i s)
  let ?tbl = "AtsTblAddr s ! a" and ?D = "AtsDupTestArray sv"
  have shape: "ats_shape a s" and tbl: "length ?tbl = 4 * SC_ATS_BUFF_SIZE32" and same: "same_cmds a ?D s"
    using "1.prems" by simp_all
  let ?e = "ats_entry en ?tbl SC_ATS_BUFF_SIZE32 i"
  obtain sv' where v: "SC_VerifyAtsEntry en ?tbl i SC_ATS_BUFF_SIZE32 sv = Some (fst (dup_step ?e i ?D), sv')"
    "AtsDupTestArray sv' = snd (dup_step ?e i ?D)"
    using SC_VerifyAtsEntry_eq [of ?tbl SC_ATS_BUFF_SIZE32 sv en i] tbl same by (auto simp: same_cmds_def)
  note l = load_entry_eq [OF shape tbl "1.prems"(3), of en]
  note simps = verify_ats_loop.simps [of en ?tbl i cnt SC_ATS_BUFF_SIZE32 sv] load_ats_loop.simps [of en a i s]
  show ?case
  proof (cases ?e)
    case (Inl r)
    then have "r = 0 \<or> r = SC_ERROR" by (auto simp: ats_entry_def Let_def split: if_splits)
    then show ?thesis using v l Inl same by (auto simp: simps dup_step_def)
  next
    case (Inr cw)
    then obtain c w where e: "?e = Inr (c, w)" by (cases cw) auto
    note fit = ats_entry_Inr [OF e]
    show ?thesis
    proof (cases "?D ! c = SC_DUP_TEST_UNUSED")
      case False
      then have "AtsCmdStatusTblAddr s ! a ! c \<noteq> SC_EMPTY"
        using same fit(1) by (simp add: same_cmds_def)
      then show ?thesis using v l e same False by (auto simp: simps dup_step_def)
    next
      case True
      then have empty: "AtsCmdStatusTblAddr s ! a ! c = SC_EMPTY"
        using same fit(1) by (simp add: same_cmds_def)
      let ?s = "enter_cmd a c i s"
      note row = enter_cmd_row [OF shape, of c i]
      have same': "same_cmds a (AtsDupTestArray sv') ?s"
        using same_cmds_enter [OF same shape fit(1)] v(2) e True by (simp add: dup_step_def)
      have load: "loading a (i + w) ?s" using enter_cmd_loading [OF "1.prems"(5) fit(1) empty fit(4)] .
      have cnt: "row_count a ?s = Suc (row_count a s)"
        using "1.prems"(5) row_count_bound [of a s] row(7) by (simp add: row_count_def loading_def unat_word_ariths)
      have entry: "load_entry en a i s = Some (Inr w, ?s)" using l e empty by simp
      have "\<exists>r i' cnt' sv2 s'. verify_ats_loop en (AtsTblAddr ?s ! a) (i + w) (cnt + 1) SC_ATS_BUFF_SIZE32 sv' = Some (r, i', cnt', sv2) \<and>
        load_ats_loop en a (i + w) ?s = Some (r, i', s') \<and> same_cmds a (AtsDupTestArray sv2) s' \<and>
        (r = 0 \<or> r = SC_ERROR) \<and> cnt + 1 \<le> cnt' \<and> row_count a s' + (cnt + 1) = row_count a ?s + cnt'"
        using "1.IH" [OF entry refl refl row(4) _ _ same', of "cnt + 1"] tbl row(3) fit(2) load cnt by simp
      then obtain r i' cnt' sv2 s' where
        "verify_ats_loop en ?tbl (i + w) (cnt + 1) SC_ATS_BUFF_SIZE32 sv' = Some (r, i', cnt', sv2)"
        "load_ats_loop en a (i + w) ?s = Some (r, i', s')" "same_cmds a (AtsDupTestArray sv2) s'"
        "r = 0 \<or> r = SC_ERROR" "cnt + 1 \<le> cnt'" "row_count a s' + (cnt + 1) = row_count a ?s + cnt'"
        using row(3) by auto
      then show ?thesis using v(1) e True entry fit(3) cnt by (auto simp: simps dup_step_def)
    qed
  qed
qed

lemma SC_LoadAts_step:
  assumes shape: "ats_shape a s" and tbl: "length (AtsTblAddr s ! a) = 4 * SC_ATS_BUFF_SIZE32"
  shows "\<exists>r s1 s'. SC_ValidateAts en (AtsTblAddr s ! a) s0 = Some (r, s1) \<and> SC_LoadAts en a s = Some s' \<and>
    row_frame a s s' \<and> ats_shape a s' \<and>
    (if r = 0 then same_cmds a (AtsDupTestArray s1) s' \<and> 0 < row_count a s' \<and>
       (\<exists>L. in_time_list a s' L \<and> time_list en a s' SC_MAX_ATS_CMDS L)
     else row_count a s' = 0)"
proof -
  let ?tbl = "AtsTblAddr s ! a" and ?sv = "s0\<lparr>AtsDupTestArray := replicate SC_MAX_ATS_CMDS SC_DUP_TEST_UNUSED\<rparr>"
  let ?s0 = "SC_InitAtsTables a s"
  note init = InitAtsTables_row [OF shape]
  have load0: "loading a 0 ?s0" using init tbl by (simp add: loading_def cmds_ok_def cmds_in_use_def)
  have same0: "same_cmds a (AtsDupTestArray ?sv) ?s0" using init by (simp add: same_cmds_def map_replicate)
  obtain r i n sv s1 where v: "verify_ats_loop en ?tbl 0 0 SC_ATS_BUFF_SIZE32 ?sv = Some (r, i, n, sv)"
    and l: "load_ats_loop en a 0 ?s0 = Some (r, i, s1)" and same: "same_cmds a (AtsDupTestArray sv) s1"
    and r: "r = 0 \<or> r = SC_ERROR" and n: "row_count a s1 = n"
    using verify_load_loop [OF init(1) _ _ same0 load0, of en 0] init(5,6) tbl by auto
  have "\<exists>r' i' s1'. load_ats_loop en a 0 ?s0 = Some (r', i', s1') \<and> loading a i' s1' \<and>
      i' \<le> SC_ATS_BUFF_SIZE32 \<and> row_frame a ?s0 s1'"
    by (rule load_ats_loop_loading [OF load0]) simp
  then have ld: "loading a i s1" "i \<le> SC_ATS_BUFF_SIZE32" "row_frame a ?s0 s1" using l by auto
  have shape1: "ats_shape a s1" and a: "a < SC_NUMBER_OF_ATS" using ld(1) by (simp_all add: loading_def ats_shape_def)
  have f: "row_frame a s s1" using row_frame_trans [OF init(2) ld(3)] .
  show ?thesis
  proof (cases "r = 0 \<and> 0 < n")
    case False
    then have "SC_LoadAts en a s = Some (SC_InitAtsTables a s1)"
      using l shape1 a n by (auto simp: SC_LoadAts_def ats_shape_def row_count_def word_less_nat_alt)
    moreover have "\<exists>r' s1. SC_ValidateAts en ?tbl s0 = Some (r', s1) \<and> r' \<noteq> 0"
      using v r False by (auto simp: SC_ValidateAts_def SC_VerifyAtsTable_def)
    ultimately show ?thesis using InitAtsTables_row [OF shape1] row_frame_trans [OF f] by fastforce
  next
    case True
    let ?s2 = "s1\<lparr>AtsInfoTblAddr := upd_at a (\<lambda>r. r\<lparr>AtsSize := of_nat i\<rparr>) (AtsInfoTblAddr s1)\<rparr>"
    have eq: "SC_LoadAts en a s = SC_BuildTimeIndexTable en a ?s2"
      using True l shape1 a n by (simp add: SC_LoadAts_def ats_shape_def row_count_def word_less_nat_alt)
    have shape2: "ats_shape a ?s2" using shape1 by (simp add: ats_shape_def)
    have sz: "row_size a ?s2 = i" and cnt: "row_count a ?s2 = row_count a s1"
      using shape1 ld(2) by (simp_all add: row_size_def row_count_def ats_shape_def unat_of_nat take_bit_nat_eq_self)
    have "cmds_ok a i ?s2" "cmds_in_use a ?s2 k = cmds_in_use a s1 k" for k
      using ld(1) by (simp_all add: loading_def cmds_ok_def cmds_in_use_def)
    then obtain L s' where b: "SC_BuildTimeIndexTable en a ?s2 = Some s'" "ats_ok a s'" "row_frame a ?s2 s'"
      "in_time_list a s' L" "time_list en a ?s2 SC_MAX_ATS_CMDS L"
      "s' = ?s2\<lparr>AtsTimeIndexBuffer := (AtsTimeIndexBuffer ?s2)[a := AtsTimeIndexBuffer s' ! a]\<rparr>"
      using SC_BuildTimeIndexTable_ok [OF shape2, of en] ld sz cnt n True by (auto simp: loading_def)
    have "AtsCmdIndexBuffer s' = AtsCmdIndexBuffer ?s2" "AtsCmdStatusTblAddr s' = AtsCmdStatusTblAddr ?s2"
      "AtsInfoTblAddr s' = AtsInfoTblAddr ?s2" "AtsTblAddr s' = AtsTblAddr ?s2"
      by (subst b(6), simp)+
    then have row: "same_cmds a (AtsDupTestArray sv) s'" "row_count a s' = n" "time_list en a s' SC_MAX_ATS_CMDS L"
      using same cnt n b(5)
      by (simp_all add: same_cmds_def row_count_def time_list_def times_near_def cmds_in_use_def cmd_time_def)
    have "\<exists>s2. SC_ValidateAts en ?tbl s0 = Some (0, s2) \<and> AtsDupTestArray s2 = AtsDupTestArray sv"
      using v True by (simp add: SC_ValidateAts_def SC_VerifyAtsTable_def)
    then show ?thesis
      using eq b row True row_frame_trans [OF f row_frame_trans [OF row_frame_upd(3)]]
      by (auto simp: ats_ok_def)
  qed
qed

text \<open>The append table: an image that validation accepted is walked to its end.\<close>

lemma append_entry_eq:
  assumes "length tbl = 4 * SC_APPEND_BUFF_SIZE32" "ats_entry en tbl SC_APPEND_BUFF_SIZE32 i \<noteq> Inl SC_ERROR"
  shows "append_entry en tbl i = Some (case ats_entry en tbl SC_APPEND_BUFF_SIZE32 i of Inl _ \<Rightarrow> None | Inr (c, w) \<Rightarrow> Some w)"
  using assms
  by (auto simp: append_entry_def ats_entry_def ats_cmd_number_def ats_msg_def Let_def split: if_splits)

lemma verify_append_loop:
  assumes "length tbl = 4 * SC_APPEND_BUFF_SIZE32" "length (AtsDupTestArray sv) = SC_MAX_ATS_CMDS"
    and "verify_ats_loop en tbl i cnt SC_APPEND_BUFF_SIZE32 sv = Some (0, i', cnt', sv')"
  shows "append_loop en tbl i cnt = Some (i', cnt')"
  using assms
proof (induction en tbl i cnt arbitrary: sv rule: append_loop.induct)
  case (1 en tbl i cnt)
  let ?e = "ats_entry en tbl SC_APPEND_BUFF_SIZE32 i" and ?D = "AtsDupTestArray sv"
  obtain sv1 where v: "SC_VerifyAtsEntry en tbl i SC_APPEND_BUFF_SIZE32 sv = Some (fst (dup_step ?e i ?D), sv1)"
    "AtsDupTestArray sv1 = snd (dup_step ?e i ?D)"
    using SC_VerifyAtsEntry_eq [OF "1.prems"(1,2), of en i] by blast
  note simps = verify_ats_loop.simps [of en tbl i cnt SC_APPEND_BUFF_SIZE32 sv] append_loop.simps [of en tbl i cnt]
  show ?case
  proof (cases ?e)
    case (Inl r)
    then have "r = 0 \<or> r = SC_ERROR" by (auto simp: ats_entry_def Let_def split: if_splits)
    with "1.prems"(3) v Inl have "r = 0 \<and> i' = i \<and> cnt' = cnt" by (auto simp: simps dup_step_def)
    then show ?thesis using append_entry_eq [OF "1.prems"(1), of en i] Inl by (simp add: simps)
  next
    case (Inr cw)
    then obtain c w where e: "?e = Inr (c, w)" by (cases cw) auto
    have w: "4 \<le> w" using ats_entry_Inr(3) [OF e] .
    have D: "?D ! c = SC_DUP_TEST_UNUSED"
      using "1.prems"(3) v e by (auto simp: simps dup_step_def split: if_splits)
    have entry: "append_entry en tbl i = Some (Some w)" using append_entry_eq [OF "1.prems"(1), of en i] e by simp
    have "verify_ats_loop en tbl (i + w) (cnt + 1) SC_APPEND_BUFF_SIZE32 sv1 = Some (0, i', cnt', sv')"
      using "1.prems"(3) v e D w by (simp add: simps dup_step_def)
    moreover have "length (AtsDupTestArray sv1) = SC_MAX_ATS_CMDS" using v(2) e D "1.prems"(2) by (simp add: dup_step_def)
    ultimately show ?thesis using "1.IH" [OF entry refl "1.prems"(1)] entry by (simp add: simps)
  qed
qed

lemma append_loop_bounds:
  "append_loop en tbl i cnt = Some (i', cnt') \<Longrightarrow> i \<le> i' \<and> 4 * (cnt' - cnt) \<le> i' - i \<and> cnt \<le> cnt' \<and>
     (i \<le> SC_APPEND_BUFF_SIZE32 \<longrightarrow> i' \<le> SC_APPEND_BUFF_SIZE32)"
proof (induction en tbl i cnt rule: append_loop.induct)
  case (1 en tbl i cnt)
  show ?case
  proof (cases "append_entry en tbl i")
    case None
    then show ?thesis using "1.prems" by (simp add: append_loop.simps [of en tbl i])
  next
    case (Some x)
    show ?thesis
    proof (cases x)
      case None
      then show ?thesis using Some "1.prems" by (simp add: append_loop.simps [of en tbl i])
    next
      case n: (Some n)
      then have "append_loop en tbl (i + n) (cnt + 1) = Some (i', cnt')"
        using Some "1.prems" by (simp add: append_loop.simps [of en tbl i])
      from "1.IH" [OF Some n this] append_entry_step [of en tbl i n] Some n show ?thesis by auto
    qed
  qed
qed

lemma SC_UpdateAppend_ok:
  assumes tbl: "length (AppendTblAddr s) = 4 * SC_APPEND_BUFF_SIZE32"
    and ok: "SC_ValidateAppend en (AppendTblAddr s) s0 = Some (0, s1)"
  shows "\<exists>s'. SC_UpdateAppend en s = Some s' \<and>
    append_loop en (AppendTblAddr s') 0 0 = Some (unat (AppendWordCount s'), unat (AppendEntryCount s')) \<and>
    AppendTblAddr s' = AppendTblAddr s \<and> (\<forall>b. row_part b s' = row_part b s) \<and> ctl_part s' = ctl_part s \<and>
    rts_part s' = rts_part s \<and> clock_part s' = clock_part s \<and> sc_tx s' = sc_tx s"
proof -
  let ?sv = "s0\<lparr>AtsDupTestArray := replicate SC_MAX_ATS_CMDS SC_DUP_TEST_UNUSED\<rparr>"
  obtain i n sv where "verify_ats_loop en (AppendTblAddr s) 0 0 SC_APPEND_BUFF_SIZE32 ?sv = Some (0, i, n, sv)"
    using ok by (auto simp: SC_ValidateAppend_def SC_VerifyAtsTable_def split: Option.bind_splits if_splits)
  then have loop: "append_loop en (AppendTblAddr s) 0 0 = Some (i, n)"
    using verify_append_loop [OF tbl, of ?sv] by simp
  then have "n \<le> SC_APPEND_BUFF_SIZE32" "i \<le> SC_APPEND_BUFF_SIZE32" using append_loop_bounds by fastforce+
  then have "unat (of_nat i :: u16) = i" "unat (of_nat n :: u16) = n"
    by (simp_all add: unat_of_nat take_bit_nat_eq_self)
  then show ?thesis
    using loop by (simp add: SC_UpdateAppend_def Let_def sc_evs_def row_part_def ctl_part_def rts_part_def clock_part_def)
qed

end
