(* ===== verification/Sc_Ats.thy ===== *)
theory Sc_Ats
  imports Sc_Loads
begin

text \<open>
  Absolute time sequences of the stored command processor: the ground commands on them and their
  start, stop and switch (\<open>sc_atsrq.c\<close>), the append to a sequence (\<open>sc_loads.c\<close>), and the choice of
  the next command (\<open>sc_state.c\<close>).
\<close>

section \<open>Stop and start (\<open>sc_atsrq.c\<close>)\<close>

text \<open>The letter in an event text, \<open>A\<close> or \<open>B\<close>, as a character code.\<close>

definition ats_char :: "nat \<Rightarrow> int" where
  "ats_char AtsIndex = (if AtsIndex \<noteq> 0 then 66 else 65)"

definition NumberOfCommandsAt :: "nat \<Rightarrow> sc_state \<Rightarrow> nat option" where
  "NumberOfCommandsAt a s = map_option (\<lambda>r. unat (NumberOfCommands r)) (nth_opt (AtsInfoTblAddr s) a)"

definition SC_KillAts :: "sc_state \<Rightarrow> sc_state option" where
  "SC_KillAts s = do {
     s \<leftarrow> (if AtpState s \<noteq> SC_IDLE
           then map_option (\<lambda>t. s\<lparr>AtsInfoTblAddr := t\<rparr>)
                  (upd_opt (ats_index s) (\<lambda>r. r\<lparr>AtsUseCtr := AtsUseCtr r + 1\<rparr>) (AtsInfoTblAddr s))
           else Some s);
     Some (s\<lparr>AtpState := SC_IDLE, NextAtpTime := SC_MAX_TIME\<rparr>)
   }"

text \<open>The command index and the time of an element of the list in order of time.\<close>

definition time_list_entry :: "endian \<Rightarrow> nat \<Rightarrow> nat \<Rightarrow> sc_state \<Rightarrow> (nat \<times> u32) option" where
  "time_list_entry en a i s = do {
     num \<leftarrow> nth2 (AtsTimeIndexBuffer s) a i;
     let CmdIndex = uint num - 1;
     EntryIndex \<leftarrow> (if CmdIndex < 0 then None else nth2 (AtsCmdIndexBuffer s) a (nat CmdIndex));
     tbl \<leftarrow> nth_opt (AtsTblAddr s) a;
     t \<leftarrow> SC_GetAtsEntryTime en tbl EntryIndex;
     Some (nat CmdIndex, t)
   }"

text \<open>
  The loops of \<open>SC_BeginAts\<close> and \<open>SC_JumpAtsCmd\<close> from list element \<open>i\<close>, with \<open>n\<close> elements left: they
  skip commands earlier than \<open>start\<close>, and stop at the first that is not, with its index and time.
\<close>

fun begin_loop :: "endian \<Rightarrow> nat \<Rightarrow> u32 \<Rightarrow> nat \<Rightarrow> nat \<Rightarrow> sc_state \<Rightarrow> (nat \<times> (nat \<times> u32) option \<times> sc_state) option" where
  "begin_loop en a start 0 i s = Some (i, None, s)"
| "begin_loop en a start (Suc n) i s = do {
     (CmdIndex, ListCmdTime) \<leftarrow> time_list_entry en a i s;
     if SC_CompareAbsTime start ListCmdTime
     then do {
       st \<leftarrow> upd2 a CmdIndex (\<lambda>_. SC_SKIPPED) (AtsCmdStatusTblAddr s);
       begin_loop en a start n (Suc i) (s\<lparr>AtsCmdStatusTblAddr := st\<rparr>)
     }
     else Some (i, Some (CmdIndex, ListCmdTime), s)
   }"

definition SC_BeginAts :: "sc_env \<Rightarrow> nat \<Rightarrow> u16 \<Rightarrow> sc_state \<Rightarrow> (bool \<times> sc_state) option" where
  "SC_BeginAts env AtsIndex TimeOffset s =
     (if AtsIndex \<ge> SC_NUMBER_OF_ATS
      then Some (False, sc_evs 128 CFE_EVS_EventType_ERROR [int AtsIndex] s)
      else do {
        n \<leftarrow> NumberOfCommandsAt AtsIndex s;
        (TimeIndex, found, s) \<leftarrow>
          begin_loop (sc_host env) AtsIndex (SC_ComputeAbsTime (ucast TimeOffset) s) n 0 s;
        case found of
          None \<Rightarrow> map_option (Pair False) (SC_KillAts (sc_evs 29 CFE_EVS_EventType_ERROR [] s))
        | Some (CmdIndex, ListCmdTime) \<Rightarrow>
            (let s = s\<lparr>AtsNumber := of_nat (AtsIndex + 1), CmdNumber := of_nat (CmdIndex + 1),
                       TimeIndexPtr := of_nat TimeIndex\<rparr>;
                 s = sc_evs 30 CFE_EVS_EventType_DEBUG [uint (of_nat TimeIndex :: u16)] s
             in Some (True, s\<lparr>NextAtpTime := ListCmdTime\<rparr>))
      })"

section \<open>The append to a sequence (\<open>sc_loads.c\<close>)\<close>

definition memcpy_at :: "bytes \<Rightarrow> nat \<Rightarrow> bytes \<Rightarrow> nat \<Rightarrow> bytes option" where
  "memcpy_at dst off src n =
     (if off + n \<le> length dst \<and> n \<le> length src
      then Some (take off dst @ take n src @ drop (off + n) dst) else None)"

definition append_round :: "endian \<Rightarrow> nat \<Rightarrow> nat \<times> sc_state \<Rightarrow> (nat \<times> sc_state) option" where
  "append_round en a = (\<lambda>(EntryIndex, s). do {
     tbl \<leftarrow> nth_opt (AtsTblAddr s) a;
     num \<leftarrow> ats_cmd_number en tbl EntryIndex;
     let CmdIndex = unat (num - 1);
     status \<leftarrow> nth2 (AtsCmdStatusTblAddr s) a CmdIndex;
     info \<leftarrow> (if status = SC_EMPTY
              then upd_opt a (\<lambda>r. r\<lparr>NumberOfCommands := NumberOfCommands r + 1\<rparr>) (AtsInfoTblAddr s)
              else Some (AtsInfoTblAddr s));
     ci \<leftarrow> upd2 a CmdIndex (\<lambda>_. int EntryIndex) (AtsCmdIndexBuffer s);
     st \<leftarrow> upd2 a CmdIndex (\<lambda>_. SC_LOADED) (AtsCmdStatusTblAddr s);
     msg \<leftarrow> ats_msg tbl EntryIndex;
     Some (EntryIndex + SC_ATS_HDR_NOPKT_WORDS + msg_words (CFE_MSG_GetSize msg),
           s\<lparr>AtsInfoTblAddr := info, AtsCmdIndexBuffer := ci, AtsCmdStatusTblAddr := st\<rparr>)
   })"

definition SC_ProcessAppend :: "sc_env \<Rightarrow> nat \<Rightarrow> sc_state \<Rightarrow> sc_state option" where
  "SC_ProcessAppend env AtsIndex s =
     (if AtsIndex \<ge> SC_NUMBER_OF_ATS then Some (sc_evs 136 CFE_EVS_EventType_ERROR [int AtsIndex] s)
      else do {
        info \<leftarrow> nth_opt (AtsInfoTblAddr s) AtsIndex;
        let EntryIndex = unat (AtsSize info);
        tbl \<leftarrow> nth_opt (AtsTblAddr s) AtsIndex;
        tbl \<leftarrow> memcpy_at tbl (4 * EntryIndex) (AppendTblAddr s) (4 * unat (AppendWordCount s));
        let s = s\<lparr>AtsTblAddr := (AtsTblAddr s)[AtsIndex := tbl],
                  AtsInfoTblAddr := upd_at AtsIndex (\<lambda>r. r\<lparr>AtsSize := AtsSize r + ucast (AppendWordCount s)\<rparr>)
                                      (AtsInfoTblAddr s)\<rparr>;
        (EntryIndex, s) \<leftarrow> for_loop 0 (unat (AppendEntryCount s))
          (\<lambda>_. append_round (sc_host env) AtsIndex) (EntryIndex, s);
        s \<leftarrow> SC_BuildTimeIndexTable (sc_host env) AtsIndex s;
        if AtpState s = SC_EXECUTING \<and> unat (AtsNumber s) = AtsIndex + 1
        then do {
          (started, s) \<leftarrow> SC_BeginAts env AtsIndex 0 s;
          Some (if started then s\<lparr>AtpState := SC_EXECUTING\<rparr> else s)
        }
        else Some s
      })"

section \<open>Ground commands (\<open>sc_atsrq.c\<close>)\<close>

definition ats_reject :: "nat \<Rightarrow> int list \<Rightarrow> sc_state \<Rightarrow> sc_state" where
  "ats_reject eid args s = sc_err (sc_evs eid CFE_EVS_EventType_ERROR args s)"

definition SC_StartAtsCmd :: "sc_env \<Rightarrow> bytes \<Rightarrow> sc_state \<Rightarrow> sc_state option" where
  "SC_StartAtsCmd env m s = do {
     let (ok, s) = SC_VerifyCmdLength m 12 s;
     let AtsId = rd16 (sc_host env) m 8;
     let AtsIndex = unat (AtsId - 1);
     if \<not> ok then Some s
     else if \<not> (AtsId > 0 \<and> unat AtsId \<le> SC_NUMBER_OF_ATS) then Some (ats_reject 26 [uint AtsId] s)
     else if AtpState s \<noteq> SC_IDLE then Some (ats_reject 25 [] s)
     else do {
       n \<leftarrow> NumberOfCommandsAt AtsIndex s;
       if n = 0 then Some (ats_reject 24 [ats_char AtsIndex] s)
       else do {
         (started, s) \<leftarrow> SC_BeginAts env AtsIndex 0 s;
         Some (if started
               then sc_evs 23 CFE_EVS_EventType_INFORMATION [ats_char AtsIndex]
                      (sc_ok (s\<lparr>AtpState := SC_EXECUTING\<rparr>))
               else sc_err s)
       }
     }
   }"

definition SC_StopAtsCmd :: "sc_env \<Rightarrow> bytes \<Rightarrow> sc_state \<Rightarrow> sc_state option" where
  "SC_StopAtsCmd env m s =
     (let (ok, s) = SC_VerifyCmdLength m 8 s
      in if \<not> ok then Some s
         else do {
           let s = (if AtsNumber s = 1 then sc_evs 27 CFE_EVS_EventType_INFORMATION [65] s
                    else if AtsNumber s = 2 then sc_evs 27 CFE_EVS_EventType_INFORMATION [66] s
                    else sc_evs 28 CFE_EVS_EventType_INFORMATION [] s);
           s \<leftarrow> SC_KillAts s;
           Some (sc_ok (s\<lparr>SwitchPendFlag := 0\<rparr>))
         })"

definition SC_GroundSwitchCmd :: "sc_env \<Rightarrow> bytes \<Rightarrow> sc_state \<Rightarrow> sc_state option" where
  "SC_GroundSwitchCmd env m s =
     (let (ok, s) = SC_VerifyCmdLength m 8 s
      in if \<not> ok then Some s
         else if AtpState s = SC_EXECUTING
         then do {
           n \<leftarrow> NumberOfCommandsAt (SC_ToggleAtsIndex s) s;
           Some (if n > 0
                 then sc_evs 31 CFE_EVS_EventType_INFORMATION [] (sc_ok (s\<lparr>SwitchPendFlag := 1\<rparr>))
                 else (ats_reject 32 [] s)\<lparr>SwitchPendFlag := 0\<rparr>)
         }
         else Some ((ats_reject 33 [] s)\<lparr>SwitchPendFlag := 0\<rparr>))"

definition SC_ServiceSwitchPend :: "sc_env \<Rightarrow> sc_state \<Rightarrow> sc_state option" where
  "SC_ServiceSwitchPend env s =
     (if SC_CompareAbsTime (NextAtpTime s) (CurrentTime s)
      then do {
        s \<leftarrow> (if AtpState s = SC_EXECUTING
              then do {
                let OldAtsIndex = ats_index s;
                let NewAtsIndex = SC_ToggleAtsIndex s;
                n \<leftarrow> NumberOfCommandsAt NewAtsIndex s;
                if n > 0
                then do {
                  s \<leftarrow> SC_KillAts s;
                  (started, s) \<leftarrow> SC_BeginAts env NewAtsIndex 1 s;
                  Some (if started
                        then sc_evs 34 CFE_EVS_EventType_INFORMATION
                               [ats_char OldAtsIndex, ats_char NewAtsIndex] (s\<lparr>AtpState := SC_EXECUTING\<rparr>)
                        else s)
                }
                else Some (sc_evs 35 CFE_EVS_EventType_ERROR [] s)
              }
              else Some (sc_evs 36 CFE_EVS_EventType_ERROR [] s));
        Some (s\<lparr>SwitchPendFlag := 0\<rparr>)
      }
      else Some s)"

definition SC_InlineSwitch :: "sc_env \<Rightarrow> sc_state \<Rightarrow> (bool \<times> sc_state) option" where
  "SC_InlineSwitch env s = do {
     let NewAtsIndex = SC_ToggleAtsIndex s;
     let OldAtsIndex = ats_index s;
     n \<leftarrow> NumberOfCommandsAt NewAtsIndex s;
     (ReturnCode, s) \<leftarrow>
       (if n > 0
        then do {
          s \<leftarrow> SC_KillAts s;
          (started, s) \<leftarrow> SC_BeginAts env NewAtsIndex 0 s;
          Some (if started
                then (True, sc_ok (sc_evs 37 CFE_EVS_EventType_INFORMATION
                              [ats_char OldAtsIndex, ats_char NewAtsIndex] (s\<lparr>AtpState := SC_STARTING\<rparr>)))
                else (False, sc_err s))
        }
        else Some (False, ats_reject 38 [] s));
     Some (ReturnCode, s\<lparr>SwitchPendFlag := 0\<rparr>)
   }"

text \<open>The loop of the jump also counts the loaded commands it skips, and reports where it stops.\<close>

fun jump_loop ::
  "endian \<Rightarrow> nat \<Rightarrow> u32 \<Rightarrow> nat \<Rightarrow> nat \<Rightarrow> u16 \<Rightarrow> sc_state \<Rightarrow> (nat \<times> (nat \<times> u32) option \<times> u16 \<times> sc_state) option" where
  "jump_loop en a JumpTime 0 i skipped s = Some (i, None, skipped, s)"
| "jump_loop en a JumpTime (Suc n) i skipped s = do {
     (CmdIndex, ListCmdTime) \<leftarrow> time_list_entry en a i s;
     if SC_CompareAbsTime JumpTime ListCmdTime
     then do {
       status \<leftarrow> nth2 (AtsCmdStatusTblAddr s) a CmdIndex;
       if status = SC_LOADED
       then do {
         st \<leftarrow> upd2 a CmdIndex (\<lambda>_. SC_SKIPPED) (AtsCmdStatusTblAddr s);
         jump_loop en a JumpTime n (Suc i) (skipped + 1) (s\<lparr>AtsCmdStatusTblAddr := st\<rparr>)
       }
       else jump_loop en a JumpTime n (Suc i) skipped s
     }
     else Some (i, Some (CmdIndex, ListCmdTime), skipped,
                sc_evs 123 CFE_EVS_EventType_INFORMATION [int CmdIndex] s)
   }"

definition SC_JumpAtsCmd :: "sc_env \<Rightarrow> bytes \<Rightarrow> sc_state \<Rightarrow> sc_state option" where
  "SC_JumpAtsCmd env m s = do {
     let (ok, s) = SC_VerifyCmdLength m 12 s;
     if \<not> ok then Some s
     else if AtpState s = SC_EXECUTING
     then do {
       n \<leftarrow> NumberOfCommandsAt (ats_index s) s;
       (TimeIndex, found, NumSkipped, s) \<leftarrow>
         jump_loop (sc_host env) (ats_index s) (rd32 (sc_host env) m 8) n 0 0 s;
       case found of
         None \<Rightarrow> SC_KillAts (ats_reject 39 [] s)
       | Some (CmdIndex, ListCmdTime) \<Rightarrow>
           (let s = sc_ok (s\<lparr>CmdNumber := of_nat (CmdIndex + 1), TimeIndexPtr := of_nat TimeIndex,
                            NextAtpTime := ListCmdTime\<rparr>);
                s = sc_evs 40 CFE_EVS_EventType_INFORMATION [uint ListCmdTime] s
            in Some (if NumSkipped > 0 then sc_evs 88 CFE_EVS_EventType_DEBUG [uint NumSkipped] s else s))
     }
     else Some (ats_reject 41 [] s)
   }"

definition SC_ContinueAtsOnFailureCmd :: "sc_env \<Rightarrow> bytes \<Rightarrow> sc_state \<Rightarrow> sc_state" where
  "SC_ContinueAtsOnFailureCmd env m s =
     (let (ok, s) = SC_VerifyCmdLength m 12 s; State = rd16 (sc_host env) m 8
      in if \<not> ok then s
         else if State \<noteq> 1 \<and> State \<noteq> 0
         then sc_evs 42 CFE_EVS_EventType_ERROR [uint State] (sc_err s)
         else sc_evs 43 CFE_EVS_EventType_DEBUG [uint State]
                (sc_ok (s\<lparr>ContinueAtsOnFailureFlag := ucast State\<rparr>)))"

definition SC_AppendAtsCmd :: "sc_env \<Rightarrow> bytes \<Rightarrow> sc_state \<Rightarrow> sc_state option" where
  "SC_AppendAtsCmd env m s = do {
     let (ok, s) = SC_VerifyCmdLength m 12 s;
     let AtsId = rd16 (sc_host env) m 8;
     let AtsIndex = unat (AtsId - 1);
     if \<not> ok then Some s
     else if AtsId = 0 \<or> unat AtsId > SC_NUMBER_OF_ATS
     then Some (sc_evs 99 CFE_EVS_EventType_ERROR [uint AtsId] (sc_err s))
     else do {
       info \<leftarrow> nth_opt (AtsInfoTblAddr s) AtsIndex;
       if NumberOfCommands info = 0
       then Some (sc_evs 100 CFE_EVS_EventType_ERROR [65 + int AtsIndex] (sc_err s))
       else if AppendEntryCount s = 0
       then Some (sc_evs 101 CFE_EVS_EventType_ERROR [65 + int AtsIndex] (sc_err s))
       else if AtsSize info + ucast (AppendWordCount s) > of_nat SC_ATS_BUFF_SIZE32
       then Some (sc_evs 102 CFE_EVS_EventType_ERROR
                    [65 + int AtsIndex, sint (AtsSize info), uint (AppendWordCount s), int SC_ATS_BUFF_SIZE32]
                    (sc_err s))
       else do {
         s \<leftarrow> SC_ProcessAppend env AtsIndex (s\<lparr>AppendCmdArg := AtsId\<rparr>);
         Some (sc_evs 98 CFE_EVS_EventType_INFORMATION [65 + int AtsIndex, uint (AppendEntryCount s)] (sc_ok s))
       }
     }
   }"

section \<open>The next command (\<open>sc_state.c\<close>)\<close>

definition SC_GetNextAtsCommand :: "sc_env \<Rightarrow> sc_state \<Rightarrow> sc_state option" where
  "SC_GetNextAtsCommand env s =
     (if AtpState s = SC_EXECUTING
      then do {
        let AtsIndex = ats_index s;
        let TimeIndex = TimeIndexPtr s + 1;
        n \<leftarrow> NumberOfCommandsAt AtsIndex s;
        if unat TimeIndex < n
        then do {
          num \<leftarrow> nth2 (AtsTimeIndexBuffer s) AtsIndex (unat TimeIndex);
          let s = s\<lparr>TimeIndexPtr := TimeIndex, CmdNumber := ucast num\<rparr>;
          EntryIndex \<leftarrow> nth2 (AtsCmdIndexBuffer s) AtsIndex (unat (CmdNumber s - 1));
          tbl \<leftarrow> nth_opt (AtsTblAddr s) AtsIndex;
          t \<leftarrow> SC_GetAtsEntryTime (sc_host env) tbl EntryIndex;
          Some (s\<lparr>NextAtpTime := t\<rparr>)
        }
        else do {
          s \<leftarrow> SC_KillAts s;
          Some ((sc_evs 87 CFE_EVS_EventType_INFORMATION [ats_char AtsIndex] s)\<lparr>SwitchPendFlag := 0\<rparr>)
        }
      }
      else if AtpState s = SC_STARTING then Some (s\<lparr>AtpState := SC_EXECUTING\<rparr>)
      else Some s)"

section \<open>The invariant of absolute sequences\<close>

text \<open>The control block of a sequence that runs names a sequence, a command and a place in the list.\<close>

definition ctl_set :: "sc_state \<Rightarrow> bool" where
  "ctl_set s \<longleftrightarrow> (AtsNumber s = 1 \<or> AtsNumber s = 2) \<and> 0 < unat (CmdNumber s) \<and>
     unat (CmdNumber s) \<le> SC_MAX_ATS_CMDS \<and> unat (TimeIndexPtr s) < SC_MAX_ATS_CMDS"

definition append_ok :: "endian \<Rightarrow> sc_state \<Rightarrow> bool" where
  "append_ok en s \<longleftrightarrow> (0 < unat (AppendEntryCount s) \<longrightarrow> length (AppendTblAddr s) = 4 * SC_APPEND_BUFF_SIZE32 \<and>
     append_loop en (AppendTblAddr s) 0 0 = Some (unat (AppendWordCount s), unat (AppendEntryCount s)))"

definition ats_inv :: "endian \<Rightarrow> sc_state \<Rightarrow> bool" where
  "ats_inv en s \<longleftrightarrow> ats_ok 0 s \<and> ats_ok 1 s \<and> (AtpState s \<noteq> SC_IDLE \<longrightarrow> ctl_set s) \<and> append_ok en s"

lemma ats_inv_ok: "\<lbrakk> ats_inv en s; a < SC_NUMBER_OF_ATS \<rbrakk> \<Longrightarrow> ats_ok a s"
  by (auto simp: ats_inv_def numeral_2_eq_2 less_Suc_eq)

lemma append_ok_part: "append_part s' = append_part s \<Longrightarrow> append_ok en s' = append_ok en s"
  by (simp add: append_part_def append_ok_def)

lemma ctl_set_part: "ctl_part s' = ctl_part s \<Longrightarrow> ctl_set s' = ctl_set s"
  by (simp add: ctl_part_def ctl_set_def)

text \<open>An operation on absolute sequences keeps their invariant and the rest of the state.\<close>

definition ats_frame :: "sc_state \<Rightarrow> sc_state \<Rightarrow> bool" where
  "ats_frame s s' \<longleftrightarrow> rts_part s' = rts_part s \<and> clock_part s' = clock_part s \<and> sc_tx s' = sc_tx s"

definition ats_next :: "endian \<Rightarrow> sc_state \<Rightarrow> sc_state \<Rightarrow> bool" where
  "ats_next en s s' \<longleftrightarrow> ats_inv en s' \<and> ats_frame s s'"

lemma ats_frame_refl [simp]: "ats_frame s s"
  by (simp add: ats_frame_def)

lemma ats_frame_trans: "\<lbrakk> ats_frame s s1; ats_frame s1 s2 \<rbrakk> \<Longrightarrow> ats_frame s s2"
  by (simp add: ats_frame_def)

lemma row_frame_ats: "row_frame a s s' \<Longrightarrow> ats_frame s s'"
  by (simp add: row_frame_def ats_frame_def)

lemma row_frame_inv:
  assumes "row_frame a s s'" "ats_ok a s'" "ats_inv en s"
  shows "ats_inv en s'"
proof -
  have "ats_ok b s'" if "b < SC_NUMBER_OF_ATS" for b
    using assms row_part_cong(6) [of b s' s] ats_inv_ok [OF assms(3) that] by (cases "b = a") (auto simp: row_frame_def)
  then have "ats_ok 0 s'" "ats_ok 1 s'" by simp_all
  moreover have "AtpState s' = AtpState s" using assms(1) by (simp add: row_frame_def ctl_part_def)
  ultimately show ?thesis
    using assms(1,3) ctl_set_part [of s' s] append_ok_part [of s' s] by (simp add: ats_inv_def row_frame_def)
qed

lemma ats_inv_cong:
  assumes "\<forall>b. row_part b s' = row_part b s" "ctl_part s' = ctl_part s" "append_part s' = append_part s"
  shows "ats_inv en s' = ats_inv en s"
  using assms row_part_cong(6) [of _ s' s] ctl_set_part [of s' s] append_ok_part [of s' s]
  by (simp add: ats_inv_def ctl_part_def)

lemma ats_inv_sc [simp]:
  "ats_inv en (sc_evs e t as s) = ats_inv en s" "ats_inv en (sc_ok s) = ats_inv en s"
  "ats_inv en (sc_err s) = ats_inv en s"
  by (rule ats_inv_cong, simp_all)+

lemma ats_frame_sc [simp]:
  "ats_frame s0 (sc_evs e t as s) = ats_frame s0 s" "ats_frame s0 (sc_ok s) = ats_frame s0 s"
  "ats_frame s0 (sc_err s) = ats_frame s0 s"
  by (simp_all add: ats_frame_def)

lemma ats_next_sc [simp]:
  "ats_next en s0 (sc_evs e t as s) = ats_next en s0 s" "ats_next en s0 (sc_ok s) = ats_next en s0 s"
  "ats_next en s0 (sc_err s) = ats_next en s0 s"
  by (simp_all add: ats_next_def)

lemma ats_next_refl: "ats_inv en s \<Longrightarrow> ats_next en s s"
  by (simp add: ats_next_def)

lemma ats_next_trans: "\<lbrakk> ats_next en s s1; ats_next en s1 s2 \<rbrakk> \<Longrightarrow> ats_next en s s2"
  by (auto simp: ats_next_def intro: ats_frame_trans)

lemma ctl_fields:
  "row_part b (s\<lparr>AtpState := x\<rparr>) = row_part b s" "append_part (s\<lparr>AtpState := x\<rparr>) = append_part s"
  "row_part b (s\<lparr>SwitchPendFlag := f\<rparr>) = row_part b s" "append_part (s\<lparr>SwitchPendFlag := f\<rparr>) = append_part s"
  "row_part b (s\<lparr>AtsNumber := an, CmdNumber := cn, TimeIndexPtr := ti\<rparr>) = row_part b s"
  "row_part b (s\<lparr>NextAtpTime := nt\<rparr>) = row_part b s" "append_part (s\<lparr>NextAtpTime := nt\<rparr>) = append_part s"
  by (simp_all add: row_part_def append_part_def)

lemma ats_inv_ctl:
  assumes "ats_inv en s" "\<forall>b. row_part b s' = row_part b s" "append_part s' = append_part s"
    and "AtpState s' \<noteq> SC_IDLE \<longrightarrow> ctl_set s'"
  shows "ats_inv en s'"
  using assms row_part_cong(6) [of _ s' s] append_ok_part [of s' s] by (simp add: ats_inv_def)

lemma ats_next_switch [simp]: "ats_next en s0 (s\<lparr>SwitchPendFlag := f\<rparr>) = ats_next en s0 s"
proof -
  have "ats_inv en (s\<lparr>SwitchPendFlag := f\<rparr>) = ats_inv en s" for f s
    by (simp add: ats_inv_def append_ok_def ctl_set_def row_part_cong(6) [OF ctl_fields(3)])
  then show ?thesis by (simp add: ats_next_def ats_frame_def rts_part_def clock_part_def)
qed

text \<open>The status of a command in use may become any but empty.\<close>

lemma set_status_ok:
  assumes ok: "ats_ok a s" and c: "c < SC_MAX_ATS_CMDS" "AtsCmdStatusTblAddr s ! a ! c \<noteq> SC_EMPTY" and v: "v \<noteq> SC_EMPTY"
  shows "ats_ok a (s\<lparr>AtsCmdStatusTblAddr := (AtsCmdStatusTblAddr s)[a := (AtsCmdStatusTblAddr s ! a)[c := v]]\<rparr>)"
    (is "ats_ok a ?s")
proof -
  have shape: "ats_shape a s" using ok by (simp add: ats_ok_def)
  then have st: "AtsCmdStatusTblAddr ?s ! a = (AtsCmdStatusTblAddr s ! a)[c := v]"
    "length (AtsCmdStatusTblAddr s ! a) = SC_MAX_ATS_CMDS" by (simp_all add: ats_shape_def)
  have pos: "row_count a s \<noteq> 0" using ok c by (auto simp: ats_ok_def split: if_splits)
  then have "row_loaded a s" using ok by (simp add: ats_ok_def)
  then have "row_loaded a ?s"
    using c v st by (auto simp: row_loaded_def cmds_ok_def row_size_def row_count_def in_time_list_def cmds_in_use_def
        nth_list_update)
  then show ?thesis using shape pos st by (simp add: ats_ok_def row_count_def ats_shape_def)
qed

text \<open>An element of the list in order of time.\<close>

lemma time_list_entry_ok:
  assumes ok: "ats_ok a s" and i: "i < row_count a s"
  shows "\<exists>c. time_list_entry en a i s = Some (c, cmd_time en a s c) \<and> c < SC_MAX_ATS_CMDS \<and>
    AtsCmdStatusTblAddr s ! a ! c \<noteq> SC_EMPTY \<and> AtsTimeIndexBuffer s ! a ! i = cmd_num c \<and> cmd_readable a s c"
proof -
  have shape: "ats_shape a s" and loaded: "row_loaded a s" using ok i by (auto simp: ats_ok_def split: if_splits)
  obtain L where L: "in_time_list a s L" "length L = row_count a s"
    and cmds: "cmds_ok a (row_size a s) s" and sz: "row_size a s \<le> SC_ATS_BUFF_SIZE32"
      "length (AtsTblAddr s ! a) = 4 * SC_ATS_BUFF_SIZE32"
    using loaded by (auto simp: row_loaded_def)
  let ?c = "L ! i"
  have "?c \<in> set (cmds_in_use a s SC_MAX_ATS_CMDS)"
    using L i mset_eq_setD [of L] nth_mem [of i L] by (auto simp: in_time_list_def)
  then have c: "?c < SC_MAX_ATS_CMDS" "AtsCmdIndexBuffer s ! a ! ?c \<noteq> SC_ERROR" by (auto simp: cmds_in_use_def)
  then have st: "AtsCmdStatusTblAddr s ! a ! ?c \<noteq> SC_EMPTY" using cmds by (simp add: cmds_ok_def)
  have readable: "cmd_readable a s ?c" using cmds_readable [OF cmds] sz c by simp
  have num: "AtsTimeIndexBuffer s ! a ! i = cmd_num ?c" using L i by (simp add: in_time_list_def nth_append)
  have "uint (cmd_num ?c) - 1 = int ?c"
    using unat_cmd_num [OF c(1)] by (simp add: uint_nat)
  moreover have "i < SC_MAX_ATS_CMDS"
    using i L row_count_bound [of a s] mset_eq_length by (fastforce simp: in_time_list_def)
  ultimately have "time_list_entry en a i s = Some (?c, cmd_time en a s ?c)"
    using shape num c cmd_time_eq [OF readable, of en]
    by (simp add: time_list_entry_def ats_shape_def Let_def)
  then show ?thesis using c st num readable by blast
qed

lemma row_count_le: "ats_ok a s \<Longrightarrow> row_count a s \<le> SC_MAX_ATS_CMDS"
  using row_count_bound [of a s] mset_eq_length
  by (fastforce simp: ats_ok_def row_loaded_def in_time_list_def split: if_splits)

section \<open>Stop and start\<close>

lemma SC_KillAts_next:
  assumes "ats_inv en s"
  shows "\<exists>s'. SC_KillAts s = Some s' \<and> ats_next en s s' \<and> AtpState s' = SC_IDLE \<and> append_part s' = append_part s \<and>
    (\<forall>a. row_count a s' = row_count a s) \<and> AtsNumber s' = AtsNumber s \<and> SwitchPendFlag s' = SwitchPendFlag s \<and>
    AtsCmdStatusTblAddr s' = AtsCmdStatusTblAddr s \<and> NextAtpTime s' = SC_MAX_TIME"
proof -
  let ?f = "\<lambda>r. r\<lparr>AtsUseCtr := AtsUseCtr r + 1\<rparr>"
  define s1 where "s1 = (if AtpState s \<noteq> SC_IDLE then s\<lparr>AtsInfoTblAddr := upd_at (ats_index s) ?f (AtsInfoTblAddr s)\<rparr> else s)"
  have len: "length (AtsInfoTblAddr s) = SC_NUMBER_OF_ATS" using assms by (simp add: ats_inv_def ats_ok_def ats_shape_def)
  have idx: "ats_index s < SC_NUMBER_OF_ATS" if "AtpState s \<noteq> SC_IDLE"
    using assms that by (auto simp: ats_inv_def ctl_set_def ats_index_def)
  have eq: "SC_KillAts s = Some (s1\<lparr>AtpState := SC_IDLE, NextAtpTime := SC_MAX_TIME\<rparr>)"
    using idx len by (simp add: SC_KillAts_def s1_def)
  have info: "NumberOfCommands (AtsInfoTblAddr s1 ! a) = NumberOfCommands (AtsInfoTblAddr s ! a)"
    "AtsSize (AtsInfoTblAddr s1 ! a) = AtsSize (AtsInfoTblAddr s ! a)" "length (AtsInfoTblAddr s1) = length (AtsInfoTblAddr s)" for a
    using idx len by (auto simp: s1_def upd_at_def nth_list_update)
  have same: "AtsTblAddr s1 = AtsTblAddr s" "AtsCmdStatusTblAddr s1 = AtsCmdStatusTblAddr s"
    "AtsCmdIndexBuffer s1 = AtsCmdIndexBuffer s" "AtsTimeIndexBuffer s1 = AtsTimeIndexBuffer s"
    "append_part s1 = append_part s" "rts_part s1 = rts_part s" "clock_part s1 = clock_part s" "sc_tx s1 = sc_tx s"
    "AtsNumber s1 = AtsNumber s" "SwitchPendFlag s1 = SwitchPendFlag s"
    by (simp_all add: s1_def append_part_def rts_part_def clock_part_def)
  have "ats_ok a s1 = ats_ok a s" for a
    by (simp add: ats_ok_def ats_shape_def row_loaded_def row_count_def row_size_def cmds_ok_def in_time_list_def
        cmds_in_use_def info same)
  moreover have "ats_ok a (s1\<lparr>AtpState := SC_IDLE, NextAtpTime := SC_MAX_TIME\<rparr>) = ats_ok a s1" for a
    by (rule row_part_cong(6)) (simp add: row_part_def)
  moreover have "append_ok en (s1\<lparr>AtpState := SC_IDLE, NextAtpTime := SC_MAX_TIME\<rparr>) = append_ok en s"
    using same(5) by (intro append_ok_part) (simp add: append_part_def)
  ultimately have "ats_inv en (s1\<lparr>AtpState := SC_IDLE, NextAtpTime := SC_MAX_TIME\<rparr>)"
    using assms by (simp add: ats_inv_def)
  then show ?thesis
    using eq same info(1) by (simp add: ats_next_def ats_frame_def rts_part_def clock_part_def append_part_def row_count_def)
qed

lemma begin_loop_ok:
  assumes "ats_ok a s" "i + n = row_count a s"
  shows "\<exists>i' found s'. begin_loop en a start n i s = Some (i', found, s') \<and> ats_ok a s' \<and> row_frame a s s' \<and>
    row_count a s' = row_count a s \<and> i \<le> i' \<and> (case found of None \<Rightarrow> i' = row_count a s
      | Some (c, t) \<Rightarrow> i' < row_count a s \<and> c < SC_MAX_ATS_CMDS \<and> AtsTimeIndexBuffer s ! a ! i' = cmd_num c \<and>
          \<not> SC_CompareAbsTime start t \<and> t = cmd_time en a s c)"
  using assms
proof (induction n arbitrary: i s)
  case 0
  then show ?case by simp
next
  case (Suc n)
  obtain c where e: "time_list_entry en a i s = Some (c, cmd_time en a s c)" and c: "c < SC_MAX_ATS_CMDS"
    "AtsCmdStatusTblAddr s ! a ! c \<noteq> SC_EMPTY" "AtsTimeIndexBuffer s ! a ! i = cmd_num c"
    using time_list_entry_ok [OF Suc.prems(1), of i en] Suc.prems(2) by auto
  show ?case
  proof (cases "SC_CompareAbsTime start (cmd_time en a s c)")
    case False
    then show ?thesis using e c Suc.prems by simp
  next
    case True
    let ?st = "(AtsCmdStatusTblAddr s)[a := (AtsCmdStatusTblAddr s ! a)[c := SC_SKIPPED]]"
    let ?s = "s\<lparr>AtsCmdStatusTblAddr := ?st\<rparr>"
    have ok: "ats_ok a ?s" using set_status_ok [OF Suc.prems(1) c(1,2)] by simp
    have upd: "upd2 a c (\<lambda>_. SC_SKIPPED) (AtsCmdStatusTblAddr s) = Some ?st"
      using Suc.prems(1) c(1) by (simp add: ats_ok_def ats_shape_def)
    have n: "Suc i + n = row_count a ?s" using Suc.prems(2) by (simp add: row_count_def)
    have same: "cmd_time en a ?s c' = cmd_time en a s c'" "row_count a ?s = row_count a s"
      "AtsTimeIndexBuffer ?s = AtsTimeIndexBuffer s" for c'
      by (simp_all add: cmd_time_def row_count_def)
    from Suc.IH [OF ok n] obtain i' found s' where r: "begin_loop en a start n (Suc i) ?s = Some (i', found, s')"
      "ats_ok a s'" "row_frame a ?s s'" "row_count a s' = row_count a s" "Suc i \<le> i'"
      "case found of None \<Rightarrow> i' = row_count a s
       | Some (c, t) \<Rightarrow> i' < row_count a s \<and> c < SC_MAX_ATS_CMDS \<and> AtsTimeIndexBuffer s ! a ! i' = cmd_num c \<and>
           \<not> SC_CompareAbsTime start t \<and> t = cmd_time en a s c"
      unfolding same by auto
    then show ?thesis
      using e True upd row_frame_trans [OF row_frame_upd(2) r(3)] by (intro exI [of _ i'] exI [of _ found] exI [of _ s']) simp
  qed
qed

lemma NumberOfCommandsAt_eq: "\<lbrakk> ats_shape a s \<rbrakk> \<Longrightarrow> NumberOfCommandsAt a s = Some (row_count a s)"
  by (simp add: NumberOfCommandsAt_def ats_shape_def row_count_def)

lemma SC_BeginAts_next:
  assumes inv: "ats_inv (sc_host env) s" and a: "a < SC_NUMBER_OF_ATS"
  shows "\<exists>b s'. SC_BeginAts env a off s = Some (b, s') \<and> ats_next (sc_host env) s s' \<and> append_part s' = append_part s \<and>
    SwitchPendFlag s' = SwitchPendFlag s \<and> (if b then ctl_set s' \<and> AtpState s' = AtpState s else AtpState s' = SC_IDLE) \<and>
    (\<forall>b. b \<noteq> a \<longrightarrow> AtsCmdStatusTblAddr s' ! b = AtsCmdStatusTblAddr s ! b)"
proof -
  let ?en = "sc_host env" and ?start = "SC_ComputeAbsTime (ucast off) s"
  have ok: "ats_ok a s" using ats_inv_ok [OF inv a] .
  then have n: "NumberOfCommandsAt a s = Some (row_count a s)" by (simp add: ats_ok_def NumberOfCommandsAt_eq)
  obtain i found s1 where loop: "begin_loop ?en a ?start (row_count a s) 0 s = Some (i, found, s1)"
    and s1: "ats_ok a s1" "row_frame a s s1"
    and f: "case found of None \<Rightarrow> i = row_count a s
      | Some (c, t) \<Rightarrow> i < row_count a s \<and> c < SC_MAX_ATS_CMDS \<and> AtsTimeIndexBuffer s ! a ! i = cmd_num c \<and>
          \<not> SC_CompareAbsTime ?start t \<and> t = cmd_time ?en a s c"
    using begin_loop_ok [OF ok, of 0 "row_count a s" ?en ?start] by auto
  have inv1: "ats_inv ?en s1" using row_frame_inv [OF s1(2,1) inv] .
  have next1: "ats_next ?en s s1" using inv1 row_frame_ats [OF s1(2)] by (simp add: ats_next_def)
  have ctl1: "AtpState s1 = AtpState s" "append_part s1 = append_part s" "SwitchPendFlag s1 = SwitchPendFlag s"
    and rows: "\<forall>b. b \<noteq> a \<longrightarrow> AtsCmdStatusTblAddr s1 ! b = AtsCmdStatusTblAddr s ! b"
    using s1(2) by (simp_all add: row_frame_def ctl_part_def row_part_def)
  show ?thesis
  proof (cases found)
    case None
    let ?s1 = "sc_evs 29 CFE_EVS_EventType_ERROR [] s1"
    have "ats_inv ?en ?s1" using inv1 by simp
    then obtain s' where s': "SC_KillAts ?s1 = Some s'" "ats_next ?en ?s1 s'" "AtpState s' = SC_IDLE"
      "append_part s' = append_part ?s1" "SwitchPendFlag s' = SwitchPendFlag ?s1"
      "AtsCmdStatusTblAddr s' = AtsCmdStatusTblAddr ?s1"
      using SC_KillAts_next by blast
    have "ats_next ?en s ?s1" using next1 by simp
    then have "ats_next ?en s s'" using s'(2) by (rule ats_next_trans)
    moreover have "SC_BeginAts env a off s = Some (False, s')"
      using a n loop None s'(1) by (simp add: SC_BeginAts_def)
    ultimately show ?thesis using s' ctl1 rows by (intro exI [of _ False] exI [of _ s']) simp
  next
    case (Some ct)
    then obtain c t where found: "found = Some (c, t)" by (cases ct) auto
    then have ci: "i < row_count a s" "c < SC_MAX_ATS_CMDS" using f by auto
    have i: "i < SC_MAX_ATS_CMDS" using ci row_count_le [OF ok] by simp
    let ?s2 = "s1\<lparr>AtsNumber := of_nat (a + 1), CmdNumber := of_nat (c + 1), TimeIndexPtr := of_nat i\<rparr>"
    let ?s3 = "sc_evs 30 CFE_EVS_EventType_DEBUG [uint (of_nat i :: u16)] ?s2"
    let ?s4 = "?s3\<lparr>NextAtpTime := t\<rparr>"
    have eq: "SC_BeginAts env a off s = Some (True, ?s4)"
      using a n loop found by (simp add: SC_BeginAts_def)
    have "unat (of_nat (c + 1) :: u32) = c + 1" "unat (of_nat i :: u16) = i"
      using ci i by (simp_all add: unat_of_nat take_bit_nat_eq_self del: of_nat_Suc of_nat_add)
    moreover have "a = 0 \<or> a = 1" using a by auto
    ultimately have set: "ctl_set ?s4" using ci i by (auto simp: ctl_set_def sc_evs_def)
    have "ats_inv ?en ?s4"
      using set by (intro ats_inv_ctl [OF inv1]) (simp_all add: row_part_def append_part_def sc_evs_def)
    moreover have "ats_frame s ?s4"
      using next1 by (simp add: ats_next_def ats_frame_def rts_part_def clock_part_def sc_evs_def)
    moreover have "AtpState ?s4 = AtpState s" "append_part ?s4 = append_part s" "SwitchPendFlag ?s4 = SwitchPendFlag s"
      "\<forall>b. b \<noteq> a \<longrightarrow> AtsCmdStatusTblAddr ?s4 ! b = AtsCmdStatusTblAddr s ! b"
      using ctl1 rows by (simp_all add: sc_evs_def append_part_def)
    ultimately show ?thesis using eq set by (auto simp: ats_next_def)
  qed
qed

section \<open>The append\<close>

lemma byte_at_drop [simp]: "byte_at (drop k m) j = byte_at m (k + j)"
  by (simp add: byte_at_def less_diff_conv add.commute)

lemma memcpy_at_bytes:
  assumes "memcpy_at dst off src n = Some m"
  shows "length m = length dst" "k < off \<Longrightarrow> byte_at m k = byte_at dst k" "k < n \<Longrightarrow> byte_at m (off + k) = byte_at src k"
  using assms
  by (auto simp: memcpy_at_def byte_at_def nth_append split: if_splits)

lemma CFE_MSG_GetSize_cong:
  "\<lbrakk> byte_at m (k + 4) = byte_at m' (k' + 4); byte_at m (k + 5) = byte_at m' (k' + 5) \<rbrakk> \<Longrightarrow>
   CFE_MSG_GetSize (drop k m) = CFE_MSG_GetSize (drop k' m')"
  by (simp add: CFE_MSG_GetSize_def)

lemma rd16_cong:
  "\<lbrakk> byte_at m k = byte_at m' k'; byte_at m (k + 1) = byte_at m' (k' + 1) \<rbrakk> \<Longrightarrow> rd16 en m k = rd16 en m' k'"
  by (cases en) (simp_all add: rd16_def)

text \<open>An entry that is entered again keeps the count.\<close>

definition replace_cmd :: "nat \<Rightarrow> nat \<Rightarrow> nat \<Rightarrow> sc_state \<Rightarrow> sc_state" where
  "replace_cmd a c i s = s\<lparr>AtsCmdIndexBuffer := (AtsCmdIndexBuffer s)[a := (AtsCmdIndexBuffer s ! a)[c := int i]],
     AtsCmdStatusTblAddr := (AtsCmdStatusTblAddr s)[a := (AtsCmdStatusTblAddr s ! a)[c := SC_LOADED]]\<rparr>"

lemma replace_cmd_loading:
  assumes l: "loading a i s" and c: "c < SC_MAX_ATS_CMDS" "AtsCmdStatusTblAddr s ! a ! c \<noteq> SC_EMPTY"
    and fits: "ats_fits (AtsTblAddr s ! a) (i + n) (int i)"
  shows "loading a (i + n) (replace_cmd a c i s)" "row_frame a s (replace_cmd a c i s)"
    "AtsTblAddr (replace_cmd a c i s) = AtsTblAddr s" "row_size a (replace_cmd a c i s) = row_size a s"
    "row_count a (replace_cmd a c i s) = row_count a s"
proof -
  let ?s = "replace_cmd a c i s" and ?ci = "AtsCmdIndexBuffer s ! a"
  have shape: "ats_shape a s" and ok: "cmds_ok a i s" using l by (simp_all add: loading_def)
  have len: "length ?ci = SC_MAX_ATS_CMDS" "length (AtsCmdStatusTblAddr s ! a) = SC_MAX_ATS_CMDS"
    using shape by (simp_all add: ats_shape_def)
  have rows: "AtsCmdIndexBuffer ?s ! a = ?ci[c := int i]"
    "AtsCmdStatusTblAddr ?s ! a = (AtsCmdStatusTblAddr s ! a)[c := SC_LOADED]" "ats_shape a ?s"
    using shape by (simp_all add: replace_cmd_def ats_shape_def)
  show tbl: "AtsTblAddr ?s = AtsTblAddr s" and "row_size a ?s = row_size a s" and count: "row_count a ?s = row_count a s"
    and "row_frame a s ?s"
    by (simp_all add: replace_cmd_def row_size_def row_count_def row_frame_def row_part_def ctl_part_def
        append_part_def rts_part_def clock_part_def)
  have "cmds_in_use a ?s SC_MAX_ATS_CMDS = cmds_in_use a s SC_MAX_ATS_CMDS"
    using ok c len unfolding cmds_in_use_def rows
    by (intro filter_cong) (auto simp: cmds_ok_def nth_list_update)
  moreover have "cmds_ok a (i + n) ?s"
    using ok fits c len ats_fits_mono [of _ i _ "i + n"] unfolding cmds_ok_def rows tbl
    by (auto simp: nth_list_update)
  ultimately show "loading a (i + n) ?s" using l rows tbl count by (simp add: loading_def)
qed

lemma ats_fits_entry:
  "ats_fits tbl (i + (SC_ATS_HDR_NOPKT_WORDS + msg_words (CFE_MSG_GetSize (drop (4 * i + 8) tbl)))) (int i)"
  using msg_words_bound [of "CFE_MSG_GetSize (drop (4 * i + 8) tbl)"] by (simp add: ats_fits_def)

text \<open>The rounds over the appended entries follow the walk over the append table.\<close>

lemma append_entry_SomeD:
  assumes "append_entry en app off = Some (Some n)"
  shows "rd16 en app (4 * off + 2) \<noteq> 0" "unat (rd16 en app (4 * off + 2)) \<le> SC_MAX_ATS_CMDS" "4 \<le> n"
    "n = SC_ATS_HDR_NOPKT_WORDS + msg_words (CFE_MSG_GetSize (drop (4 * off + SC_ATS_HEADER_SIZE) app))"
  using assms
  by (auto simp: append_entry_def ats_cmd_number_def ats_msg_def Let_def msg_words_def split: if_splits Option.bind_splits)

lemma append_rounds:
  assumes "loading a (e0 + off) s" "append_loop en app off j = Some (w, n)"
    and "e0 + w \<le> SC_ATS_BUFF_SIZE32"
    and "\<forall>k<4 * w. byte_at (AtsTblAddr s ! a) (4 * e0 + k) = byte_at app k"
  shows "\<exists>s'. for_loop k (n - j) (\<lambda>_. append_round en a) (e0 + off, s) = Some (e0 + w, s') \<and> loading a (e0 + w) s' \<and>
    row_frame a s s' \<and> row_size a s' = row_size a s \<and> row_count a s \<le> row_count a s'"
  using assms
proof (induction en app off j arbitrary: s k rule: append_loop.induct)
  case (1 en app off j)
  have shape: "ats_shape a s" and tbl: "length (AtsTblAddr s ! a) = 4 * SC_ATS_BUFF_SIZE32"
    using "1.prems"(1) by (simp_all add: loading_def)
  show ?case
  proof (cases "append_entry en app off")
    case None
    then show ?thesis using "1.prems"(2) by (simp add: append_loop.simps [of en app off])
  next
    case (Some x)
    show ?thesis
    proof (cases x)
      case None
      then show ?thesis using Some "1.prems"(1,2) by (simp add: append_loop.simps [of en app off])
    next
      case m: (Some m)
      have loop: "append_loop en app (off + m) (j + 1) = Some (w, n)"
        using Some m "1.prems"(2) by (simp add: append_loop.simps [of en app off])
      note entry = append_entry_SomeD [of en app off m]
      have b: "off + m \<le> w" "j + 1 \<le> n" using append_loop_bounds [OF loop] by simp_all
      have m4: "4 \<le> m" using entry(3) Some m by simp
      let ?tbl = "AtsTblAddr s ! a" and ?i = "e0 + off" and ?num = "rd16 en app (4 * off + 2)"
      have bytes: "byte_at ?tbl (4 * ?i + k) = byte_at app (4 * off + k)" if "k < 16" for k
        using "1.prems"(4) [rule_format, of "4 * off + k"] that b m4 by (simp add: algebra_simps)
      have num: "rd16 en ?tbl (4 * ?i + 2) = ?num"
        by (rule rd16_cong) (use bytes [of 2] bytes [of 3] in \<open>simp_all add: algebra_simps numeral_3_eq_3\<close>)
      have len: "CFE_MSG_GetSize (drop (4 * ?i + 8) ?tbl) = CFE_MSG_GetSize (drop (4 * off + 8) app)"
        by (rule CFE_MSG_GetSize_cong) (use bytes [of 12] bytes [of 13] in \<open>simp_all add: algebra_simps\<close>)
      let ?c = "unat (?num - 1)"
      have c: "?c < SC_MAX_ATS_CMDS" using index_below entry(1,2) Some m by simp
      have mw: "m = SC_ATS_HDR_NOPKT_WORDS + msg_words (CFE_MSG_GetSize (drop (4 * ?i + 8) ?tbl))"
        using entry(4) Some m len by simp
      have fits: "ats_fits ?tbl (?i + m) (int ?i)"
        by (subst mw) (rule ats_fits_entry)
      define s1 where "s1 = (if AtsCmdStatusTblAddr s ! a ! ?c = SC_EMPTY then enter_cmd a ?c ?i s else replace_cmd a ?c ?i s)"
      have round: "append_round en a (?i, s) = Some (e0 + (off + m), s1)"
        using shape tbl c num mw "1.prems"(3) b m4
        by (auto simp: append_round_def ats_shape_def ats_cmd_number_def ats_msg_def Let_def s1_def enter_cmd_def
            replace_cmd_def)
      have l1: "loading a (e0 + (off + m)) s1" "row_frame a s s1" "AtsTblAddr s1 = AtsTblAddr s" "row_size a s1 = row_size a s"
        "row_count a s \<le> row_count a s1"
      proof -
        have "row_count a (enter_cmd a ?c ?i s) = Suc (row_count a s)"
          using "1.prems"(1) row_count_bound [of a s] enter_cmd_row(7) [OF shape]
          by (simp add: row_count_def loading_def unat_word_ariths)
        then show "loading a (e0 + (off + m)) s1" "row_frame a s s1" "AtsTblAddr s1 = AtsTblAddr s"
          "row_size a s1 = row_size a s" "row_count a s \<le> row_count a s1"
          using enter_cmd_loading [OF "1.prems"(1) c _ fits] replace_cmd_loading [OF "1.prems"(1) c _ fits]
            enter_cmd_row [OF shape]
          by (simp_all add: s1_def add.assoc)
      qed
      obtain s' where s': "for_loop (Suc k) (n - (j + 1)) (\<lambda>_. append_round en a) (e0 + (off + m), s1) = Some (e0 + w, s')"
        "loading a (e0 + w) s'" "row_frame a s1 s'" "row_size a s' = row_size a s1" "row_count a s1 \<le> row_count a s'"
        using "1.IH" [OF Some m l1(1) loop "1.prems"(3)] "1.prems"(4) l1(3) by auto
      have f: "row_frame a s s'" using row_frame_trans [OF l1(2) s'(3)] .
      have "n - j = Suc (n - (j + 1))" using b by simp
      then have "for_loop k (n - j) (\<lambda>_. append_round en a) (?i, s) = Some (e0 + w, s')"
        using round s'(1) by simp
      then show ?thesis using f s' l1(4,5) by (intro exI [of _ s']) simp
    qed
  qed
qed

lemma SC_ProcessAppend_next:
  assumes inv: "ats_inv (sc_host env) s" and a: "a < SC_NUMBER_OF_ATS" and n: "0 < row_count a s"
    and app: "0 < unat (AppendEntryCount s)" and room: "row_size a s + unat (AppendWordCount s) \<le> SC_ATS_BUFF_SIZE32"
  shows "\<exists>s'. SC_ProcessAppend env a s = Some s' \<and> ats_next (sc_host env) s s' \<and> append_part s' = append_part s"
proof -
  let ?en = "sc_host env" and ?w = "unat (AppendWordCount s)" and ?e = "row_size a s"
  have ok: "ats_ok a s" using ats_inv_ok [OF inv a] .
  then have shape: "ats_shape a s" and loaded: "row_loaded a s" using n by (auto simp: ats_ok_def split: if_splits)
  have tbl: "length (AtsTblAddr s ! a) = 4 * SC_ATS_BUFF_SIZE32" and cmds: "cmds_ok a ?e s"
    using loaded by (simp_all add: row_loaded_def)
  have loop: "append_loop ?en (AppendTblAddr s) 0 0 = Some (?w, unat (AppendEntryCount s))"
    and alen: "length (AppendTblAddr s) = 4 * SC_APPEND_BUFF_SIZE32"
    using inv app by (auto simp: ats_inv_def append_ok_def)
  have w: "?w \<le> SC_APPEND_BUFF_SIZE32" using append_loop_bounds [OF loop] by simp
  obtain t where t: "memcpy_at (AtsTblAddr s ! a) (4 * ?e) (AppendTblAddr s) (4 * ?w) = Some t"
    using tbl alen room w by (simp add: memcpy_at_def)
  let ?s1 = "s\<lparr>AtsTblAddr := (AtsTblAddr s)[a := t],
      AtsInfoTblAddr := upd_at a (\<lambda>r. r\<lparr>AtsSize := AtsSize r + ucast (AppendWordCount s)\<rparr>) (AtsInfoTblAddr s)\<rparr>"
  note bytes = memcpy_at_bytes [OF t]
  have shape1: "ats_shape a ?s1" and t1: "AtsTblAddr ?s1 ! a = t" using shape by (simp_all add: ats_shape_def)
  have size1: "row_size a ?s1 = ?e + ?w" and count1: "row_count a ?s1 = row_count a s"
    using shape room by (simp_all add: row_size_def row_count_def ats_shape_def unat_word_ariths)
  have "cmds_ok a ?e ?s1"
  proof -
    have "ats_fits t ?e i" if "ats_fits (AtsTblAddr s ! a) ?e i" for i
    proof -
      have "7 \<le> CFE_MSG_GetSize m" for m by (simp add: CFE_MSG_GetSize_def)
      from this [of "drop (4 * nat i + SC_ATS_HEADER_SIZE) (AtsTblAddr s ! a)"]
      have "4 * nat i + 15 \<le> 4 * ?e" using that by (simp add: ats_fits_def)
      then have "CFE_MSG_GetSize (drop (4 * nat i + 8) t) = CFE_MSG_GetSize (drop (4 * nat i + 8) (AtsTblAddr s ! a))"
        by (intro CFE_MSG_GetSize_cong bytes(2)) simp_all
      then show ?thesis using that by (simp add: ats_fits_def)
    qed
    then show ?thesis using cmds t1 by (simp add: cmds_ok_def)
  qed
  moreover have "row_count a s = length (cmds_in_use a s SC_MAX_ATS_CMDS)"
    using loaded mset_eq_length by (fastforce simp: row_loaded_def in_time_list_def)
  ultimately have load1: "loading a (?e + 0) ?s1"
    using shape1 count1 t1 bytes(1) tbl by (simp add: loading_def cmds_in_use_def)
  have frame1: "row_frame a s ?s1"
    by (simp add: row_frame_def row_part_def ctl_part_def append_part_def rts_part_def clock_part_def upd_at_def)
  have "\<forall>k<4 * ?w. byte_at (AtsTblAddr ?s1 ! a) (4 * ?e + k) = byte_at (AppendTblAddr s) k"
    using bytes(3) t1 by simp
  from append_rounds [OF load1 loop room this, of 0] obtain s2 where
    rounds: "for_loop 0 (unat (AppendEntryCount s)) (\<lambda>_. append_round ?en a) (?e, ?s1) = Some (?e + ?w, s2)"
    and s2: "loading a (?e + ?w) s2" "row_frame a ?s1 s2" "row_size a s2 = ?e + ?w" "row_count a s \<le> row_count a s2"
    using size1 count1 by auto
  have "\<exists>L s'. SC_BuildTimeIndexTable ?en a s2 = Some s' \<and> ats_ok a s' \<and> row_frame a s2 s' \<and>
    in_time_list a s' L \<and> time_list ?en a s2 SC_MAX_ATS_CMDS L \<and>
    s' = s2\<lparr>AtsTimeIndexBuffer := (AtsTimeIndexBuffer s2)[a := AtsTimeIndexBuffer s' ! a]\<rparr>"
    by (rule SC_BuildTimeIndexTable_ok) (use s2 n room in \<open>auto simp: loading_def\<close>)
  then obtain s3 where s3: "SC_BuildTimeIndexTable ?en a s2 = Some s3" "ats_ok a s3" "row_frame a s2 s3" by blast
  have frame: "row_frame a s s3" using frame1 s2(2) s3(3) by (blast intro: row_frame_trans)
  have inv3: "ats_inv ?en s3" using row_frame_inv [OF frame s3(2) inv] .
  have next3: "ats_next ?en s s3" and app3: "append_part s3 = append_part s"
    using inv3 row_frame_ats [OF frame] frame by (simp_all add: ats_next_def row_frame_def)
  have start: "SC_ProcessAppend env a s =
    (if AtpState s3 = SC_EXECUTING \<and> unat (AtsNumber s3) = a + 1
     then Option.bind (SC_BeginAts env a 0 s3) (\<lambda>(started, s). Some (if started then s\<lparr>AtpState := SC_EXECUTING\<rparr> else s))
     else Some s3)"
    using a shape t rounds s3(1) by (simp add: SC_ProcessAppend_def ats_shape_def row_size_def)
  obtain b s4 where begin_: "SC_BeginAts env a 0 s3 = Some (b, s4)" "ats_next ?en s3 s4" "append_part s4 = append_part s3"
    "if b then ctl_set s4 \<and> AtpState s4 = AtpState s3 else AtpState s4 = SC_IDLE"
    using SC_BeginAts_next [OF inv3 a, of 0] by blast
  have next4: "ats_next ?en s s4" using ats_next_trans [OF next3 begin_(2)] .
  show ?thesis
  proof (cases "AtpState s3 = SC_EXECUTING \<and> unat (AtsNumber s3) = a + 1")
    case True
    have "s4\<lparr>AtpState := AtpState s4\<rparr> = s4" by simp
    then have "(if b then s4\<lparr>AtpState := SC_EXECUTING\<rparr> else s4) = s4"
      using True begin_(4) by (cases b) simp_all
    then show ?thesis using start True begin_(1,3) next4 app3 by simp
  next
    case False
    then show ?thesis using start next3 app3 by auto
  qed
qed

section \<open>Every operation keeps the invariant\<close>

lemma SC_VerifyCmdLength_inv:
  "\<lbrakk> SC_VerifyCmdLength m n s = (ok, s1); ats_inv en s \<rbrakk> \<Longrightarrow> ats_next en s s1 \<and> (ok \<longrightarrow> s1 = s \<and> CFE_MSG_GetSize m = n)"
  by (auto simp: SC_VerifyCmdLength_def Let_def ats_next_refl split: if_splits)

text \<open>The commands the absolute time processor has left in its list, at most.\<close>

definition atp_left :: "sc_state \<Rightarrow> nat" where
  "atp_left s = (if AtpState s = SC_EXECUTING then SC_MAX_ATS_CMDS - unat (TimeIndexPtr s) else 0)"

lemma atp_left_bound: "atp_left s \<le> SC_MAX_ATS_CMDS"
  by (simp add: atp_left_def)

lemma SC_GetNextAtsCommand_next:
  assumes inv: "ats_inv (sc_host env) s"
  shows "\<exists>s'. SC_GetNextAtsCommand env s = Some s' \<and> ats_next (sc_host env) s s' \<and> append_part s' = append_part s \<and>
    AtpState s' \<noteq> SC_STARTING \<and> (AtpState s = SC_EXECUTING \<longrightarrow> atp_left s' < atp_left s)"
proof -
  let ?en = "sc_host env" and ?a = "ats_index s"
  consider (exec) "AtpState s = SC_EXECUTING" | (start) "AtpState s = SC_STARTING"
    | (other) "AtpState s \<noteq> SC_EXECUTING" "AtpState s \<noteq> SC_STARTING" by blast
  then show ?thesis
  proof cases
    case exec
    have set: "ctl_set s" using inv exec by (simp add: ats_inv_def)
    then have a: "?a < SC_NUMBER_OF_ATS" by (auto simp: ctl_set_def ats_index_def)
    then have ok: "ats_ok ?a s" using ats_inv_ok [OF inv] by simp
    then have shape: "ats_shape ?a s" by (simp add: ats_ok_def)
    have t: "unat (TimeIndexPtr s + 1) = unat (TimeIndexPtr s) + 1" and left: "unat (TimeIndexPtr s) < SC_MAX_ATS_CMDS"
      using set by (simp_all add: ctl_set_def unat_word_ariths)
    show ?thesis
    proof (cases "unat (TimeIndexPtr s + 1) < row_count ?a s")
      case True
      obtain c where c: "c < SC_MAX_ATS_CMDS" "AtsTimeIndexBuffer s ! ?a ! (unat (TimeIndexPtr s + 1)) = cmd_num c"
        "cmd_readable ?a s c"
        using time_list_entry_ok [OF ok True, of ?en] by blast
      let ?s = "s\<lparr>TimeIndexPtr := TimeIndexPtr s + 1, CmdNumber := ucast (cmd_num c), NextAtpTime := cmd_time ?en ?a s c\<rparr>"
      have lt: "unat (TimeIndexPtr s + 1) < SC_MAX_ATS_CMDS" using True row_count_le [OF ok] by simp
      have eq: "SC_GetNextAtsCommand env s = Some ?s"
        using exec shape True lt c cmd_time_eq [OF c(3), of ?en]
        by (simp add: SC_GetNextAtsCommand_def NumberOfCommandsAt_eq ats_shape_def Let_def)
      have "ctl_set ?s" using set c(1) lt by (simp add: ctl_set_def unat_cmd_num)
      then have "ats_inv ?en ?s" by (intro ats_inv_ctl [OF inv]) (simp_all add: row_part_def append_part_def)
      moreover have "atp_left ?s < atp_left s" using exec t left by (simp add: atp_left_def)
      ultimately show ?thesis
        using eq exec by (simp add: ats_next_def ats_frame_def rts_part_def clock_part_def append_part_def)
    next
      case False
      obtain s1 where k: "SC_KillAts s = Some s1" "ats_next ?en s s1" "AtpState s1 = SC_IDLE" "append_part s1 = append_part s"
        using SC_KillAts_next [OF inv] by blast
      let ?s2 = "(sc_evs 87 CFE_EVS_EventType_INFORMATION [ats_char ?a] s1)\<lparr>SwitchPendFlag := 0\<rparr>"
      have "SC_GetNextAtsCommand env s = Some ?s2"
        using exec shape False k(1) by (simp add: SC_GetNextAtsCommand_def NumberOfCommandsAt_eq Let_def)
      moreover have "append_part ?s2 = append_part s" "AtpState ?s2 = SC_IDLE"
        using k(3,4) by (simp_all add: append_part_def)
      moreover have "atp_left ?s2 < atp_left s" using exec left k(3) by (simp add: atp_left_def)
      ultimately show ?thesis using k(2) by simp
    qed
  next
    case start
    let ?s = "s\<lparr>AtpState := SC_EXECUTING\<rparr>"
    have "ats_inv ?en ?s"
      using inv start by (intro ats_inv_ctl [OF inv]) (simp_all add: ctl_fields ats_inv_def ctl_set_def)
    then show ?thesis
      using start by (simp add: SC_GetNextAtsCommand_def ats_next_def ats_frame_def rts_part_def clock_part_def append_part_def)
  next
    case other
    then show ?thesis using inv by (simp add: SC_GetNextAtsCommand_def ats_next_refl)
  qed
qed

text \<open>A start that succeeds lets the caller set the state of the processor.\<close>

lemma ats_next_state:
  assumes "ats_next en s0 s" "ctl_set s"
  shows "ats_next en s0 (s\<lparr>AtpState := x\<rparr>)"
proof -
  have "ats_inv en (s\<lparr>AtpState := x\<rparr>)"
    by (rule ats_inv_ctl [of en s]) (use assms in \<open>simp_all add: ats_next_def ctl_fields ctl_set_def\<close>)
  then show ?thesis using assms(1) by (simp add: ats_next_def ats_frame_def rts_part_def clock_part_def)
qed

lemma ats_index_cases:
  "ctl_set s \<Longrightarrow> ats_index s < SC_NUMBER_OF_ATS \<and> SC_ToggleAtsIndex s < SC_NUMBER_OF_ATS \<and>
     SC_ToggleAtsIndex s \<noteq> ats_index s"
  by (auto simp: ctl_set_def ats_index_def SC_ToggleAtsIndex_def)

lemma NumberOfCommandsAt_inv: "\<lbrakk> ats_inv en s; a < SC_NUMBER_OF_ATS \<rbrakk> \<Longrightarrow> NumberOfCommandsAt a s = Some (row_count a s)"
  using ats_inv_ok by (auto simp: ats_ok_def NumberOfCommandsAt_eq)

lemma SC_StartAtsCmd_next:
  assumes inv: "ats_inv (sc_host env) s"
  shows "\<exists>s'. SC_StartAtsCmd env m s = Some s' \<and> ats_next (sc_host env) s s'"
proof -
  let ?en = "sc_host env" and ?id = "rd16 (sc_host env) m 8"
  let ?a = "unat (?id - 1)"
  obtain ok s1 where v: "SC_VerifyCmdLength m 12 s = (ok, s1)" by fastforce
  have next1: "ats_next ?en s s1" and s1: "ok \<Longrightarrow> s1 = s" using SC_VerifyCmdLength_inv [OF v inv] by auto
  have rej: "ats_next ?en s (ats_reject e args s)" for e args using inv by (simp add: ats_reject_def ats_next_refl)
  show ?thesis
  proof (cases "ok \<and> ?id > 0 \<and> unat ?id \<le> SC_NUMBER_OF_ATS \<and> AtpState s = SC_IDLE \<and> row_count ?a s \<noteq> 0")
    case False
    have "NumberOfCommandsAt ?a s = Some (row_count ?a s)" if "?id > 0" "unat ?id \<le> SC_NUMBER_OF_ATS"
      using that by (intro NumberOfCommandsAt_inv [OF inv]) (auto simp: unat_sub word_le_nat_alt word_less_nat_alt)
    then show ?thesis
      using False v next1 s1 rej
      by (cases ok; cases "?id > 0 \<and> unat ?id \<le> SC_NUMBER_OF_ATS"; cases "AtpState s = SC_IDLE")
        (simp_all add: SC_StartAtsCmd_def Let_def)
  next
    case True
    then have a: "?a < SC_NUMBER_OF_ATS" by (auto simp: unat_sub word_le_nat_alt word_less_nat_alt)
    obtain b s2 where b: "SC_BeginAts env ?a 0 s = Some (b, s2)" "ats_next ?en s s2"
      "if b then ctl_set s2 \<and> AtpState s2 = AtpState s else AtpState s2 = SC_IDLE"
      using SC_BeginAts_next [OF inv a, of 0] by blast
    then show ?thesis
      using True v s1 NumberOfCommandsAt_inv [OF inv a] ats_next_state [OF b(2)]
      by (cases b) (simp_all add: SC_StartAtsCmd_def Let_def)
  qed
qed

lemma SC_StopAtsCmd_next:
  assumes inv: "ats_inv en s"
  shows "\<exists>s'. SC_StopAtsCmd env m s = Some s' \<and> ats_next en s s'"
proof -
  obtain ok s1 where v: "SC_VerifyCmdLength m 8 s = (ok, s1)" by fastforce
  have next1: "ats_next en s s1" and s1: "ok \<Longrightarrow> s1 = s" using SC_VerifyCmdLength_inv [OF v inv] by auto
  let ?s = "if AtsNumber s = 1 then sc_evs 27 CFE_EVS_EventType_INFORMATION [65] s
    else if AtsNumber s = 2 then sc_evs 27 CFE_EVS_EventType_INFORMATION [66] s
    else sc_evs 28 CFE_EVS_EventType_INFORMATION [] s"
  have n: "ats_next en s ?s" using inv by (simp add: ats_next_refl)
  then obtain s2 where k: "SC_KillAts ?s = Some s2" "ats_next en ?s s2" using SC_KillAts_next [of en ?s] by (auto simp: ats_next_def)
  have "ats_next en s s2" using ats_next_trans [OF n k(2)] .
  then show ?thesis
    using v next1 s1 k(1) by (cases ok) (simp_all add: SC_StopAtsCmd_def Let_def)
qed

lemma SC_GroundSwitchCmd_next:
  assumes inv: "ats_inv en s"
  shows "\<exists>s'. SC_GroundSwitchCmd env m s = Some s' \<and> ats_next en s s'"
proof -
  obtain ok s1 where v: "SC_VerifyCmdLength m 8 s = (ok, s1)" by fastforce
  have next1: "ats_next en s s1" and s1: "ok \<Longrightarrow> s1 = s" using SC_VerifyCmdLength_inv [OF v inv] by auto
  have num: "NumberOfCommandsAt (SC_ToggleAtsIndex s) s = Some (row_count (SC_ToggleAtsIndex s) s)" if "AtpState s = SC_EXECUTING"
    using inv that ats_index_cases [of s] by (intro NumberOfCommandsAt_inv [OF inv]) (simp add: ats_inv_def)
  show ?thesis
    using v next1 s1 num inv
    by (cases ok; cases "AtpState s = SC_EXECUTING")
      (simp_all add: SC_GroundSwitchCmd_def Let_def ats_reject_def ats_next_refl)
qed

lemma SC_ServiceSwitchPend_next:
  assumes inv: "ats_inv (sc_host env) s"
  shows "\<exists>s'. SC_ServiceSwitchPend env s = Some s' \<and> ats_next (sc_host env) s s' \<and>
    (\<not> SC_CompareAbsTime (NextAtpTime s) (CurrentTime s) \<longrightarrow> s' = s)"
proof (cases "SC_CompareAbsTime (NextAtpTime s) (CurrentTime s)")
  case False
  then show ?thesis using inv by (simp add: SC_ServiceSwitchPend_def ats_next_refl)
next
  case True
  let ?en = "sc_host env" and ?n = "SC_ToggleAtsIndex s"
  show ?thesis
  proof (cases "AtpState s = SC_EXECUTING \<and> row_count ?n s \<noteq> 0")
    case False
    have "NumberOfCommandsAt ?n s = Some (row_count ?n s)" if "AtpState s = SC_EXECUTING"
      using inv that ats_index_cases [of s] by (intro NumberOfCommandsAt_inv [OF inv]) (simp add: ats_inv_def)
    then show ?thesis
      using False True inv by (cases "AtpState s = SC_EXECUTING") (simp_all add: SC_ServiceSwitchPend_def Let_def ats_next_refl)
  next
    case exec: True
    have n: "?n < SC_NUMBER_OF_ATS" using inv exec ats_index_cases [of s] by (simp add: ats_inv_def)
    obtain s1 where k: "SC_KillAts s = Some s1" "ats_next ?en s s1" using SC_KillAts_next [OF inv] by blast
    then have inv1: "ats_inv ?en s1" by (simp add: ats_next_def)
    obtain b s2 where b: "SC_BeginAts env ?n 1 s1 = Some (b, s2)" "ats_next ?en s1 s2"
      "if b then ctl_set s2 \<and> AtpState s2 = AtpState s1 else AtpState s2 = SC_IDLE"
      using SC_BeginAts_next [OF inv1 n, of 1] by blast
    have "ats_next ?en s s2" using ats_next_trans [OF k(2) b(2)] .
    then show ?thesis
      using True exec k(1) b ats_next_state [of ?en s s2] NumberOfCommandsAt_inv [OF inv n]
      by (cases b) (simp_all add: SC_ServiceSwitchPend_def Let_def)
  qed
qed

lemma SC_InlineSwitch_next:
  assumes inv: "ats_inv (sc_host env) s" and exec: "AtpState s = SC_EXECUTING"
  shows "\<exists>b s'. SC_InlineSwitch env s = Some (b, s') \<and> ats_next (sc_host env) s s' \<and> append_part s' = append_part s \<and>
    AtsCmdStatusTblAddr s' ! ats_index s = AtsCmdStatusTblAddr s ! ats_index s"
proof -
  let ?en = "sc_host env" and ?n = "SC_ToggleAtsIndex s"
  have n: "?n < SC_NUMBER_OF_ATS" and old: "ats_index s \<noteq> ?n" using inv exec ats_index_cases [of s] by (auto simp: ats_inv_def)
  note num = NumberOfCommandsAt_inv [OF inv n]
  show ?thesis
  proof (cases "row_count ?n s = 0")
    case True
    then have "SC_InlineSwitch env s = Some (False, (ats_reject 38 [] s)\<lparr>SwitchPendFlag := 0\<rparr>)"
      using num by (simp add: SC_InlineSwitch_def Let_def)
    moreover have "ats_next ?en s ((ats_reject 38 [] s)\<lparr>SwitchPendFlag := 0\<rparr>)"
      using inv by (simp add: ats_reject_def ats_next_refl)
    moreover have "append_part ((ats_reject 38 [] s)\<lparr>SwitchPendFlag := 0\<rparr>) = append_part s"
      "AtsCmdStatusTblAddr ((ats_reject 38 [] s)\<lparr>SwitchPendFlag := 0\<rparr>) = AtsCmdStatusTblAddr s"
      by (simp_all add: ats_reject_def append_part_def)
    ultimately show ?thesis by metis
  next
    case False
    obtain s1 where k: "SC_KillAts s = Some s1" "ats_next ?en s s1" "append_part s1 = append_part s"
      "AtsCmdStatusTblAddr s1 = AtsCmdStatusTblAddr s"
      using SC_KillAts_next [OF inv] by blast
    then have inv1: "ats_inv ?en s1" by (simp add: ats_next_def)
    obtain b s2 where b: "SC_BeginAts env ?n 0 s1 = Some (b, s2)" "ats_next ?en s1 s2" "append_part s2 = append_part s1"
      "if b then ctl_set s2 \<and> AtpState s2 = AtpState s1 else AtpState s2 = SC_IDLE"
      "AtsCmdStatusTblAddr s2 ! ats_index s = AtsCmdStatusTblAddr s1 ! ats_index s"
      using SC_BeginAts_next [OF inv1 n, of 0] old by blast
    have "ats_next ?en s s2" using ats_next_trans [OF k(2) b(2)] .
    then show ?thesis
      using False k b ats_next_state [of ?en s s2] num
      by (cases b) (auto simp: SC_InlineSwitch_def Let_def append_part_def)
  qed
qed

lemma jump_loop_ok:
  assumes "ats_ok a s" "i + n = row_count a s"
  shows "\<exists>i' found k' s'. jump_loop en a jump n i k s = Some (i', found, k', s') \<and> ats_ok a s' \<and> row_frame a s s' \<and>
    row_count a s' = row_count a s \<and> (case found of None \<Rightarrow> True
      | Some (c, t) \<Rightarrow> i' < row_count a s \<and> c < SC_MAX_ATS_CMDS)"
  using assms
proof (induction n arbitrary: i k s)
  case 0
  then show ?case by simp
next
  case (Suc n)
  obtain c where e: "time_list_entry en a i s = Some (c, cmd_time en a s c)" and c: "c < SC_MAX_ATS_CMDS"
    "AtsCmdStatusTblAddr s ! a ! c \<noteq> SC_EMPTY"
    using time_list_entry_ok [OF Suc.prems(1), of i en] Suc.prems(2) by auto
  have shape: "ats_shape a s" using Suc.prems(1) by (simp add: ats_ok_def)
  show ?case
  proof (cases "SC_CompareAbsTime jump (cmd_time en a s c)")
    case False
    let ?s = "sc_evs 123 CFE_EVS_EventType_INFORMATION [int c] s"
    have "ats_ok a ?s = ats_ok a s" "row_count a ?s = row_count a s" by (rule row_part_cong, simp)+
    moreover have "row_frame a s ?s" by (simp add: row_frame_def)
    ultimately show ?thesis using False e c Suc.prems by simp
  next
    case True
    define s1 where "s1 = (if AtsCmdStatusTblAddr s ! a ! c = SC_LOADED
      then s\<lparr>AtsCmdStatusTblAddr := (AtsCmdStatusTblAddr s)[a := (AtsCmdStatusTblAddr s ! a)[c := SC_SKIPPED]]\<rparr> else s)"
    define k1 where "k1 = (if AtsCmdStatusTblAddr s ! a ! c = SC_LOADED then k + 1 else k)"
    have eq: "jump_loop en a jump (Suc n) i k s = jump_loop en a jump n (Suc i) k1 s1"
      using e True c(1) shape by (simp add: ats_shape_def s1_def k1_def)
    have s1: "ats_ok a s1" "row_count a s1 = row_count a s" "row_frame a s s1"
      using set_status_ok [OF Suc.prems(1) c, of SC_SKIPPED] Suc.prems(1) row_frame_upd(2)
      by (auto simp: s1_def row_count_def)
    have "Suc i + n = row_count a s1" using Suc.prems(2) s1(2) by simp
    from Suc.IH [OF s1(1) this, of k1] obtain i' found k' s' where
      "jump_loop en a jump n (Suc i) k1 s1 = Some (i', found, k', s')" "ats_ok a s'" "row_frame a s1 s'"
      "row_count a s' = row_count a s1" "case found of None \<Rightarrow> True | Some (c, t) \<Rightarrow> i' < row_count a s \<and> c < SC_MAX_ATS_CMDS"
      unfolding s1(2) by blast
    then show ?thesis unfolding eq using s1(2) row_frame_trans [OF s1(3)] by auto
  qed
qed

lemma SC_JumpAtsCmd_next:
  assumes inv: "ats_inv (sc_host env) s"
  shows "\<exists>s'. SC_JumpAtsCmd env m s = Some s' \<and> ats_next (sc_host env) s s'"
proof -
  let ?en = "sc_host env" and ?a = "ats_index s"
  obtain ok s1 where v: "SC_VerifyCmdLength m 12 s = (ok, s1)" by fastforce
  have next1: "ats_next ?en s s1" and s1: "ok \<Longrightarrow> s1 = s" using SC_VerifyCmdLength_inv [OF v inv] by auto
  show ?thesis
  proof (cases "ok \<and> AtpState s = SC_EXECUTING")
    case False
    then show ?thesis
      using v next1 s1 inv by (cases ok) (simp_all add: SC_JumpAtsCmd_def Let_def ats_reject_def ats_next_refl)
  next
    case True
    have set: "ctl_set s" using inv True by (simp add: ats_inv_def)
    then have a: "?a < SC_NUMBER_OF_ATS" using ats_index_cases by simp
    have ok: "ats_ok ?a s" using ats_inv_ok [OF inv a] .
    obtain i found k s2 where loop: "jump_loop ?en ?a (rd32 ?en m 8) (row_count ?a s) 0 0 s = Some (i, found, k, s2)"
      and s2: "ats_ok ?a s2" "row_frame ?a s s2"
      and f: "case found of None \<Rightarrow> True | Some (c, t) \<Rightarrow> i < row_count ?a s \<and> c < SC_MAX_ATS_CMDS"
      using jump_loop_ok [OF ok, of 0 "row_count ?a s"] by (metis add_0)
    have inv2: "ats_inv ?en s2" and next2: "ats_next ?en s s2"
      using row_frame_inv [OF s2(2,1) inv] row_frame_ats [OF s2(2)] by (simp_all add: ats_next_def)
    show ?thesis
    proof (cases found)
      case None
      have rej: "ats_next ?en s (ats_reject 39 [] s2)" using next2 by (simp add: ats_reject_def)
      then obtain s3 where s3: "SC_KillAts (ats_reject 39 [] s2) = Some s3" "ats_next ?en (ats_reject 39 [] s2) s3"
        using SC_KillAts_next [of ?en "ats_reject 39 [] s2"] by (auto simp: ats_next_def)
      have "ats_next ?en s s3" using ats_next_trans [OF rej s3(2)] .
      then show ?thesis
        using True v s1 loop None s3(1) NumberOfCommandsAt_inv [OF inv a] by (simp add: SC_JumpAtsCmd_def Let_def)
    next
      case (Some ct)
      then obtain c t where found: "found = Some (c, t)" by (cases ct) auto
      then have ci: "i < row_count ?a s" "c < SC_MAX_ATS_CMDS" using f by auto
      have i: "i < SC_MAX_ATS_CMDS" using ci row_count_le [OF ok] by simp
      let ?s3 = "s2\<lparr>CmdNumber := of_nat (c + 1), TimeIndexPtr := of_nat i, NextAtpTime := t\<rparr>"
      have "unat (of_nat (c + 1) :: u32) = c + 1" "unat (of_nat i :: u16) = i"
        using ci i by (simp_all add: unat_of_nat take_bit_nat_eq_self del: of_nat_Suc of_nat_add)
      moreover have "AtsNumber s2 = AtsNumber s" using s2(2) by (simp add: row_frame_def ctl_part_def)
      ultimately have "ctl_set ?s3" using set ci i by (simp add: ctl_set_def)
      then have "ats_inv ?en ?s3" by (intro ats_inv_ctl [OF inv2]) (simp_all add: row_part_def append_part_def)
      then have "ats_next ?en s ?s3"
        using next2 by (simp add: ats_next_def ats_frame_def rts_part_def clock_part_def)
      then show ?thesis
        using True v s1 loop found NumberOfCommandsAt_inv [OF inv a] by (simp add: SC_JumpAtsCmd_def Let_def)
    qed
  qed
qed

lemma SC_ContinueAtsOnFailureCmd_next: "ats_inv en s \<Longrightarrow> ats_next en s (SC_ContinueAtsOnFailureCmd env m s)"
proof -
  assume inv: "ats_inv en s"
  obtain ok s1 where v: "SC_VerifyCmdLength m 12 s = (ok, s1)" by fastforce
  have next1: "ats_next en s s1" and s1: "ok \<Longrightarrow> s1 = s" using SC_VerifyCmdLength_inv [OF v inv] by auto
  have "ats_next en s (s\<lparr>ContinueAtsOnFailureFlag := x\<rparr>)" for x
  proof -
    have "ats_inv en (s\<lparr>ContinueAtsOnFailureFlag := x\<rparr>) = ats_inv en s"
      by (rule ats_inv_cong) (simp_all add: row_part_def ctl_part_def append_part_def)
    then show ?thesis using inv by (simp add: ats_next_def ats_frame_def rts_part_def clock_part_def)
  qed
  then show ?thesis
    using v next1 s1 inv by (cases ok) (simp_all add: SC_ContinueAtsOnFailureCmd_def Let_def ats_next_refl)
qed

lemma SC_AppendAtsCmd_next:
  assumes inv: "ats_inv (sc_host env) s"
  shows "\<exists>s'. SC_AppendAtsCmd env m s = Some s' \<and> ats_next (sc_host env) s s'"
proof -
  let ?en = "sc_host env" and ?id = "rd16 (sc_host env) m 8"
  let ?a = "unat (?id - 1)"
  obtain ok s1 where v: "SC_VerifyCmdLength m 12 s = (ok, s1)" by fastforce
  have next1: "ats_next ?en s s1" and s1: "ok \<Longrightarrow> s1 = s" using SC_VerifyCmdLength_inv [OF v inv] by auto
  show ?thesis
  proof (cases "ok \<and> ?id \<noteq> 0 \<and> unat ?id \<le> SC_NUMBER_OF_ATS")
    case False
    then show ?thesis
      using v next1 s1 inv by (cases ok) (auto simp: SC_AppendAtsCmd_def Let_def ats_next_refl)
  next
    case True
    then have "0 < ?id" by (simp add: word_neq_0_conv)
    then have a: "?a < SC_NUMBER_OF_ATS" using True by (auto simp: unat_sub word_le_nat_alt word_less_nat_alt)
    have ok: "ats_ok ?a s" using ats_inv_ok [OF inv a] .
    then have len: "length (AtsInfoTblAddr s) = SC_NUMBER_OF_ATS" by (simp add: ats_ok_def ats_shape_def)
    let ?info = "AtsInfoTblAddr s ! ?a"
    show ?thesis
    proof (cases "NumberOfCommands ?info = 0 \<or> AppendEntryCount s = 0 \<or>
        AtsSize ?info + ucast (AppendWordCount s) > of_nat SC_ATS_BUFF_SIZE32")
      case reject: True
      then show ?thesis using True v s1 len a inv by (auto simp: SC_AppendAtsCmd_def Let_def ats_next_refl)
    next
      case accept: False
      let ?s = "s\<lparr>AppendCmdArg := ?id\<rparr>"
      have same: "\<forall>b. row_part b ?s = row_part b s" "ctl_part ?s = ctl_part s" "append_part ?s = append_part s"
        by (simp_all add: row_part_def ctl_part_def append_part_def)
      have inv': "ats_inv ?en ?s" using ats_inv_cong [OF same] inv by simp
      have n: "0 < row_count ?a ?s" "0 < unat (AppendEntryCount ?s)"
        using accept by (simp_all add: row_count_def word_neq_0_conv word_less_nat_alt)
      then have "row_size ?a s \<le> SC_ATS_BUFF_SIZE32" using ok by (simp add: ats_ok_def row_count_def row_loaded_def)
      moreover have "unat (AppendWordCount s) < 2 ^ 16" using unsigned_less [of "AppendWordCount s"] by simp
      ultimately have room: "row_size ?a ?s + unat (AppendWordCount ?s) \<le> SC_ATS_BUFF_SIZE32"
        using accept by (simp add: row_size_def not_less word_le_nat_alt unat_word_ariths)
      obtain s2 where s2: "SC_ProcessAppend env ?a ?s = Some s2" "ats_next ?en ?s s2"
        using SC_ProcessAppend_next [OF inv' a n room] by blast
      have "ats_frame s ?s" by (simp add: ats_frame_def rts_part_def clock_part_def)
      then have "ats_next ?en s s2" using s2(2) by (auto simp: ats_next_def intro: ats_frame_trans)
      then show ?thesis using True v s1 len a accept s2(1) by (auto simp: SC_AppendAtsCmd_def Let_def)
    qed
  qed
qed

end
