(* ===== verification/Sc_Cmds.thy ===== *)
theory Sc_Cmds
  imports Sc_Rts Sc_Ats
begin

text \<open>
  The message handler of the stored command processor (\<open>sc_cmds.c\<close>): the execution of the next
  command of an absolute sequence, housekeeping, the once-a-second loop, the dispatch of ground
  commands and the management of tables.
\<close>

section \<open>The absolute time processor\<close>

text \<open>The report of a bad command: its status, the counters, and the last error.\<close>

definition ats_cmd_status :: "nat \<Rightarrow> nat \<Rightarrow> u32 \<Rightarrow> sc_state \<Rightarrow> sc_state option" where
  "ats_cmd_status a i status s =
     map_option (\<lambda>t. s\<lparr>AtsCmdStatusTblAddr := t\<rparr>) (upd2 a i (\<lambda>_. status) (AtsCmdStatusTblAddr s))"

definition ats_cmd_error :: "sc_state \<Rightarrow> sc_state" where
  "ats_cmd_error s = s\<lparr>AtsCmdErrCtr := AtsCmdErrCtr s + 1, LastAtsErrSeq := ucast (AtsNumber s),
     LastAtsErrCmd := ucast (CmdNumber s)\<rparr>"

text \<open>
  The part after the checks: a switch command is executed, any other is sent. The result says
  whether the sequence is aborted. The checksum is computed but not used: the code tests \<open>true\<close>.
\<close>

definition ats_execute :: "sc_env \<Rightarrow> nat \<Rightarrow> nat \<Rightarrow> u16 \<Rightarrow> bytes \<Rightarrow> sc_state \<Rightarrow> (bool \<times> sc_state) option" where
  "ats_execute env AtsIndex CmdIndex num msg s = do {
     _ \<leftarrow> CFE_MSG_ValidateChecksum msg;
     let s = s\<lparr>NumCmdsSec := NumCmdsSec s + 1\<rparr>;
     if CFE_MSG_GetMsgId msg = SC_CMD_MID \<and> snd (CFE_MSG_GetFcnCode msg) = 8
     then do {
       (switched, s) \<leftarrow> SC_InlineSwitch env s;
       if switched
       then do {
         s \<leftarrow> ats_cmd_status AtsIndex CmdIndex SC_EXECUTED s;
         Some (False, s\<lparr>AtsCmdCtr := AtsCmdCtr s + 1\<rparr>)
       }
       else do {
         s \<leftarrow> ats_cmd_status AtsIndex CmdIndex SC_FAILED_DISTRIB s;
         Some (False, ats_cmd_error s)
       }
     }
     else do {
       (Result, s) \<leftarrow> sc_transmit env msg s;
       if Result = 0
       then do {
         s \<leftarrow> ats_cmd_status AtsIndex CmdIndex SC_EXECUTED s;
         Some (False, s\<lparr>AtsCmdCtr := AtsCmdCtr s + 1\<rparr>)
       }
       else do {
         s \<leftarrow> ats_cmd_status AtsIndex CmdIndex SC_FAILED_DISTRIB s;
         Some (True, sc_evs 46 CFE_EVS_EventType_ERROR [uint num, Result] (ats_cmd_error s))
       }
     }
   }"

definition SC_ProcessAtpCmd :: "sc_env \<Rightarrow> sc_state \<Rightarrow> sc_state option" where
  "SC_ProcessAtpCmd env s =
     (if \<not> SC_CompareAbsTime (NextAtpTime s) (CurrentTime s) \<and> NextProcNumber s = SC_ATP \<and>
         AtpState s = SC_EXECUTING
      then do {
        let AtsIndex = unat (AtsNumber s - 1);
        let CmdIndex = unat (CmdNumber s - 1);
        EntryIndex \<leftarrow> nth2 (AtsCmdIndexBuffer s) AtsIndex CmdIndex;
        status \<leftarrow> nth2 (AtsCmdStatusTblAddr s) AtsIndex CmdIndex;
        (AbortATS, s) \<leftarrow>
          (if status = SC_LOADED
           then if EntryIndex < 0 then None
           else do {
             tbl \<leftarrow> nth_opt (AtsTblAddr s) AtsIndex;
             num \<leftarrow> ats_cmd_number (sc_host env) tbl (nat EntryIndex);
             if uint num = int CmdIndex + 1
             then do {
               msg \<leftarrow> ats_msg tbl (nat EntryIndex);
               ats_execute env AtsIndex CmdIndex num msg s
             }
             else do {
               s \<leftarrow> ats_cmd_status AtsIndex CmdIndex SC_SKIPPED
                      (ats_cmd_error (sc_evs 47 CFE_EVS_EventType_ERROR [int CmdIndex + 1, uint num] s));
               Some (True, s)
             }
           }
           else Some (False, ats_cmd_error (sc_evs 48 CFE_EVS_EventType_ERROR [uint status] s)));
        if AbortATS
        then do {
          s \<leftarrow> SC_KillAts (sc_evs 45 CFE_EVS_EventType_ERROR [if AtsNumber s = 1 then 65 else 66] s);
          Some (s\<lparr>SwitchPendFlag := 0\<rparr>)
        }
        else SC_GetNextAtsCommand env s
      }
      else Some s)"

section \<open>Housekeeping\<close>

text \<open>The bit masks of the housekeeping packet: bit \<open>i mod 16\<close> of word \<open>i div 16\<close> stands for index \<open>i\<close>.\<close>

fun hk_mask :: "(SC_RtsInfoEntry \<Rightarrow> bool) \<Rightarrow> SC_RtsInfoEntry list \<Rightarrow> nat \<Rightarrow> u16 list \<Rightarrow> u16 list" where
  "hk_mask P [] i ws = ws"
| "hk_mask P (r # rs) i ws =
     hk_mask P rs (Suc i) (if P r then upd_at (i div 16) (\<lambda>w. w OR push_bit (i mod 16) 1) ws else ws)"

definition atp_free_bytes :: "SC_AtsInfoTable \<Rightarrow> u32" where
  "atp_free_bytes r = of_nat SC_ATS_BUFF_SIZE32 * of_nat SC_BYTES_IN_WORD - AtsSize r * of_nat SC_BYTES_IN_WORD"

definition SC_SendHkPacket :: "sc_state \<Rightarrow> sc_state" where
  "SC_SendHkPacket s = s\<lparr>sc_hk_tx := sc_hk_tx s @ [\<lparr>
     hk_AtsNumber = AtsNumber s, hk_AtpState = AtpState s, hk_ContinueFlag = ContinueAtsOnFailureFlag s,
     hk_Err = CmdErrCtr s, hk_Cmd = CmdCtr s, hk_SwitchPendFlag = SwitchPendFlag s,
     hk_NumRtsActive = NumRtsActive s, hk_RtsNumber = RtsNumber s, hk_RtsActiveCtr = RtsActiveCtr s,
     hk_RtsActiveErrCtr = RtsActiveErrCtr s, hk_AtsCmdCtr = AtsCmdCtr s, hk_AtsCmdErrCtr = AtsCmdErrCtr s,
     hk_RtsCmdCtr = RtsCmdCtr s, hk_RtsCmdErrCtr = RtsCmdErrCtr s, hk_LastAtsErrSeq = LastAtsErrSeq s,
     hk_LastAtsErrCmd = LastAtsErrCmd s, hk_LastRtsErrSeq = LastRtsErrSeq s, hk_LastRtsErrCmd = LastRtsErrCmd s,
     hk_AppendCmdArg = AppendCmdArg s, hk_AppendEntryCount = AppendEntryCount s,
     hk_AppendByteCount = AppendByteCount s, hk_AppendLoadCount = AppendLoadCount s,
     hk_AtpCmdNumber = CmdNumber s, hk_AtpFreeBytes = map atp_free_bytes (take SC_NUMBER_OF_ATS (AtsInfoTblAddr s)),
     hk_NextRtsTime = NextRtpTime s, hk_NextAtsTime = NextAtpTime s,
     hk_RtsExecutingStatus =
       hk_mask (\<lambda>r. RtsStatus r = SC_EXECUTING) (take SC_NUMBER_OF_RTS (RtsInfoTblAddr s)) 0 (replicate 4 0),
     hk_RtsDisabledStatus =
       hk_mask DisabledFlag (take SC_NUMBER_OF_RTS (RtsInfoTblAddr s)) 0 (replicate 4 0)\<rparr>]\<rparr>"

text \<open>The start of the sequence chosen at initialisation, on the first request for housekeeping.\<close>

definition auto_start :: "sc_env \<Rightarrow> sc_state \<Rightarrow> sc_state option" where
  "auto_start env s =
     (if AutoStartRTS s \<noteq> 0
      then do {
        let RtsIndex = unat (AutoStartRTS s - 1);
        r \<leftarrow> nth_opt (RtsInfoTblAddr s) RtsIndex;
        let s = (if RtsStatus r = SC_LOADED then upd_rts RtsIndex (\<lambda>r. r\<lparr>DisabledFlag := False\<rparr>) s else s);
        Some ((SC_AutoStartRts env (AutoStartRTS s) s)\<lparr>AutoStartRTS := 0\<rparr>)
      }
      else Some s)"

definition SC_HkRequest :: "sc_env \<Rightarrow> bytes \<Rightarrow> sc_state \<Rightarrow> sc_state option" where
  "SC_HkRequest env m s =
     (let (ok, s) = SC_VerifyCmdLength m 8 s
      in if ok then map_option SC_SendHkPacket (auto_start env s) else Some s)"

section \<open>The once-a-second loop\<close>

definition hz_round :: "sc_env \<Rightarrow> sc_state \<Rightarrow> (bool \<times> sc_state) option" where
  "hz_round env s = do {
     s \<leftarrow> (if SwitchPendFlag s = 1 then SC_ServiceSwitchPend env s else Some s);
     s \<leftarrow> (if NextProcNumber s = SC_ATP then SC_ProcessAtpCmd env s
           else if NextProcNumber s = SC_RTP then SC_ProcessRtpCommand env s
           else Some s);
     s \<leftarrow> SC_UpdateNextTime s;
     if NextProcNumber s = SC_NONE then Some (False, s\<lparr>NumCmdsSec := 0\<rparr>)
     else do {
       time \<leftarrow> NextCmdTime (NextProcNumber s) s;
       Some (if time > CurrentTime s then (False, s\<lparr>NumCmdsSec := 0\<rparr>)
             else if NumCmdsSec s \<ge> SC_MAX_CMDS_PER_SEC then (False, s\<lparr>NumCmdsSec := 0\<rparr>)
             else (True, s))
     }
   }"

text \<open>The loop; \<open>None\<close> also when it does not end.\<close>

partial_function (option) hz_loop :: "sc_env \<Rightarrow> sc_state \<Rightarrow> sc_state option" where
  "hz_loop env s = do {
     (IsThereAnotherCommandToExecute, s) \<leftarrow> hz_round env s;
     if IsThereAnotherCommandToExecute then hz_loop env s else Some s
   }"

section \<open>Ground commands and table management\<close>

definition SC_ResetCountersCmd :: "bytes \<Rightarrow> sc_state \<Rightarrow> sc_state" where
  "SC_ResetCountersCmd m s =
     (let (ok, s) = SC_VerifyCmdLength m 8 s
      in if ok
         then (sc_evs 51 CFE_EVS_EventType_DEBUG [] s)
                \<lparr>CmdCtr := 0, CmdErrCtr := 0, AtsCmdCtr := 0, AtsCmdErrCtr := 0, RtsCmdCtr := 0,
                 RtsCmdErrCtr := 0, RtsActiveCtr := 0, RtsActiveErrCtr := 0\<rparr>
         else s)"

definition SC_NoOpCmd :: "bytes \<Rightarrow> sc_state \<Rightarrow> sc_state" where
  "SC_NoOpCmd m s =
     (let (ok, s) = SC_VerifyCmdLength m 8 s
      in if ok then sc_evs 52 CFE_EVS_EventType_INFORMATION [3, 1, 99, 0] (sc_ok s) else s)"

datatype SC_TableType = ATS | RTS | APPEND

definition tbl_addr :: "SC_TableType \<Rightarrow> nat \<Rightarrow> sc_state \<Rightarrow> bytes option" where
  "tbl_addr ty i s = (case ty of ATS \<Rightarrow> nth_opt (AtsTblAddr s) i | RTS \<Rightarrow> nth_opt (RtsTblAddr s) i
     | APPEND \<Rightarrow> Some (AppendTblAddr s))"

definition set_tbl_addr :: "SC_TableType \<Rightarrow> nat \<Rightarrow> bytes \<Rightarrow> sc_state \<Rightarrow> sc_state" where
  "set_tbl_addr ty i t s = (case ty of ATS \<Rightarrow> s\<lparr>AtsTblAddr := (AtsTblAddr s)[i := t]\<rparr>
     | RTS \<Rightarrow> s\<lparr>RtsTblAddr := (RtsTblAddr s)[i := t]\<rparr> | APPEND \<Rightarrow> s\<lparr>AppendTblAddr := t\<rparr>)"

text \<open>Release and management of the table by table services are in the outcome of \<open>CFE_TBL_GetAddress\<close>.\<close>

definition SC_ManageTable :: "sc_env \<Rightarrow> SC_TableType \<Rightarrow> nat \<Rightarrow> sc_state \<Rightarrow> sc_state option" where
  "SC_ManageTable env ty ArrayIndex s = do {
     old \<leftarrow> tbl_addr ty ArrayIndex s;
     let (Result, new) = CFE_TBL_GetAddress (TblGet env) old;
     let s = set_tbl_addr ty ArrayIndex new s;
     if Result = CFE_TBL_INFO_UPDATED
     then (case ty of ATS \<Rightarrow> SC_LoadAts (sc_host env) ArrayIndex s
           | RTS \<Rightarrow> Some (SC_LoadRts ArrayIndex s)
           | APPEND \<Rightarrow> SC_UpdateAppend (sc_host env) s)
     else if Result \<noteq> 0 \<and> Result \<noteq> CFE_TBL_ERR_NEVER_LOADED
     then Some (case ty of ATS \<Rightarrow> sc_evs 113 CFE_EVS_EventType_ERROR [int ArrayIndex + 1, Result] s
           | RTS \<Rightarrow> sc_evs 112 CFE_EVS_EventType_ERROR [int ArrayIndex + 1, Result] s
           | APPEND \<Rightarrow> sc_evs 114 CFE_EVS_EventType_ERROR [Result] s)
     else Some s
   }"

definition SC_ManageRtsTable :: "sc_env \<Rightarrow> nat \<Rightarrow> sc_state \<Rightarrow> sc_state option" where
  "SC_ManageRtsTable env ArrayIndex s =
     (if ArrayIndex \<ge> SC_NUMBER_OF_RTS then Some (sc_evs 129 CFE_EVS_EventType_ERROR [int ArrayIndex] s)
      else SC_ManageTable env RTS ArrayIndex s)"

definition SC_ManageAtsTable :: "sc_env \<Rightarrow> nat \<Rightarrow> sc_state \<Rightarrow> sc_state option" where
  "SC_ManageAtsTable env ArrayIndex s =
     (if ArrayIndex \<ge> SC_NUMBER_OF_ATS then Some (sc_evs 130 CFE_EVS_EventType_ERROR [int ArrayIndex] s)
      else SC_ManageTable env ATS ArrayIndex s)"

text \<open>
  The length of this command is not checked before its parameter is read. For the dump-only tables
  table services are told to proceed, which changes nothing here.
\<close>

definition SC_TableManageCmd :: "sc_env \<Rightarrow> bytes \<Rightarrow> sc_state \<Rightarrow> sc_state option" where
  "SC_TableManageCmd env m s =
     (if length m < 12 then None
      else (let TableID = sint (rd32 (sc_host env) m 8)
            in if 1 \<le> TableID \<and> TableID < 3 then SC_ManageAtsTable env (nat (TableID - 1)) s
               else if TableID = 3 then SC_ManageTable env APPEND 0 s
               else if 4 \<le> TableID \<and> TableID < 68 then SC_ManageRtsTable env (nat (TableID - 4)) s
               else if TableID = 68 \<or> TableID = 69 \<or> TableID = 70 \<or> TableID = 71 then Some s
               else if 72 \<le> TableID \<and> TableID < 74 then Some s
               else Some (sc_evs 111 CFE_EVS_EventType_ERROR [TableID] s)))"

definition SC_ProcessCommand :: "sc_env \<Rightarrow> bytes \<Rightarrow> sc_state \<Rightarrow> sc_state option" where
  "SC_ProcessCommand env m s =
     (let MessageID = CFE_MSG_GetMsgId m; CommandCode = snd (CFE_MSG_GetFcnCode m)
      in if CommandCode = 0 then Some (SC_NoOpCmd m s)
         else if CommandCode = 1 then Some (SC_ResetCountersCmd m s)
         else if CommandCode = 2 then SC_StartAtsCmd env m s
         else if CommandCode = 3 then SC_StopAtsCmd env m s
         else if CommandCode = 4 then SC_StartRtsCmd env m s
         else if CommandCode = 5 then Some (SC_StopRtsCmd env m s)
         else if CommandCode = 6 then SC_DisableRtsCmd env m s
         else if CommandCode = 7 then SC_EnableRtsCmd env m s
         else if CommandCode = 8 then SC_GroundSwitchCmd env m s
         else if CommandCode = 9 then SC_JumpAtsCmd env m s
         else if CommandCode = 10 then Some (SC_ContinueAtsOnFailureCmd env m s)
         else if CommandCode = 11 then SC_AppendAtsCmd env m s
         else if CommandCode = 12 then SC_TableManageCmd env m s
         else if CommandCode = 13 then SC_StartRtsGrpCmd env m s
         else if CommandCode = 14 then SC_StopRtsGrpCmd env m s
         else if CommandCode = 15 then SC_DisableRtsGrpCmd env m s
         else if CommandCode = 16 then SC_EnableRtsGrpCmd env m s
         else Some (sc_err (sc_evs 64 CFE_EVS_EventType_ERROR [uint MessageID, uint CommandCode] s)))"

definition SC_ProcessRequest :: "sc_env \<Rightarrow> bytes \<Rightarrow> sc_state \<Rightarrow> sc_state option" where
  "SC_ProcessRequest env m s =
     (let MessageID = CFE_MSG_GetMsgId m; s = SC_GetCurrentTime env s
      in if MessageID = SC_CMD_MID then SC_ProcessCommand env m s
         else if MessageID = SC_SEND_HK_MID then SC_HkRequest env m s
         else if MessageID = SC_1HZ_WAKEUP_MID then hz_loop env s
         else Some (sc_err (sc_evs 63 CFE_EVS_EventType_ERROR [uint MessageID] s)))"

section \<open>The step of the absolute time processor\<close>

lemma ats_cmd_status_next:
  assumes inv: "ats_inv en s" and a: "a < SC_NUMBER_OF_ATS" and c: "c < SC_MAX_ATS_CMDS"
    "AtsCmdStatusTblAddr s ! a ! c \<noteq> SC_EMPTY" and v: "v \<noteq> SC_EMPTY"
  shows "\<exists>s'. ats_cmd_status a c v s = Some s' \<and> ats_next en s s' \<and> ctl_part s' = ctl_part s"
proof -
  let ?s = "s\<lparr>AtsCmdStatusTblAddr := (AtsCmdStatusTblAddr s)[a := (AtsCmdStatusTblAddr s ! a)[c := v]]\<rparr>"
  have ok: "ats_ok a s" using ats_inv_ok [OF inv a] .
  have "ats_cmd_status a c v s = Some ?s"
    using ok c(1) by (simp add: ats_cmd_status_def ats_ok_def ats_shape_def)
  moreover have "ats_inv en ?s" by (rule row_frame_inv [OF row_frame_upd(2) set_status_ok [OF ok c v] inv])
  ultimately show ?thesis
    using row_frame_ats [OF row_frame_upd(2)] by (simp add: ats_next_def ctl_part_def)
qed

lemma ats_counters [simp]:
  "ats_next en s0 (ats_cmd_error s) = ats_next en s0 s" "ats_next en s0 (s\<lparr>AtsCmdCtr := x\<rparr>) = ats_next en s0 s"
  "atp_left (ats_cmd_error s) = atp_left s" "AtpState (ats_cmd_error s) = AtpState s"
proof -
  have "ats_inv en (ats_cmd_error s) = ats_inv en s" "ats_inv en (s\<lparr>AtsCmdCtr := x\<rparr>) = ats_inv en s"
    by (rule ats_inv_cong; simp add: row_part_def ctl_part_def append_part_def ats_cmd_error_def)+
  then show "ats_next en s0 (ats_cmd_error s) = ats_next en s0 s" "ats_next en s0 (s\<lparr>AtsCmdCtr := x\<rparr>) = ats_next en s0 s"
    by (simp_all add: ats_next_def ats_frame_def rts_part_def clock_part_def ats_cmd_error_def)
qed (simp_all add: ats_cmd_error_def atp_left_def)

lemma ats_inv_loop [simp]: "ats_inv en (s\<lparr>NumCmdsSec := k, sc_tx := t\<rparr>) = ats_inv en s"
  by (rule ats_inv_cong) (simp_all add: row_part_def ctl_part_def append_part_def)

lemma ats_inv_tx [simp]: "ats_inv en (s\<lparr>sc_tx := t\<rparr>) = ats_inv en s"
  by (rule ats_inv_cong) (simp_all add: row_part_def ctl_part_def append_part_def)

lemma ats_inv_num [simp]: "ats_inv en (s\<lparr>NumCmdsSec := k\<rparr>) = ats_inv en s"
  by (rule ats_inv_cong) (simp_all add: row_part_def ctl_part_def append_part_def)

lemma ats_execute_next:
  assumes inv: "ats_inv (sc_host env) s" and exec: "AtpState s = SC_EXECUTING" and a: "a = ats_index s"
    and c: "c < SC_MAX_ATS_CMDS" "AtsCmdStatusTblAddr s ! a ! c \<noteq> SC_EMPTY"
    and msg: "CFE_MSG_GetSize msg \<le> length msg"
  shows "\<exists>b s' x. ats_execute env a c num msg s = Some (b, s') \<and> length x \<le> 1 \<and>
    ats_next (sc_host env) (s\<lparr>NumCmdsSec := NumCmdsSec s + 1, sc_tx := sc_tx s @ x\<rparr>) s'"
proof -
  let ?en = "sc_host env" and ?s1 = "s\<lparr>NumCmdsSec := NumCmdsSec s + 1\<rparr>"
  obtain chk where chk: "CFE_MSG_ValidateChecksum msg = Some chk" using ValidateChecksum_total [OF msg] by blast
  have lt: "a < SC_NUMBER_OF_ATS" using inv exec ats_index_cases [of s] a by (simp add: ats_inv_def)
  have inv1: "ats_inv ?en ?s1" using inv by simp
  show ?thesis
  proof (cases "CFE_MSG_GetMsgId msg = SC_CMD_MID \<and> snd (CFE_MSG_GetFcnCode msg) = 8")
    case True
    have idx: "ats_index ?s1 = a" using a by (simp add: ats_index_def)
    obtain b s2 where sw: "SC_InlineSwitch env ?s1 = Some (b, s2)" "ats_next ?en ?s1 s2"
      "AtsCmdStatusTblAddr s2 ! a = AtsCmdStatusTblAddr ?s1 ! a"
      using SC_InlineSwitch_next [OF inv1] exec idx by auto
    have inv2: "ats_inv ?en s2" using sw(2) by (simp add: ats_next_def)
    have used: "AtsCmdStatusTblAddr s2 ! a ! c \<noteq> SC_EMPTY" using c(2) sw(3) by simp
    have v: "(if b then SC_EXECUTED else SC_FAILED_DISTRIB) \<noteq> (SC_EMPTY::u32)" by simp
    obtain s3 where s3: "ats_cmd_status a c (if b then SC_EXECUTED else SC_FAILED_DISTRIB) s2 = Some s3" "ats_next ?en s2 s3"
      using ats_cmd_status_next [OF inv2 lt c(1) used v] by blast
    have "ats_next ?en ?s1 s3" using ats_next_trans [OF sw(2) s3(2)] .
    moreover have "ats_execute env a c num msg s =
        Some (False, if b then s3\<lparr>AtsCmdCtr := AtsCmdCtr s3 + 1\<rparr> else ats_cmd_error s3)"
      using True chk sw(1) s3(1) by (cases b) (simp_all add: ats_execute_def Let_def)
    ultimately show ?thesis by (cases b) (auto intro!: exI [of _ "[]"])
  next
    case False
    obtain r x where tx: "sc_transmit env msg ?s1 = Some (r, ?s1\<lparr>sc_tx := sc_tx s @ x\<rparr>)" and x: "length x \<le> 1"
      using sc_transmit_total [OF msg, of env ?s1] by auto
    let ?s2 = "?s1\<lparr>sc_tx := sc_tx s @ x\<rparr>"
    have inv2: "ats_inv ?en ?s2" using inv by simp
    have used: "AtsCmdStatusTblAddr ?s2 ! a ! c \<noteq> SC_EMPTY" using c(2) by simp
    have v: "(if r = 0 then SC_EXECUTED else SC_FAILED_DISTRIB) \<noteq> (SC_EMPTY::u32)" by simp
    obtain s3 where s3: "ats_cmd_status a c (if r = 0 then SC_EXECUTED else SC_FAILED_DISTRIB) ?s2 = Some s3" "ats_next ?en ?s2 s3"
      using ats_cmd_status_next [OF inv2 lt c(1) used v] by blast
    have "ats_execute env a c num msg s = Some (if r = 0 then (False, s3\<lparr>AtsCmdCtr := AtsCmdCtr s3 + 1\<rparr>)
        else (True, sc_evs 46 CFE_EVS_EventType_ERROR [uint num, r] (ats_cmd_error s3)))"
      using False chk tx s3(1) by (auto simp: ats_execute_def Let_def)
    then show ?thesis using s3(2) x by (cases "r = 0") (auto intro!: exI [of _ x])
  qed
qed

definition atp_due :: "sc_state \<Rightarrow> bool" where
  "atp_due s \<longleftrightarrow> \<not> SC_CompareAbsTime (NextAtpTime s) (CurrentTime s) \<and> NextProcNumber s = SC_ATP \<and>
     AtpState s = SC_EXECUTING"

text \<open>
  A step of the processor either counts a command, and then sends at most one, or leaves fewer
  commands in the list.
\<close>

lemma SC_ProcessAtpCmd_step:
  assumes inv: "ats_inv (sc_host env) s"
  shows "\<exists>s'. SC_ProcessAtpCmd env s = Some s' \<and>
    (if atp_due s
     then \<exists>k x. k \<le> 1 \<and> length x \<le> k \<and> (k = 0 \<longrightarrow> atp_left s' < atp_left s) \<and>
       ats_next (sc_host env) (s\<lparr>NumCmdsSec := NumCmdsSec s + of_nat k, sc_tx := sc_tx s @ x\<rparr>) s'
     else s' = s)"
proof (cases "atp_due s")
  case False
  then show ?thesis by (auto simp: SC_ProcessAtpCmd_def atp_due_def)
next
  case True
  let ?en = "sc_host env" and ?a = "unat (AtsNumber s - 1)" and ?c = "unat (CmdNumber s - 1)"
  have due: "\<not> SC_CompareAbsTime (NextAtpTime s) (CurrentTime s)" "NextProcNumber s = SC_ATP" "AtpState s = SC_EXECUTING"
    using True by (simp_all add: atp_due_def)
  have set: "ctl_set s" using inv due by (simp add: ats_inv_def)
  then have a: "?a = ats_index s" "?a < SC_NUMBER_OF_ATS" by (auto simp: ctl_set_def ats_index_def)
  have c: "?c < SC_MAX_ATS_CMDS" using set by (auto simp: ctl_set_def unat_sub word_le_nat_alt)
  have ok: "ats_ok ?a s" using ats_inv_ok [OF inv a(2)] .
  then have shape: "ats_shape ?a s" by (simp add: ats_ok_def)
  let ?st = "AtsCmdStatusTblAddr s ! ?a ! ?c" and ?e = "AtsCmdIndexBuffer s ! ?a ! ?c"
  have read: "nth2 (AtsCmdIndexBuffer s) ?a ?c = Some ?e" "nth2 (AtsCmdStatusTblAddr s) ?a ?c = Some ?st"
    using shape c by (simp_all add: ats_shape_def)
  define finish where "finish = (\<lambda>(AbortATS, s). if AbortATS
    then Option.bind (SC_KillAts (sc_evs 45 CFE_EVS_EventType_ERROR [if AtsNumber s = 1 then 65 else 66] s))
           (\<lambda>s. Some (s\<lparr>SwitchPendFlag := 0\<rparr>))
    else SC_GetNextAtsCommand env s)"
  have finish: "\<exists>s'. finish (b, s1) = Some s' \<and> ats_next ?en s1 s' \<and> (AtpState s1 = SC_EXECUTING \<longrightarrow> atp_left s' < atp_left s1)"
    if "ats_inv ?en s1" for b s1
  proof (cases b)
    case True
    let ?s1 = "sc_evs 45 CFE_EVS_EventType_ERROR [if AtsNumber s1 = 1 then 65 else 66] s1"
    have n: "ats_next ?en s1 ?s1" using that by (simp add: ats_next_refl)
    have i1: "ats_inv ?en ?s1" using that by simp
    obtain s2 where k: "SC_KillAts ?s1 = Some s2" "ats_next ?en ?s1 s2" "AtpState s2 = SC_IDLE"
      using SC_KillAts_next [OF i1] by blast
    have "unat (TimeIndexPtr s1) < SC_MAX_ATS_CMDS" if "AtpState s1 = SC_EXECUTING"
      using \<open>ats_inv ?en s1\<close> that by (simp add: ats_inv_def ctl_set_def)
    then have "AtpState s1 = SC_EXECUTING \<longrightarrow> atp_left (s2\<lparr>SwitchPendFlag := 0\<rparr>) < atp_left s1"
      using k(3) by (simp add: atp_left_def)
    moreover have "ats_next ?en s1 s2" using ats_next_trans [OF n k(2)] .
    ultimately show ?thesis using True k(1) by (simp add: finish_def)
  next
    case False
    then show ?thesis using SC_GetNextAtsCommand_next [OF that] by (auto simp: finish_def)
  qed
  have eq: "SC_ProcessAtpCmd env s = Option.bind
      (if ?st = SC_LOADED
       then if ?e < 0 then None
       else Option.bind (nth_opt (AtsTblAddr s) ?a) (\<lambda>tbl. Option.bind (ats_cmd_number ?en tbl (nat ?e)) (\<lambda>num.
         if uint num = int ?c + 1
         then Option.bind (ats_msg tbl (nat ?e)) (\<lambda>msg. ats_execute env ?a ?c num msg s)
         else Option.bind (ats_cmd_status ?a ?c SC_SKIPPED
                (ats_cmd_error (sc_evs 47 CFE_EVS_EventType_ERROR [int ?c + 1, uint num] s))) (\<lambda>s. Some (True, s))))
       else Some (False, ats_cmd_error (sc_evs 48 CFE_EVS_EventType_ERROR [uint ?st] s))) finish"
    using due read by (simp add: SC_ProcessAtpCmd_def Let_def finish_def)
  text \<open>The cases that count no command.\<close>
  have zero: ?thesis if z: "SC_ProcessAtpCmd env s = finish (b, s1)" "ats_next ?en s s1" "AtpState s1 = SC_EXECUTING"
    "atp_left s1 = atp_left s" for b s1
  proof -
    have "ats_inv ?en s1" using z(2) by (simp add: ats_next_def)
    then obtain s' where s': "finish (b, s1) = Some s'" "ats_next ?en s1 s'" "atp_left s' < atp_left s1"
      using finish z(3) by blast
    have "ats_next ?en s s'" using ats_next_trans [OF z(2) s'(2)] .
    then have "ats_next ?en (s\<lparr>NumCmdsSec := NumCmdsSec s + of_nat 0, sc_tx := sc_tx s @ []\<rparr>) s'" by simp
    then show ?thesis using True z(1,4) s' by (intro exI [of _ s']) fastforce
  qed
  show ?thesis
  proof (cases "?st = SC_LOADED")
    case False
    let ?s1 = "ats_cmd_error (sc_evs 48 CFE_EVS_EventType_ERROR [uint ?st] s)"
    show ?thesis
      using False eq due(3) inv by (intro zero [of False ?s1]) (simp_all add: ats_next_refl, simp add: atp_left_def)
  next
    case loaded: True
    then have "row_count ?a s \<noteq> 0" using ok c by (cases "row_count ?a s = 0") (auto simp: ats_ok_def)
    then have "row_loaded ?a s" using ok by (simp add: ats_ok_def)
    then have fits: "ats_fits (AtsTblAddr s ! ?a) (row_size ?a s) ?e" and tbl: "length (AtsTblAddr s ! ?a) = 4 * SC_ATS_BUFF_SIZE32"
      and sz: "row_size ?a s \<le> SC_ATS_BUFF_SIZE32"
      using loaded c by (auto simp: row_loaded_def cmds_ok_def)
    let ?tbl = "AtsTblAddr s ! ?a" and ?msg = "drop (4 * nat ?e + SC_ATS_HEADER_SIZE) (AtsTblAddr s ! ?a)"
    let ?num = "rd16 ?en ?tbl (4 * nat ?e + 2)"
    have "7 \<le> CFE_MSG_GetSize ?msg" by (simp add: CFE_MSG_GetSize_def)
    then have lim: "4 * nat ?e + 15 \<le> 4 * SC_ATS_BUFF_SIZE32" "CFE_MSG_GetSize ?msg \<le> length ?msg" and pos: "0 \<le> ?e"
      using fits tbl sz by (auto simp: ats_fits_def)
    have rd: "nth_opt (AtsTblAddr s) ?a = Some ?tbl" "ats_cmd_number ?en ?tbl (nat ?e) = Some ?num"
      "ats_msg ?tbl (nat ?e) = Some ?msg"
      using shape tbl lim(1) by (simp_all add: ats_shape_def ats_cmd_number_def ats_msg_def)
    show ?thesis
    proof (cases "uint ?num = int ?c + 1")
      case False
      let ?s0 = "ats_cmd_error (sc_evs 47 CFE_EVS_EventType_ERROR [int ?c + 1, uint ?num] s)"
      have n0: "ats_next ?en s ?s0" using inv by (simp add: ats_next_refl)
      have "AtsCmdStatusTblAddr ?s0 ! ?a ! ?c \<noteq> SC_EMPTY" using loaded by (simp add: ats_cmd_error_def)
      then obtain s1 where s1: "ats_cmd_status ?a ?c SC_SKIPPED ?s0 = Some s1" "ats_next ?en ?s0 s1" "ctl_part s1 = ctl_part ?s0"
        using ats_cmd_status_next [of ?en ?s0 ?a ?c SC_SKIPPED] n0 a(2) c by (auto simp: ats_next_def)
      have "ats_next ?en s s1" using ats_next_trans [OF n0 s1(2)] .
      moreover have "AtpState s1 = SC_EXECUTING" "atp_left s1 = atp_left s"
        using s1(3) due(3) by (simp_all add: ctl_part_def atp_left_def ats_cmd_error_def)
      ultimately show ?thesis using eq loaded pos rd False s1(1) by (intro zero [of True s1]) simp_all
    next
      case num: True
      obtain b s1 x where x: "ats_execute env ?a ?c ?num ?msg s = Some (b, s1)" "length x \<le> 1"
        "ats_next ?en (s\<lparr>NumCmdsSec := NumCmdsSec s + 1, sc_tx := sc_tx s @ x\<rparr>) s1"
        using ats_execute_next [OF inv due(3) a(1) c _ lim(2), of ?num] loaded by auto
      then have "ats_inv ?en s1" by (simp add: ats_next_def)
      then obtain s' where s': "finish (b, s1) = Some s'" "ats_next ?en s1 s'" using finish by blast
      have "ats_next ?en (s\<lparr>NumCmdsSec := NumCmdsSec s + of_nat 1, sc_tx := sc_tx s @ x\<rparr>) s'"
        using ats_next_trans [OF x(3) s'(2)] by simp
      moreover have "SC_ProcessAtpCmd env s = Some s'" using eq loaded pos rd num x(1) s'(1) by simp
      ultimately show ?thesis using True x(2) by (intro exI [of _ s']) (fastforce intro!: exI [of _ "1::nat"])
    qed
  qed
qed

section \<open>The rounds of the once-a-second loop\<close>

text \<open>The next command is due now.\<close>

definition hz_due :: "sc_state \<Rightarrow> bool" where
  "hz_due s \<longleftrightarrow> next_ok s \<and> (\<exists>t. NextCmdTime (NextProcNumber s) s = Some t \<and> t \<le> CurrentTime s)"

text \<open>A step of the loop: at most \<open>k\<close> commands are sent for the \<open>k\<close> that are counted.\<close>

definition hz_step :: "endian \<Rightarrow> nat \<Rightarrow> sc_state \<Rightarrow> sc_state \<Rightarrow> bool" where
  "hz_step en k s s' \<longleftrightarrow> ats_inv en s' \<and> rts_inv s' \<and> (rts_count s \<longrightarrow> rts_count s') \<and>
     CurrentTime s' = CurrentTime s \<and> AutoStartRTS s' = AutoStartRTS s \<and> NumCmdsSec s' = NumCmdsSec s + of_nat k \<and>
     (\<exists>x. sc_tx s' = sc_tx s @ x \<and> length x \<le> k)"

lemma ats_inv_part: "ats_part s' = ats_part s \<Longrightarrow> ats_inv en s' = ats_inv en s"
  by (rule ats_inv_cong) (simp_all add: ats_part_def row_part_def ctl_part_def append_part_def)

lemma atp_left_part: "ats_part s' = ats_part s \<Longrightarrow> atp_left s' = atp_left s"
  by (simp add: ats_part_def atp_left_def)

lemma rts_inv_loop [simp]:
  "rts_inv (s\<lparr>NumCmdsSec := k, sc_tx := t\<rparr>) = rts_inv s" "rts_count (s\<lparr>NumCmdsSec := k, sc_tx := t\<rparr>) = rts_count s"
  by (simp_all add: rts_inv_def rts_count_def)

lemma ats_step:
  assumes "rts_inv s" "ats_next en (s\<lparr>NumCmdsSec := NumCmdsSec s + of_nat k, sc_tx := sc_tx s @ x\<rparr>) s'" "length x \<le> k"
  shows "hz_step en k s s'"
proof -
  let ?s = "s\<lparr>NumCmdsSec := NumCmdsSec s + of_nat k, sc_tx := sc_tx s @ x\<rparr>"
  have "rts_part s' = rts_part ?s" "clock_part s' = clock_part ?s" "sc_tx s' = sc_tx s @ x" "ats_inv en s'"
    using assms(2) by (simp_all add: ats_next_def ats_frame_def)
  then show ?thesis
    using assms(1,3) rts_inv_part [of s' ?s] rts_count_part [of s' ?s]
    by (auto simp: hz_step_def clock_part_def)
qed

lemma rts_step:
  assumes "ats_inv en s" "rts_inv s" "rts_keep (s\<lparr>NumCmdsSec := NumCmdsSec s + of_nat k, sc_tx := sc_tx s @ x\<rparr>) s'"
    "length x \<le> k"
  shows "hz_step en k s s'"
proof -
  let ?s = "s\<lparr>NumCmdsSec := NumCmdsSec s + of_nat k, sc_tx := sc_tx s @ x\<rparr>"
  have "ats_part s' = ats_part ?s" "clock_part s' = clock_part ?s" "sc_tx s' = sc_tx s @ x"
    and r: "rts_inv s'" "rts_count s \<longrightarrow> rts_count s'"
    using assms(2,3) by (simp_all add: rts_keep_def)
  then show ?thesis
    using assms(1,4) ats_inv_part [of s' ?s en]
    by (auto simp: hz_step_def clock_part_def)
qed

lemma hz_step_trans:
  assumes "hz_step en j s s1" "hz_step en k s1 s2"
  shows "hz_step en (j + k) s s2"
proof -
  obtain x y where "sc_tx s1 = sc_tx s @ x" "length x \<le> j" "sc_tx s2 = sc_tx s1 @ y" "length y \<le> k"
    using assms by (auto simp: hz_step_def)
  then have "sc_tx s2 = sc_tx s @ (x @ y) \<and> length (x @ y) \<le> j + k" by simp
  then show ?thesis using assms by (auto simp: hz_step_def algebra_simps)
qed

lemma hz_step_refl: "\<lbrakk> ats_inv en s; rts_inv s \<rbrakk> \<Longrightarrow> hz_step en 0 s s"
  by (simp add: hz_step_def)

text \<open>The service of a pending switch.\<close>

lemma hz_switch:
  assumes "ats_inv (sc_host env) s" "rts_inv s" "CurrentTime s < 0x80000000"
  shows "\<exists>s'. (if SwitchPendFlag s = 1 then SC_ServiceSwitchPend env s else Some s) = Some s' \<and>
    hz_step (sc_host env) 0 s s' \<and> clock_part s' = clock_part s \<and> rts_part s' = rts_part s \<and>
    (NextAtpTime s \<le> CurrentTime s \<longrightarrow> s' = s)"
proof -
  obtain s1 where s1: "SC_ServiceSwitchPend env s = Some s1" "ats_next (sc_host env) s s1"
    "\<not> SC_CompareAbsTime (NextAtpTime s) (CurrentTime s) \<longrightarrow> s1 = s"
    using SC_ServiceSwitchPend_next [OF assms(1)] by blast
  have "hz_step (sc_host env) 0 s s1" using s1(2) by (intro ats_step [where k = 0 and x = "[]", OF assms(2)]) simp_all
  then show ?thesis
    using s1 assms hz_step_refl [OF assms(1,2)] SC_CompareAbsTime_past [of "NextAtpTime s" "CurrentTime s"]
    by (auto simp: ats_next_def ats_frame_def)
qed

text \<open>One round: nothing goes wrong, and when a command was due the round makes progress.\<close>

definition hz_left :: "sc_state \<Rightarrow> nat \<times> nat" where
  "hz_left s = (unat (SC_MAX_CMDS_PER_SEC - NumCmdsSec s), atp_left s)"

lemma hz_processor:
  assumes inv: "ats_inv (sc_host env) s" "rts_inv s"
  shows "\<exists>s' k. (if NextProcNumber s = SC_ATP then SC_ProcessAtpCmd env s
           else if NextProcNumber s = SC_RTP then SC_ProcessRtpCommand env s else Some s) = Some s' \<and>
    k \<le> 1 \<and> hz_step (sc_host env) k s s' \<and>
    (NextProcNumber s = SC_ATP \<and> atp_due s \<longrightarrow> k = 1 \<or> atp_left s' < atp_left s) \<and>
    (NextProcNumber s = SC_RTP \<and> rtp_due s \<longrightarrow> k = 1)"
proof -
  note refl = hz_step_refl [OF inv]
  consider (atp) "NextProcNumber s = SC_ATP" | (rtp) "NextProcNumber s = SC_RTP" "NextProcNumber s \<noteq> SC_ATP"
    | (none) "NextProcNumber s \<noteq> SC_ATP" "NextProcNumber s \<noteq> SC_RTP" by blast
  then show ?thesis
  proof cases
    case atp
    obtain s' where s': "SC_ProcessAtpCmd env s = Some s'"
      and c: "if atp_due s
         then \<exists>k x. k \<le> 1 \<and> length x \<le> k \<and> (k = 0 \<longrightarrow> atp_left s' < atp_left s) \<and>
           ats_next (sc_host env) (s\<lparr>NumCmdsSec := NumCmdsSec s + of_nat k, sc_tx := sc_tx s @ x\<rparr>) s'
         else s' = s"
      using SC_ProcessAtpCmd_step [OF inv(1)] by blast
    show ?thesis
    proof (cases "atp_due s")
      case True
      then obtain k x where k: "k \<le> 1" "length x \<le> k" "k = 0 \<longrightarrow> atp_left s' < atp_left s"
        "ats_next (sc_host env) (s\<lparr>NumCmdsSec := NumCmdsSec s + of_nat k, sc_tx := sc_tx s @ x\<rparr>) s'"
        using c by auto
      have "hz_step (sc_host env) k s s'" using ats_step [OF inv(2) k(4,2)] .
      then show ?thesis using s' atp k(1,3) by (intro exI [of _ s'] exI [of _ k]) auto
    next
      case False
      then show ?thesis using s' c atp refl by (intro exI [of _ s] exI [of _ 0]) auto
    qed
  next
    case rtp
    obtain s' where s': "SC_ProcessRtpCommand env s = Some s'"
      and c: "if rtp_due s
         then \<exists>c. length c \<le> 1 \<and> rts_keep (s\<lparr>NumCmdsSec := NumCmdsSec s + 1, sc_tx := sc_tx s @ c\<rparr>) s'
         else s' = s"
      using SC_ProcessRtpCommand_step [OF inv(2) rtp(1)] by blast
    show ?thesis
    proof (cases "rtp_due s")
      case True
      then obtain x where x: "length x \<le> 1" "rts_keep (s\<lparr>NumCmdsSec := NumCmdsSec s + of_nat 1, sc_tx := sc_tx s @ x\<rparr>) s'"
        using c by auto
      have "hz_step (sc_host env) 1 s s'" using rts_step [OF inv x(2,1)] .
      then show ?thesis using s' rtp by (intro exI [of _ s'] exI [of _ 1]) auto
    next
      case False
      then show ?thesis using s' c rtp refl by (intro exI [of _ s] exI [of _ 0]) auto
    qed
  next
    case none
    then show ?thesis using refl by (intro exI [of _ s] exI [of _ 0]) simp
  qed
qed

lemma hz_update:
  assumes "ats_inv en s" "rts_inv s"
  shows "\<exists>s'. SC_UpdateNextTime s = Some s' \<and> hz_step en 0 s s' \<and> next_ok s' \<and> atp_left s' = atp_left s"
proof -
  obtain n t p where eq: "SC_UpdateNextTime s = Some (s\<lparr>RtsNumber := n, NextRtpTime := t, NextProcNumber := p\<rparr>)"
    "next_ok (s\<lparr>RtsNumber := n, NextRtpTime := t, NextProcNumber := p\<rparr>)"
    using SC_UpdateNextTime_spec [of s] assms by (auto simp: rts_inv_def)
  let ?s = "s\<lparr>RtsNumber := n, NextRtpTime := t, NextProcNumber := p\<rparr>"
  have "ats_part ?s = ats_part s" "rts_part ?s = rts_part s" by (simp_all add: ats_part_def rts_part_def)
  then show ?thesis
    using eq assms ats_inv_part [of ?s s en] rts_inv_part [of ?s s] rts_count_part [of ?s s] atp_left_part [of ?s s]
    by (intro exI [of _ ?s]) (simp add: hz_step_def)
qed

lemma hz_round_spec:
  assumes inv: "ats_inv (sc_host env) s" "rts_inv s" and now: "CurrentTime s < 0x80000000"
  shows "\<exists>b t k. hz_round env s = Some (b, if b then t else t\<lparr>NumCmdsSec := 0\<rparr>) \<and> k \<le> 1 \<and> hz_step (sc_host env) k s t \<and>
    (b \<longrightarrow> hz_due t \<and> NumCmdsSec t < SC_MAX_CMDS_PER_SEC) \<and> (hz_due s \<longrightarrow> k = 1 \<or> atp_left t < atp_left s)"
proof -
  let ?en = "sc_host env"
  obtain s1 where s1: "(if SwitchPendFlag s = 1 then SC_ServiceSwitchPend env s else Some s) = Some s1"
    "hz_step ?en 0 s s1" "clock_part s1 = clock_part s" "rts_part s1 = rts_part s"
    "NextAtpTime s \<le> CurrentTime s \<longrightarrow> s1 = s"
    using hz_switch [OF inv now] by blast
  have inv1: "ats_inv ?en s1" "rts_inv s1" using s1(2) by (simp_all add: hz_step_def)
  obtain s2 k where s2: "(if NextProcNumber s1 = SC_ATP then SC_ProcessAtpCmd env s1
           else if NextProcNumber s1 = SC_RTP then SC_ProcessRtpCommand env s1 else Some s1) = Some s2"
    and k: "k \<le> 1" "hz_step ?en k s1 s2"
    and prog: "NextProcNumber s1 = SC_ATP \<and> atp_due s1 \<longrightarrow> k = 1 \<or> atp_left s2 < atp_left s1"
      "NextProcNumber s1 = SC_RTP \<and> rtp_due s1 \<longrightarrow> k = 1"
    using hz_processor [OF inv1] by blast
  have inv2: "ats_inv ?en s2" "rts_inv s2" using k(2) by (simp_all add: hz_step_def)
  obtain t where t: "SC_UpdateNextTime s2 = Some t" "hz_step ?en 0 s2 t" "next_ok t" "atp_left t = atp_left s2"
    using hz_update [OF inv2] by blast
  have step: "hz_step ?en k s t" using hz_step_trans [OF s1(2) hz_step_trans [OF k(2) t(2)]] by simp
  have progress: "k = 1 \<or> atp_left t < atp_left s" if due: "hz_due s"
  proof (cases "NextProcNumber s = SC_ATP")
    case True
    then have "NextAtpTime s \<le> CurrentTime s" "AtpState s = SC_EXECUTING"
      using due by (auto simp: hz_due_def next_ok_def NextCmdTime_def)
    then show ?thesis
      using prog s1(5) t(4) True now SC_CompareAbsTime_past [of "NextAtpTime s" "CurrentTime s"] by (auto simp: atp_due_def)
  next
    case False
    then obtain i where rtp: "NextProcNumber s = SC_RTP" "NextRtpTime s \<le> CurrentTime s"
      and i: "rts_first (RtsInfoTblAddr s) SC_NUMBER_OF_RTS i" "RtsNumber s = of_nat (i + 1)"
      using due by (auto simp: hz_due_def next_ok_def NextCmdTime_def split: if_splits)
    have n: "unat (RtsNumber s) = i + 1" using i(1) unfolding i(2) unat_of_nat by (simp add: rts_first_def)
    have n1: "unat (RtsNumber s - 1) = i" unfolding i(2) using i(1) by (simp add: rts_first_def unat_of_nat)
    have eqs: "NextProcNumber s1 = NextProcNumber s" "NextRtpTime s1 = NextRtpTime s" "CurrentTime s1 = CurrentTime s"
      "RtsNumber s1 = RtsNumber s" "RtsInfoTblAddr s1 = RtsInfoTblAddr s"
      using s1(3,4) by (simp_all add: clock_part_def rts_part_def)
    have "rtp_due s1"
      using rtp i(1) n n1 eqs by (simp add: rtp_due_def rts_executing_def rts_first_def word_less_nat_alt)
    then show ?thesis using prog(2) eqs rtp by simp
  qed
  define b where "b = (NextProcNumber t \<noteq> SC_NONE \<and> (\<exists>time. NextCmdTime (NextProcNumber t) t = Some time \<and> time \<le> CurrentTime t) \<and>
    NumCmdsSec t < SC_MAX_CMDS_PER_SEC)"
  have "\<exists>time. NextCmdTime (NextProcNumber t) t = Some time" if "NextProcNumber t \<noteq> SC_NONE"
    using t(3) that by (auto simp: next_ok_def NextCmdTime_def)
  then have "hz_round env s = Some (b, if b then t else t\<lparr>NumCmdsSec := 0\<rparr>)"
    using s1(1) s2 t(1) by (auto simp: hz_round_def b_def)
  moreover have "b \<longrightarrow> hz_due t \<and> NumCmdsSec t < SC_MAX_CMDS_PER_SEC"
    using t(3) by (auto simp: b_def hz_due_def)
  ultimately show ?thesis using k(1) step progress by blast
qed

lemma hz_loop_unfold:
  "hz_round env s = Some (b, t) \<Longrightarrow> hz_loop env s = (if b then hz_loop env t else Some t)"
  by (subst hz_loop.simps) simp

text \<open>The loop ends, and sends at most as many commands as it may count.\<close>

definition hz_done :: "endian \<Rightarrow> nat \<Rightarrow> sc_state \<Rightarrow> sc_state \<Rightarrow> bool" where
  "hz_done en k s s' \<longleftrightarrow> NumCmdsSec s' = 0 \<and> (\<exists>n. hz_step en k s (s'\<lparr>NumCmdsSec := n\<rparr>))"

lemma hz_done_trans: "\<lbrakk> hz_step en j s t; hz_done en k t s' \<rbrakk> \<Longrightarrow> hz_done en (j + k) s s'"
  by (auto simp: hz_done_def intro: hz_step_trans)

lemma hz_done_stop: "hz_step en k s t \<Longrightarrow> hz_done en k s (t\<lparr>NumCmdsSec := 0\<rparr>)"
  by (auto simp: hz_done_def intro!: exI [of _ "NumCmdsSec t"])

lemma hz_step_room:
  "\<lbrakk> hz_step en k s t; k \<le> 1; NumCmdsSec s < SC_MAX_CMDS_PER_SEC \<rbrakk> \<Longrightarrow> unat (NumCmdsSec t) = unat (NumCmdsSec s) + k"
  by (auto simp: hz_step_def le_Suc_eq unat_word_ariths word_less_nat_alt)

lemma hz_loop_due:
  assumes "ats_inv (sc_host env) s" "rts_inv s" "CurrentTime s < 0x80000000" "NumCmdsSec s < SC_MAX_CMDS_PER_SEC" "hz_due s"
  shows "\<exists>s' k. hz_loop env s = Some s' \<and> hz_done (sc_host env) k s s' \<and> unat (NumCmdsSec s) + k \<le> 8"
  using assms
proof (induction "(8 - unat (NumCmdsSec s)) * (SC_MAX_ATS_CMDS + 1) + atp_left s" arbitrary: s rule: less_induct)
  case less
  obtain b t k where r: "hz_round env s = Some (b, if b then t else t\<lparr>NumCmdsSec := 0\<rparr>)" "k \<le> 1" "hz_step (sc_host env) k s t"
    "b \<longrightarrow> hz_due t \<and> NumCmdsSec t < SC_MAX_CMDS_PER_SEC" "k = 1 \<or> atp_left t < atp_left s"
    using hz_round_spec [OF less.prems(1-3)] less.prems(5) by auto
  note n = hz_step_room [OF r(3,2) less.prems(4)] less.prems(4) [unfolded word_less_nat_alt]
  show ?case
  proof (cases b)
    case False
    then show ?thesis
      using r(1,2) n hz_done_stop [OF r(3)] hz_loop_unfold [OF r(1)]
      by (intro exI [of _ "t\<lparr>NumCmdsSec := 0\<rparr>"] exI [of _ k]) simp
  next
    case True
    have dec: "(8 - unat (NumCmdsSec t)) * (SC_MAX_ATS_CMDS + 1) + atp_left t <
        (8 - unat (NumCmdsSec s)) * (SC_MAX_ATS_CMDS + 1) + atp_left s"
      using r(2,5) n atp_left_bound [of t] by (auto simp: le_Suc_eq)
    have inv: "ats_inv (sc_host env) t" "rts_inv t" "CurrentTime t < 0x80000000"
      using r(3) less.prems(3) by (simp_all add: hz_step_def)
    obtain s' j where s': "hz_loop env t = Some s'" "hz_done (sc_host env) j t s'" "unat (NumCmdsSec t) + j \<le> 8"
      using less.hyps [OF dec inv] r(4) True by blast
    then show ?thesis
      using True n hz_loop_unfold [OF r(1)] hz_done_trans [OF r(3) s'(2)]
      by (intro exI [of _ s'] exI [of _ "k + j"]) simp
  qed
qed

lemma hz_loop_ends:
  assumes inv: "ats_inv (sc_host env) s" "rts_inv s" "CurrentTime s < 0x80000000" "NumCmdsSec s = 0"
  shows "\<exists>s' k. hz_loop env s = Some s' \<and> hz_done (sc_host env) k s s' \<and> k \<le> 8"
proof -
  obtain b t k where r: "hz_round env s = Some (b, if b then t else t\<lparr>NumCmdsSec := 0\<rparr>)" "k \<le> 1" "hz_step (sc_host env) k s t"
    "b \<longrightarrow> hz_due t \<and> NumCmdsSec t < SC_MAX_CMDS_PER_SEC"
    using hz_round_spec [OF assms(1-3)] by blast
  show ?thesis
  proof (cases b)
    case False
    then show ?thesis
      using r(1,2) hz_done_stop [OF r(3)] hz_loop_unfold [OF r(1)]
      by (intro exI [of _ "t\<lparr>NumCmdsSec := 0\<rparr>"] exI [of _ k]) simp
  next
    case True
    have "ats_inv (sc_host env) t" "rts_inv t" "CurrentTime t < 0x80000000"
      using r(3) inv(3) by (simp_all add: hz_step_def)
    then obtain s' j where s': "hz_loop env t = Some s'" "hz_done (sc_host env) j t s'" "unat (NumCmdsSec t) + j \<le> 8"
      using hz_loop_due r(4) True by blast
    then show ?thesis
      using True hz_step_room [OF r(3,2)] inv(4) hz_loop_unfold [OF r(1)] hz_done_trans [OF r(3) s'(2)]
      by (intro exI [of _ s'] exI [of _ "k + j"]) simp
  qed
qed

section \<open>The invariant of the processor\<close>

definition sc_inv :: "endian \<Rightarrow> sc_state \<Rightarrow> bool" where
  "sc_inv en s \<longleftrightarrow> ats_inv en s \<and> rts_inv s \<and> NumCmdsSec s = 0 \<and> unat (AutoStartRTS s) \<le> SC_NUMBER_OF_RTS"

definition sc_next :: "endian \<Rightarrow> sc_state \<Rightarrow> sc_state \<Rightarrow> bool" where
  "sc_next en s s' \<longleftrightarrow> sc_inv en s' \<and> (rts_count s \<longrightarrow> rts_count s')"

text \<open>
  The new image of a table: an absolute sequence is of full size, an append table is also accepted by
  its validation, and the first command of a relative sequence lies in its table.
\<close>

definition new_tbl_ok :: "endian \<Rightarrow> int \<Rightarrow> bytes \<Rightarrow> bool" where
  "new_tbl_ok en TableID t \<longleftrightarrow>
     (1 \<le> TableID \<and> TableID < 3 \<longrightarrow> length t = 4 * SC_ATS_BUFF_SIZE32) \<and>
     (TableID = 3 \<longrightarrow> length t = 4 * SC_APPEND_BUFF_SIZE32 \<and> (\<exists>s0 s1. SC_ValidateAppend en t s0 = Some (0, s1))) \<and>
     (4 \<le> TableID \<and> TableID < 68 \<longrightarrow> rts_image_ok t)"

definition sc_command :: "bytes \<Rightarrow> u16 \<Rightarrow> bool" where
  "sc_command m cc \<longleftrightarrow> CFE_MSG_GetMsgId m = SC_CMD_MID \<and> snd (CFE_MSG_GetFcnCode m) = cc"

text \<open>
  Messages the processor can handle: the buffer holds the message, the clock is before 2^31 seconds,
  a disable command does not name sequence 0, and a table notification has its parameter and an
  image that can be had.
\<close>

definition sc_acceptable :: "endian \<Rightarrow> sc_env \<times> bytes \<Rightarrow> bool" where
  "sc_acceptable en = (\<lambda>(env, m). sc_host env = en \<and> sc_now env < 0x80000000 \<and> CFE_MSG_GetSize m \<le> length m \<and>
     (sc_command m 6 \<and> CFE_MSG_GetSize m = 12 \<longrightarrow> rd16 en m 8 \<noteq> 0) \<and>
     (sc_command m 12 \<longrightarrow> 12 \<le> length m \<and>
        (case TblGet env of TblSame \<Rightarrow> True | TblUpdated t \<Rightarrow> new_tbl_ok en (sint (rd32 en m 8)) t | TblFailed e \<Rightarrow> False)))"

text \<open>No new relative sequence: tables of absolute sequences and the append table may be replaced.\<close>

definition rts_kept :: "sc_env \<Rightarrow> bytes \<Rightarrow> bool" where
  "rts_kept env m \<longleftrightarrow> TblGet env = TblSame \<or>
     \<not> (sc_command m 12 \<and> 4 \<le> sint (rd32 (sc_host env) m 8) \<and> sint (rd32 (sc_host env) m 8) < 68)"

definition sc_quiet :: "endian \<Rightarrow> sc_env \<times> bytes \<Rightarrow> bool" where
  "sc_quiet en i \<longleftrightarrow> sc_acceptable en i \<and> rts_kept (fst i) (snd i)"

definition sc_handle :: "sc_state \<Rightarrow> sc_env \<times> bytes \<Rightarrow> sc_state option" where
  "sc_handle s i = SC_ProcessRequest (fst i) (snd i) s"

lemma sc_next_refl: "sc_inv en s \<Longrightarrow> sc_next en s s"
  by (simp add: sc_next_def)

lemma ats_next_sc_next: "\<lbrakk> sc_inv en s; ats_next en s s' \<rbrakk> \<Longrightarrow> sc_next en s s'"
  using rts_inv_part [of s' s] rts_count_part [of s' s]
  by (simp add: sc_next_def sc_inv_def ats_next_def ats_frame_def clock_part_def)

lemma rts_keep_sc_next: "\<lbrakk> sc_inv en s; rts_keep s s' \<rbrakk> \<Longrightarrow> sc_next en s s'"
  using ats_inv_part [of s' s en] by (simp add: sc_next_def sc_inv_def rts_keep_def clock_part_def)

lemma sc_next_sc [simp]:
  "sc_next en s0 (sc_evs e t a s) = sc_next en s0 s" "sc_next en s0 (sc_ok s) = sc_next en s0 s"
  "sc_next en s0 (sc_err s) = sc_next en s0 s"
  by (simp_all add: sc_next_def sc_inv_def)

lemma sc_next_same:
  assumes "sc_inv en s" "ats_part s' = ats_part s" "rts_part s' = rts_part s" "NumCmdsSec s' = NumCmdsSec s"
    "unat (AutoStartRTS s') \<le> SC_NUMBER_OF_RTS"
  shows "sc_next en s s'"
  using assms ats_inv_part [of s' s en] rts_inv_part [of s' s] rts_count_part [of s' s]
  by (simp add: sc_next_def sc_inv_def)

lemma SC_ResetCountersCmd_next: "sc_inv en s \<Longrightarrow> sc_next en s (SC_ResetCountersCmd m s)"
proof -
  assume inv: "sc_inv en s"
  obtain ok s1 where v: "SC_VerifyCmdLength m 8 s = (ok, s1)" by fastforce
  have "sc_next en s s1" using SC_VerifyCmdLength_keep [OF v] by (rule rts_keep_sc_next [OF inv])
  moreover have "sc_next en s (SC_ResetCountersCmd m s)" if ok
  proof (rule sc_next_same [OF inv])
    show "unat (AutoStartRTS (SC_ResetCountersCmd m s)) \<le> SC_NUMBER_OF_RTS"
      using inv SC_VerifyCmdLength_ok [OF v that] that v by (simp add: SC_ResetCountersCmd_def sc_inv_def sc_evs_def)
  qed (use SC_VerifyCmdLength_ok [OF v that] that v in
      \<open>simp_all add: SC_ResetCountersCmd_def ats_part_def rts_part_def sc_evs_def\<close>)
  ultimately show ?thesis using v by (cases ok) (simp_all add: SC_ResetCountersCmd_def)
qed

lemma SC_NoOpCmd_next: "sc_inv en s \<Longrightarrow> sc_next en s (SC_NoOpCmd m s)"
proof -
  assume inv: "sc_inv en s"
  obtain ok s1 where v: "SC_VerifyCmdLength m 8 s = (ok, s1)" by fastforce
  have "sc_next en s s1" using SC_VerifyCmdLength_keep [OF v] by (rule rts_keep_sc_next [OF inv])
  then show ?thesis using v by (simp add: SC_NoOpCmd_def)
qed

subsection \<open>Housekeeping\<close>

lemma sc_hk_next: "sc_next en s0 (SC_SendHkPacket s) = sc_next en s0 s"
proof -
  have "ats_inv en (SC_SendHkPacket s) = ats_inv en s"
    by (rule ats_inv_part) (simp add: ats_part_def SC_SendHkPacket_def)
  then show ?thesis by (simp add: sc_next_def sc_inv_def rts_inv_def rts_count_def SC_SendHkPacket_def)
qed

lemma SC_AutoStartRts_next: "sc_next en s0 s \<Longrightarrow> sc_next en s0 ((SC_AutoStartRts env n s)\<lparr>AutoStartRTS := 0\<rparr>)"
proof -
  assume next1: "sc_next en s0 s"
  let ?s' = "(SC_AutoStartRts env n s)\<lparr>AutoStartRTS := 0\<rparr>"
  have "ats_part ?s' = ats_part s \<and> rts_part ?s' = rts_part s \<and> NumCmdsSec ?s' = NumCmdsSec s \<and> AutoStartRTS ?s' = 0"
    by (auto simp: SC_AutoStartRts_def Let_def ats_part_def rts_part_def sc_evs_def)
  then have "sc_next en s ?s'" using next1 by (intro sc_next_same) (auto simp: sc_next_def)
  then show ?thesis using next1 by (simp add: sc_next_def)
qed

lemma auto_start_next:
  assumes inv: "sc_inv en s"
  shows "\<exists>s'. auto_start env s = Some s' \<and> sc_next en s s'"
proof (cases "AutoStartRTS s = 0")
  case True
  then show ?thesis using inv by (simp add: auto_start_def sc_next_refl)
next
  case False
  let ?i = "unat (AutoStartRTS s - 1)"
  have pos: "0 < AutoStartRTS s" using False by (simp add: word_neq_0_conv)
  have i: "?i < SC_NUMBER_OF_RTS" using rts_index_lt [OF pos] inv by (simp add: sc_inv_def)
  have r: "rts_inv s" using inv by (simp add: sc_inv_def)
  have keep: "rts_keep s (upd_rts ?i (\<lambda>r. r\<lparr>DisabledFlag := False\<rparr>) s)"
    using i r by (intro upd_rts_ctr_keep) simp_all
  let ?s1 = "if RtsStatus (RtsInfoTblAddr s ! ?i) = SC_LOADED then upd_rts ?i (\<lambda>r. r\<lparr>DisabledFlag := False\<rparr>) s else s"
  have "sc_next en s ?s1" using rts_keep_sc_next [OF inv keep] sc_next_refl [OF inv] by simp
  then show ?thesis
    using SC_AutoStartRts_next False i r by (simp add: auto_start_def rts_inv_def Let_def)
qed

lemma SC_HkRequest_next:
  assumes inv: "sc_inv en s"
  shows "\<exists>s'. SC_HkRequest env m s = Some s' \<and> sc_next en s s'"
proof -
  obtain ok s1 where v: "SC_VerifyCmdLength m 8 s = (ok, s1)" by fastforce
  have "sc_next en s s1" using SC_VerifyCmdLength_keep [OF v] by (rule rts_keep_sc_next [OF inv])
  then show ?thesis
    using auto_start_next [OF inv, of env] SC_VerifyCmdLength_ok [OF v] v by (auto simp: SC_HkRequest_def sc_hk_next)
qed

subsection \<open>Tables\<close>

lemma SC_LoadRts_inv:
  assumes inv: "rts_inv s" and i: "i < SC_NUMBER_OF_RTS" and t: "rts_image_ok t"
  shows "rts_inv (SC_LoadRts i (s\<lparr>RtsTblAddr := (RtsTblAddr s)[i := t]\<rparr>))"
  using assms by (auto simp: SC_LoadRts_def rts_inv_def upd_rts_def rts_entry_ok_def nth_list_update)

lemma load_rts_next:
  assumes inv: "sc_inv en s" and i: "i < SC_NUMBER_OF_RTS" and t: "rts_image_ok t"
  shows "sc_inv en (SC_LoadRts i (s\<lparr>RtsTblAddr := (RtsTblAddr s)[i := t]\<rparr>))" (is "sc_inv en ?s")
proof -
  have "ats_part ?s = ats_part s" "NumCmdsSec ?s = NumCmdsSec s" "AutoStartRTS ?s = AutoStartRTS s"
    using i by (simp_all add: SC_LoadRts_def upd_rts_def ats_part_def)
  then show ?thesis using inv SC_LoadRts_inv [OF _ i t] ats_inv_part [of ?s s en] by (simp add: sc_inv_def)
qed

lemma load_ats_next:
  assumes inv: "sc_inv en s" and a: "a < SC_NUMBER_OF_ATS" and t: "length t = 4 * SC_ATS_BUFF_SIZE32"
  shows "\<exists>s'. SC_LoadAts en a (s\<lparr>AtsTblAddr := (AtsTblAddr s)[a := t]\<rparr>) = Some s' \<and> sc_next en s s'"
proof -
  let ?s = "s\<lparr>AtsTblAddr := (AtsTblAddr s)[a := t]\<rparr>"
  have ainv: "ats_inv en s" using inv by (simp add: sc_inv_def)
  have shape: "ats_shape a s" using ats_inv_ok [OF ainv a] by (simp add: ats_ok_def)
  then have shape': "ats_shape a ?s" "length (AtsTblAddr ?s ! a) = 4 * SC_ATS_BUFF_SIZE32" using t by (simp_all add: ats_shape_def)
  obtain s' where s': "SC_LoadAts en a ?s = Some s'" "ats_ok a s'" "row_frame a ?s s'"
    using SC_LoadAts_ok [OF shape'] by blast
  have "row_frame a s ?s"
    by (simp add: row_frame_def row_part_def ctl_part_def append_part_def rts_part_def clock_part_def)
  then have frame: "row_frame a s s'" using s'(3) by (rule row_frame_trans)
  have "ats_inv en s'" using row_frame_inv [OF frame s'(2) ainv] .
  then have "ats_next en s s'" using row_frame_ats [OF frame] by (simp add: ats_next_def)
  then show ?thesis using s'(1) ats_next_sc_next [OF inv] by blast
qed

lemma load_append_next:
  assumes inv: "sc_inv en s" and t: "length t = 4 * SC_APPEND_BUFF_SIZE32" "SC_ValidateAppend en t s0 = Some (0, s1)"
  shows "\<exists>s'. SC_UpdateAppend en (s\<lparr>AppendTblAddr := t\<rparr>) = Some s' \<and> sc_next en s s'"
proof -
  let ?s = "s\<lparr>AppendTblAddr := t\<rparr>"
  obtain s' where s': "SC_UpdateAppend en ?s = Some s'"
    "append_loop en (AppendTblAddr s') 0 0 = Some (unat (AppendWordCount s'), unat (AppendEntryCount s'))"
    "AppendTblAddr s' = t" "\<forall>b. row_part b s' = row_part b ?s" "ctl_part s' = ctl_part ?s"
    "rts_part s' = rts_part ?s" "clock_part s' = clock_part ?s" "sc_tx s' = sc_tx ?s"
    using SC_UpdateAppend_ok [of ?s en s0 s1] t by auto
  have "\<forall>b. row_part b s' = row_part b s" "ctl_part s' = ctl_part s" "rts_part s' = rts_part s"
    "clock_part s' = clock_part s" "sc_tx s' = sc_tx s"
    using s' by (simp_all add: row_part_def ctl_part_def rts_part_def clock_part_def)
  moreover have "append_ok en s'" using s' t by (simp add: append_ok_def)
  ultimately have "ats_next en s s'"
    using inv row_part_cong(6) [of _ s' s] ctl_set_part [of s' s]
    by (simp add: ats_next_def ats_frame_def ats_inv_def sc_inv_def ctl_part_def)
  then show ?thesis using s'(1) ats_next_sc_next [OF inv] by blast
qed

lemma tbl_addr_same: "tbl_addr ty i s = Some t \<Longrightarrow> set_tbl_addr ty i t s = s"
  by (cases ty) (auto simp: tbl_addr_def set_tbl_addr_def nth_opt_def split: if_splits)

text \<open>A table that did not change.\<close>

lemma SC_ManageTable_same:
  "\<lbrakk> TblGet env = TblSame; tbl_addr ty i s = Some t \<rbrakk> \<Longrightarrow> SC_ManageTable env ty i s = Some s"
  by (simp add: SC_ManageTable_def CFE_TBL_GetAddress_def tbl_addr_same)

lemma tbl_addr_inv:
  assumes "sc_inv en s"
  shows "i < SC_NUMBER_OF_ATS \<Longrightarrow> \<exists>t. tbl_addr ATS i s = Some t"
    and "i < SC_NUMBER_OF_RTS \<Longrightarrow> \<exists>t. tbl_addr RTS i s = Some t" and "\<exists>t. tbl_addr APPEND i s = Some t"
proof -
  have "ats_shape 0 s" "rts_inv s" using assms by (simp_all add: sc_inv_def ats_inv_def ats_ok_def)
  then show "i < SC_NUMBER_OF_ATS \<Longrightarrow> \<exists>t. tbl_addr ATS i s = Some t"
    and "i < SC_NUMBER_OF_RTS \<Longrightarrow> \<exists>t. tbl_addr RTS i s = Some t"
    by (simp_all add: tbl_addr_def ats_shape_def rts_inv_def)
qed (simp add: tbl_addr_def)

lemma SC_ManageTable_next:
  assumes inv: "sc_inv (sc_host env) s" and i: "ty = ATS \<Longrightarrow> i < SC_NUMBER_OF_ATS" "ty = RTS \<Longrightarrow> i < SC_NUMBER_OF_RTS"
    and get: "TblGet env = TblSame \<or> (\<exists>t. TblGet env = TblUpdated t \<and> (case ty of
      ATS \<Rightarrow> length t = 4 * SC_ATS_BUFF_SIZE32
    | RTS \<Rightarrow> rts_image_ok t
    | APPEND \<Rightarrow> length t = 4 * SC_APPEND_BUFF_SIZE32 \<and> (\<exists>s0 s1. SC_ValidateAppend (sc_host env) t s0 = Some (0, s1))))"
  shows "\<exists>s'. SC_ManageTable env ty i s = Some s' \<and> sc_inv (sc_host env) s' \<and>
    (TblGet env = TblSame \<or> ty \<noteq> RTS \<longrightarrow> sc_next (sc_host env) s s')"
proof -
  obtain old where old: "tbl_addr ty i s = Some old" using tbl_addr_inv [OF inv] i by (cases ty) blast+
  show ?thesis
  proof (cases "TblGet env")
    case TblSame
    then show ?thesis using SC_ManageTable_same [OF _ old] inv sc_next_refl by blast
  next
    case (TblUpdated t)
    note eq = SC_ManageTable_def CFE_TBL_GetAddress_def set_tbl_addr_def
    show ?thesis
    proof (cases ty)
      case ATS
      then show ?thesis
        using old TblUpdated get i(1) load_ats_next [OF inv, of i t] by (auto simp: eq sc_next_def)
    next
      case RTS
      then show ?thesis
        using old TblUpdated get i(2) load_rts_next [OF inv, of i t] by (auto simp: eq)
    next
      case APPEND
      then show ?thesis
        using old TblUpdated get load_append_next [OF inv, of t] by (auto simp: eq sc_next_def)
    qed
  next
    case (TblFailed e)
    then show ?thesis using get by simp
  qed
qed

lemma SC_TableManageCmd_next:
  assumes inv: "sc_inv (sc_host env) s" and len: "12 \<le> length m"
    and get: "case TblGet env of TblSame \<Rightarrow> True | TblUpdated t \<Rightarrow> new_tbl_ok (sc_host env) (sint (rd32 (sc_host env) m 8)) t
      | TblFailed e \<Rightarrow> False"
  shows "\<exists>s'. SC_TableManageCmd env m s = Some s' \<and> sc_inv (sc_host env) s' \<and>
    (TblGet env = TblSame \<or> \<not> (4 \<le> sint (rd32 (sc_host env) m 8) \<and> sint (rd32 (sc_host env) m 8) < 68) \<longrightarrow> sc_next (sc_host env) s s')"
proof -
  let ?id = "sint (rd32 (sc_host env) m 8)"
  note self = sc_next_refl [OF inv]
  consider (ats) "1 \<le> ?id" "?id < 3" | (app) "?id = 3" | (rts) "4 \<le> ?id" "?id < 68"
    | (other) "?id < 1 \<or> 68 \<le> ?id" by linarith
  then show ?thesis
  proof cases
    case ats
    then have "\<exists>s'. SC_ManageTable env ATS (nat (?id - 1)) s = Some s' \<and> sc_inv (sc_host env) s' \<and>
        (TblGet env = TblSame \<or> ATS \<noteq> RTS \<longrightarrow> sc_next (sc_host env) s s')"
      using get by (intro SC_ManageTable_next [OF inv]) (auto simp: new_tbl_ok_def split: tbl_get.splits)
    moreover have "\<not> SC_NUMBER_OF_ATS \<le> nat (?id - 1)" using ats by linarith
    then have "SC_TableManageCmd env m s = SC_ManageTable env ATS (nat (?id - 1)) s"
      using ats len by (simp add: SC_TableManageCmd_def SC_ManageAtsTable_def Let_def)
    ultimately show ?thesis by auto
  next
    case app
    have "\<exists>s'. SC_ManageTable env APPEND 0 s = Some s' \<and> sc_inv (sc_host env) s' \<and>
        (TblGet env = TblSame \<or> APPEND \<noteq> RTS \<longrightarrow> sc_next (sc_host env) s s')"
      using get app by (intro SC_ManageTable_next [OF inv]) (auto simp: new_tbl_ok_def split: tbl_get.splits)
    moreover have "SC_TableManageCmd env m s = SC_ManageTable env APPEND 0 s" using app len by (simp add: SC_TableManageCmd_def)
    ultimately show ?thesis by auto
  next
    case rts
    then have "\<exists>s'. SC_ManageTable env RTS (nat (?id - 4)) s = Some s' \<and> sc_inv (sc_host env) s' \<and>
        (TblGet env = TblSame \<or> RTS \<noteq> RTS \<longrightarrow> sc_next (sc_host env) s s')"
      using get by (intro SC_ManageTable_next [OF inv]) (auto simp: new_tbl_ok_def split: tbl_get.splits)
    moreover have "\<not> SC_NUMBER_OF_RTS \<le> nat (?id - 4)" using rts by linarith
    then have "SC_TableManageCmd env m s = SC_ManageTable env RTS (nat (?id - 4)) s"
      using rts len by (simp add: SC_TableManageCmd_def SC_ManageRtsTable_def Let_def)
    ultimately show ?thesis using rts by auto
  next
    case other
    then have "\<not> (1 \<le> ?id \<and> ?id < 3)" "?id \<noteq> 3" "\<not> (4 \<le> ?id \<and> ?id < 68)" by linarith+
    then have c: "(1 \<le> ?id \<and> ?id < 3) = False" "(?id = 3) = False" "(4 \<le> ?id \<and> ?id < 68) = False" by blast+
    have l: "(length m < 12) = False" using len by simp
    have "SC_TableManageCmd env m s = Some s \<or> SC_TableManageCmd env m s = Some (sc_evs 111 CFE_EVS_EventType_ERROR [?id] s)"
      unfolding SC_TableManageCmd_def Let_def c l if_False by (simp only: if_False simp_thms split: if_split)
    moreover have "sc_next (sc_host env) s (sc_evs 111 CFE_EVS_EventType_ERROR [?id] s)" using self by simp
    ultimately show ?thesis using self unfolding sc_next_def by blast
  qed
qed

subsection \<open>Commands and requests\<close>

definition sc_handled :: "sc_env \<Rightarrow> bytes \<Rightarrow> sc_state \<Rightarrow> sc_state option \<Rightarrow> bool" where
  "sc_handled env m s r \<longleftrightarrow> (\<exists>s'. r = Some s' \<and> sc_inv (sc_host env) s' \<and>
     (rts_kept env m \<longrightarrow> sc_next (sc_host env) s s'))"

lemma sc_handledI: "sc_next (sc_host env) s s' \<Longrightarrow> sc_handled env m s (Some s')"
  by (simp add: sc_handled_def sc_next_def)

lemma sc_handled_ats:
  "\<lbrakk> sc_inv (sc_host env) s; \<exists>s'. r = Some s' \<and> ats_next (sc_host env) s s' \<rbrakk> \<Longrightarrow> sc_handled env m s r"
  by (elim exE conjE) (simp add: sc_handledI ats_next_sc_next)

lemma sc_handled_rts:
  "\<lbrakk> sc_inv (sc_host env) s; \<exists>s'. r = Some s' \<and> rts_keep s s' \<rbrakk> \<Longrightarrow> sc_handled env m s r"
  by (elim exE conjE) (simp add: sc_handledI rts_keep_sc_next)

lemma SC_ProcessCommand_next:
  assumes inv: "sc_inv (sc_host env) s" and acc: "sc_acceptable (sc_host env) (env, m)" and mid: "CFE_MSG_GetMsgId m = SC_CMD_MID"
  shows "sc_handled env m s (SC_ProcessCommand env m s)"
proof -
  let ?en = "sc_host env" and ?cc = "snd (CFE_MSG_GetFcnCode m)"
  have a: "ats_inv ?en s" and r: "rts_inv s" using inv by (simp_all add: sc_inv_def)
  note I = sc_handledI sc_handled_ats [OF inv] sc_handled_rts [OF inv]
  have "sc_handled env m s (SC_DisableRtsCmd env m s)" if "?cc = 6"
    using acc mid that by (intro I(3) SC_DisableRtsCmd_keep [OF r]) (simp add: sc_acceptable_def sc_command_def)
  moreover have "sc_handled env m s (SC_TableManageCmd env m s)" if "?cc = 12"
    using SC_TableManageCmd_next [OF inv, of m] acc mid that
    by (auto simp: sc_handled_def rts_kept_def sc_acceptable_def sc_command_def)
  moreover have "sc_handled env m s (Some (SC_NoOpCmd m s))" "sc_handled env m s (Some (SC_ResetCountersCmd m s))"
    "sc_handled env m s (Some (SC_ContinueAtsOnFailureCmd env m s))" "sc_handled env m s (Some (SC_StopRtsCmd env m s))"
    by (rule I(1) SC_NoOpCmd_next [OF inv] SC_ResetCountersCmd_next [OF inv]
      ats_next_sc_next [OF inv SC_ContinueAtsOnFailureCmd_next [OF a]] rts_keep_sc_next [OF inv SC_StopRtsCmd_keep])+
  moreover have "sc_handled env m s (Some (sc_err (sc_evs 64 CFE_EVS_EventType_ERROR args s)))" for args
    using sc_next_refl [OF inv] by (intro I(1)) simp
  moreover have "sc_handled env m s (SC_StartAtsCmd env m s)" "sc_handled env m s (SC_StopAtsCmd env m s)"
    "sc_handled env m s (SC_GroundSwitchCmd env m s)" "sc_handled env m s (SC_JumpAtsCmd env m s)"
    "sc_handled env m s (SC_AppendAtsCmd env m s)"
    by (rule I(2) SC_StartAtsCmd_next [OF a] SC_StopAtsCmd_next [OF a] SC_GroundSwitchCmd_next [OF a]
      SC_JumpAtsCmd_next [OF a] SC_AppendAtsCmd_next [OF a])+
  moreover have "sc_handled env m s (SC_StartRtsCmd env m s)"
    "sc_handled env m s (SC_EnableRtsCmd env m s)" "sc_handled env m s (SC_StartRtsGrpCmd env m s)"
    "sc_handled env m s (SC_StopRtsGrpCmd env m s)" "sc_handled env m s (SC_DisableRtsGrpCmd env m s)"
    "sc_handled env m s (SC_EnableRtsGrpCmd env m s)"
    unfolding SC_StartRtsGrpCmd_def SC_StopRtsGrpCmd_def SC_DisableRtsGrpCmd_def SC_EnableRtsGrpCmd_def
    by (rule I(3) SC_StartRtsCmd_keep [OF r] SC_EnableRtsCmd_keep [OF r] rts_grp_keep [OF r])+
  ultimately show ?thesis by (simp add: SC_ProcessCommand_def Let_def)
qed

lemma sc_handled_time:
  "sc_handled env m (SC_GetCurrentTime env s) r = sc_handled env m s r"
  by (simp add: sc_handled_def sc_next_def SC_GetCurrentTime_def rts_count_def)

lemma sc_inv_time: "sc_inv en (SC_GetCurrentTime env s) = sc_inv en s"
proof -
  have "ats_inv en (SC_GetCurrentTime env s) = ats_inv en s"
    by (rule ats_inv_part) (simp add: ats_part_def SC_GetCurrentTime_def)
  then show ?thesis by (simp add: sc_inv_def SC_GetCurrentTime_def rts_inv_def)
qed

text \<open>A wakeup sends at most eight commands.\<close>

lemma hz_loop_next:
  assumes inv: "sc_inv (sc_host env) s" and now: "CurrentTime s < 0x80000000"
  shows "\<exists>s' x. hz_loop env s = Some s' \<and> sc_next (sc_host env) s s' \<and> sc_tx s' = sc_tx s @ x \<and> length x \<le> 8"
proof -
  have parts: "ats_inv (sc_host env) s" "rts_inv s" "NumCmdsSec s = 0" using inv by (simp_all add: sc_inv_def)
  obtain s' k where s': "hz_loop env s = Some s'" "hz_done (sc_host env) k s s'" "k \<le> 8"
    using hz_loop_ends [OF parts(1,2) now parts(3)] by blast
  then obtain n x where "hz_step (sc_host env) k s (s'\<lparr>NumCmdsSec := n\<rparr>)" "NumCmdsSec s' = 0"
    and x: "sc_tx s' = sc_tx s @ x" "length x \<le> k"
    by (auto simp: hz_done_def hz_step_def)
  then have "sc_next (sc_host env) s s'"
    using inv by (simp add: sc_next_def sc_inv_def hz_step_def rts_inv_def rts_count_def)
  then show ?thesis using s' x by (auto intro: order_trans)
qed

lemma SC_ProcessRequest_next:
  assumes inv: "sc_inv (sc_host env) s" and acc: "sc_acceptable (sc_host env) (env, m)"
  shows "sc_handled env m s (SC_ProcessRequest env m s)"
proof -
  let ?en = "sc_host env" and ?s = "SC_GetCurrentTime env s"
  have inv1: "sc_inv ?en ?s" using inv by (simp add: sc_inv_time)
  have now: "CurrentTime ?s < 0x80000000" using acc by (simp add: sc_acceptable_def SC_GetCurrentTime_def)
  have "sc_handled env m ?s (SC_HkRequest env m ?s)" using SC_HkRequest_next [OF inv1, of env m] sc_handledI by fastforce
  moreover have "sc_handled env m ?s (hz_loop env ?s)" using hz_loop_next [OF inv1 now] sc_handledI by fastforce
  moreover have "sc_handled env m ?s (Some (sc_err (sc_evs 63 CFE_EVS_EventType_ERROR args ?s)))" for args
    using sc_next_refl [OF inv1] by (intro sc_handledI) simp
  ultimately have "sc_handled env m ?s (SC_ProcessRequest env m s)"
    using SC_ProcessCommand_next [OF inv1 acc] by (simp add: SC_ProcessRequest_def Let_def)
  then show ?thesis by (simp add: sc_handled_time)
qed

lemma sc_handle_next:
  assumes "sc_inv en s" "sc_acceptable en i"
  shows "\<exists>s'. sc_handle s i = Some s' \<and> sc_inv en s' \<and> (rts_kept (fst i) (snd i) \<longrightarrow> sc_next en s s')"
proof -
  obtain env m where i: "i = (env, m)" by (cases i) auto
  then have "sc_host env = en" using assms(2) by (simp add: sc_acceptable_def)
  then have "sc_handled env m s (SC_ProcessRequest env m s)"
    using SC_ProcessRequest_next [of env s m] assms i by blast
  then show ?thesis using i \<open>sc_host env = en\<close> by (simp add: sc_handle_def sc_handled_def)
qed

interpretation sc: app_handler sc_handle "sc_inv en" "sc_acceptable en" for en
proof unfold_locales
  fix s :: sc_state and i :: "sc_env \<times> bytes"
  assume "sc_inv en s" "sc_acceptable en i"
  then show "\<exists>s'. sc_handle s i = Some s' \<and> sc_inv en s'" using sc_handle_next by blast
qed

text \<open>The active count, as long as no table of relative sequences is replaced.\<close>

definition sc_count_inv :: "endian \<Rightarrow> sc_state \<Rightarrow> bool" where
  "sc_count_inv en s \<longleftrightarrow> sc_inv en s \<and> rts_count s"

interpretation sc_quiet: app_handler sc_handle "sc_count_inv en" "sc_quiet en" for en
proof unfold_locales
  fix s :: sc_state and i :: "sc_env \<times> bytes"
  assume "sc_count_inv en s" "sc_quiet en i"
  then show "\<exists>s'. sc_handle s i = Some s' \<and> sc_count_inv en s'"
    using sc_handle_next [of en s i] by (auto simp: sc_quiet_def sc_count_inv_def sc_next_def)
qed

end
