(* ===== verification/Sc_App.thy ===== *)
theory Sc_App
  imports Sc_Cmds
begin

text \<open>
  Start-up and main loop of the stored command processor (\<open>sc_app.c\<close>). The results of the system
  calls made at start-up are the record \<open>sc_boot\<close>: a registration, subscription or address request
  is named by its table or message id. A table service clears the memory of a table it registers, so
  the dump-only tables start out as zeros, like the global data.
\<close>

section \<open>System calls of the start-up\<close>

datatype sc_tbl = RtsInfoTbl | RtsCtrlTbl | AtsInfoTbl | AtsCtrlTbl | AtsStatusTbl nat | RtsLoadTbl nat
  | AtsLoadTbl nat | AppendLoadTbl

record sc_boot =
  PowerOnReset :: bool
  EvsRegister :: int
  CreatePipe :: int
  Subscribe :: "u32 \<Rightarrow> int"
  TblRegister :: "sc_tbl \<Rightarrow> int"
  DumpAddress :: "sc_tbl \<Rightarrow> int"
  OpenFile :: "nat \<Rightarrow> int"
  TblLoad :: "nat \<Rightarrow> int"
  LoadAddress :: "sc_tbl \<Rightarrow> int \<times> bytes"

text \<open>Steps that stop at the first that does not return \<open>CFE_SUCCESS\<close>.\<close>

fun first_error :: "('x \<Rightarrow> 's \<Rightarrow> int \<times> 's) \<Rightarrow> 'x list \<Rightarrow> 's \<Rightarrow> int \<times> 's" where
  "first_error f [] s = (0, s)"
| "first_error f (x # xs) s = (let (r, s') = f x s in if r \<noteq> 0 then (r, s') else first_error f xs s')"

definition then_ok :: "int \<times> 's \<Rightarrow> ('s \<Rightarrow> int \<times> 's) \<Rightarrow> int \<times> 's" where
  "then_ok rs k = (if fst rs \<noteq> 0 then rs else k (snd rs))"

text \<open>A call that may fail, and the event that reports it.\<close>

definition call_or_event :: "int \<Rightarrow> nat \<Rightarrow> int list \<Rightarrow> sc_state \<Rightarrow> int \<times> sc_state" where
  "call_or_event r eid args s = (r, if r \<noteq> 0 then sc_evs eid CFE_EVS_EventType_ERROR (args @ [r]) s else s)"

section \<open>Tables\<close>

definition SC_RegisterDumpOnlyTables :: "sc_boot \<Rightarrow> sc_state \<Rightarrow> int \<times> sc_state" where
  "SC_RegisterDumpOnlyTables b s =
     then_ok (first_error (\<lambda>(t, eid). call_or_event (TblRegister b t) eid [])
                [(RtsInfoTbl, 16), (RtsCtrlTbl, 17), (AtsInfoTbl, 18), (AtsCtrlTbl, 19)] s)
       (first_error (\<lambda>i. call_or_event (TblRegister b (AtsStatusTbl i)) 20 [int i + 1]) [0..<SC_NUMBER_OF_ATS])"

definition SC_RegisterLoadableTables :: "sc_boot \<Rightarrow> sc_state \<Rightarrow> int \<times> sc_state" where
  "SC_RegisterLoadableTables b s =
     then_ok (then_ok (first_error (\<lambda>j. call_or_event (TblRegister b (RtsLoadTbl j)) 10 [int j + 1]) [0..<SC_NUMBER_OF_RTS] s)
       (first_error (\<lambda>j. call_or_event (TblRegister b (AtsLoadTbl j)) 11 [int j + 1]) [0..<SC_NUMBER_OF_ATS]))
       (call_or_event (TblRegister b AppendLoadTbl) 93 [])"

definition SC_RegisterAllTables :: "sc_boot \<Rightarrow> sc_state \<Rightarrow> int \<times> sc_state" where
  "SC_RegisterAllTables b s = then_ok (SC_RegisterDumpOnlyTables b s) (SC_RegisterLoadableTables b)"

definition SC_GetDumpTablePointers :: "sc_boot \<Rightarrow> sc_state \<Rightarrow> int \<times> sc_state" where
  "SC_GetDumpTablePointers b s =
     then_ok (first_error (\<lambda>(t, eid). call_or_event (DumpAddress b t) eid [])
                [(RtsInfoTbl, 65), (RtsCtrlTbl, 66), (AtsInfoTbl, 67), (AtsCtrlTbl, 68)] s)
       (first_error (\<lambda>i. call_or_event (DumpAddress b (AtsStatusTbl i)) 69 [int i + 1]) [0..<SC_NUMBER_OF_ATS])"

text \<open>
  The address of a loadable table is had whether it was loaded or not; a relative sequence that was
  loaded is made ready.
\<close>

definition load_pointer :: "sc_boot \<Rightarrow> sc_tbl \<Rightarrow> nat \<Rightarrow> int list \<Rightarrow> (bytes \<Rightarrow> sc_state \<Rightarrow> sc_state) \<Rightarrow>
    sc_state \<Rightarrow> int \<times> sc_state" where
  "load_pointer b t eid args store s =
     (let (Result, new) = LoadAddress b t; s = store new s
      in if Result \<noteq> CFE_TBL_ERR_NEVER_LOADED \<and> Result \<noteq> CFE_TBL_INFO_UPDATED
         then call_or_event Result eid args s else (0, s))"

definition rts_pointer :: "sc_boot \<Rightarrow> nat \<Rightarrow> sc_state \<Rightarrow> int \<times> sc_state" where
  "rts_pointer b i s =
     then_ok (load_pointer b (RtsLoadTbl i) 70 [int i + 1] (\<lambda>t s. s\<lparr>RtsTblAddr := (RtsTblAddr s)[i := t]\<rparr>) s)
       (\<lambda>s. (0, if fst (LoadAddress b (RtsLoadTbl i)) = CFE_TBL_INFO_UPDATED then SC_LoadRts i s else s))"

definition SC_GetLoadTablePointers :: "sc_boot \<Rightarrow> sc_state \<Rightarrow> int \<times> sc_state" where
  "SC_GetLoadTablePointers b s =
     then_ok (then_ok
         (first_error (\<lambda>i. load_pointer b (AtsLoadTbl i) 71 [int i + 1] (\<lambda>t s. s\<lparr>AtsTblAddr := (AtsTblAddr s)[i := t]\<rparr>))
            [0..<SC_NUMBER_OF_ATS] s)
         (load_pointer b AppendLoadTbl 92 [] (\<lambda>t s. s\<lparr>AppendTblAddr := t\<rparr>)))
       (first_error (rts_pointer b) [0..<SC_NUMBER_OF_RTS])"

text \<open>The default sequences: a file that does not open or load is counted and reported.\<close>

definition load_default :: "sc_boot \<Rightarrow> nat \<Rightarrow> int \<times> sc_state \<Rightarrow> int \<times> sc_state" where
  "load_default b RtsIndex = (\<lambda>(NotLoadedCount, s).
     if OpenFile b RtsIndex = 0
     then if TblLoad b RtsIndex \<noteq> 0
          then (NotLoadedCount + 1, sc_evs 124 CFE_EVS_EventType_DEBUG [int RtsIndex, TblLoad b RtsIndex] s)
          else (NotLoadedCount, s)
     else (NotLoadedCount + 1, sc_evs 125 CFE_EVS_EventType_DEBUG [int RtsIndex, OpenFile b RtsIndex] s))"

definition SC_LoadDefaultTables :: "sc_boot \<Rightarrow> sc_state \<Rightarrow> sc_state" where
  "SC_LoadDefaultTables b s =
     (let (NotLoadedCount, s) = fold (load_default b) [0..<SC_NUMBER_OF_RTS] (0, s)
      in sc_evs 21 CFE_EVS_EventType_INFORMATION [NotLoadedCount, int SC_NUMBER_OF_RTS] s)"

text \<open>The notifications asked of table services, in order: the table and the parameter of the command.\<close>

definition SC_RegisterManageCmds :: "(sc_tbl \<times> nat) list" where
  "SC_RegisterManageCmds =
     [(RtsInfoTbl, 68), (RtsCtrlTbl, 69), (AtsInfoTbl, 70), (AtsCtrlTbl, 71), (AppendLoadTbl, 3)] @
     concat (map (\<lambda>i. [(AtsStatusTbl i, 72 + i), (AtsLoadTbl i, 1 + i)]) [0..<SC_NUMBER_OF_ATS]) @
     map (\<lambda>i. (RtsLoadTbl i, 4 + i)) [0..<SC_NUMBER_OF_RTS]"

definition init_rts_info :: "SC_RtsInfoEntry \<Rightarrow> SC_RtsInfoEntry" where
  "init_rts_info r = r\<lparr>NextCommandTime := SC_MAX_TIME, NextCommandPtr := 0, RtsStatus := SC_EMPTY, DisabledFlag := True\<rparr>"

definition init_tables :: "sc_state \<Rightarrow> sc_state" where
  "init_tables s = s\<lparr>AtpState := SC_IDLE, AtsNumber := 0, CmdNumber := ucast SC_INVALID_CMD_NUMBER,
     NumRtsActive := 0, RtsNumber := SC_INVALID_RTS_NUMBER,
     AtsCmdStatusTblAddr := replicate SC_NUMBER_OF_ATS (replicate SC_MAX_ATS_CMDS SC_EMPTY),
     RtsInfoTblAddr := map init_rts_info (RtsInfoTblAddr s)\<rparr>"

definition SC_InitTables :: "sc_boot \<Rightarrow> sc_state \<Rightarrow> int \<times> sc_state" where
  "SC_InitTables b s =
     then_ok (then_ok (SC_RegisterAllTables b s) (SC_GetDumpTablePointers b))
       (\<lambda>s. SC_GetLoadTablePointers b (SC_LoadDefaultTables b (init_tables s)))"

section \<open>The application\<close>

text \<open>The global data and the dump-only tables, cleared.\<close>

definition sc_zeroed :: sc_state where
  "sc_zeroed = \<lparr>RtsTblAddr = replicate SC_NUMBER_OF_RTS [], AtsTblAddr = replicate SC_NUMBER_OF_ATS [], AppendTblAddr = [],
     AtsInfoTblAddr = replicate SC_NUMBER_OF_ATS \<lparr>AtsUseCtr = 0, NumberOfCommands = 0, AtsSize = 0\<rparr>,
     RtsInfoTblAddr = replicate SC_NUMBER_OF_RTS
       \<lparr>RtsStatus = 0, DisabledFlag = False, ri_CmdCtr = 0, ri_CmdErrCtr = 0, NextCommandTime = 0, NextCommandPtr = 0, UseCtr = 0\<rparr>,
     NumRtsActive = 0, RtsNumber = 0, AtpState = 0, AtsNumber = 0, CmdNumber = 0, TimeIndexPtr = 0, SwitchPendFlag = 0,
     AtsCmdStatusTblAddr = replicate SC_NUMBER_OF_ATS (replicate SC_MAX_ATS_CMDS 0),
     AtsDupTestArray = replicate SC_MAX_ATS_CMDS 0, NumCmdsSec = 0, ContinueAtsOnFailureFlag = 0, CmdErrCtr = 0,
     CmdCtr = 0, RtsActiveCtr = 0, RtsActiveErrCtr = 0, AtsCmdCtr = 0, AtsCmdErrCtr = 0, RtsCmdCtr = 0, RtsCmdErrCtr = 0,
     LastAtsErrSeq = 0, LastAtsErrCmd = 0, LastRtsErrSeq = 0, LastRtsErrCmd = 0, AppendCmdArg = 0, AppendEntryCount = 0,
     AppendByteCount = 0, AppendLoadCount = 0,
     AtsTimeIndexBuffer = replicate SC_NUMBER_OF_ATS (replicate SC_MAX_ATS_CMDS 0),
     AtsCmdIndexBuffer = replicate SC_NUMBER_OF_ATS (replicate SC_MAX_ATS_CMDS 0),
     NextProcNumber = 0, NextAtpTime = 0, NextRtpTime = 0, CurrentTime = 0, AutoStartRTS = 0, AppendWordCount = 0,
     sc_events = [], sc_tx = [], sc_hk_tx = []\<rparr>"

text \<open>Nothing reports that registration with event services failed: no event can be sent then.\<close>

definition SC_AppInit :: "sc_boot \<Rightarrow> int \<times> sc_state" where
  "SC_AppInit b =
     (let s = sc_zeroed\<lparr>NumCmdsSec := 0, ContinueAtsOnFailureFlag := 1, NextProcNumber := SC_NONE,
                NextAtpTime := SC_MAX_TIME, NextRtpTime := SC_MAX_TIME,
                AutoStartRTS := (if PowerOnReset b then 1 else 2)\<rparr>
      in then_ok (then_ok (then_ok (then_ok (then_ok (then_ok (EvsRegister b, s)
           (call_or_event (CreatePipe b) 3 []))
           (call_or_event (Subscribe b SC_SEND_HK_MID) 4 []))
           (call_or_event (Subscribe b SC_1HZ_WAKEUP_MID) 5 []))
           (call_or_event (Subscribe b SC_CMD_MID) 6 []))
           (SC_InitTables b))
           (\<lambda>s. (0, sc_evs 9 CFE_EVS_EventType_INFORMATION [3, 1, 99, 0] s)))"

text \<open>
  What the software bus delivers on each round of the main loop; the list ends when the executive
  asks the application to stop. The result is the last status with the final state.
\<close>

datatype sc_rx = RxBuffer sc_env bytes | RxTimeout | RxError int

abbreviation (input) CFE_SB_TIME_OUT :: int where "CFE_SB_TIME_OUT \<equiv> 0xca000001 - 0x100000000"

fun main_loop :: "sc_rx list \<Rightarrow> int \<times> sc_state \<Rightarrow> (int \<times> sc_state) option" where
  "main_loop [] rs = Some rs"
| "main_loop (RxBuffer env m # xs) rs = Option.bind (SC_ProcessRequest env m (snd rs)) (\<lambda>s. main_loop xs (0, s))"
| "main_loop (RxTimeout # xs) rs = main_loop xs (CFE_SB_TIME_OUT, snd rs)"
| "main_loop (RxError e # xs) rs = Some (e, snd rs)"

definition SC_AppMain :: "sc_boot \<Rightarrow> sc_rx list \<Rightarrow> sc_state option" where
  "SC_AppMain b xs =
     map_option (\<lambda>(Result, s). if Result \<noteq> 0 then sc_evs 1 CFE_EVS_EventType_ERROR [Result] s else s)
       (let (Result, s) = SC_AppInit b in if Result \<noteq> 0 then Some (Result, s) else main_loop xs (Result, s))"

section \<open>The state after the start-up\<close>

lemma then_ok_0: "then_ok rs k = (0, s') \<longleftrightarrow> (\<exists>s. rs = (0, s) \<and> k s = (0, s'))"
  by (cases rs) (auto simp: then_ok_def)

lemma call_or_event_0 [simp]: "call_or_event r eid args s = (0, s') \<longleftrightarrow> r = 0 \<and> s' = s"
  by (auto simp: call_or_event_def)

text \<open>Induction over a loop of steps that all succeed.\<close>

lemma first_error_upt:
  assumes "first_error f [k..<n] s = (0, s')" "k \<le> n" "P k s"
    and "\<And>i s s'. \<lbrakk> k \<le> i; i < n; P i s; f i s = (0, s') \<rbrakk> \<Longrightarrow> P (Suc i) s'"
  shows "P n s'"
  using assms
proof (induction "n - k" arbitrary: k s)
  case 0
  then show ?case by simp
next
  case (Suc m)
  then have up: "[k..<n] = k # [Suc k..<n]" by (simp add: upt_conv_Cons)
  obtain r s1 where f: "f k s = (r, s1)" by fastforce
  with Suc.prems(1) have r: "r = 0" "first_error f [Suc k..<n] s1 = (0, s')"
    by (auto simp: up split: if_splits)
  show ?case
    using Suc.hyps(1) [of "Suc k" s1] Suc.hyps(2) Suc.prems(2-4) f r by auto
qed

lemma first_error_same:
  "\<lbrakk> first_error f xs s = (0, s'); \<And>x s s'. f x s = (0, s') \<Longrightarrow> s' = s \<rbrakk> \<Longrightarrow> s' = s"
  by (induction xs arbitrary: s) (auto split: prod.splits if_splits)

lemma first_error_Cons_0:
  "first_error f (x # xs) s = (0, s') \<longleftrightarrow> (\<exists>s1. f x s = (0, s1) \<and> first_error f xs s1 = (0, s'))"
  by (auto split: prod.splits)

lemma SC_RegisterAllTables_same: "SC_RegisterAllTables b s = (0, s') \<Longrightarrow> s' = s"
  by (auto simp: SC_RegisterAllTables_def SC_RegisterDumpOnlyTables_def SC_RegisterLoadableTables_def then_ok_0
      first_error_Cons_0 simp del: first_error.simps(2) dest!: first_error_same)

lemma SC_GetDumpTablePointers_same: "SC_GetDumpTablePointers b s = (0, s') \<Longrightarrow> s' = s"
  by (auto simp: SC_GetDumpTablePointers_def then_ok_0 first_error_Cons_0 simp del: first_error.simps(2)
      dest!: first_error_same)

text \<open>
  Before the table of relative sequence \<open>i\<close> is fetched: no absolute sequence is loaded, nothing runs,
  and the sequences from \<open>i\<close> on are empty.
\<close>

definition boot_ok :: "nat \<Rightarrow> sc_state \<Rightarrow> bool" where
  "boot_ok i s \<longleftrightarrow> (\<forall>a<SC_NUMBER_OF_ATS. ats_ok a s \<and> row_count a s = 0) \<and> AtpState s = SC_IDLE \<and>
     AppendEntryCount s = 0 \<and> NumRtsActive s = 0 \<and> length (RtsTblAddr s) = SC_NUMBER_OF_RTS \<and>
     length (RtsInfoTblAddr s) = SC_NUMBER_OF_RTS \<and> NumCmdsSec s = 0 \<and> (AutoStartRTS s = 1 \<or> AutoStartRTS s = 2) \<and>
     (\<forall>j<SC_NUMBER_OF_RTS. RtsStatus (RtsInfoTblAddr s ! j) = SC_EMPTY \<or>
        j < i \<and> RtsStatus (RtsInfoTblAddr s ! j) = SC_LOADED \<and> rts_image_ok (RtsTblAddr s ! j))"

text \<open>The relative sequences that were loaded are in tables of full size.\<close>

definition boot_images_ok :: "sc_boot \<Rightarrow> bool" where
  "boot_images_ok b \<longleftrightarrow> (\<forall>i<SC_NUMBER_OF_RTS. fst (LoadAddress b (RtsLoadTbl i)) = CFE_TBL_INFO_UPDATED \<longrightarrow>
     rts_image_ok (snd (LoadAddress b (RtsLoadTbl i))))"

lemma boot_ok_sc [simp]: "boot_ok i (sc_evs e t as s) = boot_ok i s"
  by (simp add: boot_ok_def row_part_cong [of _ "sc_evs e t as s" s])

lemma init_tables_ok:
  "boot_ok 0 (init_tables (sc_zeroed\<lparr>NumCmdsSec := 0, ContinueAtsOnFailureFlag := 1, NextProcNumber := SC_NONE,
     NextAtpTime := SC_MAX_TIME, NextRtpTime := SC_MAX_TIME, AutoStartRTS := (if p then 1 else 2)\<rparr>))"
proof -
  have two: "a < 2 \<Longrightarrow> a = 0 \<or> a = Suc 0" for a :: nat by linarith
  show ?thesis
    by (auto simp: boot_ok_def init_tables_def sc_zeroed_def ats_ok_def ats_shape_def row_count_def init_rts_info_def dest!: two)
qed

lemma boot_ok_tables [simp]:
  "boot_ok i (s\<lparr>AtsTblAddr := (AtsTblAddr s)[a := t]\<rparr>) = boot_ok i s"
  "boot_ok i (s\<lparr>AppendTblAddr := t\<rparr>) = boot_ok i s"
proof -
  have "ats_ok c (s\<lparr>AtsTblAddr := (AtsTblAddr s)[a := t]\<rparr>) = ats_ok c s" if "row_count c s = 0" for c
    using that by (simp add: ats_ok_def ats_shape_def row_count_def)
  then show "boot_ok i (s\<lparr>AtsTblAddr := (AtsTblAddr s)[a := t]\<rparr>) = boot_ok i s"
    by (auto simp: boot_ok_def row_count_def)
  have "row_part c (s\<lparr>AppendTblAddr := t\<rparr>) = row_part c s" for c by (simp add: row_part_def)
  then show "boot_ok i (s\<lparr>AppendTblAddr := t\<rparr>) = boot_ok i s"
    using row_part_cong [of _ "s\<lparr>AppendTblAddr := t\<rparr>" s] by (simp add: boot_ok_def)
qed

lemma boot_ok_mono: "\<lbrakk> boot_ok i s; i \<le> j \<rbrakk> \<Longrightarrow> boot_ok j s"
  unfolding boot_ok_def by (meson order_less_le_trans)

lemma load_default_ok: "boot_ok i (snd (fold (load_default b) xs ns)) = boot_ok i (snd ns)"
  by (induction xs arbitrary: ns) (auto simp: load_default_def split: prod.splits)

lemma SC_LoadDefaultTables_ok: "boot_ok i (SC_LoadDefaultTables b s) = boot_ok i s"
  using load_default_ok [of i b "[0..<SC_NUMBER_OF_RTS]" "(0, s)"]
  by (auto simp: SC_LoadDefaultTables_def Let_def split: prod.splits)

lemma load_pointer_0:
  "load_pointer b t eid args store s = (0, s') \<Longrightarrow> s' = store (snd (LoadAddress b t)) s"
  by (auto simp: load_pointer_def Let_def split: prod.splits if_splits)

lemma rts_pointer_ok:
  assumes "boot_ok i s" "i < SC_NUMBER_OF_RTS" "boot_images_ok b" "rts_pointer b i s = (0, s')"
  shows "boot_ok (Suc i) s'"
proof -
  let ?t = "snd (LoadAddress b (RtsLoadTbl i))"
  let ?s = "s\<lparr>RtsTblAddr := (RtsTblAddr s)[i := ?t]\<rparr>"
  have s': "s' = (if fst (LoadAddress b (RtsLoadTbl i)) = CFE_TBL_INFO_UPDATED then SC_LoadRts i ?s else ?s)"
    using assms(4) load_pointer_0 by (fastforce simp: rts_pointer_def then_ok_0)
  have rows: "row_part c ?s = row_part c s" "row_part c (SC_LoadRts i ?s) = row_part c s" for c
    using assms(2) by (simp_all add: row_part_def SC_LoadRts_def upd_rts_def)
  have "boot_ok (Suc i) ?s"
    using assms(1) rows(1) row_part_cong [of _ ?s s]
    by (auto simp: boot_ok_def nth_list_update less_Suc_eq)
  moreover have "boot_ok (Suc i) (SC_LoadRts i ?s)" if "rts_image_ok ?t"
    using assms(1,2) that row_part_cong [of _ "SC_LoadRts i ?s" s] rows(2)
    by (simp add: boot_ok_def SC_LoadRts_def upd_rts_def nth_list_update less_Suc_eq)
  ultimately show ?thesis using s' assms(2,3) by (auto simp: boot_images_ok_def)
qed

lemma SC_GetLoadTablePointers_ok:
  assumes "boot_ok 0 s" "boot_images_ok b" "SC_GetLoadTablePointers b s = (0, s')"
  shows "boot_ok SC_NUMBER_OF_RTS s'"
proof -
  obtain s1 s2 where s1: "first_error (\<lambda>i. load_pointer b (AtsLoadTbl i) 71 [int i + 1] (\<lambda>t s. s\<lparr>AtsTblAddr := (AtsTblAddr s)[i := t]\<rparr>))
      [0..<SC_NUMBER_OF_ATS] s = (0, s1)"
    and s2: "load_pointer b AppendLoadTbl 92 [] (\<lambda>t s. s\<lparr>AppendTblAddr := t\<rparr>) s1 = (0, s2)"
    and s': "first_error (rts_pointer b) [0..<SC_NUMBER_OF_RTS] s2 = (0, s')"
    using assms(3) by (auto simp: SC_GetLoadTablePointers_def then_ok_0 simp del: first_error.simps)
  have "boot_ok 0 s1"
    by (rule first_error_upt [where P = "\<lambda>i. boot_ok 0", OF s1]) (use assms(1) in \<open>auto dest!: load_pointer_0\<close>)
  then have "boot_ok 0 s2" using load_pointer_0 [OF s2] by simp
  then show ?thesis
    by (intro first_error_upt [where P = boot_ok, OF s']) (auto intro: rts_pointer_ok [OF _ _ assms(2)])
qed

lemma SC_AppInit_boot:
  assumes "SC_AppInit b = (0, s)" "boot_images_ok b"
  shows "boot_ok SC_NUMBER_OF_RTS s"
proof -
  let ?s0 = "sc_zeroed\<lparr>NumCmdsSec := 0, ContinueAtsOnFailureFlag := 1, NextProcNumber := SC_NONE,
     NextAtpTime := SC_MAX_TIME, NextRtpTime := SC_MAX_TIME, AutoStartRTS := (if PowerOnReset b then 1 else 2)\<rparr>"
  obtain s1 where "SC_InitTables b ?s0 = (0, s1)" and s: "s = sc_evs 9 CFE_EVS_EventType_INFORMATION [3, 1, 99, 0] s1"
    using assms(1) by (auto simp: SC_AppInit_def Let_def then_ok_0)
  then obtain s2 s3 where "SC_RegisterAllTables b ?s0 = (0, s2)" "SC_GetDumpTablePointers b s2 = (0, s3)"
    and s1: "SC_GetLoadTablePointers b (SC_LoadDefaultTables b (init_tables s3)) = (0, s1)"
    by (auto simp: SC_InitTables_def then_ok_0)
  then have "s3 = ?s0" using SC_RegisterAllTables_same SC_GetDumpTablePointers_same by blast
  then have "boot_ok 0 (SC_LoadDefaultTables b (init_tables s3))"
    using init_tables_ok [of "PowerOnReset b"] by (simp add: SC_LoadDefaultTables_ok)
  then show ?thesis using SC_GetLoadTablePointers_ok [OF _ assms(2) s1] s by simp
qed

lemma boot_ok_inv:
  assumes "boot_ok SC_NUMBER_OF_RTS s"
  shows "sc_count_inv en s" "\<forall>i<SC_NUMBER_OF_RTS. \<not> rts_executing s i"
proof -
  have st: "\<forall>j<SC_NUMBER_OF_RTS. RtsStatus (RtsInfoTblAddr s ! j) = SC_EMPTY \<or>
        RtsStatus (RtsInfoTblAddr s ! j) = SC_LOADED \<and> rts_image_ok (RtsTblAddr s ! j)"
    and len: "length (RtsInfoTblAddr s) = SC_NUMBER_OF_RTS" "length (RtsTblAddr s) = SC_NUMBER_OF_RTS"
    using assms by (auto simp: boot_ok_def)
  show idle: "\<forall>i<SC_NUMBER_OF_RTS. \<not> rts_executing s i" using st by (auto simp: rts_executing_def)
  have "rts_inv s" using st len by (auto simp: rts_inv_def rts_entry_ok_def)
  moreover have "filter (\<lambda>r. RtsStatus r = SC_EXECUTING) (RtsInfoTblAddr s) = []"
    using idle len by (auto simp: rts_executing_def filter_empty_conv in_set_conv_nth)
  then have "rts_count s" using assms by (simp add: rts_count_def boot_ok_def)
  moreover have "ats_inv en s" using assms by (simp add: boot_ok_def ats_inv_def append_ok_def)
  ultimately show "sc_count_inv en s" using assms by (auto simp: sc_count_inv_def sc_inv_def boot_ok_def)
qed

section \<open>The main loop\<close>

fun rx_acceptable :: "endian \<Rightarrow> sc_rx \<Rightarrow> bool" where
  "rx_acceptable en (RxBuffer env m) \<longleftrightarrow> sc_acceptable en (env, m)"
| "rx_acceptable en RxTimeout \<longleftrightarrow> True"
| "rx_acceptable en (RxError e) \<longleftrightarrow> True"

lemma main_loop_ok:
  "\<lbrakk> sc_inv en (snd rs); list_all (rx_acceptable en) xs \<rbrakk> \<Longrightarrow> \<exists>r s. main_loop xs rs = Some (r, s) \<and> sc_inv en s"
proof (induction xs rs rule: main_loop.induct)
  case (2 env m xs rs)
  obtain s where "SC_ProcessRequest env m (snd rs) = Some s" "sc_inv en s"
    using sc.handle_ok [of en "snd rs" "(env, m)"] "2.prems" by (auto simp: sc_handle_def)
  then show ?case using "2.IH" [of s] "2.prems"(2) by simp
qed auto

lemma SC_AppMain_ok:
  assumes "boot_images_ok b" "list_all (rx_acceptable en) xs" "SC_AppInit b = (0, s0)"
  shows "\<exists>s. SC_AppMain b xs = Some s \<and> sc_inv en s"
proof -
  have "sc_inv en (snd (0, s0))" using boot_ok_inv(1) [OF SC_AppInit_boot [OF assms(3,1)], of en] by (simp add: sc_count_inv_def)
  then obtain r s where l: "main_loop xs (0, s0) = Some (r, s)" "sc_inv en s"
    using main_loop_ok [OF _ assms(2), of "(0, s0)"] by auto
  have "sc_inv en (sc_evs 1 CFE_EVS_EventType_ERROR [r] s)" using l(2) by (simp add: sc_inv_def)
  then show ?thesis using l assms(3) by (auto simp: SC_AppMain_def)
qed

end
