(* ===== verification/Sc_Spec.thy ===== *)
theory Sc_Spec
  imports Sc_App
begin

text \<open>
  What the stored command processor promises: the script of a relative sequence and the plan made
  from it at each wakeup, which the table walk implements; and the properties of commands, tables,
  housekeeping, the once-a-second loop and the start-up that follow from the lemmas of its parts.
\<close>

section \<open>The script of a relative sequence\<close>

text \<open>
  What the table of a relative sequence asks for from an entry on: the delays and the commands, up
  to the first entry that is not a command of a legal size inside the table.
\<close>

definition rts_entry_legal :: "bytes \<Rightarrow> nat \<Rightarrow> bool" where
  "rts_entry_legal tbl off \<longleftrightarrow>
     (let n = CFE_MSG_GetSize (drop (4 * off + SC_RTS_HEADER_SIZE) tbl)
      in off \<le> SC_RTS_BUFF_SIZE32 - SC_RTS_HDR_WORDS \<and> SC_PACKET_MIN_SIZE \<le> n \<and> n \<le> SC_PACKET_MAX_SIZE \<and>
         off + rts_words n \<le> SC_RTS_BUFF_SIZE32)"

definition rts_entry_cmd :: "bytes \<Rightarrow> nat \<Rightarrow> bytes" where
  "rts_entry_cmd tbl off = (let m = drop (4 * off + SC_RTS_HEADER_SIZE) tbl in take (CFE_MSG_GetSize m) m)"

definition rts_after :: "bytes \<Rightarrow> nat \<Rightarrow> nat" where
  "rts_after tbl off = off + rts_words (CFE_MSG_GetSize (drop (4 * off + SC_RTS_HEADER_SIZE) tbl))"

lemma rts_after_less: "off < rts_after tbl off"
  using rts_words_bound(2) [of "CFE_MSG_GetSize (drop (4 * off + SC_RTS_HEADER_SIZE) tbl)"] by (simp add: rts_after_def)

function rts_script :: "endian \<Rightarrow> bytes \<Rightarrow> nat \<Rightarrow> (u32 \<times> bytes) list" where
  "rts_script en tbl off =
     (if rts_entry_legal tbl off
      then (rd32 en tbl (4 * off), rts_entry_cmd tbl off) # rts_script en tbl (rts_after tbl off)
      else [])"
  by pat_completeness auto

termination
  by (relation "measure (\<lambda>(en, tbl, off). 100 - off)")
    (use rts_after_less in \<open>auto simp: rts_entry_legal_def Let_def intro!: diff_less_mono2\<close>)

declare rts_script.simps [simp del]

lemma rts_script_Nil: "rts_script en tbl off = [] \<longleftrightarrow> \<not> rts_entry_legal tbl off"
  by (simp add: rts_script.simps [of en tbl off])

lemma rts_script_Cons:
  "rts_script en tbl off = (d, m) # q \<longleftrightarrow> rts_entry_legal tbl off \<and> d = rd32 en tbl (4 * off) \<and>
     m = rts_entry_cmd tbl off \<and> q = rts_script en tbl (rts_after tbl off)"
  by (auto simp: rts_script.simps [of en tbl off])

text \<open>
  The plan of sequence \<open>i\<close>: the time of its next command with the rest of its script; none when the
  sequence does not run.
\<close>

definition rts_plan :: "endian \<Rightarrow> nat \<Rightarrow> sc_state \<Rightarrow> u32 \<times> (u32 \<times> bytes) list" where
  "rts_plan en i s =
     (if rts_executing s i
      then (NextCommandTime (RtsInfoTblAddr s ! i),
            rts_script en (RtsTblAddr s ! i) (unat (NextCommandPtr (RtsInfoTblAddr s ! i))))
      else (SC_MAX_TIME, []))"

lemma SC_ComputeAbsTime_add: "SC_ComputeAbsTime t s = CurrentTime s + t"
  by (simp add: SC_ComputeAbsTime_def CFE_TIME_Add_def)

lemma SC_KillRts_at:
  assumes "i < SC_NUMBER_OF_RTS" "length (RtsInfoTblAddr s) = SC_NUMBER_OF_RTS"
  shows "\<not> rts_executing (SC_KillRts i s) i" "j \<noteq> i \<Longrightarrow> RtsInfoTblAddr (SC_KillRts i s) ! j = RtsInfoTblAddr s ! j"
    "RtsTblAddr (SC_KillRts i s) = RtsTblAddr s"
  using assms by (auto simp: SC_KillRts_def rts_executing_def upd_rts_def Let_def)

text \<open>The other sequences, and all but the relative sequences.\<close>

definition rts_only :: "nat \<Rightarrow> sc_state \<Rightarrow> sc_state \<Rightarrow> bool" where
  "rts_only i s s' \<longleftrightarrow> RtsTblAddr s' = RtsTblAddr s \<and> (\<forall>j. j \<noteq> i \<longrightarrow> RtsInfoTblAddr s' ! j = RtsInfoTblAddr s ! j)"

lemma rts_only_trans: "\<lbrakk> rts_only i s s1; rts_only i s1 s2 \<rbrakk> \<Longrightarrow> rts_only i s s2"
  by (simp add: rts_only_def)

lemma rts_only_sc [simp]:
  "rts_only i s0 (sc_evs e t a s) = rts_only i s0 s" "rts_only i s0 (upd_rts i f s) = rts_only i s0 s"
  by (simp_all add: rts_only_def upd_rts_def nth_upd_at_other)

lemma rts_only_kill:
  "\<lbrakk> i < SC_NUMBER_OF_RTS; length (RtsInfoTblAddr s) = SC_NUMBER_OF_RTS \<rbrakk> \<Longrightarrow> rts_only i s0 (SC_KillRts i s) = rts_only i s0 s"
  using SC_KillRts_at [of i s] by (simp add: rts_only_def)

lemma rts_ended:
  assumes "i < SC_NUMBER_OF_RTS" "length (RtsInfoTblAddr s) = SC_NUMBER_OF_RTS"
  shows "\<not> rts_executing (rts_completed i s) i" "rts_only i s (rts_completed i s)"
    "\<not> rts_executing (rts_cmd_error i off e a s) i" "rts_only i s (rts_cmd_error i off e a s)"
proof -
  have "rts_executing (sc_evs e t a s) j = rts_executing s j" for e t a s j by (simp add: rts_executing_def)
  then show "\<not> rts_executing (rts_completed i s) i" "\<not> rts_executing (rts_cmd_error i off e a s) i"
    using assms SC_KillRts_at(1) by (auto simp: rts_completed_def rts_cmd_error_def Let_def upd_rts_def)
  show "rts_only i s (rts_completed i s)"
    using assms by (simp add: rts_completed_def Let_def rts_only_kill) (simp add: rts_only_def)
  show "rts_only i s (rts_cmd_error i off e a s)"
    using assms by (simp add: rts_cmd_error_def Let_def rts_only_kill upd_rts_def) (simp add: rts_only_def nth_upd_at_other)
qed

text \<open>The next command of sequence \<open>i\<close> is the next of its script, or the sequence ends.\<close>

lemma SC_GetNextRtsCommand_script:
  assumes inv: "rts_inv s" and i: "i < SC_NUMBER_OF_RTS" and num: "RtsNumber s = of_nat (i + 1)" and ex: "rts_executing s i"
  shows "\<exists>s'. SC_GetNextRtsCommand env s = Some s' \<and> rts_only i s s' \<and>
    (rts_executing s' i \<longrightarrow> snd (rts_plan (sc_host env) i s') \<noteq> []) \<and>
    rts_plan (sc_host env) i s' =
      (case rts_script (sc_host env) (RtsTblAddr s ! i) (rts_after (RtsTblAddr s ! i) (unat (NextCommandPtr (RtsInfoTblAddr s ! i)))) of
         [] \<Rightarrow> (SC_MAX_TIME, []) | (d, m) # q \<Rightarrow> (CurrentTime s + d, (d, m) # q))"
proof -
  let ?en = "sc_host env" and ?tbl = "RtsTblAddr s ! i" and ?r = "RtsInfoTblAddr s ! i"
  let ?p = "unat (NextCommandPtr ?r)"
  let ?m = "drop (4 * ?p + 4) ?tbl"
  have len: "length (RtsInfoTblAddr s) = SC_NUMBER_OF_RTS" "length (RtsTblAddr s) = SC_NUMBER_OF_RTS"
    and image: "rts_image_ok ?tbl" and fits: "rts_fits ?tbl ?p"
    using inv i ex by (auto simp: rts_inv_def rts_entry_ok_def rts_executing_def)
  have idx: "unat (RtsNumber s) = i + 1" using i unfolding num unat_of_nat by simp
  have idx1: "unat (RtsNumber s - 1) = i" unfolding num using i by (simp add: unat_of_nat)
  have pos: "0 < RtsNumber s" using idx by (simp add: word_less_nat_alt)
  have msg: "rts_msg ?tbl ?p = Some ?m" using fits by (simp add: rts_msg_def rts_fits_def)
  define off where "off = NextCommandPtr ?r + of_nat (rts_words (CFE_MSG_GetSize ?m))"
  have lim: "4 * ?p + 4 + CFE_MSG_GetSize ?m \<le> 300" using fits image by (simp add: rts_fits_def rts_image_ok_def)
  then have words: "?p + rts_words (CFE_MSG_GetSize ?m) \<le> 76"
    using rts_words_bound(1) [of "CFE_MSG_GetSize ?m"] by linarith
  have off: "unat off = rts_after ?tbl ?p"
    using words by (simp add: off_def rts_after_def unat_word_ariths unat_of_nat)
  let ?m2 = "drop (4 * rts_after ?tbl ?p + 4) ?tbl"
  have read: "rts_msg ?tbl (unat off) = Some ?m2" "rts_time ?en ?tbl (unat off) = Some (rd32 ?en ?tbl (4 * rts_after ?tbl ?p))"
    if "unat off \<le> 72" using that image off by (simp_all add: rts_msg_def rts_time_def rts_image_ok_def)
  have st: "RtsStatus ?r = SC_EXECUTING" "i \<le> 63" using ex i by (simp_all add: rts_executing_def)
  note eq = SC_GetNextRtsCommand_def Let_def pos idx idx1 i len msg off_def [symmetric] st
  show ?thesis
  proof (cases "rts_entry_legal ?tbl (rts_after ?tbl ?p)")
    case True
    let ?f = "\<lambda>r. r\<lparr>NextCommandTime := SC_ComputeAbsTime (rd32 ?en ?tbl (4 * rts_after ?tbl ?p)) s, NextCommandPtr := off\<rparr>"
    have "SC_GetNextRtsCommand env s = Some (upd_rts i ?f s)"
      using True read off by (simp add: eq rts_entry_legal_def)
    moreover have "rts_only i s (upd_rts i ?f s)" by (simp add: rts_only_def upd_rts_def nth_upd_at_other)
    ultimately show ?thesis
      using True i len ex off rts_script.simps [of ?en ?tbl "rts_after ?tbl ?p"]
      by (simp add: rts_plan_def rts_executing_def upd_rts_def SC_ComputeAbsTime_add)
  next
    case False
    then have "SC_GetNextRtsCommand env s = Some (rts_completed i s) \<or>
        (\<exists>e a. SC_GetNextRtsCommand env s = Some (rts_cmd_error i off e a s))"
      using read off by (auto simp: eq rts_entry_legal_def not_le)
    then obtain s' where "SC_GetNextRtsCommand env s = Some s'" "\<not> rts_executing s' i" "rts_only i s s'"
      using rts_ended [OF i len(1)] by blast
    moreover have "rts_script ?en ?tbl (rts_after ?tbl ?p) = []" using False by (simp add: rts_script_Nil)
    ultimately show ?thesis by (simp add: rts_plan_def)
  qed
qed

section \<open>A relative sequence that runs alone\<close>

text \<open>
  No absolute sequence runs, no other relative sequence runs, and the next command of sequence \<open>i\<close>,
  if it runs, is one of its script.
\<close>

definition rts_solo :: "endian \<Rightarrow> nat \<Rightarrow> sc_state \<Rightarrow> bool" where
  "rts_solo en i s \<longleftrightarrow> rts_inv s \<and> i < SC_NUMBER_OF_RTS \<and> AtpState s = SC_IDLE \<and> NextAtpTime s = SC_MAX_TIME \<and>
     SwitchPendFlag s = 0 \<and> (\<forall>j<SC_NUMBER_OF_RTS. j \<noteq> i \<longrightarrow> \<not> rts_executing s j) \<and>
     (rts_executing s i \<longrightarrow> snd (rts_plan en i s) \<noteq> [])"

text \<open>The choice made for the relative time processor is not out of date.\<close>

definition rts_chosen :: "nat \<Rightarrow> sc_state \<Rightarrow> bool" where
  "rts_chosen i s \<longleftrightarrow> NextProcNumber s = SC_RTP \<and> RtsNumber s = of_nat (i + 1) \<and>
     (rts_executing s i \<longrightarrow> NextRtpTime s = NextCommandTime (RtsInfoTblAddr s ! i))"

lemma rts_solo_cong:
  assumes "rts_part s' = rts_part s" "AtpState s' = AtpState s" "NextAtpTime s' = NextAtpTime s" "SwitchPendFlag s' = SwitchPendFlag s"
  shows "rts_solo en i s' = rts_solo en i s" "rts_plan en i s' = rts_plan en i s"
  using assms rts_inv_part [of s' s] by (simp_all add: rts_solo_def rts_plan_def rts_executing_def rts_part_def)

lemma header_take:
  assumes "8 \<le> n"
  shows "CFE_MSG_GetSize (take n m) = CFE_MSG_GetSize m" "CFE_MSG_GetMsgId (take n m) = CFE_MSG_GetMsgId m"
proof -
  have "k < 8 \<Longrightarrow> byte_at (take n m) k = byte_at m k" for k using assms by (simp add: byte_at_def)
  then show "CFE_MSG_GetSize (take n m) = CFE_MSG_GetSize m" "CFE_MSG_GetMsgId (take n m) = CFE_MSG_GetMsgId m"
    by (simp_all add: CFE_MSG_GetSize_def CFE_MSG_GetMsgId_def)
qed

lemma rts_entry_cmd_valid:
  "rts_entry_legal tbl off \<Longrightarrow> sb_msg_check (rts_entry_cmd tbl off) = sb_msg_check (drop (4 * off + 4) tbl)"
  by (simp add: sb_msg_check_def rts_entry_cmd_def rts_entry_legal_def Let_def header_take)

lemma sc_transmit_routed:
  assumes "Route env = (\<lambda>_ _. 0)" "CFE_MSG_GetSize m \<le> length m"
  shows "sc_transmit env m s = Some (sb_msg_check m,
    if sb_msg_check m = 0 then s\<lparr>sc_tx := sc_tx s @ [take (CFE_MSG_GetSize m) m]\<rparr> else s)"
  using assms by (auto simp: sc_transmit_def sb_send_ok) (auto simp: sb_send_def Let_def)

text \<open>One step of the processor on the plan.\<close>

definition rts_step :: "u32 \<Rightarrow> (u32 \<times> bytes) list \<Rightarrow> bytes list \<times> (u32 \<times> (u32 \<times> bytes) list)" where
  "rts_step now q = (case q of [] \<Rightarrow> ([], (SC_MAX_TIME, []))
     | (d, m) # q' \<Rightarrow> if sb_msg_check m \<noteq> 0 then ([], (SC_MAX_TIME, []))
         else ([m], case q' of [] \<Rightarrow> (SC_MAX_TIME, []) | (d', _) # _ \<Rightarrow> (now + d', q')))"

lemma rtp_solo_step:
  assumes solo: "rts_solo (sc_host env) i s" and rtp: "NextProcNumber s = SC_RTP" and num: "RtsNumber s = of_nat (i + 1)"
    and t: "NextRtpTime s \<le> CurrentTime s" and route: "Route env = (\<lambda>_ _. 0)" and ex: "rts_executing s i"
  shows "\<exists>s'. SC_ProcessRtpCommand env s = Some s' \<and> rts_solo (sc_host env) i s' \<and>
    NumCmdsSec s' = NumCmdsSec s + 1 \<and> CurrentTime s' = CurrentTime s \<and>
    sc_tx s' = sc_tx s @ fst (rts_step (CurrentTime s) (snd (rts_plan (sc_host env) i s))) \<and>
    rts_plan (sc_host env) i s' = snd (rts_step (CurrentTime s) (snd (rts_plan (sc_host env) i s)))"
proof -
  let ?en = "sc_host env" and ?tbl = "RtsTblAddr s ! i" and ?r = "RtsInfoTblAddr s ! i"
  let ?p = "unat (NextCommandPtr ?r)"
  let ?m = "drop (4 * ?p + 4) ?tbl"
  have inv: "rts_inv s" and i: "i < SC_NUMBER_OF_RTS" using solo by (simp_all add: rts_solo_def)
  have len: "length (RtsInfoTblAddr s) = SC_NUMBER_OF_RTS" "length (RtsTblAddr s) = SC_NUMBER_OF_RTS"
    and fits: "rts_fits ?tbl ?p"
    using inv i ex by (auto simp: rts_inv_def rts_entry_ok_def rts_executing_def)
  have idx: "unat (RtsNumber s) = i + 1" using i unfolding num unat_of_nat by simp
  have idx1: "unat (RtsNumber s - 1) = i" unfolding num using i by (simp add: unat_of_nat)
  have pos: "0 < RtsNumber s" using idx by (simp add: word_less_nat_alt)
  have msg: "rts_msg ?tbl ?p = Some ?m" "CFE_MSG_GetSize ?m \<le> length ?m" using fits by (auto simp: rts_msg_def rts_fits_def)
  obtain chk where chk: "CFE_MSG_ValidateChecksum ?m = Some chk" using ValidateChecksum_total [OF msg(2)] by blast
  have legal: "rts_entry_legal ?tbl ?p" using solo ex by (simp add: rts_solo_def rts_plan_def rts_script_Nil)
  define q where "q = rts_script ?en ?tbl (rts_after ?tbl ?p)"
  have plan: "snd (rts_plan ?en i s) = (rd32 ?en ?tbl (4 * ?p), rts_entry_cmd ?tbl ?p) # q"
    using ex legal by (simp add: rts_plan_def q_def rts_script.simps [of ?en ?tbl ?p])
  let ?v = "sb_msg_check (rts_entry_cmd ?tbl ?p)"
  note v = rts_entry_cmd_valid [OF legal]
  let ?s = "s\<lparr>NumCmdsSec := NumCmdsSec s + 1\<rparr>"
  note tx = sc_transmit_routed [OF route msg(2), of ?s, folded v]
  have st: "RtsStatus ?r = SC_EXECUTING" "i \<le> 63" using ex i by (simp_all add: rts_executing_def)
  note eq = SC_ProcessRtpCommand_def NextCmdTime_def rtp t pos idx idx1 len i msg(1) chk tx st Let_def
  have solo': "rts_solo ?en i s'" if "rts_inv s'" "ats_part s' = ats_part s" "rts_only i s s'"
    "rts_executing s' i \<longrightarrow> snd (rts_plan ?en i s') \<noteq> []" for s'
    using solo that by (auto simp: rts_solo_def ats_part_def rts_only_def rts_executing_def)
  show ?thesis
  proof (cases "?v = 0")
    case True
    let ?s1 = "?s\<lparr>sc_tx := sc_tx s @ [rts_entry_cmd ?tbl ?p], RtsCmdCtr := RtsCmdCtr s + 1\<rparr>"
    let ?s2 = "upd_rts i (\<lambda>r. r\<lparr>ri_CmdCtr := ri_CmdCtr r + 1\<rparr>) ?s1"
    have keep: "rts_keep ?s1 ?s2" using i inv by (intro upd_rts_ctr_keep) (auto simp: rts_inv_def)
    have inv2: "rts_inv ?s2" using rts_keep_inv [OF keep] inv by (simp add: rts_inv_def)
    have ex2: "rts_executing ?s2 i" "RtsNumber ?s2 = of_nat (i + 1)" using ex i len num by (simp_all add: rts_executing_def upd_rts_def)
    have same: "RtsTblAddr ?s2 ! i = ?tbl" "NextCommandPtr (RtsInfoTblAddr ?s2 ! i) = NextCommandPtr ?r" "CurrentTime ?s2 = CurrentTime s"
      using i len by (simp_all add: upd_rts_def)
    obtain s' where s': "SC_GetNextRtsCommand env ?s2 = Some s'" "rts_only i ?s2 s'"
      and more: "rts_executing s' i \<longrightarrow> snd (rts_plan ?en i s') \<noteq> []" and plan':
      "rts_plan ?en i s' = (case q of [] \<Rightarrow> (SC_MAX_TIME, []) | (d, m) # q \<Rightarrow> (CurrentTime s + d, (d, m) # q))"
      using SC_GetNextRtsCommand_script [OF inv2 i ex2(2,1), of env] unfolding same q_def by blast
    then have keep': "rts_keep ?s2 s'" using SC_GetNextRtsCommand_keep [OF inv2, of env] by auto
    have only: "rts_only i s s'"
    proof -
      have "rts_only i s ?s2" by (simp add: rts_only_def upd_rts_def nth_upd_at_other)
      then show ?thesis using s'(2) by (rule rts_only_trans)
    qed
    have parts: "ats_part s' = ats_part s" "clock_part s' = clock_part ?s" "sc_tx s' = sc_tx s @ [rts_entry_cmd ?tbl ?p]"
      using keep' by (simp_all add: rts_keep_def ats_part_def clock_part_def upd_rts_def)
    have "rts_solo ?en i s'" using more solo' rts_keep_inv [OF keep' inv2] parts(1) only by blast
    moreover have "SC_ProcessRtpCommand env s = Some s'"
      using True s'(1) by (simp add: eq rts_entry_cmd_def)
    ultimately show ?thesis
      using parts plan' True plan by (auto simp: clock_part_def rts_step_def split: list.splits)
  next
    case False
    let ?s1 = "(sc_evs 49 CFE_EVS_EventType_ERROR [uint (RtsNumber s), ?v] ?s)\<lparr>RtsCmdErrCtr := RtsCmdErrCtr s + 1\<rparr>"
    let ?s2 = "upd_rts i (\<lambda>r. r\<lparr>ri_CmdErrCtr := ri_CmdErrCtr r + 1\<rparr>) ?s1"
    let ?s3 = "?s2\<lparr>LastRtsErrSeq := RtsNumber s, LastRtsErrCmd := NextCommandPtr ?r\<rparr>"
    have "rts_keep ?s1 ?s2" using i inv by (intro upd_rts_ctr_keep) (auto simp: rts_inv_def sc_evs_def)
    then have keep: "rts_keep ?s (SC_KillRts i ?s3)"
      by (intro rts_keep_trans [OF _ SC_KillRts_keep]) (auto simp: rts_keep_def ats_part_def clock_part_def rts_inv_def rts_count_def upd_rts_def sc_evs_def)
    have len3: "length (RtsInfoTblAddr ?s3) = SC_NUMBER_OF_RTS" using len by (simp add: upd_rts_def)
    note kill = SC_KillRts_at [OF i len3]
    have only: "rts_only i s (SC_KillRts i ?s3)"
      using rts_only_kill [OF i len3] by (simp add: rts_only_def upd_rts_def nth_upd_at_other)
    have "rts_solo ?en i (SC_KillRts i ?s3)"
      using keep inv kill(1) only by (intro solo') (auto simp: rts_keep_def rts_inv_def ats_part_def)
    moreover have "SC_ProcessRtpCommand env s = Some (SC_KillRts i ?s3)"
      using False by (simp add: eq sc_evs_def upd_rts_def)
    ultimately show ?thesis
      using keep plan kill(1) False by (auto simp: rts_keep_def clock_part_def rts_step_def rts_plan_def)
  qed
qed

text \<open>
  A wakeup on the plan: at most \<open>n\<close> commands, as long as the next is due; the delay of each runs from
  the time of the wakeup.
\<close>

fun rts_wake :: "nat \<Rightarrow> u32 \<Rightarrow> u32 \<times> (u32 \<times> bytes) list \<Rightarrow> bytes list \<times> (u32 \<times> (u32 \<times> bytes) list)" where
  "rts_wake 0 now p = ([], p)"
| "rts_wake (Suc n) now p =
     (if snd p \<noteq> [] \<and> fst p \<le> now
      then (let (ms, p') = rts_step now (snd p); (ms', p'') = rts_wake n now p' in (ms @ ms', p''))
      else ([], p))"

definition rts_fresh :: "nat \<Rightarrow> sc_state \<Rightarrow> bool" where
  "rts_fresh i s \<longleftrightarrow> NextProcNumber s = SC_NONE \<or> rts_chosen i s"

lemma plan_running: "rts_solo en i s \<Longrightarrow> snd (rts_plan en i s) \<noteq> [] \<longleftrightarrow> rts_executing s i"
  by (auto simp: rts_solo_def rts_plan_def)

lemma hz_rest_solo:
  assumes solo: "rts_solo en i s"
  shows "\<exists>s'. SC_UpdateNextTime s = Some s' \<and> rts_solo en i s' \<and> rts_plan en i s' = rts_plan en i s \<and>
    sc_tx s' = sc_tx s \<and> NumCmdsSec s' = NumCmdsSec s \<and> CurrentTime s' = CurrentTime s \<and>
    (if snd (rts_plan en i s) \<noteq> [] \<and> fst (rts_plan en i s) < SC_MAX_TIME
     then rts_chosen i s' \<and> NextRtpTime s' = fst (rts_plan en i s) else NextProcNumber s' = SC_NONE)"
proof -
  have len: "length (RtsInfoTblAddr s) = SC_NUMBER_OF_RTS" using solo by (simp add: rts_solo_def rts_inv_def)
  have i: "i < SC_NUMBER_OF_RTS" using solo by (simp add: rts_solo_def)
  have other: "rts_executing s j \<Longrightarrow> j < SC_NUMBER_OF_RTS \<Longrightarrow> j = i" for j using solo by (auto simp: rts_solo_def)
  obtain n t where get: "SC_GetNextRtsTime s = Some (s\<lparr>RtsNumber := n, NextRtpTime := t\<rparr>)"
    and spec: "(\<forall>j<SC_NUMBER_OF_RTS. \<not> rts_executing s j) \<and> n = 0 \<and> t = SC_MAX_TIME \<or>
     (\<exists>j. rts_first (RtsInfoTblAddr s) SC_NUMBER_OF_RTS j \<and> n = of_nat (j + 1) \<and> t = rts_time_of (RtsInfoTblAddr s) j)"
    using SC_GetNextRtsTime_spec [OF len] by blast
  have run: "n = of_nat (i + 1) \<and> t = fst (rts_plan en i s) \<and> n > 0" if exi: "rts_executing s i"
  proof -
    obtain j where "rts_first (RtsInfoTblAddr s) SC_NUMBER_OF_RTS j" "n = of_nat (j + 1)" "t = rts_time_of (RtsInfoTblAddr s) j"
      using spec exi i by blast
    moreover then have "j = i" using other [of j] by (simp add: rts_first_def rts_executing_def)
    moreover have "unat (of_nat (i + 1) :: u16) = i + 1" using solo unfolding unat_of_nat by (simp add: rts_solo_def)
    ultimately show ?thesis using exi by (auto simp: rts_plan_def rts_time_of_def word_less_nat_alt)
  qed
  have stop: "n = 0" if "\<not> rts_executing s i"
    using spec that other by (auto simp: rts_first_def rts_executing_def)
  define p where "p = (if n > 0 \<and> t < SC_MAX_TIME then SC_RTP else SC_NONE)"
  let ?s = "s\<lparr>RtsNumber := n, NextRtpTime := t, NextProcNumber := p\<rparr>"
  have "SC_UpdateNextTime s = Some ?s"
    using solo by (simp add: SC_UpdateNextTime_def get p_def Let_def rts_solo_def)
  moreover have "rts_solo en i ?s = rts_solo en i s" "rts_plan en i ?s = rts_plan en i s"
    by (rule rts_solo_cong, simp_all add: rts_part_def)+
  ultimately show ?thesis
    using solo run stop plan_running [OF solo]
    by (cases "rts_executing s i") (auto simp: rts_chosen_def p_def rts_plan_def rts_executing_def)
qed

definition solo_done :: "endian \<Rightarrow> nat \<Rightarrow> nat \<Rightarrow> sc_state \<Rightarrow> sc_state \<Rightarrow> bool" where
  "solo_done en i k s s' \<longleftrightarrow> rts_solo en i s' \<and> rts_fresh i s' \<and> NumCmdsSec s' = 0 \<and> CurrentTime s' = CurrentTime s \<and>
     sc_tx s' = sc_tx s @ fst (rts_wake k (CurrentTime s) (rts_plan en i s)) \<and>
     rts_plan en i s' = snd (rts_wake k (CurrentTime s) (rts_plan en i s))"

text \<open>The end of a round with \<open>k\<close> commands left to count.\<close>

lemma hz_round_solo:
  assumes solo: "rts_solo (sc_host env) i s1" and now: "CurrentTime s1 < SC_MAX_TIME" and k: "NumCmdsSec s1 = of_nat (8 - k)" "k \<le> 8"
    and rnd: "(if NextProcNumber s = SC_ATP then SC_ProcessAtpCmd env s
           else if NextProcNumber s = SC_RTP then SC_ProcessRtpCommand env s else Some s) = Some s1" "SwitchPendFlag s = 0"
  shows "\<exists>b s2. hz_round env s = Some (b, if b then s2 else s2\<lparr>NumCmdsSec := 0\<rparr>) \<and> rts_solo (sc_host env) i s2 \<and>
    rts_plan (sc_host env) i s2 = rts_plan (sc_host env) i s1 \<and> sc_tx s2 = sc_tx s1 \<and> NumCmdsSec s2 = NumCmdsSec s1 \<and>
    CurrentTime s2 = CurrentTime s1 \<and> rts_fresh i s2 \<and> (b \<longrightarrow> rts_chosen i s2) \<and>
    (b \<longleftrightarrow> 0 < k \<and> snd (rts_plan (sc_host env) i s1) \<noteq> [] \<and> fst (rts_plan (sc_host env) i s1) \<le> CurrentTime s1)"
proof -
  let ?p = "rts_plan (sc_host env) i s1"
  obtain s2 where s2: "SC_UpdateNextTime s1 = Some s2" "rts_solo (sc_host env) i s2" "rts_plan (sc_host env) i s2 = ?p"
    "sc_tx s2 = sc_tx s1" "NumCmdsSec s2 = NumCmdsSec s1" "CurrentTime s2 = CurrentTime s1"
    and ch: "if snd ?p \<noteq> [] \<and> fst ?p < SC_MAX_TIME then rts_chosen i s2 \<and> NextRtpTime s2 = fst ?p else NextProcNumber s2 = SC_NONE"
    using hz_rest_solo [OF solo] by blast
  define b where "b = (0 < k \<and> snd ?p \<noteq> [] \<and> fst ?p \<le> CurrentTime s1)"
  have room: "NumCmdsSec s2 \<ge> SC_MAX_CMDS_PER_SEC \<longleftrightarrow> k = 0"
  proof -
    have "unat (NumCmdsSec s2) = (8 - k) mod 2 ^ 16" unfolding s2(5) k(1) unat_of_nat by simp
    then show ?thesis using k(2) by (simp add: word_le_nat_alt) linarith
  qed
  have due: "fst ?p \<le> CurrentTime s1 \<Longrightarrow> fst ?p < SC_MAX_TIME" using now order_le_less_trans by blast
  have eq: "hz_round env s = (if NextProcNumber s2 = SC_NONE then Some (False, s2\<lparr>NumCmdsSec := 0\<rparr>)
     else Option.bind (NextCmdTime (NextProcNumber s2) s2) (\<lambda>time.
       Some (if time > CurrentTime s2 then (False, s2\<lparr>NumCmdsSec := 0\<rparr>)
             else if NumCmdsSec s2 \<ge> SC_MAX_CMDS_PER_SEC then (False, s2\<lparr>NumCmdsSec := 0\<rparr>) else (True, s2))))"
    unfolding hz_round_def rnd(2) by (simp add: rnd(1) s2(1))
  have "hz_round env s = Some (b, if b then s2 else s2\<lparr>NumCmdsSec := 0\<rparr>) \<and> rts_fresh i s2 \<and> (b \<longrightarrow> rts_chosen i s2)"
  proof (cases "snd ?p \<noteq> [] \<and> fst ?p < SC_MAX_TIME")
    case True
    then have c: "rts_chosen i s2" "NextRtpTime s2 = fst ?p" using ch by simp_all
    then have "NextProcNumber s2 = SC_RTP" by (simp add: rts_chosen_def)
    then show ?thesis using c True room s2(6) by (simp add: eq NextCmdTime_def b_def rts_fresh_def not_less)
  next
    case False
    then have "NextProcNumber s2 = SC_NONE" using ch by argo
    moreover have "\<not> b" using False due by (auto simp: b_def)
    ultimately show ?thesis by (simp add: eq rts_fresh_def)
  qed
  then show ?thesis using s2 b_def by blast
qed

lemma rts_plan_num [simp]: "rts_plan en i (s\<lparr>NumCmdsSec := n\<rparr>) = rts_plan en i s" "rts_solo en i (s\<lparr>NumCmdsSec := n\<rparr>) = rts_solo en i s"
  by (rule rts_solo_cong, simp_all add: rts_part_def)+

lemma solo_done_stop:
  assumes "rts_solo en i s2" "rts_fresh i s2" "rts_plan en i s2 = rts_plan en i s" "sc_tx s2 = sc_tx s" "CurrentTime s2 = CurrentTime s"
    and "\<not> (0 < k \<and> snd (rts_plan en i s) \<noteq> [] \<and> fst (rts_plan en i s) \<le> CurrentTime s)"
  shows "solo_done en i k s (s2\<lparr>NumCmdsSec := 0\<rparr>)"
  using assms by (cases k) (auto simp: solo_done_def rts_fresh_def rts_chosen_def rts_executing_def)

lemma hz_loop_solo_due:
  assumes "rts_solo (sc_host env) i s" "rts_chosen i s" "Route env = (\<lambda>_ _. 0)" "CurrentTime s < SC_MAX_TIME"
    "NumCmdsSec s = of_nat (8 - k)" "0 < k" "k \<le> 8"
    "snd (rts_plan (sc_host env) i s) \<noteq> []" "fst (rts_plan (sc_host env) i s) \<le> CurrentTime s"
  shows "\<exists>s'. hz_loop env s = Some s' \<and> solo_done (sc_host env) i k s s'"
  using assms
proof (induction k arbitrary: s)
  case 0
  then show ?case by simp
next
  case (Suc k)
  let ?en = "sc_host env"
  have ex: "rts_executing s i" using plan_running [OF Suc.prems(1)] Suc.prems(8) by simp
  have due: "NextCommandTime (RtsInfoTblAddr s ! i) \<le> CurrentTime s" using Suc.prems(9) ex by (simp add: rts_plan_def)
  obtain s1 where s1: "SC_ProcessRtpCommand env s = Some s1" "rts_solo ?en i s1" "NumCmdsSec s1 = NumCmdsSec s + 1"
    "CurrentTime s1 = CurrentTime s" "sc_tx s1 = sc_tx s @ fst (rts_step (CurrentTime s) (snd (rts_plan ?en i s)))"
    "rts_plan ?en i s1 = snd (rts_step (CurrentTime s) (snd (rts_plan ?en i s)))"
    using rtp_solo_step [OF Suc.prems(1) _ _ _ Suc.prems(3) ex] Suc.prems(2) due ex by (auto simp: rts_chosen_def)
  have num: "NumCmdsSec s1 = of_nat (8 - k)"
    using s1(3) Suc.prems(5,7) by (simp add: Suc_diff_le of_nat_diff)
  have proc: "(if NextProcNumber s = SC_ATP then SC_ProcessAtpCmd env s
           else if NextProcNumber s = SC_RTP then SC_ProcessRtpCommand env s else Some s) = Some s1" "SwitchPendFlag s = 0"
    using Suc.prems(1,2) s1(1) by (simp_all add: rts_chosen_def rts_solo_def)
  obtain b s2 where r: "hz_round env s = Some (b, if b then s2 else s2\<lparr>NumCmdsSec := 0\<rparr>)" "rts_solo ?en i s2"
    "rts_plan ?en i s2 = rts_plan ?en i s1" "sc_tx s2 = sc_tx s1" "NumCmdsSec s2 = NumCmdsSec s1"
    "CurrentTime s2 = CurrentTime s1" "rts_fresh i s2" "b \<longrightarrow> rts_chosen i s2"
    and b: "b \<longleftrightarrow> 0 < k \<and> snd (rts_plan ?en i s1) \<noteq> [] \<and> fst (rts_plan ?en i s1) \<le> CurrentTime s1"
    using hz_round_solo [OF s1(2) _ num _ proc] Suc.prems(4,7) s1(4) by auto
  have "\<exists>s'. hz_loop env s = Some s' \<and> solo_done ?en i k s1 s'"
  proof (cases b)
    case False
    then show ?thesis
      using hz_loop_unfold [OF r(1)] solo_done_stop [OF r(2,7,3,4,6)] b by auto
  next
    case True
    have "\<exists>s'. hz_loop env s2 = Some s' \<and> solo_done ?en i k s2 s'"
      using Suc.IH [OF r(2)] r(3-8) b True Suc.prems(3,4,7) s1(4) num by simp
    then show ?thesis using hz_loop_unfold [OF r(1)] True r(3,4,6) by (auto simp: solo_done_def)
  qed
  then show ?case
    using s1(4-6) Suc.prems(8,9) by (auto simp: solo_done_def Let_def split: prod.splits)
qed

lemma hz_loop_solo:
  assumes solo: "rts_solo (sc_host env) i s" and fresh: "rts_fresh i s" and route: "Route env = (\<lambda>_ _. 0)"
    and now: "CurrentTime s < SC_MAX_TIME" and num: "NumCmdsSec s = 0"
  shows "\<exists>s'. hz_loop env s = Some s' \<and> solo_done (sc_host env) i 8 s s'"
proof (cases "rts_chosen i s \<and> snd (rts_plan (sc_host env) i s) \<noteq> [] \<and> fst (rts_plan (sc_host env) i s) \<le> CurrentTime s")
  case True
  then show ?thesis using hz_loop_solo_due [of env i s 8] assms by simp
next
  case False
  have proc: "(if NextProcNumber s = SC_ATP then SC_ProcessAtpCmd env s
           else if NextProcNumber s = SC_RTP then SC_ProcessRtpCommand env s else Some s) = Some s"
  proof (cases "NextProcNumber s = SC_RTP")
    case True
    then have ch: "rts_chosen i s" using fresh by (auto simp: rts_fresh_def)
    have i: "i < SC_NUMBER_OF_RTS" "length (RtsInfoTblAddr s) = SC_NUMBER_OF_RTS" using solo by (simp_all add: rts_solo_def rts_inv_def)
    have "unat (RtsNumber s - 1) = i" using ch i by (simp add: rts_chosen_def unat_of_nat)
    moreover have "\<not> (NextRtpTime s \<le> CurrentTime s \<and> rts_executing s i)"
      using False ch plan_running [OF solo] by (auto simp: rts_chosen_def rts_plan_def)
    ultimately show ?thesis using True i by (auto simp: SC_ProcessRtpCommand_def NextCmdTime_def Let_def rts_executing_def)
  next
    case False
    then show ?thesis using fresh by (auto simp: rts_fresh_def rts_chosen_def)
  qed
  have num8: "NumCmdsSec s = of_nat (8 - 8)" and sw: "SwitchPendFlag s = 0" using num solo by (simp_all add: rts_solo_def)
  obtain b s2 where r: "hz_round env s = Some (b, if b then s2 else s2\<lparr>NumCmdsSec := 0\<rparr>)" "rts_solo (sc_host env) i s2"
    "rts_plan (sc_host env) i s2 = rts_plan (sc_host env) i s" "sc_tx s2 = sc_tx s" "NumCmdsSec s2 = NumCmdsSec s"
    "CurrentTime s2 = CurrentTime s" "rts_fresh i s2" "b \<longrightarrow> rts_chosen i s2"
    and b: "b \<longleftrightarrow> 0 < (8::nat) \<and> snd (rts_plan (sc_host env) i s) \<noteq> [] \<and> fst (rts_plan (sc_host env) i s) \<le> CurrentTime s"
    using hz_round_solo [OF solo now num8 order_refl proc sw] by blast
  show ?thesis
  proof (cases b)
    case False
    then show ?thesis using hz_loop_unfold [OF r(1)] solo_done_stop [OF r(2,7,3,4,6)] b by auto
  next
    case True
    then have "\<exists>s'. hz_loop env s2 = Some s' \<and> solo_done (sc_host env) i 8 s2 s'"
      using hz_loop_solo_due [of env i s2 8] r b route now num by simp
    then show ?thesis using hz_loop_unfold [OF r(1)] True r(3,4,6) by (auto simp: solo_done_def)
  qed
qed

section \<open>Sequences of wakeups\<close>

fun rts_wakes :: "u32 list \<Rightarrow> u32 \<times> (u32 \<times> bytes) list \<Rightarrow> bytes list \<times> (u32 \<times> (u32 \<times> bytes) list)" where
  "rts_wakes [] p = ([], p)"
| "rts_wakes (now # ts) p =
     (let (ms, p') = rts_wake 8 now p; (ms', p'') = rts_wakes ts p' in (ms @ ms', p''))"

definition sc_wakeup :: "endian \<Rightarrow> sc_env \<times> bytes \<Rightarrow> bool" where
  "sc_wakeup en = (\<lambda>(env, m). sc_host env = en \<and> CFE_MSG_GetMsgId m = SC_1HZ_WAKEUP_MID \<and>
     sc_now env < SC_MAX_TIME \<and> Route env = (\<lambda>_ _. 0))"

definition solo_ready :: "endian \<Rightarrow> nat \<Rightarrow> sc_state \<Rightarrow> bool" where
  "solo_ready en i s \<longleftrightarrow> rts_solo en i s \<and> rts_fresh i s \<and> NumCmdsSec s = 0"

lemma solo_time [simp]:
  "rts_solo en i (SC_GetCurrentTime env s) = rts_solo en i s" "rts_plan en i (SC_GetCurrentTime env s) = rts_plan en i s"
  "rts_fresh i (SC_GetCurrentTime env s) = rts_fresh i s" "NumCmdsSec (SC_GetCurrentTime env s) = NumCmdsSec s"
  "CurrentTime (SC_GetCurrentTime env s) = sc_now env" "sc_tx (SC_GetCurrentTime env s) = sc_tx s"
  by (rule rts_solo_cong | simp add: SC_GetCurrentTime_def rts_part_def rts_fresh_def rts_chosen_def rts_executing_def)+

lemma wakeup_solo:
  assumes "solo_ready en i s" "sc_wakeup en (env, m)"
  shows "\<exists>s'. sc_handle s (env, m) = Some s' \<and> solo_ready en i s' \<and>
    sc_tx s' = sc_tx s @ fst (rts_wake 8 (sc_now env) (rts_plan en i s)) \<and>
    rts_plan en i s' = snd (rts_wake 8 (sc_now env) (rts_plan en i s))"
proof -
  have en: "sc_host env = en" using assms(2) by (simp add: sc_wakeup_def)
  obtain s' where "hz_loop env (SC_GetCurrentTime env s) = Some s'" "solo_done en i 8 (SC_GetCurrentTime env s) s'"
    using hz_loop_solo [of env i "SC_GetCurrentTime env s"] assms en by (auto simp: solo_ready_def sc_wakeup_def)
  then show ?thesis
    using assms(2) by (auto simp: sc_handle_def SC_ProcessRequest_def Let_def sc_wakeup_def solo_done_def solo_ready_def)
qed

lemma wakeups_solo:
  assumes "solo_ready en i s" "list_all (sc_wakeup en) is"
  shows "\<exists>s'. run_handler sc_handle s is = Some s' \<and> solo_ready en i s' \<and>
    sc_tx s' = sc_tx s @ fst (rts_wakes (map (\<lambda>j. sc_now (fst j)) is) (rts_plan en i s)) \<and>
    rts_plan en i s' = snd (rts_wakes (map (\<lambda>j. sc_now (fst j)) is) (rts_plan en i s))"
  using assms
proof (induction "is" arbitrary: s)
  case Nil
  then show ?case by simp
next
  case (Cons j "is")
  obtain env m where j: "j = (env, m)" by (cases j) auto
  obtain s1 where s1: "sc_handle s j = Some s1" "solo_ready en i s1"
    "sc_tx s1 = sc_tx s @ fst (rts_wake 8 (sc_now env) (rts_plan en i s))"
    "rts_plan en i s1 = snd (rts_wake 8 (sc_now env) (rts_plan en i s))"
    using wakeup_solo [OF Cons.prems(1), of env m] Cons.prems(2) j by auto
  obtain s' where "run_handler sc_handle s1 is = Some s'" "solo_ready en i s'"
    "sc_tx s' = sc_tx s1 @ fst (rts_wakes (map (\<lambda>j. sc_now (fst j)) is) (rts_plan en i s1))"
    "rts_plan en i s' = snd (rts_wakes (map (\<lambda>j. sc_now (fst j)) is) (rts_plan en i s1))"
    using Cons.IH [OF s1(2)] Cons.prems(2) by auto
  then show ?case using s1 j by (auto simp: Let_def split: prod.splits)
qed

text \<open>What was sent and what is left of a script of valid commands is the script.\<close>

definition cmds_valid :: "(u32 \<times> bytes) list \<Rightarrow> bool" where
  "cmds_valid q \<longleftrightarrow> list_all (\<lambda>x. sb_msg_check (snd x) = 0) q"

lemma rts_step_keeps:
  "cmds_valid q \<Longrightarrow> fst (rts_step now q) @ map snd (snd (snd (rts_step now q))) = map snd q \<and>
     cmds_valid (snd (snd (rts_step now q)))"
  by (auto simp: rts_step_def cmds_valid_def split: list.splits)

lemma rts_wake_keeps:
  "cmds_valid (snd p) \<Longrightarrow> fst (rts_wake n now p) @ map snd (snd (snd (rts_wake n now p))) = map snd (snd p) \<and>
     cmds_valid (snd (snd (rts_wake n now p)))"
proof (induction n arbitrary: p)
  case (Suc n)
  then show ?case
    using rts_step_keeps [of "snd p" now] Suc.IH [of "snd (rts_step now (snd p))"]
    by (simp add: Let_def case_prod_beta)
qed simp

lemma rts_wakes_keeps:
  "cmds_valid (snd p) \<Longrightarrow> fst (rts_wakes ts p) @ map snd (snd (snd (rts_wakes ts p))) = map snd (snd p)"
proof (induction ts arbitrary: p)
  case (Cons now ts)
  then show ?case
    using rts_wake_keeps [of p 8 now] Cons.IH [of "snd (rts_wake 8 now p)"]
    by (simp add: Let_def case_prod_beta)
qed simp

section \<open>Starting a sequence\<close>

text \<open>What a start command needs.\<close>

definition startable :: "nat \<Rightarrow> sc_state \<Rightarrow> bool" where
  "startable i s \<longleftrightarrow> i < SC_NUMBER_OF_RTS \<and> \<not> DisabledFlag (RtsInfoTblAddr s ! i) \<and>
     RtsStatus (RtsInfoTblAddr s ! i) = SC_LOADED \<and>
     (let n = CFE_MSG_GetSize (drop SC_RTS_HEADER_SIZE (RtsTblAddr s ! i))
      in SC_PACKET_MIN_SIZE \<le> n \<and> n \<le> SC_PACKET_MAX_SIZE)"

definition start_target :: "sc_env \<Rightarrow> bytes \<Rightarrow> nat" where
  "start_target env m = unat (rd16 (sc_host env) m 8 - 1)"

lemma start_target_lt:
  "start_target env m < SC_NUMBER_OF_RTS \<longleftrightarrow> rd16 (sc_host env) m 8 > 0 \<and> unat (rd16 (sc_host env) m 8) \<le> SC_NUMBER_OF_RTS"
proof (cases "rd16 (sc_host env) m 8 = 0")
  case True
  then show ?thesis by (simp add: start_target_def unsigned_minus_1_eq_mask mask_eq_exp_minus_1)
next
  case False
  then have "0 < rd16 (sc_host env) m 8" by (simp add: word_neq_0_conv)
  then show ?thesis by (auto simp: start_target_def unat_sub word_le_nat_alt word_less_nat_alt)
qed

lemma startable_legal:
  assumes "rts_inv s" "startable i s"
  shows "rts_entry_legal (RtsTblAddr s ! i) 0"
proof -
  have "rts_image_ok (RtsTblAddr s ! i)" using assms by (auto simp: rts_inv_def startable_def rts_entry_ok_def)
  then show ?thesis
    using assms(2) rts_words_bound(1) [of "CFE_MSG_GetSize (drop 4 (RtsTblAddr s ! i))"]
    by (simp add: rts_entry_legal_def startable_def Let_def rts_words_def)
qed

lemma start_accepted:
  assumes inv: "rts_inv s" and len: "CFE_MSG_GetSize m = 12" and ok: "startable (start_target env m) s"
  shows "\<exists>s'. SC_StartRtsCmd env m s = Some s' \<and> rts_keep s s' \<and> rts_only (start_target env m) s s' \<and>
    rts_plan (sc_host env) (start_target env m) s' =
      (CurrentTime s + rd32 (sc_host env) (RtsTblAddr s ! start_target env m) 0,
       rts_script (sc_host env) (RtsTblAddr s ! start_target env m) 0) \<and>
    rts_executing s' (start_target env m) \<and> NumRtsActive s' = NumRtsActive s + 1 \<and> CmdCtr s' = CmdCtr s + 1 \<and>
    CmdErrCtr s' = CmdErrCtr s \<and> RtsActiveCtr s' = RtsActiveCtr s + 1"
proof -
  let ?i = "start_target env m" and ?id = "rd16 (sc_host env) m 8"
  let ?tbl = "RtsTblAddr s ! ?i"
  have i: "?i < SC_NUMBER_OF_RTS" using ok by (simp add: startable_def)
  then have id: "?id > 0" "unat ?id \<le> SC_NUMBER_OF_RTS" by (simp_all add: start_target_lt)
  have lens: "length (RtsInfoTblAddr s) = SC_NUMBER_OF_RTS" "length (RtsTblAddr s) = SC_NUMBER_OF_RTS"
    and image: "rts_image_ok ?tbl"
    using inv ok i by (auto simp: rts_inv_def startable_def rts_entry_ok_def)
  let ?f = "\<lambda>r. r\<lparr>RtsStatus := SC_EXECUTING, ri_CmdCtr := 0, ri_CmdErrCtr := 0, NextCommandPtr := 0,
      UseCtr := UseCtr r + 1, NextCommandTime := SC_ComputeAbsTime (rd32 (sc_host env) ?tbl 0) s\<rparr>"
  let ?s1 = "(upd_rts ?i ?f s)\<lparr>NumRtsActive := NumRtsActive s + 1, RtsActiveCtr := RtsActiveCtr s + 1\<rparr>"
  have bgn: "rts_begin env ?i s = Some ?s1"
    using lens image i by (simp add: rts_begin_def rts_time_def rts_image_ok_def upd_rts_def)
  let ?e = "if ?id \<le> SC_LAST_RTS_WITH_EVENTS then sc_evs 73 CFE_EVS_EventType_INFORMATION [uint ?id] (sc_ok ?s1)
    else sc_evs 72 CFE_EVS_EventType_DEBUG [uint ?id] (sc_ok ?s1)"
  have "SC_StartRtsCmd env m s = Some ?e"
    using len ok i id lens image bgn
    by (simp add: SC_StartRtsCmd_def SC_VerifyCmdLength_def startable_def start_target_def Let_def rts_msg_def rts_image_ok_def)
  moreover have "rts_keep s ?e" using SC_StartRtsCmd_keep [OF inv, of env m] calculation by auto
  moreover have "rts_only ?i s ?e" by (auto simp: rts_only_def upd_rts_def nth_upd_at_other)
  moreover have "RtsInfoTblAddr ?e ! ?i = ?f (RtsInfoTblAddr s ! ?i)" using i lens by (simp add: upd_rts_def)
  ultimately show ?thesis
    by (intro exI [of _ ?e]) (simp add: rts_plan_def rts_executing_def SC_ComputeAbsTime_add rts_only_def sc_evs_def sc_ok_def upd_rts_def)
qed

lemma start_rejected:
  assumes inv: "rts_inv s" and bad: "CFE_MSG_GetSize m \<noteq> 12 \<or> \<not> startable (start_target env m) s"
  shows "\<exists>s'. SC_StartRtsCmd env m s = Some s' \<and> rts_part s' = rts_part s \<and> CmdCtr s' = CmdCtr s \<and>
    RtsActiveCtr s' = RtsActiveCtr s \<and> RtsActiveErrCtr s' = RtsActiveErrCtr s + 1 \<and>
    CmdErrCtr s' = CmdErrCtr s + (if CFE_MSG_GetSize m = 12 \<or> CFE_MSG_GetMsgId m = SC_CMD_MID then 1 else 0)"
proof -
  let ?i = "start_target env m" and ?id = "rd16 (sc_host env) m 8"
  have lens: "length (RtsInfoTblAddr s) = SC_NUMBER_OF_RTS" "length (RtsTblAddr s) = SC_NUMBER_OF_RTS"
    using inv by (simp_all add: rts_inv_def)
  have image: "?i < SC_NUMBER_OF_RTS \<Longrightarrow> RtsStatus (RtsInfoTblAddr s ! ?i) = SC_LOADED \<Longrightarrow> rts_image_ok (RtsTblAddr s ! ?i)"
    using inv by (auto simp: rts_inv_def rts_entry_ok_def)
  show ?thesis
    using bad lens image start_target_lt [of env m]
    by (auto simp: SC_StartRtsCmd_def SC_VerifyCmdLength_def startable_def Let_def rts_msg_def rts_image_ok_def
        start_target_def [symmetric] rts_reject_def sc_evs_def sc_err_def rts_part_def)
qed

section \<open>Housekeeping bits\<close>

lemma length_hk_mask [simp]: "length (hk_mask P rs i ws) = length ws"
  by (induction P rs i ws rule: hk_mask.induct) auto

lemma hk_mask_bit:
  assumes "j < 16 * length ws" "i + length rs \<le> 16 * length ws"
  shows "bit (hk_mask P rs i ws ! (j div 16)) (j mod 16) \<longleftrightarrow>
    bit (ws ! (j div 16)) (j mod 16) \<or> i \<le> j \<and> j < i + length rs \<and> P (rs ! (j - i))"
  using assms
proof (induction P rs i ws rule: hk_mask.induct)
  case (1 P i ws)
  then show ?case by auto
next
  case (2 P r rs i ws)
  let ?ws = "if P r then upd_at (i div 16) (\<lambda>w. w OR push_bit (i mod 16) 1) ws else ws"
  have ih: "bit (hk_mask P rs (Suc i) ?ws ! (j div 16)) (j mod 16) \<longleftrightarrow>
      bit (?ws ! (j div 16)) (j mod 16) \<or> Suc i \<le> j \<and> j < Suc i + length rs \<and> P (rs ! (j - Suc i))"
    using 2 by simp
  have in_range: "i div 16 < length ws" using 2(3) by simp
  have one: "bit (w OR push_bit m 1) n \<longleftrightarrow> bit w n \<or> m = n" if "n < 16" for w :: u16 and m n
    using that by (auto simp: bit_or_iff bit_exp_iff)
  have same: "j div 16 = i div 16 \<and> i mod 16 = j mod 16 \<longleftrightarrow> j = i" by (metis div_mult_mod_eq)
  have "bit (?ws ! (j div 16)) (j mod 16) \<longleftrightarrow> bit (ws ! (j div 16)) (j mod 16) \<or> P r \<and> j div 16 = i div 16 \<and> i mod 16 = j mod 16"
    using one [of "j mod 16"] in_range by simp
  then have bits: "bit (?ws ! (j div 16)) (j mod 16) \<longleftrightarrow> bit (ws ! (j div 16)) (j mod 16) \<or> P r \<and> j = i"
    unfolding same .
  have "(r # rs) ! (j - i) = (if j = i then r else rs ! (j - Suc i))" if "i \<le> j"
    using that by (simp add: nth_Cons')
  note nth = this
  show ?case
  proof (cases "j = i")
    case True
    then show ?thesis unfolding hk_mask.simps(2) ih bits by simp
  next
    case False
    then have "Suc i \<le> j \<longleftrightarrow> i \<le> j" by linarith
    then show ?thesis using False nth unfolding hk_mask.simps(2) ih bits by (cases "i \<le> j") simp_all
  qed
qed

text \<open>The masks of the packet.\<close>

lemma hk_masks:
  assumes "length t = SC_NUMBER_OF_RTS" "i < SC_NUMBER_OF_RTS"
  shows "bit (hk_mask P (take SC_NUMBER_OF_RTS t) 0 (replicate 4 0) ! (i div 16)) (i mod 16) \<longleftrightarrow> P (t ! i)"
proof -
  have "i div 16 < 4" using assms(2) by simp
  then show ?thesis using hk_mask_bit [of i "replicate 4 0" 0 t P] assms by simp
qed

section \<open>A wakeup that does not end\<close>

text \<open>
  The loop goes by the order of the numbers, the absolute time processor by comparison across the
  roll-over: a command whose time is the lesser number and yet later, more than half the range away,
  is due for the one and not for the other.
\<close>

lemma hz_loop_stuck:
  assumes "hz_round env s = Some (True, s)"
  shows "hz_loop env s = None"
proof (rule ccontr)
  assume "hz_loop env s \<noteq> None"
  then obtain r where "hz_loop env s = Some r" by blast
  moreover have "(e, t) \<noteq> (env, s)" if "hz_loop e t = Some r" for e t r
    using _ that
  proof (rule hz_loop.raw_induct)
    fix hz and e :: sc_env and t r :: sc_state
    assume ih: "\<And>e t r. hz e t = Some r \<Longrightarrow> (e, t) \<noteq> (env, s)"
      and body: "Option.bind (hz_round e t) (\<lambda>(b, t). if b then hz e t else Some t) = Some r"
    show "(e, t) \<noteq> (env, s)"
    proof
      assume "(e, t) = (env, s)"
      then have "hz env s = Some r" using body assms by simp
      then show False using ih by blast
    qed
  qed
  ultimately show False by blast
qed

definition atp_waiting :: "sc_state \<Rightarrow> bool" where
  "atp_waiting s \<longleftrightarrow> length (RtsInfoTblAddr s) = SC_NUMBER_OF_RTS \<and> (\<forall>i<SC_NUMBER_OF_RTS. \<not> rts_executing s i) \<and>
     AtpState s = SC_EXECUTING \<and> SwitchPendFlag s \<noteq> 1 \<and> NextProcNumber s = SC_ATP \<and> RtsNumber s = 0 \<and>
     NextRtpTime s = SC_MAX_TIME \<and> NumCmdsSec s < SC_MAX_CMDS_PER_SEC"

lemma atp_waiting_round:
  assumes "atp_waiting s" "NextAtpTime s \<le> CurrentTime s" "SC_CompareAbsTime (NextAtpTime s) (CurrentTime s)"
  shows "hz_round env s = Some (True, s)"
proof -
  have len: "length (RtsInfoTblAddr s) = SC_NUMBER_OF_RTS" and idle: "\<forall>i<SC_NUMBER_OF_RTS. \<not> rts_executing s i"
    using assms(1) by (simp_all add: atp_waiting_def)
  have "SC_GetNextRtsTime s = Some (s\<lparr>RtsNumber := 0, NextRtpTime := SC_MAX_TIME\<rparr>)"
    using SC_GetNextRtsTime_spec [OF len] idle by (auto simp: rts_first_def rts_executing_def)
  moreover have "s\<lparr>RtsNumber := 0, NextRtpTime := SC_MAX_TIME\<rparr> = s" "s\<lparr>NextProcNumber := SC_ATP\<rparr> = s"
    using assms(1) by (simp_all add: atp_waiting_def)
  ultimately have "SC_UpdateNextTime s = Some s"
    using assms(1) by (simp add: SC_UpdateNextTime_def atp_waiting_def)
  moreover have "SC_ProcessAtpCmd env s = Some s" using assms(3) by (simp add: SC_ProcessAtpCmd_def)
  ultimately show ?thesis
    using assms by (simp add: hz_round_def atp_waiting_def NextCmdTime_def not_less not_le)
qed

section \<open>A state to start from\<close>

text \<open>After a start-up that loaded one relative sequence, enabled since: two no-op commands, 5 seconds apart from its start.\<close>

definition demo_cmd :: bytes where
  "demo_cmd = [0x18, 0xA9, 0xC0, 0, 0, 1, 0, 0]"

definition demo_rts :: bytes where
  "demo_rts = [5, 0, 0, 0] @ demo_cmd @ [0, 0, 0, 0] @ demo_cmd @ replicate 276 0"

definition sc_demo :: sc_state where
  "sc_demo = (let s = init_tables (sc_zeroed\<lparr>NumCmdsSec := 0, ContinueAtsOnFailureFlag := 1, NextProcNumber := SC_NONE,
      NextAtpTime := SC_MAX_TIME, NextRtpTime := SC_MAX_TIME, AutoStartRTS := 1\<rparr>)
    in upd_rts 0 (\<lambda>r. r\<lparr>RtsStatus := SC_LOADED, DisabledFlag := False\<rparr>) (s\<lparr>RtsTblAddr := (RtsTblAddr s)[0 := demo_rts]\<rparr>))"

lemma demo_rts_words:
  "length demo_rts = 300" "CFE_MSG_GetSize (drop 4 demo_rts) = 8" "CFE_MSG_GetSize (drop 16 demo_rts) = 8"
  "CFE_MSG_GetSize (drop 28 demo_rts) = 7" "rd32 LittleEndian demo_rts 0 = 5" "rd32 LittleEndian demo_rts 12 = 0"
  "take 8 (drop 4 demo_rts) = demo_cmd" "take 8 (drop 16 demo_rts) = demo_cmd"
  by (simp_all add: demo_rts_def demo_cmd_def CFE_MSG_GetSize_def byte_at_def rd32_def rd16_def join8_def join16_def)

lemma demo_script: "rts_script LittleEndian demo_rts 0 = [(5, demo_cmd), (0, demo_cmd)]"
proof -
  have w: "rts_words 8 = 3" by (simp add: rts_words_def)
  have after: "rts_after demo_rts 0 = 3" "rts_after demo_rts 3 = 6" by (simp_all add: rts_after_def w demo_rts_words)
  have "rts_script LittleEndian demo_rts 6 = []" by (simp add: rts_script_Nil rts_entry_legal_def demo_rts_words)
  then have "rts_script LittleEndian demo_rts 3 = [(0, demo_cmd)]"
    by (simp add: rts_script.simps [of _ _ 3] rts_entry_legal_def demo_rts_words rts_entry_cmd_def after w)
  then show ?thesis
    by (simp add: rts_script.simps [of _ _ 0] rts_entry_legal_def demo_rts_words rts_entry_cmd_def after w)
qed

lemma sc_demo_boot: "boot_ok SC_NUMBER_OF_RTS sc_demo"
proof -
  let ?s = "init_tables (sc_zeroed\<lparr>NumCmdsSec := 0, ContinueAtsOnFailureFlag := 1, NextProcNumber := SC_NONE,
      NextAtpTime := SC_MAX_TIME, NextRtpTime := SC_MAX_TIME, AutoStartRTS := 1\<rparr>)"
  have image: "rts_image_ok demo_rts" by (simp add: rts_image_ok_def rts_fits_def demo_rts_words)
  have rows: "row_part c sc_demo = row_part c ?s" for c by (simp add: sc_demo_def Let_def row_part_def upd_rts_def)
  have "boot_ok 0 ?s" using init_tables_ok [of True] by simp
  then show ?thesis
    using image row_part_cong [OF rows]
    by (simp add: boot_ok_def) (auto simp: sc_demo_def Let_def upd_rts_def nth_list_update)
qed

lemma sc_demo_inv: "sc_count_inv en sc_demo" "sc_inv en sc_demo" "rts_inv sc_demo"
  using boot_ok_inv [OF sc_demo_boot] by (simp_all add: sc_count_inv_def sc_inv_def)

lemma sc_demo_fields:
  "RtsTblAddr sc_demo ! 0 = demo_rts" "\<not> DisabledFlag (RtsInfoTblAddr sc_demo ! 0)" "RtsStatus (RtsInfoTblAddr sc_demo ! 0) = SC_LOADED"
  "NextProcNumber sc_demo = SC_NONE" "AtpState sc_demo = SC_IDLE" "NextAtpTime sc_demo = SC_MAX_TIME" "SwitchPendFlag sc_demo = 0"
  "NumCmdsSec sc_demo = 0" "length (RtsInfoTblAddr sc_demo) = SC_NUMBER_OF_RTS" "CurrentTime sc_demo = 0"
  "RtsNumber sc_demo = 0" "NextRtpTime sc_demo = SC_MAX_TIME"
  by (simp_all add: sc_demo_def sc_zeroed_def init_tables_def Let_def upd_rts_def nth_list_update)

lemma sc_demo_startable: "startable 0 sc_demo"
  by (simp add: startable_def sc_demo_fields demo_rts_words)

lemma sc_demo_ready: "solo_ready en 0 sc_demo"
  using boot_ok_inv(2) [OF sc_demo_boot] sc_demo_inv(3)
  by (auto simp: solo_ready_def rts_solo_def rts_fresh_def sc_demo_fields)

section \<open>A sequence started by command\<close>

definition rts_command :: "endian \<Rightarrow> u16 \<Rightarrow> nat \<Rightarrow> sc_env \<times> bytes \<Rightarrow> bool" where
  "rts_command en cc i = (\<lambda>(env, m). sc_host env = en \<and> sc_command m cc \<and> CFE_MSG_GetSize m = 12 \<and> length m = 12 \<and>
     rd16 en m 8 = of_nat (i + 1))"

lemma rts_command_target: "\<lbrakk> rts_command en cc i (env, m); i < SC_NUMBER_OF_RTS \<rbrakk> \<Longrightarrow> start_target env m = i"
  by (auto simp: rts_command_def start_target_def unat_of_nat)

lemma startable_time [simp]: "startable i (SC_GetCurrentTime env s) = startable i s"
  by (simp add: startable_def SC_GetCurrentTime_def)

lemma rts_solo_step:
  assumes "rts_solo en i s" "rts_inv s'" "ats_part s' = ats_part s" "rts_only i s s'"
    "rts_executing s' i \<longrightarrow> snd (rts_plan en i s') \<noteq> []"
  shows "rts_solo en i s'"
  using assms by (auto simp: rts_solo_def ats_part_def rts_only_def rts_executing_def)

lemma rts_keep_time: "rts_keep (SC_GetCurrentTime env s) s' \<Longrightarrow> rts_inv s \<Longrightarrow>
  rts_inv s' \<and> ats_part s' = ats_part s \<and> NumCmdsSec s' = NumCmdsSec s \<and> NextProcNumber s' = NextProcNumber s \<and>
  RtsNumber s' = RtsNumber s \<and> NextRtpTime s' = NextRtpTime s \<and> CurrentTime s' = sc_now env \<and> sc_tx s' = sc_tx s"
  by (simp add: rts_keep_def rts_inv_def SC_GetCurrentTime_def ats_part_def clock_part_def)

lemma start_solo:
  assumes solo: "rts_solo en i s" and ok: "startable i s" and cmd: "rts_command en 4 i (env, m)"
  shows "\<exists>s'. sc_handle s (env, m) = Some s' \<and> rts_solo en i s' \<and> rts_executing s' i \<and>
    rts_plan en i s' = (sc_now env + rd32 en (RtsTblAddr s ! i) 0, rts_script en (RtsTblAddr s ! i) 0) \<and>
    NumCmdsSec s' = NumCmdsSec s \<and> NextProcNumber s' = NextProcNumber s \<and> RtsNumber s' = RtsNumber s \<and>
    NextRtpTime s' = NextRtpTime s \<and> sc_tx s' = sc_tx s"
proof -
  have i: "i < SC_NUMBER_OF_RTS" and inv: "rts_inv s" using solo by (simp_all add: rts_solo_def)
  note target = rts_command_target [OF cmd i]
  have en: "sc_host env = en" and m: "CFE_MSG_GetSize m = 12" "CFE_MSG_GetMsgId m = SC_CMD_MID" "snd (CFE_MSG_GetFcnCode m) = 4"
    using cmd by (auto simp: rts_command_def sc_command_def)
  let ?s = "SC_GetCurrentTime env s"
  have inv1: "rts_inv ?s" using inv by (simp add: SC_GetCurrentTime_def rts_inv_def)
  have ok1: "startable (start_target env m) ?s" using ok target by simp
  have same: "RtsTblAddr ?s = RtsTblAddr s" "RtsInfoTblAddr ?s = RtsInfoTblAddr s" by (simp_all add: SC_GetCurrentTime_def)
  obtain s' where s': "SC_StartRtsCmd env m ?s = Some s'" "rts_keep ?s s'" "rts_only i ?s s'"
    "rts_plan en i s' = (CurrentTime ?s + rd32 en (RtsTblAddr ?s ! i) 0, rts_script en (RtsTblAddr ?s ! i) 0)" "rts_executing s' i"
    using start_accepted [OF inv1 m(1) ok1] unfolding target en by blast
  have only: "rts_only i s s'" using s'(3) by (simp add: rts_only_def same)
  have plan: "snd (rts_plan en i s') \<noteq> []" using s'(4) startable_legal [OF inv ok] by (simp add: rts_script_Nil same)
  have keep: "rts_inv s' \<and> ats_part s' = ats_part s \<and> NumCmdsSec s' = NumCmdsSec s \<and> NextProcNumber s' = NextProcNumber s \<and>
    RtsNumber s' = RtsNumber s \<and> NextRtpTime s' = NextRtpTime s \<and> CurrentTime s' = sc_now env \<and> sc_tx s' = sc_tx s"
    using rts_keep_time [OF s'(2) inv] .
  have "rts_solo en i s'" using rts_solo_step [OF solo _ _ only] keep plan by blast
  moreover have "sc_handle s (env, m) = Some s'"
    using s'(1) m by (simp add: sc_handle_def SC_ProcessRequest_def SC_ProcessCommand_def Let_def)
  ultimately show ?thesis using keep s'(4,5) same by simp
qed

lemma stop_solo:
  assumes solo: "rts_solo en i s" and ex: "rts_executing s i" and cmd: "rts_command en 5 i (env, m)"
  shows "\<exists>s'. sc_handle s (env, m) = Some s' \<and> rts_solo en i s' \<and> RtsTblAddr s' = RtsTblAddr s \<and>
    DisabledFlag (RtsInfoTblAddr s' ! i) = DisabledFlag (RtsInfoTblAddr s ! i) \<and> RtsStatus (RtsInfoTblAddr s' ! i) = SC_LOADED \<and>
    NumCmdsSec s' = NumCmdsSec s \<and> NextProcNumber s' = NextProcNumber s \<and> RtsNumber s' = RtsNumber s \<and>
    NextRtpTime s' = NextRtpTime s \<and> sc_tx s' = sc_tx s"
proof -
  have i: "i < SC_NUMBER_OF_RTS" and inv: "rts_inv s" and len: "length (RtsInfoTblAddr s) = SC_NUMBER_OF_RTS"
    using solo by (simp_all add: rts_solo_def rts_inv_def)
  have en: "sc_host env = en" and m: "CFE_MSG_GetSize m = 12" "CFE_MSG_GetMsgId m = SC_CMD_MID" "snd (CFE_MSG_GetFcnCode m) = 5"
    "rd16 en m 8 = of_nat (i + 1)" using cmd by (auto simp: rts_command_def sc_command_def)
  let ?s = "SC_GetCurrentTime env s"
  let ?s' = "sc_evs 78 CFE_EVS_EventType_INFORMATION [uint (of_nat (i + 1) :: u16)] (sc_ok (SC_KillRts i ?s))"
  have id: "unat (of_nat (i + 1) :: u16) \<le> SC_NUMBER_OF_RTS" "unat ((of_nat (i + 1) :: u16) - 1) = i"
    using i by (simp add: unat_of_nat del: of_nat_Suc of_nat_add, simp add: unat_of_nat)
  have "SC_StopRtsCmd env m ?s = ?s'"
    using m en id by (simp add: SC_StopRtsCmd_def SC_VerifyCmdLength_def del: of_nat_Suc of_nat_add)
  then have handle: "sc_handle s (env, m) = Some ?s'"
    using m by (simp add: sc_handle_def SC_ProcessRequest_def SC_ProcessCommand_def Let_def)
  have "rts_keep ?s ?s'" by simp
  note keep = rts_keep_time [OF this inv]
  have len1: "length (RtsInfoTblAddr ?s) = SC_NUMBER_OF_RTS" using len by (simp add: SC_GetCurrentTime_def)
  note kill = SC_KillRts_at [OF i len1]
  have only: "rts_only i s ?s'" using kill by (simp add: rts_only_def SC_GetCurrentTime_def)
  have ended: "\<not> rts_executing ?s' i" using kill(1) by (simp add: rts_executing_def)
  have "rts_solo en i ?s'" using rts_solo_step [OF solo _ _ only] keep ended by blast
  moreover have "RtsTblAddr ?s' = RtsTblAddr s" using only by (simp add: rts_only_def)
  moreover have "DisabledFlag (RtsInfoTblAddr ?s' ! i) = DisabledFlag (RtsInfoTblAddr s ! i)" "RtsStatus (RtsInfoTblAddr ?s' ! i) = SC_LOADED"
    using ex i len by (simp_all add: SC_KillRts_def SC_GetCurrentTime_def rts_executing_def upd_rts_def Let_def)
  ultimately show ?thesis using handle keep by blast
qed

text \<open>A wakeup that takes the sequence for due sends its next command whatever its time.\<close>

lemma wakeup_early:
  assumes solo: "rts_solo en i s" and ex: "rts_executing s i" and num0: "NumCmdsSec s = 0"
    and rtp: "NextProcNumber s = SC_RTP" "RtsNumber s = of_nat (i + 1)" and wake: "sc_wakeup en (env, m)"
    and due: "NextRtpTime s \<le> sc_now env" and valid: "cmds_valid (snd (rts_plan en i s))"
  shows "\<exists>s' x. sc_handle s (env, m) = Some s' \<and> sc_tx s' = sc_tx s @ snd (hd (snd (rts_plan en i s))) # x"
proof -
  have en: "sc_host env = en" and route: "Route env = (\<lambda>_ _. 0)" and now: "sc_now env < SC_MAX_TIME"
    and mid: "CFE_MSG_GetMsgId m = SC_1HZ_WAKEUP_MID" using wake by (auto simp: sc_wakeup_def)
  let ?s = "SC_GetCurrentTime env s"
  have ex1: "rts_executing ?s i" "NextProcNumber ?s = SC_RTP" "RtsNumber ?s = of_nat (i + 1)" "NextRtpTime ?s \<le> CurrentTime ?s"
    "SwitchPendFlag ?s = 0"
    using ex rtp due solo by (simp_all add: rts_executing_def SC_GetCurrentTime_def rts_solo_def)
  have solo1: "rts_solo (sc_host env) i ?s" using solo en by simp
  obtain s1 where s1: "SC_ProcessRtpCommand env ?s = Some s1" "rts_solo en i s1" "NumCmdsSec s1 = 1" "CurrentTime s1 = sc_now env"
    and tx: "sc_tx s1 = sc_tx s @ fst (rts_step (sc_now env) (snd (rts_plan en i s)))"
    using rtp_solo_step [OF solo1 ex1(2-4) route ex1(1)] en num0 by auto
  have proc: "(if NextProcNumber ?s = SC_ATP then SC_ProcessAtpCmd env ?s
           else if NextProcNumber ?s = SC_RTP then SC_ProcessRtpCommand env ?s else Some ?s) = Some s1"
    using s1(1) ex1(2) by simp
  obtain b s2 where r: "hz_round env ?s = Some (b, if b then s2 else s2\<lparr>NumCmdsSec := 0\<rparr>)" "rts_solo en i s2"
    "sc_tx s2 = sc_tx s1" "NumCmdsSec s2 = 1" "CurrentTime s2 = sc_now env" "rts_fresh i s2" "b \<longrightarrow> rts_chosen i s2"
    "rts_plan en i s2 = rts_plan en i s1"
    and b: "b \<longrightarrow> snd (rts_plan en i s1) \<noteq> [] \<and> fst (rts_plan en i s1) \<le> sc_now env"
    using hz_round_solo [of env i s1 7 ?s] s1 now proc ex1(5) en by auto
  have "\<exists>s' x. hz_loop env ?s = Some s' \<and> sc_tx s' = sc_tx s1 @ x"
  proof (cases b)
    case False
    then show ?thesis using hz_loop_unfold [OF r(1)] r(3) by auto
  next
    case True
    then obtain s' where "hz_loop env s2 = Some s'" "solo_done en i 7 s2 s'"
      using hz_loop_solo_due [of env i s2 7] r b route now en by auto
    then show ?thesis using hz_loop_unfold [OF r(1)] True r(3) by (auto simp: solo_done_def)
  qed
  moreover obtain d c q where "snd (rts_plan en i s) = (d, c) # q"
    using plan_running [OF solo] ex by (cases "snd (rts_plan en i s)") auto
  ultimately show ?thesis
    using tx mid valid by (auto simp: sc_handle_def SC_ProcessRequest_def Let_def rts_step_def cmds_valid_def split: list.splits)
qed

section \<open>Properties\<close>






text \<open>Messages for the examples.\<close>

definition env_at :: "u32 \<Rightarrow> sc_env" where
  "env_at t = \<lparr>sc_host = LittleEndian, sc_now = t, Route = (\<lambda>_ _. 0), TblGet = TblSame\<rparr>"

definition msg_1hz :: bytes where
  "msg_1hz = [0x18, 0xAB, 0xC0, 0, 0, 1, 0, 0]"

definition msg_rts1 :: "u8 \<Rightarrow> bytes" where
  "msg_rts1 cc = [0x18, 0xA9, 0xC0, 0, 0, 5, cc, 0, 1, 0, 0, 0]"

lemma msg_1hz_header: "CFE_MSG_GetMsgId msg_1hz = SC_1HZ_WAKEUP_MID" "CFE_MSG_GetSize msg_1hz = 8" "length msg_1hz = 8"
  by (simp_all add: msg_1hz_def CFE_MSG_GetMsgId_def CFE_MSG_GetSize_def byte_at_def)

lemma msg_rts1_header:
  "CFE_MSG_GetMsgId (msg_rts1 cc) = SC_CMD_MID" "CFE_MSG_GetSize (msg_rts1 cc) = 12" "length (msg_rts1 cc) = 12"
  "rd16 LittleEndian (msg_rts1 cc) 8 = 1"
  "snd (CFE_MSG_GetFcnCode (msg_rts1 4)) = 4" "snd (CFE_MSG_GetFcnCode (msg_rts1 5)) = 5"
  by (simp_all add: msg_rts1_def CFE_MSG_GetMsgId_def CFE_MSG_GetSize_def CFE_MSG_GetFcnCode_def byte_at_def rd16_def join8_def
      is_cmd_with_sechdr_def CFE_MSG_GetType_def CFE_MSG_GetHasSecondaryHeader_def)

lemma demo_wakeup: "t < SC_MAX_TIME \<Longrightarrow> sc_wakeup LittleEndian (env_at t, msg_1hz)"
  by (simp add: sc_wakeup_def env_at_def msg_1hz_header)

lemma demo_acceptable:
  "t < 0x80000000 \<Longrightarrow> sc_quiet LittleEndian (env_at t, msg_1hz)"
  "t < 0x80000000 \<Longrightarrow> sc_quiet LittleEndian (env_at t, msg_rts1 4)"
  by (simp_all add: sc_quiet_def rts_kept_def sc_acceptable_def env_at_def msg_1hz_header msg_rts1_header sc_command_def)

lemma demo_command: "rts_command LittleEndian 4 0 (env_at t, msg_rts1 4)" "rts_command LittleEndian 5 0 (env_at t, msg_rts1 5)"
  by (simp_all add: rts_command_def env_at_def msg_rts1_header sc_command_def)


text \<open>
  C25. As long as no table of a relative sequence is replaced, the number of active sequences in the
  control block is the number of sequences that execute, after any messages that the processor
  handles under the conditions of its safety (a clock below \<open>2 ^ 31\<close> seconds, no disable command for
  sequence 0, buffers as long as the header says); tables of absolute sequences and the append table
  may be replaced by valid images.
\<close>

theorem SC_active_count:
  assumes "sc_count_inv en s" and "list_all (sc_quiet en) is"
  shows "\<exists>s'. run_handler sc_handle s is = Some s' \<and>
    unat (NumRtsActive s') = card {i. i < SC_NUMBER_OF_RTS \<and> RtsStatus (RtsInfoTblAddr s' ! i) = SC_EXECUTING}"
proof -
  obtain s' where "run_handler sc_handle s is = Some s'" "sc_count_inv en s'" using sc_quiet.run_ok [OF assms] by blast
  then show ?thesis
    by (auto simp: sc_count_inv_def sc_inv_def rts_inv_def rts_count_def length_filter_conv_card)
qed

lemma SC_active_count_witness:
  "\<exists>s'. run_handler sc_handle sc_demo [(env_at 1, msg_rts1 4), (env_at 2, msg_1hz)] = Some s' \<and>
    unat (NumRtsActive s') = card {i. i < SC_NUMBER_OF_RTS \<and> RtsStatus (RtsInfoTblAddr s' ! i) = SC_EXECUTING}"
  by (rule SC_active_count [OF sc_demo_inv(1) [of LittleEndian]]) (simp add: demo_acceptable)

text \<open>
  C17. In a state that satisfies the invariant, and with a clock that reads less than \<open>2 ^ 31\<close> seconds, a
  wakeup ends and sends at most \<open>SC_MAX_CMDS_PER_SEC\<close> commands, from however many sequences, and
  the count starts again at zero.
\<close>

theorem SC_wakeup_rate:
  assumes "sc_inv en s" and "sc_acceptable en (env, m)" and "CFE_MSG_GetMsgId m = SC_1HZ_WAKEUP_MID"
  shows "\<exists>s' x. SC_ProcessRequest env m s = Some s' \<and> sc_tx s' = sc_tx s @ x \<and> length x \<le> unat SC_MAX_CMDS_PER_SEC \<and>
    NumCmdsSec s' = 0"
proof -
  have en: "sc_host env = en" and now: "CurrentTime (SC_GetCurrentTime env s) < 0x80000000"
    using assms(2) by (simp_all add: sc_acceptable_def SC_GetCurrentTime_def)
  have "sc_inv (sc_host env) (SC_GetCurrentTime env s)" using assms(1) en by (simp add: sc_inv_time)
  from hz_loop_next [OF this now] show ?thesis
    using assms(3) by (auto simp: SC_ProcessRequest_def Let_def sc_next_def sc_inv_def)
qed

lemma SC_wakeup_rate_witness:
  "\<exists>s' x. SC_ProcessRequest (env_at 7) msg_1hz sc_demo = Some s' \<and> sc_tx s' = sc_tx sc_demo @ x \<and> length x \<le> 8 \<and> NumCmdsSec s' = 0"
  using SC_wakeup_rate [OF sc_demo_inv(2), of LittleEndian "env_at 7" msg_1hz] demo_acceptable(1) [of 7]
  by (simp add: sc_quiet_def msg_1hz_header)

text \<open>
  C23. A start command of the right length for a sequence that is loaded, enabled and begins with a
  command of legal size starts it: its next command is due after the delay of its first entry, and its
  whole script is ahead. Any other start command changes no sequence and is counted as an error.
\<close>

theorem SC_StartRtsCmd_outcome:
  assumes "rts_inv s" and "CFE_MSG_GetMsgId m = SC_CMD_MID"
  shows "\<exists>s'. SC_StartRtsCmd env m s = Some s' \<and>
    (let i = start_target env m in
     if CFE_MSG_GetSize m = 12 \<and> startable i s
     then rts_executing s' i \<and> NumRtsActive s' = NumRtsActive s + 1 \<and> CmdCtr s' = CmdCtr s + 1 \<and> CmdErrCtr s' = CmdErrCtr s \<and>
       rts_plan (sc_host env) i s' = (CurrentTime s + rd32 (sc_host env) (RtsTblAddr s ! i) 0,
         rts_script (sc_host env) (RtsTblAddr s ! i) 0) \<and> rts_only i s s'
     else rts_part s' = rts_part s \<and> CmdCtr s' = CmdCtr s \<and> CmdErrCtr s' = CmdErrCtr s + 1 \<and>
       RtsActiveErrCtr s' = RtsActiveErrCtr s + 1)"
  using start_accepted [OF assms(1), of m env] start_rejected [OF assms(1), of m env] assms(2) unfolding Let_def by fastforce

lemma SC_StartRtsCmd_outcome_witness:
  "\<exists>s'. SC_StartRtsCmd (env_at 3) (msg_rts1 4) sc_demo = Some s' \<and> rts_executing s' 0 \<and>
     rts_plan LittleEndian 0 s' = (5, [(5, demo_cmd), (0, demo_cmd)])"
  using SC_StartRtsCmd_outcome [OF sc_demo_inv(3), of "msg_rts1 4" "env_at 3"] rts_command_target [OF demo_command(1)]
  by (auto simp: msg_rts1_header sc_demo_startable sc_demo_fields demo_script demo_rts_words env_at_def)

text \<open>
  The next relative sequence is the one that executes with the least next time, of several the one
  with the lowest number; there is none exactly when none executes.
\<close>

theorem SC_GetNextRtsTime_least:
  assumes "length (RtsInfoTblAddr s) = SC_NUMBER_OF_RTS"
  shows "\<exists>s'. SC_GetNextRtsTime s = Some s' \<and> RtsInfoTblAddr s' = RtsInfoTblAddr s \<and>
    (if \<exists>i<SC_NUMBER_OF_RTS. rts_executing s i
     then \<exists>i<SC_NUMBER_OF_RTS. unat (RtsNumber s') = i + 1 \<and> rts_executing s i \<and>
       NextRtpTime s' = NextCommandTime (RtsInfoTblAddr s ! i) \<and>
       (\<forall>j<SC_NUMBER_OF_RTS. rts_executing s j \<longrightarrow>
          (NextRtpTime s', i) = (NextCommandTime (RtsInfoTblAddr s ! j), j) \<or>
          NextRtpTime s' < NextCommandTime (RtsInfoTblAddr s ! j) \<or>
          NextRtpTime s' = NextCommandTime (RtsInfoTblAddr s ! j) \<and> i < j)
     else RtsNumber s' = 0 \<and> NextRtpTime s' = SC_MAX_TIME)"
proof -
  obtain n t where get: "SC_GetNextRtsTime s = Some (s\<lparr>RtsNumber := n, NextRtpTime := t\<rparr>)"
    and spec: "(\<forall>i<SC_NUMBER_OF_RTS. \<not> rts_executing s i) \<and> n = 0 \<and> t = SC_MAX_TIME \<or>
     (\<exists>i. rts_first (RtsInfoTblAddr s) SC_NUMBER_OF_RTS i \<and> n = of_nat (i + 1) \<and> t = rts_time_of (RtsInfoTblAddr s) i)"
    using SC_GetNextRtsTime_spec [OF assms] by blast
  from spec show ?thesis
  proof
    assume "(\<forall>i<SC_NUMBER_OF_RTS. \<not> rts_executing s i) \<and> n = 0 \<and> t = SC_MAX_TIME"
    then show ?thesis using get by auto
  next
    assume "\<exists>i. rts_first (RtsInfoTblAddr s) SC_NUMBER_OF_RTS i \<and> n = of_nat (i + 1) \<and> t = rts_time_of (RtsInfoTblAddr s) i"
    then obtain i where i: "rts_first (RtsInfoTblAddr s) SC_NUMBER_OF_RTS i" "n = of_nat (i + 1)" "t = rts_time_of (RtsInfoTblAddr s) i"
      by blast
    then have n: "unat n = i + 1" using i(1) unfolding i(2) unat_of_nat by (simp add: rts_first_def)
    have "i < SC_NUMBER_OF_RTS \<and> rts_executing s i" using i(1) by (simp add: rts_first_def rts_executing_def)
    then show ?thesis
      using get n i(1,3) by (auto simp: rts_first_def rts_time_of_def rts_executing_def le_less intro!: exI [of _ i])
  qed
qed

lemma SC_GetNextRtsTime_least_witness:
  "\<exists>s'. SC_GetNextRtsTime sc_demo = Some s' \<and> RtsNumber s' = 0 \<and> NextRtpTime s' = SC_MAX_TIME"
  using SC_GetNextRtsTime_least [OF sc_demo_fields(9)] boot_ok_inv(2) [OF sc_demo_boot] by (auto split: if_splits)

text \<open>
  C6. While relative sequence \<open>i\<close> alone runs, any number of wakeups at any times does what the plan
  made from its script says: at each wakeup up to eight commands that are due, each delay counted from
  the wakeup that sent the command before. What was sent and what is left is always the script, so
  that no command is lost, repeated or sent out of order.
\<close>

theorem SC_wakeups_refine:
  assumes "solo_ready en i s" and "list_all (sc_wakeup en) is" and "rts_plan en i s = p"
  shows "\<exists>s'. run_handler sc_handle s is = Some s' \<and> solo_ready en i s' \<and>
    (let (sent, p') = rts_wakes (map (\<lambda>j. sc_now (fst j)) is) p
     in sc_tx s' = sc_tx s @ sent \<and> rts_plan en i s' = p' \<and>
        (cmds_valid (snd p) \<longrightarrow> sent @ map snd (snd p') = map snd (snd p)))"
  using wakeups_solo [OF assms(1,2)] rts_wakes_keeps [of p] assms(3) by (auto simp: case_prod_beta)

text \<open>The example sequence while it runs, its first command due at time 5.\<close>

definition sc_running :: sc_state where
  "sc_running = (upd_rts 0 (\<lambda>r. r\<lparr>RtsStatus := SC_EXECUTING, NextCommandTime := 5\<rparr>) sc_demo)
     \<lparr>NumRtsActive := 1, NextProcNumber := SC_RTP, RtsNumber := 1, NextRtpTime := 5\<rparr>"

lemma sc_running_fields:
  "RtsTblAddr sc_running ! 0 = demo_rts" "rts_plan LittleEndian 0 sc_running = (5, [(5, demo_cmd), (0, demo_cmd)])"
  "rts_executing sc_running 0" "rts_chosen 0 sc_running" "NumCmdsSec sc_running = 0" "NextRtpTime sc_running = 5"
  "\<not> DisabledFlag (RtsInfoTblAddr sc_running ! 0)" "NextProcNumber sc_running = SC_RTP" "RtsNumber sc_running = 1"
  "NextCommandTime (RtsInfoTblAddr sc_running ! 0) = 5"
proof -
  have "NextCommandPtr (RtsInfoTblAddr sc_demo ! 0) = 0"
    by (simp add: sc_demo_def sc_zeroed_def init_tables_def init_rts_info_def Let_def upd_rts_def nth_list_update)
  then show "RtsTblAddr sc_running ! 0 = demo_rts" "rts_plan LittleEndian 0 sc_running = (5, [(5, demo_cmd), (0, demo_cmd)])"
    "rts_executing sc_running 0" "rts_chosen 0 sc_running" "NumCmdsSec sc_running = 0" "NextRtpTime sc_running = 5"
    "\<not> DisabledFlag (RtsInfoTblAddr sc_running ! 0)" "NextProcNumber sc_running = SC_RTP" "RtsNumber sc_running = 1"
    "NextCommandTime (RtsInfoTblAddr sc_running ! 0) = 5"
    by (simp_all add: sc_running_def rts_plan_def rts_executing_def rts_chosen_def upd_rts_def sc_demo_fields demo_script)
qed

lemma sc_running_ready: "solo_ready LittleEndian 0 sc_running"
proof -
  have demo: "rts_solo LittleEndian 0 sc_demo" using sc_demo_ready by (simp add: solo_ready_def)
  have "rts_image_ok demo_rts" by (simp add: rts_image_ok_def rts_fits_def demo_rts_words)
  moreover have "NextCommandPtr (RtsInfoTblAddr sc_demo ! 0) = 0"
    by (simp add: sc_demo_def sc_zeroed_def init_tables_def init_rts_info_def Let_def upd_rts_def nth_list_update)
  ultimately have "rts_inv sc_running"
    using sc_demo_inv(3) by (auto simp: rts_inv_def sc_running_def upd_rts_def rts_entry_ok_def sc_demo_fields rts_image_ok_def)
  moreover have "ats_part sc_running = ats_part sc_demo" by (simp add: sc_running_def ats_part_def upd_rts_def)
  moreover have "rts_only 0 sc_demo sc_running" by (simp add: sc_running_def rts_only_def upd_rts_def nth_upd_at_other)
  ultimately have "rts_solo LittleEndian 0 sc_running"
    using rts_solo_step [OF demo] by (simp add: sc_running_fields)
  then show ?thesis by (simp add: solo_ready_def rts_fresh_def sc_running_fields)
qed

lemma demo_cmd_valid: "sb_msg_check demo_cmd = 0"
  by (simp add: demo_cmd_def sb_msg_check_def CFE_SB_IsValidMsgId_def CFE_MSG_GetMsgId_def CFE_MSG_GetSize_def byte_at_def)

lemma rts_wake_pos:
  "0 < n \<Longrightarrow> rts_wake n now p =
     (if snd p \<noteq> [] \<and> fst p \<le> now
      then (fst (rts_step now (snd p)) @ fst (rts_wake (n - 1) now (snd (rts_step now (snd p)))),
            snd (rts_wake (n - 1) now (snd (rts_step now (snd p)))))
      else ([], p))"
  by (cases n) (simp_all add: Let_def case_prod_beta)

lemma demo_wakes:
  "rts_wakes [4, 5] (5, [(5, demo_cmd), (0, demo_cmd)]) = ([demo_cmd, demo_cmd], (SC_MAX_TIME, []))"
  by (simp add: rts_wake_pos rts_step_def demo_cmd_valid)

lemma SC_wakeups_refine_witness:
  "\<exists>s'. run_handler sc_handle sc_running [(env_at 4, msg_1hz), (env_at 5, msg_1hz)] = Some s' \<and>
     sc_tx s' = sc_tx sc_running @ [demo_cmd, demo_cmd] \<and> rts_plan LittleEndian 0 s' = (SC_MAX_TIME, [])"
proof -
  have w: "list_all (sc_wakeup LittleEndian) [(env_at 4, msg_1hz), (env_at 5, msg_1hz)]" by (simp add: demo_wakeup)
  have t: "map (\<lambda>j. sc_now (fst j)) [(env_at 4, msg_1hz), (env_at 5, msg_1hz)] = [4, 5]" by (simp add: env_at_def)
  show ?thesis using SC_wakeups_refine [OF sc_running_ready w sc_running_fields(2)] unfolding t demo_wakes by auto
qed

text \<open>
  C37. A sequence that is stopped and started again between two wakeups is sent its first command at
  the next wakeup at which the first start would have been due, though its own time has not come: the
  wakeup goes by the time it found before.
\<close>

theorem SC_restart_early:
  assumes "solo_ready en i s" and "rts_chosen i s" and "rts_executing s i" and "\<not> DisabledFlag (RtsInfoTblAddr s ! i)"
    and "rts_command en 5 i stop" and "rts_command en 4 i start" and "sc_wakeup en wake"
    and "rts_entry_legal (RtsTblAddr s ! i) 0" and "cmds_valid (rts_script en (RtsTblAddr s ! i) 0)"
    and "NextCommandTime (RtsInfoTblAddr s ! i) \<le> sc_now (fst wake)"
  shows "\<exists>s2 s3 x. run_handler sc_handle s [stop, start] = Some s2 \<and>
    fst (rts_plan en i s2) = sc_now (fst start) + rd32 en (RtsTblAddr s ! i) 0 \<and>
    sc_handle s2 wake = Some s3 \<and> sc_tx s3 = sc_tx s @ rts_entry_cmd (RtsTblAddr s ! i) 0 # x"
proof -
  have solo: "rts_solo en i s" and num: "NumCmdsSec s = 0" using assms(1) by (simp_all add: solo_ready_def)
  have i: "i < SC_NUMBER_OF_RTS" using solo by (simp add: rts_solo_def)
  obtain s1 where s1: "sc_handle s stop = Some s1" "rts_solo en i s1" "RtsTblAddr s1 = RtsTblAddr s"
    "\<not> DisabledFlag (RtsInfoTblAddr s1 ! i)" "RtsStatus (RtsInfoTblAddr s1 ! i) = SC_LOADED" "NumCmdsSec s1 = 0"
    "NextProcNumber s1 = NextProcNumber s" "RtsNumber s1 = RtsNumber s" "NextRtpTime s1 = NextRtpTime s" "sc_tx s1 = sc_tx s"
    using stop_solo [OF solo assms(3), of "fst stop" "snd stop"] assms(4,5) num by auto
  have "startable i s1" using s1 i assms(8) by (simp add: startable_def rts_entry_legal_def Let_def)
  then obtain s2 where s2: "sc_handle s1 start = Some s2" "rts_solo en i s2" "rts_executing s2 i"
    "rts_plan en i s2 = (sc_now (fst start) + rd32 en (RtsTblAddr s ! i) 0, rts_script en (RtsTblAddr s ! i) 0)"
    "NumCmdsSec s2 = 0" "NextProcNumber s2 = NextProcNumber s" "RtsNumber s2 = RtsNumber s" "NextRtpTime s2 = NextRtpTime s"
    "sc_tx s2 = sc_tx s"
    using start_solo [OF s1(2), of "fst start" "snd start"] assms(6) s1 by auto
  have "\<exists>s3 x. sc_handle s2 wake = Some s3 \<and> sc_tx s3 = sc_tx s2 @ snd (hd (snd (rts_plan en i s2))) # x"
    using wakeup_early [OF s2(2,3,5), of "fst wake" "snd wake"] assms(2,3,7,9,10) s2 by (simp add: rts_chosen_def)
  moreover have "snd (hd (rts_script en (RtsTblAddr s ! i) 0)) = rts_entry_cmd (RtsTblAddr s ! i) 0"
    using assms(8) by (simp add: rts_script.simps [of _ _ 0])
  ultimately show ?thesis using s1(1) s2 by auto
qed

lemma SC_restart_early_witness:
  "\<exists>s2 s3 x. run_handler sc_handle sc_running [(env_at 4, msg_rts1 5), (env_at 4, msg_rts1 4)] = Some s2 \<and>
    fst (rts_plan LittleEndian 0 s2) = 9 \<and> sc_handle s2 (env_at 5, msg_1hz) = Some s3 \<and> sc_tx s3 = sc_tx sc_running @ demo_cmd # x"
proof -
  have "rts_entry_legal demo_rts 0" by (simp add: rts_entry_legal_def demo_rts_words rts_words_def)
  moreover have "cmds_valid [(5, demo_cmd), (0, demo_cmd)]" by (simp add: cmds_valid_def demo_cmd_valid)
  moreover have "rts_entry_cmd demo_rts 0 = demo_cmd" by (simp add: rts_entry_cmd_def demo_rts_words)
  ultimately show ?thesis
    using SC_restart_early [OF sc_running_ready sc_running_fields(4,3,7) demo_command(2) demo_command(1) demo_wakeup, of 5 4 4]
    by (simp add: sc_running_fields demo_script demo_rts_words env_at_def)
qed

text \<open>
  C13. Table validation of an absolute sequence and its loading agree on every table: an image is
  accepted exactly if loading it gives a sequence with commands, and then the command index holds for
  every command number what validation found.
\<close>

theorem SC_LoadAts_agrees:
  assumes "ats_shape a s" and "length (AtsTblAddr s ! a) = 4 * SC_ATS_BUFF_SIZE32"
  shows "\<exists>r s1 s'. SC_ValidateAts en (AtsTblAddr s ! a) s0 = Some (r, s1) \<and> SC_LoadAts en a s = Some s' \<and>
    (r = 0 \<longleftrightarrow> NumberOfCommands (AtsInfoTblAddr s' ! a) > 0) \<and> (r = 0 \<longrightarrow> AtsCmdIndexBuffer s' ! a = AtsDupTestArray s1 \<and>
       (\<forall>c<SC_MAX_ATS_CMDS. AtsCmdStatusTblAddr s' ! a ! c =
          (if AtsDupTestArray s1 ! c = SC_DUP_TEST_UNUSED then SC_EMPTY else SC_LOADED)))"
proof -
  obtain r s1 s' where v: "SC_ValidateAts en (AtsTblAddr s ! a) s0 = Some (r, s1)" "SC_LoadAts en a s = Some s'"
    and c: "if r = 0 then same_cmds a (AtsDupTestArray s1) s' \<and> 0 < row_count a s' \<and>
       (\<exists>L. in_time_list a s' L \<and> time_list en a s' SC_MAX_ATS_CMDS L) else row_count a s' = 0"
    using SC_LoadAts_step [OF assms, of en s0] by blast
  then show ?thesis
    by (cases "r = 0") (auto simp: row_count_def same_cmds_def word_less_nat_alt intro!: exI [of _ r] exI [of _ s1] exI [of _ s'])
qed

lemma demo_ats_shape:
  "ats_shape 0 (sc_zeroed\<lparr>AtsTblAddr := [replicate 16000 0, []]\<rparr>)"
  "length (AtsTblAddr (sc_zeroed\<lparr>AtsTblAddr := [replicate 16000 0, []]\<rparr>) ! 0) = 4 * SC_ATS_BUFF_SIZE32"
  by (simp_all add: ats_shape_def sc_zeroed_def)

lemma SC_LoadAts_agrees_witness:
  "\<exists>r s1 s'. SC_ValidateAts BigEndian (replicate 16000 0) sc_zeroed = Some (r, s1) \<and>
     SC_LoadAts BigEndian 0 (sc_zeroed\<lparr>AtsTblAddr := [replicate 16000 0, []]\<rparr>) = Some s' \<and>
     (r = 0 \<longleftrightarrow> NumberOfCommands (AtsInfoTblAddr s' ! 0) > 0)"
  using SC_LoadAts_agrees [OF demo_ats_shape, of BigEndian sc_zeroed] by auto

text \<open>
  C15. The list by which an absolute sequence runs is the stable sort of its commands by time, commands
  of the same time in order of their numbers, whenever the times lie within half the range after some
  base; the rest of the list is filled with the invalid number.
\<close>

theorem SC_LoadAts_order:
  assumes "ats_shape a s" and "length (AtsTblAddr s ! a) = 4 * SC_ATS_BUFF_SIZE32"
    and "SC_ValidateAts en (AtsTblAddr s ! a) s0 = Some (0, s1)" and "SC_LoadAts en a s = Some s'" and "times_near en a b s'"
  shows "AtsTimeIndexBuffer s' ! a =
    (let L = sort_key (\<lambda>c. since b (cmd_time en a s' c)) (cmds_in_use a s' SC_MAX_ATS_CMDS)
     in map cmd_num L @ replicate (SC_MAX_ATS_CMDS - length L) SC_INVALID_CMD_NUMBER)"
proof -
  obtain L where "in_time_list a s' L" "time_list en a s' SC_MAX_ATS_CMDS L"
    using SC_LoadAts_step [OF assms(1,2), of en s0] assms(3,4) by auto
  then show ?thesis using assms(5) by (auto simp: in_time_list_def time_list_def Let_def)
qed

text \<open>A table with one command at time 9, in the other byte order.\<close>

definition demo_ats :: bytes where
  "demo_ats = [0, 0, 0, 1, 0, 0, 0, 9] @ demo_cmd @ replicate 15984 0"

definition ats_demo :: sc_state where
  "ats_demo = sc_zeroed\<lparr>AtsTblAddr := [demo_ats, []]\<rparr>"

lemma ats_demo_shape: "ats_shape 0 ats_demo" "length (AtsTblAddr ats_demo ! 0) = 4 * SC_ATS_BUFF_SIZE32"
  by (simp_all add: ats_shape_def ats_demo_def sc_zeroed_def demo_ats_def demo_cmd_def)

lemma ats_demo_accepted:
  "\<exists>s1. SC_ValidateAts BigEndian demo_ats s0 = Some (0, s1) \<and> AtsDupTestArray s1 = 0 # replicate 999 SC_DUP_TEST_UNUSED"
proof -
  have len: "length demo_ats = 4 * SC_ATS_BUFF_SIZE32" by (simp add: demo_ats_def demo_cmd_def)
  have e: "ats_entry BigEndian demo_ats SC_ATS_BUFF_SIZE32 0 = Inr (0, 4)" "ats_entry BigEndian demo_ats SC_ATS_BUFF_SIZE32 4 = Inl 0"
    by (simp_all add: ats_entry_def demo_ats_def demo_cmd_def CFE_MSG_GetSize_def byte_at_def rd16_def join8_def msg_words_def)
  let ?s = "s0\<lparr>AtsDupTestArray := replicate SC_MAX_ATS_CMDS SC_DUP_TEST_UNUSED\<rparr>"
  have D: "(replicate SC_MAX_ATS_CMDS SC_DUP_TEST_UNUSED)[0 := 0] = 0 # replicate 999 SC_DUP_TEST_UNUSED"
    using replicate_Suc [of 999 SC_DUP_TEST_UNUSED] by simp
  obtain s1 where s1: "SC_VerifyAtsEntry BigEndian demo_ats 0 SC_ATS_BUFF_SIZE32 ?s = Some (4, s1)"
    "AtsDupTestArray s1 = 0 # replicate 999 SC_DUP_TEST_UNUSED"
    using SC_VerifyAtsEntry_eq [OF len, of ?s BigEndian 0] e(1) D by (auto simp: dup_step_def)
  obtain s2 where s2: "SC_VerifyAtsEntry BigEndian demo_ats 4 SC_ATS_BUFF_SIZE32 s1 = Some (0, s2)"
    "AtsDupTestArray s2 = 0 # replicate 999 SC_DUP_TEST_UNUSED"
    using SC_VerifyAtsEntry_eq [OF len, of s1 BigEndian 4] e(2) s1(2) by (auto simp: dup_step_def)
  have "verify_ats_loop BigEndian demo_ats 0 0 SC_ATS_BUFF_SIZE32 ?s = Some (0, 4, 1, s2)"
    by (simp add: verify_ats_loop.simps [of _ _ 0] verify_ats_loop.simps [of _ _ 4] s1 s2)
  then show ?thesis using s2(2) by (simp add: SC_ValidateAts_def SC_VerifyAtsTable_def)
qed

lemma SC_LoadAts_order_witness:
  "\<exists>s'. SC_LoadAts BigEndian 0 ats_demo = Some s' \<and> AtsTimeIndexBuffer s' ! 0 = 1 # replicate 999 SC_INVALID_CMD_NUMBER"
proof -
  have tbl: "AtsTblAddr ats_demo ! 0 = demo_ats" by (simp add: ats_demo_def)
  obtain s1 where v: "SC_ValidateAts BigEndian (AtsTblAddr ats_demo ! 0) ats_demo = Some (0, s1)"
    and D: "AtsDupTestArray s1 = 0 # replicate 999 SC_DUP_TEST_UNUSED"
    using ats_demo_accepted [of ats_demo] unfolding tbl by blast
  obtain s' where l: "SC_LoadAts BigEndian 0 ats_demo = Some s'" "same_cmds 0 (AtsDupTestArray s1) s'"
    using SC_LoadAts_step [OF ats_demo_shape, of BigEndian ats_demo] v by auto
  have "cmds_in_use 0 s' SC_MAX_ATS_CMDS = 0 # filter (\<lambda>c. (0 # replicate 999 SC_DUP_TEST_UNUSED) ! c \<noteq> SC_ERROR) [1..<SC_MAX_ATS_CMDS]"
    using l(2) D by (simp add: cmds_in_use_def same_cmds_def upt_conv_Cons [of 0 SC_MAX_ATS_CMDS])
  also have "filter (\<lambda>c. (0 # replicate 999 SC_DUP_TEST_UNUSED) ! c \<noteq> SC_ERROR) [1..<SC_MAX_ATS_CMDS] = []"
    by (auto simp: filter_empty_conv nth_Cons')
  finally have used: "cmds_in_use 0 s' SC_MAX_ATS_CMDS = [0]" .
  then have "times_near BigEndian 0 (cmd_time BigEndian 0 s' 0) s'" by (simp add: times_near_def since_def)
  from SC_LoadAts_order [OF ats_demo_shape v l(1) this] show ?thesis
    using l(1) by (simp add: used cmd_num_def)
qed

text \<open>Rounds of the wakeup loop, each of which asks for another one.\<close>

primrec hz_rounds :: "nat \<Rightarrow> sc_env \<Rightarrow> sc_state \<Rightarrow> sc_state option" where
  "hz_rounds 0 env s = Some s"
| "hz_rounds (Suc n) env s = Option.bind (hz_round env s) (\<lambda>(more, s). if more then hz_rounds n env s else None)"

lemma hz_rounds_stuck: "hz_round env s = Some (True, s) \<Longrightarrow> hz_rounds n env s = Some s"
  by (induction n) simp_all

text \<open>
  C38. A wakeup does not end when the absolute sequence executes, its next command has a time that is less
  than the current time as a number but later across the roll-over, at least half the range away, and
  nothing else is to be done: no relative sequence executes, no switch is pending, and fewer commands
  were sent than a second allows. The loop takes the command for due and the processor does not send it:
  any number of rounds can be made, none of them leaves a table, each asks for another, and nothing changes.
\<close>

theorem SC_wakeup_endless:
  assumes "atp_waiting s" and "NextAtpTime s \<le> sc_now env" and "SC_CompareAbsTime (NextAtpTime s) (sc_now env)"
    and "CFE_MSG_GetMsgId m = SC_1HZ_WAKEUP_MID"
  shows "(\<forall>n. hz_rounds n env (SC_GetCurrentTime env s) = Some (SC_GetCurrentTime env s)) \<and>
    SC_ProcessRequest env m s = hz_loop env (SC_GetCurrentTime env s) \<and> SC_ProcessRequest env m s = None"
proof -
  have "atp_waiting (SC_GetCurrentTime env s)"
    using assms(1) by (simp add: atp_waiting_def SC_GetCurrentTime_def rts_executing_def)
  then have round: "hz_round env (SC_GetCurrentTime env s) = Some (True, SC_GetCurrentTime env s)"
    using assms(2,3) by (intro atp_waiting_round) (simp_all add: SC_GetCurrentTime_def)
  have loop: "SC_ProcessRequest env m s = hz_loop env (SC_GetCurrentTime env s)"
    using assms(4) by (simp add: SC_ProcessRequest_def Let_def)
  show ?thesis using hz_rounds_stuck [OF round] hz_loop_stuck [OF round] loop by simp
qed

lemma SC_wakeup_endless_witness:
  "hz_rounds 1000 (env_at 0x80000005) (SC_GetCurrentTime (env_at 0x80000005)
       (sc_demo\<lparr>AtpState := SC_EXECUTING, NextProcNumber := SC_ATP, NextAtpTime := 3\<rparr>)) \<noteq> None \<and>
   SC_ProcessRequest (env_at 0x80000005) msg_1hz
     (sc_demo\<lparr>AtpState := SC_EXECUTING, NextProcNumber := SC_ATP, NextAtpTime := 3\<rparr>) = None"
proof -
  let ?s = "sc_demo\<lparr>AtpState := SC_EXECUTING, NextProcNumber := SC_ATP, NextAtpTime := 3\<rparr>"
  have "atp_waiting ?s"
    using boot_ok_inv(2) [OF sc_demo_boot] by (simp add: atp_waiting_def sc_demo_fields rts_executing_def)
  moreover have "NextAtpTime ?s \<le> sc_now (env_at 0x80000005)" "SC_CompareAbsTime (NextAtpTime ?s) (sc_now (env_at 0x80000005))"
    by (simp_all add: env_at_def SC_CompareAbsTime_def CFE_TIME_Compare_def CFE_TIME_Subtract_def Let_def)
  ultimately have "(\<forall>n. hz_rounds n (env_at 0x80000005) (SC_GetCurrentTime (env_at 0x80000005) ?s) =
      Some (SC_GetCurrentTime (env_at 0x80000005) ?s)) \<and>
    SC_ProcessRequest (env_at 0x80000005) msg_1hz ?s = hz_loop (env_at 0x80000005) (SC_GetCurrentTime (env_at 0x80000005) ?s) \<and>
    SC_ProcessRequest (env_at 0x80000005) msg_1hz ?s = None"
    by (intro SC_wakeup_endless) (simp_all add: msg_1hz_header)
  then show ?thesis by (metis option.distinct(1))
qed

text \<open>
  C40. A housekeeping request of the right length sends one packet, and from its two bit masks the
  ground reads for every relative sequence whether it executes and whether it is disabled.
\<close>

theorem SC_HkRequest_bits:
  assumes "sc_inv (sc_host env) s" and "CFE_MSG_GetSize m = 8"
  shows "\<exists>s' p. SC_HkRequest env m s = Some s' \<and> sc_hk_tx s' = sc_hk_tx s @ [p] \<and>
    (\<forall>i<SC_NUMBER_OF_RTS.
       (bit (hk_RtsExecutingStatus p ! (i div 16)) (i mod 16) \<longleftrightarrow> RtsStatus (RtsInfoTblAddr s' ! i) = SC_EXECUTING) \<and>
       (bit (hk_RtsDisabledStatus p ! (i div 16)) (i mod 16) \<longleftrightarrow> DisabledFlag (RtsInfoTblAddr s' ! i)))"
proof -
  obtain s1 where s1: "auto_start env s = Some s1" "sc_next (sc_host env) s s1" using auto_start_next [OF assms(1)] by blast
  then have len: "length (RtsInfoTblAddr s1) = SC_NUMBER_OF_RTS" by (simp add: sc_next_def sc_inv_def rts_inv_def)
  have log: "sc_hk_tx s1 = sc_hk_tx s"
    using s1(1) by (auto simp: auto_start_def SC_AutoStartRts_def Let_def upd_rts_def sc_evs_def split: Option.bind_splits if_splits)
  have "SC_HkRequest env m s = Some (SC_SendHkPacket s1)"
    using assms(2) s1(1) by (simp add: SC_HkRequest_def SC_VerifyCmdLength_def)
  then show ?thesis
    using hk_masks [OF len] log by (auto simp: SC_SendHkPacket_def)
qed

lemma SC_HkRequest_bits_witness:
  "\<exists>s' p. SC_HkRequest (env_at 1) msg_1hz sc_demo = Some s' \<and> sc_hk_tx s' = sc_hk_tx sc_demo @ [p]"
  using SC_HkRequest_bits [where env = "env_at 1" and m = msg_1hz, OF sc_demo_inv(2) msg_1hz_header(2)] by blast

text \<open>
  C39. A disable command that names sequence 0 passes the range check and writes outside the table of
  sequences; a stop command that names it does nothing and is counted as accepted.
\<close>

theorem SC_sequence_zero:
  assumes "length (RtsInfoTblAddr s) = SC_NUMBER_OF_RTS" and "CFE_MSG_GetSize m = 12" and "rd16 (sc_host env) m 8 = 0"
  shows "SC_DisableRtsCmd env m s = None \<and>
    RtsInfoTblAddr (SC_StopRtsCmd env m s) = RtsInfoTblAddr s \<and> CmdCtr (SC_StopRtsCmd env m s) = CmdCtr s + 1"
proof -
  have "unat (0 - 1 :: u16) = 65535" by (simp add: unsigned_minus_1_eq_mask mask_eq_exp_minus_1)
  then show ?thesis
    using assms by (simp add: SC_DisableRtsCmd_def SC_StopRtsCmd_def SC_VerifyCmdLength_def set_disabled_def upd_opt_def
        SC_KillRts_def Let_def sc_evs_def sc_ok_def)
qed

lemma SC_sequence_zero_witness:
  "SC_DisableRtsCmd (env_at 1) [0x18, 0xA9, 0xC0, 0, 0, 5, 6, 0, 0, 0, 0, 0] sc_demo = None"
  using SC_sequence_zero [OF sc_demo_fields(9), of "[0x18, 0xA9, 0xC0, 0, 0, 5, 6, 0, 0, 0, 0, 0]" "env_at 1"]
  by (simp add: CFE_MSG_GetSize_def byte_at_def rd16_def join8_def env_at_def)

text \<open>
  The parameters registered for table notifications are those by which the command handler finds
  the table: a notification for a loadable table manages that table, one for a dump-only table none.
\<close>

theorem SC_notifications_dispatch:
  assumes "(t, p) \<in> set SC_RegisterManageCmds" and "12 \<le> length m" and "rd32 (sc_host env) m 8 = of_nat p"
  shows "SC_TableManageCmd env m s = (case t of AtsLoadTbl a \<Rightarrow> SC_ManageTable env ATS a s
    | RtsLoadTbl i \<Rightarrow> SC_ManageTable env RTS i s | AppendLoadTbl \<Rightarrow> SC_ManageTable env APPEND 0 s | _ \<Rightarrow> Some s)"
proof -
  consider (info) "t = RtsInfoTbl \<or> t = RtsCtrlTbl \<or> t = AtsInfoTbl \<or> t = AtsCtrlTbl" "68 \<le> p" "p < 72"
    | (app) "t = AppendLoadTbl" "p = 3" | (st) i where "t = AtsStatusTbl i" "72 \<le> p" "p < 74"
    | (ats) i where "t = AtsLoadTbl i" "p = 1 + i" "i < 2" | (rts) i where "t = RtsLoadTbl i" "p = 4 + i" "i < 64"
    using assms(1) unfolding SC_RegisterManageCmds_def by auto
  note cases = this
  have p: "p < 74" using cases by cases auto
  have id: "sint (rd32 (sc_host env) m 8) = int p"
    unfolding assms(3) using p by (simp add: signed_of_nat signed_take_bit_int_eq_self)
  note eq = SC_TableManageCmd_def id Let_def
  from cases show ?thesis
  proof cases
    case info
    then have "p = 68 \<or> p = 69 \<or> p = 70 \<or> p = 71" by linarith
    then show ?thesis using info(1) assms(2) by (elim disjE) (simp_all add: eq)
  next
    case app
    then show ?thesis using assms(2) by (simp add: eq)
  next
    case st
    then have "p = 72 \<or> p = 73" by linarith
    then show ?thesis using assms(2) by (elim disjE) (simp_all add: st(1) eq)
  next
    case ats
    then show ?thesis using assms(2) by (simp add: eq SC_ManageAtsTable_def)
  next
    case rts
    then show ?thesis using assms(2) by (simp add: eq SC_ManageRtsTable_def)
  qed
qed

lemma SC_notifications_dispatch_witness:
  "SC_TableManageCmd (env_at 1) [0, 0, 0, 0, 0, 0, 0, 0, 7, 0, 0, 0] sc_demo = SC_ManageTable (env_at 1) RTS 3 sc_demo"
  using SC_notifications_dispatch [of "RtsLoadTbl 3" 7 "[0, 0, 0, 0, 0, 0, 0, 0, 7, 0, 0, 0]" "env_at 1" sc_demo]
  by (simp add: SC_RegisterManageCmds_def env_at_def rd32_def rd16_def join8_def join16_def byte_at_def)

end
