(* ===== verification/Osal_Queue.thy ===== *)
theory Osal_Queue
  imports Nos3_Prelude
begin

text \<open>
  The message queues of the operating system layer (\<open>osapi-queue.c\<close> and its POSIX implementation
  \<open>os-impl-queues.c\<close>) as the software bus uses them: bounded first-in first-out queues of buffer
  addresses, found by their id. What the operating system may do besides (an error of \<open>mq_open\<close>,
  \<open>mq_timedsend\<close> or \<open>mq_timedreceive\<close>) is an argument; 0 is no error.
\<close>

abbreviation (input) OS_SUCCESS :: int where "OS_SUCCESS \<equiv> 0"
abbreviation (input) OS_ERROR :: int where "OS_ERROR \<equiv> - 1"
abbreviation (input) OS_QUEUE_EMPTY :: int where "OS_QUEUE_EMPTY \<equiv> - 8"
abbreviation (input) OS_QUEUE_FULL :: int where "OS_QUEUE_FULL \<equiv> - 9"
abbreviation (input) OS_QUEUE_TIMEOUT :: int where "OS_QUEUE_TIMEOUT \<equiv> - 10"
abbreviation (input) OS_QUEUE_INVALID_SIZE :: int where "OS_QUEUE_INVALID_SIZE \<equiv> - 11"
abbreviation (input) OS_ERR_NO_FREE_IDS :: int where "OS_ERR_NO_FREE_IDS \<equiv> - 14"
abbreviation (input) OS_ERR_NAME_TAKEN :: int where "OS_ERR_NAME_TAKEN \<equiv> - 15"
abbreviation (input) OS_ERR_INVALID_ID :: int where "OS_ERR_INVALID_ID \<equiv> - 16"
abbreviation (input) OS_PEND :: int where "OS_PEND \<equiv> - 1"
abbreviation (input) OS_CHECK :: int where "OS_CHECK \<equiv> 0"
abbreviation (input) OS_QUEUE_MAX_DEPTH :: nat where "OS_QUEUE_MAX_DEPTH \<equiv> 50"
abbreviation (input) OS_OBJECT_ID_UNDEFINED :: u32 where "OS_OBJECT_ID_UNDEFINED \<equiv> 0"

record os_queue =
  q_depth :: nat
  q_msgs :: "nat list"

type_synonym os_queues = "u32 \<Rightarrow> os_queue option"

text \<open>
  A new queue: the id allocator and the operating system decide the status and the id. A nonzero
  \<open>trunc\<close> is the limit the board support package sets to a depth.
\<close>

definition OS_QueueCreate :: "int \<times> u32 \<Rightarrow> nat \<Rightarrow> nat \<Rightarrow> os_queues \<Rightarrow> int \<times> u32 \<times> os_queues" where
  "OS_QueueCreate res trunc depth qs =
     (if depth > OS_QUEUE_MAX_DEPTH then (OS_QUEUE_INVALID_SIZE, OS_OBJECT_ID_UNDEFINED, qs)
      else if fst res \<noteq> OS_SUCCESS then (fst res, OS_OBJECT_ID_UNDEFINED, qs)
      else (OS_SUCCESS, snd res, qs(snd res \<mapsto>
        \<lparr>q_depth = if trunc > 0 \<and> trunc < depth then trunc else depth, q_msgs = []\<rparr>)))"

definition OS_QueueDelete :: "u32 \<Rightarrow> os_queues \<Rightarrow> int \<times> os_queues" where
  "OS_QueueDelete q qs = (if qs q = None then (OS_ERR_INVALID_ID, qs) else (OS_SUCCESS, qs(q := None)))"

definition OS_QueuePut :: "int \<Rightarrow> u32 \<Rightarrow> nat \<Rightarrow> os_queues \<Rightarrow> int \<times> os_queues" where
  "OS_QueuePut err q b qs = (case qs q of
      None \<Rightarrow> (OS_ERR_INVALID_ID, qs)
    | Some r \<Rightarrow> if err \<noteq> OS_SUCCESS then (OS_ERROR, qs)
        else if length (q_msgs r) < q_depth r
        then (OS_SUCCESS, qs(q \<mapsto> r\<lparr>q_msgs := q_msgs r @ [b]\<rparr>))
        else (OS_QUEUE_FULL, qs))"

text \<open>
  The result of a call that returns: a wait without a time limit returns from an empty queue only
  with an error.
\<close>

definition OS_QueueGet :: "int \<Rightarrow> u32 \<Rightarrow> int \<Rightarrow> os_queues \<Rightarrow> int \<times> nat option \<times> os_queues" where
  "OS_QueueGet err q timeout qs = (case qs q of
      None \<Rightarrow> (OS_ERR_INVALID_ID, None, qs)
    | Some r \<Rightarrow> if err \<noteq> OS_SUCCESS then (OS_ERROR, None, qs)
        else case q_msgs r of
          b # bs \<Rightarrow> (OS_SUCCESS, Some b, qs(q \<mapsto> r\<lparr>q_msgs := bs\<rparr>))
        | [] \<Rightarrow> (if timeout = OS_PEND then OS_ERROR
                 else if timeout = OS_CHECK then OS_QUEUE_EMPTY else OS_QUEUE_TIMEOUT, None, qs))"

section \<open>What is in a queue\<close>

definition q_content :: "os_queues \<Rightarrow> u32 \<Rightarrow> nat list" where
  "q_content qs q = (case qs q of None \<Rightarrow> [] | Some r \<Rightarrow> q_msgs r)"

definition queues_ok :: "os_queues \<Rightarrow> bool" where
  "queues_ok qs \<longleftrightarrow> qs OS_OBJECT_ID_UNDEFINED = None \<and>
     (\<forall>q r. qs q = Some r \<longrightarrow> length (q_msgs r) \<le> q_depth r \<and> q_depth r \<le> OS_QUEUE_MAX_DEPTH)"

lemma q_content_length: "queues_ok qs \<Longrightarrow> length (q_content qs q) \<le> OS_QUEUE_MAX_DEPTH"
  by (auto simp: queues_ok_def q_content_def split: option.split) (meson le_trans)

lemma OS_QueuePut_content:
  assumes "OS_QueuePut err q b qs = (st, qs')"
  shows "q_content qs' q = (if st = OS_SUCCESS then q_content qs q @ [b] else q_content qs q)"
    and "p \<noteq> q \<Longrightarrow> q_content qs' p = q_content qs p"
    and "dom qs' = dom qs" and "queues_ok qs \<Longrightarrow> queues_ok qs'"
  using assms by (auto simp: OS_QueuePut_def q_content_def queues_ok_def split: option.splits if_splits)

lemma OS_QueuePut_st: "OS_QueuePut err q b qs = (st, qs') \<Longrightarrow> st \<noteq> OS_SUCCESS \<Longrightarrow> qs' = qs"
  by (auto simp: OS_QueuePut_def split: option.splits if_splits)

lemma OS_QueueGet_content:
  assumes "OS_QueueGet err q t qs = (st, bo, qs')"
  shows "case bo of
      Some b \<Rightarrow> st = OS_SUCCESS \<and> q_content qs q = b # q_content qs' q
    | None \<Rightarrow> st \<noteq> OS_SUCCESS \<and> qs' = qs"
    and "p \<noteq> q \<Longrightarrow> q_content qs' p = q_content qs p"
    and "dom qs' = dom qs" and "queues_ok qs \<Longrightarrow> queues_ok qs'"
  using assms
  by (auto simp: OS_QueueGet_def q_content_def queues_ok_def split: option.splits if_splits list.splits)
    (metis Suc_leD length_Cons)+

lemma OS_QueueCreate_content:
  assumes "OS_QueueCreate res trunc d qs = (st, q, qs')" and "snd res \<notin> dom qs"
  shows "q_content qs' p = q_content qs p"
    and "queues_ok qs \<Longrightarrow> snd res \<noteq> OS_OBJECT_ID_UNDEFINED \<Longrightarrow> queues_ok qs'"
    and "dom qs' = (if st = OS_SUCCESS then insert q (dom qs) else dom qs)"
    and "st = OS_SUCCESS \<Longrightarrow> q = snd res"
  using assms by (auto simp: OS_QueueCreate_def q_content_def queues_ok_def dom_def split: if_splits option.splits)

lemma OS_QueueDelete_content:
  assumes "OS_QueueDelete q qs = (st, qs')"
  shows "q_content qs' p = (if p = q then [] else q_content qs p)"
    and "dom qs' = dom qs - {q}" and "queues_ok qs \<Longrightarrow> queues_ok qs'"
  using assms by (auto simp: OS_QueueDelete_def q_content_def queues_ok_def split: if_splits)

end
