(* ===== verification/Sb_Defs.thy ===== *)
theory Sb_Defs
  imports Cfe_Sb Osal_Queue
begin

text \<open>
  The state of the software bus (\<open>cfe_sb_priv.h\<close>) and of its routing module (\<open>cfe_sbr_route_unsorted.c\<close>,
  \<open>cfe_sbr_map_direct.c\<close>) with the routines they share: resource ids (\<open>cfe_resourceid_api.c\<close>),
  pipe descriptors, routes, destination lists, message buffers with their tracking lists and use
  counts (\<open>cfe_sb_buf.c\<close>, \<open>cfe_sb_priv.c\<close>).

  Destination blocks and buffer descriptors live in a memory pool. The model keeps them in two partial
  maps from addresses; an address that is not in the map is not allocated, and a routine that follows
  such an address, or \<open>NULL\<close>, has no result (\<open>None\<close>).
\<close>

section \<open>Constants\<close>

abbreviation (input) CFE_PLATFORM_SB_MAX_PIPES :: nat where "CFE_PLATFORM_SB_MAX_PIPES \<equiv> 64"
abbreviation (input) CFE_PLATFORM_SB_MAX_MSG_IDS :: nat where "CFE_PLATFORM_SB_MAX_MSG_IDS \<equiv> 256"
abbreviation (input) CFE_PLATFORM_SB_MAX_DEST_PER_PKT :: nat where "CFE_PLATFORM_SB_MAX_DEST_PER_PKT \<equiv> 16"
abbreviation (input) CFE_PLATFORM_SB_DEFAULT_MSG_LIMIT :: u16 where "CFE_PLATFORM_SB_DEFAULT_MSG_LIMIT \<equiv> 4"
abbreviation (input) OS_MAX_TASKS :: nat where "OS_MAX_TASKS \<equiv> 64"

abbreviation (input) CFE_RESOURCEID_UNDEFINED :: u32 where "CFE_RESOURCEID_UNDEFINED \<equiv> 0"
abbreviation (input) CFE_RESOURCEID_RESERVED :: u32 where "CFE_RESOURCEID_RESERVED \<equiv> 0xFFFFFFFF"
abbreviation (input) CFE_RESOURCEID_MAX :: u32 where "CFE_RESOURCEID_MAX \<equiv> 0xFFFF"
abbreviation (input) CFE_SB_PIPEID_BASE :: u32 where "CFE_SB_PIPEID_BASE \<equiv> 0x160000"
abbreviation (input) CFE_SB_INVALID_PIPE :: u32 where "CFE_SB_INVALID_PIPE \<equiv> 0"
abbreviation (input) CFE_ES_APPID_UNDEFINED :: u32 where "CFE_ES_APPID_UNDEFINED \<equiv> 0"
abbreviation (input) CFE_SB_INVALID_MSG_ID :: u32 where "CFE_SB_INVALID_MSG_ID \<equiv> 0"
abbreviation (input) CFE_SBR_INVALID_ROUTE_ID :: nat where "CFE_SBR_INVALID_ROUTE_ID \<equiv> 0"

abbreviation (input) CFE_SB_INACTIVE :: u8 where "CFE_SB_INACTIVE \<equiv> 0"
abbreviation (input) CFE_SB_ACTIVE :: u8 where "CFE_SB_ACTIVE \<equiv> 1"
abbreviation (input) CFE_SB_MSG_GLOBAL :: u8 where "CFE_SB_MSG_GLOBAL \<equiv> 0"
abbreviation (input) CFE_SB_MSG_LOCAL :: u8 where "CFE_SB_MSG_LOCAL \<equiv> 1"
abbreviation (input) CFE_SB_DISABLE :: u32 where "CFE_SB_DISABLE \<equiv> 0"
abbreviation (input) CFE_SB_ENABLE :: u32 where "CFE_SB_ENABLE \<equiv> 1"
abbreviation (input) CFE_SB_PIPEOPTS_IGNOREMINE :: u8 where "CFE_SB_PIPEOPTS_IGNOREMINE \<equiv> 1"

abbreviation (input) CFE_SB_TIME_OUT :: int where "CFE_SB_TIME_OUT \<equiv> 0xca000001 - 0x100000000"
abbreviation (input) CFE_SB_NO_MESSAGE :: int where "CFE_SB_NO_MESSAGE \<equiv> 0xca000002 - 0x100000000"
abbreviation (input) CFE_SB_MAX_PIPES_MET :: int where "CFE_SB_MAX_PIPES_MET \<equiv> 0xca000004 - 0x100000000"
abbreviation (input) CFE_SB_PIPE_CR_ERR :: int where "CFE_SB_PIPE_CR_ERR \<equiv> 0xca000005 - 0x100000000"
abbreviation (input) CFE_SB_PIPE_RD_ERR :: int where "CFE_SB_PIPE_RD_ERR \<equiv> 0xca000006 - 0x100000000"
abbreviation (input) CFE_SB_BUF_ALOC_ERR :: int where "CFE_SB_BUF_ALOC_ERR \<equiv> 0xca000008 - 0x100000000"
abbreviation (input) CFE_SB_MAX_MSGS_MET :: int where "CFE_SB_MAX_MSGS_MET \<equiv> 0xca000009 - 0x100000000"
abbreviation (input) CFE_SB_MAX_DESTS_MET :: int where "CFE_SB_MAX_DESTS_MET \<equiv> 0xca00000a - 0x100000000"
abbreviation (input) CFE_SB_BUFFER_INVALID :: int where "CFE_SB_BUFFER_INVALID \<equiv> 0xca00000e - 0x100000000"
abbreviation (input) CFE_ES_ERR_RESOURCEID_NOT_VALID :: int where "CFE_ES_ERR_RESOURCEID_NOT_VALID \<equiv> 0xc4000001 - 0x100000000"

section \<open>State\<close>

text \<open>
  A node of a tracking list is the head of one of the two lists, kept in the globals, or the first
  member of a buffer descriptor.
\<close>

datatype link = InTransit | ZeroCopy | BufLink nat

record CFE_SB_BufferLink =
  Next :: link
  Prev :: link

record CFE_SB_BufferD =
  bd_Link :: CFE_SB_BufferLink
  bd_MsgId :: u32
  bd_AppId :: u32
  bd_AllocatedSize :: nat
  bd_ContentSize :: nat
  bd_ContentType :: CFE_MSG_Type_t
  bd_NeedsUpdate :: bool
  bd_UseCount :: u16
  bd_Content :: bytes

record CFE_SB_DestinationD =
  dst_PipeId :: u32
  dst_Active :: u8
  dst_MsgId2PipeLim :: u16
  dst_BuffCount :: u16
  dst_DestCnt :: u16
  dst_Scope :: u8
  dst_Prev :: "nat option"
  dst_Next :: "nat option"

record CFE_SB_PipeD =
  pd_PipeId :: u32
  pd_Opts :: u8
  pd_AppId :: u32
  pd_SysQueueId :: u32
  pd_SendErrors :: u16
  pd_MaxQueueDepth :: u16
  pd_CurrentQueueDepth :: u16
  pd_PeakQueueDepth :: u16
  pd_LastBuffer :: "nat option"

record CFE_SBR_RouteEntry =
  rt_ListHeadPtr :: "nat option"
  rt_MsgId :: u32
  rt_SeqCnt :: u16

text \<open>The counters of the housekeeping packet and the statistics packet.\<close>

record CFE_SB_Housekeeping =
  CommandCounter :: u8
  CommandErrorCounter :: u8
  NoSubscribersCounter :: u8
  MsgSendErrorCounter :: u8
  MsgReceiveErrorCounter :: u8
  InternalErrorCounter :: u8
  CreatePipeErrorCounter :: u8
  SubscribeErrorCounter :: u8
  PipeOptsErrorCounter :: u8
  DuplicateSubscriptionsCounter :: u8
  GetPipeIdByNameErrorCounter :: u8
  PipeOverflowErrorCounter :: u16
  MsgLimitErrorCounter :: u16

record CFE_SB_Stats =
  MsgIdsInUse :: u32
  PeakMsgIdsInUse :: u32
  PipesInUse :: u32
  PeakPipesInUse :: u32
  MemInUse :: u32
  PeakMemInUse :: u32
  SubscriptionsInUse :: u32
  PeakSubscriptionsInUse :: u32
  SBBuffersInUse :: u32
  PeakSBBuffersInUse :: u32

record sb_state =
  PipeTbl :: "CFE_SB_PipeD list"
  LastPipeId :: u32
  SubscriptionReporting :: u32
  StopRecurseFlags :: "u32 list"
  HK :: CFE_SB_Housekeeping
  Stat :: CFE_SB_Stats
  InTransitList :: CFE_SB_BufferLink
  ZeroCopyList :: CFE_SB_BufferLink
  Bufs :: "nat \<Rightarrow> CFE_SB_BufferD option"
  Dests :: "nat \<Rightarrow> CFE_SB_DestinationD option"
  RoutingTbl :: "CFE_SBR_RouteEntry list"
  RouteIdxTop :: nat
  MsgMap :: "nat \<Rightarrow> nat"
  Queues :: os_queues
  sb_events :: "event list"

text \<open>
  What a call finds around it: who calls, what the memory pool, the operating system and the clock
  answer, and what is left in pool memory that is not in use.
\<close>

record sb_env =
  CallerApp :: "int \<times> u32"
  CallerTask :: "nat option"
  GetPoolBuf :: "sb_state \<Rightarrow> nat \<Rightarrow> int \<times> nat"
  PutPoolBuf :: "sb_state \<Rightarrow> nat \<Rightarrow> int"
  BUFFERD_CONTENT_OFFSET :: nat
  DESTINATION_SIZE :: nat
  PoolByte :: "nat \<Rightarrow> u8"
  PoolWord :: "nat \<Rightarrow> u32"
  QueueResult :: "int \<times> u32"
  QueueTrunc :: nat
  PutErr :: "u32 \<Rightarrow> int"
  GetErr :: int
  ResourceName :: "u32 \<Rightarrow> int \<times> string"
  QueueIdByName :: "string \<Rightarrow> int \<times> u32"
  Clock :: CFE_TIME_SysTime
  Host :: endian

text \<open>Events, and a field of a counter record.\<close>

definition sb_event :: "nat \<Rightarrow> nat \<Rightarrow> int list \<Rightarrow> sb_state \<Rightarrow> sb_state" where
  "sb_event eid ty args s = s\<lparr>sb_events := sb_events s @ [\<lparr>ev_id = eid, ev_type = ty, ev_args = args\<rparr>]\<rparr>"

definition upd_HK :: "(CFE_SB_Housekeeping \<Rightarrow> CFE_SB_Housekeeping) \<Rightarrow> sb_state \<Rightarrow> sb_state" where
  "upd_HK f s = s\<lparr>HK := f (HK s)\<rparr>"

definition upd_Stat :: "(CFE_SB_Stats \<Rightarrow> CFE_SB_Stats) \<Rightarrow> sb_state \<Rightarrow> sb_state" where
  "upd_Stat f s = s\<lparr>Stat := f (Stat s)\<rparr>"

section \<open>Resource ids\<close>

definition CFE_ResourceId_GetBase :: "u32 \<Rightarrow> u32" where
  "CFE_ResourceId_GetBase i = i AND NOT CFE_RESOURCEID_MAX"

definition CFE_ResourceId_GetSerial :: "u32 \<Rightarrow> u32" where
  "CFE_ResourceId_GetSerial i = i AND CFE_RESOURCEID_MAX"

definition CFE_ResourceId_ToIndex :: "u32 \<Rightarrow> u32 \<Rightarrow> nat \<Rightarrow> int + nat" where
  "CFE_ResourceId_ToIndex i base tsize =
     (let Serial = i - base
      in if Serial > CFE_RESOURCEID_MAX \<or> tsize = 0 then Inl CFE_ES_ERR_RESOURCEID_NOT_VALID
         else Inr (unat Serial mod tsize))"

primrec find_next_loop :: "nat \<Rightarrow> u32 \<Rightarrow> u32 \<Rightarrow> nat \<Rightarrow> (u32 \<Rightarrow> bool) \<Rightarrow> u32" where
  "find_next_loop 0 Serial ty tsize chk = CFE_RESOURCEID_UNDEFINED"
| "find_next_loop (Suc n) Serial ty tsize chk =
     (let Serial = Serial + 1;
          Serial = (if Serial \<ge> CFE_RESOURCEID_MAX then Serial mod of_nat tsize else Serial);
          CheckId = ty + Serial
      in if chk CheckId then find_next_loop n Serial ty tsize chk else CheckId)"

definition CFE_ResourceId_FindNext :: "u32 \<Rightarrow> nat \<Rightarrow> (u32 \<Rightarrow> bool) \<Rightarrow> u32" where
  "CFE_ResourceId_FindNext start tsize chk =
     find_next_loop tsize (CFE_ResourceId_GetSerial start) (CFE_ResourceId_GetBase start) tsize chk"

section \<open>Pipe descriptors\<close>

definition CFE_SB_PipeId_ToIndex :: "u32 \<Rightarrow> int + nat" where
  "CFE_SB_PipeId_ToIndex p = CFE_ResourceId_ToIndex p CFE_SB_PIPEID_BASE CFE_PLATFORM_SB_MAX_PIPES"

text \<open>A pointer to a descriptor is its index in the pipe table.\<close>

definition CFE_SB_LocatePipeDescByID :: "u32 \<Rightarrow> nat option" where
  "CFE_SB_LocatePipeDescByID p = (case CFE_SB_PipeId_ToIndex p of Inr idx \<Rightarrow> Some idx | Inl _ \<Rightarrow> None)"

definition CFE_SB_PipeDescIsUsed :: "CFE_SB_PipeD \<Rightarrow> bool" where
  "CFE_SB_PipeDescIsUsed d \<longleftrightarrow> pd_PipeId d \<noteq> CFE_RESOURCEID_UNDEFINED"

definition CFE_SB_PipeDescIsMatch :: "sb_state \<Rightarrow> nat option \<Rightarrow> u32 \<Rightarrow> bool" where
  "CFE_SB_PipeDescIsMatch s i p \<longleftrightarrow> (case i of None \<Rightarrow> False | Some i \<Rightarrow> pd_PipeId (PipeTbl s ! i) = p)"

definition CFE_SB_CheckPipeDescSlotUsed :: "sb_state \<Rightarrow> u32 \<Rightarrow> bool" where
  "CFE_SB_CheckPipeDescSlotUsed s p = (case CFE_SB_LocatePipeDescByID p of
      None \<Rightarrow> True | Some i \<Rightarrow> CFE_SB_PipeDescIsUsed (PipeTbl s ! i))"

definition upd_Pipe :: "nat \<Rightarrow> (CFE_SB_PipeD \<Rightarrow> CFE_SB_PipeD) \<Rightarrow> sb_state \<Rightarrow> sb_state" where
  "upd_Pipe i f s = s\<lparr>PipeTbl := upd_at i f (PipeTbl s)\<rparr>"

definition CFE_SB_PipeDescSetUsed :: "nat \<Rightarrow> u32 \<Rightarrow> sb_state \<Rightarrow> sb_state" where
  "CFE_SB_PipeDescSetUsed i p = upd_Pipe i (\<lambda>d. d\<lparr>pd_PipeId := p\<rparr>)"

definition CFE_SB_PipeDescSetFree :: "nat \<Rightarrow> sb_state \<Rightarrow> sb_state" where
  "CFE_SB_PipeDescSetFree i = upd_Pipe i (\<lambda>d. d\<lparr>pd_PipeId := CFE_SB_INVALID_PIPE\<rparr>)"

definition pipe_clear :: CFE_SB_PipeD where
  "pipe_clear = \<lparr>pd_PipeId = 0, pd_Opts = 0, pd_AppId = 0, pd_SysQueueId = 0, pd_SendErrors = 0,
     pd_MaxQueueDepth = 0, pd_CurrentQueueDepth = 0, pd_PeakQueueDepth = 0, pd_LastBuffer = None\<rparr>"

section \<open>The routing module\<close>

definition CFE_SBR_IsValidRouteId :: "nat \<Rightarrow> bool" where
  "CFE_SBR_IsValidRouteId r \<longleftrightarrow> r \<noteq> 0 \<and> r \<le> CFE_PLATFORM_SB_MAX_MSG_IDS"

definition CFE_SBR_ValueToRouteId :: "nat \<Rightarrow> nat" where
  "CFE_SBR_ValueToRouteId v = 1 + v"

definition CFE_SBR_RouteIdToValue :: "nat \<Rightarrow> nat" where
  "CFE_SBR_RouteIdToValue r = r - 1"

definition CFE_SBR_SetRouteId :: "u32 \<Rightarrow> nat \<Rightarrow> sb_state \<Rightarrow> nat \<times> sb_state" where
  "CFE_SBR_SetRouteId m r s =
     (0, if CFE_SB_IsValidMsgId m then s\<lparr>MsgMap := (MsgMap s)(unat m := r)\<rparr> else s)"

definition CFE_SBR_GetRouteId :: "u32 \<Rightarrow> sb_state \<Rightarrow> nat" where
  "CFE_SBR_GetRouteId m s = (if CFE_SB_IsValidMsgId m then MsgMap s (unat m) else CFE_SBR_INVALID_ROUTE_ID)"

definition upd_Route :: "nat \<Rightarrow> (CFE_SBR_RouteEntry \<Rightarrow> CFE_SBR_RouteEntry) \<Rightarrow> sb_state \<Rightarrow> sb_state" where
  "upd_Route i f s = s\<lparr>RoutingTbl := upd_at i f (RoutingTbl s)\<rparr>"

definition CFE_SBR_AddRoute :: "u32 \<Rightarrow> sb_state \<Rightarrow> nat \<times> nat \<times> sb_state" where
  "CFE_SBR_AddRoute m s =
     (if CFE_SB_IsValidMsgId m \<and> RouteIdxTop s < CFE_PLATFORM_SB_MAX_MSG_IDS
      then let routeid = CFE_SBR_ValueToRouteId (RouteIdxTop s);
               (collisions, s) = CFE_SBR_SetRouteId m routeid s;
               s = upd_Route (RouteIdxTop s) (\<lambda>r. r\<lparr>rt_MsgId := m\<rparr>) s
           in (routeid, collisions, s\<lparr>RouteIdxTop := RouteIdxTop s + 1\<rparr>)
      else (CFE_SBR_INVALID_ROUTE_ID, 0, s))"

definition CFE_SBR_GetMsgId :: "nat \<Rightarrow> sb_state \<Rightarrow> u32" where
  "CFE_SBR_GetMsgId r s =
     (if CFE_SBR_IsValidRouteId r then rt_MsgId (RoutingTbl s ! CFE_SBR_RouteIdToValue r) else CFE_SB_INVALID_MSG_ID)"

definition CFE_SBR_GetDestListHeadPtr :: "nat \<Rightarrow> sb_state \<Rightarrow> nat option" where
  "CFE_SBR_GetDestListHeadPtr r s =
     (if CFE_SBR_IsValidRouteId r then rt_ListHeadPtr (RoutingTbl s ! CFE_SBR_RouteIdToValue r) else None)"

definition CFE_SBR_SetDestListHeadPtr :: "nat \<Rightarrow> nat option \<Rightarrow> sb_state \<Rightarrow> sb_state" where
  "CFE_SBR_SetDestListHeadPtr r p s =
     (if CFE_SBR_IsValidRouteId r then upd_Route (CFE_SBR_RouteIdToValue r) (\<lambda>e. e\<lparr>rt_ListHeadPtr := p\<rparr>) s else s)"

definition CFE_SBR_IncrementSequenceCounter :: "nat \<Rightarrow> sb_state \<Rightarrow> sb_state" where
  "CFE_SBR_IncrementSequenceCounter r s =
     (if CFE_SBR_IsValidRouteId r
      then upd_Route (CFE_SBR_RouteIdToValue r) (\<lambda>e. e\<lparr>rt_SeqCnt := CFE_MSG_GetNextSequenceCount (rt_SeqCnt e)\<rparr>) s
      else s)"

definition CFE_SBR_GetSequenceCounter :: "nat \<Rightarrow> sb_state \<Rightarrow> u16" where
  "CFE_SBR_GetSequenceCounter r s =
     (if CFE_SBR_IsValidRouteId r then rt_SeqCnt (RoutingTbl s ! CFE_SBR_RouteIdToValue r) else 0)"

text \<open>The walk over the routes; a throttle bounds it and learns where the next one starts.\<close>

definition CFE_SBR_ForEachRouteId :: "(nat \<Rightarrow> sb_state \<Rightarrow> sb_state option) \<Rightarrow> sb_state \<Rightarrow> sb_state option" where
  "CFE_SBR_ForEachRouteId callback s =
     for_loop 0 (RouteIdxTop s) (\<lambda>i. callback (CFE_SBR_ValueToRouteId i)) s"

section \<open>Destination lists\<close>

definition upd_Dest :: "nat \<Rightarrow> (CFE_SB_DestinationD \<Rightarrow> CFE_SB_DestinationD) \<Rightarrow> sb_state \<Rightarrow> sb_state option" where
  "upd_Dest a f s = (case Dests s a of None \<Rightarrow> None | Some d \<Rightarrow> Some (s\<lparr>Dests := (Dests s)(a \<mapsto> f d)\<rparr>))"

partial_function (option) find_dest ::
    "(nat \<Rightarrow> CFE_SB_DestinationD option) \<Rightarrow> u32 \<Rightarrow> nat option \<Rightarrow> nat option option" where
  "find_dest ds p ptr = (case ptr of
      None \<Rightarrow> Some None
    | Some a \<Rightarrow> Option.bind (ds a) (\<lambda>d. if dst_PipeId d = p then Some (Some a) else find_dest ds p (dst_Next d)))"

definition CFE_SB_GetDestPtr :: "nat \<Rightarrow> u32 \<Rightarrow> sb_state \<Rightarrow> nat option option" where
  "CFE_SB_GetDestPtr r p s = find_dest (Dests s) p (CFE_SBR_GetDestListHeadPtr r s)"

definition CFE_SB_AddDestNode :: "nat \<Rightarrow> nat \<Rightarrow> sb_state \<Rightarrow> sb_state option" where
  "CFE_SB_AddDestNode r node s = do {
     s \<leftarrow> (case CFE_SBR_GetDestListHeadPtr r s of
         None \<Rightarrow> upd_Dest node (\<lambda>d. d\<lparr>dst_Next := None, dst_Prev := None\<rparr>) s
       | Some wbs \<Rightarrow> do {
           s \<leftarrow> upd_Dest node (\<lambda>d. d\<lparr>dst_Next := Some wbs, dst_Prev := None\<rparr>) s;
           upd_Dest wbs (\<lambda>d. d\<lparr>dst_Prev := Some node\<rparr>) s
         });
     Some (CFE_SBR_SetDestListHeadPtr r (Some node) s)
   }"

definition CFE_SB_RemoveDestNode :: "nat \<Rightarrow> nat \<Rightarrow> sb_state \<Rightarrow> sb_state option" where
  "CFE_SB_RemoveDestNode r node s = do {
     n \<leftarrow> Dests s node;
     s \<leftarrow> (case (dst_Prev n, dst_Next n) of
         (None, None) \<Rightarrow> Some (CFE_SBR_SetDestListHeadPtr r None s)
       | (None, Some nxt) \<Rightarrow> do {
           s \<leftarrow> upd_Dest nxt (\<lambda>d. d\<lparr>dst_Prev := None\<rparr>) s;
           Some (CFE_SBR_SetDestListHeadPtr r (Some nxt) s)
         }
       | (Some prv, None) \<Rightarrow> upd_Dest prv (\<lambda>d. d\<lparr>dst_Next := None\<rparr>) s
       | (Some prv, Some nxt) \<Rightarrow> do {
           s \<leftarrow> upd_Dest prv (\<lambda>d. d\<lparr>dst_Next := Some nxt\<rparr>) s;
           upd_Dest nxt (\<lambda>d. d\<lparr>dst_Prev := Some prv\<rparr>) s
         });
     upd_Dest node (\<lambda>d. d\<lparr>dst_Next := None, dst_Prev := None\<rparr>) s
   }"

text \<open>
  Memory in use is adjusted by what the pool answers. A block that is returned to the pool is no
  longer allocated.
\<close>

definition add_MemInUse :: "u32 \<Rightarrow> CFE_SB_Stats \<Rightarrow> CFE_SB_Stats" where
  "add_MemInUse n t = (let m = MemInUse t + n
     in t\<lparr>MemInUse := m, PeakMemInUse := if m > PeakMemInUse t then m else PeakMemInUse t\<rparr>)"

definition CFE_SB_GetDestinationBlk :: "sb_env \<Rightarrow> sb_state \<Rightarrow> (nat \<times> sb_state) option" where
  "CFE_SB_GetDestinationBlk e s =
     (let (Stat, addr) = GetPoolBuf e s (DESTINATION_SIZE e)
      in if Stat < 0 then None else Some (addr, upd_Stat (add_MemInUse (of_int Stat)) s))"

definition CFE_SB_PutDestinationBlk :: "sb_env \<Rightarrow> nat \<Rightarrow> sb_state \<Rightarrow> sb_state option" where
  "CFE_SB_PutDestinationBlk e a s =
     (if Dests s a = None then None
      else let Stat = PutPoolBuf e s a; s = s\<lparr>Dests := (Dests s)(a := None)\<rparr>
           in Some (if Stat > 0 then upd_Stat (\<lambda>t. t\<lparr>MemInUse := MemInUse t - of_int Stat\<rparr>) s else s))"

definition CFE_SB_RemoveDest :: "sb_env \<Rightarrow> nat \<Rightarrow> nat \<Rightarrow> sb_state \<Rightarrow> sb_state option" where
  "CFE_SB_RemoveDest e r a s = do {
     s \<leftarrow> CFE_SB_RemoveDestNode r a s;
     s \<leftarrow> CFE_SB_PutDestinationBlk e a s;
     Some (upd_Stat (\<lambda>t. t\<lparr>SubscriptionsInUse := SubscriptionsInUse t - 1\<rparr>) s)
   }"

section \<open>Tracking lists\<close>

definition get_link :: "link \<Rightarrow> sb_state \<Rightarrow> CFE_SB_BufferLink option" where
  "get_link l s = (case l of
      InTransit \<Rightarrow> Some (InTransitList s)
    | ZeroCopy \<Rightarrow> Some (ZeroCopyList s)
    | BufLink b \<Rightarrow> map_option bd_Link (Bufs s b))"

definition upd_Buf :: "nat \<Rightarrow> (CFE_SB_BufferD \<Rightarrow> CFE_SB_BufferD) \<Rightarrow> sb_state \<Rightarrow> sb_state option" where
  "upd_Buf b f s = (case Bufs s b of None \<Rightarrow> None | Some d \<Rightarrow> Some (s\<lparr>Bufs := (Bufs s)(b \<mapsto> f d)\<rparr>))"

definition upd_link :: "link \<Rightarrow> (CFE_SB_BufferLink \<Rightarrow> CFE_SB_BufferLink) \<Rightarrow> sb_state \<Rightarrow> sb_state option" where
  "upd_link l f s = (case l of
      InTransit \<Rightarrow> Some (s\<lparr>InTransitList := f (InTransitList s)\<rparr>)
    | ZeroCopy \<Rightarrow> Some (s\<lparr>ZeroCopyList := f (ZeroCopyList s)\<rparr>)
    | BufLink b \<Rightarrow> upd_Buf b (\<lambda>d. d\<lparr>bd_Link := f (bd_Link d)\<rparr>) s)"

definition CFE_SB_TrackingListReset :: "link \<Rightarrow> sb_state \<Rightarrow> sb_state option" where
  "CFE_SB_TrackingListReset l = upd_link l (\<lambda>_. \<lparr>Next = l, Prev = l\<rparr>)"

definition CFE_SB_TrackingListRemove :: "link \<Rightarrow> sb_state \<Rightarrow> sb_state option" where
  "CFE_SB_TrackingListRemove node s = do {
     n \<leftarrow> get_link node s;
     s \<leftarrow> upd_link (Prev n) (\<lambda>x. x\<lparr>Next := Next n\<rparr>) s;
     n \<leftarrow> get_link node s;
     s \<leftarrow> upd_link (Next n) (\<lambda>x. x\<lparr>Prev := Prev n\<rparr>) s;
     CFE_SB_TrackingListReset node s
   }"

definition CFE_SB_TrackingListAdd :: "link \<Rightarrow> link \<Rightarrow> sb_state \<Rightarrow> sb_state option" where
  "CFE_SB_TrackingListAdd lst node s = do {
     l \<leftarrow> get_link lst s;
     s \<leftarrow> upd_link node (\<lambda>x. x\<lparr>Prev := Prev l\<rparr>) s;
     s \<leftarrow> upd_link node (\<lambda>x. x\<lparr>Next := lst\<rparr>) s;
     n \<leftarrow> get_link node s;
     s \<leftarrow> upd_link (Prev n) (\<lambda>x. x\<lparr>Next := node\<rparr>) s;
     n \<leftarrow> get_link node s;
     upd_link (Next n) (\<lambda>x. x\<lparr>Prev := node\<rparr>) s
   }"

section \<open>Message buffers\<close>

definition inc_Buffers :: "CFE_SB_Stats \<Rightarrow> CFE_SB_Stats" where
  "inc_Buffers t = (let n = SBBuffersInUse t + 1
     in t\<lparr>SBBuffersInUse := n, PeakSBBuffersInUse := if n > PeakSBBuffersInUse t then n else PeakSBBuffersInUse t\<rparr>)"

text \<open>A new buffer holds whatever the pool memory holds; its descriptor has been cleared.\<close>

definition CFE_SB_GetBufferFromPool :: "sb_env \<Rightarrow> nat \<Rightarrow> sb_state \<Rightarrow> (nat \<times> sb_state) option" where
  "CFE_SB_GetBufferFromPool e MaxMsgSize s =
     (let AllocSize = MaxMsgSize + BUFFERD_CONTENT_OFFSET e;
          (stat1, addr) = GetPoolBuf e s AllocSize
      in if stat1 < 0 then None
         else let s = upd_Stat inc_Buffers s;
                  s = upd_Stat (add_MemInUse (of_nat AllocSize)) s;
                  bd = \<lparr>bd_Link = \<lparr>Next = BufLink addr, Prev = BufLink addr\<rparr>, bd_MsgId = CFE_SB_INVALID_MSG_ID,
                        bd_AppId = CFE_ES_APPID_UNDEFINED, bd_AllocatedSize = AllocSize, bd_ContentSize = 0,
                        bd_ContentType = CFE_MSG_Type_Invalid, bd_NeedsUpdate = False, bd_UseCount = 1,
                        bd_Content = map (PoolByte e) [0..<MaxMsgSize]\<rparr>
              in Some (addr, s\<lparr>Bufs := (Bufs s)(addr \<mapsto> bd)\<rparr>))"

definition CFE_SB_ReturnBufferToPool :: "nat \<Rightarrow> sb_state \<Rightarrow> sb_state option" where
  "CFE_SB_ReturnBufferToPool b s = do {
     s \<leftarrow> CFE_SB_TrackingListRemove (BufLink b) s;
     let s = upd_Stat (\<lambda>t. t\<lparr>SBBuffersInUse := SBBuffersInUse t - 1\<rparr>) s;
     d \<leftarrow> Bufs s b;
     let s = upd_Stat (\<lambda>t. t\<lparr>MemInUse := MemInUse t - of_nat (bd_AllocatedSize d)\<rparr>) s;
     Some (s\<lparr>Bufs := (Bufs s)(b := None)\<rparr>)
   }"

definition CFE_SB_IncrBufUseCnt :: "nat \<Rightarrow> sb_state \<Rightarrow> sb_state option" where
  "CFE_SB_IncrBufUseCnt b s = do {
     d \<leftarrow> Bufs s b;
     if bd_UseCount d < 0x7FFF then upd_Buf b (\<lambda>d. d\<lparr>bd_UseCount := bd_UseCount d + 1\<rparr>) s else Some s
   }"

definition CFE_SB_DecrBufUseCnt :: "nat \<Rightarrow> sb_state \<Rightarrow> sb_state option" where
  "CFE_SB_DecrBufUseCnt b s = do {
     d \<leftarrow> Bufs s b;
     if bd_UseCount d > 0
     then do {
       s \<leftarrow> upd_Buf b (\<lambda>d. d\<lparr>bd_UseCount := bd_UseCount d - 1\<rparr>) s;
       if bd_UseCount d - 1 = 0 then CFE_SB_ReturnBufferToPool b s else Some s
     }
     else Some s
   }"

section \<open>Events that may recur\<close>

definition CFE_SB_RequestToSendEvent :: "sb_env \<Rightarrow> nat \<Rightarrow> sb_state \<Rightarrow> bool \<times> sb_state" where
  "CFE_SB_RequestToSendEvent e bitno s = (case CallerTask e of
      None \<Rightarrow> (False, s)
    | Some i \<Rightarrow> if bit (StopRecurseFlags s ! i) bitno then (False, s)
        else (True, s\<lparr>StopRecurseFlags := upd_at i (set_bit bitno) (StopRecurseFlags s)\<rparr>))"

definition CFE_SB_FinishSendEvent :: "sb_env \<Rightarrow> nat \<Rightarrow> sb_state \<Rightarrow> sb_state" where
  "CFE_SB_FinishSendEvent e bitno s = (case CallerTask e of
      None \<Rightarrow> s
    | Some i \<Rightarrow> s\<lparr>StopRecurseFlags := upd_at i (unset_bit bitno) (StopRecurseFlags s)\<rparr>)"

text \<open>The pattern of every event of the send path: ask, send, finish.\<close>

definition guarded_event :: "sb_env \<Rightarrow> nat \<Rightarrow> nat \<Rightarrow> nat \<Rightarrow> int list \<Rightarrow> sb_state \<Rightarrow> sb_state" where
  "guarded_event e bitno eid ty args s =
     (let (granted, s) = CFE_SB_RequestToSendEvent e bitno s
      in if granted then CFE_SB_FinishSendEvent e bitno (sb_event eid ty args s) else s)"

end
