(* ===== verification/Sb_Send.thy ===== *)
theory Sb_Send
  imports Sb_Defs
begin

text \<open>
  Sending a message (\<open>cfe_sb_api.c\<close>): the check of a message and of its route, the broadcast of a buffer
  to the destinations of a route, \<open>CFE_SB_TransmitMsg\<close>, and the zero-copy buffers.

  A function that takes the lock of the bus several times is the composition of its locked sections,
  each a definition of its own, and of what runs between them: the sections are the steps of the
  interleaving model.
\<close>

section \<open>The name of a pipe\<close>

abbreviation (input) CFE_SB_GETPIPENAME_EID :: nat where "CFE_SB_GETPIPENAME_EID \<equiv> 62"
abbreviation (input) CFE_SB_GETPIPENAME_NULL_PTR_EID :: nat where "CFE_SB_GETPIPENAME_NULL_PTR_EID \<equiv> 63"
abbreviation (input) CFE_SB_GETPIPENAME_ID_ERR_EID :: nat where "CFE_SB_GETPIPENAME_ID_ERR_EID \<equiv> 64"

text \<open>\<open>buf\<close> is the size of the caller's buffer, or nothing for a null pointer.\<close>

definition CFE_SB_GetPipeName :: "sb_env \<Rightarrow> nat option \<Rightarrow> u32 \<Rightarrow> sb_state \<Rightarrow> int \<times> string \<times> sb_state" where
  "CFE_SB_GetPipeName e buf p s =
     (let idx = CFE_SB_LocatePipeDescByID p;
          (Status, ev, name) =
            (if \<not> CFE_SB_PipeDescIsMatch s idx p then (CFE_SB_BAD_ARGUMENT, CFE_SB_GETPIPENAME_ID_ERR_EID, [])
             else if buf = None \<or> buf = Some 0 then (CFE_SB_BAD_ARGUMENT, CFE_SB_GETPIPENAME_NULL_PTR_EID, [])
             else let (OsStatus, name) = ResourceName e (pd_SysQueueId (PipeTbl s ! the idx))
                  in if OsStatus = OS_SUCCESS then (0, 0, name)
                     else (CFE_SB_BAD_ARGUMENT, CFE_SB_GETPIPENAME_ID_ERR_EID, []))
      in if Status = 0 then (Status, name, sb_event CFE_SB_GETPIPENAME_EID CFE_EVS_EventType_DEBUG [uint p] s)
         else (Status, [], sb_event ev CFE_EVS_EventType_ERROR [uint p] s))"

section \<open>The check of a message\<close>

abbreviation (input) CFE_SB_SEND_BAD_ARG_EID :: nat where "CFE_SB_SEND_BAD_ARG_EID \<equiv> 13"
abbreviation (input) CFE_SB_SEND_NO_SUBS_EID :: nat where "CFE_SB_SEND_NO_SUBS_EID \<equiv> 14"
abbreviation (input) CFE_SB_MSG_TOO_BIG_EID :: nat where "CFE_SB_MSG_TOO_BIG_EID \<equiv> 15"
abbreviation (input) CFE_SB_GET_BUF_ERR_EID :: nat where "CFE_SB_GET_BUF_ERR_EID \<equiv> 16"
abbreviation (input) CFE_SB_MSGID_LIM_ERR_EID :: nat where "CFE_SB_MSGID_LIM_ERR_EID \<equiv> 17"
abbreviation (input) CFE_SB_SEND_INV_MSGID_EID :: nat where "CFE_SB_SEND_INV_MSGID_EID \<equiv> 21"
abbreviation (input) CFE_SB_Q_FULL_ERR_EID :: nat where "CFE_SB_Q_FULL_ERR_EID \<equiv> 25"
abbreviation (input) CFE_SB_Q_WR_ERR_EID :: nat where "CFE_SB_Q_WR_ERR_EID \<equiv> 26"

text \<open>The locked section: the route of the message, counting a message nobody subscribed to.\<close>

definition validate_route :: "u32 \<Rightarrow> sb_state \<Rightarrow> nat \<times> nat \<times> sb_state" where
  "validate_route mid s =
     (let rid = CFE_SBR_GetRouteId mid s
      in if \<not> CFE_SBR_IsValidRouteId rid
         then (rid, CFE_SB_SEND_NO_SUBS_EID, upd_HK (\<lambda>h. h\<lparr>NoSubscribersCounter := NoSubscribersCounter h + 1\<rparr>) s)
         else (rid, 0, s))"

definition validate_event :: "sb_env \<Rightarrow> nat \<Rightarrow> u32 \<Rightarrow> nat \<Rightarrow> sb_state \<Rightarrow> sb_state" where
  "validate_event e ev mid sz s =
     (if ev = CFE_SB_SEND_BAD_ARG_EID then guarded_event e 5 ev CFE_EVS_EventType_ERROR [] s
      else if ev = CFE_SB_SEND_INV_MSGID_EID then guarded_event e 6 ev CFE_EVS_EventType_ERROR [uint mid] s
      else if ev = CFE_SB_MSG_TOO_BIG_EID then guarded_event e 7 ev CFE_EVS_EventType_ERROR [uint mid, int sz] s
      else if ev = CFE_SB_SEND_NO_SUBS_EID then guarded_event e 0 ev CFE_EVS_EventType_INFORMATION [uint mid] s
      else s)"

text \<open>
  The outputs (message id, size, route) keep the values the caller gave them until they are
  written. A null pointer is \<open>None\<close>.
\<close>

definition CFE_SB_TransmitMsgValidate ::
    "sb_env \<Rightarrow> bytes option \<Rightarrow> u32 \<times> nat \<times> nat \<Rightarrow> sb_state \<Rightarrow> int \<times> u32 \<times> nat \<times> nat \<times> sb_state" where
  "CFE_SB_TransmitMsgValidate e msg out s =
     (let (mid, sz, rid) = out;
          (Status, ev, mid, sz) = (case msg of
              None \<Rightarrow> (CFE_SB_BAD_ARGUMENT, CFE_SB_SEND_BAD_ARG_EID, mid, sz)
            | Some m \<Rightarrow>
                let mid = CFE_MSG_GetMsgId m
                in if \<not> CFE_SB_IsValidMsgId mid then (CFE_SB_BAD_ARGUMENT, CFE_SB_SEND_INV_MSGID_EID, mid, sz)
                   else let sz = CFE_MSG_GetSize m
                        in if sz > CFE_MISSION_SB_MAX_SB_MSG_SIZE
                           then (CFE_SB_MSG_TOO_BIG, CFE_SB_MSG_TOO_BIG_EID, mid, sz)
                           else (0, 0, mid, sz));
          (rid, ev, s) = (if Status = 0 then validate_route mid s else (rid, ev, s))
      in (Status, mid, sz, rid, validate_event e ev mid sz s))"

section \<open>The broadcast of a buffer\<close>

record CFE_SB_SendErrEventBuf =
  evb_EventId :: nat
  evb_OsStatus :: int
  evb_PipeId :: u32

text \<open>The event buffer has one entry per destination a route may have.\<close>

definition push_evt :: "CFE_SB_SendErrEventBuf \<Rightarrow> CFE_SB_SendErrEventBuf list \<Rightarrow> CFE_SB_SendErrEventBuf list option" where
  "push_evt v evs = (if length evs < CFE_PLATFORM_SB_MAX_DEST_PER_PKT then Some (evs @ [v]) else None)"

definition pipe_send_error :: "CFE_SB_PipeD \<Rightarrow> CFE_SB_PipeD" where
  "pipe_send_error p = p\<lparr>pd_SendErrors := pd_SendErrors p + 1\<rparr>"

definition pipe_deeper :: "CFE_SB_PipeD \<Rightarrow> CFE_SB_PipeD" where
  "pipe_deeper p = (let n = pd_CurrentQueueDepth p + 1
     in p\<lparr>pd_CurrentQueueDepth := n, pd_PeakQueueDepth := if n \<ge> pd_PeakQueueDepth p then n else pd_PeakQueueDepth p\<rparr>)"

text \<open>One destination of the loop.\<close>

definition broadcast_dest :: "sb_env \<Rightarrow> nat \<Rightarrow> nat \<Rightarrow> sb_state \<times> CFE_SB_SendErrEventBuf list \<Rightarrow>
    (sb_state \<times> CFE_SB_SendErrEventBuf list) option" where
  "broadcast_dest e b a x = do {
     let (s, evs) = x;
     d \<leftarrow> Dests s a;
     let pid = dst_PipeId d;
     let idx = (if dst_Active d = CFE_SB_ACTIVE then CFE_SB_LocatePipeDescByID pid else None);
     if \<not> CFE_SB_PipeDescIsMatch s idx pid then Some (s, evs)
     else do {
       let i = the idx;
       let p = PipeTbl s ! i;
       if pd_Opts p AND CFE_SB_PIPEOPTS_IGNOREMINE \<noteq> 0 \<and> pd_AppId p = snd (CallerApp e) then Some (s, evs)
       else if dst_BuffCount d \<ge> dst_MsgId2PipeLim d
       then do {
         evs \<leftarrow> push_evt \<lparr>evb_EventId = CFE_SB_MSGID_LIM_ERR_EID, evb_OsStatus = 0, evb_PipeId = pid\<rparr> evs;
         let s = upd_HK (\<lambda>h. h\<lparr>MsgLimitErrorCounter := MsgLimitErrorCounter h + 1\<rparr>) s;
         Some (upd_Pipe i pipe_send_error s, evs)
       }
       else do {
         let (OsStatus, qs) = OS_QueuePut (PutErr e (pd_SysQueueId p)) (pd_SysQueueId p) b (Queues s);
         let s = s\<lparr>Queues := qs\<rparr>;
         if OsStatus = OS_SUCCESS
         then do {
           s \<leftarrow> CFE_SB_IncrBufUseCnt b s;
           s \<leftarrow> upd_Dest a (\<lambda>d. d\<lparr>dst_BuffCount := dst_BuffCount d + 1, dst_DestCnt := dst_DestCnt d + 1\<rparr>) s;
           Some (upd_Pipe i pipe_deeper s, evs)
         }
         else do {
           let (eid, s) = (if OsStatus = OS_QUEUE_FULL
             then (CFE_SB_Q_FULL_ERR_EID, upd_HK (\<lambda>h. h\<lparr>PipeOverflowErrorCounter := PipeOverflowErrorCounter h + 1\<rparr>) s)
             else (CFE_SB_Q_WR_ERR_EID, upd_HK (\<lambda>h. h\<lparr>InternalErrorCounter := InternalErrorCounter h + 1\<rparr>) s));
           evs \<leftarrow> push_evt \<lparr>evb_EventId = eid, evb_OsStatus = OsStatus, evb_PipeId = pid\<rparr> evs;
           Some (upd_Pipe i pipe_send_error s, evs)
         }
       }
     }
   }"

partial_function (option) broadcast_loop :: "sb_env \<Rightarrow> nat \<Rightarrow> nat option \<Rightarrow>
    sb_state \<times> CFE_SB_SendErrEventBuf list \<Rightarrow> (sb_state \<times> CFE_SB_SendErrEventBuf list) option" where
  "broadcast_loop e b ptr x = (case ptr of
      None \<Rightarrow> Some x
    | Some a \<Rightarrow> Option.bind (broadcast_dest e b a x) (\<lambda>x.
        Option.bind (Dests (fst x) a) (\<lambda>d. broadcast_loop e b (dst_Next d) x)))"

text \<open>The header of a message that asks for it is updated under the lock.\<close>

definition broadcast_header :: "sb_env \<Rightarrow> nat \<Rightarrow> nat \<Rightarrow> sb_state \<Rightarrow> sb_state option" where
  "broadcast_header e b rid s = do {
     d \<leftarrow> Bufs s b;
     if bd_NeedsUpdate d
     then do {
       let s = CFE_SBR_IncrementSequenceCounter rid s;
       (_, content) \<leftarrow> CFE_MSG_UpdateHeader (Clock e) (bd_Content d) (CFE_SBR_GetSequenceCounter rid s);
       upd_Buf b (\<lambda>d. d\<lparr>bd_Content := content, bd_NeedsUpdate := False\<rparr>) s
     }
     else Some s
   }"

text \<open>The buffer becomes a buffer in transit and the sender's reference is given back.\<close>

definition broadcast_finish :: "nat \<Rightarrow> sb_state \<Rightarrow> sb_state option" where
  "broadcast_finish b s = do {
     s \<leftarrow> CFE_SB_TrackingListRemove (BufLink b) s;
     s \<leftarrow> upd_Buf b (\<lambda>d. d\<lparr>bd_AppId := CFE_ES_APPID_UNDEFINED\<rparr>) s;
     s \<leftarrow> CFE_SB_TrackingListAdd InTransit (BufLink b) s;
     CFE_SB_DecrBufUseCnt b s
   }"

text \<open>The locked section of the broadcast.\<close>

definition broadcast_locked :: "sb_env \<Rightarrow> nat \<Rightarrow> nat \<Rightarrow> sb_state \<Rightarrow> (sb_state \<times> CFE_SB_SendErrEventBuf list) option" where
  "broadcast_locked e b rid s = do {
     (s, evs) \<leftarrow> (if CFE_SBR_IsValidRouteId rid
       then do {
         s \<leftarrow> broadcast_header e b rid s;
         broadcast_loop e b (CFE_SBR_GetDestListHeadPtr rid s) (s, [])
       }
       else Some (s, []));
     let s = (if evs \<noteq> [] then upd_HK (\<lambda>h. h\<lparr>MsgSendErrorCounter := MsgSendErrorCounter h + 1\<rparr>) s else s);
     s \<leftarrow> broadcast_finish b s;
     Some (s, evs)
   }"

text \<open>
  The events are sent after the lock is released, when the buffer may have been returned to the
  pool: the message id they print is then what the pool memory holds.
\<close>

definition broadcast_event :: "sb_env \<Rightarrow> nat \<Rightarrow> CFE_SB_SendErrEventBuf \<Rightarrow> sb_state \<Rightarrow> sb_state" where
  "broadcast_event e b v s =
     (let bitno = (if evb_EventId v = CFE_SB_MSGID_LIM_ERR_EID then 2
                   else if evb_EventId v = CFE_SB_Q_FULL_ERR_EID then 3 else 4);
          eid = (if evb_EventId v = CFE_SB_MSGID_LIM_ERR_EID \<or> evb_EventId v = CFE_SB_Q_FULL_ERR_EID
                 then evb_EventId v else CFE_SB_Q_WR_ERR_EID);
          (granted, s) = CFE_SB_RequestToSendEvent e bitno s
      in if granted
         then let (_, _, s) = CFE_SB_GetPipeName e (Some 20) (evb_PipeId v) s;
                  mid = (case Bufs s b of Some d \<Rightarrow> bd_MsgId d | None \<Rightarrow> PoolWord e b);
                  s = sb_event eid CFE_EVS_EventType_ERROR (uint mid #
                    (if eid = CFE_SB_Q_WR_ERR_EID then [evb_OsStatus v] else [])) s
              in CFE_SB_FinishSendEvent e bitno s
         else s)"

definition broadcast_events :: "sb_env \<Rightarrow> nat \<Rightarrow> CFE_SB_SendErrEventBuf list \<Rightarrow> sb_state \<Rightarrow> sb_state" where
  "broadcast_events e b evs s = fold (broadcast_event e b) evs s"

definition CFE_SB_BroadcastBufferToRoute :: "sb_env \<Rightarrow> nat \<Rightarrow> nat \<Rightarrow> sb_state \<Rightarrow> sb_state option" where
  "CFE_SB_BroadcastBufferToRoute e b rid s = do {
     (s, evs) \<leftarrow> broadcast_locked e b rid s;
     Some (broadcast_events e b evs s)
   }"

section \<open>Sending a copy of a message\<close>

text \<open>The locked section that gets the buffer and counts an error.\<close>

definition transmit_alloc :: "sb_env \<Rightarrow> int \<Rightarrow> nat \<Rightarrow> nat \<Rightarrow> sb_state \<Rightarrow> int \<times> nat option \<times> sb_state" where
  "transmit_alloc e Status sz rid s =
     (let (Status, b, s) =
        (if Status = 0 \<and> CFE_SBR_IsValidRouteId rid
         then (case CFE_SB_GetBufferFromPool e sz s of
             None \<Rightarrow> (CFE_SB_BUF_ALOC_ERR, None, s)
           | Some (b, s) \<Rightarrow> (Status, Some b, s))
         else (Status, None, s))
      in (Status, b, if Status \<noteq> 0
            then upd_HK (\<lambda>h. h\<lparr>MsgSendErrorCounter := MsgSendErrorCounter h + 1\<rparr>) s else s))"

text \<open>The copy into the buffer, which only the sender knows.\<close>

definition transmit_fill :: "nat \<Rightarrow> bytes \<Rightarrow> u32 \<Rightarrow> nat \<Rightarrow> bool \<Rightarrow> sb_state \<Rightarrow> sb_state option" where
  "transmit_fill b m mid sz upd s = do {
     content \<leftarrow> read_bytes m 0 sz;
     upd_Buf b (\<lambda>d. d\<lparr>bd_Content := content, bd_MsgId := mid, bd_ContentSize := sz, bd_NeedsUpdate := upd,
       bd_ContentType := CFE_MSG_GetType m\<rparr>) s
   }"

definition CFE_SB_TransmitMsg :: "sb_env \<Rightarrow> bytes option \<Rightarrow> bool \<Rightarrow> sb_state \<Rightarrow> (int \<times> sb_state) option" where
  "CFE_SB_TransmitMsg e msg upd s =
     (let (Status, mid, sz, rid, s) =
            CFE_SB_TransmitMsgValidate e msg (CFE_SB_INVALID_MSG_ID, 0, CFE_SBR_INVALID_ROUTE_ID) s;
          ok = (Status = 0);
          (Status, b, s) = transmit_alloc e Status sz rid s
      in do {
        s \<leftarrow> (case b of
            None \<Rightarrow> Some s
          | Some b \<Rightarrow> do {
              m \<leftarrow> msg;
              s \<leftarrow> transmit_fill b m mid sz upd s;
              CFE_SB_BroadcastBufferToRoute e b rid s
            });
        let s = (if ok \<and> Status = CFE_SB_BUF_ALOC_ERR
          then guarded_event e 1 CFE_SB_GET_BUF_ERR_EID CFE_EVS_EventType_ERROR [uint mid, int sz] s else s);
        Some (Status, s)
      })"

section \<open>Zero-copy buffers\<close>

text \<open>
  A pointer to the content of a buffer is the address of its descriptor, which the code computes
  from it. The locked section of the allocation, then the call.
\<close>

definition allocate_locked :: "sb_env \<Rightarrow> u32 \<Rightarrow> nat \<Rightarrow> sb_state \<Rightarrow> (nat option \<times> sb_state) option" where
  "allocate_locked e app sz s = (case CFE_SB_GetBufferFromPool e sz s of
      None \<Rightarrow> Some (None, s)
    | Some (b, s) \<Rightarrow> do {
        s \<leftarrow> upd_Buf b (\<lambda>d. d\<lparr>bd_AppId := app\<rparr>) s;
        s \<leftarrow> CFE_SB_TrackingListAdd ZeroCopy (BufLink b) s;
        Some (Some b, s)
      })"

definition CFE_SB_AllocateMessageBuffer :: "sb_env \<Rightarrow> nat \<Rightarrow> sb_state \<Rightarrow> (nat option \<times> sb_state) option" where
  "CFE_SB_AllocateMessageBuffer e sz s =
     (if sz > CFE_MISSION_SB_MAX_SB_MSG_SIZE then Some (None, s)
      else do {
        (b, s) \<leftarrow> (if fst (CallerApp e) = 0 then allocate_locked e (snd (CallerApp e)) sz s else Some (None, s));
        s \<leftarrow> (case b of None \<Rightarrow> Some s | Some b \<Rightarrow> upd_Buf b (\<lambda>d. d\<lparr>bd_Content := replicate sz 0\<rparr>) s);
        Some (b, s)
      })"

definition CFE_SB_ZeroCopyBufferValidate :: "nat option \<Rightarrow> sb_state \<Rightarrow> int option" where
  "CFE_SB_ZeroCopyBufferValidate buf s = (case buf of
      None \<Rightarrow> Some CFE_SB_BAD_ARGUMENT
    | Some b \<Rightarrow> do {
        d \<leftarrow> Bufs s b;
        Some (if bd_AppId d = CFE_ES_APPID_UNDEFINED then CFE_SB_BUFFER_INVALID else 0)
      })"

definition release_locked :: "nat \<Rightarrow> sb_state \<Rightarrow> sb_state option" where
  "release_locked b s = do {
     s \<leftarrow> upd_Buf b (\<lambda>d. d\<lparr>bd_AppId := CFE_ES_APPID_UNDEFINED\<rparr>) s;
     CFE_SB_DecrBufUseCnt b s
   }"

definition CFE_SB_ReleaseMessageBuffer :: "nat option \<Rightarrow> sb_state \<Rightarrow> (int \<times> sb_state) option" where
  "CFE_SB_ReleaseMessageBuffer buf s = do {
     Status \<leftarrow> CFE_SB_ZeroCopyBufferValidate buf s;
     s \<leftarrow> (if Status = 0 then Option.bind buf (\<lambda>b. release_locked b s) else Some s);
     Some (Status, s)
   }"

text \<open>The application fills the buffer through the pointer it was given.\<close>

definition write_buffer :: "nat \<Rightarrow> bytes \<Rightarrow> sb_state \<Rightarrow> sb_state option" where
  "write_buffer b m = upd_Buf b (\<lambda>d. d\<lparr>bd_Content := m\<rparr>)"

definition CFE_SB_TransmitBuffer :: "sb_env \<Rightarrow> nat option \<Rightarrow> bool \<Rightarrow> sb_state \<Rightarrow> (int \<times> sb_state) option" where
  "CFE_SB_TransmitBuffer e buf upd s = do {
     Status \<leftarrow> CFE_SB_ZeroCopyBufferValidate buf s;
     (Status, s) \<leftarrow> (if Status = 0
       then do {
         b \<leftarrow> buf;
         d \<leftarrow> Bufs s b;
         let (Status, mid, sz, rid, s) = CFE_SB_TransmitMsgValidate e (Some (bd_Content d)) (bd_MsgId d, bd_ContentSize d, 0) s;
         s \<leftarrow> upd_Buf b (\<lambda>d. d\<lparr>bd_MsgId := mid, bd_ContentSize := sz\<rparr>) s;
         if Status = 0
         then do {
           s \<leftarrow> upd_Buf b (\<lambda>d. d\<lparr>bd_NeedsUpdate := upd, bd_ContentType := CFE_MSG_GetType (bd_Content d)\<rparr>) s;
           s \<leftarrow> CFE_SB_BroadcastBufferToRoute e b rid s;
           Some (Status, s)
         }
         else Some (Status, s)
       }
       else Some (Status, s));
     Some (Status, if Status \<noteq> 0 then upd_HK (\<lambda>h. h\<lparr>MsgSendErrorCounter := MsgSendErrorCounter h + 1\<rparr>) s else s)
   }"

text \<open>When an application ends, the buffers it still owns go back to the pool.\<close>

partial_function (option) release_loop :: "u32 \<Rightarrow> link \<Rightarrow> sb_state \<Rightarrow> sb_state option" where
  "release_loop app l s = (case l of
      BufLink b \<Rightarrow> Option.bind (Bufs s b) (\<lambda>d.
        Option.bind (if bd_AppId d = app then CFE_SB_DecrBufUseCnt b s else Some s) (release_loop app (Next (bd_Link d))))
    | ZeroCopy \<Rightarrow> Some s
    | InTransit \<Rightarrow> None)"

definition CFE_SB_ZeroCopyReleaseAppId :: "u32 \<Rightarrow> sb_state \<Rightarrow> sb_state option" where
  "CFE_SB_ZeroCopyReleaseAppId app s =
     (if app \<noteq> CFE_ES_APPID_UNDEFINED then release_loop app (Next (ZeroCopyList s)) s else Some s)"

end
