(* ===== verification/Sb_Pipe.thy ===== *)
theory Sb_Pipe
  imports Sb_Send
begin

text \<open>
  Pipes and subscriptions (\<open>cfe_sb_api.c\<close>, \<open>cfe_sb_priv.c\<close>): creation and deletion of a pipe, its options
  and its name, receiving from it, subscribing and unsubscribing, and what is left of an application
  that ends. Locked sections are definitions of their own, as in \<open>Sb_Send\<close>.
\<close>

section \<open>Creating a pipe\<close>

abbreviation (input) CFE_SB_CR_PIPE_BAD_ARG_EID :: nat where "CFE_SB_CR_PIPE_BAD_ARG_EID \<equiv> 2"
abbreviation (input) CFE_SB_MAX_PIPES_MET_EID :: nat where "CFE_SB_MAX_PIPES_MET_EID \<equiv> 3"
abbreviation (input) CFE_SB_CR_PIPE_ERR_EID :: nat where "CFE_SB_CR_PIPE_ERR_EID \<equiv> 4"
abbreviation (input) CFE_SB_PIPE_ADDED_EID :: nat where "CFE_SB_PIPE_ADDED_EID \<equiv> 5"
abbreviation (input) CFE_SB_CR_PIPE_NAME_TAKEN_EID :: nat where "CFE_SB_CR_PIPE_NAME_TAKEN_EID \<equiv> 69"
abbreviation (input) CFE_SB_CR_PIPE_NO_FREE_EID :: nat where "CFE_SB_CR_PIPE_NO_FREE_EID \<equiv> 70"

text \<open>First locked section: a free slot is reserved; the result is its index and the new id.\<close>

definition create_reserve :: "sb_state \<Rightarrow> (nat \<times> u32) option \<times> sb_state" where
  "create_reserve s =
     (let pid = CFE_ResourceId_FindNext (LastPipeId s) CFE_PLATFORM_SB_MAX_PIPES (CFE_SB_CheckPipeDescSlotUsed s)
      in case CFE_SB_LocatePipeDescByID pid of
           None \<Rightarrow> (None, s)
         | Some i \<Rightarrow> (Some (i, pid),
             (CFE_SB_PipeDescSetUsed i CFE_RESOURCEID_RESERVED (upd_Pipe i (\<lambda>_. pipe_clear) s))\<lparr>LastPipeId := pid\<rparr>))"

definition inc_Pipes :: "CFE_SB_Stats \<Rightarrow> CFE_SB_Stats" where
  "inc_Pipes t = (let n = PipesInUse t + 1
     in t\<lparr>PipesInUse := n, PeakPipesInUse := if n > PeakPipesInUse t then n else PeakPipesInUse t\<rparr>)"

text \<open>Second locked section, when the queue was created and when something failed.\<close>

definition create_commit :: "nat \<Rightarrow> u32 \<Rightarrow> u32 \<Rightarrow> u16 \<Rightarrow> u32 \<Rightarrow> sb_state \<Rightarrow> sb_state" where
  "create_commit i pid q depth app s =
     upd_Stat inc_Pipes (CFE_SB_PipeDescSetUsed i pid
       (upd_Pipe i (\<lambda>d. d\<lparr>pd_SysQueueId := q, pd_MaxQueueDepth := depth, pd_AppId := app\<rparr>) s))"

definition create_abort :: "nat option \<Rightarrow> sb_state \<Rightarrow> sb_state" where
  "create_abort i s =
     upd_HK (\<lambda>h. h\<lparr>CreatePipeErrorCounter := CreatePipeErrorCounter h + 1\<rparr>)
       (case i of None \<Rightarrow> s | Some i \<Rightarrow> CFE_SB_PipeDescSetFree i s)"

definition create_queue_event :: "int \<Rightarrow> nat" where
  "create_queue_event st = (if st = OS_ERR_NAME_TAKEN then CFE_SB_CR_PIPE_NAME_TAKEN_EID
     else if st = OS_ERR_NO_FREE_IDS then CFE_SB_CR_PIPE_NO_FREE_EID else CFE_SB_CR_PIPE_ERR_EID)"

text \<open>\<open>ptr\<close> tells whether the caller passed a place for the id. The result is the status and that id.\<close>

definition CFE_SB_CreatePipe :: "sb_env \<Rightarrow> bool \<Rightarrow> u16 \<Rightarrow> sb_state \<Rightarrow> int \<times> u32 option \<times> sb_state" where
  "CFE_SB_CreatePipe e ptr depth s =
     (if \<not> ptr \<or> unat depth > OS_QUEUE_MAX_DEPTH \<or> depth = 0
      then (CFE_SB_BAD_ARGUMENT, None,
            sb_event CFE_SB_CR_PIPE_BAD_ARG_EID CFE_EVS_EventType_ERROR [uint depth, int OS_QUEUE_MAX_DEPTH] (create_abort None s))
      else case create_reserve s of
        (None, s) \<Rightarrow> (CFE_SB_MAX_PIPES_MET, None,
            sb_event CFE_SB_MAX_PIPES_MET_EID CFE_EVS_EventType_ERROR [int CFE_PLATFORM_SB_MAX_PIPES] (create_abort None s))
      | (Some (i, pid), s) \<Rightarrow>
          let (OsStatus, q, qs) = OS_QueueCreate (QueueResult e) (QueueTrunc e) (unat depth) (Queues s);
              s = s\<lparr>Queues := qs\<rparr>
          in if OsStatus = OS_SUCCESS
             then (0, Some pid, sb_event CFE_SB_PIPE_ADDED_EID CFE_EVS_EventType_DEBUG [uint pid]
                     (create_commit i pid q depth (snd (CallerApp e)) s))
             else (CFE_SB_PIPE_CR_ERR, None, sb_event (create_queue_event OsStatus) CFE_EVS_EventType_ERROR
                     (if create_queue_event OsStatus = CFE_SB_CR_PIPE_ERR_EID then [OsStatus] else [])
                     (create_abort (Some i) s)))"

section \<open>Deleting a pipe\<close>

abbreviation (input) CFE_SB_DEL_PIPE_ERR1_EID :: nat where "CFE_SB_DEL_PIPE_ERR1_EID \<equiv> 46"
abbreviation (input) CFE_SB_PIPE_DELETED_EID :: nat where "CFE_SB_PIPE_DELETED_EID \<equiv> 47"
abbreviation (input) CFE_SB_DEL_PIPE_ERR2_EID :: nat where "CFE_SB_DEL_PIPE_ERR2_EID \<equiv> 54"

definition CFE_SB_RemovePipeFromRoute :: "sb_env \<Rightarrow> u32 \<Rightarrow> nat \<Rightarrow> sb_state \<Rightarrow> sb_state option" where
  "CFE_SB_RemovePipeFromRoute e p r s = do {
     destptr \<leftarrow> CFE_SB_GetDestPtr r p s;
     case destptr of None \<Rightarrow> Some s | Some a \<Rightarrow> CFE_SB_RemoveDest e r a s
   }"

text \<open>
  First locked section: the pipe is taken out of all routes and its slot is reserved. The result is
  an event number, or the slot, its queue and its last buffer.
\<close>

definition delete_routes :: "sb_env \<Rightarrow> u32 \<Rightarrow> u32 \<Rightarrow> sb_state \<Rightarrow> ((nat + nat \<times> u32 \<times> nat option) \<times> sb_state) option" where
  "delete_routes e p app s =
     (case CFE_SB_LocatePipeDescByID p of
        None \<Rightarrow> Some (Inl CFE_SB_DEL_PIPE_ERR1_EID, s)
      | Some i \<Rightarrow>
          if \<not> CFE_SB_PipeDescIsMatch s (Some i) p then Some (Inl CFE_SB_DEL_PIPE_ERR1_EID, s)
          else if app \<noteq> pd_AppId (PipeTbl s ! i) then Some (Inl CFE_SB_DEL_PIPE_ERR2_EID, s)
          else do {
            s \<leftarrow> CFE_SBR_ForEachRouteId (CFE_SB_RemovePipeFromRoute e p) s;
            let d = PipeTbl s ! i;
            Some (Inr (i, pd_SysQueueId d, pd_LastBuffer d), CFE_SB_PipeDescSetUsed i CFE_RESOURCEID_RESERVED s)
          })"

definition drop_buffer :: "nat option \<Rightarrow> sb_state \<Rightarrow> sb_state option" where
  "drop_buffer bo s = (case bo of None \<Rightarrow> Some s | Some b \<Rightarrow> CFE_SB_DecrBufUseCnt b s)"

text \<open>
  The loop that empties the queue: the reference of the buffer in hand is dropped (in a locked
  section) and the next one is taken.
\<close>

partial_function (option) delete_drain :: "sb_env \<Rightarrow> u32 \<Rightarrow> nat option \<Rightarrow> sb_state \<Rightarrow> sb_state option" where
  "delete_drain e q bo s = Option.bind (drop_buffer bo s) (\<lambda>s.
     let r = OS_QueueGet (GetErr e) q OS_CHECK (Queues s)
     in if fst r \<noteq> OS_SUCCESS then Some (s\<lparr>Queues := snd (snd r)\<rparr>)
        else delete_drain e q (fst (snd r)) (s\<lparr>Queues := snd (snd r)\<rparr>))"

definition delete_queue :: "u32 \<Rightarrow> sb_state \<Rightarrow> sb_state" where
  "delete_queue q s = s\<lparr>Queues := snd (OS_QueueDelete q (Queues s))\<rparr>"

text \<open>Last locked section.\<close>

definition delete_commit :: "nat \<Rightarrow> sb_state \<Rightarrow> sb_state" where
  "delete_commit i s = upd_Stat (\<lambda>t. t\<lparr>PipesInUse := PipesInUse t - 1\<rparr>) (CFE_SB_PipeDescSetFree i s)"

definition CFE_SB_DeletePipeFull :: "sb_env \<Rightarrow> u32 \<Rightarrow> u32 \<Rightarrow> sb_state \<Rightarrow> (int \<times> sb_state) option" where
  "CFE_SB_DeletePipeFull e p app s = do {
     (r, s) \<leftarrow> delete_routes e p app s;
     case r of
       Inl ev \<Rightarrow> Some (CFE_SB_BAD_ARGUMENT, sb_event ev CFE_EVS_EventType_ERROR [uint p]
           (upd_HK (\<lambda>h. h\<lparr>CreatePipeErrorCounter := CreatePipeErrorCounter h + 1\<rparr>) s))
     | Inr (i, q, lastb) \<Rightarrow> do {
         s \<leftarrow> delete_drain e q lastb s;
         let s = delete_commit i (delete_queue q s);
         Some (0, sb_event CFE_SB_PIPE_DELETED_EID CFE_EVS_EventType_DEBUG [uint p] s)
       }
   }"

definition CFE_SB_DeletePipe :: "sb_env \<Rightarrow> u32 \<Rightarrow> sb_state \<Rightarrow> (int \<times> sb_state) option" where
  "CFE_SB_DeletePipe e p s = CFE_SB_DeletePipeFull e p (snd (CallerApp e)) s"

definition CFE_SB_DeletePipeWithAppId :: "sb_env \<Rightarrow> u32 \<Rightarrow> u32 \<Rightarrow> sb_state \<Rightarrow> (int \<times> sb_state) option" where
  "CFE_SB_DeletePipeWithAppId e p app s = CFE_SB_DeletePipeFull e p app s"

section \<open>The end of an application\<close>

primrec delete_pipes :: "sb_env \<Rightarrow> u32 \<Rightarrow> u32 list \<Rightarrow> sb_state \<Rightarrow> sb_state option" where
  "delete_pipes e app [] s = Some s"
| "delete_pipes e app (p # ps) s =
     Option.bind (CFE_SB_DeletePipeWithAppId e p app s) (\<lambda>x. delete_pipes e app ps (snd x))"

definition owned_pipes :: "u32 \<Rightarrow> sb_state \<Rightarrow> u32 list" where
  "owned_pipes app s = map pd_PipeId (filter (\<lambda>d. CFE_SB_PipeDescIsUsed d \<and> pd_AppId d = app) (PipeTbl s))"

definition CFE_SB_CleanUpApp :: "sb_env \<Rightarrow> u32 \<Rightarrow> sb_state \<Rightarrow> (int \<times> sb_state) option" where
  "CFE_SB_CleanUpApp e app s = do {
     s \<leftarrow> delete_pipes e app (owned_pipes app s) s;
     s \<leftarrow> CFE_SB_ZeroCopyReleaseAppId app s;
     Some (0, s)
   }"

section \<open>Options and names\<close>

abbreviation (input) CFE_SB_SETPIPEOPTS_ID_ERR_EID :: nat where "CFE_SB_SETPIPEOPTS_ID_ERR_EID \<equiv> 55"
abbreviation (input) CFE_SB_SETPIPEOPTS_OWNER_ERR_EID :: nat where "CFE_SB_SETPIPEOPTS_OWNER_ERR_EID \<equiv> 56"
abbreviation (input) CFE_SB_SETPIPEOPTS_EID :: nat where "CFE_SB_SETPIPEOPTS_EID \<equiv> 57"
abbreviation (input) CFE_SB_GETPIPEOPTS_ID_ERR_EID :: nat where "CFE_SB_GETPIPEOPTS_ID_ERR_EID \<equiv> 58"
abbreviation (input) CFE_SB_GETPIPEOPTS_PTR_ERR_EID :: nat where "CFE_SB_GETPIPEOPTS_PTR_ERR_EID \<equiv> 59"
abbreviation (input) CFE_SB_GETPIPEOPTS_EID :: nat where "CFE_SB_GETPIPEOPTS_EID \<equiv> 60"
abbreviation (input) CFE_SB_GETPIPEIDBYNAME_EID :: nat where "CFE_SB_GETPIPEIDBYNAME_EID \<equiv> 65"
abbreviation (input) CFE_SB_GETPIPEIDBYNAME_NULL_ERR_EID :: nat where "CFE_SB_GETPIPEIDBYNAME_NULL_ERR_EID \<equiv> 66"
abbreviation (input) CFE_SB_GETPIPEIDBYNAME_NAME_ERR_EID :: nat where "CFE_SB_GETPIPEIDBYNAME_NAME_ERR_EID \<equiv> 67"

definition opts_error :: "sb_state \<Rightarrow> sb_state" where
  "opts_error = upd_HK (\<lambda>h. h\<lparr>PipeOptsErrorCounter := PipeOptsErrorCounter h + 1\<rparr>)"

definition CFE_SB_SetPipeOpts :: "sb_env \<Rightarrow> u32 \<Rightarrow> u8 \<Rightarrow> sb_state \<Rightarrow> int \<times> sb_state" where
  "CFE_SB_SetPipeOpts e p opts s =
     (if fst (CallerApp e) \<noteq> 0 then (fst (CallerApp e), s)
      else let idx = CFE_SB_LocatePipeDescByID p
           in if \<not> CFE_SB_PipeDescIsMatch s idx p
              then (CFE_SB_BAD_ARGUMENT, sb_event CFE_SB_SETPIPEOPTS_ID_ERR_EID CFE_EVS_EventType_ERROR [uint p] (opts_error s))
              else if snd (CallerApp e) \<noteq> pd_AppId (PipeTbl s ! the idx)
              then (CFE_SB_BAD_ARGUMENT, sb_event CFE_SB_SETPIPEOPTS_OWNER_ERR_EID CFE_EVS_EventType_ERROR [uint p] (opts_error s))
              else (0, sb_event CFE_SB_SETPIPEOPTS_EID CFE_EVS_EventType_DEBUG [uint p, uint opts]
                     (upd_Pipe (the idx) (\<lambda>d. d\<lparr>pd_Opts := opts\<rparr>) s)))"

definition CFE_SB_GetPipeOpts :: "u32 \<Rightarrow> bool \<Rightarrow> sb_state \<Rightarrow> int \<times> u8 option \<times> sb_state" where
  "CFE_SB_GetPipeOpts p ptr s =
     (let idx = CFE_SB_LocatePipeDescByID p
      in if \<not> CFE_SB_PipeDescIsMatch s idx p
         then (CFE_SB_BAD_ARGUMENT, None, sb_event CFE_SB_GETPIPEOPTS_ID_ERR_EID CFE_EVS_EventType_ERROR [uint p] (opts_error s))
         else if \<not> ptr
         then (CFE_SB_BAD_ARGUMENT, None, sb_event CFE_SB_GETPIPEOPTS_PTR_ERR_EID CFE_EVS_EventType_ERROR [] (opts_error s))
         else let opts = pd_Opts (PipeTbl s ! the idx)
              in (0, Some opts, sb_event CFE_SB_GETPIPEOPTS_EID CFE_EVS_EventType_DEBUG [uint p, uint opts] s))"

text \<open>The table is searched for the queue of that name, from the first slot on, used or not.\<close>

definition find_queue :: "u32 \<Rightarrow> sb_state \<Rightarrow> u32 option" where
  "find_queue q s = map_option pd_PipeId (find (\<lambda>d. pd_SysQueueId d = q) (PipeTbl s))"

definition CFE_SB_GetPipeIdByName :: "sb_env \<Rightarrow> bool \<Rightarrow> string option \<Rightarrow> sb_state \<Rightarrow> int \<times> u32 option \<times> sb_state" where
  "CFE_SB_GetPipeIdByName e ptr name s =
     (let (ev, q) = (case name of
            None \<Rightarrow> (CFE_SB_GETPIPEIDBYNAME_NULL_ERR_EID, 0)
          | Some nm \<Rightarrow> if \<not> ptr then (CFE_SB_GETPIPEIDBYNAME_NULL_ERR_EID, 0)
              else let (OsStatus, q) = QueueIdByName e nm
                   in if OsStatus = OS_SUCCESS then (0, q) else (CFE_SB_GETPIPEIDBYNAME_NAME_ERR_EID, 0));
          (ev, p) = (if ev \<noteq> 0 then (ev, None)
            else case find_queue q s of None \<Rightarrow> (CFE_SB_GETPIPEIDBYNAME_NAME_ERR_EID, None) | Some p \<Rightarrow> (0, Some p))
      in case p of
           Some p \<Rightarrow> (0, Some p, sb_event CFE_SB_GETPIPEIDBYNAME_EID CFE_EVS_EventType_DEBUG [uint p] s)
         | None \<Rightarrow> (CFE_SB_BAD_ARGUMENT, None, sb_event ev CFE_EVS_EventType_ERROR []
             (upd_HK (\<lambda>h. h\<lparr>GetPipeIdByNameErrorCounter := GetPipeIdByNameErrorCounter h + 1\<rparr>) s)))"

section \<open>Receiving\<close>

abbreviation (input) CFE_SB_RCV_BAD_ARG_EID :: nat where "CFE_SB_RCV_BAD_ARG_EID \<equiv> 18"
abbreviation (input) CFE_SB_BAD_PIPEID_EID :: nat where "CFE_SB_BAD_PIPEID_EID \<equiv> 19"
abbreviation (input) CFE_SB_Q_RD_ERR_EID :: nat where "CFE_SB_Q_RD_ERR_EID \<equiv> 27"
abbreviation (input) CFE_SB_POLL :: int where "CFE_SB_POLL \<equiv> 0"
abbreviation (input) CFE_SB_PEND_FOREVER :: int where "CFE_SB_PEND_FOREVER \<equiv> - 1"

text \<open>The time limit passed to the operating system, or nothing for one that is not valid.\<close>

definition receive_timeout :: "int \<Rightarrow> int option" where
  "receive_timeout t = (if t > 0 then Some t else if t = CFE_SB_POLL then Some OS_CHECK
     else if t = CFE_SB_PEND_FOREVER then Some OS_PEND else None)"

text \<open>First locked section: the queue of the pipe; the buffer of the last call is given back.\<close>

definition receive_begin :: "u32 \<Rightarrow> sb_state \<Rightarrow> ((nat \<times> u32) option \<times> sb_state) option" where
  "receive_begin p s =
     (let idx = CFE_SB_LocatePipeDescByID p
      in if \<not> CFE_SB_PipeDescIsMatch s idx p then Some (None, s)
         else let i = the idx; d = PipeTbl s ! i
              in do {
                s \<leftarrow> drop_buffer (pd_LastBuffer d) s;
                Some (Some (i, pd_SysQueueId d),
                      if pd_LastBuffer d = None then s else upd_Pipe i (\<lambda>d. d\<lparr>pd_LastBuffer := None\<rparr>) s)
              })"

definition receive_status :: "int \<Rightarrow> int \<times> nat" where
  "receive_status st = (if st = OS_QUEUE_EMPTY then (CFE_SB_NO_MESSAGE, 0)
     else if st = OS_QUEUE_TIMEOUT then (CFE_SB_TIME_OUT, 0) else (CFE_SB_PIPE_RD_ERR, CFE_SB_Q_RD_ERR_EID))"

definition pipe_shallower :: "CFE_SB_PipeD \<Rightarrow> CFE_SB_PipeD" where
  "pipe_shallower d = (if pd_CurrentQueueDepth d > 0 then d\<lparr>pd_CurrentQueueDepth := pd_CurrentQueueDepth d - 1\<rparr> else d)"

definition dest_fewer :: "CFE_SB_DestinationD \<Rightarrow> CFE_SB_DestinationD" where
  "dest_fewer d = (if dst_BuffCount d > 0 then d\<lparr>dst_BuffCount := dst_BuffCount d - 1\<rparr> else d)"

text \<open>Last locked section, with a buffer taken from the queue: whether the pipe is still the caller's.\<close>

definition receive_store :: "nat \<Rightarrow> u32 \<Rightarrow> nat \<Rightarrow> sb_state \<Rightarrow> (bool \<times> sb_state) option" where
  "receive_store i p b s = do {
     let ok = CFE_SB_PipeDescIsMatch s (Some i) p;
     s \<leftarrow> (if ok
       then do {
         s \<leftarrow> CFE_SB_IncrBufUseCnt b s;
         let s = upd_Pipe i (\<lambda>d. d\<lparr>pd_LastBuffer := Some b\<rparr>) s;
         d \<leftarrow> Bufs s b;
         destptr \<leftarrow> CFE_SB_GetDestPtr (CFE_SBR_GetRouteId (bd_MsgId d) s) p s;
         s \<leftarrow> (case destptr of None \<Rightarrow> Some s | Some a \<Rightarrow> upd_Dest a dest_fewer s);
         Some (upd_Pipe i pipe_shallower s)
       }
       else Some s);
     s \<leftarrow> CFE_SB_DecrBufUseCnt b s;
     Some (ok, s)
   }"

definition receive_error :: "int \<Rightarrow> nat \<Rightarrow> sb_state \<Rightarrow> sb_state" where
  "receive_error st ev s =
     (if st = 0 \<or> st = CFE_SB_NO_MESSAGE \<or> st = CFE_SB_TIME_OUT then s
      else if ev = CFE_SB_RCV_BAD_ARG_EID \<or> ev = CFE_SB_BAD_PIPEID_EID
      then upd_HK (\<lambda>h. h\<lparr>MsgReceiveErrorCounter := MsgReceiveErrorCounter h + 1\<rparr>) s
      else upd_HK (\<lambda>h. h\<lparr>InternalErrorCounter := InternalErrorCounter h + 1\<rparr>) s)"

text \<open>What a call that failed does last: it counts and reports.\<close>

definition receive_fail :: "int \<Rightarrow> nat \<Rightarrow> int list \<Rightarrow> sb_state \<Rightarrow> int \<times> nat option \<times> sb_state" where
  "receive_fail st ev args s =
     (st, None, let s = receive_error st ev s in if ev = 0 then s else sb_event ev CFE_EVS_EventType_ERROR args s)"

definition CFE_SB_ReceiveBuffer :: "sb_env \<Rightarrow> bool \<Rightarrow> u32 \<Rightarrow> int \<Rightarrow> sb_state \<Rightarrow> (int \<times> nat option \<times> sb_state) option" where
  "CFE_SB_ReceiveBuffer e ptr p timeout s =
     (case if ptr then receive_timeout timeout else None of
        None \<Rightarrow> Some (receive_fail CFE_SB_BAD_ARGUMENT CFE_SB_RCV_BAD_ARG_EID [uint p, timeout] s)
      | Some systimeout \<Rightarrow> do {
          (r, s) \<leftarrow> receive_begin p s;
          case r of
            None \<Rightarrow> Some (receive_fail CFE_SB_BAD_ARGUMENT CFE_SB_BAD_PIPEID_EID [uint p] s)
          | Some (i, q) \<Rightarrow>
              (case OS_QueueGet (GetErr e) q systimeout (Queues s) of
                (OsStatus, None, qs) \<Rightarrow>
                  Some (receive_fail (fst (receive_status OsStatus)) (snd (receive_status OsStatus)) [uint p, OsStatus] (s\<lparr>Queues := qs\<rparr>))
              | (OsStatus, Some b, qs) \<Rightarrow> do {
                  (ok, s) \<leftarrow> receive_store i p b (s\<lparr>Queues := qs\<rparr>);
                  Some (if ok then (0, Some b, s) else receive_fail CFE_SB_PIPE_RD_ERR CFE_SB_BAD_PIPEID_EID [uint p] s)
                })
        })"

section \<open>Subscribing\<close>

abbreviation (input) CFE_SB_SUB_ARG_ERR_EID :: nat where "CFE_SB_SUB_ARG_ERR_EID \<equiv> 6"
abbreviation (input) CFE_SB_DUP_SUBSCRIP_EID :: nat where "CFE_SB_DUP_SUBSCRIP_EID \<equiv> 7"
abbreviation (input) CFE_SB_MAX_MSGS_MET_EID :: nat where "CFE_SB_MAX_MSGS_MET_EID \<equiv> 8"
abbreviation (input) CFE_SB_MAX_DESTS_MET_EID :: nat where "CFE_SB_MAX_DESTS_MET_EID \<equiv> 9"
abbreviation (input) CFE_SB_SUBSCRIPTION_RCVD_EID :: nat where "CFE_SB_SUBSCRIPTION_RCVD_EID \<equiv> 10"
abbreviation (input) CFE_SB_UNSUB_ARG_ERR_EID :: nat where "CFE_SB_UNSUB_ARG_ERR_EID \<equiv> 11"
abbreviation (input) CFE_SB_UNSUB_NO_SUBS_EID :: nat where "CFE_SB_UNSUB_NO_SUBS_EID \<equiv> 12"
abbreviation (input) CFE_SB_DEST_BLK_ERR_EID :: nat where "CFE_SB_DEST_BLK_ERR_EID \<equiv> 20"
abbreviation (input) CFE_SB_SUBSCRIPTION_RPT_EID :: nat where "CFE_SB_SUBSCRIPTION_RPT_EID \<equiv> 22"
abbreviation (input) CFE_SB_HASHCOLLISION_EID :: nat where "CFE_SB_HASHCOLLISION_EID \<equiv> 23"
abbreviation (input) CFE_SB_SUBSCRIPTION_REMOVED_EID :: nat where "CFE_SB_SUBSCRIPTION_REMOVED_EID \<equiv> 48"
abbreviation (input) CFE_SB_SUB_INV_PIPE_EID :: nat where "CFE_SB_SUB_INV_PIPE_EID \<equiv> 50"
abbreviation (input) CFE_SB_SUB_INV_CALLER_EID :: nat where "CFE_SB_SUB_INV_CALLER_EID \<equiv> 51"
abbreviation (input) CFE_SB_UNSUB_INV_PIPE_EID :: nat where "CFE_SB_UNSUB_INV_PIPE_EID \<equiv> 52"
abbreviation (input) CFE_SB_UNSUB_INV_CALLER_EID :: nat where "CFE_SB_UNSUB_INV_CALLER_EID \<equiv> 53"
abbreviation (input) CFE_SB_ONESUB_TLM_MID :: u32 where "CFE_SB_ONESUB_TLM_MID \<equiv> 0x080E"

text \<open>The packet that reports a subscription: header, type, message id, quality of service, pipe.\<close>

definition subscription_report :: "endian \<Rightarrow> u32 \<Rightarrow> u32 \<Rightarrow> u8 \<times> u8 \<Rightarrow> bytes" where
  "subscription_report en mid p qos =
     (let m = snd (CFE_MSG_Init CFE_SB_ONESUB_TLM_MID 32);
          m = wr32 en m 20 mid;
          m = m[24 := fst qos, 25 := snd qos]
      in wr32 en m 28 p)"

definition CFE_SB_SendSubscriptionReport :: "sb_env \<Rightarrow> u32 \<Rightarrow> u32 \<Rightarrow> u8 \<times> u8 \<Rightarrow> sb_state \<Rightarrow> (int \<times> sb_state) option" where
  "CFE_SB_SendSubscriptionReport e mid p qos s =
     (if SubscriptionReporting s = CFE_SB_ENABLE
      then do {
        (Status, s) \<leftarrow> CFE_SB_TransmitMsg e (Some (subscription_report (Host e) mid p qos)) True s;
        Some (Status, sb_event CFE_SB_SUBSCRIPTION_RPT_EID CFE_EVS_EventType_DEBUG [uint mid, uint p, Status] s)
      }
      else Some (0, s))"

text \<open>The loop over the destinations of the route: where it stopped, and why.\<close>

partial_function (option) subscribe_scan ::
    "(nat \<Rightarrow> CFE_SB_DestinationD option) \<Rightarrow> u32 \<Rightarrow> nat option \<Rightarrow> nat \<Rightarrow> (nat option \<times> nat) option" where
  "subscribe_scan ds p ptr n = (case ptr of
      None \<Rightarrow> Some (None, 0)
    | Some a \<Rightarrow> Option.bind (ds a) (\<lambda>d.
        if dst_PipeId d = p then Some (Some a, CFE_SB_DUP_SUBSCRIP_EID)
        else if n + 1 \<ge> CFE_PLATFORM_SB_MAX_DEST_PER_PKT then Some (Some a, CFE_SB_MAX_DESTS_MET_EID)
        else subscribe_scan ds p (dst_Next d) (n + 1)))"

definition inc_MsgIds :: "CFE_SB_Stats \<Rightarrow> CFE_SB_Stats" where
  "inc_MsgIds t = (let n = MsgIdsInUse t + 1
     in t\<lparr>MsgIdsInUse := n, PeakMsgIdsInUse := if n > PeakMsgIdsInUse t then n else PeakMsgIdsInUse t\<rparr>)"

definition inc_Subscriptions :: "CFE_SB_Stats \<Rightarrow> CFE_SB_Stats" where
  "inc_Subscriptions t = (let n = SubscriptionsInUse t + 1
     in t\<lparr>SubscriptionsInUse := n,
          PeakSubscriptionsInUse := if n > PeakSubscriptionsInUse t then n else PeakSubscriptionsInUse t\<rparr>)"

text \<open>The checks of the arguments, then the route: found, or added. An event number above 0 is an error.\<close>

definition subscribe_route :: "sb_env \<Rightarrow> u32 \<Rightarrow> u32 \<Rightarrow> u8 \<Rightarrow> sb_state \<Rightarrow> nat \<times> nat \<times> nat \<times> sb_state" where
  "subscribe_route e mid p scope s =
     (let idx = CFE_SB_LocatePipeDescByID p
      in if \<not> CFE_SB_PipeDescIsMatch s idx p then (CFE_SB_SUB_INV_PIPE_EID, 0, 0, s)
         else if pd_AppId (PipeTbl s ! the idx) \<noteq> snd (CallerApp e) then (CFE_SB_SUB_INV_CALLER_EID, 0, 0, s)
         else if \<not> CFE_SB_IsValidMsgId mid \<or> scope > 1 then (CFE_SB_SUB_ARG_ERR_EID, 0, 0, s)
         else let rid = CFE_SBR_GetRouteId mid s
              in if CFE_SBR_IsValidRouteId rid then (0, rid, 0, s)
                 else let (rid, collisions, s) = CFE_SBR_AddRoute mid s
                      in if \<not> CFE_SBR_IsValidRouteId rid then (CFE_SB_MAX_MSGS_MET_EID, rid, collisions, s)
                         else (0, rid, collisions, upd_Stat inc_MsgIds s))"

definition new_dest :: "u32 \<Rightarrow> u16 \<Rightarrow> u8 \<Rightarrow> CFE_SB_DestinationD" where
  "new_dest p lim scope = \<lparr>dst_PipeId = p, dst_Active = CFE_SB_ACTIVE, dst_MsgId2PipeLim = lim, dst_BuffCount = 0,
     dst_DestCnt = 0, dst_Scope = scope, dst_Prev = None, dst_Next = None\<rparr>"

text \<open>A destination for the pipe, unless it has one.\<close>

definition subscribe_dest :: "sb_env \<Rightarrow> u32 \<Rightarrow> u16 \<Rightarrow> u8 \<Rightarrow> nat \<Rightarrow> sb_state \<Rightarrow> (nat \<times> sb_state) option" where
  "subscribe_dest e p lim scope rid s = do {
     (destptr, ev) \<leftarrow> subscribe_scan (Dests s) p (CFE_SBR_GetDestListHeadPtr rid s) 0;
     if destptr \<noteq> None then Some (ev, s)
     else case CFE_SB_GetDestinationBlk e s of
       None \<Rightarrow> Some (CFE_SB_DEST_BLK_ERR_EID, s)
     | Some (a, s) \<Rightarrow> do {
         let s = s\<lparr>Dests := (Dests s)(a \<mapsto> new_dest p lim scope)\<rparr>;
         s \<leftarrow> CFE_SB_AddDestNode rid a s;
         Some (ev, upd_Stat inc_Subscriptions s)
       }
   }"

definition subscribe_count :: "nat \<Rightarrow> sb_state \<Rightarrow> sb_state" where
  "subscribe_count ev s =
     (if ev = CFE_SB_DUP_SUBSCRIP_EID
      then upd_HK (\<lambda>h. h\<lparr>DuplicateSubscriptionsCounter := DuplicateSubscriptionsCounter h + 1\<rparr>) s
      else if ev = 0 then s
      else upd_HK (\<lambda>h. h\<lparr>SubscribeErrorCounter := SubscribeErrorCounter h + 1\<rparr>) s)"

definition subscribe_status :: "nat \<Rightarrow> int" where
  "subscribe_status ev =
     (if ev = 0 \<or> ev = CFE_SB_DUP_SUBSCRIP_EID then 0
      else if ev = CFE_SB_MAX_MSGS_MET_EID then CFE_SB_MAX_MSGS_MET
      else if ev = CFE_SB_MAX_DESTS_MET_EID then CFE_SB_MAX_DESTS_MET
      else if ev = CFE_SB_DEST_BLK_ERR_EID then CFE_SB_BUF_ALOC_ERR else CFE_SB_BAD_ARGUMENT)"

text \<open>The locked section: the pending event, which says what the status is, and the collisions.\<close>

definition subscribe_locked :: "sb_env \<Rightarrow> u32 \<Rightarrow> u32 \<Rightarrow> u16 \<Rightarrow> u8 \<Rightarrow> sb_state \<Rightarrow> (nat \<times> nat \<times> sb_state) option" where
  "subscribe_locked e mid p lim scope s = do {
     let (ev, rid, collisions, s) = subscribe_route e mid p scope s;
     (ev, s) \<leftarrow> (if ev = 0 then subscribe_dest e p lim scope rid s else Some (ev, s));
     Some (ev, collisions, subscribe_count ev s)
   }"

definition subscribe_event :: "sb_env \<Rightarrow> nat \<Rightarrow> u32 \<Rightarrow> u32 \<Rightarrow> sb_state \<Rightarrow> sb_state" where
  "subscribe_event e ev mid p s =
     (if ev = 0 then sb_event CFE_SB_SUBSCRIPTION_RCVD_EID CFE_EVS_EventType_DEBUG [uint mid, uint p] s
      else sb_event ev (if ev = CFE_SB_DUP_SUBSCRIP_EID then CFE_EVS_EventType_INFORMATION else CFE_EVS_EventType_ERROR)
             [uint mid, uint p] (snd (snd (CFE_SB_GetPipeName e (Some 20) p s))))"

definition CFE_SB_SubscribeFull ::
    "sb_env \<Rightarrow> u32 \<Rightarrow> u32 \<Rightarrow> u8 \<times> u8 \<Rightarrow> u16 \<Rightarrow> u8 \<Rightarrow> sb_state \<Rightarrow> (int \<times> sb_state) option" where
  "CFE_SB_SubscribeFull e mid p qos lim scope s = do {
     (ev, collisions, s) \<leftarrow> subscribe_locked e mid p lim scope s;
     let Status = subscribe_status ev;
     let s = subscribe_event e ev mid p s;
     s \<leftarrow> (if Status = 0 \<and> scope = CFE_SB_MSG_GLOBAL
       then map_option snd (CFE_SB_SendSubscriptionReport e mid p qos s) else Some s);
     Some (Status, if collisions \<noteq> 0
       then sb_event CFE_SB_HASHCOLLISION_EID CFE_EVS_EventType_DEBUG [uint mid, int collisions] s else s)
   }"

definition CFE_SB_SubscribeEx :: "sb_env \<Rightarrow> u32 \<Rightarrow> u32 \<Rightarrow> u8 \<times> u8 \<Rightarrow> u16 \<Rightarrow> sb_state \<Rightarrow> (int \<times> sb_state) option" where
  "CFE_SB_SubscribeEx e mid p qos lim s = CFE_SB_SubscribeFull e mid p qos lim CFE_SB_MSG_GLOBAL s"

definition CFE_SB_SubscribeLocal :: "sb_env \<Rightarrow> u32 \<Rightarrow> u32 \<Rightarrow> u16 \<Rightarrow> sb_state \<Rightarrow> (int \<times> sb_state) option" where
  "CFE_SB_SubscribeLocal e mid p lim s = CFE_SB_SubscribeFull e mid p (0, 0) lim CFE_SB_MSG_LOCAL s"

definition CFE_SB_Subscribe :: "sb_env \<Rightarrow> u32 \<Rightarrow> u32 \<Rightarrow> sb_state \<Rightarrow> (int \<times> sb_state) option" where
  "CFE_SB_Subscribe e mid p s =
     CFE_SB_SubscribeFull e mid p (0, 0) CFE_PLATFORM_SB_DEFAULT_MSG_LIMIT CFE_SB_MSG_GLOBAL s"

section \<open>Unsubscribing\<close>

definition unsubscribe_locked :: "sb_env \<Rightarrow> u32 \<Rightarrow> u32 \<Rightarrow> u8 \<Rightarrow> u32 \<Rightarrow> sb_state \<Rightarrow> (int \<times> nat \<times> sb_state) option" where
  "unsubscribe_locked e mid p scope app s =
     (let idx = CFE_SB_LocatePipeDescByID p
      in if \<not> CFE_SB_PipeDescIsMatch s idx p then Some (CFE_SB_BAD_ARGUMENT, CFE_SB_UNSUB_INV_PIPE_EID, s)
         else if pd_AppId (PipeTbl s ! the idx) \<noteq> app then Some (CFE_SB_BAD_ARGUMENT, CFE_SB_UNSUB_INV_CALLER_EID, s)
         else if \<not> CFE_SB_IsValidMsgId mid \<or> scope > 1 then Some (CFE_SB_BAD_ARGUMENT, CFE_SB_UNSUB_ARG_ERR_EID, s)
         else let rid = CFE_SBR_GetRouteId mid s
              in if \<not> CFE_SBR_IsValidRouteId rid then Some (0, CFE_SB_UNSUB_NO_SUBS_EID, s)
                 else do {
                   destptr \<leftarrow> CFE_SB_GetDestPtr rid p s;
                   case destptr of
                     None \<Rightarrow> Some (0, CFE_SB_UNSUB_NO_SUBS_EID, s)
                   | Some a \<Rightarrow> do { s \<leftarrow> CFE_SB_RemoveDest e rid a s; Some (0, 0, s) }
                 })"

definition unsubscribe_event :: "sb_env \<Rightarrow> nat \<Rightarrow> u32 \<Rightarrow> u32 \<Rightarrow> sb_state \<Rightarrow> sb_state" where
  "unsubscribe_event e ev mid p s =
     (if ev = 0 then sb_event CFE_SB_SUBSCRIPTION_REMOVED_EID CFE_EVS_EventType_DEBUG [uint mid, uint p] s
      else if ev = CFE_SB_UNSUB_NO_SUBS_EID
      then sb_event ev CFE_EVS_EventType_INFORMATION [uint mid] (snd (snd (CFE_SB_GetPipeName e (Some 20) p s)))
      else sb_event ev CFE_EVS_EventType_ERROR [uint mid, uint p] s)"

definition CFE_SB_UnsubscribeFull :: "sb_env \<Rightarrow> u32 \<Rightarrow> u32 \<Rightarrow> u8 \<Rightarrow> u32 \<Rightarrow> sb_state \<Rightarrow> (int \<times> sb_state) option" where
  "CFE_SB_UnsubscribeFull e mid p scope app s = do {
     (Status, ev, s) \<leftarrow> unsubscribe_locked e mid p scope app s;
     Some (Status, unsubscribe_event e ev mid p s)
   }"

definition CFE_SB_Unsubscribe :: "sb_env \<Rightarrow> u32 \<Rightarrow> u32 \<Rightarrow> sb_state \<Rightarrow> (int \<times> sb_state) option" where
  "CFE_SB_Unsubscribe e mid p s = CFE_SB_UnsubscribeFull e mid p CFE_SB_MSG_GLOBAL (snd (CallerApp e)) s"

definition CFE_SB_UnsubscribeLocal :: "sb_env \<Rightarrow> u32 \<Rightarrow> u32 \<Rightarrow> sb_state \<Rightarrow> (int \<times> sb_state) option" where
  "CFE_SB_UnsubscribeLocal e mid p s = CFE_SB_UnsubscribeFull e mid p CFE_SB_MSG_LOCAL (snd (CallerApp e)) s"

definition CFE_SB_UnsubscribeWithAppId :: "sb_env \<Rightarrow> u32 \<Rightarrow> u32 \<Rightarrow> u32 \<Rightarrow> sb_state \<Rightarrow> (int \<times> sb_state) option" where
  "CFE_SB_UnsubscribeWithAppId e mid p app s = CFE_SB_UnsubscribeFull e mid p CFE_SB_MSG_LOCAL app s"

section \<open>Start-up\<close>

text \<open>Reports of subscriptions are switched on and off by ground command.\<close>

definition CFE_SB_SetSubscriptionReporting :: "u32 \<Rightarrow> sb_state \<Rightarrow> sb_state" where
  "CFE_SB_SetSubscriptionReporting state s = s\<lparr>SubscriptionReporting := state\<rparr>"

text \<open>\<open>CFE_SB_EarlyInit\<close> clears the globals and sets up the pool, the pipe table and the routes.\<close>

definition sb_reset :: sb_state where
  "sb_reset = \<lparr>PipeTbl = replicate CFE_PLATFORM_SB_MAX_PIPES pipe_clear, LastPipeId = CFE_SB_PIPEID_BASE,
     SubscriptionReporting = CFE_SB_DISABLE, StopRecurseFlags = replicate OS_MAX_TASKS 0,
     HK = \<lparr>CommandCounter = 0, CommandErrorCounter = 0, NoSubscribersCounter = 0, MsgSendErrorCounter = 0,
       MsgReceiveErrorCounter = 0, InternalErrorCounter = 0, CreatePipeErrorCounter = 0, SubscribeErrorCounter = 0,
       PipeOptsErrorCounter = 0, DuplicateSubscriptionsCounter = 0, GetPipeIdByNameErrorCounter = 0,
       PipeOverflowErrorCounter = 0, MsgLimitErrorCounter = 0\<rparr>,
     Stat = \<lparr>MsgIdsInUse = 0, PeakMsgIdsInUse = 0, PipesInUse = 0, PeakPipesInUse = 0, MemInUse = 0, PeakMemInUse = 0,
       SubscriptionsInUse = 0, PeakSubscriptionsInUse = 0, SBBuffersInUse = 0, PeakSBBuffersInUse = 0\<rparr>,
     InTransitList = \<lparr>Next = InTransit, Prev = InTransit\<rparr>, ZeroCopyList = \<lparr>Next = ZeroCopy, Prev = ZeroCopy\<rparr>,
     Bufs = (\<lambda>_. None), Dests = (\<lambda>_. None),
     RoutingTbl = replicate CFE_PLATFORM_SB_MAX_MSG_IDS \<lparr>rt_ListHeadPtr = None, rt_MsgId = CFE_SB_INVALID_MSG_ID, rt_SeqCnt = 0\<rparr>,
     RouteIdxTop = 0, MsgMap = (\<lambda>_. 0), Queues = (\<lambda>_. None), sb_events = []\<rparr>"

end
