(* ===== verification/Sb_Route.thy ===== *)
theory Sb_Route
  imports Sb_Pipe
begin

text \<open>
  Routes and subscriptions: the doubly linked destination lists as lists, the invariant of the routing
  tables, and what subscribing, unsubscribing and deleting a pipe do to the subscriptions of a message.
\<close>

section \<open>Segments of a destination list\<close>

text \<open>From a pointer, and the node before it, along the links, to the last node and the pointer after it.\<close>

primrec dseg :: "(nat \<Rightarrow> CFE_SB_DestinationD option) \<Rightarrow> nat option \<Rightarrow> nat option \<Rightarrow> nat list \<Rightarrow>
    nat option \<Rightarrow> nat option \<Rightarrow> bool" where
  "dseg ds prv ptr [] lst nxt \<longleftrightarrow> lst = prv \<and> nxt = ptr"
| "dseg ds prv ptr (a # as) lst nxt \<longleftrightarrow> ptr = Some a \<and>
     (case ds a of None \<Rightarrow> False | Some d \<Rightarrow> dst_Prev d = prv \<and> dseg ds (Some a) (dst_Next d) as lst nxt)"

definition dlist :: "(nat \<Rightarrow> CFE_SB_DestinationD option) \<Rightarrow> nat option \<Rightarrow> nat list \<Rightarrow> bool" where
  "dlist ds ptr as \<longleftrightarrow> dseg ds None ptr as (if as = [] then None else Some (last as)) None"

text \<open>The list a pointer leads to, up to a length.\<close>

primrec walk :: "(nat \<Rightarrow> CFE_SB_DestinationD option) \<Rightarrow> nat \<Rightarrow> nat option \<Rightarrow> nat list" where
  "walk ds 0 ptr = []"
| "walk ds (Suc n) ptr = (case ptr of
      None \<Rightarrow> []
    | Some a \<Rightarrow> (case ds a of None \<Rightarrow> [] | Some d \<Rightarrow> a # walk ds n (dst_Next d)))"

definition same_links :: "(nat \<Rightarrow> CFE_SB_DestinationD option) \<Rightarrow> (nat \<Rightarrow> CFE_SB_DestinationD option) \<Rightarrow> nat \<Rightarrow> bool" where
  "same_links ds ds' a \<longleftrightarrow>
     map_option (\<lambda>d. (dst_Prev d, dst_Next d)) (ds' a) = map_option (\<lambda>d. (dst_Prev d, dst_Next d)) (ds a)"

lemma same_links_upd [simp]:
  "a \<noteq> b \<Longrightarrow> same_links ds (ds(b \<mapsto> d)) a" "a \<noteq> b \<Longrightarrow> same_links ds (ds(b := None)) a" "same_links ds ds a"
  by (simp_all add: same_links_def)

lemma dseg_cong:
  "\<forall>a\<in>set as. same_links ds ds' a \<Longrightarrow> dseg ds' prv ptr as lst nxt = dseg ds prv ptr as lst nxt"
proof (induction as arbitrary: prv ptr)
  case (Cons a as)
  then show ?case
    by (cases "ds a"; cases "ds' a") (auto simp: same_links_def)
qed simp

lemma dlist_cong: "\<forall>a\<in>set as. same_links ds ds' a \<Longrightarrow> dlist ds' ptr as = dlist ds ptr as"
  by (simp add: dlist_def dseg_cong)

lemma dseg_append:
  "dseg ds prv ptr (as @ bs) lst nxt \<longleftrightarrow> (\<exists>l n. dseg ds prv ptr as l n \<and> dseg ds l n bs lst nxt)"
  by (induction as arbitrary: prv ptr) (auto split: option.splits)

lemma dseg_last: "dseg ds prv ptr as lst nxt \<Longrightarrow> lst = (if as = [] then prv else Some (last as))"
  by (induction as arbitrary: prv ptr) (auto split: option.splits if_splits)

lemma dseg_dom: "dseg ds prv ptr as lst nxt \<Longrightarrow> set as \<subseteq> dom ds"
  by (induction as arbitrary: prv ptr) (auto split: option.splits)

lemma dlist_dom: "dlist ds ptr as \<Longrightarrow> set as \<subseteq> dom ds"
  by (auto simp: dlist_def dest!: dseg_dom)

lemma dlist_Nil [simp]: "dlist ds ptr [] \<longleftrightarrow> ptr = None"
  by (auto simp: dlist_def)

lemma dlist_Cons_None [simp]: "\<not> dlist ds None (a # as)"
  by (simp add: dlist_def)

lemma dlistI: "dseg ds None ptr as lst None \<Longrightarrow> dlist ds ptr as"
  using dseg_last [of ds None ptr as lst None] by (auto simp: dlist_def)

lemma walk_dseg: "dseg ds prv ptr as lst None \<Longrightarrow> length as \<le> n \<Longrightarrow> walk ds n ptr = as"
proof (induction as arbitrary: prv ptr n)
  case Nil
  then show ?case by (cases n) simp_all
next
  case (Cons a as)
  then show ?case by (cases n) (auto split: option.splits)
qed

lemma walk_dlist: "dlist ds ptr as \<Longrightarrow> length as \<le> n \<Longrightarrow> walk ds n ptr = as"
  by (auto simp: dlist_def dest: walk_dseg)

lemma length_walk: "length (walk ds n ptr) \<le> n"
  by (induction n arbitrary: ptr) (auto split: option.splits)

lemma dseg_distinct:
  assumes "dseg ds None ptr as lst nxt"
  shows "distinct as"
  using assms
proof (induction as arbitrary: lst nxt rule: rev_induct)
  case (snoc a as)
  from snoc.prems obtain l n where 1: "dseg ds None ptr as l n" and 2: "dseg ds l n [a] lst nxt"
    by (auto simp: dseg_append)
  from snoc.IH [OF 1] have d: "distinct as" .
  have "a \<notin> set as"
  proof
    assume "a \<in> set as"
    then obtain xs ys where as: "as = xs @ a # ys" by (meson split_list)
    obtain d where a: "ds a = Some d" using 2 by (auto split: option.splits)
    from 2 have "dst_Prev d = l" by (simp add: a)
    also have "l = Some (last as)" using dseg_last [OF 1] as by simp
    finally have p: "dst_Prev d = Some (last as)" .
    from 1 obtain l' n' where "dseg ds None ptr xs l' n'" "dseg ds l' n' (a # ys) l n"
      unfolding as by (auto simp: dseg_append simp del: dseg.simps)
    then have "dst_Prev d = (if xs = [] then None else Some (last xs))"
      using a by (auto dest: dseg_last)
    with p have "xs \<noteq> []" and "last xs = last (a # ys)" by (auto simp: as split: if_splits)
    then show False using d as
      by (metis IntI append_is_Nil_conv distinct_append empty_iff last_in_set list.discI)
  qed
  with d show ?case by simp
qed simp

lemma dlist_distinct: "dlist ds ptr as \<Longrightarrow> distinct as"
  unfolding dlist_def by (rule dseg_distinct)

text \<open>Changing the link out of the end, or into the start, of a segment.\<close>

lemma dseg_upd_last:
  assumes "dseg ds prv ptr (as @ [z]) l n" and "ds z = Some d" and "z \<notin> set as"
  shows "dseg (ds(z \<mapsto> d\<lparr>dst_Next := n'\<rparr>)) prv ptr (as @ [z]) (Some z) n'"
proof -
  from assms(1) obtain l1 n1 where 1: "dseg ds prv ptr as l1 n1" and 2: "dseg ds l1 n1 [z] l n"
    by (auto simp: dseg_append)
  have "dseg (ds(z \<mapsto> d\<lparr>dst_Next := n'\<rparr>)) prv ptr as l1 n1"
    using 1 assms(3) by (subst dseg_cong) (auto intro!: same_links_upd(1))
  moreover have "dseg (ds(z \<mapsto> d\<lparr>dst_Next := n'\<rparr>)) l1 n1 [z] (Some z) n'"
    using 2 assms(2) by simp
  ultimately show ?thesis by (auto simp: dseg_append)
qed

lemma dseg_upd_other:
  "dseg ds prv ptr as l n \<Longrightarrow> a \<notin> set as \<Longrightarrow> dseg (ds(a \<mapsto> d)) prv ptr as l n"
  by (subst dseg_cong) (auto intro!: same_links_upd(1))

lemma dseg_upd_first:
  assumes "dseg ds prv ptr (a # as) l n" and "ds a = Some d" and "a \<notin> set as"
  shows "dseg (ds(a \<mapsto> d\<lparr>dst_Prev := prv'\<rparr>)) prv' (Some a) (a # as) l n"
  using assms by (auto intro: dseg_upd_other)

section \<open>Searching a list\<close>

definition pid_at :: "(nat \<Rightarrow> CFE_SB_DestinationD option) \<Rightarrow> nat \<Rightarrow> u32" where
  "pid_at ds a = (case ds a of None \<Rightarrow> 0 | Some d \<Rightarrow> dst_PipeId d)"

lemma find_dest_dseg:
  "dseg ds prv ptr as lst None \<Longrightarrow> find_dest ds p ptr = Some (find (\<lambda>a. pid_at ds a = p) as)"
proof (induction as arbitrary: prv ptr)
  case Nil
  then show ?case by (simp add: find_dest.simps)
next
  case (Cons a as)
  then show ?case
    by (subst find_dest.simps) (auto simp: pid_at_def split: option.splits)
qed

lemma find_dest_dlist: "dlist ds ptr as \<Longrightarrow> find_dest ds p ptr = Some (find (\<lambda>a. pid_at ds a = p) as)"
  unfolding dlist_def by (rule find_dest_dseg)

lemma subscribe_scan_dseg:
  assumes "dseg ds prv ptr as lst None" and "k < 16"
  shows "subscribe_scan ds p ptr k = Some (
     case find (\<lambda>a. pid_at ds a = p) (take (16 - k) as) of
       Some a \<Rightarrow> (Some a, CFE_SB_DUP_SUBSCRIP_EID)
     | None \<Rightarrow> if length as < 16 - k then (None, 0) else (Some (as ! (15 - k)), CFE_SB_MAX_DESTS_MET_EID))"
  using assms
proof (induction as arbitrary: prv ptr k)
  case Nil
  then show ?case by (simp add: subscribe_scan.simps)
next
  case (Cons a as)
  from Cons.prems obtain d where a: "ds a = Some d" "ptr = Some a" and seg: "dseg ds (Some a) (dst_Next d) as lst None"
    by (auto split: option.splits)
  have t: "take (16 - k) (a # as) = a # take (15 - k) as" using Cons.prems(2) by (simp add: take_Cons')
  show ?case
  proof (cases "k = 15")
    case True
    then show ?thesis by (subst subscribe_scan.simps) (simp add: a pid_at_def)
  next
    case False
    then have k: "k + 1 < 16" using Cons.prems(2) by simp
    have nth: "(a # as) ! (15 - k) = as ! (15 - (k + 1))" using k by (simp add: nth_Cons')
    show ?thesis
      by (subst subscribe_scan.simps) (use k Cons.IH [OF seg k] nth in \<open>auto simp: a t pid_at_def split: option.splits\<close>)
  qed
qed

section \<open>Inserting and removing a node\<close>

text \<open>What a destination block says, apart from its links.\<close>

definition dest_view :: "CFE_SB_DestinationD \<Rightarrow> CFE_SB_DestinationD" where
  "dest_view d = d\<lparr>dst_Prev := None, dst_Next := None\<rparr>"

definition same_views :: "(nat \<Rightarrow> CFE_SB_DestinationD option) \<Rightarrow> (nat \<Rightarrow> CFE_SB_DestinationD option) \<Rightarrow> bool" where
  "same_views ds ds' \<longleftrightarrow> (\<forall>a. map_option dest_view (ds' a) = map_option dest_view (ds a))"

lemma dest_view_simps [simp]:
  "dest_view (d\<lparr>dst_Prev := p\<rparr>) = dest_view d" "dest_view (d\<lparr>dst_Next := n\<rparr>) = dest_view d"
  "dst_PipeId (dest_view d) = dst_PipeId d" "dst_Active (dest_view d) = dst_Active d"
  "dst_MsgId2PipeLim (dest_view d) = dst_MsgId2PipeLim d" "dst_BuffCount (dest_view d) = dst_BuffCount d"
  "dst_Scope (dest_view d) = dst_Scope d" "dest_view (new_dest pid lim sc) = new_dest pid lim sc"
  by (simp_all add: dest_view_def new_dest_def)

lemma same_viewsI: "(\<And>a. map_option dest_view (ds' a) = map_option dest_view (ds a)) \<Longrightarrow> same_views ds ds'"
  by (simp add: same_views_def)

lemma same_views_refl [simp]: "same_views ds ds"
  by (simp add: same_views_def)

lemma same_views_trans: "same_views ds ds1 \<Longrightarrow> same_views ds1 ds2 \<Longrightarrow> same_views ds ds2"
  by (simp add: same_views_def)

lemma same_views_link:
  assumes "ds a = Some d" and "dest_view d' = dest_view d"
  shows "same_views ds (ds(a \<mapsto> d'))"
  using assms by (simp add: same_views_def)

lemma same_views_Some: "same_views ds ds' \<Longrightarrow> ds a = Some d \<Longrightarrow> \<exists>d'. ds' a = Some d' \<and> dest_view d' = dest_view d"
  by (metis (no_types, lifting) map_option_eq_Some same_views_def)

lemma same_views_dom: "same_views ds ds' \<Longrightarrow> dom ds' = dom ds"
  unfolding same_views_def dom_def by (metis (no_types, lifting) map_option_is_None)

lemma dest_view_pid: "dest_view d' = dest_view d \<Longrightarrow> dst_PipeId d' = dst_PipeId d"
  by (drule arg_cong [of _ _ dst_PipeId]) simp

lemma same_views_pid:
  assumes "same_views ds ds'"
  shows "pid_at ds' a = pid_at ds a"
proof -
  have "map_option dest_view (ds' a) = map_option dest_view (ds a)" using assms by (simp add: same_views_def)
  then show ?thesis by (cases "ds a"; cases "ds' a") (auto simp: pid_at_def intro: dest_view_pid)
qed

lemma SetHead_simps [simp]:
  "Dests (CFE_SBR_SetDestListHeadPtr r p s) = Dests s" "RouteIdxTop (CFE_SBR_SetDestListHeadPtr r p s) = RouteIdxTop s"
  "MsgMap (CFE_SBR_SetDestListHeadPtr r p s) = MsgMap s" "PipeTbl (CFE_SBR_SetDestListHeadPtr r p s) = PipeTbl s"
  by (simp_all add: CFE_SBR_SetDestListHeadPtr_def upd_Route_def)

lemma SetHead_Dests: "CFE_SBR_SetDestListHeadPtr r p (s\<lparr>Dests := ds\<rparr>) = (CFE_SBR_SetDestListHeadPtr r p s)\<lparr>Dests := ds\<rparr>"
  by (simp add: CFE_SBR_SetDestListHeadPtr_def upd_Route_def)

lemma GetHead_Dests [simp]: "CFE_SBR_GetDestListHeadPtr r (s\<lparr>Dests := ds\<rparr>) = CFE_SBR_GetDestListHeadPtr r s"
  by (simp add: CFE_SBR_GetDestListHeadPtr_def)

text \<open>Both operations set the head of the route and rearrange links of the list; nothing else changes.\<close>

lemma AddDestNode_ok:
  assumes "dlist (Dests s) (CFE_SBR_GetDestListHeadPtr r s) as" and "Dests s a = Some d" and "a \<notin> set as"
  shows "\<exists>ds. CFE_SB_AddDestNode r a s = Some ((CFE_SBR_SetDestListHeadPtr r (Some a) s)\<lparr>Dests := ds\<rparr>) \<and>
     dlist ds (Some a) (a # as) \<and> same_views (Dests s) ds \<and> (\<forall>b. b \<notin> set (a # as) \<longrightarrow> ds b = Dests s b)"
proof (cases as)
  case Nil
  let ?ds = "(Dests s)(a \<mapsto> d\<lparr>dst_Next := None, dst_Prev := None\<rparr>)"
  have "CFE_SB_AddDestNode r a s = Some ((CFE_SBR_SetDestListHeadPtr r (Some a) s)\<lparr>Dests := ?ds\<rparr>)"
    using assms Nil by (simp add: CFE_SB_AddDestNode_def upd_Dest_def SetHead_Dests)
  moreover have "dlist ?ds (Some a) [a]" by (simp add: dlist_def)
  moreover have "same_views (Dests s) ?ds" using assms(2) by (intro same_views_link) simp_all
  ultimately show ?thesis using Nil by (intro exI [of _ ?ds]) simp
next
  case (Cons w ws)
  let ?h = "CFE_SBR_GetDestListHeadPtr r s"
  from assms(1) have seg: "dseg (Dests s) None ?h (w # ws) (Some (last as)) None" by (simp add: dlist_def Cons)
  then obtain dw where w: "?h = Some w" "Dests s w = Some dw" "dst_Prev dw = None" by (auto split: option.splits)
  have wa: "w \<noteq> a" "w \<notin> set ws" using assms(3) dseg_distinct [OF seg] by (auto simp: Cons)
  let ?d1 = "(Dests s)(a \<mapsto> d\<lparr>dst_Next := Some w, dst_Prev := None\<rparr>)"
  let ?ds = "?d1(w \<mapsto> dw\<lparr>dst_Prev := Some a\<rparr>)"
  have "CFE_SB_AddDestNode r a s = Some ((CFE_SBR_SetDestListHeadPtr r (Some a) s)\<lparr>Dests := ?ds\<rparr>)"
    using assms wa w by (simp add: CFE_SB_AddDestNode_def upd_Dest_def SetHead_Dests)
  moreover have "dseg ?ds (Some a) (Some w) (w # ws) (Some (last as)) None"
    using assms(3) wa w by (intro dseg_upd_first [OF dseg_upd_other [OF seg]]) (auto simp: Cons)
  then have "dlist ?ds (Some a) (a # as)" using wa by (intro dlistI [of _ _ _ "Some (last as)"]) (simp add: Cons)
  moreover have "same_views (Dests s) ?ds"
    using assms(2) wa w by (intro same_views_trans [OF same_views_link same_views_link]) simp_all
  ultimately show ?thesis using wa by (intro exI [of _ ?ds]) (auto simp: Cons)
qed

text \<open>The two link updates of a removal, as functions of the lists before and after the node.\<close>

definition bypass_next :: "nat list \<Rightarrow> nat option \<Rightarrow> (nat \<Rightarrow> CFE_SB_DestinationD option) \<Rightarrow> nat \<Rightarrow> CFE_SB_DestinationD option" where
  "bypass_next xs nxt ds = (if xs = [] then ds else ds(last xs \<mapsto> (the (ds (last xs)))\<lparr>dst_Next := nxt\<rparr>))"

definition bypass_prev :: "nat list \<Rightarrow> nat option \<Rightarrow> (nat \<Rightarrow> CFE_SB_DestinationD option) \<Rightarrow> nat \<Rightarrow> CFE_SB_DestinationD option" where
  "bypass_prev ys prv ds = (if ys = [] then ds else ds(hd ys \<mapsto> (the (ds (hd ys)))\<lparr>dst_Prev := prv\<rparr>))"

definition last_opt :: "'a list \<Rightarrow> 'a option" where
  "last_opt xs = (if xs = [] then None else Some (last xs))"

definition hd_opt :: "'a list \<Rightarrow> 'a option" where
  "hd_opt xs = (if xs = [] then None else Some (hd xs))"

lemma bypass_next_seg:
  assumes "dseg ds None ptr xs (last_opt xs) n" and "distinct xs"
  shows "dseg (bypass_next xs nxt ds) None (if xs = [] then nxt else ptr) xs (last_opt xs) nxt"
proof (cases xs rule: rev_cases)
  case (snoc us u)
  then obtain d where "ds u = Some d" using assms(1) by (auto simp: dseg_append split: option.splits)
  with snoc assms dseg_upd_last [of ds None ptr us u "last_opt xs" n d nxt] show ?thesis
    by (simp add: bypass_next_def last_opt_def)
qed (simp add: bypass_next_def last_opt_def)

lemma bypass_prev_seg:
  assumes "dseg ds p n ys lst None" and "distinct ys"
  shows "dseg (bypass_prev ys prv ds) prv (hd_opt ys) ys (if ys = [] then prv else lst) None"
proof (cases ys)
  case (Cons w ws)
  then obtain d where "ds w = Some d" using assms(1) by (auto split: option.splits)
  with Cons assms dseg_upd_first [of ds p n w ws lst None d prv] show ?thesis
    by (simp add: bypass_prev_def hd_opt_def)
qed (use assms in \<open>simp add: bypass_prev_def hd_opt_def\<close>)

lemma bypass_views:
  "set xs \<subseteq> dom ds \<Longrightarrow> same_views ds (bypass_next xs nxt ds)"
  "set xs \<subseteq> dom ds \<Longrightarrow> same_views ds (bypass_prev xs nxt ds)"
  unfolding bypass_next_def bypass_prev_def
  by (cases "xs = []"; force intro!: same_views_link dest: subsetD [of _ "dom ds" "last xs"] subsetD [of _ "dom ds" "hd xs"])+

lemma bypass_other:
  "b \<notin> set xs \<Longrightarrow> bypass_next xs nxt ds b = ds b" "b \<notin> set xs \<Longrightarrow> bypass_prev xs nxt ds b = ds b"
  by (auto simp: bypass_next_def bypass_prev_def)

lemma dseg_hd: "dseg ds p ptr ys lst None \<Longrightarrow> ptr = hd_opt ys"
  by (cases ys) (auto simp: hd_opt_def split: option.splits)

lemma dseg_upd_all: "dseg ds p ptr as l n \<Longrightarrow> \<forall>b\<in>set as. ds' b = ds b \<Longrightarrow> dseg ds' p ptr as l n"
  by (subst dseg_cong) (auto simp: same_links_def)

definition removed_links :: "nat list \<Rightarrow> nat \<Rightarrow> nat list \<Rightarrow> (nat \<Rightarrow> CFE_SB_DestinationD option) \<Rightarrow> nat \<Rightarrow> CFE_SB_DestinationD option" where
  "removed_links xs a ys ds = (let ds = bypass_prev ys (last_opt xs) (bypass_next xs (hd_opt ys) ds)
     in ds(a \<mapsto> (the (ds a))\<lparr>dst_Next := None, dst_Prev := None\<rparr>))"

definition removed_head :: "nat \<Rightarrow> nat list \<Rightarrow> nat list \<Rightarrow> sb_state \<Rightarrow> sb_state" where
  "removed_head r xs ys s = (if xs = [] then CFE_SBR_SetDestListHeadPtr r (hd_opt ys) s else s)"

lemma removed_links_ok:
  assumes "dlist ds ptr (xs @ a # ys)"
  shows "dlist (removed_links xs a ys ds) (if xs = [] then hd_opt ys else ptr) (xs @ ys)"
    and "same_views ds (removed_links xs a ys ds)"
    and "b \<notin> set (xs @ a # ys) \<Longrightarrow> removed_links xs a ys ds b = ds b"
proof -
  let ?d1 = "bypass_next xs (hd_opt ys) ds" and ?d2 = "bypass_prev ys (last_opt xs) (bypass_next xs (hd_opt ys) ds)"
  let ?d3 = "removed_links xs a ys ds"
  from assms obtain l n lst where seg: "dseg ds None ptr xs l n" "dseg ds l n (a # ys) lst None"
    by (auto simp: dlist_def dseg_append simp del: dseg.simps)
  have dist: "distinct xs" "distinct ys" "a \<notin> set xs" "a \<notin> set ys" "set xs \<inter> set ys = {}"
    using dlist_distinct [OF assms] by auto
  have dom: "set xs \<subseteq> dom ds" "set ys \<subseteq> dom ds" "a \<in> dom ds" using dlist_dom [OF assms] by auto
  have l: "l = last_opt xs" using dseg_last [OF seg(1)] by (simp add: last_opt_def)
  from seg(2) obtain d where d: "ds a = Some d" "n = Some a" "dst_Prev d = l" "dseg ds (Some a) (dst_Next d) ys lst None"
    by (auto split: option.splits)
  have eqs: "\<forall>b\<in>set xs. ?d3 b = ?d1 b" "\<forall>b\<in>set ys. ?d3 b = ?d2 b" "\<forall>b\<in>set ys. ?d1 b = ds b" "?d2 a = ds a"
    using dist by (auto simp: removed_links_def Let_def disjoint_iff bypass_other intro!: bypass_other)
  have "dseg ?d3 None (if xs = [] then hd_opt ys else ptr) xs (last_opt xs) (hd_opt ys)"
    using bypass_next_seg [OF seg(1) [unfolded l] dist(1)] eqs(1) by (rule dseg_upd_all)
  moreover have "dseg ?d1 (Some a) (dst_Next d) ys lst None"
    using d(4) eqs(3) by (rule dseg_upd_all)
  then have "dseg ?d3 (last_opt xs) (hd_opt ys) ys (if ys = [] then last_opt xs else lst) None"
    using bypass_prev_seg dist(2) eqs(2) by (blast intro: dseg_upd_all)
  ultimately have "dseg ?d3 None (if xs = [] then hd_opt ys else ptr) (xs @ ys) (if ys = [] then last_opt xs else lst) None"
    unfolding dseg_append by blast
  then show "dlist ?d3 (if xs = [] then hd_opt ys else ptr) (xs @ ys)" by (rule dlistI)
  have v1: "same_views ds ?d1" using dom by (intro bypass_views)
  have v2: "same_views ?d1 ?d2" using dom same_views_dom [OF v1] by (intro bypass_views) simp
  have v3: "same_views ?d2 ?d3"
    using eqs(4) d(1) by (auto simp: removed_links_def Let_def intro!: same_views_link)
  show "same_views ds ?d3" by (rule same_views_trans [OF same_views_trans [OF v1 v2] v3])
  show "b \<notin> set (xs @ a # ys) \<Longrightarrow> ?d3 b = ds b"
    by (auto simp: removed_links_def Let_def bypass_other)
qed

lemma RemoveDestNode_ok:
  assumes "dlist (Dests s) (CFE_SBR_GetDestListHeadPtr r s) (xs @ a # ys)"
  shows "CFE_SB_RemoveDestNode r a s = Some ((removed_head r xs ys s)\<lparr>Dests := removed_links xs a ys (Dests s)\<rparr>)"
proof -
  let ?ds = "Dests s"
  from assms obtain l n lst where seg: "dseg ?ds None (CFE_SBR_GetDestListHeadPtr r s) xs l n" "dseg ?ds l n (a # ys) lst None"
    by (auto simp: dlist_def dseg_append simp del: dseg.simps)
  have dist: "distinct xs" "distinct ys" "a \<notin> set xs" "a \<notin> set ys" "set xs \<inter> set ys = {}"
    using dlist_distinct [OF assms] by auto
  have dom: "set xs \<subseteq> dom ?ds" "set ys \<subseteq> dom ?ds" using dlist_dom [OF assms] by auto
  from seg(2) obtain d where d: "?ds a = Some d" "dst_Prev d = l" "dseg ?ds (Some a) (dst_Next d) ys lst None"
    by (auto split: option.splits)
  have links: "dst_Prev d = last_opt xs" "dst_Next d = hd_opt ys"
    using d dseg_last [OF seg(1)] dseg_hd by (auto simp: last_opt_def)
  have x: "xs \<noteq> [] \<Longrightarrow> \<exists>e. ?ds (last xs) = Some e \<and> last xs \<noteq> a"
    using dom dist last_in_set [of xs] by blast
  have y: "ys \<noteq> [] \<Longrightarrow> \<exists>e. ?ds (hd ys) = Some e \<and> hd ys \<noteq> a"
    using dom dist hd_in_set [of ys] by blast
  have xy: "xs \<noteq> [] \<Longrightarrow> ys \<noteq> [] \<Longrightarrow> last xs \<noteq> hd ys"
    using dist by (metis IntI empty_iff hd_in_set last_in_set)
  show ?thesis
    using d(1) links x y xy
    by (cases "xs = []"; cases "ys = []")
      (auto simp: CFE_SB_RemoveDestNode_def upd_Dest_def removed_links_def removed_head_def bypass_next_def bypass_prev_def
        last_opt_def hd_opt_def SetHead_Dests Let_def)
qed

section \<open>The invariant of the routing tables\<close>

definition live_pipe :: "CFE_SB_PipeD list \<Rightarrow> u32 \<Rightarrow> bool" where
  "live_pipe pt p \<longleftrightarrow> (case CFE_SB_LocatePipeDescByID p of None \<Rightarrow> False | Some i \<Rightarrow> pd_PipeId (pt ! i) = p)"

lemma PipeDescIsMatch_live: "CFE_SB_PipeDescIsMatch s (CFE_SB_LocatePipeDescByID p) p = live_pipe (PipeTbl s) p"
  by (simp add: CFE_SB_PipeDescIsMatch_def live_pipe_def)

abbreviation route_ids :: "nat set" where "route_ids \<equiv> {1..CFE_PLATFORM_SB_MAX_MSG_IDS}"

lemma IsValidRouteId_iff [simp]: "CFE_SBR_IsValidRouteId r \<longleftrightarrow> r \<in> route_ids"
  by (auto simp: CFE_SBR_IsValidRouteId_def)

definition route_dests :: "sb_state \<Rightarrow> nat \<Rightarrow> nat list" where
  "route_dests s r = walk (Dests s) CFE_PLATFORM_SB_MAX_DEST_PER_PKT (CFE_SBR_GetDestListHeadPtr r s)"

text \<open>The map and the table of routes name each other.\<close>

definition map_inv :: "sb_state \<Rightarrow> bool" where
  "map_inv s \<longleftrightarrow> length (RoutingTbl s) = CFE_PLATFORM_SB_MAX_MSG_IDS \<and> RouteIdxTop s \<le> CFE_PLATFORM_SB_MAX_MSG_IDS \<and>
     (\<forall>m. CFE_SB_IsValidMsgId m \<longrightarrow> MsgMap s (unat m) \<le> RouteIdxTop s \<and>
        (MsgMap s (unat m) \<noteq> 0 \<longrightarrow> rt_MsgId (RoutingTbl s ! (MsgMap s (unat m) - 1)) = m)) \<and>
     (\<forall>i<RouteIdxTop s. CFE_SB_IsValidMsgId (rt_MsgId (RoutingTbl s ! i)) \<and>
        MsgMap s (unat (rt_MsgId (RoutingTbl s ! i))) = i + 1)"

text \<open>
  Every route has a list of at most 16 destinations, to different pipes that exist; the lists share
  no block, and every allocated block is on one.
\<close>

definition dest_inv :: "sb_state \<Rightarrow> bool" where
  "dest_inv s \<longleftrightarrow>
     (\<forall>r\<in>route_ids. dlist (Dests s) (CFE_SBR_GetDestListHeadPtr r s) (route_dests s r) \<and>
        distinct (map (pid_at (Dests s)) (route_dests s r)) \<and>
        (RouteIdxTop s < r \<longrightarrow> CFE_SBR_GetDestListHeadPtr r s = None)) \<and>
     (\<forall>r\<in>route_ids. \<forall>r'\<in>route_ids. r \<noteq> r' \<longrightarrow> set (route_dests s r) \<inter> set (route_dests s r') = {}) \<and>
     dom (Dests s) = (\<Union>r\<in>route_ids. set (route_dests s r)) \<and>
     (\<forall>a d. Dests s a = Some d \<longrightarrow> live_pipe (PipeTbl s) (dst_PipeId d))"

text \<open>The statistics count the routes and the subscriptions.\<close>

definition sub_stat :: "sb_state \<Rightarrow> bool" where
  "sub_stat s \<longleftrightarrow> MsgIdsInUse (Stat s) = of_nat (RouteIdxTop s) \<and> SubscriptionsInUse (Stat s) = of_nat (card (dom (Dests s)))"

definition route_inv :: "sb_state \<Rightarrow> bool" where
  "route_inv s \<longleftrightarrow> map_inv s \<and> dest_inv s \<and> sub_stat s"

lemma route_invD:
  assumes "route_inv s"
  shows "map_inv s" and "dest_inv s" and "sub_stat s"
  using assms by (simp_all add: route_inv_def)

lemma length_route_dests [simp]: "length (route_dests s r) \<le> 16"
  by (simp add: route_dests_def length_walk)

lemma walk_None [simp]: "walk ds n None = []"
  by (cases n) simp_all

lemma route_dests_invalid: "r \<notin> route_ids \<Longrightarrow> route_dests s r = []"
  by (auto simp: route_dests_def CFE_SBR_GetDestListHeadPtr_def)

lemma route_dests_0 [simp]: "route_dests s 0 = []"
  by (simp add: route_dests_invalid)

lemma dest_inv_list: "dest_inv s \<Longrightarrow> r \<in> route_ids \<Longrightarrow> dlist (Dests s) (CFE_SBR_GetDestListHeadPtr r s) (route_dests s r)"
  by (simp add: dest_inv_def)

lemma dest_inv_pids: "dest_inv s \<Longrightarrow> r \<in> route_ids \<Longrightarrow> distinct (map (pid_at (Dests s)) (route_dests s r))"
  by (simp add: dest_inv_def)

lemma dest_inv_disj:
  "dest_inv s \<Longrightarrow> r \<in> route_ids \<Longrightarrow> r' \<in> route_ids \<Longrightarrow> r \<noteq> r' \<Longrightarrow> a \<in> set (route_dests s r) \<Longrightarrow> a \<notin> set (route_dests s r')"
  unfolding dest_inv_def by blast

lemma dest_inv_dom: "dest_inv s \<Longrightarrow> dom (Dests s) = (\<Union>r\<in>route_ids. set (route_dests s r))"
  by (simp add: dest_inv_def)

lemma dest_inv_live: "dest_inv s \<Longrightarrow> Dests s a = Some d \<Longrightarrow> live_pipe (PipeTbl s) (dst_PipeId d)"
  by (simp add: dest_inv_def)

lemma dest_inv_alloc: "dest_inv s \<Longrightarrow> r \<in> route_ids \<Longrightarrow> a \<in> set (route_dests s r) \<Longrightarrow> \<exists>d. Dests s a = Some d"
  using dest_inv_dom by blast

text \<open>What depends on which part of the state.\<close>

lemma head_cong: "RoutingTbl s' = RoutingTbl s \<Longrightarrow> CFE_SBR_GetDestListHeadPtr r s' = CFE_SBR_GetDestListHeadPtr r s"
  by (simp add: CFE_SBR_GetDestListHeadPtr_def)

lemma route_inv_cong:
  assumes "RoutingTbl s' = RoutingTbl s" and "Dests s' = Dests s" and "RouteIdxTop s' = RouteIdxTop s"
    and "MsgMap s' = MsgMap s" and "MsgIdsInUse (Stat s') = MsgIdsInUse (Stat s)"
    and "SubscriptionsInUse (Stat s') = SubscriptionsInUse (Stat s)" and "\<And>p. live_pipe (PipeTbl s') p = live_pipe (PipeTbl s) p"
  shows "route_inv s' = route_inv s" and "route_dests s' r = route_dests s r"
  using assms by (simp_all add: route_inv_def map_inv_def dest_inv_def sub_stat_def route_dests_def head_cong [OF assms(1)])

text \<open>The list of one route is replaced.\<close>

lemma route_update:
  assumes inv: "dest_inv s" and r: "r \<in> route_ids"
    and l: "dlist (Dests s') (CFE_SBR_GetDestListHeadPtr r s') as" "length as \<le> 16"
    and heads: "\<And>r'. r' \<in> route_ids \<Longrightarrow> r' \<noteq> r \<Longrightarrow> CFE_SBR_GetDestListHeadPtr r' s' = CFE_SBR_GetDestListHeadPtr r' s"
    and other: "\<And>b. b \<notin> set (route_dests s r) \<Longrightarrow> b \<notin> set as \<Longrightarrow> Dests s' b = Dests s b"
    and new: "set as \<inter> dom (Dests s) \<subseteq> set (route_dests s r)"
    and dom: "dom (Dests s') = (dom (Dests s) - set (route_dests s r)) \<union> set as"
    and pids: "distinct (map (pid_at (Dests s')) as)"
    and live: "\<And>a d. a \<in> set as \<Longrightarrow> Dests s' a = Some d \<Longrightarrow> live_pipe (PipeTbl s') (dst_PipeId d)"
    and tbl: "RouteIdxTop s' = RouteIdxTop s" "r \<le> RouteIdxTop s" "\<And>p. live_pipe (PipeTbl s) p \<Longrightarrow> live_pipe (PipeTbl s') p"
  shows "dest_inv s'" and "route_dests s' r = as" and "\<And>r'. r' \<in> route_ids \<Longrightarrow> r' \<noteq> r \<Longrightarrow> route_dests s' r' = route_dests s r'"
    and "\<And>r' a. r' \<in> route_ids \<Longrightarrow> r' \<noteq> r \<Longrightarrow> a \<in> set (route_dests s r') \<Longrightarrow> Dests s' a = Dests s a"
proof -
  have same: "Dests s' a = Dests s a" if "r' \<in> route_ids" "r' \<noteq> r" "a \<in> set (route_dests s r')" for r' a
  proof (rule other)
    show "a \<notin> set (route_dests s r)" using dest_inv_disj [OF inv that(1) r that(2,3)] .
    then show "a \<notin> set as" using new dest_inv_alloc [OF inv that(1,3)] by blast
  qed
  then show "\<And>r' a. r' \<in> route_ids \<Longrightarrow> r' \<noteq> r \<Longrightarrow> a \<in> set (route_dests s r') \<Longrightarrow> Dests s' a = Dests s a" .
  show rd: "route_dests s' r = as" unfolding route_dests_def using l by (rule walk_dlist)
  have dl: "dlist (Dests s') (CFE_SBR_GetDestListHeadPtr r' s') (route_dests s r')" if "r' \<in> route_ids" "r' \<noteq> r" for r'
    using dest_inv_list [OF inv that(1)] same [OF that] heads [OF that]
    by (subst dlist_cong) (auto simp: same_links_def)
  show ro: "route_dests s' r' = route_dests s r'" if "r' \<in> route_ids" "r' \<noteq> r" for r'
    unfolding route_dests_def [of s'] by (rule walk_dlist [OF dl [OF that]]) simp
  have pid: "map (pid_at (Dests s')) (route_dests s r') = map (pid_at (Dests s)) (route_dests s r')"
    if "r' \<in> route_ids" "r' \<noteq> r" for r'
    using same [OF that] by (simp add: pid_at_def)
  have "set as \<inter> set (route_dests s r') = {}" if "r' \<in> route_ids" "r' \<noteq> r" for r'
    using new dest_inv_disj [OF inv that(1) r that(2)] dest_inv_alloc [OF inv that(1)] by blast
  then have disj: "set (route_dests s' r1) \<inter> set (route_dests s' r2) = {}"
    if "r1 \<in> route_ids" "r2 \<in> route_ids" "r1 \<noteq> r2" for r1 r2
    using that rd ro [of r1] ro [of r2] dest_inv_disj [OF inv that] by (cases "r1 = r"; cases "r2 = r") auto
  have "(\<Union>r\<in>route_ids. set (route_dests s' r)) =
      set (route_dests s' r) \<union> (\<Union>r'\<in>route_ids - {r}. set (route_dests s' r'))"
    using UN_insert [of "\<lambda>r. set (route_dests s' r)" r "route_ids - {r}"] unfolding insert_Diff [OF r] .
  also have "\<dots> = set as \<union> (\<Union>r'\<in>route_ids - {r}. set (route_dests s r'))"
    using ro by (intro arg_cong2 [of _ _ _ _ "(\<union>)"] SUP_cong) (simp_all add: rd)
  also have "(\<Union>r'\<in>route_ids - {r}. set (route_dests s r')) = dom (Dests s) - set (route_dests s r)"
  proof -
    have "a \<in> (\<Union>r'\<in>route_ids - {r}. set (route_dests s r')) \<longleftrightarrow> a \<in> dom (Dests s) \<and> a \<notin> set (route_dests s r)" for a
      unfolding dest_inv_dom [OF inv] using dest_inv_disj [OF inv _ r] by blast
    then show ?thesis by blast
  qed
  finally have d: "dom (Dests s') = (\<Union>r\<in>route_ids. set (route_dests s' r))" using dom by (simp only: Un_commute)
  have lv: "live_pipe (PipeTbl s') (dst_PipeId d)" if "Dests s' a = Some d" for a d
  proof (cases "a \<in> set as")
    case True
    then show ?thesis using live that by blast
  next
    case False
    then have "a \<notin> set (route_dests s r)" using dom that by blast
    then show ?thesis using other [OF _ False] that dest_inv_live [OF inv] tbl(3) by auto
  qed
  have h: "CFE_SBR_GetDestListHeadPtr r' s' = None" if "r' \<in> route_ids" "RouteIdxTop s' < r'" for r'
    using that tbl(1,2) heads [of r'] inv by (auto simp: dest_inv_def)
  have main: "dlist (Dests s') (CFE_SBR_GetDestListHeadPtr r' s') (route_dests s' r') \<and>
      distinct (map (pid_at (Dests s')) (route_dests s' r'))" if "r' \<in> route_ids" for r'
  proof (cases "r' = r")
    case True
    with l pids rd show ?thesis by simp
  next
    case False
    show ?thesis unfolding ro [OF that False] pid [OF that False]
      using dl [OF that False] dest_inv_pids [OF inv that] by (rule conjI)
  qed
  show "dest_inv s'"
    unfolding dest_inv_def using main disj d lv h by blast
qed

section \<open>Removing a destination\<close>

text \<open>The subscriptions of a route, newest first: who gets its messages, and with which limit.\<close>

definition subs_of :: "sb_state \<Rightarrow> nat \<Rightarrow> CFE_SB_DestinationD list" where
  "subs_of s r = map (\<lambda>a. dest_view (the (Dests s a))) (route_dests s r)"

text \<open>What an operation on destinations leaves as it was.\<close>

definition route_step :: "sb_state \<Rightarrow> sb_state \<Rightarrow> bool" where
  "route_step s s' \<longleftrightarrow> (\<exists>ds rt st. s' = s\<lparr>RoutingTbl := rt, Dests := ds, Stat := st\<rparr> \<and>
     map rt_MsgId rt = map rt_MsgId (RoutingTbl s) \<and> map rt_SeqCnt rt = map rt_SeqCnt (RoutingTbl s) \<and>
     SBBuffersInUse st = SBBuffersInUse (Stat s) \<and> PipesInUse st = PipesInUse (Stat s) \<and> MsgIdsInUse st = MsgIdsInUse (Stat s))"

lemma route_step_refl [simp]: "route_step s s"
  unfolding route_step_def by (intro exI [of _ "Dests s"] exI [of _ "RoutingTbl s"] exI [of _ "Stat s"]) simp

lemma route_step_trans: "route_step s s1 \<Longrightarrow> route_step s1 s2 \<Longrightarrow> route_step s s2"
  unfolding route_step_def by fastforce

lemma route_step_simps:
  assumes "route_step s s'"
  shows "PipeTbl s' = PipeTbl s" "Queues s' = Queues s" "Bufs s' = Bufs s" "RouteIdxTop s' = RouteIdxTop s" "MsgMap s' = MsgMap s"
    "HK s' = HK s" "InTransitList s' = InTransitList s" "ZeroCopyList s' = ZeroCopyList s" "LastPipeId s' = LastPipeId s"
    "length (RoutingTbl s') = length (RoutingTbl s)" "sb_events s' = sb_events s"
    "SubscriptionReporting s' = SubscriptionReporting s" "StopRecurseFlags s' = StopRecurseFlags s"
    "SBBuffersInUse (Stat s') = SBBuffersInUse (Stat s)" "PipesInUse (Stat s') = PipesInUse (Stat s)"
  using assms by (auto simp: route_step_def dest: map_eq_imp_length_eq)

lemma route_step_tbl:
  assumes "route_step s s'" and "i < length (RoutingTbl s)"
  shows "rt_MsgId (RoutingTbl s' ! i) = rt_MsgId (RoutingTbl s ! i)" "rt_SeqCnt (RoutingTbl s' ! i) = rt_SeqCnt (RoutingTbl s ! i)"
proof -
  from assms(1) obtain rt where rt: "RoutingTbl s' = rt" "map rt_MsgId rt = map rt_MsgId (RoutingTbl s)"
    "map rt_SeqCnt rt = map rt_SeqCnt (RoutingTbl s)" by (auto simp: route_step_def)
  have len: "length rt = length (RoutingTbl s)" using rt(2) by (rule map_eq_imp_length_eq)
  show "rt_MsgId (RoutingTbl s' ! i) = rt_MsgId (RoutingTbl s ! i)"
    using arg_cong [OF rt(2), of "\<lambda>xs. xs ! i"] assms(2) len by (simp add: rt(1))
  show "rt_SeqCnt (RoutingTbl s' ! i) = rt_SeqCnt (RoutingTbl s ! i)"
    using arg_cong [OF rt(3), of "\<lambda>xs. xs ! i"] assms(2) len by (simp add: rt(1))
qed

lemma route_step_map_inv: "route_step s s' \<Longrightarrow> map_inv s \<Longrightarrow> map_inv s'"
proof -
  assume st: "route_step s s'" and inv: "map_inv s"
  have id: "rt_MsgId (RoutingTbl s' ! i) = rt_MsgId (RoutingTbl s ! i)" if "i < 256" for i
    using route_step_tbl(1) [OF st] inv that by (simp add: map_inv_def)
  show ?thesis
    unfolding map_inv_def route_step_simps [OF st]
  proof (intro conjI allI impI)
    show "length (RoutingTbl s) = 256" "RouteIdxTop s \<le> 256" using inv by (auto simp: map_inv_def)
    fix m assume m: "CFE_SB_IsValidMsgId m"
    with inv show le: "MsgMap s (unat m) \<le> RouteIdxTop s" by (simp add: map_inv_def)
    assume "MsgMap s (unat m) \<noteq> 0"
    moreover have "MsgMap s (unat m) - 1 < 256"
      using le inv \<open>MsgMap s (unat m) \<noteq> 0\<close> unfolding map_inv_def by linarith
    ultimately show "rt_MsgId (RoutingTbl s' ! (MsgMap s (unat m) - 1)) = m"
      using inv m id [of "MsgMap s (unat m) - 1"] by (simp add: map_inv_def)
  next
    fix i assume "i < RouteIdxTop s"
    then show "CFE_SB_IsValidMsgId (rt_MsgId (RoutingTbl s' ! i))" "MsgMap s (unat (rt_MsgId (RoutingTbl s' ! i))) = i + 1"
      using inv id [of i] by (simp_all add: map_inv_def)
  qed
qed

lemma dest_inv_finite: "dest_inv s \<Longrightarrow> finite (dom (Dests s))"
  by (simp add: dest_inv_dom)

lemma GetDestPtr_ok:
  assumes "dest_inv s" and "r \<le> 256"
  shows "CFE_SB_GetDestPtr r p s = Some (find (\<lambda>a. pid_at (Dests s) a = p) (route_dests s r))"
proof (cases "r = 0")
  case True
  then show ?thesis by (simp add: CFE_SB_GetDestPtr_def CFE_SBR_GetDestListHeadPtr_def find_dest.simps)
next
  case False
  then show ?thesis
    using assms unfolding CFE_SB_GetDestPtr_def by (intro find_dest_dlist dest_inv_list) auto
qed

lemma find_pid_split:
  assumes "find (\<lambda>a. f a = p) as = Some a" and "distinct (map f as)"
  shows "\<exists>xs ys. as = xs @ a # ys \<and> f a = p \<and> filter (\<lambda>a. f a \<noteq> p) as = xs @ ys"
proof -
  from assms(1) obtain i where i: "i < length as" "a = as ! i" "f a = p" by (auto simp: find_Some_iff)
  then have as: "as = take i as @ a # drop (Suc i) as" by (simp add: id_take_nth_drop [symmetric])
  have "distinct (map f (take i as @ a # drop (Suc i) as))" using assms(2) as by simp
  then have "\<forall>x\<in>set (take i as @ drop (Suc i) as). f x \<noteq> p" using i(3) by (auto simp: image_iff)
  then have "filter (\<lambda>a. f a \<noteq> p) (take i as @ a # drop (Suc i) as) = take i as @ drop (Suc i) as"
    using i(3) by (simp add: filter_id_conv)
  then show ?thesis using as i(3) by metis
qed

lemma PutDestinationBlk_ok:
  assumes "Dests s a \<noteq> None"
  shows "\<exists>m. CFE_SB_PutDestinationBlk e a s = Some (s\<lparr>Dests := (Dests s)(a := None), Stat := (Stat s)\<lparr>MemInUse := m\<rparr>\<rparr>)"
proof (cases "PutPoolBuf e s a > 0")
  case True
  then show ?thesis using assms
    by (intro exI [of _ "MemInUse (Stat s) - of_int (PutPoolBuf e s a)"]) (auto simp: CFE_SB_PutDestinationBlk_def upd_Stat_def Let_def)
next
  case False
  then show ?thesis using assms
    by (intro exI [of _ "MemInUse (Stat s)"]) (auto simp: CFE_SB_PutDestinationBlk_def Let_def)
qed

text \<open>The block of a pipe is taken off a list and returned.\<close>

lemma RemoveDest_ok:
  assumes inv: "route_inv s" and r: "r \<in> route_ids" "r \<le> RouteIdxTop s"
    and a: "find (\<lambda>a. pid_at (Dests s) a = p) (route_dests s r) = Some a"
  shows "\<exists>s'. CFE_SB_RemoveDest e r a s = Some s' \<and> route_inv s' \<and> route_step s s' \<and>
     (\<forall>r'. subs_of s' r' = (if r' = r then filter (\<lambda>d. dst_PipeId d \<noteq> p) (subs_of s r) else subs_of s r')) \<and>
     dom (Dests s') = dom (Dests s) - {a}"
proof -
  note di = route_invD(2) [OF inv]
  obtain xs ys where as: "route_dests s r = xs @ a # ys" and pa: "pid_at (Dests s) a = p"
    and flt: "filter (\<lambda>a. pid_at (Dests s) a \<noteq> p) (route_dests s r) = xs @ ys"
    using find_pid_split [OF a dest_inv_pids [OF di r(1)]] by blast
  let ?ds1 = "removed_links xs a ys (Dests s)"
  let ?s1 = "(removed_head r xs ys s)\<lparr>Dests := ?ds1\<rparr>"
  note dl = dest_inv_list [OF di r(1), unfolded as]
  note rl = removed_links_ok [OF dl]
  note rm = RemoveDestNode_ok [OF dl]
  obtain d where d: "Dests s a = Some d" using dest_inv_alloc [OF di r(1), of a] by (auto simp: as)
  then have d1: "?ds1 a \<noteq> None" using same_views_dom [OF rl(2)] by blast
  let ?ds = "?ds1(a := None)"
  have rt: "\<exists>rt. removed_head r xs ys s = s\<lparr>RoutingTbl := rt\<rparr> \<and> map rt_MsgId rt = map rt_MsgId (RoutingTbl s) \<and>
      map rt_SeqCnt rt = map rt_SeqCnt (RoutingTbl s) \<and>
      (\<forall>r'. r' \<noteq> r \<longrightarrow> CFE_SBR_GetDestListHeadPtr r' (s\<lparr>RoutingTbl := rt\<rparr>) = CFE_SBR_GetDestListHeadPtr r' s) \<and>
      CFE_SBR_GetDestListHeadPtr r (s\<lparr>RoutingTbl := rt\<rparr>) = (if xs = [] then hd_opt ys else CFE_SBR_GetDestListHeadPtr r s)"
  proof (cases "xs = []")
    case True
    let ?rt = "upd_at (r - 1) (\<lambda>e. e\<lparr>rt_ListHeadPtr := hd_opt ys\<rparr>) (RoutingTbl s)"
    have len: "length (RoutingTbl s) = 256" using route_invD(1) [OF inv] by (simp add: map_inv_def)
    have "removed_head r xs ys s = s\<lparr>RoutingTbl := ?rt\<rparr>"
      using r True by (simp add: removed_head_def CFE_SBR_SetDestListHeadPtr_def upd_Route_def CFE_SBR_RouteIdToValue_def)
    moreover have "map rt_MsgId ?rt = map rt_MsgId (RoutingTbl s)" "map rt_SeqCnt ?rt = map rt_SeqCnt (RoutingTbl s)"
      using r len by (auto intro!: nth_equalityI)
    ultimately show ?thesis using True r len
      by (intro exI [of _ ?rt]) (auto simp: CFE_SBR_GetDestListHeadPtr_def CFE_SBR_RouteIdToValue_def nth_upd_at_other)
  qed (intro exI [of _ "RoutingTbl s"], simp add: removed_head_def)
  then obtain rt where rt: "removed_head r xs ys s = s\<lparr>RoutingTbl := rt\<rparr>" "map rt_MsgId rt = map rt_MsgId (RoutingTbl s)"
      "map rt_SeqCnt rt = map rt_SeqCnt (RoutingTbl s)"
      "\<And>r'. r' \<noteq> r \<Longrightarrow> CFE_SBR_GetDestListHeadPtr r' (s\<lparr>RoutingTbl := rt\<rparr>) = CFE_SBR_GetDestListHeadPtr r' s"
      "CFE_SBR_GetDestListHeadPtr r (s\<lparr>RoutingTbl := rt\<rparr>) = (if xs = [] then hd_opt ys else CFE_SBR_GetDestListHeadPtr r s)"
    by blast
  let ?t = "s\<lparr>RoutingTbl := rt, Dests := ?ds1\<rparr>"
  have "Dests ?t a \<noteq> None" using d1 by simp
  from PutDestinationBlk_ok [OF this, of e] obtain m where
    "CFE_SB_PutDestinationBlk e a ?t = Some (?t\<lparr>Dests := (Dests ?t)(a := None), Stat := (Stat ?t)\<lparr>MemInUse := m\<rparr>\<rparr>)" ..
  then have run: "CFE_SB_RemoveDest e r a s = Some (s\<lparr>RoutingTbl := rt, Dests := ?ds,
      Stat := (Stat s)\<lparr>MemInUse := m, SubscriptionsInUse := SubscriptionsInUse (Stat s) - 1\<rparr>\<rparr>)"
    by (simp add: CFE_SB_RemoveDest_def rm rt(1) upd_Stat_def)
  define s' where "s' = s\<lparr>RoutingTbl := rt, Dests := ?ds,
      Stat := (Stat s)\<lparr>MemInUse := m, SubscriptionsInUse := SubscriptionsInUse (Stat s) - 1\<rparr>\<rparr>"
  have s': "Dests s' = ?ds" "RoutingTbl s' = rt" "PipeTbl s' = PipeTbl s" "RouteIdxTop s' = RouteIdxTop s" by (simp_all add: s'_def)
  have step: "route_step s s'"
    unfolding route_step_def s'_def using rt(2,3)
    by (intro exI [of _ ?ds] exI [of _ rt] exI [of _ "(Stat s)\<lparr>MemInUse := m, SubscriptionsInUse := SubscriptionsInUse (Stat s) - 1\<rparr>"]) simp
  have heads: "CFE_SBR_GetDestListHeadPtr r' s' = CFE_SBR_GetDestListHeadPtr r' (s\<lparr>RoutingTbl := rt\<rparr>)" for r'
    by (rule head_cong) (simp add: s'_def)
  have dist: "distinct (xs @ a # ys)" using dlist_distinct [OF dl] .
  have view: "map_option dest_view (?ds b) = map_option dest_view (Dests s b)" if "b \<noteq> a" for b
    using rl(2) that by (simp add: same_views_def)
  then have pid: "pid_at ?ds b = pid_at (Dests s) b" if "b \<noteq> a" for b
    using that same_views_pid [OF rl(2), of b] by (simp add: pid_at_def)
  have upd: "dest_inv s'" "route_dests s' r = xs @ ys" "\<And>r'. r' \<in> route_ids \<Longrightarrow> r' \<noteq> r \<Longrightarrow> route_dests s' r' = route_dests s r'"
  proof (atomize (full), intro conjI allI impI)
    note R = route_update [OF di r(1), of s' "xs @ ys"]
    have 1: "dlist (Dests s') (CFE_SBR_GetDestListHeadPtr r s') (xs @ ys)"
      unfolding heads rt(5) s'(1) using rl(1) dist by (subst dlist_cong) (auto intro!: same_links_upd(2))
    have 2: "length (xs @ ys) \<le> 16" using length_route_dests [of s r] as by simp
    have 3: "CFE_SBR_GetDestListHeadPtr r' s' = CFE_SBR_GetDestListHeadPtr r' s" if "r' \<in> route_ids" "r' \<noteq> r" for r'
      using heads rt(4) that by simp
    have 4: "Dests s' b = Dests s b" if "b \<notin> set (route_dests s r)" for b
      using that rl(3) [of b] by (auto simp: s' as)
    have 5: "set (xs @ ys) \<inter> dom (Dests s) \<subseteq> set (route_dests s r)" using as by auto
    have 6: "dom (Dests s') = dom (Dests s) - set (route_dests s r) \<union> set (xs @ ys)"
      using same_views_dom [OF rl(2)] dist dlist_dom [OF dl] unfolding s'(1) as by auto
    have "map (pid_at (Dests s')) (xs @ ys) = map (pid_at (Dests s)) (xs @ ys)" using dist by (auto simp: s' intro!: pid)
    moreover have "distinct (map (pid_at (Dests s)) (xs @ a # ys))" using dest_inv_pids [OF di r(1)] as by simp
    then have "distinct (map (pid_at (Dests s)) (xs @ ys))" by auto
    ultimately have 7: "distinct (map (pid_at (Dests s')) (xs @ ys))" by (simp only:)
    have 8: "live_pipe (PipeTbl s') (dst_PipeId d')" if b: "b \<in> set (xs @ ys)" "Dests s' b = Some d'" for b d'
    proof -
      have "b \<noteq> a" using b dist by auto
      then obtain d0 where "Dests s b = Some d0" "dest_view d' = dest_view d0"
        using view [of b] b(2) by (cases "Dests s b") (auto simp: s')
      then show ?thesis using dest_inv_live [OF di] dest_view_pid s'(3) by metis
    qed
    note R = R [OF 1 2 3 4 5 6 7 8 s'(4) r(2)]
    show "dest_inv s'" "route_dests s' r = xs @ ys" using R by (auto simp: s')
    fix r' assume "r' \<in> route_ids" "r' \<noteq> r"
    with R(3) show "route_dests s' r' = route_dests s r'" by (auto simp: s')
  qed
  have "sub_stat s'"
  proof -
    have "dom (Dests s') = dom (Dests s) - {a}" using same_views_dom [OF rl(2)] by (auto simp: s')
    moreover have "card (dom (Dests s)) = Suc (card (dom (Dests s) - {a}))"
      using d dest_inv_finite [OF di] by (intro card.remove) auto
    ultimately show ?thesis using route_invD(3) [OF inv] by (simp add: sub_stat_def s'_def)
  qed
  then have "route_inv s'"
    using route_step_map_inv [OF step] route_invD(1) [OF inv] upd(1) by (simp add: route_inv_def)
  moreover have "subs_of s' r' = (if r' = r then filter (\<lambda>d. dst_PipeId d \<noteq> p) (subs_of s r) else subs_of s r')" for r'
  proof -
    have v: "dest_view (the (Dests s' b)) = dest_view (the (Dests s b))" if "b \<noteq> a" "b \<in> dom (Dests s)" for b
      using view [OF that(1)] that(2) by (auto simp: s')
    have f: "filter (\<lambda>d. dst_PipeId d \<noteq> p) (subs_of s r) = map (\<lambda>b. dest_view (the (Dests s b))) (xs @ ys)"
      unfolding subs_of_def filter_map comp_def flt [symmetric]
    proof (intro arg_cong2 [of _ _ _ _ map] filter_cong refl)
      fix b assume "b \<in> set (route_dests s r)"
      with dest_inv_alloc [OF di r(1)] obtain d where "Dests s b = Some d" by blast
      then show "(dst_PipeId (dest_view (the (Dests s b))) \<noteq> p) = (pid_at (Dests s) b \<noteq> p)" by (simp add: pid_at_def)
    qed
    have g: "subs_of s' r = map (\<lambda>b. dest_view (the (Dests s b))) (xs @ ys)"
      unfolding subs_of_def upd(2) using dist dlist_dom [OF dl] by (intro map_cong refl v) auto
    have h: "subs_of s' r' = subs_of s r'" if "r' \<in> route_ids" "r' \<noteq> r"
      unfolding subs_of_def upd(3) [OF that]
    proof (intro map_cong refl v)
      fix b assume b: "b \<in> set (route_dests s r')"
      show "b \<noteq> a" using dest_inv_disj [OF di that(1) r(1) that(2) b] as by auto
      show "b \<in> dom (Dests s)" using dest_inv_alloc [OF di that(1) b] by blast
    qed
    have "subs_of s' r' = subs_of s r'" if "r' \<notin> route_ids"
      using that by (simp add: subs_of_def route_dests_invalid)
    with f g h show ?thesis by metis
  qed
  moreover have "dom (Dests s') = dom (Dests s) - {a}" using same_views_dom [OF rl(2)] by (auto simp: s')
  ultimately show ?thesis using run step s'_def by blast
qed

lemma subs_of_invalid: "r \<notin> route_ids \<Longrightarrow> subs_of s r = []"
  by (simp add: subs_of_def route_dests_invalid)

lemma subs_of_unused: "dest_inv s \<Longrightarrow> RouteIdxTop s < r \<Longrightarrow> subs_of s r = []"
  using route_dests_invalid [of r s]
  by (cases "r \<in> route_ids") (auto simp: subs_of_def route_dests_def dest_inv_def)

lemma subs_of_pids: "dest_inv s \<Longrightarrow> map dst_PipeId (subs_of s r) = map (pid_at (Dests s)) (route_dests s r)"
proof (cases "r \<in> route_ids")
  case True
  assume inv: "dest_inv s"
  show ?thesis
    unfolding subs_of_def map_map comp_def
  proof (rule map_cong [OF refl])
    fix a assume "a \<in> set (route_dests s r)"
    with dest_inv_alloc [OF inv True] obtain d where "Dests s a = Some d" by blast
    then show "dst_PipeId (dest_view (the (Dests s a))) = pid_at (Dests s) a" by (simp add: pid_at_def)
  qed
qed (simp add: subs_of_invalid route_dests_invalid)

lemma subs_of_distinct: "dest_inv s \<Longrightarrow> distinct (map dst_PipeId (subs_of s r))"
  using dest_inv_pids [of s r] route_dests_invalid [of r s] by (cases "r \<in> route_ids") (simp_all add: subs_of_pids)

lemma subs_of_live: "dest_inv s \<Longrightarrow> d \<in> set (subs_of s r) \<Longrightarrow> live_pipe (PipeTbl s) (dst_PipeId d)"
proof (cases "r \<in> route_ids")
  case True
  assume inv: "dest_inv s" and "d \<in> set (subs_of s r)"
  then obtain a where a: "a \<in> set (route_dests s r)" "d = dest_view (the (Dests s a))" by (auto simp: subs_of_def)
  with dest_inv_alloc [OF inv True] obtain d0 where "Dests s a = Some d0" by blast
  with a dest_inv_live [OF inv] show ?thesis by simp
qed (simp add: subs_of_invalid)

lemma find_none_filter:
  assumes "dest_inv s" and "find (\<lambda>a. pid_at (Dests s) a = p) (route_dests s r) = None"
  shows "filter (\<lambda>d. dst_PipeId d \<noteq> p) (subs_of s r) = subs_of s r"
proof -
  have "p \<notin> set (map dst_PipeId (subs_of s r))" using assms by (auto simp: subs_of_pids find_None_iff)
  then show ?thesis by (auto simp: filter_id_conv)
qed

lemma find_pid_subs:
  assumes "dest_inv s"
  shows "(\<exists>a. find (\<lambda>a. pid_at (Dests s) a = p) (route_dests s r) = Some a) \<longleftrightarrow> p \<in> dst_PipeId ` set (subs_of s r)"
proof -
  have "p \<in> dst_PipeId ` set (subs_of s r) \<longleftrightarrow> p \<in> set (map (pid_at (Dests s)) (route_dests s r))"
    using subs_of_pids [OF assms, of r] by (metis set_map)
  then show ?thesis by (cases "find (\<lambda>a. pid_at (Dests s) a = p) (route_dests s r)") (auto simp: find_None_iff find_Some_iff)
qed

text \<open>Deleting a pipe takes it off one route after the other.\<close>

lemma RemovePipeFromRoute_ok:
  assumes inv: "route_inv s" and r: "r \<in> route_ids" "r \<le> RouteIdxTop s"
  shows "\<exists>s'. CFE_SB_RemovePipeFromRoute e p r s = Some s' \<and> route_inv s' \<and> route_step s s' \<and>
     (\<forall>r'. subs_of s' r' = (if r' = r then filter (\<lambda>d. dst_PipeId d \<noteq> p) (subs_of s r) else subs_of s r'))"
proof (cases "find (\<lambda>a. pid_at (Dests s) a = p) (route_dests s r)")
  case None
  then show ?thesis using inv r find_none_filter [OF route_invD(2) [OF inv] None]
    by (auto simp: CFE_SB_RemovePipeFromRoute_def GetDestPtr_ok [OF route_invD(2) [OF inv]])
next
  case (Some a)
  then show ?thesis using RemoveDest_ok [OF inv r Some, of e] r
    by (auto simp: CFE_SB_RemovePipeFromRoute_def GetDestPtr_ok [OF route_invD(2) [OF inv]])
qed

lemma remove_pipe_ok:
  assumes inv: "route_inv s"
  shows "\<exists>s'. CFE_SBR_ForEachRouteId (CFE_SB_RemovePipeFromRoute e p) s = Some s' \<and> route_inv s' \<and> route_step s s' \<and>
     (\<forall>r. subs_of s' r = filter (\<lambda>d. dst_PipeId d \<noteq> p) (subs_of s r))"
proof -
  define P where "P i t \<longleftrightarrow> route_inv t \<and> route_step s t \<and>
    (\<forall>r. subs_of t r = (if r \<le> i then filter (\<lambda>d. dst_PipeId d \<noteq> p) (subs_of s r) else subs_of s r))" for i t
  have top: "RouteIdxTop s \<le> 256" using route_invD(1) [OF inv] by (simp add: map_inv_def)
  have "P 0 s" using inv by (simp add: P_def subs_of_invalid)
  moreover have "\<exists>t'. CFE_SB_RemovePipeFromRoute e p (CFE_SBR_ValueToRouteId i) t = Some t' \<and> P (Suc i) t'"
    if "i < RouteIdxTop s" "P i t" for i t
  proof -
    have r: "Suc i \<in> route_ids" "Suc i \<le> RouteIdxTop t"
      using that top by (auto simp: P_def dest: route_step_simps(4))
    from that(2) have t: "route_inv t" "route_step s t" by (simp_all add: P_def)
    from RemovePipeFromRoute_ok [OF t(1) r, of e p] that(2) t(2) show ?thesis
      by (auto simp: P_def CFE_SBR_ValueToRouteId_def le_Suc_eq intro: route_step_trans)
  qed
  ultimately have "\<exists>s'. CFE_SBR_ForEachRouteId (CFE_SB_RemovePipeFromRoute e p) s = Some s' \<and> P (0 + RouteIdxTop s) s'"
    unfolding CFE_SBR_ForEachRouteId_def by (intro for_loop_inv) auto
  then obtain s' where s': "CFE_SBR_ForEachRouteId (CFE_SB_RemovePipeFromRoute e p) s = Some s'" "P (RouteIdxTop s) s'" by auto
  have "subs_of s' r = filter (\<lambda>d. dst_PipeId d \<noteq> p) (subs_of s r)" for r
    using s'(2) subs_of_unused [OF route_invD(2) [OF inv], of r] by (cases "r \<le> RouteIdxTop s") (auto simp: P_def)
  with s' show ?thesis by (auto simp: P_def)
qed

section \<open>Routes by message id\<close>

definition subscriptions :: "sb_state \<Rightarrow> u32 \<Rightarrow> CFE_SB_DestinationD list" where
  "subscriptions s mid = subs_of s (CFE_SBR_GetRouteId mid s)"

lemma GetRouteId_bound: "map_inv s \<Longrightarrow> CFE_SBR_GetRouteId m s \<le> RouteIdxTop s \<and> CFE_SBR_GetRouteId m s \<le> 256"
  unfolding map_inv_def CFE_SBR_GetRouteId_def by (auto intro: le_trans)

lemma GetRouteId_inj:
  assumes "map_inv s" and "CFE_SBR_GetRouteId m s = CFE_SBR_GetRouteId m' s" and "CFE_SBR_GetRouteId m s \<noteq> 0"
  shows "m = m'"
proof -
  have v: "CFE_SB_IsValidMsgId m" "CFE_SB_IsValidMsgId m'" and n: "MsgMap s (unat m) = MsgMap s (unat m')" "MsgMap s (unat m) \<noteq> 0"
    using assms(2,3) by (auto simp: CFE_SBR_GetRouteId_def split: if_splits)
  have "rt_MsgId (RoutingTbl s ! (MsgMap s (unat m) - 1)) = m" "rt_MsgId (RoutingTbl s ! (MsgMap s (unat m') - 1)) = m'"
    using assms(1) v n unfolding map_inv_def by metis+
  with n(1) show ?thesis by simp
qed

lemma msgid_value_eq: "unat (m :: u32) = unat m' \<longleftrightarrow> m = m'"
  by (auto intro: word_unat_eqI)

text \<open>A route is added for a message id that has none.\<close>

definition added_route :: "u32 \<Rightarrow> sb_state \<Rightarrow> sb_state" where
  "added_route m s = s\<lparr>RoutingTbl := upd_at (RouteIdxTop s) (\<lambda>r. r\<lparr>rt_MsgId := m\<rparr>) (RoutingTbl s),
     RouteIdxTop := RouteIdxTop s + 1, MsgMap := (MsgMap s)(unat m := RouteIdxTop s + 1)\<rparr>"

lemma AddRoute_eq:
  "CFE_SBR_AddRoute m s = (if CFE_SB_IsValidMsgId m \<and> RouteIdxTop s < 256 then (RouteIdxTop s + 1, 0, added_route m s) else (0, 0, s))"
  by (simp add: CFE_SBR_AddRoute_def CFE_SBR_SetRouteId_def CFE_SBR_ValueToRouteId_def upd_Route_def added_route_def)

lemma added_route_head:
  "map_inv s \<Longrightarrow> RouteIdxTop s < 256 \<Longrightarrow> CFE_SBR_GetDestListHeadPtr r (added_route m s) = CFE_SBR_GetDestListHeadPtr r s"
  by (auto simp: CFE_SBR_GetDestListHeadPtr_def added_route_def map_inv_def upd_at_def nth_list_update)

lemma added_route_ok:
  assumes inv: "route_inv s" and m: "CFE_SB_IsValidMsgId m" "CFE_SBR_GetRouteId m s = 0" and top: "RouteIdxTop s < 256"
  shows "route_inv (upd_Stat inc_MsgIds (added_route m s))"
    and "subs_of (upd_Stat inc_MsgIds (added_route m s)) r = subs_of s r"
    and "CFE_SBR_GetRouteId m' (upd_Stat inc_MsgIds (added_route m s)) =
      (if m' = m then RouteIdxTop s + 1 else CFE_SBR_GetRouteId m' s)"
proof -
  let ?s = "upd_Stat inc_MsgIds (added_route m s)"
  note mi = route_invD(1) [OF inv] and di = route_invD(2) [OF inv]
  have head: "CFE_SBR_GetDestListHeadPtr r ?s = CFE_SBR_GetDestListHeadPtr r s" for r
    using added_route_head [OF mi top, of r m] head_cong [of ?s "added_route m s"] by (simp add: upd_Stat_def)
  have rd: "route_dests ?s r = route_dests s r" for r
    by (simp add: route_dests_def head) (simp add: upd_Stat_def added_route_def)
  show "subs_of ?s r = subs_of s r"
    by (simp add: subs_of_def rd) (simp add: upd_Stat_def added_route_def)
  show "CFE_SBR_GetRouteId m' ?s = (if m' = m then RouteIdxTop s + 1 else CFE_SBR_GetRouteId m' s)"
    using m(1) by (auto simp: CFE_SBR_GetRouteId_def upd_Stat_def added_route_def msgid_value_eq)
  have unused: "MsgMap s (unat m) = 0" using m by (simp add: CFE_SBR_GetRouteId_def)
  have len: "length (RoutingTbl s) = 256" and le: "\<And>m. CFE_SB_IsValidMsgId m \<Longrightarrow> MsgMap s (unat m) \<le> RouteIdxTop s"
    and named: "\<And>m. CFE_SB_IsValidMsgId m \<Longrightarrow> MsgMap s (unat m) \<noteq> 0 \<Longrightarrow> rt_MsgId (RoutingTbl s ! (MsgMap s (unat m) - 1)) = m"
    and rev: "\<And>i. i < RouteIdxTop s \<Longrightarrow> CFE_SB_IsValidMsgId (rt_MsgId (RoutingTbl s ! i)) \<and> MsgMap s (unat (rt_MsgId (RoutingTbl s ! i))) = i + 1"
    using mi by (simp_all add: map_inv_def)
  have "map_inv (added_route m s)"
    unfolding map_inv_def
  proof (intro conjI allI impI)
    show "length (RoutingTbl (added_route m s)) = 256" "RouteIdxTop (added_route m s) \<le> 256"
      using len top by (simp_all add: added_route_def)
    fix m' assume v: "CFE_SB_IsValidMsgId m'"
    show "MsgMap (added_route m s) (unat m') \<le> RouteIdxTop (added_route m s)"
      using le [OF v] by (simp add: added_route_def)
    assume nz: "MsgMap (added_route m s) (unat m') \<noteq> 0"
    show "rt_MsgId (RoutingTbl (added_route m s) ! (MsgMap (added_route m s) (unat m') - 1)) = m'"
    proof (cases "m' = m")
      case False
      then have mm: "MsgMap (added_route m s) (unat m') = MsgMap s (unat m')" by (simp add: added_route_def msgid_value_eq)
      with nz le [OF v] have "MsgMap s (unat m') - 1 < RouteIdxTop s" by simp
      with named [OF v] nz mm top show ?thesis by (simp add: added_route_def nth_upd_at_other)
    qed (use len top in \<open>simp add: added_route_def\<close>)
  next
    fix i assume "i < RouteIdxTop (added_route m s)"
    then have "i < RouteIdxTop s \<or> i = RouteIdxTop s" by (auto simp: added_route_def)
    then show "CFE_SB_IsValidMsgId (rt_MsgId (RoutingTbl (added_route m s) ! i))"
      and "MsgMap (added_route m s) (unat (rt_MsgId (RoutingTbl (added_route m s) ! i))) = i + 1"
      using rev [of i] unused m(1) len top
      by (auto simp: added_route_def nth_upd_at_other msgid_value_eq)
  qed
  then have "map_inv ?s" by (simp add: map_inv_def upd_Stat_def)
  moreover have "dest_inv ?s"
    unfolding dest_inv_def rd head using di by (auto simp: dest_inv_def upd_Stat_def added_route_def)
  moreover have "sub_stat ?s"
    using route_invD(3) [OF inv] by (simp add: sub_stat_def upd_Stat_def added_route_def inc_MsgIds_def Let_def)
  ultimately show "route_inv ?s" by (simp add: route_inv_def)
qed

section \<open>Subscribing\<close>

text \<open>The memory pool gives out no block that is in use.\<close>

definition pool_fresh :: "sb_env \<Rightarrow> bool" where
  "pool_fresh e \<longleftrightarrow> (\<forall>s n st a. GetPoolBuf e s n = (st, a) \<longrightarrow> 0 \<le> st \<longrightarrow> Bufs s a = None \<and> Dests s a = None)"

lemma subscribe_scan_ok:
  assumes inv: "dest_inv s" and r: "r \<in> route_ids"
  shows "\<exists>ptr ev. subscribe_scan (Dests s) p (CFE_SBR_GetDestListHeadPtr r s) 0 = Some (ptr, ev) \<and>
     (if p \<in> dst_PipeId ` set (subs_of s r) then ptr \<noteq> None \<and> ev = CFE_SB_DUP_SUBSCRIP_EID
      else if length (subs_of s r) = 16 then ptr \<noteq> None \<and> ev = CFE_SB_MAX_DESTS_MET_EID
      else ptr = None \<and> ev = 0)"
proof -
  let ?as = "route_dests s r"
  have len: "length (subs_of s r) = length ?as" by (simp add: subs_of_def)
  have "dseg (Dests s) None (CFE_SBR_GetDestListHeadPtr r s) ?as (if ?as = [] then None else Some (last ?as)) None"
    using dest_inv_list [OF inv r] by (simp add: dlist_def)
  note scan = subscribe_scan_dseg [OF this, of 0 p]
  show ?thesis
  proof (cases "find (\<lambda>a. pid_at (Dests s) a = p) ?as")
    case None
    then have "p \<notin> dst_PipeId ` set (subs_of s r)" using find_pid_subs [OF inv, of p r] by simp
    then show ?thesis using None scan le_neq_implies_less [OF length_route_dests [of s r]] by (simp add: len)
  next
    case (Some a)
    then have "p \<in> dst_PipeId ` set (subs_of s r)" using find_pid_subs [OF inv, of p r] by simp
    then show ?thesis using Some scan by simp
  qed
qed

lemma new_dest_ok:
  assumes inv: "route_inv s" and r: "r \<in> route_ids" "r \<le> RouteIdxTop s" and p: "live_pipe (PipeTbl s) p"
    and new: "p \<notin> dst_PipeId ` set (subs_of s r)" "length (subs_of s r) < 16" and a: "Dests s a = None"
  shows "\<exists>t. CFE_SB_AddDestNode r a (upd_Stat (add_MemInUse n) s\<lparr>Dests := (Dests s)(a \<mapsto> new_dest p lim scope)\<rparr>) = Some t \<and>
     route_inv (upd_Stat inc_Subscriptions t) \<and> route_step s (upd_Stat inc_Subscriptions t) \<and>
     (\<forall>r'. subs_of (upd_Stat inc_Subscriptions t) r' = (if r' = r then new_dest p lim scope # subs_of s r else subs_of s r'))"
proof -
  note di = route_invD(2) [OF inv]
  have len: "length (RoutingTbl s) = 256" using route_invD(1) [OF inv] by (simp add: map_inv_def)
  let ?as = "route_dests s r" and ?d = "new_dest p lim scope"
  let ?s1 = "upd_Stat (add_MemInUse n) s\<lparr>Dests := (Dests s)(a \<mapsto> ?d)\<rparr>"
  have a_new: "a \<notin> set (route_dests s r')" if "r' \<in> route_ids" for r'
    using dest_inv_alloc [OF di that] a by force
  have s1: "Dests ?s1 = (Dests s)(a \<mapsto> ?d)" "PipeTbl ?s1 = PipeTbl s" "RouteIdxTop ?s1 = RouteIdxTop s"
    "CFE_SBR_GetDestListHeadPtr r' ?s1 = CFE_SBR_GetDestListHeadPtr r' s" for r'
    using head_cong [of ?s1 s] by (simp_all add: upd_Stat_def)
  have "dlist (Dests ?s1) (CFE_SBR_GetDestListHeadPtr r ?s1) ?as"
    unfolding s1 using dest_inv_list [OF di r(1)] a_new [OF r(1)] by (subst dlist_cong) (auto intro!: same_links_upd(1))
  then obtain ds where ds: "CFE_SB_AddDestNode r a ?s1 = Some ((CFE_SBR_SetDestListHeadPtr r (Some a) ?s1)\<lparr>Dests := ds\<rparr>)"
      "dlist ds (Some a) (a # ?as)" "same_views ((Dests s)(a \<mapsto> ?d)) ds" "\<And>b. b \<notin> set (a # ?as) \<Longrightarrow> ds b = Dests s b"
    using AddDestNode_ok [of ?s1 r ?as a ?d] a_new [OF r(1)] unfolding s1 by auto
  define t where "t = (CFE_SBR_SetDestListHeadPtr r (Some a) ?s1)\<lparr>Dests := ds\<rparr>"
  let ?t = "upd_Stat inc_Subscriptions t"
  let ?rt = "upd_at (r - 1) (\<lambda>e. e\<lparr>rt_ListHeadPtr := Some a\<rparr>) (RoutingTbl s)"
  have t: "?t = s\<lparr>RoutingTbl := ?rt, Dests := ds, Stat := inc_Subscriptions (add_MemInUse n (Stat s))\<rparr>"
    using r(1) by (simp add: t_def CFE_SBR_SetDestListHeadPtr_def upd_Route_def upd_Stat_def CFE_SBR_RouteIdToValue_def)
  have tt: "Dests ?t = ds" "PipeTbl ?t = PipeTbl s" "RouteIdxTop ?t = RouteIdxTop s"
    "Stat ?t = inc_Subscriptions (add_MemInUse n (Stat s))" unfolding t by simp_all
  have rt: "map rt_MsgId ?rt = map rt_MsgId (RoutingTbl s)" "map rt_SeqCnt ?rt = map rt_SeqCnt (RoutingTbl s)"
    using r len by (auto intro!: nth_equalityI)
  have step: "route_step s ?t"
    unfolding route_step_def t using rt
    by (intro exI [of _ ?rt] exI [of _ ds] exI [of _ "inc_Subscriptions (add_MemInUse n (Stat s))"])
      (simp add: inc_Subscriptions_def add_MemInUse_def Let_def)
  have head: "CFE_SBR_GetDestListHeadPtr r' ?t = (if r' = r then Some a else CFE_SBR_GetDestListHeadPtr r' s)" if "r' \<in> route_ids" for r'
    unfolding t using that r len
    by (auto simp: CFE_SBR_GetDestListHeadPtr_def CFE_SBR_RouteIdToValue_def nth_upd_at_other)
  have view: "map_option dest_view (ds b) = (if b = a then Some ?d else map_option dest_view (Dests s b))" for b
    using ds(3) by (simp add: same_views_def)
  have pid: "pid_at ds b = (if b = a then p else pid_at (Dests s) b)" for b
    using same_views_pid [OF ds(3), of b] by (simp add: pid_at_def new_dest_def)
  have lensub: "length (subs_of s r) = length ?as" by (simp add: subs_of_def)
  have upd: "dest_inv ?t" "route_dests ?t r = a # ?as" "\<And>r'. r' \<in> route_ids \<Longrightarrow> r' \<noteq> r \<Longrightarrow> route_dests ?t r' = route_dests s r'"
  proof (atomize (full), intro conjI allI impI)
    note R = route_update [OF di r(1), of ?t "a # ?as"]
    have 1: "dlist (Dests ?t) (CFE_SBR_GetDestListHeadPtr r ?t) (a # ?as)" using ds(2) head [OF r(1)] by (simp add: tt)
    have 2: "length (a # ?as) \<le> 16" using new(2) by (simp add: lensub)
    have 3: "CFE_SBR_GetDestListHeadPtr r' ?t = CFE_SBR_GetDestListHeadPtr r' s" if "r' \<in> route_ids" "r' \<noteq> r" for r'
      using head that by simp
    have 4: "Dests ?t b = Dests s b" if "b \<notin> set (a # ?as)" for b using that ds(4) by (simp add: tt)
    have 5: "set (a # ?as) \<inter> dom (Dests s) \<subseteq> set ?as" using a by auto
    have 6: "dom (Dests ?t) = dom (Dests s) - set ?as \<union> set (a # ?as)"
      using same_views_dom [OF ds(3)] dlist_dom [OF dest_inv_list [OF di r(1)]] by (auto simp: tt)
    have "map (pid_at ds) ?as = map (pid_at (Dests s)) ?as" using pid a_new [OF r(1)] by auto
    moreover have "p \<notin> set (map (pid_at (Dests s)) ?as)" using new(1) subs_of_pids [OF di, of r] by (metis set_map)
    moreover have "distinct (map (pid_at (Dests s)) ?as)" using dest_inv_pids [OF di r(1)] .
    ultimately have 7: "distinct (map (pid_at (Dests ?t)) (a # ?as))" using pid [of a]
      by (simp only: tt list.map distinct.simps if_True simp_thms)
    have 8: "live_pipe (PipeTbl ?t) (dst_PipeId d')" if b: "b \<in> set (a # ?as)" "Dests ?t b = Some d'" for b d'
    proof (cases "b = a")
      case True
      then have "dest_view d' = ?d" using view [of b] b(2) by (simp add: tt)
      then have "dst_PipeId d' = p" using dest_view_simps(3) [of d'] by (simp add: new_dest_def)
      then show ?thesis using p by (simp add: tt)
    next
      case False
      then obtain d0 where "Dests s b = Some d0" "dest_view d' = dest_view d0"
        using view [of b] b(2) by (cases "Dests s b") (auto simp: tt)
      then show ?thesis using dest_inv_live [OF di] dest_view_pid tt(2) by metis
    qed
    have 41: "Dests ?t b = Dests s b" if "b \<notin> set ?as" "b \<notin> set (a # ?as)" for b using that 4 by simp
    note R = R [OF 1 2 3 41 5 6 7 8 tt(3) r(2)]
    show "dest_inv ?t" "route_dests ?t r = a # ?as" using R by (auto simp: tt)
    fix r' assume "r' \<in> route_ids" "r' \<noteq> r"
    with R(3) show "route_dests ?t r' = route_dests s r'" by (auto simp: tt)
  qed
  have "dom ds = insert a (dom (Dests s))" using same_views_dom [OF ds(3)] by auto
  then have "card (dom ds) = Suc (card (dom (Dests s)))" using dest_inv_finite [OF di] a by (simp add: card_insert_if domIff)
  then have "sub_stat ?t"
    using route_invD(3) [OF inv] unfolding sub_stat_def tt
    by (simp add: inc_Subscriptions_def add_MemInUse_def Let_def)
  then have "route_inv ?t"
    using route_step_map_inv [OF step route_invD(1) [OF inv]] upd(1) by (simp add: route_inv_def)
  moreover have "subs_of ?t r' = (if r' = r then ?d # subs_of s r else subs_of s r')" for r'
  proof (cases "r' \<in> route_ids")
    case True
    have v: "dest_view (the (ds b)) = dest_view (the (Dests s b))" if "b \<in> set (route_dests s r')" for b
    proof -
      have "b \<noteq> a" using a_new [OF True] that by blast
      then show ?thesis using view [of b] dest_inv_alloc [OF di True that] by auto
    qed
    have va: "dest_view (the (ds a)) = ?d" using view [of a] by auto
    show ?thesis using v va upd(2,3) True by (auto simp: subs_of_def tt)
  qed (use r in \<open>auto simp: subs_of_invalid\<close>)
  ultimately show ?thesis using ds(1) step t_def by blast
qed

lemma subscribe_dest_ok:
  assumes inv: "route_inv s" and r: "r \<in> route_ids" "r \<le> RouteIdxTop s" and p: "live_pipe (PipeTbl s) p" and pool: "pool_fresh e"
  shows "\<exists>ev s'. subscribe_dest e p lim scope r s = Some (ev, s') \<and> route_inv s' \<and> route_step s s' \<and>
     (if p \<in> dst_PipeId ` set (subs_of s r) then ev = CFE_SB_DUP_SUBSCRIP_EID \<and> s' = s
      else if length (subs_of s r) = 16 then ev = CFE_SB_MAX_DESTS_MET_EID \<and> s' = s
      else if fst (GetPoolBuf e s (DESTINATION_SIZE e)) < 0 then ev = CFE_SB_DEST_BLK_ERR_EID \<and> s' = s
      else ev = 0 \<and> (\<forall>r'. subs_of s' r' = (if r' = r then new_dest p lim scope # subs_of s r else subs_of s r')))"
proof -
  note di = route_invD(2) [OF inv]
  obtain ptr ev where scan: "subscribe_scan (Dests s) p (CFE_SBR_GetDestListHeadPtr r s) 0 = Some (ptr, ev)"
    "if p \<in> dst_PipeId ` set (subs_of s r) then ptr \<noteq> None \<and> ev = CFE_SB_DUP_SUBSCRIP_EID
      else if length (subs_of s r) = 16 then ptr \<noteq> None \<and> ev = CFE_SB_MAX_DESTS_MET_EID else ptr = None \<and> ev = 0"
    using subscribe_scan_ok [OF di r(1)] by blast
  show ?thesis
  proof (cases "p \<in> dst_PipeId ` set (subs_of s r) \<or> length (subs_of s r) = 16")
    case True
    then show ?thesis using scan inv by (auto simp: subscribe_dest_def split: if_splits)
  next
    case False
    then have ptr: "ptr = None" "ev = 0" using scan(2) by auto
    obtain st a where pb: "GetPoolBuf e s (DESTINATION_SIZE e) = (st, a)" by fastforce
    show ?thesis
    proof (cases "st < 0")
      case True
      then show ?thesis using False inv by (auto simp: subscribe_dest_def scan(1) ptr CFE_SB_GetDestinationBlk_def pb)
    next
      case nonneg: False
      then have "Dests s a = None" using pool pb by (simp add: pool_fresh_def)
      moreover have "length (subs_of s r) < 16" using False le_neq_implies_less [OF length_route_dests [of s r]] by (simp add: subs_of_def)
      ultimately show ?thesis
        using new_dest_ok [OF inv r p, where a = a and n = "of_int st" and lim = lim and scope = scope] False nonneg
        by (auto simp: subscribe_dest_def scan(1) ptr CFE_SB_GetDestinationBlk_def pb) (auto simp: upd_Stat_def)
    qed
  qed
qed

text \<open>The part of the state that buffers, queues and pipes make up.\<close>

definition buf_part :: "sb_state \<Rightarrow> (nat \<Rightarrow> CFE_SB_BufferD option) \<times> CFE_SB_BufferLink \<times> CFE_SB_BufferLink \<times>
    CFE_SB_PipeD list \<times> os_queues \<times> u32 \<times> u32 \<times> u32" where
  "buf_part s = (Bufs s, InTransitList s, ZeroCopyList s, PipeTbl s, Queues s, SBBuffersInUse (Stat s),
     PipesInUse (Stat s), LastPipeId s)"

lemma buf_part_eq:
  "buf_part s' = buf_part s \<longleftrightarrow> Bufs s' = Bufs s \<and> InTransitList s' = InTransitList s \<and> ZeroCopyList s' = ZeroCopyList s \<and>
     PipeTbl s' = PipeTbl s \<and> Queues s' = Queues s \<and> SBBuffersInUse (Stat s') = SBBuffersInUse (Stat s) \<and>
     PipesInUse (Stat s') = PipesInUse (Stat s) \<and> LastPipeId s' = LastPipeId s"
  by (auto simp: buf_part_def)

lemma route_step_buf_part: "route_step s s' \<Longrightarrow> buf_part s' = buf_part s"
  by (simp add: buf_part_eq route_step_simps)

lemma route_step_GetRouteId: "route_step s s' \<Longrightarrow> CFE_SBR_GetRouteId m s' = CFE_SBR_GetRouteId m s"
  by (simp add: CFE_SBR_GetRouteId_def route_step_simps)

lemma upd_HK_inv [simp]:
  "route_inv (upd_HK f s) = route_inv s" "buf_part (upd_HK f s) = buf_part s" "subs_of (upd_HK f s) r = subs_of s r"
  "subscriptions (upd_HK f s) m = subscriptions s m" "CFE_SBR_GetRouteId m (upd_HK f s) = CFE_SBR_GetRouteId m s"
  "PipeTbl (upd_HK f s) = PipeTbl s" "RouteIdxTop (upd_HK f s) = RouteIdxTop s" "Dests (upd_HK f s) = Dests s"
proof -
  show "route_inv (upd_HK f s) = route_inv s" by (rule route_inv_cong) (simp_all add: upd_HK_def)
  have rd: "route_dests (upd_HK f s) r = route_dests s r" for r by (rule route_inv_cong(2)) (simp_all add: upd_HK_def)
  show "subs_of (upd_HK f s) r = subs_of s r" for r by (simp add: subs_of_def rd) (simp add: upd_HK_def)
  then show "subscriptions (upd_HK f s) m = subscriptions s m"
    by (simp add: subscriptions_def CFE_SBR_GetRouteId_def) (simp add: upd_HK_def)
qed (simp_all add: upd_HK_def buf_part_def CFE_SBR_GetRouteId_def)

text \<open>The outcome of the checks, in the order the code makes them.\<close>

definition subscribe_refused :: "sb_env \<Rightarrow> u32 \<Rightarrow> u32 \<Rightarrow> u8 \<Rightarrow> sb_state \<Rightarrow> nat" where
  "subscribe_refused e mid p scope s =
     (if \<not> live_pipe (PipeTbl s) p then CFE_SB_SUB_INV_PIPE_EID
      else if pd_AppId (PipeTbl s ! the (CFE_SB_LocatePipeDescByID p)) \<noteq> snd (CallerApp e) then CFE_SB_SUB_INV_CALLER_EID
      else if \<not> CFE_SB_IsValidMsgId mid \<or> scope > 1 then CFE_SB_SUB_ARG_ERR_EID
      else if CFE_SBR_GetRouteId mid s = 0 \<and> RouteIdxTop s = CFE_PLATFORM_SB_MAX_MSG_IDS then CFE_SB_MAX_MSGS_MET_EID
      else 0)"

lemma subscribe_route_ok:
  assumes inv: "route_inv s"
  shows "\<exists>rid s'. subscribe_route e mid p scope s = (subscribe_refused e mid p scope s, rid, 0, s') \<and>
     route_inv s' \<and> buf_part s' = buf_part s \<and> (\<forall>m. subscriptions s' m = subscriptions s m) \<and>
     (if subscribe_refused e mid p scope s = 0
      then rid = CFE_SBR_GetRouteId mid s' \<and> rid \<in> route_ids \<and> rid \<le> RouteIdxTop s' \<and> subs_of s' rid = subscriptions s mid
      else s' = s)"
proof -
  let ?rid = "CFE_SBR_GetRouteId mid s"
  note mi = route_invD(1) [OF inv]
  have bound: "?rid \<le> RouteIdxTop s" "?rid \<le> 256" using GetRouteId_bound [OF mi] by auto
  have top: "RouteIdxTop s \<le> 256" using mi by (simp add: map_inv_def)
  show ?thesis
  proof (cases "live_pipe (PipeTbl s) p \<and> pd_AppId (PipeTbl s ! the (CFE_SB_LocatePipeDescByID p)) = snd (CallerApp e) \<and>
      CFE_SB_IsValidMsgId mid \<and> \<not> scope > 1")
    case False
    then show ?thesis using inv by (auto simp: subscribe_route_def subscribe_refused_def PipeDescIsMatch_live Let_def)
  next
    case ok: True
    show ?thesis
    proof (cases "?rid = 0")
      case False
      then show ?thesis using ok inv bound
        by (auto simp: subscribe_route_def subscribe_refused_def PipeDescIsMatch_live Let_def subscriptions_def)
    next
      case none: True
      show ?thesis
      proof (cases "RouteIdxTop s = 256")
        case True
        then show ?thesis using ok inv none
          by (auto simp: subscribe_route_def subscribe_refused_def PipeDescIsMatch_live Let_def AddRoute_eq)
      next
        case False
        with top have lt: "RouteIdxTop s < 256" by simp
        let ?s = "upd_Stat inc_MsgIds (added_route mid s)"
        note ad = added_route_ok [OF inv conjunct1 [OF conjunct2 [OF conjunct2 [OF ok]]] none lt]
        have run: "subscribe_route e mid p scope s = (0, RouteIdxTop s + 1, 0, ?s)" and ref: "subscribe_refused e mid p scope s = 0"
          using ok none False lt
          by (simp_all add: subscribe_route_def subscribe_refused_def PipeDescIsMatch_live Let_def AddRoute_eq)
        have un: "subs_of s (RouteIdxTop s + 1) = []" "subs_of s 0 = []"
          using subs_of_unused [OF route_invD(2) [OF inv]] subs_of_invalid [of 0 s] by auto
        have "subscriptions ?s m = subscriptions s m" for m
          using ad(2,3) un none by (simp add: subscriptions_def)
        moreover have "buf_part ?s = buf_part s"
          by (simp add: buf_part_def upd_Stat_def added_route_def inc_MsgIds_def Let_def)
        moreover have "RouteIdxTop ?s = RouteIdxTop s + 1" by (simp add: upd_Stat_def added_route_def)
        ultimately show ?thesis using ad run ref lt un none by (simp add: subscriptions_def)
      qed
    qed
  qed
qed

lemma live_buf_part: "buf_part s' = buf_part s \<Longrightarrow> live_pipe (PipeTbl s') p = live_pipe (PipeTbl s) p"
  by (simp add: buf_part_eq)

lemma subscribe_refused_live: "subscribe_refused e mid p scope s = 0 \<Longrightarrow> live_pipe (PipeTbl s) p"
  by (auto simp: subscribe_refused_def split: if_splits)

text \<open>What the locked section of a subscription does, on every branch.\<close>

definition subscribe_outcome :: "sb_env \<Rightarrow> u32 \<Rightarrow> u32 \<Rightarrow> u8 \<Rightarrow> sb_state \<Rightarrow> nat" where
  "subscribe_outcome e mid p scope s =
     (if subscribe_refused e mid p scope s \<noteq> 0 then subscribe_refused e mid p scope s
      else if p \<in> dst_PipeId ` set (subscriptions s mid) then CFE_SB_DUP_SUBSCRIP_EID
      else if length (subscriptions s mid) = CFE_PLATFORM_SB_MAX_DEST_PER_PKT then CFE_SB_MAX_DESTS_MET_EID
      else if fst (GetPoolBuf e (snd (snd (snd (subscribe_route e mid p scope s)))) (DESTINATION_SIZE e)) < 0
      then CFE_SB_DEST_BLK_ERR_EID else 0)"

lemma subscribe_locked_ok:
  assumes inv: "route_inv s" and pool: "pool_fresh e"
  shows "\<exists>s'. subscribe_locked e mid p lim scope s = Some (subscribe_outcome e mid p scope s, 0, s') \<and>
     route_inv s' \<and> buf_part s' = buf_part s \<and>
     (\<forall>m. subscriptions s' m = (if m = mid \<and> subscribe_outcome e mid p scope s = 0
        then new_dest p lim scope # subscriptions s m else subscriptions s m))"
proof -
  obtain rid s1 where r: "subscribe_route e mid p scope s = (subscribe_refused e mid p scope s, rid, 0, s1)"
     "route_inv s1" "buf_part s1 = buf_part s" "\<And>m. subscriptions s1 m = subscriptions s m"
     "if subscribe_refused e mid p scope s = 0
      then rid = CFE_SBR_GetRouteId mid s1 \<and> rid \<in> route_ids \<and> rid \<le> RouteIdxTop s1 \<and> subs_of s1 rid = subscriptions s mid
      else s1 = s"
    using subscribe_route_ok [OF inv, of e mid p scope] by blast
  have count: "buf_part (subscribe_count ev t) = buf_part t" "route_inv (subscribe_count ev t) = route_inv t"
    "subscriptions (subscribe_count ev t) m = subscriptions t m" for ev t m
    by (simp_all add: subscribe_count_def)
  show ?thesis
  proof (cases "subscribe_refused e mid p scope s = 0")
    case False
    then show ?thesis using r count inv by (auto simp: subscribe_locked_def subscribe_outcome_def)
  next
    case True
    then have rid: "rid = CFE_SBR_GetRouteId mid s1" "rid \<in> route_ids" "rid \<le> RouteIdxTop s1" "subs_of s1 rid = subscriptions s mid"
      using r(5) by auto
    have p: "live_pipe (PipeTbl s1) p" using subscribe_refused_live [OF True] live_buf_part [OF r(3)] by simp
    obtain ev s2 where d: "subscribe_dest e p lim scope rid s1 = Some (ev, s2)" "route_inv s2" "route_step s1 s2"
      "if p \<in> dst_PipeId ` set (subs_of s1 rid) then ev = CFE_SB_DUP_SUBSCRIP_EID \<and> s2 = s1
      else if length (subs_of s1 rid) = 16 then ev = CFE_SB_MAX_DESTS_MET_EID \<and> s2 = s1
      else if fst (GetPoolBuf e s1 (DESTINATION_SIZE e)) < 0 then ev = CFE_SB_DEST_BLK_ERR_EID \<and> s2 = s1
      else ev = 0 \<and> (\<forall>r'. subs_of s2 r' = (if r' = rid then new_dest p lim scope # subs_of s1 rid else subs_of s1 r'))"
      using subscribe_dest_ok [OF r(2) rid(2,3) p pool, of lim scope] by blast
    have ev: "ev = subscribe_outcome e mid p scope s"
      using d(4) True unfolding subscribe_outcome_def r(1) by (auto simp: rid(4) split: if_splits)
    have subs: "subscriptions s2 m = (if m = mid \<and> ev = 0 then new_dest p lim scope # subscriptions s m else subscriptions s m)" for m
    proof (cases "ev = 0")
      case True
      then have new: "subs_of s2 r' = (if r' = rid then new_dest p lim scope # subs_of s1 rid else subs_of s1 r')" for r'
        using d(4) by (auto split: if_splits)
      have "CFE_SBR_GetRouteId m s1 = rid \<longleftrightarrow> m = mid"
      proof
        assume same: "CFE_SBR_GetRouteId m s1 = rid"
        have "mid = m" by (rule GetRouteId_inj [OF route_invD(1) [OF r(2)]]) (use same rid(1,2) in simp_all)
        then show "m = mid" ..
      qed (simp add: rid(1))
      then show ?thesis
        using True r(4) [of m] rid(4) unfolding subscriptions_def [of s2] route_step_GetRouteId [OF d(3)] new
        unfolding subscriptions_def [of s1] by simp
    qed (use d(4) r(4) in \<open>auto split: if_splits\<close>)
    have run: "subscribe_locked e mid p lim scope s = Some (ev, 0, subscribe_count ev s2)"
      using True d(1) by (simp add: subscribe_locked_def r(1))
    show ?thesis
      unfolding ev [symmetric]
    proof (intro exI conjI allI)
      show "subscribe_locked e mid p lim scope s = Some (ev, 0, subscribe_count ev s2)" by (rule run)
      show "route_inv (subscribe_count ev s2)" using d(2) by (simp add: count)
      show "buf_part (subscribe_count ev s2) = buf_part s" using r(3) route_step_buf_part [OF d(3)] by (simp add: count)
      show "subscriptions (subscribe_count ev s2) m = (if m = mid \<and> ev = 0 then new_dest p lim scope # subscriptions s m
          else subscriptions s m)" for m using subs by (simp add: count)
    qed
  qed
qed

section \<open>Unsubscribing\<close>

definition unsubscribe_refused :: "u32 \<Rightarrow> u32 \<Rightarrow> u8 \<Rightarrow> u32 \<Rightarrow> sb_state \<Rightarrow> nat" where
  "unsubscribe_refused mid p scope app s =
     (if \<not> live_pipe (PipeTbl s) p then CFE_SB_UNSUB_INV_PIPE_EID
      else if pd_AppId (PipeTbl s ! the (CFE_SB_LocatePipeDescByID p)) \<noteq> app then CFE_SB_UNSUB_INV_CALLER_EID
      else if \<not> CFE_SB_IsValidMsgId mid \<or> scope > 1 then CFE_SB_UNSUB_ARG_ERR_EID else 0)"

lemma unsubscribe_locked_ok:
  assumes inv: "route_inv s"
  shows "\<exists>s'. unsubscribe_locked e mid p scope app s =
     Some (if unsubscribe_refused mid p scope app s = 0 then 0 else CFE_SB_BAD_ARGUMENT,
           if unsubscribe_refused mid p scope app s \<noteq> 0 then unsubscribe_refused mid p scope app s
           else if p \<in> dst_PipeId ` set (subscriptions s mid) then 0 else CFE_SB_UNSUB_NO_SUBS_EID, s') \<and>
     route_inv s' \<and> buf_part s' = buf_part s \<and>
     (\<forall>m. subscriptions s' m = (if m = mid \<and> unsubscribe_refused mid p scope app s = 0
        then filter (\<lambda>d. dst_PipeId d \<noteq> p) (subscriptions s m) else subscriptions s m))"
proof -
  let ?rid = "CFE_SBR_GetRouteId mid s"
  note mi = route_invD(1) [OF inv] and di = route_invD(2) [OF inv]
  have bound: "?rid \<le> RouteIdxTop s" "?rid \<le> 256" using GetRouteId_bound [OF mi] by auto
  show ?thesis
  proof (cases "unsubscribe_refused mid p scope app s = 0")
    case False
    then show ?thesis using inv
      by (auto simp: unsubscribe_locked_def unsubscribe_refused_def PipeDescIsMatch_live Let_def split: if_splits)
  next
    case ok: True
    then have start: "unsubscribe_locked e mid p scope app s =
       (if ?rid \<notin> route_ids then Some (0, CFE_SB_UNSUB_NO_SUBS_EID, s)
        else Option.bind (CFE_SB_GetDestPtr ?rid p s) (\<lambda>destptr. case destptr of
            None \<Rightarrow> Some (0, CFE_SB_UNSUB_NO_SUBS_EID, s)
          | Some a \<Rightarrow> Option.bind (CFE_SB_RemoveDest e ?rid a s) (\<lambda>s. Some (0, 0, s))))"
      by (auto simp: unsubscribe_locked_def unsubscribe_refused_def PipeDescIsMatch_live Let_def split: if_splits)
    show ?thesis
    proof (cases "find (\<lambda>a. pid_at (Dests s) a = p) (route_dests s ?rid)")
      case None
      then have "p \<notin> dst_PipeId ` set (subscriptions s mid)"
        using find_pid_subs [OF di, of p ?rid] by (simp add: subscriptions_def)
      moreover have "filter (\<lambda>d. dst_PipeId d \<noteq> p) (subscriptions s mid) = subscriptions s mid"
        using find_none_filter [OF di None] by (simp add: subscriptions_def)
      ultimately show ?thesis using ok inv None bound by (auto simp: start GetDestPtr_ok [OF di])
    next
      case (Some a)
      have rid: "?rid \<in> route_ids"
        using Some route_dests_invalid [of ?rid s] by (cases "?rid \<in> route_ids") auto
      have mem: "p \<in> dst_PipeId ` set (subscriptions s mid)"
        using find_pid_subs [OF di, of p ?rid] Some by (simp add: subscriptions_def)
      obtain s' where s': "CFE_SB_RemoveDest e ?rid a s = Some s'" "route_inv s'" "route_step s s'"
        "\<And>r'. subs_of s' r' = (if r' = ?rid then filter (\<lambda>d. dst_PipeId d \<noteq> p) (subs_of s ?rid) else subs_of s r')"
        using RemoveDest_ok [OF inv rid bound(1) Some, of e] by blast
      have "CFE_SBR_GetRouteId m s = ?rid \<longleftrightarrow> m = mid" for m
      proof
        assume same: "CFE_SBR_GetRouteId m s = ?rid"
        have "mid = m" by (rule GetRouteId_inj [OF mi]) (use same rid in simp_all)
        then show "m = mid" ..
      qed simp
      then have "subscriptions s' m = (if m = mid then filter (\<lambda>d. dst_PipeId d \<noteq> p) (subscriptions s m) else subscriptions s m)" for m
        unfolding subscriptions_def [of s'] route_step_GetRouteId [OF s'(3)] s'(4) by (auto simp: subscriptions_def)
      moreover have "unsubscribe_locked e mid p scope app s = Some (0, 0, s')"
        unfolding start GetDestPtr_ok [OF di bound(2)] Some using rid s'(1) by simp
      ultimately show ?thesis
        using ok mem s'(2) route_step_buf_part [OF s'(3)] by (intro exI [of _ s']) simp
    qed
  qed
qed

text \<open>The same of every message when a pipe is deleted.\<close>

lemma remove_pipe_subscriptions:
  assumes "route_inv s"
  shows "\<exists>s'. CFE_SBR_ForEachRouteId (CFE_SB_RemovePipeFromRoute e p) s = Some s' \<and> route_inv s' \<and> route_step s s' \<and>
     (\<forall>m. subscriptions s' m = filter (\<lambda>d. dst_PipeId d \<noteq> p) (subscriptions s m))"
proof -
  obtain s' where "CFE_SBR_ForEachRouteId (CFE_SB_RemovePipeFromRoute e p) s = Some s'" "route_inv s'" "route_step s s'"
     "\<forall>r. subs_of s' r = filter (\<lambda>d. dst_PipeId d \<noteq> p) (subs_of s r)"
    using remove_pipe_ok [OF assms] by blast
  then show ?thesis by (auto simp: subscriptions_def route_step_GetRouteId)
qed

end
