(* ===== verification/Sb_Buf.thy ===== *)
theory Sb_Buf
  imports Sb_Route
begin

text \<open>
  Message buffers: the circular tracking lists as lists, and the invariant that the use count of a buffer
  is the number of references to it, so that it is returned to the pool exactly when the last one is
  dropped.
\<close>

section \<open>Circular lists\<close>

text \<open>From one node to another through the nodes between them, along both kinds of link.\<close>

type_synonym links = "link \<Rightarrow> CFE_SB_BufferLink"

primrec link_chain :: "links \<Rightarrow> link \<Rightarrow> link list \<Rightarrow> link \<Rightarrow> bool" where
  "link_chain N a [] b \<longleftrightarrow> Next (N a) = b \<and> Prev (N b) = a"
| "link_chain N a (x # xs) b \<longleftrightarrow> Next (N a) = x \<and> Prev (N x) = a \<and> link_chain N x xs b"

definition ring :: "links \<Rightarrow> link \<Rightarrow> link list \<Rightarrow> bool" where
  "ring N l xs \<longleftrightarrow> link_chain N l xs l \<and> distinct (l # xs)"

lemma chain_append: "link_chain N a (xs @ x # ys) b \<longleftrightarrow> link_chain N a xs x \<and> link_chain N x ys b"
  by (induction xs arbitrary: a) auto

lemma link_chain_cong:
  "link_chain N a xs b \<Longrightarrow> (\<And>x. x \<in> insert a (set xs) \<Longrightarrow> Next (N' x) = Next (N x)) \<Longrightarrow>
   (\<And>x. x \<in> insert b (set xs) \<Longrightarrow> Prev (N' x) = Prev (N x)) \<Longrightarrow> link_chain N' a xs b"
  by (induction xs arbitrary: a) auto

lemma ring_cong: "ring N l xs \<Longrightarrow> (\<And>x. x \<in> insert l (set xs) \<Longrightarrow> N' x = N x) \<Longrightarrow> ring N' l xs"
  unfolding ring_def using link_chain_cong [of N l xs l N'] by auto

lemma chain_first: "link_chain N a xs b \<Longrightarrow> Next (N a) = hd (xs @ [b]) \<and> Prev (N (hd (xs @ [b]))) = a"
  by (cases xs) auto

lemma chain_last: "link_chain N a xs b \<Longrightarrow> Prev (N b) = last (a # xs) \<and> Next (N (last (a # xs))) = b"
  by (induction xs arbitrary: a) auto

text \<open>The end of a link_chain is moved to another node.\<close>

lemma chain_new_end:
  "\<lbrakk> link_chain N a xs b; distinct (a # xs); p = last (a # xs); Next (N' p) = q; Prev (N' q) = p;
     \<And>x. x \<in> insert a (set xs) \<Longrightarrow> x \<noteq> p \<Longrightarrow> Next (N' x) = Next (N x);
     \<And>x. x \<in> set xs \<Longrightarrow> Prev (N' x) = Prev (N x) \<rbrakk> \<Longrightarrow> link_chain N' a xs q"
proof (induction xs arbitrary: a)
  case Nil
  then show ?case by simp
next
  case (Cons x xs)
  have "p \<noteq> a" using Cons.prems(2,3) by (metis distinct.simps(2) last_ConsR last_in_set list.discI)
  moreover have "link_chain N' x xs q" using Cons.prems by (intro Cons.IH) auto
  ultimately show ?case using Cons.prems by auto
qed

text \<open>What the two operations do to the links.\<close>

definition remove_links :: "link \<Rightarrow> links \<Rightarrow> links" where
  "remove_links n N = (let N = N(Prev (N n) := (N (Prev (N n)))\<lparr>Next := Next (N n)\<rparr>);
     N = N(Next (N n) := (N (Next (N n)))\<lparr>Prev := Prev (N n)\<rparr>) in N(n := \<lparr>Next = n, Prev = n\<rparr>))"

definition add_links :: "link \<Rightarrow> link \<Rightarrow> links \<Rightarrow> links" where
  "add_links l n N = (let p = Prev (N l); N = N(n := \<lparr>Next = l, Prev = p\<rparr>);
     N = N(p := (N p)\<lparr>Next := n\<rparr>) in N(l := (N l)\<lparr>Prev := n\<rparr>))"

lemma remove_links_self: "N n = \<lparr>Next = n, Prev = n\<rparr> \<Longrightarrow> remove_links n N = N"
  by (auto simp: remove_links_def Let_def)

lemma remove_links_ring:
  assumes r: "ring N l (xs @ n # ys)"
  shows "ring (remove_links n N) l (xs @ ys)" and "remove_links n N n = \<lparr>Next = n, Prev = n\<rparr>"
    and "\<And>x. x \<notin> set (l # xs @ n # ys) \<Longrightarrow> remove_links n N x = N x"
    and "Prev (N n) = last (l # xs)" and "Next (N n) = hd (ys @ [l])"
proof -
  let ?p = "last (l # xs)" and ?q = "hd (ys @ [l])" and ?N' = "remove_links n N"
  from r have c: "link_chain N l xs n" "link_chain N n ys l" and d: "distinct (l # xs @ n # ys)" by (auto simp: ring_def chain_append)
  show pn: "Prev (N n) = ?p" and nn: "Next (N n) = ?q" using chain_last [OF c(1)] chain_first [OF c(2)] by auto
  have pm: "?p \<in> insert l (set xs)" by (metis last_in_set list.discI list.simps(15))
  have qm: "?q \<in> insert l (set ys)" by (cases ys) auto
  have np: "n \<noteq> ?p" "n \<noteq> ?q" using pm qm d by auto
  have N': "?N' = (N(?p := (N ?p)\<lparr>Next := ?q\<rparr>))(?q := ((N(?p := (N ?p)\<lparr>Next := ?q\<rparr>)) ?q)\<lparr>Prev := ?p\<rparr>, n := \<lparr>Next = n, Prev = n\<rparr>)"
    using np pn nn unfolding remove_links_def Let_def by (simp del: last.simps)
  show "?N' n = \<lparr>Next = n, Prev = n\<rparr>" by (simp add: N')
  show "?N' x = N x" if "x \<notin> set (l # xs @ n # ys)" for x
    using that pm qm unfolding N' by auto
  have nxt: "Next (?N' x) = Next (N x)" if "x \<noteq> ?p" "x \<noteq> n" for x using that unfolding N' by simp
  have prv: "Prev (?N' x) = Prev (N x)" if "x \<noteq> ?q" "x \<noteq> n" for x using that unfolding N' by simp
  have pq: "Next (?N' ?p) = ?q" "Prev (?N' ?q) = ?p" using np unfolding N' by simp_all
  have front: "link_chain ?N' l xs ?q"
  proof (rule chain_new_end [OF c(1) _ refl pq])
    show "distinct (l # xs)" using d by simp
    fix x assume "x \<in> insert l (set xs)" "x \<noteq> ?p"
    then show "Next (?N' x) = Next (N x)" using d by (intro nxt) auto
  next
    fix x assume "x \<in> set xs"
    then show "Prev (?N' x) = Prev (N x)" using d qm by (intro prv) auto
  qed
  have "link_chain ?N' l (xs @ ys) l"
  proof (cases ys)
    case Nil
    with front show ?thesis by simp
  next
    case (Cons y zs)
    have "link_chain ?N' y zs l"
    proof (rule link_chain_cong)
      show "link_chain N y zs l" using c(2) Cons by simp
      fix x assume "x \<in> insert y (set zs)"
      then show "Next (?N' x) = Next (N x)" using d pm Cons by (intro nxt) auto
    next
      fix x assume "x \<in> insert l (set zs)"
      then show "Prev (?N' x) = Prev (N x)" using d Cons by (intro prv) auto
    qed
    with front Cons show ?thesis by (simp add: chain_append)
  qed
  then show "ring ?N' l (xs @ ys)" using d by (auto simp: ring_def)
qed

lemma add_links_ring:
  assumes r: "ring N l xs" and n: "n \<notin> set (l # xs)"
  shows "ring (add_links l n N) l (xs @ [n])" and "\<And>x. x \<notin> set (l # xs @ [n]) \<Longrightarrow> add_links l n N x = N x"
    and "Prev (N l) = last (l # xs)"
proof -
  let ?p = "last (l # xs)" and ?N' = "add_links l n N"
  from r have c: "link_chain N l xs l" and d: "distinct (l # xs)" by (auto simp: ring_def)
  show p: "Prev (N l) = ?p" using chain_last [OF c] by simp
  have pm: "?p \<in> insert l (set xs)" by (metis last_in_set list.discI list.simps(15))
  have np: "n \<noteq> ?p" "n \<noteq> l" using pm n by auto
  have N': "?N' = (N(n := \<lparr>Next = l, Prev = ?p\<rparr>, ?p := (N ?p)\<lparr>Next := n\<rparr>))
      (l := ((N(n := \<lparr>Next = l, Prev = ?p\<rparr>, ?p := (N ?p)\<lparr>Next := n\<rparr>)) l)\<lparr>Prev := n\<rparr>)"
    using np unfolding add_links_def Let_def p by (simp del: last.simps)
  show "?N' x = N x" if "x \<notin> set (l # xs @ [n])" for x using that pm unfolding N' by auto
  have "link_chain ?N' l xs n"
  proof (rule chain_new_end [OF c d refl])
    show "Next (?N' ?p) = n" "Prev (?N' n) = ?p" using np unfolding N' by simp_all
    fix x assume "x \<in> insert l (set xs)" "x \<noteq> ?p"
    then show "Next (?N' x) = Next (N x)" using n unfolding N' by auto
  next
    fix x assume "x \<in> set xs"
    then show "Prev (?N' x) = Prev (N x)" using n d unfolding N' by auto
  qed
  moreover have "link_chain ?N' n [] l" using np unfolding N' by simp
  ultimately show "ring ?N' l (xs @ [n])" using d n by (auto simp: ring_def chain_append)
qed

section \<open>The links of a state\<close>

definition links :: "sb_state \<Rightarrow> links" where
  "links s l = (case get_link l s of Some x \<Rightarrow> x | None \<Rightarrow> \<lparr>Next = l, Prev = l\<rparr>)"

definition linked :: "sb_state \<Rightarrow> link \<Rightarrow> bool" where
  "linked s l \<longleftrightarrow> get_link l s \<noteq> None"

lemma linked_simps [simp]:
  "linked s InTransit" "linked s ZeroCopy" "linked s (BufLink b) \<longleftrightarrow> b \<in> dom (Bufs s)"
  by (auto simp: linked_def get_link_def)

text \<open>Everything but the links.\<close>

definition unlinked :: "sb_state \<Rightarrow> sb_state" where
  "unlinked s = s\<lparr>InTransitList := \<lparr>Next = InTransit, Prev = InTransit\<rparr>,
     ZeroCopyList := \<lparr>Next = ZeroCopy, Prev = ZeroCopy\<rparr>,
     Bufs := (\<lambda>b. map_option (bd_Link_update (\<lambda>_. \<lparr>Next = BufLink b, Prev = BufLink b\<rparr>)) (Bufs s b))\<rparr>"

lemma unlinked_other:
  assumes "unlinked s' = unlinked s"
  shows "PipeTbl s' = PipeTbl s" "Queues s' = Queues s" "Dests s' = Dests s" "RoutingTbl s' = RoutingTbl s"
    "RouteIdxTop s' = RouteIdxTop s" "MsgMap s' = MsgMap s" "Stat s' = Stat s" "HK s' = HK s" "LastPipeId s' = LastPipeId s"
    "SubscriptionReporting s' = SubscriptionReporting s" "StopRecurseFlags s' = StopRecurseFlags s" "sb_events s' = sb_events s"
  using arg_cong [OF assms, of PipeTbl] arg_cong [OF assms, of Queues] arg_cong [OF assms, of Dests]
    arg_cong [OF assms, of RoutingTbl] arg_cong [OF assms, of RouteIdxTop] arg_cong [OF assms, of MsgMap]
    arg_cong [OF assms, of Stat] arg_cong [OF assms, of HK] arg_cong [OF assms, of LastPipeId]
    arg_cong [OF assms, of SubscriptionReporting] arg_cong [OF assms, of StopRecurseFlags] arg_cong [OF assms, of sb_events]
  by (simp_all add: unlinked_def)

lemma unlinked_Bufs:
  assumes "unlinked s' = unlinked s"
  shows "map_option (bd_Link_update (\<lambda>_. x)) (Bufs s' b) = map_option (bd_Link_update (\<lambda>_. x)) (Bufs s b)"
proof -
  have "Bufs (unlinked s') b = Bufs (unlinked s) b" by (simp only: assms)
  then have "map_option (bd_Link_update (\<lambda>_. x)) (Bufs (unlinked s') b) = map_option (bd_Link_update (\<lambda>_. x)) (Bufs (unlinked s) b)"
    by simp
  then show ?thesis by (simp add: unlinked_def option.map_comp comp_def)
qed

lemma unlinked_BufsD:
  assumes "unlinked s' = unlinked s" and "Bufs s' b = Some d'"
  shows "\<exists>d. Bufs s b = Some d \<and> bd_MsgId d' = bd_MsgId d \<and> bd_AppId d' = bd_AppId d \<and> bd_UseCount d' = bd_UseCount d \<and>
     bd_Content d' = bd_Content d \<and> bd_AllocatedSize d' = bd_AllocatedSize d \<and> bd_NeedsUpdate d' = bd_NeedsUpdate d \<and>
     bd_ContentSize d' = bd_ContentSize d \<and> bd_ContentType d' = bd_ContentType d"
proof -
  from unlinked_Bufs [OF assms(1), of undefined b] assms(2) obtain d where
    d: "Bufs s b = Some d" "bd_Link_update (\<lambda>_. undefined) d' = bd_Link_update (\<lambda>_. undefined) d"
    by (cases "Bufs s b") auto
  from d(2) have "bd_MsgId d' = bd_MsgId d" "bd_AppId d' = bd_AppId d" "bd_UseCount d' = bd_UseCount d"
    "bd_Content d' = bd_Content d" "bd_AllocatedSize d' = bd_AllocatedSize d" "bd_NeedsUpdate d' = bd_NeedsUpdate d"
    "bd_ContentSize d' = bd_ContentSize d" "bd_ContentType d' = bd_ContentType d"
    by (cases d; cases d'; simp)+
  with d(1) show ?thesis by blast
qed

lemma unlinked_dom:
  assumes "unlinked s' = unlinked s"
  shows "dom (Bufs s') = dom (Bufs s)"
proof -
  have "b \<in> dom (Bufs s') \<longleftrightarrow> b \<in> dom (Bufs s)" for b
    using unlinked_Bufs [OF assms, of undefined b] by (cases "Bufs s b"; cases "Bufs s' b") auto
  then show ?thesis by blast
qed

lemma unlinked_linked: "unlinked s' = unlinked s \<Longrightarrow> linked s' l = linked s l"
  using unlinked_dom [of s' s] by (cases l) simp_all

lemma upd_link_ok:
  assumes "linked s l"
  shows "\<exists>s'. upd_link l f s = Some s' \<and> links s' = (links s)(l := f (links s l)) \<and> unlinked s' = unlinked s"
proof (cases l)
  case (BufLink b)
  with assms obtain d where d: "Bufs s b = Some d" by auto
  let ?s = "s\<lparr>Bufs := (Bufs s)(b \<mapsto> d\<lparr>bd_Link := f (bd_Link d)\<rparr>)\<rparr>"
  have "links ?s = (links s)(l := f (links s l))"
    by (rule ext) (auto simp: links_def get_link_def BufLink d split: link.splits)
  moreover have "unlinked ?s = unlinked s"
  proof -
    have "(\<lambda>a. map_option (bd_Link_update (\<lambda>_. \<lparr>Next = BufLink a, Prev = BufLink a\<rparr>)) (Bufs ?s a)) =
        (\<lambda>a. map_option (bd_Link_update (\<lambda>_. \<lparr>Next = BufLink a, Prev = BufLink a\<rparr>)) (Bufs s a))"
      by (rule ext) (simp add: d)
    note eq = this
    show ?thesis unfolding unlinked_def eq by simp
  qed
  ultimately show ?thesis by (auto simp: upd_link_def upd_Buf_def BufLink d)
next
  case InTransit
  have "links (s\<lparr>InTransitList := x\<rparr>) = (links s)(InTransit := x)" for x
    by (rule ext) (simp add: links_def get_link_def split: link.split)
  then show ?thesis by (simp add: upd_link_def InTransit unlinked_def) (simp add: links_def get_link_def)
next
  case ZeroCopy
  have "links (s\<lparr>ZeroCopyList := x\<rparr>) = (links s)(ZeroCopy := x)" for x
    by (rule ext) (simp add: links_def get_link_def split: link.split)
  then show ?thesis by (simp add: upd_link_def ZeroCopy unlinked_def) (simp add: links_def get_link_def)
qed

lemma get_link_ok: "linked s l \<Longrightarrow> get_link l s = Some (links s l)"
  by (auto simp: linked_def links_def)

lemma TrackingListRemove_ok:
  assumes "linked s n" and "linked s (Prev (links s n))"
    and "linked s (Next (((links s)(Prev (links s n) := (links s (Prev (links s n)))\<lparr>Next := Next (links s n)\<rparr>)) n))"
  shows "\<exists>s'. CFE_SB_TrackingListRemove n s = Some s' \<and> links s' = remove_links n (links s) \<and> unlinked s' = unlinked s"
proof -
  let ?x = "links s n"
  obtain s1 where s1: "upd_link (Prev ?x) (\<lambda>y. y\<lparr>Next := Next ?x\<rparr>) s = Some s1"
    "links s1 = (links s)(Prev ?x := (links s (Prev ?x))\<lparr>Next := Next ?x\<rparr>)" "unlinked s1 = unlinked s"
    using upd_link_ok [OF assms(2)] by blast
  have n1: "linked s1 n" using assms(1) unlinked_linked [OF s1(3)] by simp
  let ?x1 = "links s1 n"
  have "linked s1 (Next ?x1)" using assms(3) unlinked_linked [OF s1(3)] by (simp add: s1(2))
  then obtain s2 where s2: "upd_link (Next ?x1) (\<lambda>y. y\<lparr>Prev := Prev ?x1\<rparr>) s1 = Some s2"
    "links s2 = (links s1)(Next ?x1 := (links s1 (Next ?x1))\<lparr>Prev := Prev ?x1\<rparr>)" "unlinked s2 = unlinked s1"
    using upd_link_ok by blast
  have "linked s2 n" using n1 unlinked_linked [OF s2(3)] by simp
  then obtain s3 where s3: "upd_link n (\<lambda>_. \<lparr>Next = n, Prev = n\<rparr>) s2 = Some s3"
    "links s3 = (links s2)(n := \<lparr>Next = n, Prev = n\<rparr>)" "unlinked s3 = unlinked s2"
    using upd_link_ok by blast
  have "CFE_SB_TrackingListRemove n s = Some s3"
    by (simp add: CFE_SB_TrackingListRemove_def get_link_ok [OF assms(1)] s1(1) get_link_ok [OF n1] s2(1)
        CFE_SB_TrackingListReset_def s3(1))
  moreover have "links s3 = remove_links n (links s)" by (simp add: remove_links_def Let_def s1(2) s2(2) s3(2))
  ultimately show ?thesis using s1(3) s2(3) s3(3) by auto
qed

lemma TrackingListAdd_ok:
  assumes l: "linked s l" and n: "linked s n" "n \<noteq> l" and p: "linked s (Prev (links s l))" "Prev (links s l) \<noteq> n"
  shows "\<exists>s'. CFE_SB_TrackingListAdd l n s = Some s' \<and> links s' = add_links l n (links s) \<and> unlinked s' = unlinked s"
proof -
  let ?p = "Prev (links s l)"
  obtain s1 where s1: "upd_link n (\<lambda>x. x\<lparr>Prev := ?p\<rparr>) s = Some s1" "links s1 = (links s)(n := (links s n)\<lparr>Prev := ?p\<rparr>)"
    "unlinked s1 = unlinked s" using upd_link_ok [OF n(1)] by blast
  have u1: "linked s1 x = linked s x" for x by (rule unlinked_linked [OF s1(3)])
  then obtain s2 where s2: "upd_link n (\<lambda>x. x\<lparr>Next := l\<rparr>) s1 = Some s2"
    "links s2 = (links s1)(n := (links s1 n)\<lparr>Next := l\<rparr>)" "unlinked s2 = unlinked s1" using upd_link_ok n(1) by blast
  have u2: "linked s2 x = linked s x" for x using unlinked_linked [OF s2(3)] u1 by simp
  have g2: "get_link n s2 = Some \<lparr>Next = l, Prev = ?p\<rparr>"
    using get_link_ok [of s2 n] n(1) by (simp add: u2 s2(2) s1(2))
  obtain s3 where s3: "upd_link ?p (\<lambda>x. x\<lparr>Next := n\<rparr>) s2 = Some s3"
    "links s3 = (links s2)(?p := (links s2 ?p)\<lparr>Next := n\<rparr>)" "unlinked s3 = unlinked s2"
    using upd_link_ok p(1) u2 by blast
  have u3: "linked s3 x = linked s x" for x using unlinked_linked [OF s3(3)] u2 by simp
  have g3: "get_link n s3 = Some \<lparr>Next = l, Prev = ?p\<rparr>"
    using get_link_ok [of s3 n] n(1) p(2) by (simp add: u3 s3(2) s2(2) s1(2))
  obtain s4 where s4: "upd_link l (\<lambda>x. x\<lparr>Prev := n\<rparr>) s3 = Some s4"
    "links s4 = (links s3)(l := (links s3 l)\<lparr>Prev := n\<rparr>)" "unlinked s4 = unlinked s3"
    using upd_link_ok l u3 by blast
  have "CFE_SB_TrackingListAdd l n s = Some s4"
    by (simp add: CFE_SB_TrackingListAdd_def get_link_ok [OF l] s1(1) s2(1) g2 s3(1) g3 s4(1))
  moreover have upd: "x\<lparr>Prev := p, Next := q\<rparr> = \<lparr>Next = q, Prev = p\<rparr>" for x :: CFE_SB_BufferLink and p q
    by (cases x) simp
  have "links s4 = add_links l n (links s)"
    using n(2) p(2) by (simp add: add_links_def Let_def s1(2) s2(2) s3(2) s4(2) upd)
  ultimately show ?thesis using s1(3) s2(3) s3(3) s4(3) by auto
qed

section \<open>The tracking lists of a state\<close>

definition two_rings :: "sb_state \<Rightarrow> link \<Rightarrow> nat list \<Rightarrow> link \<Rightarrow> nat list \<Rightarrow> bool" where
  "two_rings s l xs m ys \<longleftrightarrow> ring (links s) l (map BufLink xs) \<and> ring (links s) m (map BufLink ys) \<and>
     distinct (xs @ ys) \<and> set (xs @ ys) \<subseteq> dom (Bufs s) \<and> l \<noteq> m \<and> l \<notin> range BufLink \<and> m \<notin> range BufLink \<and>
     (\<forall>b\<in>dom (Bufs s) - set (xs @ ys). links s (BufLink b) = \<lparr>Next = BufLink b, Prev = BufLink b\<rparr>)"

definition tracked :: "sb_state \<Rightarrow> nat list \<Rightarrow> nat list \<Rightarrow> bool" where
  "tracked s its zcs \<longleftrightarrow> two_rings s InTransit its ZeroCopy zcs"

lemma two_rings_swap: "two_rings s l xs m ys = two_rings s m ys l xs"
  by (auto simp: two_rings_def)

lemma BufLink_mem [simp]: "BufLink b \<in> BufLink ` A \<longleftrightarrow> b \<in> A" "InTransit \<notin> BufLink ` A" "ZeroCopy \<notin> BufLink ` A"
  by auto

lemma last_linked:
  assumes "set bs \<subseteq> dom (Bufs s)" and "linked s l"
  shows "linked s (last (l # map BufLink bs))" and "linked s (hd (map BufLink bs @ [l]))"
proof -
  have "last (l # map BufLink bs) \<in> insert l (BufLink ` set bs)"
    by (metis last_in_set list.discI list.simps(15) set_map)
  then show "linked s (last (l # map BufLink bs))" using assms by auto
  have "hd (map BufLink bs @ [l]) \<in> insert l (BufLink ` set bs)" by (cases bs) auto
  then show "linked s (hd (map BufLink bs @ [l]))" using assms by auto
qed

lemma remove_from_ring:
  assumes r: "ring (links s) l (map BufLink (xs @ b # ys))" and d: "set (xs @ b # ys) \<subseteq> dom (Bufs s)" and l: "linked s l"
  shows "\<exists>s'. CFE_SB_TrackingListRemove (BufLink b) s = Some s' \<and> links s' = remove_links (BufLink b) (links s) \<and> unlinked s' = unlinked s"
proof (rule TrackingListRemove_ok)
  have r': "ring (links s) l (map BufLink xs @ BufLink b # map BufLink ys)" using r by simp
  note rr = remove_links_ring [OF r']
  show "linked s (BufLink b)" using d by auto
  show p: "linked s (Prev (links s (BufLink b)))" unfolding rr(4) using d l by (intro last_linked) auto
  have "BufLink b \<noteq> Prev (links s (BufLink b))"
  proof
    assume eq: "BufLink b = Prev (links s (BufLink b))"
    have "Prev (links s (BufLink b)) \<in> insert l (set (map BufLink xs))"
      unfolding rr(4) by (metis last_in_set list.discI list.simps(15))
    with eq r' show False by (auto simp: ring_def)
  qed
  then show "linked s (Next (((links s)(Prev (links s (BufLink b)) := (links s (Prev (links s (BufLink b))))
      \<lparr>Next := Next (links s (BufLink b))\<rparr>)) (BufLink b)))"
    using d l rr(5) last_linked(2) [of ys s l] by simp
qed

lemma heads_linked: "l \<notin> range BufLink \<Longrightarrow> linked s l"
  by (cases l) auto

lemma two_rings_remove:
  assumes t: "two_rings s l (xs @ b # ys) m zs"
  shows "\<exists>s'. CFE_SB_TrackingListRemove (BufLink b) s = Some s' \<and> two_rings s' l (xs @ ys) m zs \<and> unlinked s' = unlinked s"
proof -
  from t have r': "ring (links s) l (map BufLink xs @ BufLink b # map BufLink ys)" and rz: "ring (links s) m (map BufLink zs)"
    and lm: "l \<noteq> m" "l \<notin> range BufLink" "m \<notin> range BufLink" and sub: "set (xs @ b # ys) \<subseteq> dom (Bufs s)"
    and dist: "distinct ((xs @ b # ys) @ zs)"
    by (auto simp: two_rings_def)
  note rr = remove_links_ring [OF r']
  obtain s' where s': "CFE_SB_TrackingListRemove (BufLink b) s = Some s'" "links s' = remove_links (BufLink b) (links s)"
    "unlinked s' = unlinked s"
    using remove_from_ring [of s l xs b ys] r' sub heads_linked [OF lm(2)] by auto
  have "two_rings s' l (xs @ ys) m zs"
    unfolding two_rings_def
  proof (intro conjI ballI lm)
    show "ring (links s') l (map BufLink (xs @ ys))" using rr(1) by (simp add: s'(2))
    show "ring (links s') m (map BufLink zs)"
      using lm dist by (intro ring_cong [OF rz]) (auto simp: s'(2) intro!: rr(3))
    show "distinct ((xs @ ys) @ zs)" using dist by auto
    show "set ((xs @ ys) @ zs) \<subseteq> dom (Bufs s')" using t unlinked_dom [OF s'(3)] by (auto simp: two_rings_def)
    fix c assume c: "c \<in> dom (Bufs s') - set ((xs @ ys) @ zs)"
    show "links s' (BufLink c) = \<lparr>Next = BufLink c, Prev = BufLink c\<rparr>"
    proof (cases "c = b")
      case True
      then show ?thesis using rr(2) by (simp add: s'(2))
    next
      case False
      with c unlinked_dom [OF s'(3)] have "c \<in> dom (Bufs s) - set ((xs @ b # ys) @ zs)" by auto
      with t have "links s (BufLink c) = \<lparr>Next = BufLink c, Prev = BufLink c\<rparr>" unfolding two_rings_def by blast
      moreover have "remove_links (BufLink b) (links s) (BufLink c) = links s (BufLink c)"
        using False c lm by (intro rr(3)) auto
      ultimately show ?thesis by (simp add: s'(2))
    qed
  qed
  with s' show ?thesis by blast
qed

lemma tracked_remove:
  assumes t: "tracked s its zcs" and b: "b \<in> dom (Bufs s)"
  shows "\<exists>s'. CFE_SB_TrackingListRemove (BufLink b) s = Some s' \<and> tracked s' (remove1 b its) (remove1 b zcs) \<and> unlinked s' = unlinked s"
proof -
  have dist: "distinct its" "distinct zcs" "set its \<inter> set zcs = {}" using t by (auto simp: tracked_def two_rings_def)
  consider "b \<in> set its" | "b \<in> set zcs" | "b \<notin> set its" "b \<notin> set zcs" by blast
  then show ?thesis
  proof cases
    case 1
    then obtain xs ys where its: "its = xs @ b # ys" by (meson split_list)
    then have "remove1 b its = xs @ ys" "remove1 b zcs = zcs" using dist by (auto simp: remove1_append remove1_idem)
    then show ?thesis using two_rings_remove [of s InTransit xs b ys ZeroCopy zcs] t its by (simp add: tracked_def)
  next
    case 2
    then obtain xs ys where zcs: "zcs = xs @ b # ys" by (meson split_list)
    then have "remove1 b zcs = xs @ ys" "remove1 b its = its" using dist by (auto simp: remove1_append remove1_idem)
    then show ?thesis using two_rings_remove [of s ZeroCopy xs b ys InTransit its] t zcs
      by (simp add: tracked_def two_rings_swap [of _ InTransit])
  next
    case 3
    then have sl: "links s (BufLink b) = \<lparr>Next = BufLink b, Prev = BufLink b\<rparr>"
      using t b by (simp add: tracked_def two_rings_def)
    then obtain s' where s': "CFE_SB_TrackingListRemove (BufLink b) s = Some s'" "links s' = remove_links (BufLink b) (links s)"
      "unlinked s' = unlinked s" using TrackingListRemove_ok [of s "BufLink b"] b by auto
    have "links s' = links s" using s'(2) remove_links_self [of "links s" "BufLink b", OF sl] by simp
    then have "tracked s' its zcs" using t unlinked_dom [OF s'(3)] by (simp add: tracked_def two_rings_def)
    then show ?thesis using s' 3 by (auto simp: remove1_idem)
  qed
qed

lemma two_rings_add:
  assumes t: "two_rings s l xs m ys" and b: "b \<in> dom (Bufs s)" "b \<notin> set xs" "b \<notin> set ys"
  shows "\<exists>s'. CFE_SB_TrackingListAdd l (BufLink b) s = Some s' \<and> two_rings s' l (xs @ [b]) m ys \<and> unlinked s' = unlinked s"
proof -
  from t have r: "ring (links s) l (map BufLink xs)" and rz: "ring (links s) m (map BufLink ys)"
    and sub: "set xs \<subseteq> dom (Bufs s)" and lm: "l \<noteq> m" "l \<notin> range BufLink" "m \<notin> range BufLink" by (auto simp: two_rings_def)
  note ar = add_links_ring [OF r, of "BufLink b"]
  have n: "BufLink b \<notin> set (l # map BufLink xs)" using b lm by auto
  have "last (l # map BufLink xs) \<in> insert l (BufLink ` set xs)"
    by (metis last_in_set list.discI list.simps(15) set_map)
  then have "last (l # map BufLink xs) \<noteq> BufLink b" using b(2) lm by auto
  moreover have "BufLink b \<noteq> l" using lm by auto
  ultimately obtain s' where s': "CFE_SB_TrackingListAdd l (BufLink b) s = Some s'" "links s' = add_links l (BufLink b) (links s)"
    "unlinked s' = unlinked s"
    using TrackingListAdd_ok [of s l "BufLink b"] b(1) ar(3) [OF n] last_linked(1) [OF sub heads_linked [OF lm(2)]]
      heads_linked [OF lm(2)] by auto
  have "two_rings s' l (xs @ [b]) m ys"
    unfolding two_rings_def
  proof (intro conjI ballI lm)
    show "ring (links s') l (map BufLink (xs @ [b]))" using ar(1) [OF n] by (simp add: s'(2))
    show "ring (links s') m (map BufLink ys)"
      using t b lm by (intro ring_cong [OF rz]) (auto simp: s'(2) two_rings_def intro!: ar(2) [OF n])
    show "distinct ((xs @ [b]) @ ys)" using t b by (auto simp: two_rings_def)
    show "set ((xs @ [b]) @ ys) \<subseteq> dom (Bufs s')" using t b unlinked_dom [OF s'(3)] by (auto simp: two_rings_def)
    fix c assume c: "c \<in> dom (Bufs s') - set ((xs @ [b]) @ ys)"
    then have "links s' (BufLink c) = links s (BufLink c)" unfolding s'(2) using lm by (intro ar(2) [OF n]) auto
    then show "links s' (BufLink c) = \<lparr>Next = BufLink c, Prev = BufLink c\<rparr>"
      using t c unlinked_dom [OF s'(3)] by (simp add: two_rings_def)
  qed
  with s' show ?thesis by auto
qed

lemmas tracked_add_transit = two_rings_add [of _ InTransit _ ZeroCopy, folded tracked_def]

lemma tracked_add_zero_copy:
  assumes "tracked s its zcs" and "b \<in> dom (Bufs s)" "b \<notin> set its" "b \<notin> set zcs"
  shows "\<exists>s'. CFE_SB_TrackingListAdd ZeroCopy (BufLink b) s = Some s' \<and> tracked s' its (zcs @ [b]) \<and> unlinked s' = unlinked s"
  using two_rings_add [of s ZeroCopy zcs InTransit its b] assms by (simp add: tracked_def two_rings_swap [of _ InTransit])

end
