(* ===== verification/Sb_Use.thy ===== *)
theory Sb_Use
  imports Sb_Buf
begin

text \<open>
  Use counts: the invariant that the use count of every message buffer is the number of references to
  it, kept by every routine that takes or drops one. A buffer is in the pool exactly when nobody
  refers to it.
\<close>

section \<open>Buffers without their links\<close>

definition buf_info :: "sb_state \<Rightarrow> nat \<Rightarrow> CFE_SB_BufferD option" where
  "buf_info s b = map_option (bd_Link_update (\<lambda>_. \<lparr>Next = InTransit, Prev = InTransit\<rparr>)) (Bufs s b)"

lemma buf_info_dom [simp]: "dom (buf_info s) = dom (Bufs s)"
  by (auto simp: buf_info_def)

lemma buf_info_None [simp]: "buf_info s b = None \<longleftrightarrow> Bufs s b = None"
  by (simp add: buf_info_def)

lemma unlinked_info: "unlinked s' = unlinked s \<Longrightarrow> buf_info s' = buf_info s"
  unfolding buf_info_def by (intro ext unlinked_Bufs)

lemma buf_info_simps [simp]:
  "buf_info (upd_Stat f s) = buf_info s" "buf_info (s\<lparr>Stat := t\<rparr>) = buf_info s" "buf_info (upd_HK g s) = buf_info s"
  "buf_info (s\<lparr>Bufs := (Bufs s)(b := None)\<rparr>) = (buf_info s)(b := None)"
proof -
  show "buf_info (upd_Stat f s) = buf_info s" "buf_info (s\<lparr>Stat := t\<rparr>) = buf_info s" "buf_info (upd_HK g s) = buf_info s"
    by (rule ext, simp add: buf_info_def upd_Stat_def upd_HK_def)+
  show "buf_info (s\<lparr>Bufs := (Bufs s)(b := None)\<rparr>) = (buf_info s)(b := None)" by (rule ext) (simp add: buf_info_def)
qed

lemma buf_info_Some: "Bufs s b = Some d \<Longrightarrow> buf_info s b = Some (d\<lparr>bd_Link := \<lparr>Next = InTransit, Prev = InTransit\<rparr>\<rparr>)"
  by (simp add: buf_info_def)

lemma buf_info_SomeD: "buf_info s b = Some d \<Longrightarrow> \<exists>l. Bufs s b = Some (d\<lparr>bd_Link := l\<rparr>)"
proof -
  assume "buf_info s b = Some d"
  then obtain d0 where "Bufs s b = Some d0" "d = d0\<lparr>bd_Link := \<lparr>Next = InTransit, Prev = InTransit\<rparr>\<rparr>" by (auto simp: buf_info_def)
  then show ?thesis by (intro exI [of _ "bd_Link d0"]) simp
qed

text \<open>What an operation on buffers leaves as it was.\<close>

definition buf_step :: "sb_state \<Rightarrow> sb_state \<Rightarrow> bool" where
  "buf_step s s' \<longleftrightarrow> (\<exists>t i z bs. s' = s\<lparr>Stat := t, InTransitList := i, ZeroCopyList := z, Bufs := bs\<rparr> \<and>
     MsgIdsInUse t = MsgIdsInUse (Stat s) \<and> SubscriptionsInUse t = SubscriptionsInUse (Stat s) \<and>
     PipesInUse t = PipesInUse (Stat s))"

lemma buf_step_refl [simp]: "buf_step s s"
  unfolding buf_step_def by (intro exI [of _ "Stat s"] exI [of _ "InTransitList s"] exI [of _ "ZeroCopyList s"] exI [of _ "Bufs s"]) simp

lemma buf_step_trans: "buf_step s s1 \<Longrightarrow> buf_step s1 s2 \<Longrightarrow> buf_step s s2"
  unfolding buf_step_def by fastforce

lemma buf_step_simps:
  assumes "buf_step s s'"
  shows "PipeTbl s' = PipeTbl s" "Queues s' = Queues s" "Dests s' = Dests s" "RoutingTbl s' = RoutingTbl s"
    "RouteIdxTop s' = RouteIdxTop s" "MsgMap s' = MsgMap s" "HK s' = HK s" "LastPipeId s' = LastPipeId s"
    "SubscriptionReporting s' = SubscriptionReporting s" "StopRecurseFlags s' = StopRecurseFlags s" "sb_events s' = sb_events s"
    "MsgIdsInUse (Stat s') = MsgIdsInUse (Stat s)" "SubscriptionsInUse (Stat s') = SubscriptionsInUse (Stat s)"
    "PipesInUse (Stat s') = PipesInUse (Stat s)"
  using assms by (auto simp: buf_step_def)

lemma buf_step_unlinked:
  assumes "unlinked s' = unlinked s"
  shows "buf_step s s'"
  unfolding buf_step_def using unlinked_other [OF assms]
  by (intro exI [of _ "Stat s'"] exI [of _ "InTransitList s'"] exI [of _ "ZeroCopyList s'"] exI [of _ "Bufs s'"]) simp

lemma buf_step_Bufs [simp]: "buf_step s (s\<lparr>Bufs := bs\<rparr>)"
  unfolding buf_step_def by (intro exI [of _ "Stat s"] exI [of _ "InTransitList s"] exI [of _ "ZeroCopyList s"] exI [of _ bs]) simp

lemma buf_step_Stat:
  "MsgIdsInUse (f (Stat s)) = MsgIdsInUse (Stat s) \<Longrightarrow> SubscriptionsInUse (f (Stat s)) = SubscriptionsInUse (Stat s) \<Longrightarrow>
   PipesInUse (f (Stat s)) = PipesInUse (Stat s) \<Longrightarrow> buf_step s (upd_Stat f s)"
  unfolding buf_step_def upd_Stat_def
  by (intro exI [of _ "f (Stat s)"] exI [of _ "InTransitList s"] exI [of _ "ZeroCopyList s"] exI [of _ "Bufs s"]) simp

lemma upd_Buf_step: "upd_Buf b f s = Some s' \<Longrightarrow> buf_step s s'"
  by (auto simp: upd_Buf_def split: option.splits)

lemma buf_step_route:
  assumes "buf_step s s'"
  shows "route_inv s' = route_inv s" and "subs_of s' r = subs_of s r" and "subscriptions s' m = subscriptions s m"
    and "CFE_SBR_GetRouteId m s' = CFE_SBR_GetRouteId m s"
proof -
  note st = buf_step_simps [OF assms]
  show "route_inv s' = route_inv s" by (rule route_inv_cong) (simp_all add: st)
  have rd: "route_dests s' r = route_dests s r" for r by (rule route_inv_cong(2)) (simp_all add: st)
  then show so: "subs_of s' r = subs_of s r" for r by (simp add: subs_of_def st)
  show rid: "CFE_SBR_GetRouteId m s' = CFE_SBR_GetRouteId m s" by (simp add: CFE_SBR_GetRouteId_def st)
  show "subscriptions s' m = subscriptions s m" by (simp add: subscriptions_def so rid)
qed

section \<open>The tracking lists when buffers come and go\<close>

lemma tracked_cong:
  assumes t: "tracked s its zcs"
    and l: "\<And>l. l \<in> {InTransit, ZeroCopy} \<union> BufLink ` set (its @ zcs) \<Longrightarrow> links s' l = links s l"
    and d: "set (its @ zcs) \<subseteq> dom (Bufs s')"
    and u: "\<And>b. b \<in> dom (Bufs s') - set (its @ zcs) \<Longrightarrow> links s' (BufLink b) = \<lparr>Next = BufLink b, Prev = BufLink b\<rparr>"
  shows "tracked s' its zcs"
proof -
  have "ring (links s) InTransit (map BufLink its)" "ring (links s) ZeroCopy (map BufLink zcs)"
    using t by (simp_all add: tracked_def two_rings_def)
  then have "ring (links s') InTransit (map BufLink its)" "ring (links s') ZeroCopy (map BufLink zcs)"
    using l by (auto elim!: ring_cong)
  with t d u show ?thesis by (auto simp: tracked_def two_rings_def)
qed

lemma links_simps [simp]:
  "links (upd_Stat f s) = links s" "links (s\<lparr>Stat := t\<rparr>) = links s" "links (upd_HK g s) = links s"
  "links s (BufLink b) = (case Bufs s b of Some d \<Rightarrow> bd_Link d | None \<Rightarrow> \<lparr>Next = BufLink b, Prev = BufLink b\<rparr>)"
  "links s InTransit = InTransitList s" "links s ZeroCopy = ZeroCopyList s"
  by (auto simp: links_def get_link_def fun_eq_iff upd_Stat_def upd_HK_def split: link.splits option.splits)

lemma tracked_Stat [simp]: "tracked (upd_Stat f s) its zcs = tracked s its zcs"
  unfolding tracked_def two_rings_def links_simps(1) by (simp add: upd_Stat_def)

lemma tracked_sub: "tracked s its zcs \<Longrightarrow> set its \<subseteq> dom (Bufs s) \<and> set zcs \<subseteq> dom (Bufs s) \<and> distinct (its @ zcs)"
  by (auto simp: tracked_def two_rings_def)

lemma tracked_self:
  "tracked s its zcs \<Longrightarrow> b \<in> dom (Bufs s) - set (its @ zcs) \<Longrightarrow> links s (BufLink b) = \<lparr>Next = BufLink b, Prev = BufLink b\<rparr>"
  unfolding tracked_def two_rings_def by blast

lemma tracked_free:
  assumes t: "tracked s its zcs" and b: "b \<notin> set its" "b \<notin> set zcs"
  shows "tracked (s\<lparr>Bufs := (Bufs s)(b := None)\<rparr>) its zcs"
proof (rule tracked_cong [OF t])
  show "set (its @ zcs) \<subseteq> dom (Bufs (s\<lparr>Bufs := (Bufs s)(b := None)\<rparr>))" using tracked_sub [OF t] b by auto
  fix c assume c: "c \<in> dom (Bufs (s\<lparr>Bufs := (Bufs s)(b := None)\<rparr>)) - set (its @ zcs)"
  then have "c \<noteq> b" by auto
  then show "links (s\<lparr>Bufs := (Bufs s)(b := None)\<rparr>) (BufLink c) = \<lparr>Next = BufLink c, Prev = BufLink c\<rparr>"
    using tracked_self [OF t, of c] c by auto
qed (use b in auto)

lemma tracked_new:
  assumes t: "tracked s its zcs" and b: "Bufs s b = None" and d: "bd_Link d = \<lparr>Next = BufLink b, Prev = BufLink b\<rparr>"
  shows "tracked (s\<lparr>Bufs := (Bufs s)(b \<mapsto> d)\<rparr>) its zcs"
proof (rule tracked_cong [OF t])
  have nb: "b \<notin> set (its @ zcs)" using tracked_sub [OF t] b by auto
  show "set (its @ zcs) \<subseteq> dom (Bufs (s\<lparr>Bufs := (Bufs s)(b \<mapsto> d)\<rparr>))" using tracked_sub [OF t] by auto
  fix c assume c: "c \<in> dom (Bufs (s\<lparr>Bufs := (Bufs s)(b \<mapsto> d)\<rparr>)) - set (its @ zcs)"
  then show "links (s\<lparr>Bufs := (Bufs s)(b \<mapsto> d)\<rparr>) (BufLink c) = \<lparr>Next = BufLink c, Prev = BufLink c\<rparr>"
    using tracked_self [OF t, of c] d by auto
next
  fix l assume l: "l \<in> {InTransit, ZeroCopy} \<union> BufLink ` set (its @ zcs)"
  have "b \<notin> set (its @ zcs)" using tracked_sub [OF t] b by auto
  with l show "links (s\<lparr>Bufs := (Bufs s)(b \<mapsto> d)\<rparr>) l = links s l" by auto
qed

lemma tracked_upd_Buf:
  assumes t: "tracked s its zcs" and u: "upd_Buf b f s = Some s'" and f: "\<And>d. bd_Link (f d) = bd_Link d"
  shows "tracked s' its zcs"
proof -
  from u obtain d where d: "Bufs s b = Some d" "s' = s\<lparr>Bufs := (Bufs s)(b \<mapsto> f d)\<rparr>" by (auto simp: upd_Buf_def split: option.splits)
  have l: "links s' x = links s x" for x by (cases x) (auto simp: d f)
  show ?thesis
  proof (rule tracked_cong [OF t l])
    show "set (its @ zcs) \<subseteq> dom (Bufs s')" using tracked_sub [OF t] by (auto simp: d)
    fix c assume "c \<in> dom (Bufs s') - set (its @ zcs)"
    then have "c \<in> dom (Bufs s) - set (its @ zcs)" by (auto simp: d split: if_splits)
    then show "links s' (BufLink c) = \<lparr>Next = BufLink c, Prev = BufLink c\<rparr>" unfolding l by (rule tracked_self [OF t])
  qed
qed

lemma upd_Buf_info:
  assumes "upd_Buf b f s = Some s'" and "\<And>d l. f (bd_Link_update (\<lambda>_. l) d) = bd_Link_update (\<lambda>_. l) (f d)"
  shows "buf_info s' = (buf_info s)(b := map_option f (buf_info s b))" and "dom (Bufs s') = dom (Bufs s)" and "b \<in> dom (Bufs s)"
proof -
  from assms(1) obtain d where d: "Bufs s b = Some d" "s' = s\<lparr>Bufs := (Bufs s)(b \<mapsto> f d)\<rparr>"
    by (auto simp: upd_Buf_def split: option.splits)
  show "buf_info s' = (buf_info s)(b := map_option f (buf_info s b))"
    by (rule ext) (simp add: d buf_info_def assms(2))
  show "dom (Bufs s') = dom (Bufs s)" "b \<in> dom (Bufs s)" using d by auto
qed

section \<open>The invariant of the buffers\<close>

text \<open>Buffers owned by an application: those on the zero-copy list.\<close>

definition owned_bufs :: "sb_state \<Rightarrow> nat set" where
  "owned_bufs s = {b. \<exists>d. Bufs s b = Some d \<and> bd_AppId d \<noteq> CFE_ES_APPID_UNDEFINED}"

definition use_ok :: "nat \<Rightarrow> CFE_SB_BufferD option \<Rightarrow> bool" where
  "use_ok n bo \<longleftrightarrow> (case bo of None \<Rightarrow> n = 0 | Some d \<Rightarrow> n \<noteq> 0 \<and> unat (bd_UseCount d) = n)"

lemma use_ok_simps [simp]:
  "use_ok n None \<longleftrightarrow> n = 0" "use_ok n (Some d) \<longleftrightarrow> n \<noteq> 0 \<and> unat (bd_UseCount d) = n"
  by (simp_all add: use_ok_def)

definition counts_ok :: "(nat \<Rightarrow> nat) \<Rightarrow> sb_state \<Rightarrow> bool" where
  "counts_ok R s \<longleftrightarrow> finite (dom (Bufs s)) \<and> SBBuffersInUse (Stat s) = of_nat (card (dom (Bufs s))) \<and>
     (\<forall>b. use_ok (R b) (Bufs s b))"

definition buf_inv :: "(nat \<Rightarrow> nat) \<Rightarrow> sb_state \<Rightarrow> bool" where
  "buf_inv R s \<longleftrightarrow> counts_ok R s \<and> (\<exists>its zcs. tracked s its zcs \<and> set zcs = owned_bufs s)"

lemma counts_ok_info:
  "counts_ok R s \<longleftrightarrow> finite (dom (buf_info s)) \<and> SBBuffersInUse (Stat s) = of_nat (card (dom (buf_info s))) \<and>
     (\<forall>b. use_ok (R b) (buf_info s b))"
proof -
  have "use_ok (R b) (Bufs s b) \<longleftrightarrow> use_ok (R b) (buf_info s b)" for b
    by (cases "Bufs s b") (auto simp: buf_info_def)
  then show ?thesis unfolding counts_ok_def by simp
qed

lemma owned_bufs_info: "owned_bufs s = {b. \<exists>d. buf_info s b = Some d \<and> bd_AppId d \<noteq> CFE_ES_APPID_UNDEFINED}"
  by (auto simp: owned_bufs_def buf_info_def)

lemma counts_ok_None: "counts_ok R s \<Longrightarrow> Bufs s b = None \<longleftrightarrow> R b = 0"
  unfolding counts_ok_def by (cases "Bufs s b") (auto dest: spec [of _ b])

lemma counts_ok_Some: "counts_ok R s \<Longrightarrow> Bufs s b = Some d \<Longrightarrow> unat (bd_UseCount d) = R b"
  unfolding counts_ok_def by (auto dest: spec [of _ b])

lemma counts_ok_upd:
  assumes c: "counts_ok R s" and i: "buf_info s' = (buf_info s)(b \<mapsto> d)" and b: "b \<in> dom (Bufs s)"
    and st: "SBBuffersInUse (Stat s') = SBBuffersInUse (Stat s)" and d: "unat (bd_UseCount d) = R' b" "R' b \<noteq> 0"
    and R: "\<And>c. c \<noteq> b \<Longrightarrow> R' c = R c"
  shows "counts_ok R' s'"
proof -
  have dm: "dom (buf_info s') = dom (buf_info s)" using b unfolding i by auto
  have "use_ok (R' c) (((buf_info s)(b \<mapsto> d)) c)" for c
    using c d R [of c] by (cases "c = b") (simp_all add: counts_ok_info)
  then show ?thesis using c unfolding counts_ok_info dm by (simp add: st i)
qed

lemma counts_ok_cong:
  "counts_ok R s \<Longrightarrow> buf_info s' = buf_info s \<Longrightarrow> SBBuffersInUse (Stat s') = SBBuffersInUse (Stat s) \<Longrightarrow> counts_ok R s'"
  unfolding counts_ok_info by simp

lemma counts_ok_free:
  assumes c: "counts_ok R s" and i: "buf_info s' = (buf_info s)(b := None)" and b: "b \<in> dom (Bufs s)"
    and st: "SBBuffersInUse (Stat s') = SBBuffersInUse (Stat s) - 1" and R: "R' = R(b := 0)"
  shows "counts_ok R' s'"
proof -
  have dm: "dom (buf_info s') = dom (buf_info s) - {b}" unfolding i by auto
  have f: "finite (dom (Bufs s))" and n: "SBBuffersInUse (Stat s) = of_nat (card (dom (Bufs s)))" using c by (auto simp: counts_ok_def)
  have "card (dom (Bufs s)) > 0" using b f by (auto simp: card_gt_0_iff)
  then have "of_nat (card (dom (Bufs s) - {b})) = (of_nat (card (dom (Bufs s))) :: u32) - 1"
    using b f by (simp add: card_Diff_singleton)
  moreover have "use_ok (R' c) (((buf_info s)(b := None)) c)" for c
    using c by (cases "c = b") (simp_all add: counts_ok_info R)
  ultimately show ?thesis using f n unfolding counts_ok_info dm by (simp add: st i)
qed

lemma counts_ok_new:
  assumes c: "counts_ok R s" and i: "buf_info s' = (buf_info s)(b \<mapsto> d)" and b: "Bufs s b = None"
    and st: "SBBuffersInUse (Stat s') = SBBuffersInUse (Stat s) + 1" and d: "unat (bd_UseCount d) = R' b" "R' b \<noteq> 0"
    and R: "\<And>c. c \<noteq> b \<Longrightarrow> R' c = R c"
  shows "counts_ok R' s'"
proof -
  have dm: "dom (buf_info s') = insert b (dom (buf_info s))" unfolding i by auto
  have nb: "b \<notin> dom (Bufs s)" using b by auto
  have "use_ok (R' c) (((buf_info s)(b \<mapsto> d)) c)" for c
    using c d R [of c] by (cases "c = b") (simp_all add: counts_ok_info)
  then show ?thesis using c nb unfolding counts_ok_info dm by (simp add: st i)
qed

section \<open>A buffer returns to the pool\<close>

lemma ReturnBufferToPool_ok:
  assumes t: "tracked s its zcs" and b: "b \<in> dom (Bufs s)"
  shows "\<exists>s'. CFE_SB_ReturnBufferToPool b s = Some s' \<and> tracked s' (remove1 b its) (remove1 b zcs) \<and>
     buf_info s' = (buf_info s)(b := None) \<and> buf_step s s' \<and> SBBuffersInUse (Stat s') = SBBuffersInUse (Stat s) - 1"
proof -
  obtain s1 where s1: "CFE_SB_TrackingListRemove (BufLink b) s = Some s1" "tracked s1 (remove1 b its) (remove1 b zcs)"
    "unlinked s1 = unlinked s"
    using tracked_remove [OF t b] by blast
  obtain d where d: "Bufs s1 b = Some d" using b unlinked_dom [OF s1(3)] by auto
  let ?s2 = "upd_Stat (\<lambda>t. t\<lparr>MemInUse := MemInUse t - of_nat (bd_AllocatedSize d)\<rparr>)
    (upd_Stat (\<lambda>t. t\<lparr>SBBuffersInUse := SBBuffersInUse t - 1\<rparr>) s1)"
  have t2: "tracked ?s2 (remove1 b its) (remove1 b zcs)" using s1(2) by simp
  let ?s3 = "?s2\<lparr>Bufs := (Bufs ?s2)(b := None)\<rparr>"
  have dist: "distinct its" "distinct zcs" using tracked_sub [OF t] by auto
  have "tracked ?s3 (remove1 b its) (remove1 b zcs)"
    using dist by (intro tracked_free [OF t2]) auto
  moreover have "buf_info ?s3 = (buf_info s)(b := None)"
    using unlinked_info [OF s1(3)] by (simp only: buf_info_simps)
  moreover have "buf_step s ?s3"
    by (intro buf_step_trans [OF buf_step_unlinked [OF s1(3)]] buf_step_trans [OF buf_step_Stat buf_step_trans [OF buf_step_Stat buf_step_Bufs]]) simp_all
  moreover have "SBBuffersInUse (Stat ?s3) = SBBuffersInUse (Stat s) - 1"
    using unlinked_other(7) [OF s1(3)] by (simp add: upd_Stat_def)
  moreover have "CFE_SB_ReturnBufferToPool b s = Some ?s3"
    using d by (simp add: CFE_SB_ReturnBufferToPool_def s1(1) upd_Stat_def)
  ultimately show ?thesis by blast
qed

section \<open>Taking and dropping a reference\<close>

definition keeps_links :: "(CFE_SB_BufferD \<Rightarrow> CFE_SB_BufferD) \<Rightarrow> bool" where
  "keeps_links f \<longleftrightarrow> (\<forall>d l. f (d\<lparr>bd_Link := l\<rparr>) = (f d)\<lparr>bd_Link := l\<rparr>) \<and> (\<forall>d. bd_Link (f d) = bd_Link d)"

lemma keeps_linksI: "(\<And>d l. f (d\<lparr>bd_Link := l\<rparr>) = (f d)\<lparr>bd_Link := l\<rparr>) \<Longrightarrow> (\<And>d. bd_Link (f d) = bd_Link d) \<Longrightarrow> keeps_links f"
  by (simp add: keeps_links_def)

lemma keeps_links_AppId:
  assumes "keeps_links f" and "\<And>d. bd_AppId (f d) = bd_AppId d" and "upd_Buf b f s = Some s'"
  shows "owned_bufs s' = owned_bufs s"
proof -
  from assms(3) obtain d where d: "Bufs s b = Some d" "s' = s\<lparr>Bufs := (Bufs s)(b \<mapsto> f d)\<rparr>"
    by (auto simp: upd_Buf_def split: option.splits)
  show ?thesis unfolding owned_bufs_def d(2) using d(1) assms(2) by auto
qed

lemma upd_Buf_ok: "b \<in> dom (Bufs s) \<Longrightarrow> \<exists>s'. upd_Buf b f s = Some s'"
  by (auto simp: upd_Buf_def)

lemma upd_Buf_Stat: "upd_Buf b f s = Some s' \<Longrightarrow> Stat s' = Stat s"
  by (auto simp: upd_Buf_def split: option.splits)

lemma buf_inv_upd:
  assumes inv: "buf_inv R s" and u: "upd_Buf b f s = Some s'" and f: "keeps_links f" "\<And>d. bd_AppId (f d) = bd_AppId d"
    and n: "\<And>d. Bufs s b = Some d \<Longrightarrow> unat (bd_UseCount (f d)) = n" "n \<noteq> 0" and c: "\<And>d l. bd_UseCount (f (d\<lparr>bd_Link := l\<rparr>)) = bd_UseCount (f d)"
  shows "buf_inv (R(b := n)) s'" and "buf_step s s'" and "buf_info s' = (buf_info s)(b := map_option f (buf_info s b))"
proof -
  note info = upd_Buf_info [OF u, OF f(1) [unfolded keeps_links_def, THEN conjunct1, rule_format]]
  show "buf_info s' = (buf_info s)(b := map_option f (buf_info s b))" by (rule info(1))
  show "buf_step s s'" by (rule upd_Buf_step [OF u])
  obtain d where d: "Bufs s b = Some d" using info(3) by auto
  obtain its zcs where t: "tracked s its zcs" "set zcs = owned_bufs s" and co: "counts_ok R s" using inv by (auto simp: buf_inv_def)
  have "counts_ok (R(b := n)) s'"
  proof (rule counts_ok_upd [OF co])
    show "buf_info s' = (buf_info s)(b \<mapsto> f (d\<lparr>bd_Link := \<lparr>Next = InTransit, Prev = InTransit\<rparr>\<rparr>))"
      using info(1) by (simp add: buf_info_Some [OF d])
  qed (use info(3) upd_Buf_Stat [OF u] n(1) [OF d] n(2) c in auto)
  moreover have "tracked s' its zcs" using f(1) by (intro tracked_upd_Buf [OF t(1) u]) (simp add: keeps_links_def)
  ultimately show "buf_inv (R(b := n)) s'" using t(2) keeps_links_AppId [OF f u] by (auto simp: buf_inv_def)
qed

lemma buf_inv_None: "buf_inv R s \<Longrightarrow> Bufs s b = None \<longleftrightarrow> R b = 0"
  using counts_ok_None by (simp add: buf_inv_def)

lemma buf_inv_Some: "buf_inv R s \<Longrightarrow> R b \<noteq> 0 \<Longrightarrow> \<exists>d. Bufs s b = Some d \<and> unat (bd_UseCount d) = R b"
  using counts_ok_None [of R s b] counts_ok_Some [of R s b] by (auto simp: buf_inv_def)

text \<open>A use count that is below the limit is incremented.\<close>

lemma IncrBufUseCnt_ok:
  assumes inv: "buf_inv R s" and b: "R b \<noteq> 0" "R b < 0x7FFF"
  shows "\<exists>s'. CFE_SB_IncrBufUseCnt b s = Some s' \<and> buf_inv (R(b := R b + 1)) s' \<and> buf_step s s' \<and>
     buf_info s' = (buf_info s)(b := map_option (\<lambda>d. d\<lparr>bd_UseCount := bd_UseCount d + 1\<rparr>) (buf_info s b))"
proof -
  obtain d where d: "Bufs s b = Some d" "unat (bd_UseCount d) = R b" using buf_inv_Some [OF inv b(1)] by blast
  have lt: "bd_UseCount d < 0x7FFF" using d(2) b(2) by (simp add: word_less_nat_alt)
  let ?f = "\<lambda>d. d\<lparr>bd_UseCount := bd_UseCount d + 1\<rparr>"
  obtain s' where s': "upd_Buf b ?f s = Some s'" using d(1) by (simp add: upd_Buf_def)
  have n: "unat (bd_UseCount (?f d)) = R b + 1" using d(2) b(2) by (simp add: unat_word_ariths)
  have up: "unat (bd_UseCount (?f d')) = R b + 1" if "Bufs s b = Some d'" for d' using that d(1) n by simp
  note u = buf_inv_upd [OF inv s' keeps_linksI _ up, simplified]
  show ?thesis
    using u s' by (simp add: CFE_SB_IncrBufUseCnt_def d(1) lt)
qed

text \<open>A reference is dropped: the last one returns the buffer to the pool.\<close>

definition dropped :: "nat \<Rightarrow> (nat \<Rightarrow> CFE_SB_BufferD option) \<Rightarrow> nat \<Rightarrow> CFE_SB_BufferD option" where
  "dropped b B = B(b := (case B b of None \<Rightarrow> None | Some d \<Rightarrow>
     if bd_UseCount d = 1 then None else Some (d\<lparr>bd_UseCount := bd_UseCount d - 1\<rparr>)))"

lemma dropped_other [simp]: "c \<noteq> b \<Longrightarrow> dropped b B c = B c"
  by (simp add: dropped_def)

lemma owned_remove1:
  assumes t: "tracked s its zcs" and o: "set zcs \<union> {b} = owned_bufs s \<union> {b}" and i: "buf_info s' = (buf_info s)(b := None)"
  shows "set (remove1 b zcs) = owned_bufs s'"
proof -
  have "distinct zcs" using tracked_sub [OF t] by simp
  moreover have "owned_bufs s' = owned_bufs s - {b}" unfolding owned_bufs_info i by auto
  ultimately show ?thesis using o by auto
qed

lemma last_reference:
  assumes t: "tracked s its zcs" and o: "set zcs \<union> {b} = owned_bufs s \<union> {b}" and c: "counts_ok R s" and b: "Bufs s b = Some d"
    and one: "bd_UseCount d = 1"
  shows "\<exists>s'. CFE_SB_DecrBufUseCnt b s = Some s' \<and> buf_inv (R(b := 0)) s' \<and> buf_step s s' \<and> buf_info s' = (buf_info s)(b := None) \<and>
     tracked s' (remove1 b its) (remove1 b zcs)"
proof -
  let ?f = "\<lambda>d. d\<lparr>bd_UseCount := bd_UseCount d - 1\<rparr>"
  obtain s1 where s1: "upd_Buf b ?f s = Some s1" using b by (simp add: upd_Buf_def)
  note info = upd_Buf_info [OF s1, simplified]
  have t1: "tracked s1 its zcs" by (rule tracked_upd_Buf [OF t s1]) simp
  obtain s' where s': "CFE_SB_ReturnBufferToPool b s1 = Some s'" "tracked s' (remove1 b its) (remove1 b zcs)"
    "buf_info s' = (buf_info s1)(b := None)" "buf_step s1 s'" "SBBuffersInUse (Stat s') = SBBuffersInUse (Stat s1) - 1"
    using ReturnBufferToPool_ok [OF t1, of b] info b by auto
  have i: "buf_info s' = (buf_info s)(b := None)" unfolding s'(3) info(1) by simp
  have "counts_ok (R(b := 0)) s'"
    by (rule counts_ok_free [OF c i]) (use b s'(5) upd_Buf_Stat [OF s1] in auto)
  moreover have "set (remove1 b zcs) = owned_bufs s'" by (rule owned_remove1 [OF t o i])
  moreover have "CFE_SB_DecrBufUseCnt b s = Some s'"
    using s1 s'(1) by (simp add: CFE_SB_DecrBufUseCnt_def b one)
  ultimately show ?thesis using i s'(2) buf_step_trans [OF upd_Buf_step [OF s1] s'(4)] by (auto simp: buf_inv_def)
qed

lemma DecrBufUseCnt_ok:
  assumes inv: "buf_inv R s" and b: "R b \<noteq> 0"
  shows "\<exists>s'. CFE_SB_DecrBufUseCnt b s = Some s' \<and> buf_inv (R(b := R b - 1)) s' \<and> buf_step s s' \<and>
     buf_info s' = dropped b (buf_info s)"
proof -
  obtain d where d: "Bufs s b = Some d" "unat (bd_UseCount d) = R b" using buf_inv_Some [OF inv b] by blast
  obtain its zcs where t: "tracked s its zcs" "set zcs = owned_bufs s" and co: "counts_ok R s" using inv by (auto simp: buf_inv_def)
  have one: "bd_UseCount d = 1 \<longleftrightarrow> R b = 1" unfolding d(2) [symmetric]
    using word_unat_eqI [of "bd_UseCount d" 1] by auto
  show ?thesis
  proof (cases "R b = 1")
    case True
    then have u1: "bd_UseCount d = 1" using one by simp
    have "set zcs \<union> {b} = owned_bufs s \<union> {b}" by (simp only: t(2))
    from last_reference [OF t(1) this co d(1) u1] obtain s' where s': "CFE_SB_DecrBufUseCnt b s = Some s'"
      "buf_inv (R(b := 0)) s'" "buf_step s s'" "buf_info s' = (buf_info s)(b := None)" by blast
    have "buf_info s' = dropped b (buf_info s)" by (simp add: s'(4) dropped_def buf_info_Some [OF d(1)] u1)
    then show ?thesis using s'(1-3) True by simp
  next
    case False
    let ?f = "\<lambda>d. d\<lparr>bd_UseCount := bd_UseCount d - 1\<rparr>"
    obtain s' where s': "upd_Buf b ?f s = Some s'" using d(1) by (simp add: upd_Buf_def)
    have nz: "bd_UseCount d \<noteq> 0" using d(2) b by auto
    have gt: "bd_UseCount d > 0" using nz by (simp add: word_gt_0)
    have n: "unat (bd_UseCount (?f d)) = R b - 1" using d(2) nz by (simp add: unat_minus_one)
    have up: "unat (bd_UseCount (?f d')) = R b - 1" if "Bufs s b = Some d'" for d' using that d(1) n by simp
    have "R b - 1 \<noteq> 0" using False b by simp
    note u = buf_inv_upd [OF inv s' keeps_linksI _ up this, simplified]
    have "bd_UseCount d - 1 \<noteq> 0" using one False by simp
    then have "CFE_SB_DecrBufUseCnt b s = Some s'" using s' gt by (simp add: CFE_SB_DecrBufUseCnt_def d(1))
    moreover have "buf_info s' = dropped b (buf_info s)" using one False by (simp add: u(3) dropped_def buf_info_Some [OF d(1)])
    ultimately show ?thesis using u(1,2) by (intro exI [of _ s'] conjI) simp_all
  qed
qed

section \<open>Getting a buffer, and giving it away\<close>

definition new_buf :: "sb_env \<Rightarrow> nat \<Rightarrow> CFE_SB_BufferD" where
  "new_buf e n = \<lparr>bd_Link = \<lparr>Next = InTransit, Prev = InTransit\<rparr>, bd_MsgId = CFE_SB_INVALID_MSG_ID,
     bd_AppId = CFE_ES_APPID_UNDEFINED, bd_AllocatedSize = n + BUFFERD_CONTENT_OFFSET e, bd_ContentSize = 0,
     bd_ContentType = CFE_MSG_Type_Invalid, bd_NeedsUpdate = False, bd_UseCount = 1,
     bd_Content = map (PoolByte e) [0..<n]\<rparr>"

lemma GetBufferFromPool_ok:
  assumes inv: "buf_inv R s" and pool: "pool_fresh e" and get: "CFE_SB_GetBufferFromPool e n s = Some (b, s')"
  shows "Bufs s b = None" and "buf_inv (R(b := 1)) s'" and "buf_step s s'" and "buf_info s' = (buf_info s)(b \<mapsto> new_buf e n)"
    and "\<exists>its zcs. tracked s' its zcs \<and> set zcs = owned_bufs s' \<and> b \<notin> set its \<and> b \<notin> set zcs" and "counts_ok (R(b := 1)) s'"
proof -
  obtain st a where pb: "GetPoolBuf e s (n + BUFFERD_CONTENT_OFFSET e) = (st, a)" by fastforce
  have st: "\<not> st < 0" using get pb by (auto simp: CFE_SB_GetBufferFromPool_def split: if_splits)
  let ?s1 = "upd_Stat (add_MemInUse (of_nat (n + BUFFERD_CONTENT_OFFSET e))) (upd_Stat inc_Buffers s)"
  let ?d = "(new_buf e n)\<lparr>bd_Link := \<lparr>Next = BufLink a, Prev = BufLink a\<rparr>\<rparr>"
  have s': "b = a" "s' = ?s1\<lparr>Bufs := (Bufs ?s1)(a \<mapsto> ?d)\<rparr>"
    using get pb st by (auto simp: CFE_SB_GetBufferFromPool_def new_buf_def Let_def)
  have none: "Bufs s a = None" using pool pb st by (simp add: pool_fresh_def)
  then show "Bufs s b = None" by (simp add: s')
  have other: "Bufs (upd_Stat f t) = Bufs t" for f t by (simp add: upd_Stat_def)
  show i: "buf_info s' = (buf_info s)(b \<mapsto> new_buf e n)"
    by (rule ext) (simp add: s' buf_info_def new_buf_def other)
  have "buf_step s ?s1"
    by (intro buf_step_trans [OF buf_step_Stat buf_step_Stat]) (simp_all add: inc_Buffers_def add_MemInUse_def Let_def)
  then show "buf_step s s'" unfolding s' by (rule buf_step_trans) simp
  obtain its zcs where t: "tracked s its zcs" "set zcs = owned_bufs s" and co: "counts_ok R s" using inv by (auto simp: buf_inv_def)
  have "tracked ?s1 its zcs" using t(1) by simp
  then have "tracked s' its zcs" unfolding s' by (rule tracked_new) (simp_all add: other none)
  moreover have "b \<notin> set its" "b \<notin> set zcs" using tracked_sub [OF t(1)] none s'(1) by auto
  moreover have "owned_bufs s' = owned_bufs s" using iffD2 [OF buf_info_None none] unfolding owned_bufs_info i s'(1) by (auto simp: new_buf_def simp del: buf_info_None)
  ultimately show tr: "\<exists>its zcs. tracked s' its zcs \<and> set zcs = owned_bufs s' \<and> b \<notin> set its \<and> b \<notin> set zcs"
    using t(2) by (intro exI [of _ its] exI [of _ zcs]) simp
  show "counts_ok (R(b := 1)) s'"
    by (rule counts_ok_new [OF co i]) (simp_all add: none s' new_buf_def upd_Stat_def inc_Buffers_def add_MemInUse_def Let_def)
  with tr show "buf_inv (R(b := 1)) s'" by (auto simp: buf_inv_def)
qed

text \<open>The owner of a buffer is set or cleared together with the list that tracks it.\<close>

lemma owned_upd:
  assumes "upd_Buf b (bd_AppId_update (\<lambda>_. a)) s = Some s'"
  shows "owned_bufs s' = (if a = CFE_ES_APPID_UNDEFINED then owned_bufs s - {b} else insert b (owned_bufs s))"
proof -
  from assms obtain d where d: "Bufs s b = Some d" "s' = s\<lparr>Bufs := (Bufs s)(b \<mapsto> d\<lparr>bd_AppId := a\<rparr>)\<rparr>"
    by (auto simp: upd_Buf_def split: option.splits)
  show ?thesis unfolding owned_bufs_def d(2) using d(1) by (cases "a = 0") auto
qed

lemma counts_ok_AppId:
  assumes c: "counts_ok R s" and u: "upd_Buf b (bd_AppId_update (\<lambda>_. a)) s = Some s'"
  shows "counts_ok R s'" and "buf_info s' = (buf_info s)(b := map_option (bd_AppId_update (\<lambda>_. a)) (buf_info s b))"
    and "dom (Bufs s') = dom (Bufs s)"
proof -
  note info = upd_Buf_info [OF u, simplified]
  show i: "buf_info s' = (buf_info s)(b := map_option (bd_AppId_update (\<lambda>_. a)) (buf_info s b))" by (rule info(1))
  show "dom (Bufs s') = dom (Bufs s)" by (rule info(2))
  obtain d where d: "Bufs s b = Some d" using info(3) by auto
  then show "counts_ok R s'"
    using i counts_ok_Some [OF c d] counts_ok_None [OF c, of b] upd_Buf_Stat [OF u]
    by (intro counts_ok_upd [OF c, where b = b and d = "d\<lparr>bd_AppId := a, bd_Link := \<lparr>Next = InTransit, Prev = InTransit\<rparr>\<rparr>"])
      (auto simp: buf_info_Some [OF d])
qed

text \<open>The end of a broadcast: the buffer is in transit, and the sender's reference is dropped.\<close>

definition disowned :: "nat \<Rightarrow> (nat \<Rightarrow> CFE_SB_BufferD option) \<Rightarrow> nat \<Rightarrow> CFE_SB_BufferD option" where
  "disowned b B = B(b := map_option (bd_AppId_update (\<lambda>_. CFE_ES_APPID_UNDEFINED)) (B b))"

lemma unlinked_owned: "unlinked s' = unlinked s \<Longrightarrow> owned_bufs s' = owned_bufs s"
  unfolding owned_bufs_info using unlinked_info [of s' s] by simp

lemma unlinked_counts:
  assumes "unlinked s' = unlinked s" and "counts_ok R s"
  shows "counts_ok R s'"
  by (rule counts_ok_cong [OF assms(2) unlinked_info [OF assms(1)]]) (simp only: unlinked_other(7) [OF assms(1)])

lemma broadcast_finish_ok:
  assumes inv: "buf_inv R s" and b: "R b \<noteq> 0"
  shows "\<exists>s'. broadcast_finish b s = Some s' \<and> buf_inv (R(b := R b - 1)) s' \<and> buf_step s s' \<and>
     buf_info s' = dropped b (disowned b (buf_info s))"
proof -
  obtain d where d: "Bufs s b = Some d" using buf_inv_Some [OF inv b] by blast
  obtain its zcs where t: "tracked s its zcs" "set zcs = owned_bufs s" and co: "counts_ok R s" using inv by (auto simp: buf_inv_def)
  have dist: "distinct its" "distinct zcs" using tracked_sub [OF t(1)] by auto
  obtain s1 where s1: "CFE_SB_TrackingListRemove (BufLink b) s = Some s1" "tracked s1 (remove1 b its) (remove1 b zcs)"
    "unlinked s1 = unlinked s"
    using tracked_remove [OF t(1), of b] d by auto
  obtain s2 where s2: "upd_Buf b (\<lambda>d. d\<lparr>bd_AppId := 0\<rparr>) s1 = Some s2"
    using upd_Buf_ok [of b s1] unlinked_dom [OF s1(3)] d by auto
  have c1: "counts_ok R s1" by (rule unlinked_counts [OF s1(3) co])
  note c2 = counts_ok_AppId [OF c1 s2]
  have t2: "tracked s2 (remove1 b its) (remove1 b zcs)" by (rule tracked_upd_Buf [OF s1(2) s2]) simp
  have o2: "owned_bufs s2 = owned_bufs s - {b}" using owned_upd [OF s2] unlinked_owned [OF s1(3)] by simp
  have "b \<in> dom (Bufs s2)" using c2(3) unlinked_dom [OF s1(3)] d by auto
  then obtain s3 where s3: "CFE_SB_TrackingListAdd InTransit (BufLink b) s2 = Some s3"
    "tracked s3 (remove1 b its @ [b]) (remove1 b zcs)" "unlinked s3 = unlinked s2"
    using tracked_add_transit [OF t2, of b] dist by auto
  have "set (remove1 b zcs) = owned_bufs s3" using unlinked_owned [OF s3(3)] o2 t(2) dist by simp
  then have inv3: "buf_inv R s3" using unlinked_counts [OF s3(3) c2(1)] s3(2) by (auto simp: buf_inv_def)
  have i3: "buf_info s3 = disowned b (buf_info s)"
    using unlinked_info [OF s3(3)] c2(2) unlinked_info [OF s1(3)] by (simp add: disowned_def)
  have st3: "buf_step s s3"
    using buf_step_trans [OF buf_step_trans [OF buf_step_unlinked [OF s1(3)] upd_Buf_step [OF s2]] buf_step_unlinked [OF s3(3)]] .
  obtain s' where "CFE_SB_DecrBufUseCnt b s3 = Some s'" "buf_inv (R(b := R b - 1)) s'" "buf_step s3 s'"
     "buf_info s' = dropped b (buf_info s3)"
    using DecrBufUseCnt_ok [OF inv3 b] by blast
  then show ?thesis using buf_step_trans [OF st3] by (simp add: broadcast_finish_def s1(1) s2 s3(1) i3)
qed

text \<open>A zero-copy buffer: one reference, its owner's.\<close>

lemma allocate_locked_ok:
  assumes inv: "buf_inv R s" and pool: "pool_fresh e" and app: "app \<noteq> 0"
  shows "\<exists>bo s'. allocate_locked e app n s = Some (bo, s') \<and> buf_step s s' \<and> (case bo of
     None \<Rightarrow> s' = s
   | Some b \<Rightarrow> Bufs s b = None \<and> buf_inv (R(b := 1)) s' \<and> buf_info s' = (buf_info s)(b \<mapsto> (new_buf e n)\<lparr>bd_AppId := app\<rparr>))"
proof (cases "CFE_SB_GetBufferFromPool e n s")
  case None
  then show ?thesis by (simp add: allocate_locked_def)
next
  case (Some x)
  then obtain b s1 where get: "CFE_SB_GetBufferFromPool e n s = Some (b, s1)" by (cases x) auto
  note g = GetBufferFromPool_ok [OF inv pool get]
  note co = g(6)
  obtain its zcs where t: "tracked s1 its zcs" "set zcs = owned_bufs s1" and ni: "b \<notin> set its" and nz: "b \<notin> set zcs"
    using g(5) by blast
  have "b \<in> dom (buf_info s1)" by (simp add: g(4))
  then have b1: "b \<in> dom (Bufs s1)" by simp
  then obtain s2 where s2: "upd_Buf b (\<lambda>d. d\<lparr>bd_AppId := app\<rparr>) s1 = Some s2" using upd_Buf_ok by blast
  note c2 = counts_ok_AppId [OF co s2]
  have t2: "tracked s2 its zcs" by (rule tracked_upd_Buf [OF t(1) s2]) simp
  have o2: "owned_bufs s2 = insert b (owned_bufs s1)" using owned_upd [OF s2] app by simp
  have dom2: "b \<in> dom (Bufs s2)" using c2(3) b1 by simp
  obtain s3 where s3: "CFE_SB_TrackingListAdd ZeroCopy (BufLink b) s2 = Some s3" "tracked s3 its (zcs @ [b])" "unlinked s3 = unlinked s2"
    using tracked_add_zero_copy [OF t2 dom2 ni nz] by blast
  have "set (zcs @ [b]) = owned_bufs s3" using unlinked_owned [OF s3(3)] o2 t(2) by simp
  then have "buf_inv (R(b := 1)) s3" using unlinked_counts [OF s3(3) c2(1)] s3(2) unfolding buf_inv_def by blast
  moreover have "buf_info s3 = (buf_info s)(b \<mapsto> (new_buf e n)\<lparr>bd_AppId := app\<rparr>)"
    using unlinked_info [OF s3(3)] c2(2) g(4) by simp
  moreover have "buf_step s s3"
    using buf_step_trans [OF buf_step_trans [OF g(3) upd_Buf_step [OF s2]] buf_step_unlinked [OF s3(3)]] .
  ultimately show ?thesis using g(1) by (simp add: allocate_locked_def get s2 s3(1))
qed

lemma release_locked_ok:
  assumes inv: "buf_inv R s" and b: "R b = 1"
  shows "\<exists>s'. release_locked b s = Some s' \<and> buf_inv (R(b := 0)) s' \<and> buf_step s s' \<and> buf_info s' = (buf_info s)(b := None)"
proof -
  have bz: "R b \<noteq> 0" using b by simp
  obtain d where d: "Bufs s b = Some d" "unat (bd_UseCount d) = 1" using buf_inv_Some [OF inv bz] b by auto
  obtain its zcs where t: "tracked s its zcs" "set zcs = owned_bufs s" and co: "counts_ok R s" using inv by (auto simp: buf_inv_def)
  obtain s1 where s1: "upd_Buf b (\<lambda>d. d\<lparr>bd_AppId := 0\<rparr>) s = Some s1" using upd_Buf_ok [of b s] d by auto
  note c1 = counts_ok_AppId [OF co s1]
  have t1: "tracked s1 its zcs" by (rule tracked_upd_Buf [OF t(1) s1]) simp
  have d1: "Bufs s1 b = Some (d\<lparr>bd_AppId := 0\<rparr>)" using s1 d by (auto simp: upd_Buf_def)
  have one: "bd_UseCount (d\<lparr>bd_AppId := 0\<rparr>) = 1" using d(2) word_unat_eqI [of "bd_UseCount d" 1] by simp
  have o: "set zcs \<union> {b} = owned_bufs s1 \<union> {b}" using owned_upd [OF s1] t(2) by auto
  obtain s' where s': "CFE_SB_DecrBufUseCnt b s1 = Some s'" "buf_inv (R(b := 0)) s'" "buf_step s1 s'" "buf_info s' = (buf_info s1)(b := None)"
    using last_reference [OF t1 o c1(1) d1 one] by blast
  have "buf_info s' = (buf_info s)(b := None)" by (simp add: s'(4) c1(2))
  then show ?thesis using s'(1,2) buf_step_trans [OF upd_Buf_step [OF s1] s'(3)] by (simp add: release_locked_def s1)
qed

section \<open>The buffers of an application that ends\<close>

definition released :: "nat set \<Rightarrow> u32 \<Rightarrow> (nat \<Rightarrow> CFE_SB_BufferD option) \<Rightarrow> nat \<Rightarrow> CFE_SB_BufferD option" where
  "released A app B b = (case B b of None \<Rightarrow> None | Some d \<Rightarrow> if b \<in> A \<and> bd_AppId d = app then None else Some d)"

lemma chain_next:
  assumes "tracked s its (pre @ b # suf)"
  shows "Next (links s (BufLink b)) = hd (map BufLink suf @ [ZeroCopy])"
proof -
  have "link_chain (links s) ZeroCopy (map BufLink pre @ BufLink b # map BufLink suf) ZeroCopy"
    using assms by (simp add: tracked_def two_rings_def ring_def)
  then have "link_chain (links s) (BufLink b) (map BufLink suf) ZeroCopy" by (simp only: chain_append)
  from chain_first [OF this] show ?thesis by blast
qed

lemma release_loop_ok:
  "\<lbrakk> tracked s its (pre @ suf); set (pre @ suf) = owned_bufs s; counts_ok R s; \<forall>b\<in>set suf. R b = 1 \<rbrakk> \<Longrightarrow>
   \<exists>s'. release_loop app (hd (map BufLink suf @ [ZeroCopy])) s = Some s' \<and> buf_step s s' \<and>
     buf_inv (\<lambda>b. if released (set suf) app (buf_info s) b = None then 0 else R b) s' \<and>
     buf_info s' = released (set suf) app (buf_info s)"
proof (induction suf arbitrary: its pre s R)
  case Nil
  have r: "released {} app (buf_info s) = buf_info s" by (rule ext) (simp add: released_def del: buf_info_None split: option.split)
  have "(\<lambda>b. if buf_info s b = None then 0 else R b) = R" using counts_ok_None [OF Nil.prems(3)] by auto
  then have "buf_inv (\<lambda>b. if released {} app (buf_info s) b = None then 0 else R b) s"
    unfolding r using Nil.prems by (auto simp: buf_inv_def)
  then show ?case using r by (simp add: release_loop.simps)
next
  case (Cons b suf)
  have dist: "distinct (pre @ b # suf)" using tracked_sub [OF Cons.prems(1)] by auto
  obtain d where d: "Bufs s b = Some d" "bd_AppId d \<noteq> 0" using Cons.prems(2) by (auto simp: owned_bufs_def)
  have nxt: "Next (bd_Link d) = hd (map BufLink suf @ [ZeroCopy])" using chain_next [OF Cons.prems(1)] d(1) by simp
  show ?case
  proof (cases "bd_AppId d = app")
    case False
    have eq: "released (set (b # suf)) app (buf_info s) = released (set suf) app (buf_info s)"
      using False d(1) by (auto simp: released_def fun_eq_iff buf_info_Some simp del: buf_info_None split: option.split)
    have "\<exists>s'. release_loop app (hd (map BufLink suf @ [ZeroCopy])) s = Some s' \<and> buf_step s s' \<and>
       buf_inv (\<lambda>b. if released (set suf) app (buf_info s) b = None then 0 else R b) s' \<and>
       buf_info s' = released (set suf) app (buf_info s)"
      by (rule Cons.IH [of s its "pre @ [b]"]) (use Cons.prems in auto)
    then show ?thesis unfolding eq using False d nxt by (simp add: release_loop.simps [of app "BufLink b"])
  next
    case True
    have one: "bd_UseCount d = 1"
      using counts_ok_Some [OF Cons.prems(3) d(1)] Cons.prems(4) word_unat_eqI [of "bd_UseCount d" 1] by simp
    have o: "set (pre @ b # suf) \<union> {b} = owned_bufs s \<union> {b}" by (simp only: Cons.prems(2))
    obtain s1 where s1: "CFE_SB_DecrBufUseCnt b s = Some s1" "buf_inv (R(b := 0)) s1" "buf_step s s1"
      "buf_info s1 = (buf_info s)(b := None)" "tracked s1 (remove1 b its) (remove1 b (pre @ b # suf))"
      using last_reference [OF Cons.prems(1) o Cons.prems(3) d(1) one] by blast
    have rm: "remove1 b (pre @ b # suf) = pre @ suf" using dist by (simp add: remove1_append)
    have own: "owned_bufs s1 = owned_bufs s - {b}" unfolding owned_bufs_info s1(4) by auto
    have "\<exists>s'. release_loop app (hd (map BufLink suf @ [ZeroCopy])) s1 = Some s' \<and> buf_step s1 s' \<and>
       buf_inv (\<lambda>c. if released (set suf) app (buf_info s1) c = None then 0 else (R(b := 0)) c) s' \<and>
       buf_info s' = released (set suf) app (buf_info s1)"
    proof (rule Cons.IH)
      show "tracked s1 (remove1 b its) (pre @ suf)" using s1(5) rm by simp
      show "set (pre @ suf) = owned_bufs s1" unfolding own using Cons.prems(2) dist by auto
      show "counts_ok (R(b := 0)) s1" using s1(2) by (simp add: buf_inv_def)
      show "\<forall>c\<in>set suf. (R(b := 0)) c = 1" using Cons.prems(4) dist by auto
    qed
    moreover have eq: "released (set suf) app (buf_info s1) = released (set (b # suf)) app (buf_info s)"
      using True d(1) by (auto simp: released_def fun_eq_iff buf_info_Some s1(4) simp del: buf_info_None split: option.split)
    moreover have "(\<lambda>c. if released (set suf) app (buf_info s1) c = None then 0 else (R(b := 0)) c) =
        (\<lambda>c. if released (set (b # suf)) app (buf_info s) c = None then 0 else R c)"
      unfolding eq by (rule ext) (simp add: released_def buf_info_Some [OF d(1)] True)
    ultimately obtain s' where s': "release_loop app (hd (map BufLink suf @ [ZeroCopy])) s1 = Some s'" "buf_step s1 s'"
       "buf_inv (\<lambda>c. if released (set (b # suf)) app (buf_info s) c = None then 0 else R c) s'"
       "buf_info s' = released (set (b # suf)) app (buf_info s)" by auto
    have "release_loop app (hd (map BufLink (b # suf) @ [ZeroCopy])) s = Some s'"
      using s'(1) d True nxt s1(1) by (simp add: release_loop.simps [of app "BufLink b"])
    then show ?thesis using s'(3,4) buf_step_trans [OF s1(3) s'(2)] by blast
  qed
qed

lemma ZeroCopyReleaseAppId_ok:
  assumes inv: "buf_inv R s" and own: "\<forall>b\<in>owned_bufs s. R b = 1" and app: "app \<noteq> 0"
  shows "\<exists>s'. CFE_SB_ZeroCopyReleaseAppId app s = Some s' \<and> buf_step s s' \<and>
     buf_inv (\<lambda>b. if released UNIV app (buf_info s) b = None then 0 else R b) s' \<and> buf_info s' = released UNIV app (buf_info s)"
proof -
  obtain its zcs where t: "tracked s its zcs" "set zcs = owned_bufs s" and co: "counts_ok R s" using inv by (auto simp: buf_inv_def)
  have "Next (links s ZeroCopy) = hd (map BufLink zcs @ [ZeroCopy])"
    using t(1) chain_first [of "links s" ZeroCopy "map BufLink zcs" ZeroCopy] by (simp add: tracked_def two_rings_def ring_def)
  then have start: "Next (ZeroCopyList s) = hd (map BufLink zcs @ [ZeroCopy])" by simp
  have eq: "released (set zcs) app (buf_info s) = released UNIV app (buf_info s)"
    using app unfolding t(2) owned_bufs_info by (auto simp: released_def fun_eq_iff simp del: buf_info_None split: option.split)
  show ?thesis using release_loop_ok [of s its "[]" zcs R app] t co own app unfolding eq
    by (simp add: CFE_SB_ZeroCopyReleaseAppId_def start)
qed

end
