(* ===== verification/Sb_Cast.thy ===== *)
theory Sb_Cast
  imports Sb_Use
begin

text \<open>
  What the broadcast of a buffer does: it is put at the end of the queue of exactly the pipes that accept
  it, and gains one reference for each; everything is decided by the state before the broadcast.
\<close>

section \<open>What counting leaves as it was\<close>

text \<open>A destination, a pipe and a route without their counters.\<close>

definition dest_static :: "CFE_SB_DestinationD \<Rightarrow> CFE_SB_DestinationD" where
  "dest_static d = d\<lparr>dst_BuffCount := 0, dst_DestCnt := 0\<rparr>"

definition pipe_static :: "CFE_SB_PipeD \<Rightarrow> CFE_SB_PipeD" where
  "pipe_static d = d\<lparr>pd_SendErrors := 0, pd_CurrentQueueDepth := 0, pd_PeakQueueDepth := 0\<rparr>"

definition route_static :: "CFE_SBR_RouteEntry \<Rightarrow> CFE_SBR_RouteEntry" where
  "route_static r = r\<lparr>rt_SeqCnt := 0\<rparr>"

lemma static_simps [simp]:
  "dest_static (d\<lparr>dst_BuffCount := n\<rparr>) = dest_static d" "dest_static (d\<lparr>dst_DestCnt := n\<rparr>) = dest_static d"
  "pipe_static (p\<lparr>pd_SendErrors := n\<rparr>) = pipe_static p" "pipe_static (p\<lparr>pd_CurrentQueueDepth := n\<rparr>) = pipe_static p"
  "pipe_static (p\<lparr>pd_PeakQueueDepth := n\<rparr>) = pipe_static p" "route_static (r\<lparr>rt_SeqCnt := n\<rparr>) = route_static r"
  by (simp_all add: dest_static_def pipe_static_def route_static_def)

lemma pipe_static_ops [simp]:
  "pipe_static (pipe_send_error p) = pipe_static p" "pipe_static (pipe_deeper p) = pipe_static p"
  "pipe_static (pipe_shallower p) = pipe_static p" "dest_static (dest_fewer d) = dest_static d"
  by (simp_all add: pipe_send_error_def pipe_deeper_def pipe_shallower_def dest_fewer_def Let_def)

lemma dest_staticD:
  assumes "dest_static d' = dest_static d"
  shows "dst_PipeId d' = dst_PipeId d" "dst_Active d' = dst_Active d" "dst_MsgId2PipeLim d' = dst_MsgId2PipeLim d"
    "dst_Scope d' = dst_Scope d" "dst_Prev d' = dst_Prev d" "dst_Next d' = dst_Next d"
  using arg_cong [OF assms, of dst_PipeId] arg_cong [OF assms, of dst_Active] arg_cong [OF assms, of dst_MsgId2PipeLim]
    arg_cong [OF assms, of dst_Scope] arg_cong [OF assms, of dst_Prev] arg_cong [OF assms, of dst_Next]
  by (simp_all add: dest_static_def)

lemma pipe_staticD:
  assumes "pipe_static d' = pipe_static d"
  shows "pd_PipeId d' = pd_PipeId d" "pd_Opts d' = pd_Opts d" "pd_AppId d' = pd_AppId d" "pd_SysQueueId d' = pd_SysQueueId d"
    "pd_MaxQueueDepth d' = pd_MaxQueueDepth d" "pd_LastBuffer d' = pd_LastBuffer d"
  using arg_cong [OF assms, of pd_PipeId] arg_cong [OF assms, of pd_Opts] arg_cong [OF assms, of pd_AppId]
    arg_cong [OF assms, of pd_SysQueueId] arg_cong [OF assms, of pd_MaxQueueDepth] arg_cong [OF assms, of pd_LastBuffer]
  by (simp_all add: pipe_static_def)

lemma route_staticD:
  assumes "route_static r' = route_static r"
  shows "rt_ListHeadPtr r' = rt_ListHeadPtr r" "rt_MsgId r' = rt_MsgId r"
  using arg_cong [OF assms, of rt_ListHeadPtr] arg_cong [OF assms, of rt_MsgId] by (simp_all add: route_static_def)

definition static :: "sb_state \<Rightarrow> (nat \<Rightarrow> CFE_SB_DestinationD option) \<times> CFE_SB_PipeD list \<times> CFE_SBR_RouteEntry list \<times>
    nat \<times> (nat \<Rightarrow> nat) \<times> u32 \<times> u32 \<times> u32 \<times> u32 \<times> u32" where
  "static s = ((\<lambda>a. map_option dest_static (Dests s a)), map pipe_static (PipeTbl s), map route_static (RoutingTbl s),
     RouteIdxTop s, MsgMap s, MsgIdsInUse (Stat s), SubscriptionsInUse (Stat s), PipesInUse (Stat s), LastPipeId s,
     SubscriptionReporting s)"

lemma staticD:
  assumes "static s' = static s"
  shows "map_option dest_static (Dests s' a) = map_option dest_static (Dests s a)"
    "length (PipeTbl s') = length (PipeTbl s)" "i < length (PipeTbl s) \<Longrightarrow> pipe_static (PipeTbl s' ! i) = pipe_static (PipeTbl s ! i)"
    "length (RoutingTbl s') = length (RoutingTbl s)"
    "i < length (RoutingTbl s) \<Longrightarrow> route_static (RoutingTbl s' ! i) = route_static (RoutingTbl s ! i)"
    "RouteIdxTop s' = RouteIdxTop s" "MsgMap s' = MsgMap s" "MsgIdsInUse (Stat s') = MsgIdsInUse (Stat s)"
    "SubscriptionsInUse (Stat s') = SubscriptionsInUse (Stat s)" "PipesInUse (Stat s') = PipesInUse (Stat s)" "LastPipeId s' = LastPipeId s"
    "SubscriptionReporting s' = SubscriptionReporting s"
proof -
  have p: "map pipe_static (PipeTbl s') = map pipe_static (PipeTbl s)" and r: "map route_static (RoutingTbl s') = map route_static (RoutingTbl s)"
    using assms by (simp_all add: static_def)
  show len: "length (PipeTbl s') = length (PipeTbl s)" "length (RoutingTbl s') = length (RoutingTbl s)"
    using map_eq_imp_length_eq [OF p] map_eq_imp_length_eq [OF r] by simp_all
  show "pipe_static (PipeTbl s' ! i) = pipe_static (PipeTbl s ! i)" if "i < length (PipeTbl s)"
    using arg_cong [OF p, of "\<lambda>xs. xs ! i"] that len by simp
  show "route_static (RoutingTbl s' ! i) = route_static (RoutingTbl s ! i)" if "i < length (RoutingTbl s)"
    using arg_cong [OF r, of "\<lambda>xs. xs ! i"] that len by simp
  have "(\<lambda>a. map_option dest_static (Dests s' a)) = (\<lambda>a. map_option dest_static (Dests s a))" using assms by (simp add: static_def)
  then show "map_option dest_static (Dests s' a) = map_option dest_static (Dests s a)" by (rule fun_cong)
qed (use assms in \<open>simp_all add: static_def\<close>)

lemma static_dest: "static s' = static s \<Longrightarrow> Dests s a = Some d \<Longrightarrow> \<exists>d'. Dests s' a = Some d' \<and> dest_static d' = dest_static d"
  using staticD(1) [of s' s a] by (cases "Dests s' a") auto

lemma static_dom:
  assumes "static s' = static s"
  shows "dom (Dests s') = dom (Dests s)"
proof -
  have "a \<in> dom (Dests s') \<longleftrightarrow> a \<in> dom (Dests s)" for a
    using staticD(1) [OF assms, of a] by (cases "Dests s a"; cases "Dests s' a") auto
  then show ?thesis by blast
qed

text \<open>An index of the pipe table is in range.\<close>

lemma ToIndex_less: "CFE_SB_LocatePipeDescByID p = Some i \<Longrightarrow> i < 64"
  by (auto simp: CFE_SB_LocatePipeDescByID_def CFE_SB_PipeId_ToIndex_def CFE_ResourceId_ToIndex_def Let_def split: if_splits)

lemma static_live:
  assumes st: "static s' = static s" and len: "length (PipeTbl s) = 64"
  shows "live_pipe (PipeTbl s') p = live_pipe (PipeTbl s) p"
proof (cases "CFE_SB_LocatePipeDescByID p")
  case (Some i)
  then have "pipe_static (PipeTbl s' ! i) = pipe_static (PipeTbl s ! i)" using ToIndex_less len by (intro staticD(3) [OF st]) simp
  from pipe_staticD(1) [OF this] show ?thesis by (simp add: live_pipe_def Some)
qed (simp add: live_pipe_def)

lemma static_links:
  assumes st: "static s' = static s"
  shows "same_links (Dests s) (Dests s') a" and "pid_at (Dests s') a = pid_at (Dests s) a"
proof -
  have "same_links (Dests s) (Dests s') a \<and> pid_at (Dests s') a = pid_at (Dests s) a"
  proof (cases "Dests s a")
    case None
    then show ?thesis using staticD(1) [OF st, of a] by (simp add: same_links_def pid_at_def)
  next
    case (Some d)
    obtain d' where d': "Dests s' a = Some d'" "dest_static d' = dest_static d" using static_dest [OF st Some] by blast
    show ?thesis using dest_staticD(1,5,6) [OF d'(2)] by (simp add: same_links_def pid_at_def Some d'(1))
  qed
  then show "same_links (Dests s) (Dests s') a" "pid_at (Dests s') a = pid_at (Dests s) a" by simp_all
qed

lemma same_links_walk:
  assumes "\<And>a. same_links ds ds' a"
  shows "walk ds' n ptr = walk ds n ptr"
proof (induction n arbitrary: ptr)
  case (Suc n)
  show ?case
  proof (cases ptr)
    case (Some a)
    then show ?thesis using Suc assms [of a] by (cases "ds a"; cases "ds' a") (auto simp: same_links_def)
  qed simp
qed simp

lemma static_head:
  assumes st: "static s' = static s" and len: "length (RoutingTbl s) = 256"
  shows "CFE_SBR_GetDestListHeadPtr r s' = CFE_SBR_GetDestListHeadPtr r s"
proof (cases "r \<in> route_ids")
  case True
  then have "r - 1 < length (RoutingTbl s)" using len by auto
  from route_staticD(1) [OF staticD(5) [OF st this]] True show ?thesis
    by (simp add: CFE_SBR_GetDestListHeadPtr_def CFE_SBR_RouteIdToValue_def)
qed (auto simp: CFE_SBR_GetDestListHeadPtr_def)

lemma static_route_dests:
  assumes st: "static s' = static s" and len: "length (RoutingTbl s) = 256"
  shows "route_dests s' r = route_dests s r"
  unfolding route_dests_def static_head [OF st len] by (rule same_links_walk) (rule static_links(1) [OF st])

lemma static_map_inv:
  assumes st: "static s' = static s"
  shows "map_inv s \<Longrightarrow> map_inv s'"
proof -
  assume inv: "map_inv s"
  have len: "length (RoutingTbl s) = 256" and top: "RouteIdxTop s \<le> 256" using inv by (simp_all add: map_inv_def)
  have mid: "rt_MsgId (RoutingTbl s' ! i) = rt_MsgId (RoutingTbl s ! i)" if "i < 256" for i
    by (rule route_staticD(2) [OF staticD(5) [OF st]]) (simp add: that len)
  show ?thesis
    unfolding map_inv_def staticD(4,6,7) [OF st]
  proof (intro conjI allI impI)
    show "length (RoutingTbl s) = 256" "RouteIdxTop s \<le> 256" by (fact len, fact top)
    fix m assume m: "CFE_SB_IsValidMsgId m"
    with inv show le: "MsgMap s (unat m) \<le> RouteIdxTop s" by (simp add: map_inv_def)
    assume nz: "MsgMap s (unat m) \<noteq> 0"
    then have "MsgMap s (unat m) - 1 < 256" using le top by linarith
    then show "rt_MsgId (RoutingTbl s' ! (MsgMap s (unat m) - 1)) = m" using inv m nz mid by (simp add: map_inv_def)
  next
    fix i assume i: "i < RouteIdxTop s"
    then have "i < 256" using top by simp
    then show "CFE_SB_IsValidMsgId (rt_MsgId (RoutingTbl s' ! i))" "MsgMap s (unat (rt_MsgId (RoutingTbl s' ! i))) = i + 1"
      using inv i mid by (simp_all add: map_inv_def)
  qed
qed

lemma static_dest_inv:
  assumes st: "static s' = static s" and len: "length (PipeTbl s) = 64" "length (RoutingTbl s) = 256"
  shows "dest_inv s \<Longrightarrow> dest_inv s'"
proof -
  assume inv: "dest_inv s"
  have live: "live_pipe (PipeTbl s') (dst_PipeId d)" if d: "Dests s' a = Some d" for a d
  proof -
    have "\<exists>d0. Dests s a = Some d0 \<and> dst_PipeId d = dst_PipeId d0"
      using staticD(1) [OF st, of a] d by (cases "Dests s a") (auto dest: dest_staticD(1))
    then show ?thesis using dest_inv_live [OF inv, of a] static_live [OF st len(1)] by auto
  qed
  have pids: "pid_at (Dests s') = pid_at (Dests s)" using static_links(2) [OF st] by (rule ext)
  show ?thesis
    unfolding dest_inv_def static_route_dests [OF st len(2)] static_head [OF st len(2)] static_dom [OF st] staticD(6) [OF st] pids
    using inv live dlist_cong [of _ "Dests s" "Dests s'"] static_links(1) [OF st] unfolding dest_inv_def by simp
qed

lemma static_route:
  assumes st: "static s' = static s" and len: "length (PipeTbl s) = 64"
  shows "route_inv s \<Longrightarrow> route_inv s'" and "CFE_SBR_GetRouteId m s' = CFE_SBR_GetRouteId m s"
proof -
  show "route_inv s'" if inv: "route_inv s"
  proof -
    have rl: "length (RoutingTbl s) = 256" using route_invD(1) [OF inv] by (simp add: map_inv_def)
    have "sub_stat s'" using route_invD(3) [OF inv] by (simp add: sub_stat_def staticD [OF st] static_dom [OF st])
    then show ?thesis
      using static_map_inv [OF st route_invD(1) [OF inv]] static_dest_inv [OF st len rl route_invD(2) [OF inv]]
      by (simp add: route_inv_def)
  qed
  show "CFE_SBR_GetRouteId m s' = CFE_SBR_GetRouteId m s" by (simp add: CFE_SBR_GetRouteId_def staticD(7) [OF st])
qed

lemma buf_step_static: "buf_step s s' \<Longrightarrow> static s' = static s"
  by (simp add: static_def buf_step_simps)

section \<open>Who accepts a buffer\<close>

definition pipe_of :: "sb_state \<Rightarrow> CFE_SB_DestinationD \<Rightarrow> CFE_SB_PipeD" where
  "pipe_of s d = PipeTbl s ! the (CFE_SB_LocatePipeDescByID (dst_PipeId d))"

text \<open>A destination is served when it is active and its pipe does not ignore what its own owner sends.\<close>

definition wants :: "sb_env \<Rightarrow> sb_state \<Rightarrow> CFE_SB_DestinationD \<Rightarrow> bool" where
  "wants e s d \<longleftrightarrow> dst_Active d = CFE_SB_ACTIVE \<and>
     \<not> (pd_Opts (pipe_of s d) AND CFE_SB_PIPEOPTS_IGNOREMINE \<noteq> 0 \<and> pd_AppId (pipe_of s d) = snd (CallerApp e))"

definition q_room :: "sb_env \<Rightarrow> sb_state \<Rightarrow> u32 \<Rightarrow> bool" where
  "q_room e s q \<longleftrightarrow> (case Queues s q of None \<Rightarrow> False
     | Some r \<Rightarrow> PutErr e q = OS_SUCCESS \<and> length (q_msgs r) < q_depth r)"

definition accepts :: "sb_env \<Rightarrow> sb_state \<Rightarrow> CFE_SB_DestinationD \<Rightarrow> bool" where
  "accepts e s d \<longleftrightarrow> wants e s d \<and> dst_BuffCount d < dst_MsgId2PipeLim d \<and> q_room e s (pd_SysQueueId (pipe_of s d))"

definition delivered :: "CFE_SB_DestinationD \<Rightarrow> CFE_SB_DestinationD" where
  "delivered d = d\<lparr>dst_BuffCount := dst_BuffCount d + 1, dst_DestCnt := dst_DestCnt d + 1\<rparr>"

definition enqueued :: "nat \<Rightarrow> os_queue \<Rightarrow> os_queue" where
  "enqueued b r = r\<lparr>q_msgs := q_msgs r @ [b]\<rparr>"

lemma delivered_static [simp]: "dest_static (delivered d) = dest_static d"
  by (simp add: delivered_def)

text \<open>What depends on which part of the state.\<close>

lemma buf_inv_cong:
  assumes "Bufs s' = Bufs s" and "InTransitList s' = InTransitList s" and "ZeroCopyList s' = ZeroCopyList s"
    and "SBBuffersInUse (Stat s') = SBBuffersInUse (Stat s)"
  shows "buf_inv R s' = buf_inv R s" and "buf_info s' = buf_info s" and "owned_bufs s' = owned_bufs s"
proof -
  have l: "links s' = links s" by (rule ext, case_tac x) (simp_all add: assms)
  have "tracked s' its zcs = tracked s its zcs" for its zcs by (simp add: tracked_def two_rings_def l assms del: links_simps)
  then show "buf_inv R s' = buf_inv R s" by (simp add: buf_inv_def counts_ok_def owned_bufs_def assms)
  show "buf_info s' = buf_info s" by (rule ext) (simp add: buf_info_def assms)
  show "owned_bufs s' = owned_bufs s" by (simp add: owned_bufs_def assms)
qed

text \<open>The state outside buffers, queues, destinations, pipes and counters.\<close>

definition quiet :: "sb_state \<Rightarrow> sb_state \<Rightarrow> bool" where
  "quiet s s' \<longleftrightarrow> static s' = static s \<and> sb_events s' = sb_events s \<and> StopRecurseFlags s' = StopRecurseFlags s \<and>
     dom (Queues s') = dom (Queues s)"

lemma quiet_refl [simp]: "quiet s s"
  by (simp add: quiet_def)

lemma quiet_trans: "quiet s s1 \<Longrightarrow> quiet s1 s2 \<Longrightarrow> quiet s s2"
  by (simp add: quiet_def)

lemma buf_step_quiet: "buf_step s s' \<Longrightarrow> quiet s s'"
  by (simp add: quiet_def buf_step_static buf_step_simps)

lemma quiet_upds [simp]:
  "quiet s (upd_HK f s)" "i < length (PipeTbl s) \<Longrightarrow> pipe_static (f' (PipeTbl s ! i)) = pipe_static (PipeTbl s ! i) \<Longrightarrow> quiet s (upd_Pipe i f' s)"
proof -
  show "quiet s (upd_HK f s)" by (simp add: quiet_def static_def upd_HK_def)
  assume "i < length (PipeTbl s)" "pipe_static (f' (PipeTbl s ! i)) = pipe_static (PipeTbl s ! i)"
  then have "map pipe_static (upd_at i f' (PipeTbl s)) = map pipe_static (PipeTbl s)"
    by (intro nth_equalityI) (auto simp: upd_at_def nth_list_update)
  then show "quiet s (upd_Pipe i f' s)" by (simp add: quiet_def static_def upd_Pipe_def)
qed

lemma quiet_Queues [simp]: "dom qs = dom (Queues s) \<Longrightarrow> quiet s (s\<lparr>Queues := qs\<rparr>)"
  by (simp add: quiet_def static_def)

lemma quiet_Dest:
  assumes "Dests s a = Some d" and "dest_static d' = dest_static d"
  shows "quiet s (s\<lparr>Dests := (Dests s)(a \<mapsto> d')\<rparr>)"
proof -
  have "(\<lambda>c. map_option dest_static (((Dests s)(a \<mapsto> d')) c)) = (\<lambda>c. map_option dest_static (Dests s c))"
    using assms by auto
  then show ?thesis by (simp add: quiet_def static_def)
qed

section \<open>One destination\<close>

lemma live_slot: "live_pipe pt p \<Longrightarrow> \<exists>i. CFE_SB_LocatePipeDescByID p = Some i \<and> i < 64 \<and> pd_PipeId (pt ! i) = p"
  using ToIndex_less by (auto simp: live_pipe_def split: option.splits)

lemma broadcast_dest_refuses:
  assumes d: "Dests t a = Some d" and live: "live_pipe (PipeTbl t) (dst_PipeId d)" and len: "length (PipeTbl t) = 64"
    and ev: "length evs < 16" and no: "\<not> accepts e t d"
  shows "\<exists>t' evs'. broadcast_dest e b a (t, evs) = Some (t', evs') \<and> quiet t t' \<and> Dests t' = Dests t \<and> Queues t' = Queues t \<and>
     Bufs t' = Bufs t \<and> InTransitList t' = InTransitList t \<and> ZeroCopyList t' = ZeroCopyList t \<and> Stat t' = Stat t \<and>
     RoutingTbl t' = RoutingTbl t \<and> length evs' = length evs + (if wants e t d then 1 else 0)"
proof -
  obtain i where i: "CFE_SB_LocatePipeDescByID (dst_PipeId d) = Some i" "i < 64" "pd_PipeId (PipeTbl t ! i) = dst_PipeId d"
    using live_slot [OF live] by blast
  have p: "pipe_of t d = PipeTbl t ! i" by (simp add: pipe_of_def i(1))
  have err: "quiet t (upd_Pipe i pipe_send_error (upd_HK f t))" for f
    using i(2) len by (intro quiet_trans [OF quiet_upds(1) quiet_upds(2)]) (simp_all add: upd_HK_def)
  show ?thesis
  proof (cases "wants e t d")
    case False
    then show ?thesis using d i p
      by (auto simp: broadcast_dest_def Let_def CFE_SB_PipeDescIsMatch_def wants_def)
  next
    case w: True
    then have wd: "dst_Active d = CFE_SB_ACTIVE"
      "\<not> (pd_Opts (PipeTbl t ! i) AND CFE_SB_PIPEOPTS_IGNOREMINE \<noteq> 0 \<and> pd_AppId (PipeTbl t ! i) = snd (CallerApp e))"
      by (auto simp: wants_def p)
    show ?thesis
    proof (cases "dst_BuffCount d < dst_MsgId2PipeLim d")
      case False
      then have run: "broadcast_dest e b a (t, evs) = Some (upd_Pipe i pipe_send_error
          (upd_HK (\<lambda>h. h\<lparr>MsgLimitErrorCounter := MsgLimitErrorCounter h + 1\<rparr>) t),
          evs @ [\<lparr>evb_EventId = CFE_SB_MSGID_LIM_ERR_EID, evb_OsStatus = 0, evb_PipeId = dst_PipeId d\<rparr>])"
        using wd d i ev by (auto simp: broadcast_dest_def Let_def CFE_SB_PipeDescIsMatch_def push_evt_def not_less)
      show ?thesis unfolding run using err w by (auto simp: upd_Pipe_def upd_HK_def)
    next
      case lim: True
      let ?q = "pd_SysQueueId (PipeTbl t ! i)"
      obtain st qs where put: "OS_QueuePut (PutErr e ?q) ?q b (Queues t) = (st, qs)" by fastforce
      have st: "st \<noteq> OS_SUCCESS" using no w lim put
        by (auto simp: accepts_def q_room_def p OS_QueuePut_def split: option.splits if_splits)
      have qs: "qs = Queues t" using OS_QueuePut_st [OF put st] .
      define f :: "CFE_SB_Housekeeping \<Rightarrow> CFE_SB_Housekeeping" where
        "f = (if st = OS_QUEUE_FULL then (\<lambda>h. h\<lparr>PipeOverflowErrorCounter := PipeOverflowErrorCounter h + 1\<rparr>)
           else (\<lambda>h. h\<lparr>InternalErrorCounter := InternalErrorCounter h + 1\<rparr>))"
      have run: "broadcast_dest e b a (t, evs) = Some (upd_Pipe i pipe_send_error (upd_HK f t),
          evs @ [\<lparr>evb_EventId = if st = OS_QUEUE_FULL then CFE_SB_Q_FULL_ERR_EID else CFE_SB_Q_WR_ERR_EID,
                  evb_OsStatus = st, evb_PipeId = dst_PipeId d\<rparr>])"
        using wd d i ev lim put st qs
        by (auto simp: broadcast_dest_def Let_def CFE_SB_PipeDescIsMatch_def push_evt_def not_le f_def)
      show ?thesis unfolding run using err w by (auto simp: upd_Pipe_def upd_HK_def)
    qed
  qed
qed

lemma broadcast_dest_accepts:
  assumes inv: "buf_inv R t" and b: "R b \<noteq> 0" "R b < 0x7FFF"
    and d: "Dests t a = Some d" and live: "live_pipe (PipeTbl t) (dst_PipeId d)" and len: "length (PipeTbl t) = 64"
    and yes: "accepts e t d"
  shows "\<exists>t'. broadcast_dest e b a (t, evs) = Some (t', evs) \<and> quiet t t' \<and> RoutingTbl t' = RoutingTbl t \<and> Dests t' = (Dests t)(a \<mapsto> delivered d) \<and>
     Queues t' = (Queues t)(pd_SysQueueId (pipe_of t d) := map_option (enqueued b) (Queues t (pd_SysQueueId (pipe_of t d)))) \<and>
     buf_inv (R(b := R b + 1)) t' \<and> buf_info t' = (buf_info t)(b := map_option (\<lambda>d. d\<lparr>bd_UseCount := bd_UseCount d + 1\<rparr>) (buf_info t b))"
proof -
  obtain i where i: "CFE_SB_LocatePipeDescByID (dst_PipeId d) = Some i" "i < 64" "pd_PipeId (PipeTbl t ! i) = dst_PipeId d"
    using live_slot [OF live] by blast
  have p: "pipe_of t d = PipeTbl t ! i" by (simp add: pipe_of_def i(1))
  let ?q = "pd_SysQueueId (PipeTbl t ! i)"
  from yes have wd: "dst_Active d = CFE_SB_ACTIVE" "dst_BuffCount d < dst_MsgId2PipeLim d"
    "\<not> (pd_Opts (PipeTbl t ! i) AND CFE_SB_PIPEOPTS_IGNOREMINE \<noteq> 0 \<and> pd_AppId (PipeTbl t ! i) = snd (CallerApp e))"
    by (auto simp: accepts_def wants_def p)
  from yes obtain r where r: "Queues t ?q = Some r" "PutErr e ?q = OS_SUCCESS" "length (q_msgs r) < q_depth r"
    by (auto simp: accepts_def q_room_def p split: option.splits)
  have put: "OS_QueuePut (PutErr e ?q) ?q b (Queues t) = (OS_SUCCESS, (Queues t)(?q \<mapsto> enqueued b r))"
    using r by (simp add: OS_QueuePut_def enqueued_def)
  let ?t1 = "t\<lparr>Queues := (Queues t)(?q \<mapsto> enqueued b r)\<rparr>"
  have inv1: "buf_inv R ?t1" using inv buf_inv_cong(1) [of ?t1 t R] by simp
  have info1: "buf_info ?t1 = buf_info t" by (rule buf_inv_cong(2)) simp_all
  obtain t2 where t2: "CFE_SB_IncrBufUseCnt b ?t1 = Some t2" "buf_inv (R(b := R b + 1)) t2" "buf_step ?t1 t2"
    "buf_info t2 = (buf_info ?t1)(b := map_option (\<lambda>d. d\<lparr>bd_UseCount := bd_UseCount d + 1\<rparr>) (buf_info ?t1 b))"
    using IncrBufUseCnt_ok [OF inv1 b] by blast
  note st2 = buf_step_simps [OF t2(3)]
  have d2: "Dests t2 a = Some d" using d st2(3) by simp
  let ?t3 = "t2\<lparr>Dests := (Dests t2)(a \<mapsto> delivered d)\<rparr>"
  let ?t4 = "upd_Pipe i pipe_deeper ?t3"
  have run: "broadcast_dest e b a (t, evs) = Some (?t4, evs)"
    using wd d i put t2(1) d2
    by (auto simp: broadcast_dest_def Let_def CFE_SB_PipeDescIsMatch_def not_le upd_Dest_def delivered_def)
  have "quiet t ?t4"
  proof (rule quiet_trans [OF quiet_trans [OF quiet_trans [OF _ buf_step_quiet [OF t2(3)]] quiet_Dest [OF d2 delivered_static]] quiet_upds(2)])
    show "quiet t ?t1" using r(1) by (intro quiet_Queues) auto
  qed (use i(2) len st2(1) in simp_all)
  moreover have "buf_inv (R(b := R b + 1)) ?t4" using t2(2) by (subst buf_inv_cong(1) [where s = t2]) (simp_all add: upd_Pipe_def)
  moreover have "buf_info ?t4 = buf_info t2" by (rule buf_inv_cong(2)) (simp_all add: upd_Pipe_def)
  ultimately show ?thesis unfolding run p using t2(4) st2 info1 r(1) by (simp add: upd_Pipe_def)
qed

section \<open>The loop over the destinations\<close>

definition queue_at :: "sb_state \<Rightarrow> nat \<Rightarrow> u32" where
  "queue_at s a = pd_SysQueueId (pipe_of s (the (Dests s a)))"

definition takers :: "sb_env \<Rightarrow> sb_state \<Rightarrow> nat list \<Rightarrow> nat list" where
  "takers e s as = filter (\<lambda>a. accepts e s (the (Dests s a))) as"

definition refusers :: "sb_env \<Rightarrow> sb_state \<Rightarrow> nat list \<Rightarrow> nat list" where
  "refusers e s as = filter (\<lambda>a. wants e s (the (Dests s a)) \<and> \<not> accepts e s (the (Dests s a))) as"

text \<open>What the loop leaves when it has served these destinations.\<close>

definition served :: "sb_env \<Rightarrow> nat \<Rightarrow> nat list \<Rightarrow> sb_state \<Rightarrow> sb_state \<Rightarrow> bool" where
  "served e b as s s' \<longleftrightarrow> quiet s s' \<and> RoutingTbl s' = RoutingTbl s \<and>
     Dests s' = (\<lambda>a. if a \<in> set (takers e s as) then map_option delivered (Dests s a) else Dests s a) \<and>
     Queues s' = (\<lambda>q. if q \<in> queue_at s ` set (takers e s as) then map_option (enqueued b) (Queues s q) else Queues s q) \<and>
     buf_info s' = (buf_info s)(b := map_option (\<lambda>d. d\<lparr>bd_UseCount := bd_UseCount d + of_nat (length (takers e s as))\<rparr>) (buf_info s b))"

lemma quiet_pipe_of:
  assumes q: "quiet s s'" and len: "length (PipeTbl s) = 64" and live: "live_pipe (PipeTbl s) (dst_PipeId d)"
    and d: "dst_PipeId d' = dst_PipeId d"
  shows "pipe_static (pipe_of s' d') = pipe_static (pipe_of s d)"
proof -
  obtain i where "CFE_SB_LocatePipeDescByID (dst_PipeId d) = Some i" "i < 64" using live_slot [OF live] by blast
  then show ?thesis using staticD(3) [of s' s i] q len by (simp add: pipe_of_def d quiet_def)
qed

text \<open>Serving one destination does not change what another one does.\<close>

lemma accepts_other:
  assumes q: "quiet s s'" and len: "length (PipeTbl s) = 64" and live: "live_pipe (PipeTbl s) (dst_PipeId d)"
    and same: "Queues s' (pd_SysQueueId (pipe_of s d)) = Queues s (pd_SysQueueId (pipe_of s d))"
  shows "accepts e s' d = accepts e s d" and "wants e s' d = wants e s d" and "pd_SysQueueId (pipe_of s' d) = pd_SysQueueId (pipe_of s d)"
proof -
  note st = pipe_staticD [OF quiet_pipe_of [OF q len live refl]]
  show sq: "pd_SysQueueId (pipe_of s' d) = pd_SysQueueId (pipe_of s d)" by (rule st(4))
  show w: "wants e s' d = wants e s d" by (simp add: wants_def st(2,3))
  show "accepts e s' d = accepts e s d" by (simp add: accepts_def w sq q_room_def same)
qed

lemma broadcast_loop_ok:
  "\<lbrakk> dseg (Dests t) prv ptr as lst None; buf_inv R t; R b \<noteq> 0; R b + length as \<le> 0x7FFF; length evs + length as \<le> 16;
     length (PipeTbl t) = 64; distinct as; distinct (map (queue_at t) as);
     \<forall>a\<in>set as. live_pipe (PipeTbl t) (pid_at (Dests t) a) \<rbrakk> \<Longrightarrow>
   \<exists>t' evs'. broadcast_loop e b ptr (t, evs) = Some (t', evs') \<and> served e b as t t' \<and>
     buf_inv (R(b := R b + length (takers e t as))) t' \<and> length evs' = length evs + length (refusers e t as)"
proof (induction as arbitrary: t prv ptr R evs)
  case Nil
  have "map_option (\<lambda>d. d\<lparr>bd_UseCount := bd_UseCount d\<rparr>) x = x" for x :: "CFE_SB_BufferD option" by (cases x) simp_all
  then have "served e b [] t t" by (simp add: served_def takers_def)
  then show ?case using Nil by (simp add: broadcast_loop.simps takers_def refusers_def)
next
  case (Cons a as)
  obtain d where d: "Dests t a = Some d" and ptr: "ptr = Some a" and seg: "dseg (Dests t) (Some a) (dst_Next d) as lst None"
    using Cons.prems(1) by (auto split: option.splits)
  have live: "live_pipe (PipeTbl t) (dst_PipeId d)" using Cons.prems(9) d by (simp add: pid_at_def)
  have len: "length (PipeTbl t) = 64" by (rule Cons.prems(6))
  define k where "k = (if accepts e t d then 1 else (0::nat))"
  have step: "\<exists>t1 evs1. broadcast_dest e b a (t, evs) = Some (t1, evs1) \<and> served e b [a] t t1 \<and>
      buf_inv (R(b := R b + k)) t1 \<and> length evs1 = length evs + length (refusers e t [a])"
  proof (cases "accepts e t d")
    case True
    then have "R b < 0x7FFF" using Cons.prems(4) by simp
    from broadcast_dest_accepts [OF Cons.prems(2,3) this d live len True, of evs] obtain t1 where
      t1: "broadcast_dest e b a (t, evs) = Some (t1, evs)" "quiet t t1" "RoutingTbl t1 = RoutingTbl t" "Dests t1 = (Dests t)(a \<mapsto> delivered d)"
      "Queues t1 = (Queues t)(pd_SysQueueId (pipe_of t d) := map_option (enqueued b) (Queues t (pd_SysQueueId (pipe_of t d))))"
      "buf_inv (R(b := R b + 1)) t1" "buf_info t1 = (buf_info t)(b := map_option (\<lambda>d. d\<lparr>bd_UseCount := bd_UseCount d + 1\<rparr>) (buf_info t b))"
      by blast
    have "Dests t1 = (\<lambda>c. if c \<in> {a} then map_option delivered (Dests t c) else Dests t c)" by (rule ext) (simp add: t1(4) d)
    moreover have "Queues t1 = (\<lambda>q. if q \<in> queue_at t ` {a} then map_option (enqueued b) (Queues t q) else Queues t q)"
      by (rule ext) (simp add: t1(5) queue_at_def d)
    ultimately have "served e b [a] t t1" using True t1(2,3,7) by (simp add: served_def takers_def d)
    then show ?thesis using t1(1,6) True d by (simp add: k_def refusers_def)
  next
    case False
    have "length evs < 16" using Cons.prems(5) by simp
    from broadcast_dest_refuses [OF d live len this False] obtain t1 evs1 where
      t1: "broadcast_dest e b a (t, evs) = Some (t1, evs1)" "quiet t t1" "Dests t1 = Dests t" "Queues t1 = Queues t"
      "Bufs t1 = Bufs t" "InTransitList t1 = InTransitList t" "ZeroCopyList t1 = ZeroCopyList t" "Stat t1 = Stat t"
      "RoutingTbl t1 = RoutingTbl t" "length evs1 = length evs + (if wants e t d then 1 else 0)" by blast
    have "map_option (\<lambda>d. d\<lparr>bd_UseCount := bd_UseCount d\<rparr>) x = x" for x :: "CFE_SB_BufferD option" by (cases x) simp_all
    then have "served e b [a] t t1"
      using False d t1 buf_inv_cong(2) [of t1 t] by (simp add: served_def takers_def)
    moreover have "buf_inv R t1" using Cons.prems(2) buf_inv_cong(1) [of t1 t R] t1 by simp
    moreover have "R(b := R b + k) = R" using False by (simp add: k_def)
    ultimately show ?thesis using t1(1,10) d False by (simp add: refusers_def)
  qed
  then obtain t1 evs1 where t1: "broadcast_dest e b a (t, evs) = Some (t1, evs1)" "served e b [a] t t1"
    "buf_inv (R(b := R b + k)) t1" "length evs1 = length evs + length (refusers e t [a])" by blast
  have q1: "quiet t t1" and rt1: "RoutingTbl t1 = RoutingTbl t" and ds1: "Dests t1 = (\<lambda>c. if c \<in> set (takers e t [a]) then map_option delivered (Dests t c) else Dests t c)"
    and qs1: "Queues t1 = (\<lambda>q. if q \<in> queue_at t ` set (takers e t [a]) then map_option (enqueued b) (Queues t q) else Queues t q)"
    and bi1: "buf_info t1 = (buf_info t)(b := map_option (\<lambda>d. d\<lparr>bd_UseCount := bd_UseCount d + of_nat (length (takers e t [a]))\<rparr>) (buf_info t b))"
    using t1(2) by (simp_all add: served_def)
  have tk: "takers e t [a] = (if accepts e t d then [a] else [])" by (simp add: takers_def d)
  have k: "length (takers e t [a]) = k" by (simp add: tk k_def)
  have na: "a \<notin> set as" using Cons.prems(7) by simp
  have nq: "queue_at t a \<notin> queue_at t ` set as" using Cons.prems(8) by simp
  have da: "Dests t1 a = Some (if accepts e t d then delivered d else d)" by (simp add: ds1 tk d)
  have nxt: "dst_Next (if accepts e t d then delivered d else d) = dst_Next d" by (simp add: delivered_def)
  have other: "Dests t1 c = Dests t c" if "c \<in> set as" for c using that na by (auto simp: ds1 tk)
  have alloc: "\<exists>dc. Dests t c = Some dc" if "c \<in> set as" for c using dseg_dom [OF seg] that by blast
  have livec: "live_pipe (PipeTbl t) (dst_PipeId (the (Dests t c)))" if "c \<in> set as" for c
    using alloc [OF that] Cons.prems(9) that by (auto simp: pid_at_def)
  have qa: "Queues t1 (queue_at t c) = Queues t (queue_at t c)" if "c \<in> set as" for c
  proof -
    have "queue_at t c \<noteq> queue_at t a" using nq that by (metis imageI)
    then show ?thesis by (auto simp: qs1 tk split: if_splits)
  qed
  note oth = accepts_other [OF q1 len livec qa [unfolded queue_at_def]]
  have acc: "accepts e t1 (the (Dests t1 c)) = accepts e t (the (Dests t c))" "wants e t1 (the (Dests t1 c)) = wants e t (the (Dests t c))"
    "queue_at t1 c = queue_at t c" if "c \<in> set as" for c
    using oth(1) [OF that that, of e] oth(2) [OF that that, of e] oth(3) [OF that that] other [OF that] by (simp_all add: queue_at_def)
  have tk1: "takers e t1 as = takers e t as" "refusers e t1 as = refusers e t as"
    using acc by (auto simp: takers_def refusers_def intro!: filter_cong)
  have q1map: "map (queue_at t1) as = map (queue_at t) as" using acc(3) by simp
  have "\<exists>t' evs'. broadcast_loop e b (dst_Next d) (t1, evs1) = Some (t', evs') \<and> served e b as t1 t' \<and>
     buf_inv ((R(b := R b + k))(b := (R(b := R b + k)) b + length (takers e t1 as))) t' \<and>
     length evs' = length evs1 + length (refusers e t1 as)"
  proof (rule Cons.IH)
    show "dseg (Dests t1) (Some a) (dst_Next d) as lst None"
      by (rule dseg_upd_all [OF seg]) (use other in blast)
    show "(R(b := R b + k)) b + length as \<le> 0x7FFF" using Cons.prems(4) by (simp add: k_def)
    have "length (refusers e t [a]) \<le> 1" by (simp add: refusers_def)
    then show "length evs1 + length as \<le> 16" using Cons.prems(5) t1(4) by simp
    show "length (PipeTbl t1) = 64" using staticD(2) [of t1 t] q1 len by (simp add: quiet_def)
    show "distinct (map (queue_at t1) as)" using Cons.prems(8) unfolding q1map by simp
    show "\<forall>c\<in>set as. live_pipe (PipeTbl t1) (pid_at (Dests t1) c)"
      using Cons.prems(9) static_live [of t1 t] static_links(2) [of t1 t] q1 len by (simp add: quiet_def)
    show "buf_inv (R(b := R b + k)) t1" by (rule t1(3))
  qed (use Cons.prems in simp_all)
  then obtain t' evs' where t': "broadcast_loop e b (dst_Next d) (t1, evs1) = Some (t', evs')" "served e b as t1 t'"
    "buf_inv (R(b := R b + k + length (takers e t as))) t'" "length evs' = length evs1 + length (refusers e t as)"
    unfolding tk1 by auto
  have run: "broadcast_loop e b ptr (t, evs) = Some (t', evs')"
    by (subst broadcast_loop.simps) (simp add: ptr t1(1) da nxt t'(1))
  have tka: "takers e t (a # as) = takers e t [a] @ takers e t as" "refusers e t (a # as) = refusers e t [a] @ refusers e t as"
    by (simp_all add: takers_def refusers_def)
  have "served e b (a # as) t t'"
    unfolding served_def
  proof (intro conjI)
    have s': "quiet t1 t'" "Dests t' = (\<lambda>c. if c \<in> set (takers e t as) then map_option delivered (Dests t1 c) else Dests t1 c)"
      "Queues t' = (\<lambda>q. if q \<in> queue_at t1 ` set (takers e t as) then map_option (enqueued b) (Queues t1 q) else Queues t1 q)"
      "buf_info t' = (buf_info t1)(b := map_option (\<lambda>d. d\<lparr>bd_UseCount := bd_UseCount d + of_nat (length (takers e t as))\<rparr>) (buf_info t1 b))"
      using t'(2) unfolding served_def tk1 by simp_all
    have sub: "set (takers e t as) \<subseteq> set as" "set (takers e t [a]) \<subseteq> {a}" by (auto simp: takers_def)
    show "quiet t t'" by (rule quiet_trans [OF q1 s'(1)])
    show "RoutingTbl t' = RoutingTbl t" using t'(2) rt1 by (simp add: served_def)
    show "Dests t' = (\<lambda>c. if c \<in> set (takers e t (a # as)) then map_option delivered (Dests t c) else Dests t c)"
      unfolding s'(2) ds1 tka using na sub by (intro ext) auto
    have img: "queue_at t1 ` set (takers e t as) = queue_at t ` set (takers e t as)"
      by (rule image_cong [OF refl]) (use acc(3) sub in blast)
    have dis: "q \<notin> queue_at t ` set (takers e t [a])" if "q \<in> queue_at t ` set (takers e t as)" for q
    proof
      assume "q \<in> queue_at t ` set (takers e t [a])"
      then have "q = queue_at t a" using sub(2) by auto
      moreover have "q \<in> queue_at t ` set as" using that sub(1) by blast
      ultimately show False using nq by simp
    qed
    show "Queues t' = (\<lambda>q. if q \<in> queue_at t ` set (takers e t (a # as)) then map_option (enqueued b) (Queues t q) else Queues t q)"
      unfolding s'(3) img qs1 tka using dis by (intro ext) (simp add: image_Un)
    show "buf_info t' = (buf_info t)(b := map_option (\<lambda>d. d\<lparr>bd_UseCount := bd_UseCount d + of_nat (length (takers e t (a # as)))\<rparr>) (buf_info t b))"
      unfolding s'(4) bi1 tka by (simp add: option.map_comp comp_def add.assoc)
  qed
  moreover have "buf_inv (R(b := R b + length (takers e t (a # as)))) t'"
    using t'(3) unfolding tka by (simp add: k add.assoc del: fun_upd_apply)
  moreover have "length evs' = length evs + length (refusers e t (a # as))" using t'(4) t1(4) unfolding tka by simp
  ultimately show ?case using run by blast
qed

end
