(* ===== verification/Sb_Deliver.thy ===== *)
theory Sb_Deliver
  imports Sb_Cast
begin

text \<open>
  Delivery: the locked section of a broadcast as a whole, and sending a message. A message is delivered
  to exactly the subscribers that accept it, in one copy that lives as long as somebody refers to it.
\<close>

section \<open>The header of a message in a buffer\<close>

definition sized :: "bytes \<Rightarrow> bool" where
  "sized m \<longleftrightarrow> CFE_MSG_GetSize m \<le> length m"

lemma GetSize_bytes: "byte_at m' 4 = byte_at m 4 \<Longrightarrow> byte_at m' 5 = byte_at m 5 \<Longrightarrow> CFE_MSG_GetSize m' = CFE_MSG_GetSize m"
  by (simp add: CFE_MSG_GetSize_def)

lemma update_header_ok:
  assumes "sized m"
  shows "\<exists>m'. CFE_MSG_UpdateHeader now m seq = Some (CFE_SUCCESS, m') \<and> length m' = length m \<and>
     CFE_MSG_GetMsgId m' = CFE_MSG_GetMsgId m \<and> CFE_MSG_GetSize m' = CFE_MSG_GetSize m"
proof -
  define m1 where "m1 = snd (CFE_MSG_SetMsgTime (snd (CFE_MSG_SetSequenceCount m seq)) now)"
  have len: "length m1 = length m" by (simp add: m1_def)
  have bytes: "byte_at m1 i = byte_at m i" if "i < 2 \<or> i = 4 \<or> i = 5" for i
    using that by (auto simp: m1_def CFE_MSG_SetMsgTime_def)
  have mid: "CFE_MSG_GetMsgId m1 = CFE_MSG_GetMsgId m" and sz: "CFE_MSG_GetSize m1 = CFE_MSG_GetSize m"
    using bytes by (simp_all add: CFE_MSG_GetMsgId_def CFE_MSG_GetSize_def)
  have "\<exists>m'. CFE_MSG_GenerateChecksum m1 = Some (fst (the (CFE_MSG_GenerateChecksum m1)), m') \<and> length m' = length m \<and>
     CFE_MSG_GetMsgId m' = CFE_MSG_GetMsgId m \<and> CFE_MSG_GetSize m' = CFE_MSG_GetSize m"
    using assms mid sz len
    by (auto simp: CFE_MSG_GenerateChecksum_def ComputeCheckSum_sum sized_def CFE_MSG_GetMsgId_def)
  then obtain st m' where "CFE_MSG_GenerateChecksum m1 = Some (st, m')" "length m' = length m"
     "CFE_MSG_GetMsgId m' = CFE_MSG_GetMsgId m" "CFE_MSG_GetSize m' = CFE_MSG_GetSize m" by blast
  then show ?thesis by (simp add: CFE_MSG_UpdateHeader_def Let_def m1_def)
qed

section \<open>Pipes and their queues\<close>

definition live_slot :: "sb_state \<Rightarrow> nat \<Rightarrow> bool" where
  "live_slot s i \<longleftrightarrow> i < 64 \<and> pd_PipeId (PipeTbl s ! i) \<notin> {CFE_SB_INVALID_PIPE, CFE_RESOURCEID_RESERVED}"

definition pipe_ok :: "sb_state \<Rightarrow> bool" where
  "pipe_ok s \<longleftrightarrow> length (PipeTbl s) = 64 \<and> queues_ok (Queues s) \<and> finite (dom (Queues s)) \<and>
     (\<forall>i. live_slot s i \<longrightarrow> CFE_SB_LocatePipeDescByID (pd_PipeId (PipeTbl s ! i)) = Some i \<and>
        pd_SysQueueId (PipeTbl s ! i) \<in> dom (Queues s)) \<and>
     (\<forall>i j. live_slot s i \<longrightarrow> live_slot s j \<longrightarrow> pd_SysQueueId (PipeTbl s ! i) = pd_SysQueueId (PipeTbl s ! j) \<longrightarrow> i = j)"

lemma pipe_okD:
  assumes "pipe_ok s"
  shows "length (PipeTbl s) = 64" and "queues_ok (Queues s)" and "finite (dom (Queues s))"
    and "live_slot s i \<Longrightarrow> CFE_SB_LocatePipeDescByID (pd_PipeId (PipeTbl s ! i)) = Some i"
    and "live_slot s i \<Longrightarrow> pd_SysQueueId (PipeTbl s ! i) \<in> dom (Queues s)"
    and "live_slot s i \<Longrightarrow> live_slot s j \<Longrightarrow> pd_SysQueueId (PipeTbl s ! i) = pd_SysQueueId (PipeTbl s ! j) \<Longrightarrow> i = j"
  using assms unfolding pipe_ok_def by blast+

lemma Locate_undefined [simp]:
  "CFE_SB_LocatePipeDescByID CFE_SB_INVALID_PIPE = None" "CFE_SB_LocatePipeDescByID CFE_RESOURCEID_RESERVED = None"
  by (simp_all add: CFE_SB_LocatePipeDescByID_def CFE_SB_PipeId_ToIndex_def CFE_ResourceId_ToIndex_def Let_def)

lemma live_pipe_slot: "live_pipe (PipeTbl s) p \<Longrightarrow> \<exists>i. CFE_SB_LocatePipeDescByID p = Some i \<and> live_slot s i \<and> pd_PipeId (PipeTbl s ! i) = p"
proof -
  assume "live_pipe (PipeTbl s) p"
  then obtain i where i: "CFE_SB_LocatePipeDescByID p = Some i" "i < 64" "pd_PipeId (PipeTbl s ! i) = p" using live_slot by blast
  then have "p \<notin> {CFE_SB_INVALID_PIPE, CFE_RESOURCEID_RESERVED}" using Locate_undefined by (metis insert_iff option.distinct(1) singletonD)
  with i show ?thesis by (auto simp: live_slot_def)
qed

lemma queues_distinct:
  assumes inv: "route_inv s" and pipes: "pipe_ok s" and r: "r \<in> route_ids"
  shows "distinct (map (queue_at s) (route_dests s r))"
proof -
  note di = route_invD(2) [OF inv]
  have "inj_on (queue_at s) (set (route_dests s r))"
  proof (rule inj_onI)
    fix a a' assume a: "a \<in> set (route_dests s r)" "a' \<in> set (route_dests s r)" "queue_at s a = queue_at s a'"
    obtain d d' where d: "Dests s a = Some d" "Dests s a' = Some d'" using dest_inv_alloc [OF di r] a by meson
    obtain i where i: "CFE_SB_LocatePipeDescByID (dst_PipeId d) = Some i" "live_slot s i" "pd_PipeId (PipeTbl s ! i) = dst_PipeId d"
      using live_pipe_slot dest_inv_live [OF di d(1)] by blast
    obtain j where j: "CFE_SB_LocatePipeDescByID (dst_PipeId d') = Some j" "live_slot s j" "pd_PipeId (PipeTbl s ! j) = dst_PipeId d'"
      using live_pipe_slot dest_inv_live [OF di d(2)] by blast
    have "i = j" using pipe_okD(6) [OF pipes i(2) j(2)] a(3) by (simp add: queue_at_def pipe_of_def d i(1) j(1))
    then have "pid_at (Dests s) a = pid_at (Dests s) a'" using i(3) j(3) by (simp add: pid_at_def d)
    moreover have "inj_on (pid_at (Dests s)) (set (route_dests s r))" using dest_inv_pids [OF di r] by (simp add: distinct_map)
    ultimately show "a = a'" using a by (auto dest: inj_onD)
  qed
  moreover have "distinct (route_dests s r)" using dest_inv_pids [OF di r] by (simp add: distinct_map)
  ultimately show ?thesis by (simp add: distinct_map)
qed

section \<open>The broadcast as a whole\<close>

definition next_seq :: "nat \<Rightarrow> sb_state \<Rightarrow> u16" where
  "next_seq rid s = CFE_MSG_GetNextSequenceCount (CFE_SBR_GetSequenceCounter rid s)"

definition updates_header :: "nat \<Rightarrow> CFE_SB_BufferD \<Rightarrow> bool" where
  "updates_header rid d \<longleftrightarrow> rid \<in> route_ids \<and> bd_NeedsUpdate d"

text \<open>The buffer as it goes out.\<close>

definition sent_buf :: "sb_env \<Rightarrow> sb_state \<Rightarrow> nat \<Rightarrow> CFE_SB_BufferD \<Rightarrow> CFE_SB_BufferD" where
  "sent_buf e s rid d = (if updates_header rid d
     then d\<lparr>bd_Content := snd (the (CFE_MSG_UpdateHeader (Clock e) (bd_Content d) (next_seq rid s))), bd_NeedsUpdate := False\<rparr> else d)"

definition numbered :: "nat \<Rightarrow> bool \<Rightarrow> sb_state \<Rightarrow> sb_state \<Rightarrow> bool" where
  "numbered rid n s s' \<longleftrightarrow>
     (\<forall>r. CFE_SBR_GetSequenceCounter r s' = (if r = rid \<and> n then next_seq rid s else CFE_SBR_GetSequenceCounter r s))"

lemma sent_buf_simps [simp]:
  "bd_AppId (sent_buf e s rid d) = bd_AppId d" "bd_UseCount (sent_buf e s rid d) = bd_UseCount d" "bd_MsgId (sent_buf e s rid d) = bd_MsgId d"
  "sent_buf e s rid (d\<lparr>bd_Link := l\<rparr>) = (sent_buf e s rid d)\<lparr>bd_Link := l\<rparr>" "bd_Link (sent_buf e s rid d) = bd_Link d"
  by (simp_all add: sent_buf_def updates_header_def)

lemma seq_cong: "RoutingTbl s' = RoutingTbl s \<Longrightarrow> CFE_SBR_GetSequenceCounter r s' = CFE_SBR_GetSequenceCounter r s"
  by (simp add: CFE_SBR_GetSequenceCounter_def)

lemma IncrementSequenceCounter_ok:
  assumes rid: "rid \<in> route_ids" and len: "length (RoutingTbl s) = 256"
  shows "quiet s (CFE_SBR_IncrementSequenceCounter rid s)"
    and "CFE_SBR_GetSequenceCounter r (CFE_SBR_IncrementSequenceCounter rid s) = (if r = rid then next_seq rid s else CFE_SBR_GetSequenceCounter r s)"
    and "\<exists>rt. CFE_SBR_IncrementSequenceCounter rid s = s\<lparr>RoutingTbl := rt\<rparr>"
proof -
  let ?f = "\<lambda>e. e\<lparr>rt_SeqCnt := CFE_MSG_GetNextSequenceCount (rt_SeqCnt e)\<rparr>"
  have inc: "CFE_SBR_IncrementSequenceCounter rid s = s\<lparr>RoutingTbl := upd_at (rid - 1) ?f (RoutingTbl s)\<rparr>"
    using rid by (simp add: CFE_SBR_IncrementSequenceCounter_def upd_Route_def CFE_SBR_RouteIdToValue_def)
  show "\<exists>rt. CFE_SBR_IncrementSequenceCounter rid s = s\<lparr>RoutingTbl := rt\<rparr>" using inc by blast
  have lt: "rid - 1 < length (RoutingTbl s)" using rid len by auto
  then have "map route_static (upd_at (rid - 1) ?f (RoutingTbl s)) = map route_static (RoutingTbl s)"
    by (intro nth_equalityI) (auto simp: upd_at_def nth_list_update)
  then show "quiet s (CFE_SBR_IncrementSequenceCounter rid s)" by (simp add: inc quiet_def static_def)
  have ne: "r - 1 \<noteq> rid - 1" if "r \<noteq> rid" "r \<in> route_ids" using that rid by auto
  show "CFE_SBR_GetSequenceCounter r (CFE_SBR_IncrementSequenceCounter rid s) = (if r = rid then next_seq rid s else CFE_SBR_GetSequenceCounter r s)"
    using rid lt ne
    by (auto simp: inc CFE_SBR_GetSequenceCounter_def CFE_SBR_RouteIdToValue_def next_seq_def nth_upd_at_other)
qed

lemma broadcast_header_ok:
  assumes inv: "buf_inv R s" and b: "Bufs s b = Some d" and rid: "rid \<in> route_ids" and len: "length (RoutingTbl s) = 256"
    and sz: "bd_NeedsUpdate d \<Longrightarrow> sized (bd_Content d)"
  shows "\<exists>s'. broadcast_header e b rid s = Some s' \<and> quiet s s' \<and> Dests s' = Dests s \<and> Queues s' = Queues s \<and> PipeTbl s' = PipeTbl s \<and>
     buf_inv R s' \<and> buf_info s' = (buf_info s)(b := map_option (sent_buf e s rid) (buf_info s b)) \<and> numbered rid (bd_NeedsUpdate d) s s'"
proof (cases "bd_NeedsUpdate d")
  case False
  have "map_option (sent_buf e s rid) (buf_info s b) = buf_info s b"
    using b False by (simp add: buf_info_def sent_buf_def updates_header_def)
  then show ?thesis using b False inv by (simp add: broadcast_header_def numbered_def)
next
  case True
  let ?s1 = "CFE_SBR_IncrementSequenceCounter rid s"
  note inc = IncrementSequenceCounter_ok [OF rid len]
  obtain rt where rt: "?s1 = s\<lparr>RoutingTbl := rt\<rparr>" using inc(3) by blast
  have sq: "CFE_SBR_GetSequenceCounter rid ?s1 = next_seq rid s" using inc(2) [of rid] by simp
  obtain m where m: "CFE_MSG_UpdateHeader (Clock e) (bd_Content d) (next_seq rid s) = Some (CFE_SUCCESS, m)"
    using update_header_ok [OF sz [OF True]] by blast
  let ?f = "\<lambda>d. d\<lparr>bd_Content := m, bd_NeedsUpdate := False\<rparr>"
  have b1: "Bufs ?s1 b = Some d" by (simp add: rt b)
  then obtain s2 where s2: "upd_Buf b ?f ?s1 = Some s2" using upd_Buf_ok [of b ?s1] by auto
  have inv1: "buf_inv R ?s1" using inv buf_inv_cong(1) [of ?s1 s R] by (simp add: rt)
  have n: "unat (bd_UseCount (?f d')) = R b" if "Bufs ?s1 b = Some d'" for d'
    using counts_ok_Some [of R ?s1 b d'] inv1 that by (simp add: buf_inv_def)
  have nz: "R b \<noteq> 0" using buf_inv_None [OF inv, of b] b by simp
  note u = buf_inv_upd [OF inv1 s2 keeps_linksI _ n nz, simplified]
  have run: "broadcast_header e b rid s = Some s2"
    using b True m s2 by (simp add: broadcast_header_def sq)
  have i1: "buf_info ?s1 = buf_info s" by (rule buf_inv_cong(2)) (simp_all add: rt)
  have "buf_info s2 = (buf_info s)(b := map_option (sent_buf e s rid) (buf_info s b))"
    unfolding u(3) i1 using True rid m b by (simp add: buf_info_Some [OF b] sent_buf_def updates_header_def)
  moreover have "numbered rid True s s2"
    using inc(2) seq_cong [OF buf_step_simps(4) [OF u(2)]] by (simp add: numbered_def)
  moreover have "Dests s2 = Dests s" "Queues s2 = Queues s" "PipeTbl s2 = PipeTbl s" using buf_step_simps [OF u(2)] by (simp_all add: rt)
  ultimately show ?thesis using run quiet_trans [OF inc(1) buf_step_quiet [OF u(2)]] u(1) True by simp
qed

lemma upd_HK_parts:
  "buf_inv R (upd_HK f s) = buf_inv R s" "Queues (upd_HK f s) = Queues s" "RoutingTbl (upd_HK f s) = RoutingTbl s" "Bufs (upd_HK f s) = Bufs s"
  "sb_events (upd_HK f s) = sb_events s" "Stat (upd_HK f s) = Stat s"
  by (rule buf_inv_cong(1)) (simp_all add: upd_HK_def)

text \<open>
  What the locked section of a broadcast does: everybody who accepts the buffer has it at the end of the
  queue, and it has one user for each; a buffer nobody accepted is gone.
\<close>

definition broadcasted :: "sb_env \<Rightarrow> nat \<Rightarrow> nat \<Rightarrow> CFE_SB_BufferD \<Rightarrow> sb_state \<Rightarrow> sb_state \<Rightarrow> bool" where
  "broadcasted e b rid d s s' \<longleftrightarrow> quiet s s' \<and>
     (let tk = takers e s (route_dests s rid); n = bd_UseCount d + of_nat (length tk)
      in Dests s' = (\<lambda>a. if a \<in> set tk then map_option delivered (Dests s a) else Dests s a) \<and>
         Queues s' = (\<lambda>q. if q \<in> queue_at s ` set tk then map_option (enqueued b) (Queues s q) else Queues s q) \<and>
         buf_info s' = (buf_info s)(b := if n = 1 then None
           else Some ((sent_buf e s rid d)\<lparr>bd_AppId := 0, bd_UseCount := n - 1, bd_Link := \<lparr>Next = InTransit, Prev = InTransit\<rparr>\<rparr>))) \<and>
     numbered rid (updates_header rid d) s s'"

lemma broadcast_locked_ok:
  assumes rinv: "route_inv s" and pipes: "pipe_ok s" and inv: "buf_inv R s" and b: "Bufs s b = Some d" and bound: "R b + 16 \<le> 0x7FFF"
    and sz: "bd_NeedsUpdate d \<Longrightarrow> sized (bd_Content d)"
  shows "\<exists>s' evs. broadcast_locked e b rid s = Some (s', evs) \<and> broadcasted e b rid d s s' \<and>
     buf_inv (R(b := R b + length (takers e s (route_dests s rid)) - 1)) s' \<and> length evs = length (refusers e s (route_dests s rid))"
proof -
  let ?as = "route_dests s rid"
  let ?tk = "takers e s ?as"
  have rl: "length (RoutingTbl s) = 256" using route_invD(1) [OF rinv] by (simp add: map_inv_def)
  have nz: "R b \<noteq> 0" using buf_inv_None [OF inv, of b] b by simp
  have start: "\<exists>s1 evs. (if CFE_SBR_IsValidRouteId rid
       then Option.bind (broadcast_header e b rid s) (\<lambda>s. broadcast_loop e b (CFE_SBR_GetDestListHeadPtr rid s) (s, []))
       else Some (s, [])) = Some (s1, evs) \<and> quiet s s1 \<and>
     Dests s1 = (\<lambda>a. if a \<in> set ?tk then map_option delivered (Dests s a) else Dests s a) \<and>
     Queues s1 = (\<lambda>q. if q \<in> queue_at s ` set ?tk then map_option (enqueued b) (Queues s q) else Queues s q) \<and>
     buf_info s1 = (buf_info s)(b := Some ((sent_buf e s rid d)\<lparr>bd_UseCount := bd_UseCount d + of_nat (length ?tk),
       bd_Link := \<lparr>Next = InTransit, Prev = InTransit\<rparr>\<rparr>)) \<and>
     buf_inv (R(b := R b + length ?tk)) s1 \<and> length evs = length (refusers e s ?as) \<and> numbered rid (updates_header rid d) s s1"
  proof (cases "rid \<in> route_ids")
    case False
    then have "?as = []" by (rule route_dests_invalid)
    moreover have "buf_info s b = Some (d\<lparr>bd_Link := \<lparr>Next = InTransit, Prev = InTransit\<rparr>\<rparr>)" by (rule buf_info_Some [OF b])
    ultimately show ?thesis using False inv
      by (auto simp: takers_def refusers_def sent_buf_def updates_header_def numbered_def fun_eq_iff)
  next
    case True
    obtain s0 where s0: "broadcast_header e b rid s = Some s0" "quiet s s0" "Dests s0 = Dests s" "Queues s0 = Queues s" "PipeTbl s0 = PipeTbl s"
       "buf_inv R s0" "buf_info s0 = (buf_info s)(b := map_option (sent_buf e s rid) (buf_info s b))" "numbered rid (bd_NeedsUpdate d) s s0"
      using broadcast_header_ok [OF inv b True rl sz] by blast
    have head: "CFE_SBR_GetDestListHeadPtr rid s0 = CFE_SBR_GetDestListHeadPtr rid s" using s0(2) by (intro static_head) (simp_all add: quiet_def rl)
    have po: "pipe_of s0 = pipe_of s" by (rule ext) (simp add: pipe_of_def s0(5))
    have ac: "accepts e s0 = accepts e s" "wants e s0 = wants e s"
      by (rule ext, simp add: accepts_def wants_def q_room_def po s0(4))+
    have tk: "takers e s0 ?as = ?tk" "refusers e s0 ?as = refusers e s ?as" by (simp_all add: takers_def refusers_def ac s0(3))
    have qa: "queue_at s0 = queue_at s" by (rule ext) (simp add: queue_at_def po s0(3))
    have seg: "dseg (Dests s0) None (CFE_SBR_GetDestListHeadPtr rid s) ?as (if ?as = [] then None else Some (last ?as)) None"
      using dest_inv_list [OF route_invD(2) [OF rinv] True] by (simp add: dlist_def s0(3))
    have di: "distinct ?as" using dest_inv_pids [OF route_invD(2) [OF rinv] True] by (simp add: distinct_map)
    have lv: "\<forall>a\<in>set ?as. live_pipe (PipeTbl s0) (pid_at (Dests s0) a)"
    proof
      fix a assume "a \<in> set ?as"
      with dest_inv_alloc [OF route_invD(2) [OF rinv] True] obtain da where "Dests s a = Some da" by blast
      then show "live_pipe (PipeTbl s0) (pid_at (Dests s0) a)"
        using dest_inv_live [OF route_invD(2) [OF rinv]] by (simp add: s0(3,5) pid_at_def)
    qed
    have "\<exists>s1 evs. broadcast_loop e b (CFE_SBR_GetDestListHeadPtr rid s) (s0, []) = Some (s1, evs) \<and> served e b ?as s0 s1 \<and>
       buf_inv (R(b := R b + length (takers e s0 ?as))) s1 \<and> length evs = length ([] :: CFE_SB_SendErrEventBuf list) + length (refusers e s0 ?as)"
    proof (rule broadcast_loop_ok [OF seg s0(6) nz])
      show "R b + length ?as \<le> 0x7FFF" using bound length_route_dests [of s rid] by linarith
    qed (use di lv queues_distinct [OF rinv pipes True] pipe_okD(1) [OF pipes] in \<open>simp_all add: s0(5) qa\<close>)
    then obtain s1 evs where s1: "broadcast_loop e b (CFE_SBR_GetDestListHeadPtr rid s) (s0, []) = Some (s1, evs)" "served e b ?as s0 s1"
       "buf_inv (R(b := R b + length ?tk)) s1" "length evs = length (refusers e s ?as)"
      unfolding tk by auto
    have "RoutingTbl s1 = RoutingTbl s0" using s1(2) by (simp add: served_def)
    from seq_cong [OF this] have "numbered rid (bd_NeedsUpdate d) s s1" using s0(8) by (simp add: numbered_def)
    then show ?thesis using s1 s0 True head quiet_trans [OF s0(2), of s1]
      by (auto simp: served_def tk qa buf_info_Some [OF b] updates_header_def)
  qed
  then obtain s1 evs where s1: "(if CFE_SBR_IsValidRouteId rid
       then Option.bind (broadcast_header e b rid s) (\<lambda>s. broadcast_loop e b (CFE_SBR_GetDestListHeadPtr rid s) (s, []))
       else Some (s, [])) = Some (s1, evs)" "quiet s s1"
     "Dests s1 = (\<lambda>a. if a \<in> set ?tk then map_option delivered (Dests s a) else Dests s a)"
     "Queues s1 = (\<lambda>q. if q \<in> queue_at s ` set ?tk then map_option (enqueued b) (Queues s q) else Queues s q)"
     "buf_info s1 = (buf_info s)(b := Some ((sent_buf e s rid d)\<lparr>bd_UseCount := bd_UseCount d + of_nat (length ?tk),
       bd_Link := \<lparr>Next = InTransit, Prev = InTransit\<rparr>\<rparr>))"
     "buf_inv (R(b := R b + length ?tk)) s1" "length evs = length (refusers e s ?as)" "numbered rid (updates_header rid d) s s1"
    by blast
  let ?s2 = "if evs \<noteq> [] then upd_HK (\<lambda>h. h\<lparr>MsgSendErrorCounter := MsgSendErrorCounter h + 1\<rparr>) s1 else s1"
  have s2: "buf_inv (R(b := R b + length ?tk)) ?s2" "buf_info ?s2 = buf_info s1" "quiet s1 ?s2" "Dests ?s2 = Dests s1" "Queues ?s2 = Queues s1"
    "RoutingTbl ?s2 = RoutingTbl s1"
    using s1(6) by (simp_all add: upd_HK_parts)
  have "(R(b := R b + length ?tk)) b \<noteq> 0" using nz by simp
  from broadcast_finish_ok [OF s2(1) this] obtain s3 where s3: "broadcast_finish b ?s2 = Some s3"
    "buf_inv ((R(b := R b + length ?tk))(b := (R(b := R b + length ?tk)) b - 1)) s3" "buf_step ?s2 s3"
    "buf_info s3 = dropped b (disowned b (buf_info ?s2))" by blast
  have run: "broadcast_locked e b rid s = Some (s3, evs)"
    using s1(1) s3(1) by (simp add: broadcast_locked_def)
  have "broadcasted e b rid d s s3"
    unfolding broadcasted_def Let_def
  proof (intro conjI)
    show "quiet s s3" using quiet_trans [OF s1(2) quiet_trans [OF s2(3) buf_step_quiet [OF s3(3)]]] .
    show "numbered rid (updates_header rid d) s s3"
      using s1(8) seq_cong [OF trans [OF buf_step_simps(4) [OF s3(3)] s2(6)]] by (simp add: numbered_def)
    show "buf_info s3 = (buf_info s)(b := if bd_UseCount d + of_nat (length ?tk) = 1 then None
           else Some ((sent_buf e s rid d)\<lparr>bd_AppId := 0, bd_UseCount := bd_UseCount d + of_nat (length ?tk) - 1,
             bd_Link := \<lparr>Next = InTransit, Prev = InTransit\<rparr>\<rparr>))"
      unfolding s3(4) s2(2) s1(5) by (rule ext) (simp add: dropped_def disowned_def)
  qed (use s1(3,4) s2(4,5) buf_step_simps [OF s3(3)] in simp_all)
  moreover have "buf_inv (R(b := R b + length ?tk - 1)) s3" using s3(2) by simp
  ultimately show ?thesis using run s1(7) by blast
qed

end
