(* ===== verification/Sb_Inv.thy ===== *)
theory Sb_Inv
  imports Sb_Deliver
begin

text \<open>
  The invariant of the whole bus: the use count of a buffer is the number of queue entries, pipes, owners
  and tasks that refer to it. Every locked section keeps it and has a result, so that no routine follows a
  pointer to memory that was freed. \<open>h\<close> counts the references that tasks hold between two sections.
\<close>

section \<open>Counting references\<close>

definition q_refs :: "os_queues \<Rightarrow> nat \<Rightarrow> nat" where
  "q_refs qs b = (\<Sum>q\<in>dom qs. count_list (q_content qs q) b)"

definition last_refs :: "sb_state \<Rightarrow> nat \<Rightarrow> nat" where
  "last_refs s b = card {i. live_slot s i \<and> pd_LastBuffer (PipeTbl s ! i) = Some b}"

definition own_refs :: "sb_state \<Rightarrow> nat \<Rightarrow> nat" where
  "own_refs s b = (if b \<in> owned_bufs s then 1 else 0)"

definition refs :: "sb_state \<Rightarrow> nat \<Rightarrow> nat" where
  "refs s b = q_refs (Queues s) b + last_refs s b + own_refs s b"

definition sb_inv :: "(nat \<Rightarrow> nat) \<Rightarrow> sb_state \<Rightarrow> bool" where
  "sb_inv h s \<longleftrightarrow> route_inv s \<and> pipe_ok s \<and> card (dom (Queues s)) \<le> 64 \<and> buf_inv (\<lambda>b. refs s b + h b) s \<and>
     (\<forall>b\<in>owned_bufs s. refs s b + h b = 1)"

lemma sb_invD:
  assumes "sb_inv h s"
  shows "route_inv s" and "pipe_ok s" and "card (dom (Queues s)) \<le> 64" and "buf_inv (\<lambda>b. refs s b + h b) s"
    and "b \<in> owned_bufs s \<Longrightarrow> refs s b + h b = 1"
  using assms by (simp_all add: sb_inv_def)

lemma live_slots_finite [simp]: "finite {i. live_slot s i \<and> P i}"
  by (rule finite_subset [of _ "{..<64}"]) (auto simp: live_slot_def)

lemma q_refs_insert:
  assumes "finite (dom qs)" and "q \<in> dom qs"
  shows "q_refs qs b = count_list (q_content qs q) b + (\<Sum>p\<in>dom qs - {q}. count_list (q_content qs p) b)"
  using assms by (simp add: q_refs_def sum.remove)

lemma q_refs_upd:
  assumes "finite (dom qs)" and "q \<in> dom qs"
  shows "q_refs (qs(q \<mapsto> r)) b + count_list (q_content qs q) b = q_refs qs b + count_list (q_msgs r) b"
proof -
  have d: "dom (qs(q \<mapsto> r)) = dom qs" using assms(2) by auto
  have "(\<Sum>p\<in>dom qs - {q}. count_list (q_content (qs(q \<mapsto> r)) p) b) = (\<Sum>p\<in>dom qs - {q}. count_list (q_content qs p) b)"
    by (rule sum.cong) (auto simp: q_content_def)
  moreover have "q_content (qs(q \<mapsto> r)) q = q_msgs r" by (simp add: q_content_def)
  ultimately show ?thesis
    using q_refs_insert [OF assms, of b] q_refs_insert [of "qs(q \<mapsto> r)" q b] assms unfolding d by simp
qed

lemma q_refs_new:
  assumes "finite (dom qs)" and "q \<notin> dom qs" and "q_msgs r = []"
  shows "q_refs (qs(q \<mapsto> r)) b = q_refs qs b"
proof -
  have "dom (qs(q \<mapsto> r)) = insert q (dom qs)" by auto
  moreover have "(\<Sum>p\<in>dom qs. count_list (q_content (qs(q \<mapsto> r)) p) b) = (\<Sum>p\<in>dom qs. count_list (q_content qs p) b)"
    using assms(2) by (intro sum.cong) (auto simp: q_content_def)
  moreover have "q_content (qs(q \<mapsto> r)) q = []" using assms(3) by (simp add: q_content_def)
  ultimately show ?thesis using assms(1,2) by (simp add: q_refs_def)
qed

lemma q_refs_delete:
  assumes "finite (dom qs)" and "q_content qs q = []"
  shows "q_refs (qs(q := None)) b = q_refs qs b"
proof (cases "q \<in> dom qs")
  case True
  have "(\<Sum>p\<in>dom qs - {q}. count_list (q_content (qs(q := None)) p) b) = (\<Sum>p\<in>dom qs - {q}. count_list (q_content qs p) b)"
    by (rule sum.cong) (auto simp: q_content_def)
  then show ?thesis using q_refs_insert [OF assms(1) True, of b] assms(2) by (simp add: q_refs_def)
next
  case False
  then have "qs(q := None) = qs" by auto
  then show ?thesis by simp
qed

lemma count_le_length: "count_list xs x \<le> length xs"
  by (induction xs) auto

lemma refs_bound:
  assumes "pipe_ok s" and "card (dom (Queues s)) \<le> 64"
  shows "refs s b \<le> 64 * 50 + 64 + 1"
proof -
  have "count_list (q_content (Queues s) q) b \<le> 50" for q
    using q_content_length [OF pipe_okD(2) [OF assms(1)], of q] count_le_length [of "q_content (Queues s) q" b] by simp
  then have "q_refs (Queues s) b \<le> of_nat (card (dom (Queues s))) * 50"
    unfolding q_refs_def by (intro sum_bounded_above) simp
  also have "\<dots> \<le> 64 * 50" using assms(2) by simp
  finally have "q_refs (Queues s) b \<le> 64 * 50" .
  moreover have "last_refs s b \<le> card {..<64::nat}"
    unfolding last_refs_def by (rule card_mono) (auto simp: live_slot_def)
  moreover have "own_refs s b \<le> 1" by (simp add: own_refs_def)
  ultimately show ?thesis by (simp add: refs_def)
qed

text \<open>What the references depend on.\<close>

lemma live_slot_static:
  assumes "static s' = static s" and "length (PipeTbl s) = 64"
  shows "live_slot s' i = live_slot s i" and "i < 64 \<Longrightarrow> pd_LastBuffer (PipeTbl s' ! i) = pd_LastBuffer (PipeTbl s ! i)"
    and "i < 64 \<Longrightarrow> pd_SysQueueId (PipeTbl s' ! i) = pd_SysQueueId (PipeTbl s ! i)"
    and "i < 64 \<Longrightarrow> pd_PipeId (PipeTbl s' ! i) = pd_PipeId (PipeTbl s ! i)"
    and "i < 64 \<Longrightarrow> pd_AppId (PipeTbl s' ! i) = pd_AppId (PipeTbl s ! i)"
proof -
  have st: "pipe_static (PipeTbl s' ! i) = pipe_static (PipeTbl s ! i)" if "i < 64" for i
    using staticD(3) [OF assms(1), of i] that assms(2) by simp
  show "i < 64 \<Longrightarrow> pd_LastBuffer (PipeTbl s' ! i) = pd_LastBuffer (PipeTbl s ! i)" by (rule pipe_staticD(6) [OF st])
  show "i < 64 \<Longrightarrow> pd_SysQueueId (PipeTbl s' ! i) = pd_SysQueueId (PipeTbl s ! i)" by (rule pipe_staticD(4) [OF st])
  show "i < 64 \<Longrightarrow> pd_PipeId (PipeTbl s' ! i) = pd_PipeId (PipeTbl s ! i)" by (rule pipe_staticD(1) [OF st])
  show "i < 64 \<Longrightarrow> pd_AppId (PipeTbl s' ! i) = pd_AppId (PipeTbl s ! i)" by (rule pipe_staticD(3) [OF st])
  show "live_slot s' i = live_slot s i" using pipe_staticD(1) [OF st, of i] by (cases "i < 64") (simp_all add: live_slot_def)
qed

lemma last_refs_static:
  assumes "static s' = static s" and "length (PipeTbl s) = 64"
  shows "last_refs s' b = last_refs s b"
proof -
  have "{i. live_slot s' i \<and> pd_LastBuffer (PipeTbl s' ! i) = Some b} = {i. live_slot s i \<and> pd_LastBuffer (PipeTbl s ! i) = Some b}"
    using live_slot_static [OF assms] by (auto simp: live_slot_def)
  then show ?thesis by (simp add: last_refs_def)
qed

lemma pipe_ok_static:
  assumes st: "static s' = static s" and ok: "pipe_ok s" and q: "queues_ok (Queues s')" "dom (Queues s') = dom (Queues s)"
  shows "pipe_ok s'"
proof -
  note len = pipe_okD(1) [OF ok]
  have len': "length (PipeTbl s') = 64" using staticD(2) [OF st] len by simp
  show ?thesis
    unfolding pipe_ok_def
  proof (intro conjI allI impI)
    show "length (PipeTbl s') = 64" by (rule len')
    fix i assume i: "live_slot s' i"
    then have lt: "i < 64" and l: "live_slot s i" using live_slot_static(1) [OF st len] by (auto simp: live_slot_def)
    show "CFE_SB_LocatePipeDescByID (pd_PipeId (PipeTbl s' ! i)) = Some i"
      using pipe_okD(4) [OF ok l] live_slot_static(4) [OF st len lt] by simp
    show "pd_SysQueueId (PipeTbl s' ! i) \<in> dom (Queues s')"
      using pipe_okD(5) [OF ok l] live_slot_static(3) [OF st len lt] q(2) by simp
    fix j assume j: "live_slot s' j" and eq: "pd_SysQueueId (PipeTbl s' ! i) = pd_SysQueueId (PipeTbl s' ! j)"
    then have lt': "j < 64" and l': "live_slot s j" using live_slot_static(1) [OF st len] by (auto simp: live_slot_def)
    show "i = j" using pipe_okD(6) [OF ok l l'] eq live_slot_static(3) [OF st len lt] live_slot_static(3) [OF st len lt'] by simp
  qed (use q pipe_okD(3) [OF ok] in auto)
qed

lemma owned_infoD: "buf_info s' = buf_info s \<Longrightarrow> owned_bufs s' = owned_bufs s"
  unfolding owned_bufs_info by simp


section \<open>What the invariant depends on\<close>

lemma pipe_ok_cong: "PipeTbl s' = PipeTbl s \<Longrightarrow> Queues s' = Queues s \<Longrightarrow> pipe_ok s' = pipe_ok s"
  by (simp add: pipe_ok_def live_slot_def)

lemma last_refs_cong: "PipeTbl s' = PipeTbl s \<Longrightarrow> last_refs s' b = last_refs s b"
  by (simp add: last_refs_def live_slot_def)

lemma refs_parts:
  assumes "PipeTbl s' = PipeTbl s" and "Queues s' = Queues s" and "owned_bufs s' = owned_bufs s"
  shows "refs s' = refs s"
  by (rule ext) (simp add: refs_def own_refs_def last_refs_cong [OF assms(1)] assms(2,3))

lemma sb_inv_cong:
  assumes "Bufs s' = Bufs s" and "InTransitList s' = InTransitList s" and "ZeroCopyList s' = ZeroCopyList s"
    and "SBBuffersInUse (Stat s') = SBBuffersInUse (Stat s)" and "PipeTbl s' = PipeTbl s" and "Queues s' = Queues s"
    and "route_inv s' = route_inv s"
  shows "sb_inv h s' = sb_inv h s"
proof -
  note b = buf_inv_cong [OF assms(1-4)]
  show ?thesis unfolding sb_inv_def assms(6,7) b(1,3) pipe_ok_cong [OF assms(5,6)] refs_parts [OF assms(5,6) b(3)] ..
qed

text \<open>Subscriptions do not touch buffers, pipes and queues.\<close>

lemma sb_inv_route: "sb_inv h s \<Longrightarrow> buf_part s' = buf_part s \<Longrightarrow> route_inv s' \<Longrightarrow> sb_inv h s'"
  using sb_inv_cong [of s' s h] sb_invD(1) [of h s] by (simp add: buf_part_eq)

text \<open>An operation on buffers: what is left to show.\<close>

lemma sb_inv_buf:
  assumes inv: "sb_inv h s" and st: "buf_step s s'" and b: "buf_inv R s'"
    and R: "\<And>b. R b = q_refs (Queues s) b + last_refs s b + own_refs s' b + h' b" and own: "\<And>b. b \<in> owned_bufs s' \<Longrightarrow> R b = 1"
  shows "sb_inv h' s'"
proof -
  note sm = buf_step_simps [OF st]
  have r: "refs s' b + h' b = R b" for b by (simp add: refs_def R sm last_refs_cong [OF sm(1)])
  then have "(\<lambda>b. refs s' b + h' b) = R" by (rule ext)
  then show ?thesis
    using inv b own r unfolding sb_inv_def buf_step_route(1) [OF st] pipe_ok_cong [OF sm(1,2)] sm(2) by simp
qed

lemma sb_inv_own: "sb_inv h s \<Longrightarrow> b \<in> owned_bufs s \<Longrightarrow> q_refs (Queues s) b = 0 \<and> last_refs s b = 0 \<and> h b = 0"
  using sb_invD(5) [of h s b] by (simp add: refs_def own_refs_def)

section \<open>Steps that only count and report\<close>

definition log_step :: "sb_state \<Rightarrow> sb_state \<Rightarrow> bool" where
  "log_step s s' \<longleftrightarrow> (\<exists>hk fl ev. s' = s\<lparr>HK := hk, StopRecurseFlags := fl, sb_events := ev\<rparr>)"

lemma log_step_refl [simp]: "log_step s s"
  unfolding log_step_def by (intro exI [of _ "HK s"] exI [of _ "StopRecurseFlags s"] exI [of _ "sb_events s"]) simp

lemma log_step_trans: "log_step s s1 \<Longrightarrow> log_step s1 s2 \<Longrightarrow> log_step s s2"
  unfolding log_step_def by fastforce

lemma log_step_simps:
  assumes "log_step s s'"
  shows "Bufs s' = Bufs s" "InTransitList s' = InTransitList s" "ZeroCopyList s' = ZeroCopyList s" "Stat s' = Stat s"
    "PipeTbl s' = PipeTbl s" "Queues s' = Queues s" "RoutingTbl s' = RoutingTbl s" "Dests s' = Dests s" "RouteIdxTop s' = RouteIdxTop s"
    "MsgMap s' = MsgMap s" "LastPipeId s' = LastPipeId s" "SubscriptionReporting s' = SubscriptionReporting s"
  using assms by (auto simp: log_step_def)

lemma log_step_route:
  assumes "log_step s s'"
  shows "route_inv s' = route_inv s" and "subscriptions s' m = subscriptions s m" and "CFE_SBR_GetRouteId m s' = CFE_SBR_GetRouteId m s"
    and "subs_of s' r = subs_of s r" and "route_dests s' r = route_dests s r"
proof -
  note st = log_step_simps [OF assms]
  show "route_inv s' = route_inv s" by (rule route_inv_cong) (simp_all add: st)
  show rd: "route_dests s' r = route_dests s r" for r by (rule route_inv_cong(2)) (simp_all add: st)
  then show so: "subs_of s' r = subs_of s r" for r by (simp add: subs_of_def st)
  show rid: "CFE_SBR_GetRouteId m s' = CFE_SBR_GetRouteId m s" by (simp add: CFE_SBR_GetRouteId_def st)
  show "subscriptions s' m = subscriptions s m" by (simp add: subscriptions_def so rid)
qed

lemma log_step_inv: "log_step s s' \<Longrightarrow> sb_inv h s' = sb_inv h s"
  by (rule sb_inv_cong) (simp_all add: log_step_simps log_step_route)

lemma log_step_static: "log_step s s' \<Longrightarrow> static s' = static s"
  by (simp add: static_def log_step_simps)

lemma log_step_upd [simp]:
  "log_step s (upd_HK f s)" "log_step s (sb_event eid ty args s)" "log_step s (s\<lparr>StopRecurseFlags := fl\<rparr>)"
proof -
  have I: "log_step s (s\<lparr>HK := hk, StopRecurseFlags := fl, sb_events := ev\<rparr>)" for hk fl ev by (auto simp: log_step_def)
  show "log_step s (upd_HK f s)" using I [of "sb_events s" "StopRecurseFlags s" "f (HK s)"] by (simp add: upd_HK_def)
  show "log_step s (sb_event eid ty args s)"
    using I [of "sb_events s @ [\<lparr>ev_id = eid, ev_type = ty, ev_args = args\<rparr>]" "StopRecurseFlags s" "HK s"] by (simp add: sb_event_def)
  show "log_step s (s\<lparr>StopRecurseFlags := fl\<rparr>)" using I [of "sb_events s" fl "HK s"] by simp
qed

lemma log_step_event_request:
  "log_step s (snd (CFE_SB_RequestToSendEvent e bitno s))" "log_step s (CFE_SB_FinishSendEvent e bitno s)"
  by (simp_all add: CFE_SB_RequestToSendEvent_def CFE_SB_FinishSendEvent_def split: option.split)

lemma log_step_guarded: "log_step s (guarded_event e bitno eid ty args s)"
proof -
  obtain g s1 where r: "CFE_SB_RequestToSendEvent e bitno s = (g, s1)" by fastforce
  have "log_step s s1" using log_step_event_request(1) [of s e bitno] by (simp add: r)
  moreover have "log_step s1 (CFE_SB_FinishSendEvent e bitno (sb_event eid ty args s1))"
    using log_step_trans [OF log_step_upd(2) log_step_event_request(2)] .
  ultimately show ?thesis by (auto simp: guarded_event_def r intro: log_step_trans)
qed

lemma log_step_name: "log_step s (snd (snd (CFE_SB_GetPipeName e buf p s)))"
  by (simp add: CFE_SB_GetPipeName_def Let_def split: prod.split)

lemma log_step_broadcast_event: "log_step s (broadcast_event e b v s)"
proof -
  define bitno where "bitno = (if evb_EventId v = CFE_SB_MSGID_LIM_ERR_EID then 2 else if evb_EventId v = CFE_SB_Q_FULL_ERR_EID then 3 else (4::nat))"
  obtain g s1 where r: "CFE_SB_RequestToSendEvent e bitno s = (g, s1)" by fastforce
  obtain st nm s2 where n: "CFE_SB_GetPipeName e (Some 20) (evb_PipeId v) s1 = (st, nm, s2)" by (metis prod_cases3)
  have 1: "log_step s s1" using log_step_event_request(1) [of s e bitno] by (simp add: r)
  have 2: "log_step s1 s2" using log_step_name [of s1 e "Some 20" "evb_PipeId v"] by (simp add: n)
  have "log_step s (CFE_SB_FinishSendEvent e bitno (sb_event eid ty args s2))" for eid ty args
    using log_step_trans [OF log_step_trans [OF 1 2] log_step_trans [OF log_step_upd(2) log_step_event_request(2)]] .
  then show ?thesis using 1 by (auto simp: broadcast_event_def Let_def r n bitno_def [symmetric])
qed

lemma log_step_broadcast_events: "log_step s (broadcast_events e b evs s)"
  unfolding broadcast_events_def
proof (induction evs arbitrary: s)
  case (Cons v evs)
  show ?case using log_step_trans [OF log_step_broadcast_event Cons.IH] by simp
qed simp

lemma log_step_validate: "log_step s (validate_event e ev mid sz s)"
  by (simp add: validate_event_def log_step_guarded)


section \<open>Taking, dropping and changing a buffer\<close>

lemma sb_inv_held:
  assumes "sb_inv h s" and "h b \<noteq> 0"
  shows "\<exists>d. Bufs s b = Some d \<and> bd_AppId d = CFE_ES_APPID_UNDEFINED \<and> unat (bd_UseCount d) = refs s b + h b" and "b \<notin> owned_bufs s"
proof -
  show "b \<notin> owned_bufs s" using sb_inv_own [OF assms(1), of b] assms(2) by blast
  moreover obtain d where "Bufs s b = Some d" "unat (bd_UseCount d) = refs s b + h b"
    using buf_inv_Some [OF sb_invD(4) [OF assms(1)], of b] assms(2) by auto
  ultimately show "\<exists>d. Bufs s b = Some d \<and> bd_AppId d = CFE_ES_APPID_UNDEFINED \<and> unat (bd_UseCount d) = refs s b + h b"
    by (auto simp: owned_bufs_def)
qed

lemma refs_zero:
  assumes "sb_inv h s" and "Bufs s b = None"
  shows "refs s b = 0" and "h b = 0" and "b \<notin> owned_bufs s"
  using buf_inv_None [OF sb_invD(4) [OF assms(1)], of b] assms(2) by (auto simp: owned_bufs_def)

lemma DecrBufUseCnt_inv:
  assumes inv: "sb_inv h s" and b: "h b \<noteq> 0"
  shows "\<exists>s'. CFE_SB_DecrBufUseCnt b s = Some s' \<and> sb_inv (h(b := h b - 1)) s' \<and> buf_step s s' \<and> buf_info s' = dropped b (buf_info s)"
proof -
  have nz: "refs s b + h b \<noteq> 0" using b by simp
  obtain s' where s': "CFE_SB_DecrBufUseCnt b s = Some s'" "buf_inv ((\<lambda>b. refs s b + h b)(b := refs s b + h b - 1)) s'" "buf_step s s'"
    "buf_info s' = dropped b (buf_info s)" using DecrBufUseCnt_ok [OF sb_invD(4) [OF inv] nz] by blast
  note nb = sb_inv_held(2) [OF inv b]
  have own: "owned_bufs s' = owned_bufs s"
  proof -
    have "c \<in> owned_bufs s' \<longleftrightarrow> c \<in> owned_bufs s" for c
    proof (cases "c = b")
      case True
      obtain d where "Bufs s b = Some d" "bd_AppId d = 0" using sb_inv_held(1) [OF inv b] by blast
      then show ?thesis using nb True by (auto simp: owned_bufs_info s'(4) dropped_def buf_info_Some split: if_splits)
    qed (simp add: owned_bufs_info s'(4))
    then show ?thesis by blast
  qed
  have "sb_inv (h(b := h b - 1)) s'"
  proof (rule sb_inv_buf [OF inv s'(3,2)])
    fix c
    show "((\<lambda>b. refs s b + h b)(b := refs s b + h b - 1)) c = q_refs (Queues s) c + last_refs s c + own_refs s' c + (h(b := h b - 1)) c"
      using b by (simp add: refs_def own_refs_def own)
    show "((\<lambda>b. refs s b + h b)(b := refs s b + h b - 1)) c = 1" if "c \<in> owned_bufs s'"
      using that nb sb_invD(5) [OF inv, of c] own by auto
  qed
  with s' show ?thesis by blast
qed

lemma IncrBufUseCnt_inv:
  assumes inv: "sb_inv h s" and b: "h b \<noteq> 0" "h b \<le> 1000"
  shows "\<exists>s'. CFE_SB_IncrBufUseCnt b s = Some s' \<and> sb_inv (h(b := h b + 1)) s' \<and> buf_step s s' \<and>
     buf_info s' = (buf_info s)(b := map_option (\<lambda>d. d\<lparr>bd_UseCount := bd_UseCount d + 1\<rparr>) (buf_info s b))"
proof -
  have nz: "refs s b + h b \<noteq> 0" using b by simp
  have lt: "refs s b + h b < 0x7FFF" using refs_bound [OF sb_invD(2,3) [OF inv], of b] b(2) by simp
  obtain s' where s': "CFE_SB_IncrBufUseCnt b s = Some s'" "buf_inv ((\<lambda>b. refs s b + h b)(b := refs s b + h b + 1)) s'" "buf_step s s'"
    "buf_info s' = (buf_info s)(b := map_option (\<lambda>d. d\<lparr>bd_UseCount := bd_UseCount d + 1\<rparr>) (buf_info s b))"
    using IncrBufUseCnt_ok [OF sb_invD(4) [OF inv] nz lt] by blast
  note nb = sb_inv_held(2) [OF inv b(1)]
  have own: "owned_bufs s' = owned_bufs s" unfolding owned_bufs_info s'(4) by auto
  have "sb_inv (h(b := h b + 1)) s'"
  proof (rule sb_inv_buf [OF inv s'(3,2)])
    fix c
    show "((\<lambda>b. refs s b + h b)(b := refs s b + h b + 1)) c = q_refs (Queues s) c + last_refs s c + own_refs s' c + (h(b := h b + 1)) c"
      by (simp add: refs_def own_refs_def own)
    show "((\<lambda>b. refs s b + h b)(b := refs s b + h b + 1)) c = 1" if "c \<in> owned_bufs s'"
      using that nb sb_invD(5) [OF inv, of c] own by auto
  qed
  with s' show ?thesis by blast
qed

text \<open>A buffer is changed in place.\<close>

lemma upd_Buf_inv:
  assumes inv: "sb_inv h s" and b: "Bufs s b = Some d" and f: "keeps_links f"
    and same: "\<And>d. bd_AppId (f d) = bd_AppId d" "\<And>d. bd_UseCount (f d) = bd_UseCount d"
  shows "\<exists>s'. upd_Buf b f s = Some s' \<and> sb_inv h s' \<and> buf_step s s' \<and> buf_info s' = (buf_info s)(b := map_option f (buf_info s b)) \<and>
     Bufs s' b = Some (f d)"
proof -
  let ?R = "\<lambda>b. refs s b + h b"
  have s': "upd_Buf b f s = Some (s\<lparr>Bufs := (Bufs s)(b \<mapsto> f d)\<rparr>)" using b by (simp add: upd_Buf_def)
  let ?s' = "s\<lparr>Bufs := (Bufs s)(b \<mapsto> f d)\<rparr>"
  note bi = sb_invD(4) [OF inv]
  have nz: "?R b \<noteq> 0" using buf_inv_None [OF bi, of b] b by simp
  have n: "unat (bd_UseCount (f d')) = ?R b" if "Bufs s b = Some d'" for d'
    using counts_ok_Some [of ?R s b d'] bi that same by (simp add: buf_inv_def)
  have c: "\<And>d l. bd_UseCount (f (d\<lparr>bd_Link := l\<rparr>)) = bd_UseCount (f d)" by (simp add: same)
  note u = buf_inv_upd [OF bi s' f same(1) n nz c]
  have own: "owned_bufs ?s' = owned_bufs s" by (rule keeps_links_AppId [OF f same(1) s'])
  have "sb_inv h ?s'"
  proof (rule sb_inv_buf [OF inv u(2) u(1)])
    fix c
    show "(?R(b := ?R b)) c = q_refs (Queues s) c + last_refs s c + own_refs ?s' c + h c"
      by (cases "c = b") (simp_all add: refs_def own_refs_def own)
    show "(?R(b := ?R b)) c = 1" if "c \<in> owned_bufs ?s'" using that sb_invD(5) [OF inv, of c] own by (cases "c = b") auto
  qed
  then show ?thesis using s' u(2,3) by simp
qed

section \<open>Buffers of a sender\<close>

lemma GetBufferFromPool_inv:
  assumes inv: "sb_inv h s" and pool: "pool_fresh e" and get: "CFE_SB_GetBufferFromPool e n s = Some (b, s')"
  shows "sb_inv (h(b := 1)) s'" and "Bufs s b = None" and "buf_step s s'" and "buf_info s' = (buf_info s)(b \<mapsto> new_buf e n)"
proof -
  note g = GetBufferFromPool_ok [OF sb_invD(4) [OF inv] pool get]
  show none: "Bufs s b = None" and st: "buf_step s s'" and i: "buf_info s' = (buf_info s)(b \<mapsto> new_buf e n)" by (fact g)+
  note z = refs_zero [OF inv none]
  have own: "owned_bufs s' = owned_bufs s" using z(3) unfolding owned_bufs_info i by (auto simp: new_buf_def)
  show "sb_inv (h(b := 1)) s'"
  proof (rule sb_inv_buf [OF inv st g(2)])
    fix c
    show "((\<lambda>b. refs s b + h b)(b := 1)) c = q_refs (Queues s) c + last_refs s c + own_refs s' c + (h(b := 1)) c"
      using z by (simp add: refs_def own_refs_def own)
    show "((\<lambda>b. refs s b + h b)(b := 1)) c = 1" if "c \<in> owned_bufs s'" using that z(3) sb_invD(5) [OF inv, of c] own by auto
  qed
qed

lemma allocate_locked_inv:
  assumes inv: "sb_inv h s" and pool: "pool_fresh e" and app: "app \<noteq> 0"
  shows "\<exists>bo s'. allocate_locked e app n s = Some (bo, s') \<and> sb_inv h s' \<and> buf_step s s' \<and> (case bo of
     None \<Rightarrow> s' = s
   | Some b \<Rightarrow> Bufs s b = None \<and> buf_info s' = (buf_info s)(b \<mapsto> (new_buf e n)\<lparr>bd_AppId := app\<rparr>))"
proof -
  obtain bo s' where s': "allocate_locked e app n s = Some (bo, s')" "buf_step s s'" "case bo of
     None \<Rightarrow> s' = s
   | Some b \<Rightarrow> Bufs s b = None \<and> buf_inv ((\<lambda>b. refs s b + h b)(b := 1)) s' \<and> buf_info s' = (buf_info s)(b \<mapsto> (new_buf e n)\<lparr>bd_AppId := app\<rparr>)"
    using allocate_locked_ok [OF sb_invD(4) [OF inv] pool app] by blast
  have "sb_inv h s'"
  proof (cases bo)
    case None
    then show ?thesis using s'(3) inv by simp
  next
    case (Some b)
    then have none: "Bufs s b = None" and bi: "buf_inv ((\<lambda>b. refs s b + h b)(b := 1)) s'"
      and i: "buf_info s' = (buf_info s)(b \<mapsto> (new_buf e n)\<lparr>bd_AppId := app\<rparr>)" using s'(3) by simp_all
    note z = refs_zero [OF inv none]
    have own: "owned_bufs s' = insert b (owned_bufs s)" using app unfolding owned_bufs_info i by auto
    show ?thesis
    proof (rule sb_inv_buf [OF inv s'(2) bi])
      fix c
      show "((\<lambda>b. refs s b + h b)(b := 1)) c = q_refs (Queues s) c + last_refs s c + own_refs s' c + h c"
        using z by (auto simp: refs_def own_refs_def own)
      show "((\<lambda>b. refs s b + h b)(b := 1)) c = 1" if "c \<in> owned_bufs s'" using that sb_invD(5) [OF inv, of c] own by auto
    qed
  qed
  then show ?thesis using s' by (auto split: option.splits)
qed

lemma release_locked_inv:
  assumes inv: "sb_inv h s" and b: "b \<in> owned_bufs s"
  shows "\<exists>s'. release_locked b s = Some s' \<and> sb_inv h s' \<and> buf_step s s' \<and> buf_info s' = (buf_info s)(b := None)"
proof -
  obtain s' where s': "release_locked b s = Some s'" "buf_inv ((\<lambda>b. refs s b + h b)(b := 0)) s'" "buf_step s s'" "buf_info s' = (buf_info s)(b := None)"
    using release_locked_ok [OF sb_invD(4) [OF inv], of b] sb_invD(5) [OF inv b] by blast
  have own: "owned_bufs s' = owned_bufs s - {b}" unfolding owned_bufs_info s'(4) by auto
  note z = sb_inv_own [OF inv b]
  have "sb_inv h s'"
  proof (rule sb_inv_buf [OF inv s'(3,2)])
    fix c
    show "((\<lambda>b. refs s b + h b)(b := 0)) c = q_refs (Queues s) c + last_refs s c + own_refs s' c + h c"
      using z by (simp add: refs_def own_refs_def own)
    show "((\<lambda>b. refs s b + h b)(b := 0)) c = 1" if "c \<in> owned_bufs s'" using that sb_invD(5) [OF inv, of c] own by auto
  qed
  with s' show ?thesis by blast
qed

lemma ZeroCopyReleaseAppId_inv:
  assumes inv: "sb_inv h s" and app: "app \<noteq> 0"
  shows "\<exists>s'. CFE_SB_ZeroCopyReleaseAppId app s = Some s' \<and> sb_inv h s' \<and> buf_step s s' \<and> buf_info s' = released UNIV app (buf_info s)"
proof -
  let ?B = "released UNIV app (buf_info s)"
  have "\<forall>b\<in>owned_bufs s. refs s b + h b = 1" using sb_invD(5) [OF inv] by blast
  then obtain s' where s': "CFE_SB_ZeroCopyReleaseAppId app s = Some s'" "buf_step s s'"
    "buf_inv (\<lambda>b. if ?B b = None then 0 else refs s b + h b) s'" "buf_info s' = ?B"
    using ZeroCopyReleaseAppId_ok [OF sb_invD(4) [OF inv] _ app] by blast
  have rel: "?B b = (if \<exists>d. buf_info s b = Some d \<and> bd_AppId d = app then None else buf_info s b)" for b
    by (auto simp: released_def simp del: buf_info_None split: option.split)
  have own: "owned_bufs s' = owned_bufs s - {b. \<exists>d. buf_info s b = Some d \<and> bd_AppId d = app}"
    unfolding owned_bufs_info s'(4) rel by auto
  have "sb_inv h s'"
  proof (rule sb_inv_buf [OF inv s'(2,3)])
    fix c
    have rz: "refs s c + h c = 0" if "buf_info s c = None" using buf_inv_None [OF sb_invD(4) [OF inv], of c] that by simp
    show "(if ?B c = None then 0 else refs s c + h c) = q_refs (Queues s) c + last_refs s c + own_refs s' c + h c"
    proof (cases "\<exists>d. buf_info s c = Some d \<and> bd_AppId d = app")
      case True
      then have "c \<in> owned_bufs s" using app by (auto simp: owned_bufs_info)
      then show ?thesis using sb_inv_own [OF inv, of c] True by (auto simp: rel own own_refs_def simp del: buf_info_None)
    next
      case False
      then have "own_refs s' c = own_refs s c" by (auto simp: own_refs_def own)
      then show ?thesis using False rz by (auto simp: rel refs_def simp del: buf_info_None)
    qed
    show "(if ?B c = None then 0 else refs s c + h c) = 1" if "c \<in> owned_bufs s'"
    proof -
      from that have c: "c \<in> owned_bufs s" "\<not> (\<exists>d. buf_info s c = Some d \<and> bd_AppId d = app)" by (simp_all add: own)
      moreover have "buf_info s c \<noteq> None" using c(1) by (auto simp: owned_bufs_info simp del: buf_info_None)
      ultimately show ?thesis using sb_invD(5) [OF inv c(1)] by (simp add: rel del: buf_info_None)
    qed
  qed
  with s' show ?thesis by blast
qed


section \<open>The broadcast\<close>

lemma q_refs_enqueued:
  assumes f: "finite (dom qs)" and A: "A \<subseteq> dom qs"
  shows "q_refs (\<lambda>q. if q \<in> A then map_option (enqueued b) (qs q) else qs q) c = q_refs qs c + (if c = b then card A else 0)"
proof -
  let ?qs = "\<lambda>q. if q \<in> A then map_option (enqueued b) (qs q) else qs q"
  have d: "dom ?qs = dom qs" using A by (auto split: if_splits)
  have "count_list (q_content ?qs q) c = count_list (q_content qs q) c + (if q \<in> A then (if c = b then 1 else 0) else 0)"
    if "q \<in> dom qs" for q using that by (auto simp: q_content_def enqueued_def)
  then have "q_refs ?qs c = (\<Sum>q\<in>dom qs. count_list (q_content qs q) c + (if q \<in> A then (if c = b then 1 else 0) else 0))"
    unfolding q_refs_def d by (intro sum.cong) auto
  also have "\<dots> = q_refs qs c + (\<Sum>q\<in>dom qs. if q \<in> A then (if c = b then 1 else 0) else 0)" by (simp add: sum.distrib q_refs_def)
  also have "(\<Sum>q\<in>dom qs. if q \<in> A then (if c = b then 1 else 0) else 0) = (if c = b then card A else (0::nat))"
    using A by (simp add: sum.If_cases [OF f] Int_absorb1)
  finally show ?thesis .
qed

lemma queues_ok_enqueued:
  assumes ok: "queues_ok qs" and room: "\<And>q r. q \<in> A \<Longrightarrow> qs q = Some r \<Longrightarrow> length (q_msgs r) < q_depth r"
  shows "queues_ok (\<lambda>q. if q \<in> A then map_option (enqueued b) (qs q) else qs q)"
  using ok room by (auto simp: queues_ok_def enqueued_def) (metis Suc_leI)

lemma accepts_room:
  "accepts e s d \<Longrightarrow> \<exists>r. Queues s (pd_SysQueueId (pipe_of s d)) = Some r \<and> length (q_msgs r) < q_depth r"
  by (auto simp: accepts_def q_room_def split: option.splits)

lemma takers_queues:
  assumes inv: "route_inv s" and pipes: "pipe_ok s"
  shows "queue_at s ` set (takers e s (route_dests s rid)) \<subseteq> dom (Queues s)"
    and "card (queue_at s ` set (takers e s (route_dests s rid))) = length (takers e s (route_dests s rid))"
    and "q \<in> queue_at s ` set (takers e s (route_dests s rid)) \<Longrightarrow> Queues s q = Some r \<Longrightarrow> length (q_msgs r) < q_depth r"
proof -
  let ?as = "route_dests s rid"
  let ?tk = "takers e s ?as"
  have "distinct (map (queue_at s) ?as)"
  proof (cases "rid \<in> route_ids")
    case True
    then show ?thesis by (rule queues_distinct [OF inv pipes])
  qed (simp add: route_dests_invalid)
  then have "distinct ?as" "inj_on (queue_at s) (set ?as)" by (simp_all add: distinct_map)
  then have "distinct ?tk" "inj_on (queue_at s) (set ?tk)" by (auto simp: takers_def intro: inj_on_subset)
  then show "card (queue_at s ` set ?tk) = length ?tk" by (simp add: card_image distinct_card)
  have room: "\<exists>r. Queues s (queue_at s a) = Some r \<and> length (q_msgs r) < q_depth r" if "a \<in> set ?tk" for a
    using that accepts_room [of e s] by (simp add: takers_def queue_at_def)
  then show "queue_at s ` set ?tk \<subseteq> dom (Queues s)" by blast
  show "length (q_msgs r) < q_depth r" if "q \<in> queue_at s ` set ?tk" "Queues s q = Some r" using that room by force
qed

lemma broadcast_locked_inv:
  assumes inv: "sb_inv h s" and b: "Bufs s b = Some d" and hb: "h b \<le> 1000" and own: "h b \<noteq> 0 \<or> b \<in> owned_bufs s"
    and sz: "bd_NeedsUpdate d \<Longrightarrow> sized (bd_Content d)"
  shows "\<exists>s' evs. broadcast_locked e b rid s = Some (s', evs) \<and> broadcasted e b rid d s s' \<and>
     sb_inv (if b \<in> owned_bufs s then h else h(b := h b - 1)) s' \<and> length evs = length (refusers e s (route_dests s rid))"
proof -
  let ?tk = "takers e s (route_dests s rid)"
  let ?R = "\<lambda>b. refs s b + h b"
  let ?h = "if b \<in> owned_bufs s then h else h(b := h b - 1)"
  note D = sb_invD [OF inv]
  have bound: "?R b + 16 \<le> 0x7FFF" using refs_bound [OF D(2,3), of b] hb by simp
  obtain s' evs where s': "broadcast_locked e b rid s = Some (s', evs)" "broadcasted e b rid d s s'"
    "buf_inv (?R(b := ?R b + length ?tk - 1)) s'" "length evs = length (refusers e s (route_dests s rid))"
    using broadcast_locked_ok [OF D(1,2,4) b bound sz] by blast
  note bc = s'(2) [unfolded broadcasted_def Let_def]
  have q: "quiet s s'" and Q: "Queues s' = (\<lambda>q. if q \<in> queue_at s ` set ?tk then map_option (enqueued b) (Queues s q) else Queues s q)"
    and I: "buf_info s' = (buf_info s)(b := if bd_UseCount d + of_nat (length ?tk) = 1 then None
           else Some ((sent_buf e s rid d)\<lparr>bd_AppId := 0, bd_UseCount := bd_UseCount d + of_nat (length ?tk) - 1,
             bd_Link := \<lparr>Next = InTransit, Prev = InTransit\<rparr>\<rparr>))" using bc by simp_all
  have st: "static s' = static s" and dq: "dom (Queues s') = dom (Queues s)" using q by (simp_all add: quiet_def)
  note len = pipe_okD(1) [OF D(2)]
  note tq = takers_queues [OF D(1,2), where e = e and rid = rid]
  have own': "owned_bufs s' = owned_bufs s - {b}" unfolding owned_bufs_info I by auto
  have R: "(?R(b := ?R b + length ?tk - 1)) c = refs s' c + ?h c" for c
  proof -
    have "q_refs (Queues s') c = q_refs (Queues s) c + (if c = b then length ?tk else 0)"
      unfolding Q q_refs_enqueued [OF pipe_okD(3) [OF D(2)] tq(1)] tq(2) ..
    moreover have "b \<in> owned_bufs s \<Longrightarrow> h b = 0" using sb_inv_own [OF inv, of b] by blast
    ultimately show ?thesis
      using own by (auto simp: refs_def own_refs_def own' last_refs_static [OF st len])
  qed
  have "queues_ok (Queues s')" unfolding Q by (intro queues_ok_enqueued pipe_okD(2) [OF D(2)] tq(3))
  then have "pipe_ok s'" using pipe_ok_static [OF st D(2)] dq by blast
  moreover have "route_inv s'" by (rule static_route(1) [OF st len D(1)])
  moreover have "buf_inv (\<lambda>c. refs s' c + ?h c) s'"
  proof -
    have "(\<lambda>c. refs s' c + ?h c) = ?R(b := ?R b + length ?tk - 1)" by (rule ext) (rule R [symmetric])
    then show ?thesis using s'(3) by simp
  qed
  moreover have "refs s' c + ?h c = 1" if "c \<in> owned_bufs s'" for c
    using that D(5) [of c] unfolding R [symmetric] own' by auto
  ultimately have "sb_inv ?h s'" using D(3) dq by (simp add: sb_inv_def)
  with s' show ?thesis by blast
qed

end
