(* ===== verification/Sb_Sect.thy ===== *)
theory Sb_Sect
  imports Sb_Inv
begin

text \<open>
  The locked sections of the pipe calls keep the invariant of the bus: creating, deleting and receiving.
  Each lemma says what the section does to the references that the caller holds.
\<close>

section \<open>A slot of the pipe table, and the queues\<close>

text \<open>A section changes one slot of the pipe table and counters that the invariant does not speak of.\<close>

definition slot_step :: "nat \<Rightarrow> CFE_SB_PipeD \<Rightarrow> sb_state \<Rightarrow> sb_state \<Rightarrow> bool" where
  "slot_step i d' s s' \<longleftrightarrow> (\<exists>l t. s' = s\<lparr>PipeTbl := (PipeTbl s)[i := d'], LastPipeId := l, Stat := t\<rparr> \<and>
     MsgIdsInUse t = MsgIdsInUse (Stat s) \<and> SubscriptionsInUse t = SubscriptionsInUse (Stat s) \<and>
     SBBuffersInUse t = SBBuffersInUse (Stat s))"

lemma slot_step_simps:
  assumes "slot_step i d' s s'"
  shows "PipeTbl s' = (PipeTbl s)[i := d']" "Queues s' = Queues s" "Dests s' = Dests s" "RoutingTbl s' = RoutingTbl s"
    "RouteIdxTop s' = RouteIdxTop s" "MsgMap s' = MsgMap s" "HK s' = HK s" "Bufs s' = Bufs s" "InTransitList s' = InTransitList s"
    "ZeroCopyList s' = ZeroCopyList s" "SubscriptionReporting s' = SubscriptionReporting s" "StopRecurseFlags s' = StopRecurseFlags s"
    "sb_events s' = sb_events s" "MsgIdsInUse (Stat s') = MsgIdsInUse (Stat s)" "SubscriptionsInUse (Stat s') = SubscriptionsInUse (Stat s)"
    "SBBuffersInUse (Stat s') = SBBuffersInUse (Stat s)"
  using assms by (auto simp: slot_step_def)

lemma slot_step_routes:
  assumes "slot_step i d' s s'"
  shows "route_dests s' r = route_dests s r" and "subscriptions s' m = subscriptions s m"
    and "CFE_SBR_GetRouteId m s' = CFE_SBR_GetRouteId m s"
proof -
  note st = slot_step_simps [OF assms]
  show rd: "route_dests s' r = route_dests s r" for r by (simp add: route_dests_def head_cong [OF st(4)] st(3))
  show rid: "CFE_SBR_GetRouteId m s' = CFE_SBR_GetRouteId m s" by (simp add: CFE_SBR_GetRouteId_def st)
  show "subscriptions s' m = subscriptions s m" by (simp add: subscriptions_def rid subs_of_def rd st)
qed

lemma upd_Pipe_slot: "slot_step i (f (PipeTbl s ! i)) s (upd_Pipe i f s)"
  unfolding slot_step_def upd_Pipe_def upd_at_def
  by (intro exI [of _ "LastPipeId s"] exI [of _ "Stat s"]) simp

definition named :: "CFE_SB_PipeD \<Rightarrow> bool" where
  "named d \<longleftrightarrow> pd_PipeId d \<notin> {CFE_SB_INVALID_PIPE, CFE_RESOURCEID_RESERVED}"

definition last_is :: "nat \<Rightarrow> CFE_SB_PipeD \<Rightarrow> nat" where
  "last_is b d = (if named d \<and> pd_LastBuffer d = Some b then 1 else 0)"

lemma live_slot_named: "live_slot s i \<longleftrightarrow> i < 64 \<and> named (PipeTbl s ! i)"
  by (simp add: live_slot_def named_def)

lemma live_pipe_update:
  "i < length pt \<Longrightarrow> live_pipe (pt[i := d']) p \<longleftrightarrow>
     (if CFE_SB_LocatePipeDescByID p = Some i then pd_PipeId d' = p else live_pipe pt p)"
  by (auto simp: live_pipe_def nth_list_update split: option.split)

lemma last_refs_slot:
  assumes s: "slot_step i d' s s'" and i: "i < 64" and len: "length (PipeTbl s) = 64"
  shows "last_refs s' b + last_is b (PipeTbl s ! i) = last_refs s b + last_is b d'"
proof -
  let ?A = "\<lambda>t. {j. live_slot t j \<and> pd_LastBuffer (PipeTbl t ! j) = Some b}"
  have nth: "PipeTbl s' ! j = (if j = i then d' else PipeTbl s ! j)" if "j < 64" for j
    using that i len by (simp add: slot_step_simps(1) [OF s] nth_list_update)
  have off: "?A s' - {i} = ?A s - {i}" using nth by (auto simp: live_slot_named)
  have split: "card (?A t) = card (?A t - {i}) + (if i \<in> ?A t then 1 else 0)" for t
  proof (cases "i \<in> ?A t")
    case True
    then show ?thesis using card.remove [OF live_slots_finite True] by simp
  next
    case False
    then have "?A t - {i} = ?A t" by blast
    with False show ?thesis by simp
  qed
  have "(if i \<in> ?A s' then 1 else 0) = last_is b d'" "(if i \<in> ?A s then 1 else 0) = last_is b (PipeTbl s ! i)"
    using nth [OF i] i by (simp_all add: last_is_def live_slot_named)
  then show ?thesis unfolding last_refs_def using split [of s] split [of s'] off by simp
qed

lemma slot_step_parts:
  assumes R0: "route_inv s" and P0: "pipe_ok s" and s: "slot_step i d' s s'" and i: "i < 64"
    and name: "named d' \<Longrightarrow> CFE_SB_LocatePipeDescByID (pd_PipeId d') = Some i"
    and queue: "named d' \<Longrightarrow> pd_SysQueueId d' \<in> dom (Queues s)"
    and uniq: "\<And>j. named d' \<Longrightarrow> live_slot s j \<Longrightarrow> j \<noteq> i \<Longrightarrow> pd_SysQueueId (PipeTbl s ! j) \<noteq> pd_SysQueueId d'"
    and dests: "\<And>a d. Dests s a = Some d \<Longrightarrow> CFE_SB_LocatePipeDescByID (dst_PipeId d) = Some i \<Longrightarrow> dst_PipeId d = pd_PipeId d'"
  shows "route_inv s'" and "pipe_ok s'"
proof -
  note st = slot_step_simps [OF s]
  note len = pipe_okD(1) [OF P0]
  have nth: "PipeTbl s' ! j = (if j = i then d' else PipeTbl s ! j)" if "j < 64" for j
    using that i len by (simp add: st(1) nth_list_update)
  have live: "live_slot s' j \<longleftrightarrow> (if j = i then named d' else live_slot s j)" for j
    using nth i by (auto simp: live_slot_named)
  show "pipe_ok s'"
    unfolding pipe_ok_def st(2)
  proof (intro conjI allI impI)
    show "length (PipeTbl s') = 64" by (simp add: st(1) len)
    fix j assume j: "live_slot s' j"
    then have lt: "j < 64" by (simp add: live_slot_def)
    show "CFE_SB_LocatePipeDescByID (pd_PipeId (PipeTbl s' ! j)) = Some j" "pd_SysQueueId (PipeTbl s' ! j) \<in> dom (Queues s)"
      using j nth [OF lt] name queue pipe_okD(4,5) [OF P0, of j] by (auto simp: live split: if_splits)
    fix k assume k: "live_slot s' k" and eq: "pd_SysQueueId (PipeTbl s' ! j) = pd_SysQueueId (PipeTbl s' ! k)"
    then have lt': "k < 64" by (simp add: live_slot_def)
    show "j = k"
      using j k eq uniq [of j] uniq [of k] pipe_okD(6) [OF P0, of j k]
      unfolding nth [OF lt] nth [OF lt'] live by (auto split: if_splits)
  qed (use pipe_okD(2,3) [OF P0] in auto)
  note R = route_invD [OF R0]
  have "live_pipe (PipeTbl s') (dst_PipeId d)" if "Dests s a = Some d" for a d
    using dest_inv_live [OF R(2) that] dests [OF that] i len by (simp add: st(1) live_pipe_update)
  then have "dest_inv s'"
    using R(2) unfolding dest_inv_def slot_step_routes(1) [OF s] head_cong [OF st(4)] st(3,5) by simp
  then show "route_inv s'" using R by (simp add: route_inv_def map_inv_def sub_stat_def st)
qed

lemma slot_step_inv:
  assumes inv: "sb_inv h s" and s: "slot_step i d' s s'" and i: "i < 64"
    and name: "named d' \<Longrightarrow> CFE_SB_LocatePipeDescByID (pd_PipeId d') = Some i"
    and queue: "named d' \<Longrightarrow> pd_SysQueueId d' \<in> dom (Queues s)"
    and uniq: "\<And>j. named d' \<Longrightarrow> live_slot s j \<Longrightarrow> j \<noteq> i \<Longrightarrow> pd_SysQueueId (PipeTbl s ! j) \<noteq> pd_SysQueueId d'"
    and dests: "\<And>a d. Dests s a = Some d \<Longrightarrow> CFE_SB_LocatePipeDescByID (dst_PipeId d) = Some i \<Longrightarrow> dst_PipeId d = pd_PipeId d'"
    and h: "\<And>b. h' b + last_is b d' = h b + last_is b (PipeTbl s ! i)"
  shows "sb_inv h' s'"
proof -
  note D = sb_invD [OF inv] and st = slot_step_simps [OF s]
  have r: "refs s' b + h' b = refs s b + h b" for b
    using last_refs_slot [OF s i pipe_okD(1) [OF D(2)], of b] h [of b] buf_inv_cong(3) [OF st(8-10,16)] by (simp add: refs_def st(2) own_refs_def)
  show ?thesis
    using slot_step_parts [OF D(1,2) s i name queue uniq dests] D(3,4,5) buf_inv_cong(1,3) [OF st(8-10,16)] r
    unfolding sb_inv_def by (simp add: st(2))
qed

text \<open>Only the queues change.\<close>

lemma queue_step_inv:
  assumes inv: "sb_inv h s" and q: "queues_ok qs" "finite (dom qs)" "card (dom qs) \<le> 64"
    and live: "\<And>i. live_slot s i \<Longrightarrow> pd_SysQueueId (PipeTbl s ! i) \<in> dom qs"
    and refs: "\<And>b. q_refs qs b + h' b = q_refs (Queues s) b + h b"
  shows "sb_inv h' (s\<lparr>Queues := qs\<rparr>)"
proof -
  let ?s = "s\<lparr>Queues := qs\<rparr>"
  note D = sb_invD [OF inv]
  note b = buf_inv_cong [of ?s s, simplified]
  have "route_inv ?s" using D(1) route_inv_cong(1) [of ?s s] by simp
  moreover have "pipe_ok ?s" using D(2) live q by (simp add: pipe_ok_def live_slot_def)
  moreover have "refs ?s b + h' b = refs s b + h b" for b
    using refs [of b] b(3) by (simp add: refs_def own_refs_def last_refs_cong [of ?s s])
  ultimately show ?thesis using D(4,5) b(1,3) q unfolding sb_inv_def by simp
qed

lemma slot_bound: "sb_inv h s \<Longrightarrow> CFE_SB_LocatePipeDescByID p = Some i \<Longrightarrow> i < 64 \<and> i < length (PipeTbl s)"
  using ToIndex_less pipe_okD(1) sb_invD(2) by fastforce


section \<open>Creating a pipe\<close>

lemma find_next_free: "find_next_loop n ser ty tsize chk = CFE_RESOURCEID_UNDEFINED \<or> \<not> chk (find_next_loop n ser ty tsize chk)"
  by (induction n arbitrary: ser) (auto simp: Let_def)

text \<open>A destination names a slot that has a name.\<close>

lemma dest_slot:
  assumes inv: "route_inv s" and d: "Dests s a = Some d" and l: "CFE_SB_LocatePipeDescByID (dst_PipeId d) = Some i"
  shows "dst_PipeId d = pd_PipeId (PipeTbl s ! i)" and "named (PipeTbl s ! i)"
proof -
  have "live_pipe (PipeTbl s) (dst_PipeId d)" by (rule dest_inv_live [OF route_invD(2) [OF inv] d])
  then show eq: "dst_PipeId d = pd_PipeId (PipeTbl s ! i)" by (simp add: live_pipe_def l)
  have "dst_PipeId d \<noteq> CFE_SB_INVALID_PIPE" "dst_PipeId d \<noteq> CFE_RESOURCEID_RESERVED" using l by (auto simp: Locate_undefined)
  then show "named (PipeTbl s ! i)" by (simp add: named_def eq)
qed

lemma slot_stepI:
  "s' = s\<lparr>PipeTbl := (PipeTbl s)[i := d'], LastPipeId := l, Stat := t\<rparr> \<Longrightarrow> MsgIdsInUse t = MsgIdsInUse (Stat s) \<Longrightarrow>
   SubscriptionsInUse t = SubscriptionsInUse (Stat s) \<Longrightarrow> SBBuffersInUse t = SBBuffersInUse (Stat s) \<Longrightarrow> slot_step i d' s s'"
  unfolding slot_step_def by blast

definition reserved_slot :: CFE_SB_PipeD where
  "reserved_slot = pipe_clear\<lparr>pd_PipeId := CFE_RESOURCEID_RESERVED\<rparr>"

lemma not_named [simp]:
  "\<not> named reserved_slot" "\<not> named (d\<lparr>pd_PipeId := 0\<rparr>)" "\<not> named (d\<lparr>pd_PipeId := CFE_RESOURCEID_RESERVED\<rparr>)"
  "\<not> named d \<Longrightarrow> last_is b d = 0"
  by (simp_all add: named_def reserved_slot_def last_is_def)

lemma create_reserve_ok:
  assumes inv: "sb_inv h s"
  shows "case create_reserve s of
     (None, s') \<Rightarrow> s' = s
   | (Some (i, pid), s') \<Rightarrow> sb_inv h s' \<and> CFE_SB_LocatePipeDescByID pid = Some i \<and> pd_PipeId (PipeTbl s ! i) = CFE_SB_INVALID_PIPE \<and>
       slot_step i reserved_slot s s'"
proof -
  let ?chk = "CFE_SB_CheckPipeDescSlotUsed s"
  define pid where "pid = CFE_ResourceId_FindNext (LastPipeId s) CFE_PLATFORM_SB_MAX_PIPES ?chk"
  show ?thesis
  proof (cases "CFE_SB_LocatePipeDescByID pid")
    case None
    then show ?thesis by (simp add: create_reserve_def pid_def)
  next
    case (Some i)
    have "pid \<noteq> CFE_RESOURCEID_UNDEFINED" using Some Locate_undefined by auto
    then have "\<not> ?chk pid" using find_next_free unfolding pid_def CFE_ResourceId_FindNext_def by blast
    then have free: "pd_PipeId (PipeTbl s ! i) = CFE_SB_INVALID_PIPE"
      by (simp add: CFE_SB_CheckPipeDescSlotUsed_def Some CFE_SB_PipeDescIsUsed_def)
    have i: "i < 64" "i < length (PipeTbl s)" using slot_bound [OF inv Some] by auto
    let ?s' = "(CFE_SB_PipeDescSetUsed i CFE_RESOURCEID_RESERVED (upd_Pipe i (\<lambda>_. pipe_clear) s))\<lparr>LastPipeId := pid\<rparr>"
    have "?s' = s\<lparr>PipeTbl := (PipeTbl s)[i := reserved_slot], LastPipeId := pid, Stat := Stat s\<rparr>"
      using i by (simp add: CFE_SB_PipeDescSetUsed_def upd_Pipe_def upd_at_def reserved_slot_def)
    then have st: "slot_step i reserved_slot s ?s'" unfolding slot_step_def by blast
    have old: "\<not> named (PipeTbl s ! i)" by (simp add: named_def free)
    have "sb_inv h ?s'"
      by (rule slot_step_inv [OF inv st i(1)]) (use old dest_slot [OF sb_invD(1) [OF inv]] in simp_all)
    then show ?thesis using st free Some by (simp add: create_reserve_def Let_def pid_def [symmetric])
  qed
qed

lemma create_commit_ok:
  assumes inv: "sb_inv h s" and l: "CFE_SB_LocatePipeDescByID pid = Some i" and r: "PipeTbl s ! i = reserved_slot"
    and q: "q \<in> dom (Queues s)" "\<And>j. live_slot s j \<Longrightarrow> pd_SysQueueId (PipeTbl s ! j) \<noteq> q"
  shows "sb_inv h (create_commit i pid q depth app s)"
    and "slot_step i (reserved_slot\<lparr>pd_PipeId := pid, pd_SysQueueId := q, pd_MaxQueueDepth := depth, pd_AppId := app\<rparr>) s
      (create_commit i pid q depth app s)"
    and "pid \<notin> {CFE_SB_INVALID_PIPE, CFE_RESOURCEID_RESERVED}"
proof -
  let ?d = "reserved_slot\<lparr>pd_PipeId := pid, pd_SysQueueId := q, pd_MaxQueueDepth := depth, pd_AppId := app\<rparr>"
  let ?s' = "create_commit i pid q depth app s"
  have i: "i < 64" "i < length (PipeTbl s)" using slot_bound [OF inv l] by auto
  have eq: "?s' = s\<lparr>PipeTbl := (PipeTbl s)[i := ?d], LastPipeId := LastPipeId s, Stat := inc_Pipes (Stat s)\<rparr>"
    using i by (simp add: create_commit_def CFE_SB_PipeDescSetUsed_def upd_Pipe_def upd_at_def upd_Stat_def r reserved_slot_def pipe_clear_def)
  show st: "slot_step i ?d s ?s'" by (rule slot_stepI [OF eq]) (simp_all add: inc_Pipes_def Let_def)
  have old: "\<not> named (PipeTbl s ! i)" by (simp add: r)
  have new: "last_is b ?d = 0" for b by (simp add: last_is_def reserved_slot_def pipe_clear_def)
  show "pid \<notin> {CFE_SB_INVALID_PIPE, CFE_RESOURCEID_RESERVED}" using l by (auto simp: Locate_undefined)
  show "sb_inv h ?s'"
    by (rule slot_step_inv [OF inv st i(1)]) (use old new l q dest_slot [OF sb_invD(1) [OF inv]] in auto)
qed

lemma free_slot_ok:
  assumes inv: "sb_inv h s" and i: "i < 64" and r: "pd_PipeId (PipeTbl s ! i) = CFE_RESOURCEID_RESERVED"
  shows "sb_inv h (CFE_SB_PipeDescSetFree i s)"
proof -
  have old: "\<not> named (PipeTbl s ! i)" by (simp add: named_def r)
  show ?thesis
    unfolding CFE_SB_PipeDescSetFree_def
    by (rule slot_step_inv [OF inv upd_Pipe_slot i]) (use old dest_slot [OF sb_invD(1) [OF inv]] in simp_all)
qed

text \<open>The operating system gives a new queue a new id, and has at most 64.\<close>

definition queue_fresh :: "sb_env \<Rightarrow> sb_state \<Rightarrow> bool" where
  "queue_fresh e s \<longleftrightarrow> fst (QueueResult e) = OS_SUCCESS \<longrightarrow>
     snd (QueueResult e) \<noteq> OS_OBJECT_ID_UNDEFINED \<and> snd (QueueResult e) \<notin> dom (Queues s) \<and> card (dom (Queues s)) < 64"

lemma OS_QueueCreate_inv:
  assumes inv: "sb_inv h s" and fr: "queue_fresh e s" and c: "OS_QueueCreate (QueueResult e) trunc depth (Queues s) = (st, q, qs)"
  shows "sb_inv h (s\<lparr>Queues := qs\<rparr>)"
    and "st = OS_SUCCESS \<Longrightarrow> q \<in> dom qs \<and> q \<notin> dom (Queues s) \<and> q_content qs q = []" and "st \<noteq> OS_SUCCESS \<Longrightarrow> qs = Queues s"
    and "p \<noteq> q \<Longrightarrow> qs p = Queues s p" and "dom (Queues s) \<subseteq> dom qs"
proof -
  note P = sb_invD(2) [OF inv]
  let ?r = "\<lparr>q_depth = if trunc > 0 \<and> trunc < depth then trunc else depth, q_msgs = []\<rparr>"
  have eq: "st \<noteq> OS_SUCCESS \<and> qs = Queues s \<or> st = OS_SUCCESS \<and> fst (QueueResult e) = OS_SUCCESS \<and> q = snd (QueueResult e) \<and>
      depth \<le> 50 \<and> qs = (Queues s)(q \<mapsto> ?r)"
    using c by (auto simp: OS_QueueCreate_def split: if_splits)
  then show "st = OS_SUCCESS \<Longrightarrow> q \<in> dom qs \<and> q \<notin> dom (Queues s) \<and> q_content qs q = []" "st \<noteq> OS_SUCCESS \<Longrightarrow> qs = Queues s"
    "p \<noteq> q \<Longrightarrow> qs p = Queues s p" "dom (Queues s) \<subseteq> dom qs"
    using fr by (auto simp: queue_fresh_def q_content_def split: if_splits)
  show "sb_inv h (s\<lparr>Queues := qs\<rparr>)"
  proof (cases "st = OS_SUCCESS")
    case True
    then have new: "q \<noteq> 0" "q \<notin> dom (Queues s)" "card (dom (Queues s)) < 64" and qs: "qs = (Queues s)(q \<mapsto> ?r)" "depth \<le> 50"
      using eq fr by (auto simp: queue_fresh_def)
    note F = pipe_okD(2,3) [OF P]
    show ?thesis
    proof (rule queue_step_inv [OF inv])
      show "queues_ok qs" using F(1) new(1) qs by (auto simp: queues_ok_def)
      show "finite (dom qs)" using F(2) by (simp add: qs)
      show "card (dom qs) \<le> 64" using F(2) new by (simp add: qs(1))
      show "q_refs qs b + h b = q_refs (Queues s) b + h b" for b unfolding qs(1) using q_refs_new [OF F(2) new(2), of ?r b] by simp
      show "pd_SysQueueId (PipeTbl s ! i) \<in> dom qs" if "live_slot s i" for i using pipe_okD(5) [OF P that] by (simp add: qs(1))
    qed
  qed (use eq inv in auto)
qed


section \<open>Deleting a pipe\<close>

text \<open>A reference that passes to the caller.\<close>

definition held_more :: "nat option \<Rightarrow> (nat \<Rightarrow> nat) \<Rightarrow> nat \<Rightarrow> nat" where
  "held_more bo h b = h b + (if bo = Some b then 1 else 0)"

lemma held_more_None [simp]: "held_more None h = h"
  by (rule ext) (simp add: held_more_def)

lemma held_more_Some: "held_more (Some b) h = h(b := h b + 1)"
  by (rule ext) (simp add: held_more_def)

lemma drop_buffer_inv:
  assumes inv: "sb_inv (held_more bo h) s"
  shows "\<exists>s'. drop_buffer bo s = Some s' \<and> sb_inv h s' \<and> buf_step s s' \<and>
     buf_info s' = (case bo of None \<Rightarrow> buf_info s | Some b \<Rightarrow> dropped b (buf_info s))"
proof (cases bo)
  case None
  then show ?thesis using inv by (simp add: drop_buffer_def)
next
  case (Some b)
  have "held_more bo h b \<noteq> 0" by (simp add: Some held_more_def)
  from DecrBufUseCnt_inv [OF inv this] obtain s' where s': "CFE_SB_DecrBufUseCnt b s = Some s'"
    "sb_inv ((held_more bo h)(b := held_more bo h b - 1)) s'" "buf_step s s'" "buf_info s' = dropped b (buf_info s)" by blast
  have "(held_more bo h)(b := held_more bo h b - 1) = h" by (rule ext) (simp add: held_more_def Some)
  then show ?thesis using s' by (simp add: Some drop_buffer_def)
qed

lemma OS_QueueGet_inv:
  assumes inv: "sb_inv h s" and g: "OS_QueueGet err q t (Queues s) = (st, bo, qs)"
  shows "sb_inv (held_more bo h) (s\<lparr>Queues := qs\<rparr>)" and "dom qs = dom (Queues s)" and "p \<noteq> q \<Longrightarrow> qs p = Queues s p"
    and "case bo of Some b \<Rightarrow> st = OS_SUCCESS \<and> q_content (Queues s) q = b # q_content qs q | None \<Rightarrow> st \<noteq> OS_SUCCESS \<and> qs = Queues s"
proof -
  note P = sb_invD(2) [OF inv] and G = OS_QueueGet_content [OF g]
  show d: "dom qs = dom (Queues s)"
    and c: "case bo of Some b \<Rightarrow> st = OS_SUCCESS \<and> q_content (Queues s) q = b # q_content qs q | None \<Rightarrow> st \<noteq> OS_SUCCESS \<and> qs = Queues s"
    by (fact G)+
  show "qs p = Queues s p" if "p \<noteq> q" using g that by (auto simp: OS_QueueGet_def split: option.splits if_splits list.splits)
  show "sb_inv (held_more bo h) (s\<lparr>Queues := qs\<rparr>)"
  proof (cases bo)
    case None
    then show ?thesis using c inv by simp
  next
    case (Some b)
    have "\<exists>r bs. Queues s q = Some r \<and> q_msgs r = b # bs \<and> qs = (Queues s)(q \<mapsto> r\<lparr>q_msgs := bs\<rparr>)"
      using g Some by (auto simp: OS_QueueGet_def split: option.splits if_splits list.splits)
    then obtain r bs where r: "Queues s q = Some r" "q_msgs r = b # bs" "qs = (Queues s)(q \<mapsto> r\<lparr>q_msgs := bs\<rparr>)" by blast
    have qd: "q \<in> dom (Queues s)" using r(1) by blast
    have "q_refs qs c + held_more bo h c = q_refs (Queues s) c + h c" for c
      using q_refs_upd [OF pipe_okD(3) [OF P] qd, of "r\<lparr>q_msgs := bs\<rparr>" c]
      by (auto simp: r q_content_def held_more_def Some)
    then show ?thesis
      by (intro queue_step_inv [OF inv])
        (use d G(4) pipe_okD(2,3,5) [OF P] sb_invD(3) [OF inv] in auto)
  qed
qed

lemma delete_routes_ok:
  assumes inv: "sb_inv h s"
  shows "\<exists>r s'. delete_routes e p app s = Some (r, s') \<and> (case r of
     Inl ev \<Rightarrow> s' = s \<and> (live_pipe (PipeTbl s) p \<longrightarrow> app \<noteq> pd_AppId (PipeTbl s ! the (CFE_SB_LocatePipeDescByID p)) \<and> ev = CFE_SB_DEL_PIPE_ERR2_EID) \<and>
        (\<not> live_pipe (PipeTbl s) p \<longrightarrow> ev = CFE_SB_DEL_PIPE_ERR1_EID)
   | Inr (i, q, lastb) \<Rightarrow> live_pipe (PipeTbl s) p \<and> CFE_SB_LocatePipeDescByID p = Some i \<and> live_slot s i \<and>
       app = pd_AppId (PipeTbl s ! i) \<and> q = pd_SysQueueId (PipeTbl s ! i) \<and> lastb = pd_LastBuffer (PipeTbl s ! i) \<and>
       sb_inv (held_more lastb h) s' \<and> PipeTbl s' = (PipeTbl s)[i := (PipeTbl s ! i)\<lparr>pd_PipeId := CFE_RESOURCEID_RESERVED\<rparr>] \<and>
       Queues s' = Queues s \<and> Bufs s' = Bufs s \<and> HK s' = HK s \<and> PipesInUse (Stat s') = PipesInUse (Stat s) \<and>
       RouteIdxTop s' = RouteIdxTop s \<and> MsgMap s' = MsgMap s \<and> InTransitList s' = InTransitList s \<and> ZeroCopyList s' = ZeroCopyList s \<and>
       (\<forall>m. subscriptions s' m = filter (\<lambda>d. dst_PipeId d \<noteq> p) (subscriptions s m)))"
proof (cases "live_pipe (PipeTbl s) p \<and> app = pd_AppId (PipeTbl s ! the (CFE_SB_LocatePipeDescByID p))")
  case False
  then show ?thesis
    by (auto simp: delete_routes_def live_pipe_def CFE_SB_PipeDescIsMatch_def split: option.splits)
next
  case True
  obtain i where i: "CFE_SB_LocatePipeDescByID p = Some i" "live_slot s i" "pd_PipeId (PipeTbl s ! i) = p"
    using live_pipe_slot True by blast
  have lt: "i < 64" "i < length (PipeTbl s)" using slot_bound [OF inv i(1)] by auto
  obtain s1 where s1: "CFE_SBR_ForEachRouteId (CFE_SB_RemovePipeFromRoute e p) s = Some s1" "route_inv s1" "route_step s s1"
     "\<forall>r. subs_of s1 r = filter (\<lambda>d. dst_PipeId d \<noteq> p) (subs_of s r)"
    using remove_pipe_ok [OF sb_invD(1) [OF inv]] by blast
  note st1 = route_step_simps [OF s1(3)]
  have inv1: "sb_inv h s1" by (rule sb_inv_route [OF inv route_step_buf_part [OF s1(3)] s1(2)])
  let ?d = "(PipeTbl s ! i)\<lparr>pd_PipeId := CFE_RESOURCEID_RESERVED\<rparr>"
  let ?s' = "CFE_SB_PipeDescSetUsed i CFE_RESOURCEID_RESERVED s1"
  have sl: "slot_step i ?d s1 ?s'"
    using upd_Pipe_slot [of i "\<lambda>d. d\<lparr>pd_PipeId := CFE_RESOURCEID_RESERVED\<rparr>" s1] by (simp add: CFE_SB_PipeDescSetUsed_def st1(1))
  note st2 = slot_step_simps [OF sl]
  have gone: "CFE_SB_LocatePipeDescByID (dst_PipeId d) \<noteq> Some i" if d: "Dests s1 a = Some d" for a d
  proof
    assume l: "CFE_SB_LocatePipeDescByID (dst_PipeId d) = Some i"
    from dest_slot(1) [OF s1(2) d l] have dp: "dst_PipeId d = p" by (simp add: st1(1) i(3))
    have "a \<in> (\<Union>r\<in>route_ids. set (route_dests s1 r))" using dest_inv_dom [OF route_invD(2) [OF s1(2)]] d by blast
    then obtain r where "a \<in> set (route_dests s1 r)" by blast
    then have "dest_view d \<in> set (subs_of s1 r)" by (force simp: subs_of_def d)
    then show False using s1(4) dp by (auto simp: dest_view_def)
  qed
  have nm: "named (PipeTbl s1 ! i)" using i(2) by (simp add: st1(1) live_slot_named)
  have "sb_inv (held_more (pd_LastBuffer (PipeTbl s ! i)) h) ?s'"
    by (rule slot_step_inv [OF inv1 sl lt(1)]) (use gone nm in \<open>simp_all add: held_more_def last_is_def st1(1)\<close>)
  moreover have "subscriptions ?s' m = filter (\<lambda>d. dst_PipeId d \<noteq> p) (subscriptions s m)" for m
    using s1(4) slot_step_routes(2) [OF sl, of m] route_step_GetRouteId [OF s1(3), of m] by (simp add: subscriptions_def)
  moreover have "delete_routes e p app s = Some (Inr (i, pd_SysQueueId (PipeTbl s ! i), pd_LastBuffer (PipeTbl s ! i)), ?s')"
    using True i by (simp add: delete_routes_def CFE_SB_PipeDescIsMatch_def s1(1) st1(1) Let_def)
  moreover have "PipesInUse (Stat ?s') = PipesInUse (Stat s)" by (simp add: CFE_SB_PipeDescSetUsed_def upd_Pipe_def st1)
  ultimately show ?thesis using True i by (simp add: st2 st1)
qed

lemma delete_queue_inv:
  assumes inv: "sb_inv h s" and q: "q_content (Queues s) q = []" and no: "\<And>i. live_slot s i \<Longrightarrow> pd_SysQueueId (PipeTbl s ! i) \<noteq> q"
  shows "sb_inv h (delete_queue q s)"
proof -
  note P = sb_invD(2) [OF inv]
  let ?qs = "snd (OS_QueueDelete q (Queues s))"
  have eq: "?qs = (Queues s)(q := None)" by (auto simp: OS_QueueDelete_def)
  show ?thesis
    unfolding delete_queue_def
  proof (rule queue_step_inv [OF inv])
    show "queues_ok ?qs" using pipe_okD(2) [OF P] by (auto simp: eq queues_ok_def)
    show "finite (dom ?qs)" using pipe_okD(3) [OF P] by (simp add: eq)
    show "card (dom ?qs) \<le> 64"
      using card_mono [OF pipe_okD(3) [OF P], of "dom ?qs"] sb_invD(3) [OF inv] by (auto simp: eq)
    show "pd_SysQueueId (PipeTbl s ! i) \<in> dom ?qs" if "live_slot s i" for i
      using pipe_okD(5) [OF P that] no [OF that] by (auto simp: eq)
    show "q_refs ?qs b + h b = q_refs (Queues s) b + h b" for b
      unfolding eq using q_refs_delete [OF pipe_okD(3) [OF P] q] by simp
  qed
qed

text \<open>Buffers may lose references, or go; those that stay are as they were.\<close>

definition thinned :: "(nat \<Rightarrow> CFE_SB_BufferD option) \<Rightarrow> (nat \<Rightarrow> CFE_SB_BufferD option) \<Rightarrow> bool" where
  "thinned B B' \<longleftrightarrow> (\<forall>c d'. B' c = Some d' \<longrightarrow> (\<exists>d n. B c = Some d \<and> d' = d\<lparr>bd_UseCount := n\<rparr>))"

lemma thinned_refl [simp]: "thinned B B"
proof -
  have "d = d\<lparr>bd_UseCount := bd_UseCount d\<rparr>" for d :: CFE_SB_BufferD by simp
  then show ?thesis unfolding thinned_def by blast
qed

lemma thinned_trans: "thinned B B1 \<Longrightarrow> thinned B1 B2 \<Longrightarrow> thinned B B2"
  unfolding thinned_def by fastforce

lemma thinned_same: "thinned B B' \<Longrightarrow> B' c = Some d' \<Longrightarrow> \<exists>d n. B c = Some d \<and> d' = d\<lparr>bd_UseCount := n\<rparr>"
  unfolding thinned_def by blast

lemma thinned_dropped: "thinned B (dropped b B)"
proof -
  have "\<exists>n. d = d\<lparr>bd_UseCount := n\<rparr>" for d :: CFE_SB_BufferD by (rule exI [of _ "bd_UseCount d"]) simp
  then show ?thesis by (auto simp: thinned_def dropped_def split: option.splits if_splits)
qed

lemma thinned_drop_buffer:
  "B' = (case bo of None \<Rightarrow> B | Some b \<Rightarrow> dropped b B) \<Longrightarrow> thinned B B'"
  by (cases bo) (simp_all add: thinned_dropped)

lemma delete_drain_ok:
  assumes "sb_inv (held_more bo h) s" and err: "GetErr e = OS_SUCCESS" and n: "length (q_content (Queues s) q) = n"
  shows "\<exists>s'. delete_drain e q bo s = Some s' \<and> sb_inv h s' \<and> q_content (Queues s') q = [] \<and> (\<forall>p. p \<noteq> q \<longrightarrow> Queues s' p = Queues s p) \<and>
     dom (Queues s') = dom (Queues s) \<and> static s' = static s \<and> PipeTbl s' = PipeTbl s \<and> HK s' = HK s \<and> Dests s' = Dests s \<and>
     thinned (buf_info s) (buf_info s')"
  using assms(1) n
proof (induction n arbitrary: bo s rule: less_induct)
  case (less n)
  obtain s1 where s1: "drop_buffer bo s = Some s1" "sb_inv h s1" "buf_step s s1"
    "buf_info s1 = (case bo of None \<Rightarrow> buf_info s | Some b \<Rightarrow> dropped b (buf_info s))"
    using drop_buffer_inv [OF less.prems(1)] by blast
  note th1 = thinned_drop_buffer [OF s1(4)]
  note st1 = buf_step_simps [OF s1(3)]
  obtain st bo' qs where g: "OS_QueueGet (GetErr e) q OS_CHECK (Queues s1) = (st, bo', qs)" by (metis prod_cases3)
  note G = OS_QueueGet_inv [OF s1(2) g]
  let ?s2 = "s1\<lparr>Queues := qs\<rparr>"
  have i2: "buf_info ?s2 = buf_info s1" by (rule buf_inv_cong(2)) simp_all
  have static2: "static ?s2 = static s" using buf_step_static [OF s1(3)] by (simp add: static_def)
  show ?case
  proof (cases bo')
    case None
    have "q_content (Queues s1) q = []"
      using g None err by (auto simp: OS_QueueGet_def q_content_def split: option.splits list.splits if_splits)
    moreover have st: "st \<noteq> OS_SUCCESS" "qs = Queues s1" using G(4) None by simp_all
    moreover have "delete_drain e q bo s = Some ?s2"
      using st(1) by (simp add: delete_drain.simps [of e q bo s] s1(1) g)
    ultimately show ?thesis using G(1) None static2 st1 i2 th1 by simp
  next
    case (Some b)
    have c: "st = OS_SUCCESS" "q_content (Queues s1) q = b # q_content qs q" using G(4) Some by simp_all
    have "length (q_content qs q) < n" using c(2) less.prems(2) st1(2) by simp
    moreover have "sb_inv (held_more bo' h) ?s2" by (rule G(1))
    ultimately obtain s' where s': "delete_drain e q bo' ?s2 = Some s'" "sb_inv h s'" "q_content (Queues s') q = []"
      "\<forall>p. p \<noteq> q \<longrightarrow> Queues s' p = Queues ?s2 p" "dom (Queues s') = dom (Queues ?s2)" "static s' = static ?s2" "PipeTbl s' = PipeTbl ?s2"
      "HK s' = HK ?s2" "Dests s' = Dests ?s2" "thinned (buf_info ?s2) (buf_info s')"
      using less.IH [of "length (q_content qs q)" bo' ?s2] by auto
    have "delete_drain e q bo s = Some s'"
      using c(1) s'(1) by (simp add: delete_drain.simps [of e q bo s] s1(1) g)
    then show ?thesis using s' G(2,3) static2 st1 thinned_trans [OF th1, of "buf_info s'"] i2 by simp
  qed
qed

lemma delete_commit_inv:
  assumes inv: "sb_inv h s" and i: "i < 64" "pd_PipeId (PipeTbl s ! i) = CFE_RESOURCEID_RESERVED"
  shows "sb_inv h (delete_commit i s)"
proof -
  let ?s1 = "CFE_SB_PipeDescSetFree i s"
  have r: "route_inv (delete_commit i s) = route_inv ?s1"
    by (rule route_inv_cong(1)) (simp_all add: delete_commit_def upd_Stat_def)
  have "sb_inv h (delete_commit i s) = sb_inv h ?s1"
    by (rule sb_inv_cong [OF _ _ _ _ _ _ r]) (simp_all add: delete_commit_def upd_Stat_def)
  then show ?thesis using free_slot_ok [OF inv i] by simp
qed


section \<open>Receiving\<close>

lemma static_inv:
  assumes inv: "sb_inv h s" and st: "static s' = static s" and "Queues s' = Queues s" and "Bufs s' = Bufs s"
    and "InTransitList s' = InTransitList s" and "ZeroCopyList s' = ZeroCopyList s" and "SBBuffersInUse (Stat s') = SBBuffersInUse (Stat s)"
  shows "sb_inv h s'"
proof -
  note D = sb_invD [OF inv] and b = buf_inv_cong [OF assms(4-7)]
  note len = pipe_okD(1) [OF D(2)]
  have "refs s' = refs s"
    by (rule ext) (simp add: refs_def assms(3) last_refs_static [OF st len] own_refs_def b(3))
  moreover have "pipe_ok s'" by (rule pipe_ok_static [OF st D(2)]) (simp_all add: assms(3) pipe_okD(2) [OF D(2)])
  ultimately show ?thesis
    using D(3,4,5) static_route(1) [OF st len D(1)] b(1,3) unfolding sb_inv_def by (simp add: assms(3))
qed

lemma static_subscriptions:
  assumes st: "static s' = static s" and inv: "sb_inv h s"
  shows "map dest_static (subscriptions s' m) = map dest_static (subscriptions s m)"
proof -
  note D = sb_invD [OF inv]
  have rl: "length (RoutingTbl s) = 256" using route_invD(1) [OF D(1)] by (simp add: map_inv_def)
  have "dest_static (dest_view d) = dest_view (dest_static d)" for d by (cases d) (simp add: dest_view_def dest_static_def)
  then have view: "dest_static (dest_view d') = dest_static (dest_view d)" if "dest_static d' = dest_static d" for d d'
    using that by simp
  have "dest_static (dest_view (the (Dests s' a))) = dest_static (dest_view (the (Dests s a)))" for a
    using staticD(1) [OF st, of a] by (cases "Dests s a"; cases "Dests s' a") (auto dest: view)
  then show ?thesis
    unfolding subscriptions_def subs_of_def static_route_dests [OF st rl] static_route(2) [OF st pipe_okD(1) [OF D(2)]] by simp
qed

lemma receive_begin_ok:
  assumes inv: "sb_inv h s"
  shows "\<exists>r s'. receive_begin p s = Some (r, s') \<and> sb_inv h s' \<and> (case r of
     None \<Rightarrow> \<not> live_pipe (PipeTbl s) p \<and> s' = s
   | Some (i, q) \<Rightarrow> live_pipe (PipeTbl s) p \<and> CFE_SB_LocatePipeDescByID p = Some i \<and> live_slot s i \<and> q = pd_SysQueueId (PipeTbl s ! i) \<and>
       PipeTbl s' = (PipeTbl s)[i := (PipeTbl s ! i)\<lparr>pd_LastBuffer := None\<rparr>] \<and> Queues s' = Queues s \<and> Dests s' = Dests s \<and>
       HK s' = HK s \<and> (\<forall>m. subscriptions s' m = subscriptions s m) \<and> sb_events s' = sb_events s \<and>
       (\<forall>m. CFE_SBR_GetRouteId m s' = CFE_SBR_GetRouteId m s) \<and> (\<forall>r. route_dests s' r = route_dests s r) \<and>
       buf_info s' = (case pd_LastBuffer (PipeTbl s ! i) of None \<Rightarrow> buf_info s | Some b \<Rightarrow> dropped b (buf_info s)))"
proof (cases "live_pipe (PipeTbl s) p")
  case False
  then show ?thesis using inv by (auto simp: receive_begin_def Let_def PipeDescIsMatch_live)
next
  case True
  then obtain i where i: "CFE_SB_LocatePipeDescByID p = Some i" "live_slot s i" "pd_PipeId (PipeTbl s ! i) = p"
    using live_pipe_slot by blast
  have lt: "i < 64" "i < length (PipeTbl s)" using slot_bound [OF inv i(1)] by auto
  note D = sb_invD [OF inv]
  let ?last = "pd_LastBuffer (PipeTbl s ! i)"
  have m: "CFE_SB_PipeDescIsMatch s (Some i) p" by (simp add: CFE_SB_PipeDescIsMatch_def i(3))
  show ?thesis
  proof (cases ?last)
    case None
    have "(PipeTbl s)[i := (PipeTbl s ! i)\<lparr>pd_LastBuffer := None\<rparr>] = PipeTbl s"
    proof -
      have "(PipeTbl s ! i)\<lparr>pd_LastBuffer := None\<rparr> = PipeTbl s ! i" using None by (cases "PipeTbl s ! i") simp
      then show ?thesis by (simp only: list_update_id)
    qed
    then show ?thesis using inv i m True None by (simp add: receive_begin_def drop_buffer_def)
  next
    case (Some b)
    let ?R = "\<lambda>b. refs s b + h b"
    let ?d = "(PipeTbl s ! i)\<lparr>pd_LastBuffer := None\<rparr>"
    have lr: "last_refs s b \<noteq> 0"
      unfolding last_refs_def using i(2) Some by (subst card_0_eq) auto
    then have nz: "?R b \<noteq> 0" by (simp add: refs_def)
    have nb: "b \<notin> owned_bufs s" using sb_inv_own [OF inv, of b] lr by blast
    obtain s1 where s1: "CFE_SB_DecrBufUseCnt b s = Some s1" "buf_inv (?R(b := ?R b - 1)) s1" "buf_step s s1" "buf_info s1 = dropped b (buf_info s)"
      using DecrBufUseCnt_ok [OF D(4) nz] by blast
    note st1 = buf_step_simps [OF s1(3)]
    let ?s' = "upd_Pipe i (\<lambda>d. d\<lparr>pd_LastBuffer := None\<rparr>) s1"
    have sl: "slot_step i ?d s1 ?s'" using upd_Pipe_slot [of i "\<lambda>d. d\<lparr>pd_LastBuffer := None\<rparr>" s1] by (simp add: st1)
    note st2 = slot_step_simps [OF sl]
    have bi: "buf_info ?s' = dropped b (buf_info s)" using buf_inv_cong(2) [OF st2(8-10,16)] s1(4) by simp
    have own: "owned_bufs ?s' = owned_bufs s"
    proof -
      have "c \<in> owned_bufs ?s' \<longleftrightarrow> c \<in> owned_bufs s" for c
      proof (cases "c = b")
        case True
        obtain d where "Bufs s b = Some d" using buf_inv_Some [OF D(4) nz] by blast
        then show ?thesis using nb True by (auto simp: owned_bufs_info bi dropped_def buf_info_Some split: if_splits)
      qed (simp add: owned_bufs_info bi)
      then show ?thesis by blast
    qed
    have parts: "route_inv ?s'" "pipe_ok ?s'"
    proof -
      have 1: "route_inv s1" "pipe_ok s1" using D(1,2) buf_step_route(1) [OF s1(3)] pipe_ok_cong [OF st1(1,2)] by simp_all
      have 2: "CFE_SB_LocatePipeDescByID (pd_PipeId ?d) = Some i" by (simp add: i)
      have 3: "pd_SysQueueId ?d \<in> dom (Queues s1)" using pipe_okD(5) [OF D(2) i(2)] by (simp add: st1(2))
      have 4: "pd_SysQueueId (PipeTbl s1 ! j) \<noteq> pd_SysQueueId ?d" if "live_slot s1 j" "j \<noteq> i" for j
      proof -
        have "live_slot s j" using that(1) by (simp add: live_slot_def st1(1))
        then show ?thesis using pipe_okD(6) [OF D(2) _ i(2)] that(2) by (auto simp: st1(1))
      qed
      have 5: "dst_PipeId d = pd_PipeId ?d" if "Dests s1 a = Some d" "CFE_SB_LocatePipeDescByID (dst_PipeId d) = Some i" for a d
        using dest_slot(1) [OF D(1) _ that(2)] that(1) by (simp add: st1(3))
      show "route_inv ?s'" "pipe_ok ?s'" using slot_step_parts [OF 1 sl lt(1) 2 3 4 5] by simp_all
    qed
    have sl0: "slot_step i ?d s (s\<lparr>PipeTbl := (PipeTbl s)[i := ?d]\<rparr>)" by (rule slot_stepI [where l = "LastPipeId s" and t = "Stat s"]) simp_all
    have "last_refs ?s' c = last_refs (s\<lparr>PipeTbl := (PipeTbl s)[i := ?d]\<rparr>) c" for c
      by (rule last_refs_cong) (simp add: st2(1) st1(1))
    then have lr': "last_refs ?s' c + (if c = b then 1 else 0) = last_refs s c" for c
      using last_refs_slot [OF sl0 lt(1) pipe_okD(1) [OF D(2)], of c] i(2) Some by (auto simp: last_is_def live_slot_named named_def)
    have Q: "Queues ?s' = Queues s" by (simp add: st2 st1)
    have R: "(?R(b := ?R b - 1)) c = refs ?s' c + h c" for c
      using lr' [of c] by (auto simp: refs_def Q own_refs_def own)
    have "buf_inv (?R(b := ?R b - 1)) ?s'" using s1(2) buf_inv_cong(1) [OF st2(8-10,16)] by simp
    moreover have "(\<lambda>c. refs ?s' c + h c) = ?R(b := ?R b - 1)" by (rule ext) (rule R [symmetric])
    moreover have "refs ?s' c + h c = 1" if "c \<in> owned_bufs ?s'" for c
      using that D(5) [of c] nb unfolding R [symmetric] own by auto
    ultimately have "sb_inv h ?s'" using parts D(3) unfolding sb_inv_def Q by simp
    moreover have "receive_begin p s = Some (Some (i, pd_SysQueueId (PipeTbl s ! i)), ?s')"
      using i m Some s1(1) by (simp add: receive_begin_def drop_buffer_def)
    moreover have "subscriptions ?s' m = subscriptions s m" "CFE_SBR_GetRouteId m ?s' = CFE_SBR_GetRouteId m s"
       "route_dests ?s' r = route_dests s r" for m r
      using slot_step_routes [OF sl] buf_step_route(3,4) [OF s1(3)] route_inv_cong(2) [of s1 s r] by (simp_all add: st1)
    ultimately show ?thesis using True i by (simp add: st2 st1 bi Some)
  qed
qed


text \<open>The subscription a received message counts against.\<close>

definition counted_dest :: "sb_state \<Rightarrow> u32 \<Rightarrow> u32 \<Rightarrow> nat option" where
  "counted_dest s mid p = find (\<lambda>a. pid_at (Dests s) a = p) (route_dests s (CFE_SBR_GetRouteId mid s))"

definition stored_slot :: "nat \<Rightarrow> CFE_SB_PipeD \<Rightarrow> CFE_SB_PipeD" where
  "stored_slot b d = pipe_shallower (d\<lparr>pd_LastBuffer := Some b\<rparr>)"

lemma counted_dest_alloc:
  assumes inv: "route_inv s" and c: "counted_dest s mid p = Some a"
  shows "\<exists>d. Dests s a = Some d"
proof -
  let ?r = "CFE_SBR_GetRouteId mid s"
  have a: "a \<in> set (route_dests s ?r)" using c by (auto simp: counted_dest_def find_Some_iff)
  then have "?r \<in> route_ids" using route_dests_invalid [of ?r s] by (cases "?r \<in> route_ids") auto
  then show ?thesis using dest_inv_alloc [OF route_invD(2) [OF inv] _ a] by blast
qed

lemma receive_store_ok:
  assumes inv: "sb_inv h s" and b: "Bufs s b = Some d" "h b \<noteq> 0" "h b \<le> 1000" and l: "CFE_SB_LocatePipeDescByID p = Some i"
    and last: "pd_PipeId (PipeTbl s ! i) = p \<Longrightarrow> pd_LastBuffer (PipeTbl s ! i) = None"
  shows "\<exists>s'. receive_store i p b s = Some (live_pipe (PipeTbl s) p, s') \<and> sb_inv (h(b := h b - 1)) s' \<and>
     Queues s' = Queues s \<and> HK s' = HK s \<and> sb_events s' = sb_events s \<and>
     (if live_pipe (PipeTbl s) p
      then buf_info s' = buf_info s \<and> PipeTbl s' = (PipeTbl s)[i := stored_slot b (PipeTbl s ! i)] \<and>
        Dests s' = (case counted_dest s (bd_MsgId d) p of None \<Rightarrow> Dests s | Some a \<Rightarrow> (Dests s)(a := map_option dest_fewer (Dests s a))) \<and>
        RoutingTbl s' = RoutingTbl s \<and> MsgMap s' = MsgMap s
      else buf_step s s' \<and> buf_info s' = dropped b (buf_info s))"
proof (cases "live_pipe (PipeTbl s) p")
  case False
  then have m: "\<not> CFE_SB_PipeDescIsMatch s (Some i) p" by (simp add: live_pipe_def l CFE_SB_PipeDescIsMatch_def)
  obtain s' where s': "CFE_SB_DecrBufUseCnt b s = Some s'" "sb_inv (h(b := h b - 1)) s'" "buf_step s s'" "buf_info s' = dropped b (buf_info s)"
    using DecrBufUseCnt_inv [OF inv b(2)] by blast
  then show ?thesis using False m buf_step_simps [OF s'(3)] by (simp add: receive_store_def)
next
  case True
  then have pid: "pd_PipeId (PipeTbl s ! i) = p" by (simp add: live_pipe_def l)
  have m: "CFE_SB_PipeDescIsMatch s (Some i) p" by (simp add: pid CFE_SB_PipeDescIsMatch_def)
  have i: "i < 64" "i < length (PipeTbl s)" using slot_bound [OF inv l] by auto
  have live: "live_slot s i" using live_pipe_slot [OF True] l by auto
  note D = sb_invD [OF inv]
  obtain s1 where s1: "CFE_SB_IncrBufUseCnt b s = Some s1" "sb_inv (h(b := h b + 1)) s1" "buf_step s s1"
    "buf_info s1 = (buf_info s)(b := map_option (\<lambda>d. d\<lparr>bd_UseCount := bd_UseCount d + 1\<rparr>) (buf_info s b))"
    using IncrBufUseCnt_inv [OF inv b(2,3)] by blast
  note st1 = buf_step_simps [OF s1(3)]
  let ?d = "(PipeTbl s ! i)\<lparr>pd_LastBuffer := Some b\<rparr>"
  let ?s2 = "upd_Pipe i (\<lambda>d. d\<lparr>pd_LastBuffer := Some b\<rparr>) s1"
  have sl: "slot_step i ?d s1 ?s2" using upd_Pipe_slot [of i "\<lambda>d. d\<lparr>pd_LastBuffer := Some b\<rparr>" s1] by (simp add: st1)
  note st2 = slot_step_simps [OF sl]
  have nm: "named (PipeTbl s ! i)" using live by (simp add: live_slot_named)
  have inv2: "sb_inv h ?s2"
  proof (rule slot_step_inv [OF s1(2) sl i(1)])
    show "CFE_SB_LocatePipeDescByID (pd_PipeId ?d) = Some i" by (simp add: pid l)
    show "pd_SysQueueId ?d \<in> dom (Queues s1)" using pipe_okD(5) [OF D(2) live] by (simp add: st1)
    show "pd_SysQueueId (PipeTbl s1 ! j) \<noteq> pd_SysQueueId ?d" if "live_slot s1 j" "j \<noteq> i" for j
      using that pipe_okD(6) [OF D(2) _ live] by (auto simp: live_slot_def st1)
    show "dst_PipeId d = pd_PipeId ?d" if "Dests s1 a = Some d" "CFE_SB_LocatePipeDescByID (dst_PipeId d) = Some i" for a d
      using that dest_slot(1) [OF D(1)] by (auto simp: st1)
    show "h c + last_is c ?d = (h(b := h b + 1)) c + last_is c (PipeTbl s1 ! i)" for c
      using nm last [OF pid] by (auto simp: last_is_def named_def st1)
  qed
  note di = route_invD(2) [OF sb_invD(1) [OF inv2]] and mi = route_invD(1) [OF sb_invD(1) [OF inv2]]
  have rd: "route_dests ?s2 r = route_dests s r" for r using slot_step_routes(1) [OF sl] route_inv_cong(2) [of s1 s r] by (simp add: st1)
  have rid: "CFE_SBR_GetRouteId k ?s2 = CFE_SBR_GetRouteId k s" for k
    using slot_step_routes(3) [OF sl] buf_step_route(4) [OF s1(3)] by simp
  have gp: "CFE_SB_GetDestPtr (CFE_SBR_GetRouteId (bd_MsgId d) ?s2) p ?s2 = Some (counted_dest s (bd_MsgId d) p)"
    using GetDestPtr_ok [OF di, of "CFE_SBR_GetRouteId (bd_MsgId d) ?s2" p] GetRouteId_bound [OF mi, of "bd_MsgId d"]
    unfolding counted_dest_def rd rid by (simp add: st2 st1)
  have b1: "\<exists>d1. Bufs ?s2 b = Some d1 \<and> bd_MsgId d1 = bd_MsgId d"
  proof -
    have "buf_info s1 b = Some (d\<lparr>bd_Link := \<lparr>Next = InTransit, Prev = InTransit\<rparr>, bd_UseCount := bd_UseCount d + 1\<rparr>)"
      by (simp add: s1(4) buf_info_Some [OF b(1)])
    from buf_info_SomeD [OF this] show ?thesis by (auto simp: st2)
  qed
  then obtain d1 where d1: "Bufs ?s2 b = Some d1" "bd_MsgId d1 = bd_MsgId d" by blast
  let ?ds = "case counted_dest s (bd_MsgId d) p of None \<Rightarrow> Dests s | Some a \<Rightarrow> (Dests s)(a := map_option dest_fewer (Dests s a))"
  let ?s3 = "?s2\<lparr>Dests := ?ds\<rparr>"
  have cd: "(case counted_dest s (bd_MsgId d) p of None \<Rightarrow> Some ?s2 | Some a \<Rightarrow> upd_Dest a dest_fewer ?s2) = Some ?s3"
    using counted_dest_alloc [OF D(1), of "bd_MsgId d" p] by (auto simp: upd_Dest_def st2 st1 split: option.split)
  have "static ?s3 = static ?s2"
  proof -
    have "(\<lambda>a. map_option dest_static (?ds a)) = (\<lambda>a. map_option dest_static (Dests s a))"
      by (rule ext) (auto simp: option.map_comp comp_def split: option.split)
    then show ?thesis by (simp add: static_def st2 st1)
  qed
  then have inv3: "sb_inv h ?s3" by (rule static_inv [OF inv2]) simp_all
  let ?s4 = "upd_Pipe i pipe_shallower ?s3"
  have "i < length (PipeTbl ?s3)" using i by (simp add: st2 st1)
  then have "static ?s4 = static ?s3" using quiet_upds(2) [of i ?s3 pipe_shallower] by (simp add: quiet_def)
  then have inv4: "sb_inv h ?s4" by (rule static_inv [OF inv3]) (simp_all add: upd_Pipe_def)
  obtain s' where s': "CFE_SB_DecrBufUseCnt b ?s4 = Some s'" "sb_inv (h(b := h b - 1)) s'" "buf_step ?s4 s'"
    "buf_info s' = dropped b (buf_info ?s4)" using DecrBufUseCnt_inv [OF inv4 b(2)] by blast
  note st' = buf_step_simps [OF s'(3)]
  have run: "receive_store i p b s = Some (True, s')"
    using m s1(1) d1 gp cd s'(1) by (simp add: receive_store_def)
  have i4: "buf_info ?s4 = buf_info s1"
    by (rule buf_inv_cong(2)) (simp_all add: upd_Pipe_def)
  have "unat (bd_UseCount d) \<noteq> 0"
    using counts_ok_Some [of _ s b d] sb_invD(4) [OF inv] b by (auto simp: buf_inv_def)
  then have "bd_UseCount d \<noteq> 0" by auto
  then have "buf_info s' = buf_info s"
    unfolding s'(4) i4 s1(4) by (rule_tac ext) (simp add: dropped_def buf_info_Some [OF b(1)])
  moreover have "PipeTbl s' = (PipeTbl s)[i := stored_slot b (PipeTbl s ! i)]"
    using i by (simp add: st' upd_Pipe_def upd_at_def st1 stored_slot_def)
  moreover have "Dests s' = ?ds" by (simp add: st' upd_Pipe_def)
  ultimately show ?thesis using run s'(2) True by (simp add: st' upd_Pipe_def st1)
qed

end
