(* ===== verification/Sb_Api.thy ===== *)
theory Sb_Api
  imports Sb_Sect
begin

text \<open>
  The calls of the bus as an application sees them: which messages wait in a pipe, which one is in hand, who
  subscribed to what. \<open>bus_ok\<close> is the invariant between calls, when no task holds a reference in the middle
  of one: the use count of every buffer is the number of queue entries, pipes and owners that refer to it.
\<close>

section \<open>What an application sees\<close>

definition bus_ok :: "sb_state \<Rightarrow> bool" where
  "bus_ok s \<longleftrightarrow> sb_inv (\<lambda>_. 0) s"

definition content :: "sb_state \<Rightarrow> nat \<Rightarrow> bytes" where
  "content s b = (case Bufs s b of None \<Rightarrow> [] | Some d \<Rightarrow> bd_Content d)"

definition pipe_queue :: "sb_state \<Rightarrow> u32 \<Rightarrow> u32" where
  "pipe_queue s p = pd_SysQueueId (PipeTbl s ! the (CFE_SB_LocatePipeDescByID p))"

text \<open>The messages that wait in a pipe, and the one its reader has in hand.\<close>

definition mail :: "sb_state \<Rightarrow> u32 \<Rightarrow> bytes list" where
  "mail s p = map (content s) (q_content (Queues s) (pipe_queue s p))"

definition in_hand :: "sb_state \<Rightarrow> u32 \<Rightarrow> bytes option" where
  "in_hand s p = map_option (content s) (pd_LastBuffer (PipeTbl s ! the (CFE_SB_LocatePipeDescByID p)))"

definition is_pipe :: "sb_state \<Rightarrow> u32 \<Rightarrow> bool" where
  "is_pipe s p \<longleftrightarrow> live_pipe (PipeTbl s) p"

text \<open>A pipe takes a message: it subscribed, its limit is not reached, and its queue has room.\<close>

definition takes :: "sb_env \<Rightarrow> sb_state \<Rightarrow> u32 \<Rightarrow> u32 \<Rightarrow> bool" where
  "takes e s mid p \<longleftrightarrow> (\<exists>d\<in>set (subscriptions s mid). dst_PipeId d = p \<and> accepts e s d)"

lemma content_info: "content s b = (case buf_info s b of None \<Rightarrow> [] | Some d \<Rightarrow> bd_Content d)"
  by (auto simp: content_def buf_info_def split: option.split)

lemma content_same: "buf_info s' b = buf_info s b \<Longrightarrow> content s' b = content s b"
  by (simp add: content_info)

lemma content_dropped: "buf_info s' = dropped b (buf_info s) \<Longrightarrow> Bufs s' c \<noteq> None \<Longrightarrow> content s' c = content s c"
proof -
  assume i: "buf_info s' = dropped b (buf_info s)" and n: "Bufs s' c \<noteq> None"
  have "buf_info s' c \<noteq> None" using n by simp
  then show ?thesis by (cases "c = b") (auto simp: content_info i dropped_def simp del: buf_info_None split: option.splits if_splits)
qed

lemma queued_exists:
  assumes inv: "sb_inv h s" and b: "b \<in> set (q_content (Queues s) q)"
  shows "Bufs s b \<noteq> None"
proof -
  have q: "q \<in> dom (Queues s)" using b by (cases "Queues s q") (auto simp: q_content_def)
  have "count_list (q_content (Queues s) q) b \<noteq> 0" using b by (simp add: count_list_0_iff)
  then have "q_refs (Queues s) b \<noteq> 0"
    using q_refs_insert [OF pipe_okD(3) [OF sb_invD(2) [OF inv]] q, of b] by simp
  then show ?thesis using buf_inv_None [OF sb_invD(4) [OF inv], of b] by (simp add: refs_def)
qed

lemma hand_exists:
  assumes inv: "sb_inv h s" and i: "live_slot s i" and b: "pd_LastBuffer (PipeTbl s ! i) = Some b"
  shows "Bufs s b \<noteq> None" and "last_refs s b \<noteq> 0"
proof -
  show "last_refs s b \<noteq> 0" unfolding last_refs_def using i b by (subst card_0_eq) auto
  then show "Bufs s b \<noteq> None" using buf_inv_None [OF sb_invD(4) [OF inv], of b] by (simp add: refs_def)
qed

lemma is_pipe_slot:
  assumes "is_pipe s p"
  shows "\<exists>i. CFE_SB_LocatePipeDescByID p = Some i \<and> live_slot s i \<and> pd_PipeId (PipeTbl s ! i) = p \<and>
     pipe_queue s p = pd_SysQueueId (PipeTbl s ! i)"
  using live_pipe_slot [OF assms [unfolded is_pipe_def]] by (auto simp: pipe_queue_def)

lemma pipe_queue_inj:
  assumes inv: "sb_inv h s" and p: "is_pipe s p" "is_pipe s p'" and q: "pipe_queue s p = pipe_queue s p'"
  shows "p = p'"
proof -
  obtain i where i: "CFE_SB_LocatePipeDescByID p = Some i" "live_slot s i" "pd_PipeId (PipeTbl s ! i) = p" "pipe_queue s p = pd_SysQueueId (PipeTbl s ! i)"
    using is_pipe_slot [OF p(1)] by blast
  obtain j where j: "CFE_SB_LocatePipeDescByID p' = Some j" "live_slot s j" "pd_PipeId (PipeTbl s ! j) = p'" "pipe_queue s p' = pd_SysQueueId (PipeTbl s ! j)"
    using is_pipe_slot [OF p(2)] by blast
  have "i = j" using pipe_okD(6) [OF sb_invD(2) [OF inv] i(2) j(2)] q i(4) j(4) by simp
  then show ?thesis using i(3) j(3) by simp
qed

lemma accepts_view [simp]: "accepts e s (dest_view d) = accepts e s d"
  by (simp add: accepts_def wants_def pipe_of_def)

text \<open>The queues a broadcast reaches are those of the pipes that take the message.\<close>

lemma takes_queue:
  assumes inv: "sb_inv h s" and p: "is_pipe s p"
  shows "pipe_queue s p \<in> queue_at s ` set (takers e s (route_dests s (CFE_SBR_GetRouteId mid s))) \<longleftrightarrow> takes e s mid p"
proof -
  let ?r = "CFE_SBR_GetRouteId mid s"
  note D = sb_invD [OF inv]
  note di = route_invD(2) [OF D(1)]
  have dest: "\<exists>d. Dests s a = Some d \<and> is_pipe s (dst_PipeId d) \<and> queue_at s a = pipe_queue s (dst_PipeId d)"
    if a: "a \<in> set (route_dests s ?r)" for a
  proof -
    have "?r \<in> route_ids" using a route_dests_invalid [of ?r s] by (cases "?r \<in> route_ids") auto
    then obtain d where d: "Dests s a = Some d" using dest_inv_alloc [OF di _ a] by blast
    then show ?thesis using dest_inv_live [OF di d] by (simp add: is_pipe_def queue_at_def pipe_of_def pipe_queue_def)
  qed
  show ?thesis
  proof
    assume "pipe_queue s p \<in> queue_at s ` set (takers e s (route_dests s ?r))"
    then obtain a where a: "a \<in> set (route_dests s ?r)" "accepts e s (the (Dests s a))" "queue_at s a = pipe_queue s p"
      by (auto simp: takers_def)
    obtain d where d: "Dests s a = Some d" "is_pipe s (dst_PipeId d)" "queue_at s a = pipe_queue s (dst_PipeId d)" using dest [OF a(1)] by blast
    have "dst_PipeId d = p" using pipe_queue_inj [OF inv d(2) p] d(3) a(3) by simp
    then have "dest_view d \<in> set (subscriptions s mid)" "dst_PipeId (dest_view d) = p" "accepts e s (dest_view d)"
      using a d(1) by (force simp: subscriptions_def subs_of_def)+
    then show "takes e s mid p" unfolding takes_def by blast
  next
    assume "takes e s mid p"
    then obtain a where a: "a \<in> set (route_dests s ?r)" "dst_PipeId (the (Dests s a)) = p" "accepts e s (the (Dests s a))"
      by (auto simp: takes_def subscriptions_def subs_of_def)
    then have "a \<in> set (takers e s (route_dests s ?r))" "queue_at s a = pipe_queue s p"
      using dest [OF a(1)] by (auto simp: takers_def)
    then show "pipe_queue s p \<in> queue_at s ` set (takers e s (route_dests s ?r))" by (metis image_eqI)
  qed
qed

text \<open>What a step that only logs, or leaves everything but counters, keeps.\<close>

lemma view_log:
  assumes "log_step s s'"
  shows "mail s' p = mail s p" and "in_hand s' p = in_hand s p" and "is_pipe s' p = is_pipe s p" and "takes e s' mid p = takes e s mid p"
    and "bus_ok s' = bus_ok s" and "subscriptions s' mid = subscriptions s mid"
proof -
  note st = log_step_simps [OF assms] and sr = log_step_route [OF assms]
  have c: "content s' = content s" by (rule ext) (simp add: content_def st)
  show "mail s' p = mail s p" "in_hand s' p = in_hand s p" "is_pipe s' p = is_pipe s p"
    by (simp_all add: mail_def in_hand_def is_pipe_def pipe_queue_def c st)
  show "takes e s' mid p = takes e s mid p"
    by (simp add: takes_def sr accepts_def wants_def q_room_def pipe_of_def st)
  show "bus_ok s' = bus_ok s" by (simp add: bus_ok_def log_step_inv [OF assms])
  show "subscriptions s' mid = subscriptions s mid" by (rule sr)
qed


section \<open>Publishing a message\<close>

text \<open>The sequence counter of a message id.\<close>

definition seq_of :: "sb_state \<Rightarrow> u32 \<Rightarrow> u16" where
  "seq_of s mid = CFE_SBR_GetSequenceCounter (CFE_SBR_GetRouteId mid s) s"

text \<open>The abstract effect: one message more at the end of each mailbox that takes it.\<close>

definition published :: "sb_env \<Rightarrow> u32 \<Rightarrow> bool \<Rightarrow> bytes \<Rightarrow> sb_state \<Rightarrow> sb_state \<Rightarrow> bool" where
  "published e mid upd m s s' \<longleftrightarrow>
     (\<forall>p. is_pipe s' p = is_pipe s p) \<and>
     (\<forall>p. is_pipe s p \<longrightarrow> mail s' p = mail s p @ (if takes e s mid p then [m] else []) \<and> in_hand s' p = in_hand s p) \<and>
     (\<forall>k. subscriptions s' k = map (\<lambda>d. if k = mid \<and> accepts e s d then delivered d else d) (subscriptions s k)) \<and>
     (\<forall>k. seq_of s' k = (if k = mid \<and> upd then CFE_MSG_GetNextSequenceCount (seq_of s k) else seq_of s k))"

lemma static_pipe:
  assumes st: "static s' = static s" and inv: "sb_inv h s"
  shows "is_pipe s' p = is_pipe s p" and "is_pipe s p \<Longrightarrow> pipe_queue s' p = pipe_queue s p"
    and "is_pipe s p \<Longrightarrow> pd_LastBuffer (PipeTbl s' ! the (CFE_SB_LocatePipeDescByID p)) = pd_LastBuffer (PipeTbl s ! the (CFE_SB_LocatePipeDescByID p))"
proof -
  note len = pipe_okD(1) [OF sb_invD(2) [OF inv]]
  show "is_pipe s' p = is_pipe s p" by (simp add: is_pipe_def static_live [OF st len])
  assume "is_pipe s p"
  then obtain i where i: "CFE_SB_LocatePipeDescByID p = Some i" "live_slot s i" using is_pipe_slot by blast
  then have "i < 64" by (simp add: live_slot_def)
  from live_slot_static(2,3) [OF st len this]
  show "pipe_queue s' p = pipe_queue s p"
    "pd_LastBuffer (PipeTbl s' ! the (CFE_SB_LocatePipeDescByID p)) = pd_LastBuffer (PipeTbl s ! the (CFE_SB_LocatePipeDescByID p))"
    by (simp_all add: pipe_queue_def i(1))
qed

lemma broadcast_published:
  assumes inv: "sb_inv h s" "sb_inv h' s'" and bc: "broadcasted e b (CFE_SBR_GetRouteId mid s) d s s'"
    and b: "Bufs s b = Some d" "q_refs (Queues s) b = 0" "last_refs s b = 0"
  shows "published e mid (CFE_SB_IsValidMsgId mid \<and> updates_header (CFE_SBR_GetRouteId mid s) d)
     (bd_Content (sent_buf e s (CFE_SBR_GetRouteId mid s) d)) s s'"
proof -
  let ?r = "CFE_SBR_GetRouteId mid s"
  let ?tk = "takers e s (route_dests s ?r)"
  note D = sb_invD [OF inv(1)] and len = pipe_okD(1) [OF sb_invD(2) [OF inv(1)]]
  note B = bc [unfolded broadcasted_def Let_def]
  have st: "static s' = static s" using B by (simp add: quiet_def)
  have Q: "Queues s' = (\<lambda>q. if q \<in> queue_at s ` set ?tk then map_option (enqueued b) (Queues s q) else Queues s q)"
    and De: "Dests s' = (\<lambda>a. if a \<in> set ?tk then map_option delivered (Dests s a) else Dests s a)"
    and I: "buf_info s' = (buf_info s)(b := if bd_UseCount d + of_nat (length ?tk) = 1 then None
           else Some ((sent_buf e s ?r d)\<lparr>bd_AppId := 0, bd_UseCount := bd_UseCount d + of_nat (length ?tk) - 1,
             bd_Link := \<lparr>Next = InTransit, Prev = InTransit\<rparr>\<rparr>))"
    and N: "numbered ?r (updates_header ?r d) s s'" using B by simp_all
  note sp = static_pipe [OF st inv(1)]
  have nb: "b \<notin> set (q_content (Queues s) q)" for q
  proof
    assume m: "b \<in> set (q_content (Queues s) q)"
    then have q: "q \<in> dom (Queues s)" by (cases "Queues s q") (auto simp: q_content_def)
    have "count_list (q_content (Queues s) q) b \<noteq> 0" using m by (simp add: count_list_0_iff)
    with b(2) q_refs_insert [OF pipe_okD(3) [OF D(2)] q, of b] show False by simp
  qed
  have other: "content s' c = content s c" if "c \<noteq> b" for c using that by (intro content_same) (simp add: I)
  have mine: "content s' b = bd_Content (sent_buf e s ?r d)" if "b \<in> set (q_content (Queues s') q)" for q
  proof -
    have "buf_info s' b \<noteq> None" using queued_exists [OF inv(2) that] by simp
    then have "bd_UseCount d + of_nat (length ?tk) \<noteq> 1" by (auto simp: I simp del: buf_info_None)
    then show ?thesis by (simp add: content_info I)
  qed
  have mail: "mail s' p = mail s p @ (if takes e s mid p then [bd_Content (sent_buf e s ?r d)] else [])" if p: "is_pipe s p" for p
  proof -
    obtain i where i: "live_slot s i" "pipe_queue s p = pd_SysQueueId (PipeTbl s ! i)" using is_pipe_slot [OF p] by blast
    obtain q where q: "Queues s (pipe_queue s p) = Some q" using pipe_okD(5) [OF D(2) i(1)] i(2) by auto
    have c: "q_content (Queues s') (pipe_queue s p) = q_content (Queues s) (pipe_queue s p) @ (if takes e s mid p then [b] else [])"
      unfolding takes_queue [OF inv(1) p, symmetric] by (simp add: Q q_content_def q enqueued_def)
    have "map (content s') (q_content (Queues s) (pipe_queue s p)) = map (content s) (q_content (Queues s) (pipe_queue s p))"
      using nb [of "pipe_queue s p"] by (intro map_cong refl other) auto
    moreover have "content s' b = bd_Content (sent_buf e s ?r d)" if "takes e s mid p"
      using that c by (intro mine [of "pipe_queue s p"]) simp
    ultimately show ?thesis unfolding mail_def sp(2) [OF p] c by simp
  qed
  have hand: "in_hand s' p = in_hand s p" if p: "is_pipe s p" for p
  proof -
    obtain i where i: "CFE_SB_LocatePipeDescByID p = Some i" "live_slot s i" using is_pipe_slot [OF p] by blast
    show ?thesis
    proof (cases "pd_LastBuffer (PipeTbl s ! i)")
      case (Some c)
      have "c \<noteq> b" using hand_exists(2) [OF inv(1) i(2) Some] b(3) by auto
      then show ?thesis using sp(3) [OF p] other Some by (simp add: in_hand_def i(1))
    qed (use sp(3) [OF p] in \<open>simp add: in_hand_def i(1)\<close>)
  qed
  have rl: "length (RoutingTbl s) = 256" using route_invD(1) [OF D(1)] by (simp add: map_inv_def)
  have rid: "CFE_SBR_GetRouteId k s' = CFE_SBR_GetRouteId k s" for k by (rule static_route(2) [OF st len])
  have same: "CFE_SBR_GetRouteId k s = ?r \<longleftrightarrow> k = mid" if "CFE_SBR_GetRouteId k s \<in> route_ids \<or> ?r \<in> route_ids" for k
    using GetRouteId_inj [OF route_invD(1) [OF D(1)], of k mid] that by auto
  have subs: "subscriptions s' k = map (\<lambda>d. if k = mid \<and> accepts e s d then delivered d else d) (subscriptions s k)" for k
  proof (cases "CFE_SBR_GetRouteId k s \<in> route_ids")
    case False
    then show ?thesis by (simp add: subscriptions_def rid subs_of_invalid)
  next
    case True
    have dv: "dest_view (delivered d) = delivered (dest_view d)" for d by (simp add: dest_view_def delivered_def)
    have "dest_view (the (Dests s' a)) = (if k = mid \<and> accepts e s (dest_view (the (Dests s a)))
        then delivered (dest_view (the (Dests s a))) else dest_view (the (Dests s a)))"
      if a: "a \<in> set (route_dests s (CFE_SBR_GetRouteId k s))" for a
    proof -
      obtain da where da: "Dests s a = Some da" using dest_inv_alloc [OF route_invD(2) [OF D(1)] True a] by blast
      have "a \<in> set ?tk \<longleftrightarrow> k = mid \<and> accepts e s da"
      proof (cases "k = mid")
        case True
        then show ?thesis using a da by (simp add: takers_def)
      next
        case False
        then have "CFE_SBR_GetRouteId k s \<noteq> ?r" using same True by blast
        then have "a \<notin> set (route_dests s ?r)"
          using dest_inv_disj [OF route_invD(2) [OF D(1)] True _ _ a, of ?r] route_dests_invalid [of ?r s] by (cases "?r \<in> route_ids") auto
        then show ?thesis using False by (simp add: takers_def)
      qed
      then show ?thesis by (simp add: De da dv)
    qed
    then show ?thesis
      unfolding subscriptions_def rid subs_of_def static_route_dests [OF st rl] by simp
  qed
  have "seq_of s' k = (if k = mid \<and> CFE_SB_IsValidMsgId mid \<and> updates_header ?r d then CFE_MSG_GetNextSequenceCount (seq_of s k) else seq_of s k)" for k
  proof -
    have v: "?r \<in> route_ids \<Longrightarrow> CFE_SB_IsValidMsgId mid" by (auto simp: CFE_SBR_GetRouteId_def split: if_splits)
    show ?thesis
    proof (cases "updates_header ?r d")
      case True
      then have "?r \<in> route_ids" by (simp add: updates_header_def)
      then show ?thesis using N same [of k] v True unfolding seq_of_def rid numbered_def next_seq_def by simp
    next
      case False
      then show ?thesis using N unfolding seq_of_def rid numbered_def by simp
    qed
  qed
  with mail hand subs sp(1) show ?thesis by (simp add: published_def)
qed


section \<open>Sending a copy of a message\<close>

lemma validate_ok:
  "\<exists>mid sz rid s1. CFE_SB_TransmitMsgValidate e (Some m) out s = (sb_msg_check m, mid, sz, rid, s1) \<and> log_step s s1 \<and>
     (sb_msg_check m = 0 \<longrightarrow> mid = CFE_MSG_GetMsgId m \<and> sz = CFE_MSG_GetSize m \<and> rid = CFE_SBR_GetRouteId mid s \<and>
        CFE_SB_IsValidMsgId mid \<and> sz \<le> CFE_MISSION_SB_MAX_SB_MSG_SIZE)"
proof -
  obtain mid sz rid where out: "out = (mid, sz, rid)" by (cases out)
  have v: "log_step s (validate_event e ev x y s)" for ev x y by (rule log_step_validate)
  have v2: "log_step s (validate_event e ev x y (upd_HK f s))" for ev x y f
    using log_step_trans [OF log_step_upd(1) log_step_validate] .
  show ?thesis
    using v v2 by (simp add: CFE_SB_TransmitMsgValidate_def out sb_msg_check_def validate_route_def Let_def split: if_splits)
qed

text \<open>The copy that is sent: as large as its header says, with a new header if the caller asked for one.\<close>

definition sent_copy :: "sb_env \<Rightarrow> sb_state \<Rightarrow> bool \<Rightarrow> bytes \<Rightarrow> bytes" where
  "sent_copy e s upd m =
     (if upd then snd (the (CFE_MSG_UpdateHeader (Clock e) m (CFE_MSG_GetNextSequenceCount (seq_of s (CFE_MSG_GetMsgId m))))) else m)"

lemma sized_take: "sized m \<Longrightarrow> 7 \<le> CFE_MSG_GetSize m \<and> CFE_MSG_GetSize (take (CFE_MSG_GetSize m) m) = CFE_MSG_GetSize m \<and>
    CFE_MSG_GetMsgId (take (CFE_MSG_GetSize m) m) = CFE_MSG_GetMsgId m \<and> sized (take (CFE_MSG_GetSize m) m)"
proof -
  assume sz: "sized m"
  have ge: "7 \<le> CFE_MSG_GetSize m" by (simp add: CFE_MSG_GetSize_def)
  then have b: "byte_at (take (CFE_MSG_GetSize m) m) i = byte_at m i" if "i < 6" for i
    using that sz by (simp add: byte_at_def sized_def)
  then have s: "CFE_MSG_GetSize (take (CFE_MSG_GetSize m) m) = CFE_MSG_GetSize m" by (intro GetSize_bytes) simp_all
  moreover have "CFE_MSG_GetMsgId (take (CFE_MSG_GetSize m) m) = CFE_MSG_GetMsgId m" using b by (simp add: CFE_MSG_GetMsgId_def)
  ultimately show ?thesis using ge sz by (simp add: sized_def)
qed

lemma filled_ok:
  assumes inv: "sb_inv h s" and b: "Bufs s b = Some d" and sz: "sz \<le> length m"
  shows "\<exists>s'. transmit_fill b m mid sz upd s = Some s' \<and> sb_inv h s' \<and> buf_step s s' \<and>
     Bufs s' b = Some (d\<lparr>bd_Content := take sz m, bd_MsgId := mid, bd_ContentSize := sz, bd_NeedsUpdate := upd,
       bd_ContentType := CFE_MSG_GetType m\<rparr>) \<and> (\<forall>c. c \<noteq> b \<longrightarrow> buf_info s' c = buf_info s c)"
proof -
  let ?f = "\<lambda>d. d\<lparr>bd_Content := take sz m, bd_MsgId := mid, bd_ContentSize := sz, bd_NeedsUpdate := upd,
       bd_ContentType := CFE_MSG_GetType m\<rparr>"
  have k: "keeps_links ?f" by (rule keeps_linksI) simp_all
  obtain s' where s': "upd_Buf b ?f s = Some s'" "sb_inv h s'" "buf_step s s'" "buf_info s' = (buf_info s)(b := map_option ?f (buf_info s b))"
    "Bufs s' b = Some (?f d)"
    using upd_Buf_inv [OF inv b k] by fastforce
  moreover have "read_bytes m 0 sz = Some (take sz m)" using sz by (simp add: read_bytes_def)
  ultimately show ?thesis by (simp add: transmit_fill_def)
qed

lemma static_log: "log_step s s' \<Longrightarrow> static s' = static s"
  by (simp add: static_def log_step_simps)

theorem TransmitMsg_ok:
  assumes ok: "bus_ok s" and pool: "pool_fresh e" and sz: "sized m"
  shows "\<exists>st s'. CFE_SB_TransmitMsg e (Some m) upd s = Some (st, s') \<and> bus_ok s' \<and> static s' = static s \<and>
     (if sb_msg_check m \<noteq> 0 then st = sb_msg_check m \<and> log_step s s'
      else if CFE_SBR_GetRouteId (CFE_MSG_GetMsgId m) s = 0 then st = 0 \<and> log_step s s'
      else st = CFE_SB_BUF_ALOC_ERR \<and> log_step s s' \<and> (\<exists>t. log_step s t \<and> fst (GetPoolBuf e t (CFE_MSG_GetSize m + BUFFERD_CONTENT_OFFSET e)) < 0) \<or>
        st = 0 \<and> published e (CFE_MSG_GetMsgId m) upd (sent_copy e s upd (take (CFE_MSG_GetSize m) m)) s s')"
proof -
  let ?out = "(CFE_SB_INVALID_MSG_ID, 0, CFE_SBR_INVALID_ROUTE_ID)"
  have inv: "sb_inv (\<lambda>_. 0) s" using ok by (simp add: bus_ok_def)
  obtain mid n rid s1 where v: "CFE_SB_TransmitMsgValidate e (Some m) ?out s = (sb_msg_check m, mid, n, rid, s1)" "log_step s s1"
    "sb_msg_check m = 0 \<longrightarrow> mid = CFE_MSG_GetMsgId m \<and> n = CFE_MSG_GetSize m \<and> rid = CFE_SBR_GetRouteId mid s \<and>
        CFE_SB_IsValidMsgId mid \<and> n \<le> CFE_MISSION_SB_MAX_SB_MSG_SIZE"
    using validate_ok by blast
  have inv1: "sb_inv (\<lambda>_. 0) s1" using inv log_step_inv [OF v(2)] by simp
  have no_alloc: "sb_msg_check m \<noteq> CFE_SB_BUF_ALOC_ERR" by (simp add: sb_msg_check_def)
  have hk: "log_step s (upd_HK f s1)" for f using log_step_trans [OF v(2) log_step_upd(1)] .
  show ?thesis
  proof (cases "sb_msg_check m = 0 \<and> CFE_SBR_IsValidRouteId rid")
    case False
    then have "CFE_SB_TransmitMsg e (Some m) upd s = Some (sb_msg_check m,
        if sb_msg_check m \<noteq> 0 then upd_HK (\<lambda>h. h\<lparr>MsgSendErrorCounter := MsgSendErrorCounter h + 1\<rparr>) s1 else s1)"
      using no_alloc by (auto simp: CFE_SB_TransmitMsg_def v(1) transmit_alloc_def)
    moreover have "sb_msg_check m = 0 \<Longrightarrow> CFE_SBR_GetRouteId (CFE_MSG_GetMsgId m) s = 0"
      using False v(3) GetRouteId_bound [OF route_invD(1) [OF sb_invD(1) [OF inv]], of "CFE_MSG_GetMsgId m"] by auto
    moreover have "bus_ok (upd_HK f s1)" "bus_ok s1" for f using view_log(5) [OF hk] view_log(5) [OF v(2)] ok by blast+
    moreover have "static (upd_HK f s1) = static s" "static s1 = static s" for f using static_log [OF hk] static_log [OF v(2)] by blast+
    ultimately show ?thesis using hk v(2) by (auto split: if_splits)
  next
    case True
    then have c: "sb_msg_check m = 0" and mid: "mid = CFE_MSG_GetMsgId m" and n: "n = CFE_MSG_GetSize m"
      and rid: "rid = CFE_SBR_GetRouteId mid s" "rid \<in> route_ids" "CFE_SB_IsValidMsgId mid" using v(3) by auto
    show ?thesis
    proof (cases "CFE_SB_GetBufferFromPool e n s1")
      case None
      let ?s2 = "upd_HK (\<lambda>h. h\<lparr>MsgSendErrorCounter := MsgSendErrorCounter h + 1\<rparr>) s1"
      let ?s3 = "guarded_event e 1 CFE_SB_GET_BUF_ERR_EID CFE_EVS_EventType_ERROR [uint mid, int n] ?s2"
      have "log_step s ?s3" using log_step_trans [OF hk log_step_guarded] .
      moreover have "CFE_SB_TransmitMsg e (Some m) upd s = Some (CFE_SB_BUF_ALOC_ERR, ?s3)"
        using True None by (simp add: CFE_SB_TransmitMsg_def v(1) transmit_alloc_def)
      moreover have "fst (GetPoolBuf e s1 (n + BUFFERD_CONTENT_OFFSET e)) < 0"
        using None by (auto simp: CFE_SB_GetBufferFromPool_def Let_def split: prod.splits if_splits)
      ultimately show ?thesis using c rid view_log(5) [of s ?s3] static_log [of s ?s3] ok n mid v(2) by auto
    next
      case (Some x)
      then obtain b s2 where get: "CFE_SB_GetBufferFromPool e n s1 = Some (b, s2)" by (cases x) auto
      note g = GetBufferFromPool_inv [OF inv1 pool get]
      have "\<exists>d0. Bufs s2 b = Some d0 \<and> bd_AppId d0 = 0 \<and> bd_UseCount d0 = 1"
        using buf_info_SomeD [of s2 b "new_buf e n"] g(4) by (auto simp: new_buf_def)
      then obtain d0 where d0: "Bufs s2 b = Some d0" "bd_AppId d0 = 0" "bd_UseCount d0 = 1" by blast
      have len: "n \<le> length m" using sz n by (simp add: sized_def)
      let ?d = "d0\<lparr>bd_Content := take n m, bd_MsgId := mid, bd_ContentSize := n, bd_NeedsUpdate := upd, bd_ContentType := CFE_MSG_GetType m\<rparr>"
      obtain s3 where s3: "transmit_fill b m mid n upd s2 = Some s3" "sb_inv ((\<lambda>_. 0)(b := 1)) s3" "buf_step s2 s3" "Bufs s3 b = Some ?d"
        "\<forall>c. c \<noteq> b \<longrightarrow> buf_info s3 c = buf_info s2 c" using filled_ok [OF g(1) d0(1) len] by blast
      have st: "buf_step s1 s3" by (rule buf_step_trans [OF g(3) s3(3)])
      note bs = buf_step_simps [OF st] and l1 = log_step_simps [OF v(2)]
      have fresh: "Bufs s1 b = None" by (rule g(2))
      have z: "q_refs (Queues s1) b = 0" "last_refs s1 b = 0" using refs_zero(1) [OF inv1 fresh] by (simp_all add: refs_def)
      have "sized (bd_Content ?d)" using sized_take [OF sz] by (simp add: n)
      then obtain s4 evs where s4: "broadcast_locked e b rid s3 = Some (s4, evs)" "broadcasted e b rid ?d s3 s4"
         "sb_inv (if b \<in> owned_bufs s3 then (\<lambda>_. 0)(b := 1) else ((\<lambda>_. 0)(b := 1))(b := ((\<lambda>_. 0)(b := 1)) b - 1)) s4"
        using broadcast_locked_inv [OF s3(2,4), of e rid] by auto
      have "b \<notin> owned_bufs s3" using s3(4) d0(2) by (simp add: owned_bufs_def)
      moreover have "((\<lambda>_. 0 :: nat)(b := 1))(b := ((\<lambda>_. 0)(b := 1)) b - 1) = (\<lambda>_. 0)" by (rule ext) simp
      ultimately have inv4: "sb_inv (\<lambda>_. 0) s4" using s4(3) by presburger
      let ?s5 = "broadcast_events e b evs s4"
      have log5: "log_step s4 ?s5" by (rule log_step_broadcast_events)
      have run: "CFE_SB_TransmitMsg e (Some m) upd s = Some (0, ?s5)"
        using True get s3(1) s4(1)
        by (simp add: CFE_SB_TransmitMsg_def v(1) transmit_alloc_def CFE_SB_BroadcastBufferToRoute_def)
      have rid3: "CFE_SBR_GetRouteId k s3 = CFE_SBR_GetRouteId k s" for k
        using buf_step_route(4) [OF st] log_step_route(3) [OF v(2)] by simp
      have up: "updates_header rid ?d = upd" using rid by (simp add: updates_header_def)
      have z3: "q_refs (Queues s3) b = 0" "last_refs s3 b = 0" using z last_refs_cong [OF bs(1)] by (simp_all add: bs)
      have sub3: "subscriptions s3 k = subscriptions s k" for k using buf_step_route(3) [OF st] log_step_route(2) [OF v(2)] by simp
      have seq3: "seq_of s3 k = seq_of s k" for k
        unfolding seq_of_def rid3 by (rule seq_cong) (simp add: bs l1)
      have acc3: "accepts e s3 d = accepts e s d" for d
        by (simp add: accepts_def wants_def q_room_def pipe_of_def bs l1)
      have copy: "bd_Content (sent_buf e s3 rid ?d) = sent_copy e s upd (take n m)"
        using up seq3 [of mid] rid3 [of mid] sized_take [OF sz]
        by (auto simp: sent_buf_def sent_copy_def next_seq_def seq_of_def rid(1) mid n)
      have pub: "published e mid upd (sent_copy e s upd (take n m)) s3 s4"
        using broadcast_published [OF s3(2) inv4, of e b mid ?d] s4(2) s3(4) z3 rid rid3 up copy by simp
      have views: "is_pipe s3 p = is_pipe s p" "is_pipe s p \<Longrightarrow> mail s3 p = mail s p" "is_pipe s p \<Longrightarrow> in_hand s3 p = in_hand s p" for p
      proof -
        show "is_pipe s3 p = is_pipe s p" by (simp add: is_pipe_def bs l1)
        have i: "content s3 c = content s1 c" if "Bufs s1 c \<noteq> None" for c
          using that fresh s3(5) g(4) by (intro content_same) (cases "c = b"; simp)
        have ps: "content s1 = content s" by (rule ext) (simp add: content_def l1)
        assume p: "is_pipe s p"
        then obtain i where sl: "CFE_SB_LocatePipeDescByID p = Some i" "live_slot s1 i"
          using is_pipe_slot [of s p] by (auto simp: live_slot_def l1)
        show "mail s3 p = mail s p"
          using queued_exists [OF inv1] i by (auto simp: mail_def pipe_queue_def bs l1 simp flip: ps)
        show "in_hand s3 p = in_hand s p"
          using hand_exists(1) [OF inv1 sl(2)] i
          by (cases "pd_LastBuffer (PipeTbl s ! i)") (auto simp: in_hand_def bs l1 sl(1) simp flip: ps)
      qed
      have "published e mid upd (sent_copy e s upd (take n m)) s ?s5"
        unfolding published_def
      proof (intro conjI allI impI)
        fix p
        show "is_pipe ?s5 p = is_pipe s p"
          using pub views(1) view_log(3) [OF log5] by (simp add: published_def)
        assume p: "is_pipe s p"
        then show "mail ?s5 p = mail s p @ (if takes e s mid p then [sent_copy e s upd (take n m)] else [])" "in_hand ?s5 p = in_hand s p"
          using pub views view_log(1,2) [OF log5] by (simp_all add: published_def takes_def sub3 acc3)
      next
        fix k
        show "subscriptions ?s5 k = map (\<lambda>d. if k = mid \<and> accepts e s d then delivered d else d) (subscriptions s k)"
          using pub log_step_route(2) [OF log5] by (simp add: published_def sub3 acc3)
        have "seq_of ?s5 k = seq_of s4 k"
          unfolding seq_of_def log_step_route(3) [OF log5] by (rule seq_cong) (simp add: log_step_simps [OF log5])
        then show "seq_of ?s5 k = (if k = mid \<and> upd then CFE_MSG_GetNextSequenceCount (seq_of s k) else seq_of s k)"
          using pub by (simp add: published_def seq3)
      qed
      moreover have "bus_ok ?s5" using inv4 view_log(5) [OF log5] by (simp add: bus_ok_def)
      moreover have "static ?s5 = static s"
        using static_log [OF log5] s4(2) buf_step_static [OF st] static_log [OF v(2)] by (simp add: broadcasted_def quiet_def)
      ultimately show ?thesis using run c rid mid n by auto
    qed
  qed
qed


section \<open>Receiving\<close>

text \<open>One message less in the mailbox of one pipe, and that message in hand.\<close>

definition others_same :: "u32 \<Rightarrow> sb_state \<Rightarrow> sb_state \<Rightarrow> bool" where
  "others_same p s s' \<longleftrightarrow> (\<forall>p'. is_pipe s' p' = is_pipe s p') \<and>
     (\<forall>p'. is_pipe s p' \<and> p' \<noteq> p \<longrightarrow> mail s' p' = mail s p' \<and> in_hand s' p' = in_hand s p')"

definition fewer_waiting :: "u32 \<Rightarrow> u32 \<Rightarrow> CFE_SB_DestinationD list \<Rightarrow> CFE_SB_DestinationD list" where
  "fewer_waiting mid p ds = map (\<lambda>d. if dst_PipeId d = p then dest_fewer d else d) ds"

lemma mail_empty: "mail s p = [] \<longleftrightarrow> q_content (Queues s) (pipe_queue s p) = []"
  by (simp add: mail_def)

lemma log_step_fail: "\<exists>s'. receive_fail st ev args s = (st, None, s') \<and> log_step s s'"
proof -
  have 1: "log_step s (receive_error st ev s)" by (simp add: receive_error_def)
  have "log_step s (sb_event ev CFE_EVS_EventType_ERROR args (receive_error st ev s))" using log_step_trans [OF 1 log_step_upd(2)] .
  with 1 show ?thesis by (cases "ev = 0") (simp_all add: receive_fail_def Let_def)
qed

text \<open>The status of a call that finds nothing.\<close>

definition nothing_status :: "sb_env \<Rightarrow> int \<Rightarrow> int" where
  "nothing_status e t = (if GetErr e \<noteq> OS_SUCCESS \<or> t = CFE_SB_PEND_FOREVER then CFE_SB_PIPE_RD_ERR
     else if t = CFE_SB_POLL then CFE_SB_NO_MESSAGE else CFE_SB_TIME_OUT)"

text \<open>The slot of a pipe changes, its name and its queue do not.\<close>

lemma slot_views:
  assumes P: "PipeTbl s' = (PipeTbl s)[i := d]" and i: "i < length (PipeTbl s)" "CFE_SB_LocatePipeDescByID p = Some i" "pd_PipeId (PipeTbl s ! i) = p"
    and d: "pd_PipeId d = p" "pd_SysQueueId d = pd_SysQueueId (PipeTbl s ! i)"
  shows "is_pipe s' p' = is_pipe s p'" and "pipe_queue s' p' = pipe_queue s p'"
    and "is_pipe s p' \<Longrightarrow> p' \<noteq> p \<Longrightarrow> PipeTbl s' ! the (CFE_SB_LocatePipeDescByID p') = PipeTbl s ! the (CFE_SB_LocatePipeDescByID p')"
    and "PipeTbl s' ! the (CFE_SB_LocatePipeDescByID p) = d"
proof -
  have lp: "live_pipe (PipeTbl s) q \<longleftrightarrow> q = p" if "CFE_SB_LocatePipeDescByID q = Some i" for q
    using that i(3) by (auto simp: live_pipe_def)
  show "is_pipe s' p' = is_pipe s p'"
    using lp d(1) by (auto simp: is_pipe_def P live_pipe_update [OF i(1)])
  show "pipe_queue s' p' = pipe_queue s p'"
    by (cases "the (CFE_SB_LocatePipeDescByID p') = i") (simp_all add: pipe_queue_def P i(1) d(2))
  show "PipeTbl s' ! the (CFE_SB_LocatePipeDescByID p) = d" by (simp add: P i)
  assume p': "is_pipe s p'" "p' \<noteq> p"
  then have "the (CFE_SB_LocatePipeDescByID p') \<noteq> i"
    using i by (auto simp: is_pipe_def live_pipe_def split: option.splits)
  then show "PipeTbl s' ! the (CFE_SB_LocatePipeDescByID p') = PipeTbl s ! the (CFE_SB_LocatePipeDescByID p')" by (simp add: P)
qed

lemma stored_slot_simps [simp]:
  "pd_PipeId (stored_slot b d) = pd_PipeId d" "pd_SysQueueId (stored_slot b d) = pd_SysQueueId d"
  "pd_LastBuffer (stored_slot b d) = Some b" "pd_AppId (stored_slot b d) = pd_AppId d" "pd_Opts (stored_slot b d) = pd_Opts d"
  by (simp_all add: stored_slot_def pipe_shallower_def)

theorem ReceiveBuffer_ok:
  assumes ok: "bus_ok s"
  shows "\<exists>st bo s'. CFE_SB_ReceiveBuffer e ptr p t s = Some (st, bo, s') \<and> bus_ok s' \<and>
     (if \<not> ptr \<or> receive_timeout t = None \<or> \<not> is_pipe s p then st = CFE_SB_BAD_ARGUMENT \<and> bo = None \<and> log_step s s'
      else others_same p s s' \<and>
        (if GetErr e = OS_SUCCESS \<and> mail s p \<noteq> []
         then st = 0 \<and> (\<exists>b. bo = Some b \<and> content s' b = hd (mail s p)) \<and> mail s' p = tl (mail s p) \<and> in_hand s' p = Some (hd (mail s p))
         else st = nothing_status e t \<and> bo = None \<and> mail s' p = mail s p \<and> in_hand s' p = None))"
proof -
  have inv: "sb_inv (\<lambda>_. 0) s" using ok by (simp add: bus_ok_def)
  have okl: "bus_ok s'" if "log_step s s'" for s' using view_log(5) [OF that] ok by simp
  show ?thesis
  proof (cases "ptr \<and> receive_timeout t \<noteq> None")
    case False
    then have run: "CFE_SB_ReceiveBuffer e ptr p t s = Some (receive_fail CFE_SB_BAD_ARGUMENT CFE_SB_RCV_BAD_ARG_EID [uint p, t] s)"
      by (auto simp: CFE_SB_ReceiveBuffer_def)
    obtain s' where "receive_fail CFE_SB_BAD_ARGUMENT CFE_SB_RCV_BAD_ARG_EID [uint p, t] s = (CFE_SB_BAD_ARGUMENT, None, s')" "log_step s s'"
      using log_step_fail by blast
    then show ?thesis using run False okl by auto
  next
    case True
    then obtain sys where sys: "receive_timeout t = Some sys" "ptr" by auto
    obtain r s1 where b: "receive_begin p s = Some (r, s1)" "sb_inv (\<lambda>_. 0) s1" "case r of
       None \<Rightarrow> \<not> live_pipe (PipeTbl s) p \<and> s1 = s
     | Some (i, q) \<Rightarrow> live_pipe (PipeTbl s) p \<and> CFE_SB_LocatePipeDescByID p = Some i \<and> live_slot s i \<and> q = pd_SysQueueId (PipeTbl s ! i) \<and>
         PipeTbl s1 = (PipeTbl s)[i := (PipeTbl s ! i)\<lparr>pd_LastBuffer := None\<rparr>] \<and> Queues s1 = Queues s \<and> Dests s1 = Dests s \<and>
         HK s1 = HK s \<and> (\<forall>m. subscriptions s1 m = subscriptions s m) \<and> sb_events s1 = sb_events s \<and>
         (\<forall>m. CFE_SBR_GetRouteId m s1 = CFE_SBR_GetRouteId m s) \<and> (\<forall>r. route_dests s1 r = route_dests s r) \<and>
         buf_info s1 = (case pd_LastBuffer (PipeTbl s ! i) of None \<Rightarrow> buf_info s | Some b \<Rightarrow> dropped b (buf_info s))"
      using receive_begin_ok [OF inv, of p] by blast
    show ?thesis
    proof (cases r)
      case None
      then have run: "CFE_SB_ReceiveBuffer e ptr p t s = Some (receive_fail CFE_SB_BAD_ARGUMENT CFE_SB_BAD_PIPEID_EID [uint p] s)"
        and np: "\<not> is_pipe s p" using b sys by (simp_all add: CFE_SB_ReceiveBuffer_def is_pipe_def)
      obtain s' where "receive_fail CFE_SB_BAD_ARGUMENT CFE_SB_BAD_PIPEID_EID [uint p] s = (CFE_SB_BAD_ARGUMENT, None, s')" "log_step s s'"
        using log_step_fail by blast
      then show ?thesis using run np okl by auto
    next
      case (Some x)
      then obtain i q where r: "r = Some (i, q)" by (cases x) auto
      note B = b(3) [unfolded r, simplified]
      have isp: "is_pipe s p" using B by (simp add: is_pipe_def)
      have loc: "CFE_SB_LocatePipeDescByID p = Some i" and q: "q = pipe_queue s p" and P1: "PipeTbl s1 = (PipeTbl s)[i := (PipeTbl s ! i)\<lparr>pd_LastBuffer := None\<rparr>]"
        and Q1: "Queues s1 = Queues s" using B by (simp_all add: pipe_queue_def)
      have lt: "i < length (PipeTbl s)" using slot_bound [OF inv loc] by simp
      have pid: "pd_PipeId (PipeTbl s ! i) = p" using B loc by (simp add: live_pipe_def)
      have c1: "content s1 c = content s c" if "Bufs s1 c \<noteq> None" for c
        using B that content_dropped [of s1 _ s c] content_same [of s1 c s] by (cases "pd_LastBuffer (PipeTbl s ! i)") auto
      have queued1: "map (content s1) (q_content (Queues s) q') = map (content s) (q_content (Queues s) q')" for q'
        using queued_exists [OF b(2)] c1 by (intro map_cong refl c1) (auto simp: Q1)
      note v1 = slot_views [OF P1 lt loc pid, simplified, OF pid]
      have same1: "mail s1 p' = mail s p'" for p' by (simp add: mail_def v1(2) Q1 queued1)
      have hand1: "in_hand s1 p' = in_hand s p'" if pp: "is_pipe s p'" "p' \<noteq> p" for p'
      proof -
        obtain j where j: "CFE_SB_LocatePipeDescByID p' = Some j" "live_slot s1 j"
          using is_pipe_slot [of s1 p'] pp(1) v1(1) [of p'] by blast
        have "PipeTbl s1 ! j = PipeTbl s ! j" using v1(3) [OF pp] by (simp add: j(1))
        then show ?thesis using hand_exists(1) [OF b(2) j(2)] c1
          by (cases "pd_LastBuffer (PipeTbl s ! j)") (auto simp: in_hand_def j(1))
      qed
      have hand1p: "in_hand s1 p = None" by (simp add: in_hand_def v1(4))
      obtain st bo qs where g: "OS_QueueGet (GetErr e) q sys (Queues s1) = (st, bo, qs)" by (metis prod_cases3)
      note G = OS_QueueGet_inv [OF b(2) g]
      have qd: "\<exists>rq. Queues s q = Some rq" using pipe_okD(5) [OF sb_invD(2) [OF inv], of i] B by auto
      show ?thesis
      proof (cases bo)
        case None
        then have qs: "qs = Queues s1" and st: "st \<noteq> OS_SUCCESS" using G(4) by simp_all
        have empty: "\<not> (GetErr e = OS_SUCCESS \<and> mail s p \<noteq> [])" and status: "fst (receive_status st) = nothing_status e t"
          using g None qd sys(1)
          by (auto simp: OS_QueueGet_def Q1 mail_empty q_content_def q receive_timeout_def receive_status_def nothing_status_def
              split: list.splits if_splits)
        have run: "CFE_SB_ReceiveBuffer e ptr p t s = Some (receive_fail (fst (receive_status st)) (snd (receive_status st)) [uint p, st] s1)"
          using sys b(1) r g None by (simp add: CFE_SB_ReceiveBuffer_def qs)
        obtain s' where s': "receive_fail (fst (receive_status st)) (snd (receive_status st)) [uint p, st] s1 = (fst (receive_status st), None, s')" "log_step s1 s'"
          using log_step_fail by blast
        note vl = view_log [OF s'(2)]
        have "bus_ok s'" using vl(5) b(2) by (simp add: bus_ok_def)
        then show ?thesis using run s'(1) status empty isp sys
          by (simp add: others_same_def vl v1(1) same1 hand1 hand1p)
      next
        case (Some bf)
        then have st: "st = OS_SUCCESS" and qc: "q_content (Queues s) q = bf # q_content qs q" using G(4) Q1 by simp_all
        have err: "GetErr e = OS_SUCCESS" using g st qd by (auto simp: OS_QueueGet_def Q1 split: if_splits list.splits)
        let ?s2 = "s1\<lparr>Queues := qs\<rparr>"
        let ?h = "held_more (Some bf) (\<lambda>_. 0 :: nat)"
        have inv2: "sb_inv ?h ?s2" using G(1) Some by simp
        have hb: "?h bf = 1" by (simp add: held_more_def)
        have hz: "?h bf \<noteq> 0" "?h bf \<le> 1000" by (simp_all add: hb)
        obtain d where d: "Bufs ?s2 bf = Some d" using sb_inv_held(1) [OF inv2 hz(1)] by blast
        have last: "pd_LastBuffer (PipeTbl ?s2 ! i) = None" using lt by (simp add: P1)
        have live2: "live_pipe (PipeTbl ?s2) p" using isp v1(1) [of p] by (simp add: is_pipe_def)
        obtain s3 where s3: "receive_store i p bf ?s2 = Some (live_pipe (PipeTbl ?s2) p, s3)" "sb_inv (?h(bf := ?h bf - 1)) s3"
           "Queues s3 = Queues ?s2" "if live_pipe (PipeTbl ?s2) p
            then buf_info s3 = buf_info ?s2 \<and> PipeTbl s3 = (PipeTbl ?s2)[i := stored_slot bf (PipeTbl ?s2 ! i)] \<and>
        Dests s3 = (case counted_dest ?s2 (bd_MsgId d) p of None \<Rightarrow> Dests ?s2 | Some a \<Rightarrow> (Dests ?s2)(a := map_option dest_fewer (Dests ?s2 a))) \<and>
        RoutingTbl s3 = RoutingTbl ?s2 \<and> MsgMap s3 = MsgMap ?s2
            else buf_step ?s2 s3 \<and> buf_info s3 = dropped bf (buf_info ?s2)"
          using receive_store_ok [OF inv2 d hz loc last] by blast
        have "?h(bf := ?h bf - 1) = (\<lambda>_. 0)" by (rule ext) (simp add: held_more_def)
        then have ok3: "bus_ok s3" using s3(2) by (simp add: bus_ok_def)
        have i3: "buf_info s3 = buf_info s1" and P3: "PipeTbl s3 = (PipeTbl s1)[i := stored_slot bf (PipeTbl s1 ! i)]"
          using s3(4) live2 buf_inv_cong(2) [of ?s2 s1] by simp_all
        have run: "CFE_SB_ReceiveBuffer e ptr p t s = Some (0, Some bf, s3)"
          using sys b(1) r g Some s3(1) live2 by (simp add: CFE_SB_ReceiveBuffer_def)
        have lt1: "i < length (PipeTbl s1)" and pid1: "pd_PipeId (PipeTbl s1 ! i) = p" using lt pid by (simp_all add: P1)
        note v3 = slot_views [OF P3 lt1 loc pid1, simplified, OF pid1]
        have c3: "content s3 = content s1" by (rule ext) (simp add: content_info i3)
        have other: "mail s3 p' = mail s p'" "in_hand s3 p' = in_hand s p'" if p': "is_pipe s p'" "p' \<noteq> p" for p'
        proof -
          have "pipe_queue s p' \<noteq> q" using pipe_queue_inj [OF inv p'(1) isp] p'(2) q by auto
          then have "q_content qs (pipe_queue s p') = q_content (Queues s) (pipe_queue s p')" using G(3) by (simp add: q_content_def Q1)
          then show "mail s3 p' = mail s p'" by (simp add: mail_def v3(2) v1(2) s3(3) c3 queued1)
          have "is_pipe s1 p'" using p'(1) v1(1) by simp
          then show "in_hand s3 p' = in_hand s p'" using hand1 [OF p'] v3(3) p'(2) by (simp add: in_hand_def c3)
        qed
        have bm: "map (content s1) (q_content (Queues s) q) = mail s p" using queued1 by (simp add: mail_def q)
        have "mail s3 p = tl (mail s p)" "content s3 bf = hd (mail s p)" "mail s p \<noteq> []"
          using bm by (auto simp: mail_def v3(2) v1(2) s3(3) c3 qc q [symmetric] simp flip: bm)
        moreover have "in_hand s3 p = Some (content s3 bf)" by (simp add: in_hand_def v3(4))
        ultimately show ?thesis using run ok3 err isp sys other by (simp add: others_same_def v3(1) v1(1))
      qed
    qed
  qed
qed


section \<open>Deleting pipes\<close>

text \<open>Some pipes are gone with their subscriptions; nothing else an application sees has changed.\<close>

definition without_pipes :: "u32 set \<Rightarrow> sb_state \<Rightarrow> sb_state \<Rightarrow> bool" where
  "without_pipes ps s s' \<longleftrightarrow> (\<forall>p. is_pipe s' p \<longleftrightarrow> is_pipe s p \<and> p \<notin> ps) \<and>
     (\<forall>p. is_pipe s' p \<longrightarrow> mail s' p = mail s p \<and> in_hand s' p = in_hand s p) \<and>
     (\<forall>k. map dest_static (subscriptions s' k) = map dest_static (filter (\<lambda>d. dst_PipeId d \<notin> ps) (subscriptions s k)))"

definition owner :: "sb_state \<Rightarrow> u32 \<Rightarrow> u32" where
  "owner s p = pd_AppId (PipeTbl s ! the (CFE_SB_LocatePipeDescByID p))"

lemma content_thinned: "thinned (buf_info s) (buf_info s') \<Longrightarrow> Bufs s' c \<noteq> None \<Longrightarrow> content s' c = content s c"
proof -
  assume t: "thinned (buf_info s) (buf_info s')" and "Bufs s' c \<noteq> None"
  then obtain d' where d': "buf_info s' c = Some d'" using buf_info_None [of s' c] by (metis not_None_eq)
  from thinned_same [OF t d'] show ?thesis by (auto simp: content_info d')
qed

lemma other_slot:
  assumes P: "PipeTbl s' = (PipeTbl s)[i := d]" and i: "i < length (PipeTbl s)" "CFE_SB_LocatePipeDescByID p = Some i" "is_pipe s p"
    and d: "\<not> named d"
  shows "is_pipe s' p' \<longleftrightarrow> is_pipe s p' \<and> p' \<noteq> p"
    and "is_pipe s' p' \<Longrightarrow> PipeTbl s' ! the (CFE_SB_LocatePipeDescByID p') = PipeTbl s ! the (CFE_SB_LocatePipeDescByID p')"
proof -
  have pid: "pd_PipeId (PipeTbl s ! i) = p" using i(2,3) by (simp add: is_pipe_def live_pipe_def)
  have ne: "CFE_SB_LocatePipeDescByID (pd_PipeId d) = None" using d by (auto simp: named_def)
  have "pd_PipeId d \<noteq> p'" if "CFE_SB_LocatePipeDescByID p' = Some i" for p' using that ne by auto
  then have live: "is_pipe s' p' \<longleftrightarrow> is_pipe s p' \<and> p' \<noteq> p" for p'
    using i(2) pid unfolding is_pipe_def P live_pipe_update [OF i(1)]
    by (cases "CFE_SB_LocatePipeDescByID p' = Some i") (auto simp: live_pipe_def)
  then show "is_pipe s' p' \<longleftrightarrow> is_pipe s p' \<and> p' \<noteq> p" .
  assume "is_pipe s' p'"
  then have "is_pipe s p'" "p' \<noteq> p" using live by simp_all
  then have "the (CFE_SB_LocatePipeDescByID p') \<noteq> i"
    using pid by (auto simp: is_pipe_def live_pipe_def split: option.splits)
  then show "PipeTbl s' ! the (CFE_SB_LocatePipeDescByID p') = PipeTbl s ! the (CFE_SB_LocatePipeDescByID p')" by (simp add: P)
qed

lemma DeletePipeFull_ok:
  assumes ok: "bus_ok s" and err: "GetErr e = OS_SUCCESS"
  shows "\<exists>st s'. CFE_SB_DeletePipeFull e p app s = Some (st, s') \<and> bus_ok s' \<and>
     (if is_pipe s p \<and> owner s p = app
      then st = 0 \<and> without_pipes {p} s s' \<and> thinned (buf_info s) (buf_info s') \<and>
        (\<forall>p'. is_pipe s' p' \<longrightarrow> owner s' p' = owner s p') \<and> pipe_queue s p \<notin> dom (Queues s')
      else st = CFE_SB_BAD_ARGUMENT \<and> log_step s s')"
proof -
  have inv: "sb_inv (\<lambda>_. 0) s" using ok by (simp add: bus_ok_def)
  obtain r s1 where D: "delete_routes e p app s = Some (r, s1)" "case r of
     Inl ev \<Rightarrow> s1 = s \<and> (live_pipe (PipeTbl s) p \<longrightarrow> app \<noteq> pd_AppId (PipeTbl s ! the (CFE_SB_LocatePipeDescByID p)) \<and> ev = CFE_SB_DEL_PIPE_ERR2_EID) \<and>
        (\<not> live_pipe (PipeTbl s) p \<longrightarrow> ev = CFE_SB_DEL_PIPE_ERR1_EID)
   | Inr (i, q, lastb) \<Rightarrow> live_pipe (PipeTbl s) p \<and> CFE_SB_LocatePipeDescByID p = Some i \<and> live_slot s i \<and>
       app = pd_AppId (PipeTbl s ! i) \<and> q = pd_SysQueueId (PipeTbl s ! i) \<and> lastb = pd_LastBuffer (PipeTbl s ! i) \<and>
       sb_inv (held_more lastb (\<lambda>_. 0)) s1 \<and> PipeTbl s1 = (PipeTbl s)[i := (PipeTbl s ! i)\<lparr>pd_PipeId := CFE_RESOURCEID_RESERVED\<rparr>] \<and>
       Queues s1 = Queues s \<and> Bufs s1 = Bufs s \<and> HK s1 = HK s \<and> PipesInUse (Stat s1) = PipesInUse (Stat s) \<and>
       RouteIdxTop s1 = RouteIdxTop s \<and> MsgMap s1 = MsgMap s \<and> InTransitList s1 = InTransitList s \<and> ZeroCopyList s1 = ZeroCopyList s \<and>
       (\<forall>m. subscriptions s1 m = filter (\<lambda>d. dst_PipeId d \<noteq> p) (subscriptions s m))"
    using delete_routes_ok [OF inv, of e p app] by blast
  show ?thesis
  proof (cases r)
    case (Inl ev)
    let ?s' = "sb_event ev CFE_EVS_EventType_ERROR [uint p] (upd_HK (\<lambda>h. h\<lparr>CreatePipeErrorCounter := CreatePipeErrorCounter h + 1\<rparr>) s)"
    have l: "log_step s ?s'" using log_step_trans [OF log_step_upd(1) log_step_upd(2)] .
    then have "bus_ok ?s'" using view_log(5) ok by blast
    moreover have "CFE_SB_DeletePipeFull e p app s = Some (CFE_SB_BAD_ARGUMENT, ?s')"
      using D Inl by (simp add: CFE_SB_DeletePipeFull_def)
    moreover have "\<not> (is_pipe s p \<and> owner s p = app)" using D(2) Inl by (auto simp: is_pipe_def owner_def)
    ultimately show ?thesis using l by auto
  next
    case (Inr x)
    obtain i q lastb where x: "x = (i, q, lastb)" by (cases x)
    note E = D(2) [unfolded Inr x, simplified]
    have loc: "CFE_SB_LocatePipeDescByID p = Some i" and live: "live_slot s i" and isp: "is_pipe s p" and q: "q = pipe_queue s p"
      and ow: "owner s p = app"
      using E by (simp_all add: is_pipe_def pipe_queue_def owner_def)
    have lt: "i < 64" "i < length (PipeTbl s)" using slot_bound [OF inv loc] by auto
    have inv1: "sb_inv (held_more lastb (\<lambda>_. 0)) s1" and P1: "PipeTbl s1 = (PipeTbl s)[i := (PipeTbl s ! i)\<lparr>pd_PipeId := CFE_RESOURCEID_RESERVED\<rparr>]"
      and sub1: "\<And>m. subscriptions s1 m = filter (\<lambda>d. dst_PipeId d \<noteq> p) (subscriptions s m)" and Q1: "Queues s1 = Queues s" using E by blast+
    obtain s2 where s2: "delete_drain e q lastb s1 = Some s2" "sb_inv (\<lambda>_. 0) s2" "q_content (Queues s2) q = []"
       "\<forall>p. p \<noteq> q \<longrightarrow> Queues s2 p = Queues s1 p" "dom (Queues s2) = dom (Queues s1)" "static s2 = static s1" "PipeTbl s2 = PipeTbl s1"
       "Dests s2 = Dests s1" "thinned (buf_info s1) (buf_info s2)"
      using delete_drain_ok [OF inv1 err refl, of q] by blast
    have i1: "buf_info s1 = buf_info s" by (rule ext) (simp add: buf_info_def E)
    have noq: "pd_SysQueueId (PipeTbl s2 ! j) \<noteq> q" if "live_slot s2 j" for j
    proof -
      have "j \<noteq> i" using that lt by (auto simp: live_slot_def s2(7) P1)
      moreover have "live_slot s j" using that calculation by (simp add: live_slot_def s2(7) P1)
      ultimately show ?thesis using pipe_okD(6) [OF sb_invD(2) [OF inv] _ live] E by (auto simp: s2(7) P1)
    qed
    let ?s3 = "delete_queue q s2"
    have inv3: "sb_inv (\<lambda>_. 0) ?s3" by (rule delete_queue_inv [OF s2(2,3) noq])
    have P3: "PipeTbl ?s3 = PipeTbl s1" and Q3: "Queues ?s3 = (Queues s2)(q := None)"
      by (auto simp: delete_queue_def s2(7) OS_QueueDelete_def)
    have res: "pd_PipeId (PipeTbl ?s3 ! i) = CFE_RESOURCEID_RESERVED" using lt by (simp add: P3 P1)
    let ?s4 = "delete_commit i ?s3"
    have inv4: "sb_inv (\<lambda>_. 0) ?s4" by (rule delete_commit_inv [OF inv3 lt(1) res])
    let ?s5 = "sb_event CFE_SB_PIPE_DELETED_EID CFE_EVS_EventType_DEBUG [uint p] ?s4"
    have log: "log_step ?s4 ?s5" by simp
    have run: "CFE_SB_DeletePipeFull e p app s = Some (0, ?s5)"
      using D(1) s2(1) by (simp add: CFE_SB_DeletePipeFull_def Inr x)
    have P4: "PipeTbl ?s5 = (PipeTbl s)[i := (PipeTbl s ! i)\<lparr>pd_PipeId := CFE_SB_INVALID_PIPE\<rparr>]"
      using lt by (simp add: sb_event_def delete_commit_def CFE_SB_PipeDescSetFree_def upd_Stat_def upd_Pipe_def upd_at_def P3 P1)
    note os = other_slot [OF P4 lt(2) loc isp not_named(2)]
    have Q4: "Queues ?s5 = (Queues s2)(q := None)"
      by (simp add: sb_event_def delete_commit_def CFE_SB_PipeDescSetFree_def upd_Stat_def upd_Pipe_def Q3)
    have "buf_info ?s5 = buf_info s2"
      by (rule ext) (simp add: buf_info_def sb_event_def delete_commit_def CFE_SB_PipeDescSetFree_def upd_Stat_def upd_Pipe_def delete_queue_def)
    then have th: "thinned (buf_info s) (buf_info ?s5)" using s2(9) i1 by simp
    have ok5: "bus_ok ?s5" using inv4 view_log(5) [OF log] by (simp add: bus_ok_def)
    have inv5: "sb_inv (\<lambda>_. 0) ?s5" using ok5 by (simp add: bus_ok_def)
    have views: "mail ?s5 p' = mail s p'" "in_hand ?s5 p' = in_hand s p'" "owner ?s5 p' = owner s p'" if p': "is_pipe ?s5 p'" for p'
    proof -
      have sl: "PipeTbl ?s5 ! the (CFE_SB_LocatePipeDescByID p') = PipeTbl s ! the (CFE_SB_LocatePipeDescByID p')" by (rule os(2) [OF p'])
      have "is_pipe s p'" "p' \<noteq> p" using os(1) p' by simp_all
      then have "pipe_queue s p' \<noteq> q" using pipe_queue_inj [OF inv _ isp] q by blast
      then have qc: "q_content (Queues ?s5) (pipe_queue ?s5 p') = q_content (Queues s) (pipe_queue s p')"
      proof -
        assume ne: "pipe_queue s p' \<noteq> q"
        have "pipe_queue ?s5 p' = pipe_queue s p'" by (simp only: pipe_queue_def sl)
        moreover have "Queues ?s5 (pipe_queue s p') = Queues s1 (pipe_queue s p')"
          using s2(4) ne unfolding Q4 by simp
        ultimately show ?thesis by (simp only: q_content_def Q1)
      qed
      show "mail ?s5 p' = mail s p'"
        using queued_exists [OF inv5, of _ "pipe_queue ?s5 p'"] content_thinned [OF th] unfolding mail_def qc by (intro map_cong refl) auto
      obtain j where j: "CFE_SB_LocatePipeDescByID p' = Some j" "live_slot ?s5 j" using is_pipe_slot [OF p'] by blast
      show "in_hand ?s5 p' = in_hand s p'"
        using hand_exists(1) [OF inv5 j(2)] content_thinned [OF th] sl
        by (cases "pd_LastBuffer (PipeTbl s ! j)") (auto simp: in_hand_def j(1))
      show "owner ?s5 p' = owner s p'" by (simp only: owner_def sl)
    qed
    have sub: "map dest_static (subscriptions ?s5 k) = map dest_static (filter (\<lambda>d. dst_PipeId d \<notin> {p}) (subscriptions s k))" for k
    proof -
      have "subscriptions ?s5 k = subscriptions s2 k"
      proof -
        have rd: "route_dests ?s5 r = route_dests s2 r" for r
          unfolding route_dests_def
          by (simp add: CFE_SBR_GetDestListHeadPtr_def sb_event_def delete_commit_def CFE_SB_PipeDescSetFree_def upd_Stat_def upd_Pipe_def delete_queue_def)
        have "Dests ?s5 = Dests s2" "CFE_SBR_GetRouteId k ?s5 = CFE_SBR_GetRouteId k s2"
          by (simp_all add: CFE_SBR_GetRouteId_def sb_event_def delete_commit_def CFE_SB_PipeDescSetFree_def upd_Stat_def upd_Pipe_def delete_queue_def)
        then show ?thesis by (simp only: subscriptions_def subs_of_def rd)
      qed
      then show ?thesis using static_subscriptions [OF s2(6) inv1, of k] sub1 [of k] by simp
    qed
    have "without_pipes {p} s ?s5" using os(1) views sub by (simp add: without_pipes_def)
    moreover have "pipe_queue s p \<notin> dom (Queues ?s5)" unfolding Q4 using q by simp
    ultimately show ?thesis using run ok5 isp ow th views(3) by simp
  qed
qed


lemma without_log: "log_step s s' \<Longrightarrow> without_pipes {} s s'"
  by (simp add: without_pipes_def view_log)

lemma without_trans:
  assumes "without_pipes A s s1" and "without_pipes B s1 s2"
  shows "without_pipes (A \<union> B) s s2"
proof -
  have f: "map dest_static (filter (\<lambda>d. dst_PipeId d \<notin> B) ds) = filter (\<lambda>d. dst_PipeId d \<notin> B) (map dest_static ds)" for ds
    by (induction ds) (simp_all add: dest_static_def)
  have "filter (\<lambda>d. dst_PipeId d \<notin> B) (map dest_static (filter (\<lambda>d. dst_PipeId d \<notin> A) ds)) =
      map dest_static (filter (\<lambda>d. dst_PipeId d \<notin> A \<union> B) ds)" for ds
    by (induction ds) (simp_all add: dest_static_def)
  then show ?thesis using assms f by (auto simp: without_pipes_def)
qed

lemma delete_pipes_ok:
  assumes "bus_ok s" and err: "GetErr e = OS_SUCCESS"
  shows "\<exists>s'. delete_pipes e app ps s = Some s' \<and> bus_ok s' \<and>
     without_pipes {p \<in> set ps. is_pipe s p \<and> owner s p = app} s s' \<and> (\<forall>p. is_pipe s' p \<longrightarrow> owner s' p = owner s p)"
  using assms(1)
proof (induction ps arbitrary: s)
  case Nil
  then show ?case by (simp add: without_log)
next
  case (Cons p ps)
  obtain st s1 where s1: "CFE_SB_DeletePipeFull e p app s = Some (st, s1)" "bus_ok s1"
     "if is_pipe s p \<and> owner s p = app
      then st = 0 \<and> without_pipes {p} s s1 \<and> thinned (buf_info s) (buf_info s1) \<and>
        (\<forall>p'. is_pipe s1 p' \<longrightarrow> owner s1 p' = owner s p') \<and> pipe_queue s p \<notin> dom (Queues s1)
      else st = CFE_SB_BAD_ARGUMENT \<and> log_step s s1"
    using DeletePipeFull_ok [OF Cons.prems err, of p app] by blast
  obtain s2 where s2: "delete_pipes e app ps s1 = Some s2" "bus_ok s2"
     "without_pipes {p \<in> set ps. is_pipe s1 p \<and> owner s1 p = app} s1 s2" "\<forall>p. is_pipe s2 p \<longrightarrow> owner s2 p = owner s1 p"
    using Cons.IH [OF s1(2)] by blast
  let ?A = "if is_pipe s p \<and> owner s p = app then {p} else {}"
  have A: "without_pipes ?A s s1" and ow: "\<forall>p'. is_pipe s1 p' \<longrightarrow> owner s1 p' = owner s p'"
    using s1(3) without_log view_log(3) by (auto simp: owner_def log_step_simps split: if_splits)
  have live: "is_pipe s1 q \<longleftrightarrow> is_pipe s q \<and> q \<notin> ?A" for q using A by (simp add: without_pipes_def)
  have "?A \<union> {p \<in> set ps. is_pipe s1 p \<and> owner s1 p = app} = {q \<in> set (p # ps). is_pipe s q \<and> owner s q = app}"
    using live ow by (auto split: if_splits)
  then have "without_pipes {q \<in> set (p # ps). is_pipe s q \<and> owner s q = app} s s2" using without_trans [OF A s2(3)] by simp
  moreover have "\<forall>p. is_pipe s2 p \<longrightarrow> owner s2 p = owner s p"
    using s2(3,4) ow by (simp add: without_pipes_def)
  ultimately show ?case using s1(1) s2(1,2) by (simp add: CFE_SB_DeletePipeWithAppId_def)
qed

text \<open>The end of an application: its pipes and its buffers are gone.\<close>

lemma CleanUpApp_ok:
  assumes ok: "bus_ok s" and err: "GetErr e = OS_SUCCESS" and app: "app \<noteq> 0"
  shows "\<exists>s'. CFE_SB_CleanUpApp e app s = Some (0, s') \<and> bus_ok s' \<and> without_pipes {p. owner s p = app} s s' \<and>
     (\<forall>b d. Bufs s' b = Some d \<longrightarrow> bd_AppId d \<noteq> app)"
proof -
  obtain s1 where s1: "delete_pipes e app (owned_pipes app s) s = Some s1" "bus_ok s1"
     "without_pipes {p \<in> set (owned_pipes app s). is_pipe s p \<and> owner s p = app} s s1"
    using delete_pipes_ok [OF ok err] by blast
  have inv1: "sb_inv (\<lambda>_. 0) s1" using s1(2) by (simp add: bus_ok_def)
  obtain s2 where s2: "CFE_SB_ZeroCopyReleaseAppId app s1 = Some s2" "sb_inv (\<lambda>_. 0) s2" "buf_step s1 s2"
    "buf_info s2 = released UNIV app (buf_info s1)"
    using ZeroCopyReleaseAppId_inv [OF inv1 app] by blast
  note st = buf_step_simps [OF s2(3)]
  have len: "length (PipeTbl s) = 64" using ok pipe_okD(1) sb_invD(2) unfolding bus_ok_def by blast
  have all: "p \<in> set (owned_pipes app s)" if p: "is_pipe s p" "owner s p = app" for p
  proof -
    obtain i where i: "CFE_SB_LocatePipeDescByID p = Some i" "live_slot s i" "pd_PipeId (PipeTbl s ! i) = p" using is_pipe_slot [OF p(1)] by blast
    then have "PipeTbl s ! i \<in> set (PipeTbl s)" "pd_PipeId (PipeTbl s ! i) \<noteq> 0" "pd_AppId (PipeTbl s ! i) = app"
      using p(2) len by (auto simp: live_slot_def owner_def)
    then show ?thesis using i(3) by (force simp: owned_pipes_def CFE_SB_PipeDescIsUsed_def)
  qed
  have same: "{p \<in> set (owned_pipes app s). is_pipe s p \<and> owner s p = app} = {p. is_pipe s p \<and> owner s p = app}" using all by auto
  have live: "is_pipe s2 p \<longleftrightarrow> is_pipe s p \<and> owner s p \<noteq> app" for p
    using s1(3) unfolding same by (auto simp: without_pipes_def is_pipe_def st)
  have th: "thinned (buf_info s1) (buf_info s2)"
  proof -
    have "\<exists>n. d = d\<lparr>bd_UseCount := n\<rparr>" for d :: CFE_SB_BufferD by (rule exI [of _ "bd_UseCount d"]) simp
    then show ?thesis unfolding s2(4) by (auto simp: thinned_def released_def split: option.splits if_splits)
  qed
  have views: "mail s2 p = mail s p" "in_hand s2 p = in_hand s p" if p: "is_pipe s2 p" for p
  proof -
    have p1: "is_pipe s1 p" using p by (simp add: is_pipe_def st)
    have qc: "q_content (Queues s2) (pipe_queue s2 p) = q_content (Queues s1) (pipe_queue s1 p)" by (simp add: pipe_queue_def st)
    have "mail s2 p = mail s1 p"
      using queued_exists [OF s2(2), of _ "pipe_queue s2 p"] content_thinned [OF th] unfolding mail_def qc by (intro map_cong refl) auto
    then show "mail s2 p = mail s p" using s1(3) p1 by (simp add: without_pipes_def)
    obtain j where j: "CFE_SB_LocatePipeDescByID p = Some j" "live_slot s2 j" using is_pipe_slot [OF p] by blast
    have "in_hand s2 p = in_hand s1 p"
      using hand_exists(1) [OF s2(2) j(2)] content_thinned [OF th]
      by (cases "pd_LastBuffer (PipeTbl s1 ! j)") (auto simp: in_hand_def j(1) st)
    then show "in_hand s2 p = in_hand s p" using s1(3) p1 by (simp add: without_pipes_def)
  qed
  have subs: "map dest_static (subscriptions s2 k) = map dest_static (filter (\<lambda>d. dst_PipeId d \<notin> {p. owner s p = app}) (subscriptions s k))" for k
  proof -
    have "is_pipe s (dst_PipeId d)" if "d \<in> set (subscriptions s k)" for d
      using subs_of_live [OF route_invD(2) [OF sb_invD(1)]] ok that unfolding bus_ok_def subscriptions_def is_pipe_def by blast
    then have "filter (\<lambda>d. dst_PipeId d \<notin> {p. is_pipe s p \<and> owner s p = app}) (subscriptions s k) =
        filter (\<lambda>d. dst_PipeId d \<notin> {p. owner s p = app}) (subscriptions s k)"
      by (intro filter_cong) auto
    then show ?thesis using s1(3) buf_step_route(3) [OF s2(3)] unfolding same without_pipes_def by simp
  qed
  have "without_pipes {p. owner s p = app} s s2" using live views subs by (simp add: without_pipes_def)
  moreover have "bd_AppId d \<noteq> app" if "Bufs s2 b = Some d" for b d
    using buf_info_Some [OF that] app unfolding s2(4) by (auto simp: released_def split: option.splits if_splits)
  moreover have "bus_ok s2" using s2(2) by (simp add: bus_ok_def)
  ultimately show ?thesis using s1(1) s2(1) by (auto simp: CFE_SB_CleanUpApp_def)
qed


section \<open>Creating pipes\<close>

text \<open>One pipe more, empty and without subscriptions.\<close>

definition with_pipe :: "u32 \<Rightarrow> u32 \<Rightarrow> sb_state \<Rightarrow> sb_state \<Rightarrow> bool" where
  "with_pipe p app s s' \<longleftrightarrow> \<not> is_pipe s p \<and> (\<forall>p'. is_pipe s' p' \<longleftrightarrow> is_pipe s p' \<or> p' = p) \<and> owner s' p = app \<and>
     mail s' p = [] \<and> in_hand s' p = None \<and>
     (\<forall>p'. is_pipe s p' \<longrightarrow> mail s' p' = mail s p' \<and> in_hand s' p' = in_hand s p' \<and> owner s' p' = owner s p') \<and>
     (\<forall>k. subscriptions s' k = subscriptions s k)"

definition views_kept :: "sb_state \<Rightarrow> sb_state \<Rightarrow> bool" where
  "views_kept s s' \<longleftrightarrow> (\<forall>p. is_pipe s' p = is_pipe s p) \<and>
     (\<forall>p. is_pipe s p \<longrightarrow> mail s' p = mail s p \<and> in_hand s' p = in_hand s p \<and> owner s' p = owner s p) \<and>
     (\<forall>k. subscriptions s' k = subscriptions s k)"

lemma views_kept_log: "log_step s s' \<Longrightarrow> views_kept s s'"
  by (simp add: views_kept_def view_log owner_def log_step_simps)

lemma with_pipe_log:
  assumes "with_pipe p app s s1" and l: "log_step s1 s2"
  shows "with_pipe p app s s2"
proof -
  have "owner s2 q = owner s1 q" for q by (simp add: owner_def log_step_simps [OF l])
  then show ?thesis using assms(1) by (simp add: with_pipe_def view_log [OF l])
qed

lemma views_kept_trans: "views_kept s s1 \<Longrightarrow> views_kept s1 s2 \<Longrightarrow> views_kept s s2"
  by (simp add: views_kept_def)

text \<open>A slot that is not named changes.\<close>

lemma unnamed_slot:
  assumes P: "PipeTbl s' = (PipeTbl s)[i := d]" and i: "i < length (PipeTbl s)" "\<not> named (PipeTbl s ! i)"
    and q: "\<And>p. is_pipe s p \<Longrightarrow> Queues s' (pipe_queue s p) = Queues s (pipe_queue s p)" and b: "buf_info s' = buf_info s"
    and p: "is_pipe s p"
  shows "is_pipe s' p" and "mail s' p = mail s p" and "in_hand s' p = in_hand s p" and "owner s' p = owner s p"
proof -
  obtain j where j: "CFE_SB_LocatePipeDescByID p = Some j" "live_slot s j" "pd_PipeId (PipeTbl s ! j) = p" using is_pipe_slot [OF p] by blast
  have "j \<noteq> i" using j(2) i(2) by (auto simp: live_slot_named)
  then have sl: "PipeTbl s' ! j = PipeTbl s ! j" by (simp add: P)
  have c: "content s' = content s" by (rule ext) (simp add: content_info b)
  have pq: "pipe_queue s' p = pipe_queue s p" by (simp add: pipe_queue_def j(1) sl)
  show "is_pipe s' p" by (simp add: is_pipe_def live_pipe_def j(1,3) sl)
  show "mail s' p = mail s p" by (simp add: mail_def pq q_content_def q [OF p] c)
  show "in_hand s' p = in_hand s p" "owner s' p = owner s p" by (simp_all add: in_hand_def owner_def j(1) sl c)
qed

lemma CreatePipe_ok:
  assumes ok: "bus_ok s" and fr: "queue_fresh e s"
  shows "\<exists>st po s'. CFE_SB_CreatePipe e ptr depth s = (st, po, s') \<and> bus_ok s' \<and>
     (if \<not> ptr \<or> unat depth > OS_QUEUE_MAX_DEPTH \<or> depth = 0 then st = CFE_SB_BAD_ARGUMENT \<and> po = None \<and> log_step s s'
      else if fst (create_reserve s) = None then st = CFE_SB_MAX_PIPES_MET \<and> po = None \<and> log_step s s'
      else if fst (QueueResult e) \<noteq> OS_SUCCESS then st = CFE_SB_PIPE_CR_ERR \<and> po = None \<and> views_kept s s'
      else \<exists>p. st = 0 \<and> po = Some p \<and> with_pipe p (snd (CallerApp e)) s s' \<and>
        q_depth (the (Queues s' (pipe_queue s' p))) = (if 0 < QueueTrunc e \<and> QueueTrunc e < unat depth then QueueTrunc e else unat depth))"
proof -
  have inv: "sb_inv (\<lambda>_. 0) s" using ok by (simp add: bus_ok_def)
  show ?thesis
  proof (cases "\<not> ptr \<or> unat depth > OS_QUEUE_MAX_DEPTH \<or> depth = 0")
    case True
    let ?s' = "sb_event CFE_SB_CR_PIPE_BAD_ARG_EID CFE_EVS_EventType_ERROR [uint depth, int OS_QUEUE_MAX_DEPTH] (create_abort None s)"
    have "log_step s ?s'" unfolding create_abort_def option.case using log_step_trans [OF log_step_upd(1) log_step_upd(2)] .
    moreover then have "bus_ok ?s'" using view_log(5) ok by blast
    ultimately show ?thesis using True by (auto simp: CFE_SB_CreatePipe_def)
  next
    case args: False
    obtain r s1 where cr: "create_reserve s = (r, s1)" by fastforce
    note R = create_reserve_ok [OF inv, unfolded cr, simplified]
    show ?thesis
    proof (cases r)
      case None
      let ?s' = "sb_event CFE_SB_MAX_PIPES_MET_EID CFE_EVS_EventType_ERROR [int CFE_PLATFORM_SB_MAX_PIPES] (create_abort None s)"
      have "log_step s ?s'" unfolding create_abort_def option.case using log_step_trans [OF log_step_upd(1) log_step_upd(2)] .
      moreover then have "bus_ok ?s'" using view_log(5) ok by blast
      ultimately show ?thesis using args R None by (auto simp: CFE_SB_CreatePipe_def cr)
    next
      case (Some x)
      then obtain i pid where r: "r = Some (i, pid)" by (cases x) auto
      then have inv1: "sb_inv (\<lambda>_. 0) s1" and loc: "CFE_SB_LocatePipeDescByID pid = Some i" and free: "pd_PipeId (PipeTbl s ! i) = CFE_SB_INVALID_PIPE"
        and sl: "slot_step i reserved_slot s s1" using R by simp_all
      note st1 = slot_step_simps [OF sl] and sr1 = slot_step_routes [OF sl]
      have lt: "i < 64" "i < length (PipeTbl s)" using slot_bound [OF inv loc] by auto
      have un: "\<not> named (PipeTbl s ! i)" by (simp add: named_def free)
      obtain st q qs where c: "OS_QueueCreate (QueueResult e) (QueueTrunc e) (unat depth) (Queues s1) = (st, q, qs)" by (metis prod_cases3)
      have fr1: "queue_fresh e s1" using fr by (simp add: queue_fresh_def st1)
      note C = OS_QueueCreate_inv [OF inv1 fr1 c]
      let ?s2 = "s1\<lparr>Queues := qs\<rparr>"
      have b1: "buf_info s1 = buf_info s" by (rule buf_inv_cong(2) [OF st1(8-10,16)])
      have nodest: "pd_SysQueueId (PipeTbl s1 ! j) \<noteq> q" if st0: "st = OS_SUCCESS" and j: "live_slot ?s2 j" for j
        using C(2) [OF st0] pipe_okD(5) [OF sb_invD(2) [OF inv1], of j] j by (auto simp: live_slot_def)
      have oldq: "qs (pipe_queue s p) = Queues s (pipe_queue s p)" if p: "is_pipe s p" for p
      proof (cases "st = OS_SUCCESS")
        case True
        obtain j where "live_slot s j" "pipe_queue s p = pd_SysQueueId (PipeTbl s ! j)" using is_pipe_slot [OF p] by blast
        then have "pipe_queue s p \<in> dom (Queues s)" using pipe_okD(5) [OF sb_invD(2) [OF inv]] by simp
        then have "pipe_queue s p \<noteq> q" using C(2) [OF True] by (auto simp: st1)
        then show ?thesis using C(4) by (simp add: st1)
      qed (use C(3) in \<open>simp add: st1\<close>)
      show ?thesis
      proof (cases "st = OS_SUCCESS")
        case False
        let ?s3 = "CFE_SB_PipeDescSetFree i ?s2"
        let ?s4 = "sb_event (create_queue_event st) CFE_EVS_EventType_ERROR
              (if create_queue_event st = CFE_SB_CR_PIPE_ERR_EID then [st] else []) (create_abort (Some i) ?s2)"
        have "pd_PipeId (PipeTbl ?s2 ! i) = CFE_RESOURCEID_RESERVED" using lt by (simp add: st1 reserved_slot_def)
        then have inv3: "sb_inv (\<lambda>_. 0) ?s3" using free_slot_ok [OF C(1) lt(1)] by blast
        have log: "log_step ?s3 ?s4" unfolding create_abort_def option.case using log_step_trans [OF log_step_upd(1) log_step_upd(2)] .
        have P: "PipeTbl ?s3 = (PipeTbl s)[i := reserved_slot\<lparr>pd_PipeId := CFE_SB_INVALID_PIPE\<rparr>]"
          using lt by (simp add: CFE_SB_PipeDescSetFree_def upd_Pipe_def upd_at_def st1)
        have b3: "buf_info ?s3 = buf_info s" unfolding b1 [symmetric] by (rule buf_inv_cong(2)) (simp_all add: CFE_SB_PipeDescSetFree_def upd_Pipe_def)
        have q3: "Queues ?s3 (pipe_queue s p) = Queues s (pipe_queue s p)" if "is_pipe s p" for p
          using oldq [OF that] by (simp add: CFE_SB_PipeDescSetFree_def upd_Pipe_def)
        note U = unnamed_slot [OF P lt(2) un q3 b3]
        have live: "is_pipe ?s3 p = is_pipe s p" for p
        proof -
          have "pd_PipeId (reserved_slot\<lparr>pd_PipeId := CFE_SB_INVALID_PIPE\<rparr>) \<noteq> p" "pd_PipeId (PipeTbl s ! i) \<noteq> p" if "CFE_SB_LocatePipeDescByID p = Some i"
            using that free by auto
          then show ?thesis unfolding is_pipe_def P live_pipe_update [OF lt(2)]
            by (cases "CFE_SB_LocatePipeDescByID p = Some i") (auto simp: live_pipe_def)
        qed
        have sub: "subscriptions ?s3 k = subscriptions s k" for k
        proof -
          have rt: "RoutingTbl ?s3 = RoutingTbl s" and de: "Dests ?s3 = Dests s" by (simp_all add: CFE_SB_PipeDescSetFree_def upd_Pipe_def st1)
          have rd: "route_dests ?s3 r = route_dests s r" for r unfolding route_dests_def head_cong [OF rt] de ..
          have "Dests ?s3 = Dests s" "CFE_SBR_GetRouteId k ?s3 = CFE_SBR_GetRouteId k s"
            using sr1(3) by (simp_all add: CFE_SBR_GetRouteId_def CFE_SB_PipeDescSetFree_def upd_Pipe_def st1)
          then show ?thesis by (simp only: subscriptions_def subs_of_def rd)
        qed
        have "views_kept s ?s3" using live U sub by (simp add: views_kept_def)
        then have "views_kept s ?s4" by (rule views_kept_trans [OF _ views_kept_log [OF log]])
        moreover have "bus_ok ?s4" using inv3 view_log(5) [OF log] by (simp add: bus_ok_def)
        moreover have "fst (QueueResult e) \<noteq> OS_SUCCESS" using c False args by (auto simp: OS_QueueCreate_def split: if_splits)
        moreover have "CFE_SB_CreatePipe e ptr depth s = (CFE_SB_PIPE_CR_ERR, None, ?s4)"
          using args c False by (auto simp: CFE_SB_CreatePipe_def cr r)
        ultimately show ?thesis using args r cr by auto
      next
        case True
        let ?app = "snd (CallerApp e)"
        let ?d = "reserved_slot\<lparr>pd_PipeId := pid, pd_SysQueueId := q, pd_MaxQueueDepth := depth, pd_AppId := ?app\<rparr>"
        have res: "PipeTbl ?s2 ! i = reserved_slot" using lt by (simp add: st1)
        have qd: "q \<in> dom (Queues ?s2)" using C(2) [OF True] by simp
        have nd: "pd_SysQueueId (PipeTbl ?s2 ! j) \<noteq> q" if "live_slot ?s2 j" for j using nodest [OF True that] by simp
        note CC = create_commit_ok(1,2) [OF C(1) loc res qd nd, where depth = depth and app = ?app]
        let ?s3 = "create_commit i pid q depth ?app ?s2"
        have inv3: "sb_inv (\<lambda>_. 0) ?s3" and sl3: "slot_step i ?d ?s2 ?s3"
          using CC by simp_all
        let ?s4 = "sb_event CFE_SB_PIPE_ADDED_EID CFE_EVS_EventType_DEBUG [uint pid] ?s3"
        have log: "log_step ?s3 ?s4" by simp
        note st3 = slot_step_simps [OF sl3] and sr3 = slot_step_routes [OF sl3] and vl = view_log [OF log]
        have P: "PipeTbl ?s3 = (PipeTbl s)[i := ?d]" using lt by (simp add: st3 st1)
        have b3: "buf_info ?s3 = buf_info s" unfolding b1 [symmetric] by (rule buf_inv_cong(2)) (simp_all add: st3)
        have q3: "Queues ?s3 (pipe_queue s p) = Queues s (pipe_queue s p)" if "is_pipe s p" for p using oldq [OF that] by (simp add: st3)
        note U = unnamed_slot [OF P lt(2) un q3 b3]
        have np: "\<not> is_pipe s pid" using loc free by (auto simp: is_pipe_def live_pipe_def)
        have live: "is_pipe ?s3 p \<longleftrightarrow> is_pipe s p \<or> p = pid" for p
          using free loc unfolding is_pipe_def P live_pipe_update [OF lt(2)]
          by (cases "CFE_SB_LocatePipeDescByID p = Some i") (auto simp: live_pipe_def)
        have pq: "pipe_queue ?s3 pid = q" and new: "PipeTbl ?s3 ! i = ?d" using lt by (simp_all add: pipe_queue_def loc P)
        have sub: "subscriptions ?s3 k = subscriptions s k" for k
        proof -
          have rt: "RoutingTbl ?s2 = RoutingTbl s" and de: "Dests ?s2 = Dests s" by (simp_all add: st1)
          have rd: "route_dests ?s2 r = route_dests s r" for r unfolding route_dests_def head_cong [OF rt] de ..
          have "Dests ?s2 = Dests s" "CFE_SBR_GetRouteId k ?s2 = CFE_SBR_GetRouteId k s"
            using sr1(3) by (simp_all add: CFE_SBR_GetRouteId_def st1)
          then have "subscriptions ?s2 k = subscriptions s k" by (simp only: subscriptions_def subs_of_def rd)
          then show ?thesis using sr3(2) by simp
        qed
        have "mail ?s3 pid = []" "in_hand ?s3 pid = None" "owner ?s3 pid = ?app"
          using C(2) [OF True] pq new
          by (simp_all add: mail_def in_hand_def owner_def loc st3(2) q_content_def reserved_slot_def pipe_clear_def)
        then have "with_pipe pid ?app s ?s3" using np live U sub by (simp add: with_pipe_def)
        then have wp: "with_pipe pid ?app s ?s4" by (rule with_pipe_log [OF _ log])
        have "fst (QueueResult e) = OS_SUCCESS" and qr: "qs q = Some \<lparr>q_depth = if 0 < QueueTrunc e \<and> QueueTrunc e < unat depth then QueueTrunc e else unat depth, q_msgs = []\<rparr>"
          using c True args by (auto simp: OS_QueueCreate_def split: if_splits)
        moreover have "bus_ok ?s4" using inv3 vl(5) by (simp add: bus_ok_def)
        moreover have "CFE_SB_CreatePipe e ptr depth s = (0, Some pid, ?s4)"
          using args c True by (auto simp: CFE_SB_CreatePipe_def cr r)
        moreover have "Queues ?s4 (pipe_queue ?s4 pid) = qs q"
        proof -
          have "pipe_queue ?s4 pid = pipe_queue ?s3 pid" "Queues ?s4 = Queues ?s3" by (simp_all add: pipe_queue_def sb_event_def)
          then show ?thesis using pq by (simp add: st3)
        qed
        ultimately show ?thesis using args r cr wp by auto
      qed
    qed
  qed
qed


section \<open>Subscribing\<close>

lemma report_sized: "sized (subscription_report en mid p qos)"
proof -
  have "replicate 32 (0 :: u8) = [0,0,0,0,0,0,0,0,0,0,0,0,0,0,0,0,0,0,0,0,0,0,0,0,0,0,0,0,0,0,0,0]" by (simp add: numeral_eq_Suc)
  then have "CFE_MSG_Init CFE_SB_ONESUB_TLM_MID 32 = (CFE_SUCCESS, [0x08, 0x0E, 0xC0, 0, 0, 25, 0,0,0,0,0,0,0,0,0,0,0,0,0,0,0,0,0,0,0,0,0,0,0,0,0,0])"
    by (simp add: CFE_MSG_Init_def CFE_MSG_InitDefaultHdr_def CFE_MSG_SetDefaultCCSDSPri_def
        CFE_MSG_SetHasSecondaryHeader_def CFE_MSG_SetHeaderVersion_def CFE_MSG_SetApId_def
        CFE_MSG_SetSegmentationFlag_def CFE_MSG_SetHeaderField_def CFE_MSG_SetMsgId_def
        CFE_MSG_SetSize_def byte_at_def hi8_def lo8_def)
  then show ?thesis
    by (simp add: sized_def subscription_report_def CFE_MSG_GetSize_def wr32_def Let_def byte_at_def wr16_def split: endian.split)
qed

lemma bus_route: "bus_ok s \<Longrightarrow> buf_part s' = buf_part s \<Longrightarrow> route_inv s' \<Longrightarrow> bus_ok s'"
  unfolding bus_ok_def by (rule sb_inv_route)

text \<open>Only subscriptions change.\<close>

lemma views_route:
  assumes "buf_part s' = buf_part s"
  shows "mail s' p = mail s p" and "in_hand s' p = in_hand s p" and "is_pipe s' p = is_pipe s p" and "owner s' p = owner s p"
proof -
  have b: "Bufs s' = Bufs s" "PipeTbl s' = PipeTbl s" "Queues s' = Queues s" using assms by (simp_all add: buf_part_eq)
  have "content s' = content s" by (rule ext) (simp add: content_def b)
  then show "mail s' p = mail s p" "in_hand s' p = in_hand s p" "is_pipe s' p = is_pipe s p" "owner s' p = owner s p"
    by (simp_all add: mail_def in_hand_def is_pipe_def owner_def pipe_queue_def b)
qed

definition resubscribed :: "(u32 \<Rightarrow> CFE_SB_DestinationD list) \<Rightarrow> sb_state \<Rightarrow> sb_state \<Rightarrow> bool" where
  "resubscribed subs s s' \<longleftrightarrow> (\<forall>p. is_pipe s' p = is_pipe s p \<and> owner s' p = owner s p) \<and>
     (\<forall>p. mail s' p = mail s p \<and> in_hand s' p = in_hand s p) \<and> (\<forall>k. subscriptions s' k = subs k) \<and>
     PipeTbl s' = PipeTbl s \<and> Queues s' = Queues s"

lemma resubscribed_log:
  assumes "resubscribed subs s s1" and l: "log_step s1 s2"
  shows "resubscribed subs s s2"
proof -
  have "owner s2 q = owner s1 q" for q by (simp add: owner_def log_step_simps [OF l])
  then show ?thesis using assms(1) by (simp add: resubscribed_def view_log [OF l] log_step_simps [OF l])
qed

lemma log_subscribe_event: "log_step s (subscribe_event e ev mid p s)"
  using log_step_trans [OF log_step_name log_step_upd(2)] by (auto simp: subscribe_event_def)

text \<open>
  The locked section decides everything; what follows it are events, and the report if it is
  switched on, which is a message like any other.
\<close>

lemma SubscribeFull_ok:
  assumes ok: "bus_ok s" and pool: "pool_fresh e"
  shows "\<exists>s1 s'. CFE_SB_SubscribeFull e mid p qos lim scope s = Some (subscribe_status (subscribe_outcome e mid p scope s), s') \<and>
     bus_ok s1 \<and> bus_ok s' \<and>
     resubscribed (\<lambda>k. if k = mid \<and> subscribe_outcome e mid p scope s = 0 then new_dest p lim scope # subscriptions s k else subscriptions s k) s s1 \<and>
     SubscriptionReporting s1 = SubscriptionReporting s \<and>
     (if subscribe_status (subscribe_outcome e mid p scope s) = 0 \<and> scope = CFE_SB_MSG_GLOBAL \<and> SubscriptionReporting s = CFE_SB_ENABLE
      then \<exists>st s2. CFE_SB_TransmitMsg e (Some (subscription_report (Host e) mid p qos)) True s1 = Some (st, s2) \<and> log_step s2 s'
      else log_step s1 s')"
proof -
  let ?ev = "subscribe_outcome e mid p scope s"
  have inv: "sb_inv (\<lambda>_. 0) s" using ok by (simp add: bus_ok_def)
  obtain s0 where s0: "subscribe_locked e mid p lim scope s = Some (?ev, 0, s0)" "route_inv s0" "buf_part s0 = buf_part s"
     "\<forall>m. subscriptions s0 m = (if m = mid \<and> ?ev = 0 then new_dest p lim scope # subscriptions s m else subscriptions s m)"
    using subscribe_locked_ok [OF sb_invD(1) [OF inv] pool, of mid p lim scope] by blast
  have rep: "SubscriptionReporting s0 = SubscriptionReporting s"
    using s0(1) by (auto simp: subscribe_locked_def subscribe_route_def subscribe_dest_def subscribe_count_def upd_HK_def upd_Stat_def
        CFE_SBR_AddRoute_def CFE_SBR_SetRouteId_def upd_Route_def CFE_SB_GetDestinationBlk_def CFE_SB_AddDestNode_def upd_Dest_def
        CFE_SBR_SetDestListHeadPtr_def Let_def split: if_splits prod.splits option.splits bind_splits)
  let ?s1 = "subscribe_event e ?ev mid p s0"
  have l1: "log_step s0 ?s1" by (rule log_subscribe_event)
  have ok1: "bus_ok ?s1" using bus_route [OF ok s0(3,2)] view_log(5) [OF l1] by simp
  have "resubscribed (\<lambda>k. if k = mid \<and> ?ev = 0 then new_dest p lim scope # subscriptions s k else subscriptions s k) s s0"
    using s0(3,4) by (simp add: resubscribed_def views_route [OF s0(3)] buf_part_eq)
  then have rs: "resubscribed (\<lambda>k. if k = mid \<and> ?ev = 0 then new_dest p lim scope # subscriptions s k else subscriptions s k) s ?s1"
    by (rule resubscribed_log [OF _ l1])
  have rep1: "SubscriptionReporting ?s1 = SubscriptionReporting s" using rep log_step_simps(12) [OF l1] by simp
  show ?thesis
  proof (cases "subscribe_status ?ev = 0 \<and> scope = CFE_SB_MSG_GLOBAL \<and> SubscriptionReporting s = CFE_SB_ENABLE")
    case True
    obtain st s2 where s2: "CFE_SB_TransmitMsg e (Some (subscription_report (Host e) mid p qos)) True ?s1 = Some (st, s2)" "bus_ok s2"
      using TransmitMsg_ok [OF ok1 pool report_sized] by blast
    let ?s3 = "sb_event CFE_SB_SUBSCRIPTION_RPT_EID CFE_EVS_EventType_DEBUG [uint mid, uint p, st] s2"
    have "CFE_SB_SubscribeFull e mid p qos lim scope s = Some (subscribe_status ?ev, ?s3)"
      using conjunct1 [OF True] conjunct2 [OF True] s0(1) s2(1) rep1 by (simp add: CFE_SB_SubscribeFull_def CFE_SB_SendSubscriptionReport_def Let_def)
    moreover have "log_step s2 ?s3" by simp
    moreover have "bus_ok ?s3" using s2(2) view_log(5) [OF calculation(2)] by blast
    ultimately show ?thesis using True s2(1) ok1 rs rep1 by (intro exI [of _ ?s1] exI [of _ ?s3]) auto
  next
    case False
    have "CFE_SB_SubscribeFull e mid p qos lim scope s = Some (subscribe_status ?ev, ?s1)"
      using False s0(1) rep1 by (auto simp: CFE_SB_SubscribeFull_def CFE_SB_SendSubscriptionReport_def Let_def)
    then show ?thesis using False ok1 rs rep1 by (intro exI [of _ ?s1]) auto
  qed
qed

lemma log_unsubscribe_event: "log_step s (unsubscribe_event e ev mid p s)"
  using log_step_trans [OF log_step_name log_step_upd(2)] by (auto simp: unsubscribe_event_def)

lemma UnsubscribeFull_ok:
  assumes ok: "bus_ok s"
  shows "\<exists>s'. CFE_SB_UnsubscribeFull e mid p scope app s =
       Some (if unsubscribe_refused mid p scope app s = 0 then 0 else CFE_SB_BAD_ARGUMENT, s') \<and> bus_ok s' \<and>
     resubscribed (\<lambda>k. if k = mid \<and> unsubscribe_refused mid p scope app s = 0
        then filter (\<lambda>d. dst_PipeId d \<noteq> p) (subscriptions s k) else subscriptions s k) s s'"
proof -
  have inv: "sb_inv (\<lambda>_. 0) s" using ok by (simp add: bus_ok_def)
  obtain ev s0 where s0: "unsubscribe_locked e mid p scope app s = Some (if unsubscribe_refused mid p scope app s = 0 then 0 else CFE_SB_BAD_ARGUMENT, ev, s0)"
     "route_inv s0" "buf_part s0 = buf_part s"
     "\<forall>m. subscriptions s0 m = (if m = mid \<and> unsubscribe_refused mid p scope app s = 0
        then filter (\<lambda>d. dst_PipeId d \<noteq> p) (subscriptions s m) else subscriptions s m)"
    using unsubscribe_locked_ok [OF sb_invD(1) [OF inv], of e mid p scope app] by blast
  let ?s1 = "unsubscribe_event e ev mid p s0"
  have l1: "log_step s0 ?s1" by (rule log_unsubscribe_event)
  have "bus_ok ?s1" using bus_route [OF ok s0(3,2)] view_log(5) [OF l1] by simp
  moreover have "resubscribed (\<lambda>k. if k = mid \<and> unsubscribe_refused mid p scope app s = 0
        then filter (\<lambda>d. dst_PipeId d \<noteq> p) (subscriptions s k) else subscriptions s k) s s0"
    using s0(3,4) by (simp add: resubscribed_def views_route [OF s0(3)] buf_part_eq)
  ultimately show ?thesis using s0(1) resubscribed_log [OF _ l1] by (auto simp: CFE_SB_UnsubscribeFull_def)
qed


section \<open>Zero-copy buffers\<close>

text \<open>Buffers change that no pipe refers to.\<close>

lemma views_buffers:
  assumes inv: "sb_inv h s" and st: "buf_step s s'" and same: "\<And>c. c \<noteq> b \<Longrightarrow> buf_info s' c = buf_info s c"
    and b: "q_refs (Queues s) b = 0" "last_refs s b = 0"
  shows "views_kept s s'"
proof -
  note bs = buf_step_simps [OF st]
  have c: "content s' c = content s c" if "c \<noteq> b" for c using same [OF that] by (rule content_same)
  have nq: "b \<notin> set (q_content (Queues s) q)" for q
  proof
    assume m: "b \<in> set (q_content (Queues s) q)"
    then have q: "q \<in> dom (Queues s)" by (cases "Queues s q") (auto simp: q_content_def)
    have "count_list (q_content (Queues s) q) b \<noteq> 0" using m by (simp add: count_list_0_iff)
    with b(1) q_refs_insert [OF pipe_okD(3) [OF sb_invD(2) [OF inv]] q, of b] show False by simp
  qed
  have hand: "in_hand s' p = in_hand s p" if p: "is_pipe s p" for p
  proof -
    obtain j where j: "CFE_SB_LocatePipeDescByID p = Some j" "live_slot s j" using is_pipe_slot [OF p] by blast
    have "x \<noteq> b" if "pd_LastBuffer (PipeTbl s ! j) = Some x" for x using hand_exists(2) [OF inv j(2) that] b(2) by auto
    then show ?thesis using c by (cases "pd_LastBuffer (PipeTbl s ! j)") (auto simp: in_hand_def j(1) bs)
  qed
  have mail: "mail s' p = mail s p" for p
    using nq [of "pipe_queue s p"] unfolding mail_def pipe_queue_def bs by (intro map_cong refl c) auto
  then show ?thesis
    using hand by (simp add: views_kept_def is_pipe_def owner_def bs buf_step_route(3) [OF st])
qed

lemma AllocateMessageBuffer_ok:
  assumes ok: "bus_ok s" and pool: "pool_fresh e" and app: "snd (CallerApp e) \<noteq> 0"
  shows "\<exists>bo s'. CFE_SB_AllocateMessageBuffer e n s = Some (bo, s') \<and> bus_ok s' \<and> views_kept s s' \<and> buf_step s s' \<and> (case bo of
     None \<Rightarrow> s' = s
   | Some b \<Rightarrow> n \<le> CFE_MISSION_SB_MAX_SB_MSG_SIZE \<and> fst (CallerApp e) = 0 \<and> Bufs s b = None \<and> b \<in> owned_bufs s' \<and>
       content s' b = replicate n 0 \<and> (\<forall>c. c \<noteq> b \<longrightarrow> buf_info s' c = buf_info s c))"
proof (cases "n \<le> CFE_MISSION_SB_MAX_SB_MSG_SIZE \<and> fst (CallerApp e) = 0")
  case False
  have "views_kept s s" by (simp add: views_kept_def)
  then show ?thesis using False ok by (auto simp: CFE_SB_AllocateMessageBuffer_def not_le)
next
  case True
  have inv: "sb_inv (\<lambda>_. 0) s" using ok by (simp add: bus_ok_def)
  obtain bo s1 where s1: "allocate_locked e (snd (CallerApp e)) n s = Some (bo, s1)" "sb_inv (\<lambda>_. 0) s1" "buf_step s s1" "case bo of
     None \<Rightarrow> s1 = s
   | Some b \<Rightarrow> Bufs s b = None \<and> buf_info s1 = (buf_info s)(b \<mapsto> (new_buf e n)\<lparr>bd_AppId := snd (CallerApp e)\<rparr>)"
    using allocate_locked_inv [OF inv pool app] by blast
  show ?thesis
  proof (cases bo)
    case None
    then show ?thesis using True s1 ok by (auto simp: CFE_SB_AllocateMessageBuffer_def views_kept_def)
  next
    case (Some b)
    then have none: "Bufs s b = None" and i1: "buf_info s1 = (buf_info s)(b \<mapsto> (new_buf e n)\<lparr>bd_AppId := snd (CallerApp e)\<rparr>)"
      using s1(4) by simp_all
    have "buf_info s1 b = Some ((new_buf e n)\<lparr>bd_AppId := snd (CallerApp e)\<rparr>)" by (simp add: i1)
    from buf_info_SomeD [OF this] obtain d where d: "Bufs s1 b = Some d" "bd_AppId d = snd (CallerApp e)" by auto
    let ?f = "\<lambda>d. d\<lparr>bd_Content := replicate n 0\<rparr>"
    have k: "keeps_links ?f" by (rule keeps_linksI) simp_all
    obtain s' where s': "upd_Buf b ?f s1 = Some s'" "sb_inv (\<lambda>_. 0) s'" "buf_step s1 s'"
      "buf_info s' = (buf_info s1)(b := map_option ?f (buf_info s1 b))" "Bufs s' b = Some (?f d)"
      using upd_Buf_inv [OF s1(2) d(1) k] by fastforce
    have same: "buf_info s' c = buf_info s c" if "c \<noteq> b" for c using that by (simp add: s'(4) i1)
    have z: "q_refs (Queues s) b = 0" "last_refs s b = 0" using refs_zero(1) [OF inv none] by (simp_all add: refs_def)
    have "views_kept s s'" by (rule views_buffers [OF inv buf_step_trans [OF s1(3) s'(3)] same z])
    moreover have "buf_step s s'" by (rule buf_step_trans [OF s1(3) s'(3)])
    moreover have "b \<in> owned_bufs s'" "content s' b = replicate n 0" using s'(5) d(2) app by (simp_all add: owned_bufs_def content_def)
    ultimately show ?thesis using True s1(1) Some s'(1,2) none same by (simp add: CFE_SB_AllocateMessageBuffer_def bus_ok_def)
  qed
qed

lemma write_buffer_ok:
  assumes ok: "bus_ok s" and b: "b \<in> owned_bufs s"
  shows "\<exists>s'. write_buffer b m s = Some s' \<and> bus_ok s' \<and> views_kept s s' \<and> buf_step s s' \<and> b \<in> owned_bufs s' \<and> content s' b = m"
proof -
  have inv: "sb_inv (\<lambda>_. 0) s" using ok by (simp add: bus_ok_def)
  obtain d where d: "Bufs s b = Some d" "bd_AppId d \<noteq> 0" using b by (auto simp: owned_bufs_def)
  let ?f = "\<lambda>d. d\<lparr>bd_Content := m\<rparr>"
  have k: "keeps_links ?f" by (rule keeps_linksI) simp_all
  obtain s' where s': "upd_Buf b ?f s = Some s'" "sb_inv (\<lambda>_. 0) s'" "buf_step s s'"
    "buf_info s' = (buf_info s)(b := map_option ?f (buf_info s b))" "Bufs s' b = Some (?f d)"
    using upd_Buf_inv [OF inv d(1) k] by fastforce
  have "views_kept s s'"
    by (rule views_buffers [OF inv s'(3), of b]) (use sb_inv_own [OF inv b] in \<open>simp_all add: s'(4)\<close>)
  then show ?thesis using s' d(2) by (simp add: write_buffer_def bus_ok_def owned_bufs_def content_def)
qed

lemma ReleaseMessageBuffer_ok:
  assumes ok: "bus_ok s" and b: "Bufs s b = Some d"
  shows "\<exists>st s'. CFE_SB_ReleaseMessageBuffer (Some b) s = Some (st, s') \<and> bus_ok s' \<and>
     (if bd_AppId d = CFE_ES_APPID_UNDEFINED then st = CFE_SB_BUFFER_INVALID \<and> s' = s
      else st = 0 \<and> views_kept s s' \<and> Bufs s' b = None \<and> (\<forall>c. c \<noteq> b \<longrightarrow> buf_info s' c = buf_info s c))"
proof (cases "bd_AppId d = CFE_ES_APPID_UNDEFINED")
  case True
  then show ?thesis using ok b by (simp add: CFE_SB_ReleaseMessageBuffer_def CFE_SB_ZeroCopyBufferValidate_def)
next
  case False
  have inv: "sb_inv (\<lambda>_. 0) s" using ok by (simp add: bus_ok_def)
  have own: "b \<in> owned_bufs s" using b False by (simp add: owned_bufs_def)
  obtain s' where s': "release_locked b s = Some s'" "sb_inv (\<lambda>_. 0) s'" "buf_step s s'" "buf_info s' = (buf_info s)(b := None)"
    using release_locked_inv [OF inv own] by blast
  have "views_kept s s'"
    by (rule views_buffers [OF inv s'(3), of b]) (use sb_inv_own [OF inv own] in \<open>simp_all add: s'(4)\<close>)
  moreover have "Bufs s' b = None" using buf_info_None [of s' b] by (simp add: s'(4))
  ultimately show ?thesis using s' b False
    by (simp add: CFE_SB_ReleaseMessageBuffer_def CFE_SB_ZeroCopyBufferValidate_def bus_ok_def)
qed

lemma TransmitBuffer_ok:
  assumes ok: "bus_ok s" and b: "b \<in> owned_bufs s" and sz: "sized (content s b)"
  shows "\<exists>s'. CFE_SB_TransmitBuffer e (Some b) upd s = Some (sb_msg_check (content s b), s') \<and> bus_ok s' \<and>
     (if sb_msg_check (content s b) \<noteq> 0 then views_kept s s' \<and> b \<in> owned_bufs s' \<and> content s' b = content s b
      else b \<notin> owned_bufs s' \<and>
        published e (CFE_MSG_GetMsgId (content s b)) (upd \<and> CFE_SBR_GetRouteId (CFE_MSG_GetMsgId (content s b)) s \<noteq> 0)
          (sent_copy e s (upd \<and> CFE_SBR_GetRouteId (CFE_MSG_GetMsgId (content s b)) s \<noteq> 0) (content s b)) s s')"
proof -
  have inv: "sb_inv (\<lambda>_. 0) s" using ok by (simp add: bus_ok_def)
  obtain d where d: "Bufs s b = Some d" "bd_AppId d \<noteq> 0" using b by (auto simp: owned_bufs_def)
  let ?m = "bd_Content d"
  have m: "content s b = ?m" by (simp add: content_def d)
  note z = sb_inv_own [OF inv b]
  obtain mid n rid s1 where v: "CFE_SB_TransmitMsgValidate e (Some ?m) (bd_MsgId d, bd_ContentSize d, 0) s = (sb_msg_check ?m, mid, n, rid, s1)" "log_step s s1"
    "sb_msg_check ?m = 0 \<longrightarrow> mid = CFE_MSG_GetMsgId ?m \<and> n = CFE_MSG_GetSize ?m \<and> rid = CFE_SBR_GetRouteId mid s \<and>
        CFE_SB_IsValidMsgId mid \<and> n \<le> CFE_MISSION_SB_MAX_SB_MSG_SIZE"
    using validate_ok by blast
  note l1 = log_step_simps [OF v(2)]
  have inv1: "sb_inv (\<lambda>_. 0) s1" using inv log_step_inv [OF v(2)] by simp
  have valid: "CFE_SB_ZeroCopyBufferValidate (Some b) s = Some 0" using d by (simp add: CFE_SB_ZeroCopyBufferValidate_def)
  let ?f = "\<lambda>d. d\<lparr>bd_MsgId := mid, bd_ContentSize := n\<rparr>"
  have kf: "keeps_links ?f" by (rule keeps_linksI) simp_all
  have d1: "Bufs s1 b = Some d" by (simp add: l1 d)
  obtain s2 where s2: "upd_Buf b ?f s1 = Some s2" "sb_inv (\<lambda>_. 0) s2" "buf_step s1 s2"
    "buf_info s2 = (buf_info s1)(b := map_option ?f (buf_info s1 b))" "Bufs s2 b = Some (?f d)"
    using upd_Buf_inv [OF inv1 d1 kf] by fastforce
  have b1: "b \<in> owned_bufs s1" using b by (simp add: owned_bufs_def l1)
  have kept2: "views_kept s s2"
  proof -
    have "views_kept s1 s2"
      by (rule views_buffers [OF inv1 s2(3), of b]) (use sb_inv_own [OF inv1 b1] in \<open>simp_all add: s2(4)\<close>)
    then show ?thesis by (rule views_kept_trans [OF views_kept_log [OF v(2)]])
  qed
  show ?thesis
  proof (cases "sb_msg_check ?m = 0")
    case False
    let ?s3 = "upd_HK (\<lambda>h. h\<lparr>MsgSendErrorCounter := MsgSendErrorCounter h + 1\<rparr>) s2"
    have l3: "log_step s2 ?s3" by simp
    have "CFE_SB_TransmitBuffer e (Some b) upd s = Some (sb_msg_check ?m, ?s3)"
      using False d valid v(1) s2(1) by (simp add: CFE_SB_TransmitBuffer_def)
    moreover have "bus_ok ?s3" using s2(2) view_log(5) [OF l3] by (simp add: bus_ok_def)
    moreover have "views_kept s ?s3" by (rule views_kept_trans [OF kept2 views_kept_log [OF l3]])
    moreover have "b \<in> owned_bufs ?s3" "content ?s3 b = ?m" using s2(5) d(2) by (simp_all add: owned_bufs_def content_def upd_HK_def)
    ultimately show ?thesis using False m by simp
  next
    case True
    then have mid: "mid = CFE_MSG_GetMsgId ?m" and rid: "rid = CFE_SBR_GetRouteId mid s" and vm: "CFE_SB_IsValidMsgId mid" using v(3) by auto
    let ?g = "\<lambda>d. d\<lparr>bd_NeedsUpdate := upd, bd_ContentType := CFE_MSG_GetType (bd_Content d)\<rparr>"
    have kg: "keeps_links ?g" by (rule keeps_linksI) simp_all
    obtain s3 where s3: "upd_Buf b ?g s2 = Some s3" "sb_inv (\<lambda>_. 0) s3" "buf_step s2 s3"
      "buf_info s3 = (buf_info s2)(b := map_option ?g (buf_info s2 b))" "Bufs s3 b = Some (?g (?f d))"
      using upd_Buf_inv [OF s2(2,5) kg] by fastforce
    let ?d = "?g (?f d)"
    have b3: "b \<in> owned_bufs s3" using s3(5) d(2) by (simp add: owned_bufs_def)
    note z3 = sb_inv_own [OF s3(2) b3]
    have "sized (bd_Content ?d)" using sz m by simp
    then obtain s4 evs where s4: "broadcast_locked e b rid s3 = Some (s4, evs)" "broadcasted e b rid ?d s3 s4" "sb_inv (\<lambda>_. 0) s4"
      using broadcast_locked_inv [OF s3(2,5), of e rid] b3 by auto
    let ?s5 = "broadcast_events e b evs s4"
    have l5: "log_step s4 ?s5" by (rule log_step_broadcast_events)
    have run: "CFE_SB_TransmitBuffer e (Some b) upd s = Some (0, ?s5)"
      using True d valid v(1) s2(1) s3(1) s4(1)
      by (simp add: CFE_SB_TransmitBuffer_def CFE_SB_BroadcastBufferToRoute_def)
    have st: "buf_step s1 s3" by (rule buf_step_trans [OF s2(3) s3(3)])
    note bs = buf_step_simps [OF st]
    have kept3: "views_kept s s3"
    proof -
      have "views_kept s1 s3"
        by (rule views_buffers [OF inv1 st, of b]) (use sb_inv_own [OF inv1 b1] in \<open>simp_all add: s2(4) s3(4)\<close>)
      then show ?thesis by (rule views_kept_trans [OF views_kept_log [OF v(2)]])
    qed
    have rid3: "CFE_SBR_GetRouteId k s3 = CFE_SBR_GetRouteId k s" for k
      using buf_step_route(4) [OF st] log_step_route(3) [OF v(2)] by simp
    have seq3: "seq_of s3 k = seq_of s k" for k unfolding seq_of_def rid3 by (rule seq_cong) (simp add: bs l1)
    have acc3: "accepts e s3 d = accepts e s d" for d by (simp add: accepts_def wants_def q_room_def pipe_of_def bs l1)
    let ?u = "upd \<and> CFE_SBR_GetRouteId (CFE_MSG_GetMsgId ?m) s \<noteq> 0"
    have rb: "rid \<in> route_ids \<longleftrightarrow> rid \<noteq> 0"
      using GetRouteId_bound [OF route_invD(1) [OF sb_invD(1) [OF inv]], of mid] by (auto simp: rid)
    have up: "updates_header rid ?d = ?u" using rb by (auto simp: updates_header_def rid mid)
    have copy: "bd_Content (sent_buf e s3 rid ?d) = sent_copy e s ?u ?m"
      using up seq3 [of mid] rid3 [of mid] by (auto simp: sent_buf_def sent_copy_def next_seq_def seq_of_def rid mid)
    have pub: "published e mid ?u (sent_copy e s ?u ?m) s3 s4"
      using broadcast_published [OF s3(2) s4(3), of e b mid ?d] s4(2) s3(5) z3 rid rid3 up copy vm by simp
    have "published e mid ?u (sent_copy e s ?u ?m) s ?s5"
      unfolding published_def
    proof (intro conjI allI impI)
      fix p
      show "is_pipe ?s5 p = is_pipe s p" using pub kept3 view_log(3) [OF l5] by (simp add: published_def views_kept_def)
      assume "is_pipe s p"
      then show "mail ?s5 p = mail s p @ (if takes e s mid p then [sent_copy e s ?u ?m] else [])" "in_hand ?s5 p = in_hand s p"
        using pub kept3 view_log(1,2) [OF l5] by (simp_all add: published_def views_kept_def takes_def acc3)
    next
      fix k
      show "subscriptions ?s5 k = map (\<lambda>d. if k = mid \<and> accepts e s d then delivered d else d) (subscriptions s k)"
        using pub kept3 log_step_route(2) [OF l5] by (simp add: published_def views_kept_def acc3)
      have "seq_of ?s5 k = seq_of s4 k"
        unfolding seq_of_def log_step_route(3) [OF l5] by (rule seq_cong) (simp add: log_step_simps [OF l5])
      then show "seq_of ?s5 k = (if k = mid \<and> ?u then CFE_MSG_GetNextSequenceCount (seq_of s k) else seq_of s k)"
        using pub by (simp add: published_def seq3)
    qed
    moreover have "bus_ok ?s5" using s4(3) view_log(5) [OF l5] by (simp add: bus_ok_def)
    moreover have "b \<notin> owned_bufs ?s5"
    proof -
      have "owned_bufs s4 = owned_bufs s3 - {b}"
        using s4(2) unfolding broadcasted_def Let_def owned_bufs_info by (auto split: if_splits)
      then show ?thesis by (simp add: owned_bufs_def log_step_simps [OF l5])
    qed
    ultimately show ?thesis using run True m mid by simp
  qed
qed

end
