(* ===== verification/Sb_Calls.thy ===== *)
theory Sb_Calls
  imports Sb_Api
begin

text \<open>
  Programs of calls. A call of the bus is a value, a run is a sequence of calls by any applications under any
  answers of the memory pool, the operating system and the clock; every run from start-up keeps the
  invariant and reaches no undefined step.
\<close>

section \<open>Start-up\<close>

lemma reset_route: "route_inv sb_reset"
proof -
  have h: "CFE_SBR_GetDestListHeadPtr r sb_reset = None" for r
    by (auto simp: CFE_SBR_GetDestListHeadPtr_def CFE_SBR_RouteIdToValue_def sb_reset_def)
  then have d: "route_dests sb_reset r = []" for r by (simp add: route_dests_def)
  have "map_inv sb_reset" by (simp add: map_inv_def sb_reset_def)
  moreover have "dest_inv sb_reset" unfolding dest_inv_def d h by (simp add: sb_reset_def)
  moreover have "sub_stat sb_reset" by (simp add: sub_stat_def sb_reset_def)
  ultimately show ?thesis by (simp add: route_inv_def)
qed

lemma reset_ok: "bus_ok sb_reset"
proof -
  have dead: "\<not> live_slot sb_reset i" for i by (auto simp: live_slot_def sb_reset_def pipe_clear_def)
  have "pipe_ok sb_reset" using dead by (simp add: pipe_ok_def) (simp add: sb_reset_def queues_ok_def)
  moreover have own: "owned_bufs sb_reset = {}" by (simp add: owned_bufs_def sb_reset_def)
  moreover have r: "refs sb_reset b = 0" for b
  proof -
    have "q_refs (Queues sb_reset) b = 0" by (simp add: q_refs_def sb_reset_def)
    moreover have "last_refs sb_reset b = 0" using dead by (simp add: last_refs_def)
    ultimately show ?thesis by (simp add: refs_def own_refs_def own)
  qed
  moreover have "tracked sb_reset [] []" by (simp add: tracked_def two_rings_def ring_def sb_reset_def)
  moreover have "counts_ok (\<lambda>_. 0) sb_reset" by (simp add: counts_ok_def sb_reset_def)
  ultimately have "buf_inv (\<lambda>_. 0) sb_reset" by (auto simp: buf_inv_def)
  then show ?thesis
    using \<open>pipe_ok sb_reset\<close> reset_route own r by (simp add: bus_ok_def sb_inv_def) (simp add: sb_reset_def)
qed


section \<open>Calls and runs\<close>

datatype sb_call =
    CreatePipe bool u16
  | DeletePipe u32
  | CleanUpApp u32
  | SetPipeOpts u32 u8
  | GetPipeOpts u32 bool
  | GetPipeName "nat option" u32
  | GetPipeIdByName bool "string option"
  | SubscribeFull u32 u32 "u8 \<times> u8" u16 u8
  | UnsubscribeFull u32 u32 u8 u32
  | TransmitMsg "bytes option" bool
  | ReceiveBuffer bool u32 int
  | AllocateMessageBuffer nat
  | WriteBuffer nat bytes
  | ReleaseMessageBuffer "nat option"
  | TransmitBuffer "nat option" bool
  | SetSubscriptionReporting u32

fun sb_exec :: "sb_env \<Rightarrow> sb_call \<Rightarrow> sb_state \<Rightarrow> sb_state option" where
  "sb_exec e (CreatePipe ptr depth) s = Some (snd (snd (CFE_SB_CreatePipe e ptr depth s)))"
| "sb_exec e (DeletePipe p) s = map_option snd (CFE_SB_DeletePipe e p s)"
| "sb_exec e (CleanUpApp app) s = map_option snd (CFE_SB_CleanUpApp e app s)"
| "sb_exec e (SetPipeOpts p opts) s = Some (snd (CFE_SB_SetPipeOpts e p opts s))"
| "sb_exec e (GetPipeOpts p ptr) s = Some (snd (snd (CFE_SB_GetPipeOpts p ptr s)))"
| "sb_exec e (GetPipeName buf p) s = Some (snd (snd (CFE_SB_GetPipeName e buf p s)))"
| "sb_exec e (GetPipeIdByName ptr name) s = Some (snd (snd (CFE_SB_GetPipeIdByName e ptr name s)))"
| "sb_exec e (SubscribeFull mid p qos lim scope) s = map_option snd (CFE_SB_SubscribeFull e mid p qos lim scope s)"
| "sb_exec e (UnsubscribeFull mid p scope app) s = map_option snd (CFE_SB_UnsubscribeFull e mid p scope app s)"
| "sb_exec e (TransmitMsg msg upd) s = map_option snd (CFE_SB_TransmitMsg e msg upd s)"
| "sb_exec e (ReceiveBuffer ptr p t) s = map_option (\<lambda>x. snd (snd x)) (CFE_SB_ReceiveBuffer e ptr p t s)"
| "sb_exec e (AllocateMessageBuffer n) s = map_option snd (CFE_SB_AllocateMessageBuffer e n s)"
| "sb_exec e (WriteBuffer b m) s = write_buffer b m s"
| "sb_exec e (ReleaseMessageBuffer buf) s = map_option snd (CFE_SB_ReleaseMessageBuffer buf s)"
| "sb_exec e (TransmitBuffer buf upd) s = map_option snd (CFE_SB_TransmitBuffer e buf upd s)"
| "sb_exec e (SetSubscriptionReporting state) s = Some (CFE_SB_SetSubscriptionReporting state s)"

text \<open>
  What a call may rely on: the pool gives out no block in use, the operating system no queue id in use, and
  a queue that is emptied reports no error. What it asks of its caller: memory of the size the header of
  a message says, an application that exists, pointers to buffers that are allocated, and no writing outside
  a buffer.
\<close>

definition sb_legal :: "sb_env \<Rightarrow> sb_call \<Rightarrow> sb_state \<Rightarrow> bool" where
  "sb_legal e c s \<longleftrightarrow> pool_fresh e \<and> (case c of
      CreatePipe ptr depth \<Rightarrow> queue_fresh e s
    | DeletePipe p \<Rightarrow> GetErr e = OS_SUCCESS
    | CleanUpApp app \<Rightarrow> GetErr e = OS_SUCCESS \<and> app \<noteq> CFE_ES_APPID_UNDEFINED
    | TransmitMsg (Some m) upd \<Rightarrow> sized m
    | AllocateMessageBuffer n \<Rightarrow> snd (CallerApp e) \<noteq> CFE_ES_APPID_UNDEFINED
    | WriteBuffer b m \<Rightarrow> b \<in> owned_bufs s \<and> length m = length (content s b)
    | ReleaseMessageBuffer (Some b) \<Rightarrow> Bufs s b \<noteq> None
    | TransmitBuffer (Some b) upd \<Rightarrow> Bufs s b \<noteq> None \<and> (b \<in> owned_bufs s \<longrightarrow> sized (content s b))
    | _ \<Rightarrow> True)"

lemma reporting_kept: "views_kept s (CFE_SB_SetSubscriptionReporting state s)" "bus_ok (CFE_SB_SetSubscriptionReporting state s) = bus_ok s"
proof -
  let ?t = "CFE_SB_SetSubscriptionReporting state s"
  have eq: "Bufs ?t = Bufs s" "Dests ?t = Dests s" "PipeTbl ?t = PipeTbl s" "Queues ?t = Queues s" "RoutingTbl ?t = RoutingTbl s"
    "RouteIdxTop ?t = RouteIdxTop s" "MsgMap ?t = MsgMap s" "Stat ?t = Stat s"
    "InTransitList ?t = InTransitList s" "ZeroCopyList ?t = ZeroCopyList s"
    by (simp_all add: CFE_SB_SetSubscriptionReporting_def)
  have c: "content ?t = content s" by (rule ext) (simp add: content_def eq)
  have b: "buf_part ?t = buf_part s" by (simp add: buf_part_eq eq CFE_SB_SetSubscriptionReporting_def)
  have r: "route_inv ?t = route_inv s" by (rule route_inv_cong) (simp_all add: eq)
  have d: "route_dests ?t r = route_dests s r" for r by (rule route_inv_cong(2)) (simp_all add: eq)
  have sub: "subscriptions ?t k = subscriptions s k" for k
    by (simp add: subscriptions_def subs_of_def d eq CFE_SBR_GetRouteId_def)
  show "bus_ok ?t = bus_ok s" unfolding bus_ok_def by (rule sb_inv_cong) (simp_all add: eq r)
  show "views_kept s ?t" using views_route [OF b] sub by (simp add: views_kept_def)
qed

lemma SetPipeOpts_ok:
  assumes ok: "bus_ok s"
  shows "bus_ok (snd (CFE_SB_SetPipeOpts e p opts s))"
proof -
  have inv: "sb_inv (\<lambda>_. 0) s" using ok by (simp add: bus_ok_def)
  have log: "bus_ok s'" if "log_step s s'" for s' using view_log(5) [OF that] ok by simp
  show ?thesis
  proof (cases "fst (CallerApp e) = 0 \<and> is_pipe s p \<and> snd (CallerApp e) = owner s p")
    case False
    have "log_step s (sb_event ev ty args (opts_error s))" for ev ty args
      unfolding opts_error_def using log_step_trans [OF log_step_upd(1) log_step_upd(2)] .
    then have "log_step s (snd (CFE_SB_SetPipeOpts e p opts s))"
      using False by (auto simp: CFE_SB_SetPipeOpts_def Let_def PipeDescIsMatch_live is_pipe_def owner_def)
    then show ?thesis by (rule log)
  next
    case True
    then obtain i where i: "CFE_SB_LocatePipeDescByID p = Some i" "live_slot s i" "pd_PipeId (PipeTbl s ! i) = p" using is_pipe_slot by blast
    have lt: "i < 64" using slot_bound [OF inv i(1)] by simp
    let ?s1 = "upd_Pipe i (\<lambda>d. d\<lparr>pd_Opts := opts\<rparr>) s"
    note P = sb_invD(2) [OF inv]
    have "sb_inv (\<lambda>_. 0) ?s1"
      by (rule slot_step_inv [OF inv upd_Pipe_slot lt])
        (use i pipe_okD(5,6) [OF P] dest_slot(1) [OF sb_invD(1) [OF inv]] in \<open>auto simp: last_is_def named_def\<close>)
    then have "bus_ok ?s1" by (simp add: bus_ok_def)
    moreover have "snd (CFE_SB_SetPipeOpts e p opts s) = sb_event CFE_SB_SETPIPEOPTS_EID CFE_EVS_EventType_DEBUG [uint p, uint opts] ?s1"
      using True i(1) PipeDescIsMatch_live [of s p] by (simp add: CFE_SB_SetPipeOpts_def is_pipe_def owner_def)
    ultimately show ?thesis using view_log(5) [OF log_step_upd(2)] by simp
  qed
qed

lemma log_GetPipeOpts: "log_step s (snd (snd (CFE_SB_GetPipeOpts p ptr s)))"
  using log_step_trans [OF log_step_upd(1) log_step_upd(2)] by (auto simp: CFE_SB_GetPipeOpts_def Let_def opts_error_def)

lemma log_GetPipeIdByName: "log_step s (snd (snd (CFE_SB_GetPipeIdByName e ptr name s)))"
  using log_step_trans [OF log_step_upd(1) log_step_upd(2)]
  by (auto simp: CFE_SB_GetPipeIdByName_def Let_def split: option.splits prod.splits)

lemma TransmitMsg_null:
  assumes ok: "bus_ok s"
  shows "\<exists>s'. CFE_SB_TransmitMsg e None upd s = Some (CFE_SB_BAD_ARGUMENT, s') \<and> log_step s s'"
proof -
  let ?s1 = "validate_event e CFE_SB_SEND_BAD_ARG_EID CFE_SB_INVALID_MSG_ID 0 s"
  have "log_step s (upd_HK f ?s1)" for f using log_step_trans [OF log_step_validate log_step_upd(1)] .
  then show ?thesis by (auto simp: CFE_SB_TransmitMsg_def CFE_SB_TransmitMsgValidate_def transmit_alloc_def)
qed

lemma exec_ok:
  assumes ok: "bus_ok s" and legal: "sb_legal e c s"
  shows "\<exists>s'. sb_exec e c s = Some s' \<and> bus_ok s'"
proof -
  have pool: "pool_fresh e" using legal by (simp add: sb_legal_def)
  have log: "bus_ok s'" if "log_step s s'" for s' using view_log(5) [OF that] ok by simp
  show ?thesis
  proof (cases c)
    case (CreatePipe ptr depth)
    then have "queue_fresh e s" using legal by (simp add: sb_legal_def)
    from CreatePipe_ok [OF ok this, of ptr depth] CreatePipe show ?thesis by auto
  next
    case (DeletePipe p)
    then have "GetErr e = OS_SUCCESS" using legal by (simp add: sb_legal_def)
    from DeletePipeFull_ok [OF ok this, of p "snd (CallerApp e)"] show ?thesis by (auto simp: DeletePipe CFE_SB_DeletePipe_def)
  next
    case (CleanUpApp app)
    then have "GetErr e = OS_SUCCESS" "app \<noteq> 0" using legal by (simp_all add: sb_legal_def)
    from CleanUpApp_ok [OF ok this] show ?thesis by (auto simp: CleanUpApp)
  next
    case (SubscribeFull mid p qos lim scope)
    from SubscribeFull_ok [OF ok pool, of mid p qos lim scope] show ?thesis by (auto simp: SubscribeFull)
  next
    case (UnsubscribeFull mid p scope app)
    from UnsubscribeFull_ok [OF ok, of e mid p scope app] show ?thesis by (auto simp: UnsubscribeFull)
  next
    case (TransmitMsg msg upd)
    show ?thesis
    proof (cases msg)
      case None
      then show ?thesis using TransmitMsg_null [OF ok, of e upd] log by (auto simp: TransmitMsg)
    next
      case (Some m)
      then have "sized m" using legal by (simp add: sb_legal_def TransmitMsg)
      from TransmitMsg_ok [OF ok pool this, of upd] show ?thesis by (auto simp: TransmitMsg Some)
    qed
  next
    case (ReceiveBuffer ptr p t)
    from ReceiveBuffer_ok [OF ok, of e ptr p t] show ?thesis by (auto simp: ReceiveBuffer)
  next
    case (AllocateMessageBuffer n)
    then have "snd (CallerApp e) \<noteq> 0" using legal by (simp add: sb_legal_def)
    from AllocateMessageBuffer_ok [OF ok pool this, of n] show ?thesis by (auto simp: AllocateMessageBuffer)
  next
    case (WriteBuffer b m)
    then have "b \<in> owned_bufs s" using legal by (simp add: sb_legal_def)
    from write_buffer_ok [OF ok this, of m] show ?thesis by (auto simp: WriteBuffer)
  next
    case (ReleaseMessageBuffer buf)
    show ?thesis
    proof (cases buf)
      case None
      then show ?thesis using ok by (simp add: ReleaseMessageBuffer CFE_SB_ReleaseMessageBuffer_def CFE_SB_ZeroCopyBufferValidate_def)
    next
      case (Some b)
      then obtain d where "Bufs s b = Some d" using legal by (auto simp: sb_legal_def ReleaseMessageBuffer)
      from ReleaseMessageBuffer_ok [OF ok this] show ?thesis by (auto simp: ReleaseMessageBuffer Some)
    qed
  next
    case (TransmitBuffer buf upd)
    show ?thesis
    proof (cases buf)
      case None
      then show ?thesis using log by (simp add: TransmitBuffer CFE_SB_TransmitBuffer_def CFE_SB_ZeroCopyBufferValidate_def)
    next
      case (Some b)
      then obtain d where d: "Bufs s b = Some d" using legal by (auto simp: sb_legal_def TransmitBuffer)
      show ?thesis
      proof (cases "b \<in> owned_bufs s")
        case True
        then have "sized (content s b)" using legal Some by (simp add: sb_legal_def TransmitBuffer)
        from TransmitBuffer_ok [OF ok True this, of e upd] show ?thesis by (auto simp: TransmitBuffer Some)
      next
        case False
        then have "CFE_SB_ZeroCopyBufferValidate (Some b) s = Some CFE_SB_BUFFER_INVALID"
          using d by (auto simp: CFE_SB_ZeroCopyBufferValidate_def owned_bufs_def)
        then show ?thesis using log by (simp add: TransmitBuffer Some CFE_SB_TransmitBuffer_def)
      qed
    qed
  qed (use ok log log_GetPipeOpts log_step_name log_GetPipeIdByName SetPipeOpts_ok [OF ok] reporting_kept(2) in auto)
qed


section \<open>A small bus\<close>

text \<open>An environment with a pool of four blocks, and the first calls of an application.\<close>

definition demo_pool :: "sb_state \<Rightarrow> nat \<Rightarrow> int \<times> nat" where
  "demo_pool s n = (case find (\<lambda>a. Bufs s a = None \<and> Dests s a = None) [100, 200, 300, 400] of
     None \<Rightarrow> (- 1, 0) | Some a \<Rightarrow> (int n, a))"

definition demo_env :: sb_env where
  "demo_env = \<lparr>CallerApp = (0, 7), CallerTask = Some 3, GetPoolBuf = demo_pool, PutPoolBuf = (\<lambda>_ _. 0),
     BUFFERD_CONTENT_OFFSET = 48, DESTINATION_SIZE = 32, PoolByte = (\<lambda>_. 0), PoolWord = (\<lambda>_. 0),
     QueueResult = (0, 0x10001), QueueTrunc = 0, PutErr = (\<lambda>_. 0), GetErr = 0, ResourceName = (\<lambda>_. (0, ''PIPE'')),
     QueueIdByName = (\<lambda>_. (0, 0x10001)), Clock = \<lparr>Seconds = 1000, Subseconds = 0\<rparr>, Host = LittleEndian\<rparr>"

lemma demo_pool_fresh: "pool_fresh demo_env"
  by (auto simp: pool_fresh_def demo_env_def demo_pool_def split: option.splits if_splits)

definition demo_pipe :: u32 where "demo_pipe = 0x160001"

definition demo1 :: sb_state where "demo1 = snd (snd (CFE_SB_CreatePipe demo_env True 4 sb_reset))"

definition demo2 :: sb_state where
  "demo2 = snd (the (CFE_SB_SubscribeFull demo_env 0x18A9 demo_pipe (0, 0) 4 CFE_SB_MSG_GLOBAL demo1))"

lemma find_next_unfold: "0 < n \<Longrightarrow> find_next_loop n ser ty tsize chk =
     (let Serial = ser + 1; Serial = (if Serial \<ge> CFE_RESOURCEID_MAX then Serial mod of_nat tsize else Serial); CheckId = ty + Serial
      in if chk CheckId then find_next_loop (n - 1) Serial ty tsize chk else CheckId)"
  by (cases n) (simp_all add: Let_def)

lemma reserve_reset: "create_reserve sb_reset = (Some (1, demo_pipe),
    sb_reset\<lparr>PipeTbl := (replicate 64 pipe_clear)[1 := reserved_slot], LastPipeId := demo_pipe\<rparr>)"
proof -
  have l: "CFE_SB_LocatePipeDescByID 0x160001 = Some 1"
    by (simp add: CFE_SB_LocatePipeDescByID_def CFE_SB_PipeId_ToIndex_def CFE_ResourceId_ToIndex_def)
  have u: "\<not> CFE_SB_CheckPipeDescSlotUsed sb_reset 0x160001"
    by (simp add: CFE_SB_CheckPipeDescSlotUsed_def l CFE_SB_PipeDescIsUsed_def sb_reset_def pipe_clear_def)
  have "CFE_ResourceId_FindNext (LastPipeId sb_reset) 64 (CFE_SB_CheckPipeDescSlotUsed sb_reset) = 0x160001"
    unfolding CFE_ResourceId_FindNext_def
    by (subst find_next_unfold) (use u in \<open>simp_all add: CFE_ResourceId_GetSerial_def CFE_ResourceId_GetBase_def sb_reset_def\<close>)
  then show ?thesis
    by (simp add: create_reserve_def l demo_pipe_def CFE_SB_PipeDescSetUsed_def upd_Pipe_def upd_at_def reserved_slot_def sb_reset_def)
qed

lemma demo_create: "CFE_SB_CreatePipe demo_env True 4 sb_reset = (0, Some demo_pipe, demo1)"
  by (simp add: demo1_def CFE_SB_CreatePipe_def reserve_reset OS_QueueCreate_def demo_env_def)

lemma demo1_parts:
  "PipeTbl demo1 = (replicate 64 pipe_clear)[1 := reserved_slot\<lparr>pd_PipeId := demo_pipe, pd_SysQueueId := 0x10001, pd_MaxQueueDepth := 4, pd_AppId := 7\<rparr>]"
  "Queues demo1 = [0x10001 \<mapsto> \<lparr>q_depth = 4, q_msgs = []\<rparr>]"
  by (simp_all add: demo1_def CFE_SB_CreatePipe_def reserve_reset OS_QueueCreate_def demo_env_def create_commit_def
      CFE_SB_PipeDescSetUsed_def upd_Pipe_def upd_at_def upd_Stat_def sb_event_def reserved_slot_def pipe_clear_def)
    (simp_all add: sb_reset_def)

lemma demo_legal_create: "sb_legal demo_env (CreatePipe True 4) sb_reset"
  using demo_pool_fresh by (simp add: sb_legal_def queue_fresh_def demo_env_def sb_reset_def)


lemma demo1_ok: "bus_ok demo1"
  using exec_ok [OF reset_ok demo_legal_create] by (simp add: demo_create)

lemma demo_locate: "CFE_SB_LocatePipeDescByID demo_pipe = Some 1"
  by (simp add: demo_pipe_def CFE_SB_LocatePipeDescByID_def CFE_SB_PipeId_ToIndex_def CFE_ResourceId_ToIndex_def)

lemma reset_subscriptions: "subscriptions sb_reset k = []"
proof -
  have "CFE_SBR_GetDestListHeadPtr r sb_reset = None" for r
    by (auto simp: CFE_SBR_GetDestListHeadPtr_def CFE_SBR_RouteIdToValue_def sb_reset_def)
  then show ?thesis by (simp add: subscriptions_def subs_of_def route_dests_def)
qed

lemma demo1_rest:
  "RoutingTbl demo1 = RoutingTbl sb_reset" "Dests demo1 = (\<lambda>_. None)" "Bufs demo1 = (\<lambda>_. None)" "MsgMap demo1 = (\<lambda>_. 0)" "RouteIdxTop demo1 = 0"
  "SubscriptionReporting demo1 = CFE_SB_DISABLE" "subscriptions demo1 k = []"
proof -
  show p: "RoutingTbl demo1 = RoutingTbl sb_reset" "Dests demo1 = (\<lambda>_. None)" "Bufs demo1 = (\<lambda>_. None)" "MsgMap demo1 = (\<lambda>_. 0)" "RouteIdxTop demo1 = 0"
    "SubscriptionReporting demo1 = CFE_SB_DISABLE"
    by (simp_all add: demo1_def CFE_SB_CreatePipe_def reserve_reset OS_QueueCreate_def demo_env_def create_commit_def
        CFE_SB_PipeDescSetUsed_def upd_Pipe_def upd_at_def upd_Stat_def sb_event_def reserved_slot_def pipe_clear_def)
      (simp_all add: sb_reset_def)
  have "route_dests demo1 r = route_dests sb_reset r" for r unfolding route_dests_def head_cong [OF p(1)] p(2) by (simp add: sb_reset_def)
  moreover have "CFE_SBR_GetRouteId k demo1 = CFE_SBR_GetRouteId k sb_reset" by (simp add: CFE_SBR_GetRouteId_def p) (simp add: sb_reset_def)
  ultimately show "subscriptions demo1 k = []" using reset_subscriptions [of k] by (simp add: subscriptions_def subs_of_def)
qed

lemma demo1_live: "live_pipe (PipeTbl demo1) demo_pipe"
  by (simp add: live_pipe_def demo_locate demo1_parts)

lemma demo_outcome: "subscribe_outcome demo_env 0x18A9 demo_pipe 0 demo1 = 0"
proof -
  have r: "subscribe_refused demo_env 0x18A9 demo_pipe 0 demo1 = 0"
    using demo1_live by (simp add: subscribe_refused_def demo_locate demo1_parts demo1_rest demo_env_def CFE_SB_IsValidMsgId_def)
  let ?s = "snd (snd (snd (subscribe_route demo_env 0x18A9 demo_pipe 0 demo1)))"
  have "Bufs ?s = (\<lambda>_. None)" "Dests ?s = (\<lambda>_. None)"
    by (auto simp: subscribe_route_def AddRoute_eq added_route_def upd_Stat_def demo1_rest Let_def)
  then have "fst (GetPoolBuf demo_env ?s (DESTINATION_SIZE demo_env)) = 32" by (simp add: demo_env_def demo_pool_def)
  then show ?thesis using r by (simp add: subscribe_outcome_def demo1_rest)
qed

lemma demo_subscribe:
  "CFE_SB_SubscribeFull demo_env 0x18A9 demo_pipe (0, 0) 4 CFE_SB_MSG_GLOBAL demo1 = Some (0, demo2)" and demo2_ok: "bus_ok demo2"
  and demo2_subs: "subscriptions demo2 k = (if k = 0x18A9 then [new_dest demo_pipe 4 0] else [])"
  and demo2_views: "is_pipe demo2 p = is_pipe demo1 p" "mail demo2 p = mail demo1 p" "in_hand demo2 p = in_hand demo1 p" "owner demo2 p = owner demo1 p"
proof -
  obtain s1 s' where s: "CFE_SB_SubscribeFull demo_env 0x18A9 demo_pipe (0, 0) 4 CFE_SB_MSG_GLOBAL demo1 =
      Some (subscribe_status (subscribe_outcome demo_env 0x18A9 demo_pipe 0 demo1), s')" "bus_ok s'"
     "resubscribed (\<lambda>k. if k = 0x18A9 \<and> subscribe_outcome demo_env 0x18A9 demo_pipe 0 demo1 = 0
        then new_dest demo_pipe 4 0 # subscriptions demo1 k else subscriptions demo1 k) demo1 s1" "log_step s1 s'"
    using SubscribeFull_ok [OF demo1_ok demo_pool_fresh, of "0x18A9" demo_pipe "(0, 0)" 4 0] demo1_rest(6) by auto
  then show 1: "CFE_SB_SubscribeFull demo_env 0x18A9 demo_pipe (0, 0) 4 CFE_SB_MSG_GLOBAL demo1 = Some (0, demo2)"
    by (simp add: demo_outcome subscribe_status_def demo2_def)
  then have d: "demo2 = s'" using s(1) by simp
  note rs = resubscribed_log [OF s(3,4)]
  show "bus_ok demo2" using s(2) d by simp
  show "subscriptions demo2 k = (if k = 0x18A9 then [new_dest demo_pipe 4 0] else [])"
    using rs by (simp add: d resubscribed_def demo_outcome demo1_rest)
  show "is_pipe demo2 p = is_pipe demo1 p" "mail demo2 p = mail demo1 p" "in_hand demo2 p = in_hand demo1 p" "owner demo2 p = owner demo1 p"
    using rs by (simp_all add: d resubscribed_def)
qed


lemma demo2_takes: "takes demo_env demo2 0x18A9 demo_pipe"
proof -
  have p: "PipeTbl demo2 = PipeTbl demo1" "Queues demo2 = Queues demo1"
  proof -
    obtain s1 s' where s: "CFE_SB_SubscribeFull demo_env 0x18A9 demo_pipe (0, 0) 4 CFE_SB_MSG_GLOBAL demo1 =
        Some (subscribe_status (subscribe_outcome demo_env 0x18A9 demo_pipe 0 demo1), s')"
       "resubscribed (\<lambda>k. if k = 0x18A9 \<and> subscribe_outcome demo_env 0x18A9 demo_pipe 0 demo1 = 0
          then new_dest demo_pipe 4 0 # subscriptions demo1 k else subscriptions demo1 k) demo1 s1" "log_step s1 s'"
      using SubscribeFull_ok [OF demo1_ok demo_pool_fresh, of "0x18A9" demo_pipe "(0, 0)" 4 0] demo1_rest(6) by auto
    then have "demo2 = s'" using demo_subscribe by simp
    then show "PipeTbl demo2 = PipeTbl demo1" "Queues demo2 = Queues demo1"
      using resubscribed_log [OF s(2,3)] by (simp_all add: resubscribed_def)
  qed
  have "accepts demo_env demo2 (new_dest demo_pipe 4 0)"
    by (simp add: accepts_def wants_def q_room_def pipe_of_def p demo1_parts demo_locate new_dest_def demo_env_def reserved_slot_def pipe_clear_def)
  then show ?thesis by (simp add: takes_def demo2_subs new_dest_def)
qed

lemma demo2_pipe: "is_pipe demo2 demo_pipe" "mail demo2 demo_pipe = []" "owner demo2 demo_pipe = 7"
  using demo1_live by (simp_all add: demo2_views) (simp_all add: is_pipe_def mail_def owner_def pipe_queue_def demo_locate demo1_parts q_content_def)

text \<open>A message to it.\<close>

definition demo_msg :: bytes where "demo_msg = [0x18, 0xA9, 0xC0, 0, 0, 5, 4, 0, 5, 0, 0, 0]"

lemma demo_msg_ok: "sized demo_msg" "sb_msg_check demo_msg = 0" "CFE_MSG_GetMsgId demo_msg = 0x18A9" "CFE_MSG_GetSize demo_msg = 12"
proof -
  show m: "CFE_MSG_GetMsgId demo_msg = 0x18A9" and s: "CFE_MSG_GetSize demo_msg = 12"
    by (simp_all add: demo_msg_def CFE_MSG_GetMsgId_def CFE_MSG_GetSize_def byte_at_def)
  show "sized demo_msg" by (simp add: sized_def s) (simp add: demo_msg_def)
  show "sb_msg_check demo_msg = 0" by (simp add: sb_msg_check_def m s CFE_SB_IsValidMsgId_def)
qed


section \<open>First in, first out\<close>

text \<open>
  A queue seen from outside: every step may put messages at its end, or hands out the first one. The
  history of a run: what came in, what went out, and the state it ends in.
\<close>

primrec history :: "('c \<Rightarrow> 's \<Rightarrow> ('m option \<times> 's) option) \<Rightarrow> ('s \<Rightarrow> 'm list) \<Rightarrow> 'c list \<Rightarrow> 's \<Rightarrow> ('m list \<times> 'm list \<times> 's) option" where
  "history step w [] s = Some ([], [], s)"
| "history step w (c # cs) s = Option.bind (step c s) (\<lambda>(r, s1). map_option (\<lambda>(inn, out, s2).
     ((if r = None then drop (length (w s)) (w s1) else []) @ inn, (case r of None \<Rightarrow> out | Some m \<Rightarrow> m # out), s2)) (history step w cs s1))"

primrec permitted :: "('c \<Rightarrow> 's \<Rightarrow> ('m option \<times> 's) option) \<Rightarrow> ('c \<Rightarrow> 's \<Rightarrow> bool) \<Rightarrow> 'c list \<Rightarrow> 's \<Rightarrow> bool" where
  "permitted step allowed [] s \<longleftrightarrow> True"
| "permitted step allowed (c # cs) s \<longleftrightarrow> allowed c s \<and> (case step c s of None \<Rightarrow> True | Some (r, s1) \<Rightarrow> permitted step allowed cs s1)"

locale fifo =
  fixes good :: "'s \<Rightarrow> bool" and waiting :: "'s \<Rightarrow> 'm list" and step :: "'c \<Rightarrow> 's \<Rightarrow> ('m option \<times> 's) option"
    and allowed :: "'c \<Rightarrow> 's \<Rightarrow> bool"
  assumes step_ok: "good s \<Longrightarrow> allowed c s \<Longrightarrow> \<exists>r s'. step c s = Some (r, s') \<and> good s' \<and>
    (case r of None \<Rightarrow> \<exists>xs. waiting s' = waiting s @ xs | Some m \<Rightarrow> waiting s = m # waiting s')"
begin

lemma history_ok:
  "good s \<Longrightarrow> permitted step allowed cs s \<Longrightarrow>
   \<exists>inn out s'. history step waiting cs s = Some (inn, out, s') \<and> good s' \<and> waiting s @ inn = out @ waiting s'"
proof (induction cs arbitrary: s)
  case (Cons c cs)
  then obtain r s1 where s1: "step c s = Some (r, s1)" "good s1"
    "case r of None \<Rightarrow> \<exists>xs. waiting s1 = waiting s @ xs | Some m \<Rightarrow> waiting s = m # waiting s1"
    using step_ok [of s c] by auto
  then have "permitted step allowed cs s1" using Cons.prems(2) by simp
  then obtain inn out s' where h: "history step waiting cs s1 = Some (inn, out, s')" "good s'" "waiting s1 @ inn = out @ waiting s'"
    using Cons.IH [OF s1(2)] by blast
  then show ?case using s1(1,3) by (cases r) auto
qed simp

end

section \<open>A pipe is such a queue\<close>

lemma TransmitMsg_mail:
  assumes ok: "bus_ok s" and pool: "pool_fresh e" and m: "\<And>m'. msg = Some m' \<Longrightarrow> sized m'" and p: "is_pipe s p"
    and run: "CFE_SB_TransmitMsg e msg upd s = Some (st, s')"
  shows "is_pipe s' p \<and> (\<exists>xs. mail s' p = mail s p @ xs)"
proof (cases msg)
  case None
  then show ?thesis using TransmitMsg_null [OF ok, of e upd] run view_log(1,3) p by fastforce
next
  case (Some m')
  obtain st1 s1 where t: "CFE_SB_TransmitMsg e (Some m') upd s = Some (st1, s1)"
     "if sb_msg_check m' \<noteq> 0 then st1 = sb_msg_check m' \<and> log_step s s1
      else if CFE_SBR_GetRouteId (CFE_MSG_GetMsgId m') s = 0 then st1 = 0 \<and> log_step s s1
      else st1 = CFE_SB_BUF_ALOC_ERR \<and> log_step s s1 \<and> (\<exists>t. log_step s t \<and> fst (GetPoolBuf e t (CFE_MSG_GetSize m' + BUFFERD_CONTENT_OFFSET e)) < 0) \<or>
        st1 = 0 \<and> published e (CFE_MSG_GetMsgId m') upd (sent_copy e s upd (take (CFE_MSG_GetSize m') m')) s s1"
    using TransmitMsg_ok [OF ok pool m [OF Some], of upd] by blast
  have "s1 = s'" using t(1) run Some by simp
  moreover have "log_step s s1 \<or> (\<exists>mid x. published e mid upd x s s1)" using t(2) by (auto split: if_splits)
  ultimately show ?thesis using p view_log(1,3) [of s s1] by (auto simp: published_def)
qed

lemma SetPipeOpts_views:
  assumes ok: "bus_ok s" and q: "is_pipe s q"
  shows "is_pipe (snd (CFE_SB_SetPipeOpts e p opts s)) q \<and> mail (snd (CFE_SB_SetPipeOpts e p opts s)) q = mail s q"
proof -
  obtain i where i: "CFE_SB_LocatePipeDescByID q = Some i" "live_slot s i" "pd_PipeId (PipeTbl s ! i) = q" using is_pipe_slot [OF q] by blast
  have log: "is_pipe s' q \<and> mail s' q = mail s q" if "log_step s s'" for s' using view_log(1,3) [OF that] q by simp
  have upd: "is_pipe (upd_Pipe j (\<lambda>d. d\<lparr>pd_Opts := opts\<rparr>) s) q \<and> mail (upd_Pipe j (\<lambda>d. d\<lparr>pd_Opts := opts\<rparr>) s) q = mail s q" for j
  proof -
    let ?t = "upd_Pipe j (\<lambda>d. d\<lparr>pd_Opts := opts\<rparr>) s"
    have c: "content ?t = content s" by (rule ext) (simp add: content_def upd_Pipe_def)
    have lt: "i < length (PipeTbl s)" using slot_bound [OF _ i(1)] ok unfolding bus_ok_def by blast
    have f: "pd_PipeId (PipeTbl ?t ! i) = pd_PipeId (PipeTbl s ! i)"
      "pd_SysQueueId (PipeTbl ?t ! i) = pd_SysQueueId (PipeTbl s ! i)"
      using lt by (cases "i = j"; simp add: upd_Pipe_def upd_at_def)+
    have qs: "Queues ?t = Queues s" by (simp add: upd_Pipe_def)
    show ?thesis using q i by (simp add: is_pipe_def live_pipe_def mail_def pipe_queue_def f c qs)
  qed
  have err: "log_step s (sb_event ev ty args (opts_error s))" for ev ty args
    unfolding opts_error_def using log_step_trans [OF log_step_upd(1) log_step_upd(2)] .
  have "P (snd (CFE_SB_SetPipeOpts e p opts s))"
    if "P s" "\<And>ev ty args. P (sb_event ev ty args (opts_error s))"
      "\<And>ev ty args j. P (sb_event ev ty args (upd_Pipe j (\<lambda>d. d\<lparr>pd_Opts := opts\<rparr>) s))" for P
    using that by (simp add: CFE_SB_SetPipeOpts_def Let_def)
  from this [of "\<lambda>t. is_pipe t q \<and> mail t q = mail s q"] show ?thesis
    using q log [OF err] upd by (simp add: view_log(1,3) [OF log_step_upd(2)])
qed

definition removes :: "u32 \<Rightarrow> sb_call \<Rightarrow> sb_state \<Rightarrow> bool" where
  "removes p c s \<longleftrightarrow> c = DeletePipe p \<or> c = CleanUpApp (owner s p)"

lemma exec_mail:
  assumes ok: "bus_ok s" and legal: "sb_legal e c s" and p: "is_pipe s p" and no: "\<not> removes p c s"
    and nr: "\<And>ptr t. c \<noteq> ReceiveBuffer ptr p t" and run: "sb_exec e c s = Some s'"
  shows "is_pipe s' p \<and> (\<exists>xs. mail s' p = mail s p @ xs)"
proof -
  have pool: "pool_fresh e" using legal by (simp add: sb_legal_def)
  have log: "is_pipe t p \<and> (\<exists>xs. mail t p = mail s p @ xs)" if "log_step s t" for t using view_log(1,3) [OF that] p by simp
  have kept: "is_pipe t p \<and> (\<exists>xs. mail t p = mail s p @ xs)" if "views_kept s t" for t using that p by (simp add: views_kept_def)
  show ?thesis
  proof (cases c)
    case (CreatePipe ptr depth)
    then have "queue_fresh e s" using legal by (simp add: sb_legal_def)
    from CreatePipe_ok [OF ok this, of ptr depth] run CreatePipe show ?thesis
      using log kept p by (auto simp: with_pipe_def split: if_splits)
  next
    case (DeletePipe q)
    then have "GetErr e = OS_SUCCESS" "q \<noteq> p" using legal no by (auto simp: sb_legal_def removes_def)
    with DeletePipeFull_ok [OF ok this(1), of q "snd (CallerApp e)"] run show ?thesis
      using log p by (auto simp: DeletePipe CFE_SB_DeletePipe_def without_pipes_def split: if_splits)
  next
    case (CleanUpApp app)
    then have "GetErr e = OS_SUCCESS" "app \<noteq> 0" "owner s p \<noteq> app" using legal no by (auto simp: sb_legal_def removes_def)
    with CleanUpApp_ok [OF ok this(1,2)] run show ?thesis using p by (auto simp: CleanUpApp without_pipes_def)
  next
    case (SubscribeFull mid q qos lim scope)
    obtain s1 t where t: "CFE_SB_SubscribeFull e mid q qos lim scope s = Some (subscribe_status (subscribe_outcome e mid q scope s), t)"
       "bus_ok s1" "resubscribed (\<lambda>k. if k = mid \<and> subscribe_outcome e mid q scope s = 0 then new_dest q lim scope # subscriptions s k else subscriptions s k) s s1"
       "(\<exists>st s2. CFE_SB_TransmitMsg e (Some (subscription_report (Host e) mid q qos)) True s1 = Some (st, s2) \<and> log_step s2 t) \<or> log_step s1 t"
      using SubscribeFull_ok [OF ok pool, of mid q qos lim scope] by (auto split: if_splits)
    have st: "s' = t" using run t(1) by (simp add: SubscribeFull)
    have p1: "is_pipe s1 p" "mail s1 p = mail s p" using t(3) p by (simp_all add: resubscribed_def)
    show ?thesis
      using t(4)
    proof
      assume "log_step s1 t"
      then show ?thesis using p1 view_log(1,3) [of s1 t] by (simp add: st)
    next
      assume "\<exists>st s2. CFE_SB_TransmitMsg e (Some (subscription_report (Host e) mid q qos)) True s1 = Some (st, s2) \<and> log_step s2 t"
      then obtain st0 s2 where s2: "CFE_SB_TransmitMsg e (Some (subscription_report (Host e) mid q qos)) True s1 = Some (st0, s2)" "log_step s2 t" by blast
      have "is_pipe s2 p \<and> (\<exists>xs. mail s2 p = mail s1 p @ xs)"
        by (rule TransmitMsg_mail [OF t(2) pool _ p1(1) s2(1)]) (use report_sized in auto)
      then show ?thesis using p1 view_log(1,3) [OF s2(2)] by (simp add: st)
    qed
  next
    case (UnsubscribeFull mid q scope app)
    from UnsubscribeFull_ok [OF ok, of e mid q scope app] run show ?thesis using p by (auto simp: UnsubscribeFull resubscribed_def)
  next
    case (TransmitMsg msg upd)
    then obtain st where "CFE_SB_TransmitMsg e msg upd s = Some (st, s')" using run by auto
    moreover have "sized m" if "msg = Some m" for m using legal that by (simp add: sb_legal_def TransmitMsg)
    ultimately show ?thesis using TransmitMsg_mail [OF ok pool _ p] by blast
  next
    case (ReceiveBuffer ptr q t)
    then have "q \<noteq> p" using nr by blast
    obtain st bo s1 where r: "CFE_SB_ReceiveBuffer e ptr q t s = Some (st, bo, s1)" "log_step s s1 \<or> others_same q s s1"
      using ReceiveBuffer_ok [OF ok, of e ptr q t] by (auto split: if_splits)
    then have "s1 = s'" using run by (simp add: ReceiveBuffer)
    then show ?thesis using r(2) log p \<open>q \<noteq> p\<close> unfolding others_same_def by (metis append_Nil2)
  next
    case (AllocateMessageBuffer n)
    then have "snd (CallerApp e) \<noteq> 0" using legal by (simp add: sb_legal_def)
    from AllocateMessageBuffer_ok [OF ok pool this, of n] run show ?thesis using kept by (auto simp: AllocateMessageBuffer)
  next
    case (WriteBuffer b m)
    then have "b \<in> owned_bufs s" using legal by (simp add: sb_legal_def)
    from write_buffer_ok [OF ok this, of m] run show ?thesis using kept by (auto simp: WriteBuffer)
  next
    case (ReleaseMessageBuffer buf)
    show ?thesis
    proof (cases buf)
      case None
      then show ?thesis using run p by (simp add: ReleaseMessageBuffer CFE_SB_ReleaseMessageBuffer_def CFE_SB_ZeroCopyBufferValidate_def)
    next
      case (Some b)
      then obtain d where "Bufs s b = Some d" using legal by (auto simp: sb_legal_def ReleaseMessageBuffer)
      from ReleaseMessageBuffer_ok [OF ok this] run show ?thesis using kept p by (auto simp: ReleaseMessageBuffer Some split: if_splits)
    qed
  next
    case (TransmitBuffer buf upd)
    show ?thesis
    proof (cases buf)
      case None
      then show ?thesis using run log by (auto simp: TransmitBuffer CFE_SB_TransmitBuffer_def CFE_SB_ZeroCopyBufferValidate_def)
    next
      case (Some b)
      then obtain d where d: "Bufs s b = Some d" using legal by (auto simp: sb_legal_def TransmitBuffer)
      show ?thesis
      proof (cases "b \<in> owned_bufs s")
        case True
        then have "sized (content s b)" using legal Some by (simp add: sb_legal_def TransmitBuffer)
        from TransmitBuffer_ok [OF ok True this, of e upd] run show ?thesis
          using kept p by (auto simp: TransmitBuffer Some published_def split: if_splits)
      next
        case False
        then have "CFE_SB_ZeroCopyBufferValidate (Some b) s = Some CFE_SB_BUFFER_INVALID"
          using d by (auto simp: CFE_SB_ZeroCopyBufferValidate_def owned_bufs_def)
        then show ?thesis using log run by (auto simp: TransmitBuffer Some CFE_SB_TransmitBuffer_def)
      qed
    qed
  qed (use run log kept [OF reporting_kept(1)] log_GetPipeOpts log_step_name log_GetPipeIdByName SetPipeOpts_views [OF ok p] in \<open>auto simp: Let_def\<close>)
qed


text \<open>
  The steps of one pipe's mailbox: its reader's call hands out a message, every other call may only add some.
\<close>

definition pipe_step :: "u32 \<Rightarrow> sb_env \<times> sb_call \<Rightarrow> sb_state \<Rightarrow> (bytes option \<times> sb_state) option" where
  "pipe_step p c s = (case snd c of
     ReceiveBuffer ptr q t \<Rightarrow> if q = p
       then map_option (\<lambda>(st, bo, s'). (map_option (content s') bo, s')) (CFE_SB_ReceiveBuffer (fst c) ptr q t s)
       else map_option (Pair None) (sb_exec (fst c) (snd c) s)
   | _ \<Rightarrow> map_option (Pair None) (sb_exec (fst c) (snd c) s))"

definition pipe_legal :: "u32 \<Rightarrow> sb_env \<times> sb_call \<Rightarrow> sb_state \<Rightarrow> bool" where
  "pipe_legal p c s \<longleftrightarrow> sb_legal (fst c) (snd c) s \<and> \<not> removes p (snd c) s"

lemma pipe_step_other:
  assumes ok: "bus_ok s" and p: "is_pipe s p" and legal: "pipe_legal p (e, c) s"
    and nr: "\<And>ptr t. c \<noteq> ReceiveBuffer ptr p t"
  shows "\<exists>s'. pipe_step p (e, c) s = Some (None, s') \<and> bus_ok s' \<and> is_pipe s' p \<and> (\<exists>xs. mail s' p = mail s p @ xs)"
proof -
  have l: "sb_legal e c s" "\<not> removes p c s" using legal by (simp_all add: pipe_legal_def)
  obtain s' where s': "sb_exec e c s = Some s'" "bus_ok s'" using exec_ok [OF ok l(1)] by blast
  have "pipe_step p (e, c) s = map_option (Pair None) (sb_exec e c s)"
    using nr by (cases c) (auto simp: pipe_step_def)
  then show ?thesis using s' exec_mail [OF ok l(1) p l(2) nr s'(1)] by simp
qed

lemma pipe_step_receive:
  assumes ok: "bus_ok s" and p: "is_pipe s p"
  shows "\<exists>r s'. pipe_step p (e, ReceiveBuffer ptr p t) s = Some (r, s') \<and> bus_ok s' \<and> is_pipe s' p \<and>
    (case r of None \<Rightarrow> mail s' p = mail s p | Some m \<Rightarrow> mail s p = m # mail s' p)"
proof -
  obtain st bo s' where r: "CFE_SB_ReceiveBuffer e ptr p t s = Some (st, bo, s')" "bus_ok s'"
    "bo = None \<and> log_step s s' \<or> others_same p s s' \<and>
      (bo = None \<and> mail s' p = mail s p \<or> mail s p \<noteq> [] \<and> (\<exists>b. bo = Some b \<and> content s' b = hd (mail s p)) \<and> mail s' p = tl (mail s p))"
    using ReceiveBuffer_ok [OF ok, of e ptr p t] by (auto split: if_splits)
  have "is_pipe s' p" using r(3) p view_log(3) [of s s'] by (auto simp: others_same_def)
  moreover have "bo = None \<Longrightarrow> mail s' p = mail s p" using r(3) view_log(1) [of s s'] by auto
  ultimately show ?thesis using r by (cases bo) (auto simp: pipe_step_def)
qed

interpretation mailbox: fifo "\<lambda>s. bus_ok s \<and> is_pipe s p" "\<lambda>s. mail s p" "pipe_step p" "pipe_legal p" for p
proof
  fix s c
  assume s: "bus_ok s \<and> is_pipe s p" and l: "pipe_legal p c s"
  obtain e k where c: "c = (e, k)" by force
  show "\<exists>r s'. pipe_step p c s = Some (r, s') \<and> (bus_ok s' \<and> is_pipe s' p) \<and>
      (case r of None \<Rightarrow> \<exists>xs. mail s' p = mail s p @ xs | Some m \<Rightarrow> mail s p = m # mail s' p)"
  proof (cases "\<exists>ptr t. k = ReceiveBuffer ptr p t")
    case True
    then obtain ptr t where k: "k = ReceiveBuffer ptr p t" by blast
    obtain r s' where "pipe_step p c s = Some (r, s')" "bus_ok s'" "is_pipe s' p"
      "case r of None \<Rightarrow> mail s' p = mail s p | Some m \<Rightarrow> mail s p = m # mail s' p"
      using pipe_step_receive [of s p e ptr t] s unfolding c k by blast
    then show ?thesis by (cases r) auto
  next
    case False
    then show ?thesis using pipe_step_other [of s p e k] s l unfolding c by fastforce
  qed
qed

end
