(* ===== verification/Sb_Props.thy ===== *)
theory Sb_Props
  imports Sb_Calls
begin

text \<open>
  The properties of the software bus: what every run of calls from start-up keeps, and what each call does
  in any state that such a run can reach.
\<close>

section \<open>Reachable states\<close>

text \<open>The states between calls, from start-up by legal calls of any applications in any order.\<close>

inductive sb_reachable :: "sb_state \<Rightarrow> bool" where
  start: "sb_reachable sb_reset"
| call: "sb_reachable s \<Longrightarrow> sb_legal e c s \<Longrightarrow> sb_exec e c s = Some s' \<Longrightarrow> sb_reachable s'"

lemma reachable_ok: "sb_reachable s \<Longrightarrow> bus_ok s"
proof (induction rule: sb_reachable.induct)
  case start
  show ?case by (rule reset_ok)
next
  case (call s e c s')
  then show ?case using exec_ok [of s e c] by auto
qed

lemma demo1_reachable: "sb_reachable demo1"
  using sb_reachable.call [OF sb_reachable.start demo_legal_create, of demo1] by (simp add: demo_create)

lemma demo2_reachable: "sb_reachable demo2"
proof (rule sb_reachable.call [OF demo1_reachable])
  show "sb_legal demo_env (SubscribeFull 0x18A9 demo_pipe (0, 0) 4 CFE_SB_MSG_GLOBAL) demo1"
    using demo_pool_fresh by (simp add: sb_legal_def)
  show "sb_exec demo_env (SubscribeFull 0x18A9 demo_pipe (0, 0) 4 CFE_SB_MSG_GLOBAL) demo1 = Some demo2"
    by (simp add: demo_subscribe)
qed

lemma demo_legal_send: "sb_legal demo_env (TransmitMsg (Some demo_msg) upd) s"
  using demo_pool_fresh demo_msg_ok(1) by (simp add: sb_legal_def)


text \<open>The memory of the small bus: one destination, no buffer.\<close>

lemma demo_route_step:
  "\<exists>s1. subscribe_route demo_env 0x18A9 demo_pipe 0 demo1 = (0, 1, 0, s1) \<and> Bufs s1 = (\<lambda>_. None) \<and> Dests s1 = (\<lambda>_. None) \<and>
     CFE_SBR_GetDestListHeadPtr 1 s1 = None \<and> SubscriptionReporting s1 = CFE_SB_DISABLE"
proof -
  have m: "CFE_SB_PipeDescIsMatch demo1 (Some 1) demo_pipe" using demo1_live PipeDescIsMatch_live [of demo1 demo_pipe] demo_locate by simp
  have r: "length (RoutingTbl demo1) = 256" "rt_ListHeadPtr (RoutingTbl demo1 ! 0) = None"
    unfolding demo1_rest(1) by (simp_all add: sb_reset_def)
  show ?thesis
    using m r by (simp add: subscribe_route_def demo_locate demo1_parts demo_env_def CFE_SB_IsValidMsgId_def CFE_SBR_GetRouteId_def demo1_rest
        CFE_SBR_AddRoute_def CFE_SBR_SetRouteId_def upd_Route_def upd_at_def upd_Stat_def CFE_SBR_GetDestListHeadPtr_def
        CFE_SBR_RouteIdToValue_def CFE_SBR_ValueToRouteId_def Let_def)
qed

lemma demo2_memory: "Bufs demo2 = (\<lambda>_. None)" "Dests demo2 a \<noteq> None \<Longrightarrow> a = 100"
proof -
  obtain s1 where s1: "subscribe_route demo_env 0x18A9 demo_pipe 0 demo1 = (0, 1, 0, s1)" "Bufs s1 = (\<lambda>_. None)" "Dests s1 = (\<lambda>_. None)"
    "CFE_SBR_GetDestListHeadPtr 1 s1 = None" "SubscriptionReporting s1 = CFE_SB_DISABLE" using demo_route_step by blast
  have get: "CFE_SB_GetDestinationBlk demo_env s1 = Some (100, upd_Stat (add_MemInUse 32) s1)"
    by (simp add: CFE_SB_GetDestinationBlk_def demo_env_def demo_pool_def s1)
  obtain ev s2 where s2: "subscribe_dest demo_env demo_pipe 4 0 1 s1 = Some (ev, s2)" "Bufs s2 = (\<lambda>_. None)" "dom (Dests s2) = {100}" "SubscriptionReporting s2 = CFE_SB_DISABLE"
    using s1 get by (auto simp: subscribe_dest_def subscribe_scan.simps CFE_SB_AddDestNode_def upd_Dest_def upd_Stat_def
        CFE_SBR_GetDestListHeadPtr_def CFE_SBR_SetDestListHeadPtr_def upd_Route_def Let_def dom_def)
  have lk: "subscribe_locked demo_env 0x18A9 demo_pipe 4 0 demo1 = Some (ev, 0, subscribe_count ev s2)"
    using s1(1) s2(1) by (simp add: subscribe_locked_def)
  let ?t = "subscribe_event demo_env ev 0x18A9 demo_pipe (subscribe_count ev s2)"
  note l = log_step_simps [OF log_subscribe_event]
  have rep: "SubscriptionReporting ?t = CFE_SB_DISABLE" using s2(4) by (simp add: l subscribe_count_def upd_HK_def)
  have mem: "Bufs ?t = Bufs s2" "Dests ?t = Dests s2" by (simp_all add: l) (simp_all add: subscribe_count_def upd_HK_def)
  have "demo2 = ?t"
    using demo_subscribe lk rep by (simp add: CFE_SB_SubscribeFull_def CFE_SB_SendSubscriptionReport_def Let_def split: if_splits)
  then have "Bufs demo2 = Bufs s2 \<and> Dests demo2 = Dests s2" using mem by (simp only: simp_thms)
  with s2 show "Bufs demo2 = (\<lambda>_. None)" "Dests demo2 a \<noteq> None \<Longrightarrow> a = 100" by auto
qed


section \<open>Every run\<close>



section \<open>Sending\<close>

text \<open>
  C4. Sending a message. A message with a bad header is refused with the status of its check; one to which
  nobody ever subscribed, or for whose copy the pool has no memory, changes nothing an application sees.
  Otherwise a copy, with time, sequence count and checksum updated if the caller asked for it, is put at the
  end of exactly those pipes that subscribed, are below their limit and have room; the sequence count of
  this message id alone goes up.
\<close>

theorem CFE_SB_TransmitMsg_publishes:
  assumes "sb_reachable s" and "pool_fresh e" and "sized m"
  shows "\<exists>st s'. CFE_SB_TransmitMsg e (Some m) upd s = Some (st, s') \<and>
    (if sb_msg_check m \<noteq> 0 then st = sb_msg_check m \<and> views_kept s s'
     else if CFE_SBR_GetRouteId (CFE_MSG_GetMsgId m) s = 0 then st = 0 \<and> views_kept s s'
     else st = CFE_SB_BUF_ALOC_ERR \<and> views_kept s s' \<and> (\<exists>t. log_step s t \<and> fst (GetPoolBuf e t (CFE_MSG_GetSize m + BUFFERD_CONTENT_OFFSET e)) < 0) \<or>
       st = 0 \<and> published e (CFE_MSG_GetMsgId m) upd (sent_copy e s upd (take (CFE_MSG_GetSize m) m)) s s')"
  using TransmitMsg_ok [OF reachable_ok [OF assms(1)] assms(2,3), of upd] by (auto dest: views_kept_log split: if_splits)

lemma demo2_route: "CFE_SBR_GetRouteId 0x18A9 demo2 \<noteq> 0"
proof
  assume "CFE_SBR_GetRouteId 0x18A9 demo2 = 0"
  then have "subscriptions demo2 0x18A9 = []" by (simp add: subscriptions_def subs_of_def)
  then show False by (simp add: demo2_subs)
qed

lemma demo2_pool: "log_step demo2 t \<Longrightarrow> fst (GetPoolBuf demo_env t n) = int n"
proof -
  assume l: "log_step demo2 t"
  have "Dests t 200 = None" using demo2_memory(2) [of 200] log_step_simps [OF l] by (cases "Dests demo2 200") simp_all
  then show ?thesis by (simp add: demo_env_def demo_pool_def log_step_simps [OF l] demo2_memory(1))
qed

lemma demo_sent:
  assumes st: "CFE_SB_TransmitMsg demo_env (Some demo_msg) upd demo2 = Some (st, s') \<and>
    (if sb_msg_check demo_msg \<noteq> 0 then st = sb_msg_check demo_msg \<and> views_kept demo2 s'
     else if CFE_SBR_GetRouteId (CFE_MSG_GetMsgId demo_msg) demo2 = 0 then st = 0 \<and> views_kept demo2 s'
     else st = CFE_SB_BUF_ALOC_ERR \<and> views_kept demo2 s' \<and>
         (\<exists>t. log_step demo2 t \<and> fst (GetPoolBuf demo_env t (CFE_MSG_GetSize demo_msg + BUFFERD_CONTENT_OFFSET demo_env)) < 0) \<or>
       st = 0 \<and> published demo_env (CFE_MSG_GetMsgId demo_msg) upd (sent_copy demo_env demo2 upd (take (CFE_MSG_GetSize demo_msg) demo_msg)) demo2 s')"
  shows "st = 0 \<and> mail s' demo_pipe = [sent_copy demo_env demo2 upd demo_msg]"
proof -
  have "take 12 demo_msg = demo_msg" by (simp add: demo_msg_def)
  then have "st = 0 \<and> published demo_env 0x18A9 upd (sent_copy demo_env demo2 upd demo_msg) demo2 s'"
    using st demo_msg_ok demo2_route by (auto simp: demo2_pool)
  then show ?thesis using demo2_pipe demo2_takes by (simp add: published_def)
qed

theorem CFE_SB_TransmitMsg_publishes_witness:
  "\<exists>s'. CFE_SB_TransmitMsg demo_env (Some demo_msg) False demo2 = Some (0, s') \<and> mail s' demo_pipe = [demo_msg]"
proof -
  obtain st s' where "CFE_SB_TransmitMsg demo_env (Some demo_msg) False demo2 = Some (st, s')" "st = 0 \<and> mail s' demo_pipe = [sent_copy demo_env demo2 False demo_msg]"
    using CFE_SB_TransmitMsg_publishes [OF demo2_reachable demo_pool_fresh demo_msg_ok(1), of False] demo_sent by metis
  then show ?thesis by (simp add: sent_copy_def)
qed


section \<open>Receiving\<close>

text \<open>The small bus after a message was sent.\<close>

definition demo3 :: sb_state where "demo3 = snd (the (CFE_SB_TransmitMsg demo_env (Some demo_msg) False demo2))"

lemma demo3_parts:
  "CFE_SB_TransmitMsg demo_env (Some demo_msg) False demo2 = Some (0, demo3)" "sb_reachable demo3" "is_pipe demo3 demo_pipe" "mail demo3 demo_pipe = [demo_msg]"
proof -
  have l: "sb_legal demo_env (TransmitMsg (Some demo_msg) False) demo2" by (rule demo_legal_send)
  obtain st s' where s': "CFE_SB_TransmitMsg demo_env (Some demo_msg) False demo2 = Some (st, s')"
    "st = 0 \<and> mail s' demo_pipe = [sent_copy demo_env demo2 False demo_msg]"
    using TransmitMsg_ok [OF demo2_ok demo_pool_fresh demo_msg_ok(1), of False] demo_sent [of False]
    by (metis (no_types, lifting) views_kept_log)
  then show run: "CFE_SB_TransmitMsg demo_env (Some demo_msg) False demo2 = Some (0, demo3)" by (simp add: demo3_def)
  then show "mail demo3 demo_pipe = [demo_msg]" using s' by (simp add: sent_copy_def)
  show "sb_reachable demo3" by (rule sb_reachable.call [OF demo2_reachable l]) (simp add: run)
  show "is_pipe demo3 demo_pipe" using TransmitMsg_mail [OF demo2_ok demo_pool_fresh _ demo2_pipe(1) run] demo_msg_ok(1) by simp
qed

text \<open>
  C8. Receiving a message. With good arguments the call gives back the buffer of the last call and hands out
  the oldest message of the pipe, which the bus does not touch before the next call on this pipe; with no
  message it says whether it polled, timed out or was woken by an error. Mail and hand of every other
  pipe stay as they are; with bad arguments nothing changes at all.
\<close>

theorem CFE_SB_ReceiveBuffer_next:
  assumes "sb_reachable s"
  shows "\<exists>st bo s'. CFE_SB_ReceiveBuffer e ptr p t s = Some (st, bo, s') \<and>
    (if \<not> ptr \<or> t < CFE_SB_PEND_FOREVER \<or> \<not> is_pipe s p then st = CFE_SB_BAD_ARGUMENT \<and> bo = None \<and> views_kept s s'
     else others_same p s s' \<and>
       (if GetErr e = OS_SUCCESS \<and> mail s p \<noteq> []
        then st = 0 \<and> (\<exists>b. bo = Some b \<and> content s' b = hd (mail s p)) \<and> mail s' p = tl (mail s p) \<and> in_hand s' p = Some (hd (mail s p))
        else st = nothing_status e t \<and> bo = None \<and> mail s' p = mail s p \<and> in_hand s' p = None))"
proof -
  have "receive_timeout t = None \<longleftrightarrow> t < CFE_SB_PEND_FOREVER" by (auto simp: receive_timeout_def)
  then obtain st bo s' where r: "CFE_SB_ReceiveBuffer e ptr p t s = Some (st, bo, s')"
    "if \<not> ptr \<or> t < CFE_SB_PEND_FOREVER \<or> \<not> is_pipe s p then st = CFE_SB_BAD_ARGUMENT \<and> bo = None \<and> log_step s s'
     else others_same p s s' \<and>
       (if GetErr e = OS_SUCCESS \<and> mail s p \<noteq> []
        then st = 0 \<and> (\<exists>b. bo = Some b \<and> content s' b = hd (mail s p)) \<and> mail s' p = tl (mail s p) \<and> in_hand s' p = Some (hd (mail s p))
        else st = nothing_status e t \<and> bo = None \<and> mail s' p = mail s p \<and> in_hand s' p = None)"
    using ReceiveBuffer_ok [OF reachable_ok [OF assms], of e ptr p t] by metis
  then show ?thesis using views_kept_log [of s s'] by - (intro exI conjI, rule r(1), auto split: if_split_asm)
qed

theorem CFE_SB_ReceiveBuffer_next_witness:
  "\<exists>b s'. CFE_SB_ReceiveBuffer demo_env True demo_pipe 0 demo3 = Some (0, Some b, s') \<and> content s' b = demo_msg \<and> mail s' demo_pipe = []"
proof -
  have "GetErr demo_env = OS_SUCCESS" by (simp add: demo_env_def)
  then show ?thesis
    using CFE_SB_ReceiveBuffer_next [OF demo3_parts(2), of demo_env True demo_pipe 0] demo3_parts(3,4) by auto
qed

text \<open>
  C7. Messages leave a pipe in the order in which they came: over any run of legal calls by any
  applications, of which none deletes the pipe, the messages that waited at the beginning followed by
  those that were put into the pipe are the messages its reader was handed, followed by those that wait
  at the end.
\<close>

theorem CFE_SB_pipe_fifo:
  assumes "sb_reachable s" and "is_pipe s p" and "permitted (pipe_step p) (pipe_legal p) cs s"
  shows "\<exists>inn out s'. history (pipe_step p) (\<lambda>s. mail s p) cs s = Some (inn, out, s') \<and>
    is_pipe s' p \<and> mail s p @ inn = out @ mail s' p"
  using mailbox.history_ok [of s p cs] assms(2,3) reachable_ok [OF assms(1)] by blast

theorem CFE_SB_pipe_fifo_witness:
  "\<exists>inn out s'. history (pipe_step demo_pipe) (\<lambda>s. mail s demo_pipe)
      [(demo_env, TransmitMsg (Some demo_msg) True), (demo_env, ReceiveBuffer True demo_pipe 0)] demo3 = Some (inn, out, s') \<and>
    demo_msg # inn = out @ mail s' demo_pipe"
proof -
  have "permitted (pipe_step demo_pipe) (pipe_legal demo_pipe)
      [(demo_env, TransmitMsg (Some demo_msg) True), (demo_env, ReceiveBuffer True demo_pipe 0)] demo3"
    using demo_legal_send demo_pool_fresh by (auto simp: pipe_legal_def removes_def sb_legal_def split: option.splits)
  from CFE_SB_pipe_fifo [OF demo3_parts(2,3) this] show ?thesis by (auto simp: demo3_parts(4))
qed


section \<open>Creating, deleting and cleaning up\<close>

text \<open>The search for a free slot looks at every slot once, from the one after the last id on.\<close>

lemma locate_serial: "x \<le> 0xFFFF \<Longrightarrow> CFE_SB_LocatePipeDescByID (CFE_SB_PIPEID_BASE + x) = Some (unat x mod 64)"
  by (simp add: CFE_SB_LocatePipeDescByID_def CFE_SB_PipeId_ToIndex_def CFE_ResourceId_ToIndex_def)

lemma next_serial:
  fixes ser :: u32
  assumes "ser \<le> 0xFFFF"
  shows "(let x = ser + 1 in if x \<ge> CFE_RESOURCEID_MAX then x mod 64 else x) \<le> 0xFFFF \<and>
    unat (let x = ser + 1 in if x \<ge> CFE_RESOURCEID_MAX then x mod 64 else x) mod 64 = (unat ser + 1) mod 64"
proof -
  have "unat ser \<le> 0xFFFF" using assms by (simp add: word_le_nat_alt)
  then have u: "unat (ser + 1) = unat ser + 1" by (simp add: unat_plus_simple [THEN iffD1] unat_word_ariths)
  have "(ser + 1) mod 64 \<le> 63" by (simp add: word_le_nat_alt unat_mod)
  then show ?thesis using u by (auto simp: Let_def unat_mod word_le_nat_alt)
qed

lemma find_next_none:
  assumes "find_next_loop n ser CFE_SB_PIPEID_BASE 64 (CFE_SB_CheckPipeDescSlotUsed s) = CFE_RESOURCEID_UNDEFINED" and "ser \<le> 0xFFFF"
    and "1 \<le> k" and "k \<le> n"
  shows "pd_PipeId (PipeTbl s ! ((unat ser + k) mod 64)) \<noteq> 0"
  using assms
proof (induction n arbitrary: ser k)
  case (Suc n)
  let ?x = "let x = ser + 1 in if x \<ge> CFE_RESOURCEID_MAX then x mod 64 else x"
  have x: "?x \<le> 0xFFFF" "unat ?x mod 64 = (unat ser + 1) mod 64" using next_serial [OF Suc.prems(2)] by auto
  have step: "find_next_loop (Suc n) ser CFE_SB_PIPEID_BASE 64 chk =
      (if chk (CFE_SB_PIPEID_BASE + ?x) then find_next_loop n ?x CFE_SB_PIPEID_BASE 64 chk else CFE_SB_PIPEID_BASE + ?x)" for chk
    by (simp add: Let_def)
  have "CFE_SB_PIPEID_BASE + ?x \<noteq> 0" using locate_serial [OF x(1)] Locate_undefined by auto
  then have used: "CFE_SB_CheckPipeDescSlotUsed s (CFE_SB_PIPEID_BASE + ?x)"
    and rest: "find_next_loop n ?x CFE_SB_PIPEID_BASE 64 (CFE_SB_CheckPipeDescSlotUsed s) = 0"
    using Suc.prems(1) unfolding step by (simp_all only: split: if_split_asm)
  show ?case
  proof (cases "k = 1")
    case True
    then show ?thesis using used by (simp add: CFE_SB_CheckPipeDescSlotUsed_def locate_serial [OF x(1)] CFE_SB_PipeDescIsUsed_def x(2))
  next
    case False
    have "pd_PipeId (PipeTbl s ! ((unat ?x + (k - 1)) mod 64)) \<noteq> 0" by (rule Suc.IH [OF rest x(1)]) (use Suc.prems False in auto)
    moreover have "(unat ?x + (k - 1)) mod 64 = (unat ser + k) mod 64"
      using mod_add_cong [OF x(2), of "k - 1" "k - 1"] Suc.prems(3) by simp
    ultimately show ?thesis by simp
  qed
qed simp

lemma find_next_locates:
  "ser \<le> 0xFFFF \<Longrightarrow> find_next_loop n ser CFE_SB_PIPEID_BASE 64 chk \<noteq> CFE_RESOURCEID_UNDEFINED \<Longrightarrow>
   \<exists>x \<le> 0xFFFF. find_next_loop n ser CFE_SB_PIPEID_BASE 64 chk = CFE_SB_PIPEID_BASE + x"
proof (induction n arbitrary: ser)
  case (Suc n)
  let ?x = "let x = ser + 1 in if x \<ge> CFE_RESOURCEID_MAX then x mod 64 else x"
  have x: "?x \<le> 0xFFFF" using next_serial [OF Suc.prems(1)] by auto
  have step: "find_next_loop (Suc n) ser CFE_SB_PIPEID_BASE 64 chk =
      (if chk (CFE_SB_PIPEID_BASE + ?x) then find_next_loop n ?x CFE_SB_PIPEID_BASE 64 chk else CFE_SB_PIPEID_BASE + ?x)"
    by (simp add: Let_def)
  show ?case using Suc.IH [OF x] Suc.prems(2) x unfolding step by (auto split: if_split_asm)
qed simp

lemma reserve_complete:
  assumes base: "CFE_ResourceId_GetBase (LastPipeId s) = CFE_SB_PIPEID_BASE"
  shows "fst (create_reserve s) = None \<longleftrightarrow> (\<forall>i<64. pd_PipeId (PipeTbl s ! i) \<noteq> 0)"
proof -
  let ?ser = "CFE_ResourceId_GetSerial (LastPipeId s)"
  let ?pid = "find_next_loop 64 ?ser CFE_SB_PIPEID_BASE 64 (CFE_SB_CheckPipeDescSlotUsed s)"
  have ser: "?ser \<le> 0xFFFF" by (simp add: CFE_ResourceId_GetSerial_def word_and_le1)
  have none: "fst (create_reserve s) = None \<longleftrightarrow> CFE_SB_LocatePipeDescByID ?pid = None"
    by (simp add: create_reserve_def CFE_ResourceId_FindNext_def base Let_def split: option.splits)
  have "CFE_SB_LocatePipeDescByID ?pid = None \<longleftrightarrow> ?pid = 0"
    using find_next_locates [OF ser, of 64 "CFE_SB_CheckPipeDescSlotUsed s"] locate_serial Locate_undefined by (metis option.distinct(1))
  moreover have "?pid = 0 \<Longrightarrow> pd_PipeId (PipeTbl s ! i) \<noteq> 0" if i: "i < 64" for i
  proof -
    assume z: "?pid = 0"
    define k where "k = (i + 63 - unat ?ser mod 64) mod 64 + 1"
    have "(u + ((i + 63 - u mod 64) mod 64 + 1)) mod 64 = i" for u :: nat
    proof -
      have r: "u mod 64 \<le> 63" using mod_less_divisor [of 64 u] by linarith
      have "(u + ((i + 63 - u mod 64) mod 64 + 1)) mod 64 = (u mod 64 + (i + 63 - u mod 64) + 1) mod 64"
        by (simp only: mod_add_left_eq mod_add_right_eq add.assoc [symmetric]) (metis (no_types, lifting) mod_add_left_eq mod_add_right_eq)
      also have "u mod 64 + (i + 63 - u mod 64) + 1 = i + 64" using r by linarith
      finally show ?thesis using i by simp
    qed
    then have "(unat ?ser + k) mod 64 = i" unfolding k_def .
    then show ?thesis using find_next_none [OF z ser, of k] unfolding k_def by simp
  qed
  moreover have "\<exists>i<64. pd_PipeId (PipeTbl s ! i) = 0" if nz: "?pid \<noteq> 0"
  proof -
    obtain x where x: "x \<le> 0xFFFF" "?pid = CFE_SB_PIPEID_BASE + x" using find_next_locates [OF ser nz] by blast
    have "\<not> CFE_SB_CheckPipeDescSlotUsed s ?pid" using find_next_free nz by blast
    then show ?thesis unfolding x(2)
      by (intro exI [of _ "unat x mod 64"]) (simp add: CFE_SB_CheckPipeDescSlotUsed_def locate_serial [OF x(1)] CFE_SB_PipeDescIsUsed_def)
  qed
  ultimately show ?thesis using none by metis
qed


text \<open>
  C22. Creating a pipe. A missing pointer or a depth of zero or beyond the system's limit is refused; with all
  64 slots taken the status says so, and as long as one slot is free the search finds it; when the system makes no queue the
  slot is given back. Otherwise there is one pipe more, empty, owned by the caller, without
  subscriptions and with the depth asked for unless the system truncates it; all other pipes,
  their mail and all subscriptions are as before. In no other case does an application see a change.
\<close>

theorem CFE_SB_CreatePipe_outcome:
  assumes "sb_reachable s" and "queue_fresh e s" and "CFE_ResourceId_GetBase (LastPipeId s) = CFE_SB_PIPEID_BASE"
  shows "\<exists>st po s'. CFE_SB_CreatePipe e ptr depth s = (st, po, s') \<and>
     (if \<not> ptr \<or> unat depth > OS_QUEUE_MAX_DEPTH \<or> depth = 0 then st = CFE_SB_BAD_ARGUMENT \<and> po = None \<and> views_kept s s'
      else if \<forall>i<64. pd_PipeId (PipeTbl s ! i) \<noteq> 0 then st = CFE_SB_MAX_PIPES_MET \<and> po = None \<and> views_kept s s'
      else if fst (QueueResult e) \<noteq> OS_SUCCESS then st = CFE_SB_PIPE_CR_ERR \<and> po = None \<and> views_kept s s'
      else \<exists>p. st = 0 \<and> po = Some p \<and> with_pipe p (snd (CallerApp e)) s s' \<and>
        q_depth (the (Queues s' (pipe_queue s' p))) = (if 0 < QueueTrunc e \<and> QueueTrunc e < unat depth then QueueTrunc e else unat depth))"
proof -
  obtain st po s' where c: "CFE_SB_CreatePipe e ptr depth s = (st, po, s')"
     "if \<not> ptr \<or> unat depth > OS_QUEUE_MAX_DEPTH \<or> depth = 0 then st = CFE_SB_BAD_ARGUMENT \<and> po = None \<and> log_step s s'
      else if \<forall>i<64. pd_PipeId (PipeTbl s ! i) \<noteq> 0 then st = CFE_SB_MAX_PIPES_MET \<and> po = None \<and> log_step s s'
      else if fst (QueueResult e) \<noteq> OS_SUCCESS then st = CFE_SB_PIPE_CR_ERR \<and> po = None \<and> views_kept s s'
      else \<exists>p. st = 0 \<and> po = Some p \<and> with_pipe p (snd (CallerApp e)) s s' \<and>
        q_depth (the (Queues s' (pipe_queue s' p))) = (if 0 < QueueTrunc e \<and> QueueTrunc e < unat depth then QueueTrunc e else unat depth)"
    using CreatePipe_ok [OF reachable_ok [OF assms(1)] assms(2), of ptr depth] unfolding reserve_complete [OF assms(3)] by blast
  then show ?thesis using views_kept_log [of s s'] by - (intro exI conjI, rule c(1), auto split: if_split_asm)
qed

theorem CFE_SB_CreatePipe_outcome_witness:
  "\<exists>p s'. CFE_SB_CreatePipe demo_env True 4 sb_reset = (0, Some p, s') \<and> with_pipe p 7 sb_reset s'"
proof -
  have "queue_fresh demo_env sb_reset" using demo_legal_create by (simp add: sb_legal_def)
  moreover have "CFE_ResourceId_GetBase (LastPipeId sb_reset) = CFE_SB_PIPEID_BASE" by (simp add: CFE_ResourceId_GetBase_def sb_reset_def)
  moreover have "(\<forall>i<64. pd_PipeId (PipeTbl sb_reset ! i) \<noteq> 0) = False"
    by (auto simp: sb_reset_def pipe_clear_def intro!: exI [of _ 0])
  moreover have "fst (QueueResult demo_env) = 0" "snd (CallerApp demo_env) = 7" by (simp_all add: demo_env_def)
  ultimately show ?thesis
    using CFE_SB_CreatePipe_outcome [OF sb_reachable.start, of demo_env True 4] by (simp del: not_all) blast
qed

text \<open>
  C9. An application that goes leaves nothing behind: the clean-up deletes every pipe it owns, all their
  subscriptions and the messages that waited in them, and gives back every buffer it holds; the pipes
  of other applications keep their mail, their message in hand and their subscriptions.
\<close>

theorem CFE_SB_CleanUpApp_releases:
  assumes "sb_reachable s" and "GetErr e = OS_SUCCESS" and "app \<noteq> CFE_ES_APPID_UNDEFINED"
  shows "\<exists>s'. CFE_SB_CleanUpApp e app s = Some (0, s') \<and> without_pipes {p. owner s p = app} s s' \<and>
     (\<forall>b d. Bufs s' b = Some d \<longrightarrow> bd_AppId d \<noteq> app \<and> 0 < refs s' b)"
proof -
  obtain s' where s': "CFE_SB_CleanUpApp e app s = Some (0, s')" "bus_ok s'" "without_pipes {p. owner s p = app} s s'"
    "\<forall>b d. Bufs s' b = Some d \<longrightarrow> bd_AppId d \<noteq> app"
    using CleanUpApp_ok [OF reachable_ok [OF assms(1)] assms(2,3)] by blast
  have "counts_ok (\<lambda>b. refs s' b) s'" using s'(2) sb_invD(4) by (fastforce simp: bus_ok_def buf_inv_def)
  then have "use_ok (refs s' b) (Bufs s' b)" for b by (simp add: counts_ok_def)
  then have "0 < refs s' b" if "Bufs s' b = Some d" for b d using that by (metis use_ok_simps(2) gr0I)
  then show ?thesis using s' by blast
qed

theorem CFE_SB_CleanUpApp_releases_witness:
  "\<exists>s'. CFE_SB_CleanUpApp demo_env 7 demo2 = Some (0, s') \<and> \<not> is_pipe s' demo_pipe"
proof -
  have "GetErr demo_env = OS_SUCCESS" by (simp add: demo_env_def)
  moreover have "owner demo2 demo_pipe = 7" by (rule demo2_pipe(3))
  ultimately show ?thesis using CFE_SB_CleanUpApp_releases [OF demo2_reachable, of demo_env 7] by (auto simp: without_pipes_def)
qed


section \<open>Subscribing\<close>

lemma subscribe_cases:
  "subscribe_status (subscribe_outcome e mid p scope s) =
    (if \<not> is_pipe s p \<or> owner s p \<noteq> snd (CallerApp e) \<or> \<not> CFE_SB_IsValidMsgId mid \<or> scope > 1 then CFE_SB_BAD_ARGUMENT
     else if CFE_SBR_GetRouteId mid s = 0 \<and> RouteIdxTop s = CFE_PLATFORM_SB_MAX_MSG_IDS then CFE_SB_MAX_MSGS_MET
     else if p \<in> dst_PipeId ` set (subscriptions s mid) then 0
     else if length (subscriptions s mid) = CFE_PLATFORM_SB_MAX_DEST_PER_PKT then CFE_SB_MAX_DESTS_MET
     else if fst (GetPoolBuf e (snd (snd (snd (subscribe_route e mid p scope s)))) (DESTINATION_SIZE e)) < 0 then CFE_SB_BUF_ALOC_ERR
     else 0)"
  "subscribe_outcome e mid p scope s = 0 \<longleftrightarrow>
    (if \<not> is_pipe s p \<or> owner s p \<noteq> snd (CallerApp e) \<or> \<not> CFE_SB_IsValidMsgId mid \<or> scope > 1 then False
     else if CFE_SBR_GetRouteId mid s = 0 \<and> RouteIdxTop s = CFE_PLATFORM_SB_MAX_MSG_IDS then False
     else if p \<in> dst_PipeId ` set (subscriptions s mid) then False
     else if length (subscriptions s mid) = CFE_PLATFORM_SB_MAX_DEST_PER_PKT then False
     else \<not> fst (GetPoolBuf e (snd (snd (snd (subscribe_route e mid p scope s)))) (DESTINATION_SIZE e)) < 0)"
  by (auto simp: subscribe_outcome_def subscribe_refused_def subscribe_status_def is_pipe_def owner_def)

lemma five_ways:
  "if c1 then st = a \<and> xs = ys else if c2 then st = b \<and> xs = ys else if c3 then st = c \<and> xs = ys else if c4 then st = d \<and> xs = ys
     else if c5 then st = f \<and> xs = ys else st = c \<and> xs = zs"
  if "st = (if c1 then a else if c2 then b else if c3 then c else if c4 then d else if c5 then f else c)"
    and "xs = (if (if c1 then False else if c2 then False else if c3 then False else if c4 then False else \<not> c5) then zs else ys)"
  using that by (cases c1; cases c2; cases c3; cases c4; cases c5; simp)

text \<open>The state in which the pool is asked for the destination: the route may be new, nothing else.\<close>

lemma subscribe_route_frame:
  assumes ok: "bus_ok s" and t: "t = snd (snd (snd (subscribe_route e mid p scope s)))"
  shows "resubscribed (subscriptions s) s t" and "Bufs t = Bufs s" and "Dests t = Dests s"
proof -
  have inv: "route_inv s" using ok sb_invD(1) by (auto simp: bus_ok_def)
  obtain rid where r: "subscribe_route e mid p scope s = (subscribe_refused e mid p scope s, rid, 0, t)" "buf_part t = buf_part s"
    "\<forall>m. subscriptions t m = subscriptions s m"
    using subscribe_route_ok [OF inv, of e mid p scope] t by auto
  show "resubscribed (subscriptions s) s t" using r(2,3) by (simp add: resubscribed_def views_route [OF r(2)] buf_part_eq)
  show "Bufs t = Bufs s" using r(2) by (simp add: buf_part_eq)
  show "Dests t = Dests s"
    unfolding t by (auto simp: subscribe_route_def AddRoute_eq added_route_def upd_Stat_def Let_def split: if_splits)
qed

text \<open>
  C21. Subscribing, in any state that legal calls reach, with reports on or off. Only the owner of a pipe may
  subscribe it, to a valid message id and with a legal scope; a full table of ids and sixteen subscribers of
  one id are told by their status; a second subscription of the same pipe is accepted and changes nothing.
  Otherwise the pool is asked for a destination, in a state with the same memory, pipes, mail and subscriptions:
  exactly if it refuses is the status that of an allocation error; if not, the pipe is the
  new first subscriber of that id. A subscription of global scope that is accepted is
  reported to the network by one message exactly if reports are on; nothing else changes.
\<close>

theorem CFE_SB_SubscribeFull_outcome:
  assumes "sb_reachable s" and "pool_fresh e"
  shows "\<exists>st subs s1 s' t. CFE_SB_SubscribeFull e mid p qos lim scope s = Some (st, s') \<and> resubscribed subs s s1 \<and>
     resubscribed (subscriptions s) s t \<and> Bufs t = Bufs s \<and> Dests t = Dests s \<and>
     (if \<not> is_pipe s p \<or> owner s p \<noteq> snd (CallerApp e) \<or> \<not> CFE_SB_IsValidMsgId mid \<or> scope > 1
      then st = CFE_SB_BAD_ARGUMENT \<and> subs = subscriptions s
      else if CFE_SBR_GetRouteId mid s = 0 \<and> RouteIdxTop s = CFE_PLATFORM_SB_MAX_MSG_IDS
      then st = CFE_SB_MAX_MSGS_MET \<and> subs = subscriptions s
      else if p \<in> dst_PipeId ` set (subscriptions s mid) then st = 0 \<and> subs = subscriptions s
      else if length (subscriptions s mid) = CFE_PLATFORM_SB_MAX_DEST_PER_PKT then st = CFE_SB_MAX_DESTS_MET \<and> subs = subscriptions s
      else if fst (GetPoolBuf e t (DESTINATION_SIZE e)) < 0 then st = CFE_SB_BUF_ALOC_ERR \<and> subs = subscriptions s
      else st = 0 \<and> subs = (subscriptions s)(mid := new_dest p lim scope # subscriptions s mid)) \<and>
     (if st = 0 \<and> scope = CFE_SB_MSG_GLOBAL \<and> SubscriptionReporting s = CFE_SB_ENABLE
      then \<exists>r s2. CFE_SB_TransmitMsg e (Some (subscription_report (Host e) mid p qos)) True s1 = Some (r, s2) \<and> log_step s2 s'
      else log_step s1 s')"
proof -
  let ?ev = "subscribe_outcome e mid p scope s"
  let ?subs = "if ?ev = 0 then (subscriptions s)(mid := new_dest p lim scope # subscriptions s mid) else subscriptions s"
  let ?t = "snd (snd (snd (subscribe_route e mid p scope s)))"
  obtain s1 s' where s: "CFE_SB_SubscribeFull e mid p qos lim scope s = Some (subscribe_status ?ev, s')"
     "resubscribed (\<lambda>k. if k = mid \<and> ?ev = 0 then new_dest p lim scope # subscriptions s k else subscriptions s k) s s1"
     "if subscribe_status ?ev = 0 \<and> scope = CFE_SB_MSG_GLOBAL \<and> SubscriptionReporting s = CFE_SB_ENABLE
      then \<exists>st s2. CFE_SB_TransmitMsg e (Some (subscription_report (Host e) mid p qos)) True s1 = Some (st, s2) \<and> log_step s2 s'
      else log_step s1 s'"
    using SubscribeFull_ok [OF reachable_ok [OF assms(1)] assms(2), of mid p qos lim scope] by blast
  have "(\<lambda>k. if k = mid \<and> ?ev = 0 then new_dest p lim scope # subscriptions s k else subscriptions s k) = ?subs" by auto
  then have "resubscribed ?subs s s1" using s(2) by simp
  moreover have "if \<not> is_pipe s p \<or> owner s p \<noteq> snd (CallerApp e) \<or> \<not> CFE_SB_IsValidMsgId mid \<or> scope > 1
      then subscribe_status ?ev = CFE_SB_BAD_ARGUMENT \<and> ?subs = subscriptions s
      else if CFE_SBR_GetRouteId mid s = 0 \<and> RouteIdxTop s = CFE_PLATFORM_SB_MAX_MSG_IDS
      then subscribe_status ?ev = CFE_SB_MAX_MSGS_MET \<and> ?subs = subscriptions s
      else if p \<in> dst_PipeId ` set (subscriptions s mid) then subscribe_status ?ev = 0 \<and> ?subs = subscriptions s
      else if length (subscriptions s mid) = CFE_PLATFORM_SB_MAX_DEST_PER_PKT
      then subscribe_status ?ev = CFE_SB_MAX_DESTS_MET \<and> ?subs = subscriptions s
      else if fst (GetPoolBuf e ?t (DESTINATION_SIZE e)) < 0 then subscribe_status ?ev = CFE_SB_BUF_ALOC_ERR \<and> ?subs = subscriptions s
      else subscribe_status ?ev = 0 \<and> ?subs = (subscriptions s)(mid := new_dest p lim scope # subscriptions s mid)"
    unfolding subscribe_cases by (rule five_ways [OF refl refl])
  ultimately show ?thesis using s(1,3) subscribe_route_frame [OF reachable_ok [OF assms(1)] refl, of e mid p scope] by blast
qed

text \<open>The small bus with reports on.\<close>

definition demo_reports :: sb_state where
  "demo_reports = CFE_SB_SetSubscriptionReporting CFE_SB_ENABLE demo2"

lemma demo_reports_reachable: "sb_reachable demo_reports"
  using demo_pool_fresh by (intro sb_reachable.call [OF demo2_reachable, of demo_env "SetSubscriptionReporting CFE_SB_ENABLE"])
    (simp_all add: demo_reports_def sb_legal_def)

theorem CFE_SB_SubscribeFull_outcome_witness:
  "\<exists>s1 s' r s2. CFE_SB_SubscribeFull demo_env 0x18A9 demo_pipe (0, 0) 4 CFE_SB_MSG_GLOBAL demo_reports = Some (0, s') \<and>
     CFE_SB_TransmitMsg demo_env (Some (subscription_report LittleEndian 0x18A9 demo_pipe (0, 0))) True s1 = Some (r, s2) \<and> log_step s2 s'"
proof -
  note k = reporting_kept(1) [of demo2 CFE_SB_ENABLE, folded demo_reports_def, unfolded views_kept_def]
  have c: "(\<not> is_pipe demo_reports demo_pipe \<or> owner demo_reports demo_pipe \<noteq> snd (CallerApp demo_env) \<or>
      \<not> CFE_SB_IsValidMsgId 0x18A9 \<or> (0::8 word) > 1) = False"
    using demo2_pipe k by (simp add: demo_env_def CFE_SB_IsValidMsgId_def)
  have "CFE_SBR_GetRouteId 0x18A9 demo_reports = CFE_SBR_GetRouteId 0x18A9 demo2"
    by (simp add: demo_reports_def CFE_SB_SetSubscriptionReporting_def CFE_SBR_GetRouteId_def)
  then have r: "(CFE_SBR_GetRouteId 0x18A9 demo_reports = 0 \<and> RouteIdxTop demo_reports = CFE_PLATFORM_SB_MAX_MSG_IDS) = False"
    using demo2_route by simp
  have d: "(demo_pipe \<in> dst_PipeId ` set (subscriptions demo_reports 0x18A9)) = True" using k by (simp add: demo2_subs new_dest_def)
  have on: "SubscriptionReporting demo_reports = CFE_SB_ENABLE" "Host demo_env = LittleEndian"
    by (simp_all add: demo_reports_def CFE_SB_SetSubscriptionReporting_def demo_env_def)
  obtain st subs s1 s' where s: "CFE_SB_SubscribeFull demo_env 0x18A9 demo_pipe (0, 0) 4 0 demo_reports = Some (st, s')" "st = 0"
    "if st = 0 \<and> (0::8 word) = 0 \<and> SubscriptionReporting demo_reports = CFE_SB_ENABLE
      then \<exists>r s2. CFE_SB_TransmitMsg demo_env (Some (subscription_report (Host demo_env) 0x18A9 demo_pipe (0, 0))) True s1 = Some (r, s2) \<and> log_step s2 s'
      else log_step s1 s'"
    using CFE_SB_SubscribeFull_outcome [OF demo_reports_reachable demo_pool_fresh, of "0x18A9" demo_pipe "(0, 0)" 4 0]
    unfolding c r d if_False if_True by blast
  then show ?thesis using on by auto
qed

text \<open>
  C24. Unsubscribing undoes subscribing. After an accepted subscription, of either scope and while it is not
  reported to the network, the pipe is the first subscriber of the id, or the list is as it was if the pipe was in
  it already. Unsubscribing the pipe is then accepted and leaves every id the other subscribers it had, with
  their counts, in the same order, and changes no pipe, mail or message in hand: if the pipe
  was not a subscriber before, everything is as it was; if it was, its older subscription is gone too.
\<close>

theorem CFE_SB_subscribe_roundtrip:
  assumes "sb_reachable s" and "pool_fresh e" and "CFE_SB_SubscribeFull e mid p qos lim scope s = Some (0, s1)"
    and "scope = CFE_SB_MSG_LOCAL \<or> SubscriptionReporting s \<noteq> CFE_SB_ENABLE"
  shows "subscriptions s1 mid = (if p \<in> dst_PipeId ` set (subscriptions s mid) then [] else [new_dest p lim scope]) @ subscriptions s mid \<and>
    (\<exists>s2. CFE_SB_UnsubscribeFull e mid p scope (snd (CallerApp e)) s1 = Some (0, s2) \<and>
      resubscribed ((subscriptions s)(mid := filter (\<lambda>d. dst_PipeId d \<noteq> p) (subscriptions s mid))) s s2 \<and>
      (p \<notin> dst_PipeId ` set (subscriptions s mid) \<longrightarrow> resubscribed (subscriptions s) s s2))"
proof -
  let ?ev = "subscribe_outcome e mid p scope s"
  let ?new = "if p \<in> dst_PipeId ` set (subscriptions s mid) then [] else [new_dest p lim scope]"
  obtain t where t: "subscribe_status ?ev = 0" "bus_ok s1" "log_step t s1"
     "resubscribed (\<lambda>k. if k = mid \<and> ?ev = 0 then new_dest p lim scope # subscriptions s k else subscriptions s k) s t"
    using SubscribeFull_ok [OF reachable_ok [OF assms(1)] assms(2), of mid p qos lim scope] assms(3,4) by auto
  have c: "is_pipe s p" "owner s p = snd (CallerApp e)" "CFE_SB_IsValidMsgId mid" "\<not> scope > 1"
    using t(1) unfolding subscribe_cases by (simp_all split: if_splits)
  have ev: "?ev = 0 \<longleftrightarrow> p \<notin> dst_PipeId ` set (subscriptions s mid)"
    using t(1) unfolding subscribe_cases by (simp split: if_splits)
  note r1 = resubscribed_log [OF t(4,3), unfolded ev]
  have sub1: "subscriptions s1 k = (if k = mid then ?new @ subscriptions s k else subscriptions s k)" for k
    using r1 by (simp add: resubscribed_def)
  have "unsubscribe_refused mid p scope (snd (CallerApp e)) s1 = 0"
    using r1 c by (simp add: unsubscribe_refused_def resubscribed_def is_pipe_def owner_def)
  then obtain s2 where s2: "CFE_SB_UnsubscribeFull e mid p scope (snd (CallerApp e)) s1 = Some (0, s2)"
     "resubscribed (\<lambda>k. if k = mid then filter (\<lambda>d. dst_PipeId d \<noteq> p) (subscriptions s1 k) else subscriptions s1 k) s1 s2"
    using UnsubscribeFull_ok [OF t(2), of e mid p scope "snd (CallerApp e)"] by auto
  have r2: "resubscribed ((subscriptions s)(mid := filter (\<lambda>d. dst_PipeId d \<noteq> p) (subscriptions s mid))) s s2"
    using r1 s2(2) sub1 by (simp add: resubscribed_def new_dest_def)
  moreover have "(subscriptions s)(mid := filter (\<lambda>d. dst_PipeId d \<noteq> p) (subscriptions s mid)) = subscriptions s"
    if "p \<notin> dst_PipeId ` set (subscriptions s mid)"
  proof -
    have "filter (\<lambda>d. dst_PipeId d \<noteq> p) (subscriptions s mid) = subscriptions s mid" using that by (intro filter_True) auto
    then show ?thesis by simp
  qed
  ultimately show ?thesis using s2(1) sub1 by auto
qed

theorem CFE_SB_subscribe_roundtrip_witness:
  "\<exists>s1 s2. CFE_SB_SubscribeFull demo_env 0x18A9 demo_pipe (0, 0) 4 CFE_SB_MSG_GLOBAL demo1 = Some (0, s1) \<and>
    length (subscriptions s1 0x18A9) = 1 \<and>
    CFE_SB_UnsubscribeFull demo_env 0x18A9 demo_pipe CFE_SB_MSG_GLOBAL 7 s1 = Some (0, s2) \<and> subscriptions s2 0x18A9 = []"
proof -
  obtain s1 where s1: "CFE_SB_SubscribeFull demo_env 0x18A9 demo_pipe (0, 0) 4 0 demo1 = Some (0, s1)"
    using SubscribeFull_ok [OF demo1_ok demo_pool_fresh, of "0x18A9" demo_pipe "(0, 0)" 4 0] by (auto simp: demo_outcome subscribe_status_def)
  have "snd (CallerApp demo_env) = 7" "SubscriptionReporting demo1 \<noteq> CFE_SB_ENABLE" by (simp_all add: demo_env_def demo1_rest)
  with CFE_SB_subscribe_roundtrip [OF demo1_reachable demo_pool_fresh s1] s1 show ?thesis
    by (auto simp: demo1_rest resubscribed_def)
qed



section \<open>Sending without a copy\<close>

text \<open>Two states that no application can tell apart, but for the numbers of the buffers.\<close>

definition same_outside :: "sb_state \<Rightarrow> sb_state \<Rightarrow> bool" where
  "same_outside s s' \<longleftrightarrow> (\<forall>p. is_pipe s' p = is_pipe s p) \<and> (\<forall>p. is_pipe s p \<longrightarrow> mail s' p = mail s p \<and> in_hand s' p = in_hand s p) \<and>
     (\<forall>k. subscriptions s' k = subscriptions s k \<and> seq_of s' k = seq_of s k)"

lemma seq_of_steps:
  "log_step s s' \<Longrightarrow> seq_of s' k = seq_of s k" "buf_step s s' \<Longrightarrow> seq_of s' k = seq_of s k"
  unfolding seq_of_def by (simp_all add: log_step_route(3) buf_step_route(4)) (auto intro: seq_cong simp: log_step_simps buf_step_simps)

lemma accepts_buf: "buf_step s s' \<Longrightarrow> accepts e s' d = accepts e s d"
  by (simp add: accepts_def wants_def q_room_def pipe_of_def buf_step_simps)

lemma published_none:
  assumes "subscriptions s mid = []"
  shows "published e mid False m s s' \<longleftrightarrow> same_outside s s'"
proof -
  have "\<not> takes e s mid p" for p using assms by (simp add: takes_def)
  moreover have "map (\<lambda>d. if k = mid \<and> accepts e s d then delivered d else d) (subscriptions s k) = subscriptions s k" for k
    using assms by (cases "k = mid") simp_all
  ultimately show ?thesis by (auto simp: published_def same_outside_def)
qed

lemma published_same:
  assumes p1: "published e mid upd m s s1" and p2: "published e mid upd m t t1" and st: "buf_step s t" and v: "views_kept s t"
  shows "same_outside s1 t1"
proof -
  have "takes e t mid p = takes e s mid p" for p by (simp add: takes_def accepts_buf [OF st] buf_step_route(3) [OF st])
  then show ?thesis
    using p1 p2 v seq_of_steps(2) [OF st] by (simp add: published_def same_outside_def views_kept_def accepts_buf [OF st])
qed

text \<open>
  C12. A message that an application writes into a buffer of the bus and hands over has the same effect as
  one that the bus copies: the same pipes get the same bytes, with the same header, and the same counts
  go up; afterwards the application no longer owns the buffer.
\<close>

theorem CFE_SB_TransmitBuffer_equals:
  assumes "sb_reachable s" and "pool_fresh e" and "snd (CallerApp e) \<noteq> CFE_ES_APPID_UNDEFINED"
    and "CFE_MSG_GetSize m = length m" and "CFE_SB_TransmitMsg e (Some m) upd s = Some (0, s')"
    and "CFE_SB_AllocateMessageBuffer e (length m) s = Some (Some b, s1)" and "write_buffer b m s1 = Some s2"
  shows "\<exists>s3. CFE_SB_TransmitBuffer e (Some b) upd s2 = Some (0, s3) \<and> same_outside s' s3 \<and> b \<notin> owned_bufs s3"
proof -
  let ?mid = "CFE_MSG_GetMsgId m"
  have ok: "bus_ok s" by (rule reachable_ok [OF assms(1)])
  have sz: "sized m" by (simp add: sized_def assms(4))
  have a: "bus_ok s1" "views_kept s s1" "buf_step s s1" "b \<in> owned_bufs s1"
    using AllocateMessageBuffer_ok [OF ok assms(2,3), of "length m"] assms(6) by auto
  have w: "bus_ok s2" "views_kept s1 s2" "buf_step s1 s2" "b \<in> owned_bufs s2" "content s2 b = m"
    using write_buffer_ok [OF a(1,4), of m] assms(7) by auto
  have v: "views_kept s s2" by (rule views_kept_trans [OF a(2) w(2)])
  have st: "buf_step s s2" by (rule buf_step_trans [OF a(3) w(3)])
  have rid: "CFE_SBR_GetRouteId ?mid s2 = CFE_SBR_GetRouteId ?mid s" by (rule buf_step_route(4) [OF st])
  have copy: "sent_copy e s2 u m = sent_copy e s u m" for u by (simp add: sent_copy_def seq_of_steps(2) [OF st])
  have t: "sb_msg_check m = 0" "if CFE_SBR_GetRouteId ?mid s = 0 then log_step s s' else published e ?mid upd (sent_copy e s upd m) s s'"
    using TransmitMsg_ok [OF ok assms(2) sz, of upd] assms(4,5) by (auto split: if_splits simp: sb_msg_check_def)
  obtain s3 where s3: "CFE_SB_TransmitBuffer e (Some b) upd s2 = Some (0, s3)" "b \<notin> owned_bufs s3"
    "published e ?mid (upd \<and> CFE_SBR_GetRouteId ?mid s \<noteq> 0) (sent_copy e s (upd \<and> CFE_SBR_GetRouteId ?mid s \<noteq> 0) m) s2 s3"
    using TransmitBuffer_ok [OF w(1,4), of e upd] sz t(1) unfolding w(5) rid copy by auto
  have "same_outside s' s3"
  proof (cases "CFE_SBR_GetRouteId ?mid s = 0")
    case True
    then have none: "subscriptions s ?mid = []" by (simp add: subscriptions_def subs_of_def)
    then have "published e ?mid False (sent_copy e s False m) s s'"
      using True t(2) view_log [of s s'] seq_of_steps(1) [of s s'] log_step_route(2) [of s s'] by (simp add: published_none same_outside_def)
    then show ?thesis using published_same [OF _ _ st v] s3(3) True by simp
  next
    case False
    then show ?thesis using published_same [OF _ _ st v] s3(3) t(2) by simp
  qed
  then show ?thesis using s3 by blast
qed


lemma demo_alloc: "\<exists>b s1. CFE_SB_AllocateMessageBuffer demo_env 12 demo2 = Some (Some b, s1)"
proof -
  have app: "snd (CallerApp demo_env) \<noteq> 0" "fst (CallerApp demo_env) = 0" by (simp_all add: demo_env_def)
  obtain bo s1 where a: "CFE_SB_AllocateMessageBuffer demo_env 12 demo2 = Some (bo, s1)"
    using AllocateMessageBuffer_ok [OF demo2_ok demo_pool_fresh app(1), of 12] by blast
  have "0 \<le> fst (GetPoolBuf demo_env demo2 n)" for n using demo2_pool [OF log_step_refl] by simp
  then have "CFE_SB_GetBufferFromPool demo_env 12 demo2 \<noteq> None"
    by (auto simp: CFE_SB_GetBufferFromPool_def Let_def not_le [symmetric] split: prod.splits) (metis fst_conv not_less)
  then have "bo \<noteq> None" using a app(2) by (auto simp: CFE_SB_AllocateMessageBuffer_def allocate_locked_def split: bind_splits option.splits)
  then show ?thesis using a by blast
qed

theorem CFE_SB_TransmitBuffer_equals_witness:
  "\<exists>b s1 s2 s3. CFE_SB_AllocateMessageBuffer demo_env 12 demo2 = Some (Some b, s1) \<and> write_buffer b demo_msg s1 = Some s2 \<and>
     CFE_SB_TransmitBuffer demo_env (Some b) False s2 = Some (0, s3) \<and> mail s3 demo_pipe = [demo_msg]"
proof -
  have app: "snd (CallerApp demo_env) \<noteq> 0" by (simp add: demo_env_def)
  have len: "length demo_msg = 12" by (simp add: demo_msg_def)
  obtain b s1 where a: "CFE_SB_AllocateMessageBuffer demo_env 12 demo2 = Some (Some b, s1)" using demo_alloc by blast
  then have s1: "bus_ok s1" "b \<in> owned_bufs s1" using AllocateMessageBuffer_ok [OF demo2_ok demo_pool_fresh app, of 12] by auto
  obtain s2 where w: "write_buffer b demo_msg s1 = Some s2" using write_buffer_ok [OF s1, of demo_msg] by blast
  from CFE_SB_TransmitBuffer_equals [OF demo2_reachable demo_pool_fresh app _ demo3_parts(1) _ w] a demo3_parts(3,4) show ?thesis
    by (auto simp: w demo_msg_ok(4) len same_outside_def)
qed

end
