(* ===== verification/Sb_Util.thy ===== *)
theory Sb_Util
  imports Cfe_Sb
begin

text \<open>
  Utilities of the software bus for the senders and receivers of messages (\<open>cfe_sb_util.c\<close>): where
  the user data of a message begins and how long it is, the time stamp, and strings in messages, which
  fill a field of fixed size and need no terminating NUL. A pointer to a string is the memory it points
  to; a routine that reads past its end, or through \<open>NULL\<close>, has no result.
\<close>

section \<open>User data\<close>

definition CFE_SB_MsgHdrSize :: "bytes option \<Rightarrow> nat" where
  "CFE_SB_MsgHdrSize MsgPtr = (case MsgPtr of
      None \<Rightarrow> 0
    | Some m \<Rightarrow> if \<not> CFE_MSG_GetHasSecondaryHeader m then 6
        else if CFE_MSG_GetType m = CFE_MSG_Type_Cmd then 8
        else if CFE_MSG_GetType m = CFE_MSG_Type_Tlm then 16 else 0)"

text \<open>The offset of the user data.\<close>

definition CFE_SB_GetUserData :: "bytes option \<Rightarrow> nat option" where
  "CFE_SB_GetUserData MsgPtr = (case MsgPtr of None \<Rightarrow> None | Some m \<Rightarrow> Some (CFE_SB_MsgHdrSize MsgPtr))"

definition CFE_SB_GetUserDataLength :: "bytes option \<Rightarrow> int" where
  "CFE_SB_GetUserDataLength MsgPtr = (case MsgPtr of
      None \<Rightarrow> 0
    | Some m \<Rightarrow> (int (CFE_MSG_GetSize m) - int (CFE_SB_MsgHdrSize MsgPtr)) mod 2 ^ 64)"

definition CFE_SB_SetUserDataLength :: "bytes option \<Rightarrow> nat \<Rightarrow> bytes option" where
  "CFE_SB_SetUserDataLength MsgPtr DataLength = (case MsgPtr of
      None \<Rightarrow> None
    | Some m \<Rightarrow>
        let TotalMsgSize = (CFE_SB_MsgHdrSize MsgPtr + DataLength) mod 2 ^ 64
        in Some (if TotalMsgSize \<le> CFE_MISSION_SB_MAX_SB_MSG_SIZE then snd (CFE_MSG_SetSize m TotalMsgSize) else m))"

definition CFE_SB_TimeStampMsg :: "CFE_TIME_SysTime \<Rightarrow> bytes \<Rightarrow> bytes" where
  "CFE_SB_TimeStampMsg now m = snd (CFE_MSG_SetMsgTime m now)"

section \<open>Strings\<close>

text \<open>The characters that both copy loops take: up to a NUL, the size of the source or that of the destination.\<close>

fun string_copy :: "bytes \<Rightarrow> nat \<Rightarrow> nat \<Rightarrow> bytes option" where
  "string_copy src 0 d = Some []"
| "string_copy src (Suc n) d = (case src of
      [] \<Rightarrow> None
    | c # cs \<Rightarrow> if c \<noteq> 0 \<and> d > 0 then map_option ((#) c) (string_copy cs n (d - 1)) else Some [])"

definition CFE_SB_MessageStringGet ::
    "bytes option \<Rightarrow> bytes option \<Rightarrow> bytes option \<Rightarrow> nat \<Rightarrow> nat \<Rightarrow> (int \<times> bytes option) option" where
  "CFE_SB_MessageStringGet dest src dflt DestMaxSize SourceMaxSize =
     (case dest of
        None \<Rightarrow> Some (CFE_SB_BAD_ARGUMENT, None)
      | Some d \<Rightarrow>
          if DestMaxSize = 0 then Some (CFE_SB_BAD_ARGUMENT, Some d)
          else do {
            (src, n) \<leftarrow> (case dflt of
                None \<Rightarrow> Some (src, SourceMaxSize)
              | Some df \<Rightarrow> if SourceMaxSize = 0 then Some (Some df, DestMaxSize)
                  else Option.bind src (\<lambda>s. case s of
                    [] \<Rightarrow> None
                  | c # cs \<Rightarrow> if c = 0 then Some (Some df, DestMaxSize) else Some (src, SourceMaxSize)));
            cs \<leftarrow> (if n = 0 then Some [] else Option.bind src (\<lambda>s. string_copy s n (DestMaxSize - 1)));
            if length cs < length d
            then Some (int (length cs), Some (cs @ 0 # drop (length cs + 1) d))
            else None
          })"

definition CFE_SB_MessageStringSet :: "bytes option \<Rightarrow> bytes option \<Rightarrow> nat \<Rightarrow> nat \<Rightarrow> (int \<times> bytes option) option" where
  "CFE_SB_MessageStringSet dest src DestMaxSize SourceMaxSize =
     (case (dest, src) of
        (Some d, Some s) \<Rightarrow> do {
          cs \<leftarrow> string_copy s SourceMaxSize DestMaxSize;
          if DestMaxSize \<le> length d
          then Some (int (length cs), Some (cs @ replicate (DestMaxSize - length cs) 0 @ drop DestMaxSize d))
          else None
        }
      | _ \<Rightarrow> Some (CFE_SB_BAD_ARGUMENT, dest))"

section \<open>Correctness\<close>

lemma string_copy_all: "0 \<notin> set xs \<Longrightarrow> length xs \<le> d \<Longrightarrow> length xs \<le> n \<Longrightarrow> n = length xs \<or> ys \<noteq> [] \<and> hd ys = 0 \<Longrightarrow>
   string_copy (xs @ ys) n d = Some xs"
proof (induction xs arbitrary: n d)
  case Nil
  then show ?case by (cases n; cases ys) auto
next
  case (Cons x xs)
  then obtain n' where "n = Suc n'" by (cases n) auto
  then show ?case using Cons by (auto simp: Suc_le_eq)
qed

text \<open>
  A string put into a field of a message comes out again: for text without NUL that fits into a field,
  what \<open>CFE_SB_MessageStringSet\<close> leaves in the field, which may fill it to the last byte, is read by
  \<open>CFE_SB_MessageStringGet\<close> as the same text, terminated by a NUL, whatever the default, unless the text is
  empty; then the default is taken.
\<close>

theorem CFE_SB_MessageString_roundtrip:
  assumes "0 \<notin> set str" and "length str \<le> n" and "n \<le> length field" and "length str < room" and "room \<le> length buf" and "str \<noteq> []"
  shows "\<exists>m. CFE_SB_MessageStringSet (Some field) (Some (str @ [0])) n (length str + 1) = Some (int (length str), Some m) \<and>
     length m = length field \<and> drop n m = drop n field \<and>
     CFE_SB_MessageStringGet (Some buf) (Some m) dflt room n = Some (int (length str), Some (str @ 0 # drop (length str + 1) buf))"
proof -
  let ?m = "str @ replicate (n - length str) 0 @ drop n field"
  have "string_copy (str @ [0]) (length str + 1) n = Some str" using assms by (intro string_copy_all) auto
  then have set: "CFE_SB_MessageStringSet (Some field) (Some (str @ [0])) n (length str + 1) = Some (int (length str), Some ?m)"
    using assms(3) by (simp add: CFE_SB_MessageStringSet_def)
  have "string_copy ?m n (room - 1) = Some str"
    using assms by (intro string_copy_all) (auto simp: Suc_le_eq)
  moreover have "\<exists>c cs. ?m = c # cs \<and> c \<noteq> 0" using assms(1,6) by (cases str) auto
  moreover have "n \<noteq> 0" "room \<noteq> 0" using assms(2,4,6) by (cases str, simp, simp)+
  ultimately have "CFE_SB_MessageStringGet (Some buf) (Some ?m) dflt room n = Some (int (length str), Some (str @ 0 # drop (length str + 1) buf))"
    using assms(4,5) by (auto simp: CFE_SB_MessageStringGet_def split: option.splits)
  moreover have "length ?m = length field" "drop n ?m = drop n field" using assms(2,3) by auto
  ultimately show ?thesis using set by blast
qed

theorem CFE_SB_MessageString_roundtrip_witness:
  "\<exists>m. CFE_SB_MessageStringSet (Some (replicate 4 7)) (Some [65, 66, 67, 68, 0]) 4 5 = Some (4, Some m) \<and>
     CFE_SB_MessageStringGet (Some (replicate 5 7)) (Some m) None 5 4 = Some (4, Some [65, 66, 67, 68, 0])"
proof -
  have l: "length [65, 66, 67, 68 :: u8] = 4" "(4 :: nat) + 1 = 5" by simp_all
  have "\<exists>m. CFE_SB_MessageStringSet (Some (replicate 4 7)) (Some ([65, 66, 67, 68] @ [0])) 4 5 = Some (int 4, Some m) \<and>
     length m = length (replicate 4 (7 :: u8)) \<and> drop 4 m = drop 4 (replicate 4 7) \<and>
     CFE_SB_MessageStringGet (Some (replicate 5 7)) (Some m) None 5 4 = Some (int 4, Some ([65, 66, 67, 68] @ 0 # drop 5 (replicate 5 7)))"
    using CFE_SB_MessageString_roundtrip [of "[65, 66, 67, 68]" 4 "replicate 4 7" 5 "replicate 5 7" None] unfolding l by simp
  then show ?thesis by auto
qed

end
