(* ===== verification/Sb_Task.thy ===== *)
theory Sb_Task
  imports Sb_Calls Sb_Util
begin

text \<open>
  The task of the software bus (\<open>cfe_sb_task.c\<close>, \<open>cfe_sb_dispatch.c\<close>, \<open>cfe_sb_init.c\<close>): start-up, the main
  loop on the command pipe, ground commands, housekeeping and statistics packets, the report of previous
  subscriptions, and the routines that file services call to write a file record by record. The globals
  that only the task uses are kept beside the state of the bus; what it transmits is logged.
\<close>

section \<open>Constants\<close>

abbreviation (input) CFE_SB_CMD_MID :: u32 where "CFE_SB_CMD_MID \<equiv> 0x1803"
abbreviation (input) CFE_SB_SEND_HK_MID :: u32 where "CFE_SB_SEND_HK_MID \<equiv> 0x180B"
abbreviation (input) CFE_SB_SUB_RPT_CTRL_MID :: u32 where "CFE_SB_SUB_RPT_CTRL_MID \<equiv> 0x180E"
abbreviation (input) CFE_SB_HK_TLM_MID :: u32 where "CFE_SB_HK_TLM_MID \<equiv> 0x0803"
abbreviation (input) CFE_SB_STATS_TLM_MID :: u32 where "CFE_SB_STATS_TLM_MID \<equiv> 0x080A"
abbreviation (input) CFE_SB_ALLSUBS_TLM_MID :: u32 where "CFE_SB_ALLSUBS_TLM_MID \<equiv> 0x080D"
abbreviation (input) CFE_SB_SUB_ENTRIES_PER_PKT :: nat where "CFE_SB_SUB_ENTRIES_PER_PKT \<equiv> 20"
abbreviation (input) CFE_MISSION_SB_MAX_PIPES :: nat where "CFE_MISSION_SB_MAX_PIPES \<equiv> 64"
abbreviation (input) CFE_PLATFORM_SB_BUF_MEMORY_BYTES :: nat where "CFE_PLATFORM_SB_BUF_MEMORY_BYTES \<equiv> 524288"
abbreviation (input) CFE_SB_CMD_PIPE_DEPTH :: u16 where "CFE_SB_CMD_PIPE_DEPTH \<equiv> 32"
abbreviation (input) CFE_STATUS_EXTERNAL_RESOURCE_FAIL :: int where "CFE_STATUS_EXTERNAL_RESOURCE_FAIL \<equiv> 0xc8000005 - 0x100000000"
abbreviation (input) CFE_STATUS_REQUEST_ALREADY_PENDING :: int where "CFE_STATUS_REQUEST_ALREADY_PENDING \<equiv> 0xc8000006 - 0x100000000"

section \<open>State\<close>

text \<open>An entry of the pipe depth statistics, and the records of the three kinds of files.\<close>

record CFE_SB_PipeDepthStats =
  pds_PipeId :: u32
  pds_MaxQueueDepth :: u16
  pds_CurrentQueueDepth :: u16
  pds_PeakQueueDepth :: u16

record CFE_SB_RoutingFileEntry =
  rfe_MsgId :: u32
  rfe_PipeId :: u32
  rfe_State :: u8
  rfe_MsgCnt :: u16
  rfe_AppName :: string
  rfe_PipeName :: string

record CFE_SB_PipeInfoEntry =
  pie_PipeId :: u32
  pie_AppId :: u32
  pie_PipeName :: string
  pie_AppName :: string
  pie_MaxQueueDepth :: u16
  pie_CurrentQueueDepth :: u16
  pie_PeakQueueDepth :: u16
  pie_SendErrors :: u16
  pie_Opts :: u8

record CFE_SB_MsgMapFileEntry =
  mmf_MsgId :: u32
  mmf_Index :: nat

text \<open>The kind of file and its name, as they are handed to file services.\<close>

record CFE_FS_FileWriteMetaData =
  FileSubType :: nat
  FileName :: string

record sb_task =
  Bus :: sb_state
  CmdPipe :: u32
  PoolHdl :: u32
  MemPoolHandle :: u32
  StatLimits :: "u32 list"
  PipeDepthStats :: "CFE_SB_PipeDepthStats list"
  PktSegment :: u32
  Entries :: u32
  SubEntry :: "u32 list"
  FileWrite :: CFE_FS_FileWriteMetaData
  Sent :: "bytes list"

text \<open>What the task finds around it, beside what every caller of the bus finds.\<close>

record sb_task_env =
  Sb :: sb_env
  DumpPending :: bool
  ParseFileName :: "bytes \<Rightarrow> string \<Rightarrow> int \<times> string"
  DumpRequest :: "CFE_FS_FileWriteMetaData \<Rightarrow> int"
  AppName :: "u32 \<Rightarrow> string"
  EvsRegister :: int
  InitEvent :: int
  MutexCreate :: int
  PoolCreate :: "int \<times> u32"

definition on_bus :: "(sb_state \<Rightarrow> sb_state) \<Rightarrow> sb_task \<Rightarrow> sb_task" where
  "on_bus f t = t\<lparr>Bus := f (Bus t)\<rparr>"

definition task_event :: "nat \<Rightarrow> nat \<Rightarrow> int list \<Rightarrow> sb_task \<Rightarrow> sb_task" where
  "task_event ev ty args = on_bus (sb_event ev ty args)"

definition task_HK :: "(CFE_SB_Housekeeping \<Rightarrow> CFE_SB_Housekeeping) \<Rightarrow> sb_task \<Rightarrow> sb_task" where
  "task_HK f = on_bus (upd_HK f)"

abbreviation accept_cmd :: "CFE_SB_Housekeeping \<Rightarrow> CFE_SB_Housekeeping" where
  "accept_cmd h \<equiv> h\<lparr>CommandCounter := CommandCounter h + 1\<rparr>"

abbreviation reject_cmd :: "CFE_SB_Housekeeping \<Rightarrow> CFE_SB_Housekeeping" where
  "reject_cmd h \<equiv> h\<lparr>CommandErrorCounter := CommandErrorCounter h + 1\<rparr>"

text \<open>The task transmits a packet with a new header.\<close>

definition task_transmit :: "sb_task_env \<Rightarrow> bytes \<Rightarrow> sb_task \<Rightarrow> (int \<times> sb_task) option" where
  "task_transmit e m t = map_option (\<lambda>(st, s). (st, t\<lparr>Bus := s, Sent := Sent t @ [m]\<rparr>)) (CFE_SB_TransmitMsg (Sb e) (Some m) True (Bus t))"

section \<open>Counters and switches\<close>

definition CFE_SB_NoopCmd :: "sb_task \<Rightarrow> sb_task" where
  "CFE_SB_NoopCmd t = task_HK accept_cmd (task_event 28 CFE_EVS_EventType_INFORMATION [] t)"

definition CFE_SB_ResetCounters :: "sb_task \<Rightarrow> sb_task" where
  "CFE_SB_ResetCounters = task_HK (\<lambda>h. h\<lparr>CommandCounter := 0, CommandErrorCounter := 0, NoSubscribersCounter := 0,
     DuplicateSubscriptionsCounter := 0, MsgSendErrorCounter := 0, MsgReceiveErrorCounter := 0, InternalErrorCounter := 0,
     CreatePipeErrorCounter := 0, SubscribeErrorCounter := 0, PipeOverflowErrorCounter := 0, MsgLimitErrorCounter := 0\<rparr>)"

definition CFE_SB_ResetCountersCmd :: "sb_task \<Rightarrow> sb_task" where
  "CFE_SB_ResetCountersCmd t = CFE_SB_ResetCounters (task_event 29 CFE_EVS_EventType_DEBUG [] t)"

definition CFE_SB_EnableSubReportingCmd :: "sb_task \<Rightarrow> sb_task" where
  "CFE_SB_EnableSubReportingCmd = on_bus (CFE_SB_SetSubscriptionReporting CFE_SB_ENABLE)"

definition CFE_SB_DisableSubReportingCmd :: "sb_task \<Rightarrow> sb_task" where
  "CFE_SB_DisableSubReportingCmd = on_bus (CFE_SB_SetSubscriptionReporting CFE_SB_DISABLE)"

definition CFE_SB_IncrCmdCtr :: "int \<Rightarrow> sb_task \<Rightarrow> sb_task" where
  "CFE_SB_IncrCmdCtr status = task_HK (if status = 0 then accept_cmd else reject_cmd)"

section \<open>Packets\<close>

text \<open>The housekeeping packet: counters, overflow counters, memory.\<close>

definition hk_packet :: "endian \<Rightarrow> CFE_SB_Housekeeping \<Rightarrow> u32 \<Rightarrow> u32 \<Rightarrow> u32 \<Rightarrow> bytes" where
  "hk_packet en h hdl used unmarked =
     (let m = snd (CFE_MSG_Init CFE_SB_HK_TLM_MID 44);
          m = m[16 := CommandCounter h, 17 := CommandErrorCounter h, 18 := NoSubscribersCounter h, 19 := MsgSendErrorCounter h,
            20 := MsgReceiveErrorCounter h, 21 := InternalErrorCounter h, 22 := CreatePipeErrorCounter h, 23 := SubscribeErrorCounter h,
            24 := PipeOptsErrorCounter h, 25 := DuplicateSubscriptionsCounter h, 26 := GetPipeIdByNameErrorCounter h];
          m = wr16 en m 28 (PipeOverflowErrorCounter h);
          m = wr16 en m 30 (MsgLimitErrorCounter h)
      in wr32 en (wr32 en (wr32 en m 32 hdl) 36 used) 40 unmarked)"

definition CFE_SB_SendHKTlmCmd :: "sb_task_env \<Rightarrow> sb_task \<Rightarrow> sb_task option" where
  "CFE_SB_SendHKTlmCmd e t =
     (let s = Bus t;
          m = hk_packet (Host (Sb e)) (HK s) (MemPoolHandle t) (MemInUse (Stat s)) (of_nat CFE_PLATFORM_SB_BUF_MEMORY_BYTES - PeakMemInUse (Stat s));
          m = CFE_SB_TimeStampMsg (Clock (Sb e)) m
      in map_option snd (task_transmit e m t))"

text \<open>The statistics packet: fifteen numbers and the depths of the pipes in use, the rest cleared.\<close>

definition wr_words :: "endian \<Rightarrow> nat \<Rightarrow> u32 list \<Rightarrow> bytes \<Rightarrow> bytes" where
  "wr_words en off ws m = fold (\<lambda>k m. wr32 en m (off + 4 * k) (ws ! k)) [0..<length ws] m"

definition wr_depth :: "endian \<Rightarrow> nat \<Rightarrow> CFE_SB_PipeDepthStats \<Rightarrow> bytes \<Rightarrow> bytes" where
  "wr_depth en off d m = wr16 en (wr16 en (wr16 en (wr32 en m off (pds_PipeId d)) (off + 4) (pds_MaxQueueDepth d))
     (off + 6) (pds_CurrentQueueDepth d)) (off + 8) (pds_PeakQueueDepth d)"

definition stats_packet :: "endian \<Rightarrow> CFE_SB_Stats \<Rightarrow> u32 list \<Rightarrow> CFE_SB_PipeDepthStats list \<Rightarrow> bytes" where
  "stats_packet en st lim ds =
     (let m = snd (CFE_MSG_Init CFE_SB_STATS_TLM_MID 844);
          m = wr_words en 16 [MsgIdsInUse st, PeakMsgIdsInUse st, lim ! 0, PipesInUse st, PeakPipesInUse st, lim ! 1,
            MemInUse st, PeakMemInUse st, lim ! 2, SubscriptionsInUse st, PeakSubscriptionsInUse st, lim ! 3,
            SBBuffersInUse st, PeakSBBuffersInUse st, lim ! 4] m
      in fold (\<lambda>k m. wr_depth en (76 + 12 * k) (ds ! k) m) [0..<length ds] m)"

definition depth_of :: "CFE_SB_PipeD \<Rightarrow> CFE_SB_PipeDepthStats" where
  "depth_of d = \<lparr>pds_PipeId = pd_PipeId d, pds_MaxQueueDepth = pd_MaxQueueDepth d,
     pds_CurrentQueueDepth = pd_CurrentQueueDepth d, pds_PeakQueueDepth = pd_PeakQueueDepth d\<rparr>"

definition no_depth :: CFE_SB_PipeDepthStats where
  "no_depth = \<lparr>pds_PipeId = 0, pds_MaxQueueDepth = 0, pds_CurrentQueueDepth = 0, pds_PeakQueueDepth = 0\<rparr>"

fun collect_depths :: "CFE_SB_PipeD list \<Rightarrow> nat \<Rightarrow> CFE_SB_PipeDepthStats list" where
  "collect_depths [] n = replicate n no_depth"
| "collect_depths (d # ds) 0 = []"
| "collect_depths (d # ds) (Suc n) =
     (if CFE_SB_PipeDescIsUsed d then depth_of d # collect_depths ds n else collect_depths ds (Suc n))"

definition CFE_SB_SendStatsCmd :: "sb_task_env \<Rightarrow> sb_task \<Rightarrow> sb_task option" where
  "CFE_SB_SendStatsCmd e t = do {
     let t = t\<lparr>PipeDepthStats := collect_depths (PipeTbl (Bus t)) CFE_MISSION_SB_MAX_PIPES\<rparr>;
     let m = CFE_SB_TimeStampMsg (Clock (Sb e)) (stats_packet (Host (Sb e)) (Stat (Bus t)) (StatLimits t) (PipeDepthStats t));
     (_, t) \<leftarrow> task_transmit e m t;
     Some (task_HK accept_cmd (task_event 32 CFE_EVS_EventType_DEBUG [] t))
   }"


section \<open>Routes\<close>

text \<open>Both route commands: the checks, the destination, and the event they lead to.\<close>

definition route_cmd :: "u8 \<Rightarrow> nat \<Rightarrow> nat \<Rightarrow> nat \<Rightarrow> u32 \<Rightarrow> u32 \<Rightarrow> sb_state \<Rightarrow> (nat \<times> sb_state) option" where
  "route_cmd active ev1 ev2 ev3 mid pipe s =
     (let idx = CFE_SB_LocatePipeDescByID pipe
      in if \<not> CFE_SB_IsValidMsgId mid \<or> \<not> CFE_SB_PipeDescIsMatch s idx pipe then Some (ev3, upd_HK reject_cmd s)
         else do {
           destptr \<leftarrow> CFE_SB_GetDestPtr (CFE_SBR_GetRouteId mid s) pipe s;
           case destptr of
             None \<Rightarrow> Some (ev1, upd_HK reject_cmd s)
           | Some a \<Rightarrow> do {
               s \<leftarrow> upd_Dest a (\<lambda>d. d\<lparr>dst_Active := active\<rparr>) s;
               Some (ev2, upd_HK accept_cmd s)
             }
         })"

definition route_event :: "nat \<Rightarrow> nat \<Rightarrow> u32 \<Rightarrow> u32 \<Rightarrow> sb_state \<Rightarrow> sb_state" where
  "route_event ev ev2 mid pipe =
     sb_event ev (if ev = ev2 then CFE_EVS_EventType_DEBUG else CFE_EVS_EventType_ERROR) [uint mid, uint pipe]"

definition CFE_SB_EnableRouteCmd :: "u32 \<Rightarrow> u32 \<Rightarrow> sb_task \<Rightarrow> sb_task option" where
  "CFE_SB_EnableRouteCmd mid pipe t = do {
     (ev, s) \<leftarrow> route_cmd CFE_SB_ACTIVE 33 34 35 mid pipe (Bus t);
     Some (t\<lparr>Bus := route_event ev 34 mid pipe s\<rparr>)
   }"

definition CFE_SB_DisableRouteCmd :: "u32 \<Rightarrow> u32 \<Rightarrow> sb_task \<Rightarrow> sb_task option" where
  "CFE_SB_DisableRouteCmd mid pipe t = do {
     (ev, s) \<leftarrow> route_cmd CFE_SB_INACTIVE 36 37 38 mid pipe (Bus t);
     Some (t\<lparr>Bus := route_event ev 37 mid pipe s\<rparr>)
   }"

section \<open>The report of previous subscriptions\<close>

text \<open>Packet number, an unused number of packets, the number of entries, and the entries.\<close>

definition allsubs_packet :: "endian \<Rightarrow> u32 \<Rightarrow> u32 \<Rightarrow> u32 list \<Rightarrow> bytes" where
  "allsubs_packet en seg n es =
     (let m = snd (CFE_MSG_Init CFE_SB_ALLSUBS_TLM_MID 268);
          m = wr32 en (wr32 en m 16 seg) 24 n
      in fold (\<lambda>k m. wr32 en m (28 + 12 * k) (es ! k)) [0..<length es] m)"

definition send_subs :: "sb_task_env \<Rightarrow> nat \<Rightarrow> sb_task \<Rightarrow> sb_task option" where
  "send_subs e ev t = do {
     (status, t) \<leftarrow> task_transmit e (allsubs_packet (Host (Sb e)) (PktSegment t) (Entries t) (SubEntry t)) t;
     Some (task_event ev CFE_EVS_EventType_DEBUG [uint (PktSegment t), uint (Entries t), status] t)
   }"

text \<open>Is there a subscriber of global scope?\<close>

partial_function (option) has_global :: "(nat \<Rightarrow> CFE_SB_DestinationD option) \<Rightarrow> nat option \<Rightarrow> bool option" where
  "has_global ds ptr = (case ptr of
      None \<Rightarrow> Some False
    | Some a \<Rightarrow> Option.bind (ds a) (\<lambda>d. if dst_Scope d = CFE_SB_MSG_GLOBAL then Some True else has_global ds (dst_Next d)))"

definition CFE_SB_SendRouteSub :: "sb_task_env \<Rightarrow> nat \<Rightarrow> sb_task \<Rightarrow> sb_task option" where
  "CFE_SB_SendRouteSub e r t = do {
     found \<leftarrow> has_global (Dests (Bus t)) (CFE_SBR_GetDestListHeadPtr r (Bus t));
     if \<not> found then Some t
     else if unat (Entries t) < CFE_SB_SUB_ENTRIES_PER_PKT
     then do {
       let t = t\<lparr>SubEntry := (SubEntry t)[unat (Entries t) := CFE_SBR_GetMsgId r (Bus t)], Entries := Entries t + 1\<rparr>;
       if Entries t \<ge> of_nat CFE_SB_SUB_ENTRIES_PER_PKT
       then do {
         t \<leftarrow> send_subs e 44 t;
         Some (t\<lparr>Entries := 0, PktSegment := PktSegment t + 1\<rparr>)
       }
       else Some t
     }
     else None
   }"

definition CFE_SB_SendPrevSubsCmd :: "sb_task_env \<Rightarrow> sb_task \<Rightarrow> sb_task option" where
  "CFE_SB_SendPrevSubsCmd e t = do {
     t \<leftarrow> for_loop 0 (RouteIdxTop (Bus t)) (\<lambda>i. CFE_SB_SendRouteSub e (CFE_SBR_ValueToRouteId i)) (t\<lparr>PktSegment := 1, Entries := 0\<rparr>);
     if Entries t > 0 then send_subs e 45 t else Some t
   }"

section \<open>Files\<close>

text \<open>
  \<open>CFE_SBR_ForEachRouteId\<close> with a throttle: the end of the walk, and where the next one starts, which is 0
  when the table is finished.
\<close>

definition throttle_end :: "nat \<Rightarrow> nat \<Rightarrow> nat \<Rightarrow> nat \<times> nat" where
  "throttle_end StartIndex MaxLoop endidx = (if StartIndex + MaxLoop < endidx then (StartIndex + MaxLoop, StartIndex + MaxLoop) else (endidx, 0))"

definition each_route :: "nat \<Rightarrow> nat \<Rightarrow> (nat \<Rightarrow> 'b \<times> sb_state \<Rightarrow> ('b \<times> sb_state) option) \<Rightarrow> 'b \<times> sb_state \<Rightarrow> (nat \<times> 'b \<times> sb_state) option" where
  "each_route StartIndex MaxLoop callback x =
     (let (endidx, nxt) = throttle_end StartIndex MaxLoop (RouteIdxTop (snd x))
      in map_option (Pair nxt) (for_loop StartIndex (endidx - StartIndex) (\<lambda>i. callback (CFE_SBR_ValueToRouteId i)) x))"

text \<open>The destinations of a route that name a pipe, at most as many as fit, with the owners of the pipes.\<close>

partial_function (option) collect_dests ::
    "(nat \<Rightarrow> CFE_SB_DestinationD option) \<Rightarrow> sb_state \<Rightarrow> nat option \<Rightarrow> (CFE_SB_DestinationD \<times> u32) list \<Rightarrow>
     (CFE_SB_DestinationD \<times> u32) list option" where
  "collect_dests ds s ptr xs = (case ptr of
      None \<Rightarrow> Some xs
    | Some a \<Rightarrow> if length xs < CFE_PLATFORM_SB_MAX_DEST_PER_PKT
        then Option.bind (ds a) (\<lambda>d.
          let idx = CFE_SB_LocatePipeDescByID (dst_PipeId d)
          in collect_dests ds s (dst_Next d)
               (if CFE_SB_PipeDescIsMatch s idx (dst_PipeId d) then xs @ [(d, pd_AppId (PipeTbl s ! the idx))] else xs))
        else Some xs)"

fun route_records :: "sb_task_env \<Rightarrow> u32 \<Rightarrow> (CFE_SB_DestinationD \<times> u32) list \<Rightarrow> sb_state \<Rightarrow> CFE_SB_RoutingFileEntry list \<times> sb_state" where
  "route_records e mid [] s = ([], s)"
| "route_records e mid ((d, app) # ds) s =
     (let (st, pname, s) = CFE_SB_GetPipeName (Sb e) (Some 20) (dst_PipeId d) s;
          (rs, s) = route_records e mid ds s
      in (\<lparr>rfe_MsgId = mid, rfe_PipeId = dst_PipeId d, rfe_State = dst_Active d, rfe_MsgCnt = dst_DestCnt d,
           rfe_AppName = AppName e app, rfe_PipeName = pname\<rparr> # rs, s))"

definition CFE_SB_CollectRouteInfo ::
    "sb_task_env \<Rightarrow> nat \<Rightarrow> CFE_SB_RoutingFileEntry list \<times> sb_state \<Rightarrow> (CFE_SB_RoutingFileEntry list \<times> sb_state) option" where
  "CFE_SB_CollectRouteInfo e r x = do {
     let s = snd x;
     let mid = CFE_SBR_GetMsgId r s;
     ds \<leftarrow> (if CFE_SB_IsValidMsgId mid then collect_dests (Dests s) s (CFE_SBR_GetDestListHeadPtr r s) [] else Some []);
     Some (route_records e mid ds s)
   }"

text \<open>The getters: the records to be written, whether the file is complete, and the state.\<close>

definition CFE_SB_WriteRouteInfoDataGetter ::
    "sb_task_env \<Rightarrow> u32 \<Rightarrow> sb_state \<Rightarrow> (CFE_SB_RoutingFileEntry list \<times> bool \<times> sb_state) option" where
  "CFE_SB_WriteRouteInfoDataGetter e RecordNum s = do {
     (nxt, rs, s) \<leftarrow> each_route (unat RecordNum mod 2 ^ 16) 1 (CFE_SB_CollectRouteInfo e) ([], s);
     Some (rs, nxt = 0, s)
   }"

definition pipe_record :: "sb_task_env \<Rightarrow> CFE_SB_PipeD \<Rightarrow> CFE_SB_PipeInfoEntry" where
  "pipe_record e d = \<lparr>pie_PipeId = pd_PipeId d, pie_AppId = pd_AppId d, pie_PipeName = (let (OsStatus, pname) = ResourceName (Sb e) (pd_SysQueueId d) in if OsStatus = OS_SUCCESS then pname else []),
     pie_AppName = AppName e (pd_AppId d), pie_MaxQueueDepth = pd_MaxQueueDepth d, pie_CurrentQueueDepth = pd_CurrentQueueDepth d,
     pie_PeakQueueDepth = pd_PeakQueueDepth d, pie_SendErrors = pd_SendErrors d, pie_Opts = pd_Opts d\<rparr>"

definition CFE_SB_WritePipeInfoDataGetter :: "sb_task_env \<Rightarrow> u32 \<Rightarrow> sb_state \<Rightarrow> CFE_SB_PipeInfoEntry option \<times> bool" where
  "CFE_SB_WritePipeInfoDataGetter e RecordNum s =
     (if unat RecordNum < CFE_PLATFORM_SB_MAX_PIPES \<and> CFE_SB_PipeDescIsUsed (PipeTbl s ! unat RecordNum)
      then Some (pipe_record e (PipeTbl s ! unat RecordNum)) else None, unat RecordNum \<ge> CFE_PLATFORM_SB_MAX_PIPES - 1)"

definition CFE_SB_CollectMsgMapInfo ::
    "nat \<Rightarrow> CFE_SB_MsgMapFileEntry \<times> sb_state \<Rightarrow> (CFE_SB_MsgMapFileEntry \<times> sb_state) option" where
  "CFE_SB_CollectMsgMapInfo r x = Some (\<lparr>mmf_MsgId = CFE_SBR_GetMsgId r (snd x), mmf_Index = CFE_SBR_RouteIdToValue r\<rparr>, snd x)"

definition CFE_SB_WriteMsgMapInfoDataGetter :: "u32 \<Rightarrow> sb_state \<Rightarrow> (CFE_SB_MsgMapFileEntry option \<times> bool) option" where
  "CFE_SB_WriteMsgMapInfoDataGetter RecordNum s = do {
     (nxt, b, s) \<leftarrow> each_route (unat RecordNum mod 2 ^ 16) 1 CFE_SB_CollectMsgMapInfo
       (\<lparr>mmf_MsgId = CFE_SB_INVALID_MSG_ID, mmf_Index = 0\<rparr>, s);
     Some (if CFE_SB_IsValidMsgId (mmf_MsgId b) then Some b else None, nxt = 0)
   }"

text \<open>What became of a file, told by an event.\<close>

datatype CFE_FS_FileWriteEvent =
    FileWriteEvent_COMPLETE | FileWriteEvent_CREATE_ERROR | FileWriteEvent_HEADER_WRITE_ERROR | FileWriteEvent_RECORD_WRITE_ERROR
  | FileWriteEvent_UNDEFINED

definition CFE_SB_BackgroundFileEventHandler ::
    "CFE_FS_FileWriteEvent \<Rightarrow> int \<Rightarrow> u32 \<Rightarrow> nat \<Rightarrow> nat \<Rightarrow> sb_task \<Rightarrow> sb_task" where
  "CFE_SB_BackgroundFileEventHandler Event Status RecordNum BlockSize Position t = (case Event of
      FileWriteEvent_COMPLETE \<Rightarrow> task_event 39 CFE_EVS_EventType_DEBUG [int Position, uint RecordNum] t
    | FileWriteEvent_HEADER_WRITE_ERROR \<Rightarrow> task_event 49 CFE_EVS_EventType_ERROR [int BlockSize, Status] t
    | FileWriteEvent_RECORD_WRITE_ERROR \<Rightarrow> task_event 49 CFE_EVS_EventType_ERROR [int BlockSize, Status] t
    | FileWriteEvent_CREATE_ERROR \<Rightarrow> task_event 40 CFE_EVS_EventType_ERROR [Status] t
    | FileWriteEvent_UNDEFINED \<Rightarrow> t)"

text \<open>The three commands differ in the kind of the file and its default name.\<close>

definition write_file_cmd :: "nat \<Rightarrow> string \<Rightarrow> sb_task_env \<Rightarrow> bytes \<Rightarrow> sb_task \<Rightarrow> sb_task" where
  "write_file_cmd subtype dflt e name t =
     (let (Status, t) =
        (if \<not> DumpPending e
         then let (Status, file) = ParseFileName e name dflt;
                  fw = \<lparr>FileSubType = subtype, FileName = file\<rparr>
              in (if Status = 0 then DumpRequest e fw else Status, t\<lparr>FileWrite := fw\<rparr>)
         else (CFE_STATUS_REQUEST_ALREADY_PENDING, t));
          t = (if Status \<noteq> 0 then CFE_SB_BackgroundFileEventHandler FileWriteEvent_CREATE_ERROR Status 0 0 0 t else t)
      in CFE_SB_IncrCmdCtr Status t)"

definition CFE_SB_WriteRoutingInfoCmd :: "sb_task_env \<Rightarrow> bytes \<Rightarrow> sb_task \<Rightarrow> sb_task" where
  "CFE_SB_WriteRoutingInfoCmd = write_file_cmd 21 ''/ram/cfe_sb_route.dat''"

definition CFE_SB_WritePipeInfoCmd :: "sb_task_env \<Rightarrow> bytes \<Rightarrow> sb_task \<Rightarrow> sb_task" where
  "CFE_SB_WritePipeInfoCmd = write_file_cmd 20 ''/ram/cfe_sb_pipe.dat''"

definition CFE_SB_WriteMapInfoCmd :: "sb_task_env \<Rightarrow> bytes \<Rightarrow> sb_task \<Rightarrow> sb_task" where
  "CFE_SB_WriteMapInfoCmd = write_file_cmd 22 ''/ram/cfe_sb_msgmap.dat''"


section \<open>Dispatch\<close>

definition CFE_SB_VerifyCmdLength :: "bytes \<Rightarrow> nat \<Rightarrow> sb_task \<Rightarrow> bool \<times> sb_task" where
  "CFE_SB_VerifyCmdLength m ExpectedLength t =
     (let ActualLength = CFE_MSG_GetSize m
      in if ExpectedLength \<noteq> ActualLength
         then (False, task_HK reject_cmd (task_event 68 CFE_EVS_EventType_ERROR
                [uint (CFE_MSG_GetMsgId m), uint (snd (CFE_MSG_GetFcnCode m)), int ActualLength, int ExpectedLength] t))
         else (True, t))"

text \<open>A command of the given length.\<close>

definition sized_cmd :: "bytes \<Rightarrow> nat \<Rightarrow> (sb_task \<Rightarrow> sb_task option) \<Rightarrow> sb_task \<Rightarrow> sb_task option" where
  "sized_cmd m n f t = (case CFE_SB_VerifyCmdLength m n t of (True, t) \<Rightarrow> f t | (False, t) \<Rightarrow> Some t)"

definition bad_cmd_code :: "u16 \<Rightarrow> sb_task \<Rightarrow> sb_task" where
  "bad_cmd_code cc t = task_HK reject_cmd (task_event 42 CFE_EVS_EventType_ERROR [uint cc] t)"

definition sub_rpt_command :: "sb_task_env \<Rightarrow> bytes \<Rightarrow> sb_task \<Rightarrow> sb_task option" where
  "sub_rpt_command e m t =
     (let FcnCode = snd (CFE_MSG_GetFcnCode m)
      in if FcnCode = 11 then sized_cmd m 8 (CFE_SB_SendPrevSubsCmd e) t
         else if FcnCode = 9 then sized_cmd m 8 (\<lambda>t. Some (CFE_SB_EnableSubReportingCmd t)) t
         else if FcnCode = 10 then sized_cmd m 8 (\<lambda>t. Some (CFE_SB_DisableSubReportingCmd t)) t
         else Some (bad_cmd_code FcnCode t))"

definition sb_command :: "sb_task_env \<Rightarrow> bytes \<Rightarrow> sb_task \<Rightarrow> sb_task option" where
  "sb_command e m t =
     (let FcnCode = snd (CFE_MSG_GetFcnCode m); mid = rd32 (Host (Sb e)) m 8; pipe = rd32 (Host (Sb e)) m 12; name = take 64 (drop 8 m)
      in if FcnCode = 0 then sized_cmd m 8 (\<lambda>t. Some (CFE_SB_NoopCmd t)) t
         else if FcnCode = 1 then sized_cmd m 8 (\<lambda>t. Some (CFE_SB_ResetCountersCmd t)) t
         else if FcnCode = 2 then sized_cmd m 8 (CFE_SB_SendStatsCmd e) t
         else if FcnCode = 3 then sized_cmd m 72 (\<lambda>t. Some (CFE_SB_WriteRoutingInfoCmd e name t)) t
         else if FcnCode = 4 then sized_cmd m 20 (CFE_SB_EnableRouteCmd mid pipe) t
         else if FcnCode = 5 then sized_cmd m 20 (CFE_SB_DisableRouteCmd mid pipe) t
         else if FcnCode = 7 then sized_cmd m 72 (\<lambda>t. Some (CFE_SB_WritePipeInfoCmd e name t)) t
         else if FcnCode = 8 then sized_cmd m 72 (\<lambda>t. Some (CFE_SB_WriteMapInfoCmd e name t)) t
         else Some (bad_cmd_code FcnCode t))"

definition CFE_SB_ProcessCmdPipePkt :: "sb_task_env \<Rightarrow> bytes \<Rightarrow> sb_task \<Rightarrow> sb_task option" where
  "CFE_SB_ProcessCmdPipePkt e m t =
     (let MessageID = CFE_MSG_GetMsgId m
      in if MessageID = CFE_SB_SEND_HK_MID then CFE_SB_SendHKTlmCmd e t
         else if MessageID = CFE_SB_SUB_RPT_CTRL_MID then sub_rpt_command e m t
         else if MessageID = CFE_SB_CMD_MID then sb_command e m t
         else Some (task_HK reject_cmd (task_event 43 CFE_EVS_EventType_ERROR [uint MessageID] t)))"

section \<open>Start-up and main loop\<close>

text \<open>Early start-up, before the task exists: nothing is left of it when it fails.\<close>

definition task_reset :: "u32 \<Rightarrow> sb_task" where
  "task_reset hdl = \<lparr>Bus = sb_reset, CmdPipe = 0, PoolHdl = hdl, MemPoolHandle = 0, StatLimits = replicate 5 0,
     PipeDepthStats = replicate CFE_MISSION_SB_MAX_PIPES no_depth, PktSegment = 0, Entries = 0,
     SubEntry = replicate CFE_SB_SUB_ENTRIES_PER_PKT 0, FileWrite = \<lparr>FileSubType = 0, FileName = []\<rparr>, Sent = []\<rparr>"

definition CFE_SB_EarlyInit :: "sb_task_env \<Rightarrow> int \<times> sb_task option" where
  "CFE_SB_EarlyInit e =
     (if MutexCreate e \<noteq> 0 then (CFE_STATUS_EXTERNAL_RESOURCE_FAIL, None)
      else let (Stat, hdl) = PoolCreate e
           in if Stat \<noteq> 0 then (Stat, None) else (Stat, Some (task_reset hdl)))"

definition task_subscribe :: "sb_task_env \<Rightarrow> u32 \<Rightarrow> sb_task \<Rightarrow> (int \<times> sb_task) option" where
  "task_subscribe e mid t = map_option (\<lambda>(st, s). (st, t\<lparr>Bus := s\<rparr>)) (CFE_SB_Subscribe (Sb e) mid (CmdPipe t) (Bus t))"

text \<open>The last steps: a block of the size of a restart command is allocated once, and the event.\<close>

definition init_pool :: "sb_task_env \<Rightarrow> sb_task \<Rightarrow> int \<times> sb_task" where
  "init_pool e t =
     (let (Status, a) = GetPoolBuf (Sb e) (Bus t) 10
      in if Status < 0 then (Status, t)
         else let Status = PutPoolBuf (Sb e) (Bus t) a
              in if Status < 0 then (Status, t)
                 else (InitEvent e, task_event 1 CFE_EVS_EventType_INFORMATION [] t))"

definition CFE_SB_AppInit :: "sb_task_env \<Rightarrow> sb_task \<Rightarrow> (int \<times> sb_task) option" where
  "CFE_SB_AppInit e t =
     (if EvsRegister e \<noteq> 0 then Some (EvsRegister e, t)
      else
        let t = t\<lparr>MemPoolHandle := PoolHdl t, StatLimits := [of_nat CFE_PLATFORM_SB_MAX_MSG_IDS, of_nat CFE_PLATFORM_SB_MAX_PIPES,
              of_nat CFE_PLATFORM_SB_BUF_MEMORY_BYTES, of_nat (CFE_PLATFORM_SB_MAX_MSG_IDS * CFE_PLATFORM_SB_MAX_DEST_PER_PKT),
              of_nat OS_QUEUE_MAX_DEPTH]\<rparr>;
            (Status, pipe, s) = CFE_SB_CreatePipe (Sb e) True CFE_SB_CMD_PIPE_DEPTH (Bus t);
            t = t\<lparr>Bus := s, CmdPipe := (case pipe of None \<Rightarrow> CmdPipe t | Some p \<Rightarrow> p)\<rparr>
        in if Status \<noteq> 0 then Some (Status, t)
           else do {
             (Status, t) \<leftarrow> task_subscribe e CFE_SB_CMD_MID t;
             if Status \<noteq> 0 then Some (Status, t)
             else do {
               (Status, t) \<leftarrow> task_subscribe e CFE_SB_SEND_HK_MID t;
               if Status \<noteq> 0 then Some (Status, t)
               else do {
                 (Status, t) \<leftarrow> task_subscribe e CFE_SB_SUB_RPT_CTRL_MID t;
                 Some (if Status \<noteq> 0 then (Status, t) else init_pool e t)
               }
             }
           })"

text \<open>One round of the main loop: the status of the receive call, which ends the loop unless it is 0.\<close>

definition task_round :: "sb_task_env \<Rightarrow> sb_task \<Rightarrow> (int \<times> sb_task) option" where
  "task_round e t = do {
     (Status, buf, s) \<leftarrow> CFE_SB_ReceiveBuffer (Sb e) True (CmdPipe t) CFE_SB_PEND_FOREVER (Bus t);
     let t = t\<lparr>Bus := s\<rparr>;
     if Status = 0
     then do { b \<leftarrow> buf; t \<leftarrow> CFE_SB_ProcessCmdPipePkt e (content s b) t; Some (0, t) }
     else Some (Status, t)
   }"

text \<open>The main loop over the rounds in which it is not blocked, with the calls that other tasks make between them.\<close>

datatype sb_step = Round sb_task_env | Call sb_env sb_call

fun CFE_SB_TaskMain :: "sb_step list \<Rightarrow> sb_task \<Rightarrow> (int \<times> sb_task) option" where
  "CFE_SB_TaskMain [] t = Some (0, t)"
| "CFE_SB_TaskMain (Round e # xs) t = Option.bind (task_round e t) (\<lambda>(Status, t).
     if Status = 0 then CFE_SB_TaskMain xs t else Some (Status, t))"
| "CFE_SB_TaskMain (Call e c # xs) t = Option.bind (sb_exec e c (Bus t)) (\<lambda>s. CFE_SB_TaskMain xs (t\<lparr>Bus := s\<rparr>))"

end
