(* ===== verification/Spec2Isabelle.thy ===== *)
theory Spec2Isabelle
  imports Lc_Cmds Sc_Spec Sb_Props Sb_Task
begin

text \<open>
  A model of the flight software of NOS3 (\<open>src/fsw\<close>): the message and time services of the core
  flight executive (cFE), its software bus, the limit checker application (LC) and the stored command
  processor (SC), with the theorems that make them correct.

  \<^bold>\<open>Parts and how they interact.\<close> Applications exchange CCSDS messages over the software bus: they
  subscribe pipes to message ids, and a message that one sends is put into the queues of the pipes
  that subscribed to its id, as one shared buffer whose references are counted. The
  limit checker compares telemetry of other applications with the limits of its watchpoint table,
  combines the results in the equations of its actionpoint table, and when an actionpoint has failed
  often enough asks the stored command processor to run a relative time sequence. The stored command
  processor keeps 64 relative time sequences (RTS), whose commands have delays, and two absolute time
  sequences (ATS), whose commands have times; once a second it sends the commands that are due. The
  last section of this theory joins the two applications.

  \<^item> \<open>Nos3_Prelude\<close>: machine integers, byte access in either byte order, events, arrays, counted
    loops, and the contract \<open>app_handler\<close> of a message handler.
  \<^item> \<open>Cfe_Time\<close> (\<open>cfe_time_api.c\<close>): addition, subtraction and comparison of spacecraft times.
  \<^item> \<open>Cfe_Msg\<close> (\<open>cfe/modules/msg\<close>): the header of a message, field by field, its checksum and
    initialisation; the contracts \<open>msg_field\<close> and \<open>msg_lens\<close> of a header field.
  \<^item> \<open>Cfe_Sb\<close> (\<open>cfe_sb_api.c\<close>): what an application sees of sending. \<open>Cfe_Tbl\<close>: what table services
    answer an application that asks for a table.
  \<^item> \<open>Osal_Queue\<close> (\<open>osapi-queue.c\<close>): message queues. \<open>Sb_Defs\<close> (\<open>cfe_sb_priv.h\<close>, \<open>cfe_sb_buf.c\<close>,
    \<open>cfe_sb_priv.c\<close>, \<open>cfe_sbr_route_unsorted.c\<close>, \<open>cfe_sbr_map_direct.c\<close>, \<open>cfe_resourceid_api.c\<close>): the state
    of the bus, its buffers, tracking lists, destinations, routes and ids. \<open>Sb_Send\<close>, \<open>Sb_Pipe\<close>
    (\<open>cfe_sb_api.c\<close>): the calls, each as the sequence of its locked sections.
  \<^item> \<open>Sb_Route\<close>, \<open>Sb_Buf\<close>, \<open>Sb_Use\<close>, \<open>Sb_Cast\<close>, \<open>Sb_Deliver\<close>: the invariants of the routes and their
    destination lists, of the two tracking lists, of the use counts, and the loop of a broadcast.
    \<open>Sb_Inv\<close>, \<open>Sb_Sect\<close>: the invariant of the whole bus and that every locked section keeps it, whatever
    references other tasks hold meanwhile.
  \<^item> \<open>Sb_Api\<close>, \<open>Sb_Calls\<close>, \<open>Sb_Props\<close>: the calls as applications see them (mailboxes, messages in hand,
    subscriptions), runs of calls, the contract \<open>fifo\<close> of a mailbox, and the properties of the bus.
  \<^item> \<open>Sb_Util\<close> (\<open>cfe_sb_util.c\<close>): user data and strings of messages. \<open>Sb_Task\<close> (\<open>cfe_sb_task.c\<close>,
    \<open>cfe_sb_dispatch.c\<close>, \<open>cfe_sb_init.c\<close>): the task of the bus, its start-up, main loop, ground commands, packets
    and files.
  \<^item> \<open>Lc_Defs\<close> (\<open>lc_tbl.h\<close>, \<open>lc_extern_typedefs.h\<close>, \<open>lc_app.h\<close>, \<open>lc_msg.h\<close>): tables and state of LC.
  \<^item> \<open>Lc_Action\<close> (\<open>lc_action.c\<close>, \<open>lc_custom.c\<close>): actionpoints, their equations against a
    four-valued logic of expressions, and the request of a sequence.
  \<^item> \<open>Lc_Watch\<close> (\<open>lc_watch.c\<close>): watchpoints, the fetch of their data and the comparisons.
  \<^item> \<open>Lc_Hash\<close> (\<open>lc_watch.c\<close>): the hash table of watchpoints by message id, its contract
    \<open>watch_index\<close>, and the checking of a message as a walk over the watchpoint table.
  \<^item> \<open>Lc_Cmds\<close> (\<open>lc_cmds.c\<close>, \<open>lc_utils.c\<close>): the message handler, the ground commands, housekeeping
    and table maintenance; the invariant of the application.
  \<^item> \<open>Sc_Defs\<close> (\<open>sc_tbldefs.h\<close>, \<open>sc_app.h\<close>, \<open>sc_msg.h\<close>, \<open>sc_utils.c\<close>): state and utilities of SC.
  \<^item> \<open>Sc_Rts\<close> (\<open>sc_rtsrq.c\<close>, \<open>sc_state.c\<close>): commands on relative sequences, the choice of the next
    one and the walk through its table.
  \<^item> \<open>Sc_Loads\<close> (\<open>sc_loads.c\<close>): validation of table images, loading, and the list of the commands of
    an absolute sequence in order of time, built by insertion.
  \<^item> \<open>Sc_Ats\<close> (\<open>sc_atsrq.c\<close>, \<open>sc_loads.c\<close>, \<open>sc_state.c\<close>): start, stop, switch, jump and append of
    absolute sequences, with the invariant of their tables.
  \<^item> \<open>Sc_Cmds\<close> (\<open>sc_cmds.c\<close>): the execution of the next command, the once-a-second loop, housekeeping,
    table management and dispatch; the invariant of the application.
  \<^item> \<open>Sc_App\<close> (\<open>sc_app.c\<close>): start-up and main loop. \<open>Sc_Spec\<close>: what SC promises, above all that a
    relative sequence is sent as its script plans.

  \<^bold>\<open>How the model corresponds to the code.\<close> The globals of an application are one record passed
  through its operations; an operation of the model has the name of the C function. An access outside
  an array, a write, and a read through a pointer and a length outside their object are \<open>None\<close>; an operation that
  returns \<open>Some\<close> made none. Fixed fields of a message, in its header or the parameters of a command, are read by
  \<open>byte_at\<close>, \<open>rd16\<close> and \<open>rd32\<close>, which give 0 outside the message: a handler reads them after its check of the size in
  the header, so with a buffer as long as the header says they are never used there. Loops over tables are
  structural recursions or \<open>for_loop\<close>; walks over table images are recursions with a measure. The
  loops that follow links of the hash table and the once-a-second loop are partial functions, where
  \<open>None\<close> also stands for a loop that does not end; that they end is part of the theorems. No fuel is
  used. What an application sends is logged in its state: commands to other applications,
  housekeeping packets, events by number, type and printed numbers, subscriptions. The rest of the
  system is a record of what its services return, arbitrary in the theorems unless they say otherwise.

  \<^bold>\<open>What the lemmas show.\<close> Each application has an invariant (\<open>lc_inv\<close>, \<open>sc_inv\<close>) that all its
  operations keep while they access only their tables, and its handler interprets \<open>app_handler\<close>.
  Table validation is exact, and loading and validation agree. The optimised parts (hash table,
  compiled equations, insertion into the time list) are equal to what they stand for. Wakeups of SC
  refine a plan made from the script of a sequence. The bus has the invariant \<open>sb_inv\<close>; the memory of its
  lists is a map from addresses, and the lemmas relate it to the lists of destinations and buffers that
  it stands for.

  \<^bold>\<open>What is assumed of the inputs.\<close> The handler of SC is shown safe for messages whose size field says
  how long they are, a clock below \<open>2 ^ 31\<close> seconds, tables that
  table services find and whose new images have the declared size and passed validation, and no
  disable command for sequence 0: that command, and a clock on the other side of
  the roll-over, break it, which is proved as well. The bus is shown safe for a memory pool and an operating system
  that give out no block and no queue id in use (\<open>pool_fresh\<close>, \<open>queue_fresh\<close>), a queue that can be emptied when
  its pipe is deleted, and callers that pass messages as long as their headers say and pointers to
  allocated buffers (\<open>sb_legal\<close>). Switching the reports of subscriptions on and off is one of the calls of a run. A run is a sequence of calls: that calls of different tasks do not
  interleave between their locked sections is assumed of the runs, not of the section lemmas.

  \<^bold>\<open>Not modelled\<close>: the text of events, performance logging, start-up of LC, the hash map of message ids that the
  software bus may be built with, the event filters of its task and the byte layout of the records in its files, the other core services and applications, the operating system layer, the
  simulators and the ground software; the manifest lists them.
\<close>

section \<open>From a limit violation to the commands of a sequence\<close>

lemma LC_RTSRequest_rts_command:
  assumes "sc_host env = en"
  shows "rts_command en 4 i (env, LC_RTSRequest en (of_nat (i + 1)))"
proof -
  let ?m = "[0x18, 0xA9, 0xC0, 0, 0, 5, 4, 0, 0, 0, 0, 0] :: bytes"
  have low: "byte_at (wr16 en ?m 8 r) k = byte_at ?m k" if "k < 8" for k r using that by simp
  show ?thesis
    using assms
    by (simp add: rts_command_def sc_command_def LC_RTSRequest_bytes CFE_MSG_GetMsgId_def CFE_MSG_GetFcnCode_def
        is_cmd_with_sechdr_def CFE_MSG_GetType_def CFE_MSG_GetHasSecondaryHeader_def CFE_MSG_GetSize_def low)
      (simp add: byte_at_def)
qed

text \<open>
  C1. An actionpoint of the limit checker that keeps failing, sampled at least as often as its limit,
  has transmitted exactly what makes the stored command processor run the sequence of its table entry:
  handed to the processor and followed by wakeups, the messages send the script of the sequence as
  planned from the time of the request. This holds when the sequence is loaded and enabled and no other
  runs.
\<close>

theorem LC_failure_runs_script:
  assumes "lc_tables_wf l" and "ap < 176" and "RPNEquation (ADT l ! ap) = rpn_compile e @ LC_RPN_EQUAL # rest"
    and "wps e \<subseteq> {..<176}" and "v_eval (WRT l) e = VTrue" and "CurrentState (ART l ! ap) = LC_APSTATE_ACTIVE"
    and "CurrentLCState l = LC_STATE_ACTIVE" and "ConsecutiveFailCount (ART l ! ap) = 0"
    and "MaxFailsBeforeRTS (ADT l ! ap) \<noteq> 0" and "unat (MaxFailsBeforeRTS (ADT l ! ap)) \<le> n" and "tx l = []"
    and "lc_host lenv = en" and "sc_host env = en" and "ADT_RTSId (ADT l ! ap) = of_nat (i + 1)"
    and "solo_ready en i s" and "startable i s" and "NextProcNumber s = SC_NONE" and "list_all (sc_wakeup en) is"
  shows "\<exists>l' s' sent. sample_again lenv ap n l = Some l' \<and>
    run_handler sc_handle s (map (Pair env) (tx l') @ is) = Some s' \<and> sc_tx s' = sc_tx s @ sent \<and>
    (sent, rts_plan en i s') = rts_wakes (map (\<lambda>j. sc_now (fst j)) is)
       (sc_now env + rd32 en (RtsTblAddr s ! i) 0, rts_script en (RtsTblAddr s ! i) 0)"
proof -
  obtain l' where l': "sample_again lenv ap n l = Some l'" "tx l' = [LC_RTSRequest en (of_nat (i + 1))]"
    using sample_failing_again [OF assms(1-9), of lenv n] assms(10-12,14) by auto
  have solo: "rts_solo en i s" and num: "NumCmdsSec s = 0" using assms(15) by (simp_all add: solo_ready_def)
  obtain s1 where s1: "sc_handle s (env, LC_RTSRequest en (of_nat (i + 1))) = Some s1" "rts_solo en i s1"
    "rts_plan en i s1 = (sc_now env + rd32 en (RtsTblAddr s ! i) 0, rts_script en (RtsTblAddr s ! i) 0)"
    "NumCmdsSec s1 = 0" "NextProcNumber s1 = SC_NONE" "sc_tx s1 = sc_tx s"
    using start_solo [OF solo assms(16) LC_RTSRequest_rts_command [OF assms(13)]] num assms(17) by auto
  then have "solo_ready en i s1" by (simp add: solo_ready_def rts_fresh_def)
  from wakeups_solo [OF this assms(18)] show ?thesis
    using l' s1 by (auto simp: prod_eq_iff)
qed

text \<open>The example tables of both applications; the actionpoint names sequence 1.\<close>

definition lc_demo1 :: lc_state where
  "lc_demo1 = lc_demo\<lparr>ADT := ap_demo\<lparr>ADT_RTSId := 1\<rparr> # replicate 175 ap_unused\<rparr>"

lemma lc_demo1_wf: "lc_tables_wf lc_demo1"
  using lc_demo_wf by (simp add: lc_demo1_def lc_tables_wf_def lc_demo_def adt_wf_def list_all_iff demo_defs)

lemma LC_failure_runs_script_witness:
  "\<exists>l' s'. sample_again lc_env_demo 0 3 lc_demo1 = Some l' \<and>
     run_handler sc_handle sc_demo (map (Pair (env_at 0)) (tx l') @ [(env_at 4, msg_1hz), (env_at 5, msg_1hz)]) = Some s' \<and>
     sc_tx s' = sc_tx sc_demo @ [demo_cmd, demo_cmd]"
proof -
  have w: "list_all (sc_wakeup LittleEndian) [(env_at 4, msg_1hz), (env_at 5, msg_1hz)]" by (simp add: demo_wakeup)
  have t: "map (\<lambda>j. sc_now (fst j)) [(env_at 4, msg_1hz), (env_at 5, msg_1hz)] = [4, 5]" by (simp add: env_at_def)
  have script: "(sc_now (env_at 0) + rd32 LittleEndian (RtsTblAddr sc_demo ! 0) 0, rts_script LittleEndian (RtsTblAddr sc_demo ! 0) 0)
      = (5, [(5, demo_cmd), (0, demo_cmd)])" by (simp add: sc_demo_fields demo_script demo_rts_words env_at_def)
  have eq: "RPNEquation (ADT lc_demo1 ! 0) = rpn_compile (WP 0) @ LC_RPN_EQUAL # replicate 18 0"
    by (simp add: lc_demo1_def ap_demo_def)
  have lc: "0 < (176::nat)" "wps (WP 0) \<subseteq> {..<176}" "v_eval (WRT lc_demo1) (WP 0) = VTrue"
    "CurrentState (ART lc_demo1 ! 0) = LC_APSTATE_ACTIVE" "CurrentLCState lc_demo1 = LC_STATE_ACTIVE"
    "ConsecutiveFailCount (ART lc_demo1 ! 0) = 0" "MaxFailsBeforeRTS (ADT lc_demo1 ! 0) \<noteq> 0"
    "unat (MaxFailsBeforeRTS (ADT lc_demo1 ! 0)) \<le> 3" "tx lc_demo1 = []" "lc_host lc_env_demo = LittleEndian"
    "sc_host (env_at 0) = LittleEndian" "ADT_RTSId (ADT lc_demo1 ! 0) = of_nat (0 + 1)"
    by (simp_all add: lc_demo1_def lc_demo_def ap_demo_def ar_clear_def wr_clear_def v_of_def lc_env_demo_def env_at_def)
  show ?thesis
    using LC_failure_runs_script [OF lc_demo1_wf lc(1) eq lc(2-12) sc_demo_ready sc_demo_startable sc_demo_fields(4) w]
    unfolding t script demo_wakes by auto
qed

end
